(* ===== verification/Prelude.thy ===== *)
theory Prelude
  imports Main "HOL-Library.Multiset" "HOL-Library.Sublist"
begin

text \<open>
  Shared vocabulary of the development.

  \<^item> Types: instants and durations are microseconds on the UTC time line (Python's
    \<open>datetime\<close> and \<open>timedelta\<close> have exactly that resolution), identifiers are \<open>int\<close>.
  \<^item> List operations of the Python standard library that the code uses: \<open>list.sort\<close> and
    \<open>sorted\<close> (stable), \<open>min\<close>/\<open>max\<close> with a key (the first extremal element wins),
    \<open>sorted(set(xs))\<close>, and last-wins dictionary comprehensions.
  \<^item> Interfaces: \<open>comparator3\<close>, the contract of a three-way comparison function handed to
    \<open>cmp_to_key\<close>, and \<open>invariant_system\<close>, the contract of a step relation with an
    inductive invariant. The components interpret them on their own definitions.
\<close>

type_synonym datetime = int
type_synonym timedelta = int

definition seconds :: "int \<Rightarrow> timedelta" where
  "seconds n = n * 1000000"

definition minutes :: "int \<Rightarrow> timedelta" where
  "minutes n = seconds (60 * n)"

definition hours :: "int \<Rightarrow> timedelta" where
  "hours n = minutes (60 * n)"

definition fromtimestamp :: "int \<Rightarrow> datetime" where
  "fromtimestamp s = seconds s"

named_theorems time_defs
declare seconds_def [time_defs] minutes_def [time_defs] hours_def [time_defs]
  fromtimestamp_def [time_defs]

section \<open>Stable sorting by a relation\<close>

text \<open>
  \<open>list.sort\<close> is stable: elements the order does not separate keep their relative input order,
  also with \<open>reverse=True\<close>. On a total preorder the stable result is unique, so insertion sort
  computes what Timsort computes.
\<close>

fun insort_by :: "('a \<Rightarrow> 'a \<Rightarrow> bool) \<Rightarrow> 'a \<Rightarrow> 'a list \<Rightarrow> 'a list" where
  "insort_by le x [] = [x]"
| "insort_by le x (y # ys) = (if le x y then x # y # ys else y # insort_by le x ys)"

fun sort_by :: "('a \<Rightarrow> 'a \<Rightarrow> bool) \<Rightarrow> 'a list \<Rightarrow> 'a list" where
  "sort_by le [] = []"
| "sort_by le (x # xs) = insort_by le x (sort_by le xs)"

lemma mset_insort_by [simp]: "mset (insort_by le x xs) = add_mset x (mset xs)"
  by (induction xs) auto

lemma mset_sort_by [simp]: "mset (sort_by le xs) = mset xs"
  by (induction xs) auto

lemma set_insort_by [simp]: "set (insort_by le x xs) = insert x (set xs)"
  by (induction xs) auto

lemma set_sort_by [simp]: "set (sort_by le xs) = set xs"
  by (induction xs) auto

lemma length_sort_by [simp]: "length (sort_by le xs) = length xs"
  using mset_sort_by[of le xs] by (metis size_mset)

lemma insort_by_sorted:
  assumes total: "\<And>a b. le a b \<or> le b a"
    and trans: "\<And>a b c. le a b \<Longrightarrow> le b c \<Longrightarrow> le a c"
  shows "sorted_wrt le xs \<Longrightarrow> sorted_wrt le (insort_by le x xs)"
proof (induction xs)
  case (Cons y ys)
  show ?case
  proof (cases "le x y")
    case True
    with Cons.prems show ?thesis by (auto intro: trans)
  next
    case False
    with total have "le y x" by blast
    with Cons False show ?thesis by auto
  qed
qed simp

lemma sort_by_sorted:
  assumes "\<And>a b. le a b \<or> le b a" and "\<And>a b c. le a b \<Longrightarrow> le b c \<Longrightarrow> le a c"
  shows "sorted_wrt le (sort_by le xs)"
proof (induction xs)
  case (Cons x xs)
  then show ?case using insort_by_sorted[of le, OF assms] by simp
qed simp

text \<open>Stability: within a class of mutually equivalent elements the input order survives.\<close>

lemma filter_insort_by:
  assumes "\<And>a b. P a \<Longrightarrow> P b \<Longrightarrow> le a b"
  shows "filter P (insort_by le x xs) = (if P x then x # filter P xs else filter P xs)"
  using assms by (induction xs) auto

lemma sort_by_stable:
  assumes "\<And>a b. P a \<Longrightarrow> P b \<Longrightarrow> le a b"
  shows "filter P (sort_by le xs) = filter P xs"
  using assms by (induction xs) (auto simp: filter_insort_by)

section \<open>First extremal element by a key\<close>

text \<open>\<open>max(xs, key=f)\<close> and \<open>min(xs, key=f)\<close> on a non-empty list: the first extremal element.\<close>

fun py_max_key :: "('a \<Rightarrow> 'k::linorder) \<Rightarrow> 'a \<Rightarrow> 'a list \<Rightarrow> 'a" where
  "py_max_key f best [] = best"
| "py_max_key f best (x # xs) = py_max_key f (if f best < f x then x else best) xs"

fun py_min_key :: "('a \<Rightarrow> 'k::linorder) \<Rightarrow> 'a \<Rightarrow> 'a list \<Rightarrow> 'a" where
  "py_min_key f best [] = best"
| "py_min_key f best (x # xs) = py_min_key f (if f x < f best then x else best) xs"

lemma py_max_key_in: "py_max_key f b xs \<in> set (b # xs)"
proof (induction xs arbitrary: b)
  case (Cons x xs)
  show ?case using Cons[of b] Cons[of x] by auto
qed simp

lemma py_max_key_ge: "y \<in> set (b # xs) \<Longrightarrow> f y \<le> f (py_max_key f b xs)"
proof (induction xs arbitrary: b y)
  case (Cons x xs)
  let ?b = "if f b < f x then x else b"
  have "f ?b \<le> f (py_max_key f ?b xs)" by (rule Cons.IH) simp
  with Cons.prems Cons.IH[of y ?b] show ?case by (auto split: if_splits)
qed simp

lemma py_min_key_in: "py_min_key f b xs \<in> set (b # xs)"
proof (induction xs arbitrary: b)
  case (Cons x xs)
  show ?case using Cons[of b] Cons[of x] by auto
qed simp

lemma py_min_key_le: "y \<in> set (b # xs) \<Longrightarrow> f (py_min_key f b xs) \<le> f y"
proof (induction xs arbitrary: b y)
  case (Cons x xs)
  let ?b = "if f x < f b then x else b"
  have "f (py_min_key f ?b xs) \<le> f ?b" by (rule Cons.IH) simp
  with Cons.prems Cons.IH[of y ?b] show ?case by (auto split: if_splits)
qed simp

section \<open>Sorted duplicate-free tuples, dictionaries, distinct keys\<close>

definition sorted_set :: "'a::linorder list \<Rightarrow> 'a list" where
  "sorted_set xs = sort (remdups xs)"

lemma set_sorted_set [simp]: "set (sorted_set xs) = set xs"
  by (simp add: sorted_set_def)

lemma distinct_sorted_set [simp]: "distinct (sorted_set xs)"
  by (simp add: sorted_set_def)

lemma sorted_sorted_set [simp]: "sorted (sorted_set xs)"
  by (simp add: sorted_set_def)

lemma sorted_set_eq_Nil [simp]: "sorted_set xs = [] \<longleftrightarrow> xs = []"
  by (metis set_empty set_sorted_set)

text \<open>\<open>{k(x): x for x in xs}\<close>: a later element replaces an earlier one with the same key.\<close>

definition dict_by :: "('a \<Rightarrow> 'k) \<Rightarrow> 'a list \<Rightarrow> 'k \<Rightarrow> 'a option" where
  "dict_by key xs k = find (\<lambda>x. key x = k) (rev xs)"

lemma dict_by_SomeD: "dict_by key xs k = Some x \<Longrightarrow> x \<in> set xs \<and> key x = k"
  by (auto simp: dict_by_def find_Some_iff) (metis nth_mem set_rev length_rev)

lemma dict_by_None_iff: "dict_by key xs k = None \<longleftrightarrow> (\<forall>x \<in> set xs. key x \<noteq> k)"
  by (auto simp: dict_by_def find_None_iff)

lemma dict_by_distinct:
  assumes "distinct (map key xs)" and "x \<in> set xs"
  shows "dict_by key xs (key x) = Some x"
proof (cases "dict_by key xs (key x)")
  case None
  with assms(2) show ?thesis by (auto simp: dict_by_None_iff)
next
  case (Some y)
  from dict_by_SomeD[OF this] assms show ?thesis
    using Some by (metis distinct_map inj_onD)
qed

section \<open>Three-way comparators\<close>

definition cmp_key :: "('a \<Rightarrow> 'k::linorder) \<Rightarrow> 'a \<Rightarrow> 'a \<Rightarrow> int" where
  "cmp_key f x y = (if f y < f x then 1 else if f x < f y then -1 else 0)"

definition cmp_then :: "('a \<Rightarrow> 'a \<Rightarrow> int) \<Rightarrow> ('a \<Rightarrow> 'a \<Rightarrow> int) \<Rightarrow> 'a \<Rightarrow> 'a \<Rightarrow> int" where
  "cmp_then c d x y = (if c x y \<noteq> 0 then c x y else d x y)"

text \<open>\<open>accepted.sort(key=cmp_to_key(c), reverse=True)\<close>.\<close>

definition sort_desc :: "('a \<Rightarrow> 'a \<Rightarrow> int) \<Rightarrow> 'a list \<Rightarrow> 'a list" where
  "sort_desc c = sort_by (\<lambda>x y. 0 \<le> c x y)"

lemma mset_sort_desc [simp]: "mset (sort_desc c xs) = mset xs"
  by (simp add: sort_desc_def)

lemma set_sort_desc [simp]: "set (sort_desc c xs) = set xs"
  by (simp add: sort_desc_def)

lemma length_sort_desc [simp]: "length (sort_desc c xs) = length xs"
  by (simp add: sort_desc_def)

locale comparator3 =
  fixes cmp :: "'a \<Rightarrow> 'a \<Rightarrow> int"
  assumes cmp_flip: "cmp y x = - cmp x y"
    and cmp_trans: "0 \<le> cmp x y \<Longrightarrow> 0 \<le> cmp y z \<Longrightarrow> 0 \<le> cmp x z"
begin

lemma cmp_refl [simp]: "cmp x x = 0"
  using cmp_flip[of x x] by simp

lemma cmp_total: "0 \<le> cmp x y \<or> 0 \<le> cmp y x"
  using cmp_flip[of x y] by linarith

lemma cmp_strict_trans: "0 < cmp x y \<Longrightarrow> 0 \<le> cmp y z \<Longrightarrow> 0 < cmp x z"
  using cmp_trans[of x y z] cmp_trans[of y z x] cmp_flip[of x z] cmp_flip[of y x]
  by linarith

lemma cmp_strict_trans': "0 \<le> cmp x y \<Longrightarrow> 0 < cmp y z \<Longrightarrow> 0 < cmp x z"
  using cmp_trans[of x y z] cmp_trans[of z x y] cmp_flip[of x z] cmp_flip[of z y]
  by linarith

lemma cmp_eq_trans: "cmp x y = 0 \<Longrightarrow> cmp y z = 0 \<Longrightarrow> cmp x z = 0"
  using cmp_trans[of x y z] cmp_trans[of z y x] cmp_flip[of x z] cmp_flip[of z y]
    cmp_flip[of y x] by linarith

lemma sort_desc_sorted: "sorted_wrt (\<lambda>x y. 0 \<le> cmp x y) (sort_desc cmp xs)"
  unfolding sort_desc_def by (rule sort_by_sorted) (rule cmp_total, rule cmp_trans)

lemma sort_desc_stable:
  "filter (\<lambda>y. cmp x y = 0) (sort_desc cmp xs) = filter (\<lambda>y. cmp x y = 0) xs"
  unfolding sort_desc_def
proof (rule sort_by_stable)
  fix a b assume "cmp x a = 0" "cmp x b = 0"
  then have "cmp a b = 0" using cmp_flip[of a x] cmp_eq_trans[of a x b] by simp
  then show "0 \<le> cmp a b" by simp
qed

end

text \<open>Comparison by a key is a comparator, and so is a lexicographic combination of two.\<close>

lemma comparator3_key: "comparator3 (cmp_key f)"
  by unfold_locales (auto simp: cmp_key_def split: if_splits)

lemma comparator3_then:
  assumes "comparator3 c" and "comparator3 d"
  shows "comparator3 (cmp_then c d)"
proof -
  note flip = comparator3.cmp_flip[OF assms(1)] comparator3.cmp_flip[OF assms(2)]
  show ?thesis
  proof (unfold_locales, goal_cases)
    case (1 y x)
    show ?case using flip(1)[of y x] flip(2)[of y x] by (simp add: cmp_then_def)
  next
    case (2 x y z)
    consider "0 < c x y" "0 \<le> c y z" | "0 \<le> c x y" "0 < c y z" | "c x y = 0" "c y z = 0"
      using 2 by (fastforce simp: cmp_then_def split: if_splits)
    then show ?case
    proof cases
      case 1
      then have "0 < c x z" by (rule comparator3.cmp_strict_trans[OF assms(1)])
      then show ?thesis by (simp add: cmp_then_def)
    next
      case 2
      then have "0 < c x z" by (rule comparator3.cmp_strict_trans'[OF assms(1)])
      then show ?thesis by (simp add: cmp_then_def)
    next
      case 3
      then have "c x z = 0" by (rule comparator3.cmp_eq_trans[OF assms(1)])
      moreover have "0 \<le> d x z"
        using 2 3 comparator3.cmp_trans[OF assms(2), of x y z] by (simp add: cmp_then_def)
      ultimately show ?thesis by (simp add: cmp_then_def)
    qed
  qed
qed

section \<open>Step relations with an invariant\<close>

inductive reachable :: "('s \<Rightarrow> bool) \<Rightarrow> ('s \<Rightarrow> 's \<Rightarrow> bool) \<Rightarrow> 's \<Rightarrow> bool"
  for init :: "'s \<Rightarrow> bool" and step :: "'s \<Rightarrow> 's \<Rightarrow> bool" where
  reach_init: "init s \<Longrightarrow> reachable init step s"
| reach_step: "reachable init step s \<Longrightarrow> step s t \<Longrightarrow> reachable init step t"

lemma reach_steps: "step\<^sup>*\<^sup>* s t \<Longrightarrow> reachable init step s \<Longrightarrow> reachable init step t"
  by (induction rule: rtranclp_induct) (auto intro: reach_step)

locale invariant_system =
  fixes init :: "'s \<Rightarrow> bool" and step :: "'s \<Rightarrow> 's \<Rightarrow> bool" and inv :: "'s \<Rightarrow> bool"
  assumes inv_init: "init s \<Longrightarrow> inv s"
    and inv_step: "inv s \<Longrightarrow> step s t \<Longrightarrow> inv t"
begin

lemma reachable_inv: "reachable init step s \<Longrightarrow> inv s"
  by (induction rule: reachable.induct) (auto intro: inv_init inv_step)

lemma steps_inv: "inv s \<Longrightarrow> step\<^sup>*\<^sup>* s t \<Longrightarrow> inv t"
  by (rotate_tac, induction rule: rtranclp_induct) (auto intro: inv_step)

end

end
