(* ===== verification/Quality.thy ===== *)
theory Quality
  imports Prelude
begin

text \<open>
  The quality taxonomy (\<open>domain/quality.py\<close>), the ordered profile with its hard cutoff
  (\<open>domain/quality_profile.py\<close>) and the quality gate with the profile-ordered comparison
  (\<open>domain/quality_service.py\<close>).

  The \<open>IntEnum\<close>s are datatypes with their integer value as a function; \<open>Resolution\<close>, whose values
  are meant to be compared, is instantiated as a linear order by that value. \<open>compare_by_profile\<close>
  is shown to be a comparator in the sense of \<open>comparator3\<close>.
\<close>

section \<open>Taxonomy\<close>

datatype quality_source =
    Src_UNKNOWN | Src_CAM | Src_TELESYNC | Src_TELECINE | Src_WORKPRINT
  | Src_DVD | Src_TV | Src_WEBDL | Src_WEBRIP | Src_BLURAY

datatype resolution =
    Res_UNKNOWN | Res_R360P | Res_R480P | Res_R540P | Res_R576P | Res_R720P | Res_R1080P | Res_R2160P

datatype modifier =
    Mod_NONE | Mod_REGIONAL | Mod_SCREENER | Mod_RAWHD | Mod_BRDISK | Mod_REMUX

fun source_value :: "quality_source \<Rightarrow> int" where
  "source_value Src_UNKNOWN = 0"
| "source_value Src_CAM = 1"
| "source_value Src_TELESYNC = 2"
| "source_value Src_TELECINE = 3"
| "source_value Src_WORKPRINT = 4"
| "source_value Src_DVD = 5"
| "source_value Src_TV = 6"
| "source_value Src_WEBDL = 7"
| "source_value Src_WEBRIP = 8"
| "source_value Src_BLURAY = 9"

fun resolution_value :: "resolution \<Rightarrow> int" where
  "resolution_value Res_UNKNOWN = 0"
| "resolution_value Res_R360P = 360"
| "resolution_value Res_R480P = 480"
| "resolution_value Res_R540P = 540"
| "resolution_value Res_R576P = 576"
| "resolution_value Res_R720P = 720"
| "resolution_value Res_R1080P = 1080"
| "resolution_value Res_R2160P = 2160"

fun modifier_value :: "modifier \<Rightarrow> int" where
  "modifier_value Mod_NONE = 0"
| "modifier_value Mod_REGIONAL = 1"
| "modifier_value Mod_SCREENER = 2"
| "modifier_value Mod_RAWHD = 3"
| "modifier_value Mod_BRDISK = 4"
| "modifier_value Mod_REMUX = 5"

lemma resolution_value_inject: "resolution_value a = resolution_value b \<longleftrightarrow> a = b"
  by (cases a; cases b) simp_all

instantiation resolution :: linorder
begin

definition less_eq_resolution :: "resolution \<Rightarrow> resolution \<Rightarrow> bool" where
  "less_eq_resolution a b = (resolution_value a \<le> resolution_value b)"

definition less_resolution :: "resolution \<Rightarrow> resolution \<Rightarrow> bool" where
  "less_resolution a b = (resolution_value a < resolution_value b)"

instance
  by standard (auto simp: less_eq_resolution_def less_resolution_def resolution_value_inject)

end

datatype quality = Quality
  (q_id: int) (q_name: string) (q_source: quality_source) (q_resolution: resolution)
  (q_modifier: modifier) (q_weight: int)

definition Q_UNKNOWN :: quality where
  "Q_UNKNOWN = Quality 0 ''Unknown'' Src_UNKNOWN Res_UNKNOWN Mod_NONE 1"

definition Q_WORKPRINT :: quality where
  "Q_WORKPRINT = Quality 24 ''WORKPRINT'' Src_WORKPRINT Res_UNKNOWN Mod_NONE 2"

definition Q_CAM :: quality where
  "Q_CAM = Quality 25 ''CAM'' Src_CAM Res_UNKNOWN Mod_NONE 3"

definition Q_TELESYNC :: quality where
  "Q_TELESYNC = Quality 26 ''TELESYNC'' Src_TELESYNC Res_UNKNOWN Mod_NONE 4"

definition Q_TELECINE :: quality where
  "Q_TELECINE = Quality 27 ''TELECINE'' Src_TELECINE Res_UNKNOWN Mod_NONE 5"

definition Q_REGIONAL :: quality where
  "Q_REGIONAL = Quality 29 ''REGIONAL'' Src_DVD Res_R480P Mod_REGIONAL 6"

definition Q_DVDSCR :: quality where
  "Q_DVDSCR = Quality 28 ''DVDSCR'' Src_DVD Res_R480P Mod_SCREENER 7"

definition Q_SDTV :: quality where
  "Q_SDTV = Quality 1 ''SDTV'' Src_TV Res_R480P Mod_NONE 8"

definition Q_DVD :: quality where
  "Q_DVD = Quality 2 ''DVD'' Src_DVD Res_UNKNOWN Mod_NONE 9"

definition Q_DVDR :: quality where
  "Q_DVDR = Quality 23 ''DVD-R'' Src_DVD Res_R480P Mod_REMUX 10"

definition Q_WEBDL480P :: quality where
  "Q_WEBDL480P = Quality 8 ''WEBDL-480p'' Src_WEBDL Res_R480P Mod_NONE 11"

definition Q_WEBRIP480P :: quality where
  "Q_WEBRIP480P = Quality 12 ''WEBRip-480p'' Src_WEBRIP Res_R480P Mod_NONE 11"

definition Q_BLURAY480P :: quality where
  "Q_BLURAY480P = Quality 20 ''Bluray-480p'' Src_BLURAY Res_R480P Mod_NONE 12"

definition Q_BLURAY576P :: quality where
  "Q_BLURAY576P = Quality 21 ''Bluray-576p'' Src_BLURAY Res_R576P Mod_NONE 13"

definition Q_HDTV720P :: quality where
  "Q_HDTV720P = Quality 4 ''HDTV-720p'' Src_TV Res_R720P Mod_NONE 14"

definition Q_WEBDL720P :: quality where
  "Q_WEBDL720P = Quality 5 ''WEBDL-720p'' Src_WEBDL Res_R720P Mod_NONE 15"

definition Q_WEBRIP720P :: quality where
  "Q_WEBRIP720P = Quality 14 ''WEBRip-720p'' Src_WEBRIP Res_R720P Mod_NONE 15"

definition Q_BLURAY720P :: quality where
  "Q_BLURAY720P = Quality 6 ''Bluray-720p'' Src_BLURAY Res_R720P Mod_NONE 16"

definition Q_HDTV1080P :: quality where
  "Q_HDTV1080P = Quality 9 ''HDTV-1080p'' Src_TV Res_R1080P Mod_NONE 17"

definition Q_WEBDL1080P :: quality where
  "Q_WEBDL1080P = Quality 3 ''WEBDL-1080p'' Src_WEBDL Res_R1080P Mod_NONE 18"

definition Q_WEBRIP1080P :: quality where
  "Q_WEBRIP1080P = Quality 15 ''WEBRip-1080p'' Src_WEBRIP Res_R1080P Mod_NONE 18"

definition Q_BLURAY1080P :: quality where
  "Q_BLURAY1080P = Quality 7 ''Bluray-1080p'' Src_BLURAY Res_R1080P Mod_NONE 19"

definition Q_REMUX1080P :: quality where
  "Q_REMUX1080P = Quality 30 ''Remux-1080p'' Src_BLURAY Res_R1080P Mod_REMUX 20"

definition Q_HDTV2160P :: quality where
  "Q_HDTV2160P = Quality 16 ''HDTV-2160p'' Src_TV Res_R2160P Mod_NONE 21"

definition Q_WEBDL2160P :: quality where
  "Q_WEBDL2160P = Quality 18 ''WEBDL-2160p'' Src_WEBDL Res_R2160P Mod_NONE 22"

definition Q_WEBRIP2160P :: quality where
  "Q_WEBRIP2160P = Quality 17 ''WEBRip-2160p'' Src_WEBRIP Res_R2160P Mod_NONE 22"

definition Q_BLURAY2160P :: quality where
  "Q_BLURAY2160P = Quality 19 ''Bluray-2160p'' Src_BLURAY Res_R2160P Mod_NONE 23"

definition Q_REMUX2160P :: quality where
  "Q_REMUX2160P = Quality 31 ''Remux-2160p'' Src_BLURAY Res_R2160P Mod_REMUX 24"

definition Q_BRDISK :: quality where
  "Q_BRDISK = Quality 22 ''BR-DISK'' Src_BLURAY Res_R1080P Mod_BRDISK 25"

definition Q_RAWHD :: quality where
  "Q_RAWHD = Quality 10 ''Raw-HD'' Src_TV Res_R1080P Mod_RAWHD 26"

definition ALL_QUALITIES :: "quality list" where
  "ALL_QUALITIES = [
    Q_UNKNOWN, Q_WORKPRINT, Q_CAM, Q_TELESYNC, Q_TELECINE,
    Q_REGIONAL, Q_DVDSCR, Q_SDTV, Q_DVD, Q_DVDR,
    Q_WEBRIP480P, Q_WEBDL480P, Q_BLURAY480P, Q_BLURAY576P, Q_HDTV720P,
    Q_WEBRIP720P, Q_WEBDL720P, Q_BLURAY720P, Q_HDTV1080P, Q_WEBRIP1080P,
    Q_WEBDL1080P, Q_BLURAY1080P, Q_REMUX1080P, Q_HDTV2160P, Q_WEBRIP2160P,
    Q_WEBDL2160P, Q_BLURAY2160P, Q_REMUX2160P, Q_BRDISK, Q_RAWHD]"

lemmas quality_consts =
  Q_UNKNOWN_def Q_WORKPRINT_def Q_CAM_def Q_TELESYNC_def Q_TELECINE_def
  Q_REGIONAL_def Q_DVDSCR_def Q_SDTV_def Q_DVD_def Q_DVDR_def
  Q_WEBDL480P_def Q_WEBRIP480P_def Q_BLURAY480P_def Q_BLURAY576P_def Q_HDTV720P_def
  Q_WEBDL720P_def Q_WEBRIP720P_def Q_BLURAY720P_def Q_HDTV1080P_def Q_WEBDL1080P_def
  Q_WEBRIP1080P_def Q_BLURAY1080P_def Q_REMUX1080P_def Q_HDTV2160P_def Q_WEBDL2160P_def
  Q_WEBRIP2160P_def Q_BLURAY2160P_def Q_REMUX2160P_def Q_BRDISK_def Q_RAWHD_def

definition QUALITY_BY_ID :: "int \<Rightarrow> quality option" where
  "QUALITY_BY_ID = dict_by q_id ALL_QUALITIES"

section \<open>Profile\<close>

definition DISALLOWED_BY_DEFAULT_IDS :: "int set" where
  "DISALLOWED_BY_DEFAULT_IDS = set (map q_id (filter (\<lambda>q. q_weight q < q_weight Q_SDTV) ALL_QUALITIES))"

record quality_profile_item =
  item_quality_id :: int
  item_allowed :: bool

record quality_profile =
  prof_id :: int
  prof_name :: string
  cutoff_quality_id :: int
  prof_items :: "quality_profile_item list"
  min_format_score :: int
  upgrade_allowed :: bool

fun index_from :: "nat \<Rightarrow> quality_profile_item list \<Rightarrow> int \<Rightarrow> nat option" where
  "index_from i [] qid = None"
| "index_from i (item # items) qid =
     (if item_quality_id item = qid then Some i else index_from (Suc i) items qid)"

definition get_index :: "quality_profile \<Rightarrow> int \<Rightarrow> nat option" where
  "get_index profile qid = index_from 0 (prof_items profile) qid"

definition default_profile :: quality_profile where
  "default_profile =
     \<lparr>prof_id = 1, prof_name = ''Default'', cutoff_quality_id = q_id Q_WEBDL1080P,
      prof_items = map (\<lambda>q. \<lparr>item_quality_id = q_id q,
        item_allowed = (q_id q \<notin> DISALLOWED_BY_DEFAULT_IDS)\<rparr>) ALL_QUALITIES,
      min_format_score = 0, upgrade_allowed = True\<rparr>"

section \<open>Gate and comparison\<close>

datatype rejection_reason =
    QUALITY_NOT_WANTED | FORMAT_SCORE_TOO_LOW | NO_QUALITY_DETECTED | BLOCKLISTED | WRONG_MEDIA
  | MULTI_SEASON_PACK | NOT_SEASON_PACK | EPISODE_NOT_NEEDED

record quality_verdict =
  verdict_accepted :: bool
  verdict_reason :: "rejection_reason option"
  verdict_quality :: quality

definition check_quality :: "quality \<Rightarrow> quality_profile \<Rightarrow> quality_verdict" where
  "check_quality quality profile =
     (case get_index profile (q_id quality) of
        None \<Rightarrow> \<lparr>verdict_accepted = False, verdict_reason = Some QUALITY_NOT_WANTED,
                  verdict_quality = quality\<rparr>
      | Some index \<Rightarrow>
          if \<not> item_allowed (prof_items profile ! index)
          then \<lparr>verdict_accepted = False, verdict_reason = Some QUALITY_NOT_WANTED,
                 verdict_quality = quality\<rparr>
          else \<lparr>verdict_accepted = True, verdict_reason = None, verdict_quality = quality\<rparr>)"

definition compare_by_profile :: "quality \<Rightarrow> quality \<Rightarrow> quality_profile \<Rightarrow> int" where
  "compare_by_profile a b profile =
     (case (get_index profile (q_id a), get_index profile (q_id b)) of
        (None, None) \<Rightarrow> 0
      | (None, Some _) \<Rightarrow> -1
      | (Some _, None) \<Rightarrow> 1
      | (Some ia, Some ib) \<Rightarrow> of_bool (ib < ia) - of_bool (ia < ib))"

section \<open>Lemmas\<close>

lemma index_from_SomeD:
  "index_from i items qid = Some j \<Longrightarrow>
     i \<le> j \<and> j < i + length items \<and> item_quality_id (items ! (j - i)) = qid"
proof (induction items arbitrary: i)
  case (Cons item items)
  show ?case
  proof (cases "item_quality_id item = qid")
    case True
    with Cons.prems show ?thesis by simp
  next
    case False
    with Cons.prems have "index_from (Suc i) items qid = Some j" by simp
    then have "Suc i \<le> j \<and> j < Suc i + length items \<and> item_quality_id (items ! (j - Suc i)) = qid"
      by (rule Cons.IH)
    then show ?thesis by (auto simp: nth_Cons' Suc_diff_Suc)
  qed
qed simp

lemma index_from_None_iff:
  "index_from i items qid = None \<longleftrightarrow> qid \<notin> item_quality_id ` set items"
  by (induction items arbitrary: i) auto

lemma get_index_SomeD:
  "get_index p qid = Some j \<Longrightarrow>
     j < length (prof_items p) \<and> item_quality_id (prof_items p ! j) = qid"
  using index_from_SomeD[of 0 "prof_items p" qid j] by (simp add: get_index_def)

lemma get_index_None_iff: "get_index p qid = None \<longleftrightarrow> qid \<notin> item_quality_id ` set (prof_items p)"
  by (simp add: get_index_def index_from_None_iff)

lemma check_quality_accepted_iff:
  "verdict_accepted (check_quality q p) \<longleftrightarrow>
     (\<exists>j. get_index p (q_id q) = Some j \<and> item_allowed (prof_items p ! j))"
  by (simp add: check_quality_def split: option.splits)

lemma check_quality_reason:
  "verdict_reason (check_quality q p) =
     (if verdict_accepted (check_quality q p) then None else Some QUALITY_NOT_WANTED)"
  by (simp add: check_quality_def split: option.splits)

definition profile_rank :: "quality_profile \<Rightarrow> quality \<Rightarrow> int" where
  "profile_rank p q = (case get_index p (q_id q) of None \<Rightarrow> -1 | Some i \<Rightarrow> int i)"

lemma compare_by_profile_key: "compare_by_profile a b p = cmp_key (profile_rank p) a b"
  by (simp add: compare_by_profile_def cmp_key_def profile_rank_def split: option.splits)

interpretation profile_cmp: comparator3 "\<lambda>a b. compare_by_profile a b p" for p
  unfolding compare_by_profile_key by (rule comparator3_key)

text \<open>The registry, evaluated.\<close>

lemma all_qualities_sorted: "sorted (map q_weight ALL_QUALITIES)"
  by (simp add: ALL_QUALITIES_def quality_consts)

lemma all_qualities_ids: "distinct (map q_id ALL_QUALITIES)"
  by (simp add: ALL_QUALITIES_def quality_consts)

lemma disallowed_ids: "DISALLOWED_BY_DEFAULT_IDS = {0, 24, 25, 26, 27, 28, 29}"
  by (simp add: DISALLOWED_BY_DEFAULT_IDS_def ALL_QUALITIES_def quality_consts insert_commute)

lemma index_from_map:
  assumes "distinct (map q_id qs)" and "k < length qs"
  shows "index_from i (map (\<lambda>q. \<lparr>item_quality_id = q_id q, item_allowed = a q\<rparr>) qs) (q_id (qs ! k))
     = Some (i + k)"
  using assms
proof (induction qs arbitrary: i k)
  case (Cons q qs)
  show ?case
  proof (cases k)
    case (Suc m)
    with Cons.prems have "q_id q \<noteq> q_id (qs ! m)" by (auto simp: image_iff)
    with Suc Cons show ?thesis by simp
  qed simp
qed simp

lemma default_profile_index:
  "k < length ALL_QUALITIES \<Longrightarrow> get_index default_profile (q_id (ALL_QUALITIES ! k)) = Some k"
  using index_from_map[OF all_qualities_ids, of k 0] by (simp add: get_index_def default_profile_def)

lemma default_profile_known_id:
  assumes "get_index default_profile qid = Some j"
  shows "j < length ALL_QUALITIES" and "q_id (ALL_QUALITIES ! j) = qid"
  using get_index_SomeD[OF assms] by (auto simp: default_profile_def)

lemma default_profile_gate:
  "verdict_accepted (check_quality q default_profile) \<longleftrightarrow>
     q_id q \<in> q_id ` set ALL_QUALITIES \<and> q_id q \<notin> DISALLOWED_BY_DEFAULT_IDS"
proof (cases "get_index default_profile (q_id q)")
  case None
  then have "q_id q \<notin> q_id ` set ALL_QUALITIES"
    by (auto simp: get_index_None_iff default_profile_def image_iff)
  with None show ?thesis by (simp add: check_quality_accepted_iff)
next
  case (Some j)
  note j = default_profile_known_id[OF Some]
  have "q_id q \<in> q_id ` set ALL_QUALITIES" using j by (metis image_eqI nth_mem)
  moreover have "item_allowed (prof_items default_profile ! j) \<longleftrightarrow> q_id q \<notin> DISALLOWED_BY_DEFAULT_IDS"
    using j by (simp add: default_profile_def)
  ultimately show ?thesis using Some by (simp add: check_quality_accepted_iff)
qed

end
