(* ===== verification/PyStr.thy ===== *)
theory PyStr
  imports Prelude
begin

text \<open>
  The part of Python's \<open>str\<close>, \<open>int\<close> and \<open>re\<close> that the code uses.

  A Python string is modelled as a list of the code points U+0000 to U+00FF (Latin-1), one
  \<open>char\<close> each, so \<open>length\<close> counts code points as Python does. On that range the operations
  below are the ones of CPython: which code points are white space (class \<open>s\<close>, \<open>str.strip\<close>), word
  characters (boundary \<open>b\<close>) and decimal digits, and how \<open>lower\<close> and \<open>casefold\<close> act. The one code point
  whose folded form leaves the range is U+00B5 (micro sign); it is kept as it is, which is the same
  for every equality test on folded strings because no other code point of the range folds there.
  Titles with code points above U+00FF are outside the model.

  Regular expressions are terms of a small datatype without unbounded repetition, matched by an
  ordered backtracking matcher, and related to an inductive reading of the same patterns.
\<close>

section \<open>Code points\<close>

definition code :: "char \<Rightarrow> int" where
  "code c = of_char c"

definition is_space :: "char \<Rightarrow> bool" where
  "is_space c = (let n = code c in
     (9 \<le> n \<and> n \<le> 13) \<or> (28 \<le> n \<and> n \<le> 32) \<or> n = 133 \<or> n = 160)"

definition is_digit :: "char \<Rightarrow> bool" where
  "is_digit c = (48 \<le> code c \<and> code c \<le> 57)"

definition is_word :: "char \<Rightarrow> bool" where
  "is_word c = (let n = code c in
     (48 \<le> n \<and> n \<le> 57) \<or> (65 \<le> n \<and> n \<le> 90) \<or> n = 95 \<or> (97 \<le> n \<and> n \<le> 122)
     \<or> n \<in> {170, 178, 179, 181, 185, 186, 188, 189, 190}
     \<or> (192 \<le> n \<and> n \<noteq> 215 \<and> n \<noteq> 247))"

definition lower_char :: "char \<Rightarrow> char" where
  "lower_char c = (let n = code c in
     if (65 \<le> n \<and> n \<le> 90) \<or> (192 \<le> n \<and> n \<le> 222 \<and> n \<noteq> 215) then char_of (n + 32) else c)"

definition py_lower :: "string \<Rightarrow> string" where
  "py_lower = map lower_char"

definition fold_char :: "char \<Rightarrow> string" where
  "fold_char c = (if code c = 223 then ''ss'' else [lower_char c])"

definition casefold :: "string \<Rightarrow> string" where
  "casefold s = concat (map fold_char s)"

lemma code_mod: "code c mod 256 = code c"
  using of_char_of[of "code c"] by (simp add: code_def)

lemma code_less [simp]: "code c < 256"
  using code_mod[of c] by (metis pos_mod_bound zero_less_numeral)

lemma code_nonneg [simp]: "0 \<le> code c"
  using code_mod[of c] by (metis pos_mod_sign zero_less_numeral)

lemma code_char_of [simp]: "0 \<le> n \<Longrightarrow> n < 256 \<Longrightarrow> code (char_of n) = n"
  by (simp add: code_def of_char_of)

lemma code_inject: "code a = code b \<longleftrightarrow> a = b"
  by (simp add: code_def)

lemma code_lower_char:
  "code (lower_char c) =
     (if (65 \<le> code c \<and> code c \<le> 90) \<or> (192 \<le> code c \<and> code c \<le> 222 \<and> code c \<noteq> 215)
      then code c + 32 else code c)"
  by (simp add: lower_char_def Let_def)

lemma lower_char_idem [simp]: "lower_char (lower_char c) = lower_char c"
  by (subst code_inject[symmetric]) (simp add: code_lower_char)

lemma py_lower_idem [simp]: "py_lower (py_lower s) = py_lower s"
  by (simp add: py_lower_def)

lemma length_py_lower [simp]: "length (py_lower s) = length s"
  by (simp add: py_lower_def)

lemma fold_char_lower: "code c \<noteq> 223 \<Longrightarrow> fold_char c = [lower_char c]"
  by (simp add: fold_char_def)

lemma casefold_append [simp]: "casefold (s @ t) = casefold s @ casefold t"
  by (simp add: casefold_def)

lemma casefold_Nil [simp]: "casefold [] = []"
  by (simp add: casefold_def)

lemma casefold_eq_Nil [simp]: "casefold s = [] \<longleftrightarrow> s = []"
  by (cases s) (simp_all add: casefold_def fold_char_def)

lemma casefold_idem [simp]: "casefold (casefold s) = casefold s"
proof (induction s)
  case (Cons c s)
  have "casefold (fold_char c) = fold_char c"
  proof (cases "code c = 223")
    case True
    then show ?thesis by (simp add: fold_char_def casefold_def lower_char_def code_def)
  next
    case False
    then have "code (lower_char c) \<noteq> 223" by (simp add: code_lower_char)
    with False show ?thesis by (simp add: fold_char_def casefold_def)
  qed
  with Cons show ?case by (simp add: casefold_def)
qed simp

section \<open>Strings\<close>

text \<open>\<open>s.strip()\<close> and \<open>s.strip(chars)\<close>; \<open>pat in s\<close>; \<open>s.replace(old, new)\<close> for a non-empty \<open>old\<close>.\<close>

definition strip_by :: "(char \<Rightarrow> bool) \<Rightarrow> string \<Rightarrow> string" where
  "strip_by p s = rev (dropWhile p (rev (dropWhile p s)))"

definition py_strip :: "string \<Rightarrow> string" where
  "py_strip = strip_by is_space"

fun py_in :: "string \<Rightarrow> string \<Rightarrow> bool" where
  "py_in pat [] = (pat = [])"
| "py_in pat (c # s) = (prefix pat (c # s) \<or> py_in pat s)"

function py_replace :: "string \<Rightarrow> string \<Rightarrow> string \<Rightarrow> string" where
  "py_replace old new s =
     (if old = [] \<or> s = [] then s
      else if prefix old s then new @ py_replace old new (drop (length old) s)
      else hd s # py_replace old new (tl s))"
  by pat_completeness auto
termination
  by (relation "measure (\<lambda>(old, new, s). length s)") auto

declare py_replace.simps [simp del]

text \<open>\<open>re.sub("[...]+", " ", s)\<close> for a character class: every maximal run becomes one blank.\<close>

fun collapse_runs :: "(char \<Rightarrow> bool) \<Rightarrow> bool \<Rightarrow> string \<Rightarrow> string" where
  "collapse_runs p inrun [] = []"
| "collapse_runs p inrun (c # s) =
     (if p c then (if inrun then collapse_runs p True s else CHR '' '' # collapse_runs p True s)
      else c # collapse_runs p False s)"

lemma py_in_sublist: "py_in pat s \<longleftrightarrow> sublist pat s"
  by (induction s) (auto simp: sublist_Cons_right)

lemma strip_by_ends:
  assumes "strip_by p s \<noteq> []"
  shows "\<not> p (hd (strip_by p s))" and "\<not> p (last (strip_by p s))"
proof -
  let ?t = "dropWhile p s"
  have ne: "dropWhile p (rev ?t) \<noteq> []" using assms by (simp add: strip_by_def)
  then have "\<not> p (hd (dropWhile p (rev ?t)))" by (rule hd_dropWhile)
  then show "\<not> p (last (strip_by p s))" using ne by (simp add: strip_by_def last_rev)
  from ne have "?t \<noteq> []" by (cases ?t) simp_all
  then have np: "\<not> p (hd ?t)" by (rule hd_dropWhile)
  have "takeWhile p (rev ?t) @ dropWhile p (rev ?t) = rev ?t" by simp
  then have "?t = rev (dropWhile p (rev ?t)) @ rev (takeWhile p (rev ?t))"
    by (metis rev_append rev_rev_ident)
  then have "hd ?t = hd (rev (dropWhile p (rev ?t)))" using ne by (metis hd_append rev_is_Nil_conv)
  with np show "\<not> p (hd (strip_by p s))" by (simp add: strip_by_def)
qed

lemma set_strip_by: "set (strip_by p s) \<subseteq> set s"
proof
  fix x assume "x \<in> set (strip_by p s)"
  then have "x \<in> set (rev (dropWhile p s))" by (auto simp: strip_by_def dest: set_dropWhileD)
  then show "x \<in> set s" by (auto dest: set_dropWhileD)
qed

text \<open>
  \<open>repr(s)\<close>: the quote is a double quote exactly when the string has a single quote and no double
  quote; the quote, the backslash and the non-printable code points are escaped.
\<close>

definition hex_digit :: "int \<Rightarrow> char" where
  "hex_digit d = (if d < 10 then char_of (48 + d) else char_of (87 + d))"

definition repr_char :: "char \<Rightarrow> char \<Rightarrow> string" where
  "repr_char q c = (let n = code c in
     if c = q \<or> n = 92 then [char_of (92::int), c]
     else if n = 9 then [char_of (92::int), CHR ''t'']
     else if n = 10 then [char_of (92::int), CHR ''n'']
     else if n = 13 then [char_of (92::int), CHR ''r'']
     else if n < 32 \<or> (127 \<le> n \<and> n \<le> 160) \<or> n = 173
       then [char_of (92::int), CHR ''x'', hex_digit (n div 16), hex_digit (n mod 16)]
     else [c])"

definition py_repr :: "string \<Rightarrow> string" where
  "py_repr s = (let q = (if char_of (39::int) \<in> set s \<and> char_of (34::int) \<notin> set s
                         then char_of (34::int) else char_of (39::int))
     in [q] @ concat (map (repr_char q) s) @ [q])"

section \<open>Integers as text\<close>

definition digit_char :: "nat \<Rightarrow> char" where
  "digit_char d = char_of (48 + int d)"

definition digit_val :: "char \<Rightarrow> nat" where
  "digit_val c = nat (code c - 48)"

fun nat_str :: "nat \<Rightarrow> string" where
  "nat_str n = (if n < 10 then [digit_char n] else nat_str (n div 10) @ [digit_char (n mod 10)])"

declare nat_str.simps [simp del]

definition py_str_int :: "int \<Rightarrow> string" where
  "py_str_int i = (if i < 0 then CHR ''-'' # nat_str (nat (- i)) else nat_str (nat i))"

text \<open>\<open>f"{i:02d}"\<close>.\<close>

definition pad2 :: "int \<Rightarrow> string" where
  "pad2 i = (if 0 \<le> i \<and> i < 10 then CHR ''0'' # py_str_int i else py_str_int i)"

definition nat_of_digits :: "string \<Rightarrow> nat" where
  "nat_of_digits s = foldl (\<lambda>n c. 10 * n + digit_val c) 0 s"

text \<open>
  \<open>int(s)\<close>: surrounding white space, one sign, digits with single underscores between them; \<open>None\<close>
  is the \<open>ValueError\<close>.
\<close>

fun int_digits :: "string \<Rightarrow> string option" where
  "int_digits [] = None"
| "int_digits [c] = (if is_digit c then Some [c] else None)"
| "int_digits (c # d # s) =
     (if \<not> is_digit c then None
      else map_option (Cons c) (int_digits (if d = CHR ''_'' then s else d # s)))"

definition py_int :: "string \<Rightarrow> int option" where
  "py_int s = (case py_strip s of
       [] \<Rightarrow> None
     | c # r \<Rightarrow>
         if c = CHR ''-'' then map_option (\<lambda>d. - int (nat_of_digits d)) (int_digits r)
         else if c = CHR ''+'' then map_option (\<lambda>d. int (nat_of_digits d)) (int_digits r)
         else map_option (\<lambda>d. int (nat_of_digits d)) (int_digits (c # r)))"

lemma is_digit_digit_char [simp]: "d < 10 \<Longrightarrow> is_digit (digit_char d)"
  by (simp add: is_digit_def digit_char_def)

lemma digit_val_digit_char [simp]: "d < 10 \<Longrightarrow> digit_val (digit_char d) = d"
  by (simp add: digit_val_def digit_char_def)

lemma nat_of_digits_snoc [simp]: "nat_of_digits (s @ [c]) = 10 * nat_of_digits s + digit_val c"
  by (simp add: nat_of_digits_def)

lemma nat_of_digits_Nil [simp]: "nat_of_digits [] = 0"
  by (simp add: nat_of_digits_def)

lemma nat_str_digits: "list_all is_digit (nat_str n)"
proof (induction n rule: nat_str.induct)
  case (1 n)
  then show ?case by (subst nat_str.simps) auto
qed

lemma nat_str_nonempty [simp]: "nat_str n \<noteq> []"
  by (subst nat_str.simps) simp

lemma nat_of_digits_nat_str [simp]: "nat_of_digits (nat_str n) = n"
proof (induction n rule: nat_str.induct)
  case (1 n)
  show ?case
  proof (cases "n < 10")
    case True
    then show ?thesis
      using nat_of_digits_snoc[of "[]" "digit_char n"] by (subst nat_str.simps) simp
  next
    case False
    with 1 show ?thesis by (subst nat_str.simps) simp
  qed
qed

lemma nat_str_inject: "nat_str m = nat_str n \<longleftrightarrow> m = n"
  by (metis nat_of_digits_nat_str)

end
