(* ===== verification/Release.thy ===== *)
theory Release
  imports Quality PyStr
begin

text \<open>
  The data shapes of \<open>domain/release.py\<close>. A parsed season or episode is \<open>None\<close>, an \<open>int\<close> or a
  \<open>list[int]\<close>, which is the datatype \<open>num_field\<close>; optional fields are options, tuples are lists. The
  display score of a scored release is the float of an integer rank and is kept as that integer.
\<close>

datatype num_field = NoNum | OneNum int | ManyNum "int list"

record revision =
  rev_version :: int
  rev_is_repack :: bool
  rev_real :: int

record parsed_release =
  raw_title :: string
  pr_clean_title :: string
  pr_year :: "int option"
  pr_season :: num_field
  pr_episode :: num_field
  pr_source :: quality_source
  pr_resolution :: resolution
  pr_modifier :: modifier
  pr_revision :: revision
  release_group :: "string option"
  pr_languages :: "string list"
  pr_edition :: "string option"
  hardcoded_subs :: "string option"

definition is_cam_or_prerelease :: "parsed_release \<Rightarrow> bool" where
  "is_cam_or_prerelease p =
     (pr_source p \<in> {Src_CAM, Src_TELESYNC, Src_TELECINE, Src_WORKPRINT})"

datatype protocol = Torrent | Usenet

record candidate_release =
  guid :: string
  cand_title :: string
  size_bytes :: int
  download_url :: "string option"
  magnet_url :: "string option"
  cand_info_hash :: "string option"
  seeders :: "int option"
  leechers :: "int option"
  indexer_id :: int
  indexer_name :: string
  indexer_priority :: int
  publish_date :: datetime
  imdb_id :: int
  cand_tmdb_id :: int
  categories :: "int list"
  cand_protocol :: protocol

datatype search_media_type = SearchMovie | SearchTv | SearchText

record indexer_search_request =
  search_media_type :: search_media_type
  search_query :: "string option"
  search_tmdb_id :: "int option"
  search_imdb_id :: "string option"
  search_tvdb_id :: "int option"
  search_year :: "int option"
  search_season :: "int option"
  search_episode :: "string option"
  search_categories :: "int list"
  search_indexer_ids :: "int list"

record scored_release =
  sc_candidate :: candidate_release
  sc_parsed :: parsed_release
  sc_quality :: quality
  profile_index :: int
  score :: int
  covered_seasons :: "int list"
  target_seasons :: "int list"
  upgrade_seasons :: "int list"
  waste_seasons :: "int list"
  ignored_seasons :: "int list"
  skipped_seasons :: "int list"

end
