(* ===== verification/Regex.thy ===== *)
theory Regex
  imports PyStr
begin

text \<open>
  The regular expressions of the code: literals compared without regard to case, the separator
  classes, digits, word boundaries, anchors, sequence, ordered alternative, greedy option,
  look-ahead and one capture group. \<open>rx_match\<close> lists every way a pattern matches at a position in
  the order in which Python's backtracking matcher would find them, \<open>rx_search\<close> is \<open>re.search\<close> and
  \<open>rx_finditer\<close> is \<open>re.finditer\<close>. A position is a pair of the reversed text before it and the text
  after it, so anchors and boundaries see their context.

  \<open>rx_den\<close> is the declarative reading; \<open>rx_match_den\<close> shows the matcher finds exactly those matches.
\<close>

datatype rx =
    REps
  | RLit char
  | RCls "char list"
  | RSep
  | RDigit
  | RWordB
  | RBol
  | REol
  | RSeq rx rx
  | RAlt rx rx
  | ROpt rx
  | RLook rx
  | RCap rx

text \<open>The separator class: white space, dot, underscore, hyphen.\<close>

definition is_sep :: "char \<Rightarrow> bool" where
  "is_sep c = (is_space c \<or> c \<in> {CHR ''.'', CHR ''_'', CHR ''-''})"

definition lit_match :: "char \<Rightarrow> char \<Rightarrow> bool" where
  "lit_match l c = (lower_char c = lower_char l)"

definition at_boundary :: "string \<Rightarrow> string \<Rightarrow> bool" where
  "at_boundary p s =
     ((case p of [] \<Rightarrow> False | c # _ \<Rightarrow> is_word c) \<noteq> (case s of [] \<Rightarrow> False | c # _ \<Rightarrow> is_word c))"

definition at_end :: "string \<Rightarrow> bool" where
  "at_end s = (s = [] \<or> s = [CHR 0x0A])"

type_synonym pos = "string \<times> string"

definition eat :: "(char \<Rightarrow> bool) \<Rightarrow> pos \<Rightarrow> pos list" where
  "eat ok ps = (case ps of (p, s) \<Rightarrow>
     (case s of [] \<Rightarrow> [] | c # r \<Rightarrow> if ok c then [(c # p, r)] else []))"

fun rx_match :: "rx \<Rightarrow> pos \<times> string \<Rightarrow> (pos \<times> string) list" where
  "rx_match REps (ps, cap) = [(ps, cap)]"
| "rx_match (RLit l) (ps, cap) = map (\<lambda>q. (q, cap)) (eat (lit_match l) ps)"
| "rx_match (RCls cs) (ps, cap) = map (\<lambda>q. (q, cap)) (eat (\<lambda>c. c \<in> set cs) ps)"
| "rx_match RSep (ps, cap) = map (\<lambda>q. (q, cap)) (eat is_sep ps)"
| "rx_match RDigit (ps, cap) = map (\<lambda>q. (q, cap)) (eat is_digit ps)"
| "rx_match RWordB (ps, cap) = (if at_boundary (fst ps) (snd ps) then [(ps, cap)] else [])"
| "rx_match RBol (ps, cap) = (if fst ps = [] then [(ps, cap)] else [])"
| "rx_match REol (ps, cap) = (if at_end (snd ps) then [(ps, cap)] else [])"
| "rx_match (RSeq a b) st = concat (map (rx_match b) (rx_match a st))"
| "rx_match (RAlt a b) st = rx_match a st @ rx_match b st"
| "rx_match (ROpt a) st = rx_match a st @ [st]"
| "rx_match (RLook a) st = (if rx_match a st = [] then [] else [st])"
| "rx_match (RCap a) (ps, cap) =
     map (\<lambda>(q, _). (q, take (length (snd ps) - length (snd q)) (snd ps))) (rx_match a (ps, cap))"

definition rx_first :: "rx \<Rightarrow> pos \<Rightarrow> (pos \<times> string) option" where
  "rx_first r ps = (case rx_match r (ps, []) of [] \<Rightarrow> None | m # _ \<Rightarrow> Some m)"

text \<open>\<open>pattern.search\<close>: the leftmost position with a match, and the preferred match there.\<close>

fun rx_find :: "rx \<Rightarrow> string \<Rightarrow> string \<Rightarrow> (string \<times> string) option" where
  "rx_find r p [] = map_option (\<lambda>(_, cap). ([], cap)) (rx_first r (p, []))"
| "rx_find r p (c # s) =
     (case rx_first r (p, c # s) of
        Some ((_, rest), cap) \<Rightarrow> Some (take (length (c # s) - length rest) (c # s), cap)
      | None \<Rightarrow> rx_find r (c # p) s)"

definition rx_search :: "rx \<Rightarrow> string \<Rightarrow> bool" where
  "rx_search r s = (rx_find r [] s \<noteq> None)"

text \<open>\<open>pattern.finditer\<close>: matched text and captured group of the successive matches.\<close>

function rx_iter :: "rx \<Rightarrow> string \<Rightarrow> string \<Rightarrow> (string \<times> string) list" where
  "rx_iter r p s =
     (case rx_first r (p, s) of
        Some ((p', rest), cap) \<Rightarrow>
          if length rest < length s
          then (take (length s - length rest) s, cap) # rx_iter r p' rest
          else ([], cap) # (case s of [] \<Rightarrow> [] | c # t \<Rightarrow> rx_iter r (c # p) t)
      | None \<Rightarrow> (case s of [] \<Rightarrow> [] | c # t \<Rightarrow> rx_iter r (c # p) t))"
  by pat_completeness auto
termination
  by (relation "measure (\<lambda>(r, p, s). length s)") auto

declare rx_iter.simps [simp del]

definition rx_finditer :: "rx \<Rightarrow> string \<Rightarrow> (string \<times> string) list" where
  "rx_finditer r s = rx_iter r [] s"

text \<open>Pattern builders: a literal word, a sequence, an alternative, one separator at most.\<close>

definition rlits :: "string \<Rightarrow> rx" where
  "rlits w = foldr (\<lambda>c r. RSeq (RLit c) r) w REps"

definition rseq :: "rx list \<Rightarrow> rx" where
  "rseq rs = foldr RSeq rs REps"

fun ralts :: "rx list \<Rightarrow> rx" where
  "ralts [] = RCls []"
| "ralts [r] = r"
| "ralts (r # rs) = RAlt r (ralts rs)"

section \<open>Declarative reading\<close>

inductive rx_den :: "rx \<Rightarrow> pos \<Rightarrow> pos \<Rightarrow> bool" where
  den_eps: "rx_den REps q q"
| den_lit: "lit_match l c \<Longrightarrow> rx_den (RLit l) (p, c # s) (c # p, s)"
| den_cls: "c \<in> set cs \<Longrightarrow> rx_den (RCls cs) (p, c # s) (c # p, s)"
| den_sep: "is_sep c \<Longrightarrow> rx_den RSep (p, c # s) (c # p, s)"
| den_digit: "is_digit c \<Longrightarrow> rx_den RDigit (p, c # s) (c # p, s)"
| den_wordb: "at_boundary p s \<Longrightarrow> rx_den RWordB (p, s) (p, s)"
| den_bol: "rx_den RBol ([], s) ([], s)"
| den_eol: "at_end s \<Longrightarrow> rx_den REol (p, s) (p, s)"
| den_seq: "rx_den a q1 q2 \<Longrightarrow> rx_den b q2 q3 \<Longrightarrow> rx_den (RSeq a b) q1 q3"
| den_altl: "rx_den a q1 q2 \<Longrightarrow> rx_den (RAlt a b) q1 q2"
| den_altr: "rx_den b q1 q2 \<Longrightarrow> rx_den (RAlt a b) q1 q2"
| den_opt: "rx_den a q1 q2 \<Longrightarrow> rx_den (ROpt a) q1 q2"
| den_optn: "rx_den (ROpt a) q q"
| den_look: "rx_den a q1 q2 \<Longrightarrow> rx_den (RLook a) q1 q1"
| den_cap: "rx_den a q1 q2 \<Longrightarrow> rx_den (RCap a) q1 q2"

inductive_simps rx_den_simps [simp]:
  "rx_den REps q1 q2" "rx_den (RLit l) q1 q2" "rx_den (RCls cs) q1 q2" "rx_den RSep q1 q2"
  "rx_den RDigit q1 q2" "rx_den RWordB q1 q2" "rx_den RBol q1 q2" "rx_den REol q1 q2"
  "rx_den (RSeq a b) q1 q2" "rx_den (RAlt a b) q1 q2" "rx_den (ROpt a) q1 q2"
  "rx_den (RLook a) q1 q2" "rx_den (RCap a) q1 q2"

lemma set_eat: "q \<in> set (eat ok ps) \<longleftrightarrow> (\<exists>p c s. ps = (p, c # s) \<and> ok c \<and> q = (c # p, s))"
  by (cases ps) (auto simp: eat_def split: list.splits)

text \<open>The first components found do not depend on the incoming capture.\<close>

lemma rx_match_den: "q \<in> fst ` set (rx_match r (ps, cap)) \<longleftrightarrow> rx_den r ps q"
proof (induction r arbitrary: ps cap q)
  case (RSeq a b)
  have "q \<in> fst ` set (rx_match (RSeq a b) (ps, cap)) \<longleftrightarrow>
      (\<exists>m \<in> set (rx_match a (ps, cap)). q \<in> fst ` set (rx_match b m))"
    by auto
  also have "\<dots> \<longleftrightarrow> (\<exists>m \<in> set (rx_match a (ps, cap)). rx_den b (fst m) q)"
    using RSeq.IH(2) by (metis prod.collapse)
  also have "\<dots> \<longleftrightarrow> (\<exists>q'. rx_den a ps q' \<and> rx_den b q' q)"
    using RSeq.IH(1)[of _ ps cap] by (auto simp: image_iff) (metis fst_conv)+
  finally show ?case by simp
next
  case (RAlt a b)
  then show ?case by (auto simp: image_Un)
next
  case (ROpt a)
  then show ?case by (auto simp: image_Un)
next
  case (RLook a)
  show ?case
  proof (cases "rx_match a (ps, cap)")
    case Nil
    with RLook[of _ ps cap] show ?thesis by auto
  next
    case (Cons m ms)
    with RLook[of "fst m" ps cap] have "rx_den a ps (fst m)" by simp
    then have "\<exists>a' b'. rx_den a ps (a', b')" by (metis prod.collapse)
    with Cons show ?thesis by auto
  qed
next
  case (RCap a)
  have "fst ` set (rx_match (RCap a) (ps, cap)) = fst ` set (rx_match a (ps, cap))"
    by (auto simp: image_iff split: prod.splits) force+
  with RCap show ?case by simp
qed (auto simp: set_eat image_iff split: if_splits)

lemma rx_first_None_iff: "rx_first r ps = None \<longleftrightarrow> (\<forall>q. \<not> rx_den r ps q)"
proof -
  have "rx_first r ps = None \<longleftrightarrow> rx_match r (ps, []) = []"
    by (simp add: rx_first_def split: list.splits)
  also have "\<dots> \<longleftrightarrow> (\<forall>q. q \<notin> fst ` set (rx_match r (ps, [])))" by auto
  finally show ?thesis by (simp add: rx_match_den)
qed

lemma rx_find_Some_iff:
  "rx_find r p s \<noteq> None \<longleftrightarrow> (\<exists>u v q. s = u @ v \<and> rx_den r (rev u @ p, v) q)"
proof (induction s arbitrary: p)
  case Nil
  have "rx_find r p [] \<noteq> None \<longleftrightarrow> (\<exists>q. rx_den r (p, []) q)"
    using rx_first_None_iff[of r "(p, [])"] by auto
  then show ?case by simp
next
  case (Cons c s)
  show ?case
  proof (cases "rx_first r (p, c # s)")
    case None
    then have no: "\<not> rx_den r (p, c # s) q" for q
      unfolding rx_first_None_iff by blast
    have "(\<exists>u v q. c # s = u @ v \<and> rx_den r (rev u @ p, v) q) \<longleftrightarrow>
        (\<exists>u v q. s = u @ v \<and> rx_den r (rev u @ c # p, v) q)" (is "?L \<longleftrightarrow> ?R")
    proof
      assume ?L
      then obtain u v q where "c # s = u @ v" "rx_den r (rev u @ p, v) q" by blast
      moreover from this no obtain w where "u = c # w" by (cases u) auto
      ultimately have "s = w @ v" "rx_den r (rev w @ c # p, v) q" by auto
      then show ?R by blast
    next
      assume ?R
      then obtain u v q where "s = u @ v" "rx_den r (rev (c # u) @ p, v) q" by auto
      then show ?L by (metis append_Cons)
    qed
    with None Cons show ?thesis by simp
  next
    case (Some m)
    then obtain q where "rx_den r (p, c # s) q" using rx_first_None_iff by (metis option.distinct(1))
    then have "\<exists>u v q. c # s = u @ v \<and> rx_den r (rev u @ p, v) q" by (metis append_Nil rev.simps(1))
    moreover have "rx_find r p (c # s) \<noteq> None" using Some by (auto split: prod.splits)
    ultimately show ?thesis by blast
  qed
qed

text \<open>\<open>search\<close> succeeds iff the pattern matches after some prefix of the text.\<close>

lemma rx_search_iff: "rx_search r s \<longleftrightarrow> (\<exists>u v q. s = u @ v \<and> rx_den r (rev u, v) q)"
  using rx_find_Some_iff[of r "[]" s] by (simp add: rx_search_def)

lemma rx_den_rlits:
  "rx_den (rlits w) (p, s) q \<longleftrightarrow>
     (\<exists>x t. s = x @ t \<and> list_all2 lit_match w x \<and> q = (rev x @ p, t))"
proof (induction w arbitrary: p s q)
  case Nil
  then show ?case by (auto simp: rlits_def)
next
  case (Cons l w)
  have "rx_den (rlits (l # w)) (p, s) q \<longleftrightarrow>
      (\<exists>c t. s = c # t \<and> lit_match l c \<and> rx_den (rlits w) (c # p, t) q)"
    by (auto simp: rlits_def)
  also have "\<dots> \<longleftrightarrow> (\<exists>c y t. s = c # y @ t \<and> lit_match l c \<and> list_all2 lit_match w y
      \<and> q = (rev (c # y) @ p, t))"
    by (auto simp: Cons.IH)
  also have "\<dots> \<longleftrightarrow> (\<exists>x t. s = x @ t \<and> list_all2 lit_match (l # w) x \<and> q = (rev x @ p, t))"
    by (auto simp: list_all2_Cons1)
  finally show ?case .
qed

end
