(* ===== verification/SourceMapping.thy ===== *)
theory SourceMapping
  imports Release Regex
begin

text \<open>
  From a guessit field mapping to the quality taxonomy (\<open>domain/source_mapping.py\<close>), and the parser
  adapter that feeds it (\<open>adapters/parser/guessit_adapter.py\<close>).

  guessit is a third-party package: it appears as the argument \<open>guessit\<close>, a function from a name to
  \<open>Some\<close> field mapping, or \<open>None\<close> where the call raises, and nothing is assumed of it. A field value
  is a Python object as far as the mapper looks at it: \<open>None\<close>, a bool, an int, a str, any other object
  by its \<open>str()\<close>, or a list or tuple of those.

  The two reject nets are instances of \<open>down_only_net\<close>, the interface of a keyword table that can
  only force a value into a fixed set of reject tiers.
\<close>

section \<open>Field values\<close>

datatype scalar = VNone | VBool bool | VInt int | VStr string | VObj string

datatype pyobj = Scalar scalar | Seq "scalar list"

type_synonym guess_fields = "string \<rightharpoonup> pyobj"

definition fget :: "guess_fields \<Rightarrow> string \<Rightarrow> pyobj" where
  "fget flds key = (case flds key of None \<Rightarrow> Scalar VNone | Some v \<Rightarrow> v)"

fun py_str :: "scalar \<Rightarrow> string" where
  "py_str VNone = ''None''"
| "py_str (VBool b) = (if b then ''True'' else ''False'')"
| "py_str (VInt i) = py_str_int i"
| "py_str (VStr s) = s"
| "py_str (VObj s) = s"

fun as_str_list :: "pyobj \<Rightarrow> string list" where
  "as_str_list (Scalar VNone) = []"
| "as_str_list (Scalar (VStr s)) = [s]"
| "as_str_list (Seq xs) = map py_str xs"
| "as_str_list (Scalar v) = [py_str v]"

section \<open>Tables\<close>

definition SOURCE_MAP :: "string \<rightharpoonup> quality_source" where
  "SOURCE_MAP = map_of [
     (''Camera'', Src_CAM), (''HD Camera'', Src_CAM),
     (''Telesync'', Src_TELESYNC), (''HD Telesync'', Src_TELESYNC),
     (''Telecine'', Src_TELECINE), (''HD Telecine'', Src_TELECINE),
     (''Workprint'', Src_WORKPRINT), (''DVD'', Src_DVD),
     (''HDTV'', Src_TV), (''Analog HDTV'', Src_TV), (''Satellite'', Src_TV), (''Digital TV'', Src_TV),
     (''Blu-ray'', Src_BLURAY), (''Ultra HD Blu-ray'', Src_BLURAY)]"

definition word_rx :: "string \<Rightarrow> rx" where
  "word_rx w = rseq [RWordB, rlits w, RWordB]"

definition word_sep_rx :: "string \<Rightarrow> string \<Rightarrow> rx" where
  "word_sep_rx a b = rseq [RWordB, rlits a, ROpt RSep, rlits b, RWordB]"

definition REJECT_NET :: "(rx \<times> quality_source) list" where
  "REJECT_NET = [
     (word_sep_rx ''HD'' ''TS'', Src_TELESYNC),
     (word_sep_rx ''TS'' ''RIP'', Src_TELESYNC),
     (word_rx ''TELESYNC'', Src_TELESYNC),
     (word_sep_rx ''HD'' ''TC'', Src_TELECINE),
     (word_sep_rx ''TC'' ''RIP'', Src_TELECINE),
     (word_rx ''TELECINE'', Src_TELECINE),
     (word_sep_rx ''WORK'' ''PRINT'', Src_WORKPRINT),
     (word_sep_rx ''HQ'' ''CAM'', Src_CAM),
     (word_sep_rx ''HD'' ''CAM'', Src_CAM),
     (word_sep_rx ''CAM'' ''RIP'', Src_CAM),
     (word_sep_rx ''PRE'' ''DVD'', Src_CAM),
     (word_rx ''PDVD'', Src_CAM),
     (word_rx ''CAMERA'', Src_CAM)]"

definition REJECT_SOURCES :: "quality_source set" where
  "REJECT_SOURCES = {Src_CAM, Src_TELESYNC, Src_TELECINE, Src_WORKPRINT}"

definition REJECT_MODIFIER_NET :: "(rx \<times> modifier) list" where
  "REJECT_MODIFIER_NET = [
     (word_sep_rx ''DVD'' ''SCR'', Mod_SCREENER),
     (word_sep_rx ''BD'' ''SCR'', Mod_SCREENER),
     (word_rx ''SCREENER'', Mod_SCREENER),
     (word_rx ''SCR'', Mod_SCREENER),
     (word_rx ''R5'', Mod_REGIONAL),
     (word_rx ''R6'', Mod_REGIONAL)]"

definition REJECT_MODIFIERS :: "modifier set" where
  "REJECT_MODIFIERS = {Mod_SCREENER, Mod_REGIONAL}"

definition RESOLUTION_BY_HEIGHT :: "int \<rightharpoonup> resolution" where
  "RESOLUTION_BY_HEIGHT = map_of [
     (360, Res_R360P), (480, Res_R480P), (540, Res_R540P), (576, Res_R576P), (720, Res_R720P),
     (1080, Res_R1080P), (2160, Res_R2160P)]"

fun REJECT_QUALITY_BY_SOURCE :: "quality_source \<Rightarrow> quality option" where
  "REJECT_QUALITY_BY_SOURCE Src_CAM = Some Q_CAM"
| "REJECT_QUALITY_BY_SOURCE Src_TELESYNC = Some Q_TELESYNC"
| "REJECT_QUALITY_BY_SOURCE Src_TELECINE = Some Q_TELECINE"
| "REJECT_QUALITY_BY_SOURCE Src_WORKPRINT = Some Q_WORKPRINT"
| "REJECT_QUALITY_BY_SOURCE _ = None"

section \<open>Nets\<close>

fun net_lookup :: "(rx \<times> 'a) list \<Rightarrow> string \<Rightarrow> 'a option" where
  "net_lookup [] title = None"
| "net_lookup ((pattern, tier) # table) title =
     (if rx_search pattern title then Some tier else net_lookup table title)"

definition reject_net :: "string \<Rightarrow> quality_source option" where
  "reject_net title = net_lookup REJECT_NET title"

definition reject_modifier_net :: "string \<Rightarrow> modifier option" where
  "reject_modifier_net title = net_lookup REJECT_MODIFIER_NET title"

section \<open>Field mappers\<close>

definition others :: "guess_fields \<Rightarrow> string list" where
  "others flds = map casefold (as_str_list (fget flds ''other''))"

definition base_source :: "guess_fields \<Rightarrow> quality_source" where
  "base_source flds = (case fget flds ''source'' of
       Scalar (VStr raw) \<Rightarrow>
         if raw = ''Web'' then (if ''rip'' \<in> set (others flds) then Src_WEBRIP else Src_WEBDL)
         else (case SOURCE_MAP raw of None \<Rightarrow> Src_UNKNOWN | Some s \<Rightarrow> s)
     | _ \<Rightarrow> Src_UNKNOWN)"

definition map_source :: "guess_fields \<Rightarrow> string \<Rightarrow> quality_source" where
  "map_source flds title = (case reject_net title of Some forced \<Rightarrow> forced | None \<Rightarrow> base_source flds)"

definition height_rx :: rx where
  "height_rx = RCap (rseq [RDigit, RDigit, RDigit, ROpt RDigit])"

definition map_resolution :: "guess_fields \<Rightarrow> resolution" where
  "map_resolution flds = (case fget flds ''screen_size'' of
       Scalar (VStr screen_size) \<Rightarrow>
         (case rx_find height_rx [] screen_size of
            None \<Rightarrow> Res_UNKNOWN
          | Some (_, grp) \<Rightarrow>
              (case RESOLUTION_BY_HEIGHT (int (nat_of_digits grp)) of
                 None \<Rightarrow> Res_UNKNOWN | Some r \<Rightarrow> r))
     | _ \<Rightarrow> Res_UNKNOWN)"

definition map_modifier :: "guess_fields \<Rightarrow> string \<Rightarrow> modifier" where
  "map_modifier flds title =
     (if ''screener'' \<in> set (others flds) then Mod_SCREENER
      else if list_ex (py_in ''region'') (others flds) then Mod_REGIONAL
      else (case reject_modifier_net title of
              Some forced \<Rightarrow> forced
            | None \<Rightarrow> if ''remux'' \<in> set (others flds) then Mod_REMUX else Mod_NONE))"

definition proper_version :: "pyobj \<Rightarrow> int" where
  "proper_version v = (case v of
       Scalar (VInt i) \<Rightarrow> i + 1
     | Scalar (VBool b) \<Rightarrow> of_bool b + 1
     | Scalar (VStr s) \<Rightarrow> (case py_int s of None \<Rightarrow> 1 | Some i \<Rightarrow> i + 1)
     | _ \<Rightarrow> 1)"

definition map_revision :: "guess_fields \<Rightarrow> string \<Rightarrow> revision" where
  "map_revision flds title =
     \<lparr>rev_version = proper_version (fget flds ''proper_count''),
      rev_is_repack = rx_search (word_rx ''REPACK'') title,
      rev_real = int (length (rx_finditer (word_rx ''REAL'') title))\<rparr>"

definition map_fields :: "guess_fields \<Rightarrow> string \<Rightarrow> quality_source \<times> resolution \<times> modifier \<times> revision" where
  "map_fields flds title =
     (map_source flds title, map_resolution flds, map_modifier flds title,
      map_revision flds title)"

definition coerce_year :: "pyobj \<Rightarrow> int option" where
  "coerce_year v = (case v of
       Scalar (VInt i) \<Rightarrow> Some i
     | Scalar (VBool b) \<Rightarrow> Some (of_bool b)
     | Scalar (VStr s) \<Rightarrow> py_int s
     | _ \<Rightarrow> None)"

definition coerce_str :: "pyobj \<Rightarrow> string option" where
  "coerce_str v = (case v of Scalar (VStr s) \<Rightarrow> Some s | _ \<Rightarrow> None)"

fun ints_of :: "scalar list \<Rightarrow> int list" where
  "ints_of [] = []"
| "ints_of (VInt i # xs) = i # ints_of xs"
| "ints_of (_ # xs) = ints_of xs"

definition coerce_season :: "pyobj \<Rightarrow> num_field" where
  "coerce_season v = (case v of
       Scalar (VInt i) \<Rightarrow> OneNum i
     | Seq xs \<Rightarrow> (if ints_of xs = [] then NoNum else ManyNum (ints_of xs))
     | _ \<Rightarrow> NoNum)"

definition coerce_episode :: "pyobj \<Rightarrow> num_field" where
  "coerce_episode v = (case v of
       Scalar (VInt i) \<Rightarrow> OneNum i
     | Seq xs \<Rightarrow> (if ints_of xs = [] then NoNum else ManyNum (ints_of xs))
     | _ \<Rightarrow> NoNum)"

definition to_parsed_release :: "guess_fields \<Rightarrow> string \<Rightarrow> parsed_release" where
  "to_parsed_release flds title =
     (case map_fields flds title of (src, res, md, revn) \<Rightarrow>
       \<lparr>raw_title = title,
        pr_clean_title = (case coerce_str (fget flds ''title'') of
            None \<Rightarrow> title | Some t \<Rightarrow> if t = [] then title else t),
        pr_year = coerce_year (fget flds ''year''),
        pr_season = coerce_season (fget flds ''season''),
        pr_episode = coerce_episode (fget flds ''episode''),
        pr_source = src, pr_resolution = res, pr_modifier = md, pr_revision = revn,
        release_group = coerce_str (fget flds ''release_group''),
        pr_languages = as_str_list (fget flds ''language''),
        pr_edition = coerce_str (fget flds ''edition''),
        hardcoded_subs = None\<rparr>)"

definition parse :: "(string \<Rightarrow> guess_fields option) \<Rightarrow> string \<Rightarrow> parsed_release" where
  "parse guessit name =
     to_parsed_release (case guessit name of None \<Rightarrow> Map.empty | Some flds \<Rightarrow> flds) name"

section \<open>Resolving a named quality\<close>

definition remux_arm :: "quality_source \<Rightarrow> resolution \<Rightarrow> quality option" where
  "remux_arm src res =
     (if src \<in> {Src_BLURAY, Src_UNKNOWN} then
        (if res = Res_R2160P then Some Q_REMUX2160P
         else if res = Res_R1080P then Some Q_REMUX1080P
         else if res = Res_R720P then Some Q_BLURAY720P
         else if res = Res_R480P then Some Q_BLURAY480P
         else if src = Src_BLURAY \<and> res = Res_UNKNOWN then Some Q_REMUX1080P
         else None)
      else if src = Src_DVD then Some Q_DVDR
      else None)"

definition modifier_arm :: "quality_source \<Rightarrow> resolution \<Rightarrow> modifier \<Rightarrow> quality option" where
  "modifier_arm src res md =
     (if md = Mod_SCREENER then Some Q_DVDSCR
      else if md = Mod_REGIONAL then Some Q_REGIONAL
      else if md = Mod_REMUX then remux_arm src res
      else if md = Mod_BRDISK then Some Q_BRDISK
      else if md = Mod_RAWHD then Some Q_RAWHD
      else None)"

definition plain_quality :: "quality_source \<Rightarrow> resolution \<Rightarrow> quality" where
  "plain_quality src res =
     (if src = Src_UNKNOWN then Q_UNKNOWN
      else (case find (\<lambda>q. q_source q = src \<and> q_resolution q = res \<and> q_modifier q = Mod_NONE)
                   ALL_QUALITIES of
              Some q \<Rightarrow> q
            | None \<Rightarrow>
                (case filter (\<lambda>q. q_source q = src \<and> q_modifier q = Mod_NONE) ALL_QUALITIES of
                   [] \<Rightarrow> Q_UNKNOWN
                 | q # qs \<Rightarrow> py_min_key q_weight q qs)))"

definition resolve_quality :: "quality_source \<Rightarrow> resolution \<Rightarrow> modifier \<Rightarrow> quality" where
  "resolve_quality src res md =
     (case REJECT_QUALITY_BY_SOURCE src of
        Some q \<Rightarrow> q
      | None \<Rightarrow> (case modifier_arm src res md of Some q \<Rightarrow> q | None \<Rightarrow> plain_quality src res))"

section \<open>The nets only ever reject\<close>

locale down_only_net =
  fixes table :: "(rx \<times> 'a) list" and tiers :: "'a set"
  assumes table_tiers: "snd ` set table \<subseteq> tiers"
begin

lemma net_in_tiers: "net_lookup table title = Some tier \<Longrightarrow> tier \<in> tiers"
  using table_tiers
proof (induction table)
  case (Cons entry table)
  then show ?case by (cases entry) (auto split: if_splits)
qed simp

lemma net_hit_iff: "net_lookup table title \<noteq> None \<longleftrightarrow> (\<exists>r \<in> fst ` set table. rx_search r title)"
  by (induction table) auto

lemma net_override:
  "(case net_lookup table title of Some forced \<Rightarrow> forced | None \<Rightarrow> base) \<noteq> base \<Longrightarrow>
   (case net_lookup table title of Some forced \<Rightarrow> forced | None \<Rightarrow> base) \<in> tiers"
  by (auto split: option.splits dest: net_in_tiers)

end

interpretation source_net: down_only_net REJECT_NET REJECT_SOURCES
  by unfold_locales (simp add: REJECT_NET_def REJECT_SOURCES_def)

interpretation modifier_net: down_only_net REJECT_MODIFIER_NET REJECT_MODIFIERS
  by unfold_locales (simp add: REJECT_MODIFIER_NET_def REJECT_MODIFIERS_def)

lemma map_source_forced: "reject_net title \<noteq> None \<Longrightarrow> map_source flds title \<in> REJECT_SOURCES"
  by (auto simp: map_source_def reject_net_def dest: source_net.net_in_tiers)

lemma map_modifier_forced:
  "reject_modifier_net title \<noteq> None \<Longrightarrow> map_modifier flds title \<in> REJECT_MODIFIERS"
  by (auto simp: map_modifier_def reject_modifier_net_def REJECT_MODIFIERS_def
      dest: modifier_net.net_in_tiers[unfolded REJECT_MODIFIERS_def])

text \<open>What a net lookup looks for, spelled out: the two words, at most one separator between them,
  and no word character at either end.\<close>

lemma rx_den_optsep:
  "rx_den (ROpt RSep) (p, s) q \<longleftrightarrow>
     (\<exists>m t. s = m @ t \<and> (m = [] \<or> (\<exists>c. m = [c] \<and> is_sep c)) \<and> q = (rev m @ p, t))"
  by (cases q; cases s) auto

lemma rx_den_word_sep:
  "rx_den (word_sep_rx a b) (p, s) q \<longleftrightarrow>
     (\<exists>x m y t. s = x @ m @ y @ t \<and> list_all2 lit_match a x \<and> list_all2 lit_match b y
        \<and> (m = [] \<or> (\<exists>c. m = [c] \<and> is_sep c)) \<and> at_boundary p s
        \<and> at_boundary (rev (x @ m @ y) @ p) t \<and> q = (rev (x @ m @ y) @ p, t))"
proof -
  have "rx_den (word_sep_rx a b) (p, s) q \<longleftrightarrow>
      (\<exists>q1 q2 q3. at_boundary p s \<and> rx_den (rlits a) (p, s) q1 \<and> rx_den (ROpt RSep) q1 q2
         \<and> rx_den (rlits b) q2 q3 \<and> at_boundary (fst q3) (snd q3) \<and> q = q3)"
    by (simp add: word_sep_rx_def rseq_def del: rx_den_simps(11))
  also have "\<dots> \<longleftrightarrow> (\<exists>x m y t. s = x @ m @ y @ t \<and> list_all2 lit_match a x \<and> list_all2 lit_match b y
        \<and> (m = [] \<or> (\<exists>c. m = [c] \<and> is_sep c)) \<and> at_boundary p s
        \<and> at_boundary (rev (x @ m @ y) @ p) t \<and> q = (rev (x @ m @ y) @ p, t))"
    by (simp add: rx_den_rlits rx_den_optsep del: rx_den_simps(11)) blast
  finally show ?thesis .
qed

section \<open>Resolved qualities\<close>

lemma all_quality_consts:
  "Q_CAM \<in> set ALL_QUALITIES" "Q_TELESYNC \<in> set ALL_QUALITIES" "Q_TELECINE \<in> set ALL_QUALITIES"
  "Q_WORKPRINT \<in> set ALL_QUALITIES" "Q_DVDSCR \<in> set ALL_QUALITIES" "Q_REGIONAL \<in> set ALL_QUALITIES"
  "Q_REMUX2160P \<in> set ALL_QUALITIES" "Q_REMUX1080P \<in> set ALL_QUALITIES"
  "Q_BLURAY720P \<in> set ALL_QUALITIES" "Q_BLURAY480P \<in> set ALL_QUALITIES" "Q_DVDR \<in> set ALL_QUALITIES"
  "Q_BRDISK \<in> set ALL_QUALITIES" "Q_RAWHD \<in> set ALL_QUALITIES" "Q_UNKNOWN \<in> set ALL_QUALITIES"
  by (simp_all add: ALL_QUALITIES_def)

lemma plain_quality_known: "plain_quality src res \<in> set ALL_QUALITIES"
proof -
  have "py_min_key q_weight q qs \<in> set ALL_QUALITIES"
    if "filter (\<lambda>q. q_source q = src \<and> q_modifier q = Mod_NONE) ALL_QUALITIES = q # qs" for q qs
    using py_min_key_in[of q_weight q qs] that by (metis filter_is_subset subsetD)
  then show ?thesis
    by (auto simp: plain_quality_def all_quality_consts find_Some_iff split: option.splits list.splits)
qed

lemma resolve_quality_known: "resolve_quality src res md \<in> set ALL_QUALITIES"
proof -
  have "q \<in> set ALL_QUALITIES" if "REJECT_QUALITY_BY_SOURCE src = Some q" for q
    using that by (cases src) (auto simp: all_quality_consts)
  moreover have "q \<in> set ALL_QUALITIES" if "modifier_arm src res md = Some q" for q
    using that by (auto simp: modifier_arm_def remux_arm_def all_quality_consts split: if_splits)
  ultimately show ?thesis
    by (auto simp: resolve_quality_def plain_quality_known split: option.splits)
qed

lemma reject_source_resolves:
  "src \<in> REJECT_SOURCES \<Longrightarrow> q_id (resolve_quality src res md) \<in> DISALLOWED_BY_DEFAULT_IDS"
  by (auto simp: REJECT_SOURCES_def resolve_quality_def disallowed_ids quality_consts)

lemma reject_modifier_resolves:
  "md \<in> REJECT_MODIFIERS \<Longrightarrow> q_id (resolve_quality src res md) \<in> DISALLOWED_BY_DEFAULT_IDS"
  by (cases src)
     (auto simp: REJECT_MODIFIERS_def resolve_quality_def modifier_arm_def disallowed_ids quality_consts)

text \<open>The sources that carry an unmodified tier of their own.\<close>

definition plain_source :: "quality_source \<Rightarrow> bool" where
  "plain_source src = (src \<in> {Src_DVD, Src_TV, Src_WEBDL, Src_WEBRIP, Src_BLURAY})"

lemma plain_quality_table:
  "list_all (\<lambda>src. list_all (\<lambda>res.
       q_source (plain_quality src res) = src \<and> q_modifier (plain_quality src res) = Mod_NONE
       \<and> 8 \<le> q_weight (plain_quality src res))
     [Res_UNKNOWN, Res_R360P, Res_R480P, Res_R540P, Res_R576P, Res_R720P, Res_R1080P, Res_R2160P])
   [Src_DVD, Src_TV, Src_WEBDL, Src_WEBRIP, Src_BLURAY]"
  by code_simp

lemma plain_quality_source:
  assumes "plain_source src"
  shows "q_source (plain_quality src res) = src \<and> q_modifier (plain_quality src res) = Mod_NONE
     \<and> 8 \<le> q_weight (plain_quality src res)"
  using plain_quality_table assms by (cases res) (auto simp: plain_source_def)

lemma allowed_table:
  "list_all (\<lambda>q. (q_id q \<in> DISALLOWED_BY_DEFAULT_IDS) = (q_weight q < 8)) ALL_QUALITIES"
  by code_simp

lemma allowed_iff_weight:
  "q \<in> set ALL_QUALITIES \<Longrightarrow> q_id q \<in> DISALLOWED_BY_DEFAULT_IDS \<longleftrightarrow> q_weight q < 8"
  using allowed_table by (simp add: list_all_iff)

end
