(* ===== verification/SeasonPack.thy ===== *)
theory SeasonPack
  imports Release
begin

text \<open>
  What portion of a show a release covers, and the multi-season pack policy
  (\<open>domain/season_pack.py\<close>). Season statuses are the literal strings the code compares.
\<close>

datatype release_scope = ScSingleEpisode | ScSeasonPack | ScMultiSeasonPack | ScUnknown

datatype multi_season_mode = WholeShow | ExplicitSeasons

definition INSTALLED_STATUSES :: "string set" where
  "INSTALLED_STATUSES = {''completed'', ''available''}"

definition SEARCHABLE_STATUSES :: "string set" where
  "SEARCHABLE_STATUSES = {''pending'', ''searching'', ''no_acceptable_release'', ''failed''}"

definition IN_FLIGHT_STATUSES :: "string set" where
  "IN_FLIGHT_STATUSES = {''downloading'', ''import_blocked''}"

record season_pack_season_state =
  ss_number :: int
  ss_status :: string
  installed_quality_id :: "int option"
  installed_profile_index :: "nat option"

record multi_season_request_intent =
  intent_mode :: multi_season_mode
  requested_seasons :: "int list"
  intent_seasons :: "season_pack_season_state list"

record multi_season_pack_plan =
  plan_accepted :: bool
  plan_reason :: "string option"
  plan_covered :: "int list"
  plan_target :: "int list"
  plan_upgrade :: "int list"
  plan_waste :: "int list"
  plan_ignored :: "int list"
  plan_in_flight :: "int list"

definition season_value :: "num_field \<Rightarrow> int option" where
  "season_value season = (case season of
       NoNum \<Rightarrow> None | OneNum s \<Rightarrow> Some s
     | ManyNum xs \<Rightarrow> (case xs of [] \<Rightarrow> None | s # _ \<Rightarrow> Some s))"

definition classify_release_scope :: "parsed_release \<Rightarrow> release_scope" where
  "classify_release_scope parsed =
     (if (case pr_season parsed of ManyNum xs \<Rightarrow> 1 < length xs | _ \<Rightarrow> False) then ScMultiSeasonPack
      else (case season_value (pr_season parsed) of
              None \<Rightarrow> ScUnknown
            | Some _ \<Rightarrow> if pr_episode parsed = NoNum then ScSeasonPack else ScSingleEpisode))"

fun episode_numbers :: "num_field \<Rightarrow> int list" where
  "episode_numbers NoNum = []"
| "episode_numbers (OneNum e) = [e]"
| "episode_numbers (ManyNum es) = sorted_set es"

definition covers_requested_episodes :: "parsed_release \<Rightarrow> int list \<Rightarrow> bool" where
  "covers_requested_episodes parsed requested = (case classify_release_scope parsed of
       ScSeasonPack \<Rightarrow> True
     | ScMultiSeasonPack \<Rightarrow> True
     | ScSingleEpisode \<Rightarrow> set requested \<subseteq> set (episode_numbers (pr_episode parsed))
     | ScUnknown \<Rightarrow> False)"

definition profile_index_of :: "quality_profile \<Rightarrow> int option \<Rightarrow> nat option \<Rightarrow> nat option" where
  "profile_index_of profile quality_id fallback = (case quality_id of
       None \<Rightarrow> None
     | Some qid \<Rightarrow> (case get_index profile qid of Some i \<Rightarrow> Some i | None \<Rightarrow> fallback))"

datatype season_outcome = OutTarget | OutInFlight | OutWaste | OutIgnored

definition eligible_seasons :: "multi_season_request_intent \<Rightarrow> int set" where
  "eligible_seasons intent =
     (let requested = set (requested_seasons intent);
          tracked = set (map ss_number (intent_seasons intent))
      in (if requested = {} then tracked else requested) \<inter> tracked)"

definition season_outcome ::
  "quality_profile \<Rightarrow> int \<Rightarrow> multi_season_request_intent \<Rightarrow> int \<Rightarrow> season_outcome" where
  "season_outcome profile candidate_quality_id intent season =
     (if season \<notin> eligible_seasons intent then OutIgnored
      else (case dict_by ss_number (intent_seasons intent) season of
        None \<Rightarrow> OutIgnored
      | Some state \<Rightarrow>
          if ss_status state \<in> SEARCHABLE_STATUSES then OutTarget
          else if ss_status state \<in> IN_FLIGHT_STATUSES then OutInFlight
          else if ss_status state \<notin> INSTALLED_STATUSES then OutIgnored
          else if upgrade_allowed profile
                \<and> (case (get_index profile candidate_quality_id,
                          profile_index_of profile (installed_quality_id state)
                            (installed_profile_index state)) of
                     (Some candidate, Some installed) \<Rightarrow> installed < candidate
                   | _ \<Rightarrow> False)
               then OutWaste
               else OutWaste))"

definition plan_multi_season_pack ::
  "int list \<Rightarrow> int \<Rightarrow> quality_profile \<Rightarrow> multi_season_request_intent \<Rightarrow> multi_season_pack_plan" where
  "plan_multi_season_pack pack_seasons candidate_quality_id profile intent =
     (let covered = sorted_set pack_seasons;
          requested = set (requested_seasons intent);
          picked = (\<lambda>outcome. filter
            (\<lambda>s. season_outcome profile candidate_quality_id intent s = outcome) covered)
      in if intent_mode intent = ExplicitSeasons \<and> set covered \<noteq> requested
         then \<lparr>plan_accepted = False, plan_reason = Some ''explicit_season_set_mismatch'',
               plan_covered = covered, plan_target = [], plan_upgrade = [], plan_waste = [],
               plan_ignored = filter (\<lambda>s. s \<notin> requested) covered, plan_in_flight = []\<rparr>
         else
           let target = picked OutTarget; waste = picked OutWaste;
               in_flight = picked OutInFlight; ignored = picked OutIgnored;
               reason =
                 (if in_flight \<noteq> [] then Some ''covered_season_in_flight''
                  else if target = [] then Some ''no_useful_seasons''
                  else if waste \<noteq> [] \<and> length target \<le> length waste
                       then Some ''useful_seasons_not_majority''
                  else None)
           in \<lparr>plan_accepted = (reason = None), plan_reason = reason, plan_covered = covered,
               plan_target = target, plan_upgrade = [], plan_waste = waste, plan_ignored = ignored,
               plan_in_flight = in_flight\<rparr>)"

section \<open>Lemmas\<close>

lemma set_episode_numbers_ManyNum [simp]: "set (episode_numbers (ManyNum es)) = set es"
  by simp

lemma episode_numbers_sorted: "sorted (episode_numbers e)" and
  episode_numbers_distinct: "distinct (episode_numbers e)"
  by (cases e; simp)+

lemma season_outcome_target:
  assumes "season_outcome profile qid intent s = OutTarget"
  shows "s \<in> eligible_seasons intent"
    and "\<exists>st \<in> set (intent_seasons intent). ss_number st = s \<and> ss_status st \<in> SEARCHABLE_STATUSES"
  using assms
  by (auto simp: season_outcome_def split: if_splits option.splits dest!: dict_by_SomeD)

lemma plan_fields:
  assumes "\<not> (intent_mode intent = ExplicitSeasons
      \<and> set pack_seasons \<noteq> set (requested_seasons intent))"
  shows "plan_target (plan_multi_season_pack pack_seasons qid profile intent) =
      filter (\<lambda>s. season_outcome profile qid intent s = OutTarget) (sorted_set pack_seasons)"
    and "plan_waste (plan_multi_season_pack pack_seasons qid profile intent) =
      filter (\<lambda>s. season_outcome profile qid intent s = OutWaste) (sorted_set pack_seasons)"
    and "plan_in_flight (plan_multi_season_pack pack_seasons qid profile intent) =
      filter (\<lambda>s. season_outcome profile qid intent s = OutInFlight) (sorted_set pack_seasons)"
    and "plan_ignored (plan_multi_season_pack pack_seasons qid profile intent) =
      filter (\<lambda>s. season_outcome profile qid intent s = OutIgnored) (sorted_set pack_seasons)"
  using assms by (auto simp: plan_multi_season_pack_def Let_def)

lemma plan_accepted_iff:
  "plan_accepted (plan_multi_season_pack pack_seasons qid profile intent) \<longleftrightarrow>
     \<not> (intent_mode intent = ExplicitSeasons \<and> set pack_seasons \<noteq> set (requested_seasons intent))
     \<and> plan_in_flight (plan_multi_season_pack pack_seasons qid profile intent) = []
     \<and> plan_target (plan_multi_season_pack pack_seasons qid profile intent) \<noteq> []
     \<and> (plan_waste (plan_multi_season_pack pack_seasons qid profile intent) = []
        \<or> length (plan_waste (plan_multi_season_pack pack_seasons qid profile intent))
           < length (plan_target (plan_multi_season_pack pack_seasons qid profile intent)))"
  by (simp add: plan_multi_season_pack_def Let_def not_le split: if_splits)

lemma plan_covered_eq [simp]:
  "plan_covered (plan_multi_season_pack pack_seasons qid profile intent) = sorted_set pack_seasons"
  by (simp add: plan_multi_season_pack_def Let_def)

lemma filter_outcome_mset:
  "mset (filter (\<lambda>s. f s = OutTarget) xs) + mset (filter (\<lambda>s. f s = OutWaste) xs)
   + mset (filter (\<lambda>s. f s = OutInFlight) xs) + mset (filter (\<lambda>s. f s = OutIgnored) xs) = mset xs"
proof (induction xs)
  case (Cons x xs)
  then show ?case by (cases "f x") (simp_all add: add.commute add.left_commute)
qed simp

text \<open>
  Accounting of a multi-season pack. Unless an explicit season selection differs from the pack's
  seasons, every season the pack covers ends in exactly one of the four buckets of the plan (useful,
  already installed, in flight, ignored); every useful season is a requested (or, for a whole show,
  tracked) season that is still searchable; and the plan is accepted iff nothing is in flight,
  something is useful, and the useful seasons outnumber the installed ones.
\<close>

theorem plan_multi_season_pack_accounting:
  assumes sel: "intent_mode intent = ExplicitSeasons \<longrightarrow> set pack_seasons = set (requested_seasons intent)"
    and plan: "plan = plan_multi_season_pack pack_seasons qid profile intent"
  shows "mset (plan_target plan) + mset (plan_waste plan) + mset (plan_in_flight plan)
           + mset (plan_ignored plan) = mset_set (set pack_seasons)
    \<and> (\<forall>s \<in> set (plan_target plan). s \<in> eligible_seasons intent
           \<and> (\<exists>st \<in> set (intent_seasons intent). ss_number st = s \<and> ss_status st \<in> SEARCHABLE_STATUSES))
    \<and> (plan_accepted plan \<longleftrightarrow> plan_in_flight plan = [] \<and> plan_target plan \<noteq> []
           \<and> (plan_waste plan = [] \<or> length (plan_waste plan) < length (plan_target plan)))"
proof (intro conjI)
  have "mset (sorted_set pack_seasons) = mset_set (set pack_seasons)"
    by (metis distinct_sorted_set mset_set_set set_sorted_set)
  then show "mset (plan_target plan) + mset (plan_waste plan) + mset (plan_in_flight plan)
      + mset (plan_ignored plan) = mset_set (set pack_seasons)"
    using sel filter_outcome_mset[of "season_outcome profile qid intent" "sorted_set pack_seasons"]
    by (simp add: plan plan_fields)
  show "\<forall>s \<in> set (plan_target plan). s \<in> eligible_seasons intent
      \<and> (\<exists>st \<in> set (intent_seasons intent). ss_number st = s \<and> ss_status st \<in> SEARCHABLE_STATUSES)"
    using sel season_outcome_target[of profile qid intent] by (simp add: plan plan_fields)
  show "plan_accepted plan \<longleftrightarrow> plan_in_flight plan = [] \<and> plan_target plan \<noteq> []
      \<and> (plan_waste plan = [] \<or> length (plan_waste plan) < length (plan_target plan))"
    using sel by (auto simp: plan plan_accepted_iff)
qed

definition example_intent :: multi_season_request_intent where
  "example_intent =
     \<lparr>intent_mode = WholeShow, requested_seasons = [],
      intent_seasons =
        [\<lparr>ss_number = 1, ss_status = ''available'', installed_quality_id = Some 3,
          installed_profile_index = None\<rparr>,
         \<lparr>ss_number = 2, ss_status = ''pending'', installed_quality_id = None,
          installed_profile_index = None\<rparr>,
         \<lparr>ss_number = 3, ss_status = ''failed'', installed_quality_id = None,
          installed_profile_index = None\<rparr>]\<rparr>"

theorem plan_multi_season_pack_accounting_witness:
  "intent_mode example_intent = WholeShow
   \<and> plan_accepted (plan_multi_season_pack [3, 1, 2] 7 default_profile example_intent)
   \<and> plan_target (plan_multi_season_pack [3, 1, 2] 7 default_profile example_intent) = [2, 3]
   \<and> plan_waste (plan_multi_season_pack [3, 1, 2] 7 default_profile example_intent) = [1]
   \<and> mset (plan_ignored (plan_multi_season_pack [3, 1, 2] 7 default_profile example_intent)) = {#}"
proof -
  let ?plan = "plan_multi_season_pack [3, 1, 2] 7 default_profile example_intent"
  have t: "plan_target ?plan = [2, 3]" and w: "plan_waste ?plan = [1]" and i: "plan_in_flight ?plan = []"
    by code_simp+
  have sel: "intent_mode example_intent = ExplicitSeasons \<longrightarrow>
      set [3, 1, 2] = set (requested_seasons example_intent)"
    by (simp add: example_intent_def)
  note acc = plan_multi_season_pack_accounting[OF sel refl, of 7 default_profile]
  from acc t w i have "plan_accepted ?plan" by simp
  moreover from acc t w i have "mset (plan_ignored ?plan) = {#}"
    by (simp add: mset_set.insert_remove)
  ultimately show ?thesis using t w by (simp add: example_intent_def)
qed

end
