(* ===== verification/DecisionEngine.thy ===== *)
theory DecisionEngine
  imports SourceMapping SeasonPack
begin

text \<open>
  The decision engine (\<open>domain/decision_engine.py\<close>). The injected hooks are arguments, as in the
  source: the parser port, the media-identity check and the blocklist check. One pass of the loop over
  the candidates is \<open>gate_candidate\<close>, whose left result is the \<open>rejected\<close> entry's reason and whose
  right result is the release appended to \<open>accepted\<close>; \<open>decide_loop\<close> is the loop, \<open>compare_release\<close> the
  nested \<open>_compare\<close>, and \<open>decide\<close> the whole function.

  The lemmas show that the loop loses and invents nothing, that acceptance means every gate passed,
  that the comparator is a total preorder (an interpretation of \<open>comparator3\<close>), and hence that the
  accepted list is best-first and stable.
\<close>

record decision_result =
  accepted :: "scored_release list"
  rejected :: "(candidate_release \<times> rejection_reason) list"
  no_acceptable_release :: bool

record decision_hooks =
  hook_parse :: "string \<Rightarrow> parsed_release"
  hook_media_match :: "candidate_release \<Rightarrow> parsed_release \<Rightarrow> bool"
  hook_is_blocklisted :: "candidate_release \<Rightarrow> parsed_release \<Rightarrow> bool"

record decision_options =
  prefer_season_pack :: bool
  multi_season_intent :: "multi_season_request_intent option"
  episode_subset :: "int set option"

definition pack_scope :: "release_scope \<Rightarrow> bool" where
  "pack_scope scope = (scope = ScSeasonPack)"

definition episode_gate :: "int set option \<Rightarrow> parsed_release \<Rightarrow> bool" where
  "episode_gate needed parsed = (case needed of
       None \<Rightarrow> True
     | Some wanted \<Rightarrow>
         (let eps = episode_numbers (pr_episode parsed) in eps \<noteq> [] \<and> set eps \<subseteq> wanted))"

definition parsed_season_list :: "parsed_release \<Rightarrow> int list" where
  "parsed_season_list parsed = (case pr_season parsed of ManyNum ss \<Rightarrow> ss | _ \<Rightarrow> [])"

definition resolved_quality :: "parsed_release \<Rightarrow> quality" where
  "resolved_quality parsed =
     resolve_quality (pr_source parsed) (pr_resolution parsed) (pr_modifier parsed)"

definition pack_plan ::
  "quality_profile \<Rightarrow> decision_options \<Rightarrow> parsed_release \<Rightarrow> multi_season_pack_plan option" where
  "pack_plan profile opts parsed =
     (if classify_release_scope parsed = ScMultiSeasonPack
      then map_option (plan_multi_season_pack (parsed_season_list parsed)
             (q_id (resolved_quality parsed)) profile) (multi_season_intent opts)
      else None)"

definition scored_of ::
  "quality_profile \<Rightarrow> candidate_release \<Rightarrow> parsed_release \<Rightarrow> multi_season_pack_plan option \<Rightarrow> scored_release" where
  "scored_of profile candidate parsed plan =
     \<lparr>sc_candidate = candidate, sc_parsed = parsed, sc_quality = resolved_quality parsed,
      profile_index = (case get_index profile (q_id (resolved_quality parsed)) of
          None \<Rightarrow> -1 | Some i \<Rightarrow> int i),
      score = 0,
      covered_seasons = (case plan of None \<Rightarrow> [] | Some p \<Rightarrow> plan_covered p),
      target_seasons = (case plan of None \<Rightarrow> [] | Some p \<Rightarrow> plan_target p),
      upgrade_seasons = (case plan of None \<Rightarrow> [] | Some p \<Rightarrow> plan_upgrade p),
      waste_seasons = (case plan of None \<Rightarrow> [] | Some p \<Rightarrow> plan_waste p),
      ignored_seasons = (case plan of None \<Rightarrow> [] | Some p \<Rightarrow> plan_ignored p),
      skipped_seasons = (case plan of None \<Rightarrow> [] | Some p \<Rightarrow> plan_waste p @ plan_ignored p)\<rparr>"

definition gate_candidate ::
  "decision_hooks \<Rightarrow> quality_profile \<Rightarrow> decision_options \<Rightarrow> candidate_release
     \<Rightarrow> rejection_reason + scored_release" where
  "gate_candidate hooks profile opts candidate =
     (let parsed = hook_parse hooks (cand_title candidate);
          scope = classify_release_scope parsed;
          intent = multi_season_intent opts;
          verdict = check_quality (resolved_quality parsed) profile;
          plan = pack_plan profile opts parsed
      in if \<not> hook_media_match hooks candidate parsed then Inl WRONG_MEDIA
         else if scope = ScMultiSeasonPack \<and> intent = None then Inl MULTI_SEASON_PACK
         else if prefer_season_pack opts \<and> \<not> pack_scope scope
                \<and> \<not> (scope = ScMultiSeasonPack \<and> intent \<noteq> None) then Inl NOT_SEASON_PACK
         else if \<not> episode_gate (episode_subset opts) parsed then Inl EPISODE_NOT_NEEDED
         else if \<not> verdict_accepted verdict
              then Inl (case verdict_reason verdict of None \<Rightarrow> QUALITY_NOT_WANTED | Some r \<Rightarrow> r)
         else if (case plan of None \<Rightarrow> False | Some p \<Rightarrow> \<not> plan_accepted p) then Inl MULTI_SEASON_PACK
         else if hook_is_blocklisted hooks candidate parsed then Inl BLOCKLISTED
         else Inr (scored_of profile candidate parsed plan))"

fun decide_loop ::
  "decision_hooks \<Rightarrow> quality_profile \<Rightarrow> decision_options \<Rightarrow> candidate_release list
     \<Rightarrow> scored_release list \<times> (candidate_release \<times> rejection_reason) list" where
  "decide_loop hooks profile opts [] = ([], [])"
| "decide_loop hooks profile opts (c # cs) =
     (case decide_loop hooks profile opts cs of (acc, rej) \<Rightarrow>
        (case gate_candidate hooks profile opts c of
           Inl reason \<Rightarrow> (acc, (c, reason) # rej)
         | Inr scored \<Rightarrow> (scored # acc, rej)))"

definition compare_release ::
  "quality_profile \<Rightarrow> bool \<Rightarrow> scored_release \<Rightarrow> scored_release \<Rightarrow> int" where
  "compare_release profile packs left right =
     (let by_quality = compare_by_profile (sc_quality left) (sc_quality right) profile;
          left_pack = pack_scope (classify_release_scope (sc_parsed left));
          right_pack = pack_scope (classify_release_scope (sc_parsed right));
          left_seeders = (case seeders (sc_candidate left) of None \<Rightarrow> 0 | Some n \<Rightarrow> n);
          right_seeders = (case seeders (sc_candidate right) of None \<Rightarrow> 0 | Some n \<Rightarrow> n);
          left_size = size_bytes (sc_candidate left);
          right_size = size_bytes (sc_candidate right)
      in if by_quality \<noteq> 0 then by_quality
         else if packs \<and> left_pack \<noteq> right_pack then (if left_pack then 1 else -1)
         else if left_seeders \<noteq> right_seeders
              then of_bool (right_seeders < left_seeders) - of_bool (left_seeders < right_seeders)
         else of_bool (right_size < left_size) - of_bool (left_size < right_size))"

fun rank_scores :: "int \<Rightarrow> scored_release list \<Rightarrow> scored_release list" where
  "rank_scores n [] = []"
| "rank_scores n (s # ss) = s\<lparr>score := n\<rparr> # rank_scores (n - 1) ss"

definition decide ::
  "decision_hooks \<Rightarrow> quality_profile \<Rightarrow> decision_options \<Rightarrow> candidate_release list \<Rightarrow> decision_result" where
  "decide hooks profile opts candidates =
     (case decide_loop hooks profile opts candidates of (acc, rej) \<Rightarrow>
        let ordered = sort_desc (compare_release profile (prefer_season_pack opts)) acc;
            ranked = rank_scores (int (length ordered)) ordered
        in \<lparr>accepted = ranked, rejected = rej, no_acceptable_release = (ranked = [])\<rparr>)"

section \<open>The comparator\<close>

definition release_key :: "scored_release \<Rightarrow> int" where
  "release_key s = (case seeders (sc_candidate s) of None \<Rightarrow> 0 | Some n \<Rightarrow> n)"

lemma compare_release_lex:
  "compare_release profile packs =
     cmp_then (\<lambda>l r. compare_by_profile (sc_quality l) (sc_quality r) profile)
       (cmp_then (cmp_key (\<lambda>s. packs \<and> pack_scope (classify_release_scope (sc_parsed s))))
         (cmp_then (cmp_key release_key) (cmp_key (\<lambda>s. size_bytes (sc_candidate s)))))"
  by (rule ext)+
     (auto simp: compare_release_def cmp_then_def cmp_key_def release_key_def Let_def)

lemma comparator3_quality: "comparator3 (\<lambda>l r. compare_by_profile (sc_quality l) (sc_quality r) profile)"
  by unfold_locales (rule profile_cmp.cmp_flip, rule profile_cmp.cmp_trans)

interpretation release_cmp: comparator3 "compare_release profile packs" for profile packs
  unfolding compare_release_lex
  by (intro comparator3_then comparator3_quality comparator3_key)

lemma compare_release_score_irrelevant [simp]:
  "compare_release profile packs (a\<lparr>score := m\<rparr>) (b\<lparr>score := n\<rparr>) = compare_release profile packs a b"
  by (simp add: compare_release_def)

section \<open>The loop\<close>

lemma scored_of_simps [simp]:
  "sc_candidate (scored_of profile c p plan) = c"
  "sc_parsed (scored_of profile c p plan) = p"
  "sc_quality (scored_of profile c p plan) = resolved_quality p"
  by (simp_all add: scored_of_def)

text \<open>What the right result of the gate chain means.\<close>

definition passes_gates ::
  "decision_hooks \<Rightarrow> quality_profile \<Rightarrow> decision_options \<Rightarrow> candidate_release \<Rightarrow> bool" where
  "passes_gates hooks profile opts c =
     (let parsed = hook_parse hooks (cand_title c); scope = classify_release_scope parsed in
        hook_media_match hooks c parsed
        \<and> (scope = ScMultiSeasonPack \<longrightarrow>
             (\<exists>intent. multi_season_intent opts = Some intent \<and>
                plan_accepted (plan_multi_season_pack (parsed_season_list parsed)
                  (q_id (resolved_quality parsed)) profile intent)))
        \<and> (prefer_season_pack opts \<longrightarrow> scope = ScSeasonPack \<or> scope = ScMultiSeasonPack)
        \<and> (\<forall>wanted. episode_subset opts = Some wanted \<longrightarrow>
             episode_numbers (pr_episode parsed) \<noteq> [] \<and> set (episode_numbers (pr_episode parsed)) \<subseteq> wanted)
        \<and> verdict_accepted (check_quality (resolved_quality parsed) profile)
        \<and> \<not> hook_is_blocklisted hooks c parsed)"

lemma gate_candidate_Inr_iff:
  "gate_candidate hooks profile opts c = Inr s \<longleftrightarrow>
     passes_gates hooks profile opts c \<and>
     s = scored_of profile c (hook_parse hooks (cand_title c))
           (pack_plan profile opts (hook_parse hooks (cand_title c)))"
  by (auto simp: gate_candidate_def passes_gates_def Let_def pack_scope_def episode_gate_def
      pack_plan_def split: if_splits option.splits)

lemma gate_candidate_Inl: "gate_candidate hooks profile opts c = Inl r \<Longrightarrow> \<not> passes_gates hooks profile opts c"
  by (metis gate_candidate_Inr_iff sum.distinct(1))

lemma gate_candidate_cases:
  "(\<exists>s. gate_candidate hooks profile opts c = Inr s \<and> sc_candidate s = c)
   \<or> (\<exists>r. gate_candidate hooks profile opts c = Inl r)"
  by (cases "gate_candidate hooks profile opts c") (auto simp: gate_candidate_Inr_iff)

lemma decide_loop_mset:
  "decide_loop hooks profile opts cs = (acc, rej) \<Longrightarrow>
     mset (map sc_candidate acc) + mset (map fst rej) = mset cs"
proof (induction cs arbitrary: acc rej)
  case (Cons c cs)
  obtain a r where "decide_loop hooks profile opts cs = (a, r)" by (cases "decide_loop hooks profile opts cs")
  with Cons gate_candidate_cases[of hooks profile opts c] show ?case by auto
qed simp

lemma decide_loop_accepted:
  "decide_loop hooks profile opts cs = (acc, rej) \<Longrightarrow>
     acc = map (\<lambda>c. scored_of profile c (hook_parse hooks (cand_title c))
             (pack_plan profile opts (hook_parse hooks (cand_title c))))
           (filter (passes_gates hooks profile opts) cs)"
proof (induction cs arbitrary: acc rej)
  case (Cons c cs)
  obtain a r where "decide_loop hooks profile opts cs = (a, r)" by (cases "decide_loop hooks profile opts cs")
  with Cons show ?case
    by (cases "gate_candidate hooks profile opts c") (auto simp: gate_candidate_Inr_iff dest: gate_candidate_Inl)
qed simp

lemma decide_loop_rejected:
  "decide_loop hooks profile opts cs = (acc, rej) \<Longrightarrow> (c, r) \<in> set rej \<Longrightarrow>
     c \<in> set cs \<and> gate_candidate hooks profile opts c = Inl r"
proof (induction cs arbitrary: acc rej)
  case (Cons d cs)
  obtain a b where "decide_loop hooks profile opts cs = (a, b)" by (cases "decide_loop hooks profile opts cs")
  with Cons show ?case by (auto split: sum.splits)
qed simp

section \<open>Ranks\<close>

lemma length_rank_scores [simp]: "length (rank_scores n ss) = length ss"
  by (induction ss arbitrary: n) auto

lemma rank_scores_nth:
  "k < length ss \<Longrightarrow> rank_scores n ss ! k = (ss ! k)\<lparr>score := n - int k\<rparr>"
  by (induction ss arbitrary: n k) (auto simp: nth_Cons' of_nat_diff)

lemma map_candidate_rank_scores [simp]:
  "map sc_candidate (rank_scores n ss) = map sc_candidate ss"
  by (induction ss arbitrary: n) auto

lemma set_rank_scores: "s \<in> set (rank_scores n ss) \<Longrightarrow> \<exists>t \<in> set ss. \<exists>m. s = t\<lparr>score := m\<rparr>"
  by (induction ss arbitrary: n) auto

lemma filter_rank_scores:
  assumes "\<And>t m. P (t\<lparr>score := m\<rparr>) = P t"
  shows "map sc_candidate (filter P (rank_scores n ss)) = map sc_candidate (filter P ss)"
  by (induction ss arbitrary: n) (simp_all add: assms)

section \<open>The whole decision\<close>

lemma decide_expand:
  assumes "decide_loop hooks profile opts cs = (acc, rej)"
  shows "accepted (decide hooks profile opts cs) =
           rank_scores (int (length acc)) (sort_desc (compare_release profile (prefer_season_pack opts)) acc)"
    and "rejected (decide hooks profile opts cs) = rej"
    and "no_acceptable_release (decide hooks profile opts cs) \<longleftrightarrow> acc = []"
proof -
  let ?o = "sort_desc (compare_release profile (prefer_season_pack opts)) acc"
  show "accepted (decide hooks profile opts cs) = rank_scores (int (length acc)) ?o"
    and "rejected (decide hooks profile opts cs) = rej"
    using assms by (simp_all add: decide_def Let_def)
  have "no_acceptable_release (decide hooks profile opts cs) \<longleftrightarrow> rank_scores (int (length acc)) ?o = []"
    using assms by (simp add: decide_def Let_def)
  also have "\<dots> \<longleftrightarrow> length acc = 0" by (metis length_0_conv length_rank_scores length_sort_desc)
  finally show "no_acceptable_release (decide hooks profile opts cs) \<longleftrightarrow> acc = []" by simp
qed

lemma decide_accepted_from_loop:
  assumes "s \<in> set (accepted (decide hooks profile opts cs))"
  shows "\<exists>c m. c \<in> set cs \<and> passes_gates hooks profile opts c
    \<and> s = (scored_of profile c (hook_parse hooks (cand_title c))
             (pack_plan profile opts (hook_parse hooks (cand_title c))))\<lparr>score := m\<rparr>"
proof -
  obtain acc rej where loop: "decide_loop hooks profile opts cs = (acc, rej)" by fastforce
  from assms obtain t m where "t \<in> set acc" "s = t\<lparr>score := m\<rparr>"
    by (auto simp: decide_expand(1)[OF loop] dest!: set_rank_scores)
  with decide_loop_accepted[OF loop] show ?thesis by auto
qed

text \<open>
  Acceptance is sound. Every accepted release is one of the candidates, carries the parse of its
  own title and the quality resolved from that parse, and passed every gate: the media-identity check,
  the multi-season policy, the season-pack-only gate where a whole season was requested, the
  episode-fallback gate where missing episodes were given, the quality profile's hard cutoff, and the
  blocklist.
\<close>

theorem decide_accepted_sound:
  assumes "s \<in> set (accepted (decide hooks profile opts cs))"
  shows "sc_candidate s \<in> set cs
    \<and> sc_parsed s = hook_parse hooks (cand_title (sc_candidate s))
    \<and> sc_quality s = resolved_quality (sc_parsed s)
    \<and> hook_media_match hooks (sc_candidate s) (sc_parsed s)
    \<and> (classify_release_scope (sc_parsed s) = ScMultiSeasonPack \<longrightarrow>
         (\<exists>intent. multi_season_intent opts = Some intent \<and>
            plan_accepted (plan_multi_season_pack (parsed_season_list (sc_parsed s))
              (q_id (sc_quality s)) profile intent)))
    \<and> (prefer_season_pack opts \<longrightarrow>
         classify_release_scope (sc_parsed s) \<in> {ScSeasonPack, ScMultiSeasonPack})
    \<and> (\<forall>wanted. episode_subset opts = Some wanted \<longrightarrow>
         episode_numbers (pr_episode (sc_parsed s)) \<noteq> []
         \<and> set (episode_numbers (pr_episode (sc_parsed s))) \<subseteq> wanted)
    \<and> (\<exists>i. get_index profile (q_id (sc_quality s)) = Some i \<and> item_allowed (prof_items profile ! i))
    \<and> \<not> hook_is_blocklisted hooks (sc_candidate s) (sc_parsed s)"
proof -
  from decide_accepted_from_loop[OF assms] obtain c m
    where "c \<in> set cs" "passes_gates hooks profile opts c"
      and "s = (scored_of profile c (hook_parse hooks (cand_title c))
             (pack_plan profile opts (hook_parse hooks (cand_title c))))\<lparr>score := m\<rparr>"
    by blast
  then show ?thesis by (auto simp: passes_gates_def Let_def check_quality_accepted_iff)
qed

text \<open>
  Nothing is dropped and nothing is invented. As multisets, the accepted candidates together with
  the rejected ones are the input; the accepted ones are exactly the candidates that pass the gates;
  every rejected entry carries the reason of the gate that stopped it; and
  \<open>no_acceptable_release\<close> is reported iff no candidate passes.
\<close>

theorem decide_accounts_for_candidates:
  "mset (map sc_candidate (accepted (decide hooks profile opts cs)))
     + mset (map fst (rejected (decide hooks profile opts cs))) = mset cs
   \<and> mset (map sc_candidate (accepted (decide hooks profile opts cs)))
     = filter_mset (passes_gates hooks profile opts) (mset cs)
   \<and> (\<forall>c r. (c, r) \<in> set (rejected (decide hooks profile opts cs)) \<longrightarrow>
        gate_candidate hooks profile opts c = Inl r)
   \<and> (no_acceptable_release (decide hooks profile opts cs) \<longleftrightarrow>
        filter (passes_gates hooks profile opts) cs = [])"
proof -
  obtain acc rej where loop: "decide_loop hooks profile opts cs = (acc, rej)" by fastforce
  note ex = decide_expand[OF loop]
  have m: "mset (map sc_candidate (accepted (decide hooks profile opts cs))) = mset (map sc_candidate acc)"
    by (simp add: ex(1))
  have acc: "map sc_candidate acc = filter (passes_gates hooks profile opts) cs"
    unfolding decide_loop_accepted[OF loop] by (simp add: comp_def)
  then have "acc = [] \<longleftrightarrow> filter (passes_gates hooks profile opts) cs = []" by (metis map_is_Nil_conv)
  then show ?thesis
    using decide_loop_mset[OF loop] decide_loop_rejected[OF loop] ex(2,3) acc m by simp
qed

text \<open>
  The accepted list is ranked. An earlier release is never worse than a later one under the
  comparator (profile order, then seeders, then size); the scores are the strictly decreasing ranks
  \<open>n, n-1, ..., 1\<close>, so they agree with the order; and releases the comparator does not separate keep
  the order in which the indexer returned them.
\<close>

theorem decide_ranked:
  assumes D: "D = decide hooks profile opts cs" and ij: "i < j" "j < length (accepted D)"
  shows "0 \<le> compare_release profile (prefer_season_pack opts) (accepted D ! i) (accepted D ! j)
    \<and> score (accepted D ! i) = int (length (accepted D)) - int i
    \<and> score (accepted D ! j) < score (accepted D ! i)
    \<and> map sc_candidate (filter (\<lambda>y. compare_release profile (prefer_season_pack opts) x y = 0) (accepted D))
      = map sc_candidate (filter (\<lambda>y. compare_release profile (prefer_season_pack opts) x y = 0)
          (fst (decide_loop hooks profile opts cs)))"
proof -
  obtain acc rej where loop: "decide_loop hooks profile opts cs = (acc, rej)" by fastforce
  let ?c = "compare_release profile (prefer_season_pack opts)"
  let ?o = "sort_desc ?c acc"
  have acc: "accepted D = rank_scores (int (length acc)) ?o" using decide_expand(1)[OF loop] D by simp
  then have len: "length (accepted D) = length acc" "length ?o = length acc" by simp_all
  with ij have nth: "accepted D ! i = (?o ! i)\<lparr>score := int (length acc) - int i\<rparr>"
    "accepted D ! j = (?o ! j)\<lparr>score := int (length acc) - int j\<rparr>"
    by (simp_all add: acc rank_scores_nth)
  have "0 \<le> ?c (?o ! i) (?o ! j)"
    using release_cmp.sort_desc_sorted[of profile "prefer_season_pack opts" acc] ij len
    by (simp add: sorted_wrt_iff_nth_less)
  moreover have "map sc_candidate (filter (\<lambda>y. ?c x y = 0) (accepted D)) =
      map sc_candidate (filter (\<lambda>y. ?c x y = 0) ?o)"
    unfolding acc by (rule filter_rank_scores) (simp add: compare_release_def)
  ultimately show ?thesis
    using ij nth len loop release_cmp.sort_desc_stable[of profile "prefer_season_pack opts" x acc] by simp
qed

section \<open>A worked example\<close>

text \<open>
  Three candidates for one movie: a 720p and a 1080p web release and a pirate-cam release that a lying
  field mapping calls a 1080p web release.
\<close>

definition ex_guessit :: "string \<Rightarrow> guess_fields option" where
  "ex_guessit name = Some (map_of
     [(''title'', Scalar (VStr ''Movie'')), (''source'', Scalar (VStr ''Web'')),
      (''screen_size'', Scalar (VStr (if py_in ''720p'' name then ''720p'' else ''1080p'')))])"

definition ex_candidate :: "string \<Rightarrow> int \<Rightarrow> int \<Rightarrow> candidate_release" where
  "ex_candidate title sd sz =
     \<lparr>guid = title, cand_title = title, size_bytes = sz, download_url = None, magnet_url = None,
      cand_info_hash = None, seeders = Some sd, leechers = None, indexer_id = 1, indexer_name = ''ix'',
      indexer_priority = 25, publish_date = 0, imdb_id = 0, cand_tmdb_id = 0, categories = [],
      cand_protocol = Torrent\<rparr>"

definition ex_candidates :: "candidate_release list" where
  "ex_candidates =
     [ex_candidate ''Movie.720p.WEB'' 50 4, ex_candidate ''Movie.HD-CAM.1080p'' 99 9,
      ex_candidate ''Movie.1080p.WEB'' 10 8]"

definition ex_hooks :: decision_hooks where
  "ex_hooks = \<lparr>hook_parse = parse ex_guessit, hook_media_match = (\<lambda>_ _. True),
     hook_is_blocklisted = (\<lambda>_ _. False)\<rparr>"

definition ex_options :: decision_options where
  "ex_options = \<lparr>prefer_season_pack = False, multi_season_intent = None, episode_subset = None\<rparr>"

abbreviation ex_decision :: decision_result where
  "ex_decision \<equiv> decide ex_hooks default_profile ex_options ex_candidates"

lemma ex_decision_titles:
  "map (\<lambda>s. (cand_title (sc_candidate s), q_name (sc_quality s), score s)) (accepted ex_decision) =
     [(''Movie.1080p.WEB'', ''WEBDL-1080p'', 2), (''Movie.720p.WEB'', ''WEBDL-720p'', 1)]"
  by code_simp

lemma ex_decision_length: "length (accepted ex_decision) = 2"
  using arg_cong[OF ex_decision_titles, of length] by simp

theorem decide_accepted_sound_witness:
  "\<exists>s. s \<in> set (accepted ex_decision) \<and> sc_candidate s \<in> set ex_candidates
     \<and> sc_quality s = resolved_quality (sc_parsed s)"
proof -
  have "accepted ex_decision ! 0 \<in> set (accepted ex_decision)"
    using ex_decision_length by (intro nth_mem) simp
  then show ?thesis using decide_accepted_sound[of "accepted ex_decision ! 0"] by blast
qed

theorem decide_accounts_for_candidates_witness:
  "\<exists>c r. (c, r) \<in> set (rejected ex_decision) \<and> gate_candidate ex_hooks default_profile ex_options c = Inl r
     \<and> size (mset (map fst (rejected ex_decision))) = 1"
proof -
  note acc = decide_accounts_for_candidates[of ex_hooks default_profile ex_options ex_candidates]
  from acc have "mset (map sc_candidate (accepted ex_decision)) + mset (map fst (rejected ex_decision))
      = mset ex_candidates" by blast
  from arg_cong[OF this, of size]
  have "length (accepted ex_decision) + length (rejected ex_decision) = length ex_candidates" by simp
  then have "length (accepted ex_decision) + length (rejected ex_decision) = 3"
    by (simp add: ex_candidates_def)
  then have one: "length (rejected ex_decision) = 1" using ex_decision_length by simp
  then obtain e where "rejected ex_decision = [e]" by (auto simp: length_Suc_conv)
  then have "(fst e, snd e) \<in> set (rejected ex_decision)" by simp
  then show ?thesis using acc one by (metis length_map size_mset)
qed

theorem decide_ranked_witness:
  "0 \<le> compare_release default_profile False (accepted ex_decision ! 0) (accepted ex_decision ! 1)
   \<and> score (accepted ex_decision ! 0) = 2"
  using decide_ranked[of ex_decision ex_hooks default_profile ex_options ex_candidates 0 1]
    ex_decision_length by (simp add: ex_options_def)

end
