(* ===== verification/MediaMatch.thy ===== *)
theory MediaMatch
  imports Release
begin

text \<open>
  The media-identity gate (\<open>domain/media_match.py\<close>). \<open>normalize_title\<close> follows the source's stages:
  casefold, transliterate the letters that have no decomposition, NFKD-decompose and drop the
  combining marks, then delete everything but \<open>a-z0-9\<close>. \<open>nfkd_base\<close> is the decomposition of the
  Latin-1 code points that survive casefolding, without the combining marks and without the two
  results outside the range (the fraction slash of U+00BC to U+00BE and the Greek letter of U+00B5),
  all of which the later stages delete.
\<close>

definition TRANSLITERATION :: "char \<Rightarrow> string" where
  "TRANSLITERATION c = (let n = code c in
     if n = 230 then ''ae'' else if n = 248 then ''o'' else if n = 254 then ''th''
     else if n = 240 then ''d'' else [c])"

definition nfkd_base :: "char \<Rightarrow> string" where
  "nfkd_base c = (let n = code c in
     if n = 160 \<or> n = 168 \<or> n = 175 \<or> n = 180 \<or> n = 184 then '' ''
     else if n = 170 \<or> (224 \<le> n \<and> n \<le> 229) then ''a''
     else if n = 178 then ''2'' else if n = 179 then ''3'' else if n = 185 then ''1''
     else if n = 181 then []
     else if n = 186 \<or> (242 \<le> n \<and> n \<le> 246) then ''o''
     else if n = 188 then ''14'' else if n = 189 then ''12'' else if n = 190 then ''34''
     else if n = 231 then ''c'' else if 232 \<le> n \<and> n \<le> 235 then ''e''
     else if 236 \<le> n \<and> n \<le> 239 then ''i'' else if n = 241 then ''n''
     else if 249 \<le> n \<and> n \<le> 252 then ''u'' else if n = 253 \<or> n = 255 then ''y''
     else [c])"

definition key_char :: "char \<Rightarrow> bool" where
  "key_char c = (let n = code c in (97 \<le> n \<and> n \<le> 122) \<or> (48 \<le> n \<and> n \<le> 57))"

definition YEAR_TOLERANCE :: int where
  "YEAR_TOLERANCE = 1"

definition normalize_title :: "string \<Rightarrow> string" where
  "normalize_title title =
     filter key_char (concat (map nfkd_base (concat (map TRANSLITERATION (casefold title)))))"

fun season_covers :: "num_field \<Rightarrow> int \<Rightarrow> bool" where
  "season_covers NoNum expected = False"
| "season_covers (OneNum s) expected = (s = expected)"
| "season_covers (ManyNum ss) expected = (expected \<in> set ss)"

definition matches_media ::
  "parsed_release \<Rightarrow> string \<Rightarrow> int option \<Rightarrow> int \<Rightarrow> int \<Rightarrow> int option \<Rightarrow> bool" where
  "matches_media parsed expected_title expected_year candidate_tmdb_id expected_tmdb_id expected_season =
     (if (case expected_season of None \<Rightarrow> False | Some s \<Rightarrow> \<not> season_covers (pr_season parsed) s) then False
      else if candidate_tmdb_id \<noteq> 0 \<and> expected_tmdb_id \<noteq> 0 then candidate_tmdb_id = expected_tmdb_id
      else let expected_key = normalize_title expected_title in
        if expected_key = [] \<or> normalize_title (pr_clean_title parsed) \<noteq> expected_key then False
        else (case expected_year of
                None \<Rightarrow> True
              | Some y \<Rightarrow> (case pr_year parsed of
                    None \<Rightarrow> False | Some py \<Rightarrow> \<bar>py - y\<bar> \<le> YEAR_TOLERANCE)))"

section \<open>Lemmas\<close>

definition norm_char :: "char \<Rightarrow> string" where
  "norm_char c = filter key_char (concat (map nfkd_base (concat (map TRANSLITERATION (fold_char c)))))"

lemma normalize_title_chars: "normalize_title title = concat (map norm_char title)"
  by (induction title) (simp_all add: normalize_title_def norm_char_def casefold_def)

definition ascii_alnum :: "char \<Rightarrow> bool" where
  "ascii_alnum c = (let n = code c in
     (48 \<le> n \<and> n \<le> 57) \<or> (65 \<le> n \<and> n \<le> 90) \<or> (97 \<le> n \<and> n \<le> 122))"

lemma norm_char_ascii:
  assumes "code c < 128"
  shows "norm_char c = (if ascii_alnum c then [lower_char c] else [])"
proof -
  have low: "code (lower_char c) < 128" using assms by (simp add: code_lower_char)
  then have "TRANSLITERATION (lower_char c) = [lower_char c]" "nfkd_base (lower_char c) = [lower_char c]"
    by (simp_all add: TRANSLITERATION_def nfkd_base_def Let_def)
  moreover have "key_char (lower_char c) \<longleftrightarrow> ascii_alnum c"
    using assms by (auto simp: key_char_def ascii_alnum_def Let_def code_lower_char)
  ultimately show ?thesis using assms by (simp add: norm_char_def fold_char_def)
qed

lemma set_normalize_title: "c \<in> set (normalize_title title) \<Longrightarrow> key_char c"
  by (simp add: normalize_title_def)

lemma key_char_ascii: "key_char c \<Longrightarrow> code c < 128 \<and> ascii_alnum c \<and> lower_char c = c"
proof -
  assume k: "key_char c"
  then have "code (lower_char c) = code c" by (auto simp: key_char_def code_lower_char Let_def)
  then have "lower_char c = c" by (simp only: code_inject)
  with k show ?thesis by (auto simp: key_char_def ascii_alnum_def Let_def)
qed

lemma normalize_title_ascii:
  "list_all (\<lambda>c. code c < 128) title \<Longrightarrow>
     normalize_title title = map lower_char (filter ascii_alnum title)"
  by (induction title) (auto simp: normalize_title_chars norm_char_ascii)

lemma normalize_title_idem: "normalize_title (normalize_title t) = normalize_title t"
proof -
  let ?k = "normalize_title t"
  have k: "\<forall>c \<in> set ?k. code c < 128 \<and> ascii_alnum c \<and> lower_char c = c"
    using set_normalize_title key_char_ascii by blast
  then have "normalize_title ?k = map lower_char (filter ascii_alnum ?k)"
    by (intro normalize_title_ascii) (auto simp: list_all_iff)
  also have "filter ascii_alnum ?k = ?k" using k by (simp add: filter_id_conv)
  also have "map lower_char ?k = ?k" using k by (simp add: map_idI)
  finally show ?thesis .
qed

lemma matches_media_evidence:
  assumes "matches_media parsed title year cid eid season"
  shows "(\<forall>s. season = Some s \<longrightarrow> season_covers (pr_season parsed) s)
    \<and> (if cid \<noteq> 0 \<and> eid \<noteq> 0 then cid = eid
       else normalize_title title \<noteq> [] \<and> normalize_title (pr_clean_title parsed) = normalize_title title
         \<and> (\<forall>y. year = Some y \<longrightarrow> (\<exists>py. pr_year parsed = Some py \<and> \<bar>py - y\<bar> \<le> 1)))"
  using assms
  by (auto simp: matches_media_def Let_def YEAR_TOLERANCE_def split: if_splits option.splits)

lemma matches_media_cong:
  assumes "normalize_title t = normalize_title t'"
    and "normalize_title (pr_clean_title p) = normalize_title (pr_clean_title p')"
    and "pr_year p = pr_year p'" and "pr_season p = pr_season p'"
  shows "matches_media p t y c e s = matches_media p' t' y c e s"
  unfolding matches_media_def by (simp only: assms)

text \<open>
  The identity gate never accepts without evidence. An accepted release covers the wanted season
  where one is wanted; where both sides carry a TMDB id the ids are equal; and otherwise the titles
  agree after normalisation, on a non-empty key, and the parsed year is known and within one of the
  expected year where one is expected. An ASCII title is compared by its letters and digits only,
  without regard to case.
\<close>

theorem matches_media_sound:
  assumes "matches_media parsed title year cid eid season"
  shows "(\<forall>s. season = Some s \<longrightarrow> season_covers (pr_season parsed) s)
    \<and> (if cid \<noteq> 0 \<and> eid \<noteq> 0 then cid = eid
       else normalize_title title \<noteq> [] \<and> normalize_title (pr_clean_title parsed) = normalize_title title
         \<and> (\<forall>y. year = Some y \<longrightarrow> (\<exists>py. pr_year parsed = Some py \<and> \<bar>py - y\<bar> \<le> 1)))
    \<and> (list_all (\<lambda>c. code c < 128) title \<longrightarrow>
         normalize_title title = map lower_char (filter ascii_alnum title))"
  using matches_media_evidence[OF assms] normalize_title_ascii[of title] by blast

definition example_parsed :: parsed_release where
  "example_parsed =
     \<lparr>raw_title = ''The.Matrix.1999.1080p.WEB-DL'', pr_clean_title = ''the matrix'', pr_year = Some 1999,
      pr_season = NoNum, pr_episode = NoNum, pr_source = Src_WEBDL, pr_resolution = Res_R1080P,
      pr_modifier = Mod_NONE, pr_revision = \<lparr>rev_version = 1, rev_is_repack = False, rev_real = 0\<rparr>,
      release_group = None, pr_languages = [], pr_edition = None, hardcoded_subs = None\<rparr>"

theorem matches_media_sound_witness:
  "matches_media example_parsed ''The Matrix'' (Some 1998) 0 603 None
   \<and> normalize_title ''The Matrix'' = ''thematrix''
   \<and> \<not> matches_media example_parsed ''The Matrix'' (Some 2003) 0 603 None"
proof -
  have m: "matches_media example_parsed ''The Matrix'' (Some 1998) 0 603 None"
    and n: "\<not> matches_media example_parsed ''The Matrix'' (Some 2003) 0 603 None"
    by code_simp+
  have "list_all (\<lambda>c. code c < 128) ''The Matrix''" by code_simp
  with matches_media_sound[OF m]
  have "normalize_title ''The Matrix'' = map lower_char (filter ascii_alnum ''The Matrix'')" by blast
  also have "\<dots> = ''thematrix''" by code_simp
  finally show ?thesis using m n by blast
qed

end
