(* ===== verification/Blocklist.thy ===== *)
theory Blocklist
  imports Regex
begin

text \<open>
  The two-tier "same release" rule (\<open>domain/blocklist.py\<close>). An absent or empty info-hash is
  falsy and falls to the title tier.
\<close>

record blocklisted_release =
  bl_source_title :: string
  bl_info_hash :: "string option"
  bl_indexer :: "string option"

definition bl_normalize_title :: "string \<Rightarrow> string" where
  "bl_normalize_title title = casefold (py_strip (collapse_runs is_sep False title))"

definition same_indexer :: "string option \<Rightarrow> string option \<Rightarrow> bool" where
  "same_indexer left right = (case (left, right) of
       (Some l, Some r) \<Rightarrow> casefold (py_strip l) = casefold (py_strip r)
     | (None, None) \<Rightarrow> True
     | _ \<Rightarrow> False)"

definition same_title :: "string \<Rightarrow> string \<Rightarrow> bool" where
  "same_title left right = (bl_normalize_title left = bl_normalize_title right)"

definition truthy :: "string option \<Rightarrow> string option" where
  "truthy s = (case s of None \<Rightarrow> None | Some t \<Rightarrow> if t = [] then None else Some t)"

definition bl_matches ::
  "blocklisted_release \<Rightarrow> string option \<Rightarrow> string \<Rightarrow> string option \<Rightarrow> bool" where
  "bl_matches entry info_hash source_title indexer =
     (case (truthy info_hash, truthy (bl_info_hash entry)) of
        (Some h, Some eh) \<Rightarrow> casefold eh = casefold h
      | _ \<Rightarrow> same_title source_title (bl_source_title entry) \<and> same_indexer indexer (bl_indexer entry))"

definition is_blocklisted ::
  "string option \<Rightarrow> string \<Rightarrow> string option \<Rightarrow> blocklisted_release list \<Rightarrow> bool" where
  "is_blocklisted info_hash source_title indexer entries =
     list_ex (\<lambda>entry. bl_matches entry info_hash source_title indexer) entries"

section \<open>Lemmas\<close>

lemma same_indexer_equiv:
  "same_indexer a a" "same_indexer a b \<Longrightarrow> same_indexer b a"
  "same_indexer a b \<Longrightarrow> same_indexer b c \<Longrightarrow> same_indexer a c"
  by (auto simp: same_indexer_def split: option.splits)

lemma same_title_equiv:
  "same_title a a" "same_title a b \<Longrightarrow> same_title b a"
  "same_title a b \<Longrightarrow> same_title b c \<Longrightarrow> same_title a c"
  by (auto simp: same_title_def)

lemma bl_matches_self: "bl_matches e (bl_info_hash e) (bl_source_title e) (bl_indexer e)"
  by (simp add: bl_matches_def truthy_def same_title_equiv same_indexer_equiv split: option.splits)

lemma bl_matches_hash_decides:
  assumes "h \<noteq> []" and "bl_info_hash e = Some eh" and "eh \<noteq> []"
  shows "bl_matches e (Some h) t i \<longleftrightarrow> casefold eh = casefold h"
  using assms by (simp add: bl_matches_def truthy_def)

text \<open>
  The blocklist rule recognises what was put on the list. A release whose identity (hash, title and
  indexer) is that of an entry is blocked, whatever else is on the list; adding entries never
  unblocks anything; and where both sides carry a hash, the hash alone decides, so a different title
  or indexer name cannot launder a blocklisted torrent and cannot block a different one.
\<close>

theorem is_blocklisted_identity:
  "(e \<in> set entries \<longrightarrow>
      is_blocklisted (bl_info_hash e) (bl_source_title e) (bl_indexer e) entries)
   \<and> (is_blocklisted h t i entries \<longrightarrow> set entries \<subseteq> set entries' \<longrightarrow> is_blocklisted h t i entries')
   \<and> (h = Some hash \<longrightarrow> hash \<noteq> [] \<longrightarrow> (\<forall>x \<in> set entries. truthy (bl_info_hash x) \<noteq> None) \<longrightarrow>
       (is_blocklisted h t i entries \<longleftrightarrow>
         (\<exists>x \<in> set entries. map_option casefold (bl_info_hash x) = Some (casefold hash))))"
proof (intro conjI impI)
  assume "e \<in> set entries"
  then show "is_blocklisted (bl_info_hash e) (bl_source_title e) (bl_indexer e) entries"
    using bl_matches_self by (auto simp: is_blocklisted_def list_ex_iff)
next
  assume "is_blocklisted h t i entries" "set entries \<subseteq> set entries'"
  then show "is_blocklisted h t i entries'" by (auto simp: is_blocklisted_def list_ex_iff)
next
  assume h: "h = Some hash" "hash \<noteq> []" and all: "\<forall>x \<in> set entries. truthy (bl_info_hash x) \<noteq> None"
  have "bl_matches x h t i \<longleftrightarrow> map_option casefold (bl_info_hash x) = Some (casefold hash)"
    if "x \<in> set entries" for x
    using h all that by (auto simp: bl_matches_def truthy_def split: option.splits if_splits)
  then show "is_blocklisted h t i entries \<longleftrightarrow>
      (\<exists>x \<in> set entries. map_option casefold (bl_info_hash x) = Some (casefold hash))"
    by (auto simp: is_blocklisted_def list_ex_iff)
qed

theorem is_blocklisted_identity_witness:
  "is_blocklisted (Some ''ABCDEF'') ''Renamed'' None
     [\<lparr>bl_source_title = ''Some.Movie.2020'', bl_info_hash = Some ''abcdef'', bl_indexer = None\<rparr>]
   \<and> is_blocklisted None ''some movie-2020'' (Some '' Tracker'')
     [\<lparr>bl_source_title = ''Some.Movie.2020'', bl_info_hash = None, bl_indexer = Some ''tracker''\<rparr>]"
proof -
  let ?e = "\<lparr>bl_source_title = ''Some.Movie.2020'', bl_info_hash = Some ''abcdef'', bl_indexer = None\<rparr>"
  have "is_blocklisted (Some ''ABCDEF'') ''Renamed'' None [?e] \<longleftrightarrow>
      (\<exists>x \<in> set [?e]. map_option casefold (bl_info_hash x) = Some (casefold ''ABCDEF''))"
    using is_blocklisted_identity[of ?e "[?e]" "Some ''ABCDEF''" "''Renamed''" None "[?e]" "''ABCDEF''"]
    by (simp add: truthy_def)
  moreover have "casefold ''abcdef'' = casefold ''ABCDEF''" by code_simp
  moreover have "is_blocklisted None ''some movie-2020'' (Some '' Tracker'')
     [\<lparr>bl_source_title = ''Some.Movie.2020'', bl_info_hash = None, bl_indexer = Some ''tracker''\<rparr>]"
    by code_simp
  ultimately show ?thesis by simp
qed

end
