(* ===== verification/Lifecycle.thy ===== *)
theory Lifecycle
  imports Prelude
begin

text \<open>
  The download lifecycle (\<open>domain/state_machine.py\<close>): the state enumeration with its persisted
  string values, the legal graph \<open>TRANSITIONS\<close>, the terminal and the polled states, and the guard
  \<open>is_legal_transition\<close>. The graph is also given as a step relation, an interpretation of
  \<open>invariant_system\<close> for histories of a download row, and the shape of a finished history is derived.
\<close>

datatype download_state =
    Searching | Downloading | MetadataFetching | ImportPending | ImportBlocked | Importing
  | Imported | FailedPending | Failed | NoAcceptableRelease | ClientMissing

fun state_str :: "download_state \<Rightarrow> string" where
  "state_str Searching = ''searching''"
| "state_str Downloading = ''downloading''"
| "state_str MetadataFetching = ''metadata_fetching''"
| "state_str ImportPending = ''import_pending''"
| "state_str ImportBlocked = ''import_blocked''"
| "state_str Importing = ''importing''"
| "state_str Imported = ''imported''"
| "state_str FailedPending = ''failed_pending''"
| "state_str Failed = ''failed''"
| "state_str NoAcceptableRelease = ''no_acceptable_release''"
| "state_str ClientMissing = ''client_missing''"

definition ALL_STATES :: "download_state list" where
  "ALL_STATES = [Searching, Downloading, MetadataFetching, ImportPending, ImportBlocked, Importing,
     Imported, FailedPending, Failed, NoAcceptableRelease, ClientMissing]"

text \<open>\<open>DownloadState(value)\<close>: the enum lookup by value, which raises \<open>ValueError\<close> on a miss.\<close>

definition state_of_str :: "string \<Rightarrow> download_state option" where
  "state_of_str v = find (\<lambda>s. state_str s = v) ALL_STATES"

fun TRANSITIONS :: "download_state \<Rightarrow> download_state list" where
  "TRANSITIONS Searching = [Downloading, NoAcceptableRelease]"
| "TRANSITIONS Downloading =
     [MetadataFetching, ImportPending, FailedPending, ClientMissing, Downloading]"
| "TRANSITIONS MetadataFetching = [Downloading, FailedPending, ClientMissing]"
| "TRANSITIONS ImportPending = [Importing, ImportBlocked, FailedPending]"
| "TRANSITIONS Importing = [Imported, ImportBlocked]"
| "TRANSITIONS ImportBlocked = [Importing, FailedPending]"
| "TRANSITIONS FailedPending = [Failed]"
| "TRANSITIONS ClientMissing = [Downloading, FailedPending]"
| "TRANSITIONS Failed = []"
| "TRANSITIONS Imported = []"
| "TRANSITIONS NoAcceptableRelease = []"

definition TERMINAL_STATES :: "download_state list" where
  "TERMINAL_STATES = [Imported, Failed, NoAcceptableRelease]"

definition ACTIVE_STATES :: "download_state list" where
  "ACTIVE_STATES = [Downloading, MetadataFetching, ImportPending, ClientMissing]"

definition is_legal_transition :: "download_state \<Rightarrow> download_state \<Rightarrow> bool" where
  "is_legal_transition frm to \<longleftrightarrow> to \<in> set (TRANSITIONS frm)"

section \<open>Vocabulary\<close>

lemma in_ALL_STATES [simp]: "s \<in> set ALL_STATES"
  by (cases s) (simp_all add: ALL_STATES_def)

lemma state_str_inj: "inj state_str"
proof -
  have "distinct (map state_str ALL_STATES)" by code_simp
  moreover have "set ALL_STATES = UNIV" by auto
  ultimately show ?thesis by (simp add: distinct_map)
qed

lemma state_str_eq [simp]: "state_str s = state_str t \<longleftrightarrow> s = t"
  using state_str_inj by (auto dest: injD)

text \<open>The persisted value reads back as the state it was written from.\<close>

lemma state_of_str_roundtrip [simp]: "state_of_str (state_str s) = Some s"
proof -
  have "find (\<lambda>t. t = s) ALL_STATES = Some s" by (cases s) (simp_all add: ALL_STATES_def)
  then show ?thesis by (simp add: state_of_str_def)
qed

lemma state_of_str_SomeD: "state_of_str v = Some s \<Longrightarrow> v = state_str s"
  by (auto simp: state_of_str_def find_Some_iff)

section \<open>The graph as a step relation\<close>

inductive legal_step :: "download_state \<Rightarrow> download_state \<Rightarrow> bool" where
  grab: "legal_step Searching Downloading"
| no_release: "legal_step Searching NoAcceptableRelease"
| fetch_metadata: "legal_step Downloading MetadataFetching"
| got_metadata: "legal_step MetadataFetching Downloading"
| progress: "legal_step Downloading Downloading"
| complete: "legal_step Downloading ImportPending"
| vanish: "s \<in> {Downloading, MetadataFetching} \<Longrightarrow> legal_step s ClientMissing"
| reappear: "legal_step ClientMissing Downloading"
| detect_failure:
    "s \<in> {Downloading, MetadataFetching, ImportPending, ImportBlocked, ClientMissing} \<Longrightarrow>
     legal_step s FailedPending"
| start_import: "s \<in> {ImportPending, ImportBlocked} \<Longrightarrow> legal_step s Importing"
| block_import: "s \<in> {ImportPending, Importing} \<Longrightarrow> legal_step s ImportBlocked"
| finish_import: "legal_step Importing Imported"
| finish_failure: "legal_step FailedPending Failed"

inductive_simps legal_step_simps: "legal_step s t"

lemma is_legal_transition_iff: "is_legal_transition s t \<longleftrightarrow> legal_step s t"
  by (cases s) (auto simp: is_legal_transition_def legal_step_simps)

lemma terminal_iff_stuck: "s \<in> set TERMINAL_STATES \<longleftrightarrow> (\<forall>t. \<not> legal_step s t)"
  by (cases s) (auto simp: TERMINAL_STATES_def legal_step_simps)

text \<open>The measure that makes an operator's walk to the end finite: the least number of moves to a
  terminal state.\<close>

fun terminal_distance :: "download_state \<Rightarrow> nat" where
  "terminal_distance Imported = 0"
| "terminal_distance Failed = 0"
| "terminal_distance NoAcceptableRelease = 0"
| "terminal_distance FailedPending = 1"
| "terminal_distance Importing = 1"
| "terminal_distance Searching = 1"
| "terminal_distance _ = 2"

lemma distance_zero_iff: "terminal_distance s = 0 \<longleftrightarrow> s \<in> set TERMINAL_STATES"
  by (cases s) (simp_all add: TERMINAL_STATES_def)

lemma distance_decreases:
  assumes "terminal_distance s \<noteq> 0"
  obtains t where "legal_step s t" and "terminal_distance s = Suc (terminal_distance t)"
  using assms
proof (cases s)
  case Searching then show ?thesis using that[of NoAcceptableRelease] by (auto intro: legal_step.intros)
next
  case Downloading then show ?thesis using that[of FailedPending] by (auto intro: legal_step.intros)
next
  case MetadataFetching then show ?thesis using that[of FailedPending] by (auto intro: legal_step.intros)
next
  case ImportPending then show ?thesis using that[of FailedPending] by (auto intro: legal_step.intros)
next
  case ImportBlocked then show ?thesis using that[of FailedPending] by (auto intro: legal_step.intros)
next
  case Importing then show ?thesis using that[of Imported] by (auto intro: legal_step.intros)
next
  case FailedPending then show ?thesis using that[of Failed] by (auto intro: legal_step.intros)
next
  case ClientMissing then show ?thesis using that[of FailedPending] by (auto intro: legal_step.intros)
qed simp_all

lemma walk_to_terminal:
  "\<exists>t. t \<in> set TERMINAL_STATES \<and> (legal_step ^^ terminal_distance s) s t"
proof (induction "terminal_distance s" arbitrary: s)
  case 0
  then show ?case by (intro exI[of _ s]) (simp add: distance_zero_iff[symmetric])
next
  case (Suc n)
  then obtain u where u: "legal_step s u" "terminal_distance s = Suc (terminal_distance u)"
    by (metis distance_decreases nat.distinct(1))
  with Suc.hyps obtain t where "t \<in> set TERMINAL_STATES" "(legal_step ^^ terminal_distance u) u t"
    by fastforce
  with u show ?case by (metis relpowp_Suc_I2)
qed

section \<open>Histories of a download row\<close>

text \<open>
  A history is the list of states one life of a row has been through, most recent first (the reuse of
  a finished row for a fresh grab starts a new life). A life starts with a grab in \<open>Downloading\<close>, or
  with a search in \<open>Searching\<close>. Every later entry is a move the guard allows, or a move of the poll:
  the reconciler moves a polled row to the state the client snapshot says without consulting the
  guard, so its moves are given by their own relation (the reconciler is shown to stay within it).
\<close>

definition POLL_TARGETS :: "download_state list" where
  "POLL_TARGETS = [Downloading, MetadataFetching, ImportPending, FailedPending, ClientMissing]"

inductive poll_step :: "download_state \<Rightarrow> download_state \<Rightarrow> bool" where
  poll: "s \<in> set ACTIVE_STATES \<Longrightarrow> t \<in> set POLL_TARGETS \<Longrightarrow> poll_step s t"

inductive_simps poll_step_simps: "poll_step s t"

definition row_step :: "download_state \<Rightarrow> download_state \<Rightarrow> bool" where
  "row_step s t \<longleftrightarrow> legal_step s t \<or> poll_step s t"

lemma row_step_into:
  "row_step s Failed \<longleftrightarrow> s = FailedPending"
  "row_step s Imported \<longleftrightarrow> s = Importing"
  "row_step s Importing \<longleftrightarrow> s = ImportPending \<or> s = ImportBlocked"
  "\<not> row_step s Searching"
  by (auto simp: row_step_def poll_step_simps POLL_TARGETS_def legal_step_simps)

lemma row_step_terminal: "s \<in> set TERMINAL_STATES \<Longrightarrow> \<not> row_step s t"
  using terminal_iff_stuck[of s] by (auto simp: row_step_def poll_step_simps ACTIVE_STATES_def TERMINAL_STATES_def)

definition hist_init :: "download_state list \<Rightarrow> bool" where
  "hist_init h \<longleftrightarrow> h = [Searching] \<or> h = [Downloading]"

inductive hist_step :: "download_state list \<Rightarrow> download_state list \<Rightarrow> bool" where
  move: "row_step s t \<Longrightarrow> hist_step (s # h) (t # s # h)"

inductive_cases hist_stepE [elim]: "hist_step h h'"

fun hist_ok :: "download_state list \<Rightarrow> bool" where
  "hist_ok [] \<longleftrightarrow> False"
| "hist_ok [s] \<longleftrightarrow> s = Searching \<or> s = Downloading"
| "hist_ok (t # s # h) \<longleftrightarrow> row_step s t \<and> hist_ok (s # h)"

interpretation download_history: invariant_system hist_init hist_step hist_ok
  by unfold_locales (auto simp: hist_init_def)

lemma hist_ok_nth:
  "hist_ok h \<Longrightarrow> Suc i < length h \<Longrightarrow> row_step (h ! Suc i) (h ! i)"
proof (induction h arbitrary: i rule: hist_ok.induct)
  case (3 t s h)
  then show ?case by (cases i) auto
qed simp_all

lemma hist_ok_last: "hist_ok h \<Longrightarrow> last h = Searching \<or> last h = Downloading"
  by (induction h rule: hist_ok.induct) auto

lemma hist_ok_predecessor:
  assumes ok: "hist_ok h" and i: "i < length h" and t: "h ! i = t" "t \<noteq> Searching" "t \<noteq> Downloading"
  shows "Suc i < length h \<and> row_step (h ! Suc i) t"
proof -
  have "Suc i < length h"
  proof (rule ccontr)
    assume "\<not> Suc i < length h"
    with i have "i = length h - 1" by simp
    moreover from ok have "h \<noteq> []" by auto
    ultimately have "h ! i = last h" by (simp add: last_conv_nth)
    with hist_ok_last[OF ok] t show False by simp
  qed
  with hist_ok_nth[OF ok this] t show ?thesis by simp
qed

lemma hist_ok_terminal_first:
  assumes ok: "hist_ok h" and i: "i < length h" and t: "h ! i \<in> set TERMINAL_STATES"
  shows "i = 0"
proof (rule ccontr)
  assume "i \<noteq> 0"
  then obtain j where j: "i = Suc j" by (cases i) auto
  with ok i have "row_step (h ! i) (h ! j)" using hist_ok_nth[of h j] by simp
  with t show False using row_step_terminal by blast
qed

text \<open>
  In every life of a download under the guarded moves and the moves of the poll, a failed download was first held in
  the detected-but-not-yet-blocklisted state, an imported one was importing right before, an import
  only ever starts from a pending or a blocked import, and a terminal state is the last state of the
  history (the row re-enters the pipeline only through a new search, never by a move back).
\<close>

theorem download_history_shape:
  assumes "reachable hist_init hist_step h" and "i < length h"
  shows "(h ! i = Failed \<longrightarrow> Suc i < length h \<and> h ! Suc i = FailedPending)
    \<and> (h ! i = Imported \<longrightarrow> Suc i < length h \<and> h ! Suc i = Importing)
    \<and> (h ! i = Importing \<longrightarrow> Suc i < length h \<and> h ! Suc i \<in> {ImportPending, ImportBlocked})
    \<and> (h ! i \<in> set TERMINAL_STATES \<longrightarrow> i = 0)
    \<and> (h ! i = Searching \<longrightarrow> Suc i = length h)"
proof -
  have ok: "hist_ok h" by (rule download_history.reachable_inv[OF assms(1)])
  have pred: "h ! i = t \<Longrightarrow> t \<noteq> Searching \<Longrightarrow> t \<noteq> Downloading \<Longrightarrow>
      Suc i < length h \<and> row_step (h ! Suc i) t" for t
    using hist_ok_predecessor[OF ok assms(2)] by simp
  have "h ! i = Searching \<longrightarrow> Suc i = length h"
    using hist_ok_nth[OF ok, of i] assms(2) by (metis Suc_lessI row_step_into(4))
  then show ?thesis
    using pred[of Failed] pred[of Imported] pred[of Importing] hist_ok_terminal_first[OF ok assms(2)]
    by (auto simp: row_step_into)
qed

theorem download_history_shape_witness:
  "let h = [Imported, Importing, ImportBlocked, ImportPending, Downloading] in
     h ! 0 = Imported \<and> h ! Suc 0 = Importing"
proof -
  have move: "reachable hist_init hist_step (s # h) \<Longrightarrow> row_step s t \<Longrightarrow>
      reachable hist_init hist_step (t # s # h)" for s t h
    by (rule reach_step[of hist_init hist_step "s # h"]) (auto intro: hist_step.move)
  have "reachable hist_init hist_step [Downloading]"
    by (rule reach_init) (simp add: hist_init_def)
  then have "reachable hist_init hist_step [ImportPending, Downloading]"
    by (rule move) (simp add: row_step_def legal_step_simps)
  then have "reachable hist_init hist_step [ImportBlocked, ImportPending, Downloading]"
    by (rule move) (simp add: row_step_def legal_step_simps)
  then have "reachable hist_init hist_step [Importing, ImportBlocked, ImportPending, Downloading]"
    by (rule move) (simp add: row_step_def legal_step_simps)
  then have "reachable hist_init hist_step [Imported, Importing, ImportBlocked, ImportPending, Downloading]"
    by (rule move) (simp add: row_step_def legal_step_simps)
  from download_history_shape[OF this, of 0] show ?thesis by simp
qed

text \<open>
  No download can be stranded. From every state the legal graph has a walk of at most two moves to
  a terminal state, and the terminal states are exactly the states without an outgoing move.
\<close>

theorem no_stranded_download:
  "(\<exists>n t. n \<le> 2 \<and> t \<in> set TERMINAL_STATES \<and> (is_legal_transition ^^ n) s t)
   \<and> (s \<in> set TERMINAL_STATES \<longleftrightarrow> (\<forall>t. \<not> is_legal_transition s t))"
proof -
  have eq: "is_legal_transition = legal_step" by (intro ext) (simp add: is_legal_transition_iff)
  have "terminal_distance s \<le> 2" by (cases s) simp_all
  with walk_to_terminal[of s] terminal_iff_stuck[of s] show ?thesis unfolding eq by blast
qed

end
