(* ===== verification/DownloadRepo.thy ===== *)
theory DownloadRepo
  imports Complex_Main PyStr Lifecycle
begin

text \<open>
  The download store (\<open>repositories/downloads.py\<close>) over the tables of \<open>models.py\<close>: physical downloads,
  the logical TV scopes a torrent will import, and the physical-coverage claims of the seasons it is
  fetching. A table is the list of its rows in the order an unordered \<open>SELECT\<close> returns them; an
  operation is a function from the database to an error or a result with the new database. The unique
  indexes are checked at every flush and their violation is \<open>IntegrityError\<close>. Primary keys come from
  the counters of the database. A SQL comparison with \<open>None\<close> is \<open>IS NULL\<close>, so it is equality of
  options. Floats are the finite ones, as rationals. \<open>now\<close> is the clock reading of the call.
\<close>

section \<open>Rows, tables, errors\<close>

datatype media_type = Movie | Tv

record download_row =
  d_id :: int
  d_media_request_id :: "int option"
  d_torrent_hash :: string
  d_magnet_link :: "string option"
  d_status :: string
  d_progress :: rat
  d_seed_ratio :: rat
  d_media_type :: "media_type option"
  d_tmdb_id :: "int option"
  d_year :: "int option"
  d_season :: "int option"
  d_episodes :: "int list option"
  d_timeout_at :: "datetime option"
  d_first_seen_at :: "datetime option"
  d_added_at :: "datetime option"
  d_failed_at :: "datetime option"
  d_failed_reason :: "string option"
  d_retry_count :: int
  d_payload_pending :: bool
  d_payload_resume :: bool
  d_payload_force_start :: bool
  d_payload_rejection :: "string option"
  d_download_path :: "string option"
  d_release_title :: "string option"

record scope_row =
  s_id :: int
  s_download_id :: int
  s_media_request_id :: "int option"
  s_season_request_id :: "int option"
  s_season :: "int option"
  s_episodes :: "int list option"
  s_scope_key :: string
  s_status :: string
  s_completed_at :: "datetime option"

record claim_row =
  c_id :: int
  c_download_id :: int
  c_media_request_id :: "int option"
  c_season :: "int option"
  c_status :: string
  c_released_at :: "datetime option"

record request_key_row =
  rk_id :: int
  rk_tmdb_id :: int
  rk_media_type :: media_type

record season_key_row =
  sk_id :: int
  sk_media_request_id :: int
  sk_season :: int

record repo_db =
  db_downloads :: "download_row list"
  db_scopes :: "scope_row list"
  db_claims :: "claim_row list"
  db_requests :: "request_key_row list"
  db_seasons :: "season_key_row list"
  db_next_id :: int

datatype repo_error = IntegrityError | LookupError | ValueError

type_synonym 'a repo_result = "repo_error + ('a \<times> repo_db)"

definition TERMINAL_DOWNLOAD_STATUSES :: "string list" where
  "TERMINAL_DOWNLOAD_STATUSES = [''imported'', ''failed'', ''no_acceptable_release'']"

definition ACTIVE_SCOPE_STATUSES :: "string list" where
  "ACTIVE_SCOPE_STATUSES = [''active'', ''import_blocked'']"

definition ACTIVE_CLAIM_STATUS :: string where
  "ACTIVE_CLAIM_STATUS = ''active''"

definition RELEASED_CLAIM_STATUS :: string where
  "RELEASED_CLAIM_STATUS = ''released''"

definition row_live :: "download_row \<Rightarrow> bool" where
  "row_live row \<longleftrightarrow> d_status row \<notin> set TERMINAL_DOWNLOAD_STATUSES"

definition scope_active :: "scope_row \<Rightarrow> bool" where
  "scope_active s \<longleftrightarrow> s_status s \<in> set ACTIVE_SCOPE_STATUSES"

definition claim_active :: "claim_row \<Rightarrow> bool" where
  "claim_active c \<longleftrightarrow> c_status c = ACTIVE_CLAIM_STATUS"

section \<open>Constraints of the schema\<close>

text \<open>
  The keys a unique index compares, for the rows its predicate selects. A \<open>NULL\<close> key never collides;
  the downloads index folds a \<open>NULL\<close> season onto \<open>-1\<close>.
\<close>

definition coalesce :: "int option \<Rightarrow> int \<Rightarrow> int" where
  "coalesce x d = (case x of None \<Rightarrow> d | Some v \<Rightarrow> v)"

definition download_keys :: "repo_db \<Rightarrow> (int option \<times> int) list" where
  "download_keys db = map (\<lambda>r. (d_media_request_id r, coalesce (d_season r) (-1)))
     (filter (\<lambda>r. d_media_request_id r \<noteq> None \<and> row_live r) (db_downloads db))"

definition scope_keys :: "repo_db \<Rightarrow> (int option \<times> string) list" where
  "scope_keys db = map (\<lambda>s. (s_media_request_id s, s_scope_key s))
     (filter (\<lambda>s. s_media_request_id s \<noteq> None \<and> scope_active s) (db_scopes db))"

definition claim_keys :: "repo_db \<Rightarrow> (int option \<times> int option) list" where
  "claim_keys db = map (\<lambda>c. (c_media_request_id c, c_season c))
     (filter (\<lambda>c. c_media_request_id c \<noteq> None \<and> c_season c \<noteq> None \<and> claim_active c) (db_claims db))"

definition db_unique :: "repo_db \<Rightarrow> bool" where
  "db_unique db \<longleftrightarrow> distinct (map d_id (db_downloads db)) \<and> distinct (map s_id (db_scopes db))
     \<and> distinct (map c_id (db_claims db)) \<and> distinct (map d_torrent_hash (db_downloads db))
     \<and> distinct (download_keys db) \<and> distinct (scope_keys db) \<and> distinct (claim_keys db)"

definition flush :: "'a \<Rightarrow> repo_db \<Rightarrow> 'a repo_result" where
  "flush x db = (if db_unique db then Inr (x, db) else Inl IntegrityError)"

section \<open>Scopes\<close>

definition normalize_episodes :: "int list option \<Rightarrow> int list option" where
  "normalize_episodes v =
     (let xs = sorted_set (case v of None \<Rightarrow> [] | Some es \<Rightarrow> es) in if xs = [] then None else Some xs)"

definition episodes_equal :: "int list option \<Rightarrow> int list option \<Rightarrow> bool" where
  "episodes_equal l r \<longleftrightarrow> normalize_episodes l = normalize_episodes r"

fun join_comma :: "string list \<Rightarrow> string" where
  "join_comma [] = []"
| "join_comma [x] = x"
| "join_comma (x # y # ys) = x @ '','' @ join_comma (y # ys)"

definition scope_key :: "int option \<Rightarrow> int list option \<Rightarrow> string" where
  "scope_key ssn eps = ''season:'' @ (case ssn of None \<Rightarrow> ''null'' | Some n \<Rightarrow> py_str_int n)
     @ ''|episodes:''
     @ (if eps = None \<or> eps = Some [] then ''*''
        else ''['' @ join_comma (map py_str_int (case normalize_episodes eps of None \<Rightarrow> [] | Some es \<Rightarrow> es)) @ '']'')"

definition scope_matches :: "int \<Rightarrow> int option \<Rightarrow> int option \<Rightarrow> scope_row \<Rightarrow> bool" where
  "scope_matches did mr ssn s \<longleftrightarrow>
     s_download_id s = did \<and> s_media_request_id s = mr \<and> s_season s = ssn"

definition season_request_id_of :: "repo_db \<Rightarrow> int option \<Rightarrow> int option \<Rightarrow> int option" where
  "season_request_id_of db mr ssn =
     map_option sk_id (find (\<lambda>k. Some (sk_media_request_id k) = mr \<and> Some (sk_season k) = ssn) (db_seasons db))"

definition new_scope :: "repo_db \<Rightarrow> int \<Rightarrow> int option \<Rightarrow> int option \<Rightarrow> int list option \<Rightarrow> scope_row" where
  "new_scope db did mr ssn eps =
     \<lparr>s_id = db_next_id db, s_download_id = did, s_media_request_id = mr,
      s_season_request_id = season_request_id_of db mr ssn, s_season = ssn,
      s_episodes = normalize_episodes eps, s_scope_key = scope_key ssn (normalize_episodes eps),
      s_status = ''active'', s_completed_at = None\<rparr>"

definition ensure_scope ::
  "int \<Rightarrow> int option \<Rightarrow> int option \<Rightarrow> int list option \<Rightarrow> repo_db \<Rightarrow> scope_row repo_result" where
  "ensure_scope did mr ssn eps db =
     (let same = filter (\<lambda>s. scope_matches did mr ssn s \<and> episodes_equal (s_episodes s) (normalize_episodes eps))
                   (db_scopes db)
      in case find scope_active same of
        Some s \<Rightarrow> Inr (s, db)
      | None \<Rightarrow>
          if same \<noteq> [] then
            let s' = (last same)\<lparr>s_status := ''active'', s_completed_at := None\<rparr>
            in flush s' (db\<lparr>db_scopes := map (\<lambda>s. if s_id s = s_id s' then s' else s) (db_scopes db)\<rparr>)
          else
            let s' = new_scope db did mr ssn eps
            in flush s' (db\<lparr>db_scopes := db_scopes db @ [s'], db_next_id := db_next_id db + 1\<rparr>))"

definition replace_scope_set ::
  "int \<Rightarrow> int option \<Rightarrow> int option \<Rightarrow> int list option \<Rightarrow> repo_db \<Rightarrow> unit repo_result" where
  "replace_scope_set did mr ssn eps db =
     (let db' = db\<lparr>db_scopes := filter (\<lambda>s. \<not> (s_download_id s = did \<and> s_status s \<noteq> ''imported'')) (db_scopes db)\<rparr>
      in if mr \<noteq> None \<and> ssn \<noteq> None then map_sum id (\<lambda>(_, d). ((), d)) (ensure_scope did mr ssn eps db')
         else Inr ((), db'))"

definition update_scope_status_if_in :: "int \<Rightarrow> string \<Rightarrow> string list \<Rightarrow> repo_db \<Rightarrow> bool repo_result" where
  "update_scope_status_if_in sid st allowed db =
     (let hit = (\<lambda>s. s_id s = sid \<and> s_status s \<in> set allowed)
      in flush (length (filter hit (db_scopes db)) = 1)
           (db\<lparr>db_scopes := map (\<lambda>s. if hit s then s\<lparr>s_status := st\<rparr> else s) (db_scopes db)\<rparr>))"

text \<open>\<open>ORDER BY season_number, id\<close> with SQLite's \<open>NULL\<close>s first.\<close>

definition scope_order :: "scope_row \<Rightarrow> scope_row \<Rightarrow> bool" where
  "scope_order a b \<longleftrightarrow> (case (s_season a, s_season b) of
       (None, None) \<Rightarrow> s_id a \<le> s_id b
     | (None, Some _) \<Rightarrow> True
     | (Some _, None) \<Rightarrow> False
     | (Some m, Some n) \<Rightarrow> m < n \<or> (m = n \<and> s_id a \<le> s_id b))"

definition list_scopes :: "repo_db \<Rightarrow> int \<Rightarrow> scope_row list" where
  "list_scopes db did = sort_by scope_order (filter (\<lambda>s. s_download_id s = did) (db_scopes db))"

section \<open>Coverage claims\<close>

definition claim_matches :: "int \<Rightarrow> int \<Rightarrow> int \<Rightarrow> claim_row \<Rightarrow> bool" where
  "claim_matches did mr ssn c \<longleftrightarrow>
     c_download_id c = did \<and> c_media_request_id c = Some mr \<and> c_season c = Some ssn"

definition ensure_coverage_claim :: "int \<Rightarrow> int \<Rightarrow> int \<Rightarrow> repo_db \<Rightarrow> unit repo_result" where
  "ensure_coverage_claim did mr ssn db =
     (case find (claim_matches did mr ssn) (db_claims db) of
        Some c \<Rightarrow>
          if c_status c \<noteq> ACTIVE_CLAIM_STATUS then
            flush () (db\<lparr>db_claims := map (\<lambda>x. if c_id x = c_id c
                then x\<lparr>c_status := ACTIVE_CLAIM_STATUS, c_released_at := None\<rparr> else x) (db_claims db)\<rparr>)
          else Inr ((), db)
      | None \<Rightarrow>
          flush () (db\<lparr>db_claims := db_claims db @
              [\<lparr>c_id = db_next_id db, c_download_id = did, c_media_request_id = Some mr, c_season = Some ssn,
                c_status = ACTIVE_CLAIM_STATUS, c_released_at = None\<rparr>],
            db_next_id := db_next_id db + 1\<rparr>))"

definition release_where :: "datetime \<Rightarrow> (claim_row \<Rightarrow> bool) \<Rightarrow> repo_db \<Rightarrow> repo_db" where
  "release_where now p db = db\<lparr>db_claims := map (\<lambda>c. if claim_active c \<and> p c
      then c\<lparr>c_status := RELEASED_CLAIM_STATUS, c_released_at := Some now\<rparr> else c) (db_claims db)\<rparr>"

definition release_coverage_claims :: "datetime \<Rightarrow> int \<Rightarrow> repo_db \<Rightarrow> repo_db" where
  "release_coverage_claims now did = release_where now (\<lambda>c. c_download_id c = did)"

definition resolved_seasons :: "repo_db \<Rightarrow> int \<Rightarrow> int list \<Rightarrow> int list" where
  "resolved_seasons db did targets =
     (let claimed = map c_season (filter (\<lambda>c. c_download_id c = did \<and> claim_active c) (db_claims db));
          scoped = filter (\<lambda>s. s_download_id s = did) (db_scopes db)
      in filter (\<lambda>n. Some n \<in> set claimed \<and> Some n \<in> set (map s_season scoped)
           \<and> Some n \<notin> set (map s_season (filter scope_active scoped))) targets)"

definition release_resolved_target_coverage_claims :: "datetime \<Rightarrow> int \<Rightarrow> int list \<Rightarrow> repo_db \<Rightarrow> repo_db" where
  "release_resolved_target_coverage_claims now did targets db =
     release_where now (\<lambda>c. c_download_id c = did \<and> c_season c \<in> Some ` set (resolved_seasons db did targets)) db"

section \<open>Reads\<close>

text \<open>The read-model of a row is the row with its scopes.\<close>

definition to_record :: "repo_db \<Rightarrow> download_row \<Rightarrow> download_row \<times> scope_row list" where
  "to_record db row = (row, list_scopes db (d_id row))"

definition by_id :: "download_row list \<Rightarrow> download_row list" where
  "by_id = sort_by (\<lambda>a b. d_id a \<le> d_id b)"

definition first_row :: "repo_db \<Rightarrow> (download_row \<Rightarrow> bool) \<Rightarrow> (download_row \<times> scope_row list) option" where
  "first_row db p = map_option (to_record db) (find p (by_id (db_downloads db)))"

definition last_row :: "repo_db \<Rightarrow> (download_row \<Rightarrow> bool) \<Rightarrow> (download_row \<times> scope_row list) option" where
  "last_row db p = map_option (to_record db) (find p (rev (by_id (db_downloads db))))"

definition get_by_hash :: "repo_db \<Rightarrow> string \<Rightarrow> (download_row \<times> scope_row list) option" where
  "get_by_hash db h = map_option (to_record db) (find (\<lambda>r. d_torrent_hash r = h) (db_downloads db))"

definition list_active :: "repo_db \<Rightarrow> (download_row \<times> scope_row list) list" where
  "list_active db = map (to_record db) (by_id (filter row_live (db_downloads db)))"

definition owns_active :: "repo_db \<Rightarrow> int \<Rightarrow> int option \<Rightarrow> download_row \<Rightarrow> bool" where
  "owns_active db mr ssn row \<longleftrightarrow> row_live row \<and>
     ((d_media_request_id row = Some mr \<and> d_season row = ssn
        \<and> \<not> list_ex (scope_matches (d_id row) (Some mr) ssn) (db_scopes db))
      \<or> list_ex (\<lambda>s. scope_matches (d_id row) (Some mr) ssn s \<and> scope_active s) (db_scopes db))"

definition find_active_for_request ::
  "repo_db \<Rightarrow> int \<Rightarrow> int option \<Rightarrow> (download_row \<times> scope_row list) option" where
  "find_active_for_request db mr ssn = first_row db (owns_active db mr ssn)"

text \<open>
  The batched form reads the candidate rows and their scopes for the requested ids once, and then
  decides each row: its scalar key unless a scope supersedes it, and the keys of its active scopes.
\<close>

definition wanted_scopes :: "repo_db \<Rightarrow> int list \<Rightarrow> int \<Rightarrow> scope_row list" where
  "wanted_scopes db ids did = filter (\<lambda>s. s_download_id s = did
     \<and> (case s_media_request_id s of None \<Rightarrow> False | Some mr \<Rightarrow> mr \<in> set ids)) (db_scopes db)"

definition scalar_hit :: "(int \<times> int option) list \<Rightarrow> download_row \<Rightarrow> scope_row list \<Rightarrow> (int \<times> int option) list" where
  "scalar_hit keys r scopes = (case d_media_request_id r of
       None \<Rightarrow> []
     | Some mr \<Rightarrow>
         if (mr, d_season r) \<in> set keys
            \<and> \<not> list_ex (\<lambda>s. s_media_request_id s = Some mr \<and> s_season s = d_season r) scopes
         then [(mr, d_season r)] else [])"

definition scoped_hit :: "(int \<times> int option) list \<Rightarrow> scope_row \<Rightarrow> (int \<times> int option) list" where
  "scoped_hit keys s = (case s_media_request_id s of
       None \<Rightarrow> []
     | Some mr \<Rightarrow> if scope_active s \<and> (mr, s_season s) \<in> set keys then [(mr, s_season s)] else [])"

definition find_active_for_requests ::
  "repo_db \<Rightarrow> (int \<times> int option) list \<Rightarrow> (int \<times> int option) list" where
  "find_active_for_requests db keys =
     (let ids = map fst keys;
          rows = filter (\<lambda>r. row_live r
                    \<and> ((case d_media_request_id r of None \<Rightarrow> False | Some mr \<Rightarrow> mr \<in> set ids)
                       \<or> wanted_scopes db ids (d_id r) \<noteq> [])) (db_downloads db)
      in concat (map (\<lambda>r. let scopes = wanted_scopes db ids (d_id r)
           in scalar_hit keys r scopes @ concat (map (scoped_hit keys) scopes)) rows))"

definition list_active_for_request :: "repo_db \<Rightarrow> int \<Rightarrow> (download_row \<times> scope_row list) list" where
  "list_active_for_request db mr = map (to_record db) (by_id (filter (\<lambda>r. row_live r
     \<and> (d_media_request_id r = Some mr
        \<or> list_ex (\<lambda>s. s_download_id s = d_id r \<and> s_media_request_id s = Some mr \<and> scope_active s) (db_scopes db)))
     (db_downloads db)))"

text \<open>The owners \<open>list_active_for_requests\<close> groups one row under, and the groups of a request.\<close>

definition row_owners :: "repo_db \<Rightarrow> int list \<Rightarrow> download_row \<Rightarrow> int list" where
  "row_owners db ids r =
     (let scopes = list_scopes db (d_id r);
          scalar = (case d_media_request_id r of
               None \<Rightarrow> []
             | Some mr \<Rightarrow> if mr \<in> set ids \<and> \<not> list_ex (\<lambda>s. s_media_request_id s = Some mr) scopes then [mr] else [])
      in remdups (scalar @ concat (map (\<lambda>s. case s_media_request_id s of
             None \<Rightarrow> []
           | Some mr \<Rightarrow> if mr \<in> set ids \<and> scope_active s then [mr] else []) scopes)))"

definition list_active_for_requests ::
  "repo_db \<Rightarrow> int list \<Rightarrow> int \<Rightarrow> (download_row \<times> scope_row list) list option" where
  "list_active_for_requests db ids mr =
     (if mr \<notin> set ids then None
      else Some (map (to_record db) (filter (\<lambda>r. mr \<in> set (row_owners db ids r))
             (by_id (filter row_live (db_downloads db))))))"

definition find_latest_for_request ::
  "repo_db \<Rightarrow> int \<Rightarrow> int option \<Rightarrow> (download_row \<times> scope_row list) option" where
  "find_latest_for_request db mr ssn = last_row db (\<lambda>r.
     (d_media_request_id r = Some mr \<and> d_season r = ssn)
     \<or> list_ex (scope_matches (d_id r) (Some mr) ssn) (db_scopes db))"

definition find_latest_imported_for_request ::
  "repo_db \<Rightarrow> int \<Rightarrow> int option \<Rightarrow> (download_row \<times> scope_row list) option" where
  "find_latest_imported_for_request db mr ssn = last_row db (\<lambda>r.
     (d_status r = ''imported'' \<and> d_media_request_id r = Some mr \<and> d_season r = ssn)
     \<or> list_ex (\<lambda>s. scope_matches (d_id r) (Some mr) ssn s \<and> s_status s = ''imported'') (db_scopes db))"

definition imported_unscoped_pack_candidates ::
  "repo_db \<Rightarrow> int \<Rightarrow> int \<Rightarrow> (string option \<times> datetime) list" where
  "imported_unscoped_pack_candidates db mr ssn =
     (let keep = (\<lambda>eps r. case d_added_at r of
             Some t \<Rightarrow> if eps = None then [(d_release_title r, t)] else [] | None \<Rightarrow> [])
      in concat (map (\<lambda>r. if d_media_request_id r = Some mr \<and> d_season r = Some ssn \<and> d_status r = ''imported''
             then keep (d_episodes r) r else []) (db_downloads db))
       @ concat (map (\<lambda>s. if s_media_request_id s = Some mr \<and> s_season s = Some ssn \<and> s_status s = ''imported''
             then concat (map (\<lambda>r. if d_id r = s_download_id s then keep (s_episodes s) r else []) (db_downloads db))
             else []) (db_scopes db)))"

definition claim_covers :: "repo_db \<Rightarrow> (int \<Rightarrow> bool) \<Rightarrow> int \<Rightarrow> download_row \<Rightarrow> bool" where
  "claim_covers db p ssn row \<longleftrightarrow> row_live row \<and> list_ex (\<lambda>c. c_download_id c = d_id row \<and> claim_active c
     \<and> c_season c = Some ssn \<and> (case c_media_request_id c of None \<Rightarrow> False | Some mr \<Rightarrow> p mr)) (db_claims db)"

definition find_active_coverage_owner ::
  "repo_db \<Rightarrow> int \<Rightarrow> int option \<Rightarrow> (download_row \<times> scope_row list) option" where
  "find_active_coverage_owner db mr ssn =
     (case ssn of None \<Rightarrow> None | Some n \<Rightarrow> first_row db (claim_covers db (\<lambda>i. i = mr) n))"

definition find_active_for_request_or_coverage ::
  "repo_db \<Rightarrow> int \<Rightarrow> int option \<Rightarrow> (download_row \<times> scope_row list) option" where
  "find_active_for_request_or_coverage db mr ssn = (case find_active_for_request db mr ssn of
       Some r \<Rightarrow> Some r | None \<Rightarrow> find_active_coverage_owner db mr ssn)"

definition tv_title :: "repo_db \<Rightarrow> int \<Rightarrow> int \<Rightarrow> bool" where
  "tv_title db tmdb mr \<longleftrightarrow>
     list_ex (\<lambda>k. rk_id k = mr \<and> rk_tmdb_id k = tmdb \<and> rk_media_type k = Tv) (db_requests db)"

definition find_active_coverage_title ::
  "repo_db \<Rightarrow> int \<Rightarrow> int option \<Rightarrow> (download_row \<times> scope_row list) option" where
  "find_active_coverage_title db tmdb ssn =
     (case ssn of None \<Rightarrow> None | Some n \<Rightarrow> first_row db (claim_covers db (tv_title db tmdb) n))"

definition title_hit :: "repo_db \<Rightarrow> (int \<times> int) list \<Rightarrow> request_key_row \<Rightarrow> claim_row \<Rightarrow> (int \<times> int) list" where
  "title_hit db keys k c = (case c_season c of
       None \<Rightarrow> []
     | Some n \<Rightarrow>
         if c_media_request_id c = Some (rk_id k) \<and> rk_tmdb_id k \<in> set (map fst keys) \<and> rk_media_type k = Tv
            \<and> claim_active c \<and> list_ex (\<lambda>r. d_id r = c_download_id c \<and> row_live r) (db_downloads db)
            \<and> (rk_tmdb_id k, n) \<in> set keys
         then [(rk_tmdb_id k, n)] else [])"

definition find_active_coverage_titles :: "repo_db \<Rightarrow> (int \<times> int) list \<Rightarrow> (int \<times> int) list" where
  "find_active_coverage_titles db keys =
     concat (map (\<lambda>k. concat (map (title_hit db keys k) (db_claims db))) (db_requests db))"

section \<open>Writes\<close>

text \<open>
  The optional arguments shared by the writers, one field per keyword argument with the keyword's
  default in \<open>no_update\<close>. For \<open>require_failed_reason\<close> the outer \<open>None\<close> is the sentinel
  \<open>NO_REASON_PREDICATE\<close>.
\<close>

record status_update =
  su_download_path :: "string option"
  su_clear_download_path :: bool
  su_failed_reason :: "string option"
  su_clear_failed_reason :: bool
  su_progress :: "rat option"
  su_seed_ratio :: "rat option"
  su_first_seen_at :: "datetime option"
  su_clear_first_seen_at :: bool
  su_media_request_id :: "int option"
  su_replace_grab_metadata :: bool
  su_magnet_link :: "string option"
  su_tmdb_id :: "int option"
  su_year :: "int option"
  su_season :: "int option"
  su_episodes :: "int list option"
  su_media_type :: "string option"
  su_release_title :: "string option"
  su_added_at :: "datetime option"
  su_timeout_at :: "datetime option"
  su_clear_timeout_at :: bool
  su_retry_count :: "int option"
  su_payload_pending :: "bool option"
  su_payload_resume :: "bool option"
  su_payload_force_start :: "bool option"
  su_payload_rejection :: "string option"
  su_clear_payload_rejection :: bool
  su_require_failed_reason :: "string option option"
  su_require_no_unimported_scope_outside :: "int list option"

definition no_update :: status_update where
  "no_update = \<lparr>su_download_path = None, su_clear_download_path = False, su_failed_reason = None,
     su_clear_failed_reason = False, su_progress = None, su_seed_ratio = None, su_first_seen_at = None,
     su_clear_first_seen_at = False, su_media_request_id = None, su_replace_grab_metadata = False,
     su_magnet_link = None, su_tmdb_id = None, su_year = None, su_season = None, su_episodes = None,
     su_media_type = None, su_release_title = None, su_added_at = None, su_timeout_at = None,
     su_clear_timeout_at = False, su_retry_count = None, su_payload_pending = None, su_payload_resume = None,
     su_payload_force_start = None, su_payload_rejection = None, su_clear_payload_rejection = False,
     su_require_failed_reason = None, su_require_no_unimported_scope_outside = None\<rparr>"

definition keep_or :: "'a \<Rightarrow> 'a option \<Rightarrow> 'a" where
  "keep_or old new = (case new of None \<Rightarrow> old | Some v \<Rightarrow> v)"

definition clear_or_set :: "bool \<Rightarrow> 'a option \<Rightarrow> 'a option \<Rightarrow> 'a option" where
  "clear_or_set clr old new = (if clr then None else case new of None \<Rightarrow> old | Some v \<Rightarrow> Some v)"

definition MediaType_of :: "string option \<Rightarrow> repo_error + media_type option" where
  "MediaType_of v = (case v of None \<Rightarrow> Inr None
     | Some t \<Rightarrow> if t = ''movie'' then Inr (Some Movie) else if t = ''tv'' then Inr (Some Tv) else Inl ValueError)"

definition grab_metadata :: "status_update \<Rightarrow> media_type option \<Rightarrow> download_row \<Rightarrow> download_row" where
  "grab_metadata u mt row = (if su_replace_grab_metadata u
     then row\<lparr>d_magnet_link := su_magnet_link u, d_tmdb_id := su_tmdb_id u, d_year := su_year u,
              d_season := su_season u, d_episodes := su_episodes u, d_media_type := mt,
              d_release_title := su_release_title u\<rparr>
     else row)"

definition row_values :: "datetime \<Rightarrow> string \<Rightarrow> status_update \<Rightarrow> media_type option \<Rightarrow> download_row \<Rightarrow> download_row" where
  "row_values now st u mt row = (grab_metadata u mt row)\<lparr>
     d_status := st,
     d_download_path := clear_or_set (su_clear_download_path u) (d_download_path row) (su_download_path u),
     d_payload_resume := keep_or (d_payload_resume row) (su_payload_resume u),
     d_payload_force_start := keep_or (d_payload_force_start row) (su_payload_force_start u),
     d_payload_pending := keep_or (d_payload_pending row) (su_payload_pending u),
     d_payload_rejection := clear_or_set (su_clear_payload_rejection u) (d_payload_rejection row) (su_payload_rejection u),
     d_failed_at := (if \<not> su_clear_payload_rejection u \<and> su_payload_rejection u \<noteq> None then Some now else d_failed_at row),
     d_failed_reason := clear_or_set (su_clear_failed_reason u) (d_failed_reason row) (su_failed_reason u),
     d_progress := keep_or (d_progress row) (su_progress u),
     d_seed_ratio := keep_or (d_seed_ratio row) (su_seed_ratio u),
     d_media_request_id := (case su_media_request_id u of None \<Rightarrow> d_media_request_id row | Some m \<Rightarrow> Some m),
     d_first_seen_at := clear_or_set (su_clear_first_seen_at u) (d_first_seen_at row) (su_first_seen_at u),
     d_added_at := (case su_added_at u of None \<Rightarrow> d_added_at row | Some t \<Rightarrow> Some t),
     d_timeout_at := clear_or_set (su_clear_timeout_at u) (d_timeout_at row) (su_timeout_at u),
     d_retry_count := keep_or (d_retry_count row) (su_retry_count u)\<rparr>"

definition cas_where :: "repo_db \<Rightarrow> int \<Rightarrow> string list \<Rightarrow> status_update \<Rightarrow> download_row \<Rightarrow> bool" where
  "cas_where db did allowed u row \<longleftrightarrow> d_id row = did \<and> d_status row \<in> set allowed
     \<and> (case su_require_failed_reason u of None \<Rightarrow> True | Some r \<Rightarrow> d_failed_reason row = r)
     \<and> (case su_require_no_unimported_scope_outside u of None \<Rightarrow> True
        | Some ids \<Rightarrow> \<not> list_ex (\<lambda>s. s_download_id s = did \<and> s_status s \<noteq> ''imported'' \<and> s_id s \<notin> set ids) (db_scopes db))"

text \<open>What follows a status write: release the claims of a finished torrent, replace its scopes.\<close>

definition after_status :: "datetime \<Rightarrow> int \<Rightarrow> string \<Rightarrow> status_update \<Rightarrow> repo_db \<Rightarrow> unit repo_result" where
  "after_status now did st u db =
     (let db' = (if st \<in> set TERMINAL_DOWNLOAD_STATUSES then release_coverage_claims now did db else db)
      in if su_replace_grab_metadata u
         then replace_scope_set did (su_media_request_id u) (su_season u) (su_episodes u) db'
         else Inr ((), db'))"

definition update_status_if_in ::
  "datetime \<Rightarrow> int \<Rightarrow> string \<Rightarrow> string list \<Rightarrow> status_update \<Rightarrow> repo_db \<Rightarrow> bool repo_result" where
  "update_status_if_in now did st allowed u db =
     (case (if su_replace_grab_metadata u then MediaType_of (su_media_type u) else Inr None) of
        Inl e \<Rightarrow> Inl e
      | Inr mt \<Rightarrow>
          let hit = cas_where db did allowed u;
              updated = (length (filter hit (db_downloads db)) = 1)
          in case flush () (db\<lparr>db_downloads := map (\<lambda>r. if hit r then row_values now st u mt r else r) (db_downloads db)\<rparr>) of
               Inl e \<Rightarrow> Inl e
             | Inr (_, db') \<Rightarrow>
                 if updated then map_sum id (\<lambda>(_, d). (True, d)) (after_status now did st u db')
                 else Inr (False, db'))"

text \<open>The unconditional writer has none of the keywords reset here.\<close>

definition update_status_args :: "status_update \<Rightarrow> status_update" where
  "update_status_args u = u\<lparr>su_added_at := None, su_timeout_at := None, su_clear_timeout_at := False,
     su_retry_count := None, su_payload_pending := None, su_payload_resume := None,
     su_payload_force_start := None, su_payload_rejection := None, su_clear_payload_rejection := False\<rparr>"

definition update_status :: "datetime \<Rightarrow> int \<Rightarrow> string \<Rightarrow> status_update \<Rightarrow> repo_db \<Rightarrow> unit repo_result" where
  "update_status now did st u db =
     (if \<not> list_ex (\<lambda>r. d_id r = did) (db_downloads db) then Inl LookupError
      else case (if su_replace_grab_metadata u then MediaType_of (su_media_type u) else Inr None) of
        Inl e \<Rightarrow> Inl e
      | Inr mt \<Rightarrow>
          case flush () (db\<lparr>db_downloads := map (\<lambda>r. if d_id r = did
                 then row_values now st (update_status_args u) mt r else r) (db_downloads db)\<rparr>) of
            Inl e \<Rightarrow> Inl e
          | Inr (_, db') \<Rightarrow> after_status now did st u db')"

definition increment_retry_count_if_in :: "int \<Rightarrow> string list \<Rightarrow> repo_db \<Rightarrow> bool repo_result" where
  "increment_retry_count_if_in did allowed db =
     (let hit = (\<lambda>r. d_id r = did \<and> d_status r \<in> set allowed)
      in flush (length (filter hit (db_downloads db)) = 1)
           (db\<lparr>db_downloads := map (\<lambda>r. if hit r then r\<lparr>d_retry_count := d_retry_count r + 1\<rparr> else r) (db_downloads db)\<rparr>))"

definition refresh_progress ::
  "int \<Rightarrow> rat option \<Rightarrow> rat option \<Rightarrow> datetime option \<Rightarrow> bool \<Rightarrow> repo_db \<Rightarrow> unit repo_result" where
  "refresh_progress did prog ratio tmo clr db =
     flush () (db\<lparr>db_downloads := map (\<lambda>r. if d_id r = did
       then r\<lparr>d_progress := keep_or (d_progress r) prog, d_seed_ratio := keep_or (d_seed_ratio r) ratio,
              d_timeout_at := clear_or_set clr (d_timeout_at r) tmo\<rparr> else r) (db_downloads db)\<rparr>)"

definition lock_if_active :: "repo_db \<Rightarrow> int \<Rightarrow> bool" where
  "lock_if_active db did \<longleftrightarrow> length (filter (\<lambda>r. d_id r = did \<and> row_live r) (db_downloads db)) = 1"

definition lock_if_terminal :: "repo_db \<Rightarrow> int \<Rightarrow> bool" where
  "lock_if_terminal db did \<longleftrightarrow> length (filter (\<lambda>r. d_id r = did \<and> \<not> row_live r) (db_downloads db)) = 1"

text \<open>
  \<open>create\<close>: the new row's \<open>media_type\<close> argument is converted first, then the row is inserted with the
  column defaults of \<open>models.py\<close> and, for a TV request, its first scope is attached.
\<close>

definition new_download :: "datetime \<Rightarrow> int \<Rightarrow> string \<Rightarrow> string \<Rightarrow> status_update \<Rightarrow> media_type option \<Rightarrow> download_row" where
  "new_download now did h st u mt =
     \<lparr>d_id = did, d_media_request_id = su_media_request_id u, d_torrent_hash = h, d_magnet_link = su_magnet_link u,
      d_status = st, d_progress = 0, d_seed_ratio = 0, d_media_type = mt, d_tmdb_id = su_tmdb_id u,
      d_year = su_year u, d_season = su_season u, d_episodes = su_episodes u, d_timeout_at = su_timeout_at u,
      d_first_seen_at = None, d_added_at = Some now, d_failed_at = None, d_failed_reason = None,
      d_retry_count = 0, d_payload_pending = keep_or False (su_payload_pending u),
      d_payload_resume = keep_or False (su_payload_resume u),
      d_payload_force_start = keep_or False (su_payload_force_start u), d_payload_rejection = None,
      d_download_path = None, d_release_title = su_release_title u\<rparr>"

definition create ::
  "datetime \<Rightarrow> string \<Rightarrow> string \<Rightarrow> status_update \<Rightarrow> repo_db \<Rightarrow> (download_row \<times> scope_row list) repo_result" where
  "create now h st u db =
     (case MediaType_of (su_media_type u) of
        Inl e \<Rightarrow> Inl e
      | Inr mt \<Rightarrow>
          let row = new_download now (db_next_id db) h st u mt
          in case flush () (db\<lparr>db_downloads := db_downloads db @ [row], db_next_id := db_next_id db + 1\<rparr>) of
               Inl e \<Rightarrow> Inl e
             | Inr (_, db') \<Rightarrow>
                 if su_media_request_id u \<noteq> None \<and> su_season u \<noteq> None
                 then map_sum id (\<lambda>(s, d). ((row, [s]), d))
                        (ensure_scope (d_id row) (su_media_request_id u) (su_season u) (su_episodes u) db')
                 else Inr ((row, []), db'))"

definition align_row :: "repo_db \<Rightarrow> download_row \<Rightarrow> download_row" where
  "align_row db row =
     (case filter scope_active (list_scopes db (d_id row)) of
        [] \<Rightarrow> row
      | s0 # rest \<Rightarrow>
          let target = (case find (\<lambda>s. s_season s = d_season row) (s0 # rest) of Some s \<Rightarrow> s | None \<Rightarrow> s0)
          in if d_season row = s_season target \<and> episodes_equal (d_episodes row) (s_episodes target) then row
             else row\<lparr>d_season := s_season target, d_episodes := s_episodes target\<rparr>)"

definition align_scalar_scope_with_active :: "int \<Rightarrow> repo_db \<Rightarrow> unit repo_result" where
  "align_scalar_scope_with_active did db =
     (if \<not> list_ex (\<lambda>r. d_id r = did) (db_downloads db) then Inl LookupError
      else flush () (db\<lparr>db_downloads := map (\<lambda>r. if d_id r = did then align_row db r else r) (db_downloads db)\<rparr>))"

section \<open>The invariant of the store\<close>

text \<open>
  \<open>claims_live\<close>: an active coverage claim belongs to a download that exists and is not finished. It is
  the property that no season stays blocked by a claim its torrent left behind.
\<close>

definition live_ids :: "repo_db \<Rightarrow> int set" where
  "live_ids db = d_id ` {r \<in> set (db_downloads db). row_live r}"

definition claiming_ids :: "repo_db \<Rightarrow> int set" where
  "claiming_ids db = c_download_id ` {c \<in> set (db_claims db). claim_active c}"

definition repo_inv :: "repo_db \<Rightarrow> bool" where
  "repo_inv db \<longleftrightarrow> db_unique db \<and> claiming_ids db \<subseteq> live_ids db"

lemma flush_Inr [simp]: "flush x db = Inr (y, db') \<longleftrightarrow> y = x \<and> db' = db \<and> db_unique db"
  by (auto simp: flush_def)

lemma map_sum_Inr: "map_sum id f r = Inr y \<longleftrightarrow> (\<exists>x. r = Inr x \<and> y = f x)"
  by (cases r) auto

lemma RELEASED_inactive [simp]: "\<not> claim_active (c\<lparr>c_status := RELEASED_CLAIM_STATUS, c_released_at := t\<rparr>)"
  by (simp add: claim_active_def ACTIVE_CLAIM_STATUS_def RELEASED_CLAIM_STATUS_def)

lemma distinct_map_filter_mono:
  assumes "distinct (map f (filter Q xs))" and "\<And>x. P x \<Longrightarrow> Q x"
  shows "distinct (map f (filter P xs))"
proof -
  have "filter P xs = filter P (filter Q xs)" using assms(2) by (induction xs) auto
  with assms(1) show ?thesis by (metis distinct_map_filter)
qed

lemma claim_keys_release_where:
  "claim_keys (release_where now p db) = map (\<lambda>c. (c_media_request_id c, c_season c))
     (filter (\<lambda>c. c_media_request_id c \<noteq> None \<and> c_season c \<noteq> None \<and> claim_active c \<and> \<not> p c) (db_claims db))"
proof -
  have "map (\<lambda>c. (c_media_request_id c, c_season c)) (filter (\<lambda>c. c_media_request_id c \<noteq> None
      \<and> c_season c \<noteq> None \<and> claim_active c) (map (\<lambda>c. if claim_active c \<and> p c
        then c\<lparr>c_status := RELEASED_CLAIM_STATUS, c_released_at := Some now\<rparr> else c) cs))
    = map (\<lambda>c. (c_media_request_id c, c_season c))
     (filter (\<lambda>c. c_media_request_id c \<noteq> None \<and> c_season c \<noteq> None \<and> claim_active c \<and> \<not> p c) cs)" for cs
    by (induction cs) simp_all
  then show ?thesis by (simp add: claim_keys_def release_where_def)
qed

lemma release_where_frame [simp]:
  "db_downloads (release_where now p db) = db_downloads db"
  "db_scopes (release_where now p db) = db_scopes db"
  "live_ids (release_where now p db) = live_ids db"
  "download_keys (release_where now p db) = download_keys db"
  "scope_keys (release_where now p db) = scope_keys db"
  by (simp_all add: release_where_def live_ids_def download_keys_def scope_keys_def)

lemma release_where_unique: "db_unique db \<Longrightarrow> db_unique (release_where now p db)"
proof -
  assume u: "db_unique db"
  then have "distinct (claim_keys db)" by (simp add: db_unique_def)
  then have "distinct (claim_keys (release_where now p db))"
    unfolding claim_keys_release_where unfolding claim_keys_def
    by (rule distinct_map_filter_mono) simp
  moreover have "map c_id (db_claims (release_where now p db)) = map c_id (db_claims db)"
    by (simp add: release_where_def comp_def if_distrib cong: if_cong)
  ultimately show ?thesis using u by (simp add: db_unique_def)
qed

lemma claiming_ids_release_where:
  "claiming_ids (release_where now p db) =
     c_download_id ` {c \<in> set (db_claims db). claim_active c \<and> \<not> p c}"
proof -
  have "{c \<in> set (db_claims (release_where now p db)). claim_active c} =
      {c \<in> set (db_claims db). claim_active c \<and> \<not> p c}"
    by (auto simp: release_where_def split: if_splits)
  then show ?thesis by (simp add: claiming_ids_def)
qed

lemma claiming_ids_release_subset: "claiming_ids (release_where now p db) \<subseteq> claiming_ids db"
  unfolding claiming_ids_release_where by (auto simp: claiming_ids_def)

lemma release_where_inv: "repo_inv db \<Longrightarrow> repo_inv (release_where now p db)"
  using release_where_unique[of db now p] claiming_ids_release_subset[of now p db]
  by (auto simp: repo_inv_def)

lemma repo_inv_scopes:
  "repo_inv db \<Longrightarrow> db_unique (db\<lparr>db_scopes := ss\<rparr>) \<Longrightarrow> repo_inv (db\<lparr>db_scopes := ss\<rparr>)"
  by (simp add: repo_inv_def claiming_ids_def live_ids_def)

lemma repo_inv_next_id [simp]: "repo_inv (db\<lparr>db_next_id := n\<rparr>) = repo_inv db"
  by (simp add: repo_inv_def claiming_ids_def live_ids_def db_unique_def download_keys_def scope_keys_def
    claim_keys_def)

lemma ensure_scope_inv:
  assumes "repo_inv db" and "ensure_scope did mr ssn eps db = Inr (s, db')"
  shows "repo_inv db' \<and> db_downloads db' = db_downloads db \<and> db_claims db' = db_claims db"
  using assms
  by (auto simp: ensure_scope_def Let_def repo_inv_def claiming_ids_def live_ids_def
      split: option.splits if_splits)

lemma replace_scope_set_inv:
  assumes "repo_inv db" and "replace_scope_set did mr ssn eps db = Inr (x, db')"
  shows "repo_inv db' \<and> db_downloads db' = db_downloads db \<and> db_claims db' = db_claims db"
proof -
  let ?p = "\<lambda>s. \<not> (s_download_id s = did \<and> s_status s \<noteq> ''imported'')"
  let ?db = "db\<lparr>db_scopes := filter ?p (db_scopes db)\<rparr>"
  have "distinct (scope_keys ?db)"
    using assms(1) by (auto simp: repo_inv_def db_unique_def scope_keys_def elim: distinct_map_filter_mono)
  moreover have "distinct (map s_id (filter ?p (db_scopes db)))"
    using assms(1) by (auto simp: repo_inv_def db_unique_def intro: distinct_map_filter)
  ultimately have "db_unique ?db"
    using assms(1) by (simp add: repo_inv_def db_unique_def download_keys_def claim_keys_def)
  with assms(1) have "repo_inv ?db" by (rule repo_inv_scopes)
  then show ?thesis
    using assms(2) ensure_scope_inv[of ?db did mr ssn eps]
    by (fastforce simp: replace_scope_set_def Let_def map_sum_Inr split: if_splits)
qed

lemma after_status_inv:
  assumes "db_unique db" and "after_status now did st u db = Inr (x, db')"
    and "claiming_ids db \<subseteq> insert did (live_ids db)"
    and "st \<notin> set TERMINAL_DOWNLOAD_STATUSES \<Longrightarrow> did \<in> claiming_ids db \<Longrightarrow> did \<in> live_ids db"
  shows "repo_inv db' \<and> db_downloads db' = db_downloads db
    \<and> (st \<in> set TERMINAL_DOWNLOAD_STATUSES \<longrightarrow> did \<notin> claiming_ids db')"
proof -
  let ?db = "if st \<in> set TERMINAL_DOWNLOAD_STATUSES then release_coverage_claims now did db else db"
  have "repo_inv ?db"
  proof (cases "st \<in> set TERMINAL_DOWNLOAD_STATUSES")
    case True
    have "claiming_ids (release_coverage_claims now did db) \<subseteq> live_ids db"
      unfolding release_coverage_claims_def claiming_ids_release_where
      using assms(3) by (auto simp: claiming_ids_def)
    with True assms(1) show ?thesis by (simp add: repo_inv_def release_coverage_claims_def release_where_unique)
  next
    case False
    with assms(1,3,4) show ?thesis by (auto simp: repo_inv_def)
  qed
  moreover have "st \<in> set TERMINAL_DOWNLOAD_STATUSES \<Longrightarrow> did \<notin> claiming_ids ?db"
    by (auto simp: release_coverage_claims_def claiming_ids_release_where)
  moreover have "db_downloads ?db = db_downloads db" by (simp add: release_coverage_claims_def)
  ultimately show ?thesis
    using assms(2) replace_scope_set_inv[of ?db did] unfolding after_status_def Let_def
    by (auto simp: claiming_ids_def split: if_splits)
qed

lemma row_values_simps [simp]:
  "d_id (row_values now st u mt r) = d_id r"
  "d_status (row_values now st u mt r) = st"
  "d_torrent_hash (row_values now st u mt r) = d_torrent_hash r"
  by (simp_all add: row_values_def grab_metadata_def)

lemma row_live_row_values [simp]:
  "row_live (row_values now st u mt r) \<longleftrightarrow> st \<notin> set TERMINAL_DOWNLOAD_STATUSES"
  by (simp add: row_live_def)

lemma live_ids_map:
  assumes "\<And>r. d_id (f r) = d_id r"
    and "\<And>r. r \<in> set (db_downloads db) \<Longrightarrow> row_live r \<Longrightarrow> d_id r \<notin> A \<Longrightarrow> row_live (f r)"
  shows "live_ids db \<subseteq> A \<union> live_ids (db\<lparr>db_downloads := map f (db_downloads db)\<rparr>)"
proof
  fix i assume "i \<in> live_ids db"
  then obtain r where r: "r \<in> set (db_downloads db)" "row_live r" "d_id r = i"
    by (auto simp: live_ids_def)
  show "i \<in> A \<union> live_ids (db\<lparr>db_downloads := map f (db_downloads db)\<rparr>)"
  proof (cases "i \<in> A")
    case False
    with r assms have "f r \<in> {r \<in> f ` set (db_downloads db). row_live r}" by auto
    then have "d_id (f r) \<in> live_ids (db\<lparr>db_downloads := map f (db_downloads db)\<rparr>)"
      unfolding live_ids_def by (intro imageI) simp
    with assms(1) r show ?thesis by simp
  qed simp
qed

lemma claiming_ids_map:
  assumes "\<And>c. c_download_id (f c) = c_download_id c"
    and "\<And>c. c \<in> set (db_claims db) \<Longrightarrow> claim_active (f c) \<Longrightarrow> \<not> claim_active c \<Longrightarrow> c_download_id c = did"
  shows "claiming_ids (db\<lparr>db_claims := map f (db_claims db)\<rparr>) \<subseteq> insert did (claiming_ids db)"
  using assms by (auto simp: claiming_ids_def)

lemma claiming_ids_downloads [simp]: "claiming_ids (db\<lparr>db_downloads := ds\<rparr>) = claiming_ids db"
  by (simp add: claiming_ids_def)

text \<open>A \<open>WHERE id = ...\<close> statement touches at most one row.\<close>

lemma count_by_key:
  assumes "distinct (map key xs)" and "\<And>x. P x \<Longrightarrow> key x = k"
  shows "length (filter P xs) = 1 \<longleftrightarrow> list_ex P xs"
  using assms(1)
proof (induction xs)
  case (Cons x xs)
  have "P x \<Longrightarrow> filter P xs = []"
    using Cons.prems assms(2) by (auto simp: filter_empty_conv)
  with Cons show ?case by auto
qed simp

lemma map_if_no_hit: "\<not> list_ex P xs \<Longrightarrow> map (\<lambda>x. if P x then f x else x) xs = xs"
  by (induction xs) auto

lemma update_status_if_in_spec:
  assumes inv: "repo_inv db" and upd: "update_status_if_in now did st allowed u db = Inr (b, db')"
  shows "repo_inv db'"
    and "b \<longleftrightarrow> list_ex (cas_where db did allowed u) (db_downloads db)"
    and "\<not> b \<Longrightarrow> db' = db"
    and "\<exists>mt. db_downloads db' =
      map (\<lambda>r. if cas_where db did allowed u r then row_values now st u mt r else r) (db_downloads db)"
    and "b \<Longrightarrow> st \<in> set TERMINAL_DOWNLOAD_STATUSES \<Longrightarrow> did \<notin> claiming_ids db'"
proof -
  let ?hit = "cas_where db did allowed u"
  have hit_id: "?hit r \<Longrightarrow> d_id r = did" for r by (simp add: cas_where_def)
  have count: "length (filter ?hit (db_downloads db)) = 1 \<longleftrightarrow> list_ex ?hit (db_downloads db)"
    using inv hit_id by (intro count_by_key[of d_id]) (auto simp: repo_inv_def db_unique_def)
  from upd obtain mt where mt: "(if su_replace_grab_metadata u then MediaType_of (su_media_type u) else Inr None) = Inr mt"
    by (auto simp: update_status_if_in_def split: sum.splits)
  let ?f = "\<lambda>r. if ?hit r then row_values now st u mt r else r"
  let ?m = "db\<lparr>db_downloads := map ?f (db_downloads db)\<rparr>"
  have uniq: "db_unique ?m" and res: "if list_ex ?hit (db_downloads db)
      then \<exists>x. after_status now did st u ?m = Inr (x, db') \<and> b else db' = ?m \<and> \<not> b"
    using upd unfolding update_status_if_in_def mt sum.case Let_def count
    by (auto simp: map_sum_Inr flush_def split: sum.splits if_splits)
  have live: "live_ids db \<subseteq> {did} \<union> live_ids ?m"
    by (rule live_ids_map) (auto simp: hit_id)
  have live': "live_ids db \<subseteq> {} \<union> live_ids ?m" if "st \<notin> set TERMINAL_DOWNLOAD_STATUSES"
    by (rule live_ids_map) (use that in auto)
  have cl: "claiming_ids ?m \<subseteq> live_ids db" using inv by (simp add: repo_inv_def)
  show "b \<longleftrightarrow> list_ex ?hit (db_downloads db)" using res by (auto split: if_splits)
  have no: "\<not> list_ex ?hit (db_downloads db) \<Longrightarrow> ?m = db" by (simp add: map_if_no_hit)
  show "\<not> b \<Longrightarrow> db' = db" using res no by (auto split: if_splits)
  have post: "repo_inv db' \<and> db_downloads db' = db_downloads ?m
      \<and> (b \<longrightarrow> st \<in> set TERMINAL_DOWNLOAD_STATUSES \<longrightarrow> did \<notin> claiming_ids db')"
  proof (cases "list_ex ?hit (db_downloads db)")
    case True
    with res obtain x where "after_status now did st u ?m = Inr (x, db')" by auto
    from after_status_inv[OF uniq this] live live' cl show ?thesis by auto
  next
    case False
    with res no inv show ?thesis by auto
  qed
  then show "repo_inv db'" "b \<Longrightarrow> st \<in> set TERMINAL_DOWNLOAD_STATUSES \<Longrightarrow> did \<notin> claiming_ids db'"
    by blast+
  show "\<exists>mt. db_downloads db' = map (\<lambda>r. if ?hit r then row_values now st u mt r else r) (db_downloads db)"
    using post by (intro exI[of _ mt]) simp
qed

lemma update_status_inv:
  assumes inv: "repo_inv db" and upd: "update_status now did st u db = Inr (x, db')"
  shows "repo_inv db'"
proof -
  from upd obtain mt where mt: "(if su_replace_grab_metadata u then MediaType_of (su_media_type u) else Inr None) = Inr mt"
    by (auto simp: update_status_def split: sum.splits if_splits)
  let ?f = "\<lambda>r. if d_id r = did then row_values now st (update_status_args u) mt r else r"
  let ?m = "db\<lparr>db_downloads := map ?f (db_downloads db)\<rparr>"
  have uniq: "db_unique ?m" and res: "after_status now did st u ?m = Inr (x, db')"
    using upd unfolding update_status_def mt sum.case by (auto simp: flush_def split: sum.splits if_splits)
  have "live_ids db \<subseteq> {did} \<union> live_ids ?m" by (rule live_ids_map) auto
  moreover have "live_ids db \<subseteq> {} \<union> live_ids ?m" if "st \<notin> set TERMINAL_DOWNLOAD_STATUSES"
    by (rule live_ids_map) (use that in auto)
  moreover have "claiming_ids ?m \<subseteq> live_ids db" using inv by (simp add: repo_inv_def)
  ultimately show ?thesis using after_status_inv[OF uniq res] by auto
qed

text \<open>Writers that leave every status alone.\<close>

lemma repo_inv_map_downloads:
  assumes inv: "repo_inv db" and upd: "flush x (db\<lparr>db_downloads := map f (db_downloads db)\<rparr>) = Inr (y, db')"
    and f: "\<And>r. d_id (f r) = d_id r \<and> d_status (f r) = d_status r"
  shows "repo_inv db'"
proof -
  let ?m = "db\<lparr>db_downloads := map f (db_downloads db)\<rparr>"
  have "live_ids db \<subseteq> {} \<union> live_ids ?m"
    by (rule live_ids_map) (simp_all add: f row_live_def)
  with inv upd show ?thesis by (auto simp: repo_inv_def)
qed

lemma refresh_progress_inv:
  "repo_inv db \<Longrightarrow> refresh_progress did p sr t c db = Inr (x, db') \<Longrightarrow> repo_inv db'"
  unfolding refresh_progress_def by (erule (1) repo_inv_map_downloads) simp

lemma increment_retry_count_inv:
  "repo_inv db \<Longrightarrow> increment_retry_count_if_in did allowed db = Inr (x, db') \<Longrightarrow> repo_inv db'"
  unfolding increment_retry_count_if_in_def Let_def by (erule (1) repo_inv_map_downloads) simp

lemma align_row_simps [simp]: "d_id (align_row db r) = d_id r" "d_status (align_row db r) = d_status r"
  by (simp_all add: align_row_def Let_def split: list.splits)

lemma align_scalar_inv:
  assumes "repo_inv db" and "align_scalar_scope_with_active did db = Inr (x, db')"
  shows "repo_inv db'"
proof -
  from assms(2) have "flush () (db\<lparr>db_downloads := map (\<lambda>r. if d_id r = did then align_row db r else r)
      (db_downloads db)\<rparr>) = Inr (x, db')"
    by (simp add: align_scalar_scope_with_active_def split: if_splits)
  with assms(1) show ?thesis by (rule repo_inv_map_downloads) simp
qed

lemma update_scope_status_inv:
  "repo_inv db \<Longrightarrow> update_scope_status_if_in sid st allowed db = Inr (x, db') \<Longrightarrow> repo_inv db'"
  unfolding update_scope_status_if_in_def Let_def by (auto intro: repo_inv_scopes)

lemma create_inv:
  assumes inv: "repo_inv db" and cr: "create now h st u db = Inr (x, db')"
  shows "repo_inv db'"
proof -
  from cr obtain mt where mt: "MediaType_of (su_media_type u) = Inr mt"
    by (auto simp: create_def split: sum.splits)
  let ?row = "new_download now (db_next_id db) h st u mt"
  let ?m = "db\<lparr>db_downloads := db_downloads db @ [?row], db_next_id := db_next_id db + 1\<rparr>"
  have uniq: "db_unique ?m" and res: "(\<exists>s. ensure_scope (d_id ?row) (su_media_request_id u) (su_season u)
      (su_episodes u) ?m = Inr (s, db')) \<or> db' = ?m"
    using cr unfolding create_def mt sum.case Let_def
    by (auto simp: map_sum_Inr flush_def split: sum.splits if_splits)
  have "claiming_ids ?m \<subseteq> live_ids ?m"
    using inv by (auto simp: repo_inv_def claiming_ids_def live_ids_def)
  with uniq have "repo_inv ?m" by (simp add: repo_inv_def)
  with res ensure_scope_inv[of ?m] show ?thesis by blast
qed

lemma lock_if_active_live: "lock_if_active db did \<Longrightarrow> did \<in> live_ids db"
proof -
  assume "lock_if_active db did"
  then have "filter (\<lambda>r. d_id r = did \<and> row_live r) (db_downloads db) \<noteq> []"
    by (auto simp: lock_if_active_def)
  then show ?thesis by (auto simp: live_ids_def filter_empty_conv)
qed

lemma ensure_coverage_claim_inv:
  assumes inv: "repo_inv db" and lock: "lock_if_active db did"
    and cl: "ensure_coverage_claim did mr ssn db = Inr (x, db')"
  shows "repo_inv db'"
proof (cases "find (claim_matches did mr ssn) (db_claims db)")
  case None
  with cl have "db_unique db'" "claiming_ids db' \<subseteq> insert did (claiming_ids db)" "live_ids db' = live_ids db"
    by (auto simp: ensure_coverage_claim_def claiming_ids_def live_ids_def)
  with inv lock_if_active_live[OF lock] show ?thesis by (auto simp: repo_inv_def)
next
  case (Some c)
  then have c: "c \<in> set (db_claims db)" "c_download_id c = did"
    by (auto simp: find_Some_iff claim_matches_def)
  have same: "c' \<in> set (db_claims db) \<Longrightarrow> c_id c' = c_id c \<Longrightarrow> c' = c" for c'
    using inv c(1) by (auto simp: repo_inv_def db_unique_def distinct_map dest: inj_onD)
  let ?f = "\<lambda>x. if c_id x = c_id c then x\<lparr>c_status := ACTIVE_CLAIM_STATUS, c_released_at := None\<rparr> else x"
  let ?m = "db\<lparr>db_claims := map ?f (db_claims db)\<rparr>"
  have "claiming_ids ?m \<subseteq> insert did (claiming_ids db)"
    by (rule claiming_ids_map) (use same c(2) in \<open>auto split: if_splits\<close>)
  moreover have "live_ids ?m = live_ids db" by (simp add: live_ids_def)
  moreover have "db' = db \<or> db' = ?m \<and> db_unique ?m"
    using cl Some by (auto simp: ensure_coverage_claim_def split: if_splits)
  ultimately show ?thesis using inv lock_if_active_live[OF lock] by (auto simp: repo_inv_def)
qed

text \<open>
  The writers as a step relation. A claim is only ever added for a download whose row the caller has
  locked as live (\<open>lock_if_active\<close>, or the row it has just created); every other writer may run at any
  time with any arguments. An error leaves no step: its transaction is rolled back.
\<close>

inductive repo_step :: "repo_db \<Rightarrow> repo_db \<Rightarrow> bool" where
  step_create: "create now h st u db = Inr (r, db') \<Longrightarrow> repo_step db db'"
| step_cas: "update_status_if_in now did st allowed u db = Inr (b, db') \<Longrightarrow> repo_step db db'"
| step_update: "update_status now did st u db = Inr (x, db') \<Longrightarrow> repo_step db db'"
| step_retry: "increment_retry_count_if_in did allowed db = Inr (b, db') \<Longrightarrow> repo_step db db'"
| step_progress: "refresh_progress did p sr t c db = Inr (x, db') \<Longrightarrow> repo_step db db'"
| step_align: "align_scalar_scope_with_active did db = Inr (x, db') \<Longrightarrow> repo_step db db'"
| step_scope: "ensure_scope did mr ssn eps db = Inr (s, db') \<Longrightarrow> repo_step db db'"
| step_scope_status: "update_scope_status_if_in sid st allowed db = Inr (b, db') \<Longrightarrow> repo_step db db'"
| step_claim: "lock_if_active db did \<Longrightarrow> ensure_coverage_claim did mr ssn db = Inr (x, db') \<Longrightarrow> repo_step db db'"
| step_release: "repo_step db (release_coverage_claims now did db)"
| step_release_resolved: "repo_step db (release_resolved_target_coverage_claims now did targets db)"

definition empty_db :: "request_key_row list \<Rightarrow> season_key_row list \<Rightarrow> repo_db" where
  "empty_db rs ss = \<lparr>db_downloads = [], db_scopes = [], db_claims = [], db_requests = rs, db_seasons = ss,
     db_next_id = 1\<rparr>"

definition repo_init :: "repo_db \<Rightarrow> bool" where
  "repo_init db \<longleftrightarrow> (\<exists>rs ss. db = empty_db rs ss)"

lemma repo_init_inv: "repo_init db \<Longrightarrow> repo_inv db"
  by (auto simp: repo_init_def empty_db_def repo_inv_def db_unique_def download_keys_def scope_keys_def
      claim_keys_def claiming_ids_def)

lemma repo_step_inv: "repo_step db db' \<Longrightarrow> repo_inv db \<Longrightarrow> repo_inv db'"
proof (induction rule: repo_step.induct)
  case (step_cas now did st allowed u db b db')
  then show ?case using update_status_if_in_spec(1) by blast
qed (auto intro: create_inv update_status_inv increment_retry_count_inv refresh_progress_inv align_scalar_inv
  update_scope_status_inv ensure_coverage_claim_inv release_where_inv
  simp: release_coverage_claims_def release_resolved_target_coverage_claims_def dest: ensure_scope_inv)

interpretation download_store: invariant_system repo_init repo_step repo_inv
  by unfold_locales (auto intro: repo_init_inv repo_step_inv)

lemma distinct_map_filter_inj:
  "distinct (map f (filter P xs)) \<Longrightarrow> x \<in> set xs \<Longrightarrow> y \<in> set xs \<Longrightarrow> P x \<Longrightarrow> P y \<Longrightarrow> f x = f y \<Longrightarrow> x = y"
  by (auto simp: distinct_map dest: inj_onD)

lemma claim_keys_inj:
  assumes "db_unique db" and "c1 \<in> set (db_claims db)" "c2 \<in> set (db_claims db)"
    and "claim_active c1" "claim_active c2" and "c_media_request_id c1 = Some mr" "c_media_request_id c2 = Some mr"
    and "c_season c1 = Some n" "c_season c2 = Some n"
  shows "c2 = c1"
proof (rule distinct_map_filter_inj)
  show "distinct (map (\<lambda>c. (c_media_request_id c, c_season c)) (filter (\<lambda>c. c_media_request_id c \<noteq> None
      \<and> c_season c \<noteq> None \<and> claim_active c) (db_claims db)))"
    using assms(1) by (simp add: db_unique_def claim_keys_def)
qed (use assms in auto)

text \<open>
  C19: physical coverage of a season is exclusive and never leaks. In every state the repository's
  writers can produce, an active coverage claim belongs to a download that is still live, and two
  active claims on the same request and season are the same claim; so a finished torrent blocks no
  season, and no two live torrents fetch the same season of a request.
\<close>

theorem coverage_exclusive_and_live:
  assumes "reachable repo_init repo_step db" and "c1 \<in> set (db_claims db)" and "claim_active c1"
  shows "(\<exists>r \<in> set (db_downloads db). d_id r = c_download_id c1 \<and> row_live r)
    \<and> (\<forall>c2 \<in> set (db_claims db). claim_active c2 \<and> c_media_request_id c2 = c_media_request_id c1
         \<and> c_season c2 = c_season c1 \<and> c_media_request_id c1 \<noteq> None \<and> c_season c1 \<noteq> None \<longrightarrow> c2 = c1)"
proof -
  have inv: "repo_inv db" using download_store.reachable_inv[OF assms(1)] .
  from assms(2,3) have "c_download_id c1 \<in> claiming_ids db" by (auto simp: claiming_ids_def)
  with inv have "c_download_id c1 \<in> live_ids db" by (auto simp: repo_inv_def)
  then have "\<exists>r \<in> set (db_downloads db). d_id r = c_download_id c1 \<and> row_live r"
    by (auto simp: live_ids_def)
  moreover have "c2 = c1" if "c2 \<in> set (db_claims db)" "claim_active c2 \<and> c_media_request_id c2 = c_media_request_id c1
      \<and> c_season c2 = c_season c1 \<and> c_media_request_id c1 \<noteq> None \<and> c_season c1 \<noteq> None" for c2
  proof -
    from that(2) obtain mr n where "c_media_request_id c1 = Some mr" "c_season c1 = Some n" by blast
    with that inv assms(2,3) show ?thesis by (intro claim_keys_inj[of db c1 c2 mr n]) (auto simp: repo_inv_def)
  qed
  ultimately show ?thesis by blast
qed

definition ex_grab :: status_update where
  "ex_grab = no_update\<lparr>su_media_request_id := Some 7, su_season := Some 1, su_media_type := Some ''tv''\<rparr>"

definition ex_db1 :: repo_db where
  "ex_db1 = snd (projr (create 0 ''aa'' ''downloading'' ex_grab (empty_db [] [])))"

definition ex_db2 :: repo_db where
  "ex_db2 = snd (projr (ensure_coverage_claim 1 7 2 ex_db1))"

lemma ex_db_steps:
  "repo_step (empty_db [] []) ex_db1" "repo_step ex_db1 ex_db2" "repo_init (empty_db [] [])"
proof -
  have "\<not> isl (create 0 ''aa'' ''downloading'' ex_grab (empty_db [] []))" by code_simp
  then have "create 0 ''aa'' ''downloading'' ex_grab (empty_db [] [])
      = Inr (fst (projr (create 0 ''aa'' ''downloading'' ex_grab (empty_db [] []))), ex_db1)"
    unfolding ex_db1_def by (metis prod.collapse sum.collapse(2))
  then show "repo_step (empty_db [] []) ex_db1" by (rule step_create)
  have "\<not> isl (ensure_coverage_claim 1 7 2 ex_db1)" and lock: "lock_if_active ex_db1 1" by code_simp+
  then have "ensure_coverage_claim 1 7 2 ex_db1 = Inr ((), ex_db2)"
    unfolding ex_db2_def by (metis prod.collapse sum.collapse(2) old.unit.exhaust)
  with lock show "repo_step ex_db1 ex_db2" by (rule step_claim)
  show "repo_init (empty_db [] [])" by (auto simp: repo_init_def)
qed

lemma ex_db2_reachable: "reachable repo_init repo_step ex_db2"
  using ex_db_steps by (blast intro: reachable.intros)

lemma ex_db2_claims: "map (\<lambda>c. (c_download_id c, claim_active c)) (db_claims ex_db2) = [(1, True)]"
  by code_simp

theorem coverage_exclusive_and_live_witness:
  "\<exists>r \<in> set (db_downloads ex_db2). d_id r = 1 \<and> row_live r"
proof -
  from ex_db2_claims obtain c where "db_claims ex_db2 = [c]" "c_download_id c = 1" "claim_active c" by auto
  with coverage_exclusive_and_live[OF ex_db2_reachable, of c] show ?thesis by auto
qed

section \<open>Functional behaviour of the writers\<close>

text \<open>A download has at most one claim row per request and season, active or released.\<close>

definition claim_ids :: "repo_db \<Rightarrow> (int \<times> int option \<times> int option) list" where
  "claim_ids db = map (\<lambda>c. (c_download_id c, c_media_request_id c, c_season c)) (db_claims db)"

lemma claim_ids_release_where [simp]: "claim_ids (release_where now p db) = claim_ids db"
  by (simp add: claim_ids_def release_where_def comp_def if_distrib cong: if_cong)

lemma claim_ids_frame [simp]:
  "claim_ids (db\<lparr>db_downloads := ds\<rparr>) = claim_ids db"
  "claim_ids (db\<lparr>db_scopes := ss\<rparr>) = claim_ids db"
  "claim_ids (db\<lparr>db_next_id := n\<rparr>) = claim_ids db"
  by (simp_all add: claim_ids_def)

lemma ensure_scope_claim_ids: "ensure_scope did mr ssn eps db = Inr (s, db') \<Longrightarrow> claim_ids db' = claim_ids db"
  by (auto simp: ensure_scope_def Let_def split: option.splits if_splits)

lemma after_status_claim_ids: "after_status now did st u db = Inr (x, db') \<Longrightarrow> claim_ids db' = claim_ids db"
  by (auto simp: after_status_def replace_scope_set_def Let_def map_sum_Inr release_coverage_claims_def
      dest!: ensure_scope_claim_ids split: if_splits)

lemma ensure_coverage_claim_ids:
  assumes "distinct (claim_ids db)" and "ensure_coverage_claim did mr ssn db = Inr (x, db')"
  shows "distinct (claim_ids db')"
  using assms
  by (auto simp: ensure_coverage_claim_def claim_ids_def find_None_iff claim_matches_def comp_def if_distrib
      split: option.splits if_splits cong: if_cong)

lemma repo_step_claim_ids: "repo_step db db' \<Longrightarrow> distinct (claim_ids db) \<Longrightarrow> distinct (claim_ids db')"
proof (induction rule: repo_step.induct)
  case (step_claim db did mr ssn x db')
  then show ?case by (blast intro: ensure_coverage_claim_ids)
qed (auto simp: create_def update_status_if_in_def update_status_def increment_retry_count_if_in_def
  refresh_progress_def align_scalar_scope_with_active_def update_scope_status_if_in_def Let_def map_sum_Inr
  release_coverage_claims_def release_resolved_target_coverage_claims_def flush_def
  dest!: ensure_scope_claim_ids after_status_claim_ids split: sum.splits if_splits)

interpretation claim_rows: invariant_system repo_init repo_step "\<lambda>db. distinct (claim_ids db)"
proof
  fix db assume "repo_init db"
  then show "distinct (claim_ids db)" by (auto simp: repo_init_def empty_db_def claim_ids_def)
qed (rule repo_step_claim_ids)

lemma find_claim:
  assumes "distinct (claim_ids db)" and "c \<in> set (db_claims db)" and "claim_matches did mr n c"
  shows "find (claim_matches did mr n) (db_claims db) = Some c"
proof (cases "find (claim_matches did mr n) (db_claims db)")
  case None
  with assms(2,3) show ?thesis by (auto simp: find_None_iff)
next
  case (Some c')
  then have "c' \<in> set (db_claims db)" "claim_matches did mr n c'" by (auto simp: find_Some_iff)
  with assms have "c' = c" by (auto simp: claim_ids_def distinct_map claim_matches_def dest: inj_onD)
  with Some show ?thesis by simp
qed

lemma claim_row_eq:
  "repo_inv db \<Longrightarrow> c \<in> set (db_claims db) \<Longrightarrow> c' \<in> set (db_claims db) \<Longrightarrow> c_id c = c_id c' \<Longrightarrow> c = c'"
  by (simp add: repo_inv_def db_unique_def distinct_map inj_on_def)

lemma claim_conflict:
  assumes inv: "repo_inv db" and c: "c \<in> set (db_claims db)" "claim_active c"
    "c_media_request_id c = Some mr" "c_season c = Some n" and ne: "c_download_id c \<noteq> did"
  shows "ensure_coverage_claim did mr n db = Inl IntegrityError"
proof (rule ccontr)
  assume "ensure_coverage_claim did mr n db \<noteq> Inl IntegrityError"
  then have ok: "\<exists>db'. db_unique db' \<and> c \<in> set (db_claims db') \<and> (\<exists>c' \<in> set (db_claims db').
      c_download_id c' = did \<and> claim_active c' \<and> c_media_request_id c' = Some mr \<and> c_season c' = Some n)"
  proof (cases "find (claim_matches did mr n) (db_claims db)")
    case None
    let ?c = "\<lparr>c_id = db_next_id db, c_download_id = did, c_media_request_id = Some mr, c_season = Some n,
                c_status = ACTIVE_CLAIM_STATUS, c_released_at = None\<rparr>"
    let ?m = "db\<lparr>db_claims := db_claims db @ [?c], db_next_id := db_next_id db + 1\<rparr>"
    assume "ensure_coverage_claim did mr n db \<noteq> Inl IntegrityError"
    with None have "db_unique ?m" by (auto simp: ensure_coverage_claim_def flush_def split: if_splits)
    with c show ?thesis by (intro exI[of _ ?m]) (auto simp: claim_active_def)
  next
    case (Some c')
    then have c': "c' \<in> set (db_claims db)" "claim_matches did mr n c'" by (auto simp: find_Some_iff)
    let ?f = "\<lambda>x. if c_id x = c_id c' then x\<lparr>c_status := ACTIVE_CLAIM_STATUS, c_released_at := None\<rparr> else x"
    let ?m = "db\<lparr>db_claims := map ?f (db_claims db)\<rparr>"
    assume a: "ensure_coverage_claim did mr n db \<noteq> Inl IntegrityError"
    show ?thesis
    proof (cases "claim_active c'")
      case True
      with c c' inv show ?thesis by (intro exI[of _ db]) (auto simp: repo_inv_def claim_matches_def)
    next
      case False
      with Some a have "db_unique ?m"
        by (auto simp: ensure_coverage_claim_def flush_def claim_active_def split: if_splits)
      moreover have "c_id c \<noteq> c_id c'"
        using claim_row_eq[OF inv c(1) c'(1)] ne c'(2) by (auto simp: claim_matches_def)
      then have "?f c = c" by simp
      from image_eqI[of c ?f c, OF this[symmetric] c(1)] have "c \<in> ?f ` set (db_claims db)" .
      then have "c \<in> set (db_claims ?m)" by simp
      moreover have "?f c' \<in> set (db_claims ?m)" using c'(1) by simp
      moreover have "c_download_id (?f c') = did \<and> claim_active (?f c') \<and> c_media_request_id (?f c') = Some mr
          \<and> c_season (?f c') = Some n"
        using c'(2) by (simp add: claim_matches_def claim_active_def)
      ultimately show ?thesis by blast
    qed
  qed
  then show False using claim_keys_inj[of _ c _ mr n] c ne by metis
qed

text \<open>
  C25: the compare-and-swap moves exactly the row the caller observed. It reports success iff the row
  with that id is in an allowed status (and carries the required failure reason, and has no unimported
  scope outside the observed set); on failure the whole database is unchanged; on success every other
  row is untouched, the row has the new status, and if that status is terminal none of its coverage
  claims is still active.
\<close>

theorem update_status_if_in_cas:
  assumes "reachable repo_init repo_step db" and "update_status_if_in now did st allowed u db = Inr (b, db')"
  shows "(b \<longleftrightarrow> (\<exists>r \<in> set (db_downloads db). cas_where db did allowed u r))
    \<and> (\<not> b \<longrightarrow> db' = db)
    \<and> (b \<longrightarrow> (\<forall>r \<in> set (db_downloads db). d_id r \<noteq> did \<longrightarrow> r \<in> set (db_downloads db'))
         \<and> (\<forall>r \<in> set (db_downloads db'). d_id r = did \<longrightarrow> d_status r = st)
         \<and> map d_id (db_downloads db') = map d_id (db_downloads db)
         \<and> (st \<in> set TERMINAL_DOWNLOAD_STATUSES \<longrightarrow>
              (\<forall>c \<in> set (db_claims db'). c_download_id c = did \<longrightarrow> \<not> claim_active c)))"
proof -
  have inv: "repo_inv db" using download_store.reachable_inv[OF assms(1)] .
  note spec = update_status_if_in_spec[OF inv assms(2)]
  let ?hit = "cas_where db did allowed u"
  obtain mt where ds: "db_downloads db' = map (\<lambda>r. if ?hit r then row_values now st u mt r else r) (db_downloads db)"
    using spec(4) by blast
  have other: "d_id r \<noteq> did \<Longrightarrow> \<not> ?hit r" for r by (simp add: cas_where_def)
  have "d_id r = did \<Longrightarrow> ?hit r" if "b" "r \<in> set (db_downloads db)" for r
  proof -
    from that(1) spec(2) obtain r0 where "r0 \<in> set (db_downloads db)" "?hit r0" by (auto simp: list_ex_iff)
    moreover have "inj_on d_id (set (db_downloads db))" using inv by (simp add: repo_inv_def db_unique_def distinct_map)
    moreover assume "d_id r = did"
    ultimately show "?hit r" using that(2) other by (metis inj_onD)
  qed
  moreover have "map d_id (db_downloads db') = map d_id (db_downloads db)" unfolding ds by simp
  moreover have "b \<longrightarrow> st \<in> set TERMINAL_DOWNLOAD_STATUSES \<longrightarrow>
      (\<forall>c \<in> set (db_claims db'). c_download_id c = did \<longrightarrow> \<not> claim_active c)"
    using spec(5) by (auto simp: claiming_ids_def)
  ultimately show ?thesis
    using spec(2,3) other by (auto simp: list_ex_iff ds)
qed

lemma ex_cas: "map_sum id (\<lambda>x. (fst x, map d_status (db_downloads (snd x)), map c_status (db_claims (snd x))))
    (update_status_if_in 5 1 ''failed'' [''downloading''] no_update ex_db2)
  = Inr (True, [''failed''], [''released''])"
  by code_simp

theorem update_status_if_in_cas_witness:
  "\<exists>db'. update_status_if_in 5 1 ''failed'' [''downloading''] no_update ex_db2 = Inr (True, db')
     \<and> (\<forall>c \<in> set (db_claims db'). c_download_id c = 1 \<longrightarrow> \<not> claim_active c)"
proof -
  from ex_cas obtain db' where "update_status_if_in 5 1 ''failed'' [''downloading''] no_update ex_db2 = Inr (True, db')"
    by (auto simp: map_sum_Inr)
  with update_status_if_in_cas[OF ex_db2_reachable this] show ?thesis
    by (auto simp: TERMINAL_DOWNLOAD_STATUSES_def)
qed

text \<open>
  C26: a season that a live download already covers cannot be claimed by a second download: the claim
  is refused with an integrity error. Claiming it again for the same download changes nothing.
\<close>

theorem second_claim_refused:
  assumes "reachable repo_init repo_step db" and "c \<in> set (db_claims db)" and "claim_active c"
    and "c_media_request_id c = Some mr" and "c_season c = Some n"
  shows "ensure_coverage_claim did mr n db = (if c_download_id c = did then Inr ((), db) else Inl IntegrityError)"
proof -
  have inv: "repo_inv db" using download_store.reachable_inv[OF assms(1)] .
  have once: "distinct (claim_ids db)" using claim_rows.reachable_inv[OF assms(1)] by simp
  show ?thesis
  proof (cases "c_download_id c = did")
    case True
    with assms once have "find (claim_matches did mr n) (db_claims db) = Some c"
      by (intro find_claim) (auto simp: claim_matches_def)
    with True assms(3) show ?thesis by (simp add: ensure_coverage_claim_def claim_active_def)
  next
    case False
    with claim_conflict[OF inv assms(2-5)] show ?thesis by simp
  qed
qed

theorem second_claim_refused_witness:
  "ensure_coverage_claim 1 7 2 ex_db2 = Inr ((), ex_db2) \<and> ensure_coverage_claim 99 7 2 ex_db2 = Inl IntegrityError"
proof -
  have "map (\<lambda>c. (c_download_id c, claim_active c, c_media_request_id c, c_season c)) (db_claims ex_db2)
      = [(1, True, Some 7, Some 2)]" by code_simp
  then obtain c where "c \<in> set (db_claims ex_db2)" "c_download_id c = 1" "claim_active c"
    "c_media_request_id c = Some 7" "c_season c = Some 2" by auto
  with second_claim_refused[OF ex_db2_reachable this(1,3,4,5), of 1]
    second_claim_refused[OF ex_db2_reachable this(1,3,4,5), of 99] show ?thesis by simp
qed

section \<open>Batched lookups\<close>

lemma set_by_id [simp]: "set (by_id rs) = set rs"
  by (simp add: by_id_def)

lemma first_row_None: "first_row db p = None \<longleftrightarrow> (\<forall>r \<in> set (db_downloads db). \<not> p r)"
  by (auto simp: first_row_def find_None_iff)

lemma in_concat_map: "x \<in> set (concat (map f xs)) \<longleftrightarrow> (\<exists>y \<in> set xs. x \<in> set (f y))"
  by auto

lemma in_wanted_scopes:
  "mr \<in> set ids \<Longrightarrow> s_media_request_id s = Some mr \<Longrightarrow>
     s \<in> set (wanted_scopes db ids did) \<longleftrightarrow> s \<in> set (db_scopes db) \<and> s_download_id s = did"
  by (auto simp: wanted_scopes_def)

lemma in_scalar_hit:
  "(mr, ssn) \<in> set (scalar_hit keys r scopes) \<longleftrightarrow> (mr, ssn) \<in> set keys \<and> d_media_request_id r = Some mr
     \<and> d_season r = ssn \<and> \<not> (\<exists>s \<in> set scopes. s_media_request_id s = Some mr \<and> s_season s = ssn)"
  by (auto simp: scalar_hit_def list_ex_iff split: option.splits)

lemma in_scoped_hit:
  "(mr, ssn) \<in> set (scoped_hit keys s) \<longleftrightarrow>
     (mr, ssn) \<in> set keys \<and> s_media_request_id s = Some mr \<and> s_season s = ssn \<and> scope_active s"
  by (auto simp: scoped_hit_def split: option.splits)

lemma row_hits:
  assumes "(mr, ssn) \<in> set keys"
  shows "row_live r \<and> ((mr, ssn) \<in> set (scalar_hit keys r (wanted_scopes db (map fst keys) (d_id r)))
      \<or> (\<exists>s \<in> set (wanted_scopes db (map fst keys) (d_id r)). (mr, ssn) \<in> set (scoped_hit keys s)))
    \<longleftrightarrow> owns_active db mr ssn r"
proof -
  have mem: "mr \<in> set (map fst keys)" using assms(1) by force
  note w = in_wanted_scopes[OF mem, of _ db]
  have "(\<exists>s \<in> set (wanted_scopes db (map fst keys) (d_id r)). s_media_request_id s = Some mr \<and> P s) \<longleftrightarrow>
      (\<exists>s \<in> set (db_scopes db). s_download_id s = d_id r \<and> s_media_request_id s = Some mr \<and> P s)" for P
    using w by blast
  note e = this[of "\<lambda>s. s_season s = ssn"] this[of "\<lambda>s. s_season s = ssn \<and> scope_active s"]
  show ?thesis
    unfolding in_scalar_hit in_scoped_hit owns_active_def scope_matches_def list_ex_iff
    using assms(1) e by auto
qed

lemma in_find_active_for_requests:
  "(mr, ssn) \<in> set (find_active_for_requests db keys) \<longleftrightarrow>
     (mr, ssn) \<in> set keys \<and> (\<exists>r \<in> set (db_downloads db). owns_active db mr ssn r)"
proof (cases "(mr, ssn) \<in> set keys")
  case True
  let ?sc = "\<lambda>r. wanted_scopes db (map fst keys) (d_id r)"
  let ?hit = "\<lambda>r. (mr, ssn) \<in> set (scalar_hit keys r (?sc r)) \<or> (\<exists>s \<in> set (?sc r). (mr, ssn) \<in> set (scoped_hit keys s))"
  have "?hit r \<Longrightarrow> (case d_media_request_id r of None \<Rightarrow> False | Some m \<Rightarrow> m \<in> set (map fst keys)) \<or> ?sc r \<noteq> []" for r
    using True unfolding in_scalar_hit by force
  then have "(mr, ssn) \<in> set (find_active_for_requests db keys) \<longleftrightarrow>
      (\<exists>r \<in> set (db_downloads db). row_live r \<and> ?hit r)"
    unfolding find_active_for_requests_def Let_def in_concat_map set_append Un_iff by auto
  then show ?thesis unfolding row_hits[OF True] using True by simp
next
  case False
  then show ?thesis
    unfolding find_active_for_requests_def Let_def in_concat_map set_append Un_iff in_scalar_hit in_scoped_hit
    by blast
qed

lemma case_option_ex: "(case x of None \<Rightarrow> False | Some v \<Rightarrow> p v) \<longleftrightarrow> (\<exists>v. x = Some v \<and> p v)"
  by (cases x) auto

lemma in_title_hit:
  "(t, n) \<in> set (title_hit db keys k c) \<longleftrightarrow> (t, n) \<in> set keys \<and> rk_tmdb_id k = t \<and> rk_media_type k = Tv
     \<and> c_media_request_id c = Some (rk_id k) \<and> c_season c = Some n \<and> claim_active c
     \<and> (\<exists>r \<in> set (db_downloads db). c_download_id c = d_id r \<and> row_live r)"
  by (force simp: title_hit_def list_ex_iff split: option.splits)

lemma in_find_active_coverage_titles:
  "(t, n) \<in> set (find_active_coverage_titles db keys) \<longleftrightarrow>
     (t, n) \<in> set keys \<and> (\<exists>r \<in> set (db_downloads db). claim_covers db (tv_title db t) n r)"
proof -
  have covers: "claim_covers db (tv_title db t) n r \<longleftrightarrow> row_live r \<and> (\<exists>c \<in> set (db_claims db). \<exists>k \<in> set (db_requests db).
      c_download_id c = d_id r \<and> claim_active c \<and> c_season c = Some n \<and> c_media_request_id c = Some (rk_id k)
      \<and> rk_tmdb_id k = t \<and> rk_media_type k = Tv)" for r
    unfolding claim_covers_def tv_title_def list_ex_iff case_option_ex by blast
  show ?thesis unfolding find_active_coverage_titles_def in_concat_map in_title_hit covers by blast
qed

text \<open>
  The batched in-flight lookups used by the eviction sweep give the same answer as asking key by
  key: \<open>find_active_for_requests\<close> returns exactly the requested keys for which
  \<open>find_active_for_request\<close> finds a download, and \<open>find_active_coverage_titles\<close> exactly the requested
  titles for which \<open>find_active_coverage_title\<close> does.
\<close>

theorem batched_lookups_agree:
  "set (find_active_for_requests db keys) =
     {k. k \<in> set keys \<and> find_active_for_request db (fst k) (snd k) \<noteq> None}
   \<and> set (find_active_coverage_titles db tkeys) =
     {k. k \<in> set tkeys \<and> find_active_coverage_title db (fst k) (Some (snd k)) \<noteq> None}"
  unfolding find_active_for_request_def find_active_coverage_title_def option.case
    set_eq_iff mem_Collect_eq split_paired_All in_find_active_for_requests in_find_active_coverage_titles
  by (simp add: first_row_None del: not_None_eq)

end
