(* ===== verification/Reconciler.thy ===== *)
theory Reconciler
  imports DownloadRepo
begin

text \<open>
  The reconciler (\<open>domain/reconciler.py\<close>). The rows are those of
  \<open>DownloadRepo\<close>; a client snapshot is a list of \<open>download_status\<close>. The missing-grace policy is related
  to an abstract monitor of what the polls observed (present, absent, broken), and the stall detector
  to the deadline that is shown to the user.
\<close>

section \<open>The client snapshot\<close>

record download_status =
  ds_info_hash :: string
  ds_name :: string
  ds_raw_state :: string
  ds_progress :: rat
  ds_ratio :: rat
  ds_save_path :: string
  ds_content_path :: "string option"
  ds_eta_seconds :: "int option"
  ds_ratio_limit :: rat
  ds_seeding_time_limit_minutes :: int
  ds_inactive_seeding_time_limit_minutes :: int
  ds_last_activity_unix :: int
  ds_force_start :: bool

definition RAW_STATE_MAP :: "string \<rightharpoonup> download_state" where
  "RAW_STATE_MAP = map_of
     [(''downloading'', Downloading), (''forcedDL'', Downloading), (''stalledDL'', Downloading),
      (''queuedDL'', Downloading), (''checkingDL'', Downloading), (''checkingResumeData'', Downloading),
      (''pausedDL'', Downloading), (''stoppedDL'', Downloading),
      (''metaDL'', MetadataFetching), (''forcedMetaDL'', MetadataFetching),
      (''uploading'', ImportPending), (''stalledUP'', ImportPending), (''pausedUP'', ImportPending),
      (''stoppedUP'', ImportPending), (''queuedUP'', ImportPending), (''checkingUP'', ImportPending),
      (''forcedUP'', ImportPending),
      (''moving'', Downloading),
      (''error'', FailedPending), (''missingFiles'', FailedPending)]"

definition UNKNOWN_FALLBACK :: download_state where
  "UNKNOWN_FALLBACK = Downloading"

definition ACTIVE_STATUS_VALUES :: "string list" where
  "ACTIVE_STATUS_VALUES = map state_str ACTIVE_STATES"

record state_transition =
  tr_download_id :: int
  tr_torrent_hash :: string
  tr_from_state :: string
  tr_to_state :: download_state
  tr_reason :: "string option"
  tr_set_first_seen_at :: bool
  tr_clear_first_seen_at :: bool

definition snapshot :: "download_status list \<Rightarrow> string \<Rightarrow> download_status option" where
  "snapshot client = dict_by (\<lambda>s. py_lower (ds_info_hash s)) client"

definition unmapped_client_states :: "download_row list \<Rightarrow> download_status list \<Rightarrow> (string \<times> string) list" where
  "unmapped_client_states rows client =
     (let tracked = map (\<lambda>r. py_lower (d_torrent_hash r)) rows
      in map (\<lambda>s. (ds_info_hash s, ds_raw_state s))
           (filter (\<lambda>s. py_lower (ds_info_hash s) \<in> set tracked \<and> RAW_STATE_MAP (ds_raw_state s) = None) client))"

definition map_raw_state :: "string \<Rightarrow> download_state \<times> string option" where
  "map_raw_state raw = (case RAW_STATE_MAP raw of
       None \<Rightarrow> (UNKNOWN_FALLBACK, Some (''unknown client state '' @ py_repr raw @ ''; tracking as downloading''))
     | Some s \<Rightarrow> (s, Some (''client reports '' @ py_repr raw)))"

section \<open>\<open>reconcile\<close>\<close>

definition missing_grace_default :: timedelta where
  "missing_grace_default = minutes 10"

definition reconcile_absent :: "download_row \<Rightarrow> datetime \<Rightarrow> timedelta \<Rightarrow> state_transition option" where
  "reconcile_absent row now grace = (case d_first_seen_at row of
       None \<Rightarrow> Some \<lparr>tr_download_id = d_id row, tr_torrent_hash = d_torrent_hash row, tr_from_state = d_status row,
                tr_to_state = ClientMissing, tr_reason = Some ''absent from client snapshot (grace window started)'',
                tr_set_first_seen_at = True, tr_clear_first_seen_at = False\<rparr>
     | Some anchor \<Rightarrow>
         if grace \<le> now - anchor then
           Some \<lparr>tr_download_id = d_id row, tr_torrent_hash = d_torrent_hash row, tr_from_state = d_status row,
             tr_to_state = FailedPending, tr_reason = Some ''absent from client snapshot beyond missing grace'',
             tr_set_first_seen_at = False, tr_clear_first_seen_at = False\<rparr>
         else if d_status row = state_str ClientMissing then None
         else
           Some \<lparr>tr_download_id = d_id row, tr_torrent_hash = d_torrent_hash row, tr_from_state = d_status row,
             tr_to_state = ClientMissing, tr_reason = Some ''absent from client snapshot (within missing grace)'',
             tr_set_first_seen_at = False, tr_clear_first_seen_at = False\<rparr>)"

text \<open>The body of the loop over the rows.\<close>

definition reconcile_row ::
  "(string \<Rightarrow> download_status option) \<Rightarrow> datetime \<Rightarrow> timedelta \<Rightarrow> download_row \<Rightarrow> state_transition option" where
  "reconcile_row snap now grace row =
     (if d_status row \<notin> set ACTIVE_STATUS_VALUES then None
      else case snap (py_lower (d_torrent_hash row)) of
        Some present \<Rightarrow>
          (let (target, reason) = map_raw_state (ds_raw_state present)
           in if state_str target \<noteq> d_status row then
                Some \<lparr>tr_download_id = d_id row, tr_torrent_hash = d_torrent_hash row, tr_from_state = d_status row,
                  tr_to_state = target, tr_reason = reason, tr_set_first_seen_at = False,
                  tr_clear_first_seen_at = (d_status row = state_str ClientMissing)\<rparr>
              else None)
      | None \<Rightarrow> reconcile_absent row now grace)"

definition reconcile ::
  "download_row list \<Rightarrow> download_status list \<Rightarrow> datetime \<Rightarrow> timedelta \<Rightarrow> state_transition list" where
  "reconcile rows client now grace = List.map_filter (reconcile_row (snapshot client) now grace) rows"

record download_failed =
  df_torrent_hash :: string
  df_source_title :: string
  df_reason :: string
  df_tmdb_id :: "int option"
  df_indexer :: "string option"
  df_occurred_at :: "datetime option"

definition failed_download_events ::
  "state_transition list \<Rightarrow> download_row list \<Rightarrow> datetime option \<Rightarrow> download_failed list" where
  "failed_download_events transitions records occurred_at =
     map (\<lambda>t. \<lparr>df_torrent_hash = tr_torrent_hash t, df_source_title = tr_torrent_hash t,
         df_reason = (case tr_reason t of None \<Rightarrow> ''download failed''
                      | Some r \<Rightarrow> if r = [] then ''download failed'' else r),
         df_tmdb_id = (case dict_by d_id records (tr_download_id t) of None \<Rightarrow> None | Some r \<Rightarrow> d_tmdb_id r),
         df_indexer = None, df_occurred_at = occurred_at\<rparr>)
       (filter (\<lambda>t. tr_to_state t = FailedPending) transitions)"

section \<open>Stalls and deadlines\<close>

definition METADATA_STALL_WINDOW :: timedelta where
  "METADATA_STALL_WINDOW = minutes 45"

definition STALLED_PROGRESS_WINDOW :: timedelta where
  "STALLED_PROGRESS_WINDOW = hours 3"

definition STALLED_PROGRESS_RAW_STATES :: "string list" where
  "STALLED_PROGRESS_RAW_STATES = [''downloading'', ''forcedDL'', ''stalledDL'']"

definition DELIBERATELY_IDLE_RAW_STATES :: "string list" where
  "DELIBERATELY_IDLE_RAW_STATES =
     [''pausedDL'', ''stoppedDL'', ''queuedDL'', ''checkingDL'', ''checkingResumeData'', ''moving'']"

definition STALL_ELIGIBLE_STATUS_VALUES :: "string list" where
  "STALL_ELIGIBLE_STATUS_VALUES = [state_str Downloading, state_str MetadataFetching]"

record stall_detection =
  sd_download_id :: int
  sd_torrent_hash :: string
  sd_shape :: string

definition meta_raw :: "string \<Rightarrow> bool" where
  "meta_raw raw \<longleftrightarrow> raw = ''metaDL'' \<or> raw = ''forcedMetaDL''"

definition never_active :: "download_status \<Rightarrow> bool" where
  "never_active s \<longleftrightarrow> ds_raw_state s \<notin> set DELIBERATELY_IDLE_RAW_STATES
     \<and> ds_last_activity_unix s \<le> 0 \<and> ds_progress s \<le> 0"

definition stall_shape ::
  "datetime \<Rightarrow> timedelta \<Rightarrow> timedelta \<Rightarrow> datetime \<Rightarrow> download_status \<Rightarrow> string option" where
  "stall_shape now metadata_stall stalled_progress added s =
     (let elapsed = now - added in
      if meta_raw (ds_raw_state s) then (if metadata_stall \<le> elapsed then Some ''metadata_stall'' else None)
      else if never_active s \<and> metadata_stall \<le> elapsed then Some ''metadata_stall''
      else if elapsed < stalled_progress then None
      else if ds_raw_state s \<in> set STALLED_PROGRESS_RAW_STATES \<and> 0 < ds_last_activity_unix s
              \<and> stalled_progress < now - fromtimestamp (ds_last_activity_unix s) then Some ''stalled_progress''
      else None)"

definition detect_stall_row ::
  "(string \<Rightarrow> download_status option) \<Rightarrow> datetime \<Rightarrow> timedelta \<Rightarrow> timedelta \<Rightarrow> download_row \<Rightarrow> stall_detection option" where
  "detect_stall_row snap now metadata_stall stalled_progress row =
     (if d_status row \<notin> set STALL_ELIGIBLE_STATUS_VALUES then None
      else case d_added_at row of
        None \<Rightarrow> None
      | Some added \<Rightarrow>
          (case snap (py_lower (d_torrent_hash row)) of
             None \<Rightarrow> None
           | Some s \<Rightarrow> map_option (\<lambda>shape. \<lparr>sd_download_id = d_id row, sd_torrent_hash = d_torrent_hash row, sd_shape = shape\<rparr>)
                         (stall_shape now metadata_stall stalled_progress added s)))"

definition detect_stalls ::
  "download_row list \<Rightarrow> download_status list \<Rightarrow> datetime \<Rightarrow> timedelta \<Rightarrow> timedelta \<Rightarrow> stall_detection list" where
  "detect_stalls rows client now metadata_stall stalled_progress =
     List.map_filter (detect_stall_row (snapshot client) now metadata_stall stalled_progress) rows"

definition download_deadline :: "download_status \<Rightarrow> datetime \<Rightarrow> datetime option" where
  "download_deadline s added =
     (if meta_raw (ds_raw_state s) then Some (added + METADATA_STALL_WINDOW)
      else if (case RAW_STATE_MAP (ds_raw_state s) of None \<Rightarrow> UNKNOWN_FALLBACK | Some d \<Rightarrow> d) \<noteq> Downloading then None
      else if never_active s then Some (added + METADATA_STALL_WINDOW)
      else if 0 < ds_last_activity_unix s
        then Some (max added (fromtimestamp (ds_last_activity_unix s)) + STALLED_PROGRESS_WINDOW)
      else Some (added + STALLED_PROGRESS_WINDOW))"

section \<open>What a transition may be\<close>

lemma in_map_filter: "y \<in> set (List.map_filter f xs) \<longleftrightarrow> (\<exists>x \<in> set xs. f x = Some y)"
  by (force simp: List.map_filter_def)

lemma RAW_STATE_MAP_range:
  "RAW_STATE_MAP raw = Some s \<Longrightarrow> s \<in> {Downloading, MetadataFetching, ImportPending, FailedPending}"
  unfolding RAW_STATE_MAP_def by (drule map_of_SomeD) auto

lemma RAW_STATE_MAP_failed: "RAW_STATE_MAP raw = Some FailedPending \<Longrightarrow> raw = ''error'' \<or> raw = ''missingFiles''"
  unfolding RAW_STATE_MAP_def by (drule map_of_SomeD) auto

lemma RAW_STATE_MAP_metadata: "RAW_STATE_MAP raw = Some MetadataFetching \<longleftrightarrow> meta_raw raw"
proof
  assume "RAW_STATE_MAP raw = Some MetadataFetching"
  then show "meta_raw raw" unfolding RAW_STATE_MAP_def meta_raw_def by (drule_tac map_of_SomeD) auto
next
  have "RAW_STATE_MAP ''metaDL'' = Some MetadataFetching \<and> RAW_STATE_MAP ''forcedMetaDL'' = Some MetadataFetching"
    by code_simp
  then show "meta_raw raw \<Longrightarrow> RAW_STATE_MAP raw = Some MetadataFetching" by (auto simp: meta_raw_def)
qed

text \<open>The state a raw client state stands for.\<close>

definition client_state :: "string \<Rightarrow> download_state" where
  "client_state raw = fst (map_raw_state raw)"

lemma client_state_eq:
  "client_state raw = (case RAW_STATE_MAP raw of None \<Rightarrow> Downloading | Some s \<Rightarrow> s)"
  by (simp add: client_state_def map_raw_state_def UNKNOWN_FALLBACK_def split: option.splits)

lemma client_state_range: "client_state raw \<in> {Downloading, MetadataFetching, ImportPending, FailedPending}"
  using RAW_STATE_MAP_range[of raw] by (simp add: client_state_eq split: option.splits)

lemma client_state_failed: "client_state raw = FailedPending \<Longrightarrow> raw = ''error'' \<or> raw = ''missingFiles''"
  using RAW_STATE_MAP_failed[of raw] by (simp add: client_state_eq split: option.splits)

lemma reconcile_row_simps:
  "d_status row \<notin> set ACTIVE_STATUS_VALUES \<Longrightarrow> reconcile_row snap now grace row = None"
  "d_status row \<in> set ACTIVE_STATUS_VALUES \<Longrightarrow> snap (py_lower (d_torrent_hash row)) = None \<Longrightarrow>
     reconcile_row snap now grace row = reconcile_absent row now grace"
  "d_status row \<in> set ACTIVE_STATUS_VALUES \<Longrightarrow> snap (py_lower (d_torrent_hash row)) = Some s \<Longrightarrow>
     reconcile_row snap now grace row =
       (if state_str (client_state (ds_raw_state s)) = d_status row then None
        else Some \<lparr>tr_download_id = d_id row, tr_torrent_hash = d_torrent_hash row, tr_from_state = d_status row,
                  tr_to_state = client_state (ds_raw_state s), tr_reason = snd (map_raw_state (ds_raw_state s)),
                  tr_set_first_seen_at = False, tr_clear_first_seen_at = (d_status row = state_str ClientMissing)\<rparr>)"
  by (simp_all add: reconcile_row_def client_state_def case_prod_beta Let_def)

lemma reconcile_absent_basic:
  assumes "reconcile_absent row now grace = Some t"
  shows "tr_download_id t = d_id row \<and> tr_from_state t = d_status row \<and> tr_torrent_hash t = d_torrent_hash row
    \<and> tr_to_state t \<in> {FailedPending, ClientMissing}"
  using assms by (auto simp: reconcile_absent_def split: option.splits if_splits)

lemma reconcile_row_basic:
  assumes "reconcile_row snap now grace row = Some t"
  shows "tr_download_id t = d_id row \<and> tr_from_state t = d_status row \<and> tr_torrent_hash t = d_torrent_hash row
    \<and> d_status row \<in> set ACTIVE_STATUS_VALUES \<and> tr_to_state t \<in> set POLL_TARGETS"
proof -
  have act: "d_status row \<in> set ACTIVE_STATUS_VALUES" using assms reconcile_row_simps(1) by fastforce
  show ?thesis
  proof (cases "snap (py_lower (d_torrent_hash row))")
    case None
    with assms act have "reconcile_absent row now grace = Some t" by (simp add: reconcile_row_simps)
    from reconcile_absent_basic[OF this] act show ?thesis by (auto simp: POLL_TARGETS_def)
  next
    case (Some s)
    with assms act client_state_range[of "ds_raw_state s"] show ?thesis
      by (auto simp: reconcile_row_simps POLL_TARGETS_def split: if_splits)
  qed
qed

lemma ACTIVE_STATUS_ex: "v \<in> set ACTIVE_STATUS_VALUES \<longleftrightarrow> (\<exists>s \<in> set ACTIVE_STATES. v = state_str s)"
  by (auto simp: ACTIVE_STATUS_VALUES_def)

lemma reconcile_poll_step:
  assumes "t \<in> set (reconcile rows client now grace)"
  shows "\<exists>s. tr_from_state t = state_str s \<and> poll_step s (tr_to_state t)"
proof -
  from assms obtain row where "reconcile_row (snapshot client) now grace row = Some t"
    by (auto simp: reconcile_def in_map_filter)
  from reconcile_row_basic[OF this] show ?thesis
    by (auto simp: ACTIVE_STATUS_ex intro: poll_step.intros)
qed

lemma reconcile_row_failure:
  assumes "reconcile_row snap now grace row = Some t" and "tr_to_state t = FailedPending"
  shows "case snap (py_lower (d_torrent_hash row)) of
         Some s \<Rightarrow> ds_raw_state s \<in> {''error'', ''missingFiles''}
       | None \<Rightarrow> (\<exists>anchor. d_first_seen_at row = Some anchor \<and> anchor + grace \<le> now)"
proof (cases "snap (py_lower (d_torrent_hash row))")
  case None
  with assms show ?thesis
    by (auto simp: reconcile_row_def reconcile_absent_def split: if_splits option.splits)
next
  case (Some s)
  with assms reconcile_row_basic[OF assms(1)] client_state_failed[of "ds_raw_state s"] show ?thesis
    by (auto simp: reconcile_row_simps split: if_splits)
qed

text \<open>
  C29: a download is only failed for cause. If \<open>reconcile\<close> moves a row to \<open>FailedPending\<close>, the row was
  being polled, and either the client itself reports the torrent as broken, or the torrent is absent
  from the snapshot and was first seen absent at least the grace period ago; a row that has no such
  anchor is never failed, however long it has been tracked. No other row is moved there.
\<close>

theorem reconcile_failure_justified:
  assumes "t \<in> set (reconcile rows client now grace)" and "tr_to_state t = FailedPending"
  shows "\<exists>row \<in> set rows. tr_download_id t = d_id row \<and> d_status row \<in> set ACTIVE_STATUS_VALUES
    \<and> (case snapshot client (py_lower (d_torrent_hash row)) of
         Some s \<Rightarrow> ds_raw_state s \<in> {''error'', ''missingFiles''}
       | None \<Rightarrow> (\<exists>anchor. d_first_seen_at row = Some anchor \<and> anchor + grace \<le> now))"
proof -
  from assms obtain row where row: "row \<in> set rows" "reconcile_row (snapshot client) now grace row = Some t"
    by (auto simp: reconcile_def in_map_filter)
  with reconcile_row_basic[OF row(2)] reconcile_row_failure[OF row(2) assms(2)] show ?thesis by blast
qed

definition ex_row :: "string \<Rightarrow> datetime option \<Rightarrow> download_row" where
  "ex_row st anchor = (new_download 0 1 ''AB'' st no_update None)\<lparr>d_first_seen_at := anchor\<rparr>"

theorem reconcile_failure_justified_witness:
  "\<exists>anchor. d_first_seen_at (ex_row ''client_missing'' (Some 0)) = Some anchor
     \<and> anchor + missing_grace_default \<le> minutes 11"
proof -
  let ?rows = "[ex_row ''client_missing'' (Some 0)]"
  have "map tr_to_state (reconcile ?rows [] (minutes 11) missing_grace_default) = [FailedPending]" by code_simp
  then obtain t where "t \<in> set (reconcile ?rows [] (minutes 11) missing_grace_default)" "tr_to_state t = FailedPending"
    by auto
  from reconcile_failure_justified[OF this] show ?thesis by (auto simp: snapshot_def dict_by_def)
qed

section \<open>Applying the transitions\<close>

text \<open>What Phase A writes for a transition, as far as the reconciler reads it back.\<close>

definition apply_transition :: "datetime \<Rightarrow> state_transition \<Rightarrow> download_row \<Rightarrow> download_row" where
  "apply_transition now t row = row\<lparr>d_status := state_str (tr_to_state t),
     d_first_seen_at := clear_or_set (tr_clear_first_seen_at t) (d_first_seen_at row)
       (if tr_set_first_seen_at t then Some now else None)\<rparr>"

definition apply_transitions :: "datetime \<Rightarrow> state_transition list \<Rightarrow> download_row list \<Rightarrow> download_row list" where
  "apply_transitions now ts rows = map (\<lambda>r. case dict_by tr_download_id ts (d_id r) of
       None \<Rightarrow> r | Some t \<Rightarrow> apply_transition now t r) rows"

lemma transition_of_row:
  assumes "distinct (map d_id rows)" and "row \<in> set rows"
  shows "dict_by tr_download_id (reconcile rows client now grace) (d_id row) = reconcile_row (snapshot client) now grace row"
    (is "dict_by _ ?ts _ = ?f row")
proof (cases "dict_by tr_download_id ?ts (d_id row)")
  case None
  then have "t \<in> set ?ts \<Longrightarrow> tr_download_id t \<noteq> d_id row" for t by (simp add: dict_by_None_iff)
  with assms(2) reconcile_row_basic[of "snapshot client" now grace row] have "?f row = None"
    by (cases "?f row") (auto simp: reconcile_def in_map_filter)
  with None show ?thesis by simp
next
  case (Some t)
  from dict_by_SomeD[OF this] obtain r where r: "r \<in> set rows" "?f r = Some t" "tr_download_id t = d_id row"
    by (auto simp: reconcile_def in_map_filter)
  with reconcile_row_basic[OF r(2)] assms have "r = row" by (auto simp: distinct_map dest: inj_onD)
  with r Some show ?thesis by simp
qed

lemma active_values: "state_str s \<in> set ACTIVE_STATUS_VALUES \<longleftrightarrow> s \<in> set ACTIVE_STATES"
  by (auto simp: ACTIVE_STATUS_VALUES_def)

lemma apply_transition_simps [simp]:
  "d_id (apply_transition now t row) = d_id row"
  "d_torrent_hash (apply_transition now t row) = d_torrent_hash row"
  "d_status (apply_transition now t row) = state_str (tr_to_state t)"
  by (simp_all add: apply_transition_def)

lemma reconcile_row_settled:
  assumes grace: "0 < grace" and t: "reconcile_row snap now grace row = Some t"
  shows "reconcile_row snap now grace (apply_transition now t row) = None"
proof -
  let ?r = "apply_transition now t row"
  note act = reconcile_row_basic[OF t]
  show ?thesis
  proof (cases "snap (py_lower (d_torrent_hash row))")
    case (Some s)
    with t act have "tr_to_state t = client_state (ds_raw_state s)"
      by (auto simp: reconcile_row_simps split: if_splits)
    with Some show ?thesis
      by (cases "d_status ?r \<in> set ACTIVE_STATUS_VALUES") (simp_all add: reconcile_row_simps)
  next
    case None
    with t act have ab: "reconcile_absent row now grace = Some t" by (simp add: reconcile_row_simps)
    show ?thesis
    proof (cases "d_status ?r \<in> set ACTIVE_STATUS_VALUES")
      case True
      with None have eq: "reconcile_row snap now grace ?r = reconcile_absent ?r now grace"
        by (simp add: reconcile_row_simps)
      from True reconcile_absent_basic[OF ab] have cm: "tr_to_state t = ClientMissing"
        by (auto simp: active_values ACTIVE_STATES_def)
      show ?thesis unfolding eq using ab cm grace
        by (auto simp: reconcile_absent_def apply_transition_def clear_or_set_def split: option.splits if_splits)
    qed (simp add: reconcile_row_simps)
  qed
qed

text \<open>
  The poll is idempotent: once its transitions are persisted (new state, grace anchor stamped or
  cleared), running \<open>reconcile\<close> again on the same client snapshot at the same time asks for nothing.
\<close>

theorem reconcile_idempotent:
  assumes "distinct (map d_id rows)" and "0 < grace"
  shows "reconcile (apply_transitions now (reconcile rows client now grace) rows) client now grace = []"
proof -
  let ?f = "reconcile_row (snapshot client) now grace"
  let ?g = "\<lambda>r. case dict_by tr_download_id (reconcile rows client now grace) (d_id r) of
       None \<Rightarrow> r | Some t \<Rightarrow> apply_transition now t r"
  have "?f (?g r) = None" if "r \<in> set rows" for r
    using transition_of_row[OF assms(1) that, of client now grace] reconcile_row_settled[OF assms(2)]
    by (auto split: option.splits)
  then have "List.map_filter ?f (map ?g rows) = []"
    by (auto simp: List.map_filter_def filter_empty_conv)
  then show ?thesis by (simp add: reconcile_def apply_transitions_def)
qed

theorem reconcile_idempotent_witness:
  "reconcile (apply_transitions 0 (reconcile [ex_row ''downloading'' None] [] 0 missing_grace_default)
     [ex_row ''downloading'' None]) [] 0 missing_grace_default = []"
  by (rule reconcile_idempotent) (simp_all add: missing_grace_default_def time_defs)

section \<open>The missing-grace policy\<close>

text \<open>
  What a poll observes about one torrent, and the policy as a monitor over these observations: an
  uninterrupted absence is counted from its first poll, a reappearance forgets it, and the download
  fails when an absence has lasted for the grace period or the client reports the torrent broken.
\<close>

datatype observation = Seen | Gone | Broken

datatype monitor = Present | MissingSince datetime | Failing

fun monitor_step :: "timedelta \<Rightarrow> datetime \<times> observation \<Rightarrow> monitor \<Rightarrow> monitor" where
  "monitor_step grace (now, ob) Failing = Failing"
| "monitor_step grace (now, Broken) m = Failing"
| "monitor_step grace (now, Seen) m = Present"
| "monitor_step grace (now, Gone) Present = MissingSince now"
| "monitor_step grace (now, Gone) (MissingSince s) = (if grace \<le> now - s then Failing else MissingSince s)"

definition observe :: "string \<Rightarrow> datetime \<times> download_status list \<Rightarrow> datetime \<times> observation" where
  "observe h p = (fst p, case snapshot (snd p) (py_lower h) of
       None \<Rightarrow> Gone
     | Some s \<Rightarrow> if client_state (ds_raw_state s) = FailedPending then Broken else Seen)"

definition poll_row :: "timedelta \<Rightarrow> datetime \<times> download_status list \<Rightarrow> download_row \<Rightarrow> download_row" where
  "poll_row grace p row = (case reconcile [row] (snd p) (fst p) grace of
       [] \<Rightarrow> row | t # _ \<Rightarrow> apply_transition (fst p) t row)"

definition tracked :: "download_row \<Rightarrow> monitor" where
  "tracked row = (if d_status row = state_str FailedPending then Failing
     else case d_first_seen_at row of None \<Rightarrow> Present | Some s \<Rightarrow> MissingSince s)"

text \<open>A polled row is anchored only while it is \<open>ClientMissing\<close>.\<close>

definition polled_row :: "download_row \<Rightarrow> bool" where
  "polled_row row \<longleftrightarrow> d_status row = state_str FailedPending
     \<or> d_status row \<in> set ACTIVE_STATUS_VALUES \<and> (d_first_seen_at row \<noteq> None \<longrightarrow> d_status row = state_str ClientMissing)"

lemma poll_row_eq:
  "poll_row grace p row = (case reconcile_row (snapshot (snd p)) (fst p) grace row of
     None \<Rightarrow> row | Some t \<Rightarrow> apply_transition (fst p) t row)"
  by (simp add: poll_row_def reconcile_def List.map_filter_def split: option.splits)

lemma poll_row_hash [simp]: "d_torrent_hash (poll_row grace p row) = d_torrent_hash row"
  by (simp add: poll_row_eq split: option.splits)

lemma FailedPending_inactive [simp]: "state_str FailedPending \<notin> set ACTIVE_STATUS_VALUES"
  by (simp add: active_values ACTIVE_STATES_def del: state_str.simps)

lemma in_ACTIVE_ClientMissing: "state_str ClientMissing \<in> set ACTIVE_STATUS_VALUES"
  by (simp add: active_values ACTIVE_STATES_def del: state_str.simps)

lemma poll_row_refines:
  assumes "polled_row row"
  shows "polled_row (poll_row grace p row)"
    and "tracked (poll_row grace p row) = monitor_step grace (observe (d_torrent_hash row) p) (tracked row)"
proof -
  let ?snap = "snapshot (snd p) (py_lower (d_torrent_hash row))"
  have "polled_row (poll_row grace p row)
    \<and> tracked (poll_row grace p row) = monitor_step grace (observe (d_torrent_hash row) p) (tracked row)"
  proof (cases "d_status row = state_str FailedPending")
    case True
    then have "poll_row grace p row = row" by (simp add: poll_row_eq reconcile_row_simps del: state_str.simps)
    with True assms show ?thesis by (cases "observe (d_torrent_hash row) p") (simp add: tracked_def)
  next
    case False
    with assms have act: "d_status row \<in> set ACTIVE_STATUS_VALUES"
      and anch: "d_first_seen_at row \<noteq> None \<Longrightarrow> d_status row = state_str ClientMissing"
      by (auto simp: polled_row_def)
    show ?thesis
    proof (cases ?snap)
      case (Some s)
      let ?st = "client_state (ds_raw_state s)"
      have r: "poll_row grace p row = (if state_str ?st = d_status row then row
          else row\<lparr>d_status := state_str ?st, d_first_seen_at := clear_or_set (d_status row = state_str ClientMissing)
                 (d_first_seen_at row) None\<rparr>)"
        using act Some by (simp add: poll_row_eq reconcile_row_simps apply_transition_def)
      have ob: "observe (d_torrent_hash row) p = (fst p, if ?st = FailedPending then Broken else Seen)"
        using Some by (simp add: observe_def)
      have ncm: "?st \<noteq> ClientMissing" and "?st = FailedPending \<or> state_str ?st \<in> set ACTIVE_STATUS_VALUES"
        using client_state_range[of "ds_raw_state s"] by (auto simp: active_values ACTIVE_STATES_def simp del: state_str.simps)
      then show ?thesis unfolding r ob using act anch False
        by (cases "d_first_seen_at row")
           (auto simp: polled_row_def tracked_def clear_or_set_def simp del: state_str.simps)
    next
      case None
      then have ob: "observe (d_torrent_hash row) p = (fst p, Gone)" by (simp add: observe_def)
      have r: "poll_row grace p row = (case reconcile_absent row (fst p) grace of
          None \<Rightarrow> row | Some t \<Rightarrow> apply_transition (fst p) t row)"
        using act None by (simp add: poll_row_eq reconcile_row_simps)
      show ?thesis unfolding r ob using act anch False in_ACTIVE_ClientMissing
        by (cases "d_first_seen_at row")
           (auto simp: reconcile_absent_def polled_row_def tracked_def apply_transition_def clear_or_set_def
             simp del: state_str.simps)
    qed
  qed
  then show "polled_row (poll_row grace p row)"
    "tracked (poll_row grace p row) = monitor_step grace (observe (d_torrent_hash row) p) (tracked row)" by blast+
qed

text \<open>
  Over any sequence of polls the reconciler implements the missing-grace monitor: what the row's
  status and anchor say after the polls is what the monitor computes from the observations alone.
\<close>

theorem polls_refine_monitor:
  assumes "polled_row row"
  shows "tracked (fold (poll_row grace) ps row) =
    fold (monitor_step grace) (map (observe (d_torrent_hash row)) ps) (tracked row)"
  using assms
proof (induction ps arbitrary: row)
  case (Cons p ps)
  from Cons.IH[OF poll_row_refines(1)[OF Cons.prems, of grace p]] show ?case
    by (simp add: poll_row_refines(2)[OF Cons.prems])
qed simp

lemma polled_ex_row: "polled_row (ex_row ''downloading'' None)"
  by (simp add: polled_row_def ex_row_def new_download_def ACTIVE_STATUS_VALUES_def ACTIVE_STATES_def)

theorem polls_refine_monitor_witness:
  "tracked (fold (poll_row missing_grace_default) [(0, []), (minutes 5, []), (minutes 12, [])] (ex_row ''downloading'' None))
     = Failing"
  using polls_refine_monitor[OF polled_ex_row,
    of missing_grace_default "[(0, []), (minutes 5, []), (minutes 12, [])]"]
  by (simp add: observe_def snapshot_def dict_by_def tracked_def ex_row_def new_download_def
      missing_grace_default_def time_defs)

text \<open>The poll at which the absence that is still going on at the end of \<open>os\<close> began.\<close>

definition gone_since :: "(datetime \<times> observation) list \<Rightarrow> datetime option" where
  "gone_since os = (let g = takeWhile (\<lambda>e. snd e = Gone) (rev os) in if g = [] then None else Some (fst (last g)))"

lemma gone_since_snoc:
  "gone_since (os @ [(t, ob)]) = (if ob = Gone then Some (case gone_since os of None \<Rightarrow> t | Some s \<Rightarrow> s) else None)"
  by (simp add: gone_since_def Let_def)

definition overdue :: "timedelta \<Rightarrow> (datetime \<times> observation) list \<Rightarrow> bool" where
  "overdue grace os \<longleftrightarrow> (case gone_since os of None \<Rightarrow> False | Some s \<Rightarrow> s + grace \<le> fst (last os))"

lemma overdue_prefix_snoc:
  "(\<exists>n \<le> length (os @ [x]). overdue grace (take n (os @ [x]))) \<longleftrightarrow>
     (\<exists>n \<le> length os. overdue grace (take n os)) \<or> overdue grace (os @ [x])"
proof -
  have "(\<exists>n \<le> Suc (length os). P n) \<longleftrightarrow> (\<exists>n \<le> length os. P n) \<or> P (Suc (length os))" for P
    by (metis le_SucE le_SucI order_refl)
  from this[of "\<lambda>n. overdue grace (take n (os @ [x]))"] show ?thesis by (simp cong: conj_cong)
qed

lemma monitor_run:
  assumes "0 < grace" and "\<forall>e \<in> set os. snd e \<noteq> Broken"
  shows "fold (monitor_step grace) os Present =
    (if \<exists>n \<le> length os. overdue grace (take n os) then Failing
     else case gone_since os of None \<Rightarrow> Present | Some s \<Rightarrow> MissingSince s)"
  using assms(2)
proof (induction os rule: rev_induct)
  case Nil
  show ?case by (simp add: gone_since_def overdue_def)
next
  case (snoc x os)
  obtain t ob where x: "x = (t, ob)" by fastforce
  from snoc have ih: "fold (monitor_step grace) os Present =
    (if \<exists>n \<le> length os. overdue grace (take n os) then Failing
     else case gone_since os of None \<Rightarrow> Present | Some s \<Rightarrow> MissingSince s)" and ob: "ob \<noteq> Broken"
    by (simp_all add: x)
  show ?case
  proof (cases "\<exists>n \<le> length os. overdue grace (take n os)")
    case True
    then show ?thesis unfolding overdue_prefix_snoc using ih by (simp add: x)
  next
    case False
    then have "(\<exists>n \<le> length (os @ [x]). overdue grace (take n (os @ [x]))) = overdue grace (os @ [x])"
      unfolding overdue_prefix_snoc by blast
    with False ih ob assms(1) show ?thesis
      by (cases ob; cases "gone_since os") (auto simp: x gone_since_snoc overdue_def)
  qed
qed

text \<open>
  C6: the missing-grace policy, exactly. Take a polled download without an anchor and any sequence of
  polls in which the client never reports it broken. The download ends up failed if and only if at
  some poll its uninterrupted absence, counted from the first poll that missed it, had lasted for the
  grace period. So a single absent poll never fails it, a reappearance grants a full new grace period,
  and a torrent that stays away is failed at the first poll after the grace period.
\<close>

theorem absence_policy_exact:
  assumes "d_status row \<in> set ACTIVE_STATUS_VALUES" and "d_first_seen_at row = None" and "0 < grace"
    and "\<forall>e \<in> set (map (observe (d_torrent_hash row)) ps). snd e \<noteq> Broken"
  shows "d_status (fold (poll_row grace) ps row) = state_str FailedPending \<longleftrightarrow>
    (\<exists>n \<le> length ps. overdue grace (take n (map (observe (d_torrent_hash row)) ps)))"
proof -
  have p: "polled_row row" and tr: "tracked row = Present"
    using assms(1,2) by (auto simp: polled_row_def tracked_def simp del: state_str.simps)
  have "d_status r = state_str FailedPending \<longleftrightarrow> tracked r = Failing" for r
    by (simp add: tracked_def split: option.splits del: state_str.simps)
  with polls_refine_monitor[OF p, of grace ps] monitor_run[OF assms(3,4)] show ?thesis
    by (simp add: tr split: option.splits if_splits)
qed

theorem absence_policy_exact_witness:
  "d_status (fold (poll_row missing_grace_default) [(0, []), (minutes 12, [])] (ex_row ''downloading'' None)) = ''failed_pending''"
proof -
  let ?ps = "[(0, []), (minutes 12, [])] :: (datetime \<times> download_status list) list"
  let ?r = "ex_row ''downloading'' None"
  let ?os = "map (observe (d_torrent_hash ?r)) ?ps"
  have os: "?os = [(0, Gone), (minutes 12, Gone)]" by (simp add: observe_def snapshot_def dict_by_def)
  have "overdue missing_grace_default ?os" unfolding os
    by (simp add: overdue_def gone_since_def missing_grace_default_def time_defs)
  then have "\<exists>n \<le> length ?ps. overdue missing_grace_default (take n ?os)" by (intro exI[of _ 2]) simp
  moreover have "\<forall>e \<in> set ?os. snd e \<noteq> Broken" unfolding os by simp
  ultimately show ?thesis
    using absence_policy_exact[of ?r missing_grace_default ?ps]
    by (simp add: ex_row_def new_download_def ACTIVE_STATUS_VALUES_def ACTIVE_STATES_def
        missing_grace_default_def time_defs)
qed

section \<open>Stalls agree with the deadline that is shown\<close>

lemma RAW_of_client_state: "client_state raw = Downloading \<longleftrightarrow> (case RAW_STATE_MAP raw of None \<Rightarrow> UNKNOWN_FALLBACK | Some d \<Rightarrow> d) = Downloading"
  by (simp add: client_state_eq UNKNOWN_FALLBACK_def split: option.splits)

lemma stalled_raw_downloading:
  "raw \<in> set STALLED_PROGRESS_RAW_STATES \<Longrightarrow> client_state raw = Downloading \<and> \<not> meta_raw raw"
proof -
  have "list_all (\<lambda>r. client_state r = Downloading \<and> \<not> meta_raw r) STALLED_PROGRESS_RAW_STATES" by code_simp
  then show "raw \<in> set STALLED_PROGRESS_RAW_STATES \<Longrightarrow> ?thesis" by (simp add: list_all_iff)
qed

lemma idle_raw_downloading:
  "raw \<in> set DELIBERATELY_IDLE_RAW_STATES \<Longrightarrow>
     client_state raw = Downloading \<and> \<not> meta_raw raw \<and> raw \<notin> set STALLED_PROGRESS_RAW_STATES"
proof -
  have "list_all (\<lambda>r. client_state r = Downloading \<and> \<not> meta_raw r \<and> r \<notin> set STALLED_PROGRESS_RAW_STATES)
      DELIBERATELY_IDLE_RAW_STATES" by code_simp
  then show "raw \<in> set DELIBERATELY_IDLE_RAW_STATES \<Longrightarrow> ?thesis" by (simp add: list_all_iff)
qed

lemma stall_shape_deadline:
  assumes "stall_shape now METADATA_STALL_WINDOW STALLED_PROGRESS_WINDOW added s = Some shape"
    and "client_state (ds_raw_state s) = Downloading \<or> meta_raw (ds_raw_state s)"
  shows "\<exists>d. download_deadline s added = Some d \<and> d \<le> now"
  using assms
  by (auto simp: stall_shape_def download_deadline_def RAW_of_client_state Let_def never_active_def max_def
      METADATA_STALL_WINDOW_def STALLED_PROGRESS_WINDOW_def time_defs split: if_splits)

lemma deadline_stall_shape:
  assumes "download_deadline s added = Some d" and "d < now"
    and "meta_raw (ds_raw_state s) \<or> never_active s
      \<or> ds_raw_state s \<in> set STALLED_PROGRESS_RAW_STATES \<and> 0 < ds_last_activity_unix s"
  shows "stall_shape now METADATA_STALL_WINDOW STALLED_PROGRESS_WINDOW added s \<noteq> None"
  using assms
  by (auto simp: stall_shape_def download_deadline_def Let_def never_active_def max_def
      METADATA_STALL_WINDOW_def STALLED_PROGRESS_WINDOW_def time_defs split: if_splits)

lemma stalled_row:
  assumes "x \<in> set (detect_stalls rows client now m p)"
  obtains row added s shape where "row \<in> set rows" "d_status row \<in> set STALL_ELIGIBLE_STATUS_VALUES"
    "d_added_at row = Some added" "snapshot client (py_lower (d_torrent_hash row)) = Some s"
    "stall_shape now m p added s = Some shape" "sd_download_id x = d_id row" "sd_shape x = shape"
proof -
  from assms obtain row where row: "row \<in> set rows" "detect_stall_row (snapshot client) now m p row = Some x"
    by (auto simp: detect_stalls_def in_map_filter)
  then show thesis using that[of row]
    by (cases "d_added_at row"; cases "snapshot client (py_lower (d_torrent_hash row))")
       (auto simp: detect_stall_row_def split: if_splits)
qed

text \<open>
  The stall heal never fires before the deadline the queue shows. Whenever \<open>detect_stalls\<close> flags a
  row that \<open>reconcile\<close> leaves in place this cycle (the only ones the service heals), the row is being
  downloaded or is fetching metadata, its torrent is in the client in a state that is neither
  deliberately idle nor finished nor broken, and the row's \<open>download_deadline\<close> exists and has passed.
\<close>

theorem stall_not_before_deadline:
  assumes "x \<in> set (detect_stalls rows client now METADATA_STALL_WINDOW STALLED_PROGRESS_WINDOW)"
    and "distinct (map d_id rows)"
    and "dict_by tr_download_id (reconcile rows client now grace) (sd_download_id x) = None"
  shows "\<exists>row s added d. row \<in> set rows \<and> d_id row = sd_download_id x
    \<and> d_status row \<in> {''downloading'', ''metadata_fetching''}
    \<and> snapshot client (py_lower (d_torrent_hash row)) = Some s \<and> d_added_at row = Some added
    \<and> ds_raw_state s \<notin> set DELIBERATELY_IDLE_RAW_STATES
    \<and> client_state (ds_raw_state s) \<in> {Downloading, MetadataFetching}
    \<and> download_deadline s added = Some d \<and> d \<le> now"
proof -
  obtain row added s shape where row: "row \<in> set rows" "d_status row \<in> set STALL_ELIGIBLE_STATUS_VALUES"
    "d_added_at row = Some added" "snapshot client (py_lower (d_torrent_hash row)) = Some s"
    "stall_shape now METADATA_STALL_WINDOW STALLED_PROGRESS_WINDOW added s = Some shape"
    "sd_download_id x = d_id row"
    by (rule stalled_row[OF assms(1)])
  have act: "d_status row \<in> set ACTIVE_STATUS_VALUES"
    using row(2) by (auto simp: STALL_ELIGIBLE_STATUS_VALUES_def active_values ACTIVE_STATES_def simp del: state_str.simps)
  have "reconcile_row (snapshot client) now grace row = None"
    using assms(3) transition_of_row[OF assms(2) row(1), of client now grace] row(6) by simp
  then have st: "state_str (client_state (ds_raw_state s)) = d_status row"
    using act row(4) by (simp add: reconcile_row_simps split: if_splits)
  with row(2) have cs: "client_state (ds_raw_state s) \<in> {Downloading, MetadataFetching}"
    by (auto simp: STALL_ELIGIBLE_STATUS_VALUES_def simp del: state_str.simps)
  then have meta: "client_state (ds_raw_state s) = Downloading \<or> meta_raw (ds_raw_state s)"
    using RAW_STATE_MAP_metadata[of "ds_raw_state s"] by (auto simp: client_state_eq split: option.splits)
  have "ds_raw_state s \<notin> set DELIBERATELY_IDLE_RAW_STATES"
    using row(5) idle_raw_downloading[of "ds_raw_state s"]
    by (auto simp: stall_shape_def never_active_def Let_def split: if_splits)
  moreover obtain d where "download_deadline s added = Some d" "d \<le> now"
    using stall_shape_deadline[OF row(5) meta] by blast
  ultimately show ?thesis
    using row cs by (intro exI[of _ row] exI[of _ s] exI[of _ added] exI[of _ d])
      (auto simp: STALL_ELIGIBLE_STATUS_VALUES_def)
qed

definition ex_status :: "string \<Rightarrow> int \<Rightarrow> download_status" where
  "ex_status raw act = \<lparr>ds_info_hash = ''ab'', ds_name = [], ds_raw_state = raw, ds_progress = 0, ds_ratio = 0,
     ds_save_path = [], ds_content_path = None, ds_eta_seconds = None, ds_ratio_limit = -2,
     ds_seeding_time_limit_minutes = -2, ds_inactive_seeding_time_limit_minutes = -2,
     ds_last_activity_unix = act, ds_force_start = False\<rparr>"

theorem stall_not_before_deadline_witness:
  "\<exists>d. download_deadline (ex_status ''downloading'' 0) 0 = Some d \<and> d \<le> minutes 45"
proof -
  let ?rows = "[ex_row ''downloading'' None]" and ?cl = "[ex_status ''downloading'' 0]"
  have one: "map sd_shape (detect_stalls ?rows ?cl (minutes 45) METADATA_STALL_WINDOW STALLED_PROGRESS_WINDOW)
    = [''metadata_stall'']" by code_simp
  then obtain x where x: "x \<in> set (detect_stalls ?rows ?cl (minutes 45) METADATA_STALL_WINDOW STALLED_PROGRESS_WINDOW)"
    by (metis list.set_intros(1) list.simps(8) neq_Nil_conv)
  have "length (reconcile ?rows ?cl (minutes 45) 0) = 0" by code_simp
  then have "dict_by tr_download_id (reconcile ?rows ?cl (minutes 45) 0) (sd_download_id x) = None"
    by (simp add: dict_by_def)
  from stall_not_before_deadline[OF x _ this]
  show ?thesis by (auto simp: ex_row_def new_download_def snapshot_def dict_by_def ex_status_def py_lower_def
      lower_char_def code_def split: if_splits)
qed

text \<open>
  The deadline is not an empty promise. Once it has passed, a polled row in a download phase whose
  torrent is fetching metadata, has never been active, or is in a transferring state with reported
  activity, is flagged. The torrents a deadline is shown for without being flagged are the idle ones
  (paused, queued, checking, moving) and those whose activity record was reset.
\<close>

theorem stall_detected_after_deadline:
  assumes "row \<in> set rows" and "d_status row \<in> {''downloading'', ''metadata_fetching''}"
    and "d_added_at row = Some added" and "snapshot client (py_lower (d_torrent_hash row)) = Some s"
    and "download_deadline s added = Some d" and "d < now"
    and "meta_raw (ds_raw_state s) \<or> never_active s
      \<or> ds_raw_state s \<in> set STALLED_PROGRESS_RAW_STATES \<and> 0 < ds_last_activity_unix s"
  shows "d_id row \<in> sd_download_id ` set (detect_stalls rows client now METADATA_STALL_WINDOW STALLED_PROGRESS_WINDOW)"
proof -
  obtain shape where "stall_shape now METADATA_STALL_WINDOW STALLED_PROGRESS_WINDOW added s = Some shape"
    using deadline_stall_shape[OF assms(5-7)] by blast
  with assms(2-4) have "detect_stall_row (snapshot client) now METADATA_STALL_WINDOW STALLED_PROGRESS_WINDOW row
      = Some \<lparr>sd_download_id = d_id row, sd_torrent_hash = d_torrent_hash row, sd_shape = shape\<rparr>"
    by (auto simp: detect_stall_row_def STALL_ELIGIBLE_STATUS_VALUES_def)
  with assms(1) have "\<lparr>sd_download_id = d_id row, sd_torrent_hash = d_torrent_hash row, sd_shape = shape\<rparr>
      \<in> set (detect_stalls rows client now METADATA_STALL_WINDOW STALLED_PROGRESS_WINDOW)"
    by (auto simp: detect_stalls_def in_map_filter)
  then show ?thesis by force
qed

theorem stall_detected_after_deadline_witness:
  "1 \<in> sd_download_id ` set (detect_stalls [ex_row ''downloading'' None] [ex_status ''stalledDL'' 60]
     (minutes 182) METADATA_STALL_WINDOW STALLED_PROGRESS_WINDOW)"
proof -
  have hash: "py_lower ''AB'' = ''ab''" "py_lower ''ab'' = ''ab''" by code_simp+
  have "download_deadline (ex_status ''stalledDL'' 60) 0 = Some (minutes 181)" by code_simp
  moreover have "snapshot [ex_status ''stalledDL'' 60] (py_lower ''AB'') = Some (ex_status ''stalledDL'' 60)"
    by (simp add: snapshot_def dict_by_def hash ex_status_def)
  ultimately show ?thesis
    using stall_detected_after_deadline[of "ex_row ''downloading'' None" "[ex_row ''downloading'' None]" 0
      "[ex_status ''stalledDL'' 60]" "ex_status ''stalledDL'' 60" "minutes 181" "minutes 182"]
    by (simp add: ex_row_def new_download_def ex_status_def STALLED_PROGRESS_RAW_STATES_def time_defs)
qed

text \<open>
  The catch-all for torrents that were never active also covers raw states that are not downloads: a
  broken torrent is flagged although it has no deadline. Phase A moves such a row in the same cycle,
  so the service does not heal it.
\<close>

lemma broken_torrent_flagged_without_deadline:
  "stall_shape (minutes 45) METADATA_STALL_WINDOW STALLED_PROGRESS_WINDOW 0 (ex_status ''error'' 0) = Some ''metadata_stall''
   \<and> download_deadline (ex_status ''error'' 0) 0 = None"
  by code_simp

end
