(* ===== verification/QueuePoll.thy ===== *)
theory QueuePoll
  imports Reconciler
begin

text \<open>
  The writes that persist the reconciler's transitions: Phase A of \<open>reconcile_and_list\<close> in
  \<open>services/queue_service.py\<close>, over the store of \<open>DownloadRepo\<close>. Shown: they are the store's own steps, touch no row
  that an operator has claimed, and change a status only as the reconciler asked. \<open>PollCycle\<close> puts them between
  the awaits of the cycle; \<open>FailureFlow\<close> takes the loop as one step.
\<close>

section \<open>The poll: Phase A of \<open>reconcile_and_list\<close>\<close>

text \<open>
  One row of Phase A. \<open>claimed\<close> is the operator-claim registry as read before this row's write,
  \<open>transitions\<close> the output of \<open>reconcile\<close>. The result carries the transition if its compare-and-swap won.
\<close>

definition phase_a_row ::
  "datetime \<Rightarrow> (int \<Rightarrow> bool) \<Rightarrow> download_status list \<Rightarrow> state_transition list \<Rightarrow> download_row \<Rightarrow> repo_db
     \<Rightarrow> (state_transition list) repo_result" where
  "phase_a_row now claimed client transitions row db =
     (if claimed (d_id row) then Inr ([], db)
      else
        let live = snapshot client (py_lower (d_torrent_hash row));
            new_timeout = (case (live, d_added_at row) of (Some s, Some a) \<Rightarrow> download_deadline s a | _ \<Rightarrow> None);
            clear_new_timeout = (live \<noteq> None \<and> d_added_at row \<noteq> None \<and> new_timeout = None)
        in case dict_by tr_download_id transitions (d_id row) of
             Some t \<Rightarrow>
               map_sum id (\<lambda>(applied, db'). (if applied then [t] else [], db'))
                 (update_status_if_in now (tr_download_id t) (state_str (tr_to_state t)) [tr_from_state t]
                   (no_update\<lparr>su_progress := map_option ds_progress live, su_seed_ratio := map_option ds_ratio live,
                     su_first_seen_at := (if tr_set_first_seen_at t then Some now else None),
                     su_clear_first_seen_at := tr_clear_first_seen_at t,
                     su_timeout_at := new_timeout, su_clear_timeout_at := clear_new_timeout\<rparr>) db)
           | None \<Rightarrow>
               (case live of
                  None \<Rightarrow> Inr ([], db)
                | Some s \<Rightarrow>
                    if d_progress row \<noteq> ds_progress s \<or> d_seed_ratio row \<noteq> ds_ratio s
                       \<or> (clear_new_timeout \<and> d_timeout_at row \<noteq> None)
                       \<or> (new_timeout \<noteq> None \<and> d_timeout_at row \<noteq> new_timeout)
                    then map_sum id (\<lambda>(_, db'). ([], db'))
                           (refresh_progress (d_id row) (Some (ds_progress s)) (Some (ds_ratio s)) new_timeout clear_new_timeout db)
                    else Inr ([], db)))"

fun phase_a_loop ::
  "datetime \<Rightarrow> (int \<Rightarrow> bool) \<Rightarrow> download_status list \<Rightarrow> state_transition list \<Rightarrow> download_row list \<Rightarrow> repo_db
     \<Rightarrow> (state_transition list) repo_result" where
  "phase_a_loop now claimed client transitions [] db = Inr ([], db)"
| "phase_a_loop now claimed client transitions (row # rows) db =
     (case phase_a_row now claimed client transitions row db of
        Inl e \<Rightarrow> Inl e
      | Inr (ts, db') \<Rightarrow>
          map_sum id (\<lambda>(ts', db''). (ts @ ts', db'')) (phase_a_loop now claimed client transitions rows db'))"

section \<open>Rows by id\<close>

definition get_row :: "repo_db \<Rightarrow> int \<Rightarrow> download_row option" where
  "get_row db i = find (\<lambda>r. d_id r = i) (db_downloads db)"

lemma find_map_id:
  "(\<And>x. key (f x) = key x) \<Longrightarrow> find (\<lambda>x. key x = k) (map f xs) = map_option f (find (\<lambda>x. key x = k) xs)"
  by (induction xs) auto

lemma get_row_id: "get_row db i = Some r \<Longrightarrow> d_id r = i"
  by (auto simp: get_row_def find_Some_iff)

lemma get_row_map:
  assumes "db_downloads db' = map f (db_downloads db)" and "\<And>r. d_id (f r) = d_id r"
  shows "get_row db' i = map_option f (get_row db i)"
  unfolding get_row_def assms(1) by (rule find_map_id) (rule assms(2))

lemma get_row_in:
  assumes "repo_inv db" and "r \<in> set (db_downloads db)"
  shows "get_row db (d_id r) = Some r"
proof (cases "get_row db (d_id r)")
  case None
  with assms(2) show ?thesis by (auto simp: get_row_def find_None_iff)
next
  case (Some r')
  then have "r' \<in> set (db_downloads db)" "d_id r' = d_id r" by (auto simp: get_row_def find_Some_iff)
  with assms have "r' = r" by (auto simp: repo_inv_def db_unique_def distinct_map dest: inj_onD)
  with Some show ?thesis by simp
qed

section \<open>One row\<close>

text \<open>What Phase A may do to the row it handles.\<close>

definition handled :: "(int \<Rightarrow> bool) \<Rightarrow> state_transition list \<Rightarrow> state_transition list \<Rightarrow> download_row \<Rightarrow> download_row \<Rightarrow> bool" where
  "handled claimed transitions ts r r' \<longleftrightarrow> (claimed (d_id r) \<longrightarrow> r' = r)
     \<and> (d_status r' = d_status r
        \<or> (\<exists>t \<in> set ts. t \<in> set transitions \<and> tr_download_id t = d_id r \<and> tr_from_state t = d_status r
             \<and> d_status r' = state_str (tr_to_state t)))"

lemma handled_refl [simp]: "handled claimed transitions ts r r"
  by (simp add: handled_def)

lemma phase_a_row_spec:
  assumes inv: "repo_inv db" and res: "phase_a_row now claimed client transitions row db = Inr (ts, db')"
  shows "repo_inv db' \<and> repo_step\<^sup>*\<^sup>* db db'
    \<and> (\<forall>i. i \<noteq> d_id row \<longrightarrow> get_row db' i = get_row db i)
    \<and> rel_option (handled claimed transitions ts) (get_row db (d_id row)) (get_row db' (d_id row))"
proof (cases "ts = [] \<and> db' = db")
  case True
  with inv show ?thesis by (simp add: option.rel_refl)
next
  case nontriv: False
  then have nc: "\<not> claimed (d_id row)" using res by (auto simp: phase_a_row_def)
  show ?thesis
  proof (cases "dict_by tr_download_id transitions (d_id row)")
    case (Some t)
    then have t: "t \<in> set transitions" "tr_download_id t = d_id row" by (auto dest: dict_by_SomeD)
    from res nc Some t(2) obtain u b where
      cas: "update_status_if_in now (d_id row) (state_str (tr_to_state t)) [tr_from_state t] u db = Inr (b, db')"
      and ts: "ts = (if b then [t] else [])"
      by (auto simp: phase_a_row_def Let_def map_sum_Inr)
    note spec = update_status_if_in_spec[OF inv cas]
    let ?hit = "cas_where db (d_id row) [tr_from_state t] u"
    obtain mt where ds: "db_downloads db' =
        map (\<lambda>r. if ?hit r then row_values now (state_str (tr_to_state t)) u mt r else r) (db_downloads db)"
      using spec(4) by blast
    have get: "get_row db' i = map_option (\<lambda>r. if ?hit r then row_values now (state_str (tr_to_state t)) u mt r else r)
        (get_row db i)" for i
      by (rule get_row_map[OF ds]) simp
    have "get_row db' i = get_row db i" if "i \<noteq> d_id row" for i
      unfolding get using that by (cases "get_row db i") (auto simp: cas_where_def dest: get_row_id)
    moreover have "rel_option (handled claimed transitions ts) (get_row db (d_id row)) (get_row db' (d_id row))"
    proof (cases "get_row db (d_id row)")
      case r: (Some r)
      then have "r \<in> set (db_downloads db)" by (auto simp: get_row_def find_Some_iff)
      then have "?hit r \<Longrightarrow> b" using spec(2) by (auto simp: list_ex_iff)
      then show ?thesis unfolding get r using t nc get_row_id[OF r]
        by (auto simp: handled_def ts cas_where_def)
    qed (simp add: get)
    ultimately show ?thesis using spec(1) step_cas[OF cas] by (auto intro: r_into_rtranclp)
  next
    case None
    with res nc nontriv obtain p q tm c x where
      ref: "refresh_progress (d_id row) p q tm c db = Inr (x, db')" and ts: "ts = []"
      by (auto simp: phase_a_row_def Let_def map_sum_Inr split: option.splits if_splits)
    let ?f = "\<lambda>r. if d_id r = d_id row then r\<lparr>d_progress := keep_or (d_progress r) p, d_seed_ratio := keep_or (d_seed_ratio r) q,
              d_timeout_at := clear_or_set c (d_timeout_at r) tm\<rparr> else r"
    have get: "get_row db' i = map_option ?f (get_row db i)" for i
      by (rule get_row_map) (use ref in \<open>auto simp: refresh_progress_def\<close>)
    have "get_row db' i = get_row db i" if "i \<noteq> d_id row" for i
      unfolding get using that by (cases "get_row db i") (auto dest: get_row_id)
    moreover have "rel_option (handled claimed transitions ts) (get_row db (d_id row)) (get_row db' (d_id row))"
      unfolding get using nc by (cases "get_row db (d_id row)") (auto simp: handled_def dest: get_row_id)
    ultimately show ?thesis
      using refresh_progress_inv[OF inv ref] step_progress[OF ref] by (auto intro: r_into_rtranclp)
  qed
qed

section \<open>The loop\<close>

lemma handled_mono: "handled claimed transitions ts r r' \<Longrightarrow> set ts \<subseteq> set ts' \<Longrightarrow> handled claimed transitions ts' r r'"
  by (auto simp: handled_def)

lemma phase_a_loop_spec:
  assumes "repo_inv db" and "phase_a_loop now claimed client transitions rows db = Inr (ts, db')"
    and "distinct (map d_id rows)"
  shows "repo_inv db' \<and> repo_step\<^sup>*\<^sup>* db db'
    \<and> (\<forall>i. i \<notin> d_id ` set rows \<longrightarrow> get_row db' i = get_row db i)
    \<and> (\<forall>i \<in> d_id ` set rows. rel_option (handled claimed transitions ts) (get_row db i) (get_row db' i))"
  using assms
proof (induction rows arbitrary: db ts)
  case (Cons row rows)
  from Cons.prems(2) obtain ts1 db1 ts2 where
    first: "phase_a_row now claimed client transitions row db = Inr (ts1, db1)" and
    rest: "phase_a_loop now claimed client transitions rows db1 = Inr (ts2, db')" and ts: "ts = ts1 @ ts2"
    by (auto simp: map_sum_Inr split: sum.splits prod.splits)
  note one = phase_a_row_spec[OF Cons.prems(1) first]
  with rest Cons.IH[of db1 ts2] Cons.prems(3) have ih: "repo_inv db'" "repo_step\<^sup>*\<^sup>* db1 db'"
    "\<forall>i. i \<notin> d_id ` set rows \<longrightarrow> get_row db' i = get_row db1 i"
    "\<forall>i \<in> d_id ` set rows. rel_option (handled claimed transitions ts2) (get_row db1 i) (get_row db' i)"
    by simp_all
  have "rel_option (handled claimed transitions ts) (get_row db i) (get_row db' i)" if "i \<in> d_id ` set (row # rows)" for i
  proof (cases "i = d_id row")
    case True
    with Cons.prems(3) ih(3) have "get_row db' i = get_row db1 i" by auto
    with one True have "rel_option (handled claimed transitions ts1) (get_row db i) (get_row db' i)" by simp
    then show ?thesis by (rule option.rel_mono_strong) (auto simp: ts elim: handled_mono)
  next
    case False
    with that ih(4) one have "rel_option (handled claimed transitions ts2) (get_row db i) (get_row db' i)" by auto
    then show ?thesis by (rule option.rel_mono_strong) (auto simp: ts elim: handled_mono)
  qed
  moreover have "\<forall>i. i \<notin> d_id ` set (row # rows) \<longrightarrow> get_row db' i = get_row db i"
    using one ih(3) by auto
  ultimately show ?case using one ih(1,2) by (auto intro: rtranclp_trans)
qed simp

lemma polled_rows:
  assumes "repo_inv db"
  shows "distinct (map d_id (filter p (map fst (list_active db))))"
    and "r \<in> set (filter p (map fst (list_active db))) \<longleftrightarrow> r \<in> set (db_downloads db) \<and> row_live r \<and> p r"
proof -
  have eq: "map fst (list_active db) = by_id (filter row_live (db_downloads db))"
    by (simp add: list_active_def to_record_def comp_def)
  have "distinct (map d_id (filter row_live (db_downloads db)))"
    using assms by (simp add: repo_inv_def db_unique_def distinct_map_filter)
  moreover have "mset (map d_id (by_id (filter row_live (db_downloads db)))) = mset (map d_id (filter row_live (db_downloads db)))"
    by (simp add: by_id_def)
  ultimately have "distinct (map d_id (map fst (list_active db)))" unfolding eq by (metis mset_eq_imp_distinct_iff)
  then show "distinct (map d_id (filter p (map fst (list_active db))))" by (rule distinct_map_filter)
  show "r \<in> set (filter p (map fst (list_active db))) \<longleftrightarrow> r \<in> set (db_downloads db) \<and> row_live r \<and> p r"
    by (auto simp: eq)
qed

end
