(* ===== verification/PollCycle.thy ===== *)
theory PollCycle
  imports QueuePoll
begin

text \<open>
  The poll cycle of \<open>reconcile_and_list\<close> in \<open>services/queue_service.py\<close>, from the listing of the live rows to the
  commit of Phase A, with its awaits: the rows it works on are a snapshot, the client is asked, the held payloads are
  looked after with commits of their own, and each row is checked against the claim registry just before its write.
  Between all of these the other sessions of the application commit. Shown: whatever they do, each write of the cycle
  is justified by the row as it stands and by what the reconciler makes of the snapshot.
\<close>

section \<open>The world of a cycle\<close>

text \<open>
  A turn is an await point. What the other sessions and the held-payload verbs commit at a turn, who holds a claim
  then, and what the client answers are arguments. \<open>pe_reject\<close> and \<open>pe_validate\<close> stand for \<open>reject_payload\<close> and
  \<open>_validate_held_payload\<close>, which run transactions of their own around client calls.
\<close>

datatype poll_error = ClientFailed | PollStoreFailed repo_error

record poll_env =
  pe_now :: datetime
  pe_others :: "nat \<Rightarrow> repo_db \<Rightarrow> repo_db"
  pe_claimed :: "nat \<Rightarrow> int \<Rightarrow> bool"
  pe_client :: "string list \<Rightarrow> download_status list option"
  pe_reject :: "nat \<Rightarrow> download_row \<Rightarrow> repo_db \<Rightarrow> (poll_error + unit) \<times> repo_db"
  pe_validate :: "nat \<Rightarrow> download_row \<Rightarrow> repo_db \<Rightarrow> (poll_error + unit) \<times> repo_db"

text \<open>What changed the committed store: another session, or the cycle for one row after the claim check of one turn.\<close>

datatype poll_move = Foreign | HeldBy download_row nat | Released download_row nat | Reconciled download_row nat

type_synonym poll_entry = "poll_move \<times> repo_db \<times> repo_db"

text \<open>
  \<open>pw_db\<close> is the store as this session sees it, \<open>pw_saved\<close> the committed one. From its first write to its commit the
  session holds the write lock of the database (\<open>pw_open\<close>), and nobody else commits. \<open>pw_log\<close> is the history of the
  committed store, \<open>pw_pending\<close> what this session has written since.
\<close>

record poll_world =
  pw_db :: repo_db
  pw_saved :: repo_db
  pw_open :: bool
  pw_turn :: nat
  pw_log :: "poll_entry list"
  pw_pending :: "poll_entry list"

type_synonym 'a polled = "(poll_error + 'a) \<times> poll_world"

definition open_poll :: "repo_db \<Rightarrow> poll_world" where
  "open_poll db = \<lparr>pw_db = db, pw_saved = db, pw_open = False, pw_turn = 0, pw_log = [], pw_pending = []\<rparr>"

definition published :: "poll_world \<Rightarrow> poll_world" where
  "published w = w\<lparr>pw_saved := pw_db w, pw_open := False, pw_log := pw_log w @ pw_pending w, pw_pending := []\<rparr>"

definition rolled_back :: "poll_world \<Rightarrow> poll_world" where
  "rolled_back w = w\<lparr>pw_db := pw_saved w, pw_open := False, pw_pending := []\<rparr>"

definition record_move :: "poll_move \<Rightarrow> repo_db \<Rightarrow> poll_world \<Rightarrow> poll_world" where
  "record_move m db w = w\<lparr>pw_db := db, pw_open := True, pw_pending := pw_pending w @ [(m, pw_db w, db)]\<rparr>"

definition next_turn :: "poll_env \<Rightarrow> poll_world \<Rightarrow> poll_world" where
  "next_turn env w = (if pw_open w then w else published (record_move Foreign (pe_others env (pw_turn w) (pw_db w)) w))
     \<lparr>pw_turn := pw_turn w + 1\<rparr>"

text \<open>An awaited statement: the others first, then the statement on what they left. An exception ends the transaction.\<close>

definition statement :: "poll_env \<Rightarrow> poll_move \<Rightarrow> (repo_db \<Rightarrow> 'a repo_result) \<Rightarrow> poll_world \<Rightarrow> 'a polled" where
  "statement env m f w = (let w1 = next_turn env w in
     case f (pw_db w1) of
       Inl e \<Rightarrow> (Inl (PollStoreFailed e), rolled_back w1)
     | Inr (x, db) \<Rightarrow> (Inr x, record_move m db w1))"

section \<open>The held payloads\<close>

definition HELD_STATUS_VALUES :: "string list" where
  "HELD_STATUS_VALUES = map state_str [Downloading, MetadataFetching, ImportPending, ImportBlocked, Importing, ClientMissing]"

definition COMPLETED_HELD_VALUES :: "string list" where
  "COMPLETED_HELD_VALUES = map state_str [ImportPending, ImportBlocked, Importing]"

definition LEGACY_METADATA_RESTART :: string where
  "LEGACY_METADATA_RESTART = ''payload validation pending: restarting legacy metadata with a download hold''"

datatype held_branch = Rejecting | Validating | Releasing | NotHeld

definition held_branch_of :: "download_status list \<Rightarrow> download_row \<Rightarrow> held_branch" where
  "held_branch_of statuses row =
     (let live = snapshot statuses (py_lower (d_torrent_hash row)) in
      if d_payload_rejection row \<notin> {None, Some ''''} \<and> d_status row \<noteq> state_str FailedPending then Rejecting
      else if d_payload_pending row \<and> live \<noteq> None \<and> map_option ds_raw_state live \<notin> {Some ''error'', Some ''missingFiles''}
        \<and> d_status row \<in> set HELD_STATUS_VALUES then Validating
      else if d_payload_pending row \<and> live = None \<and> d_status row \<in> set COMPLETED_HELD_VALUES then Releasing
      else NotHeld)"

text \<open>A held magnet that still fetches its metadata keeps its stall deadline.\<close>

definition stalls_while_held :: "download_status list \<Rightarrow> download_row \<Rightarrow> bool" where
  "stalls_while_held statuses row \<longleftrightarrow> d_payload_resume row
     \<and> \<not> prefix LEGACY_METADATA_RESTART (case d_failed_reason row of None \<Rightarrow> '''' | Some r \<Rightarrow> r)
     \<and> map_option ds_raw_state (snapshot statuses (py_lower (d_torrent_hash row))) \<in> {Some ''metaDL'', Some ''forcedMetaDL''}"

definition release_payload :: "datetime \<Rightarrow> download_row \<Rightarrow> repo_db \<Rightarrow> bool repo_result" where
  "release_payload now row =
     update_status_if_in now (d_id row) (d_status row) [d_status row] (no_update\<lparr>su_payload_pending := Some False\<rparr>)"

definition run_verb ::
  "(nat \<Rightarrow> download_row \<Rightarrow> repo_db \<Rightarrow> (poll_error + unit) \<times> repo_db) \<Rightarrow> download_row \<Rightarrow> poll_world \<Rightarrow> unit polled" where
  "run_verb verb row w = (case verb (pw_turn w) row (pw_db w) of
     (res, db) \<Rightarrow> (res, (published (record_move (HeldBy row (pw_turn w)) db w))\<lparr>pw_turn := pw_turn w + 1\<rparr>))"

fun held_pass :: "poll_env \<Rightarrow> download_status list \<Rightarrow> download_row list \<Rightarrow> poll_world \<Rightarrow> (int list \<times> download_row list) polled" where
  "held_pass env statuses [] w = (Inr ([], []), w)"
| "held_pass env statuses (row # rows) w =
     (if pe_claimed env (pw_turn w) (d_id row) then held_pass env statuses rows w
      else case held_branch_of statuses row of
        Rejecting \<Rightarrow> (case run_verb (pe_reject env) row w of
            (Inl e, w') \<Rightarrow> (Inl e, w')
          | (Inr _, w') \<Rightarrow> apfst (map_sum id (\<lambda>(ids, stalls). (d_id row # ids, stalls))) (held_pass env statuses rows w'))
      | Validating \<Rightarrow> (case run_verb (pe_validate env) row w of
            (Inl e, w') \<Rightarrow> (Inl e, w')
          | (Inr _, w') \<Rightarrow> apfst (map_sum id (\<lambda>(ids, stalls).
              (d_id row # ids, if stalls_while_held statuses row then row # stalls else stalls))) (held_pass env statuses rows w'))
      | Releasing \<Rightarrow> (case statement env (Released row (pw_turn w)) (release_payload (pe_now env) row) w of
            (Inl e, w') \<Rightarrow> (Inl e, w')
          | (Inr won, w') \<Rightarrow> held_pass env statuses rows (if won then published w' else rolled_back w'))
      | NotHeld \<Rightarrow> held_pass env statuses rows w)"

section \<open>Phase A\<close>

text \<open>A row with no transition and nothing new to show costs no statement.\<close>

definition phase_a_silent :: "download_status list \<Rightarrow> state_transition list \<Rightarrow> download_row \<Rightarrow> bool" where
  "phase_a_silent client transitions row \<longleftrightarrow> dict_by tr_download_id transitions (d_id row) = None
     \<and> (case snapshot client (py_lower (d_torrent_hash row)) of
          None \<Rightarrow> True
        | Some s \<Rightarrow> d_progress row = ds_progress s \<and> d_seed_ratio row = ds_ratio s
            \<and> (case d_added_at row of None \<Rightarrow> True | Some a \<Rightarrow> d_timeout_at row = download_deadline s a))"

lemma phase_a_silent_idle:
  "phase_a_silent client transitions row \<Longrightarrow> phase_a_row now claimed client transitions row db = Inr ([], db)"
  by (auto simp: phase_a_silent_def phase_a_row_def Let_def split: option.splits)

fun phase_a :: "poll_env \<Rightarrow> download_status list \<Rightarrow> state_transition list \<Rightarrow> download_row list \<Rightarrow> poll_world
    \<Rightarrow> state_transition list polled" where
  "phase_a env statuses transitions [] w = (Inr [], w)"
| "phase_a env statuses transitions (row # rows) w =
     (if pe_claimed env (pw_turn w) (d_id row) \<or> phase_a_silent statuses transitions row
      then phase_a env statuses transitions rows w
      else case statement env (Reconciled row (pw_turn w)) (phase_a_row (pe_now env) (\<lambda>_. False) statuses transitions row) w of
          (Inl e, w') \<Rightarrow> (Inl e, w')
        | (Inr ts, w') \<Rightarrow> apfst (map_sum id (\<lambda>ts'. ts @ ts')) (phase_a env statuses transitions rows w'))"

text \<open>The result: the transitions that won their compare-and-swap, and the rows the stall check goes over next.\<close>

definition reconcile_cycle :: "poll_env \<Rightarrow> poll_world \<Rightarrow> (state_transition list \<times> download_row list) polled" where
  "reconcile_cycle env w0 =
     (let rows = map fst (list_active (pw_db w0)) in
      if rows = [] then (Inr ([], []), w0)
      else let w1 = next_turn env w0 in
        case pe_client env (map d_torrent_hash rows) of
          None \<Rightarrow> (Inl ClientFailed, w1)
        | Some statuses \<Rightarrow>
           (case held_pass env statuses rows w1 of
              (Inl e, w2) \<Rightarrow> (Inl e, w2)
            | (Inr (held, stalls), w2) \<Rightarrow>
               let plain = filter (\<lambda>r. d_id r \<notin> set held) rows in
               case phase_a env statuses (reconcile plain statuses (pe_now env) missing_grace_default) plain w2 of
                 (Inl e, w3) \<Rightarrow> (Inl e, w3)
               | (Inr applied, w3) \<Rightarrow> (Inr (applied, plain @ stalls), published w3)))"

section \<open>What a cycle may do\<close>

definition only_row :: "int \<Rightarrow> repo_db \<Rightarrow> repo_db \<Rightarrow> bool" where
  "only_row i a b \<longleftrightarrow> (\<forall>j. j \<noteq> i \<longrightarrow> get_row b j = get_row a j)"

text \<open>
  The reconciler's verdict on a row of the snapshot, carried out on the row as it stands. A failure needs a torrent
  that the client reports broken, or an absence as old as the grace period.
\<close>

definition verdict_on :: "poll_env \<Rightarrow> download_status list \<Rightarrow> download_row \<Rightarrow> download_row \<Rightarrow> download_row \<Rightarrow> bool" where
  "verdict_on env statuses row r r' \<longleftrightarrow> d_status r' = d_status r \<or>
     (d_status r = d_status row \<and> (\<exists>t. reconcile_row (snapshot statuses) (pe_now env) missing_grace_default row = Some t
        \<and> d_status r' = state_str (tr_to_state t)
        \<and> (tr_to_state t = FailedPending \<longrightarrow> (case snapshot statuses (py_lower (d_torrent_hash row)) of
             Some s \<Rightarrow> ds_raw_state s \<in> {''error'', ''missingFiles''}
           | None \<Rightarrow> (\<exists>anchor. d_first_seen_at row = Some anchor \<and> anchor + missing_grace_default \<le> pe_now env)))))"

fun justified :: "poll_env \<Rightarrow> download_row list \<Rightarrow> download_status list \<Rightarrow> poll_entry \<Rightarrow> bool" where
  "justified env rows statuses (Foreign, a, b) \<longleftrightarrow> (\<exists>t. b = pe_others env t a)"
| "justified env rows statuses (HeldBy row t, a, b) \<longleftrightarrow> row \<in> set rows \<and> \<not> pe_claimed env t (d_id row)
     \<and> (held_branch_of statuses row = Rejecting \<and> b = snd (pe_reject env t row a)
        \<or> held_branch_of statuses row = Validating \<and> b = snd (pe_validate env t row a))"
| "justified env rows statuses (Released row t, a, b) \<longleftrightarrow> row \<in> set rows \<and> \<not> pe_claimed env t (d_id row)
     \<and> held_branch_of statuses row = Releasing \<and> repo_step\<^sup>*\<^sup>* a b \<and> only_row (d_id row) a b
     \<and> rel_option (\<lambda>r r'. r' = (if d_status r = d_status row then r\<lparr>d_payload_pending := False\<rparr> else r))
         (get_row a (d_id row)) (get_row b (d_id row))"
| "justified env rows statuses (Reconciled row t, a, b) \<longleftrightarrow> row \<in> set rows \<and> \<not> pe_claimed env t (d_id row)
     \<and> (held_branch_of statuses row \<in> {Rejecting, Validating} \<longrightarrow> (\<exists>t'. pe_claimed env t' (d_id row)))
     \<and> repo_step\<^sup>*\<^sup>* a b \<and> only_row (d_id row) a b
     \<and> rel_option (verdict_on env statuses row) (get_row a (d_id row)) (get_row b (d_id row))"

text \<open>The entries of a history follow one another without a gap.\<close>

fun chained :: "repo_db \<Rightarrow> poll_entry list \<Rightarrow> repo_db \<Rightarrow> bool" where
  "chained db [] db' \<longleftrightarrow> db = db'"
| "chained db ((m, a, b) # es) db' \<longleftrightarrow> a = db \<and> chained b es db'"

text \<open>
  A transition is reported as applied exactly when its write found the row as the snapshot had it; one that the
  reconciler asked for and that is not reported met a claim, or a row that had moved on.
\<close>

definition carried_out :: "poll_entry list \<Rightarrow> download_row \<Rightarrow> state_transition \<Rightarrow> bool" where
  "carried_out es row t \<longleftrightarrow> (\<exists>k a b r r'. (Reconciled row k, a, b) \<in> set es \<and> get_row a (d_id row) = Some r
     \<and> d_status r = d_status row \<and> get_row b (d_id row) = Some r' \<and> d_status r' = state_str (tr_to_state t))"

definition overtaken :: "poll_env \<Rightarrow> poll_entry list \<Rightarrow> download_row \<Rightarrow> bool" where
  "overtaken env es row \<longleftrightarrow> (\<exists>k. pe_claimed env k (d_id row))
     \<or> (\<exists>k a. (Reconciled row k, a, a) \<in> set es \<and> (\<forall>r. get_row a (d_id row) = Some r \<longrightarrow> d_status r \<noteq> d_status row))"

definition honest :: "poll_env \<Rightarrow> download_row list \<Rightarrow> download_status list \<Rightarrow> state_transition list \<Rightarrow> poll_entry list \<Rightarrow> bool" where
  "honest env rows statuses applied es \<longleftrightarrow>
     (\<forall>t \<in> set applied. \<exists>row \<in> set rows.
        reconcile_row (snapshot statuses) (pe_now env) missing_grace_default row = Some t \<and> carried_out es row t)
     \<and> (\<forall>row \<in> set rows. \<forall>t. reconcile_row (snapshot statuses) (pe_now env) missing_grace_default row = Some t
          \<longrightarrow> held_branch_of statuses row \<notin> {Rejecting, Validating} \<longrightarrow> t \<in> set applied \<or> overtaken env es row)"

section \<open>One write\<close>

lemma release_payload_spec:
  assumes inv: "repo_inv db" and run: "release_payload now row db = Inr (won, db')"
    and st: "d_status row \<in> set COMPLETED_HELD_VALUES"
  shows "repo_inv db' \<and> repo_step\<^sup>*\<^sup>* db db' \<and> only_row (d_id row) db db'
    \<and> rel_option (\<lambda>r r'. r' = (if d_status r = d_status row then r\<lparr>d_payload_pending := False\<rparr> else r))
        (get_row db (d_id row)) (get_row db' (d_id row))"
proof -
  let ?u = "no_update\<lparr>su_payload_pending := Some False\<rparr>"
  note cas = run[unfolded release_payload_def]
  note spec = update_status_if_in_spec[OF inv cas]
  obtain mt where ds: "db_downloads db' = map (\<lambda>r. if cas_where db (d_id row) [d_status row] ?u r
      then row_values now (d_status row) ?u mt r else r) (db_downloads db)"
    using spec(4) by blast
  have hit: "cas_where db (d_id row) [d_status row] ?u r \<longleftrightarrow> d_id r = d_id row \<and> d_status r = d_status row" for r
    by (simp add: cas_where_def no_update_def)
  have new: "row_values now (d_status row) ?u mt r = r\<lparr>d_payload_pending := False\<rparr>" if "d_status r = d_status row" for r
    using that[symmetric] by (simp add: row_values_def no_update_def grab_metadata_def clear_or_set_def keep_or_def)
  have get: "get_row db' i = map_option (\<lambda>r. if d_id r = d_id row \<and> d_status r = d_status row
      then r\<lparr>d_payload_pending := False\<rparr> else r) (get_row db i)" for i
    by (rule get_row_map) (auto simp: ds hit new)
  have "get_row db' i = get_row db i" if "i \<noteq> d_id row" for i
    unfolding get using that by (cases "get_row db i") (auto dest: get_row_id)
  moreover have "rel_option (\<lambda>r r'. r' = (if d_status r = d_status row then r\<lparr>d_payload_pending := False\<rparr> else r))
      (get_row db (d_id row)) (get_row db' (d_id row))"
    unfolding get by (cases "get_row db (d_id row)") (auto dest: get_row_id)
  ultimately show ?thesis using spec(1) step_cas[OF cas] by (auto simp: only_row_def)
qed

lemma phase_a_row_decides:
  assumes inv: "repo_inv db" and run: "phase_a_row now (\<lambda>_. False) client transitions row db = Inr (ts, db')"
    and t: "dict_by tr_download_id transitions (d_id row) = Some t" "tr_from_state t = d_status row"
  shows "ts = [t] \<and> carried_out [(Reconciled row k, db, db')] row t
    \<or> ts = [] \<and> db' = db \<and> (\<forall>r. get_row db (d_id row) = Some r \<longrightarrow> d_status r \<noteq> d_status row)"
proof -
  from dict_by_SomeD[OF t(1)] have id: "tr_download_id t = d_id row" by simp
  from run t id obtain u b where
    cas: "update_status_if_in now (d_id row) (state_str (tr_to_state t)) [d_status row] u db = Inr (b, db')"
    and ts: "ts = (if b then [t] else [])" and u: "su_require_failed_reason u = None" "su_require_no_unimported_scope_outside u = None"
    by (auto simp: phase_a_row_def Let_def map_sum_Inr no_update_def)
  note spec = update_status_if_in_spec[OF inv cas]
  have hit: "cas_where db (d_id row) [d_status row] u r \<longleftrightarrow> d_id r = d_id row \<and> d_status r = d_status row" for r
    using u by (simp add: cas_where_def)
  show ?thesis
  proof (cases b)
    case True
    obtain mt where ds: "db_downloads db' = map (\<lambda>r. if cas_where db (d_id row) [d_status row] u r
        then row_values now (state_str (tr_to_state t)) u mt r else r) (db_downloads db)"
      using spec(4) by blast
    from True spec(2) obtain r where r: "r \<in> set (db_downloads db)" "d_id r = d_id row" "d_status r = d_status row"
      by (auto simp: hit list_ex_iff)
    with get_row_in[OF inv r(1)] have get: "get_row db (d_id row) = Some r" by simp
    have "get_row db' (d_id row) = map_option (\<lambda>r. if cas_where db (d_id row) [d_status row] u r
        then row_values now (state_str (tr_to_state t)) u mt r else r) (get_row db (d_id row))"
      by (rule get_row_map[OF ds]) simp
    then show ?thesis using True ts r get by (auto simp: carried_out_def hit)
  next
    case False
    then show ?thesis using ts spec(2,3)
      by (auto simp: hit list_ex_iff get_row_def find_Some_iff)
  qed
qed

section \<open>The history of the store\<close>

definition keeps_store :: "poll_env \<Rightarrow> bool" where
  "keeps_store env \<longleftrightarrow> (\<forall>t db. repo_inv db \<longrightarrow> repo_inv (pe_others env t db))
     \<and> (\<forall>t row db. repo_inv db \<longrightarrow> repo_inv (snd (pe_reject env t row db)) \<and> repo_inv (snd (pe_validate env t row db)))"

definition history :: "poll_world \<Rightarrow> poll_entry list" where
  "history w = pw_log w @ pw_pending w"

definition world_ok :: "poll_env \<Rightarrow> download_row list \<Rightarrow> download_status list \<Rightarrow> repo_db \<Rightarrow> poll_world \<Rightarrow> bool" where
  "world_ok env rows statuses db w \<longleftrightarrow> repo_inv (pw_db w) \<and> repo_inv (pw_saved w) \<and> chained db (pw_log w) (pw_saved w)
     \<and> chained (pw_saved w) (pw_pending w) (pw_db w) \<and> (\<not> pw_open w \<longrightarrow> pw_pending w = [])
     \<and> list_all (justified env rows statuses) (history w)"

lemma chained_append: "chained db (es @ fs) db' \<longleftrightarrow> (\<exists>m. chained db es m \<and> chained m fs db')"
  by (induction db es db' rule: chained.induct) auto

lemma published_ok: "world_ok env rows statuses db w \<Longrightarrow> world_ok env rows statuses db (published w)"
  by (auto simp: world_ok_def published_def history_def chained_append)

lemma rolled_back_ok: "world_ok env rows statuses db w \<Longrightarrow> world_ok env rows statuses db (rolled_back w)"
  by (auto simp: world_ok_def rolled_back_def history_def)

lemma record_move_ok:
  "world_ok env rows statuses db w \<Longrightarrow> repo_inv db' \<Longrightarrow> justified env rows statuses (m, pw_db w, db')
    \<Longrightarrow> world_ok env rows statuses db (record_move m db' w)"
  by (auto simp: world_ok_def record_move_def history_def chained_append)

lemma turn_ok [simp]: "world_ok env rows statuses db (w\<lparr>pw_turn := n\<rparr>) = world_ok env rows statuses db w"
  by (simp add: world_ok_def history_def)

lemma next_turn_ok: "keeps_store env \<Longrightarrow> world_ok env rows statuses db w \<Longrightarrow> world_ok env rows statuses db (next_turn env w)"
  by (auto simp: next_turn_def keeps_store_def world_ok_def[of _ _ _ _ w] intro!: published_ok record_move_ok)

lemma history_simps [simp]:
  "history (published w) = history w" "history (record_move m d w) = history w @ [(m, pw_db w, d)]"
  "history (w\<lparr>pw_turn := n\<rparr>) = history w"
  by (simp_all add: history_def published_def record_move_def)

lemma next_turn_history: "set (history w) \<subseteq> set (history (next_turn env w))"
  by (auto simp: next_turn_def)

lemma statement_Inr:
  "statement env m f w = (Inr x, w') \<Longrightarrow>
    \<exists>b. f (pw_db (next_turn env w)) = Inr (x, b) \<and> w' = record_move m b (next_turn env w)"
  by (auto simp: statement_def Let_def split: sum.splits)

lemma statement_ok:
  assumes ok: "world_ok env rows statuses db w" and env: "keeps_store env"
    and f: "\<And>a x b. repo_inv a \<Longrightarrow> f a = Inr (x, b) \<Longrightarrow> repo_inv b \<and> justified env rows statuses (m, a, b)"
    and run: "statement env m f w = (res, w')"
  shows "world_ok env rows statuses db w'"
proof -
  let ?v = "next_turn env w"
  have v: "world_ok env rows statuses db ?v" by (rule next_turn_ok[OF env ok])
  then have "repo_inv (pw_db ?v)" by (simp add: world_ok_def)
  with run v f show ?thesis
    by (auto simp: statement_def Let_def intro: rolled_back_ok record_move_ok split: sum.splits)
qed

lemma run_verb_ok:
  assumes ok: "world_ok env rows statuses db w" and verb: "\<And>a. repo_inv a \<Longrightarrow> repo_inv (snd (verb (pw_turn w) row a))"
    and j: "\<And>a. justified env rows statuses (HeldBy row (pw_turn w), a, snd (verb (pw_turn w) row a))"
    and run: "run_verb verb row w = (res, w')"
  shows "world_ok env rows statuses db w'"
proof -
  obtain r d where v: "verb (pw_turn w) row (pw_db w) = (r, d)" by (cases "verb (pw_turn w) row (pw_db w)")
  have "repo_inv (pw_db w)" using ok by (simp add: world_ok_def)
  with verb[of "pw_db w"] j[of "pw_db w"] v
  have "world_ok env rows statuses db (record_move (HeldBy row (pw_turn w)) d w)" by (auto intro: record_move_ok[OF ok])
  from published_ok[OF this] run v show ?thesis by (auto simp: run_verb_def)
qed

definition held_ids :: "poll_env \<Rightarrow> download_status list \<Rightarrow> download_row list \<Rightarrow> (poll_error + int list \<times> 'a) \<Rightarrow> bool" where
  "held_ids env statuses rows res \<longleftrightarrow> (case res of Inl e \<Rightarrow> True | Inr (ids, _) \<Rightarrow>
     (\<forall>row \<in> set rows. held_branch_of statuses row \<in> {Rejecting, Validating} \<longrightarrow> d_id row \<notin> set ids
        \<longrightarrow> (\<exists>t. pe_claimed env t (d_id row)))
     \<and> (\<forall>i \<in> set ids. \<exists>row \<in> set rows. d_id row = i \<and> held_branch_of statuses row \<in> {Rejecting, Validating}))"

lemma held_ids_skip:
  assumes "held_ids env statuses rows res"
    and "held_branch_of statuses row \<in> {Rejecting, Validating} \<Longrightarrow> \<exists>t. pe_claimed env t (d_id row)"
  shows "held_ids env statuses (row # rows) res"
  using assms unfolding held_ids_def by (auto split: sum.splits)

lemma held_ids_hold:
  assumes "held_ids env statuses rows res" and "held_branch_of statuses row \<in> {Rejecting, Validating}"
  shows "held_ids env statuses (row # rows) (map_sum id (\<lambda>(ids, stalls). (d_id row # ids, g stalls)) res)"
  using assms unfolding held_ids_def by (cases res) auto

lemma held_verb_ok:
  assumes env: "keeps_store env" and ok: "world_ok env rows statuses db w" and run: "run_verb verb row w = (res, w')"
    and row: "row \<in> set rows" "\<not> pe_claimed env (pw_turn w) (d_id row)"
    and verb: "held_branch_of statuses row = Rejecting \<and> verb = pe_reject env
      \<or> held_branch_of statuses row = Validating \<and> verb = pe_validate env"
  shows "world_ok env rows statuses db w'"
  by (rule run_verb_ok[OF ok _ _ run]) (use env row verb in \<open>auto simp: keeps_store_def\<close>)

lemma held_release_ok:
  assumes env: "keeps_store env" and ok: "world_ok env rows statuses db w"
    and run: "statement env (Released row (pw_turn w)) (release_payload (pe_now env) row) w = (res, w')"
    and row: "row \<in> set rows" "\<not> pe_claimed env (pw_turn w) (d_id row)" "held_branch_of statuses row = Releasing"
  shows "world_ok env rows statuses db w'"
proof (rule statement_ok[OF ok env _ run])
  have st: "d_status row \<in> set COMPLETED_HELD_VALUES"
    using row(3) by (auto simp: held_branch_of_def Let_def split: if_splits)
  show "repo_inv b \<and> justified env rows statuses (Released row (pw_turn w), a, b)"
    if "repo_inv a" "release_payload (pe_now env) row a = Inr (x, b)" for a x b
    using release_payload_spec[OF that st] row by simp
qed

lemma held_pass_ok:
  assumes env: "keeps_store env"
  shows "world_ok env rows statuses db w \<Longrightarrow> set held_rows \<subseteq> set rows \<Longrightarrow> held_pass env statuses held_rows w = (res, w')
    \<Longrightarrow> world_ok env rows statuses db w' \<and> held_ids env statuses held_rows res"
proof (induction held_rows arbitrary: w res w')
  case Nil
  then show ?case by (auto simp: held_ids_def)
next
  case (Cons row held_rows)
  note ok = Cons.prems(1) and sub = Cons.prems(2) and run = Cons.prems(3)
  show ?case
  proof (cases "pe_claimed env (pw_turn w) (d_id row) \<or> held_branch_of statuses row = NotHeld")
    case True
    with run have "held_pass env statuses held_rows w = (res, w')" by (auto split: if_splits)
    with Cons.IH[OF ok _ this] sub True show ?thesis by (auto intro: held_ids_skip)
  next
    case False
    then have row: "row \<in> set rows" "\<not> pe_claimed env (pw_turn w) (d_id row)" using sub by auto
    note verb = held_verb_ok[OF env ok _ row]
    show ?thesis
    proof (cases "held_branch_of statuses row")
      case Rejecting
      obtain r1 w1 where go: "run_verb (pe_reject env) row w = (r1, w1)" by fastforce
      obtain r2 w2 where rest: "held_pass env statuses held_rows w1 = (r2, w2)" by fastforce
      have w1: "world_ok env rows statuses db w1" by (rule verb[OF go]) (simp add: Rejecting)
      from Cons.IH[OF w1 _ rest] sub have ih: "world_ok env rows statuses db w2" "held_ids env statuses held_rows r2" by simp_all
      from held_ids_hold[OF ih(2), of row "\<lambda>x. x"] Rejecting show ?thesis
        using run False go rest w1 ih(1) by (cases r1) (auto simp: held_ids_def[of _ _ _ "Inl _"])
    next
      case Validating
      obtain r1 w1 where go: "run_verb (pe_validate env) row w = (r1, w1)" by fastforce
      obtain r2 w2 where rest: "held_pass env statuses held_rows w1 = (r2, w2)" by fastforce
      have w1: "world_ok env rows statuses db w1" by (rule verb[OF go]) (simp add: Validating)
      from Cons.IH[OF w1 _ rest] sub have ih: "world_ok env rows statuses db w2" "held_ids env statuses held_rows r2" by simp_all
      from held_ids_hold[OF ih(2), of row "\<lambda>stalls. if stalls_while_held statuses row then row # stalls else stalls"] Validating
      show ?thesis
        using run False go rest w1 ih(1) by (cases r1) (auto simp: held_ids_def[of _ _ _ "Inl _"])
    next
      case Releasing
      obtain r1 w1 where go: "statement env (Released row (pw_turn w)) (release_payload (pe_now env) row) w = (r1, w1)" by fastforce
      note w1 = held_release_ok[OF env ok go row Releasing]
      show ?thesis
      proof (cases r1)
        case (Inr won)
        have "world_ok env rows statuses db (if won then published w1 else rolled_back w1)"
          using w1 by (simp add: published_ok rolled_back_ok)
        from Cons.IH[OF this _ ] sub run False Releasing go Inr show ?thesis by (auto intro: held_ids_skip)
      qed (use run False Releasing go w1 in \<open>auto simp: held_ids_def\<close>)
    qed (use False in simp)
  qed
qed

section \<open>Phase A against the others\<close>

abbreviation poll_verdict :: "poll_env \<Rightarrow> download_status list \<Rightarrow> download_row \<Rightarrow> state_transition option" where
  "poll_verdict env statuses \<equiv> reconcile_row (snapshot statuses) (pe_now env) missing_grace_default"

abbreviation poll_verdicts :: "poll_env \<Rightarrow> download_status list \<Rightarrow> download_row list \<Rightarrow> state_transition list" where
  "poll_verdicts env statuses plain \<equiv> reconcile plain statuses (pe_now env) missing_grace_default"

lemma poll_verdict_by_id:
  assumes "distinct (map d_id plain)" and "row \<in> set plain"
  shows "dict_by tr_download_id (poll_verdicts env statuses plain) (d_id row) = poll_verdict env statuses row"
proof -
  have "q = row" if "q \<in> set plain" "d_id q = d_id row" for q
    using assms that by (auto simp: distinct_map dest: inj_onD)
  then have own: "t \<in> set (poll_verdicts env statuses plain) \<and> tr_download_id t = d_id row \<longleftrightarrow> poll_verdict env statuses row = Some t" for t
    using assms(2) reconcile_row_basic by (fastforce simp: reconcile_def in_map_filter)
  show ?thesis
  proof (cases "dict_by tr_download_id (poll_verdicts env statuses plain) (d_id row)")
    case None
    with own show ?thesis by (cases "poll_verdict env statuses row") (auto simp: dict_by_None_iff)
  next
    case (Some t)
    from dict_by_SomeD[OF this] own Some show ?thesis by simp
  qed
qed

lemma handled_verdict:
  assumes "distinct (map d_id plain)" "row \<in> set plain" "d_id r = d_id row"
    and "handled (\<lambda>_. False) (poll_verdicts env statuses plain) ts r r'"
  shows "verdict_on env statuses row r r'"
proof (cases "d_status r' = d_status r")
  case False
  with assms(4) obtain t where t: "t \<in> set (poll_verdicts env statuses plain)" "tr_download_id t = d_id r"
    "tr_from_state t = d_status r" "d_status r' = state_str (tr_to_state t)" by (auto simp: handled_def)
  from t(1) obtain q where q: "q \<in> set plain" "poll_verdict env statuses q = Some t" by (auto simp: reconcile_def in_map_filter)
  note basic = reconcile_row_basic[OF q(2)]
  have "q = row" using basic t(2) assms(1-3) q(1) by (auto simp: distinct_map dest: inj_onD)
  with q basic t reconcile_row_failure[OF q(2)] show ?thesis by (auto simp: verdict_on_def)
qed (simp add: verdict_on_def)

lemma phase_a_entry:
  assumes plain: "distinct (map d_id plain)" "row \<in> set plain" and inv: "repo_inv a"
    and run: "phase_a_row (pe_now env) (\<lambda>_. False) statuses (poll_verdicts env statuses plain) row a = Inr (ts, b)"
    and row: "row \<in> set rows" "\<not> pe_claimed env k (d_id row)"
      "held_branch_of statuses row \<in> {Rejecting, Validating} \<Longrightarrow> \<exists>t. pe_claimed env t (d_id row)"
  shows "repo_inv b \<and> justified env rows statuses (Reconciled row k, a, b)"
proof -
  note spec = phase_a_row_spec[OF inv run]
  have "rel_option (verdict_on env statuses row) (get_row a (d_id row)) (get_row b (d_id row))"
    using conjunct2[OF conjunct2[OF conjunct2[OF spec]]]
    by (rule option.rel_mono_strong) (auto dest: get_row_id intro: handled_verdict[OF plain])
  with spec row show ?thesis by (auto simp: only_row_def)
qed

lemma carried_out_mono: "carried_out es row t \<Longrightarrow> set es \<subseteq> set fs \<Longrightarrow> carried_out fs row t"
  unfolding carried_out_def by blast

lemma overtaken_mono: "overtaken env es row \<Longrightarrow> set es \<subseteq> set fs \<Longrightarrow> overtaken env fs row"
  unfolding overtaken_def by blast

definition decided :: "poll_env \<Rightarrow> download_status list \<Rightarrow> download_row list \<Rightarrow> state_transition list \<Rightarrow> poll_entry list \<Rightarrow> bool" where
  "decided env statuses rows ts es \<longleftrightarrow>
     (\<forall>t \<in> set ts. \<exists>row \<in> set rows. poll_verdict env statuses row = Some t \<and> carried_out es row t)
     \<and> (\<forall>row \<in> set rows. \<forall>t. poll_verdict env statuses row = Some t \<longrightarrow> t \<in> set ts \<or> overtaken env es row)"

lemma decided_Cons:
  assumes "decided env statuses rows ts es" and "decided env statuses [row] ts1 es1" and "set es1 \<subseteq> set es"
  shows "decided env statuses (row # rows) (ts1 @ ts) es"
  using assms carried_out_mono[OF _ assms(3)] overtaken_mono[OF _ assms(3)] unfolding decided_def by (auto 4 3)

lemma decided_one:
  assumes plain: "distinct (map d_id plain)" "row \<in> set plain" and inv: "repo_inv a"
    and run: "phase_a_row (pe_now env) (\<lambda>_. False) statuses (poll_verdicts env statuses plain) row a = Inr (ts, b)"
    and log: "(Reconciled row k, a, b) \<in> set es"
  shows "decided env statuses [row] ts es"
proof (cases "poll_verdict env statuses row")
  case None
  then have "ts = []"
    using run poll_verdict_by_id[OF plain, where env = env and statuses = statuses] by (auto simp: phase_a_row_def Let_def map_sum_Inr split: option.splits if_splits)
  with None show ?thesis by (simp add: decided_def)
next
  case (Some t)
  then have "dict_by tr_download_id (poll_verdicts env statuses plain) (d_id row) = Some t"
    using poll_verdict_by_id[OF plain, where env = env and statuses = statuses] by simp
  from phase_a_row_decides[OF inv run this] reconcile_row_basic[OF Some]
  have "ts = [t] \<and> carried_out [(Reconciled row k, a, b)] row t \<or> ts = [] \<and> overtaken env es row"
    using log by (auto simp: overtaken_def carried_out_def)
  then show ?thesis using Some log by (auto simp: decided_def intro: carried_out_mono)
qed

lemma phase_a_ok:
  assumes env: "keeps_store env" and plain: "distinct (map d_id plain)" "set plain \<subseteq> set rows"
    and held: "\<And>row. row \<in> set plain \<Longrightarrow> held_branch_of statuses row \<in> {Rejecting, Validating}
      \<Longrightarrow> \<exists>t. pe_claimed env t (d_id row)"
  shows "world_ok env rows statuses db w \<Longrightarrow> set todo \<subseteq> set plain
    \<Longrightarrow> phase_a env statuses (poll_verdicts env statuses plain) todo w = (res, w')
    \<Longrightarrow> world_ok env rows statuses db w'
      \<and> (\<forall>ts. res = Inr ts \<longrightarrow> set (history w) \<subseteq> set (history w') \<and> decided env statuses todo ts (history w'))"
proof (induction todo arbitrary: w res w')
  case Nil
  then show ?case by (auto simp: decided_def)
next
  case (Cons row todo)
  note ok = Cons.prems(1) and run = Cons.prems(3)
  have row: "row \<in> set plain" "set todo \<subseteq> set plain" using Cons.prems(2) by auto
  let ?trs = "poll_verdicts env statuses plain"
  show ?case
  proof (cases "pe_claimed env (pw_turn w) (d_id row) \<or> phase_a_silent statuses ?trs row")
    case True
    with run have "phase_a env statuses ?trs todo w = (res, w')" by simp
    note ih = Cons.IH[OF ok row(2) this]
    have "poll_verdict env statuses row = None \<or> overtaken env es row" for es
      using True poll_verdict_by_id[OF plain(1) row(1), where env = env and statuses = statuses]
      by (auto simp: phase_a_silent_def overtaken_def)
    then have "decided env statuses [row] [] es" for es by (auto simp: decided_def)
    with ih show ?thesis using decided_Cons[of env statuses todo _ "history w'" row "[]" "[]"] by auto
  next
    case False
    let ?m = "Reconciled row (pw_turn w)" and ?f = "phase_a_row (pe_now env) (\<lambda>_. False) statuses ?trs row"
    obtain r1 w1 where go: "statement env ?m ?f w = (r1, w1)" by fastforce
    have w1: "world_ok env rows statuses db w1"
      by (rule statement_ok[OF ok env _ go], rule phase_a_entry[OF plain(1) row(1)])
        (use False plain(2) row(1) held in auto)
    show ?thesis
    proof (cases r1)
      case (Inr ts1)
      obtain r2 where rest: "phase_a env statuses ?trs todo w1 = (r2, w')" "res = map_sum id (\<lambda>ts. ts1 @ ts) r2"
        using run False go Inr by (cases "phase_a env statuses ?trs todo w1") auto
      note ih = Cons.IH[OF w1 row(2) rest(1)]
      from statement_Inr[OF go[unfolded Inr]] obtain b where b: "?f (pw_db (next_turn env w)) = Inr (ts1, b)"
        "w1 = record_move ?m b (next_turn env w)" by blast
      have "repo_inv (pw_db (next_turn env w))" using next_turn_ok[OF env ok] by (simp add: world_ok_def)
      from decided_one[OF plain(1) row(1) this b(1), of "pw_turn w" "history w1"] b(2)
      have one: "decided env statuses [row] ts1 (history w1)" by simp
      have "set (history w) \<subseteq> set (history w1)" using next_turn_history[of w env] b(2) by auto
      with ih one show ?thesis using rest(2) by (cases r2) (auto intro: decided_Cons)
    qed (use run False go w1 in auto)
  qed
qed

section \<open>The cycle is safe\<close>

lemma open_poll_ok: "repo_inv db \<Longrightarrow> world_ok env rows statuses db (open_poll db)"
  by (simp add: world_ok_def open_poll_def history_def)

lemma unheld_rows:
  assumes "held_ids env statuses rows (Inr (ids, stalls))" and "distinct (map d_id rows)" and "row \<in> set rows"
  shows "d_id row \<notin> set ids \<Longrightarrow> held_branch_of statuses row \<in> {Rejecting, Validating} \<Longrightarrow> \<exists>t. pe_claimed env t (d_id row)"
    and "d_id row \<in> set ids \<Longrightarrow> held_branch_of statuses row \<in> {Rejecting, Validating}"
  using assms by (auto simp: held_ids_def distinct_map dest: inj_onD)

lemma cycle_result:
  assumes env: "keeps_store env" and inv: "repo_inv db" and rows: "rows = map fst (list_active db)" "rows \<noteq> []"
    and client: "pe_client env (map d_torrent_hash rows) = Some statuses"
    and run: "reconcile_cycle env (open_poll db) = (res, w)"
  shows "world_ok env rows statuses db w \<and> (\<forall>applied stalls. res = Inr (applied, stalls) \<longrightarrow>
    pw_log w = history w \<and> honest env rows statuses applied (history w))"
proof -
  let ?w1 = "next_turn env (open_poll db)"
  have w1: "world_ok env rows statuses db ?w1" by (rule next_turn_ok[OF env open_poll_ok[OF inv]])
  have distinct: "distinct (map d_id rows)" using polled_rows(1)[OF inv, of "\<lambda>_. True"] rows(1) by simp
  obtain r2 w2 where held: "held_pass env statuses rows ?w1 = (r2, w2)" by fastforce
  note h = held_pass_ok[OF env w1 _ held, simplified]
  have start: "pw_db (open_poll db) = db" by (simp add: open_poll_def)
  show ?thesis
  proof (cases r2)
    case (Inr x)
    obtain ids stalls where x: "x = (ids, stalls)" by (cases x)
    let ?plain = "filter (\<lambda>r. d_id r \<notin> set ids) rows"
    note ids = unheld_rows[OF conjunct2[OF h, unfolded Inr x] distinct]
    obtain r3 w3 where a: "phase_a env statuses (poll_verdicts env statuses ?plain) ?plain w2 = (r3, w3)" by fastforce
    have "world_ok env rows statuses db w3 \<and> (\<forall>ts. r3 = Inr ts \<longrightarrow> set (history w2) \<subseteq> set (history w3)
        \<and> decided env statuses ?plain ts (history w3))"
      by (rule phase_a_ok[OF env _ _ _ conjunct1[OF h] _ a]) (use distinct ids(1) in \<open>auto intro: distinct_map_filter\<close>)
    moreover have "honest env rows statuses ts (history w3)" if "decided env statuses ?plain ts (history w3)" for ts
      using that ids(2) unfolding honest_def decided_def by auto
    ultimately show ?thesis
      using run start rows client held Inr x a
      by (cases r3) (auto simp: reconcile_cycle_def Let_def published_ok, simp_all add: published_def history_def)
  qed (use run start rows client held h in \<open>auto simp: reconcile_cycle_def Let_def\<close>)
qed

text \<open>
  C8: a poll cycle is safe whatever the other sessions commit between its awaits: while the client is asked, around
  the held payloads, and before each write. The history of the committed store is a chain of the others' commits and
  of the cycle's own writes, and each of those is justified: it is for a row of the snapshot that no operator claimed
  when it was checked just before the write; it changes this row alone, by the store's own steps, and its status only
  if the row still stands as the snapshot had it, to what the reconciler computes from the snapshot, where a failure
  needs a torrent reported broken or an absence of the grace period; a held row is left to its own verbs, unless it
  was claimed when its turn for them came. And the cycle reports honestly: a transition it calls applied did move its
  row, and one it was asked for and does not report met a claim or a row that had moved on.
\<close>

theorem reconcile_cycle_safe:
  assumes inv: "repo_inv db" and env: "keeps_store env"
    and client: "pe_client env (map d_torrent_hash (map fst (list_active db))) = Some statuses"
    and run: "reconcile_cycle env (open_poll db) = (res, w)"
  shows "repo_inv (pw_saved w) \<and> chained db (pw_log w) (pw_saved w)
    \<and> list_all (justified env (map fst (list_active db)) statuses) (pw_log w)
    \<and> (case res of Inl e \<Rightarrow> True | Inr (applied, stalls) \<Rightarrow>
         honest env (map fst (list_active db)) statuses applied (pw_log w))"
proof (cases "map fst (list_active db) = []")
  case True
  then have "res = Inr ([], []) \<and> w = open_poll db" using run by (simp add: reconcile_cycle_def open_poll_def)
  with True inv show ?thesis by (simp add: open_poll_def honest_def)
next
  case False
  from cycle_result[OF env inv refl False client run] show ?thesis
    by (auto simp: world_ok_def history_def split: sum.splits prod.splits)
qed

text \<open>
  Three downloads whose torrents are gone. While the client is asked, another session moves the first on to import, the
  third is claimed by an operator while the first row's write is awaited; only the second is moved.
\<close>

definition ex_poll_db :: repo_db where
  "ex_poll_db = snd (projr (create 0 ''cc'' ''downloading'' (ex_grab\<lparr>su_season := Some 4\<rparr>)
     (snd (projr (create 0 ''bb'' ''downloading'' (ex_grab\<lparr>su_season := Some 3\<rparr>) ex_db1)))))"

definition ex_importer :: "repo_db \<Rightarrow> repo_db" where
  "ex_importer db = (case update_status_if_in 5 1 ''import_pending'' [''downloading''] no_update db of Inl e \<Rightarrow> db | Inr (_, db') \<Rightarrow> db')"

definition ex_poll_env :: poll_env where
  "ex_poll_env = \<lparr>pe_now = minutes 1, pe_others = (\<lambda>t db. if t = 0 then ex_importer db else db), pe_claimed = (\<lambda>t i. 2 \<le> t \<and> i = 5),
     pe_client = (\<lambda>_. Some []), pe_reject = (\<lambda>t row db. (Inr (), db)), pe_validate = (\<lambda>t row db. (Inr (), db))\<rparr>"

lemma ex_poll_ok: "repo_inv ex_poll_db" "keeps_store ex_poll_env"
proof -
  have "repo_inv (ex_importer db)" if "repo_inv db" for db
    using update_status_if_in_spec(1)[OF that] that by (auto simp: ex_importer_def split: sum.splits)
  then show "keeps_store ex_poll_env" by (simp add: keeps_store_def ex_poll_env_def)
  show "repo_inv ex_poll_db" by code_simp
qed

lemma ex_poll_result:
  "map_sum id (\<lambda>(ts, _). map tr_download_id ts) (fst (reconcile_cycle ex_poll_env (open_poll ex_poll_db))) = Inr [3]"
  "map d_status (db_downloads (pw_saved (snd (reconcile_cycle ex_poll_env (open_poll ex_poll_db)))))
    = [''import_pending'', ''client_missing'', ''downloading'']"
  by code_simp+

theorem reconcile_cycle_safe_witness:
  "list_all (justified ex_poll_env (map fst (list_active ex_poll_db)) []) (pw_log (snd (reconcile_cycle ex_poll_env (open_poll ex_poll_db))))
   \<and> map d_status (db_downloads (pw_saved (snd (reconcile_cycle ex_poll_env (open_poll ex_poll_db)))))
       = [''import_pending'', ''client_missing'', ''downloading'']"
  using reconcile_cycle_safe[OF ex_poll_ok, of "[]" "fst (reconcile_cycle ex_poll_env (open_poll ex_poll_db))"
      "snd (reconcile_cycle ex_poll_env (open_poll ex_poll_db))"] ex_poll_result(2)
  by (simp add: ex_poll_env_def[THEN arg_cong[where f = pe_client]])

end
