(* ===== verification/OperatorClaims.thy ===== *)
theory OperatorClaims
  imports DownloadRepo
begin

text \<open>
  Ownership of a failing download (\<open>services/queue_service.py\<close>): the in-process claim registry with its
  monotonic tokens, the reference-counted registry of torrent removals in flight, and the durable form
  of a claim, the marker written to \<open>failed_reason\<close>. The synchronous helpers are the operations of one
  state; any interleaving of actors is a sequence of them.
\<close>

section \<open>The registries\<close>

record fail_flags =
  ff_blocklist :: bool
  ff_remove_torrent :: bool

record operator_claim =
  oc_token :: int
  oc_flags :: fail_flags
  oc_removal_in_flight :: bool

record claim_registry =
  cr_claims :: "int \<rightharpoonup> operator_claim"
  cr_removals :: "int \<rightharpoonup> int"
  cr_next_token :: int

datatype claim_error = RemovalInProgressError int | OperatorClaimActiveError int

definition register_operator_claim ::
  "int \<Rightarrow> fail_flags \<Rightarrow> bool \<Rightarrow> claim_registry \<Rightarrow> claim_error + (int \<times> claim_registry)" where
  "register_operator_claim did flags allow_supersede R =
     (if cr_removals R did \<noteq> None then Inl (RemovalInProgressError did)
      else case cr_claims R did of
        Some c \<Rightarrow>
          if oc_removal_in_flight c then Inl (RemovalInProgressError did)
          else if \<not> allow_supersede then Inl (OperatorClaimActiveError did)
          else Inr (cr_next_token R, R\<lparr>cr_claims := (cr_claims R)(did \<mapsto>
                 \<lparr>oc_token = cr_next_token R, oc_flags = flags, oc_removal_in_flight = False\<rparr>),
                 cr_next_token := cr_next_token R + 1\<rparr>)
      | None \<Rightarrow> Inr (cr_next_token R, R\<lparr>cr_claims := (cr_claims R)(did \<mapsto>
                 \<lparr>oc_token = cr_next_token R, oc_flags = flags, oc_removal_in_flight = False\<rparr>),
                 cr_next_token := cr_next_token R + 1\<rparr>))"

definition owns_operator_claim :: "claim_registry \<Rightarrow> int \<Rightarrow> int \<Rightarrow> bool" where
  "owns_operator_claim R did token = (case cr_claims R did of None \<Rightarrow> False | Some c \<Rightarrow> oc_token c = token)"

definition mark_removal_in_flight :: "int \<Rightarrow> int \<Rightarrow> claim_registry \<Rightarrow> claim_registry" where
  "mark_removal_in_flight did token R = (case cr_claims R did of
       Some c \<Rightarrow> if oc_token c = token
         then R\<lparr>cr_claims := (cr_claims R)(did \<mapsto>
                \<lparr>oc_token = token, oc_flags = oc_flags c, oc_removal_in_flight = True\<rparr>)\<rparr> else R
     | None \<Rightarrow> R)"

definition is_operator_claimed :: "claim_registry \<Rightarrow> int \<Rightarrow> bool" where
  "is_operator_claimed R did \<longleftrightarrow> cr_claims R did \<noteq> None"

definition release_operator_claim :: "int \<Rightarrow> int \<Rightarrow> claim_registry \<Rightarrow> claim_registry" where
  "release_operator_claim did token R = (case cr_claims R did of
       Some c \<Rightarrow> if oc_token c = token then R\<lparr>cr_claims := (cr_claims R)(did := None)\<rparr> else R
     | None \<Rightarrow> R)"

definition register_removal_in_flight :: "int \<Rightarrow> claim_registry \<Rightarrow> claim_registry" where
  "register_removal_in_flight did R = R\<lparr>cr_removals := (cr_removals R)(did \<mapsto>
     (case cr_removals R did of None \<Rightarrow> 0 | Some n \<Rightarrow> n) + 1)\<rparr>"

definition release_removal_in_flight :: "int \<Rightarrow> claim_registry \<Rightarrow> claim_registry" where
  "release_removal_in_flight did R = (case cr_removals R did of
       None \<Rightarrow> R
     | Some n \<Rightarrow> if n \<le> 1 then R\<lparr>cr_removals := (cr_removals R)(did := None)\<rparr>
                 else R\<lparr>cr_removals := (cr_removals R)(did \<mapsto> n - 1)\<rparr>)"

definition removal_in_flight :: "claim_registry \<Rightarrow> int \<Rightarrow> bool" where
  "removal_in_flight R did = (if cr_removals R did \<noteq> None then True
     else case cr_claims R did of None \<Rightarrow> False | Some c \<Rightarrow> oc_removal_in_flight c)"

definition empty_registry :: claim_registry where
  "empty_registry = \<lparr>cr_claims = Map.empty, cr_removals = Map.empty, cr_next_token = 1\<rparr>"

section \<open>Interleavings\<close>

text \<open>
  Actors interleave at await points, so a run is any sequence of the helpers. A ghost multiset records
  the removal registrations that have not been released yet; an actor releases only what it registered.
\<close>

inductive claim_step :: "claim_registry \<times> int multiset \<Rightarrow> claim_registry \<times> int multiset \<Rightarrow> bool" where
  register: "register_operator_claim did flags sps R = Inr (token, R') \<Longrightarrow> claim_step (R, M) (R', M)"
| mark: "claim_step (R, M) (mark_removal_in_flight did token R, M)"
| release: "claim_step (R, M) (release_operator_claim did token R, M)"
| begin_removal: "claim_step (R, M) (register_removal_in_flight did R, add_mset did M)"
| end_removal: "did \<in># M \<Longrightarrow> claim_step (R, M) (release_removal_in_flight did R, M - {#did#})"

inductive_cases claim_stepE: "claim_step s s'"

definition claim_init :: "claim_registry \<times> int multiset \<Rightarrow> bool" where
  "claim_init s \<longleftrightarrow> s = (empty_registry, {#})"

text \<open>Tokens in use are below the counter, and a count is the number of outstanding registrations.\<close>

definition claim_inv :: "claim_registry \<times> int multiset \<Rightarrow> bool" where
  "claim_inv s \<longleftrightarrow> (case s of (R, M) \<Rightarrow>
     (\<forall>did c. cr_claims R did = Some c \<longrightarrow> oc_token c < cr_next_token R)
     \<and> (\<forall>did did' c c'. cr_claims R did = Some c \<longrightarrow> cr_claims R did' = Some c' \<longrightarrow>
          oc_token c = oc_token c' \<longrightarrow> did = did')
     \<and> (\<forall>did. cr_removals R did = (if did \<in># M then Some (int (count M did)) else None)))"

lemma register_InrD:
  assumes "register_operator_claim did flags sps R = Inr (token, R')"
  shows "token = cr_next_token R \<and> cr_removals R did = None
    \<and> (\<forall>c. cr_claims R did = Some c \<longrightarrow> sps \<and> \<not> oc_removal_in_flight c)
    \<and> R' = R\<lparr>cr_claims := (cr_claims R)(did \<mapsto>
         \<lparr>oc_token = cr_next_token R, oc_flags = flags, oc_removal_in_flight = False\<rparr>),
         cr_next_token := cr_next_token R + 1\<rparr>"
  using assms by (auto simp: register_operator_claim_def split: if_splits option.splits)

lemma claim_step_inv: "claim_step s s' \<Longrightarrow> claim_inv s \<Longrightarrow> claim_inv s'"
proof (induction rule: claim_step.induct)
  case (register did flags sps R token R' M)
  from register_InrD[OF register(1)] register(2) show ?case by (force simp: claim_inv_def)
next
  case (mark R M did token)
  then show ?case
    by (auto simp: claim_inv_def mark_removal_in_flight_def split: option.splits if_splits)
next
  case (release R M did token)
  then show ?case
    by (auto simp: claim_inv_def release_operator_claim_def split: option.splits if_splits)
next
  case (begin_removal R M did)
  then show ?case by (auto simp: claim_inv_def register_removal_in_flight_def not_in_iff)
next
  case (end_removal did M R)
  then have n: "cr_removals R did = Some (int (count M did))" and pos: "0 < count M did"
    by (auto simp: claim_inv_def)
  have "cr_removals (release_removal_in_flight did R) d =
      (if d \<in># M - {#did#} then Some (int (count (M - {#did#}) d)) else None)" for d
  proof (cases "d = did")
    case True
    have "did \<in># M - {#did#} \<longleftrightarrow> 1 < count M did" by (simp add: in_diff_count)
    with n pos True show ?thesis by (auto simp: release_removal_in_flight_def)
  next
    case False
    then have "cr_removals (release_removal_in_flight did R) d = cr_removals R d"
      by (simp add: release_removal_in_flight_def split: option.splits)
    moreover have "d \<in># M - {#did#} \<longleftrightarrow> d \<in># M" using False by (simp add: in_diff_count)
    ultimately show ?thesis using end_removal False by (simp add: claim_inv_def)
  qed
  moreover have "cr_claims (release_removal_in_flight did R) = cr_claims R"
    "cr_next_token (release_removal_in_flight did R) = cr_next_token R"
    by (simp_all add: release_removal_in_flight_def split: option.splits)
  ultimately show ?case using end_removal by (simp add: claim_inv_def)
qed

interpretation claim_runs: invariant_system claim_init claim_step claim_inv
proof
  fix s assume "claim_init s"
  then show "claim_inv s" by (simp add: claim_init_def claim_inv_def empty_registry_def)
qed (rule claim_step_inv)

text \<open>A removal that is in flight for some actor is visible, and blocks a new claim.\<close>

lemma removal_visible:
  assumes "claim_inv (R, M)" and "did \<in># M"
  shows "removal_in_flight R did
    \<and> register_operator_claim did flags sps R = Inl (RemovalInProgressError did)"
  using assms by (simp add: claim_inv_def removal_in_flight_def register_operator_claim_def)

text \<open>
  C39: a physical removal is guarded until every actor has finished it. In every interleaving, as long as
  some actor that registered a removal of a torrent has not released it, or the owner of the claim has
  started its delete, the removal is reported as in flight and no operator claim can be registered; and
  when no actor is removing and the claim is not in its removal phase, nothing is reported.
\<close>

theorem removal_guard_exact:
  assumes "reachable claim_init claim_step (R, M)"
  shows "(removal_in_flight R did \<longleftrightarrow>
      did \<in># M \<or> (\<exists>c. cr_claims R did = Some c \<and> oc_removal_in_flight c))
    \<and> (removal_in_flight R did \<longleftrightarrow>
        register_operator_claim did flags sps R = Inl (RemovalInProgressError did))"
proof -
  have "claim_inv (R, M)" by (rule claim_runs.reachable_inv[OF assms])
  then have "cr_removals R did \<noteq> None \<longleftrightarrow> did \<in># M" by (simp add: claim_inv_def)
  then show ?thesis
    by (auto simp: removal_in_flight_def register_operator_claim_def split: option.splits)
qed

theorem removal_guard_exact_witness:
  "removal_in_flight (release_removal_in_flight 5 (register_removal_in_flight 5
     (register_removal_in_flight 5 empty_registry))) 5"
proof -
  have "reachable claim_init claim_step (empty_registry, {#})" by (rule reach_init) (simp add: claim_init_def)
  from reach_step[OF reach_step[OF this begin_removal[of _ _ 5]] begin_removal[of _ _ 5]]
  have "reachable claim_init claim_step
      (register_removal_in_flight 5 (register_removal_in_flight 5 empty_registry), {#5, 5#})" by simp
  from reach_step[OF this end_removal[of 5]]
  have "reachable claim_init claim_step
      (release_removal_in_flight 5 (register_removal_in_flight 5 (register_removal_in_flight 5 empty_registry)), {#5#})"
    by simp
  from removal_guard_exact[OF this] show ?thesis by simp
qed

text \<open>The token that owns a download, in the states after a given one.\<close>

lemma owner_step:
  assumes "claim_step (R, M) (R', M')" and "owns_operator_claim R' did token"
  shows "owns_operator_claim R did token \<or> token = cr_next_token R"
  using assms
  by (auto elim!: claim_stepE dest!: register_InrD
      simp: owns_operator_claim_def mark_removal_in_flight_def release_operator_claim_def
        register_removal_in_flight_def release_removal_in_flight_def split: option.splits if_splits)

lemma next_token_step: "claim_step (R, M) (R', M') \<Longrightarrow> cr_next_token R \<le> cr_next_token R'"
  by (auto elim!: claim_stepE dest!: register_InrD
      simp: mark_removal_in_flight_def release_operator_claim_def
        register_removal_in_flight_def release_removal_in_flight_def split: option.splits if_splits)

lemma superseded_forever:
  assumes "claim_step\<^sup>*\<^sup>* (R, M) (R', M')" and "token < cr_next_token R" and "\<not> owns_operator_claim R did token"
  shows "\<not> owns_operator_claim R' did token \<and> token < cr_next_token R'"
  using assms(1)
proof (induction rule: rtranclp_induct2)
  case refl
  with assms(2,3) show ?case by simp
next
  case (step R1 M1 R2 M2)
  then show ?case using owner_step[OF step(2)] next_token_step[OF step(2)] by fastforce
qed

text \<open>
  C31: the newest command owns the row, for good. A successful registration owns the download at once and
  takes it from every earlier token; from then on, in every continuation, the superseded token owns it
  never again, and its late release or removal mark changes nothing.
\<close>

theorem superseded_owner_is_powerless:
  assumes "reachable claim_init claim_step (R, M)" and "owns_operator_claim R did old"
    and "register_operator_claim did flags sps R = Inr (new, R1)"
    and "claim_step\<^sup>*\<^sup>* (R1, M) (R2, M2)"
  shows "owns_operator_claim R1 did new \<and> new \<noteq> old \<and> \<not> owns_operator_claim R2 did old
    \<and> release_operator_claim did old R2 = R2 \<and> mark_removal_in_flight did old R2 = R2"
proof -
  have "claim_inv (R, M)" by (rule claim_runs.reachable_inv[OF assms(1)])
  with assms(2) have old: "old < cr_next_token R"
    by (auto simp: claim_inv_def owns_operator_claim_def split: option.splits)
  note reg = register_InrD[OF assms(3)]
  have "\<not> owns_operator_claim R1 did old" "old < cr_next_token R1" and own: "owns_operator_claim R1 did new"
    using reg old by (auto simp: owns_operator_claim_def)
  with superseded_forever[OF assms(4)] have no: "\<not> owns_operator_claim R2 did old" by blast
  then have "release_operator_claim did old R2 = R2 \<and> mark_removal_in_flight did old R2 = R2"
    by (auto simp: owns_operator_claim_def release_operator_claim_def mark_removal_in_flight_def split: option.splits)
  with no own reg old show ?thesis by simp
qed

theorem superseded_owner_is_powerless_witness:
  "\<exists>R. owns_operator_claim R 5 2 \<and> release_operator_claim 5 1 R = R"
proof -
  let ?f = "\<lparr>ff_blocklist = True, ff_remove_torrent = True\<rparr>"
  define R1 where "R1 = empty_registry\<lparr>cr_claims := (cr_claims empty_registry)(5 \<mapsto>
         \<lparr>oc_token = 1, oc_flags = ?f, oc_removal_in_flight = False\<rparr>), cr_next_token := 2\<rparr>"
  have r1: "register_operator_claim 5 ?f True empty_registry = Inr (1, R1)"
    by (simp add: register_operator_claim_def empty_registry_def R1_def)
  obtain R2 where r2: "register_operator_claim 5 ?f True R1 = Inr (2, R2)"
    by (simp add: register_operator_claim_def empty_registry_def R1_def)
  have "reachable claim_init claim_step (empty_registry, {#})" by (rule reach_init) (simp add: claim_init_def)
  from reach_step[OF this register[OF r1]] have "reachable claim_init claim_step (R1, {#})" .
  from superseded_owner_is_powerless[OF this _ r2, of 1 R2 "{#}"] show ?thesis
    by (auto simp: owns_operator_claim_def R1_def)
qed

section \<open>The durable marker\<close>

text \<open>
  The marker's pattern is deterministic, so it is read from left to right; \<open>$\<close> also matches before one
  final line feed. The nonce is converted by \<open>int\<close> (CPython refuses more than 4300 digits; no counter
  gets there).
\<close>

definition yes_no :: "bool \<Rightarrow> string" where
  "yes_no b = (if b then ''yes'' else ''no'')"

definition operator_fail_marker :: "fail_flags \<Rightarrow> int \<Rightarrow> string" where
  "operator_fail_marker flags nonce =
     ''operator mark-failed in progress '' @ ''(blocklist='' @ yes_no (ff_blocklist flags)
     @ '', remove='' @ yes_no (ff_remove_torrent flags) @ '', nonce='' @ py_str_int nonce @ '')''"

definition operator_fail_marker_removal_done :: "bool \<Rightarrow> int \<Rightarrow> string" where
  "operator_fail_marker_removal_done blocklist nonce =
     ''operator mark-failed in progress '' @ ''(blocklist='' @ yes_no blocklist
     @ '', remove='' @ ''done'' @ '', nonce='' @ py_str_int nonce @ '')''"

definition RECONCILE_DONE_NONCE :: int where
  "RECONCILE_DONE_NONCE = 0"

definition reconcile_removal_done_marker :: "bool \<Rightarrow> string" where
  "reconcile_removal_done_marker blocklist =
     ''reconcile failure in progress '' @ ''(blocklist='' @ yes_no blocklist
     @ '', remove='' @ ''done'' @ '', nonce='' @ py_str_int RECONCILE_DONE_NONCE @ '')''"

record parsed_marker =
  pm_operator :: bool
  pm_flags :: fail_flags
  pm_nonce :: int

definition after_prefix :: "string \<Rightarrow> string \<Rightarrow> string option" where
  "after_prefix p s = (if prefix p s then Some (drop (length p) s) else None)"

fun after_choice :: "(string \<times> 'a) list \<Rightarrow> string \<Rightarrow> ('a \<times> string) option" where
  "after_choice [] s = None"
| "after_choice ((p, v) # ps) s = (case after_prefix p s of Some r \<Rightarrow> Some (v, r) | None \<Rightarrow> after_choice ps s)"

definition marker_nonce :: "string \<Rightarrow> int option" where
  "marker_nonce s = (let digits = takeWhile is_digit s; r = dropWhile is_digit s in
     if digits \<noteq> [] \<and> (r = '')'' \<or> r = '')'' @ [CHR 0x0A]) then Some (int (nat_of_digits digits)) else None)"

definition parse_operator_fail_marker :: "string option \<Rightarrow> parsed_marker option" where
  "parse_operator_fail_marker failed_reason =
     Option.bind failed_reason (\<lambda>s.
     Option.bind (after_choice [(''operator mark-failed'', True), (''reconcile failure'', False)] s) (\<lambda>(op, s).
     Option.bind (after_prefix '' in progress (blocklist='' s) (\<lambda>s.
     Option.bind (after_choice [(''yes'', True), (''no'', False)] s) (\<lambda>(bl, s).
     Option.bind (after_prefix '', remove='' s) (\<lambda>s.
     Option.bind (after_choice [(''yes'', True), (''no'', False), (''done'', False)] s) (\<lambda>(rm, s).
     Option.bind (after_prefix '', nonce='' s) (\<lambda>s.
     map_option (\<lambda>n. \<lparr>pm_operator = op, pm_flags = \<lparr>ff_blocklist = bl, ff_remove_torrent = rm\<rparr>, pm_nonce = n\<rparr>)
       (marker_nonce s))))))))"

lemma after_prefix_append [simp]: "after_prefix p (p @ s) = Some s"
  by (simp add: after_prefix_def)

lemma py_str_int_nat: "0 \<le> n \<Longrightarrow> py_str_int n = nat_str (nat n)"
  by (simp add: py_str_int_def)

lemma marker_nonce_render: "0 \<le> n \<Longrightarrow> marker_nonce (py_str_int n @ '')'') = Some n"
proof -
  assume n: "0 \<le> n"
  have d: "list_all is_digit (nat_str (nat n))" by (rule nat_str_digits)
  have p: "\<not> is_digit (CHR '')'')" by code_simp
  have "takeWhile is_digit (nat_str (nat n) @ '')'') = nat_str (nat n)"
    "dropWhile is_digit (nat_str (nat n) @ '')'') = '')''"
    using d p by (simp_all add: list_all_iff takeWhile_append2 dropWhile_append2)
  with n show ?thesis by (simp add: py_str_int_nat marker_nonce_def Let_def)
qed

text \<open>Reading the fixed parts of a rendered marker, the nonce left symbolic.\<close>

lemma read_head:
  "after_choice [(''operator mark-failed'', True), (''reconcile failure'', False)]
     (''operator mark-failed in progress '' @ ''(blocklist='' @ s) = Some (True, '' in progress (blocklist='' @ s)"
  "after_choice [(''operator mark-failed'', True), (''reconcile failure'', False)]
     (''reconcile failure in progress '' @ ''(blocklist='' @ s) = Some (False, '' in progress (blocklist='' @ s)"
  by (simp_all add: after_prefix_def)

lemma read_flags:
  "after_choice [(''yes'', True), (''no'', False)] (yes_no b @ s) = Some (b, s)"
  "after_choice [(''yes'', True), (''no'', False), (''done'', False)] (yes_no b @ s) = Some (b, s)"
  "after_choice [(''yes'', True), (''no'', False), (''done'', False)] (''done'' @ s) = Some (False, s)"
  by (simp_all add: after_prefix_def yes_no_def)

text \<open>
  The marker is a faithful durable record. What a command writes into \<open>failed_reason\<close> reads back as
  its own flags and nonce; the form stamped after a successful removal reads back with no removal owed;
  and the reconciler's own form reads back as not operator-owned, with the nonce no operator has.
\<close>

theorem operator_marker_roundtrip:
  assumes "0 \<le> nonce"
  shows "parse_operator_fail_marker (Some (operator_fail_marker flags nonce))
      = Some \<lparr>pm_operator = True, pm_flags = flags, pm_nonce = nonce\<rparr>
    \<and> parse_operator_fail_marker (Some (operator_fail_marker_removal_done b nonce))
      = Some \<lparr>pm_operator = True, pm_flags = \<lparr>ff_blocklist = b, ff_remove_torrent = False\<rparr>, pm_nonce = nonce\<rparr>
    \<and> parse_operator_fail_marker (Some (reconcile_removal_done_marker b))
      = Some \<lparr>pm_operator = False, pm_flags = \<lparr>ff_blocklist = b, ff_remove_torrent = False\<rparr>, pm_nonce = 0\<rparr>"
  unfolding parse_operator_fail_marker_def operator_fail_marker_def operator_fail_marker_removal_done_def
    reconcile_removal_done_marker_def bind.bind_lunit read_head prod.case after_prefix_append read_flags
    RECONCILE_DONE_NONCE_def marker_nonce_render[OF assms] marker_nonce_render[OF order_refl]
  by simp

theorem operator_marker_roundtrip_witness:
  "parse_operator_fail_marker (Some (operator_fail_marker \<lparr>ff_blocklist = True, ff_remove_torrent = False\<rparr> 17))
     = Some \<lparr>pm_operator = True, pm_flags = \<lparr>ff_blocklist = True, ff_remove_torrent = False\<rparr>, pm_nonce = 17\<rparr>"
  using operator_marker_roundtrip[of 17 "\<lparr>ff_blocklist = True, ff_remove_torrent = False\<rparr>" True] by simp

lemma operator_marker_inj:
  assumes "0 \<le> m" "0 \<le> n" and "operator_fail_marker f m = operator_fail_marker g n"
  shows "m = n \<and> f = g"
proof -
  have parse: "0 \<le> k \<Longrightarrow> parse_operator_fail_marker (Some (operator_fail_marker h k))
      = Some \<lparr>pm_operator = True, pm_flags = h, pm_nonce = k\<rparr>" for h k
    unfolding parse_operator_fail_marker_def operator_fail_marker_def bind.bind_lunit read_head prod.case
      after_prefix_append read_flags by (simp add: marker_nonce_render)
  have "Some \<lparr>pm_operator = True, pm_flags = f, pm_nonce = m\<rparr> = Some \<lparr>pm_operator = True, pm_flags = g, pm_nonce = n\<rparr>"
    unfolding parse[OF assms(1), symmetric] parse[OF assms(2), symmetric] assms(3) ..
  then show ?thesis by simp
qed

text \<open>
  C40: a stale command cannot write. A compare-and-swap that requires the marker of one command does
  nothing to a row that has since been stamped by a command with another token: it reports that it lost
  and the database is unchanged, whatever it meant to write.
\<close>

theorem stale_marker_loses:
  assumes "reachable repo_init repo_step db" and "r \<in> set (db_downloads db)" and "d_id r = did"
    and "d_failed_reason r = Some (operator_fail_marker g newer)" and "0 \<le> older" and "older < newer"
    and "su_require_failed_reason u = Some (Some (operator_fail_marker f older))"
    and "update_status_if_in now did st allowed u db = Inr (b, db')"
  shows "\<not> b \<and> db' = db"
proof -
  have inv: "repo_inv db" by (rule download_store.reachable_inv[OF assms(1)])
  have "\<not> cas_where db did allowed u q" if "q \<in> set (db_downloads db)" for q
  proof
    assume hit: "cas_where db did allowed u q"
    then have "d_id q = d_id r" using assms(3) by (simp add: cas_where_def)
    with that assms(2) inv have "q = r" by (auto simp: repo_inv_def db_unique_def distinct_map dest: inj_onD)
    with hit assms(4,7) have "operator_fail_marker g newer = operator_fail_marker f older"
      by (simp add: cas_where_def)
    with operator_marker_inj[of newer older g f] assms(5,6) show False by simp
  qed
  with update_status_if_in_spec(2,3)[OF inv assms(8)] show ?thesis by (auto simp: list_ex_iff)
qed

definition ex_marker :: "int \<Rightarrow> string" where
  "ex_marker n = operator_fail_marker \<lparr>ff_blocklist = True, ff_remove_torrent = True\<rparr> n"

definition ex_db3 :: repo_db where
  "ex_db3 = snd (projr (update_status_if_in 5 1 ''failed_pending'' [''downloading'']
     (no_update\<lparr>su_failed_reason := Some (ex_marker 2)\<rparr>) ex_db2))"

definition ex_stale :: status_update where
  "ex_stale = no_update\<lparr>su_require_failed_reason := Some (Some (ex_marker 1))\<rparr>"

theorem stale_marker_loses_witness:
  "update_status_if_in 6 1 ''failed'' [''failed_pending''] ex_stale ex_db3 = Inr (False, ex_db3)"
proof -
  let ?u = "no_update\<lparr>su_failed_reason := Some (ex_marker 2)\<rparr>"
  have "\<not> isl (update_status_if_in 5 1 ''failed_pending'' [''downloading''] ?u ex_db2)" by code_simp
  then have "update_status_if_in 5 1 ''failed_pending'' [''downloading''] ?u ex_db2
      = Inr (fst (projr (update_status_if_in 5 1 ''failed_pending'' [''downloading''] ?u ex_db2)), ex_db3)"
    unfolding ex_db3_def by (metis prod.collapse sum.collapse(2))
  from reach_step[OF ex_db2_reachable step_cas[OF this]] have reach: "reachable repo_init repo_step ex_db3" .
  have "map (\<lambda>r. (d_id r, d_failed_reason r)) (db_downloads ex_db3) = [(1, Some (ex_marker 2))]" by code_simp
  then obtain r where r: "r \<in> set (db_downloads ex_db3)" "d_id r = 1" "d_failed_reason r = Some (ex_marker 2)" by auto
  have "\<not> isl (update_status_if_in 6 1 ''failed'' [''failed_pending''] ex_stale ex_db3)" by code_simp
  then obtain b db' where res: "update_status_if_in 6 1 ''failed'' [''failed_pending''] ex_stale ex_db3 = Inr (b, db')"
    by (metis sum.collapse(2) surj_pair)
  from stale_marker_loses[OF reach r(1,2) r(3)[unfolded ex_marker_def] _ _ _ res,
      of 1 "\<lparr>ff_blocklist = True, ff_remove_torrent = True\<rparr>"] res
  show ?thesis by (simp add: ex_stale_def ex_marker_def)
qed

end
