(* ===== verification/Eviction.thy ===== *)
theory Eviction
  imports Complex_Main Prelude
begin

text \<open>
  Disk-pressure eviction (\<open>domain/eviction.py\<close>, \<open>domain/disk_usage.py\<close>). Floats are finite IEEE doubles,
  read as rationals; every arithmetic result passes through the rounding function \<open>rnd\<close>, a parameter.
  What is proved of the selection holds for every \<open>rnd\<close>; the percentage bounds use that rounding is
  monotone and keeps 0, 1 and 100, which IEEE rounding does.
\<close>

section \<open>Usage\<close>

record disk_usage =
  du_root :: string
  total_bytes :: int
  available_bytes :: int

definition used_percent :: "(rat \<Rightarrow> rat) \<Rightarrow> disk_usage \<Rightarrow> rat" where
  "used_percent rnd usage =
     (if total_bytes usage \<le> 0 then 0
      else rnd (rnd (of_int (total_bytes usage - available_bytes usage) / of_int (total_bytes usage)) * 100))"

section \<open>Candidates\<close>

datatype candidate_media = MovieCandidate | TvCandidate

record eviction_candidate =
  ev_request_id :: int
  ev_media_type :: candidate_media
  ev_title :: string
  ev_season :: "int option"
  ev_status :: string
  ev_watched :: bool
  ev_last_viewed_at :: "datetime option"
  ev_keep_forever :: bool
  ev_in_flight :: bool
  ev_library_path :: "string option"
  ev_size_percent :: "rat option"
  ev_watchlisted :: bool

definition ELIGIBLE_STATUSES :: "string list" where
  "ELIGIBLE_STATUSES = [''available'', ''partially_available'']"

definition is_eligible :: "eviction_candidate \<Rightarrow> datetime \<Rightarrow> datetime \<Rightarrow> bool" where
  "is_eligible c last_viewed grace_cutoff \<longleftrightarrow>
     ev_status c \<in> set ELIGIBLE_STATUSES \<and> ev_watched c \<and> last_viewed < grace_cutoff
     \<and> \<not> ev_keep_forever c \<and> \<not> ev_watchlisted c \<and> \<not> ev_in_flight c"

definition is_evictable :: "eviction_candidate \<Rightarrow> datetime \<Rightarrow> bool" where
  "is_evictable c grace_cutoff = (case ev_last_viewed_at c of
       None \<Rightarrow> False | Some t \<Rightarrow> is_eligible c t grace_cutoff)"

definition dated_candidates :: "eviction_candidate list \<Rightarrow> datetime \<Rightarrow> (datetime \<times> eviction_candidate) list" where
  "dated_candidates cs grace_cutoff = List.map_filter (\<lambda>c. case ev_last_viewed_at c of
       None \<Rightarrow> None
     | Some t \<Rightarrow> if is_eligible c t grace_cutoff then Some (t, c) else None) cs"

definition rank_eviction_candidates :: "eviction_candidate list \<Rightarrow> datetime \<Rightarrow> eviction_candidate list" where
  "rank_eviction_candidates cs grace_cutoff =
     map snd (sort_by (\<lambda>p q. fst p \<le> fst q) (dated_candidates cs grace_cutoff))"

fun pick_until :: "(rat \<Rightarrow> rat) \<Rightarrow> rat \<Rightarrow> rat \<Rightarrow> eviction_candidate list \<Rightarrow> eviction_candidate list" where
  "pick_until rnd target projected [] = []"
| "pick_until rnd target projected (c # cs) =
     (if projected \<le> target then []
      else c # pick_until rnd target
             (rnd (projected - (case ev_size_percent c of None \<Rightarrow> 0 | Some s \<Rightarrow> s))) cs)"

definition select_evictions ::
  "(rat \<Rightarrow> rat) \<Rightarrow> eviction_candidate list \<Rightarrow> rat \<Rightarrow> rat \<Rightarrow> rat \<Rightarrow> datetime \<Rightarrow> eviction_candidate list" where
  "select_evictions rnd cs used_pct threshold_pct target_pct grace_cutoff =
     (if used_pct < threshold_pct then []
      else pick_until rnd target_pct used_pct (rank_eviction_candidates cs grace_cutoff))"

definition pressure_relieved :: "(rat \<Rightarrow> rat) \<Rightarrow> rat \<Rightarrow> int \<Rightarrow> int \<Rightarrow> rat \<Rightarrow> bool" where
  "pressure_relieved rnd used_pct freed tot target_pct \<longleftrightarrow>
     (if tot \<le> 0 then True
      else rnd (used_pct - rnd (rnd (of_int freed / of_int tot) * 100)) \<le> target_pct)"

section \<open>Ranking\<close>

lemma in_dated: "(t, c) \<in> set (dated_candidates cs cutoff) \<longleftrightarrow>
    c \<in> set cs \<and> ev_last_viewed_at c = Some t \<and> is_evictable c cutoff"
  by (force simp: dated_candidates_def List.map_filter_def is_evictable_def split: option.splits if_splits)

lemma dated_snd: "map snd (dated_candidates cs cutoff) = filter (\<lambda>c. is_evictable c cutoff) cs"
  by (induction cs) (auto simp: dated_candidates_def List.map_filter_def is_evictable_def split: option.splits)

lemma mset_rank: "mset (rank_eviction_candidates cs cutoff) = filter_mset (\<lambda>c. is_evictable c cutoff) (mset cs)"
proof -
  have "mset (rank_eviction_candidates cs cutoff) = mset (map snd (dated_candidates cs cutoff))"
    by (simp add: rank_eviction_candidates_def)
  then show ?thesis by (simp add: dated_snd mset_filter)
qed

lemma in_rank: "c \<in> set (rank_eviction_candidates cs cutoff) \<longleftrightarrow> c \<in> set cs \<and> is_evictable c cutoff"
proof -
  have "c \<in># mset (rank_eviction_candidates cs cutoff) \<longleftrightarrow> c \<in> set cs \<and> is_evictable c cutoff"
    unfolding mset_rank by simp
  then show ?thesis by simp
qed

lemma rank_sorted:
  "sorted_wrt (\<lambda>a b. \<exists>s t. ev_last_viewed_at a = Some s \<and> ev_last_viewed_at b = Some t \<and> s \<le> t)
     (rank_eviction_candidates cs cutoff)"
proof -
  let ?d = "dated_candidates cs cutoff"
  have s: "sorted_wrt (\<lambda>p q. fst p \<le> fst q) (sort_by (\<lambda>p q. fst p \<le> fst q) ?d)"
    by (rule sort_by_sorted) auto
  have "\<forall>p \<in> set ?d. ev_last_viewed_at (snd p) = Some (fst p)" using in_dated by auto
  then show ?thesis
    unfolding rank_eviction_candidates_def sorted_wrt_map
    using sorted_wrt_mono_rel[OF _ s] by (auto simp del: sorted_wrt_map)
qed

text \<open>Equal view times keep their input order.\<close>

lemma rank_stable:
  "filter (\<lambda>c. ev_last_viewed_at c = Some t) (rank_eviction_candidates cs cutoff) =
     filter (\<lambda>c. ev_last_viewed_at c = Some t \<and> is_evictable c cutoff) cs"
proof -
  let ?d = "dated_candidates cs cutoff"
  have key: "\<forall>p \<in> set ds. ev_last_viewed_at (snd p) = Some (fst p) \<Longrightarrow>
      filter (\<lambda>c. ev_last_viewed_at c = Some t) (map snd ds) = map snd (filter (\<lambda>p. fst p = t) ds)" for ds
    by (induction ds) auto
  have ok: "\<forall>p \<in> set ?d. ev_last_viewed_at (snd p) = Some (fst p)" using in_dated by auto
  have "filter (\<lambda>p. fst p = t) (sort_by (\<lambda>p q. fst p \<le> fst q) ?d) = filter (\<lambda>p. fst p = t) ?d"
    by (rule sort_by_stable) simp
  then have "filter (\<lambda>c. ev_last_viewed_at c = Some t) (rank_eviction_candidates cs cutoff) =
      filter (\<lambda>c. ev_last_viewed_at c = Some t) (map snd ?d)"
    unfolding rank_eviction_candidates_def using key[of ?d] ok key[of "sort_by (\<lambda>p q. fst p \<le> fst q) ?d"] by simp
  then show ?thesis by (simp add: dated_snd conj_commute)
qed

section \<open>The stop at the target\<close>

definition projection :: "(rat \<Rightarrow> rat) \<Rightarrow> rat \<Rightarrow> eviction_candidate list \<Rightarrow> rat" where
  "projection rnd used cs = foldl (\<lambda>p c. rnd (p - (case ev_size_percent c of None \<Rightarrow> 0 | Some s \<Rightarrow> s))) used cs"

lemma pick_until_spec:
  "prefix (pick_until rnd target used cs) cs
   \<and> (projection rnd used (pick_until rnd target used cs) \<le> target \<or> pick_until rnd target used cs = cs)
   \<and> (\<forall>n < length (pick_until rnd target used cs). target < projection rnd used (take n cs))"
proof (induction cs arbitrary: used)
  case (Cons c cs)
  show ?case
  proof (cases "used \<le> target")
    case False
    let ?u = "rnd (used - (case ev_size_percent c of None \<Rightarrow> 0 | Some s \<Rightarrow> s))"
    from Cons.IH[of ?u] have "n < Suc (length (pick_until rnd target ?u cs)) \<Longrightarrow>
        target < projection rnd used (take n (c # cs))" for n
      using False by (cases n) (auto simp: projection_def)
    with False Cons.IH[of ?u] show ?thesis by (simp add: projection_def)
  qed (simp add: projection_def)
qed (simp add: projection_def)

text \<open>
  The pressure sweep never touches protected content. Whatever the numbers, everything it selects
  is one of the candidates, fully imported, watched, last viewed before the grace cutoff, and neither
  pinned nor watchlisted nor in flight; and below the pressure threshold it selects nothing.
\<close>

theorem eviction_spares_protected:
  assumes "c \<in> set (select_evictions rnd cs used threshold target cutoff)"
  shows "c \<in> set cs \<and> threshold \<le> used \<and> ev_status c \<in> {''available'', ''partially_available''}
    \<and> ev_watched c \<and> (\<exists>t. ev_last_viewed_at c = Some t \<and> t < cutoff)
    \<and> \<not> ev_keep_forever c \<and> \<not> ev_watchlisted c \<and> \<not> ev_in_flight c"
proof -
  from assms have th: "\<not> used < threshold"
    and "c \<in> set (pick_until rnd target used (rank_eviction_candidates cs cutoff))"
    by (auto simp: select_evictions_def split: if_splits)
  moreover have "prefix (pick_until rnd target used (rank_eviction_candidates cs cutoff)) (rank_eviction_candidates cs cutoff)"
    using pick_until_spec by blast
  ultimately have "c \<in> set (rank_eviction_candidates cs cutoff)" by (meson set_mono_prefix subsetD)
  with th show ?thesis
    by (auto simp: in_rank is_evictable_def is_eligible_def ELIGIBLE_STATUSES_def split: option.splits)
qed

definition ex_evictable :: "int \<Rightarrow> datetime \<Rightarrow> rat \<Rightarrow> eviction_candidate" where
  "ex_evictable i seen sz = \<lparr>ev_request_id = i, ev_media_type = MovieCandidate, ev_title = ''m'', ev_season = None,
     ev_status = ''available'', ev_watched = True, ev_last_viewed_at = Some seen, ev_keep_forever = False,
     ev_in_flight = False, ev_library_path = None, ev_size_percent = Some sz, ev_watchlisted = False\<rparr>"

definition ex_pool :: "eviction_candidate list" where
  "ex_pool = [ex_evictable 1 30 5, ex_evictable 2 10 5, (ex_evictable 3 5 50)\<lparr>ev_keep_forever := True\<rparr>,
     ex_evictable 4 20 5]"

lemma ex_selection: "select_evictions id ex_pool 95 90 87 100 = [ex_evictable 2 10 5, ex_evictable 4 20 5]"
  by (simp add: select_evictions_def rank_eviction_candidates_def dated_candidates_def List.map_filter_def ex_pool_def
      ex_evictable_def is_eligible_def ELIGIBLE_STATUSES_def)

theorem eviction_spares_protected_witness:
  "\<not> ev_keep_forever (ex_evictable 2 10 5) \<and> ex_evictable 2 10 5 \<in> set ex_pool"
  using eviction_spares_protected[of "ex_evictable 2 10 5" id ex_pool 95 90 87 100] by (simp add: ex_selection)

text \<open>
  The sweep takes as little as it must, stalest first. Its selection is a prefix of the ranked
  candidates, so a candidate it could have taken but did not was viewed no earlier than any it took;
  before every single pick the projected usage was still above the target; and afterwards the projection
  is at or under the target, or nothing evictable is left.
\<close>

theorem eviction_minimal_stalest_first:
  assumes "threshold \<le> used" and "S = select_evictions rnd cs used threshold target cutoff"
  shows "prefix S (rank_eviction_candidates cs cutoff)
    \<and> mset (rank_eviction_candidates cs cutoff) = filter_mset (\<lambda>c. is_evictable c cutoff) (mset cs)
    \<and> (\<forall>i < length S. target < projection rnd used (take i S))
    \<and> (projection rnd used S \<le> target \<or> S = rank_eviction_candidates cs cutoff)
    \<and> (\<forall>a \<in> set S. \<forall>b. b \<in> set (drop (length S) (rank_eviction_candidates cs cutoff)) \<longrightarrow>
         (\<exists>s t. ev_last_viewed_at a = Some s \<and> ev_last_viewed_at b = Some t \<and> s \<le> t))"
proof -
  let ?r = "rank_eviction_candidates cs cutoff"
  have S: "S = pick_until rnd target used ?r" using assms by (simp add: select_evictions_def)
  note spec = pick_until_spec[of rnd target used ?r, folded S]
  then obtain rest where r: "?r = S @ rest" by (auto simp: prefix_def)
  then have "take i ?r = take i S" if "i < length S" for i using that by simp
  with spec have "\<forall>i < length S. target < projection rnd used (take i S)" by metis
  moreover have "\<forall>a \<in> set S. \<forall>b \<in> set rest.
      \<exists>s t. ev_last_viewed_at a = Some s \<and> ev_last_viewed_at b = Some t \<and> s \<le> t"
    using rank_sorted[of cs cutoff] unfolding r sorted_wrt_append by blast
  moreover have "drop (length S) ?r = rest" unfolding r by simp
  ultimately show ?thesis using spec mset_rank by simp
qed

theorem eviction_minimal_stalest_first_witness:
  "projection id 95 [ex_evictable 2 10 5, ex_evictable 4 20 5] \<le> 87
   \<or> [ex_evictable 2 10 5, ex_evictable 4 20 5] = rank_eviction_candidates ex_pool 100"
  using eviction_minimal_stalest_first[OF _ ex_selection[symmetric]] by simp

section \<open>Percentages\<close>

text \<open>
  Usage and relief are consistent numbers. With a rounding that is monotone and exact on 0, 1 and
  100, a root whose free space is within its size reads between 0 and 100 percent, and once freed bytes
  relieve the pressure, freeing more still does.
\<close>

theorem usage_and_relief_monotone:
  assumes "mono rnd" and "rnd 0 = 0" and "rnd 1 = 1" and "rnd 100 = 100"
    and "0 \<le> available_bytes u" and "available_bytes u \<le> total_bytes u"
    and "freed \<le> freed'" and "pressure_relieved rnd used freed tot target"
  shows "0 \<le> used_percent rnd u \<and> used_percent rnd u \<le> 100 \<and> pressure_relieved rnd used freed' tot target"
proof -
  note mono = monoD[OF assms(1)]
  have bounds: "0 \<le> rnd (rnd x * 100) \<and> rnd (rnd x * 100) \<le> 100" if "0 \<le> x" "x \<le> 1" for x :: rat
    using mono[OF that(1)] mono[OF that(2)] assms(2-4) mono[of 0 "rnd x * 100"] mono[of "rnd x * 100" 100] by simp
  have "0 \<le> used_percent rnd u \<and> used_percent rnd u \<le> 100"
  proof (cases "total_bytes u \<le> 0")
    case False
    then have "0 \<le> (of_int (total_bytes u - available_bytes u) / of_int (total_bytes u) :: rat)"
      "(of_int (total_bytes u - available_bytes u) / of_int (total_bytes u) :: rat) \<le> 1"
      using assms(5,6) by (simp_all add: divide_le_eq_1)
    from bounds[OF this] False show ?thesis by (simp add: used_percent_def)
  qed (simp add: used_percent_def)
  moreover have "pressure_relieved rnd used freed' tot target"
  proof (cases "tot \<le> 0")
    case False
    then have "(of_int freed / of_int tot :: rat) \<le> of_int freed' / of_int tot"
      using assms(7) by (simp add: divide_right_mono)
    then have "rnd (of_int freed / of_int tot) * 100 \<le> rnd (of_int freed' / of_int tot) * 100"
      using mono by simp
    then have "rnd (used - rnd (rnd (of_int freed' / of_int tot) * 100))
        \<le> rnd (used - rnd (rnd (of_int freed / of_int tot) * 100))"
      using mono by (meson diff_left_mono)
    with False assms(8) show ?thesis by (simp add: pressure_relieved_def)
  qed (simp add: pressure_relieved_def)
  ultimately show ?thesis by blast
qed

theorem usage_and_relief_monotone_witness:
  "used_percent id \<lparr>du_root = ''/'', total_bytes = 10, available_bytes = 3\<rparr> \<le> 100
   \<and> pressure_relieved id 95 3 10 87"
  using usage_and_relief_monotone[of id "\<lparr>du_root = ''/'', total_bytes = 10, available_bytes = 3\<rparr>" 1 3 95 10 87]
  by (simp add: mono_def pressure_relieved_def)

end
