(* ===== verification/SeasonRollup.thy ===== *)
theory SeasonRollup
  imports Prelude "HOL-Library.List_Lexorder" "HOL-Library.Char_ord"
begin

text \<open>
  The status of a TV request as a fold over its seasons (\<open>domain/season_rollup.py\<close>) and the arithmetic
  of a complete season (\<open>domain/season_completeness.py\<close>). The two \<open>ValueError\<close>s are values; the second
  carries the sorted offending statuses as the message does. A \<open>date\<close> is its day number.
\<close>

section \<open>Rollup\<close>

definition PRECEDENCE_STATUSES :: "string list" where
  "PRECEDENCE_STATUSES =
     [''import_blocked'', ''downloading'', ''searching'', ''no_acceptable_release'', ''completed'']"

definition VALID_SEASON_STATUSES :: "string list" where
  "VALID_SEASON_STATUSES =
     [''pending'', ''searching'', ''no_acceptable_release'', ''waiting_for_air_date'', ''downloading'',
      ''completed'', ''available'', ''failed'', ''import_blocked'', ''evicted'', ''cancelled'']"

datatype rollup_error = NoSeasonStatus | UnknownSeasonStatus "string list"

definition rollup_tail :: "string set \<Rightarrow> string" where
  "rollup_tail S =
     (if S = {''evicted''} then ''evicted''
      else if S = {''cancelled''} then ''cancelled''
      else if S = {''waiting_for_air_date''} then ''waiting_for_air_date''
      else if S \<subseteq> {''available'', ''evicted'', ''cancelled''} \<and> ''available'' \<in> S then
        (if S = {''available''} then ''available'' else ''partially_available'')
      else if ''available'' \<in> S then ''partially_available''
      else if ''pending'' \<in> S then ''pending''
      else if ''waiting_for_air_date'' \<in> S then ''waiting_for_air_date''
      else ''failed'')"

definition rollup_status :: "string list \<Rightarrow> rollup_error + string" where
  "rollup_status season_statuses =
     (if season_statuses = [] then Inl NoSeasonStatus
      else
        let unknown = filter (\<lambda>s. s \<notin> set VALID_SEASON_STATUSES) season_statuses in
        if unknown \<noteq> [] then Inl (UnknownSeasonStatus (sorted_set unknown))
        else case find (\<lambda>s. s \<in> set season_statuses) PRECEDENCE_STATUSES of
          Some s \<Rightarrow> Inr s
        | None \<Rightarrow> Inr (rollup_tail (set season_statuses)))"

lemma rollup_Inr_iff: "(\<exists>r. rollup_status ss = Inr r) \<longleftrightarrow> ss \<noteq> [] \<and> set ss \<subseteq> set VALID_SEASON_STATUSES"
  by (auto simp: rollup_status_def Let_def filter_empty_conv split: option.splits)

lemma rollup_cases:
  assumes "rollup_status ss = Inr r"
  obtains (active) "r \<in> set PRECEDENCE_STATUSES" "find (\<lambda>s. s \<in> set ss) PRECEDENCE_STATUSES = Some r" "r \<in> set ss"
    | (dormant) "\<forall>s \<in> set PRECEDENCE_STATUSES. s \<notin> set ss" "r = rollup_tail (set ss)"
  using assms
  by (auto simp: rollup_status_def Let_def find_None_iff find_Some_iff split: if_splits option.splits)

lemma rollup_tail_range:
  "rollup_tail S \<in> {''evicted'', ''cancelled'', ''waiting_for_air_date'', ''available'', ''partially_available'',
     ''pending'', ''failed''}"
  by (simp add: rollup_tail_def)

lemma rollup_tail_facts:
  assumes "S \<noteq> {}"
  shows "rollup_tail S = ''available'' \<longleftrightarrow> S = {''available''}"
    and "rollup_tail S = ''partially_available'' \<longleftrightarrow> ''available'' \<in> S \<and> S \<noteq> {''available''}"
    and "rollup_tail S = ''pending'' \<longleftrightarrow> ''available'' \<notin> S \<and> ''pending'' \<in> S"
    and "rollup_tail S = ''evicted'' \<longleftrightarrow> S = {''evicted''}"
    and "rollup_tail S = ''cancelled'' \<longleftrightarrow> S = {''cancelled''}"
    and "rollup_tail S = ''waiting_for_air_date'' \<longleftrightarrow>
      ''available'' \<notin> S \<and> ''pending'' \<notin> S \<and> ''waiting_for_air_date'' \<in> S"
  using assms by (auto simp: rollup_tail_def)

text \<open>
  The show's status is an honest summary of its seasons, whatever their order and number. The fold
  fails exactly on no season or on a value no season can have. A season that needs attention or is in
  progress is never hidden: the result is then the most urgent such status. The show reads available
  only if every season is, partially available only if some season is and not all, and failed only if
  nothing is active, available, pending or waiting and the seasons are not all evicted or all cancelled.
\<close>

theorem rollup_honest:
  "((\<exists>r. rollup_status ss = Inr r) \<longleftrightarrow> ss \<noteq> [] \<and> set ss \<subseteq> set VALID_SEASON_STATUSES)
   \<and> (\<forall>r. rollup_status ss = Inr r \<longrightarrow>
       (if \<exists>s \<in> set ss. s \<in> set PRECEDENCE_STATUSES
        then (\<exists>i < length PRECEDENCE_STATUSES. r = PRECEDENCE_STATUSES ! i \<and> r \<in> set ss
               \<and> (\<forall>j < i. PRECEDENCE_STATUSES ! j \<notin> set ss))
        else (r = ''available'' \<longleftrightarrow> set ss = {''available''})
          \<and> (r = ''partially_available'' \<longleftrightarrow> ''available'' \<in> set ss \<and> set ss \<noteq> {''available''})
          \<and> (r = ''evicted'' \<longleftrightarrow> set ss = {''evicted''}) \<and> (r = ''cancelled'' \<longleftrightarrow> set ss = {''cancelled''})
          \<and> (r = ''pending'' \<longleftrightarrow> ''available'' \<notin> set ss \<and> ''pending'' \<in> set ss)
          \<and> (r = ''failed'' \<longleftrightarrow> ''available'' \<notin> set ss \<and> ''pending'' \<notin> set ss \<and> ''waiting_for_air_date'' \<notin> set ss
               \<and> set ss \<noteq> {''evicted''} \<and> set ss \<noteq> {''cancelled''})))"
proof (intro conjI allI impI)
  fix r assume r: "rollup_status ss = Inr r"
  then have ne: "set ss \<noteq> {}" using rollup_Inr_iff by fastforce
  from r show "if \<exists>s \<in> set ss. s \<in> set PRECEDENCE_STATUSES
        then (\<exists>i < length PRECEDENCE_STATUSES. r = PRECEDENCE_STATUSES ! i \<and> r \<in> set ss
               \<and> (\<forall>j < i. PRECEDENCE_STATUSES ! j \<notin> set ss))
        else (r = ''available'' \<longleftrightarrow> set ss = {''available''})
          \<and> (r = ''partially_available'' \<longleftrightarrow> ''available'' \<in> set ss \<and> set ss \<noteq> {''available''})
          \<and> (r = ''evicted'' \<longleftrightarrow> set ss = {''evicted''}) \<and> (r = ''cancelled'' \<longleftrightarrow> set ss = {''cancelled''})
          \<and> (r = ''pending'' \<longleftrightarrow> ''available'' \<notin> set ss \<and> ''pending'' \<in> set ss)
          \<and> (r = ''failed'' \<longleftrightarrow> ''available'' \<notin> set ss \<and> ''pending'' \<notin> set ss \<and> ''waiting_for_air_date'' \<notin> set ss
               \<and> set ss \<noteq> {''evicted''} \<and> set ss \<noteq> {''cancelled''})"
  proof (cases rule: rollup_cases)
    case active
    then show ?thesis by (auto simp: find_Some_iff)
  next
    case dormant
    then have no: "\<not> (\<exists>s \<in> set ss. s \<in> set PRECEDENCE_STATUSES)" by blast
    note facts = rollup_tail_facts[OF ne]
    have "rollup_tail (set ss) = ''failed'' \<longleftrightarrow> ''available'' \<notin> set ss \<and> ''pending'' \<notin> set ss
        \<and> ''waiting_for_air_date'' \<notin> set ss \<and> set ss \<noteq> {''evicted''} \<and> set ss \<noteq> {''cancelled''}"
      using facts rollup_tail_range[of "set ss"] by (auto simp: rollup_tail_def)
    with no facts dormant(2) show ?thesis by simp
  qed
qed (rule rollup_Inr_iff)

theorem rollup_honest_witness:
  "rollup_status [''available'', ''pending'', ''evicted''] = Inr ''partially_available''"
proof -
  have "\<exists>r. rollup_status [''available'', ''pending'', ''evicted''] = Inr r"
    using rollup_honest[of "[''available'', ''pending'', ''evicted'']"] by (auto simp: VALID_SEASON_STATUSES_def)
  then obtain r where r: "rollup_status [''available'', ''pending'', ''evicted''] = Inr r" ..
  with rollup_honest[of "[''available'', ''pending'', ''evicted'']"] have "r = ''partially_available''"
    by (auto simp: PRECEDENCE_STATUSES_def)
  with r show ?thesis by simp
qed

section \<open>Completeness\<close>

type_synonym date = int

definition aired_target :: "(int \<times> date option) list \<Rightarrow> date \<Rightarrow> int set" where
  "aired_target episodes today = set (List.map_filter (\<lambda>(e, d). case d of
       None \<Rightarrow> None | Some a \<Rightarrow> if a \<le> today then Some e else None) episodes)"

definition compute_missing :: "int set \<Rightarrow> int set \<Rightarrow> int set \<Rightarrow> int set" where
  "compute_missing target imported downloading = target - imported - downloading"

definition season_is_complete :: "int set \<Rightarrow> int set \<Rightarrow> bool" where
  "season_is_complete target imported \<longleftrightarrow> target \<noteq> {} \<and> target \<subseteq> imported"

lemma in_aired_target:
  "e \<in> aired_target episodes today \<longleftrightarrow> (\<exists>a. (e, Some a) \<in> set episodes \<and> a \<le> today)"
  by (force simp: aired_target_def List.map_filter_def split: option.splits if_splits)

text \<open>
  A season is complete exactly when something has aired and nothing aired is missing. Only episodes
  with a known air date that has come are counted; time only adds to the target; importing what is
  reported missing, once nothing is in flight, completes the season.
\<close>

theorem season_completeness:
  "(season_is_complete (aired_target eps today) imported \<longleftrightarrow>
      aired_target eps today \<noteq> {} \<and> compute_missing (aired_target eps today) imported {} = {})
   \<and> aired_target eps today \<subseteq> aired_target eps (today + int later)
   \<and> (aired_target eps today \<noteq> {} \<longrightarrow>
       season_is_complete (aired_target eps today) (imported \<union> compute_missing (aired_target eps today) imported {}))
   \<and> compute_missing (aired_target eps today) imported downloading \<inter> (imported \<union> downloading) = {}"
  by (auto simp: season_is_complete_def compute_missing_def in_aired_target) (meson add_increasing2 of_nat_0_le_iff order_trans)+

theorem season_completeness_witness:
  "season_is_complete (aired_target [(1, Some 5), (2, None)] 6) {1}"
  using season_completeness[of "[(1, Some 5), (2, None)]" 6 "{}" 0 "{}"]
  by (simp add: compute_missing_def aired_target_def List.map_filter_def)

end
