(* ===== verification/PlexVideo.thy ===== *)
theory PlexVideo
  imports Complex_Main PyStr
begin

text \<open>
  The video-container policy (\<open>domain/plex_video.py\<close>) and the torrent-manifest policy
  (\<open>domain/payload_validation.py\<close>), with the part of \<open>PurePosixPath\<close> (Python 3.12) they use: the
  components of a path and the suffix of a name. \<open>IndexErr\<close> is the \<open>IndexError\<close> of \<open>parts[-1]\<close> on a
  name without components.
\<close>

section \<open>Pure POSIX paths\<close>

fun split_on :: "char \<Rightarrow> string \<Rightarrow> string list" where
  "split_on sep [] = [[]]"
| "split_on sep (c # s) =
     (if c = sep then [] # split_on sep s
      else case split_on sep s of [] \<Rightarrow> [[c]] | w # ws \<Rightarrow> (c # w) # ws)"

definition path_tail :: "string \<Rightarrow> string list" where
  "path_tail s = filter (\<lambda>w. w \<noteq> [] \<and> w \<noteq> ''.'') (split_on (CHR ''/'') s)"

definition path_root :: "string \<Rightarrow> string list" where
  "path_root s = (let n = length (takeWhile (\<lambda>c. c = CHR ''/'') s)
     in if n = 0 then [] else if n = 2 then [''//''] else [''/''])"

definition path_parts :: "string \<Rightarrow> string list" where
  "path_parts s = path_root s @ path_tail s"

text \<open>The part of a name from its last dot, when that dot is neither its first nor its last character.\<close>

definition name_suffix :: "string \<Rightarrow> string" where
  "name_suffix w = (let r = takeWhile (\<lambda>c. c \<noteq> CHR ''.'') (rev w); n = length r
     in if 0 < n \<and> n + 1 < length w then CHR ''.'' # rev r else [])"

definition path_suffix :: "string \<Rightarrow> string" where
  "path_suffix s = (let t = path_tail s in if t = [] then [] else name_suffix (last t))"

definition backslash :: char where
  "backslash = CHR 0x5C"

definition forward_slashes :: "string \<Rightarrow> string" where
  "forward_slashes s = map (\<lambda>c. if c = backslash then CHR ''/'' else c) s"

section \<open>Video policy\<close>

definition MATROSKA_FORMATS :: "string list" where "MATROSKA_FORMATS = [''matroska'', ''webm'']"
definition MOV_FORMATS :: "string list" where
  "MOV_FORMATS = [''mov'', ''mp4'', ''m4a'', ''3gp'', ''3g2'', ''mj2'']"
definition AVI_FORMATS :: "string list" where "AVI_FORMATS = [''avi'']"
definition ASF_FORMATS :: "string list" where "ASF_FORMATS = [''asf'']"
definition MPEG_PS_FORMATS :: "string list" where "MPEG_PS_FORMATS = [''mpeg'']"
definition MPEG_TS_FORMATS :: "string list" where "MPEG_TS_FORMATS = [''mpegts'']"
definition FLV_FORMATS :: "string list" where "FLV_FORMATS = [''flv'']"
definition OGG_FORMATS :: "string list" where "OGG_FORMATS = [''ogg'']"

definition DISC_STRUCTURE_DIR_NAMES :: "string list" where
  "DISC_STRUCTURE_DIR_NAMES = [''bdmv'', ''video_ts'']"

definition PLEX_EXTRAS_DIR_NAMES :: "string list" where
  "PLEX_EXTRAS_DIR_NAMES = [''featurettes'', ''extras'', ''trailers'', ''behind the scenes'', ''deleted scenes'']"

definition PLEX_VIDEO_TABLE :: "(string \<times> string list) list" where
  "PLEX_VIDEO_TABLE =
     [(''.mkv'', MATROSKA_FORMATS), (''.mp4'', MOV_FORMATS), (''.m4v'', MOV_FORMATS), (''.avi'', AVI_FORMATS),
      (''.mov'', MOV_FORMATS), (''.divx'', AVI_FORMATS), (''.wmv'', ASF_FORMATS), (''.mpg'', MPEG_PS_FORMATS),
      (''.mpeg'', MPEG_PS_FORMATS), (''.ts'', MPEG_TS_FORMATS), (''.m2ts'', MPEG_TS_FORMATS),
      (''.mts'', MPEG_TS_FORMATS), (''.webm'', MATROSKA_FORMATS), (''.flv'', FLV_FORMATS), (''.ogv'', OGG_FORMATS)]"

definition PLEX_VIDEO_FORMATS :: "string \<rightharpoonup> string list" where
  "PLEX_VIDEO_FORMATS = map_of PLEX_VIDEO_TABLE"

definition is_plex_disc_structure_path :: "string \<Rightarrow> bool" where
  "is_plex_disc_structure_path path \<longleftrightarrow>
     list_ex (\<lambda>p. casefold p \<in> set DISC_STRUCTURE_DIR_NAMES) (path_parts (forward_slashes path))"

definition plex_video_extension :: "string \<Rightarrow> string option" where
  "plex_video_extension path =
     (if is_plex_disc_structure_path path then None
      else let suffix = casefold (path_suffix (forward_slashes path))
           in if PLEX_VIDEO_FORMATS suffix \<noteq> None then Some suffix else None)"

definition expected_probe_formats :: "string \<Rightarrow> string list" where
  "expected_probe_formats path = (case plex_video_extension path of
       None \<Rightarrow> []
     | Some e \<Rightarrow> (case PLEX_VIDEO_FORMATS e of None \<Rightarrow> [] | Some fs \<Rightarrow> fs))"

section \<open>Manifest policy\<close>

definition DANGEROUS_EXTENSIONS :: "string list" where
  "DANGEROUS_EXTENSIONS =
     [''.exe'', ''.bat'', ''.sh'', ''.py'', ''.dll'', ''.msi'', ''.app'', ''.deb'', ''.rpm'', ''.jar'', ''.cmd'',
      ''.ps1'', ''.vbs'', ''.scr'', ''.com'', ''.pif'', ''.apk'', ''.dmg'', ''.run'', ''.bin'', ''.lnk'', ''.js'']"

definition HELD_METADATA_STATES :: "string list" where
  "HELD_METADATA_STATES = [''metaDL'', ''forcedMetaDL'']"

definition is_unstarted_held_torrent :: "string \<Rightarrow> rat \<Rightarrow> bool \<Rightarrow> bool" where
  "is_unstarted_held_torrent raw progress has_manifest =
     (if raw \<in> set HELD_METADATA_STATES then True
      else raw \<in> {''stoppedDL'', ''pausedDL''} \<and> progress = 0 \<and> has_manifest)"

record payload_inspection =
  video_indices :: "nat list"
  pi_reason :: "string option"

datatype payload_error = IndexErr

definition sample_in :: "string \<Rightarrow> bool" where
  "sample_in part = py_in ''sample'' (casefold part)"

definition is_feature_candidate :: "string \<Rightarrow> payload_error + bool" where
  "is_feature_candidate name =
     (let parts = path_parts (forward_slashes name) in
      if parts = [] then Inl IndexErr
      else let folders = butlast (tl parts) in
        if sample_in (last parts)
           \<or> list_ex (\<lambda>p. sample_in p \<or> casefold p \<in> set PLEX_EXTRAS_DIR_NAMES) folders
        then Inr False else Inr (plex_video_extension name \<noteq> None))"

definition is_dangerous :: "string \<Rightarrow> bool" where
  "is_dangerous name = list_ex (\<lambda>p. casefold (path_suffix p) \<in> set DANGEROUS_EXTENSIONS)
     (path_parts (forward_slashes name))"

fun feature_indices :: "nat \<Rightarrow> string list \<Rightarrow> payload_error + nat list" where
  "feature_indices i [] = Inr []"
| "feature_indices i (name # names) = (case is_feature_candidate name of
       Inl e \<Rightarrow> Inl e
     | Inr ok \<Rightarrow> map_sum id (\<lambda>js. if ok then i # js else js) (feature_indices (i + 1) names))"

definition inspect_payload :: "string list \<Rightarrow> payload_error + payload_inspection" where
  "inspect_payload names =
     (case find is_dangerous names of
        Some name \<Rightarrow> Inr \<lparr>video_indices = [], pi_reason = Some (''release payload contains executable: '' @ name)\<rparr>
      | None \<Rightarrow>
          (case feature_indices 0 names of
             Inl e \<Rightarrow> Inl e
           | Inr [] \<Rightarrow> Inr \<lparr>video_indices = [], pi_reason = Some ''release payload contains no Plex-supported video file''\<rparr>
           | Inr videos \<Rightarrow> Inr \<lparr>video_indices = videos, pi_reason = None\<rparr>))"

section \<open>Lemmas\<close>

lemma forward_slashes_idem [simp]: "forward_slashes (forward_slashes s) = forward_slashes s"
  by (simp add: forward_slashes_def backslash_def)

text \<open>Either separator is read the same way.\<close>

lemma separators_agree:
  "plex_video_extension (forward_slashes s) = plex_video_extension s"
  "is_dangerous (forward_slashes s) = is_dangerous s"
  by (simp_all add: plex_video_extension_def is_plex_disc_structure_path_def is_dangerous_def)

lemma PLEX_VIDEO_FORMATS_Some: "PLEX_VIDEO_FORMATS e = Some fs \<Longrightarrow> fs \<noteq> []"
proof -
  assume "PLEX_VIDEO_FORMATS e = Some fs"
  then have "(e, fs) \<in> set PLEX_VIDEO_TABLE" by (simp add: PLEX_VIDEO_FORMATS_def map_of_SomeD)
  moreover have "list_all (\<lambda>(e, fs). fs \<noteq> []) PLEX_VIDEO_TABLE" by code_simp
  ultimately show ?thesis by (auto simp: list_all_iff)
qed

lemma expected_probe_formats_iff: "expected_probe_formats path \<noteq> [] \<longleftrightarrow> plex_video_extension path \<noteq> None"
  using PLEX_VIDEO_FORMATS_Some
  by (auto simp: expected_probe_formats_def plex_video_extension_def Let_def split: option.splits if_splits)

text \<open>No video suffix is a dangerous one, so the two policies do not contradict each other.\<close>

lemma video_not_dangerous: "PLEX_VIDEO_FORMATS e \<noteq> None \<Longrightarrow> e \<notin> set DANGEROUS_EXTENSIONS"
proof
  assume "PLEX_VIDEO_FORMATS e \<noteq> None" "e \<in> set DANGEROUS_EXTENSIONS"
  moreover have "list_all (\<lambda>e. PLEX_VIDEO_FORMATS e = None) DANGEROUS_EXTENSIONS" by code_simp
  ultimately show False by (auto simp: list_all_iff)
qed

lemma in_feature_indices:
  "feature_indices i names = Inr js \<Longrightarrow>
     j \<in> set js \<longleftrightarrow> (\<exists>k < length names. j = i + k \<and> is_feature_candidate (names ! k) = Inr True)"
proof (induction i names arbitrary: js rule: feature_indices.induct)
  case (2 i name names)
  then obtain ok js' where ok: "is_feature_candidate name = Inr ok" and
    rec: "feature_indices (i + 1) names = Inr js'" and js: "js = (if ok then i # js' else js')"
    by (cases "is_feature_candidate name"; cases "feature_indices (i + 1) names") auto
  have "(\<exists>k < length (name # names). j = i + k \<and> is_feature_candidate ((name # names) ! k) = Inr True) \<longleftrightarrow>
      (j = i \<and> ok) \<or> (\<exists>k < length names. j = i + 1 + k \<and> is_feature_candidate (names ! k) = Inr True)"
    using ok by (auto simp: less_Suc_eq_0_disj)
  with 2(1)[OF ok rec] show ?case by (auto simp: js)
qed simp

lemma is_feature_candidate_True:
  "is_feature_candidate name = Inr True \<longleftrightarrow>
     path_parts (forward_slashes name) \<noteq> [] \<and> plex_video_extension name \<noteq> None
     \<and> \<not> sample_in (last (path_parts (forward_slashes name)))
     \<and> (\<forall>p \<in> set (butlast (tl (path_parts (forward_slashes name)))).
          \<not> sample_in p \<and> casefold p \<notin> set PLEX_EXTRAS_DIR_NAMES)"
  by (auto simp: is_feature_candidate_def Let_def list_ex_iff)

text \<open>
  A manifest passes only if it is clean and has a feature. When \<open>inspect_payload\<close> gives no reason,
  no component of any file's path carries an executable suffix; the reported indices are exactly the
  files that can be the feature (a supported video outside disc structures, and neither named a sample
  nor in a sample or extras folder); and there is at least one.
\<close>

theorem payload_accepted_is_clean:
  assumes "inspect_payload names = Inr p" and "pi_reason p = None"
  shows "(\<forall>name \<in> set names. \<forall>part \<in> set (path_parts (forward_slashes name)).
        casefold (path_suffix part) \<notin> set DANGEROUS_EXTENSIONS)
    \<and> video_indices p \<noteq> []
    \<and> (\<forall>j. j \<in> set (video_indices p) \<longleftrightarrow> j < length names
         \<and> plex_video_extension (names ! j) \<noteq> None \<and> path_parts (forward_slashes (names ! j)) \<noteq> []
         \<and> \<not> sample_in (last (path_parts (forward_slashes (names ! j))))
         \<and> (\<forall>q \<in> set (butlast (tl (path_parts (forward_slashes (names ! j))))).
              \<not> sample_in q \<and> casefold q \<notin> set PLEX_EXTRAS_DIR_NAMES))"
proof -
  from assms have nd: "find is_dangerous names = None"
    by (auto simp: inspect_payload_def split: option.splits)
  with assms obtain v vs where f: "feature_indices 0 names = Inr (v # vs)" and p: "video_indices p = v # vs"
    by (auto simp: inspect_payload_def split: sum.splits list.splits)
  from nd have "\<forall>name \<in> set names. \<not> is_dangerous name" by (auto simp: find_None_iff)
  then have "\<forall>name \<in> set names. \<forall>part \<in> set (path_parts (forward_slashes name)).
        casefold (path_suffix part) \<notin> set DANGEROUS_EXTENSIONS"
    by (simp add: is_dangerous_def list_ex_iff)
  moreover have "j \<in> set (video_indices p) \<longleftrightarrow> j < length names \<and> is_feature_candidate (names ! j) = Inr True" for j
    using in_feature_indices[OF f, of j] by (auto simp: p)
  ultimately show ?thesis using p by (simp add: is_feature_candidate_True) blast
qed

definition ex_manifest :: "string list" where
  "ex_manifest = [''Movie/readme.txt'', ''Movie/movie.MKV'', ''Movie/Sample/sample.mkv'']"

theorem payload_accepted_is_clean_witness:
  "inspect_payload ex_manifest = Inr \<lparr>video_indices = [1], pi_reason = None\<rparr>
   \<and> plex_video_extension (ex_manifest ! 1) \<noteq> None"
proof -
  have "find is_dangerous ex_manifest = None" "feature_indices 0 ex_manifest = Inr [1]" by code_simp+
  then have p: "inspect_payload ex_manifest = Inr \<lparr>video_indices = [1], pi_reason = None\<rparr>"
    by (simp add: inspect_payload_def)
  from payload_accepted_is_clean[OF p]
  have "1 \<in> set (video_indices \<lparr>video_indices = [1], pi_reason = None\<rparr>) \<longrightarrow>
      plex_video_extension (ex_manifest ! 1) \<noteq> None" unfolding payload_inspection.select_convs by blast
  with p show ?thesis by simp
qed

end
