(* ===== verification/ImportValidation.thy ===== *)
theory ImportValidation
  imports Regex SourceMapping MediaMatch SeasonPack PlexVideo
begin

text \<open>
  The import gate (\<open>domain/import_validation.py\<close>): the marker patterns for samples, disks and parts,
  \<open>validate_import\<close> for a movie and \<open>validate_season_import\<close> for a season. The parser is a parameter.
\<close>

section \<open>Markers\<close>

definition marker_start :: rx where
  "marker_start = RAlt RBol RSep"

definition SAMPLE_EXTRAS :: rx where
  "SAMPLE_EXTRAS = rseq [marker_start,
     ralts [rlits ''sample'', rlits ''trailer'', rseq [rlits ''extra'', ROpt (RLit CHR ''s'')], rlits ''featurette'',
       rseq [rlits ''behind'', ROpt RSep, rlits ''the'', ROpt RSep, rlits ''scenes''],
       rseq [rlits ''deleted'', ROpt RSep, rlits ''scene''], rlits ''proof'', rlits ''rarbg.com''],
     RLook (RAlt REol RSep)]"

definition path_sep :: rx where
  "path_sep = RAlt RSep (RCls [CHR ''/'', backslash])"

definition DISK_MARKER :: rx where
  "DISK_MARKER = rseq [RAlt RBol path_sep, ralts [rlits ''cd'', rlits ''dvd'', rlits ''disc'', rlits ''disk''],
     ROpt RSep, RDigit, ROpt RDigit, RAlt REol path_sep]"

definition PART_MARKER :: rx where
  "PART_MARKER = rseq [RAlt RBol path_sep, ralts [rlits ''part'', rlits ''pt''],
     ROpt RSep, RCap (RSeq RDigit (ROpt RDigit)), RAlt REol path_sep]"

definition SAMPLE_FLOOR_BYTES :: int where
  "SAMPLE_FLOOR_BYTES = 50 * 1024 * 1024"

datatype import_rejection_reason =
  IR_WRONG_MEDIA | IR_QUALITY_NOT_WANTED | IR_SAMPLE | IR_NO_VIDEO_FILE | IR_MULTI_PART | IR_NO_EPISODE_NUMBER

record video_file =
  relative_path :: string
  vf_size_bytes :: int

record import_rejection =
  ir_reason :: import_rejection_reason
  ir_detail :: string

record import_validation =
  iv_accepted :: bool
  iv_video :: "video_file option"
  iv_parsed :: "parsed_release option"
  iv_rejections :: "import_rejection list"

record episode_import_result =
  er_video :: video_file
  er_parsed :: parsed_release
  er_episodes :: "int list"

record episode_import_rejection =
  ej_relative_path :: string
  ej_reason :: import_rejection_reason
  ej_detail :: string

record season_import_validation =
  sv_accepted :: "episode_import_result list"
  sv_rejected :: "episode_import_rejection list"
  sv_skipped :: "episode_import_result list"

definition basename :: "string \<Rightarrow> string" where
  "basename path = last (split_on (CHR ''/'') (forward_slashes path))"

definition is_video :: "string \<Rightarrow> bool" where
  "is_video path \<longleftrightarrow> plex_video_extension path \<noteq> None"

definition marker_key :: "string \<Rightarrow> string" where
  "marker_key m = py_strip (collapse_runs is_sep False (py_lower m))"

definition marker_keys :: "string \<Rightarrow> string list" where
  "marker_keys s = map (\<lambda>m. marker_key (fst m)) (rx_finditer SAMPLE_EXTRAS s)"

definition looks_like_sample_name :: "string \<Rightarrow> string \<Rightarrow> bool" where
  "looks_like_sample_name name expected_title =
     (let title_markers = marker_keys expected_title; name_markers = marker_keys name
      in list_ex (\<lambda>k. count_list title_markers k < count_list name_markers k) name_markers)"

definition part_numbers :: "string \<Rightarrow> nat list" where
  "part_numbers s = map (\<lambda>m. nat_of_digits (snd m)) (rx_finditer PART_MARKER s)"

definition is_multi_part :: "string \<Rightarrow> string \<Rightarrow> bool" where
  "is_multi_part path expected_title =
     (if rx_search DISK_MARKER path then True
      else list_ex (\<lambda>n. n \<notin> set (part_numbers expected_title)) (part_numbers path))"

section \<open>Messages\<close>

definition opt_int_str :: "int option \<Rightarrow> string" where
  "opt_int_str v = (case v of None \<Rightarrow> ''None'' | Some n \<Rightarrow> py_str_int n)"

fun comma_list :: "string list \<Rightarrow> string" where
  "comma_list [] = []"
| "comma_list [x] = x"
| "comma_list (x # y # ys) = x @ '', '' @ comma_list (y # ys)"

fun num_repr :: "num_field \<Rightarrow> string" where
  "num_repr NoNum = ''None''"
| "num_repr (OneNum n) = py_str_int n"
| "num_repr (ManyNum ns) = ''['' @ comma_list (map py_str_int ns) @ '']''"

definition movie_wrong_media :: "string \<Rightarrow> parsed_release \<Rightarrow> string \<Rightarrow> int option \<Rightarrow> string" where
  "movie_wrong_media name p title year = ''file '' @ py_repr name @ '' parsed as '' @ py_repr (pr_clean_title p)
     @ '' (year='' @ opt_int_str (pr_year p) @ ''); expected '' @ py_repr title @ '' (year='' @ opt_int_str year @ '')''"

definition season_wrong_media :: "string \<Rightarrow> parsed_release \<Rightarrow> string \<Rightarrow> int \<Rightarrow> string" where
  "season_wrong_media name p title ssn = ''file '' @ py_repr name @ '' parsed as '' @ py_repr (pr_clean_title p)
     @ '' (season='' @ num_repr (pr_season p) @ ''); expected '' @ py_repr title @ '' season '' @ py_str_int ssn"

definition pack_wrong_media :: "string \<Rightarrow> parsed_release \<Rightarrow> num_field \<Rightarrow> int \<Rightarrow> string" where
  "pack_wrong_media name p own ssn = ''file '' @ py_repr name @ '' sits in a multi-season pack (parsed seasons ''
     @ num_repr (pr_season p) @ ''); its own season '' @ num_repr own
     @ '' does not unambiguously match requested season '' @ py_str_int ssn"

definition quality_message :: "string \<Rightarrow> quality \<Rightarrow> string" where
  "quality_message name q = ''file '' @ py_repr name @ '' resolved to quality '' @ py_repr (q_name q)
     @ '', which the profile does not allow''"

definition sample_message :: "string \<Rightarrow> int \<Rightarrow> string" where
  "sample_message name sz = ''file '' @ py_repr name @ '' is '' @ py_str_int sz @ '' bytes, below the ''
     @ py_str_int SAMPLE_FLOOR_BYTES @ ''-byte sample floor (unknown size counts as sample)''"

definition multi_part_message :: "string \<Rightarrow> string" where
  "multi_part_message path = ''path '' @ py_repr path @ '' carries a multi-part / split-disk marker''"

section \<open>Movies\<close>

definition feature_candidates :: "video_file list \<Rightarrow> string \<Rightarrow> video_file list" where
  "feature_candidates files expected_title = filter (\<lambda>v. is_video (relative_path v)
     \<and> \<not> looks_like_sample_name (basename (relative_path v)) expected_title) files"

definition resolved_of :: "parsed_release \<Rightarrow> quality" where
  "resolved_of p = resolve_quality (pr_source p) (pr_resolution p) (pr_modifier p)"

definition movie_rejections ::
  "video_file \<Rightarrow> parsed_release \<Rightarrow> quality_profile \<Rightarrow> string \<Rightarrow> int option \<Rightarrow> int \<Rightarrow> import_rejection list" where
  "movie_rejections chosen p profile title year tmdb =
     (let name = basename (relative_path chosen) in
      (if \<not> matches_media p title year 0 tmdb None
       then [\<lparr>ir_reason = IR_WRONG_MEDIA, ir_detail = movie_wrong_media name p title year\<rparr>] else [])
      @ (if \<not> verdict_accepted (check_quality (resolved_of p) profile)
         then [\<lparr>ir_reason = IR_QUALITY_NOT_WANTED, ir_detail = quality_message name (resolved_of p)\<rparr>] else [])
      @ (if vf_size_bytes chosen < SAMPLE_FLOOR_BYTES
         then [\<lparr>ir_reason = IR_SAMPLE, ir_detail = sample_message name (vf_size_bytes chosen)\<rparr>] else [])
      @ (if is_multi_part (relative_path chosen) title
         then [\<lparr>ir_reason = IR_MULTI_PART, ir_detail = multi_part_message (relative_path chosen)\<rparr>] else []))"

definition validate_import ::
  "video_file list \<Rightarrow> (string \<Rightarrow> parsed_release) \<Rightarrow> quality_profile \<Rightarrow> string \<Rightarrow> int option \<Rightarrow> int \<Rightarrow> import_validation" where
  "validate_import files parser profile title year tmdb =
     (case feature_candidates files title of
        [] \<Rightarrow> \<lparr>iv_accepted = False, iv_video = None, iv_parsed = None,
               iv_rejections = [\<lparr>ir_reason = IR_NO_VIDEO_FILE,
                 ir_detail = ''no importable video file in completed download (''
                   @ py_str_int (int (length files)) @ '' file(s) inspected)''\<rparr>]\<rparr>
      | v # vs \<Rightarrow>
          let chosen = py_max_key vf_size_bytes v vs;
              p = parser (forward_slashes (relative_path chosen));
              rejections = movie_rejections chosen p profile title year tmdb
          in \<lparr>iv_accepted = (rejections = []), iv_video = Some chosen, iv_parsed = Some p,
              iv_rejections = rejections\<rparr>)"

section \<open>Seasons\<close>

definition ambiguous_season :: "(string \<Rightarrow> parsed_release) \<Rightarrow> string \<Rightarrow> parsed_release \<Rightarrow> int \<Rightarrow> bool" where
  "ambiguous_season parser name p ssn =
     (case pr_season p of ManyNum _ \<Rightarrow> pr_season (parser name) \<noteq> OneNum ssn | _ \<Rightarrow> False)"

definition episode_reasons ::
  "video_file \<Rightarrow> (string \<Rightarrow> parsed_release) \<Rightarrow> parsed_release \<Rightarrow> quality_profile \<Rightarrow> string \<Rightarrow> int \<Rightarrow> int
     \<Rightarrow> (import_rejection_reason \<times> string) list" where
  "episode_reasons v parser p profile title tmdb ssn =
     (let name = basename (relative_path v) in
      (if \<not> matches_media p title None 0 tmdb (Some ssn)
       then [(IR_WRONG_MEDIA, season_wrong_media name p title ssn)] else [])
      @ (if ambiguous_season parser name p ssn
         then [(IR_WRONG_MEDIA, pack_wrong_media name p (pr_season (parser name)) ssn)] else [])
      @ (if \<not> verdict_accepted (check_quality (resolved_of p) profile)
         then [(IR_QUALITY_NOT_WANTED, quality_message name (resolved_of p))] else [])
      @ (if vf_size_bytes v < SAMPLE_FLOOR_BYTES then [(IR_SAMPLE, sample_message name (vf_size_bytes v))] else [])
      @ (if is_multi_part (relative_path v) title then [(IR_MULTI_PART, multi_part_message (relative_path v))] else [])
      @ (if episode_numbers (pr_episode p) = []
         then [(IR_NO_EPISODE_NUMBER, ''file '' @ py_repr name @ '' carries no parseable episode number'')] else []))"

text \<open>The loop body, the accumulated result threaded through.\<close>

definition season_file ::
  "(string \<Rightarrow> parsed_release) \<Rightarrow> quality_profile \<Rightarrow> string \<Rightarrow> int \<Rightarrow> int \<Rightarrow> int list option
     \<Rightarrow> video_file \<Rightarrow> season_import_validation \<Rightarrow> season_import_validation" where
  "season_file parser profile title tmdb ssn requested v acc =
     (if \<not> is_video (relative_path v) \<or> looks_like_sample_name (basename (relative_path v)) title then acc
      else
        let p = parser (forward_slashes (relative_path v));
            reasons = episode_reasons v parser p profile title tmdb ssn;
            eps = episode_numbers (pr_episode p);
            result = \<lparr>er_video = v, er_parsed = p, er_episodes = eps\<rparr>
        in if reasons \<noteq> [] then
             acc\<lparr>sv_rejected := sv_rejected acc @ map (\<lambda>(r, d). \<lparr>ej_relative_path = relative_path v,
                   ej_reason = r, ej_detail = d\<rparr>) reasons\<rparr>
           else if (case requested of None \<Rightarrow> False | Some req \<Rightarrow> set req \<inter> set eps = {}) then
             acc\<lparr>sv_skipped := sv_skipped acc @ [result]\<rparr>
           else acc\<lparr>sv_accepted := sv_accepted acc @ [result]\<rparr>)"

definition season_request :: "int list option \<Rightarrow> int list option" where
  "season_request requested_episodes = (case requested_episodes of Some (e # es) \<Rightarrow> Some (e # es) | _ \<Rightarrow> None)"

definition validate_season_import ::
  "video_file list \<Rightarrow> (string \<Rightarrow> parsed_release) \<Rightarrow> quality_profile \<Rightarrow> string \<Rightarrow> int \<Rightarrow> int \<Rightarrow> int list option
     \<Rightarrow> season_import_validation" where
  "validate_season_import files parser profile title tmdb ssn requested_episodes =
     fold (season_file parser profile title tmdb ssn (season_request requested_episodes)) files
       \<lparr>sv_accepted = [], sv_rejected = [], sv_skipped = []\<rparr>"

section \<open>What the gates decide\<close>

lemma feature_candidates_chosen:
  assumes "feature_candidates files title = v # vs"
  shows "py_max_key vf_size_bytes v vs \<in> set files"
    and "is_video (relative_path (py_max_key vf_size_bytes v vs))"
    and "\<not> looks_like_sample_name (basename (relative_path (py_max_key vf_size_bytes v vs))) title"
    and "w \<in> set (feature_candidates files title) \<Longrightarrow> vf_size_bytes w \<le> vf_size_bytes (py_max_key vf_size_bytes v vs)"
proof -
  have "py_max_key vf_size_bytes v vs \<in> set (feature_candidates files title)"
    using py_max_key_in[of vf_size_bytes v vs] assms by simp
  then show "py_max_key vf_size_bytes v vs \<in> set files"
    "is_video (relative_path (py_max_key vf_size_bytes v vs))"
    "\<not> looks_like_sample_name (basename (relative_path (py_max_key vf_size_bytes v vs))) title"
    by (auto simp: feature_candidates_def)
  show "w \<in> set (feature_candidates files title) \<Longrightarrow> vf_size_bytes w \<le> vf_size_bytes (py_max_key vf_size_bytes v vs)"
    using py_max_key_ge[of w v vs vf_size_bytes] assms by simp
qed

lemma movie_reasons:
  "ir_reason ` set (movie_rejections v p profile title year tmdb) =
     {r. (r = IR_WRONG_MEDIA \<and> \<not> matches_media p title year 0 tmdb None)
       \<or> (r = IR_QUALITY_NOT_WANTED \<and> \<not> verdict_accepted (check_quality (resolved_of p) profile))
       \<or> (r = IR_SAMPLE \<and> vf_size_bytes v < SAMPLE_FLOOR_BYTES)
       \<or> (r = IR_MULTI_PART \<and> is_multi_part (relative_path v) title)}"
  by (auto simp: movie_rejections_def Let_def)

text \<open>
  The movie import gate is exact. It accepts precisely when some file is a Plex video not named a
  sample, and the first largest such file, parsed with its folders, is the expected movie, of a quality
  the profile allows, at least 50 MiB, and not one part of several. When there is such a file the reasons
  reported are exactly the gates that failed; an accepted import reports none.
\<close>

theorem validate_import_exact:
  "let V = validate_import files parser profile title year tmdb; cs = feature_candidates files title in
     (iv_accepted V \<longleftrightarrow> iv_rejections V = [])
     \<and> (cs = [] \<longrightarrow> iv_video V = None \<and> ir_reason ` set (iv_rejections V) = {IR_NO_VIDEO_FILE})
     \<and> (cs \<noteq> [] \<longrightarrow> (\<exists>v. iv_video V = Some v \<and> v \<in> set files \<and> plex_video_extension (relative_path v) \<noteq> None
          \<and> \<not> looks_like_sample_name (basename (relative_path v)) title
          \<and> (\<forall>w \<in> set cs. vf_size_bytes w \<le> vf_size_bytes v)
          \<and> iv_parsed V = Some (parser (forward_slashes (relative_path v)))
          \<and> (iv_accepted V \<longleftrightarrow>
               matches_media (parser (forward_slashes (relative_path v))) title year 0 tmdb None
               \<and> verdict_accepted (check_quality (resolved_of (parser (forward_slashes (relative_path v)))) profile)
               \<and> 50 * 1024 * 1024 \<le> vf_size_bytes v \<and> \<not> is_multi_part (relative_path v) title)
          \<and> ir_reason ` set (iv_rejections V) =
             {r. (r = IR_WRONG_MEDIA \<and> \<not> matches_media (parser (forward_slashes (relative_path v))) title year 0 tmdb None)
               \<or> (r = IR_QUALITY_NOT_WANTED
                  \<and> \<not> verdict_accepted (check_quality (resolved_of (parser (forward_slashes (relative_path v)))) profile))
               \<or> (r = IR_SAMPLE \<and> vf_size_bytes v < 50 * 1024 * 1024)
               \<or> (r = IR_MULTI_PART \<and> is_multi_part (relative_path v) title)}))"
proof (cases "feature_candidates files title")
  case Nil
  then show ?thesis by (simp add: validate_import_def)
next
  case (Cons v vs)
  let ?v = "py_max_key vf_size_bytes v vs"
  let ?p = "parser (forward_slashes (relative_path ?v))"
  let ?r = "movie_rejections ?v ?p profile title year tmdb"
  have V: "validate_import files parser profile title year tmdb =
      \<lparr>iv_accepted = (?r = []), iv_video = Some ?v, iv_parsed = Some ?p, iv_rejections = ?r\<rparr>"
    by (simp add: validate_import_def Cons Let_def)
  note c = feature_candidates_chosen[OF Cons]
  have acc: "?r = [] \<longleftrightarrow> matches_media ?p title year 0 tmdb None \<and> verdict_accepted (check_quality (resolved_of ?p) profile)
      \<and> 50 * 1024 * 1024 \<le> vf_size_bytes ?v \<and> \<not> is_multi_part (relative_path ?v) title"
    by (auto simp: movie_rejections_def Let_def SAMPLE_FLOOR_BYTES_def)
  have "\<forall>w \<in> set (feature_candidates files title). vf_size_bytes w \<le> vf_size_bytes ?v" using c(4) by blast
  with c(1-3) acc movie_reasons[of ?v ?p profile title year tmdb] show ?thesis
    unfolding V Let_def by (simp add: Cons is_video_def SAMPLE_FLOOR_BYTES_def)
qed

definition ex_files :: "video_file list" where
  "ex_files = [\<lparr>relative_path = ''Matrix/sample.mkv'', vf_size_bytes = 90000000\<rparr>,
     \<lparr>relative_path = ''Matrix/m.mkv'', vf_size_bytes = 60000000\<rparr>]"

lemma ex_feature: "feature_candidates ex_files ''The Matrix'' = [\<lparr>relative_path = ''Matrix/m.mkv'', vf_size_bytes = 60000000\<rparr>]"
  by code_simp

theorem validate_import_exact_witness:
  "iv_video (validate_import ex_files (\<lambda>_. example_parsed) default_profile ''The Matrix'' (Some 1999) 603)
     = Some \<lparr>relative_path = ''Matrix/m.mkv'', vf_size_bytes = 60000000\<rparr>"
proof -
  from validate_import_exact[of ex_files "\<lambda>_. example_parsed" default_profile "''The Matrix''" "Some 1999" 603]
  obtain v where v: "iv_video (validate_import ex_files (\<lambda>_. example_parsed) default_profile ''The Matrix'' (Some 1999) 603) = Some v"
    "v \<in> set ex_files" "\<not> looks_like_sample_name (basename (relative_path v)) ''The Matrix''"
    unfolding Let_def ex_feature by blast
  have "looks_like_sample_name (basename ''Matrix/sample.mkv'') ''The Matrix''" by code_simp
  with v(2,3) have "v = \<lparr>relative_path = ''Matrix/m.mkv'', vf_size_bytes = 60000000\<rparr>" by (auto simp: ex_files_def)
  with v(1) show ?thesis by simp
qed

abbreviation no_season_result :: season_import_validation where
  "no_season_result \<equiv> \<lparr>sv_accepted = [], sv_rejected = [], sv_skipped = []\<rparr>"

lemma season_file_adds:
  "sv_accepted (season_file parser profile title tmdb ssn req v acc) =
     sv_accepted acc @ sv_accepted (season_file parser profile title tmdb ssn req v no_season_result)"
  "sv_rejected (season_file parser profile title tmdb ssn req v acc) =
     sv_rejected acc @ sv_rejected (season_file parser profile title tmdb ssn req v no_season_result)"
  "sv_skipped (season_file parser profile title tmdb ssn req v acc) =
     sv_skipped acc @ sv_skipped (season_file parser profile title tmdb ssn req v no_season_result)"
  by (simp_all add: season_file_def Let_def split: option.splits)

lemma season_fold_accepted:
  "sv_accepted (fold (season_file parser profile title tmdb ssn req) files acc) = sv_accepted acc
     @ concat (map (\<lambda>v. sv_accepted (season_file parser profile title tmdb ssn req v no_season_result)) files)"
proof (induction files arbitrary: acc)
  case (Cons v vs)
  then show ?case using season_file_adds(1)[of parser profile title tmdb ssn req v acc] by simp
qed simp

lemma season_fold_rejected:
  "sv_rejected (fold (season_file parser profile title tmdb ssn req) files acc) = sv_rejected acc
     @ concat (map (\<lambda>v. sv_rejected (season_file parser profile title tmdb ssn req v no_season_result)) files)"
proof (induction files arbitrary: acc)
  case (Cons v vs)
  then show ?case using season_file_adds(2)[of parser profile title tmdb ssn req v acc] by simp
qed simp

lemma season_fold_skipped:
  "sv_skipped (fold (season_file parser profile title tmdb ssn req) files acc) = sv_skipped acc
     @ concat (map (\<lambda>v. sv_skipped (season_file parser profile title tmdb ssn req v no_season_result)) files)"
proof (induction files arbitrary: acc)
  case (Cons v vs)
  then show ?case using season_file_adds(3)[of parser profile title tmdb ssn req v acc] by simp
qed simp

lemmas season_fold = season_fold_accepted season_fold_rejected season_fold_skipped

text \<open>The files considered, the gates of one file, and the operator's episode filter.\<close>

definition season_candidate :: "string \<Rightarrow> video_file \<Rightarrow> bool" where
  "season_candidate title v \<longleftrightarrow> is_video (relative_path v) \<and> \<not> looks_like_sample_name (basename (relative_path v)) title"

definition episode_gates ::
  "(string \<Rightarrow> parsed_release) \<Rightarrow> quality_profile \<Rightarrow> string \<Rightarrow> int \<Rightarrow> int \<Rightarrow> video_file \<Rightarrow> bool" where
  "episode_gates parser profile title tmdb ssn v \<longleftrightarrow>
     (let p = parser (forward_slashes (relative_path v)) in
      matches_media p title None 0 tmdb (Some ssn)
      \<and> (case pr_season p of ManyNum _ \<Rightarrow> pr_season (parser (basename (relative_path v))) = OneNum ssn | _ \<Rightarrow> True)
      \<and> verdict_accepted (check_quality (resolved_of p) profile)
      \<and> 50 * 1024 * 1024 \<le> vf_size_bytes v \<and> \<not> is_multi_part (relative_path v) title
      \<and> episode_numbers (pr_episode p) \<noteq> [])"

definition wanted_file :: "(string \<Rightarrow> parsed_release) \<Rightarrow> int list option \<Rightarrow> video_file \<Rightarrow> bool" where
  "wanted_file parser requested v \<longleftrightarrow> (case requested of None \<Rightarrow> True
     | Some es \<Rightarrow> es = [] \<or> set es \<inter> set (episode_numbers (pr_episode (parser (forward_slashes (relative_path v))))) \<noteq> {})"

lemma episode_reasons_Nil:
  "episode_reasons v parser (parser (forward_slashes (relative_path v))) profile title tmdb ssn = []
     \<longleftrightarrow> episode_gates parser profile title tmdb ssn v"
  by (auto simp: episode_reasons_def episode_gates_def ambiguous_season_def Let_def SAMPLE_FLOOR_BYTES_def
      split: num_field.splits)

lemma season_file_videos:
  "map er_video (sv_accepted (season_file parser profile title tmdb ssn (season_request r) v no_season_result)) =
      (if season_candidate title v \<and> episode_gates parser profile title tmdb ssn v \<and> wanted_file parser r v then [v] else [])"
  "map er_video (sv_skipped (season_file parser profile title tmdb ssn (season_request r) v no_season_result)) =
      (if season_candidate title v \<and> episode_gates parser profile title tmdb ssn v \<and> \<not> wanted_file parser r v then [v] else [])"
  "set (map ej_relative_path (sv_rejected (season_file parser profile title tmdb ssn (season_request r) v no_season_result))) =
      (if season_candidate title v \<and> \<not> episode_gates parser profile title tmdb ssn v then {relative_path v} else {})"
  using episode_reasons_Nil[of v parser profile title tmdb ssn]
  by (auto simp: season_file_def season_candidate_def wanted_file_def season_request_def Let_def case_prod_beta
      neq_Nil_conv split: option.splits list.splits)

lemma concat_if: "concat (map (\<lambda>v. if P v then [v] else []) xs) = filter P xs"
  by (induction xs) auto

text \<open>
  A season import partially succeeds, honestly. The imported files are exactly the considered files
  that pass every gate of their own (right show, right season, and in a multi-season pack the file's own
  season; allowed quality; size; not a part; an episode number) and that the operator wants; the
  skipped ones pass the same gates and are not wanted; a file is reported as rejected exactly if it is
  considered and fails a gate. Nothing is lost and input order is kept.
\<close>

theorem validate_season_import_exact:
  "let S = validate_season_import files parser profile title tmdb ssn requested;
       ok = episode_gates parser profile title tmdb ssn; want = wanted_file parser requested in
     map er_video (sv_accepted S) = filter (\<lambda>v. season_candidate title v \<and> ok v \<and> want v) files
     \<and> map er_video (sv_skipped S) = filter (\<lambda>v. season_candidate title v \<and> ok v \<and> \<not> want v) files
     \<and> set (map ej_relative_path (sv_rejected S))
        = relative_path ` {v \<in> set files. season_candidate title v \<and> \<not> ok v}"
proof -
  let ?req = "season_request requested"
  let ?one = "\<lambda>v. season_file parser profile title tmdb ssn ?req v no_season_result"
  note vids = season_file_videos[of parser profile title tmdb ssn requested]
  have "map er_video (concat (map (\<lambda>v. sv_accepted (?one v)) files)) =
      concat (map (\<lambda>v. map er_video (sv_accepted (?one v))) files)" by (simp add: map_concat comp_def)
  moreover have "map er_video (concat (map (\<lambda>v. sv_skipped (?one v)) files)) =
      concat (map (\<lambda>v. map er_video (sv_skipped (?one v))) files)" by (simp add: map_concat comp_def)
  moreover have "set (map ej_relative_path (concat (map (\<lambda>v. sv_rejected (?one v)) files))) =
      (\<Union>v \<in> set files. set (map ej_relative_path (sv_rejected (?one v))))" by auto
  moreover have "(\<Union>v \<in> set files. if season_candidate title v \<and> \<not> episode_gates parser profile title tmdb ssn v
        then {relative_path v} else {}) =
      relative_path ` {v \<in> set files. season_candidate title v \<and> \<not> episode_gates parser profile title tmdb ssn v}"
    by auto
  ultimately show ?thesis
    unfolding Let_def validate_season_import_def season_fold
    by (simp only: vids concat_if season_import_validation.select_convs append_Nil)
qed

end
