(* ===== verification/Naming.thy ===== *)
theory Naming
  imports PlexVideo Regex
begin

text \<open>
  On-disk names (\<open>domain/naming.py\<close>): the Radarr clean-up of a title and the Plex layout of movies,
  shows, seasons and episodes. A \<open>PurePosixPath\<close> is the list of its parts, the root first if it has one.
  \<open>Inl EmptyEpisodes\<close> is the \<open>ValueError\<close> of an episode token without an episode.
\<close>

definition BAD_CHARACTERS :: "(string \<times> string) list" where
  "BAD_CHARACTERS = [([backslash], ''+''), (''/'', ''+''), (''<'', []), (''>'', []), (''?'', []), (''*'', ''!''),
     (''|'', ''-''), ([CHR 0x22], [])]"

text \<open>\<open>re.sub\<close> of a separator followed by copies of itself by that one separator.\<close>

definition is_name_sep :: "char \<Rightarrow> bool" where
  "is_name_sep c \<longleftrightarrow> c \<in> {CHR ''-'', CHR '' '', CHR ''.'', CHR ''_''}"

fun collapse_repeats :: "string \<Rightarrow> string" where
  "collapse_repeats (c # d # s) =
     (if c = d \<and> is_name_sep c then collapse_repeats (d # s) else c # collapse_repeats (d # s))"
| "collapse_repeats s = s"

definition digit19 :: rx where
  "digit19 = RCls ''123456789''"

definition RESERVED_DEVICE_NAME :: rx where
  "RESERVED_DEVICE_NAME = rseq [RBol,
     ralts [rlits ''aux'', RSeq (rlits ''com'') digit19, rlits ''con'', RSeq (rlits ''lpt'') digit19, rlits ''nul'', rlits ''prn''],
     RCls ''.'']"

definition reserved_guard :: "string \<Rightarrow> string" where
  "reserved_guard s = (case rx_first RESERVED_DEVICE_NAME ([], s) of
       None \<Rightarrow> s
     | Some ((_, rest), _) \<Rightarrow> py_replace ''.'' ''_'' (take (length s - length rest) s) @ rest)"

definition clean_title :: "string \<Rightarrow> string" where
  "clean_title name =
     (let r1 = py_replace '':'' ''-'' (py_replace '': '' '' - '' name);
          r2 = fold (\<lambda>(bad, good) r. py_replace bad good r) BAD_CHARACTERS r1
      in strip_by (\<lambda>c. c \<in> {CHR '' '', CHR ''.''}) (reserved_guard (collapse_repeats r2)))"

text \<open>\<open>path / name\<close>.\<close>

definition path_join :: "string list \<Rightarrow> string \<Rightarrow> string list" where
  "path_join parts name = (if path_root name \<noteq> [] then path_parts name else parts @ path_tail name)"

definition title_stem :: "string \<Rightarrow> int option \<Rightarrow> string" where
  "title_stem title year = (case year of None \<Rightarrow> title | Some y \<Rightarrow> title @ '' ('' @ py_str_int y @ '')'')"

definition plex_movie_relative_path :: "string \<Rightarrow> int option \<Rightarrow> string \<Rightarrow> string list" where
  "plex_movie_relative_path title year ext =
     (let cleaned = clean_title (title_stem title year)
      in path_join (path_parts cleaned) (cleaned @ ''.'' @ ext))"

definition plex_tv_show_relative_dir :: "string \<Rightarrow> int option \<Rightarrow> string list" where
  "plex_tv_show_relative_dir title year = path_parts (clean_title (title_stem title year))"

definition plex_tv_season_relative_dir :: "string \<Rightarrow> int option \<Rightarrow> int \<Rightarrow> string list" where
  "plex_tv_season_relative_dir title year ssn =
     path_join (plex_tv_show_relative_dir title year) (''Season '' @ pad2 ssn)"

datatype naming_error = EmptyEpisodes

definition episode_token :: "int \<Rightarrow> int list \<Rightarrow> naming_error + string" where
  "episode_token ssn eps =
     (if eps = [] then Inl EmptyEpisodes
      else
        let ordered = sort eps; season_part = ''S'' @ pad2 ssn in
        if length ordered = 1 then Inr (season_part @ ''E'' @ pad2 (hd ordered))
        else if last ordered - hd ordered = int (length ordered) - 1
        then Inr (season_part @ ''E'' @ pad2 (hd ordered) @ ''-E'' @ pad2 (last ordered))
        else Inr (season_part @ concat (map (\<lambda>e. ''E'' @ pad2 e) ordered)))"

definition plex_tv_episode_relative_path ::
  "string \<Rightarrow> int option \<Rightarrow> int \<Rightarrow> int list \<Rightarrow> string \<Rightarrow> naming_error + string list" where
  "plex_tv_episode_relative_path title year ssn eps ext =
     map_sum id (\<lambda>token. path_join (plex_tv_season_relative_dir title year ssn)
         (clean_title title @ '' - '' @ token @ ''.'' @ ext))
       (episode_token ssn eps)"

section \<open>Replacing characters\<close>

lemma py_replace_char: "py_replace [c] new s = concat (map (\<lambda>d. if d = c then new else [d]) s)"
proof (induction s)
  case Nil
  show ?case by (subst py_replace.simps) simp
next
  case (Cons d s)
  then show ?case by (subst py_replace.simps) auto
qed

lemma set_py_replace_char: "set (py_replace [c] new s) = (set s - {c}) \<union> (if c \<in> set s then set new else {})"
  by (auto simp: py_replace_char split: if_splits)

lemma set_py_replace: "set (py_replace old new s) \<subseteq> set s \<union> set new"
proof (induction old new s rule: py_replace.induct)
  case (1 old new s)
  show ?case
  proof (cases "old = [] \<or> s = []")
    case True
    then show ?thesis by (subst py_replace.simps) auto
  next
    case False
    then obtain c t where s: "s = c # t" by (cases s) auto
    have "set (drop (length old) s) \<subseteq> set s" by (rule set_drop_subset)
    then show ?thesis using 1 False s by (subst py_replace.simps) auto
  qed
qed

lemma py_replace_noop: "old \<noteq> [] \<Longrightarrow> \<not> sublist old s \<Longrightarrow> py_replace old new s = s"
proof (induction s)
  case Nil
  show ?case by (subst py_replace.simps) simp
next
  case (Cons c s)
  then have "\<not> prefix old (c # s)" "\<not> sublist old s" by (auto simp: sublist_Cons_right)
  with Cons show ?case by (subst py_replace.simps) simp
qed

section \<open>What cleaning guarantees\<close>

definition FORBIDDEN :: "char set" where
  "FORBIDDEN = {backslash, CHR ''/'', CHR ''<'', CHR ''>'', CHR ''?'', CHR ''*'', CHR ''|'', CHR 0x22, CHR '':''}"

abbreviation table_step :: "string \<Rightarrow> string" where
  "table_step name \<equiv> fold (\<lambda>(bad, good) r. py_replace bad good r) BAD_CHARACTERS
     (py_replace '':'' ''-'' (py_replace '': '' '' - '' name))"

lemma in_py_replace_char:
  "c \<notin> set new \<Longrightarrow> c \<in> set (py_replace [b] new s) \<longleftrightarrow> c \<noteq> b \<and> c \<in> set s"
  by (auto simp: set_py_replace_char)

lemma table_step_safe: "set (table_step name) \<inter> FORBIDDEN = {}"
proof -
  have "c \<notin> set (table_step name)" if "c \<in> FORBIDDEN" for c
    using that unfolding FORBIDDEN_def backslash_def insert_iff empty_iff
    by (elim disjE FalseE; hypsubst; simp add: BAD_CHARACTERS_def backslash_def in_py_replace_char)
  then show ?thesis by blast
qed

lemma set_collapse_repeats [simp]: "set (collapse_repeats s) = set s"
  by (induction s rule: collapse_repeats.induct) auto

fun no_repeats :: "string \<Rightarrow> bool" where
  "no_repeats (c # d # s) \<longleftrightarrow> \<not> (c = d \<and> is_name_sep c) \<and> no_repeats (d # s)"
| "no_repeats s \<longleftrightarrow> True"

lemma hd_collapse_repeats: "s \<noteq> [] \<Longrightarrow> collapse_repeats s \<noteq> [] \<and> hd (collapse_repeats s) = hd s"
  by (induction s rule: collapse_repeats.induct) auto

lemma no_repeats_Cons: "no_repeats (c # s) \<longleftrightarrow> (s = [] \<or> \<not> (c = hd s \<and> is_name_sep c) \<and> no_repeats s)"
  by (cases s) auto

lemma no_repeats_collapse: "no_repeats (collapse_repeats s)"
  by (induction s rule: collapse_repeats.induct) (auto simp: no_repeats_Cons hd_collapse_repeats)

lemma collapse_repeats_id: "no_repeats s \<Longrightarrow> collapse_repeats s = s"
  by (induction s rule: collapse_repeats.induct) auto

section \<open>Reserved device names\<close>

text \<open>A device name, and a name that begins with one followed by a dot.\<close>

definition device :: "string \<Rightarrow> bool" where
  "device x \<longleftrightarrow> list_ex (\<lambda>w. list_all2 lit_match w x) [''aux'', ''con'', ''nul'', ''prn'']
     \<or> (x \<noteq> [] \<and> last x \<in> set ''123456789'' \<and> list_ex (\<lambda>w. list_all2 lit_match w (butlast x)) [''com'', ''lpt''])"

definition device_prefixed :: "string \<Rightarrow> bool" where
  "device_prefixed s \<longleftrightarrow> (\<exists>x t. s = x @ CHR ''.'' # t \<and> device x)"

lemma lit_match_letters:
  "list_all2 lit_match w x \<Longrightarrow> list_all (\<lambda>l. lower_char l \<notin> {CHR ''.'', CHR ''_''}) w
     \<Longrightarrow> CHR ''.'' \<notin> set x \<and> CHR ''_'' \<notin> set x"
proof (induction rule: list_all2_induct)
  case (Cons l w c x)
  have "lower_char (CHR ''.'') = CHR ''.''" "lower_char (CHR ''_'') = CHR ''_''" by code_simp+
  with Cons show ?case by (auto simp: lit_match_def)
qed simp

lemma device_letters:
  assumes "list_ex (\<lambda>w. list_all2 lit_match w x) ws"
    and "list_all (\<lambda>w. list_all (\<lambda>l. lower_char l \<notin> {CHR ''.'', CHR ''_''}) w) ws"
  shows "CHR ''.'' \<notin> set x \<and> CHR ''_'' \<notin> set x"
proof -
  from assms(1) obtain w where w: "w \<in> set ws" "list_all2 lit_match w x" by (auto simp: list_ex_iff)
  from w(1) assms(2) have "list_all (\<lambda>l. lower_char l \<notin> {CHR ''.'', CHR ''_''}) w"
    by (metis (mono_tags, lifting) list.pred_set)
  with w(2) show ?thesis by (rule lit_match_letters)
qed

lemma device_chars:
  assumes "device x"
  shows "CHR ''.'' \<notin> set x \<and> CHR ''_'' \<notin> set x"
  using assms unfolding device_def
proof
  assume "list_ex (\<lambda>w. list_all2 lit_match w x) [''aux'', ''con'', ''nul'', ''prn'']"
  then show ?thesis by (rule device_letters) code_simp
next
  assume x: "x \<noteq> [] \<and> last x \<in> set ''123456789'' \<and> list_ex (\<lambda>w. list_all2 lit_match w (butlast x)) [''com'', ''lpt'']"
  then have "list_ex (\<lambda>w. list_all2 lit_match w (butlast x)) [''com'', ''lpt'']" by blast
  then have "CHR ''.'' \<notin> set (butlast x) \<and> CHR ''_'' \<notin> set (butlast x)" by (rule device_letters) code_simp
  moreover have "last x \<noteq> CHR ''.''" "last x \<noteq> CHR ''_''" using x by auto
  moreover have "set x = insert (last x) (set (butlast x))"
    using x by (metis append_butlast_last_id list.set(2) rotate1.simps(2) set_rotate1)
  ultimately show ?thesis by auto
qed

lemma rx_den_digit19: "rx_den digit19 (p, s) q \<longleftrightarrow> (\<exists>d t. s = d # t \<and> d \<in> set ''123456789'' \<and> q = (d # p, t))"
  by (auto simp: digit19_def)

text \<open>A pattern that consumes exactly the texts of a predicate.\<close>

definition consumes :: "rx \<Rightarrow> (string \<Rightarrow> bool) \<Rightarrow> bool" where
  "consumes r A \<longleftrightarrow> (\<forall>p s q. rx_den r (p, s) q \<longleftrightarrow> (\<exists>x t. s = x @ t \<and> A x \<and> q = (rev x @ p, t)))"

lemma consumes_alt: "consumes a A \<Longrightarrow> consumes b B \<Longrightarrow> consumes (RAlt a b) (\<lambda>x. A x \<or> B x)"
  unfolding consumes_def
  by (intro allI) (simp only: rx_den_simps(10) conj_disj_distribL conj_disj_distribR ex_disj_distrib)

lemma consumes_lits: "consumes (rlits w) (list_all2 lit_match w)"
  unfolding consumes_def rx_den_rlits by blast

lemma consumes_numbered:
  "consumes (RSeq (rlits w) digit19) (\<lambda>x. x \<noteq> [] \<and> last x \<in> set ''123456789'' \<and> list_all2 lit_match w (butlast x))"
  unfolding consumes_def
proof (intro allI iffI)
  fix p s q assume "rx_den (RSeq (rlits w) digit19) (p, s) q"
  then obtain q1 where q1: "rx_den (rlits w) (p, s) q1" "rx_den digit19 q1 q"
    by (cases rule: rx_den.cases) blast
  from q1(1) obtain x u where x: "s = x @ u" "list_all2 lit_match w x" "q1 = (rev x @ p, u)"
    unfolding rx_den_rlits by blast
  from q1(2) obtain d t where "u = d # t" "d \<in> set ''123456789''" "q = (d # rev x @ p, t)"
    unfolding x(3) rx_den_digit19 by blast
  with x have "s = x @ d # t" "list_all2 lit_match w x" "d \<in> set ''123456789''" "q = (d # rev x @ p, t)" by simp_all
  then show "\<exists>x t. s = x @ t \<and> (x \<noteq> [] \<and> last x \<in> set ''123456789'' \<and> list_all2 lit_match w (butlast x))
      \<and> q = (rev x @ p, t)" by (intro exI[of _ "x @ [d]"] exI[of _ t]) simp
next
  fix p s q assume "\<exists>x t. s = x @ t \<and> (x \<noteq> [] \<and> last x \<in> set ''123456789'' \<and> list_all2 lit_match w (butlast x))
      \<and> q = (rev x @ p, t)"
  then obtain x t where x: "s = x @ t" "x \<noteq> []" "last x \<in> set ''123456789''" "list_all2 lit_match w (butlast x)"
    "q = (rev x @ p, t)" by blast
  then have "x = butlast x @ [last x]" by simp
  then obtain y d where y: "x = y @ [d]" "d \<in> set ''123456789''" "list_all2 lit_match w y" using x by metis
  have "rx_den (rlits w) (p, s) (rev y @ p, d # t)" using x y by (auto simp: rx_den_rlits)
  moreover have "rx_den digit19 (rev y @ p, d # t) q" using x(5) y(1,2) by (simp only: rx_den_digit19) simp
  ultimately show "rx_den (RSeq (rlits w) digit19) (p, s) q" unfolding rx_den_simps(9) by blast
qed

lemma consumes_device:
  "consumes (ralts [rlits ''aux'', RSeq (rlits ''com'') digit19, rlits ''con'', RSeq (rlits ''lpt'') digit19,
     rlits ''nul'', rlits ''prn'']) device"
proof -
  have "consumes (ralts [rlits ''aux'', RSeq (rlits ''com'') digit19, rlits ''con'', RSeq (rlits ''lpt'') digit19,
     rlits ''nul'', rlits ''prn'']) A" if "A = (\<lambda>x. list_all2 lit_match ''aux'' x
       \<or> (x \<noteq> [] \<and> last x \<in> set ''123456789'' \<and> list_all2 lit_match ''com'' (butlast x)) \<or> list_all2 lit_match ''con'' x
       \<or> (x \<noteq> [] \<and> last x \<in> set ''123456789'' \<and> list_all2 lit_match ''lpt'' (butlast x)) \<or> list_all2 lit_match ''nul'' x
       \<or> list_all2 lit_match ''prn'' x)" for A
    unfolding that ralts.simps by (intro consumes_alt consumes_lits consumes_numbered)
  moreover have "device = (\<lambda>x. list_all2 lit_match ''aux'' x
       \<or> (x \<noteq> [] \<and> last x \<in> set ''123456789'' \<and> list_all2 lit_match ''com'' (butlast x)) \<or> list_all2 lit_match ''con'' x
       \<or> (x \<noteq> [] \<and> last x \<in> set ''123456789'' \<and> list_all2 lit_match ''lpt'' (butlast x)) \<or> list_all2 lit_match ''nul'' x
       \<or> list_all2 lit_match ''prn'' x)"
    unfolding device_def list_ex_Nil_iff list_ex_Cons_iff by (rule ext) argo
  ultimately show ?thesis by blast
qed

lemma rx_den_reserved:
  "rx_den RESERVED_DEVICE_NAME ([], s) q \<longleftrightarrow> (\<exists>x t. s = x @ CHR ''.'' # t \<and> device x \<and> q = (CHR ''.'' # rev x, t))"
proof -
  let ?alts = "ralts [rlits ''aux'', RSeq (rlits ''com'') digit19, rlits ''con'', RSeq (rlits ''lpt'') digit19, rlits ''nul'', rlits ''prn'']"
  have "rx_den RESERVED_DEVICE_NAME ([], s) q \<longleftrightarrow>
      (\<exists>q1. rx_den ?alts ([], s) q1 \<and> rx_den (RCls ''.'') q1 q)"
    unfolding RESERVED_DEVICE_NAME_def rseq_def by (cases q) (simp del: ralts.simps rx_den_simps(10,3))
  also have "\<dots> \<longleftrightarrow> (\<exists>x t. s = x @ CHR ''.'' # t \<and> device x \<and> q = (CHR ''.'' # rev x, t))"
    unfolding consumes_device[unfolded consumes_def, rule_format] by auto
  finally show ?thesis .
qed

lemma reserved_guard_cases:
  "\<not> device_prefixed s \<and> reserved_guard s = s
   \<or> (\<exists>x t. device x \<and> s = x @ CHR ''.'' # t \<and> reserved_guard s = x @ CHR ''_'' # t)"
proof (cases "rx_first RESERVED_DEVICE_NAME ([], s)")
  case None
  then show ?thesis unfolding rx_first_None_iff rx_den_reserved device_prefixed_def
    by (auto simp: reserved_guard_def None)
next
  case (Some m)
  obtain q cap where m: "m = (q, cap)" by (cases m)
  from Some have "m \<in> set (rx_match RESERVED_DEVICE_NAME (([], s), []))"
    by (auto simp: rx_first_def split: list.splits)
  then have "q \<in> fst ` set (rx_match RESERVED_DEVICE_NAME (([], s), []))" unfolding m by force
  then have "rx_den RESERVED_DEVICE_NAME ([], s) q" by (simp only: rx_match_den)
  then obtain x t where x: "s = x @ CHR ''.'' # t" "device x" "q = (CHR ''.'' # rev x, t)"
    unfolding rx_den_reserved by blast
  have nd: "concat (map (\<lambda>d. if d = CHR ''.'' then ''_'' else [d]) x) = x"
    using device_chars[OF x(2)] by (induction x) auto
  have "reserved_guard s = x @ CHR ''_'' # t"
    unfolding reserved_guard_def Some m by (simp add: x(1,3) py_replace_char nd)
  with x show ?thesis by blast
qed

lemma reserved_guard_unreserved: "\<not> device_prefixed (reserved_guard s)"
proof (rule disjE[OF reserved_guard_cases[of s]])
  assume "\<exists>x t. device x \<and> s = x @ CHR ''.'' # t \<and> reserved_guard s = x @ CHR ''_'' # t"
  then obtain x t where x: "device x" "reserved_guard s = x @ CHR ''_'' # t" by blast
  show ?thesis
  proof
    assume "device_prefixed (reserved_guard s)"
    then obtain y u where y: "device y" "x @ CHR ''_'' # t = y @ CHR ''.'' # u"
      by (auto simp: device_prefixed_def x(2))
    with device_chars[OF x(1)] device_chars[OF y(1)] show False
      by (auto simp: append_eq_append_conv2 Cons_eq_append_conv append_eq_Cons_conv)
  qed
qed simp

lemma device_prefixed_append: "device_prefixed s \<Longrightarrow> device_prefixed (s @ t)"
  unfolding device_prefixed_def by (metis append_Cons append_assoc)

section \<open>Cleaning a title\<close>

abbreviation trimmed :: "char \<Rightarrow> bool" where
  "trimmed c \<equiv> c \<in> {CHR '' '', CHR ''.''}"

lemma clean_title_steps:
  "clean_title name = strip_by trimmed (reserved_guard (collapse_repeats (table_step name)))"
  by (simp add: clean_title_def Let_def)

lemma strip_by_from_hd:
  assumes "s \<noteq> []" "\<not> p (hd s)"
  shows "strip_by p s \<noteq> [] \<and> hd (strip_by p s) = hd s \<and> (\<exists>t. s = strip_by p s @ t)"
proof -
  from assms obtain c r where s: "s = c # r" "\<not> p c" by (cases s) auto
  then have d: "dropWhile p s = s" by simp
  have ne: "strip_by p s \<noteq> []" using s unfolding strip_by_def d by (auto simp: dropWhile_eq_Nil_conv)
  have "takeWhile p (rev s) @ dropWhile p (rev s) = rev s" by simp
  then have split: "s = strip_by p s @ rev (takeWhile p (rev s))"
    unfolding strip_by_def d by (metis rev_append rev_rev_ident)
  then have "hd (strip_by p s) = hd s" using ne by (metis hd_append)
  with ne split show ?thesis by blast
qed

lemma strip_by_id: "(s \<noteq> [] \<Longrightarrow> \<not> p (hd s) \<and> \<not> p (last s)) \<Longrightarrow> strip_by p s = s"
proof (cases "s = []")
  case False
  assume "s \<noteq> [] \<Longrightarrow> \<not> p (hd s) \<and> \<not> p (last s)"
  with False have s: "\<not> p (hd s)" "\<not> p (last s)" by blast+
  have "dropWhile p s = s" using s(1) False by (cases s) auto
  moreover have "dropWhile p (rev s) = rev s" using s(2) False by (cases s rule: rev_cases) auto
  ultimately show ?thesis by (simp add: strip_by_def)
qed (simp add: strip_by_def)

lemma py_replace_Cons: "old \<noteq> [] \<Longrightarrow> c \<noteq> hd old \<Longrightarrow> py_replace old new (c # s) = c # py_replace old new s"
  by (subst py_replace.simps) (cases old; simp)

lemma table_step_Cons: "c \<notin> FORBIDDEN \<Longrightarrow> table_step (c # s) = c # table_step s"
  by (simp add: FORBIDDEN_def BAD_CHARACTERS_def py_replace_Cons)

lemma table_step_id: "set s \<inter> FORBIDDEN = {} \<Longrightarrow> table_step s = s"
proof (induction s)
  case Nil
  show ?case by code_simp
next
  case (Cons c s)
  then show ?case using table_step_Cons[of c s] by simp
qed

lemma word_not_forbidden: "is_word c \<Longrightarrow> c \<notin> FORBIDDEN \<and> \<not> trimmed c"
proof -
  have "list_all (\<lambda>c. \<not> is_word c) [backslash, CHR ''/'', CHR ''<'', CHR ''>'', CHR ''?'', CHR ''*'', CHR ''|'',
      CHR 0x22, CHR '':'', CHR '' '', CHR ''.'']" by code_simp
  then show "is_word c \<Longrightarrow> c \<notin> FORBIDDEN \<and> \<not> trimmed c" by (auto simp: FORBIDDEN_def)
qed

lemma device_nonempty: "device x \<Longrightarrow> x \<noteq> []"
  by (auto simp: device_def)

lemma reserved_guard_facts:
  "set (reserved_guard s) \<subseteq> insert (CHR ''_'') (set s)"
  "s \<noteq> [] \<Longrightarrow> reserved_guard s \<noteq> [] \<and> hd (reserved_guard s) = hd s"
  using reserved_guard_cases[of s] by (auto dest: device_nonempty)

text \<open>What a title must look like to be left alone.\<close>

definition safe_component :: "string \<Rightarrow> bool" where
  "safe_component t \<longleftrightarrow> set t \<inter> FORBIDDEN = {} \<and> no_repeats t \<and> \<not> device_prefixed t
     \<and> (t \<noteq> [] \<longrightarrow> \<not> trimmed (hd t) \<and> \<not> trimmed (last t))"

lemma clean_title_charset: "set (clean_title name) \<inter> FORBIDDEN = {}"
proof -
  have "set (clean_title name) \<subseteq> insert (CHR ''_'') (set (table_step name))"
    using set_strip_by reserved_guard_facts(1)[of "collapse_repeats (table_step name)"]
    unfolding clean_title_steps set_collapse_repeats by blast
  moreover have "CHR ''_'' \<notin> FORBIDDEN" by (simp add: FORBIDDEN_def backslash_def)
  ultimately show ?thesis using table_step_safe[of name] by blast
qed

lemma clean_title_from_word:
  assumes "name \<noteq> []" "is_word (hd name)"
  shows "clean_title name \<noteq> [] \<and> hd (clean_title name) = hd name \<and> \<not> device_prefixed (clean_title name)"
proof -
  from assms obtain c r where n: "name = c # r" "is_word c" by (cases name) auto
  then have c: "c \<notin> FORBIDDEN" "\<not> trimmed c" using word_not_forbidden by blast+
  let ?u = "collapse_repeats (table_step name)" and ?g = "reserved_guard (collapse_repeats (table_step name))"
  have "?u \<noteq> [] \<and> hd ?u = c" unfolding n(1) table_step_Cons[OF c(1)]
    using hd_collapse_repeats[of "c # table_step r"] by simp
  then have g: "?g \<noteq> []" "hd ?g = c" using reserved_guard_facts(2)[of ?u] by auto
  with c(2) have "strip_by trimmed ?g \<noteq> [] \<and> hd (strip_by trimmed ?g) = c \<and> (\<exists>t. ?g = strip_by trimmed ?g @ t)"
    using strip_by_from_hd[of ?g trimmed] by simp
  moreover from this have "\<not> device_prefixed (strip_by trimmed ?g)"
    using reserved_guard_unreserved[of ?u] device_prefixed_append by metis
  ultimately show ?thesis by (simp add: clean_title_steps n(1))
qed

lemma clean_title_id: "safe_component t \<Longrightarrow> clean_title t = t"
proof -
  assume t: "safe_component t"
  then have "collapse_repeats (table_step t) = t"
    by (simp add: safe_component_def table_step_id collapse_repeats_id)
  moreover have "reserved_guard t = t"
    using reserved_guard_cases[of t] t by (auto simp: safe_component_def device_prefixed_def)
  ultimately show ?thesis using t unfolding clean_title_steps by (simp add: safe_component_def strip_by_id)
qed

text \<open>
  A cleaned title is a safe path component. It has no path separator and no character Windows
  forbids, and no blank or dot at either end. A title that begins with a letter or digit keeps it, so it
  does not become empty, and is not taken for a reserved device such as \<open>con.\<close> in the end. A name
  that is safe already is left as it is.
\<close>

theorem clean_title_safe:
  "set (clean_title name) \<inter> FORBIDDEN = {}
   \<and> (clean_title name \<noteq> [] \<longrightarrow> \<not> trimmed (hd (clean_title name)) \<and> \<not> trimmed (last (clean_title name)))
   \<and> (name \<noteq> [] \<and> is_word (hd name) \<longrightarrow>
        clean_title name \<noteq> [] \<and> hd (clean_title name) = hd name \<and> \<not> device_prefixed (clean_title name))
   \<and> (safe_component name \<longrightarrow> clean_title name = name)"
  using clean_title_charset[of name] clean_title_from_word[of name] clean_title_id[of name]
    strip_by_ends[of trimmed "reserved_guard (collapse_repeats (table_step name))"]
  unfolding clean_title_steps by blast

theorem clean_title_safe_witness:
  "clean_title ''Con.: x/y?'' = ''Con_ - x+y'' \<and> \<not> device_prefixed (clean_title ''Con.: x/y?'')"
proof -
  have "is_word (hd ''Con.: x/y?'')" by code_simp
  with clean_title_safe[of "''Con.: x/y?''"] have "\<not> device_prefixed (clean_title ''Con.: x/y?'')" by simp
  moreover have "clean_title ''Con.: x/y?'' = ''Con_ - x+y''" by code_simp
  ultimately show ?thesis by blast
qed

text \<open>The two limits of the clean-up: a title can vanish, and a device name can hide behind a dot.\<close>

lemma clean_title_empty: "clean_title ''?'' = []"
  by code_simp

lemma clean_title_hidden_device: "clean_title ''.con.txt'' = ''con.txt''"
  by code_simp

section \<open>The layout\<close>

text \<open>A path part that names one entry of the directory above it.\<close>

definition plain_part :: "string \<Rightarrow> bool" where
  "plain_part w \<longleftrightarrow> w \<noteq> [] \<and> w \<noteq> ''.'' \<and> w \<noteq> ''..'' \<and> CHR ''/'' \<notin> set w"

lemma split_on_absent: "sep \<notin> set s \<Longrightarrow> split_on sep s = [s]"
  by (induction s) auto

lemma path_of_plain: "CHR ''/'' \<notin> set w \<Longrightarrow> w \<noteq> [] \<Longrightarrow> w \<noteq> ''.'' \<Longrightarrow> path_root w = [] \<and> path_tail w = [w]"
  by (cases w) (auto simp: path_root_def path_tail_def split_on_absent)

lemma path_join_plain: "plain_part w \<Longrightarrow> path_join parts w = parts @ [w]"
  by (simp add: path_join_def path_of_plain plain_part_def)

lemma clean_title_part: "clean_title t \<noteq> [] \<Longrightarrow> plain_part (clean_title t)"
proof -
  assume ne: "clean_title t \<noteq> []"
  have "CHR ''/'' \<notin> set (clean_title t)" using clean_title_charset[of t] by (auto simp: FORBIDDEN_def)
  moreover have "\<not> trimmed (hd (clean_title t))" using ne unfolding clean_title_steps by (rule strip_by_ends)
  ultimately show ?thesis using ne by (auto simp: plain_part_def)
qed

lemma path_parts_clean: "path_parts (clean_title t) = (if clean_title t = [] then [] else [clean_title t])"
  using path_of_plain[of "clean_title t"] clean_title_part[of t]
  by (auto simp: path_parts_def plain_part_def path_root_def path_tail_def)

lemma digits_no_slash: "list_all is_digit s \<Longrightarrow> CHR ''/'' \<notin> set s"
proof -
  have "\<not> is_digit (CHR ''/'')" by code_simp
  then show "list_all is_digit s \<Longrightarrow> CHR ''/'' \<notin> set s" by (auto simp: list.pred_set)
qed

lemma pad2_no_slash: "CHR ''/'' \<notin> set (pad2 i)"
  using digits_no_slash[OF nat_str_digits] by (auto simp: pad2_def py_str_int_def)

lemma season_dir:
  "plex_tv_season_relative_dir title year ssn = plex_tv_show_relative_dir title year @ [''Season '' @ pad2 ssn]"
  unfolding plex_tv_season_relative_dir_def
  by (rule path_join_plain) (simp add: plain_part_def pad2_no_slash)

lemma token_no_slash: "episode_token ssn eps = Inr t \<Longrightarrow> CHR ''/'' \<notin> set t"
  by (auto simp: episode_token_def Let_def pad2_no_slash split: if_splits)

lemma token_starts: "episode_token ssn eps = Inr t \<Longrightarrow> \<exists>u. t = CHR ''S'' # u"
  by (auto simp: episode_token_def Let_def split: if_splits)

text \<open>
  The layout never leaves the library root. For an extension without a slash, every part of a movie
  path, of a season directory and of an episode path names one entry of the directory above it: none is
  empty, \<open>.\<close>, \<open>..\<close> or holds a separator. The movie file is named as its folder, an episode lies in its
  season's directory and the season in the show's.
\<close>

theorem layout_confined:
  assumes ext: "ext \<noteq> []" "CHR ''/'' \<notin> set ext" "ext \<noteq> ''.''"
  shows "list_all plain_part (plex_movie_relative_path title year ext)
    \<and> (let c = clean_title (title_stem title year) in
         plex_movie_relative_path title year ext = (if c = [] then [''.'' @ ext] else [c, c @ ''.'' @ ext]))
    \<and> list_all plain_part (plex_tv_season_relative_dir title year ssn)
    \<and> plex_tv_season_relative_dir title year ssn = plex_tv_show_relative_dir title year @ [''Season '' @ pad2 ssn]
    \<and> (\<forall>path. plex_tv_episode_relative_path title year ssn eps ext = Inr path \<longrightarrow>
         list_all plain_part path
         \<and> (\<exists>t. episode_token ssn eps = Inr t
              \<and> path = plex_tv_season_relative_dir title year ssn @ [clean_title title @ '' - '' @ t @ ''.'' @ ext]))"
proof -
  let ?c = "clean_title (title_stem title year)"
  have nos: "CHR ''/'' \<notin> set (clean_title t)" for t
    using clean_title_charset[of t] by (auto simp: FORBIDDEN_def)
  have mf: "plain_part (?c @ ''.'' @ ext)"
    using ext nos[of "title_stem title year"] clean_title_part[of "title_stem title year"]
    by (cases ?c rule: rev_cases) (auto simp: plain_part_def append_eq_Cons_conv Cons_eq_append_conv)
  have movie: "plex_movie_relative_path title year ext = (if ?c = [] then [''.'' @ ext] else [?c, ?c @ ''.'' @ ext])"
    unfolding plex_movie_relative_path_def Let_def path_join_plain[OF mf] path_parts_clean by simp
  have show_ok: "list_all plain_part (plex_tv_show_relative_dir title year)"
    by (simp add: plex_tv_show_relative_dir_def path_parts_clean clean_title_part)
  have season_ok: "list_all plain_part (plex_tv_season_relative_dir title year ssn)"
    using show_ok by (simp add: season_dir plain_part_def pad2_no_slash)
  have ep: "list_all plain_part path \<and> (\<exists>t. episode_token ssn eps = Inr t
        \<and> path = plex_tv_season_relative_dir title year ssn @ [clean_title title @ '' - '' @ t @ ''.'' @ ext])"
    if "plex_tv_episode_relative_path title year ssn eps ext = Inr path" for path
  proof -
    from that obtain t where t: "episode_token ssn eps = Inr t"
      "path = path_join (plex_tv_season_relative_dir title year ssn) (clean_title title @ '' - '' @ t @ ''.'' @ ext)"
      by (cases "episode_token ssn eps") (auto simp: plex_tv_episode_relative_path_def)
    have "plain_part (clean_title title @ '' - '' @ t @ ''.'' @ ext)"
      using ext nos[of title] token_no_slash[OF t(1)]
      by (auto simp: plain_part_def append_eq_Cons_conv Cons_eq_append_conv)
    then show ?thesis using t season_ok by (simp add: path_join_plain)
  qed
  from mf clean_title_part[of "title_stem title year"] have "list_all plain_part (plex_movie_relative_path title year ext)"
    unfolding movie by auto
  with movie season_ok season_dir ep show ?thesis unfolding Let_def by blast
qed

theorem layout_confined_witness:
  "list_all plain_part (plex_movie_relative_path ''../../etc/passwd'' (Some 1999) ''mkv'')
   \<and> plex_movie_relative_path ''../../etc/passwd'' (Some 1999) ''mkv''
     = [''+.+etc+passwd (1999)'', ''+.+etc+passwd (1999).mkv'']"
proof
  show "list_all plain_part (plex_movie_relative_path ''../../etc/passwd'' (Some 1999) ''mkv'')"
    using layout_confined[of "''mkv''" "''../../etc/passwd''" "Some 1999" 1 "[]"] by simp
qed code_simp

section \<open>Episode tokens\<close>

lemma sorted_run_iff:
  assumes "sorted (xs :: int list)" "distinct xs" "xs \<noteq> []"
  shows "last xs - hd xs = int (length xs) - 1 \<longleftrightarrow> set xs = {hd xs..last xs}"
proof -
  have sub: "set xs \<subseteq> {hd xs..last xs}"
  proof
    fix x assume "x \<in> set xs"
    then obtain i where "i < length xs" "xs ! i = x" by (auto simp: in_set_conv_nth)
    with assms show "x \<in> {hd xs..last xs}"
      by (auto simp: hd_conv_nth last_conv_nth intro!: sorted_nth_mono)
  qed
  have card: "card (set xs) = length xs" using assms(2) by (rule distinct_card)
  have "hd xs \<in> set xs" "last xs \<in> set xs" using assms(3) by auto
  with sub have le: "hd xs \<le> last xs" by auto
  have "set xs = {hd xs..last xs} \<longleftrightarrow> card (set xs) = card {hd xs..last xs}"
    using card_subset_eq[OF _ sub] by auto
  then show ?thesis using le unfolding card by auto
qed

lemma hd_last_sorted:
  assumes "sorted (xs :: int list)" "xs \<noteq> []"
  shows "hd xs = Min (set xs)" and "last xs = Max (set xs)"
proof -
  show "hd xs = Min (set xs)"
    using assms by (cases xs) (auto intro!: Min_eqI[symmetric])
  show "last xs = Max (set xs)"
    using assms by (cases xs rule: rev_cases) (auto simp: sorted_append intro!: Max_eqI[symmetric])
qed

text \<open>
  An episode token names exactly the episodes of the file. For distinct episode numbers, in any
  order, it is the single number, a dash range exactly when the file holds every episode of the range,
  and otherwise the list of all of them in increasing order.
\<close>

theorem episode_token_exact:
  assumes "distinct eps" "eps \<noteq> []"
  shows "episode_token ssn eps = Inr (''S'' @ pad2 ssn @
     (let lo = Min (set eps); hi = Max (set eps) in
      if lo = hi then ''E'' @ pad2 lo
      else if set eps = {lo..hi} then ''E'' @ pad2 lo @ ''-E'' @ pad2 hi
      else concat (map (\<lambda>e. ''E'' @ pad2 e) (sorted_list_of_set (set eps)))))"
proof -
  let ?o = "sort eps"
  have o: "sorted ?o" "distinct ?o" "?o \<noteq> []" "set ?o = set eps" "length ?o = length eps"
    using assms by (simp_all add: set_empty[symmetric] del: set_empty)
  note ends = hd_last_sorted[OF o(1,3)]
  have one: "length ?o = 1 \<longleftrightarrow> Min (set eps) = Max (set eps)"
  proof
    assume "length ?o = 1"
    then obtain x where "eps = [x]" using o(5) by (auto simp: length_Suc_conv)
    then show "Min (set eps) = Max (set eps)" by simp
  next
    assume eq: "Min (set eps) = Max (set eps)"
    have "set eps \<subseteq> {Min (set eps)}" 
    proof
      fix x assume "x \<in> set eps"
      then have "Min (set eps) \<le> x" "x \<le> Max (set eps)" by simp_all
      with eq show "x \<in> {Min (set eps)}" by simp
    qed
    then have "card (set eps) \<le> 1" by (metis card_mono card.empty card_insert_disjoint finite.intros One_nat_def empty_iff)
    moreover have "card (set eps) = length eps" using assms(1) by (rule distinct_card)
    ultimately show "length ?o = 1" using assms(2) by (cases eps) auto
  qed
  have run: "last ?o - hd ?o = int (length ?o) - 1 \<longleftrightarrow> set eps = {Min (set eps)..Max (set eps)}"
    using sorted_run_iff[OF o(1-3)] ends o(4) by simp
  have "sorted_list_of_set (set eps) = ?o" using assms(1) by (simp add: sorted_list_of_set_sort_remdups distinct_remdups_id)
  then show ?thesis
    unfolding episode_token_def Let_def one run using assms(2) ends o(4) by simp
qed

theorem episode_token_exact_witness: "episode_token 2 [6, 4] = Inr ''S02E04E06''"
proof -
  have "(5::int) \<notin> set [6, 4]" "5 \<in> {4..6::int}" by auto
  then have "set [6, 4] \<noteq> {4..6::int}" by blast
  moreover have "pad2 2 = ''02''" "pad2 4 = ''04''" "pad2 6 = ''06''" by code_simp+
  ultimately show ?thesis using episode_token_exact[of "[6, 4]" 2] by (simp add: insert_commute)
qed

text \<open>A repeated number is counted twice: 4 and 6, twice 6, reads as the whole range.\<close>

lemma episode_token_repeated: "episode_token 2 [4, 6, 6] = Inr ''S02E04-E06''"
  by code_simp

end
