(* ===== verification/RequestTables.thy ===== *)
theory RequestTables
  imports DownloadRepo
begin

text \<open>
  The tables the request side of the program shares (\<open>models.py\<close>): requests, their seasons, subscribers,
  the synchronised watchlists, the dedup locks, the history log and the blocklist, around the download
  store of \<open>DownloadRepo\<close>. An operation is a function from the database to an error or a result with the
  new database; \<open>bind_op\<close> runs two in a row. A statement is checked at its flush: a violated unique index or
  foreign key is \<open>IntegrityError\<close>, and the caller's transaction is rolled back. Statuses are the strings of
  the enumeration, converted where the code converts them.
\<close>

section \<open>Rows\<close>

record request_row =
  q_id :: int
  q_user_id :: "int option"
  q_tmdb_id :: int
  q_media_type :: media_type
  q_title :: string
  q_year :: "int option"
  q_status :: string
  q_is_anime :: "bool option"
  q_poster_url :: "string option"
  q_backdrop_url :: "string option"
  q_completed_at :: "datetime option"
  q_completion_generation :: "int option"
  q_library_verified_at :: "datetime option"
  q_library_removed_at :: "datetime option"
  q_available_heal_verified_at :: "datetime option"
  q_library_path :: "string option"
  q_partial_delete_path :: "string option"
  q_keep_forever :: bool
  q_search_attempts :: int
  q_next_search_at :: "datetime option"
  q_eviction_regrab :: "bool option"
  q_tv_request_mode :: "string option"
  q_requested_seasons :: "int list option"
  q_requested_episodes :: "(int \<times> int list) list option"

record season_row =
  z_id :: int
  z_media_request_id :: int
  z_season_number :: int
  z_status :: string
  z_library_path :: "string option"
  z_partial_delete_path :: "string option"
  z_search_attempts :: int
  z_next_search_at :: "datetime option"
  z_installed_quality_id :: "int option"
  z_installed_profile_index :: "int option"
  z_completed_at :: "datetime option"
  z_completion_generation :: "int option"
  z_eviction_regrab :: "bool option"
  z_airing_refresh_checked_at :: "datetime option"

record subscriber_row =
  sb_request_id :: int
  sb_user_id :: int
  sb_subscribed_at :: datetime

record watchlist_row =
  w_user_id :: int
  w_tmdb_id :: int
  w_media_type :: media_type

record history_row =
  h_id :: int
  h_tmdb_id :: "int option"
  h_torrent_hash :: "string option"
  h_event_type :: string
  h_source_title :: "string option"
  h_indexer :: "string option"
  h_message :: "string option"

record blocklist_row =
  b_id :: int
  b_source_title :: string
  b_reason :: string
  b_tmdb_id :: "int option"
  b_torrent_hash :: "string option"
  b_indexer :: "string option"
  b_protocol :: "string option"
  b_media_type :: "media_type option"

record app_db =
  a_users :: "int list"
  a_requests :: "request_row list"
  a_seasons :: "season_row list"
  a_subscribers :: "subscriber_row list"
  a_watchlist :: "watchlist_row list"
  a_locks :: "(int \<times> media_type) list"
  a_history :: "history_row list"
  a_blocklist :: "blocklist_row list"
  a_store :: repo_db
  a_next_id :: int

type_synonym 'a app_op = "app_db \<Rightarrow> repo_error + ('a \<times> app_db)"

definition return_op :: "'a \<Rightarrow> 'a app_op" where
  "return_op x db = Inr (x, db)"

definition bind_op :: "'a app_op \<Rightarrow> ('a \<Rightarrow> 'b app_op) \<Rightarrow> 'b app_op" where
  "bind_op m f db = (case m db of Inl e \<Rightarrow> Inl e | Inr (x, db') \<Rightarrow> f x db')"

lemma bind_op_Inr: "bind_op m f db = Inr r \<longleftrightarrow> (\<exists>x db'. m db = Inr (x, db') \<and> f x db' = Inr r)"
  by (auto simp: bind_op_def split: sum.splits)

lemma return_op_Inr [simp]: "return_op x db = Inr (y, db') \<longleftrightarrow> y = x \<and> db' = db"
  by (auto simp: return_op_def)

section \<open>Statuses\<close>

definition REQUEST_STATUSES :: "string list" where
  "REQUEST_STATUSES =
     [''pending'', ''searching'', ''no_acceptable_release'', ''waiting_for_air_date'', ''downloading'',
      ''completed'', ''available'', ''partially_available'', ''failed'', ''import_blocked'', ''evicted'',
      ''cancelled'']"

text \<open>The predicate of the partial unique index \<open>uq_media_requests_active\<close>.\<close>

definition ACTIVE_REQUEST_STATUSES :: "string list" where
  "ACTIVE_REQUEST_STATUSES =
     [''pending'', ''searching'', ''no_acceptable_release'', ''waiting_for_air_date'', ''downloading'',
      ''import_blocked'', ''completed'', ''partially_available'']"

definition request_status :: "string \<Rightarrow> repo_error + string" where
  "request_status s = (if s \<in> set REQUEST_STATUSES then Inr s else Inl ValueError)"

definition request_statuses :: "string list \<Rightarrow> bool" where
  "request_statuses ss \<longleftrightarrow> set ss \<subseteq> set REQUEST_STATUSES"

definition media_type :: "string \<Rightarrow> repo_error + media_type" where
  "media_type t = (if t = ''movie'' then Inr Movie else if t = ''tv'' then Inr Tv else Inl ValueError)"

definition media_value :: "media_type \<Rightarrow> string" where
  "media_value m = (case m of Movie \<Rightarrow> ''movie'' | Tv \<Rightarrow> ''tv'')"

definition req_active :: "request_row \<Rightarrow> bool" where
  "req_active r \<longleftrightarrow> q_status r \<in> set ACTIVE_REQUEST_STATUSES"

lemma media_type_value [simp]: "media_type (media_value m) = Inr m"
  by (cases m) (simp_all add: media_type_def media_value_def)

lemma media_type_Inr: "media_type t = Inr m \<longleftrightarrow> t = media_value m"
  by (cases m) (auto simp: media_type_def media_value_def)

section \<open>Constraints\<close>

definition request_keys :: "app_db \<Rightarrow> (int \<times> media_type) list" where
  "request_keys db = map (\<lambda>r. (q_tmdb_id r, q_media_type r)) (filter req_active (a_requests db))"

definition season_keys :: "app_db \<Rightarrow> (int \<times> int) list" where
  "season_keys db = map (\<lambda>z. (z_media_request_id z, z_season_number z)) (a_seasons db)"

definition app_unique :: "app_db \<Rightarrow> bool" where
  "app_unique db \<longleftrightarrow> distinct (map q_id (a_requests db)) \<and> distinct (map z_id (a_seasons db))
     \<and> distinct (request_keys db) \<and> distinct (season_keys db)
     \<and> distinct (map (\<lambda>s. (sb_request_id s, sb_user_id s)) (a_subscribers db)) \<and> distinct (a_locks db)"

definition app_refs :: "app_db \<Rightarrow> bool" where
  "app_refs db \<longleftrightarrow>
     list_all (\<lambda>r. case q_user_id r of None \<Rightarrow> True | Some u \<Rightarrow> u \<in> set (a_users db)) (a_requests db)
     \<and> list_all (\<lambda>z. z_media_request_id z \<in> q_id ` set (a_requests db)) (a_seasons db)
     \<and> list_all (\<lambda>s. sb_request_id s \<in> q_id ` set (a_requests db) \<and> sb_user_id s \<in> set (a_users db)) (a_subscribers db)"

definition app_flush :: "'a \<Rightarrow> 'a app_op" where
  "app_flush x db = (if app_unique db \<and> app_refs db then Inr (x, db) else Inl IntegrityError)"

lemma app_flush_Inr [simp]: "app_flush x db = Inr (y, db') \<longleftrightarrow> y = x \<and> db' = db \<and> app_unique db \<and> app_refs db"
  by (auto simp: app_flush_def)

text \<open>
  A savepoint (\<open>begin_nested\<close>): an \<open>IntegrityError\<close> inside it undoes its writes only and is handed to the
  handler, which goes on in the database the savepoint started from.
\<close>

definition savepoint :: "'a app_op \<Rightarrow> 'a app_op \<Rightarrow> 'a app_op" where
  "savepoint body handler db = (case body db of
       Inl e \<Rightarrow> if e = IntegrityError then handler db else Inl e
     | Inr r \<Rightarrow> Inr r)"

section \<open>Statements\<close>

definition find_req :: "app_db \<Rightarrow> int \<Rightarrow> request_row option" where
  "find_req db i = find (\<lambda>r. q_id r = i) (a_requests db)"

definition find_season :: "app_db \<Rightarrow> int \<Rightarrow> season_row option" where
  "find_season db i = find (\<lambda>z. z_id z = i) (a_seasons db)"

definition map_requests :: "(request_row \<Rightarrow> bool) \<Rightarrow> (request_row \<Rightarrow> request_row) \<Rightarrow> app_db \<Rightarrow> app_db" where
  "map_requests p f db = db\<lparr>a_requests := map (\<lambda>r. if p r then f r else r) (a_requests db)\<rparr>"

definition map_seasons :: "(season_row \<Rightarrow> bool) \<Rightarrow> (season_row \<Rightarrow> season_row) \<Rightarrow> app_db \<Rightarrow> app_db" where
  "map_seasons p f db = db\<lparr>a_seasons := map (\<lambda>z. if p z then f z else z) (a_seasons db)\<rparr>"

text \<open>\<open>UPDATE ... WHERE p\<close> with its row count compared to one.\<close>

definition update_requests :: "(request_row \<Rightarrow> bool) \<Rightarrow> (request_row \<Rightarrow> request_row) \<Rightarrow> bool app_op" where
  "update_requests p f db = app_flush (length (filter p (a_requests db)) = 1) (map_requests p f db)"

definition update_seasons :: "(season_row \<Rightarrow> bool) \<Rightarrow> (season_row \<Rightarrow> season_row) \<Rightarrow> bool app_op" where
  "update_seasons p f db = app_flush (length (filter p (a_seasons db)) = 1) (map_seasons p f db)"

text \<open>\<open>session.get\<close>, the honest \<open>LookupError\<close>, attribute writes, \<open>flush\<close>.\<close>

definition write_request :: "int \<Rightarrow> (request_row \<Rightarrow> request_row) \<Rightarrow> unit app_op" where
  "write_request i f db =
     (if find_req db i = None then Inl LookupError else app_flush () (map_requests (\<lambda>r. q_id r = i) f db))"

definition write_season :: "int \<Rightarrow> (season_row \<Rightarrow> season_row) \<Rightarrow> unit app_op" where
  "write_season i f db =
     (if find_season db i = None then Inl LookupError else app_flush () (map_seasons (\<lambda>z. z_id z = i) f db))"

text \<open>The download store beside the request tables it refers to.\<close>

definition request_key :: "request_row \<Rightarrow> request_key_row" where
  "request_key r = \<lparr>rk_id = q_id r, rk_tmdb_id = q_tmdb_id r, rk_media_type = q_media_type r\<rparr>"

definition season_key :: "season_row \<Rightarrow> season_key_row" where
  "season_key z = \<lparr>sk_id = z_id z, sk_media_request_id = z_media_request_id z, sk_season = z_season_number z\<rparr>"

definition store_of :: "app_db \<Rightarrow> repo_db" where
  "store_of db = (a_store db)\<lparr>db_requests := map request_key (a_requests db), db_seasons := map season_key (a_seasons db)\<rparr>"

definition on_store :: "(repo_db \<Rightarrow> 'a repo_result) \<Rightarrow> 'a app_op" where
  "on_store f db = (case f (store_of db) of Inl e \<Rightarrow> Inl e | Inr (x, st) \<Rightarrow> Inr (x, db\<lparr>a_store := st\<rparr>))"

definition of_sum :: "repo_error + 'a \<Rightarrow> 'a app_op" where
  "of_sum v db = (case v of Inl e \<Rightarrow> Inl e | Inr x \<Rightarrow> Inr (x, db))"

lemma of_sum_Inr [simp]: "of_sum v db = Inr (x, db') \<longleftrightarrow> v = Inr x \<and> db' = db"
  by (auto simp: of_sum_def split: sum.splits)

text \<open>Orders of the reads: by id, and by an optional key with \<open>NULL\<close>s first and the id as tie break.\<close>

definition by_req_id :: "request_row list \<Rightarrow> request_row list" where
  "by_req_id = sort_by (\<lambda>a b. q_id a \<le> q_id b)"

definition by_season_id :: "season_row list \<Rightarrow> season_row list" where
  "by_season_id = sort_by (\<lambda>a b. z_id a \<le> z_id b)"

definition nulls_first :: "('a \<Rightarrow> int option) \<Rightarrow> ('a \<Rightarrow> int) \<Rightarrow> 'a \<Rightarrow> 'a \<Rightarrow> bool" where
  "nulls_first key ident a b \<longleftrightarrow> (case (key a, key b) of
       (None, None) \<Rightarrow> ident a \<le> ident b
     | (None, Some _) \<Rightarrow> True
     | (Some _, None) \<Rightarrow> False
     | (Some m, Some n) \<Rightarrow> m < n \<or> (m = n \<and> ident a \<le> ident b))"

lemma nulls_first_total: "nulls_first key ident a b \<or> nulls_first key ident b a"
  by (auto simp: nulls_first_def split: option.splits)

lemma nulls_first_trans: "nulls_first key ident a b \<Longrightarrow> nulls_first key ident b c \<Longrightarrow> nulls_first key ident a c"
  by (auto simp: nulls_first_def split: option.splits)

lemma sort_nulls_first: "sorted_wrt (nulls_first key ident) (sort_by (nulls_first key ident) xs)"
  by (intro sort_by_sorted nulls_first_total) (rule nulls_first_trans)

end
