(* ===== verification/RequestRepo.thy ===== *)
theory RequestRepo
  imports RequestTables
begin

text \<open>
  The request repository (\<open>repositories/requests.py\<close>): every read and write of \<open>SqlRequestRepository\<close> over
  the tables of \<open>RequestTables\<close>. \<open>now\<close> is the clock reading of the call; a \<open>frozenset\<close> or list of ids is a
  list whose order does not matter. Stored timestamps are UTC, so \<open>_as_utc\<close> is the identity. The JSON
  object of requested episodes has its keys read back as integers.
\<close>

definition SETTLED_REQUEST_STATUSES :: "string list" where
  "SETTLED_REQUEST_STATUSES = [''available'', ''failed'', ''evicted'', ''cancelled'']"

definition settled :: "request_row \<Rightarrow> bool" where
  "settled r \<longleftrightarrow> q_status r \<in> set SETTLED_REQUEST_STATUSES"

section \<open>The read model\<close>

definition season_tuple :: "int list option \<Rightarrow> int list option" where
  "season_tuple v = map_option sorted_set v"

definition season_json :: "int list option \<Rightarrow> int list option" where
  "season_json v = (case v of None \<Rightarrow> None | Some _ \<Rightarrow> Some (case season_tuple v of None \<Rightarrow> [] | Some t \<Rightarrow> t))"

definition episode_map :: "(int \<times> int list) list option \<Rightarrow> (int \<times> int list) list option" where
  "episode_map v = map_option (map (\<lambda>(ssn, eps). (ssn, sorted_set eps))) v"

definition episode_json :: "(int \<times> int list) list option \<Rightarrow> (int \<times> int list) list option" where
  "episode_json v = map_option (map (\<lambda>(ssn, eps). (ssn, sorted_set eps))) v"

record request_record =
  rr_id :: int
  rr_tmdb_id :: int
  rr_media_type :: string
  rr_title :: string
  rr_status :: string
  rr_year :: "int option"
  rr_is_anime :: bool
  rr_user_id :: "int option"
  rr_poster_url :: "string option"
  rr_backdrop_url :: "string option"
  rr_library_path :: "string option"
  rr_partial_delete_path :: "string option"
  rr_completed_at :: "datetime option"
  rr_completion_generation :: "int option"
  rr_keep_forever :: bool
  rr_search_attempts :: int
  rr_next_search_at :: "datetime option"
  rr_eviction_regrab :: bool
  rr_tv_request_mode :: "string option"
  rr_requested_seasons :: "int list option"
  rr_requested_episodes :: "(int \<times> int list) list option"

definition to_record_req :: "request_row \<Rightarrow> request_record" where
  "to_record_req r = \<lparr>rr_id = q_id r, rr_tmdb_id = q_tmdb_id r, rr_media_type = media_value (q_media_type r),
     rr_title = q_title r, rr_status = q_status r, rr_year = q_year r, rr_is_anime = (q_is_anime r = Some True),
     rr_user_id = q_user_id r, rr_poster_url = q_poster_url r, rr_backdrop_url = q_backdrop_url r,
     rr_library_path = q_library_path r, rr_partial_delete_path = q_partial_delete_path r,
     rr_completed_at = q_completed_at r, rr_completion_generation = q_completion_generation r,
     rr_keep_forever = q_keep_forever r, rr_search_attempts = q_search_attempts r,
     rr_next_search_at = q_next_search_at r, rr_eviction_regrab = (q_eviction_regrab r = Some True),
     rr_tv_request_mode = q_tv_request_mode r, rr_requested_seasons = season_tuple (q_requested_seasons r),
     rr_requested_episodes = episode_map (q_requested_episodes r)\<rparr>"

section \<open>Subscribers\<close>

definition is_subscriber :: "app_db \<Rightarrow> int \<Rightarrow> int \<Rightarrow> bool" where
  "is_subscriber db rid uid = list_ex (\<lambda>s. sb_request_id s = rid \<and> sb_user_id s = uid) (a_subscribers db)"

text \<open>\<open>INSERT ... ON CONFLICT DO NOTHING\<close>.\<close>

definition add_subscriber :: "datetime \<Rightarrow> int \<Rightarrow> int \<Rightarrow> unit app_op" where
  "add_subscriber now rid uid db =
     (if is_subscriber db rid uid then Inr ((), db)
      else app_flush () (db\<lparr>a_subscribers := a_subscribers db @
             [\<lparr>sb_request_id = rid, sb_user_id = uid, sb_subscribed_at = now\<rparr>]\<rparr>))"

definition copy_subscribers :: "datetime \<Rightarrow> int \<Rightarrow> int \<Rightarrow> unit app_op" where
  "copy_subscribers now source target db =
     (let missing = filter (\<lambda>u. \<not> is_subscriber db target u)
                      (map sb_user_id (filter (\<lambda>s. sb_request_id s = source) (a_subscribers db)))
      in app_flush () (db\<lparr>a_subscribers := a_subscribers db @
           map (\<lambda>u. \<lparr>sb_request_id = target, sb_user_id = u, sb_subscribed_at = now\<rparr>) missing\<rparr>))"

definition remove_subscriber :: "int \<Rightarrow> int \<Rightarrow> unit app_op" where
  "remove_subscriber rid uid db = app_flush ()
     (db\<lparr>a_subscribers := filter (\<lambda>s. \<not> (sb_request_id s = rid \<and> sb_user_id s = uid)) (a_subscribers db)\<rparr>)"

definition list_subscribers :: "app_db \<Rightarrow> int \<Rightarrow> int list" where
  "list_subscribers db rid = map sb_user_id
     (sort_by (\<lambda>a b. sb_subscribed_at a < sb_subscribed_at b
          \<or> (sb_subscribed_at a = sb_subscribed_at b \<and> sb_user_id a \<le> sb_user_id b))
       (filter (\<lambda>s. sb_request_id s = rid) (a_subscribers db)))"

definition count_subscribers :: "app_db \<Rightarrow> int list \<Rightarrow> int \<Rightarrow> nat option" where
  "count_subscribers db ids rid =
     (let n = length (filter (\<lambda>s. sb_request_id s = rid) (a_subscribers db))
      in if rid \<in> set ids \<and> n \<noteq> 0 then Some n else None)"

definition subscribed_request_ids_among :: "app_db \<Rightarrow> int \<Rightarrow> int list \<Rightarrow> int list" where
  "subscribed_request_ids_among db uid ids =
     map sb_request_id (filter (\<lambda>s. sb_user_id s = uid \<and> sb_request_id s \<in> set ids) (a_subscribers db))"

definition set_owner :: "int \<Rightarrow> int option \<Rightarrow> unit app_op" where
  "set_owner rid uid = write_request rid (\<lambda>r. r\<lparr>q_user_id := uid\<rparr>)"

section \<open>Reads\<close>

definition get_req :: "app_db \<Rightarrow> int \<Rightarrow> request_record option" where
  "get_req db i = map_option to_record_req (find_req db i)"

definition get_many :: "app_db \<Rightarrow> int list \<Rightarrow> int \<Rightarrow> request_record option" where
  "get_many db ids i = (if i \<in> set ids then get_req db i else None)"

definition visible_to :: "app_db \<Rightarrow> int option \<Rightarrow> request_row \<Rightarrow> bool" where
  "visible_to db uid r = (case uid of None \<Rightarrow> True | Some u \<Rightarrow> is_subscriber db (q_id r) u)"

definition with_status :: "string option \<Rightarrow> request_row list \<Rightarrow> repo_error + request_row list" where
  "with_status status rows = (case status of
       None \<Rightarrow> Inr rows
     | Some s \<Rightarrow> map_sum id (\<lambda>s. filter (\<lambda>r. q_status r = s) rows) (request_status s))"

definition list_for_user :: "app_db \<Rightarrow> int \<Rightarrow> string option \<Rightarrow> repo_error + request_record list" where
  "list_for_user db uid status = map_sum id (map to_record_req)
     (with_status status (by_req_id (filter (visible_to db (Some uid)) (a_requests db))))"

definition list_by_status_req :: "app_db \<Rightarrow> string option \<Rightarrow> repo_error + request_record list" where
  "list_by_status_req db status =
     map_sum id (map to_record_req) (with_status status (by_req_id (a_requests db)))"

definition list_page :: "app_db \<Rightarrow> int option \<Rightarrow> int option \<Rightarrow> nat \<Rightarrow> request_record list" where
  "list_page db uid before_id limit = map to_record_req (take limit (rev (by_req_id
     (filter (\<lambda>r. visible_to db uid r \<and> (case before_id of None \<Rightarrow> True | Some b \<Rightarrow> q_id r < b)) (a_requests db)))))"

text \<open>The row that stands for a title: the oldest one in progress, else the newest.\<close>

definition representative :: "request_row list \<Rightarrow> request_row" where
  "representative rows = (case find (\<lambda>r. \<not> settled r) rows of Some r \<Rightarrow> r | None \<Rightarrow> last rows)"

definition title_key :: "request_row \<Rightarrow> int \<times> string" where
  "title_key r = (q_tmdb_id r, media_value (q_media_type r))"

definition list_personalization_history :: "app_db \<Rightarrow> int \<Rightarrow> request_record list" where
  "list_personalization_history db uid =
     (let rows = by_req_id (filter (\<lambda>r. q_user_id r = Some uid \<and> q_status r \<noteq> ''cancelled'') (a_requests db));
          chosen = map (\<lambda>k. representative (filter (\<lambda>r. title_key r = k) rows)) (remdups (map title_key rows))
      in map to_record_req (by_req_id chosen))"

definition rows_grouped_by_tmdb_ids ::
  "app_db \<Rightarrow> (int \<times> string) list \<Rightarrow> int option \<Rightarrow> int \<times> string \<Rightarrow> request_row list" where
  "rows_grouped_by_tmdb_ids db keys uid key = (if key \<in> set keys
     then filter (\<lambda>r. title_key r = key) (by_req_id (filter (visible_to db uid) (a_requests db))) else [])"

definition display_statuses_by_tmdb_ids ::
  "app_db \<Rightarrow> (int \<times> string) list \<Rightarrow> int option \<Rightarrow> int \<times> string \<Rightarrow> string option" where
  "display_statuses_by_tmdb_ids db keys uid key = (case rows_grouped_by_tmdb_ids db keys uid key of
       [] \<Rightarrow> None
     | rows \<Rightarrow> Some (q_status (representative rows)))"

record compact_request_state =
  cs_status :: string
  cs_request_id :: int
  cs_has_coexisting_available :: bool

definition compact_states_by_tmdb_ids ::
  "app_db \<Rightarrow> (int \<times> string) list \<Rightarrow> int option \<Rightarrow> int \<times> string \<Rightarrow> compact_request_state option" where
  "compact_states_by_tmdb_ids db keys uid key = (case rows_grouped_by_tmdb_ids db keys uid key of
       [] \<Rightarrow> None
     | r # rs \<Rightarrow>
         let chosen = representative (r # rs)
         in Some \<lparr>cs_status = q_status chosen, cs_request_id = q_id chosen,
              cs_has_coexisting_available = (snd key = ''movie''
                \<and> list_ex (\<lambda>x. q_id x \<noteq> q_id chosen \<and> q_status x = ''available'') (r # rs))\<rparr>)"

definition of_title :: "int \<Rightarrow> media_type \<Rightarrow> request_row \<Rightarrow> bool" where
  "of_title tmdb m r \<longleftrightarrow> q_tmdb_id r = tmdb \<and> q_media_type r = m"

definition list_for_title :: "app_db \<Rightarrow> int \<Rightarrow> string \<Rightarrow> int option \<Rightarrow> repo_error + request_record list" where
  "list_for_title db tmdb mt uid = map_sum id (\<lambda>m. map to_record_req
     (by_req_id (filter (\<lambda>r. of_title tmdb m r \<and> visible_to db uid r) (a_requests db)))) (media_type mt)"

definition find_active :: "app_db \<Rightarrow> int \<Rightarrow> string \<Rightarrow> repo_error + request_record option" where
  "find_active db tmdb mt = map_sum id (\<lambda>m. map_option to_record_req
     (find (\<lambda>r. of_title tmdb m r \<and> \<not> settled r) (by_req_id (a_requests db)))) (media_type mt)"

definition ownership_rank :: "int \<Rightarrow> request_row \<Rightarrow> int" where
  "ownership_rank uid r = (case q_user_id r of None \<Rightarrow> 1 | Some u \<Rightarrow> if u = uid then 0 else 2)"

definition find_in_library :: "app_db \<Rightarrow> int \<Rightarrow> string \<Rightarrow> int option \<Rightarrow> repo_error + request_record option" where
  "find_in_library db tmdb mt prefer_user = map_sum id (\<lambda>m.
     let rows = rev (by_req_id (filter (\<lambda>r. of_title tmdb m r \<and> q_status r \<in> {''available'', ''completed''}) (a_requests db)));
         ordered = (case prefer_user of None \<Rightarrow> rows
                    | Some u \<Rightarrow> sort_by (\<lambda>a b. ownership_rank u a \<le> ownership_rank u b) rows)
     in case ordered of [] \<Rightarrow> None | r # _ \<Rightarrow> Some (to_record_req r)) (media_type mt)"

definition find_earliest_available :: "app_db \<Rightarrow> int \<Rightarrow> string \<Rightarrow> repo_error + request_record option" where
  "find_earliest_available db tmdb mt = map_sum id (\<lambda>m. map_option to_record_req
     (find (\<lambda>r. of_title tmdb m r \<and> q_status r = ''available'') (by_req_id (a_requests db)))) (media_type mt)"

definition latest_request_evicted :: "app_db \<Rightarrow> int \<Rightarrow> string \<Rightarrow> repo_error + bool" where
  "latest_request_evicted db tmdb mt = map_sum id (\<lambda>m.
     case find (\<lambda>r. of_title tmdb m r
            \<and> (q_status r \<in> {''evicted'', ''available'', ''completed''} \<or> q_library_removed_at r \<noteq> None))
          (rev (by_req_id (a_requests db))) of
       None \<Rightarrow> False
     | Some r \<Rightarrow> q_status r = ''evicted'' \<or> q_library_removed_at r \<noteq> None) (media_type mt)"

definition list_for_media :: "app_db \<Rightarrow> int \<Rightarrow> string \<Rightarrow> string list \<Rightarrow> repo_error + request_record list" where
  "list_for_media db tmdb mt statuses = (case media_type mt of
       Inl e \<Rightarrow> Inl e
     | Inr m \<Rightarrow>
         if \<not> request_statuses statuses then Inl ValueError
         else Inr (map to_record_req (by_req_id
                (filter (\<lambda>r. of_title tmdb m r \<and> q_status r \<in> set statuses) (a_requests db)))))"

definition latest_library_path :: "app_db \<Rightarrow> int \<Rightarrow> string \<Rightarrow> repo_error + string option" where
  "latest_library_path db tmdb mt = map_sum id (\<lambda>m.
     case find (\<lambda>r. of_title tmdb m r \<and> q_library_path r \<noteq> None) (rev (by_req_id (a_requests db))) of
       None \<Rightarrow> None | Some r \<Rightarrow> q_library_path r) (media_type mt)"

definition other_row_claims_path_req :: "app_db \<Rightarrow> string \<Rightarrow> int option \<Rightarrow> bool" where
  "other_row_claims_path_req db path exclude = list_ex (\<lambda>r. q_library_path r = Some path
     \<and> q_status r \<notin> {''evicted'', ''cancelled''} \<and> exclude \<noteq> Some (q_id r)) (a_requests db)"

definition list_false_available_movies :: "app_db \<Rightarrow> nat \<Rightarrow> request_record list" where
  "list_false_available_movies db limit = map to_record_req (take limit (by_req_id
     (filter (\<lambda>r. q_media_type r = Movie \<and> q_status r = ''available'' \<and> q_library_path r = None
        \<and> q_available_heal_verified_at r = None) (a_requests db))))"

section \<open>The auto-grab queue\<close>

definition parked_status :: string where
  "parked_status = ''no_acceptable_release''"

definition due_now :: "datetime \<Rightarrow> string \<Rightarrow> datetime option \<Rightarrow> bool" where
  "due_now now status next_search \<longleftrightarrow> status \<noteq> parked_status
     \<or> (case next_search of None \<Rightarrow> True | Some t \<Rightarrow> t \<le> now)"

definition effective_due :: "string \<Rightarrow> datetime option \<Rightarrow> datetime option" where
  "effective_due status next_search = (if status = parked_status then next_search else None)"

definition list_due_for_search_req :: "app_db \<Rightarrow> string list \<Rightarrow> datetime \<Rightarrow> repo_error + request_record list" where
  "list_due_for_search_req db statuses now =
     (if \<not> request_statuses statuses then Inl ValueError
      else Inr (map to_record_req
        (sort_by (nulls_first (\<lambda>r. effective_due (q_status r) (q_next_search_at r)) q_id)
          (filter (\<lambda>r. q_media_type r = Movie \<and> q_status r \<in> set statuses
             \<and> due_now now (q_status r) (q_next_search_at r)) (a_requests db)))))"

definition schedule_search_req :: "int \<Rightarrow> int \<Rightarrow> datetime option \<Rightarrow> unit app_op" where
  "schedule_search_req rid attempts next_at =
     write_request rid (\<lambda>r. r\<lparr>q_search_attempts := attempts, q_next_search_at := next_at\<rparr>)"

section \<open>Creating and deleting\<close>

definition acquire_media_lock :: "int \<Rightarrow> string \<Rightarrow> unit app_op" where
  "acquire_media_lock tmdb mt = bind_op (of_sum (media_type mt)) (\<lambda>m db.
     if (tmdb, m) \<in> set (a_locks db) then Inr ((), db)
     else app_flush () (db\<lparr>a_locks := a_locks db @ [(tmdb, m)]\<rparr>))"

text \<open>The keyword arguments of \<open>create\<close> beside the four required ones.\<close>

record new_request =
  nr_year :: "int option"
  nr_is_anime :: bool
  nr_user_id :: "int option"
  nr_poster_url :: "string option"
  nr_backdrop_url :: "string option"
  nr_eviction_regrab :: bool
  nr_tv_request_mode :: "string option"
  nr_requested_seasons :: "int list option"
  nr_requested_episodes :: "(int \<times> int list) list option"

definition plain_request :: new_request where
  "plain_request = \<lparr>nr_year = None, nr_is_anime = False, nr_user_id = None, nr_poster_url = None,
     nr_backdrop_url = None, nr_eviction_regrab = False, nr_tv_request_mode = None,
     nr_requested_seasons = None, nr_requested_episodes = None\<rparr>"

definition new_request_row :: "int \<Rightarrow> int \<Rightarrow> media_type \<Rightarrow> string \<Rightarrow> string \<Rightarrow> new_request \<Rightarrow> request_row" where
  "new_request_row i tmdb m title status u =
     \<lparr>q_id = i, q_user_id = nr_user_id u, q_tmdb_id = tmdb, q_media_type = m, q_title = title,
      q_year = nr_year u, q_status = status, q_is_anime = Some (nr_is_anime u), q_poster_url = nr_poster_url u,
      q_backdrop_url = nr_backdrop_url u, q_completed_at = None, q_completion_generation = None,
      q_library_verified_at = None, q_library_removed_at = None, q_available_heal_verified_at = None,
      q_library_path = None, q_partial_delete_path = None, q_keep_forever = False, q_search_attempts = 0,
      q_next_search_at = None, q_eviction_regrab = Some (nr_eviction_regrab u),
      q_tv_request_mode = nr_tv_request_mode u, q_requested_seasons = season_json (nr_requested_seasons u),
      q_requested_episodes = episode_json (nr_requested_episodes u)\<rparr>"

definition insert_request :: "request_row \<Rightarrow> unit app_op" where
  "insert_request r db =
     app_flush () (db\<lparr>a_requests := a_requests db @ [r], a_next_id := a_next_id db + 1\<rparr>)"

definition create_req ::
  "datetime \<Rightarrow> int \<Rightarrow> string \<Rightarrow> string \<Rightarrow> string \<Rightarrow> new_request \<Rightarrow> request_record app_op" where
  "create_req now tmdb mt title status u =
     bind_op (of_sum (media_type mt)) (\<lambda>m.
     bind_op (of_sum (request_status status)) (\<lambda>st db.
       let r = new_request_row (a_next_id db) tmdb m title st u
       in bind_op (insert_request r) (\<lambda>_.
          bind_op (case nr_user_id u of None \<Rightarrow> return_op () | Some uid \<Rightarrow> add_subscriber now (q_id r) uid) (\<lambda>_.
          return_op (to_record_req r))) db))"

text \<open>
  Deleting a request takes its subscriber rows and its seasons along (\<open>CASCADE\<close>) and sets the references
  the download tables hold to it or to its seasons to \<open>NULL\<close>.
\<close>

definition forget :: "int set \<Rightarrow> int option \<Rightarrow> int option" where
  "forget gone ref = (case ref of None \<Rightarrow> None | Some i \<Rightarrow> if i \<in> gone then None else Some i)"

definition detach_store :: "int set \<Rightarrow> int set \<Rightarrow> repo_db \<Rightarrow> repo_db" where
  "detach_store reqs seasons st = st\<lparr>
     db_downloads := map (\<lambda>d. d\<lparr>d_media_request_id := forget reqs (d_media_request_id d)\<rparr>) (db_downloads st),
     db_scopes := map (\<lambda>s. s\<lparr>s_media_request_id := forget reqs (s_media_request_id s),
                           s_season_request_id := forget seasons (s_season_request_id s)\<rparr>) (db_scopes st),
     db_claims := map (\<lambda>c. c\<lparr>c_media_request_id := forget reqs (c_media_request_id c)\<rparr>) (db_claims st)\<rparr>"

definition delete_requests :: "(request_row \<Rightarrow> bool) \<Rightarrow> app_db \<Rightarrow> app_db" where
  "delete_requests p db =
     (let reqs = q_id ` set (filter p (a_requests db));
          seasons = z_id ` set (filter (\<lambda>z. z_media_request_id z \<in> reqs) (a_seasons db))
      in db\<lparr>a_requests := filter (\<lambda>r. q_id r \<notin> reqs) (a_requests db),
            a_seasons := filter (\<lambda>z. z_media_request_id z \<notin> reqs) (a_seasons db),
            a_subscribers := filter (\<lambda>s. sb_request_id s \<notin> reqs) (a_subscribers db),
            a_store := detach_store reqs seasons (a_store db)\<rparr>)"

definition delete_req :: "int \<Rightarrow> unit app_op" where
  "delete_req rid db = app_flush () (delete_requests (\<lambda>r. q_id r = rid) db)"

text \<open>The signature of a row that claims presence in the library without a placed file.\<close>

definition false_available :: "request_row \<Rightarrow> bool" where
  "false_available r \<longleftrightarrow> q_status r = ''available'' \<and> q_library_path r = None"

definition delete_false_available_sibling_collapse :: "int \<Rightarrow> int option \<Rightarrow> bool app_op" where
  "delete_false_available_sibling_collapse rid expected_user db =
     (let hit = (\<lambda>r. q_id r = rid \<and> false_available r \<and> q_user_id r = expected_user)
      in app_flush (length (filter hit (a_requests db)) = 1) (delete_requests hit db))"

section \<open>Single-row writes\<close>

definition set_tv_request_intent ::
  "int \<Rightarrow> string \<Rightarrow> int list option \<Rightarrow> (int \<times> int list) list option \<Rightarrow> unit app_op" where
  "set_tv_request_intent rid mode seasons episodes = write_request rid (\<lambda>r. r\<lparr>q_tv_request_mode := Some mode,
     q_requested_seasons := season_json seasons, q_requested_episodes := episode_json episodes\<rparr>)"

definition set_status_req :: "int \<Rightarrow> string \<Rightarrow> unit app_op" where
  "set_status_req rid status db =
     (if find_req db rid = None then Inl LookupError
      else bind_op (of_sum (request_status status)) (\<lambda>st. write_request rid (\<lambda>r. r\<lparr>q_status := st\<rparr>)) db)"

definition set_library_path_req :: "int \<Rightarrow> string \<Rightarrow> unit app_op" where
  "set_library_path_req rid path = write_request rid (\<lambda>r. r\<lparr>q_library_path := Some path,
     q_partial_delete_path := None, q_library_removed_at := None\<rparr>)"

definition set_partial_delete_path_req :: "int \<Rightarrow> string \<Rightarrow> unit app_op" where
  "set_partial_delete_path_req rid path = write_request rid (\<lambda>r. r\<lparr>q_partial_delete_path := Some path\<rparr>)"

definition clear_partial_delete_path_req :: "int \<Rightarrow> unit app_op" where
  "clear_partial_delete_path_req rid = write_request rid (\<lambda>r. r\<lparr>q_partial_delete_path := None\<rparr>)"

definition clear_library_path_req :: "datetime \<Rightarrow> int \<Rightarrow> bool \<Rightarrow> unit app_op" where
  "clear_library_path_req now rid mark_removed = write_request rid (\<lambda>r. r\<lparr>q_library_path := None,
     q_partial_delete_path := None,
     q_library_removed_at := (if mark_removed then Some now else q_library_removed_at r)\<rparr>)"

definition reset_for_research_req :: "int \<Rightarrow> bool \<Rightarrow> unit app_op" where
  "reset_for_research_req rid clear_path = write_request rid (\<lambda>r. r\<lparr>q_status := ''searching'',
     q_library_path := (if clear_path then None else q_library_path r),
     q_partial_delete_path := (if clear_path then None else q_partial_delete_path r),
     q_completed_at := None, q_library_verified_at := None, q_search_attempts := 0, q_next_search_at := None,
     q_eviction_regrab := Some False\<rparr>)"

definition set_keep_forever :: "int \<Rightarrow> bool \<Rightarrow> unit app_op" where
  "set_keep_forever rid pin = write_request rid (\<lambda>r. r\<lparr>q_keep_forever := pin\<rparr>)"

definition set_keep_forever_for_title :: "int \<Rightarrow> string \<Rightarrow> bool \<Rightarrow> int option \<Rightarrow> unit app_op" where
  "set_keep_forever_for_title tmdb mt pin restrict = bind_op (of_sum (media_type mt)) (\<lambda>m db.
     app_flush () (map_requests (\<lambda>r. of_title tmdb m r
        \<and> (case restrict of None \<Rightarrow> True | Some u \<Rightarrow> q_user_id r = Some u)) (\<lambda>r. r\<lparr>q_keep_forever := pin\<rparr>) db))"

section \<open>Compare and swap\<close>

definition watchlisted :: "app_db \<Rightarrow> int \<Rightarrow> media_type \<Rightarrow> bool" where
  "watchlisted db tmdb m = list_ex (\<lambda>w. w_tmdb_id w = tmdb \<and> w_media_type w = m) (a_watchlist db)"

definition set_status_if_in_req :: "int \<Rightarrow> string \<Rightarrow> string list \<Rightarrow> bool \<Rightarrow> bool \<Rightarrow> bool app_op" where
  "set_status_if_in_req rid status allowed require_unpinned require_not_watchlisted db =
     (if \<not> request_statuses allowed \<or> status \<notin> set REQUEST_STATUSES then Inl ValueError
      else update_requests (\<lambda>r. q_id r = rid \<and> q_status r \<in> set allowed
             \<and> (require_unpinned \<longrightarrow> \<not> q_keep_forever r)
             \<and> (require_not_watchlisted \<longrightarrow> \<not> watchlisted db (q_tmdb_id r) (q_media_type r)))
           (\<lambda>r. r\<lparr>q_status := status\<rparr>) db)"

definition next_generation :: "int option \<Rightarrow> int option" where
  "next_generation g = Some (coalesce g 0 + 1)"

definition mark_completed_req :: "datetime \<Rightarrow> int \<Rightarrow> unit app_op" where
  "mark_completed_req now rid = bind_op (update_requests (\<lambda>r. q_id r = rid) (\<lambda>r. r\<lparr>q_status := ''completed'',
       q_completed_at := Some now, q_completion_generation := next_generation (q_completion_generation r)\<rparr>))
     (\<lambda>hit. if hit then return_op () else of_sum (Inl LookupError))"

definition stamp_completed_at_if_unset :: "datetime \<Rightarrow> int \<Rightarrow> unit app_op" where
  "stamp_completed_at_if_unset now rid =
     bind_op (update_requests (\<lambda>r. q_id r = rid \<and> q_completed_at r = None) (\<lambda>r. r\<lparr>q_completed_at := Some now\<rparr>))
     (\<lambda>hit db. if \<not> hit \<and> find_req db rid = None then Inl LookupError else Inr ((), db))"

definition mark_available_req :: "datetime \<Rightarrow> int \<Rightarrow> int option \<Rightarrow> bool app_op" where
  "mark_available_req now rid expected_generation =
     bind_op (update_requests (\<lambda>r. q_id r = rid \<and> q_status r \<in> {''completed'', ''available''}
          \<and> q_completion_generation r = expected_generation)
        (\<lambda>r. r\<lparr>q_status := ''available'', q_library_verified_at := Some now, q_eviction_regrab := Some False\<rparr>))
     (\<lambda>hit. if \<not> hit then return_op False
        else bind_op (stamp_completed_at_if_unset now rid) (\<lambda>_. return_op True))"

definition claim_if_unowned :: "int \<Rightarrow> int \<Rightarrow> bool app_op" where
  "claim_if_unowned rid uid =
     update_requests (\<lambda>r. q_id r = rid \<and> q_user_id r = None) (\<lambda>r. r\<lparr>q_user_id := Some uid\<rparr>)"

definition clear_library_path_if_set_req ::
  "datetime \<Rightarrow> int \<Rightarrow> string option \<Rightarrow> string list option \<Rightarrow> bool \<Rightarrow> bool app_op" where
  "clear_library_path_if_set_req now rid expected_path expected_statuses mark_removed db =
     (if (case expected_statuses of None \<Rightarrow> False | Some ss \<Rightarrow> \<not> request_statuses ss) then Inl ValueError
      else update_requests (\<lambda>r. q_id r = rid \<and> q_library_path r \<noteq> None
             \<and> (expected_path = None \<or> q_library_path r = expected_path)
             \<and> (case expected_statuses of None \<Rightarrow> True | Some ss \<Rightarrow> q_status r \<in> set ss))
           (\<lambda>r. r\<lparr>q_library_path := None, q_partial_delete_path := None,
              q_library_removed_at := (if mark_removed then Some now else q_library_removed_at r)\<rparr>) db)"

definition confirm_partial_delete_marker_req :: "int \<Rightarrow> string \<Rightarrow> bool \<Rightarrow> bool app_op" where
  "confirm_partial_delete_marker_req rid path honor_keep_forever =
     update_requests (\<lambda>r. q_id r = rid \<and> q_library_path r = Some path \<and> q_partial_delete_path r = Some path
        \<and> (honor_keep_forever \<longrightarrow> \<not> q_keep_forever r)) (\<lambda>r. r\<lparr>q_partial_delete_path := Some path\<rparr>)"

definition mark_heal_verified_present :: "datetime \<Rightarrow> int \<Rightarrow> bool app_op" where
  "mark_heal_verified_present now rid =
     update_requests (\<lambda>r. q_id r = rid \<and> false_available r \<and> q_available_heal_verified_at r = None)
       (\<lambda>r. r\<lparr>q_available_heal_verified_at := Some now, q_library_verified_at := Some now\<rparr>)"

definition rearm_false_available_to_pending :: "int \<Rightarrow> bool app_op" where
  "rearm_false_available_to_pending rid =
     update_requests (\<lambda>r. q_id r = rid \<and> false_available r)
       (\<lambda>r. r\<lparr>q_status := ''pending'', q_library_verified_at := None, q_completed_at := None,
          q_search_attempts := 0, q_next_search_at := None\<rparr>)"

section \<open>The completion stamp of a show\<close>

text \<open>The last \<open>imported\<close> event of a torrent, and whether the show was evicted after it.\<close>

definition latest_import_event_id :: "app_db \<Rightarrow> download_row \<Rightarrow> int option" where
  "latest_import_event_id db d =
     (let ids = map h_id (filter (\<lambda>h. h_torrent_hash h = Some (d_torrent_hash d) \<and> h_event_type h = ''imported'')
                  (a_history db))
      in if ids = [] then None else Some (Max (set ids)))"

definition evicted_since_import :: "app_db \<Rightarrow> request_row \<Rightarrow> download_row \<Rightarrow> bool" where
  "evicted_since_import db r d = list_ex (\<lambda>h. h_tmdb_id h = Some (q_tmdb_id r) \<and> h_event_type h = ''evicted''
     \<and> h_id h > coalesce (latest_import_event_id db d) (-1)) (a_history db)"

definition season_genuinely_imported :: "app_db \<Rightarrow> request_row \<Rightarrow> season_row \<Rightarrow> bool" where
  "season_genuinely_imported db r z = list_ex (\<lambda>d. d_media_request_id d = Some (z_media_request_id z)
     \<and> d_season d = Some (z_season_number z) \<and> d_status d = ''imported'' \<and> \<not> evicted_since_import db r d)
     (db_downloads (a_store db))"

definition completion_backed :: "app_db \<Rightarrow> request_row \<Rightarrow> bool" where
  "completion_backed db r = list_ex (\<lambda>z. z_media_request_id z = q_id r \<and> z_status z \<in> {''completed'', ''available''}
     \<and> (z_library_path z \<noteq> None \<or> season_genuinely_imported db r z)) (a_seasons db)"

definition heal_completed_at :: "datetime \<Rightarrow> int \<Rightarrow> unit app_op" where
  "heal_completed_at now rid =
     bind_op (\<lambda>db. update_requests (\<lambda>r. q_id r = rid \<and> q_completed_at r \<noteq> None \<and> \<not> completion_backed db r)
                (\<lambda>r. r\<lparr>q_completed_at := None\<rparr>) db) (\<lambda>_.
     bind_op (\<lambda>db. update_requests (\<lambda>r. q_id r = rid \<and> q_completed_at r = None \<and> completion_backed db r)
                (\<lambda>r. r\<lparr>q_completed_at := Some now\<rparr>) db) (\<lambda>_. return_op ()))"
end
