(* ===== verification/SeasonRepo.thy ===== *)
theory SeasonRepo
  imports RequestRepo
begin

text \<open>
  The season repository (\<open>repositories/season_requests.py\<close>): reads and writes of \<open>SqlSeasonRequestRepository\<close>.
  The compare-and-swap of a season looks at three other tables in the same statement: the coverage claims
  of the download store, the pin on the parent request and the watchlists.
\<close>

record season_record =
  zr_id :: int
  zr_media_request_id :: int
  zr_season_number :: int
  zr_status :: string
  zr_tmdb_id :: int
  zr_library_path :: "string option"
  zr_partial_delete_path :: "string option"
  zr_installed_quality_id :: "int option"
  zr_installed_profile_index :: "int option"
  zr_search_attempts :: int
  zr_next_search_at :: "datetime option"
  zr_completed_at :: "datetime option"
  zr_completion_generation :: "int option"
  zr_eviction_regrab :: bool

definition to_record_sea :: "season_row \<Rightarrow> int \<Rightarrow> season_record" where
  "to_record_sea z tmdb = \<lparr>zr_id = z_id z, zr_media_request_id = z_media_request_id z,
     zr_season_number = z_season_number z, zr_status = z_status z, zr_tmdb_id = tmdb,
     zr_library_path = z_library_path z, zr_partial_delete_path = z_partial_delete_path z,
     zr_installed_quality_id = z_installed_quality_id z, zr_installed_profile_index = z_installed_profile_index z,
     zr_search_attempts = z_search_attempts z, zr_next_search_at = z_next_search_at z,
     zr_completed_at = z_completed_at z, zr_completion_generation = z_completion_generation z,
     zr_eviction_regrab = (z_eviction_regrab z = Some True)\<rparr>"

text \<open>
  The bookkeeping that goes with a move to a status: entering \<open>completed\<close> stamps the time and advances the
  generation, \<open>available\<close> keeps both, every other status clears the time. The generation is never reset.
\<close>

definition completion_write_values :: "datetime \<Rightarrow> string \<Rightarrow> season_row \<Rightarrow> season_row" where
  "completion_write_values now target z =
     (if target = ''completed'' then z\<lparr>z_completed_at := Some now,
        z_completion_generation := next_generation (z_completion_generation z)\<rparr>
      else if target = ''available'' then z
      else z\<lparr>z_completed_at := None\<rparr>)"

section \<open>Reads\<close>

definition find_sea :: "app_db \<Rightarrow> int \<Rightarrow> int \<Rightarrow> season_row option" where
  "find_sea db mr n = find (\<lambda>z. z_media_request_id z = mr \<and> z_season_number z = n) (a_seasons db)"

definition tmdb_id_for :: "app_db \<Rightarrow> int \<Rightarrow> repo_error + int" where
  "tmdb_id_for db mr = (case find_req db mr of None \<Rightarrow> Inl LookupError | Some r \<Rightarrow> Inr (q_tmdb_id r))"

definition record_of :: "app_db \<Rightarrow> season_row \<Rightarrow> repo_error + season_record" where
  "record_of db z = map_sum id (to_record_sea z) (tmdb_id_for db (z_media_request_id z))"

definition get_sea :: "app_db \<Rightarrow> int \<Rightarrow> repo_error + season_record option" where
  "get_sea db i = (case find_season db i of None \<Rightarrow> Inr None | Some z \<Rightarrow> map_sum id Some (record_of db z))"

text \<open>The rows joined with their parent's \<open>tmdb_id\<close>; a row without a parent would drop out.\<close>

definition joined :: "app_db \<Rightarrow> season_row list \<Rightarrow> season_record list" where
  "joined db zs = concat (map (\<lambda>z. case find_req db (z_media_request_id z) of
      None \<Rightarrow> [] | Some r \<Rightarrow> [to_record_sea z (q_tmdb_id r)]) zs)"

definition by_season_number :: "season_row list \<Rightarrow> season_row list" where
  "by_season_number = sort_by (\<lambda>a b. z_season_number a \<le> z_season_number b)"

definition list_for_request_sea :: "app_db \<Rightarrow> int \<Rightarrow> repo_error + season_record list" where
  "list_for_request_sea db mr =
     (let rows = by_season_number (filter (\<lambda>z. z_media_request_id z = mr) (a_seasons db))
      in if rows = [] then Inr [] else map_sum id (\<lambda>tmdb. map (\<lambda>z. to_record_sea z tmdb) rows) (tmdb_id_for db mr))"

definition list_for_requests_sea :: "app_db \<Rightarrow> int list \<Rightarrow> int \<Rightarrow> season_record list option" where
  "list_for_requests_sea db mrs mr =
     (let rows = joined db (by_season_number (filter (\<lambda>z. z_media_request_id z = mr) (a_seasons db)))
      in if mr \<notin> set mrs \<or> rows = [] then None else Some rows)"

definition parent_is_tv :: "app_db \<Rightarrow> int \<Rightarrow> season_row \<Rightarrow> bool" where
  "parent_is_tv db tmdb z = (case find_req db (z_media_request_id z) of
      None \<Rightarrow> False | Some r \<Rightarrow> of_title tmdb Tv r)"

definition evicted_seasons :: "app_db \<Rightarrow> int \<Rightarrow> int set" where
  "evicted_seasons db tmdb =
     (let rows = by_season_id (filter (\<lambda>z. parent_is_tv db tmdb z \<and> z_status z \<noteq> ''cancelled'') (a_seasons db));
          newest = dict_by z_season_number rows
      in {n \<in> z_season_number ` set rows. map_option z_status (newest n) = Some ''evicted''})"

definition list_sibling_seasons :: "app_db \<Rightarrow> int \<Rightarrow> int \<Rightarrow> string list \<Rightarrow> int \<Rightarrow> repo_error + season_record list" where
  "list_sibling_seasons db tmdb n statuses exclude =
     (if \<not> request_statuses statuses then Inl ValueError
      else Inr (joined db (by_season_id (filter (\<lambda>z. parent_is_tv db tmdb z \<and> z_season_number z = n
             \<and> z_id z \<noteq> exclude \<and> z_status z \<in> set statuses) (a_seasons db)))))"

definition other_row_claims_path_sea :: "app_db \<Rightarrow> string \<Rightarrow> int option \<Rightarrow> bool" where
  "other_row_claims_path_sea db path exclude = list_ex (\<lambda>z. z_library_path z = Some path
     \<and> z_status z \<notin> {''evicted'', ''cancelled''} \<and> exclude \<noteq> Some (z_id z)) (a_seasons db)"

definition list_by_status_sea :: "app_db \<Rightarrow> string option \<Rightarrow> repo_error + season_record list" where
  "list_by_status_sea db status = (case status of
       None \<Rightarrow> Inr (joined db (by_season_id (a_seasons db)))
     | Some s \<Rightarrow> map_sum id (\<lambda>s. joined db (by_season_id (filter (\<lambda>z. z_status z = s) (a_seasons db)))) (request_status s))"

text \<open>A failing lookup of one row fails the list.\<close>

fun all_records :: "app_db \<Rightarrow> season_row list \<Rightarrow> repo_error + season_record list" where
  "all_records db [] = Inr []"
| "all_records db (z # zs) = (case record_of db z of
     Inl e \<Rightarrow> Inl e
   | Inr r \<Rightarrow> map_sum id (Cons r) (all_records db zs))"

definition list_for_airing_refresh ::
  "app_db \<Rightarrow> string list \<Rightarrow> nat \<Rightarrow> datetime option \<Rightarrow> repo_error + season_record list" where
  "list_for_airing_refresh db statuses limit checked_before =
     (if \<not> request_statuses statuses then Inl ValueError
      else all_records db (take limit (sort_by (nulls_first z_airing_refresh_checked_at z_id)
        (filter (\<lambda>z. z_status z \<in> set statuses \<and> (case checked_before of None \<Rightarrow> True
            | Some cutoff \<Rightarrow> (case z_airing_refresh_checked_at z of None \<Rightarrow> True | Some t \<Rightarrow> t < cutoff))) (a_seasons db)))))"

definition list_due_for_search_sea :: "app_db \<Rightarrow> string list \<Rightarrow> datetime \<Rightarrow> repo_error + season_record list" where
  "list_due_for_search_sea db statuses now =
     (if \<not> request_statuses statuses then Inl ValueError
      else Inr (joined db
        (sort_by (nulls_first (\<lambda>z. effective_due (z_status z) (z_next_search_at z)) z_id)
          (filter (\<lambda>z. z_status z \<in> set statuses \<and> due_now now (z_status z) (z_next_search_at z)) (a_seasons db)))))"

section \<open>Writes\<close>

definition new_season :: "int \<Rightarrow> int \<Rightarrow> int \<Rightarrow> string \<Rightarrow> bool \<Rightarrow> season_row" where
  "new_season i mr n status regrab = \<lparr>z_id = i, z_media_request_id = mr, z_season_number = n, z_status = status,
     z_library_path = None, z_partial_delete_path = None, z_search_attempts = 0, z_next_search_at = None,
     z_installed_quality_id = None, z_installed_profile_index = None, z_completed_at = None,
     z_completion_generation = None, z_eviction_regrab = Some regrab, z_airing_refresh_checked_at = None\<rparr>"

definition insert_season :: "season_row \<Rightarrow> unit app_op" where
  "insert_season z db = app_flush () (db\<lparr>a_seasons := a_seasons db @ [z], a_next_id := a_next_id db + 1\<rparr>)"

text \<open>
  \<open>ensure\<close> after its first read: \<open>seen\<close> is what \<open>_find\<close> returned, the database may hold more by now. The
  insert runs in a savepoint; losing the race resolves to the winner's row.
\<close>

definition ensure_from :: "season_row option \<Rightarrow> int \<Rightarrow> int \<Rightarrow> string \<Rightarrow> bool \<Rightarrow> season_record app_op" where
  "ensure_from seen mr n status regrab = (case seen of
       Some z \<Rightarrow> (\<lambda>db. of_sum (map_sum id (to_record_sea z) (tmdb_id_for db mr)) db)
     | None \<Rightarrow> bind_op (of_sum (request_status status)) (\<lambda>st.
         savepoint
           (\<lambda>db. let z = new_season (a_next_id db) mr n st regrab
                 in bind_op (insert_season z) (\<lambda>_ db'. of_sum (map_sum id (to_record_sea z) (tmdb_id_for db' mr)) db') db)
           (\<lambda>db. case find_sea db mr n of
               None \<Rightarrow> Inl IntegrityError
             | Some w \<Rightarrow> of_sum (map_sum id (to_record_sea w) (tmdb_id_for db mr)) db)))"

definition ensure_sea :: "int \<Rightarrow> int \<Rightarrow> string \<Rightarrow> bool \<Rightarrow> season_record app_op" where
  "ensure_sea mr n status regrab db = ensure_from (find_sea db mr n) mr n status regrab db"

definition mark_airing_refresh_checked :: "int \<Rightarrow> datetime \<Rightarrow> unit app_op" where
  "mark_airing_refresh_checked sid stamp = write_season sid (\<lambda>z. z\<lparr>z_airing_refresh_checked_at := Some stamp\<rparr>)"

definition schedule_search_sea :: "int \<Rightarrow> int \<Rightarrow> datetime option \<Rightarrow> unit app_op" where
  "schedule_search_sea sid attempts next_at =
     write_season sid (\<lambda>z. z\<lparr>z_search_attempts := attempts, z_next_search_at := next_at\<rparr>)"

definition move_season :: "datetime \<Rightarrow> string \<Rightarrow> season_row \<Rightarrow> season_row" where
  "move_season now target z = completion_write_values now target (z\<lparr>z_status := target\<rparr>)"

definition set_status_sea :: "datetime \<Rightarrow> int \<Rightarrow> string \<Rightarrow> unit app_op" where
  "set_status_sea now sid status = bind_op (of_sum (request_status status)) (\<lambda>target.
     bind_op (update_seasons (\<lambda>z. z_id z = sid) (move_season now target))
       (\<lambda>hit. if hit then return_op () else of_sum (Inl LookupError)))"

definition active_coverage_claim :: "app_db \<Rightarrow> season_row \<Rightarrow> bool" where
  "active_coverage_claim db z = list_ex (\<lambda>c. c_media_request_id c = Some (z_media_request_id z)
     \<and> c_season c = Some (z_season_number z) \<and> claim_active c
     \<and> list_ex (\<lambda>d. d_id d = c_download_id c \<and> row_live d) (db_downloads (a_store db))) (db_claims (a_store db))"

definition parent_pinned :: "app_db \<Rightarrow> season_row \<Rightarrow> bool" where
  "parent_pinned db z = list_ex (\<lambda>r. q_id r = z_media_request_id z \<and> q_keep_forever r) (a_requests db)"

definition parent_watchlisted :: "app_db \<Rightarrow> season_row \<Rightarrow> bool" where
  "parent_watchlisted db z =
     list_ex (\<lambda>r. q_id r = z_media_request_id z \<and> watchlisted db (q_tmdb_id r) Tv) (a_requests db)"

text \<open>The opt-in predicates of the compare-and-swap.\<close>

record swap_guard =
  sg_no_active_coverage :: bool
  sg_parent_unpinned :: bool
  sg_not_watchlisted :: bool

definition no_guard :: swap_guard where
  "no_guard = \<lparr>sg_no_active_coverage = False, sg_parent_unpinned = False, sg_not_watchlisted = False\<rparr>"

definition guard_holds :: "swap_guard \<Rightarrow> app_db \<Rightarrow> season_row \<Rightarrow> bool" where
  "guard_holds g db z \<longleftrightarrow> (sg_no_active_coverage g \<longrightarrow> \<not> active_coverage_claim db z)
     \<and> (sg_parent_unpinned g \<longrightarrow> \<not> parent_pinned db z) \<and> (sg_not_watchlisted g \<longrightarrow> \<not> parent_watchlisted db z)"

definition set_status_if_in_sea :: "datetime \<Rightarrow> int \<Rightarrow> string \<Rightarrow> string list \<Rightarrow> swap_guard \<Rightarrow> bool app_op" where
  "set_status_if_in_sea now sid status allowed g db =
     (if \<not> request_statuses allowed \<or> status \<notin> set REQUEST_STATUSES then Inl ValueError
      else update_seasons (\<lambda>z. z_id z = sid \<and> z_status z \<in> set allowed \<and> guard_holds g db z)
             (move_season now status) db)"

definition mark_completed_sea :: "datetime \<Rightarrow> int \<Rightarrow> unit app_op" where
  "mark_completed_sea now sid = set_status_sea now sid ''completed''"

definition mark_available_sea :: "int \<Rightarrow> int option \<Rightarrow> bool app_op" where
  "mark_available_sea sid expected_generation =
     update_seasons (\<lambda>z. z_id z = sid \<and> z_status z \<in> {''completed'', ''available''}
          \<and> z_completion_generation z = expected_generation)
        (\<lambda>z. z\<lparr>z_status := ''available'', z_eviction_regrab := Some False\<rparr>)"

definition clear_library_path_if_set_sea :: "int \<Rightarrow> string option \<Rightarrow> string list option \<Rightarrow> bool app_op" where
  "clear_library_path_if_set_sea sid expected_path expected_statuses db =
     (if (case expected_statuses of None \<Rightarrow> False | Some ss \<Rightarrow> \<not> request_statuses ss) then Inl ValueError
      else update_seasons (\<lambda>z. z_id z = sid \<and> z_library_path z \<noteq> None
             \<and> (expected_path = None \<or> z_library_path z = expected_path)
             \<and> (case expected_statuses of None \<Rightarrow> True | Some ss \<Rightarrow> z_status z \<in> set ss))
           (\<lambda>z. z\<lparr>z_library_path := None, z_partial_delete_path := None\<rparr>) db)"

definition set_library_path_sea :: "int \<Rightarrow> string \<Rightarrow> unit app_op" where
  "set_library_path_sea sid path = write_season sid (\<lambda>z. z\<lparr>z_library_path := Some path, z_partial_delete_path := None\<rparr>)"

definition set_partial_delete_path_sea :: "int \<Rightarrow> string \<Rightarrow> unit app_op" where
  "set_partial_delete_path_sea sid path = write_season sid (\<lambda>z. z\<lparr>z_partial_delete_path := Some path\<rparr>)"

definition clear_partial_delete_path_sea :: "int \<Rightarrow> unit app_op" where
  "clear_partial_delete_path_sea sid = write_season sid (\<lambda>z. z\<lparr>z_partial_delete_path := None\<rparr>)"

definition confirm_partial_delete_marker_sea :: "int \<Rightarrow> string \<Rightarrow> bool app_op" where
  "confirm_partial_delete_marker_sea sid path db =
     update_seasons (\<lambda>z. z_id z = sid \<and> z_library_path z = Some path \<and> z_partial_delete_path z = Some path
        \<and> \<not> parent_pinned db z) (\<lambda>z. z\<lparr>z_partial_delete_path := Some path\<rparr>) db"

definition set_installed_quality_sea :: "int \<Rightarrow> int \<Rightarrow> int option \<Rightarrow> unit app_op" where
  "set_installed_quality_sea sid quality index =
     write_season sid (\<lambda>z. z\<lparr>z_installed_quality_id := Some quality, z_installed_profile_index := index\<rparr>)"

definition clear_library_path_sea :: "int \<Rightarrow> unit app_op" where
  "clear_library_path_sea sid = write_season sid (\<lambda>z. z\<lparr>z_library_path := None, z_partial_delete_path := None\<rparr>)"

definition clear_eviction_regrab :: "int \<Rightarrow> unit app_op" where
  "clear_eviction_regrab sid = write_season sid (\<lambda>z. z\<lparr>z_eviction_regrab := Some False\<rparr>)"

end
