(* ===== verification/SeasonService.thy ===== *)
theory SeasonService
  imports SeasonRepo SeasonRollup
begin

text \<open>
  Per-season orchestration (\<open>services/season_request_service.py\<close>): every season transition and the parent
  status it recomputes in the same transaction. The Plex library answers with the set of seasons it holds
  or fails (\<open>None\<close>: the three errors the code catches); TMDB answers with an error, no show, or a season
  count. A call takes one clock reading. The functions only flush; the caller commits.
\<close>

definition TERMINAL_SEASON_STATUS_VALUES :: "string list" where
  "TERMINAL_SEASON_STATUS_VALUES = [''completed'', ''available'', ''failed'', ''evicted'', ''cancelled'']"

definition REAL_DONE_SEASON_STATUS_VALUES :: "string list" where
  "REAL_DONE_SEASON_STATUS_VALUES = [''completed'', ''available'']"

definition PARKABLE_SEASON_STATUS_VALUES :: "string list" where
  "PARKABLE_SEASON_STATUS_VALUES = [''pending'', ''searching'', ''no_acceptable_release'']"

definition AIR_DATE_WAKE_MIN_INTERVAL :: timedelta where
  "AIR_DATE_WAKE_MIN_INTERVAL = hours 6"

section \<open>The parent rollup\<close>

definition parent_rollup :: "season_record list \<Rightarrow> repo_error + string" where
  "parent_rollup seasons = (case rollup_status (map zr_status seasons) of
       Inl _ \<Rightarrow> Inl ValueError | Inr status \<Rightarrow> Inr status)"

definition recompute_parent :: "datetime \<Rightarrow> int \<Rightarrow> bool \<Rightarrow> bool \<Rightarrow> unit app_op" where
  "recompute_parent now mr tolerate_active_conflict stamp_completion =
     bind_op (\<lambda>db. of_sum (list_for_request_sea db mr) db) (\<lambda>seasons.
       if seasons = [] then return_op ()
       else bind_op (of_sum (parent_rollup seasons)) (\<lambda>status.
         if \<not> tolerate_active_conflict then
           bind_op (set_status_req mr status) (\<lambda>_.
             if stamp_completion \<and> list_ex (\<lambda>z. zr_status z \<in> set REAL_DONE_SEASON_STATUS_VALUES) seasons
             then stamp_completed_at_if_unset now mr else return_op ())
         else savepoint (set_status_req mr status) (return_op ())))"

section \<open>Creating and re-arming seasons\<close>

type_synonym library_port = "int \<Rightarrow> int set option"

definition present_seasons :: "library_port \<Rightarrow> int \<Rightarrow> int set" where
  "present_seasons library tmdb = (case library tmdb of None \<Rightarrow> {} | Some held \<Rightarrow> held)"

definition presence :: "library_port option \<Rightarrow> int \<Rightarrow> bool \<Rightarrow> int set option \<Rightarrow> int set" where
  "presence library tmdb force_pending snapshot = (case snapshot of
       Some held \<Rightarrow> held
     | None \<Rightarrow> (case library of
           None \<Rightarrow> {}
         | Some lib \<Rightarrow> if force_pending then {} else present_seasons lib tmdb))"

text \<open>
  Re-arming a season whose status was read as one of \<open>allowed\<close>: a compare-and-swap, a fresh backoff if it
  won, and the row as it is now. The flag says whether the swap happened.
\<close>

definition rearm_season :: "datetime \<Rightarrow> season_record \<Rightarrow> string \<Rightarrow> string list \<Rightarrow> (season_record \<times> bool) app_op" where
  "rearm_season now record target allowed =
     bind_op (set_status_if_in_sea now (zr_id record) target allowed no_guard) (\<lambda>rearmed.
     bind_op (if rearmed then schedule_search_sea (zr_id record) 0 None else return_op ()) (\<lambda>_.
     bind_op (\<lambda>db. of_sum (get_sea db (zr_id record)) db) (\<lambda>again.
       return_op (case again of None \<Rightarrow> record | Some r \<Rightarrow> r, rearmed))))"

definition ensure_one ::
  "datetime \<Rightarrow> int \<Rightarrow> bool \<Rightarrow> int set \<Rightarrow> int set \<Rightarrow> int \<Rightarrow> (season_record \<times> bool) app_op" where
  "ensure_one now mr force_pending trusted evicted n =
     (let initial = (if n \<in> trusted then ''available'' else ''pending'')
      in bind_op (ensure_sea mr n initial (n \<in> evicted)) (\<lambda>record.
           if zr_status record = ''evicted'' then rearm_season now record initial [''evicted'']
           else if zr_status record = ''waiting_for_air_date'' then
             bind_op (rearm_season now record initial [''waiting_for_air_date'']) (\<lambda>(r, _). return_op (r, False))
           else if force_pending \<and> zr_status record \<in> set REAL_DONE_SEASON_STATUS_VALUES then
             rearm_season now record ''pending'' REAL_DONE_SEASON_STATUS_VALUES
           else return_op (record, False)))"

fun ensure_each ::
  "datetime \<Rightarrow> int \<Rightarrow> bool \<Rightarrow> int set \<Rightarrow> int set \<Rightarrow> int list \<Rightarrow> (season_record list \<times> bool) app_op" where
  "ensure_each now mr force_pending trusted evicted [] = return_op ([], False)"
| "ensure_each now mr force_pending trusted evicted (n # ns) =
     bind_op (ensure_one now mr force_pending trusted evicted n) (\<lambda>(record, heal).
     bind_op (ensure_each now mr force_pending trusted evicted ns) (\<lambda>(records, heals).
       return_op (record # records, heal \<or> heals)))"

definition ensure_seasons ::
  "datetime \<Rightarrow> library_port option \<Rightarrow> int \<Rightarrow> int \<Rightarrow> int list \<Rightarrow> bool \<Rightarrow> int set option \<Rightarrow> season_record list app_op" where
  "ensure_seasons now library mr tmdb seasons force_pending snapshot db =
     (let evicted = evicted_seasons db tmdb;
          trusted = presence library tmdb force_pending snapshot - evicted
      in bind_op (ensure_each now mr force_pending trusted evicted seasons) (\<lambda>(records, heal).
         bind_op (if heal then heal_completed_at now mr else return_op ()) (\<lambda>_.
         bind_op (recompute_parent now mr False False) (\<lambda>_. return_op records))) db)"

section \<open>Waking seasons that wait for their air date\<close>

datatype tv_answer = TmdbFailed | NoShow | ShowSeasons int

type_synonym metadata_port = "int \<Rightarrow> tv_answer"

record wake_state =
  wk_counts :: "(int \<times> int option) list"
  wk_errored :: "int list"
  wk_parents :: "(int \<times> request_record option) list"
  wk_woken :: nat

definition wake_seasons_of :: "request_record option \<Rightarrow> int \<Rightarrow> int \<Rightarrow> int list" where
  "wake_seasons_of parent n show_count =
     (if map_option rr_tv_request_mode parent = Some (Some ''whole_show'') then [1..show_count] else [n])"

definition episode_scoped :: "request_record option \<Rightarrow> int \<Rightarrow> bool" where
  "episode_scoped parent n = (case parent of
       None \<Rightarrow> False
     | Some r \<Rightarrow> (case rr_requested_episodes r of
           None \<Rightarrow> False
         | Some wanted \<Rightarrow> (case map_of wanted n of None \<Rightarrow> False | Some eps \<Rightarrow> eps \<noteq> [])))"

definition wake_parent :: "app_db \<Rightarrow> wake_state \<Rightarrow> int \<Rightarrow> request_record option" where
  "wake_parent db st mr = (case map_of (wk_parents st) mr of None \<Rightarrow> get_req db mr | Some p \<Rightarrow> p)"

text \<open>One candidate whose show has been looked up.\<close>

definition wake_known ::
  "datetime \<Rightarrow> library_port option \<Rightarrow> season_record \<Rightarrow> int option \<Rightarrow> wake_state \<Rightarrow> wake_state app_op" where
  "wake_known now library cand show_count st db = (case show_count of
       None \<Rightarrow> Inr (st, db)
     | Some k \<Rightarrow>
         if k < zr_season_number cand then Inr (st, db)
         else
           let parent = wake_parent db st (zr_media_request_id cand);
               st' = st\<lparr>wk_parents := (zr_media_request_id cand, parent) # wk_parents st\<rparr>
           in bind_op (ensure_seasons now library (zr_media_request_id cand) (zr_tmdb_id cand)
                  (wake_seasons_of parent (zr_season_number cand) k) (episode_scoped parent (zr_season_number cand)) None)
                (\<lambda>records. return_op
                   (if list_ex (\<lambda>r. zr_season_number r = zr_season_number cand
                          \<and> zr_status r \<noteq> ''waiting_for_air_date'') records
                    then st'\<lparr>wk_woken := wk_woken st' + 1\<rparr> else st')) db)"

definition wake_one ::
  "datetime \<Rightarrow> metadata_port \<Rightarrow> library_port option \<Rightarrow> season_record \<Rightarrow> wake_state \<Rightarrow> wake_state app_op" where
  "wake_one now tmdb library cand st =
     bind_op
       (if zr_tmdb_id cand \<in> set (wk_errored st) then return_op st
        else (case map_of (wk_counts st) (zr_tmdb_id cand) of
            Some show_count \<Rightarrow> wake_known now library cand show_count st
          | None \<Rightarrow> (case tmdb (zr_tmdb_id cand) of
                TmdbFailed \<Rightarrow> return_op (st\<lparr>wk_errored := zr_tmdb_id cand # wk_errored st\<rparr>)
              | NoShow \<Rightarrow> return_op (st\<lparr>wk_counts := (zr_tmdb_id cand, None) # wk_counts st\<rparr>)
              | ShowSeasons k \<Rightarrow> wake_known now library cand (Some k)
                    (st\<lparr>wk_counts := (zr_tmdb_id cand, Some k) # wk_counts st\<rparr>))))
       (\<lambda>st'. bind_op (mark_airing_refresh_checked (zr_id cand) now) (\<lambda>_. return_op st'))"

fun wake_each ::
  "datetime \<Rightarrow> metadata_port \<Rightarrow> library_port option \<Rightarrow> season_record list \<Rightarrow> wake_state \<Rightarrow> wake_state app_op" where
  "wake_each now tmdb library [] st = return_op st"
| "wake_each now tmdb library (cand # cands) st =
     bind_op (wake_one now tmdb library cand st) (wake_each now tmdb library cands)"

definition wake_waiting_for_air_date ::
  "metadata_port \<Rightarrow> library_port option \<Rightarrow> datetime \<Rightarrow> nat \<Rightarrow> nat app_op" where
  "wake_waiting_for_air_date tmdb library now max_refresh =
     bind_op (\<lambda>db. of_sum (list_for_airing_refresh db [''waiting_for_air_date''] max_refresh
         (Some (now - AIR_DATE_WAKE_MIN_INTERVAL))) db) (\<lambda>cands.
     bind_op (wake_each now tmdb library cands \<lparr>wk_counts = [], wk_errored = [], wk_parents = [], wk_woken = 0\<rparr>)
       (\<lambda>st. return_op (wk_woken st)))"

section \<open>Transitions\<close>

text \<open>Every function below resolves its row by \<open>ensure\<close>, creating a pending season if there is none.\<close>

definition ensure_pending :: "int \<Rightarrow> int \<Rightarrow> season_record app_op" where
  "ensure_pending mr n = ensure_sea mr n ''pending'' False"

definition set_status :: "datetime \<Rightarrow> int \<Rightarrow> int \<Rightarrow> string \<Rightarrow> bool \<Rightarrow> unit app_op" where
  "set_status now mr n status skip_if_terminal = bind_op (ensure_pending mr n) (\<lambda>row.
     if skip_if_terminal \<and> zr_status row \<in> set TERMINAL_SEASON_STATUS_VALUES then return_op ()
     else bind_op (set_status_sea now (zr_id row) status) (\<lambda>_. recompute_parent now mr False False))"

definition set_status_if_in ::
  "datetime \<Rightarrow> int \<Rightarrow> int \<Rightarrow> string \<Rightarrow> string list \<Rightarrow> swap_guard \<Rightarrow> bool \<Rightarrow> bool app_op" where
  "set_status_if_in now mr sid status allowed g tolerate_active_conflict =
     bind_op (set_status_if_in_sea now sid status allowed g) (\<lambda>changed.
       if changed then bind_op (recompute_parent now mr tolerate_active_conflict False) (\<lambda>_. return_op True)
       else return_op False)"

definition mark_completed :: "datetime \<Rightarrow> int \<Rightarrow> int \<Rightarrow> unit app_op" where
  "mark_completed now mr n = bind_op (ensure_pending mr n) (\<lambda>row.
     bind_op (mark_completed_sea now (zr_id row)) (\<lambda>_. recompute_parent now mr False True))"

definition mark_completed_if_in :: "datetime \<Rightarrow> int \<Rightarrow> int \<Rightarrow> string list \<Rightarrow> bool \<Rightarrow> bool app_op" where
  "mark_completed_if_in now mr n allowed require_no_active_coverage = bind_op (ensure_pending mr n) (\<lambda>row.
     bind_op (set_status_if_in_sea now (zr_id row) ''completed'' allowed
         (no_guard\<lparr>sg_no_active_coverage := require_no_active_coverage\<rparr>)) (\<lambda>changed.
       if changed then bind_op (recompute_parent now mr False True) (\<lambda>_. return_op True)
       else return_op False))"

definition mark_available :: "datetime \<Rightarrow> int \<Rightarrow> int \<Rightarrow> int option \<Rightarrow> bool app_op" where
  "mark_available now mr n expected_generation = bind_op (ensure_pending mr n) (\<lambda>row.
     bind_op (mark_available_sea (zr_id row) expected_generation) (\<lambda>promoted.
       if promoted then bind_op (recompute_parent now mr False True) (\<lambda>_. return_op True)
       else return_op False))"

definition reset_for_research :: "datetime \<Rightarrow> int \<Rightarrow> int \<Rightarrow> bool \<Rightarrow> unit app_op" where
  "reset_for_research now mr n clear_path = bind_op (ensure_pending mr n) (\<lambda>row.
     bind_op (set_status_sea now (zr_id row) ''searching'') (\<lambda>_.
     bind_op (schedule_search_sea (zr_id row) 0 None) (\<lambda>_.
     bind_op (if clear_path then clear_library_path_sea (zr_id row) else return_op ()) (\<lambda>_.
     bind_op (clear_eviction_regrab (zr_id row)) (\<lambda>_.
     bind_op (heal_completed_at now mr) (\<lambda>_. recompute_parent now mr False False))))))"

definition mark_no_acceptable_release :: "datetime \<Rightarrow> int \<Rightarrow> int \<Rightarrow> bool \<Rightarrow> bool app_op" where
  "mark_no_acceptable_release now mr n require_no_active_coverage = bind_op (ensure_pending mr n) (\<lambda>row.
     set_status_if_in now mr (zr_id row) ''no_acceptable_release'' PARKABLE_SEASON_STATUS_VALUES
       (no_guard\<lparr>sg_no_active_coverage := require_no_active_coverage\<rparr>) False)"

definition on_season :: "int \<Rightarrow> int \<Rightarrow> (int \<Rightarrow> unit app_op) \<Rightarrow> unit app_op" where
  "on_season mr n write = bind_op (ensure_pending mr n) (\<lambda>row. write (zr_id row))"

definition set_library_path :: "int \<Rightarrow> int \<Rightarrow> string \<Rightarrow> unit app_op" where
  "set_library_path mr n path = on_season mr n (\<lambda>sid. set_library_path_sea sid path)"

definition set_installed_quality :: "int \<Rightarrow> int \<Rightarrow> int \<Rightarrow> int option \<Rightarrow> unit app_op" where
  "set_installed_quality mr n quality index = on_season mr n (\<lambda>sid. set_installed_quality_sea sid quality index)"

definition clear_library_path :: "int \<Rightarrow> int \<Rightarrow> unit app_op" where
  "clear_library_path mr n = on_season mr n clear_library_path_sea"

definition set_partial_delete_path :: "int \<Rightarrow> int \<Rightarrow> string \<Rightarrow> unit app_op" where
  "set_partial_delete_path mr n path = on_season mr n (\<lambda>sid. set_partial_delete_path_sea sid path)"

definition clear_partial_delete_path :: "int \<Rightarrow> int \<Rightarrow> unit app_op" where
  "clear_partial_delete_path mr n = on_season mr n clear_partial_delete_path_sea"

end
