(* ===== verification/RequestInvariant.thy ===== *)
theory RequestInvariant
  imports SeasonService
begin

text \<open>
  How the request tables evolve. \<open>app_inv\<close> is the invariant of the store; \<open>evolves\<close> says that a database
  keeps it, that every old row it still has is the same title or season with at least the completion
  generation it had, and that a season only goes when its show goes. An operation that only makes such steps is \<open>steady\<close>; the property is closed under
  sequencing, savepoints and branching, so it lifts from the single statements to every operation of both
  repositories and of the season service.
\<close>

section \<open>The invariant\<close>

definition app_typed :: "app_db \<Rightarrow> bool" where
  "app_typed db \<longleftrightarrow>
     (\<forall>r \<in> set (a_requests db). q_id r < a_next_id db \<and> q_status r \<in> set REQUEST_STATUSES)
     \<and> (\<forall>z \<in> set (a_seasons db). z_id z < a_next_id db \<and> z_status z \<in> set REQUEST_STATUSES)"

definition app_inv :: "app_db \<Rightarrow> bool" where
  "app_inv db \<longleftrightarrow> app_unique db \<and> app_refs db \<and> app_typed db"

definition req_gen :: "request_row \<Rightarrow> int" where
  "req_gen r = coalesce (q_completion_generation r) 0"

definition season_gen :: "season_row \<Rightarrow> int" where
  "season_gen z = coalesce (z_completion_generation z) 0"

definition same_request :: "request_row \<Rightarrow> request_row \<Rightarrow> bool" where
  "same_request r r' \<longleftrightarrow> q_id r' = q_id r \<and> q_tmdb_id r' = q_tmdb_id r \<and> q_media_type r' = q_media_type r
     \<and> req_gen r \<le> req_gen r'"

definition same_season :: "season_row \<Rightarrow> season_row \<Rightarrow> bool" where
  "same_season z z' \<longleftrightarrow> z_id z' = z_id z \<and> z_media_request_id z' = z_media_request_id z
     \<and> z_season_number z' = z_season_number z \<and> season_gen z \<le> season_gen z'"

definition evolves :: "app_db \<Rightarrow> app_db \<Rightarrow> bool" where
  "evolves db db' \<longleftrightarrow> app_inv db' \<and> a_next_id db \<le> a_next_id db' \<and> set (a_users db) \<subseteq> set (a_users db')
     \<and> (\<forall>r' \<in> set (a_requests db'). q_id r' < a_next_id db \<longrightarrow> (\<exists>r \<in> set (a_requests db). same_request r r'))
     \<and> (\<forall>z' \<in> set (a_seasons db'). z_id z' < a_next_id db \<longrightarrow> (\<exists>z \<in> set (a_seasons db). same_season z z'))
     \<and> (\<forall>z \<in> set (a_seasons db). z_media_request_id z \<in> q_id ` set (a_requests db')
          \<longrightarrow> (\<exists>z' \<in> set (a_seasons db'). same_season z z'))"

lemma same_request_refl [simp]: "same_request r r"
  by (simp add: same_request_def)

lemma same_season_refl [simp]: "same_season z z"
  by (simp add: same_season_def)

lemma self_request [intro]: "r \<in> rs \<Longrightarrow> \<exists>r0 \<in> rs. same_request r0 r"
  by (rule bexI[where x = r]) simp_all

lemma self_season [intro]: "z \<in> zs \<Longrightarrow> \<exists>z0 \<in> zs. same_season z0 z"
  by (rule bexI[where x = z]) simp_all

lemma self_season' [intro]: "z \<in> zs \<Longrightarrow> \<exists>z' \<in> zs. same_season z z'"
  by (rule bexI[where x = z]) simp_all

lemma same_request_trans: "same_request a b \<Longrightarrow> same_request b c \<Longrightarrow> same_request a c"
  by (auto simp: same_request_def)

lemma same_season_trans: "same_season a b \<Longrightarrow> same_season b c \<Longrightarrow> same_season a c"
  by (auto simp: same_season_def)

lemma evolves_refl: "app_inv db \<Longrightarrow> evolves db db"
  by (auto simp: evolves_def)

lemma evolves_request:
  "evolves db db' \<Longrightarrow> r' \<in> set (a_requests db') \<Longrightarrow> q_id r' < a_next_id db
    \<Longrightarrow> \<exists>r \<in> set (a_requests db). same_request r r'"
  by (auto simp: evolves_def)

lemma evolves_season:
  "evolves db db' \<Longrightarrow> z' \<in> set (a_seasons db') \<Longrightarrow> z_id z' < a_next_id db
    \<Longrightarrow> \<exists>z \<in> set (a_seasons db). same_season z z'"
  by (auto simp: evolves_def)

lemma evolves_keeps_season:
  "evolves db db' \<Longrightarrow> z \<in> set (a_seasons db) \<Longrightarrow> z_media_request_id z \<in> q_id ` set (a_requests db')
    \<Longrightarrow> \<exists>z' \<in> set (a_seasons db'). same_season z z'"
  by (auto simp: evolves_def)

lemma season_parent_old:
  assumes "app_inv db" "z \<in> set (a_seasons db)"
  shows "z_media_request_id z \<in> q_id ` set (a_requests db)" "z_media_request_id z < a_next_id db"
  using assms by (auto simp: app_inv_def app_refs_def app_typed_def list_all_iff)

lemma evolves_trans:
  assumes inv: "app_inv db1" and a: "evolves db1 db2" and b: "evolves db2 db3"
  shows "evolves db1 db3"
proof -
  have next_id: "a_next_id db1 \<le> a_next_id db2" "a_next_id db2 \<le> a_next_id db3"
    using a b by (auto simp: evolves_def)
  have "\<exists>r \<in> set (a_requests db1). same_request r r'"
    if r': "r' \<in> set (a_requests db3)" "q_id r' < a_next_id db1" for r'
  proof -
    from evolves_request[OF b r'(1)] r'(2) next_id
    obtain r2 where r2: "r2 \<in> set (a_requests db2)" "same_request r2 r'" by auto
    moreover from this have "q_id r2 < a_next_id db1" using r'(2) by (simp add: same_request_def)
    ultimately show ?thesis using evolves_request[OF a] same_request_trans by blast
  qed
  moreover have "\<exists>z \<in> set (a_seasons db1). same_season z z'"
    if z': "z' \<in> set (a_seasons db3)" "z_id z' < a_next_id db1" for z'
  proof -
    from evolves_season[OF b z'(1)] z'(2) next_id
    obtain z2 where z2: "z2 \<in> set (a_seasons db2)" "same_season z2 z'" by auto
    moreover from this have "z_id z2 < a_next_id db1" using z'(2) by (simp add: same_season_def)
    ultimately show ?thesis using evolves_season[OF a] same_season_trans by blast
  qed
  moreover have "\<exists>z' \<in> set (a_seasons db3). same_season z z'"
    if z: "z \<in> set (a_seasons db1)" "z_media_request_id z \<in> q_id ` set (a_requests db3)" for z
  proof -
    from z(2) obtain r3 where r3: "r3 \<in> set (a_requests db3)" "q_id r3 = z_media_request_id z" by auto
    then have "q_id r3 < a_next_id db2" using season_parent_old(2)[OF inv z(1)] next_id by simp
    from evolves_request[OF b r3(1) this] r3(2) have "z_media_request_id z \<in> q_id ` set (a_requests db2)"
      by (force simp: same_request_def)
    from evolves_keeps_season[OF a z(1) this] obtain z2 where z2: "z2 \<in> set (a_seasons db2)" "same_season z z2" by blast
    then have "z_media_request_id z2 \<in> q_id ` set (a_requests db3)" using z(2) by (simp add: same_season_def)
    from evolves_keeps_season[OF b z2(1) this] z2(2) same_season_trans show ?thesis by blast
  qed
  ultimately show ?thesis using a b next_id by (auto simp: evolves_def)
qed

lemma evolves_inv: "evolves db db' \<Longrightarrow> app_inv db'"
  by (simp add: evolves_def)

section \<open>Steady operations\<close>

definition steady :: "'a app_op \<Rightarrow> bool" where
  "steady m \<longleftrightarrow> (\<forall>db x db'. app_inv db \<longrightarrow> m db = Inr (x, db') \<longrightarrow> evolves db db')"

named_theorems steady_rules

lemma steadyI: "(\<And>db x db'. app_inv db \<Longrightarrow> m db = Inr (x, db') \<Longrightarrow> evolves db db') \<Longrightarrow> steady m"
  by (simp add: steady_def)

lemma steadyD: "steady m \<Longrightarrow> app_inv db \<Longrightarrow> m db = Inr (x, db') \<Longrightarrow> evolves db db'"
  by (simp add: steady_def)

lemma steady_return [steady_rules]: "steady (return_op x)"
  by (rule steadyI) (simp add: evolves_refl)

lemma steady_bind [steady_rules]:
  assumes "steady m" "\<And>x. steady (f x)"
  shows "steady (bind_op m f)"
  using assms by (auto intro!: steadyI simp: bind_op_Inr) (meson steadyD evolves_inv evolves_trans)

lemma steady_of_sum [steady_rules]: "steady (of_sum v)"
  by (rule steadyI) (simp add: evolves_refl)

lemma steady_read [steady_rules]: "steady (\<lambda>db. of_sum (f db) db)"
  by (rule steadyI) (simp add: evolves_refl)

lemma steady_status:
  assumes "\<And>st. st \<in> set REQUEST_STATUSES \<Longrightarrow> steady (f st)"
  shows "steady (bind_op (of_sum (request_status s)) f)"
  using assms by (fastforce intro!: steadyI simp: bind_op_Inr request_status_def split: if_splits elim: steadyD)

lemma steady_savepoint [steady_rules]: "steady b \<Longrightarrow> steady h \<Longrightarrow> steady (savepoint b h)"
  by (auto intro!: steadyI simp: savepoint_def split: sum.splits if_splits dest: steadyD)

lemma steady_If [steady_rules]: "(b \<Longrightarrow> steady m) \<Longrightarrow> (\<not> b \<Longrightarrow> steady n) \<Longrightarrow> steady (if b then m else n)"
  by simp

lemma steady_If_db: "steady m \<Longrightarrow> steady n \<Longrightarrow> steady (\<lambda>db. if b db then m db else n db)"
  by (auto intro!: steadyI dest: steadyD split: if_splits)

lemma steady_Inl [steady_rules]: "steady (\<lambda>db. Inl (e db))"
  by (rule steadyI) simp

lemma steady_stay: "steady (\<lambda>db. Inr (x db, db))"
  by (rule steadyI) (simp add: evolves_refl)

text \<open>Attribute writes that keep the identity of a row, its type, and its generation or raise it.\<close>

definition request_write :: "(request_row \<Rightarrow> request_row) \<Rightarrow> bool" where
  "request_write f \<longleftrightarrow> (\<forall>r. same_request r (f r) \<and> (q_status r \<in> set REQUEST_STATUSES \<longrightarrow> q_status (f r) \<in> set REQUEST_STATUSES))"

definition season_write :: "(season_row \<Rightarrow> season_row) \<Rightarrow> bool" where
  "season_write f \<longleftrightarrow> (\<forall>z. same_season z (f z) \<and> (z_status z \<in> set REQUEST_STATUSES \<longrightarrow> z_status (f z) \<in> set REQUEST_STATUSES))"

lemma in_map_if: "x \<in> set xs \<Longrightarrow> p x \<Longrightarrow> f x \<in> set (map (\<lambda>x. if p x then f x else x) xs)"
  by (induction xs) auto

lemma map_frame [simp]:
  "a_requests (map_requests p f db) = map (\<lambda>r. if p r then f r else r) (a_requests db)"
  "a_seasons (map_requests p f db) = a_seasons db"
  "a_seasons (map_seasons q g db) = map (\<lambda>z. if q z then g z else z) (a_seasons db)"
  "a_requests (map_seasons q g db) = a_requests db"
  "a_users (map_requests p f db) = a_users db" "a_users (map_seasons q g db) = a_users db"
  "a_subscribers (map_requests p f db) = a_subscribers db" "a_subscribers (map_seasons q g db) = a_subscribers db"
  "a_locks (map_requests p f db) = a_locks db" "a_locks (map_seasons q g db) = a_locks db"
  "a_history (map_requests p f db) = a_history db" "a_history (map_seasons q g db) = a_history db"
  "a_blocklist (map_requests p f db) = a_blocklist db" "a_blocklist (map_seasons q g db) = a_blocklist db"
  "a_store (map_requests p f db) = a_store db" "a_store (map_seasons q g db) = a_store db"
  "a_watchlist (map_requests p f db) = a_watchlist db" "a_watchlist (map_seasons q g db) = a_watchlist db"
  "a_next_id (map_requests p f db) = a_next_id db" "a_next_id (map_seasons q g db) = a_next_id db"
  by (simp_all add: map_requests_def map_seasons_def)

lemma request_write_evolves:
  assumes inv: "app_inv db" and f: "request_write f"
    and ok: "app_unique (map_requests p f db)" "app_refs (map_requests p f db)"
  shows "evolves db (map_requests p f db)"
proof -
  have same: "same_request r (f r)" for r using f by (simp add: request_write_def)
  have "app_typed (map_requests p f db)"
    using inv f by (auto simp: app_inv_def app_typed_def map_requests_def request_write_def same_request_def split: if_splits)
  moreover have "\<exists>r \<in> set (a_requests db). same_request r r'" if "r' \<in> set (a_requests (map_requests p f db))" for r'
    using that same by (auto simp: map_requests_def intro: same_request_refl split: if_splits)
  ultimately show ?thesis
    using ok by (auto simp: evolves_def app_inv_def map_requests_def)
qed

lemma season_write_evolves:
  assumes inv: "app_inv db" and f: "season_write f"
    and ok: "app_unique (map_seasons p f db)" "app_refs (map_seasons p f db)"
  shows "evolves db (map_seasons p f db)"
proof -
  have same: "same_season z (f z)" for z using f by (simp add: season_write_def)
  have "app_typed (map_seasons p f db)"
    using inv f by (auto simp: app_inv_def app_typed_def map_seasons_def season_write_def same_season_def split: if_splits)
  moreover have "\<exists>z \<in> set (a_seasons db). same_season z z'" if "z' \<in> set (a_seasons (map_seasons p f db))" for z'
    using that same by (auto simp: map_seasons_def intro: same_season_refl split: if_splits)
  moreover have "\<exists>z' \<in> set (a_seasons (map_seasons p f db)). same_season z z'" if "z \<in> set (a_seasons db)" for z
  proof (rule bexI)
    show "same_season z (if p z then f z else z)" using same by simp
    show "(if p z then f z else z) \<in> set (a_seasons (map_seasons p f db))"
      unfolding map_frame set_map using that by (rule imageI[where f = "\<lambda>z. if p z then f z else z"])
  qed
  ultimately show ?thesis
    using ok by (auto simp: evolves_def app_inv_def map_seasons_def)
qed

lemma steady_update_requests_db: "request_write f \<Longrightarrow> steady (\<lambda>db. update_requests (p db) f db)"
  by (auto intro!: steadyI request_write_evolves simp: update_requests_def)

lemma steady_update_requests [steady_rules]: "request_write f \<Longrightarrow> steady (update_requests p f)"
  by (auto intro!: steadyI request_write_evolves simp: update_requests_def)

lemma steady_write_request [steady_rules]: "request_write f \<Longrightarrow> steady (write_request i f)"
  by (auto intro!: steadyI request_write_evolves simp: write_request_def split: if_splits)

lemma steady_update_seasons_db: "season_write f \<Longrightarrow> steady (\<lambda>db. update_seasons (p db) f db)"
  by (auto intro!: steadyI season_write_evolves simp: update_seasons_def)

lemma steady_update_seasons [steady_rules]: "season_write f \<Longrightarrow> steady (update_seasons p f)"
  by (auto intro!: steadyI season_write_evolves simp: update_seasons_def)

lemma steady_write_season [steady_rules]: "season_write f \<Longrightarrow> steady (write_season i f)"
  by (auto intro!: steadyI season_write_evolves simp: write_season_def split: if_splits)

lemmas write_simps = request_write_def season_write_def same_request_def same_season_def req_gen_def
  season_gen_def next_generation_def coalesce_def completion_write_values_def move_season_def

lemma steady_subscribers: "steady (\<lambda>db. app_flush x (db\<lparr>a_subscribers := f db\<rparr>))"
  by (auto intro!: steadyI simp: evolves_def app_inv_def app_typed_def)

lemma steady_locks: "steady (\<lambda>db. app_flush x (db\<lparr>a_locks := f db\<rparr>))"
  by (auto intro!: steadyI simp: evolves_def app_inv_def app_typed_def)

section \<open>Inserting and deleting rows\<close>

lemma steady_insert_request:
  "(\<And>i. q_id (r i) = i \<and> q_status (r i) \<in> set REQUEST_STATUSES) \<Longrightarrow> steady (\<lambda>db. insert_request (r (a_next_id db)) db)"
  by (rule steadyI) (fastforce simp: insert_request_def evolves_def app_inv_def app_typed_def)

lemma steady_insert_season:
  "(\<And>i. z_id (z i) = i \<and> z_status (z i) \<in> set REQUEST_STATUSES) \<Longrightarrow> steady (\<lambda>db. insert_season (z (a_next_id db)) db)"
  by (rule steadyI) (fastforce simp: insert_season_def evolves_def app_inv_def app_typed_def)

lemma delete_requests_evolves:
  assumes "app_inv db" and ok: "app_unique (delete_requests p db)" "app_refs (delete_requests p db)"
  shows "evolves db (delete_requests p db)"
proof -
  have "\<exists>z' \<in> set (a_seasons (delete_requests p db)). same_season z z'"
    if z: "z \<in> set (a_seasons db)" "z_media_request_id z \<in> q_id ` set (a_requests (delete_requests p db))" for z
  proof (rule self_season')
    let ?gone = "q_id ` set (filter p (a_requests db))"
    have reqs: "a_requests (delete_requests p db) = filter (\<lambda>r. q_id r \<notin> ?gone) (a_requests db)"
      by (simp add: delete_requests_def Let_def)
    from z(2) have "z_media_request_id z \<notin> ?gone"
      unfolding reqs by (elim imageE) (simp only: set_filter mem_Collect_eq not_False_eq_True)
    with z(1) show "z \<in> set (a_seasons (delete_requests p db))" by (simp add: delete_requests_def Let_def)
  qed
  moreover have "app_typed (delete_requests p db)"
    using assms(1) by (auto simp: delete_requests_def Let_def app_inv_def app_typed_def)
  ultimately show ?thesis
    using ok by (auto simp: evolves_def app_inv_def) (auto simp: delete_requests_def Let_def)
qed

lemma steady_bind_fresh:
  assumes "steady (\<lambda>db. m (a_next_id db) db)" "\<And>i x. steady (f i x)"
  shows "steady (\<lambda>db. bind_op (m (a_next_id db)) (f (a_next_id db)) db)"
proof (rule steadyI)
  fix db x db' assume inv: "app_inv db" and run: "bind_op (m (a_next_id db)) (f (a_next_id db)) db = Inr (x, db')"
  then obtain y db1 where y: "m (a_next_id db) db = Inr (y, db1)" "f (a_next_id db) y db1 = Inr (x, db')"
    by (auto simp: bind_op_Inr)
  have "evolves db db1" using steadyD[OF assms(1) inv] y(1) by blast
  with steadyD[OF assms(2) evolves_inv y(2)] inv show "evolves db db'" by (blast intro: evolves_trans)
qed

section \<open>Every operation is steady\<close>

text \<open>The request repository.\<close>

lemma steady_add_subscriber [steady_rules]: "steady (add_subscriber now rid uid)"
  unfolding add_subscriber_def by (intro steady_If_db steady_stay steady_subscribers)

lemma steady_copy_subscribers [steady_rules]: "steady (copy_subscribers now src target)"
  unfolding copy_subscribers_def Let_def by (rule steady_subscribers)

lemma steady_remove_subscriber [steady_rules]: "steady (remove_subscriber rid uid)"
  unfolding remove_subscriber_def by (rule steady_subscribers)

lemma steady_acquire_media_lock [steady_rules]: "steady (acquire_media_lock tmdb mt)"
  unfolding acquire_media_lock_def by (intro steady_rules steady_If_db steady_stay steady_locks)

lemma steady_create_req [steady_rules]: "steady (create_req now tmdb mt title status u)"
proof -
  let ?row = "\<lambda>m st i. new_request_row i tmdb m title st u"
  let ?rest = "\<lambda>m st i. bind_op (insert_request (?row m st i)) (\<lambda>_. bind_op (case nr_user_id u of
      None \<Rightarrow> return_op () | Some uid \<Rightarrow> add_subscriber now (q_id (?row m st i)) uid) (\<lambda>_.
      return_op (to_record_req (?row m st i))))"
  have rest: "steady (\<lambda>db. ?rest m st (a_next_id db) db)" if "st \<in> set REQUEST_STATUSES" for m st
  proof (rule steady_bind_fresh)
    show "steady (\<lambda>db. insert_request (?row m st (a_next_id db)) db)"
      by (rule steady_insert_request) (use that in \<open>simp_all add: new_request_row_def\<close>)
    show "steady (bind_op (case nr_user_id u of None \<Rightarrow> return_op ()
        | Some uid \<Rightarrow> add_subscriber now (q_id (?row m st i)) uid) (\<lambda>_. return_op (to_record_req (?row m st i))))" for i x
      by (cases "nr_user_id u") (auto intro!: steady_rules)
  qed
  show ?thesis unfolding create_req_def Let_def by (intro steady_rules steady_status rest)
qed

lemma steady_delete_req [steady_rules]: "steady (delete_req rid)"
  unfolding delete_req_def by (auto intro!: steadyI delete_requests_evolves)

lemma steady_delete_collapse [steady_rules]: "steady (delete_false_available_sibling_collapse rid eu)"
  unfolding delete_false_available_sibling_collapse_def Let_def by (auto intro!: steadyI delete_requests_evolves)

lemma steady_set_status_req [steady_rules]: "steady (set_status_req rid status)"
  unfolding set_status_req_def by (intro steady_If_db steady_Inl steady_status steady_rules) (simp add: write_simps)

lemma steady_set_status_if_in_req [steady_rules]: "steady (set_status_if_in_req rid status allowed a b)"
  unfolding set_status_if_in_req_def
  by (cases "request_statuses allowed \<and> status \<in> set REQUEST_STATUSES")
    (auto intro!: steady_Inl steady_update_requests_db simp: write_simps)

lemma steady_request_writes [steady_rules]:
  "steady (set_owner rid uid)" "steady (schedule_search_req rid att nxt)" "steady (set_tv_request_intent rid mode ss eps)"
  "steady (set_library_path_req rid path)" "steady (set_partial_delete_path_req rid path)"
  "steady (clear_partial_delete_path_req rid)" "steady (clear_library_path_req now rid b)"
  "steady (reset_for_research_req rid b)" "steady (set_keep_forever rid b)"
  unfolding set_owner_def schedule_search_req_def set_tv_request_intent_def set_library_path_req_def
    set_partial_delete_path_req_def clear_partial_delete_path_req_def clear_library_path_req_def
    reset_for_research_req_def set_keep_forever_def
  by (intro steady_rules; simp add: write_simps REQUEST_STATUSES_def)+

lemma steady_keep_forever_for_title [steady_rules]: "steady (set_keep_forever_for_title tmdb mt b restrict)"
  unfolding set_keep_forever_for_title_def
  by (intro steady_rules) (auto intro!: steadyI request_write_evolves simp: write_simps)

lemma steady_stamp [steady_rules]: "steady (stamp_completed_at_if_unset now rid)"
  unfolding stamp_completed_at_if_unset_def
  by (intro steady_bind steady_If_db steady_update_requests steady_Inl steady_stay) (simp add: write_simps)

lemma steady_request_swaps [steady_rules]:
  "steady (mark_completed_req now rid)" "steady (mark_available_req now rid g)" "steady (claim_if_unowned rid uid)"
  "steady (confirm_partial_delete_marker_req rid path b)" "steady (mark_heal_verified_present now rid)"
  "steady (rearm_false_available_to_pending rid)"
  unfolding mark_completed_req_def mark_available_req_def claim_if_unowned_def confirm_partial_delete_marker_req_def
    mark_heal_verified_present_def rearm_false_available_to_pending_def
  by (intro steady_rules; simp add: write_simps REQUEST_STATUSES_def split: option.splits)+

lemma steady_clear_if_set_req [steady_rules]: "steady (clear_library_path_if_set_req now rid ep es b)"
  unfolding clear_library_path_if_set_req_def
  by (rule steady_If_db) (auto intro!: steady_Inl steady_rules simp: write_simps)

lemma steady_heal [steady_rules]: "steady (heal_completed_at now rid)"
  unfolding heal_completed_at_def
  by (intro steady_bind steady_return steady_update_requests_db) (simp_all add: write_simps)

text \<open>The season repository.\<close>

lemma season_write_move: "st \<in> set REQUEST_STATUSES \<Longrightarrow> season_write (move_season now st)"
  by (auto simp: write_simps split: option.splits)

lemma steady_ensure_from [steady_rules]: "steady (ensure_from seen mr n status regrab)"
proof -
  let ?z = "\<lambda>st i. new_season i mr n st regrab"
  have ins: "steady (\<lambda>db. bind_op (insert_season (?z st (a_next_id db)))
      (\<lambda>_ db'. of_sum (map_sum id (to_record_sea (?z st (a_next_id db))) (tmdb_id_for db' mr)) db') db)"
    if "st \<in> set REQUEST_STATUSES" for st
    by (rule steady_bind_fresh[where f = "\<lambda>i _ db'. of_sum (map_sum id (to_record_sea (?z st i)) (tmdb_id_for db' mr)) db'"])
      (auto intro!: steady_insert_season steady_read simp: that new_season_def)
  have race: "steady (\<lambda>db. case find_sea db mr n of None \<Rightarrow> Inl IntegrityError
      | Some w \<Rightarrow> of_sum (map_sum id (to_record_sea w) (tmdb_id_for db mr)) db)"
    by (auto intro!: steadyI simp: evolves_refl split: option.splits)
  show ?thesis
    by (cases seen) (auto simp: ensure_from_def Let_def intro!: steady_read steady_status steady_savepoint ins race)
qed

lemma steady_ensure_sea [steady_rules]: "steady (ensure_sea mr n status regrab)"
  by (rule steadyI) (auto simp: ensure_sea_def elim: steadyD[OF steady_ensure_from])

lemma steady_set_status_sea [steady_rules]: "steady (set_status_sea now sid status)"
  unfolding set_status_sea_def by (intro steady_status steady_rules) (rule season_write_move)

lemma steady_set_status_if_in_sea [steady_rules]: "steady (set_status_if_in_sea now sid status allowed g)"
  unfolding set_status_if_in_sea_def
  by (cases "request_statuses allowed \<and> status \<in> set REQUEST_STATUSES")
    (auto intro!: steady_Inl steady_update_seasons_db season_write_move)

lemma steady_season_writes [steady_rules]:
  "steady (mark_airing_refresh_checked sid stamp)" "steady (schedule_search_sea sid att nxt)"
  "steady (mark_completed_sea now sid)" "steady (mark_available_sea sid g)" "steady (set_library_path_sea sid path)"
  "steady (set_partial_delete_path_sea sid path)" "steady (clear_partial_delete_path_sea sid)"
  "steady (set_installed_quality_sea sid q ix)" "steady (clear_library_path_sea sid)" "steady (clear_eviction_regrab sid)"
  unfolding mark_airing_refresh_checked_def schedule_search_sea_def mark_completed_sea_def mark_available_sea_def
    set_library_path_sea_def set_partial_delete_path_sea_def clear_partial_delete_path_sea_def
    set_installed_quality_sea_def clear_library_path_sea_def clear_eviction_regrab_def
  by (intro steady_rules; simp add: write_simps REQUEST_STATUSES_def)+

lemma steady_confirm_sea [steady_rules]: "steady (confirm_partial_delete_marker_sea sid path)"
  unfolding confirm_partial_delete_marker_sea_def by (rule steady_update_seasons_db) (simp add: write_simps)

lemma steady_clear_if_set_sea [steady_rules]: "steady (clear_library_path_if_set_sea sid ep es)"
  unfolding clear_library_path_if_set_sea_def
  by (rule steady_If_db) (auto intro!: steady_Inl steady_rules simp: write_simps)

text \<open>The season service.\<close>

lemma steady_recompute_parent [steady_rules]: "steady (recompute_parent now mr tol stamp)"
  unfolding recompute_parent_def by (intro steady_rules)

lemma steady_rearm_season [steady_rules]: "steady (rearm_season now rec target allowed)"
  unfolding rearm_season_def by (intro steady_rules)

lemma steady_ensure_one [steady_rules]: "steady (ensure_one now mr fp trusted ev n)"
  unfolding ensure_one_def Let_def by (intro steady_rules) (auto intro!: steady_rules split: prod.splits)

lemma steady_ensure_each [steady_rules]: "steady (ensure_each now mr fp trusted ev ns)"
proof (induction ns)
  case (Cons n ns)
  then show ?case by (auto intro!: steady_rules split: prod.splits)
qed (simp add: steady_return)

lemma steady_ensure_seasons [steady_rules]: "steady (ensure_seasons now lib mr tmdb ns fp snap)"
proof -
  have "steady (bind_op (ensure_each now mr fp T E ns) (\<lambda>(records, heal).
         bind_op (if heal then heal_completed_at now mr else return_op ()) (\<lambda>_.
         bind_op (recompute_parent now mr False False) (\<lambda>_. return_op records))))" for T E
    by (auto intro!: steady_rules split: prod.splits)
  from steadyD[OF this] show ?thesis by (intro steadyI) (simp add: ensure_seasons_def Let_def)
qed

lemma steady_wake_known [steady_rules]: "steady (wake_known now lib cand known st)"
proof -
  have "steady (bind_op (ensure_seasons now lib mr tmdb ns fp None) (\<lambda>records. return_op (g records)))" for mr tmdb ns fp g
    by (intro steady_rules)
  from steadyD[OF this] show ?thesis
    by (auto intro!: steadyI simp: wake_known_def Let_def evolves_refl split: option.splits if_splits)
qed

lemma steady_wake_one [steady_rules]: "steady (wake_one now tm lib cand st)"
  unfolding wake_one_def
  by (intro steady_bind steady_If) (auto intro!: steady_rules split: option.splits tv_answer.splits)

lemma steady_wake_each [steady_rules]: "steady (wake_each now tm lib cands st)"
  by (induction cands arbitrary: st) (auto intro!: steady_rules)

lemma steady_ensure_pending [steady_rules]: "steady (ensure_pending mr n)"
  unfolding ensure_pending_def by (intro steady_rules)

lemma steady_on_season [steady_rules]: "(\<And>sid. steady (w sid)) \<Longrightarrow> steady (on_season mr n w)"
  unfolding on_season_def by (intro steady_rules)

lemma steady_service [steady_rules]:
  "steady (wake_waiting_for_air_date tm lib now limit)" "steady (set_status now mr n status skip)"
  "steady (set_status_if_in now mr sid status allowed g tol)" "steady (mark_completed now mr n)"
  "steady (mark_completed_if_in now mr n allowed cov)" "steady (mark_available now mr n g')"
  "steady (reset_for_research now mr n clr)" "steady (mark_no_acceptable_release now mr n cov)"
  "steady (set_library_path mr n path)" "steady (set_installed_quality mr n q ix)" "steady (clear_library_path mr n)"
  "steady (set_partial_delete_path mr n path)" "steady (clear_partial_delete_path mr n)"
proof -
  show swap: "steady (set_status_if_in now mr sid status allowed g tol)" for now mr sid status allowed g tol
    unfolding set_status_if_in_def by (intro steady_rules)
  show "steady (mark_no_acceptable_release now mr n cov)"
    unfolding mark_no_acceptable_release_def by (intro steady_rules swap)
qed (unfold wake_waiting_for_air_date_def set_status_def mark_completed_def mark_completed_if_in_def mark_available_def
    reset_for_research_def set_library_path_def set_installed_quality_def clear_library_path_def
    set_partial_delete_path_def clear_partial_delete_path_def, (intro steady_rules)+)

section \<open>Reachable databases\<close>

text \<open>
  Any successful call of either repository or of the season service is a step, and so is whatever the rest
  of the program writes: users join, watchlists are synchronised, history is appended, the download store
  moves. An error leaves no step: its transaction is rolled back.
\<close>

inductive app_step :: "app_db \<Rightarrow> app_db \<Rightarrow> bool" where
  st_others: "set (a_users db) \<subseteq> set us \<Longrightarrow> a_next_id db \<le> n \<Longrightarrow>
     app_step db (db\<lparr>a_users := us, a_watchlist := wl, a_history := hist, a_blocklist := bl, a_store := store, a_next_id := n\<rparr>)"
| st_subscribe: "add_subscriber now rid uid db = Inr (x, db') \<Longrightarrow> app_step db db'"
| st_copy: "copy_subscribers now src target db = Inr (x, db') \<Longrightarrow> app_step db db'"
| st_unsubscribe: "remove_subscriber rid uid db = Inr (x, db') \<Longrightarrow> app_step db db'"
| st_owner: "set_owner rid owner db = Inr (x, db') \<Longrightarrow> app_step db db'"
| st_lock: "acquire_media_lock tmdb mt db = Inr (x, db') \<Longrightarrow> app_step db db'"
| st_create: "create_req now tmdb mt title status u db = Inr (rec, db') \<Longrightarrow> app_step db db'"
| st_delete: "delete_req rid db = Inr (x, db') \<Longrightarrow> app_step db db'"
| st_collapse: "delete_false_available_sibling_collapse rid owner db = Inr (b, db') \<Longrightarrow> app_step db db'"
| st_intent: "set_tv_request_intent rid mode ss eps db = Inr (x, db') \<Longrightarrow> app_step db db'"
| st_schedule: "schedule_search_req rid att nxt db = Inr (x, db') \<Longrightarrow> app_step db db'"
| st_status: "set_status_req rid status db = Inr (x, db') \<Longrightarrow> app_step db db'"
| st_swap: "set_status_if_in_req rid status allowed unpinned unwatched db = Inr (b, db') \<Longrightarrow> app_step db db'"
| st_completed: "mark_completed_req now rid db = Inr (x, db') \<Longrightarrow> app_step db db'"
| st_available: "mark_available_req now rid g db = Inr (b, db') \<Longrightarrow> app_step db db'"
| st_claim: "claim_if_unowned rid uid db = Inr (b, db') \<Longrightarrow> app_step db db'"
| st_stamp: "stamp_completed_at_if_unset now rid db = Inr (x, db') \<Longrightarrow> app_step db db'"
| st_heal: "heal_completed_at now rid db = Inr (x, db') \<Longrightarrow> app_step db db'"
| st_path: "set_library_path_req rid path db = Inr (x, db') \<Longrightarrow> app_step db db'"
| st_clear_path: "clear_library_path_req now rid removed db = Inr (x, db') \<Longrightarrow> app_step db db'"
| st_clear_path_if: "clear_library_path_if_set_req now rid ep es removed db = Inr (b, db') \<Longrightarrow> app_step db db'"
| st_arm: "set_partial_delete_path_req rid path db = Inr (x, db') \<Longrightarrow> app_step db db'"
| st_disarm: "clear_partial_delete_path_req rid db = Inr (x, db') \<Longrightarrow> app_step db db'"
| st_confirm: "confirm_partial_delete_marker_req rid path honor db = Inr (b, db') \<Longrightarrow> app_step db db'"
| st_research: "reset_for_research_req rid clr db = Inr (x, db') \<Longrightarrow> app_step db db'"
| st_verified: "mark_heal_verified_present now rid db = Inr (b, db') \<Longrightarrow> app_step db db'"
| st_rearm: "rearm_false_available_to_pending rid db = Inr (b, db') \<Longrightarrow> app_step db db'"
| st_pin: "set_keep_forever rid pin db = Inr (x, db') \<Longrightarrow> app_step db db'"
| st_pin_title: "set_keep_forever_for_title tmdb mt pin restrict db = Inr (x, db') \<Longrightarrow> app_step db db'"
| st_ensure: "ensure_from seen mr n status regrab db = Inr (srec, db') \<Longrightarrow> app_step db db'"
| st_checked: "mark_airing_refresh_checked sid stamp db = Inr (x, db') \<Longrightarrow> app_step db db'"
| st_schedule_season: "schedule_search_sea sid att nxt db = Inr (x, db') \<Longrightarrow> app_step db db'"
| st_swap_season: "set_status_if_in_sea now sid status allowed g' db = Inr (b, db') \<Longrightarrow> app_step db db'"
| st_clear_season_path_if: "clear_library_path_if_set_sea sid ep es db = Inr (b, db') \<Longrightarrow> app_step db db'"
| st_confirm_season: "confirm_partial_delete_marker_sea sid path db = Inr (b, db') \<Longrightarrow> app_step db db'"
| st_seasons: "ensure_seasons now lib mr tmdb ns fp snap db = Inr (recs, db') \<Longrightarrow> app_step db db'"
| st_wake: "wake_waiting_for_air_date tm lib now limit db = Inr (woken, db') \<Longrightarrow> app_step db db'"
| st_season_status: "set_status now mr n status skip db = Inr (x, db') \<Longrightarrow> app_step db db'"
| st_season_swap: "set_status_if_in now mr sid status allowed g' tol db = Inr (b, db') \<Longrightarrow> app_step db db'"
| st_season_completed: "mark_completed now mr n db = Inr (x, db') \<Longrightarrow> app_step db db'"
| st_season_completed_if: "mark_completed_if_in now mr n allowed cov db = Inr (b, db') \<Longrightarrow> app_step db db'"
| st_season_available: "mark_available now mr n g db = Inr (b, db') \<Longrightarrow> app_step db db'"
| st_season_research: "reset_for_research now mr n clr db = Inr (x, db') \<Longrightarrow> app_step db db'"
| st_season_park: "mark_no_acceptable_release now mr n cov db = Inr (b, db') \<Longrightarrow> app_step db db'"
| st_season_path: "set_library_path mr n path db = Inr (x, db') \<Longrightarrow> app_step db db'"
| st_season_quality: "set_installed_quality mr n q ix db = Inr (x, db') \<Longrightarrow> app_step db db'"
| st_season_clear: "clear_library_path mr n db = Inr (x, db') \<Longrightarrow> app_step db db'"
| st_season_arm: "set_partial_delete_path mr n path db = Inr (x, db') \<Longrightarrow> app_step db db'"
| st_season_disarm: "clear_partial_delete_path mr n db = Inr (x, db') \<Longrightarrow> app_step db db'"

definition app_init :: "app_db \<Rightarrow> bool" where
  "app_init db \<longleftrightarrow> a_requests db = [] \<and> a_seasons db = [] \<and> a_subscribers db = [] \<and> a_locks db = []"

lemma app_init_inv: "app_init db \<Longrightarrow> app_inv db"
  by (simp add: app_init_def app_inv_def app_unique_def app_refs_def app_typed_def request_keys_def season_keys_def)

lemma others_evolves:
  "set (a_users db) \<subseteq> set us \<Longrightarrow> a_next_id db \<le> n \<Longrightarrow> app_inv db
    \<Longrightarrow> evolves db (db\<lparr>a_users := us, a_watchlist := wl, a_history := hist, a_blocklist := bl, a_store := store,
      a_next_id := n\<rparr>)"
  by (auto simp: evolves_def app_inv_def app_unique_def app_refs_def app_typed_def request_keys_def season_keys_def
      list_all_iff split: option.splits)

lemma app_step_evolves: "app_step db db' \<Longrightarrow> app_inv db \<Longrightarrow> evolves db db'"
proof (induction rule: app_step.induct)
  case st_others
  then show ?case by (intro others_evolves)
qed (erule steadyD[rotated -1], intro steady_rules, assumption)+

lemma app_step_inv: "app_step db db' \<Longrightarrow> app_inv db \<Longrightarrow> app_inv db'"
  by (blast dest: app_step_evolves evolves_inv)

interpretation request_store: invariant_system app_init app_step app_inv
  by unfold_locales (auto intro: app_init_inv app_step_inv)

lemma app_steps_evolve: "app_step\<^sup>*\<^sup>* db db' \<Longrightarrow> app_inv db \<Longrightarrow> evolves db db'"
proof (induction rule: rtranclp_induct)
  case base
  then show ?case by (rule evolves_refl)
next
  case (step db1 db2)
  then have "evolves db db1" by blast
  with app_step_evolves[OF step(2)] step(4) show ?case by (blast dest: evolves_inv intro: evolves_trans)
qed

section \<open>What every reachable database satisfies\<close>

lemma find_req_SomeD: "find_req db i = Some r \<Longrightarrow> r \<in> set (a_requests db) \<and> q_id r = i"
  by (auto simp: find_req_def find_Some_iff)

lemma find_season_SomeD: "find_season db i = Some z \<Longrightarrow> z \<in> set (a_seasons db) \<and> z_id z = i"
  by (auto simp: find_season_def find_Some_iff)

lemma find_req_None: "find_req db i = None \<longleftrightarrow> i \<notin> q_id ` set (a_requests db)"
  by (auto simp: find_req_def find_None_iff)

lemma distinct_map_inj: "distinct (map f xs) \<Longrightarrow> x \<in> set xs \<Longrightarrow> y \<in> set xs \<Longrightarrow> f x = f y \<Longrightarrow> x = y"
  unfolding distinct_map inj_on_def by blast

lemma app_invD:
  assumes "app_inv db"
  shows "distinct (map q_id (a_requests db))" "distinct (map z_id (a_seasons db))"
    "distinct (map (\<lambda>z. (z_media_request_id z, z_season_number z)) (a_seasons db))"
    "distinct (map (\<lambda>r. (q_tmdb_id r, q_media_type r)) (filter req_active (a_requests db)))"
  using assms by (simp_all add: app_inv_def app_unique_def season_keys_def request_keys_def)

lemma request_id_inj:
  "app_inv db \<Longrightarrow> r1 \<in> set (a_requests db) \<Longrightarrow> r2 \<in> set (a_requests db) \<Longrightarrow> q_id r1 = q_id r2 \<Longrightarrow> r1 = r2"
  by (rule distinct_map_inj[OF app_invD(1)])

lemma season_id_inj:
  "app_inv db \<Longrightarrow> z1 \<in> set (a_seasons db) \<Longrightarrow> z2 \<in> set (a_seasons db) \<Longrightarrow> z_id z1 = z_id z2 \<Longrightarrow> z1 = z2"
  by (rule distinct_map_inj[OF app_invD(2)])

lemma season_key_inj:
  "app_inv db \<Longrightarrow> z1 \<in> set (a_seasons db) \<Longrightarrow> z2 \<in> set (a_seasons db)
    \<Longrightarrow> z_media_request_id z1 = z_media_request_id z2 \<Longrightarrow> z_season_number z1 = z_season_number z2 \<Longrightarrow> z1 = z2"
  by (rule distinct_map_inj[OF app_invD(3)]) simp_all

lemma active_title_inj:
  "app_inv db \<Longrightarrow> r1 \<in> set (a_requests db) \<Longrightarrow> r2 \<in> set (a_requests db) \<Longrightarrow> req_active r1 \<Longrightarrow> req_active r2
    \<Longrightarrow> q_tmdb_id r1 = q_tmdb_id r2 \<Longrightarrow> q_media_type r1 = q_media_type r2 \<Longrightarrow> r1 = r2"
  by (rule distinct_map_filter_inj[OF app_invD(4)]) simp_all

lemma season_parent:
  assumes "app_inv db" "z \<in> set (a_seasons db)"
  shows "\<exists>r. find_req db (z_media_request_id z) = Some r"
proof -
  from assms have "z_media_request_id z \<in> q_id ` set (a_requests db)"
    by (simp add: app_inv_def app_refs_def list_all_iff)
  then show ?thesis using find_req_None by blast
qed

lemma find_key:
  assumes "\<And>y. y \<in> set xs \<Longrightarrow> P y \<longleftrightarrow> y = x" and "x \<in> set xs"
  shows "find P xs = Some x"
proof (cases "find P xs")
  case None
  with assms show ?thesis by (auto simp: find_None_iff)
next
  case (Some y)
  then have "P y" "y \<in> set xs" by (auto simp: find_Some_iff)
  with Some assms(1) show ?thesis by simp
qed

lemma find_req_eq: "app_inv db \<Longrightarrow> r \<in> set (a_requests db) \<Longrightarrow> find_req db (q_id r) = Some r"
  unfolding find_req_def by (rule find_key) (auto intro: request_id_inj)

lemma find_season_eq: "app_inv db \<Longrightarrow> z \<in> set (a_seasons db) \<Longrightarrow> find_season db (z_id z) = Some z"
  unfolding find_season_def by (rule find_key) (auto intro: season_id_inj)

lemma find_sea_SomeD: "find_sea db mr n = Some z \<Longrightarrow> z \<in> set (a_seasons db) \<and> z_media_request_id z = mr \<and> z_season_number z = n"
  by (auto simp: find_sea_def find_Some_iff)

lemma find_sea_eq:
  "app_inv db \<Longrightarrow> z \<in> set (a_seasons db) \<Longrightarrow> find_sea db (z_media_request_id z) (z_season_number z) = Some z"
  unfolding find_sea_def by (rule find_key) (auto intro: season_key_inj)

text \<open>
  C2: the request store is well typed and unambiguous in every state the program can reach. Every status is
  one of the twelve, a title has at most one request in progress, a show has one row per season, every
  season has its parent and every subscription its request and its user; so no read of a season fails.
\<close>

theorem request_store_sound:
  assumes "reachable app_init app_step db"
  shows "(\<forall>r \<in> set (a_requests db). q_status r \<in> set REQUEST_STATUSES)
    \<and> (\<forall>z \<in> set (a_seasons db). z_status z \<in> set REQUEST_STATUSES)
    \<and> (\<forall>r1 \<in> set (a_requests db). \<forall>r2 \<in> set (a_requests db). q_status r1 \<in> set ACTIVE_REQUEST_STATUSES
         \<longrightarrow> q_status r2 \<in> set ACTIVE_REQUEST_STATUSES \<longrightarrow> q_tmdb_id r1 = q_tmdb_id r2
         \<longrightarrow> q_media_type r1 = q_media_type r2 \<longrightarrow> r1 = r2)
    \<and> (\<forall>z1 \<in> set (a_seasons db). \<forall>z2 \<in> set (a_seasons db). z_media_request_id z1 = z_media_request_id z2
         \<longrightarrow> z_season_number z1 = z_season_number z2 \<longrightarrow> z1 = z2)
    \<and> (\<forall>s \<in> set (a_subscribers db). get_req db (sb_request_id s) \<noteq> None \<and> sb_user_id s \<in> set (a_users db))
    \<and> (\<forall>i. \<not> isl (get_sea db i)) \<and> (\<forall>mr. \<not> isl (list_for_request_sea db mr))"
proof -
  have inv: "app_inv db" using assms by (rule request_store.reachable_inv)
  have typed: "\<forall>r \<in> set (a_requests db). q_status r \<in> set REQUEST_STATUSES"
    "\<forall>z \<in> set (a_seasons db). z_status z \<in> set REQUEST_STATUSES"
    using inv by (auto simp: app_inv_def app_typed_def)
  have subs: "\<forall>s \<in> set (a_subscribers db). get_req db (sb_request_id s) \<noteq> None \<and> sb_user_id s \<in> set (a_users db)"
    using inv find_req_None by (fastforce simp: app_inv_def app_refs_def list_all_iff get_req_def)
  have gets: "\<not> isl (get_sea db i)" for i
    using season_parent[OF inv] find_season_SomeD[of db i]
    by (fastforce simp: get_sea_def record_of_def tmdb_id_for_def split: option.splits)
  have lists: "\<not> isl (list_for_request_sea db mr)" for mr
  proof (cases "filter (\<lambda>z. z_media_request_id z = mr) (a_seasons db)")
    case (Cons z zs)
    then have "z \<in> set (a_seasons db)" "z_media_request_id z = mr" by (auto simp: filter_eq_Cons_iff)
    with season_parent[OF inv] obtain r where "find_req db mr = Some r" by blast
    then show ?thesis by (simp add: list_for_request_sea_def tmdb_id_for_def Let_def)
  qed (simp add: list_for_request_sea_def by_season_number_def)
  show ?thesis
    using typed subs gets lists active_title_inj[OF inv] season_key_inj[OF inv] unfolding req_active_def by blast
qed

text \<open>A small store to run the operations on: one user and, later, one show of two seasons.\<close>

definition demo_db :: app_db where
  "demo_db = \<lparr>a_users = [7], a_requests = [], a_seasons = [], a_subscribers = [], a_watchlist = [], a_locks = [],
     a_history = [], a_blocklist = [], a_store = empty_db [] [], a_next_id = 1\<rparr>"

definition demo_request :: request_row where
  "demo_request = new_request_row 1 1399 Tv ''Show'' ''pending'' (plain_request\<lparr>nr_user_id := Some 7\<rparr>)"

definition demo_created :: app_db where
  "demo_created = demo_db\<lparr>a_requests := [demo_request],
     a_subscribers := [\<lparr>sb_request_id = 1, sb_user_id = 7, sb_subscribed_at = 5\<rparr>], a_next_id := 2\<rparr>"

lemma demo_create:
  "create_req 5 1399 ''tv'' ''Show'' ''pending'' (plain_request\<lparr>nr_user_id := Some 7\<rparr>) demo_db
   = Inr (to_record_req demo_request, demo_created)"
  by code_simp

lemma demo_reachable: "reachable app_init app_step demo_created"
proof (rule reach_step)
  show "reachable app_init app_step demo_db" by (rule reach_init) (simp add: app_init_def demo_db_def)
  show "app_step demo_db demo_created" by (rule st_create[OF demo_create])
qed

theorem request_store_sound_witness: "list_for_request_sea demo_created 1 = Inr [] \<and> \<not> isl (get_sea demo_created 1)"
  using request_store_sound[OF demo_reachable]
  by (simp add: list_for_request_sea_def demo_created_def demo_db_def by_season_number_def)

section \<open>A promotion is bound to the completion it was asked about\<close>

lemma update_requests_True:
  assumes "update_requests p f db = Inr (True, db')"
  shows "\<exists>r \<in> set (a_requests db). p r \<and> f r \<in> set (a_requests db')"
proof -
  from assms have n: "length (filter p (a_requests db)) = 1" and db': "db' = map_requests p f db"
    by (auto simp: update_requests_def)
  then have "filter p (a_requests db) \<noteq> []" by auto
  then obtain r where r: "r \<in> set (a_requests db)" "p r" by (auto simp: filter_empty_conv)
  then have "f r \<in> set (a_requests db')" unfolding db' map_frame by (rule in_map_if)
  with r show ?thesis by blast
qed

lemma update_seasons_True:
  assumes "update_seasons p f db = Inr (True, db')"
  shows "\<exists>z \<in> set (a_seasons db). p z \<and> f z \<in> set (a_seasons db')"
proof -
  from assms have n: "length (filter p (a_seasons db)) = 1" and db': "db' = map_seasons p f db"
    by (auto simp: update_seasons_def)
  then have "filter p (a_seasons db) \<noteq> []" by auto
  then obtain z where z: "z \<in> set (a_seasons db)" "p z" by (auto simp: filter_empty_conv)
  then have "f z \<in> set (a_seasons db')" unfolding db' map_frame by (rule in_map_if)
  with z show ?thesis by blast
qed

lemma req_gen_next: "req_gen (r\<lparr>q_status := s, q_completed_at := c, q_completion_generation := next_generation (q_completion_generation r)\<rparr>)
    = req_gen r + 1"
  by (simp add: req_gen_def next_generation_def coalesce_def)

lemma evolves_gen_request:
  assumes ev: "evolves db db'" and inv: "app_inv db" and r: "r \<in> set (a_requests db)" and r': "r' \<in> set (a_requests db')"
    and same: "q_id r' = q_id r"
  shows "req_gen r \<le> req_gen r'"
proof -
  have "q_id r' < a_next_id db" using inv r same by (simp add: app_inv_def app_typed_def)
  from evolves_request[OF ev r' this] obtain r0 where r0: "r0 \<in> set (a_requests db)" "same_request r0 r'" by blast
  from r0(2) have id0: "q_id r' = q_id r0" and le: "req_gen r0 \<le> req_gen r'" unfolding same_request_def by blast+
  have "r0 = r" by (rule request_id_inj[OF inv r0(1) r trans[OF id0[symmetric] same]])
  with le show ?thesis by simp
qed

lemma evolves_gen_season:
  assumes ev: "evolves db db'" and inv: "app_inv db" and z: "z \<in> set (a_seasons db)" and z': "z' \<in> set (a_seasons db')"
    and same: "z_id z' = z_id z"
  shows "season_gen z \<le> season_gen z'"
proof -
  have "z_id z' < a_next_id db" using inv z same by (simp add: app_inv_def app_typed_def)
  from evolves_season[OF ev z' this] obtain z0 where z0: "z0 \<in> set (a_seasons db)" "same_season z0 z'" by blast
  from z0(2) have id0: "z_id z' = z_id z0" and le: "season_gen z0 \<le> season_gen z'" unfolding same_season_def by blast+
  have "z0 = z" by (rule season_id_inj[OF inv z0(1) z trans[OF id0[symmetric] same]])
  with le show ?thesis by simp
qed

text \<open>
  C20: a movie is never promoted on evidence about content it no longer holds. Take any state, snapshot the
  completion generation of a request there, let the program run, let the request complete again, let the
  program run on: promoting it with the snapshot's generation is refused and changes nothing, whatever
  clock readings the completions carried.
\<close>

theorem stale_movie_promotion_refused:
  assumes start: "reachable app_init app_step db" and snap: "get_req db rid = Some snapshot"
    and before: "app_step\<^sup>*\<^sup>* db db1" and again: "mark_completed_req now rid db1 = Inr ((), db2)"
    and after: "app_step\<^sup>*\<^sup>* db2 db3"
    and promote: "mark_available_req now' rid (rr_completion_generation snapshot) db3 = Inr (b, db4)"
  shows "\<not> b \<and> db4 = db3"
proof -
  have inv: "app_inv db" using start by (rule request_store.reachable_inv)
  from snap obtain r where r: "find_req db rid = Some r" "snapshot = to_record_req r" by (auto simp: get_req_def)
  then have rin: "r \<in> set (a_requests db)" "q_id r = rid" using find_req_SomeD by auto
  have g: "rr_completion_generation snapshot = q_completion_generation r" by (simp add: r(2) to_record_req_def)
  have inv1: "app_inv db1" using inv before by (rule request_store.steps_inv)
  have "app_step db1 db2" using again by (rule st_completed)
  then have inv2: "app_inv db2" using inv1 by (rule app_step_inv)
  have inv3: "app_inv db3" using inv2 after by (rule request_store.steps_inv)
  from again have "update_requests (\<lambda>r. q_id r = rid) (\<lambda>r. r\<lparr>q_status := ''completed'', q_completed_at := Some now,
      q_completion_generation := next_generation (q_completion_generation r)\<rparr>) db1 = Inr (True, db2)"
    by (auto simp: mark_completed_req_def bind_op_Inr split: if_splits)
  from update_requests_True[OF this] obtain r1 r2 where r1: "r1 \<in> set (a_requests db1)" "q_id r1 = rid"
    and r2: "r2 \<in> set (a_requests db2)" "q_id r2 = rid" "req_gen r2 = req_gen r1 + 1"
    using req_gen_next by fastforce
  have "req_gen r \<le> req_gen r1"
    using evolves_gen_request[OF app_steps_evolve[OF before inv] inv rin(1) r1(1)] r1(2) rin(2) by simp
  moreover have "req_gen r2 \<le> req_gen r3" if "r3 \<in> set (a_requests db3)" "q_id r3 = rid" for r3
    using evolves_gen_request[OF app_steps_evolve[OF after inv2] inv2 r2(1) that(1)] that(2) r2(2) by simp
  ultimately have no: "\<not> list_ex (\<lambda>r3. q_id r3 = rid \<and> q_status r3 \<in> {''completed'', ''available''}
      \<and> q_completion_generation r3 = rr_completion_generation snapshot) (a_requests db3)"
    using r2(3) g by (fastforce simp: list_ex_iff req_gen_def)
  then have "length (filter (\<lambda>r3. q_id r3 = rid \<and> q_status r3 \<in> {''completed'', ''available''}
      \<and> q_completion_generation r3 = rr_completion_generation snapshot) (a_requests db3)) = 0"
    by (simp add: list_ex_iff filter_empty_conv)
  with no promote show ?thesis
    by (auto simp: mark_available_req_def bind_op_Inr update_requests_def map_requests_def map_if_no_hit split: if_splits)
qed

definition demo_completed :: app_db where
  "demo_completed = demo_created\<lparr>a_requests := [demo_request\<lparr>q_status := ''completed'', q_completed_at := Some 9,
     q_completion_generation := Some 1\<rparr>]\<rparr>"

lemma demo_complete: "mark_completed_req 9 1 demo_created = Inr ((), demo_completed)"
  by code_simp

theorem stale_movie_promotion_refused_witness:
  "mark_available_req 20 1 None demo_completed = Inr (False, demo_completed)
   \<and> (\<exists>db. mark_available_req 20 1 (Some 1) demo_completed = Inr (True, db))"
proof
  have run: "mark_available_req 20 1 None demo_completed = Inr (False, demo_completed)" by code_simp
  have snap: "get_req demo_created 1 = Some (to_record_req demo_request)" by code_simp
  have g: "rr_completion_generation (to_record_req demo_request) = None" by code_simp
  from run obtain b db4 where "mark_available_req 20 1 None demo_completed = Inr (b, db4)" by blast
  with stale_movie_promotion_refused[OF demo_reachable snap rtranclp.rtrancl_refl demo_complete rtranclp.rtrancl_refl, of 20 b db4]
  show "mark_available_req 20 1 None demo_completed = Inr (False, demo_completed)" by (simp add: g)
  have "mark_available_req 20 1 (Some 1) demo_completed = Inr (True, demo_completed\<lparr>a_requests :=
      [demo_request\<lparr>q_status := ''available'', q_completed_at := Some 9, q_completion_generation := Some 1,
         q_library_verified_at := Some 20, q_eviction_regrab := Some False\<rparr>]\<rparr>)" by code_simp
  then show "\<exists>db. mark_available_req 20 1 (Some 1) demo_completed = Inr (True, db)" by blast
qed

end
