(* ===== verification/SeasonLaws.thy ===== *)
theory SeasonLaws
  imports RequestInvariant
begin

text \<open>
  What the season service promises: the status of a show is the rollup of its seasons after every
  transition, a finished season is never reopened by a stale signal, a promotion is bound to its completion,
  a re-request re-arms exactly the seasons it should, and the completion stamp of a show is backed by a
  season that really was imported.
\<close>

section \<open>Resolving a season\<close>

lemma ensure_from_Inr:
  assumes run: "ensure_from (find_sea db mr n) mr n status regrab db = Inr (rec, db')"
  shows "\<exists>z r. find_sea db' mr n = Some z \<and> find_req db mr = Some r \<and> rec = to_record_sea z (q_tmdb_id r)
    \<and> a_requests db' = a_requests db
    \<and> (find_sea db mr n = Some z \<and> db' = db
       \<or> find_sea db mr n = None \<and> status \<in> set REQUEST_STATUSES \<and> z = new_season (a_next_id db) mr n status regrab
         \<and> db' = db\<lparr>a_seasons := a_seasons db @ [z], a_next_id := a_next_id db + 1\<rparr> \<and> app_unique db' \<and> app_refs db')"
proof (cases "find_sea db mr n")
  case (Some z)
  with run show ?thesis by (auto simp: ensure_from_def tmdb_id_for_def split: option.splits)
next
  case None
  then have fresh: "\<And>z. z \<in> set (a_seasons db) \<Longrightarrow> z_media_request_id z = mr \<Longrightarrow> z_season_number z \<noteq> n"
    by (auto simp: find_sea_def find_None_iff)
  let ?z = "new_season (a_next_id db) mr n status regrab"
  let ?db = "db\<lparr>a_seasons := a_seasons db @ [?z], a_next_id := a_next_id db + 1\<rparr>"
  from None run have res: "status \<in> set REQUEST_STATUSES" "app_unique ?db \<and> app_refs ?db"
    "map_sum id (to_record_sea ?z) (tmdb_id_for ?db mr) = Inr rec" "db' = ?db"
    by (auto simp: ensure_from_def request_status_def bind_op_Inr savepoint_def insert_season_def Let_def
        bind_op_def app_flush_def of_sum_def split: sum.splits if_splits option.splits)
  then obtain r where "find_req db mr = Some r" "rec = to_record_sea ?z (q_tmdb_id r)"
    by (auto simp: tmdb_id_for_def find_req_def split: option.splits)
  moreover have "find_sea db' mr n = Some ?z"
    unfolding res(4) find_sea_def by (rule find_key) (auto simp: new_season_def dest: fresh)
  ultimately show ?thesis using None res by auto
qed

lemmas ensure_sea_Inr = ensure_from_Inr[folded ensure_sea_def]

lemma ensure_sea_found:
  "find_sea db mr n = Some z \<Longrightarrow> ensure_sea mr n status regrab db = Inr (rec, db') \<Longrightarrow>
     db' = db \<and> (\<exists>r. find_req db mr = Some r \<and> rec = to_record_sea z (q_tmdb_id r))"
  by (auto dest!: ensure_sea_Inr)

lemma record_fields [simp]:
  "zr_id (to_record_sea z t) = z_id z" "zr_status (to_record_sea z t) = z_status z"
  "zr_season_number (to_record_sea z t) = z_season_number z"
  "zr_media_request_id (to_record_sea z t) = z_media_request_id z"
  "zr_completion_generation (to_record_sea z t) = z_completion_generation z"
  by (simp_all add: to_record_sea_def)

text \<open>A statement on one season by its id, when that season is there.\<close>

lemma update_season_by_id:
  assumes inv: "app_inv db" and z: "z \<in> set (a_seasons db)" and p: "\<And>x. p x \<Longrightarrow> z_id x = z_id z"
    and run: "update_seasons p f db = Inr (b, db')"
  shows "b \<longleftrightarrow> p z" and "db' = map_seasons p f db" and "\<not> b \<Longrightarrow> db' = db"
proof -
  from run have res: "b = (length (filter p (a_seasons db)) = 1)" "db' = map_seasons p f db"
    by (auto simp: update_seasons_def)
  have "length (filter p (a_seasons db)) = 1 \<longleftrightarrow> list_ex p (a_seasons db)"
    by (rule count_by_key[OF app_invD(2)[OF inv] p])
  moreover have only: "x \<in> set (a_seasons db) \<Longrightarrow> p x \<Longrightarrow> x = z" for x
    using season_id_inj[OF inv _ z p] by blast
  ultimately show b: "b \<longleftrightarrow> p z" using z res(1) by (auto simp: list_ex_iff)
  show "db' = map_seasons p f db" by (rule res(2))
  assume "\<not> b"
  with b only have "\<not> list_ex p (a_seasons db)" by (auto simp: list_ex_iff)
  then show "db' = db" by (simp add: res(2) map_seasons_def map_if_no_hit)
qed

section \<open>The parent rollup\<close>

lemma set_status_req_Inr:
  "set_status_req mr status db = Inr (x, db') \<Longrightarrow> find_req db mr \<noteq> None \<and> status \<in> set REQUEST_STATUSES
     \<and> db' = map_requests (\<lambda>r. q_id r = mr) (\<lambda>r. r\<lparr>q_status := status\<rparr>) db"
  by (auto simp: set_status_req_def bind_op_Inr request_status_def write_request_def split: if_splits)

lemma stamp_Inr:
  "stamp_completed_at_if_unset now mr db = Inr (x, db') \<Longrightarrow>
     db' = map_requests (\<lambda>r. q_id r = mr \<and> q_completed_at r = None) (\<lambda>r. r\<lparr>q_completed_at := Some now\<rparr>) db"
  by (auto simp: stamp_completed_at_if_unset_def bind_op_Inr update_requests_def split: if_splits)

lemma heal_seasons: "heal_completed_at now mr db = Inr (x, db') \<Longrightarrow> a_seasons db' = a_seasons db"
  by (auto simp: heal_completed_at_def bind_op_Inr update_requests_def)

lemma map_requests_ids:
  assumes "\<And>r. q_id (f r) = q_id r"
  shows "map q_id (a_requests (map_requests p f db)) = map q_id (a_requests db)"
    and "q_id ` set (a_requests (map_requests p f db)) = q_id ` set (a_requests db)"
proof -
  show ids: "map q_id (a_requests (map_requests p f db)) = map q_id (a_requests db)" using assms by simp
  show "q_id ` set (a_requests (map_requests p f db)) = q_id ` set (a_requests db)"
    unfolding set_map[symmetric] ids by (rule refl)
qed

lemma find_req_map:
  "(\<And>r. q_id (f r) = q_id r) \<Longrightarrow> find_req (map_requests p f db) i = map_option (\<lambda>r. if p r then f r else r) (find_req db i)"
proof -
  assume id: "\<And>r. q_id (f r) = q_id r"
  have "find (\<lambda>r. q_id r = i) (map (\<lambda>r. if p r then f r else r) rs)
      = map_option (\<lambda>r. if p r then f r else r) (find (\<lambda>r. q_id r = i) rs)" for rs
    by (induction rs) (auto simp: id)
  then show ?thesis by (simp add: find_req_def)
qed

text \<open>The rollup of a show, read off its season rows.\<close>

definition season_statuses :: "app_db \<Rightarrow> int \<Rightarrow> string list" where
  "season_statuses db mr = map z_status (by_season_number (filter (\<lambda>z. z_media_request_id z = mr) (a_seasons db)))"

definition rolled_up :: "app_db \<Rightarrow> int \<Rightarrow> bool" where
  "rolled_up db mr \<longleftrightarrow> season_statuses db mr = []
     \<or> (\<exists>r. find_req db mr = Some r \<and> rollup_status (season_statuses db mr) = Inr (q_status r))"

definition slot_taken :: "app_db \<Rightarrow> int \<Rightarrow> bool" where
  "slot_taken db mr = list_ex (\<lambda>r. req_active r \<and> q_id r \<noteq> mr
     \<and> (case find_req db mr of None \<Rightarrow> False | Some p \<Rightarrow> of_title (q_tmdb_id p) (q_media_type p) r)) (a_requests db)"

lemma list_for_request_Inr:
  "list_for_request_sea db mr = Inr seasons \<Longrightarrow> map zr_status seasons = season_statuses db mr"
  by (auto simp: list_for_request_sea_def season_statuses_def Let_def comp_def tmdb_id_for_def split: if_splits option.splits)

lemma season_statuses_cong: "a_seasons db' = a_seasons db \<Longrightarrow> season_statuses db' mr = season_statuses db mr"
  by (simp add: season_statuses_def)

lemma request_flush_conflict:
  assumes inv: "app_inv db" and r: "find_req db mr = Some r"
    and bad: "\<not> (app_unique (map_requests (\<lambda>r. q_id r = mr) (\<lambda>r. r\<lparr>q_status := status\<rparr>) db)
      \<and> app_refs (map_requests (\<lambda>r. q_id r = mr) (\<lambda>r. r\<lparr>q_status := status\<rparr>) db))"
  shows "slot_taken db mr"
proof (rule ccontr)
  assume free: "\<not> slot_taken db mr"
  let ?f = "\<lambda>x. if q_id x = mr then x\<lparr>q_status := status\<rparr> else x"
  let ?key = "\<lambda>x. (q_tmdb_id x, q_media_type x)"
  let ?db = "map_requests (\<lambda>r. q_id r = mr) (\<lambda>r. r\<lparr>q_status := status\<rparr>) db"
  have rin: "r \<in> set (a_requests db)" "q_id r = mr" using find_req_SomeD[OF r] by auto
  have ids: "map q_id (a_requests ?db) = map q_id (a_requests db)"
    "q_id ` set (a_requests ?db) = q_id ` set (a_requests db)"
    by (rule map_requests_ids; simp)+
  have "app_refs db" using inv by (simp add: app_inv_def)
  then have refs: "app_refs ?db"
    unfolding app_refs_def ids(2) by (simp add: list.pred_map comp_def if_distrib cong: if_cong option.case_cong)
  have "distinct (map ?key (filter req_active (map ?f (a_requests db))))"
  proof -
    have "inj_on ?key (set (filter req_active (map ?f (a_requests db))))"
    proof (rule inj_onI)
      fix a b assume a: "a \<in> set (filter req_active (map ?f (a_requests db)))"
        and b: "b \<in> set (filter req_active (map ?f (a_requests db)))" and eq: "?key a = ?key b"
      from a b obtain a0 b0 where a0: "a0 \<in> set (a_requests db)" "a = ?f a0" "req_active a"
        and b0: "b0 \<in> set (a_requests db)" "b = ?f b0" "req_active b" by auto
      have key0: "?key a0 = ?key b0" using eq by (simp add: a0(2) b0(2) split: if_splits)
      have "a0 = b0"
      proof (cases "q_id a0 = mr \<or> q_id b0 = mr")
        case True
        have "\<not> (req_active c \<and> q_id c \<noteq> mr \<and> ?key c = ?key r)" if "c \<in> set (a_requests db)" for c
          using free that r by (auto simp: slot_taken_def list_ex_iff of_title_def)
        moreover have "q_id a0 = mr \<Longrightarrow> a0 = r" "q_id b0 = mr \<Longrightarrow> b0 = r"
          using request_id_inj[OF inv _ rin(1)] a0(1) b0(1) rin(2) by simp_all
        ultimately show ?thesis using True key0 a0 b0 by (cases "q_id a0 = mr"; cases "q_id b0 = mr") auto
      next
        case False
        then show ?thesis using active_title_inj[OF inv a0(1) b0(1)] a0 b0 key0 by simp
      qed
      then show "a = b" using a0(2) b0(2) by simp
    qed
    moreover have "distinct (map ?f (a_requests db))"
    proof -
      have "distinct (map q_id (a_requests ?db))" unfolding ids(1) by (rule app_invD(1)[OF inv])
      then have "distinct (a_requests ?db)" by (rule distinct_map[THEN iffD1, THEN conjunct1])
      then show ?thesis by simp
    qed
    ultimately show ?thesis by (simp add: distinct_map)
  qed
  then have "app_unique ?db"
    using inv unfolding app_inv_def app_unique_def request_keys_def season_keys_def ids(1) by simp
  with refs bad show False by blast
qed

text \<open>A strict recompute leaves the rollup; a tolerant one may find the active slot of the title taken.\<close>

lemma recompute_parent_Inr:
  assumes inv: "app_inv db" and run: "recompute_parent now mr tol stamp db = Inr (x, db')"
  shows "a_seasons db' = a_seasons db" and "q_id ` set (a_requests db') = q_id ` set (a_requests db)"
    and "rolled_up db' mr \<or> tol \<and> db' = db \<and> slot_taken db mr"
proof -
  from run obtain seasons where l: "list_for_request_sea db mr = Inr seasons"
    and rest: "(if seasons = [] then return_op ()
       else bind_op (of_sum (parent_rollup seasons)) (\<lambda>status.
         if \<not> tol then
           bind_op (set_status_req mr status) (\<lambda>_.
             if stamp \<and> list_ex (\<lambda>z. zr_status z \<in> set REAL_DONE_SEASON_STATUS_VALUES) seasons
             then stamp_completed_at_if_unset now mr else return_op ())
         else savepoint (set_status_req mr status) (return_op ()))) db = Inr (x, db')"
    by (auto simp: recompute_parent_def bind_op_Inr)
  note st = list_for_request_Inr[OF l]
  have "a_seasons db' = a_seasons db \<and> q_id ` set (a_requests db') = q_id ` set (a_requests db)
    \<and> (rolled_up db' mr \<or> tol \<and> db' = db \<and> slot_taken db mr)"
  proof (cases "seasons = []")
    case True
    with rest st show ?thesis by (simp add: rolled_up_def)
  next
    case False
    with rest obtain status where ru: "rollup_status (season_statuses db mr) = Inr status"
      and w: "if \<not> tol then \<exists>u db1. set_status_req mr status db = Inr (u, db1)
           \<and> (db' = db1 \<or> stamp_completed_at_if_unset now mr db1 = Inr (x, db'))
         else savepoint (set_status_req mr status) (return_op ()) db = Inr (x, db')"
      by (auto simp: bind_op_Inr parent_rollup_def st split: sum.splits if_splits)
    have done_ok: "a_seasons db2 = a_seasons db \<and> q_id ` set (a_requests db2) = q_id ` set (a_requests db) \<and> rolled_up db2 mr"
      if w1: "set_status_req mr status db = Inr (u, db1)"
        and w2: "db2 = db1 \<or> stamp_completed_at_if_unset now mr db1 = Inr (x, db2)" for u db1 db2
    proof -
      from set_status_req_Inr[OF w1] obtain r where r: "find_req db mr = Some r"
        and db1: "db1 = map_requests (\<lambda>r. q_id r = mr) (\<lambda>r. r\<lparr>q_status := status\<rparr>) db" by auto
      have r1: "find_req db1 mr = Some (r\<lparr>q_status := status\<rparr>)"
        using find_req_SomeD[OF r] by (simp add: db1 find_req_map r)
      from w2 obtain r2 where r2: "find_req db2 mr = Some r2" "q_status r2 = status"
      proof
        assume "stamp_completed_at_if_unset now mr db1 = Inr (x, db2)"
        from stamp_Inr[OF this] r1 have "find_req db2 mr = Some (if q_completed_at r = None \<and> q_id r = mr
            then r\<lparr>q_status := status, q_completed_at := Some now\<rparr> else r\<lparr>q_status := status\<rparr>)"
          by (simp add: find_req_map conj_commute)
        then show thesis by (rule that) simp
      qed (use r1 that in simp)
      have ids1: "q_id ` set (a_requests db1) = q_id ` set (a_requests db)"
        unfolding db1 by (rule map_requests_ids) simp
      have ids2: "q_id ` set (a_requests db2) = q_id ` set (a_requests db1)"
        using w2
      proof
        assume "stamp_completed_at_if_unset now mr db1 = Inr (x, db2)"
        from stamp_Inr[OF this] show ?thesis by (simp only:) (rule map_requests_ids, simp)
      qed simp
      have "a_seasons db2 = a_seasons db1"
        using w2
      proof
        assume "stamp_completed_at_if_unset now mr db1 = Inr (x, db2)"
        from stamp_Inr[OF this] show ?thesis by simp
      qed simp
      then have frame: "a_seasons db2 = a_seasons db" "q_id ` set (a_requests db2) = q_id ` set (a_requests db)"
        unfolding ids2 ids1 by (simp_all add: db1)
      have "rolled_up db2 mr"
        unfolding rolled_up_def season_statuses_cong[OF frame(1)]
        by (intro disjI2 exI[of _ r2] conjI r2(1)) (simp only: ru r2(2))
      with frame show ?thesis by blast
    qed
    show ?thesis
    proof (cases tol)
      case False
      with w obtain u db1 where "set_status_req mr status db = Inr (u, db1)"
        "db' = db1 \<or> stamp_completed_at_if_unset now mr db1 = Inr (x, db')" by auto
      from done_ok[OF this] show ?thesis by blast
    next
      case True
      show ?thesis
      proof (cases "set_status_req mr status db")
        case (Inr ud)
        with True w have "set_status_req mr status db = Inr (x, db')" by (simp add: savepoint_def)
        from done_ok[OF this disjI1[OF refl]] show ?thesis by blast
      next
        case (Inl e)
        with True w have db': "db' = db" "e = IntegrityError" by (auto simp: savepoint_def return_op_def split: if_splits)
        with Inl obtain r where r: "find_req db mr = Some r"
          and bad: "\<not> (app_unique (map_requests (\<lambda>r. q_id r = mr) (\<lambda>r. r\<lparr>q_status := status\<rparr>) db)
            \<and> app_refs (map_requests (\<lambda>r. q_id r = mr) (\<lambda>r. r\<lparr>q_status := status\<rparr>) db))"
          by (auto simp: set_status_req_def bind_op_def of_sum_def request_status_def write_request_def app_flush_def
              split: if_splits)
        from request_flush_conflict[OF inv r bad] True db' show ?thesis by simp
      qed
    qed
  qed
  then show "a_seasons db' = a_seasons db" "q_id ` set (a_requests db') = q_id ` set (a_requests db)"
    "rolled_up db' mr \<or> tol \<and> db' = db \<and> slot_taken db mr" by blast+
qed

section \<open>Promotion of a season\<close>

lemma completed_raises_generation:
  assumes inv: "app_inv db" and run: "mark_completed now mr n db = Inr ((), db')"
  shows "\<exists>z' \<in> set (a_seasons db'). z_media_request_id z' = mr \<and> z_season_number z' = n
     \<and> (\<forall>z \<in> set (a_seasons db). z_media_request_id z = mr \<and> z_season_number z = n \<longrightarrow> season_gen z < season_gen z')"
proof -
  from run obtain rec db1 db2 where e: "ensure_pending mr n db = Inr (rec, db1)"
    and c: "mark_completed_sea now (zr_id rec) db1 = Inr ((), db2)" and p: "recompute_parent now mr False True db2 = Inr ((), db')"
    by (auto simp: mark_completed_def bind_op_Inr)
  from ensure_sea_Inr[OF e[unfolded ensure_pending_def]] obtain z t where z: "find_sea db1 mr n = Some z" "rec = to_record_sea z t"
    and old: "find_sea db mr n = Some z \<or> find_sea db mr n = None" by blast
  have inv1: "app_inv db1" using steadyD[OF steady_ensure_pending inv e] by (rule evolves_inv)
  have inv2: "app_inv db2" using steadyD[OF steady_season_writes(3) inv1 c] by (rule evolves_inv)
  from c have "update_seasons (\<lambda>x. z_id x = zr_id rec) (move_season now ''completed'') db1 = Inr (True, db2)"
    by (auto simp: mark_completed_sea_def set_status_sea_def bind_op_Inr request_status_def split: if_splits)
  from update_seasons_True[OF this] z(2) obtain z1 where z1: "z1 \<in> set (a_seasons db1)" "z_id z1 = z_id z"
    "move_season now ''completed'' z1 \<in> set (a_seasons db2)" by auto
  have zin: "z \<in> set (a_seasons db1)" "z_media_request_id z = mr" "z_season_number z = n" using find_sea_SomeD[OF z(1)] by auto
  have "z1 = z" by (rule season_id_inj[OF inv1 z1(1) zin(1) z1(2)])
  with z1 obtain z2 where z2: "z2 \<in> set (a_seasons db2)" "season_gen z2 = season_gen z + 1"
    "z_media_request_id z2 = mr" "z_season_number z2 = n"
    using zin by (auto simp: move_season_def completion_write_values_def season_gen_def next_generation_def coalesce_def)
  have "z2 \<in> set (a_seasons db')" using z2(1) recompute_parent_Inr(1)[OF inv2 p] by simp
  moreover have "season_gen z0 < season_gen z2"
    if z0: "z0 \<in> set (a_seasons db)" "z_media_request_id z0 = mr" "z_season_number z0 = n" for z0
  proof -
    have "find_sea db mr n = Some z0" using find_sea_eq[OF inv z0(1)] z0 by simp
    with old have "z0 = z" by simp
    with z2(2) show ?thesis by simp
  qed
  ultimately show ?thesis using z2(3,4) by blast
qed

lemma get_sea_SomeD:
  assumes "get_sea db sid = Inr (Some rec)"
  obtains z t where "z \<in> set (a_seasons db)" "z_id z = sid" "rec = to_record_sea z t"
  using assms by (auto simp: get_sea_def record_of_def map_sum_Inr split: option.splits dest!: find_season_SomeD)

text \<open>
  The same holds for a season, also when it is re-completed without a new download. Snapshot a season
  anywhere, let the program run, let the season complete again, let the program run on: promoting it with
  the snapshot's generation is refused, and neither the season nor its show changes.
\<close>

theorem stale_season_promotion_refused:
  assumes start: "reachable app_init app_step db" and snap: "get_sea db sid = Inr (Some snapshot)"
    and before: "app_step\<^sup>*\<^sup>* db db1"
    and again: "mark_completed now (zr_media_request_id snapshot) (zr_season_number snapshot) db1 = Inr ((), db2)"
    and after: "app_step\<^sup>*\<^sup>* db2 db3"
    and promote: "mark_available now' (zr_media_request_id snapshot) (zr_season_number snapshot)
      (zr_completion_generation snapshot) db3 = Inr (b, db4)"
  shows "\<not> b \<and> db4 = db3"
proof -
  have inv: "app_inv db" using start by (rule request_store.reachable_inv)
  have inv1: "app_inv db1" using inv before by (rule request_store.steps_inv)
  have "app_step db1 db2" using again by (rule st_season_completed)
  then have inv2: "app_inv db2" using inv1 by (rule app_step_inv)
  have inv3: "app_inv db3" using inv2 after by (rule request_store.steps_inv)
  from snap obtain z t where z: "z \<in> set (a_seasons db)" "snapshot = to_record_sea z t" by (rule get_sea_SomeD)
  let ?mr = "z_media_request_id z" and ?n = "z_season_number z"
  from completed_raises_generation[OF inv1 again] z(2) obtain z2 where z2: "z2 \<in> set (a_seasons db2)"
    "z_media_request_id z2 = ?mr" "z_season_number z2 = ?n"
    and raised: "\<And>z1. z1 \<in> set (a_seasons db1) \<Longrightarrow> z_media_request_id z1 = ?mr \<Longrightarrow> z_season_number z1 = ?n
      \<Longrightarrow> season_gen z1 < season_gen z2" by auto
  have parent1: "?mr \<in> q_id ` set (a_requests db1)"
  proof -
    from again obtain rec db0 where "ensure_pending ?mr ?n db1 = Inr (rec, db0)" by (auto simp: z(2) mark_completed_def bind_op_Inr)
    from ensure_sea_Inr[OF this[unfolded ensure_pending_def]] obtain r where "find_req db1 ?mr = Some r" by blast
    then show ?thesis using find_req_None[of db1 ?mr] by (cases "?mr \<in> q_id ` set (a_requests db1)") auto
  qed
  from evolves_keeps_season[OF app_steps_evolve[OF before inv] z(1) parent1] obtain z1 where
    z1: "z1 \<in> set (a_seasons db1)" "same_season z z1" by blast
  have gen: "season_gen z < season_gen z2" using raised[OF z1(1)] z1(2) by (simp add: same_season_def)
  from promote obtain rec db5 where e: "ensure_pending ?mr ?n db3 = Inr (rec, db5)"
    and m: "bind_op (mark_available_sea (zr_id rec) (z_completion_generation z)) (\<lambda>promoted.
       if promoted then bind_op (recompute_parent now' ?mr False True) (\<lambda>_. return_op True)
       else return_op False) db5 = Inr (b, db4)"
    by (auto simp: z(2) mark_available_def bind_op_Inr)
  from ensure_sea_Inr[OF e[unfolded ensure_pending_def]] obtain z5 r where z5: "find_sea db5 ?mr ?n = Some z5"
    "find_req db3 ?mr = Some r" "rec = to_record_sea z5 (q_tmdb_id r)"
    and how: "find_sea db3 ?mr ?n = Some z5 \<and> db5 = db3 \<or> find_sea db3 ?mr ?n = None" by blast
  have "z_media_request_id z2 \<in> q_id ` set (a_requests db3)" using find_req_SomeD[OF z5(2)] z2(2) by force
  from evolves_keeps_season[OF app_steps_evolve[OF after inv2] z2(1) this] obtain z3 where
    z3: "z3 \<in> set (a_seasons db3)" "same_season z2 z3" by blast
  then have "find_sea db3 ?mr ?n = Some z3" using find_sea_eq[OF inv3 z3(1)] z2 by (simp add: same_season_def)
  with how have z35: "z5 = z3" "db5 = db3" by auto
  have gen3: "season_gen z < season_gen z3" using gen z3(2) by (simp add: same_season_def)
  then have differ: "z_completion_generation z3 \<noteq> z_completion_generation z" by (auto simp: season_gen_def)
  from m obtain p db6 where p: "mark_available_sea (z_id z3) (z_completion_generation z) db3 = Inr (p, db6)"
    "p \<or> db4 = db6 \<and> \<not> b" by (auto simp: bind_op_Inr z5(3) z35 split: if_splits)
  have upd: "update_seasons (\<lambda>x. z_id x = z_id z3 \<and> z_status x \<in> {''completed'', ''available''}
      \<and> z_completion_generation x = z_completion_generation z)
    (\<lambda>z. z\<lparr>z_status := ''available'', z_eviction_regrab := Some False\<rparr>) db3 = Inr (p, db6)"
    using p(1) by (simp add: mark_available_sea_def)
  have "\<not> p" using update_season_by_id(1)[OF inv3 z3(1) _ upd] differ by simp
  moreover from this have "db6 = db3" using update_season_by_id(3)[OF inv3 z3(1) _ upd] by simp
  ultimately show ?thesis using p(2) by simp
qed

section \<open>The status of a show\<close>

text \<open>The calls that move a season of show \<open>mr\<close> and did move it, in the strict mode.\<close>

inductive season_moved :: "int \<Rightarrow> app_db \<Rightarrow> app_db \<Rightarrow> bool" for mr where
  "set_status now mr n status False db = Inr ((), db') \<Longrightarrow> season_moved mr db db'"
| "set_status_if_in now mr sid status allowed g False db = Inr (True, db') \<Longrightarrow> season_moved mr db db'"
| "mark_completed now mr n db = Inr ((), db') \<Longrightarrow> season_moved mr db db'"
| "mark_completed_if_in now mr n allowed cov db = Inr (True, db') \<Longrightarrow> season_moved mr db db'"
| "mark_available now mr n gen db = Inr (True, db') \<Longrightarrow> season_moved mr db db'"
| "mark_no_acceptable_release now mr n cov db = Inr (True, db') \<Longrightarrow> season_moved mr db db'"
| "reset_for_research now mr n clr db = Inr ((), db') \<Longrightarrow> season_moved mr db db'"
| "ensure_seasons now lib mr tmdb ns fp snap db = Inr (recs, db') \<Longrightarrow> season_moved mr db db'"

text \<open>Operations that leave the show rolled up whenever they return a value with \<open>P\<close>.\<close>

definition rolls_up :: "int \<Rightarrow> ('a \<Rightarrow> bool) \<Rightarrow> 'a app_op \<Rightarrow> bool" where
  "rolls_up mr P m \<longleftrightarrow> (\<forall>db x db'. app_inv db \<longrightarrow> m db = Inr (x, db') \<longrightarrow> P x \<longrightarrow> rolled_up db' mr)"

lemma rolls_upD: "rolls_up mr P m \<Longrightarrow> app_inv db \<Longrightarrow> m db = Inr (x, db') \<Longrightarrow> P x \<Longrightarrow> rolled_up db' mr"
  by (simp add: rolls_up_def)

lemma rolls_up_bind:
  assumes "steady m" "\<And>y. rolls_up mr P (f y)"
  shows "rolls_up mr P (bind_op m f)"
  unfolding rolls_up_def
proof (intro allI impI)
  fix db x db' assume inv: "app_inv db" and run: "bind_op m f db = Inr (x, db')" and P: "P x"
  then obtain y db1 where y: "m db = Inr (y, db1)" "f y db1 = Inr (x, db')" by (auto simp: bind_op_Inr)
  have "app_inv db1" using steadyD[OF assms(1) inv y(1)] by (rule evolves_inv)
  with assms(2)[of y] y(2) P show "rolled_up db' mr" unfolding rolls_up_def by blast
qed

lemma rolls_up_recompute: "rolls_up mr P (recompute_parent now mr False stamp)"
  using recompute_parent_Inr(3)[of _ now mr False stamp] unfolding rolls_up_def by blast

lemma rolls_up_recompute_return: "rolls_up mr P (bind_op (recompute_parent now mr False stamp) (\<lambda>_. return_op y))"
  using rolls_up_recompute[of mr "\<lambda>_. True" now stamp] unfolding rolls_up_def by (fastforce simp: bind_op_Inr)

lemma rolls_up_no: "\<not> P x \<Longrightarrow> rolls_up mr P (return_op x)"
  by (auto simp: rolls_up_def)

lemma rolls_up_If: "(b \<Longrightarrow> rolls_up mr P m) \<Longrightarrow> (\<not> b \<Longrightarrow> rolls_up mr P n) \<Longrightarrow> rolls_up mr P (if b then m else n)"
  by simp

lemmas rolls_up_rules = rolls_up_recompute_return rolls_up_recompute rolls_up_no rolls_up_If rolls_up_bind

lemma rolls_up_swap: "rolls_up mr (\<lambda>b. b) (set_status_if_in now mr sid status allowed g False)"
  unfolding set_status_if_in_def by (intro rolls_up_rules steady_rules) simp

lemma rolls_up_calls:
  "rolls_up mr (\<lambda>_. True) (set_status now mr n status False)"
  "rolls_up mr (\<lambda>_. True) (mark_completed now mr n)"
  "rolls_up mr (\<lambda>b. b) (mark_completed_if_in now mr n allowed cov)"
  "rolls_up mr (\<lambda>b. b) (mark_available now mr n gen)"
  "rolls_up mr (\<lambda>b. b) (mark_no_acceptable_release now mr n cov)"
  "rolls_up mr (\<lambda>_. True) (reset_for_research now mr n clr)"
  unfolding set_status_def mark_completed_def mark_completed_if_in_def mark_available_def
    mark_no_acceptable_release_def reset_for_research_def
  by (simp_all only: simp_thms if_False) (intro rolls_up_rules rolls_up_swap steady_rules; simp)+

lemma rolls_up_ensure:
  assumes "app_inv db" "ensure_seasons now lib mr tmdb ns fp snap db = Inr (recs, db')"
  shows "rolled_up db' mr"
proof -
  have "rolls_up mr (\<lambda>_. True) (bind_op (ensure_each now mr fp T E ns) (\<lambda>(records, heal).
         bind_op (if heal then heal_completed_at now mr else return_op ()) (\<lambda>_.
         bind_op (recompute_parent now mr False False) (\<lambda>_. return_op records))))" for T E
    by (auto intro!: rolls_up_rules steady_rules split: prod.splits)
  with assms show ?thesis unfolding rolls_up_def ensure_seasons_def Let_def by blast
qed

lemma season_moved_rolled_up: "season_moved mr db db' \<Longrightarrow> app_inv db \<Longrightarrow> rolled_up db' mr"
proof (induction rule: season_moved.induct)
  case 1
  show ?case by (rule rolls_upD[OF rolls_up_calls(1) 1(2) 1(1) TrueI])
next
  case 2
  show ?case by (rule rolls_upD[OF rolls_up_swap 2(2) 2(1) TrueI])
next
  case 3
  show ?case by (rule rolls_upD[OF rolls_up_calls(2) 3(2) 3(1) TrueI])
next
  case 4
  show ?case by (rule rolls_upD[OF rolls_up_calls(3) 4(2) 4(1) TrueI])
next
  case 5
  show ?case by (rule rolls_upD[OF rolls_up_calls(4) 5(2) 5(1) TrueI])
next
  case 6
  show ?case by (rule rolls_upD[OF rolls_up_calls(5) 6(2) 6(1) TrueI])
next
  case 7
  show ?case by (rule rolls_upD[OF rolls_up_calls(6) 7(2) 7(1) TrueI])
next
  case 8
  show ?case by (rule rolls_up_ensure[OF 8(2,1)])
qed

text \<open>
  C7: the status of a show is the rollup of its seasons. Whenever a call of the season service has moved a
  season, the show's status afterwards is the rollup of the statuses its seasons then have. Only the
  eviction's tolerant write may leave it: then the database is the one after the season's own move, and
  another request of the same title holds the title's only active slot.
\<close>

theorem show_status_is_rollup:
  assumes "reachable app_init app_step db"
  shows "(season_moved mr db db' \<longrightarrow> rolled_up db' mr)
    \<and> (set_status_if_in now mr sid status allowed g True db = Inr (True, db') \<longrightarrow>
         rolled_up db' mr
         \<or> set_status_if_in_sea now sid status allowed g db = Inr (True, db') \<and> slot_taken db' mr)"
proof (intro conjI impI)
  have inv: "app_inv db" using assms by (rule request_store.reachable_inv)
  show "rolled_up db' mr" if "season_moved mr db db'" using season_moved_rolled_up[OF that inv] .
  assume "set_status_if_in now mr sid status allowed g True db = Inr (True, db')"
  then obtain db1 where sw: "set_status_if_in_sea now sid status allowed g db = Inr (True, db1)"
    and rec: "recompute_parent now mr True False db1 = Inr ((), db')"
    by (auto simp: set_status_if_in_def bind_op_Inr split: if_splits)
  have "app_inv db1" using steadyD[OF steady_set_status_if_in_sea inv sw] by (rule evolves_inv)
  from recompute_parent_Inr(3)[OF this rec] sw
  show "rolled_up db' mr \<or> set_status_if_in_sea now sid status allowed g db = Inr (True, db') \<and> slot_taken db' mr"
    by auto
qed

section \<open>A show of two seasons\<close>

definition demo_show :: app_db where
  "demo_show = demo_created\<lparr>a_seasons := [new_season 2 1 1 ''pending'' False, new_season 3 1 2 ''pending'' False],
     a_next_id := 4\<rparr>"

lemma demo_ensure: "ensure_seasons 6 None 1 1399 [1, 2] False None demo_created
    = Inr (map (\<lambda>z. to_record_sea z 1399) (a_seasons demo_show), demo_show)"
  by code_simp

definition demo_done :: app_db where
  "demo_done = demo_show\<lparr>a_requests := [demo_request\<lparr>q_status := ''completed'', q_completed_at := Some 9\<rparr>],
     a_seasons := [(new_season 2 1 1 ''completed'' False)\<lparr>z_completed_at := Some 9, z_completion_generation := Some 1\<rparr>,
       new_season 3 1 2 ''pending'' False]\<rparr>"

lemma demo_complete_season: "mark_completed 9 1 1 demo_show = Inr ((), demo_done)"
  by code_simp

lemma demo_show_reachable: "reachable app_init app_step demo_show"
  by (rule reach_step[OF demo_reachable]) (rule st_seasons[OF demo_ensure])

theorem stale_season_promotion_refused_witness:
  "mark_available 10 1 1 None demo_done = Inr (False, demo_done)
   \<and> (\<exists>db. mark_available 10 1 1 (Some 1) demo_done = Inr (True, db))"
proof
  let ?snap = "to_record_sea (new_season 2 1 1 ''pending'' False) 1399"
  have run: "mark_available 10 1 1 None demo_done = Inr (False, demo_done)" by code_simp
  have snap: "get_sea demo_show 2 = Inr (Some ?snap)" by code_simp
  have f: "zr_media_request_id ?snap = 1" "zr_season_number ?snap = 1" "zr_completion_generation ?snap = None" by code_simp+
  from stale_season_promotion_refused[OF demo_show_reachable snap rtranclp.rtrancl_refl, unfolded f,
      OF demo_complete_season rtranclp.rtrancl_refl run] run
  show "mark_available 10 1 1 None demo_done = Inr (False, demo_done)" by simp
  have "mark_available 10 1 1 (Some 1) demo_done = Inr (True, demo_done\<lparr>
      a_requests := [demo_request\<lparr>q_status := ''partially_available'', q_completed_at := Some 9\<rparr>],
      a_seasons := [(new_season 2 1 1 ''available'' False)\<lparr>z_completed_at := Some 9, z_completion_generation := Some 1\<rparr>,
        new_season 3 1 2 ''pending'' False]\<rparr>)" by code_simp
  then show "\<exists>db. mark_available 10 1 1 (Some 1) demo_done = Inr (True, db)" by blast
qed

theorem show_status_is_rollup_witness: "rolled_up demo_done 1"
  using show_status_is_rollup[OF demo_show_reachable] season_moved.intros(3)[OF demo_complete_season] by blast

end
