(* ===== verification/RequestLaws.thy ===== *)
theory RequestLaws
  imports SeasonLaws
begin

text \<open>
  Further promises of the request side: finished seasons are not reopened, the completion stamp of a show is
  backed by an import, and the deduplication check agrees with the unique index that backs it.
\<close>

section \<open>A finished season stays finished\<close>

lemma ensure_pending_found:
  "app_inv db \<Longrightarrow> find_sea db mr n = Some z \<Longrightarrow> \<exists>t. ensure_pending mr n db = Inr (to_record_sea z t, db)"
  using season_parent[of db z] find_sea_SomeD[of db mr n z]
  by (fastforce simp: ensure_pending_def ensure_sea_def ensure_from_def tmdb_id_for_def of_sum_def)

lemma update_no_hit:
  "app_inv db \<Longrightarrow> \<not> list_ex p (a_seasons db) \<Longrightarrow> update_seasons p f db = Inr (False, db)"
  by (simp add: update_seasons_def map_seasons_def map_if_no_hit app_flush_def app_inv_def list_ex_iff filter_empty_conv)

lemma update_requests_no_hit:
  "app_inv db \<Longrightarrow> \<not> list_ex p (a_requests db) \<Longrightarrow> update_requests p f db = Inr (False, db)"
  by (simp add: update_requests_def map_requests_def map_if_no_hit app_flush_def app_inv_def list_ex_iff filter_empty_conv)

lemma swap_refused:
  assumes inv: "app_inv db" and z: "z \<in> set (a_seasons db)"
    and allowed: "request_statuses allowed" "status \<in> set REQUEST_STATUSES"
    and no: "z_status z \<notin> set allowed \<or> \<not> guard_holds g db z"
  shows "set_status_if_in_sea now (z_id z) status allowed g db = Inr (False, db)"
proof -
  have "\<not> list_ex (\<lambda>x. z_id x = z_id z \<and> z_status x \<in> set allowed \<and> guard_holds g db x) (a_seasons db)"
    using season_id_inj[OF inv _ z] no by (fastforce simp: list_ex_iff)
  from update_no_hit[OF inv this] allowed show ?thesis by (simp add: set_status_if_in_sea_def)
qed

text \<open>
  C21: a finished season is never reopened by a stale signal. For a season that is completed, available,
  failed, evicted or cancelled, a failed download's re-arm and a parking are no-ops, and so is a completion
  from a set of statuses the season has left; parking leaves a season that is downloading or blocked alone
  too, and with the coverage guard a season some live torrent is fetching.
\<close>

theorem finished_season_protected:
  assumes "reachable app_init app_step db" and z: "find_sea db mr n = Some z"
  shows "(z_status z \<in> set TERMINAL_SEASON_STATUS_VALUES \<longrightarrow> set_status now mr n status True db = Inr ((), db))
    \<and> (z_status z \<notin> set PARKABLE_SEASON_STATUS_VALUES \<or> cov \<and> active_coverage_claim db z
         \<longrightarrow> mark_no_acceptable_release now mr n cov db = Inr (False, db))
    \<and> (request_statuses allowed \<and> (z_status z \<notin> set allowed \<or> cov \<and> active_coverage_claim db z)
         \<longrightarrow> mark_completed_if_in now mr n allowed cov db = Inr (False, db))"
proof -
  have inv: "app_inv db" using assms(1) by (rule request_store.reachable_inv)
  have zin: "z \<in> set (a_seasons db)" using find_sea_SomeD[OF z] by blast
  from ensure_pending_found[OF inv z] obtain t where e: "ensure_pending mr n db = Inr (to_record_sea z t, db)" by blast
  let ?g = "no_guard\<lparr>sg_no_active_coverage := cov\<rparr>"
  have g: "guard_holds ?g db z \<longleftrightarrow> \<not> (cov \<and> active_coverage_claim db z)" by (auto simp: guard_holds_def no_guard_def)
  have p: "request_statuses PARKABLE_SEASON_STATUS_VALUES" "''no_acceptable_release'' \<in> set REQUEST_STATUSES"
    "''completed'' \<in> set REQUEST_STATUSES"
    by (simp_all add: request_statuses_def PARKABLE_SEASON_STATUS_VALUES_def REQUEST_STATUSES_def)
  have "set_status now mr n status True db = Inr ((), db)" if "z_status z \<in> set TERMINAL_SEASON_STATUS_VALUES"
    using that by (simp add: set_status_def bind_op_def e return_op_def)
  moreover have "mark_no_acceptable_release now mr n cov db = Inr (False, db)"
    if "z_status z \<notin> set PARKABLE_SEASON_STATUS_VALUES \<or> cov \<and> active_coverage_claim db z"
    using swap_refused[OF inv zin p(1,2), of ?g now] that g
    by (simp add: mark_no_acceptable_release_def set_status_if_in_def bind_op_def e return_op_def)
  moreover have "mark_completed_if_in now mr n allowed cov db = Inr (False, db)"
    if "request_statuses allowed \<and> (z_status z \<notin> set allowed \<or> cov \<and> active_coverage_claim db z)"
    using swap_refused[OF inv zin _ p(3), of allowed ?g now] that g
    by (simp add: mark_completed_if_in_def bind_op_def e return_op_def)
  ultimately show ?thesis by blast
qed

theorem finished_season_protected_witness:
  "set_status 20 1 1 ''searching'' True demo_done = Inr ((), demo_done)
   \<and> mark_no_acceptable_release 20 1 1 False demo_done = Inr (False, demo_done)"
proof -
  have r: "reachable app_init app_step demo_done"
    by (rule reach_step[OF demo_show_reachable]) (rule st_season_completed[OF demo_complete_season])
  have z: "find_sea demo_done 1 1 = Some ((new_season 2 1 1 ''completed'' False)\<lparr>z_completed_at := Some 9,
      z_completion_generation := Some 1\<rparr>)" by code_simp
  show ?thesis
    using finished_season_protected[OF r z, of 20 "''searching''" False]
    by (simp add: new_season_def TERMINAL_SEASON_STATUS_VALUES_def PARKABLE_SEASON_STATUS_VALUES_def)
qed

section \<open>The completion stamp\<close>

definition healed :: "datetime \<Rightarrow> app_db \<Rightarrow> request_row \<Rightarrow> request_row" where
  "healed now db r = r\<lparr>q_completed_at := (if completion_backed db r
     then (case q_completed_at r of None \<Rightarrow> Some now | Some t \<Rightarrow> Some t) else None)\<rparr>"

lemma completion_backed_map:
  "completion_backed (map_requests p f db) r = completion_backed db r"
  "completion_backed db (r\<lparr>q_completed_at := c\<rparr>) = completion_backed db r"
proof -
  have "latest_import_event_id (map_requests p f db) d = latest_import_event_id db d" for d
    by (simp add: latest_import_event_id_def)
  then have "evicted_since_import (map_requests p f db) r d = evicted_since_import db r d" for d
    by (simp add: evicted_since_import_def)
  then show "completion_backed (map_requests p f db) r = completion_backed db r"
    by (simp add: completion_backed_def season_genuinely_imported_def)
  have "evicted_since_import db (r\<lparr>q_completed_at := c\<rparr>) d = evicted_since_import db r d" for d
    by (simp add: evicted_since_import_def)
  then show "completion_backed db (r\<lparr>q_completed_at := c\<rparr>) = completion_backed db r"
    by (simp add: completion_backed_def season_genuinely_imported_def)
qed

lemma healed_simps:
  "q_id (healed now db r) = q_id r" "completion_backed d (healed now db r) = completion_backed d r"
  "q_completed_at (healed now db r) \<noteq> None \<longleftrightarrow> completion_backed db r"
  by (simp_all add: healed_def completion_backed_map split: option.splits)

lemma flush_stamp:
  assumes inv: "app_inv db"
  shows "update_requests p (\<lambda>r. r\<lparr>q_completed_at := c\<rparr>) db
    = Inr (length (filter p (a_requests db)) = 1, map_requests p (\<lambda>r. r\<lparr>q_completed_at := c\<rparr>) db)"
proof -
  let ?db = "map_requests p (\<lambda>r. r\<lparr>q_completed_at := c\<rparr>) db"
  have ids: "map q_id (a_requests ?db) = map q_id (a_requests db)" "q_id ` set (a_requests ?db) = q_id ` set (a_requests db)"
    by (rule map_requests_ids; simp)+
  have keys: "request_keys ?db = request_keys db"
  proof -
    have "map (\<lambda>r. (q_tmdb_id r, q_media_type r)) (filter req_active (map (\<lambda>r. if p r then r\<lparr>q_completed_at := c\<rparr> else r) rs))
      = map (\<lambda>r. (q_tmdb_id r, q_media_type r)) (filter req_active rs)" for rs
      by (induction rs) (auto simp: req_active_def)
    then show ?thesis by (simp add: request_keys_def)
  qed
  have "app_refs db" "app_unique db" using inv by (simp_all add: app_inv_def)
  then have "app_refs ?db" "app_unique ?db"
    unfolding app_refs_def app_unique_def ids keys season_keys_def
    by (simp_all add: list.pred_map comp_def if_distrib cong: if_cong option.case_cong)
  then show ?thesis by (simp add: update_requests_def app_flush_def)
qed

lemma map_requests_twice:
  assumes "\<And>r. (if q (if p r then f r else r) then g (if p r then f r else r) else (if p r then f r else r))
    = (if s r then h r else r)"
  shows "map_requests q g (map_requests p f db) = map_requests s h db"
proof -
  have "map (\<lambda>r. if q r then g r else r) (map (\<lambda>r. if p r then f r else r) rs) = map (\<lambda>r. if s r then h r else r) rs" for rs
    by (induction rs) (simp_all only: list.map assms)
  then show ?thesis unfolding map_requests_def by simp
qed

text \<open>
  The completion stamp of a show says the truth. Healing never fails, changes no other row and nothing
  else of this one; afterwards the stamp is set exactly when some season is completed or available and was
  really imported (it has its library path, or an imported download no later eviction invalidates). A stamp
  that is backed is never moved, and healing twice is healing once.
\<close>

theorem heal_completed_at_exact:
  assumes "reachable app_init app_step db"
  shows "\<exists>db'. heal_completed_at now mr db = Inr ((), db')
    \<and> db' = map_requests (\<lambda>r. q_id r = mr) (healed now db) db
    \<and> heal_completed_at later mr db' = Inr ((), db')"
proof -
  have inv: "app_inv db" using assms by (rule request_store.reachable_inv)
  let ?p = "\<lambda>d r. q_id r = mr \<and> q_completed_at r \<noteq> None \<and> \<not> completion_backed d r"
  let ?q = "\<lambda>d r. q_id r = mr \<and> q_completed_at r = None \<and> completion_backed d r"
  let ?db1 = "map_requests (?p db) (\<lambda>r. r\<lparr>q_completed_at := None\<rparr>) db"
  let ?db2 = "map_requests (?q ?db1) (\<lambda>r. r\<lparr>q_completed_at := Some now\<rparr>) ?db1"
  let ?h = "map_requests (\<lambda>r. q_id r = mr) (healed now db) db"
  have inv1: "app_inv ?db1"
    using steadyD[OF steady_update_requests[of "\<lambda>r. r\<lparr>q_completed_at := None\<rparr>" "?p db"] inv flush_stamp[OF inv]]
    by (simp add: write_simps evolves_inv)
  have run: "heal_completed_at now mr db = Inr ((), ?db2)"
    unfolding heal_completed_at_def bind_op_def flush_stamp[OF inv] sum.case prod.case flush_stamp[OF inv1] return_op_def ..
  have h: "?db2 = ?h"
    by (rule map_requests_twice) (auto simp: healed_def completion_backed_map split: option.splits)
  have inv2: "app_inv ?h" using steadyD[OF steady_heal inv run] h by (simp add: evolves_inv)
  have agree: "q_completed_at r \<noteq> None \<longleftrightarrow> completion_backed ?h r" if r: "r \<in> set (a_requests ?h)" "q_id r = mr" for r
  proof -
    from r(1) have "r \<in> (\<lambda>r. if q_id r = mr then healed now db r else r) ` set (a_requests db)"
      by (simp only: map_frame set_map)
    then obtain r0 where r0: "r = (if q_id r0 = mr then healed now db r0 else r0)" by (rule imageE)
    have "q_id r0 = mr" using r(2) r0 by (cases "q_id r0 = mr") simp_all
    then have "r = healed now db r0" using r0 by simp
    then show ?thesis by (simp only: healed_simps completion_backed_map)
  qed
  then have quiet: "\<not> list_ex (?p ?h) (a_requests ?h)" "\<not> list_ex (?q ?h) (a_requests ?h)"
    unfolding list_ex_iff by blast+
  have u: "update_requests (?p ?h) f ?h = Inr (False, ?h)" "update_requests (?q ?h) f ?h = Inr (False, ?h)" for f
    by (rule update_requests_no_hit[OF inv2 quiet(1)], rule update_requests_no_hit[OF inv2 quiet(2)])
  have "heal_completed_at later mr ?h = Inr ((), ?h)"
    unfolding heal_completed_at_def bind_op_def u sum.case prod.case return_op_def ..
  with run h show ?thesis by auto
qed

theorem heal_completed_at_exact_witness:
  "heal_completed_at 30 1 demo_done = Inr ((), demo_done\<lparr>a_requests := [demo_request\<lparr>q_status := ''completed''\<rparr>]\<rparr>)"
proof -
  have r: "reachable app_init app_step demo_done"
    by (rule reach_step[OF demo_show_reachable]) (rule st_season_completed[OF demo_complete_season])
  have "map_requests (\<lambda>r. q_id r = 1) (healed 30 demo_done) demo_done
      = demo_done\<lparr>a_requests := [demo_request\<lparr>q_status := ''completed''\<rparr>]\<rparr>" by code_simp
  with heal_completed_at_exact[OF r, of 30 1] show ?thesis by auto
qed

section \<open>One request in progress per title\<close>

lemma settled_iff_not_active: "q_status r \<in> set REQUEST_STATUSES \<Longrightarrow> settled r \<longleftrightarrow> \<not> req_active r"
  by (auto simp: settled_def req_active_def REQUEST_STATUSES_def SETTLED_REQUEST_STATUSES_def ACTIVE_REQUEST_STATUSES_def)

lemma find_active_None:
  assumes inv: "app_inv db" and mt: "media_type mt = Inr m"
  shows "find_active db tmdb mt = Inr None \<longleftrightarrow> (\<forall>r \<in> set (a_requests db). \<not> (of_title tmdb m r \<and> req_active r))"
proof -
  have "settled r \<longleftrightarrow> \<not> req_active r" if "r \<in> set (a_requests db)" for r
    using inv that by (intro settled_iff_not_active) (simp add: app_inv_def app_typed_def)
  then show ?thesis by (auto simp: find_active_def mt find_None_iff by_req_id_def)
qed

lemma insert_request_outcome:
  assumes inv: "app_inv db" and r: "q_id r = a_next_id db"
    and user: "case q_user_id r of None \<Rightarrow> True | Some i \<Rightarrow> i \<in> set (a_users db)"
  shows "insert_request r db = (if req_active r \<and> list_ex (\<lambda>x. of_title (q_tmdb_id r) (q_media_type r) x \<and> req_active x) (a_requests db)
     then Inl IntegrityError else Inr ((), db\<lparr>a_requests := a_requests db @ [r], a_next_id := a_next_id db + 1\<rparr>))"
proof -
  let ?db = "db\<lparr>a_requests := a_requests db @ [r], a_next_id := a_next_id db + 1\<rparr>"
  have new: "q_id x \<noteq> q_id r" if "x \<in> set (a_requests db)" for x
    using inv that r by (auto simp: app_inv_def app_typed_def)
  have refs: "app_refs ?db"
    using inv user by (auto simp: app_inv_def app_refs_def list_all_iff cong: option.case_cong)
  have ids: "distinct (map q_id (a_requests ?db))" using app_invD(1)[OF inv] new by fastforce
  have "distinct (request_keys ?db) \<longleftrightarrow> \<not> (req_active r
      \<and> list_ex (\<lambda>x. of_title (q_tmdb_id r) (q_media_type r) x \<and> req_active x) (a_requests db))"
  proof -
    have mem: "(q_tmdb_id r, q_media_type r) \<in> set (map (\<lambda>r. (q_tmdb_id r, q_media_type r)) (filter req_active xs))
        \<longleftrightarrow> list_ex (\<lambda>x. of_title (q_tmdb_id r) (q_media_type r) x \<and> req_active x) xs" for xs
      by (induction xs) (auto simp: of_title_def)
    show ?thesis using app_invD(4)[OF inv] by (simp add: request_keys_def mem del: set_map)
  qed
  then have "app_unique ?db \<longleftrightarrow> \<not> (req_active r
      \<and> list_ex (\<lambda>x. of_title (q_tmdb_id r) (q_media_type r) x \<and> req_active x) (a_requests db))"
    using inv ids by (simp add: app_inv_def app_unique_def season_keys_def)
  with refs show ?thesis by (simp add: insert_request_def app_flush_def)
qed

lemma subscribe_creator:
  assumes inv: "app_inv db" and r: "q_id r = a_next_id db" and u: "u \<in> set (a_users db)"
    and ins: "insert_request r db = Inr ((), db1)"
  shows "\<exists>db2. add_subscriber now (q_id r) u db1 = Inr ((), db2) \<and> a_requests db2 = a_requests db1"
proof -
  have db1: "db1 = db\<lparr>a_requests := a_requests db @ [r], a_next_id := a_next_id db + 1\<rparr>"
    and ok: "app_unique db1" "app_refs db1" using ins by (auto simp: insert_request_def)
  have "sb_request_id s < a_next_id db" if "s \<in> set (a_subscribers db)" for s
    using inv that by (auto simp: app_inv_def app_refs_def app_typed_def list_all_iff)
  then have fresh: "sb_request_id s \<noteq> q_id r" if "s \<in> set (a_subscribers db1)" for s
    using that r db1 by fastforce
  then have "\<not> is_subscriber db1 (q_id r) u" by (auto simp: is_subscriber_def list_ex_iff)
  moreover have "q_id r \<in> q_id ` set (a_requests db1)" "u \<in> set (a_users db1)" using u db1 by auto
  ultimately show ?thesis
    using ok fresh by (auto simp: add_subscriber_def app_flush_def app_unique_def app_refs_def request_keys_def
        season_keys_def list_all_iff cong: option.case_cong)
qed

text \<open>
  C9: the deduplication the program checks and the one the database enforces are the same. In every
  reachable state, for a title, a known requester and a valid status, creating the request is refused with
  \<open>IntegrityError\<close> exactly when its status is one in progress and \<open>find_active\<close> finds a request for the
  title; otherwise it succeeds, and if in progress it is the request \<open>find_active\<close> finds from then on.
\<close>

theorem dedup_agrees:
  assumes "reachable app_init app_step db" and mt: "media_type mt = Inr m" and status: "status \<in> set REQUEST_STATUSES"
    and user: "case nr_user_id u of None \<Rightarrow> True | Some i \<Rightarrow> i \<in> set (a_users db)"
  shows "if status \<notin> set SETTLED_REQUEST_STATUSES \<and> find_active db tmdb mt \<noteq> Inr None
    then create_req now tmdb mt title status u db = Inl IntegrityError
    else \<exists>rec db'. create_req now tmdb mt title status u db = Inr (rec, db')
      \<and> (status \<notin> set SETTLED_REQUEST_STATUSES \<longrightarrow> find_active db' tmdb mt = Inr (Some rec))"
proof -
  have inv: "app_inv db" using assms(1) by (rule request_store.reachable_inv)
  let ?r = "new_request_row (a_next_id db) tmdb m title status u"
  have r: "q_id ?r = a_next_id db" "q_status ?r = status" "of_title tmdb m ?r" "q_user_id ?r = nr_user_id u"
    "q_tmdb_id ?r = tmdb" "q_media_type ?r = m"
    by (simp_all add: new_request_row_def of_title_def)
  have act: "req_active ?r \<longleftrightarrow> status \<notin> set SETTLED_REQUEST_STATUSES"
    using settled_iff_not_active[of ?r] status r(2) by (simp add: settled_def)
  have run: "create_req now tmdb mt title status u db = bind_op (insert_request ?r) (\<lambda>_.
      bind_op (case nr_user_id u of None \<Rightarrow> return_op () | Some uid \<Rightarrow> add_subscriber now (q_id ?r) uid) (\<lambda>_.
      return_op (to_record_req ?r))) db"
    by (simp add: create_req_def bind_op_def[of "of_sum _"] of_sum_def mt request_status_def status Let_def)
  have blocked: "list_ex (\<lambda>x. of_title tmdb m x \<and> req_active x) (a_requests db) \<longleftrightarrow> find_active db tmdb mt \<noteq> Inr None"
    using find_active_None[OF inv mt, of tmdb] by (auto simp: list_ex_iff)
  have ins: "insert_request ?r db = (if req_active ?r \<and> find_active db tmdb mt \<noteq> Inr None
      then Inl IntegrityError else Inr ((), db\<lparr>a_requests := a_requests db @ [?r], a_next_id := a_next_id db + 1\<rparr>))"
    using insert_request_outcome[OF inv r(1)] user blocked by (simp add: r)
  show ?thesis
  proof (cases "req_active ?r \<and> find_active db tmdb mt \<noteq> Inr None")
    case True
    then show ?thesis using ins run act by (simp add: bind_op_def)
  next
    case False
    let ?db1 = "db\<lparr>a_requests := a_requests db @ [?r], a_next_id := a_next_id db + 1\<rparr>"
    have i1: "insert_request ?r db = Inr ((), ?db1)" using ins False by simp
    obtain db2 where db2: "(case nr_user_id u of None \<Rightarrow> return_op () | Some uid \<Rightarrow> add_subscriber now (q_id ?r) uid) ?db1
        = Inr ((), db2)" "a_requests db2 = a_requests db @ [?r]"
    proof (cases "nr_user_id u")
      case None
      then show thesis using that[of ?db1] by (simp add: return_op_def)
    next
      case (Some uid)
      with subscribe_creator[OF inv r(1) _ i1, of uid now] user that show thesis by auto
    qed
    have res: "create_req now tmdb mt title status u db = Inr (to_record_req ?r, db2)"
      by (simp add: run bind_op_def i1 db2(1) return_op_def)
    have inv2: "app_inv db2" using steadyD[OF steady_create_req inv res] by (rule evolves_inv)
    have "find_active db2 tmdb mt = Inr (Some (to_record_req ?r))" if "req_active ?r"
    proof -
      have "find (\<lambda>x. of_title tmdb m x \<and> \<not> settled x) (by_req_id (a_requests db2)) = Some ?r"
      proof (rule find_key)
        fix y assume "y \<in> set (by_req_id (a_requests db2))"
        then have y: "y \<in> set (a_requests db2)" by (simp add: by_req_id_def)
        then have "settled y \<longleftrightarrow> \<not> req_active y"
          using inv2 by (intro settled_iff_not_active) (simp add: app_inv_def app_typed_def)
        then show "of_title tmdb m y \<and> \<not> settled y \<longleftrightarrow> y = ?r"
          using active_title_inj[OF inv2 y, of ?r] that r db2(2) by (auto simp: of_title_def)
      qed (simp add: by_req_id_def db2(2))
      then show ?thesis by (simp add: find_active_def mt)
    qed
    with res False act show ?thesis by auto
  qed
qed

theorem dedup_agrees_witness:
  "create_req 8 1399 ''tv'' ''Again'' ''searching'' plain_request demo_created = Inl IntegrityError"
proof -
  have "find_active demo_created 1399 ''tv'' \<noteq> Inr None" "media_type ''tv'' = Inr Tv"
    "''searching'' \<in> set REQUEST_STATUSES" "''searching'' \<notin> set SETTLED_REQUEST_STATUSES" "nr_user_id plain_request = None"
    by code_simp+
  with dedup_agrees[OF demo_reachable, of "''tv''" Tv "''searching''" plain_request 1399 8 "''Again''"]
  show ?thesis by simp
qed

end
