(* ===== verification/EnsureSeasons.thy ===== *)
theory EnsureSeasons
  imports SeasonLaws
begin

text \<open>
  What a re-request does to each season of a show, and what the air-date pass wakes. \<open>season_view\<close> is the
  status of a season as the rest of the program sees it; \<open>rearmed_status\<close> is the table of the re-request.
\<close>

definition season_view :: "app_db \<Rightarrow> int \<Rightarrow> int \<Rightarrow> string option" where
  "season_view db mr n = map_option z_status (find_sea db mr n)"

definition rearmed_status :: "bool \<Rightarrow> int set \<Rightarrow> int \<Rightarrow> string option \<Rightarrow> string" where
  "rearmed_status force_pending trusted n old =
     (let initial = (if n \<in> trusted then ''available'' else ''pending'') in
      case old of
        None \<Rightarrow> if force_pending then ''pending'' else initial
      | Some st \<Rightarrow>
          if st \<in> {''evicted'', ''waiting_for_air_date''} then initial
          else if force_pending \<and> st \<in> {''completed'', ''available''} then ''pending''
          else st)"

lemma find_sea_map:
  assumes "\<And>z. z_media_request_id (f z) = z_media_request_id z \<and> z_season_number (f z) = z_season_number z"
  shows "find_sea (map_seasons p f db) mr n = map_option (\<lambda>z. if p z then f z else z) (find_sea db mr n)"
proof -
  have "find (\<lambda>z. z_media_request_id z = mr \<and> z_season_number z = n) (map (\<lambda>z. if p z then f z else z) zs)
      = map_option (\<lambda>z. if p z then f z else z) (find (\<lambda>z. z_media_request_id z = mr \<and> z_season_number z = n) zs)" for zs
    by (induction zs) (auto simp: assms)
  then show ?thesis by (simp add: find_sea_def)
qed

lemma season_view_cong: "a_seasons db' = a_seasons db \<Longrightarrow> season_view db' mr n = season_view db mr n"
  by (simp add: season_view_def find_sea_def)

text \<open>An update of one season by id seen through the view.\<close>

lemma season_view_update:
  assumes inv: "app_inv db" and z: "find_sea db mr n = Some z"
    and f: "\<And>x. z_media_request_id (f x) = z_media_request_id x \<and> z_season_number (f x) = z_season_number x"
    and p: "\<And>x. x \<in> set (a_seasons db) \<Longrightarrow> p x \<longleftrightarrow> x = z"
  shows "find_sea (map_seasons p f db) mr n = Some (f z)"
    and "season_view (map_seasons p f db) m k = (if m = mr \<and> k = n then Some (z_status (f z)) else season_view db m k)"
proof -
  have zin: "z \<in> set (a_seasons db)" "z_media_request_id z = mr" "z_season_number z = n" using find_sea_SomeD[OF z] by auto
  show "find_sea (map_seasons p f db) mr n = Some (f z)" using p[OF zin(1)] z by (simp add: find_sea_map[OF f])
  moreover have "season_view (map_seasons p f db) m k = season_view db m k" if "\<not> (m = mr \<and> k = n)"
  proof (cases "find_sea db m k")
    case (Some y)
    then have "y \<in> set (a_seasons db)" "y \<noteq> z" using find_sea_SomeD[OF Some] zin that by auto
    with p Some show ?thesis by (simp add: season_view_def find_sea_map[OF f])
  qed (simp add: season_view_def find_sea_map[OF f])
  ultimately show "season_view (map_seasons p f db) m k = (if m = mr \<and> k = n then Some (z_status (f z)) else season_view db m k)"
    by (simp add: season_view_def)
qed

lemma ensure_sea_view:
  assumes inv: "app_inv db" and run: "ensure_sea mr n status regrab db = Inr (rec, db')"
  shows "\<exists>z t. find_sea db' mr n = Some z \<and> rec = to_record_sea z t
    \<and> z_status z = (case season_view db mr n of None \<Rightarrow> status | Some st \<Rightarrow> st)
    \<and> (\<forall>m k. season_view db' m k = (if m = mr \<and> k = n then Some (z_status z) else season_view db m k))"
proof -
  from ensure_sea_Inr[OF run] obtain z r where all: "find_sea db' mr n = Some z \<and> find_req db mr = Some r
    \<and> rec = to_record_sea z (q_tmdb_id r) \<and> a_requests db' = a_requests db
    \<and> (find_sea db mr n = Some z \<and> db' = db
       \<or> find_sea db mr n = None \<and> status \<in> set REQUEST_STATUSES \<and> z = new_season (a_next_id db) mr n status regrab
         \<and> db' = db\<lparr>a_seasons := a_seasons db @ [z], a_next_id := a_next_id db + 1\<rparr> \<and> app_unique db' \<and> app_refs db')"
    by (elim exE)
  have z: "find_sea db' mr n = Some z" "rec = to_record_sea z (q_tmdb_id r)" using all by blast+
  from all have how: "find_sea db mr n = Some z \<and> db' = db
      \<or> find_sea db mr n = None \<and> z = new_season (a_next_id db) mr n status regrab
        \<and> a_seasons db' = a_seasons db @ [z]" by auto
  from how have st: "z_status z = (case season_view db mr n of None \<Rightarrow> status | Some st \<Rightarrow> st)"
    by (auto simp: season_view_def new_season_def)
  have "season_view db' m k = season_view db m k" if "\<not> (m = mr \<and> k = n)" for m k
  proof -
    have "\<not> (z_media_request_id z = m \<and> z_season_number z = k)" using find_sea_SomeD[OF z(1)] that by auto
    then have "find (\<lambda>x. z_media_request_id x = m \<and> z_season_number x = k) (zs @ [z])
        = find (\<lambda>x. z_media_request_id x = m \<and> z_season_number x = k) zs" for zs by (induction zs) auto
    with how show ?thesis by (auto simp: season_view_def find_sea_def)
  qed
  with z st show ?thesis by (auto simp: season_view_def)
qed

text \<open>A swap that must win: the row still has the status it was read with.\<close>

lemma rearm_season_view:
  assumes inv: "app_inv db" and z: "find_sea db mr n = Some z" and rec: "zr_id rec = z_id z"
    and st: "z_status z \<in> set allowed" and target: "target \<noteq> ''completed''"
    and run: "rearm_season now rec target allowed db = Inr ((rec', b), db')"
  shows "b \<and> zr_status rec' = target \<and> zr_season_number rec' = n
    \<and> (\<forall>m k. season_view db' m k = (if m = mr \<and> k = n then Some target else season_view db m k))"
proof -
  have zin: "z \<in> set (a_seasons db)" "z_media_request_id z = mr" "z_season_number z = n" using find_sea_SomeD[OF z] by auto
  from run obtain rearmed db1 db2 again where sw: "set_status_if_in_sea now (z_id z) target allowed no_guard db = Inr (rearmed, db1)"
    and sch: "(if rearmed then schedule_search_sea (z_id z) 0 None else return_op ()) db1 = Inr ((), db2)"
    and get: "get_sea db2 (z_id z) = Inr again"
    and res: "rec' = (case again of None \<Rightarrow> rec | Some r \<Rightarrow> r)" "b = rearmed" "db' = db2"
    unfolding rearm_season_def rec by (auto simp: bind_op_Inr)
  let ?p = "\<lambda>x. z_id x = z_id z \<and> z_status x \<in> set allowed \<and> guard_holds no_guard db x"
  let ?f = "move_season now target"
  from sw have upd: "update_seasons ?p ?f db = Inr (rearmed, db1)"
    by (auto simp: set_status_if_in_sea_def split: if_splits)
  have hit: "?p z" using st by (simp add: guard_holds_def no_guard_def)
  have b: "rearmed" and db1: "db1 = map_seasons ?p ?f db"
    using update_season_by_id(1,2)[OF inv zin(1) _ upd] hit by auto
  have keys: "z_media_request_id (?f x) = z_media_request_id x \<and> z_season_number (?f x) = z_season_number x
      \<and> z_id (?f x) = z_id x \<and> z_status (?f x) = target" for x
    by (simp add: move_season_def completion_write_values_def)
  have only: "?p x \<longleftrightarrow> x = z" if "x \<in> set (a_seasons db)" for x
    using season_id_inj[OF inv that zin(1)] hit by blast
  have inv1: "app_inv db1" using steadyD[OF steady_set_status_if_in_sea inv sw] by (rule evolves_inv)
  have z1: "find_sea db1 mr n = Some (?f z)"
    and v1: "season_view db1 m k = (if m = mr \<and> k = n then Some target else season_view db m k)" for m k
    using season_view_update[OF inv z _ only, of ?f] keys unfolding db1 by simp_all
  let ?g = "\<lambda>x. x\<lparr>z_search_attempts := 0, z_next_search_at := None\<rparr>"
  from sch b have w: "schedule_search_sea (z_id z) 0 None db1 = Inr ((), db2)" by simp
  then have db2: "db2 = map_seasons (\<lambda>x. z_id x = z_id z) ?g db1"
    by (auto simp: schedule_search_sea_def write_season_def split: if_splits)
  have z1in: "?f z \<in> set (a_seasons db1)" using find_sea_SomeD[OF z1] by blast
  have only1: "z_id x = z_id z \<longleftrightarrow> x = ?f z" if "x \<in> set (a_seasons db1)" for x
    using season_id_inj[OF inv1 that z1in] keys[of z] by auto
  have z2: "find_sea db2 mr n = Some (?g (?f z))"
    and v2: "season_view db2 m k = (if m = mr \<and> k = n then Some target else season_view db1 m k)" for m k
    using season_view_update[OF inv1 z1 _ only1, of ?g] keys[of z] unfolding db2 by simp_all
  have inv2: "app_inv db2" using steadyD[OF steady_season_writes(2) inv1 w] by (rule evolves_inv)
  have "find_season db2 (z_id z) = Some (?g (?f z))"
    using find_season_eq[OF inv2, of "?g (?f z)"] find_sea_SomeD[OF z2] keys[of z] by simp
  with get obtain t where "again = Some (to_record_sea (?g (?f z)) t)"
    by (auto simp: get_sea_def record_of_def map_sum_Inr)
  with res b v1 v2 keys[of z] zin(3) show ?thesis by (simp add: to_record_sea_def)
qed

lemma ensure_one_view:
  assumes inv: "app_inv db" and run: "ensure_one now mr fp T E n db = Inr ((rec, heal), db')"
  shows "zr_season_number rec = n \<and> zr_status rec = rearmed_status fp T n (season_view db mr n)
    \<and> (\<forall>m k. season_view db' m k = (if m = mr \<and> k = n then Some (rearmed_status fp T n (season_view db mr n))
         else season_view db m k))"
proof -
  let ?init = "if n \<in> T then ''available'' else ''pending''"
  from run obtain rec0 db1 where e: "ensure_sea mr n ?init (n \<in> E) db = Inr (rec0, db1)"
    and rest: "(if zr_status rec0 = ''evicted'' then rearm_season now rec0 ?init [''evicted'']
           else if zr_status rec0 = ''waiting_for_air_date'' then
             bind_op (rearm_season now rec0 ?init [''waiting_for_air_date'']) (\<lambda>(r, _). return_op (r, False))
           else if fp \<and> zr_status rec0 \<in> set REAL_DONE_SEASON_STATUS_VALUES then
             rearm_season now rec0 ''pending'' REAL_DONE_SEASON_STATUS_VALUES
           else return_op (rec0, False)) db1 = Inr ((rec, heal), db')"
    by (auto simp: ensure_one_def Let_def bind_op_Inr)
  from ensure_sea_view[OF inv e] obtain z t where z: "find_sea db1 mr n = Some z" "rec0 = to_record_sea z t"
    and st: "z_status z = (case season_view db mr n of None \<Rightarrow> ?init | Some st \<Rightarrow> st)"
    and v1: "\<And>m k. season_view db1 m k = (if m = mr \<and> k = n then Some (z_status z) else season_view db m k)" by blast
  have inv1: "app_inv db1" using steadyD[OF steady_ensure_sea inv e] by (rule evolves_inv)
  have rec0: "zr_id rec0 = z_id z" "zr_status rec0 = z_status z" "zr_season_number rec0 = n"
    using z find_sea_SomeD[OF z(1)] by simp_all
  have re: "zr_season_number rec = n \<and> zr_status rec = target
      \<and> (\<forall>m k. season_view db' m k = (if m = mr \<and> k = n then Some target else season_view db m k))"
    if "z_status z \<in> set allowed" "target \<noteq> ''completed''"
      and "\<exists>h. rearm_season now rec0 target allowed db1 = Inr ((rec, h), db')" for target allowed
    using that(3) rearm_season_view[OF inv1 z(1) rec0(1) that(1,2)] v1 by auto
  consider (gone) "z_status z \<in> {''evicted'', ''waiting_for_air_date''}"
    | (redo) "z_status z \<notin> {''evicted'', ''waiting_for_air_date''}" "fp" "z_status z \<in> set REAL_DONE_SEASON_STATUS_VALUES"
    | (keep) "z_status z \<notin> {''evicted'', ''waiting_for_air_date''}" "\<not> (fp \<and> z_status z \<in> set REAL_DONE_SEASON_STATUS_VALUES)"
    by blast
  then show ?thesis
  proof cases
    case gone
    have "rearmed_status fp T n (season_view db mr n) = ?init"
      using gone st by (auto simp: rearmed_status_def Let_def split: option.splits)
    moreover have "\<exists>h. rearm_season now rec0 ?init [z_status z] db1 = Inr ((rec, h), db')"
      using rest gone unfolding rec0 by (auto simp: bind_op_Inr split: if_splits)
    ultimately show ?thesis using re[of "[z_status z]" ?init] by simp
  next
    case redo
    have "rearmed_status fp T n (season_view db mr n) = ''pending''"
      using redo st by (auto simp: rearmed_status_def Let_def REAL_DONE_SEASON_STATUS_VALUES_def split: option.splits)
    moreover have "\<exists>h. rearm_season now rec0 ''pending'' REAL_DONE_SEASON_STATUS_VALUES db1 = Inr ((rec, h), db')"
      using rest redo unfolding rec0 by auto
    ultimately show ?thesis using re[OF redo(3), of "''pending''"] by simp
  next
    case keep
    have "rec = rec0" "db' = db1" using rest keep unfolding rec0 by (auto split: if_splits)
    moreover have "rearmed_status fp T n (season_view db mr n) = z_status z"
      using keep st by (auto simp: rearmed_status_def Let_def REAL_DONE_SEASON_STATUS_VALUES_def split: option.splits if_splits)
    ultimately show ?thesis using rec0 v1 by simp
  qed
qed

lemma ensure_each_view:
  assumes "app_inv db" and "distinct ns" and "ensure_each now mr fp T E ns db = Inr ((recs, heal), db')"
  shows "map zr_season_number recs = ns
    \<and> map zr_status recs = map (\<lambda>n. rearmed_status fp T n (season_view db mr n)) ns
    \<and> (\<forall>m k. season_view db' m k = (if m = mr \<and> k \<in> set ns
         then Some (rearmed_status fp T k (season_view db mr k)) else season_view db m k))"
  using assms
proof (induction ns arbitrary: db recs heal)
  case (Cons n ns)
  from Cons.prems(3) obtain rec h db1 recs' h' where one: "ensure_one now mr fp T E n db = Inr ((rec, h), db1)"
    and each: "ensure_each now mr fp T E ns db1 = Inr ((recs', h'), db')" and res: "recs = rec # recs'"
    by (simp add: bind_op_Inr split_paired_Ex split: prod.splits) blast
  note v = ensure_one_view[OF Cons.prems(1) one]
  have inv1: "app_inv db1" using steadyD[OF steady_ensure_one Cons.prems(1) one] by (rule evolves_inv)
  have ih: "map zr_season_number recs' = ns"
    "map zr_status recs' = map (\<lambda>n. rearmed_status fp T n (season_view db1 mr n)) ns"
    "\<And>m k. season_view db' m k = (if m = mr \<and> k \<in> set ns
         then Some (rearmed_status fp T k (season_view db1 mr k)) else season_view db1 m k)"
    using Cons.IH[OF inv1 _ each] Cons.prems(2) by auto
  have same: "season_view db1 mr k = season_view db mr k" if "k \<in> set ns" for k
    using v that Cons.prems(2) by auto
  then have "map zr_status recs' = map (\<lambda>n. rearmed_status fp T n (season_view db mr n)) ns"
    using ih(2) by (simp cong: map_cong)
  with v ih(1,3) res same Cons.prems(2) show ?case by auto
qed simp

text \<open>
  C32: a re-request re-arms exactly the seasons it should. For a list of different season numbers, a call
  that succeeds leaves every other season of every show alone. A named season the show did not track yet is
  available if the library holds it, else pending; so is one that was evicted or waited for its air date;
  with \<open>force_pending\<close> a new or finished one is pending; every other one keeps its status. A season whose newest
  row is evicted does not count as held, so it is never called available over a file being deleted.
\<close>

theorem ensure_seasons_exact:
  assumes "reachable app_init app_step db" and "distinct ns"
    and run: "ensure_seasons now lib mr tmdb ns fp snap db = Inr (recs, db')"
  defines "trusted \<equiv> presence lib tmdb fp snap - evicted_seasons db tmdb"
  shows "map zr_season_number recs = ns
    \<and> map zr_status recs = map (\<lambda>n. rearmed_status fp trusted n (season_view db mr n)) ns
    \<and> (\<forall>m k. season_view db' m k = (if m = mr \<and> k \<in> set ns
         then Some (rearmed_status fp trusted k (season_view db mr k)) else season_view db m k))"
proof -
  have inv: "app_inv db" using assms(1) by (rule request_store.reachable_inv)
  from run obtain recs0 heal db1 db2 where each: "ensure_each now mr fp trusted (evicted_seasons db tmdb) ns db = Inr ((recs0, heal), db1)"
    and h: "(if heal then heal_completed_at now mr else return_op ()) db1 = Inr ((), db2)"
    and p: "recompute_parent now mr False False db2 = Inr ((), db')" and res: "recs = recs0"
    by (auto simp: ensure_seasons_def Let_def bind_op_Inr trusted_def)
  have inv1: "app_inv db1" using steadyD[OF steady_ensure_each inv each] by (rule evolves_inv)
  have "steady (if heal then heal_completed_at now mr else return_op ())" by (intro steady_rules)
  from steadyD[OF this inv1 h] have inv2: "app_inv db2" by (rule evolves_inv)
  have "a_seasons db2 = a_seasons db1" using h heal_seasons[of now mr db1 "()" db2] by (auto split: if_splits)
  with recompute_parent_Inr(1)[OF inv2 p] have "a_seasons db' = a_seasons db1" by simp
  from season_view_cong[OF this] ensure_each_view[OF inv assms(2) each] res show ?thesis by simp
qed

theorem ensure_seasons_exact_witness:
  "(\<exists>recs db. ensure_seasons 6 None 1 1399 [1, 2] False None demo_created = Inr (recs, db)
     \<and> map zr_status recs = [''pending'', ''pending''] \<and> season_view db 1 2 = Some ''pending'')"
proof -
  have v: "season_view demo_created 1 n = None" for n by (simp add: season_view_def find_sea_def demo_created_def demo_db_def)
  from ensure_seasons_exact[OF demo_reachable _ demo_ensure] demo_ensure
  show ?thesis by (auto simp: v rearmed_status_def presence_def)
qed

end
