(* ===== verification/BlocklistRepo.thy ===== *)
theory BlocklistRepo
  imports Blocklist RequestTables
begin

text \<open>
  The blocklist table (\<open>repositories/blocklist.py\<close>, \<open>services/blocklist_service.py\<close>): the rows of one
  media item and one media namespace, matched by the rule of \<open>Blocklist\<close>, and the identity of a release
  read back from the history log. The insertion time of a row is left out: nothing reads it.
\<close>

definition BLOCKLIST_REASONS :: "string list" where
  "BLOCKLIST_REASONS = [''failed'', ''bad_quality'', ''wrong_media'', ''user_reported'']"

definition media_type_scope :: "string option \<Rightarrow> repo_error + (blocklist_row \<Rightarrow> bool)" where
  "media_type_scope mt = (case mt of
       None \<Rightarrow> Inr (\<lambda>_. True)
     | Some t \<Rightarrow> map_sum id (\<lambda>m b. b_media_type b = Some m \<or> m = Movie \<and> b_media_type b = None) (media_type t))"

definition blocklist_entry :: "blocklist_row \<Rightarrow> blocklisted_release" where
  "blocklist_entry b = \<lparr>bl_source_title = b_source_title b, bl_info_hash = b_torrent_hash b, bl_indexer = b_indexer b\<rparr>"

definition by_block_id :: "blocklist_row list \<Rightarrow> blocklist_row list" where
  "by_block_id = sort_by (\<lambda>a b. b_id a \<le> b_id b)"

definition is_blocklisted_repo ::
  "app_db \<Rightarrow> int option \<Rightarrow> string option \<Rightarrow> string \<Rightarrow> string option \<Rightarrow> string option \<Rightarrow> repo_error + bool" where
  "is_blocklisted_repo db tmdb torrent_hash source_title indexer mt =
     map_sum id (\<lambda>scope. is_blocklisted torrent_hash source_title indexer
         (map blocklist_entry (filter (\<lambda>b. b_tmdb_id b = tmdb \<and> scope b) (a_blocklist db))))
       (media_type_scope mt)"

definition list_for_media_blocklist :: "app_db \<Rightarrow> int option \<Rightarrow> string option \<Rightarrow> repo_error + blocklist_row list" where
  "list_for_media_blocklist db tmdb mt =
     map_sum id (\<lambda>scope. by_block_id (filter (\<lambda>b. (tmdb = None \<or> b_tmdb_id b = tmdb) \<and> scope b) (a_blocklist db)))
       (media_type_scope mt)"

definition create_blocklist ::
  "string \<Rightarrow> string \<Rightarrow> int option \<Rightarrow> string option \<Rightarrow> string option \<Rightarrow> string option \<Rightarrow> string option
     \<Rightarrow> blocklist_row app_op" where
  "create_blocklist source_title reason tmdb torrent_hash indexer protocol mt db =
     (if reason \<notin> set BLOCKLIST_REASONS then Inl ValueError
      else case (case mt of None \<Rightarrow> Inr None | Some t \<Rightarrow> map_sum id Some (media_type t)) of
        Inl e \<Rightarrow> Inl e
      | Inr m \<Rightarrow>
          let row = \<lparr>b_id = a_next_id db, b_source_title = source_title, b_reason = reason, b_tmdb_id = tmdb,
                b_torrent_hash = torrent_hash, b_indexer = indexer, b_protocol = protocol, b_media_type = m\<rparr>
          in Inr (row, db\<lparr>a_blocklist := a_blocklist db @ [row], a_next_id := a_next_id db + 1\<rparr>))"

definition delete_blocklist :: "int \<Rightarrow> unit app_op" where
  "delete_blocklist bid db =
     (if \<not> list_ex (\<lambda>b. b_id b = bid) (a_blocklist db) then Inl LookupError
      else Inr ((), db\<lparr>a_blocklist := filter (\<lambda>b. b_id b \<noteq> bid) (a_blocklist db)\<rparr>))"

text \<open>The newest history row of a torrent that has the column: \<open>ORDER BY id DESC LIMIT 1\<close>.\<close>

definition newest_of :: "(history_row \<Rightarrow> string option) \<Rightarrow> app_db \<Rightarrow> string \<Rightarrow> string option" where
  "newest_of column db torrent_hash =
     Option.bind (find (\<lambda>h. h_torrent_hash h = Some torrent_hash \<and> column h \<noteq> None)
       (sort_by (\<lambda>a b. h_id b \<le> h_id a) (a_history db))) column"

definition source_title_for :: "app_db \<Rightarrow> string \<Rightarrow> string option" where
  "source_title_for = newest_of h_source_title"

definition indexer_for :: "app_db \<Rightarrow> string \<Rightarrow> string option" where
  "indexer_for = newest_of h_indexer"

section \<open>What is listed is blocked, and only there\<close>

lemma media_type_scope_Inr:
  "media_type_scope mt = Inr scope \<longleftrightarrow> mt = None \<and> scope = (\<lambda>_. True)
     \<or> (\<exists>m. mt = Some (media_value m) \<and> scope = (\<lambda>b. b_media_type b = Some m \<or> m = Movie \<and> b_media_type b = None))"
  by (auto simp: media_type_scope_def map_sum_Inr media_type_Inr split: option.splits)

lemma create_blocklist_Inr:
  assumes "create_blocklist source_title reason tmdb torrent_hash indexer protocol mt db = Inr (b, db')"
  shows "db' = db\<lparr>a_blocklist := a_blocklist db @ [b], a_next_id := a_next_id db + 1\<rparr> \<and> b_id b = a_next_id db
    \<and> b_source_title b = source_title \<and> b_reason b = reason \<and> b_tmdb_id b = tmdb \<and> b_torrent_hash b = torrent_hash
    \<and> b_indexer b = indexer \<and> map_option media_value (b_media_type b) = mt"
  using assms by (auto simp: create_blocklist_def Let_def map_sum_Inr media_type_Inr split: if_splits option.splits sum.splits)

lemma create_blocklist_total:
  "reason \<in> set BLOCKLIST_REASONS \<Longrightarrow> \<exists>b. create_blocklist source_title reason tmdb torrent_hash indexer protocol
     (map_option media_value m) db = Inr (b, db\<lparr>a_blocklist := a_blocklist db @ [b], a_next_id := a_next_id db + 1\<rparr>)"
  by (cases m) (auto simp: create_blocklist_def Let_def)

text \<open>
  C33: a blocklisting takes effect and stays in its own namespace. After a release has been put on the list,
  the same release is refused for that title in that namespace, whatever was listed before; in the other
  namespace and for every other title the answer is what it was, so a show never blocks the film that
  shares its number. Taking the entry off again restores every answer.
\<close>

theorem blocklisting_is_scoped:
  assumes "create_blocklist source_title reason tmdb torrent_hash indexer protocol (Some (media_value m)) db = Inr (b, db')"
    and fresh: "list_all (\<lambda>c. b_id c < a_next_id db) (a_blocklist db)"
  shows "is_blocklisted_repo db' tmdb torrent_hash source_title indexer (Some (media_value m)) = Inr True
    \<and> (tmdb' \<noteq> tmdb \<or> m' \<noteq> m \<longrightarrow>
        is_blocklisted_repo db' tmdb' h t i (Some (media_value m')) = is_blocklisted_repo db tmdb' h t i (Some (media_value m')))
    \<and> (\<exists>db''. delete_blocklist (b_id b) db' = Inr ((), db'')
        \<and> is_blocklisted_repo db'' tmdb' h t i mt = is_blocklisted_repo db tmdb' h t i mt)"
proof -
  note b = create_blocklist_Inr[OF assms(1)]
  have e: "blocklist_entry b = \<lparr>bl_source_title = source_title, bl_info_hash = torrent_hash, bl_indexer = indexer\<rparr>"
    using b by (simp add: blocklist_entry_def)
  have m: "b_media_type b = Some m" using b by (cases "b_media_type b"; cases m) (auto simp: media_value_def split: media_type.splits)
  have "filter (\<lambda>c. b_id c \<noteq> b_id b) (a_blocklist db') = a_blocklist db"
    using b fresh by (auto simp: list_all_iff intro!: filter_True)
  then have "delete_blocklist (b_id b) db' = Inr ((), db'\<lparr>a_blocklist := a_blocklist db\<rparr>)"
    using b by (simp add: delete_blocklist_def)
  moreover have "is_blocklisted_repo (db'\<lparr>a_blocklist := a_blocklist db\<rparr>) tmdb' h t i mt = is_blocklisted_repo db tmdb' h t i mt"
    by (simp add: is_blocklisted_repo_def)
  moreover have "is_blocklisted_repo db' tmdb torrent_hash source_title indexer (Some (media_value m)) = Inr True"
    using b m bl_matches_self[of "blocklist_entry b"]
    by (simp add: is_blocklisted_repo_def media_type_scope_def is_blocklisted_def e)
  moreover have "is_blocklisted_repo db' tmdb' h t i (Some (media_value m')) = is_blocklisted_repo db tmdb' h t i (Some (media_value m'))"
    if "tmdb' \<noteq> tmdb \<or> m' \<noteq> m"
    using that b m by (auto simp: is_blocklisted_repo_def media_type_scope_def)
  ultimately show ?thesis by blast
qed

definition blank_db :: app_db where
  "blank_db = \<lparr>a_users = [], a_requests = [], a_seasons = [], a_subscribers = [], a_watchlist = [], a_locks = [],
     a_history = [], a_blocklist = [], a_store = empty_db [] [], a_next_id = 1\<rparr>"

definition listed_db :: app_db where
  "listed_db = snd (projr (create_blocklist ''Show.S01'' ''failed'' (Some 7) (Some ''h1'') None None (Some ''tv'') blank_db))"

theorem blocklisting_is_scoped_witness:
  "is_blocklisted_repo listed_db (Some 7) (Some ''h1'') ''Show.S01'' None (Some ''tv'') = Inr True
   \<and> is_blocklisted_repo listed_db (Some 7) (Some ''h1'') ''Show.S01'' None (Some ''movie'') = Inr False"
proof -
  let ?c = "create_blocklist ''Show.S01'' ''failed'' (Some 7) (Some ''h1'') None None (Some (media_value Tv)) blank_db"
  have run: "?c = Inr (fst (projr ?c), listed_db)" by code_simp
  have blank: "list_all (\<lambda>c. b_id c < a_next_id blank_db) (a_blocklist blank_db)" by code_simp
  have "is_blocklisted_repo blank_db (Some 7) (Some ''h1'') ''Show.S01'' None (Some (media_value Movie)) = Inr False"
    by code_simp
  then show ?thesis
    using blocklisting_is_scoped[OF run blank, of "Some 7" Movie "Some ''h1''" "''Show.S01''" None]
    by (simp add: media_value_def)
qed

end
