(* ===== verification/FailureFlow.thy ===== *)
theory FailureFlow
  imports BlocklistRepo QueuePoll OperatorClaims SeasonService
begin

text \<open>
  How a download fails (\<open>services/queue_service.py\<close>, \<open>domain/failure_classification.py\<close>): the three phases
  of the operator's \<open>mark_failed\<close> and of the reconcile cycle, and the database-only heal. Each call is a
  machine whose states are its await points: a step is what the code does between two of them, a
  transaction that commits being one step, so any interleaving of calls is a sequence of steps. What the
  torrent client, the clock and the disk answer is an input of the step. Left out: log lines, the sleeps
  between retries, the summary of changes for the web caches, and the held-payload pass (its rows are the
  input \<open>ci_held\<close>) with the stall self-heal, a \<open>mark_failed\<close> call of its own.
\<close>

section \<open>Whose fault a failure is\<close>

datatype failure_class = Environmental | ReleaseFault

definition ENVIRONMENTAL_FAILURE_PATTERNS :: "string list" where
  "ENVIRONMENTAL_FAILURE_PATTERNS = [''permission denied'', ''read-only file system'', ''no space left on device'',
     ''disk quota exceeded'', ''no such file or directory'', ''input/output error'', ''i/o error'', ''missingfiles'']"

definition classify_failure_detail :: "string option \<Rightarrow> failure_class" where
  "classify_failure_detail detail = (case truthy detail of
       None \<Rightarrow> ReleaseFault
     | Some d \<Rightarrow> if list_ex (\<lambda>pat. py_in pat (py_lower d)) ENVIRONMENTAL_FAILURE_PATTERNS
                then Environmental else ReleaseFault)"

section \<open>Re-arming the owner\<close>

definition TERMINAL_REQUEST_STATUS_VALUES :: "string list" where
  "TERMINAL_REQUEST_STATUS_VALUES = [''completed'', ''available'', ''failed'', ''evicted'', ''cancelled'']"

definition REARMABLE_REQUEST_STATUS_VALUES :: "string list" where
  "REARMABLE_REQUEST_STATUS_VALUES = filter (\<lambda>s. s \<notin> set TERMINAL_REQUEST_STATUS_VALUES) REQUEST_STATUSES"

record failed_rearm =
  fr_media_request_id :: int
  fr_season :: "int option"
  fr_media_type :: "string option"

definition rearm_failed_request :: "datetime \<Rightarrow> failed_rearm \<Rightarrow> unit app_op" where
  "rearm_failed_request now rearm = (case fr_season rearm of
       Some n \<Rightarrow>
         bind_op (ensure_sea (fr_media_request_id rearm) n ''pending'' False) (\<lambda>row.
         bind_op (set_status_if_in now (fr_media_request_id rearm) (zr_id row) ''searching''
             REARMABLE_REQUEST_STATUS_VALUES no_guard False) (\<lambda>_. return_op ()))
     | None \<Rightarrow>
         bind_op (set_status_if_in_req (fr_media_request_id rearm) ''searching''
             REARMABLE_REQUEST_STATUS_VALUES False False) (\<lambda>_. return_op ()))"

primrec rearm_each :: "datetime \<Rightarrow> failed_rearm list \<Rightarrow> unit app_op" where
  "rearm_each now [] = return_op ()"
| "rearm_each now (r # rs) = bind_op (rearm_failed_request now r) (\<lambda>_. rearm_each now rs)"

section \<open>Completing one failed download\<close>

definition UNRESOLVED_SCOPE_STATUSES :: "string list" where
  "UNRESOLVED_SCOPE_STATUSES = [''active'', ''import_blocked'']"

definition mark_download_scopes_terminal :: "int \<Rightarrow> string \<Rightarrow> unit app_op" where
  "mark_download_scopes_terminal did status = on_store (\<lambda>st. flush ()
     (st\<lparr>db_scopes := map (\<lambda>s. if s_download_id s = did \<and> s_status s \<in> set UNRESOLVED_SCOPE_STATUSES
        then s\<lparr>s_status := status\<rparr> else s) (db_scopes st)\<rparr>))"

definition media_type_for_blocklist :: "download_row option \<Rightarrow> string option \<Rightarrow> string option" where
  "media_type_for_blocklist record request_media_type = (case request_media_type of
       Some t \<Rightarrow> Some t
     | None \<Rightarrow> (case record of
         None \<Rightarrow> None
       | Some r \<Rightarrow> (case d_media_type r of
           Some m \<Rightarrow> Some (media_value m)
         | None \<Rightarrow> Some (if d_season r \<noteq> None then ''tv'' else ''movie''))))"

definition blocklist_failed ::
  "string \<Rightarrow> string \<Rightarrow> string \<Rightarrow> int option \<Rightarrow> string option \<Rightarrow> unit app_op" where
  "blocklist_failed torrent_hash fallback_title reason tmdb mt db =
     bind_op (create_blocklist (case truthy (source_title_for db torrent_hash) of None \<Rightarrow> fallback_title | Some t \<Rightarrow> t)
         reason tmdb (Some torrent_hash) (indexer_for db torrent_hash) None mt) (\<lambda>_. return_op ()) db"

definition cas_download :: "datetime \<Rightarrow> int \<Rightarrow> string \<Rightarrow> string list \<Rightarrow> status_update \<Rightarrow> bool app_op" where
  "cas_download now did st allowed u = on_store (DownloadRepo.update_status_if_in now did st allowed u)"

record failure_completion =
  fc_download_id :: int
  fc_event :: download_failed
  fc_blocklist :: bool
  fc_remove_torrent :: bool
  fc_blocklist_reason :: string
  fc_observed_failed_reason :: "string option"

type_synonym download_record = "download_row \<times> scope_row list"

definition scope_rearms :: "string option \<Rightarrow> scope_row list \<Rightarrow> failed_rearm list" where
  "scope_rearms mt scopes = List.map_filter (\<lambda>s. case (s_media_request_id s, s_season s) of
       (Some mr, Some n) \<Rightarrow> Some \<lparr>fr_media_request_id = mr, fr_season = Some n, fr_media_type = mt\<rparr>
     | _ \<Rightarrow> None) scopes"

definition handle_failed ::
  "datetime \<Rightarrow> failure_completion \<Rightarrow> download_record list \<Rightarrow> failed_rearm option app_op" where
  "handle_failed now c rows = (case find (\<lambda>(r, _). d_id r = fc_download_id c) rows of
       None \<Rightarrow> return_op None
     | Some (rec, scopes) \<Rightarrow>
         bind_op (cas_download now (d_id rec) ''failed'' [''failed_pending'']
             (no_update\<lparr>su_failed_reason := Some (case truthy (d_payload_rejection rec) of
                  Some r \<Rightarrow> r | None \<Rightarrow> df_reason (fc_event c)),
                su_require_failed_reason := Some (fc_observed_failed_reason c)\<rparr>)) (\<lambda>won.
         if \<not> won then return_op None
         else bind_op (mark_download_scopes_terminal (d_id rec) ''failed'') (\<lambda>_ db.
           let request = Option.bind (d_media_request_id rec) (get_req db);
               mt = media_type_for_blocklist (Some rec) (map_option rr_media_type request)
           in bind_op (if fc_blocklist c
                then blocklist_failed (df_torrent_hash (fc_event c)) (df_source_title (fc_event c)) (fc_blocklist_reason c)
                  (case request of Some q \<Rightarrow> Some (rr_tmdb_id q) | None \<Rightarrow> df_tmdb_id (fc_event c)) mt
                else return_op ()) (\<lambda>_.
              if scopes \<noteq> [] then bind_op (rearm_each now (scope_rearms mt scopes)) (\<lambda>_. return_op None)
              else return_op (map_option (\<lambda>mr. \<lparr>fr_media_request_id = mr, fr_season = d_season rec,
                fr_media_type = mt\<rparr>) (d_media_request_id rec))) db)))"

text \<open>One attempt of Phase C: every completion no operator claims, then the re-arms they returned.\<close>

primrec handle_each ::
  "datetime \<Rightarrow> (int \<Rightarrow> bool) \<Rightarrow> download_record list \<Rightarrow> failure_completion list \<Rightarrow> failed_rearm list app_op" where
  "handle_each now claimed rows [] = return_op []"
| "handle_each now claimed rows (c # cs) =
     (if claimed (fc_download_id c) then handle_each now claimed rows cs
      else bind_op (handle_failed now c rows) (\<lambda>rearm.
           bind_op (handle_each now claimed rows cs) (\<lambda>rearms.
             return_op (case rearm of None \<Rightarrow> rearms | Some r \<Rightarrow> r # rearms))))"

definition complete_reconcile_failures ::
  "datetime \<Rightarrow> (int \<Rightarrow> bool) \<Rightarrow> download_record list \<Rightarrow> failure_completion list \<Rightarrow> unit app_op" where
  "complete_reconcile_failures now claimed rows cs = bind_op (handle_each now claimed rows cs) (rearm_each now)"

section \<open>The operator's \<open>mark_failed\<close>\<close>

definition OPERATOR_FAIL_FINAL_REASON :: string where
  "OPERATOR_FAIL_FINAL_REASON = ''marked failed by operator''"

definition RECONCILE_FAIL_FINAL_REASON :: string where
  "RECONCILE_FAIL_FINAL_REASON = ''download failed; torrent already removed''"

definition PHASE_C_MAX_ATTEMPTS :: nat where
  "PHASE_C_MAX_ATTEMPTS = 3"

datatype mark_error =
    ClientRequired
  | NoSuchDownload
  | InvalidStateTransition string string
  | ClaimRefused claim_error
  | AdoptionRefused int
  | StoreFailed repo_error
  | DatabaseFailed

record mark_args =
  ma_download_id :: int
  ma_blocklist :: bool
  ma_remove_torrent :: bool
  ma_has_client :: bool
  ma_allow_supersede :: bool
  ma_allow_adopt :: bool

text \<open>The stalled-download self-heal and the payload rejection call it so.\<close>

definition self_heal_args :: "int \<Rightarrow> mark_args" where
  "self_heal_args did = \<lparr>ma_download_id = did, ma_blocklist = True, ma_remove_torrent = True, ma_has_client = True,
     ma_allow_supersede = False, ma_allow_adopt = False\<rparr>"

text \<open>What the call captures of the row before it registers.\<close>

record mark_job =
  mj_args :: mark_args
  mj_torrent_hash :: string
  mj_request_id :: "int option"
  mj_tmdb_id :: "int option"
  mj_final_reason :: string
  mj_current :: download_state
  mj_observed :: "string option"
  mj_rearms :: "failed_rearm list"

definition mj_id :: "mark_job \<Rightarrow> int" where
  "mj_id job = ma_download_id (mj_args job)"

definition mj_flags :: "mark_job \<Rightarrow> fail_flags" where
  "mj_flags job = \<lparr>ff_blocklist = ma_blocklist (mj_args job), ff_remove_torrent = ma_remove_torrent (mj_args job)\<rparr>"

definition mark_rearms :: "repo_db \<Rightarrow> download_row \<Rightarrow> failed_rearm list" where
  "mark_rearms st row =
     (let request_mt = (case d_media_type row of
            Some m \<Rightarrow> media_value m | None \<Rightarrow> if d_season row \<noteq> None then ''tv'' else ''movie'')
      in case get_by_hash st (d_torrent_hash row) of
           Some (rec, s # ss) \<Rightarrow> scope_rearms (media_type_for_blocklist (Some rec) (Some request_mt)) (s # ss)
         | _ \<Rightarrow> (case d_media_request_id row of
             None \<Rightarrow> []
           | Some mr \<Rightarrow> [\<lparr>fr_media_request_id = mr, fr_season = d_season row, fr_media_type = Some request_mt\<rparr>]))"

definition mark_open :: "mark_args \<Rightarrow> repo_db \<Rightarrow> mark_error + mark_job" where
  "mark_open args st =
     (if ma_remove_torrent args \<and> \<not> ma_has_client args then Inl ClientRequired
      else case get_row st (ma_download_id args) of
        None \<Rightarrow> Inl NoSuchDownload
      | Some row \<Rightarrow> (case state_of_str (d_status row) of
          None \<Rightarrow> Inl (StoreFailed ValueError)
        | Some current \<Rightarrow>
            if current \<in> set TERMINAL_STATES then Inl (InvalidStateTransition (state_str current) (state_str Failed))
            else Inr \<lparr>mj_args = args, mj_torrent_hash = d_torrent_hash row, mj_request_id = d_media_request_id row,
                   mj_tmdb_id = d_tmdb_id row,
                   mj_final_reason = (case truthy (d_payload_rejection row) of
                      Some r \<Rightarrow> r | None \<Rightarrow> OPERATOR_FAIL_FINAL_REASON),
                   mj_current = current, mj_observed = d_failed_reason row, mj_rearms = mark_rearms st row\<rparr>))"

text \<open>
  Phase A, one statement and its commit or roll-back. A lost compare-and-swap re-reads the row; one found
  at \<open>failed_pending\<close> is adopted, its reason being the one the next statement requires.
\<close>

datatype stamp_outcome = Stamped | Superseded | Observed "string option" | StampFailed mark_error

definition reread_row :: "mark_job \<Rightarrow> repo_db \<Rightarrow> stamp_outcome" where
  "reread_row job st = (case get_row st (mj_id job) of
       None \<Rightarrow> StampFailed (InvalidStateTransition (state_str (mj_current job)) (state_str Failed))
     | Some latest \<Rightarrow>
         if d_status latest \<noteq> state_str FailedPending
         then StampFailed (InvalidStateTransition (d_status latest) (state_str Failed))
         else Observed (d_failed_reason latest))"

definition mark_stamp ::
  "datetime \<Rightarrow> mark_job \<Rightarrow> int \<Rightarrow> bool \<Rightarrow> string option \<Rightarrow> claim_registry \<Rightarrow> app_db \<Rightarrow> stamp_outcome \<times> app_db" where
  "mark_stamp now job token adopt observed R db =
     (let marker = operator_fail_marker (mj_flags job) token in
      if \<not> adopt then
        if \<not> is_legal_transition (mj_current job) FailedPending
        then (StampFailed (InvalidStateTransition (state_str (mj_current job)) (state_str Failed)), db)
        else case cas_download now (mj_id job) (state_str FailedPending) [state_str (mj_current job)]
               (no_update\<lparr>su_failed_reason := Some marker\<rparr>) db of
            Inl e \<Rightarrow> (StampFailed (StoreFailed e), db)
          | Inr (True, db') \<Rightarrow> (Stamped, db')
          | Inr (False, _) \<Rightarrow> (reread_row job (a_store db), db)
      else if \<not> ma_allow_adopt (mj_args job) then (StampFailed (AdoptionRefused (mj_id job)), db)
      else case cas_download now (mj_id job) (state_str FailedPending) [state_str FailedPending]
               (no_update\<lparr>su_failed_reason := Some marker, su_require_failed_reason := Some observed\<rparr>) db of
            Inl e \<Rightarrow> (StampFailed (StoreFailed e), db)
          | Inr (True, db') \<Rightarrow> (Stamped, db')
          | Inr (False, _) \<Rightarrow>
              (if \<not> owns_operator_claim R (mj_id job) token then Superseded else reread_row job (a_store db), db))"

text \<open>Recording that the removal happened: the same owner, nothing owed.\<close>

definition restamp :: "datetime \<Rightarrow> int \<Rightarrow> string option \<Rightarrow> string \<Rightarrow> bool app_op" where
  "restamp now did observed new_reason = cas_download now did (state_str FailedPending) [state_str FailedPending]
     (no_update\<lparr>su_failed_reason := Some new_reason, su_require_failed_reason := Some observed\<rparr>)"

text \<open>Phase C.\<close>

definition complete_mark_failed :: "datetime \<Rightarrow> mark_job \<Rightarrow> string \<Rightarrow> unit app_op" where
  "complete_mark_failed now job marker =
     bind_op (cas_download now (mj_id job) (state_str Failed) [state_str FailedPending]
         (no_update\<lparr>su_failed_reason := Some (mj_final_reason job), su_require_failed_reason := Some (Some marker)\<rparr>)) (\<lambda>won.
     if \<not> won then return_op ()
     else bind_op (mark_download_scopes_terminal (mj_id job) ''failed'') (\<lambda>_.
       bind_op (\<lambda>db. if ma_blocklist (mj_args job)
         then (let request = Option.bind (mj_request_id job) (get_req db)
               in blocklist_failed (mj_torrent_hash job) (mj_torrent_hash job) ''user_reported''
                    (case request of Some q \<Rightarrow> Some (rr_tmdb_id q) | None \<Rightarrow> mj_tmdb_id job)
                    (media_type_for_blocklist (map_option fst (get_by_hash (store_of db) (mj_torrent_hash job)))
                      (map_option rr_media_type request))) db
         else return_op () db) (\<lambda>_. rearm_each now (mj_rearms job))))"

record failure_world =
  fw_db :: app_db
  fw_registry :: claim_registry

datatype mark_pc =
    MarkOpen mark_args
  | MarkRegister mark_job
  | MarkStamp mark_job int bool "string option"
  | MarkRemove mark_job int string
  | MarkRemoving mark_job int string
  | MarkOutcome mark_job int string
  | MarkComplete mark_job int string nat
  | MarkReturned
  | MarkRaised mark_error

text \<open>The \<open>finally\<close> of the call: its claim is released if it still owns it.\<close>

definition let_go :: "mark_job \<Rightarrow> int \<Rightarrow> failure_world \<Rightarrow> failure_world" where
  "let_go job token w = w\<lparr>fw_registry := release_operator_claim (mj_id job) token (fw_registry w)\<rparr>"

definition retry_or_raise :: "mark_job \<Rightarrow> int \<Rightarrow> string \<Rightarrow> nat \<Rightarrow> mark_error \<Rightarrow> failure_world \<Rightarrow> mark_pc \<times> failure_world" where
  "retry_or_raise job token marker k e w =
     (if k \<ge> PHASE_C_MAX_ATTEMPTS then (MarkRaised e, let_go job token w) else (MarkComplete job token marker (k + 1), w))"

text \<open>\<open>ok\<close> is the answer of what the step waits for: the client's removal, or the commit.\<close>

fun mark_next :: "datetime \<Rightarrow> bool \<Rightarrow> mark_pc \<Rightarrow> failure_world \<Rightarrow> mark_pc \<times> failure_world" where
  "mark_next now ok (MarkOpen args) w = (case mark_open args (store_of (fw_db w)) of
       Inl e \<Rightarrow> (MarkRaised e, w)
     | Inr job \<Rightarrow> (MarkRegister job, w))"
| "mark_next now ok (MarkRegister job) w =
     (case register_operator_claim (mj_id job) (mj_flags job) (ma_allow_supersede (mj_args job)) (fw_registry w) of
       Inl e \<Rightarrow> (MarkRaised (ClaimRefused e), w)
     | Inr (token, R) \<Rightarrow> (MarkStamp job token (mj_current job = FailedPending) (mj_observed job), w\<lparr>fw_registry := R\<rparr>))"
| "mark_next now ok (MarkStamp job token adopt observed) w =
     (if \<not> ok then (MarkRaised DatabaseFailed, let_go job token w)
      else case mark_stamp now job token adopt observed (fw_registry w) (fw_db w) of
        (Stamped, db) \<Rightarrow> (MarkRemove job token (operator_fail_marker (mj_flags job) token), w\<lparr>fw_db := db\<rparr>)
      | (Superseded, _) \<Rightarrow> (MarkReturned, let_go job token w)
      | (Observed reason, _) \<Rightarrow> (MarkStamp job token True reason, w)
      | (StampFailed e, _) \<Rightarrow> (MarkRaised e, let_go job token w))"
| "mark_next now ok (MarkRemove job token marker) w =
     (if ma_remove_torrent (mj_args job) \<and> ma_has_client (mj_args job)
         \<and> owns_operator_claim (fw_registry w) (mj_id job) token
      then (MarkRemoving job token marker, w\<lparr>fw_registry := mark_removal_in_flight (mj_id job) token (fw_registry w)\<rparr>)
      else (MarkComplete job token marker 1, w))"
| "mark_next now ok (MarkRemoving job token marker) w =
     (if ok then MarkOutcome job token marker else MarkComplete job token marker 1, w)"
| "mark_next now ok (MarkOutcome job token marker) w =
     (let removed = operator_fail_marker_removal_done (ma_blocklist (mj_args job)) token
      in case restamp now (mj_id job) (Some marker) removed (fw_db w) of
           Inl e \<Rightarrow> (MarkRaised (StoreFailed e), let_go job token w)
         | Inr (restamped, db) \<Rightarrow>
             if restamped \<and> ok then (MarkComplete job token removed 1, w\<lparr>fw_db := db\<rparr>)
             else (MarkComplete job token marker 1, w))"
| "mark_next now ok (MarkComplete job token marker k) w =
     (if \<not> ok then retry_or_raise job token marker k DatabaseFailed w
      else case complete_mark_failed now job marker (fw_db w) of
        Inr (_, db) \<Rightarrow> (MarkReturned, let_go job token (w\<lparr>fw_db := db\<rparr>))
      | Inl e \<Rightarrow> if e = IntegrityError then retry_or_raise job token marker k (StoreFailed e) w
                 else (MarkRaised (StoreFailed e), let_go job token w))"
| "mark_next now ok MarkReturned w = (MarkReturned, w)"
| "mark_next now ok (MarkRaised e) w = (MarkRaised e, w)"

text \<open>An uninterrupted call: the steps it takes with the given answers.\<close>

fun mark_run :: "datetime \<Rightarrow> bool list \<Rightarrow> mark_pc \<Rightarrow> failure_world \<Rightarrow> mark_pc \<times> failure_world" where
  "mark_run now [] pc w = (pc, w)"
| "mark_run now (ok # oks) pc w = (case mark_next now ok pc w of (pc', w') \<Rightarrow> mark_run now oks pc' w')"

section \<open>The reconcile cycle\<close>

definition UNINSPECTED_NOT_BLOCKLISTED :: string where
  "UNINSPECTED_NOT_BLOCKLISTED = ''; payload never inspected, release not blocklisted''"

text \<open>What the client tells about a failure: the text, and whether it comes from its log.\<close>

type_synonym failure_detail = "string \<times> bool"

text \<open>A failure this cycle detected.\<close>

definition detected_completion ::
  "download_status list \<Rightarrow> (string \<Rightarrow> failure_detail option) \<Rightarrow> download_failed \<Rightarrow> download_row \<Rightarrow> failure_completion" where
  "detected_completion client detail_of event row =
     (let detail = detail_of (df_torrent_hash event);
          reason = (case detail of None \<Rightarrow> df_reason event | Some (text, _) \<Rightarrow> df_reason event @ '': '' @ text);
          classify_text = (case detail of Some (text, True) \<Rightarrow> df_reason event @ '': '' @ text | _ \<Rightarrow> df_reason event);
          uninspected = d_payload_pending row \<and> snapshot client (py_lower (d_torrent_hash row)) = None
      in \<lparr>fc_download_id = d_id row,
          fc_event = event\<lparr>df_reason := (if uninspected then reason @ UNINSPECTED_NOT_BLOCKLISTED else reason)\<rparr>,
          fc_blocklist = (\<not> uninspected \<and> classify_failure_detail (Some classify_text) \<noteq> Environmental),
          fc_remove_torrent = True, fc_blocklist_reason = ''failed'',
          fc_observed_failed_reason = d_failed_reason row\<rparr>)"

definition detected_completions ::
  "datetime \<Rightarrow> download_status list \<Rightarrow> (string \<Rightarrow> failure_detail option) \<Rightarrow> state_transition list
     \<Rightarrow> download_row list \<Rightarrow> failure_completion list" where
  "detected_completions now client detail_of applied rows =
     List.map_filter (\<lambda>event. map_option (detected_completion client detail_of event)
         (dict_by (\<lambda>r. py_lower (d_torrent_hash r)) rows (py_lower (df_torrent_hash event))))
       (failed_download_events applied rows (Some now))"

text \<open>A row an earlier actor left at \<open>failed_pending\<close>.\<close>

definition residual_event :: "datetime \<Rightarrow> download_row \<Rightarrow> string \<Rightarrow> download_failed" where
  "residual_event now row reason = \<lparr>df_torrent_hash = d_torrent_hash row, df_source_title = d_torrent_hash row,
     df_reason = reason, df_tmdb_id = d_tmdb_id row, df_indexer = None, df_occurred_at = Some now\<rparr>"

definition residual_completion :: "datetime \<Rightarrow> download_row \<Rightarrow> failure_completion" where
  "residual_completion now row = (case parse_operator_fail_marker (d_failed_reason row) of
       Some m \<Rightarrow> \<lparr>fc_download_id = d_id row,
         fc_event = residual_event now row
           (if pm_operator m then OPERATOR_FAIL_FINAL_REASON else RECONCILE_FAIL_FINAL_REASON),
         fc_blocklist = ff_blocklist (pm_flags m), fc_remove_torrent = ff_remove_torrent (pm_flags m),
         fc_blocklist_reason = (if pm_operator m then ''user_reported'' else ''failed''),
         fc_observed_failed_reason = d_failed_reason row\<rparr>
     | None \<Rightarrow> \<lparr>fc_download_id = d_id row,
         fc_event = residual_event now row (case truthy (d_failed_reason row) of
           Some r \<Rightarrow> r | None \<Rightarrow> ''recovered stranded failed_pending row''),
         fc_blocklist = (\<not> py_in UNINSPECTED_NOT_BLOCKLISTED (case d_failed_reason row of None \<Rightarrow> [] | Some r \<Rightarrow> r)
           \<and> classify_failure_detail (d_failed_reason row) \<noteq> Environmental),
         fc_remove_torrent = True, fc_blocklist_reason = ''failed'',
         fc_observed_failed_reason = d_failed_reason row\<rparr>)"

definition residual_completions :: "datetime \<Rightarrow> download_row list \<Rightarrow> failure_completion list" where
  "residual_completions now rows =
     map (residual_completion now) (filter (\<lambda>r. d_status r = state_str FailedPending) rows)"

text \<open>The heal without a client takes the residuals that owe no removal.\<close>

definition heal_completions :: "datetime \<Rightarrow> (int \<Rightarrow> bool) \<Rightarrow> download_row list \<Rightarrow> failure_completion list" where
  "heal_completions now claimed rows =
     map (residual_completion now) (filter (\<lambda>r. d_status r = state_str FailedPending \<and> \<not> claimed (d_id r)
       \<and> (case parse_operator_fail_marker (d_failed_reason r) of
            None \<Rightarrow> False | Some m \<Rightarrow> \<not> ff_remove_torrent (pm_flags m))) rows)"

text \<open>
  Making the verdict of a host-side failure durable before Phase B. Whatever goes wrong, the completion
  goes on as it was.
\<close>

definition persist_environmental_reason ::
  "datetime \<Rightarrow> bool \<Rightarrow> failure_completion \<Rightarrow> app_db \<Rightarrow> failure_completion \<times> app_db" where
  "persist_environmental_reason now ok c db =
     (if fc_observed_failed_reason c = Some (df_reason (fc_event c)) \<or> \<not> ok then (c, db)
      else case restamp now (fc_download_id c) (fc_observed_failed_reason c) (df_reason (fc_event c)) db of
        Inr (True, db') \<Rightarrow> (c\<lparr>fc_observed_failed_reason := Some (df_reason (fc_event c))\<rparr>, db')
      | _ \<Rightarrow> (c, db))"

definition done_marker :: "failure_completion \<Rightarrow> string option" where
  "done_marker c = (case parse_operator_fail_marker (fc_observed_failed_reason c) of
       Some m \<Rightarrow> if ff_remove_torrent (pm_flags m)
         then Some (operator_fail_marker_removal_done (ff_blocklist (pm_flags m)) (pm_nonce m)) else None
     | None \<Rightarrow> Some (reconcile_removal_done_marker (fc_blocklist c)))"

record cycle_input =
  ci_now :: datetime
  ci_ok :: bool
  ci_client :: "download_status list"
  ci_held :: "int \<Rightarrow> bool"
  ci_detail :: "string \<Rightarrow> failure_detail option"

datatype cycle_pc =
    CycleOpen
  | HealOpen
  | CyclePoll "download_record list"
  | CycleEnrich "download_record list" "state_transition list" "download_status list"
  | CyclePersist "download_record list" "failure_completion list" "failure_completion list"
  | CyclePhaseB "download_record list" "failure_completion list" "failure_completion list" "int list"
  | CycleProof "download_record list" failure_completion "failure_completion list" "failure_completion list" "int list"
  | CycleRemoving "download_record list" failure_completion "failure_completion list" "failure_completion list" "int list"
  | CycleOutcome "download_record list" failure_completion "failure_completion list" "failure_completion list" "int list"
  | CycleComplete "download_record list" "failure_completion list" "int list" nat
  | CycleDone
  | CycleRaised mark_error

text \<open>The cycle-scope \<open>finally\<close>: every removal guard this cycle holds is released once.\<close>

definition settle :: "int list \<Rightarrow> failure_world \<Rightarrow> failure_world" where
  "settle ids w = w\<lparr>fw_registry := fold release_removal_in_flight ids (fw_registry w)\<rparr>"

definition retry_cycle ::
  "download_record list \<Rightarrow> failure_completion list \<Rightarrow> int list \<Rightarrow> nat \<Rightarrow> mark_error \<Rightarrow> failure_world
     \<Rightarrow> cycle_pc \<times> failure_world" where
  "retry_cycle rows cs ids k e w = (if k \<ge> PHASE_C_MAX_ATTEMPTS then (CycleRaised e, settle ids w)
     else (CycleComplete rows cs ids (k + 1), w))"

definition claimed_in :: "failure_world \<Rightarrow> int \<Rightarrow> bool" where
  "claimed_in w = is_operator_claimed (fw_registry w)"

fun cycle_next :: "cycle_input \<Rightarrow> cycle_pc \<Rightarrow> failure_world \<Rightarrow> cycle_pc \<times> failure_world" where
  "cycle_next i CycleOpen w = (let rows = list_active (store_of (fw_db w)) in
     (if rows = [] then CycleDone else CyclePoll rows, w))"
| "cycle_next i HealOpen w = (let rows = list_active (store_of (fw_db w));
       cs = heal_completions (ci_now i) (claimed_in w) (map fst rows)
     in (if cs = [] then CycleDone else CycleComplete rows cs [] 1, w))"
| "cycle_next i (CyclePoll all_rows) w =
     (let rows = filter (\<lambda>(r, _). \<not> ci_held i (d_id r)) all_rows;
          plain = map fst rows;
          transitions = reconcile plain (ci_client i) (ci_now i) missing_grace_default
      in case on_store (phase_a_loop (ci_now i) (claimed_in w) (ci_client i) transitions plain) (fw_db w) of
           Inl e \<Rightarrow> (CycleRaised (StoreFailed e), w)
         | Inr (applied, db) \<Rightarrow> (CycleEnrich rows applied (ci_client i), w\<lparr>fw_db := db\<rparr>))"
| "cycle_next i (CycleEnrich rows applied client) w =
     (CyclePersist rows (detected_completions (ci_now i) client (ci_detail i) applied (map fst rows)) [], w)"
| "cycle_next i (CyclePersist rows (c # cs) kept) w =
     (if fc_blocklist c \<or> claimed_in w (fc_download_id c) then (CyclePersist rows cs (kept @ [c]), w)
      else case persist_environmental_reason (ci_now i) (ci_ok i) c (fw_db w) of
        (c', db) \<Rightarrow> (CyclePersist rows cs (kept @ [c']), w\<lparr>fw_db := db\<rparr>))"
| "cycle_next i (CyclePersist rows [] kept) w =
     (let cs = filter (\<lambda>c. \<not> claimed_in w (fc_download_id c)) (kept @ residual_completions (ci_now i) (map fst rows))
      in (if cs = [] then CycleDone else CyclePhaseB rows cs [] [], w))"
| "cycle_next i (CyclePhaseB rows (c # cs) kept ids) w =
     (if claimed_in w (fc_download_id c) then (CyclePhaseB rows cs kept ids, w)
      else if \<not> fc_remove_torrent c then (CyclePhaseB rows cs (kept @ [c]) ids, w)
      else (CycleProof rows c cs kept (fc_download_id c # ids),
            w\<lparr>fw_registry := register_removal_in_flight (fc_download_id c) (fw_registry w)\<rparr>))"
| "cycle_next i (CyclePhaseB rows [] kept ids) w =
     (if kept = [] then (CycleDone, settle ids w) else (CycleComplete rows kept ids 1, w))"
| "cycle_next i (CycleProof rows c cs kept ids) w =
     (let latest = get_row (store_of (fw_db w)) (fc_download_id c)
      in if map_option d_status latest \<noteq> Some (state_str FailedPending)
            \<or> Option.bind latest d_failed_reason \<noteq> fc_observed_failed_reason c
         then (CyclePhaseB rows cs kept (remove1 (fc_download_id c) ids),
               w\<lparr>fw_registry := release_removal_in_flight (fc_download_id c) (fw_registry w)\<rparr>)
         else (CycleRemoving rows c cs kept ids, w))"
| "cycle_next i (CycleRemoving rows c cs kept ids) w =
     (if ci_ok i \<and> done_marker c \<noteq> None then CycleOutcome rows c cs kept ids
      else CyclePhaseB rows cs (kept @ [c]) ids, w)"
| "cycle_next i (CycleOutcome rows c cs kept ids) w =
     (case done_marker c of
        None \<Rightarrow> (CyclePhaseB rows cs (kept @ [c]) ids, w)
      | Some m \<Rightarrow> (case restamp (ci_now i) (fc_download_id c) (fc_observed_failed_reason c) m (fw_db w) of
          Inl e \<Rightarrow> (CycleRaised (StoreFailed e), settle ids w)
        | Inr (restamped, db) \<Rightarrow>
            if restamped \<and> ci_ok i
            then (CyclePhaseB rows cs (kept @ [c\<lparr>fc_observed_failed_reason := Some m\<rparr>]) ids, w\<lparr>fw_db := db\<rparr>)
            else (CyclePhaseB rows cs (kept @ [c]) ids, w)))"
| "cycle_next i (CycleComplete rows cs ids k) w =
     (if \<not> ci_ok i then retry_cycle rows cs ids k DatabaseFailed w
      else case complete_reconcile_failures (ci_now i) (claimed_in w) rows cs (fw_db w) of
        Inr (_, db) \<Rightarrow> (CycleDone, settle ids (w\<lparr>fw_db := db\<rparr>))
      | Inl e \<Rightarrow> if e = IntegrityError then retry_cycle rows cs ids k (StoreFailed e) w
                 else (CycleRaised (StoreFailed e), settle ids w))"
| "cycle_next i CycleDone w = (CycleDone, w)"
| "cycle_next i (CycleRaised e) w = (CycleRaised e, w)"

section \<open>Interleavings\<close>

text \<open>
  The operator calls and the cycles in flight around one world. Another writer of the program (a grab, an
  import, a cancellation, a payload verdict) may do anything to the database as long as it keeps the rules
  of this protocol: it never writes a marker, and a row that carries one it leaves at \<open>failed_pending\<close> with
  its reason or takes away with a reason of its own; rows keep their torrent, whose hash is lower case as
  the grab stores it. A call may
  fail at any await, and the process may die, which empties the registry.
\<close>

type_synonym failure_state = "mark_pc list \<times> cycle_pc list \<times> failure_world"

definition marker_of :: "download_row \<Rightarrow> parsed_marker option" where
  "marker_of r = parse_operator_fail_marker (d_failed_reason r)"

definition other_writer :: "app_db \<Rightarrow> app_db \<Rightarrow> bool" where
  "other_writer db db' \<longleftrightarrow> repo_inv (a_store db')
     \<and> (\<forall>r \<in> set (db_downloads (a_store db')). parse_operator_fail_marker (d_payload_rejection r) = None
          \<and> py_lower (d_torrent_hash r) = d_torrent_hash r)
     \<and> (\<forall>r' \<in> set (db_downloads (a_store db')). marker_of r' \<noteq> None \<longrightarrow>
          (\<exists>r \<in> set (db_downloads (a_store db)). d_id r = d_id r' \<and> d_status r = d_status r'
             \<and> d_failed_reason r = d_failed_reason r'))
     \<and> (\<forall>r \<in> set (db_downloads (a_store db)). \<exists>r' \<in> set (db_downloads (a_store db')).
          d_id r' = d_id r \<and> d_torrent_hash r' = d_torrent_hash r)"

definition mark_claim :: "mark_pc \<Rightarrow> (mark_job \<times> int) option" where
  "mark_claim pc = (case pc of MarkStamp job t _ _ \<Rightarrow> Some (job, t) | MarkRemove job t _ \<Rightarrow> Some (job, t)
     | MarkRemoving job t _ \<Rightarrow> Some (job, t) | MarkOutcome job t _ \<Rightarrow> Some (job, t)
     | MarkComplete job t _ _ \<Rightarrow> Some (job, t) | _ \<Rightarrow> None)"

definition cycle_guards :: "cycle_pc \<Rightarrow> int list" where
  "cycle_guards pc = (case pc of CyclePhaseB _ _ _ ids \<Rightarrow> ids | CycleProof _ _ _ _ ids \<Rightarrow> ids
     | CycleRemoving _ _ _ _ ids \<Rightarrow> ids | CycleOutcome _ _ _ _ ids \<Rightarrow> ids
     | CycleComplete _ _ ids _ \<Rightarrow> ids | _ \<Rightarrow> [])"

inductive protocol_step :: "failure_state \<Rightarrow> failure_state \<Rightarrow> bool" where
  mark: "i < length ms \<Longrightarrow> mark_next now ok (ms ! i) w = (pc, w') \<Longrightarrow> protocol_step (ms, cs, w) (ms[i := pc], cs, w')"
| cycle: "i < length cs \<Longrightarrow> cycle_next inp (cs ! i) w = (pc, w') \<Longrightarrow> protocol_step (ms, cs, w) (ms, cs[i := pc], w')"

inductive failure_step :: "failure_state \<Rightarrow> failure_state \<Rightarrow> bool" where
  protocol: "protocol_step s s' \<Longrightarrow> failure_step s s'"
| call: "failure_step (ms, cs, w) (ms @ [MarkOpen args], cs, w)"
| poll: "failure_step (ms, cs, w) (ms, cs @ [CycleOpen], w)"
| heal: "failure_step (ms, cs, w) (ms, cs @ [HealOpen], w)"
| mark_fails: "i < length ms \<Longrightarrow> mark_claim (ms ! i) = Some (job, token)
    \<Longrightarrow> failure_step (ms, cs, w) (ms[i := MarkRaised DatabaseFailed], cs, let_go job token w)"
| cycle_fails: "i < length cs
    \<Longrightarrow> failure_step (ms, cs, w) (ms, cs[i := CycleRaised DatabaseFailed], settle (cycle_guards (cs ! i)) w)"
| other: "other_writer (fw_db w) db \<Longrightarrow> failure_step (ms, cs, w) (ms, cs, w\<lparr>fw_db := db\<rparr>)"
| other_removal: "failure_step (ms, cs, w) (ms, cs, w\<lparr>fw_registry := register_removal_in_flight did (fw_registry w)\<rparr>)"
| other_removed: "failure_step (ms, cs, w) (ms, cs, w\<lparr>fw_registry := release_removal_in_flight did (fw_registry w)\<rparr>)"
| crash: "failure_step (ms, cs, w) ([], [], w\<lparr>fw_registry := empty_registry\<rparr>)"

inductive_cases protocol_stepE: "protocol_step s s'"

definition failure_init :: "failure_state \<Rightarrow> bool" where
  "failure_init s \<longleftrightarrow> (case s of (ms, cs, w) \<Rightarrow> ms = [] \<and> cs = [] \<and> fw_registry w = empty_registry
     \<and> repo_inv (a_store (fw_db w))
     \<and> list_all (\<lambda>r. marker_of r = None \<and> parse_operator_fail_marker (d_payload_rejection r) = None
          \<and> py_lower (d_torrent_hash r) = d_torrent_hash r)
         (db_downloads (a_store (fw_db w))))"

end
