(* ===== verification/FailureEffects.thy ===== *)
theory FailureEffects
  imports FailureFlow RequestInvariant
begin

text \<open>
  What the operations of \<open>FailureFlow\<close> do to the download store and the blocklist: which rows a
  compare-and-swap moves, that re-arming touches neither table, and that completing a failed download
  moves its row and lists at most its own release.
\<close>

section \<open>Operations that leave downloads and blocklist alone\<close>

definition app_frame :: "'a app_op \<Rightarrow> bool" where
  "app_frame m \<longleftrightarrow> (\<forall>db x db'. m db = Inr (x, db') \<longrightarrow> a_store db' = a_store db \<and> a_blocklist db' = a_blocklist db)"

named_theorems frame_rules

lemma app_frameI:
  "(\<And>db x db'. m db = Inr (x, db') \<Longrightarrow> a_store db' = a_store db \<and> a_blocklist db' = a_blocklist db) \<Longrightarrow> app_frame m"
  by (simp add: app_frame_def)

lemma app_frameD: "app_frame m \<Longrightarrow> m db = Inr (x, db') \<Longrightarrow> a_store db' = a_store db \<and> a_blocklist db' = a_blocklist db"
  by (simp add: app_frame_def)

lemma frame_return [frame_rules]: "app_frame (return_op x)"
  by (rule app_frameI) simp

lemma frame_bind [frame_rules]: "app_frame m \<Longrightarrow> (\<And>x. app_frame (f x)) \<Longrightarrow> app_frame (bind_op m f)"
  by (auto intro!: app_frameI simp: bind_op_Inr) (metis app_frameD)+

lemma frame_of_sum [frame_rules]: "app_frame (of_sum v)" "app_frame (\<lambda>db. of_sum (g db) db)"
  by (auto intro: app_frameI)

lemma frame_Inl [frame_rules]: "app_frame (\<lambda>db. Inl (e db))"
  by (rule app_frameI) simp

lemma frame_If [frame_rules]: "(b \<Longrightarrow> app_frame m) \<Longrightarrow> (\<not> b \<Longrightarrow> app_frame n) \<Longrightarrow> app_frame (if b then m else n)"
  by simp

lemma frame_If_db [frame_rules]: "app_frame m \<Longrightarrow> app_frame n \<Longrightarrow> app_frame (\<lambda>db. if b db then m db else n db)"
  by (auto intro!: app_frameI dest: app_frameD split: if_splits)

lemma frame_stay [frame_rules]: "app_frame (\<lambda>db. Inr (x, db))"
  by (rule app_frameI) simp

lemma frame_savepoint [frame_rules]: "app_frame b \<Longrightarrow> app_frame h \<Longrightarrow> app_frame (savepoint b h)"
  by (auto intro!: app_frameI simp: savepoint_def split: sum.splits if_splits dest: app_frameD)

lemma frame_updates [frame_rules]:
  "app_frame (update_requests p f)" "app_frame (update_seasons q g)"
  "app_frame (write_request i f)" "app_frame (write_season i g)" "app_frame (insert_season z)"
  by (auto intro!: app_frameI simp: update_requests_def update_seasons_def write_request_def write_season_def
      insert_season_def split: if_splits)

lemma frame_read: "(\<And>y. app_frame (f y)) \<Longrightarrow> app_frame (\<lambda>db. f (g db) db)"
  by (auto intro!: app_frameI dest: app_frameD)

lemma frame_ensure [frame_rules]: "app_frame (ensure_sea mr n status regrab)"
proof -
  have ins: "app_frame (\<lambda>db. let z = new_season (a_next_id db) mr n st regrab
      in bind_op (insert_season z) (\<lambda>_ db'. of_sum (map_sum id (to_record_sea z) (tmdb_id_for db' mr)) db') db)" for st
    unfolding Let_def by (rule frame_read[where g = a_next_id]) (intro frame_rules)
  have lost: "app_frame (\<lambda>db. case find_sea db mr n of None \<Rightarrow> Inl IntegrityError
      | Some w \<Rightarrow> of_sum (map_sum id (to_record_sea w) (tmdb_id_for db mr)) db)"
    by (auto intro!: app_frameI split: option.splits)
  have "app_frame (ensure_from seen mr n status regrab)" for seen
    unfolding ensure_from_def using ins lost by (cases seen) (auto intro!: frame_rules)
  then show ?thesis unfolding ensure_sea_def app_frame_def by blast
qed

lemma frame_set_status_if_in_req [frame_rules]: "app_frame (set_status_if_in_req rid status allowed u v)"
  by (auto intro!: app_frameI simp: set_status_if_in_req_def update_requests_def split: if_splits)

lemma frame_set_status_if_in_sea [frame_rules]: "app_frame (set_status_if_in_sea now sid status allowed g)"
  by (auto intro!: app_frameI simp: set_status_if_in_sea_def update_seasons_def split: if_splits)

lemma frame_recompute_parent [frame_rules]: "app_frame (recompute_parent now mr tolerate stamp)"
  unfolding recompute_parent_def set_status_req_def stamp_completed_at_if_unset_def
  by (intro frame_rules)

lemma frame_rearm [frame_rules]: "app_frame (rearm_failed_request now r)"
  unfolding rearm_failed_request_def set_status_if_in_def
  by (cases "fr_season r") (auto intro!: frame_rules)

lemma frame_rearm_each [frame_rules]: "app_frame (rearm_each now rs)"
  by (induction rs) (auto intro!: frame_rules)

section \<open>Rows that move\<close>

text \<open>Writes that keep what identifies a download.\<close>

definition keeps :: "download_row \<Rightarrow> download_row \<Rightarrow> bool" where
  "keeps r r' \<longleftrightarrow> d_id r' = d_id r \<and> d_torrent_hash r' = d_torrent_hash r \<and> d_payload_rejection r' = d_payload_rejection r"

abbreviation downloads :: "app_db \<Rightarrow> download_row list" where
  "downloads db \<equiv> db_downloads (a_store db)"

lemma repo_inv_store_of [simp]: "repo_inv (store_of db) \<longleftrightarrow> repo_inv (a_store db)"
  by (simp add: repo_inv_def db_unique_def store_of_def claiming_ids_def live_ids_def download_keys_def scope_keys_def
      claim_keys_def)

lemma downloads_store_of [simp]: "db_downloads (store_of db) = downloads db"
  by (simp add: store_of_def)

lemma on_store_Inr: "on_store f db = Inr (x, db') \<longleftrightarrow> (\<exists>st. f (store_of db) = Inr (x, st) \<and> db' = db\<lparr>a_store := st\<rparr>)"
  by (auto simp: on_store_def split: sum.splits)

text \<open>The writes of this protocol set the reason and nothing else but the status.\<close>

definition reason_write :: "string \<Rightarrow> string option option \<Rightarrow> status_update" where
  "reason_write reason req = no_update\<lparr>su_failed_reason := Some reason, su_require_failed_reason := req\<rparr>"

definition hit_row :: "int \<Rightarrow> string list \<Rightarrow> string option option \<Rightarrow> download_row \<Rightarrow> bool" where
  "hit_row did allowed req r \<longleftrightarrow> d_id r = did \<and> d_status r \<in> set allowed
     \<and> (case req of None \<Rightarrow> True | Some x \<Rightarrow> d_failed_reason r = x)"

lemma no_update_simps [simp]:
  "su_require_failed_reason no_update = None" "su_require_no_unimported_scope_outside no_update = None"
  "su_replace_grab_metadata no_update = False" "su_clear_failed_reason no_update = False"
  "su_payload_rejection no_update = None" "su_clear_payload_rejection no_update = False"
  "no_update\<lparr>su_require_failed_reason := None\<rparr> = no_update"
  by (simp_all add: no_update_def)

lemma reason_write_eq:
  "no_update\<lparr>su_failed_reason := Some reason\<rparr> = reason_write reason None"
  "no_update\<lparr>su_failed_reason := Some reason, su_require_failed_reason := Some req\<rparr> = reason_write reason (Some req)"
  by (simp_all add: reason_write_def no_update_def)

lemma cas_where_reason [simp]: "cas_where st did allowed (reason_write reason req) = hit_row did allowed req"
  by (rule ext) (simp add: cas_where_def hit_row_def reason_write_def)

lemma row_values_reason [simp]:
  "keeps r (row_values now st (reason_write reason req) mt r)"
  "d_failed_reason (row_values now st (reason_write reason req) mt r) = Some reason"
  by (simp_all add: keeps_def row_values_def grab_metadata_def clear_or_set_def reason_write_def no_update_def)

text \<open>
  A compare-and-swap of this protocol: it says whether there was a row to move, and moves exactly that row,
  to the new status with the new reason.
\<close>

definition moves :: "(download_row \<Rightarrow> bool) \<Rightarrow> string \<Rightarrow> string \<Rightarrow> app_db \<Rightarrow> app_db \<Rightarrow> bool" where
  "moves hit st reason db db' \<longleftrightarrow> (\<exists>f. downloads db' = map f (downloads db)
     \<and> (\<forall>r. keeps r (f r)) \<and> (\<forall>r. \<not> hit r \<longrightarrow> f r = r)
     \<and> (\<forall>r. hit r \<longrightarrow> d_status (f r) = st \<and> d_failed_reason (f r) = Some reason))"

lemma movesD:
  assumes "moves hit st reason db db'" and "r' \<in> set (downloads db')"
  obtains r where "r \<in> set (downloads db)" "keeps r r'" "\<not> hit r \<Longrightarrow> r' = r"
    "hit r \<Longrightarrow> d_status r' = st \<and> d_failed_reason r' = Some reason"
  using assms by (auto simp: moves_def)

lemma movesI_row:
  assumes "moves hit st reason db db'" and "r \<in> set (downloads db)"
  obtains r' where "r' \<in> set (downloads db')" "keeps r r'" "\<not> hit r \<Longrightarrow> r' = r"
    "hit r \<Longrightarrow> d_status r' = st \<and> d_failed_reason r' = Some reason"
proof -
  from assms(1) obtain f where f: "downloads db' = map f (downloads db)" "keeps r (f r)" "\<not> hit r \<Longrightarrow> f r = r"
    "hit r \<Longrightarrow> d_status (f r) = st \<and> d_failed_reason (f r) = Some reason" by (auto simp: moves_def)
  with assms(2) show thesis by (intro that[of "f r"]) auto
qed

lemma cas_effect:
  assumes inv: "repo_inv (a_store db)"
    and cas: "cas_download now did st allowed (reason_write reason req) db = Inr (b, db')"
  shows "repo_inv (a_store db')" and "a_blocklist db' = a_blocklist db"
    and "\<not> b \<Longrightarrow> downloads db' = downloads db" and "b \<longleftrightarrow> list_ex (hit_row did allowed req) (downloads db)"
    and "moves (hit_row did allowed req) st reason db db'"
proof -
  from cas obtain s where s: "DownloadRepo.update_status_if_in now did st allowed (reason_write reason req) (store_of db) = Inr (b, s)"
    and db': "db' = db\<lparr>a_store := s\<rparr>" by (auto simp: cas_download_def on_store_Inr)
  note spec = update_status_if_in_spec[OF _ s, unfolded cas_where_reason downloads_store_of repo_inv_store_of, OF inv]
  show "repo_inv (a_store db')" "a_blocklist db' = a_blocklist db" "b \<longleftrightarrow> list_ex (hit_row did allowed req) (downloads db)"
    using spec(1,2) db' by simp_all
  show "downloads db' = downloads db" if "\<not> b" using spec(3)[OF that] db' by simp
  from spec(4) obtain mt where ds: "db_downloads s = map (\<lambda>r. if hit_row did allowed req r
      then row_values now st (reason_write reason req) mt r else r) (downloads db)" by blast
  let ?f = "\<lambda>r. if hit_row did allowed req r then row_values now st (reason_write reason req) mt r else r"
  show "moves (hit_row did allowed req) st reason db db'"
    unfolding moves_def using ds by (intro exI[of _ ?f]) (simp add: db' keeps_def[of r r for r])
qed

text \<open>Ids and hashes identify a row.\<close>

lemma row_id_inj: "repo_inv (a_store db) \<Longrightarrow> r \<in> set (downloads db) \<Longrightarrow> s \<in> set (downloads db) \<Longrightarrow> d_id r = d_id s \<Longrightarrow> r = s"
  by (auto simp: repo_inv_def db_unique_def distinct_map dest: inj_onD)

lemma row_hash_inj:
  "repo_inv (a_store db) \<Longrightarrow> r \<in> set (downloads db) \<Longrightarrow> s \<in> set (downloads db) \<Longrightarrow> d_torrent_hash r = d_torrent_hash s \<Longrightarrow> r = s"
  by (auto simp: repo_inv_def db_unique_def distinct_map dest: inj_onD)

section \<open>Completing a failed download\<close>

lemma scopes_terminal_effect:
  assumes "repo_inv (a_store db)" and "mark_download_scopes_terminal did status db = Inr (x, db')"
  shows "repo_inv (a_store db')" "downloads db' = downloads db" "a_blocklist db' = a_blocklist db"
proof -
  let ?g = "\<lambda>st. st\<lparr>db_scopes := map (\<lambda>s. if s_download_id s = did \<and> s_status s \<in> set UNRESOLVED_SCOPE_STATUSES
        then s\<lparr>s_status := status\<rparr> else s) (db_scopes st)\<rparr>"
  from assms(2) have u: "db_unique (?g (store_of db))" and db': "db' = db\<lparr>a_store := ?g (store_of db)\<rparr>"
    by (auto simp: mark_download_scopes_terminal_def on_store_Inr)
  show "downloads db' = downloads db" "a_blocklist db' = a_blocklist db" by (simp_all add: db')
  have "claiming_ids (?g (store_of db)) = claiming_ids (a_store db)" "live_ids (?g (store_of db)) = live_ids (a_store db)"
    by (simp_all add: claiming_ids_def live_ids_def store_of_def)
  with u assms(1) show "repo_inv (a_store db')" by (simp add: db' repo_inv_def)
qed

lemma blocklist_failed_effect:
  assumes "blocklist_failed torrent_hash title reason tmdb mt db = Inr (x, db')"
  obtains b where "a_blocklist db' = a_blocklist db @ [b]" "a_store db' = a_store db"
    "b_torrent_hash b = Some torrent_hash" "b_reason b = reason"
proof -
  from assms obtain b where "create_blocklist (case truthy (source_title_for db torrent_hash) of None \<Rightarrow> title | Some t \<Rightarrow> t)
      reason tmdb (Some torrent_hash) (indexer_for db torrent_hash) None mt db = Inr (b, db')"
    by (auto simp: blocklist_failed_def bind_op_Inr)
  from create_blocklist_Inr[OF this] show thesis by (intro that[of b]) auto
qed

text \<open>
  One completion: nothing, or the one row found at \<open>failed_pending\<close> with the required reason is failed
  with the final reason, and its release is listed if the completion says so.
\<close>

definition completes ::
  "int \<Rightarrow> string option \<Rightarrow> string \<Rightarrow> string \<Rightarrow> string \<Rightarrow> bool \<Rightarrow> app_db \<Rightarrow> app_db \<Rightarrow> bool" where
  "completes did observed final torrent_hash why listed db db' \<longleftrightarrow> repo_inv (a_store db')
     \<and> (downloads db' = downloads db \<and> a_blocklist db' = a_blocklist db
        \<or> list_ex (hit_row did [state_str FailedPending] (Some observed)) (downloads db)
          \<and> moves (hit_row did [state_str FailedPending] (Some observed)) (state_str Failed) final db db'
          \<and> (\<exists>new. a_blocklist db' = a_blocklist db @ new \<and> list_all (\<lambda>b. b_torrent_hash b = Some torrent_hash) new
               \<and> map b_reason new = (if listed then [why] else [])))"

lemma completes_intro:
  assumes inv: "repo_inv (a_store db)"
    and cas: "cas_download now did (state_str Failed) [state_str FailedPending] (reason_write final (Some observed)) db = Inr (b, db1)"
    and no: "\<not> b \<Longrightarrow> a_store db' = a_store db1 \<and> a_blocklist db' = a_blocklist db1"
    and yes: "b \<Longrightarrow> \<exists>x1 db2 x2 db3 status title tmdb mt. mark_download_scopes_terminal did status db1 = Inr (x1, db2)
      \<and> (if listed then blocklist_failed torrent_hash title why tmdb mt else return_op ()) db2 = Inr (x2, db3)
      \<and> a_store db' = a_store db3 \<and> a_blocklist db' = a_blocklist db3"
  shows "completes did observed final torrent_hash why listed db db'"
proof (cases b)
  case False
  from cas_effect(1-3)[OF inv cas] False no show ?thesis by (simp add: completes_def)
next
  case True
  note c = cas_effect[OF inv cas]
  from yes[OF True] obtain x1 db2 x2 db3 status title tmdb mt
    where st: "mark_download_scopes_terminal did status db1 = Inr (x1, db2)"
    and bl: "(if listed then blocklist_failed torrent_hash title why tmdb mt else return_op ()) db2 = Inr (x2, db3)"
    and same: "a_store db' = a_store db3" "a_blocklist db' = a_blocklist db3" by blast
  note s = scopes_terminal_effect[OF c(1) st]
  have new: "\<exists>new. a_blocklist db3 = a_blocklist db2 @ new \<and> list_all (\<lambda>b. b_torrent_hash b = Some torrent_hash) new
      \<and> map b_reason new = (if listed then [why] else [])" and "a_store db3 = a_store db2"
    using bl by (cases listed; auto elim!: blocklist_failed_effect)+
  moreover have "moves (hit_row did [state_str FailedPending] (Some observed)) (state_str Failed) final db db'"
    using c(5) s(2) \<open>a_store db3 = a_store db2\<close> same by (simp add: moves_def)
  ultimately show ?thesis using s(1,3) c(2,4) True same by (simp add: completes_def)
qed

lemma complete_mark_failed_effect:
  assumes inv: "repo_inv (a_store db)" and run: "complete_mark_failed now job marker db = Inr (x, db')"
  shows "completes (mj_id job) (Some marker) (mj_final_reason job) (mj_torrent_hash job) ''user_reported''
    (ma_blocklist (mj_args job)) db db'"
proof -
  from run obtain b db1 where cas: "cas_download now (mj_id job) (state_str Failed) [state_str FailedPending]
      (reason_write (mj_final_reason job) (Some (Some marker))) db = Inr (b, db1)"
    and rest: "(if \<not> b then return_op ()
     else bind_op (mark_download_scopes_terminal (mj_id job) ''failed'') (\<lambda>_.
       bind_op (\<lambda>db. if ma_blocklist (mj_args job)
         then (let request = Option.bind (mj_request_id job) (get_req db)
               in blocklist_failed (mj_torrent_hash job) (mj_torrent_hash job) ''user_reported''
                    (case request of Some q \<Rightarrow> Some (rr_tmdb_id q) | None \<Rightarrow> mj_tmdb_id job)
                    (media_type_for_blocklist (map_option fst (get_by_hash (store_of db) (mj_torrent_hash job)))
                      (map_option rr_media_type request))) db
         else return_op () db) (\<lambda>_. rearm_each now (mj_rearms job)))) db1 = Inr (x, db')"
    using run unfolding complete_mark_failed_def reason_write_eq(2) bind_op_Inr by blast
  show ?thesis
  proof (rule completes_intro[OF inv cas])
    show "a_store db' = a_store db1 \<and> a_blocklist db' = a_blocklist db1" if "\<not> b" using that rest by simp
  next
    assume b
    with rest obtain x1 db2 x2 db3 where st: "mark_download_scopes_terminal (mj_id job) ''failed'' db1 = Inr (x1, db2)"
      and bl: "(if ma_blocklist (mj_args job)
         then (let request = Option.bind (mj_request_id job) (get_req db2)
               in blocklist_failed (mj_torrent_hash job) (mj_torrent_hash job) ''user_reported''
                    (case request of Some q \<Rightarrow> Some (rr_tmdb_id q) | None \<Rightarrow> mj_tmdb_id job)
                    (media_type_for_blocklist (map_option fst (get_by_hash (store_of db2) (mj_torrent_hash job)))
                      (map_option rr_media_type request))) db2
         else return_op () db2) = Inr (x2, db3)"
      and re: "rearm_each now (mj_rearms job) db3 = Inr (x, db')" by (auto simp: bind_op_Inr)
    from app_frameD[OF frame_rearm_each re] st bl
    show "\<exists>x1 db2 x2 db3 status title tmdb mt. mark_download_scopes_terminal (mj_id job) status db1 = Inr (x1, db2)
      \<and> (if ma_blocklist (mj_args job) then blocklist_failed (mj_torrent_hash job) title ''user_reported'' tmdb mt
          else return_op ()) db2 = Inr (x2, db3)
      \<and> a_store db' = a_store db3 \<and> a_blocklist db' = a_blocklist db3" by (fastforce simp: Let_def split: if_splits)
  qed
qed

text \<open>What a completion found in a snapshot would write as the final reason.\<close>

definition completion_reason :: "download_record list \<Rightarrow> failure_completion \<Rightarrow> string" where
  "completion_reason rows c = (case find (\<lambda>(r, _). d_id r = fc_download_id c) rows of
       None \<Rightarrow> df_reason (fc_event c)
     | Some (rec, _) \<Rightarrow> (case truthy (d_payload_rejection rec) of Some r \<Rightarrow> r | None \<Rightarrow> df_reason (fc_event c)))"

lemma handle_failed_effect:
  assumes inv: "repo_inv (a_store db)" and run: "handle_failed now c rows db = Inr (x, db')"
  shows "completes (fc_download_id c) (fc_observed_failed_reason c) (completion_reason rows c)
    (df_torrent_hash (fc_event c)) (fc_blocklist_reason c) (fc_blocklist c) db db'"
proof (cases "find (\<lambda>(r, _). d_id r = fc_download_id c) rows")
  case None
  with run inv show ?thesis by (simp add: handle_failed_def completes_def)
next
  case (Some p)
  obtain rec scopes where p: "p = (rec, scopes)" by (cases p)
  have i: "d_id rec = fc_download_id c" using Some by (auto simp: p find_Some_iff)
  have reason: "completion_reason rows c = (case truthy (d_payload_rejection rec) of Some r \<Rightarrow> r | None \<Rightarrow> df_reason (fc_event c))"
    by (simp add: completion_reason_def Some p)
  define after where "after = (\<lambda>won. if \<not> won then return_op None
         else bind_op (mark_download_scopes_terminal (d_id rec) ''failed'') (\<lambda>_ db.
           let request = Option.bind (d_media_request_id rec) (get_req db);
               mt = media_type_for_blocklist (Some rec) (map_option rr_media_type request)
           in bind_op (if fc_blocklist c
                then blocklist_failed (df_torrent_hash (fc_event c)) (df_source_title (fc_event c)) (fc_blocklist_reason c)
                  (case request of Some q \<Rightarrow> Some (rr_tmdb_id q) | None \<Rightarrow> df_tmdb_id (fc_event c)) mt
                else return_op ()) (\<lambda>_.
              if scopes \<noteq> [] then bind_op (rearm_each now (scope_rearms mt scopes)) (\<lambda>_. return_op None)
              else return_op (map_option (\<lambda>mr. \<lparr>fr_media_request_id = mr, fr_season = d_season rec,
                fr_media_type = mt\<rparr>) (d_media_request_id rec))) db))"
  have "bind_op (cas_download now (d_id rec) ''failed'' [''failed_pending''] (no_update\<lparr>su_failed_reason :=
      Some (case truthy (d_payload_rejection rec) of Some r \<Rightarrow> r | None \<Rightarrow> df_reason (fc_event c)),
      su_require_failed_reason := Some (fc_observed_failed_reason c)\<rparr>)) after db = Inr (x, db')"
    using run by (simp add: handle_failed_def Some p after_def)
  then obtain b db1 where cas: "cas_download now (fc_download_id c) (state_str Failed) [state_str FailedPending]
      (reason_write (completion_reason rows c) (Some (fc_observed_failed_reason c))) db = Inr (b, db1)"
    and rest: "after b db1 = Inr (x, db')"
    unfolding reason_write_eq(2) bind_op_Inr reason i by auto
  show ?thesis
  proof (rule completes_intro[OF inv cas])
    show "a_store db' = a_store db1 \<and> a_blocklist db' = a_blocklist db1" if "\<not> b" using that rest by (simp add: after_def)
  next
    assume b
    with rest obtain x1 db2 where st: "mark_download_scopes_terminal (fc_download_id c) ''failed'' db1 = Inr (x1, db2)"
      and "after True db1 = Inr (x, db')" by (auto simp: after_def bind_op_Inr i)
    then obtain tmdb mt x2 db3 where bl: "(if fc_blocklist c then blocklist_failed (df_torrent_hash (fc_event c))
        (df_source_title (fc_event c)) (fc_blocklist_reason c) tmdb mt else return_op ()) db2 = Inr (x2, db3)"
      and re: "(if scopes \<noteq> [] then bind_op (rearm_each now (scope_rearms mt scopes)) (\<lambda>_. return_op None)
         else return_op (map_option (\<lambda>mr. \<lparr>fr_media_request_id = mr, fr_season = d_season rec,
                fr_media_type = mt\<rparr>) (d_media_request_id rec))) db3 = Inr (x, db')"
      unfolding after_def bind_op_Inr by (auto simp: i Let_def bind_op_Inr)
    have "app_frame (if scopes \<noteq> [] then bind_op (rearm_each now (scope_rearms mt scopes)) (\<lambda>_. return_op None)
       else return_op (map_option (\<lambda>mr. \<lparr>fr_media_request_id = mr, fr_season = d_season rec,
                fr_media_type = mt\<rparr>) (d_media_request_id rec)))" by (intro frame_rules)
    from app_frameD[OF this re] st bl
    show "\<exists>x1 db2 x2 db3 status title tmdb mt. mark_download_scopes_terminal (fc_download_id c) status db1 = Inr (x1, db2)
      \<and> (if fc_blocklist c then blocklist_failed (df_torrent_hash (fc_event c)) title (fc_blocklist_reason c) tmdb mt
          else return_op ()) db2 = Inr (x2, db3)
      \<and> a_store db' = a_store db3 \<and> a_blocklist db' = a_blocklist db3" by blast
  qed
qed

section \<open>A whole transaction\<close>

text \<open>
  A verdict says which row it is about, the reason it requires, the final reason, the torrent it would
  list, under which reason, and whether. A transaction settles verdicts if every row either stays, its
  torrent not listed, or is failed by one of them and listed once or not at all, as that verdict says.
\<close>

record verdict =
  ve_id :: int
  ve_observed :: "string option"
  ve_final :: string
  ve_hash :: string
  ve_why :: string
  ve_listed :: bool

definition ve_hits :: "verdict \<Rightarrow> download_row \<Rightarrow> bool" where
  "ve_hits v = hit_row (ve_id v) [state_str FailedPending] (Some (ve_observed v))"

definition listed_as :: "string \<Rightarrow> blocklist_row list \<Rightarrow> string list" where
  "listed_as torrent_hash new = map b_reason (filter (\<lambda>b. b_torrent_hash b = Some torrent_hash) new)"

definition settled_by :: "verdict set \<Rightarrow> blocklist_row list \<Rightarrow> download_row \<Rightarrow> download_row \<Rightarrow> bool" where
  "settled_by V new r r' \<longleftrightarrow> keeps r r' \<and> (r' = r \<and> listed_as (d_torrent_hash r) new = []
     \<or> (\<exists>v \<in> V. ve_hits v r \<and> d_status r' = state_str Failed \<and> d_failed_reason r' = Some (ve_final v)
          \<and> listed_as (d_torrent_hash r) new = (if ve_listed v then [ve_why v] else [])))"

definition settles :: "verdict set \<Rightarrow> app_db \<Rightarrow> app_db \<Rightarrow> bool" where
  "settles V db db' \<longleftrightarrow> repo_inv (a_store db') \<and> (\<exists>new. a_blocklist db' = a_blocklist db @ new
     \<and> (\<exists>f. downloads db' = map f (downloads db) \<and> (\<forall>r \<in> set (downloads db). settled_by V new r (f r))))"

text \<open>The verdicts name the torrents of their rows.\<close>

definition names_torrents :: "verdict set \<Rightarrow> app_db \<Rightarrow> bool" where
  "names_torrents V db \<longleftrightarrow> (\<forall>v \<in> V. \<forall>r \<in> set (downloads db). d_id r = ve_id v \<longrightarrow> d_torrent_hash r = ve_hash v)"

lemma listed_as_append [simp]: "listed_as h (xs @ ys) = listed_as h xs @ listed_as h ys" "listed_as h [] = []"
  by (simp_all add: listed_as_def)

lemma keeps_refl [simp]: "keeps r r"
  by (simp add: keeps_def)

lemma keeps_trans: "keeps r s \<Longrightarrow> keeps s t \<Longrightarrow> keeps r t"
  by (simp add: keeps_def)

lemma completes_settles:
  assumes inv: "repo_inv (a_store db)" and names: "names_torrents {v} db"
    and run: "completes (ve_id v) (ve_observed v) (ve_final v) (ve_hash v) (ve_why v) (ve_listed v) db db'"
  shows "settles {v} db db'"
proof (cases "downloads db' = downloads db \<and> a_blocklist db' = a_blocklist db")
  case True
  with run show ?thesis
    by (auto simp: settles_def completes_def settled_by_def intro!: exI[of _ "[]"] exI[of _ id])
next
  case False
  with run obtain new where moved: "moves (ve_hits v) (state_str Failed) (ve_final v) db db'"
    and hit: "list_ex (ve_hits v) (downloads db)" and new: "a_blocklist db' = a_blocklist db @ new"
      "list_all (\<lambda>b. b_torrent_hash b = Some (ve_hash v)) new" "map b_reason new = (if ve_listed v then [ve_why v] else [])"
    and inv': "repo_inv (a_store db')"
    by (auto simp: completes_def ve_hits_def)
  from moved obtain f where f: "downloads db' = map f (downloads db)" "\<And>r. keeps r (f r)" "\<And>r. \<not> ve_hits v r \<Longrightarrow> f r = r"
    "\<And>r. ve_hits v r \<Longrightarrow> d_status (f r) = state_str Failed \<and> d_failed_reason (f r) = Some (ve_final v)"
    by (auto simp: moves_def)
  from hit obtain q where q: "q \<in> set (downloads db)" "ve_hits v q" by (auto simp: list_ex_iff)
  then have hq: "d_torrent_hash q = ve_hash v" using names by (auto simp: names_torrents_def ve_hits_def hit_row_def)
  have here: "listed_as (ve_hash v) new = (if ve_listed v then [ve_why v] else [])"
    using new(2,3) by (simp add: listed_as_def list_all_iff)
  have "settled_by {v} new r (f r)" if r: "r \<in> set (downloads db)" for r
  proof (cases "r = q")
    case True
    with q f(2,4) hq here show ?thesis by (simp add: settled_by_def)
  next
    case False
    then have h: "d_torrent_hash r \<noteq> ve_hash v" using row_hash_inj[OF inv r q(1)] hq by auto
    have "\<not> ve_hits v r"
    proof
      assume "ve_hits v r"
      with q(2) have "d_id r = d_id q" by (simp add: ve_hits_def hit_row_def)
      from row_id_inj[OF inv r q(1) this] False show False by simp
    qed
    moreover have "listed_as (d_torrent_hash r) new = []"
      using new(2) h by (auto simp: listed_as_def list_all_iff filter_empty_conv)
    ultimately show ?thesis using f(3) by (simp add: settled_by_def)
  qed
  with f(1) new(1) inv' show ?thesis by (auto simp: settles_def)
qed

lemma settles_refl: "repo_inv (a_store db) \<Longrightarrow> downloads db' = downloads db \<Longrightarrow> a_store db' = a_store db
    \<Longrightarrow> a_blocklist db' = a_blocklist db \<Longrightarrow> settles {} db db'"
  by (auto simp: settles_def settled_by_def intro!: exI[of _ "[]"] exI[of _ id])

lemma settles_trans:
  assumes "settles V db db1" and "settles W db1 db2"
  shows "settles (V \<union> W) db db2"
proof -
  from assms(1) obtain new1 f where 1: "a_blocklist db1 = a_blocklist db @ new1" "downloads db1 = map f (downloads db)"
    "\<And>r. r \<in> set (downloads db) \<Longrightarrow> settled_by V new1 r (f r)" by (auto simp: settles_def)
  from assms(2) obtain new2 g where 2: "a_blocklist db2 = a_blocklist db1 @ new2" "downloads db2 = map g (downloads db1)"
    "\<And>r. r \<in> set (downloads db1) \<Longrightarrow> settled_by W new2 r (g r)" and inv2: "repo_inv (a_store db2)" by (auto simp: settles_def)
  have "settled_by (V \<union> W) (new1 @ new2) r (g (f r))" if r: "r \<in> set (downloads db)" for r
  proof -
    have s1: "settled_by V new1 r (f r)" using 1(3)[OF r] .
    have s2: "settled_by W new2 (f r) (g (f r))" using 2(3) 1(2) r by simp
    have h: "d_torrent_hash (f r) = d_torrent_hash r" using s1 by (simp add: settled_by_def keeps_def)
    have k: "keeps r (g (f r))" using s1 s2 unfolding settled_by_def by (blast intro: keeps_trans)
    have failed: "state_str Failed \<noteq> state_str FailedPending" by simp
    show ?thesis
    proof (cases "f r = r \<and> listed_as (d_torrent_hash r) new1 = []")
      case True
      then have fr: "f r = r" by blast
      from s2 have "settled_by W new2 r (g r)" unfolding fr .
      with True k show ?thesis unfolding settled_by_def fr by auto
    next
      case False
      with s1 obtain v where v: "v \<in> V" "ve_hits v r" "d_status (f r) = state_str Failed"
        "d_failed_reason (f r) = Some (ve_final v)"
        "listed_as (d_torrent_hash r) new1 = (if ve_listed v then [ve_why v] else [])" by (auto simp: settled_by_def)
      then have "\<not> ve_hits w (f r)" for w using failed by (simp add: ve_hits_def hit_row_def)
      with s2 h have "g (f r) = f r" "listed_as (d_torrent_hash r) new2 = []" by (auto simp: settled_by_def)
      with v k show ?thesis by (auto simp: settled_by_def)
    qed
  qed
  with 1(1,2) 2(1,2) inv2 show ?thesis
    by (auto simp: settles_def intro!: exI[of _ "g \<circ> f"])
qed

lemma names_torrents_settles: "names_torrents V db \<Longrightarrow> settles W db db' \<Longrightarrow> names_torrents V db'"
  by (fastforce simp: names_torrents_def settles_def settled_by_def keeps_def)

definition verdict_of :: "download_record list \<Rightarrow> failure_completion \<Rightarrow> verdict" where
  "verdict_of rows c = \<lparr>ve_id = fc_download_id c, ve_observed = fc_observed_failed_reason c,
     ve_final = completion_reason rows c, ve_hash = df_torrent_hash (fc_event c), ve_why = fc_blocklist_reason c,
     ve_listed = fc_blocklist c\<rparr>"

lemma handle_each_settles:
  assumes "repo_inv (a_store db)" and "names_torrents (verdict_of rows ` set cs) db"
    and "handle_each now claimed rows cs db = Inr (x, db')"
  shows "settles (verdict_of rows ` set cs) db db'"
  using assms
proof (induction cs arbitrary: db x)
  case Nil
  then show ?case by (auto intro: settles_refl)
next
  case (Cons c cs)
  have rest: "names_torrents (verdict_of rows ` set cs) db" "names_torrents {verdict_of rows c} db"
    using Cons.prems(2) by (auto simp: names_torrents_def)
  show ?case
  proof (cases "claimed (fc_download_id c)")
    case True
    with Cons have "settles (verdict_of rows ` set cs) db db'" using rest(1) by simp
    then show ?thesis by (fastforce simp: settles_def settled_by_def)
  next
    case False
    with Cons.prems(3) obtain y db1 z where 1: "handle_failed now c rows db = Inr (y, db1)"
      and 2: "handle_each now claimed rows cs db1 = Inr (z, db')" by (auto simp: bind_op_Inr)
    have s1: "settles {verdict_of rows c} db db1"
      using completes_settles[OF Cons.prems(1) rest(2)] handle_failed_effect[OF Cons.prems(1) 1] by (simp add: verdict_of_def)
    then have "repo_inv (a_store db1)" by (simp add: settles_def)
    from Cons.IH[OF this names_torrents_settles[OF rest(1) s1] 2] settles_trans[OF s1]
    show ?thesis by simp
  qed
qed

lemma complete_reconcile_settles:
  assumes "repo_inv (a_store db)" and "names_torrents (verdict_of rows ` set cs) db"
    and "complete_reconcile_failures now claimed rows cs db = Inr (x, db')"
  shows "settles (verdict_of rows ` set cs) db db'"
proof -
  from assms(3) obtain rs db1 where 1: "handle_each now claimed rows cs db = Inr (rs, db1)"
    and 2: "rearm_each now rs db1 = Inr (x, db')" by (auto simp: complete_reconcile_failures_def bind_op_Inr)
  from handle_each_settles[OF assms(1,2) 1] app_frameD[OF frame_rearm_each 2] show ?thesis by (simp add: settles_def)
qed

end
