(* ===== verification/FailureRace.thy ===== *)
theory FailureRace
  imports FailureEffects
begin

text \<open>
  The ownership protocol under interleaving: the invariant of a database and of every call in flight, and
  that a failed download is completed under the flags of the marker it carries.
\<close>

section \<open>Reasons that are no markers\<close>

definition plain :: "string \<Rightarrow> bool" where
  "plain s \<longleftrightarrow> parse_operator_fail_marker (Some s) = None"

text \<open>A first letter no marker has.\<close>

definition unmarked :: "string \<Rightarrow> bool" where
  "unmarked s \<longleftrightarrow> s \<noteq> [] \<and> hd s \<noteq> CHR ''o'' \<and> hd s \<noteq> CHR ''r''"

lemma unmarked_append [simp]: "unmarked s \<Longrightarrow> unmarked (s @ t)"
  by (simp add: unmarked_def)

lemma after_choice_none: "\<not> prefix p s \<Longrightarrow> \<not> prefix q s \<Longrightarrow> after_choice [(p, x), (q, y)] s = None"
  by (simp add: after_prefix_def)

lemma no_prefix_plain: "\<not> prefix ''operator mark-failed'' s \<Longrightarrow> \<not> prefix ''reconcile failure'' s \<Longrightarrow> plain s"
  unfolding plain_def parse_operator_fail_marker_def bind.bind_lunit
  by (subst after_choice_none) (assumption | rule bind.bind_lzero)+

lemma other_head: "hd (c # s) \<noteq> d \<Longrightarrow> \<not> prefix (d # p) (c # s)"
  by (simp only: list.sel Cons_prefix_Cons) simp

lemma unmarked_plain: "unmarked s \<Longrightarrow> plain s"
  by (cases s) (auto simp only: unmarked_def intro!: no_prefix_plain other_head)

lemma final_reasons_plain:
  "plain OPERATOR_FAIL_FINAL_REASON" "plain RECONCILE_FAIL_FINAL_REASON" "plain ''recovered stranded failed_pending row''"
  by code_simp+

lemma marker_parse:
  assumes "0 \<le> n"
  shows "parse_operator_fail_marker (Some (operator_fail_marker fl n)) = Some \<lparr>pm_operator = True, pm_flags = fl, pm_nonce = n\<rparr>"
    "parse_operator_fail_marker (Some (operator_fail_marker_removal_done b n))
      = Some \<lparr>pm_operator = True, pm_flags = \<lparr>ff_blocklist = b, ff_remove_torrent = False\<rparr>, pm_nonce = n\<rparr>"
    "parse_operator_fail_marker (Some (reconcile_removal_done_marker b))
      = Some \<lparr>pm_operator = False, pm_flags = \<lparr>ff_blocklist = b, ff_remove_torrent = False\<rparr>, pm_nonce = 0\<rparr>"
  unfolding parse_operator_fail_marker_def operator_fail_marker_def operator_fail_marker_removal_done_def
    reconcile_removal_done_marker_def bind.bind_lunit read_head prod.case after_prefix_append read_flags
    RECONCILE_DONE_NONCE_def marker_nonce_render[OF assms] marker_nonce_render[OF order_refl]
  by simp_all

lemma plain_truthy: "parse_operator_fail_marker s = None \<Longrightarrow> plain d \<Longrightarrow> plain (case truthy s of None \<Rightarrow> d | Some r \<Rightarrow> r)"
  by (auto simp: plain_def truthy_def split: option.splits)

lemma parse_nonce: "parse_operator_fail_marker s = Some m \<Longrightarrow> 0 \<le> pm_nonce m"
  by (auto simp: parse_operator_fail_marker_def marker_nonce_def Let_def Option.bind_eq_Some_conv split: if_splits prod.splits)

lemma reconcile_row_reason:
  "reconcile_row snap now grace row = Some t \<Longrightarrow> tr_reason t = Some r \<Longrightarrow> unmarked r"
  by (auto simp: reconcile_row_def reconcile_absent_def map_raw_state_def unmarked_def Let_def split: option.splits if_splits prod.splits)

section \<open>The invariant\<close>

text \<open>A marker stands only at \<open>failed_pending\<close>, and the reconciler's own form owes no removal.\<close>

definition marker_form :: "parsed_marker \<Rightarrow> bool" where
  "marker_form m \<longleftrightarrow> pm_operator m \<or> \<not> ff_remove_torrent (pm_flags m)"

definition row_ok :: "download_row \<Rightarrow> bool" where
  "row_ok r \<longleftrightarrow> (\<forall>m. marker_of r = Some m \<longrightarrow> d_status r = state_str FailedPending \<and> marker_form m)
     \<and> parse_operator_fail_marker (d_payload_rejection r) = None \<and> py_lower (d_torrent_hash r) = d_torrent_hash r"

definition db_ok :: "app_db \<Rightarrow> bool" where
  "db_ok db \<longleftrightarrow> repo_inv (a_store db) \<and> (\<forall>r \<in> set (downloads db). row_ok r)"

definition known :: "app_db \<Rightarrow> int \<Rightarrow> string \<Rightarrow> bool" where
  "known db did torrent_hash \<longleftrightarrow> (\<exists>r \<in> set (downloads db). d_id r = did \<and> d_torrent_hash r = torrent_hash)"

definition job_ok :: "app_db \<Rightarrow> mark_job \<Rightarrow> int \<Rightarrow> bool" where
  "job_ok db job token \<longleftrightarrow> known db (mj_id job) (mj_torrent_hash job) \<and> plain (mj_final_reason job) \<and> 0 \<le> token"

definition marker_ok :: "mark_job \<Rightarrow> string \<Rightarrow> bool" where
  "marker_ok job marker \<longleftrightarrow> (\<exists>m. parse_operator_fail_marker (Some marker) = Some m \<and> pm_operator m
     \<and> ff_blocklist (pm_flags m) = ma_blocklist (mj_args job))"

definition mark_ok :: "app_db \<Rightarrow> mark_pc \<Rightarrow> bool" where
  "mark_ok db pc = (case pc of
       MarkRegister job \<Rightarrow> job_ok db job 0
     | MarkStamp job token _ _ \<Rightarrow> job_ok db job token
     | MarkRemove job token m \<Rightarrow> job_ok db job token \<and> marker_ok job m
     | MarkRemoving job token m \<Rightarrow> job_ok db job token \<and> marker_ok job m
     | MarkOutcome job token m \<Rightarrow> job_ok db job token \<and> marker_ok job m
     | MarkComplete job token m _ \<Rightarrow> job_ok db job token \<and> marker_ok job m
     | _ \<Rightarrow> True)"

text \<open>A completion made from a marker has the marker's flags and vocabulary.\<close>

definition comp_ok :: "app_db \<Rightarrow> failure_completion \<Rightarrow> bool" where
  "comp_ok db c \<longleftrightarrow> known db (fc_download_id c) (df_torrent_hash (fc_event c)) \<and> plain (df_reason (fc_event c))
     \<and> (\<forall>m. parse_operator_fail_marker (fc_observed_failed_reason c) = Some m \<longrightarrow> marker_form m
          \<and> fc_blocklist c = ff_blocklist (pm_flags m)
          \<and> fc_blocklist_reason c = (if pm_operator m then ''user_reported'' else ''failed''))
     \<and> (parse_operator_fail_marker (fc_observed_failed_reason c) = None \<longrightarrow> fc_blocklist_reason c = ''failed'')"

definition snap_ok :: "app_db \<Rightarrow> download_record list \<Rightarrow> bool" where
  "snap_ok db rows \<longleftrightarrow> distinct (map d_id (map fst rows))
     \<and> (\<forall>r \<in> set (map fst rows). row_ok r \<and> known db (d_id r) (d_torrent_hash r))"

definition applied_ok :: "download_record list \<Rightarrow> state_transition \<Rightarrow> bool" where
  "applied_ok rows t \<longleftrightarrow> (\<exists>r \<in> set (map fst rows). tr_download_id t = d_id r \<and> tr_torrent_hash t = d_torrent_hash r
     \<and> marker_of r = None) \<and> (\<forall>s. tr_reason t = Some s \<longrightarrow> unmarked s)"

definition cycle_ok :: "app_db \<Rightarrow> cycle_pc \<Rightarrow> bool" where
  "cycle_ok db pc = (case pc of
       CyclePoll rows \<Rightarrow> snap_ok db rows
     | CycleEnrich rows applied client \<Rightarrow> snap_ok db rows \<and> (\<forall>t \<in> set applied. applied_ok rows t)
     | CyclePersist rows cs kept \<Rightarrow> snap_ok db rows \<and> (\<forall>c \<in> set cs \<union> set kept. comp_ok db c)
         \<and> (\<forall>c \<in> set cs. fc_blocklist_reason c = ''failed'')
     | CyclePhaseB rows cs kept _ \<Rightarrow> snap_ok db rows \<and> (\<forall>c \<in> set cs \<union> set kept. comp_ok db c)
     | CycleProof rows c cs kept _ \<Rightarrow> snap_ok db rows \<and> (\<forall>c \<in> insert c (set cs \<union> set kept). comp_ok db c)
     | CycleRemoving rows c cs kept _ \<Rightarrow> snap_ok db rows \<and> (\<forall>c \<in> insert c (set cs \<union> set kept). comp_ok db c)
     | CycleOutcome rows c cs kept _ \<Rightarrow> snap_ok db rows \<and> (\<forall>c \<in> insert c (set cs \<union> set kept). comp_ok db c)
     | CycleComplete rows cs _ _ \<Rightarrow> snap_ok db rows \<and> (\<forall>c \<in> set cs. comp_ok db c)
     | _ \<Rightarrow> True)"

definition failure_inv :: "failure_state \<Rightarrow> bool" where
  "failure_inv s \<longleftrightarrow> (case s of (ms, cs, w) \<Rightarrow> db_ok (fw_db w) \<and> 0 \<le> cr_next_token (fw_registry w)
     \<and> (\<forall>pc \<in> set ms. mark_ok (fw_db w) pc) \<and> (\<forall>pc \<in> set cs. cycle_ok (fw_db w) pc))"

text \<open>What the calls know stays true while rows keep their torrents.\<close>

definition same_torrents :: "app_db \<Rightarrow> app_db \<Rightarrow> bool" where
  "same_torrents db db' \<longleftrightarrow> (\<forall>i h. known db i h \<longrightarrow> known db' i h)"

lemma same_torrents_refl [simp]: "same_torrents db db"
  by (simp add: same_torrents_def)

lemma job_ok_mono: "same_torrents db db' \<Longrightarrow> job_ok db job token \<Longrightarrow> job_ok db' job token"
  by (simp add: job_ok_def same_torrents_def)

lemma comp_ok_mono: "same_torrents db db' \<Longrightarrow> comp_ok db c \<Longrightarrow> comp_ok db' c"
  by (simp add: comp_ok_def same_torrents_def)

lemma snap_ok_mono: "same_torrents db db' \<Longrightarrow> snap_ok db rows \<Longrightarrow> snap_ok db' rows"
  by (simp add: snap_ok_def same_torrents_def)

lemma mark_ok_mono: "same_torrents db db' \<Longrightarrow> mark_ok db pc \<Longrightarrow> mark_ok db' pc"
  by (cases pc) (auto simp: mark_ok_def intro: job_ok_mono)

lemma cycle_ok_mono: "same_torrents db db' \<Longrightarrow> cycle_ok db pc \<Longrightarrow> cycle_ok db' pc"
  by (cases pc) (auto simp: cycle_ok_def intro: snap_ok_mono comp_ok_mono)

text \<open>Database changes that keep the invariant.\<close>

lemma row_ok_keeps:
  assumes "row_ok r" and "keeps r r'"
    and "\<And>m. marker_of r' = Some m \<Longrightarrow> d_status r' = state_str FailedPending \<and> marker_form m"
  shows "row_ok r'"
  using assms by (simp add: row_ok_def keeps_def)

lemma same_torrents_map:
  assumes "downloads db' = map f (downloads db)" and "\<And>r. r \<in> set (downloads db) \<Longrightarrow> keeps r (f r)"
  shows "same_torrents db db'"
  using assms by (fastforce simp: same_torrents_def known_def keeps_def)

lemma db_ok_moves:
  assumes ok: "db_ok db" and inv: "repo_inv (a_store db')" and moved: "moves hit st reason db db'"
    and form: "\<And>m. parse_operator_fail_marker (Some reason) = Some m \<Longrightarrow> st = state_str FailedPending \<and> marker_form m"
  shows "db_ok db'" "same_torrents db db'"
proof -
  from moved obtain f where f: "downloads db' = map f (downloads db)" "\<And>r. keeps r (f r)" "\<And>r. \<not> hit r \<Longrightarrow> f r = r"
    "\<And>r. hit r \<Longrightarrow> d_status (f r) = st \<and> d_failed_reason (f r) = Some reason" by (auto simp: moves_def)
  have "row_ok (f r)" if r: "r \<in> set (downloads db)" for r
  proof (cases "hit r")
    case True
    have "row_ok r" using ok r by (simp add: db_ok_def)
    from row_ok_keeps[OF this f(2)] f(4)[OF True] form show ?thesis by (simp add: marker_of_def)
  next
    case False
    with ok r f(3) show ?thesis by (simp add: db_ok_def)
  qed
  with f(1) inv show "db_ok db'" by (simp add: db_ok_def)
  show "same_torrents db db'" using same_torrents_map[OF f(1)] f(2) by blast
qed

lemma db_ok_settles:
  assumes ok: "db_ok db" and run: "settles V db db'" and final: "\<And>v. v \<in> V \<Longrightarrow> plain (ve_final v)"
  shows "db_ok db'" "same_torrents db db'"
proof -
  from run obtain new f where f: "downloads db' = map f (downloads db)" "\<And>r. r \<in> set (downloads db) \<Longrightarrow> settled_by V new r (f r)"
    and inv: "repo_inv (a_store db')" by (auto simp: settles_def)
  have "row_ok (f r)" if r: "r \<in> set (downloads db)" for r
  proof -
    have ok: "row_ok r" using ok r by (simp add: db_ok_def)
    from f(2)[OF r] consider "f r = r" | v where "v \<in> V" "keeps r (f r)" "d_failed_reason (f r) = Some (ve_final v)"
      by (auto simp: settled_by_def)
    then show ?thesis
    proof cases
      case 2
      with final[of v] have "marker_of (f r) = None" by (simp add: marker_of_def plain_def)
      then show ?thesis by (intro row_ok_keeps[OF ok 2(2)]) simp
    qed (simp add: ok)
  qed
  with f(1) inv show "db_ok db'" by (simp add: db_ok_def)
  show "same_torrents db db'" using same_torrents_map[OF f(1)] f(2) unfolding settled_by_def by blast
qed

lemma other_writer_ok:
  assumes "db_ok db" and "other_writer db db'"
  shows "db_ok db'" "same_torrents db db'"
proof -
  have "row_ok r'" if "r' \<in> set (downloads db')" for r'
  proof -
    have "d_status r' = state_str FailedPending \<and> marker_form m" if m: "marker_of r' = Some m" for m
    proof -
      from assms(2) \<open>r' \<in> _\<close> m obtain r where "r \<in> set (downloads db)" "d_status r = d_status r'"
        "d_failed_reason r = d_failed_reason r'" by (auto simp: other_writer_def)
      with assms(1) m show ?thesis by (auto simp: db_ok_def row_ok_def marker_of_def)
    qed
    then show ?thesis using assms(2) that by (simp add: row_ok_def other_writer_def)
  qed
  then show "db_ok db'" using assms(2) by (simp add: db_ok_def other_writer_def)
  show "same_torrents db db'" using assms(2) by (fastforce simp: same_torrents_def known_def other_writer_def)
qed

section \<open>The three ways a step changes the store\<close>

definition verdict_ok :: "verdict \<Rightarrow> bool" where
  "verdict_ok v \<longleftrightarrow> plain (ve_final v) \<and> (\<forall>m. parse_operator_fail_marker (ve_observed v) = Some m \<longrightarrow>
     ve_listed v = ff_blocklist (pm_flags m) \<and> ve_why v = (if pm_operator m then ''user_reported'' else ''failed''))"

text \<open>
  The poll moves rows that are not failing and keeps their reasons; a stamp puts a row at
  \<open>failed_pending\<close>; a completion settles verdicts that follow the markers.
\<close>

definition polls :: "app_db \<Rightarrow> app_db \<Rightarrow> bool" where
  "polls db db' \<longleftrightarrow> (\<exists>f. downloads db' = map f (downloads db) \<and> (\<forall>r \<in> set (downloads db). keeps r (f r)
     \<and> d_failed_reason (f r) = d_failed_reason r
     \<and> (d_status r = state_str FailedPending \<longrightarrow> d_status (f r) = state_str FailedPending)))"

definition stamps :: "app_db \<Rightarrow> app_db \<Rightarrow> bool" where
  "stamps db db' \<longleftrightarrow> (\<exists>hit reason. moves hit (state_str FailedPending) reason db db'
     \<and> (\<forall>m. parse_operator_fail_marker (Some reason) = Some m \<longrightarrow> marker_form m))"

definition store_change :: "app_db \<Rightarrow> app_db \<Rightarrow> bool" where
  "store_change db db' \<longleftrightarrow> repo_inv (a_store db')
     \<and> (polls db db' \<or> stamps db db' \<or> (\<exists>V. settles V db db' \<and> (\<forall>v \<in> V. verdict_ok v)))"

lemma store_change_refl: "db_ok db \<Longrightarrow> store_change db db"
  by (auto simp: store_change_def polls_def db_ok_def intro!: exI[of _ id])

lemma store_change_stamp:
  assumes "db_ok db" and cas: "cas_download now did (state_str FailedPending) allowed (reason_write reason req) db = Inr (b, db')"
    and "\<And>m. parse_operator_fail_marker (Some reason) = Some m \<Longrightarrow> marker_form m"
  shows "store_change db db'"
proof -
  have inv: "repo_inv (a_store db)" using assms(1) by (simp add: db_ok_def)
  show ?thesis using cas_effect(1,5)[OF inv cas] assms(3) unfolding store_change_def stamps_def by blast
qed

lemma store_change_settles:
  "settles V db db' \<Longrightarrow> (\<And>v. v \<in> V \<Longrightarrow> verdict_ok v) \<Longrightarrow> store_change db db'"
  unfolding store_change_def by (metis settles_def)

lemma store_change_ok:
  assumes ok: "db_ok db" and ch: "store_change db db'"
  shows "db_ok db' \<and> same_torrents db db'"
proof -
  have inv: "repo_inv (a_store db')" using ch by (simp add: store_change_def)
  from ch consider "polls db db'" | "stamps db db'" | V where "settles V db db'" "\<And>v. v \<in> V \<Longrightarrow> verdict_ok v"
    by (auto simp: store_change_def)
  then show ?thesis
  proof cases
    case 1
    then obtain f where f: "downloads db' = map f (downloads db)" "\<And>r. r \<in> set (downloads db) \<Longrightarrow> keeps r (f r)
        \<and> d_failed_reason (f r) = d_failed_reason r
        \<and> (d_status r = state_str FailedPending \<longrightarrow> d_status (f r) = state_str FailedPending)" by (auto simp: polls_def)
    have "row_ok (f r)" if "r \<in> set (downloads db)" for r
    proof -
      have ok: "row_ok r" using ok that by (simp add: db_ok_def)
      from ok f(2)[OF that] show ?thesis by (intro row_ok_keeps[OF ok]) (auto simp: row_ok_def marker_of_def)
    qed
    with f(1) inv have "db_ok db'" by (simp add: db_ok_def)
    with same_torrents_map[OF f(1)] f(2) show ?thesis by blast
  next
    case 2
    then show ?thesis using db_ok_moves[OF ok inv] unfolding stamps_def by blast
  next
    case 3
    then show ?thesis using db_ok_settles[OF ok 3(1)] unfolding verdict_ok_def by blast
  qed
qed

text \<open>A row that leaves \<open>failed_pending\<close> with a marker is failed and listed as the marker says.\<close>

lemma store_change_honours:
  assumes ok: "db_ok db" and ch: "store_change db db'"
    and r: "r \<in> set (downloads db)" "d_status r = state_str FailedPending" "marker_of r = Some m"
    and r': "r' \<in> set (downloads db')" "d_id r' = d_id r" "d_status r' \<noteq> state_str FailedPending"
  shows "d_status r' = state_str Failed \<and> marker_of r' = None
    \<and> (\<exists>new. a_blocklist db' = a_blocklist db @ new \<and> listed_as (d_torrent_hash r) new
         = (if ff_blocklist (pm_flags m) then [if pm_operator m then ''user_reported'' else ''failed''] else []))"
proof -
  have inv: "repo_inv (a_store db)" using ok by (simp add: db_ok_def)
  have unique: "f r = r'" if f: "downloads db' = map f (downloads db)" "\<And>q. q \<in> set (downloads db) \<Longrightarrow> keeps q (f q)" for f
  proof -
    from r'(1) f(1) obtain q where q: "q \<in> set (downloads db)" "r' = f q" by auto
    with f(2)[OF q(1)] r'(2) have "d_id q = d_id r" by (simp add: keeps_def)
    from row_id_inj[OF inv q(1) r(1) this] q(2) show ?thesis by simp
  qed
  from ch consider "polls db db'" | "stamps db db'" | V where "settles V db db'" "\<And>v. v \<in> V \<Longrightarrow> verdict_ok v"
    by (auto simp: store_change_def)
  then show ?thesis
  proof cases
    case 1
    then obtain f where "downloads db' = map f (downloads db)" "\<And>q. q \<in> set (downloads db) \<Longrightarrow> keeps q (f q)"
      "d_status (f r) = state_str FailedPending" using r by (auto simp: polls_def)
    with unique[of f] r'(3) show ?thesis by simp
  next
    case 2
    then obtain hit reason where "moves hit (state_str FailedPending) reason db db'" by (auto simp: stamps_def)
    then obtain f where "downloads db' = map f (downloads db)" "\<And>q. keeps q (f q)"
      and fr: "\<not> hit r \<Longrightarrow> f r = r" "hit r \<Longrightarrow> d_status (f r) = state_str FailedPending"
      unfolding moves_def by blast
    moreover have "d_status (f r) = state_str FailedPending" using r(2) fr by (cases "hit r") simp_all
    ultimately have "downloads db' = map f (downloads db)" "\<And>q. keeps q (f q)" "d_status (f r) = state_str FailedPending"
      by blast+
    with unique[of f] r'(3) show ?thesis by simp
  next
    case 3
    then obtain new f where f: "downloads db' = map f (downloads db)" "a_blocklist db' = a_blocklist db @ new"
      "\<And>q. q \<in> set (downloads db) \<Longrightarrow> settled_by V new q (f q)" by (auto simp: settles_def)
    have "f r = r'" using unique[OF f(1)] f(3) by (simp add: settled_by_def)
    with f(3)[OF r(1)] r(2) r'(3) obtain v where v: "v \<in> V" "ve_hits v r" "d_status r' = state_str Failed"
      "d_failed_reason r' = Some (ve_final v)" "listed_as (d_torrent_hash r) new = (if ve_listed v then [ve_why v] else [])"
      by (auto simp: settled_by_def)
    have "parse_operator_fail_marker (ve_observed v) = Some m" using v(2) r(3) by (simp add: ve_hits_def hit_row_def marker_of_def)
    with 3(2)[OF v(1)] v(3-5) f(2) show ?thesis by (auto simp: verdict_ok_def plain_def marker_of_def)
  qed
qed

section \<open>The steps keep the invariant\<close>

lemma next_token_registry [simp]:
  "cr_next_token (release_operator_claim did t R) = cr_next_token R"
  "cr_next_token (mark_removal_in_flight did t R) = cr_next_token R"
  "cr_next_token (register_removal_in_flight did R) = cr_next_token R"
  "cr_next_token (release_removal_in_flight did R) = cr_next_token R"
  by (auto simp: release_operator_claim_def mark_removal_in_flight_def register_removal_in_flight_def
      release_removal_in_flight_def split: option.splits)

lemma next_token_settle [simp]: "cr_next_token (fw_registry (settle ids w)) = cr_next_token (fw_registry w)"
proof -
  have "cr_next_token (fold release_removal_in_flight ids R) = cr_next_token R" for R
    by (induction ids arbitrary: R) simp_all
  then show ?thesis by (simp add: settle_def)
qed

lemma let_go_simps [simp]:
  "fw_db (let_go job t w) = fw_db w" "cr_next_token (fw_registry (let_go job t w)) = cr_next_token (fw_registry w)"
  "fw_db (settle ids w) = fw_db w"
  by (simp_all add: let_go_def settle_def)

lemma register_next_token:
  "register_operator_claim did flags sps R = Inr (t, R') \<Longrightarrow> t = cr_next_token R \<and> cr_next_token R' = cr_next_token R + 1"
  by (auto simp: register_operator_claim_def split: if_splits option.splits)

lemma operator_marker_ok:
  assumes "0 \<le> token"
  shows "marker_ok job (operator_fail_marker (mj_flags job) token)"
    "marker_ok job (operator_fail_marker_removal_done (ma_blocklist (mj_args job)) token)"
    "parse_operator_fail_marker (Some (operator_fail_marker fl token)) = Some m \<Longrightarrow> marker_form m"
    "parse_operator_fail_marker (Some (operator_fail_marker_removal_done bl token)) = Some m \<Longrightarrow> marker_form m"
  using marker_parse[OF assms] by (auto simp: marker_ok_def mj_flags_def marker_form_def)

lemma mark_open_job:
  assumes "db_ok db" and "mark_open args (store_of db) = Inr job"
  shows "job_ok db job 0"
proof -
  from assms(2) obtain row where row: "get_row (store_of db) (ma_download_id args) = Some row"
    and job: "mj_args job = args" "mj_torrent_hash job = d_torrent_hash row"
      "mj_final_reason job = (case truthy (d_payload_rejection row) of Some r \<Rightarrow> r | None \<Rightarrow> OPERATOR_FAIL_FINAL_REASON)"
    by (auto simp: mark_open_def split: if_splits option.splits)
  from row have "row \<in> set (downloads db)" "d_id row = ma_download_id args" by (auto simp: get_row_def find_Some_iff)
  with assms(1) job show ?thesis
    using plain_truthy[OF _ final_reasons_plain(1), of "d_payload_rejection row"]
    by (auto simp: job_ok_def known_def mj_id_def db_ok_def row_ok_def option.case_eq_if split: option.splits)
qed

lemma complete_mark_change:
  assumes ok: "db_ok db" and job: "job_ok db job token" "marker_ok job marker"
    and run: "complete_mark_failed now job marker db = Inr (x, db')"
  shows "store_change db db'"
proof -
  let ?v = "\<lparr>ve_id = mj_id job, ve_observed = Some marker, ve_final = mj_final_reason job, ve_hash = mj_torrent_hash job,
     ve_why = ''user_reported'', ve_listed = ma_blocklist (mj_args job)\<rparr>"
  have inv: "repo_inv (a_store db)" using ok by (simp add: db_ok_def)
  have "names_torrents {?v} db"
    using job(1) row_id_inj[OF inv] by (fastforce simp: names_torrents_def job_ok_def known_def)
  then have "settles {?v} db db'"
    using completes_settles[OF inv, of ?v db'] complete_mark_failed_effect[OF inv run] by simp
  moreover have "verdict_ok ?v" using job by (auto simp: verdict_ok_def job_ok_def marker_ok_def)
  ultimately show ?thesis by (auto intro: store_change_settles)
qed

text \<open>A restamp requires a reason and writes one.\<close>

lemma restamp_change:
  assumes "db_ok db" and "restamp now did observed reason db = Inr (b, db')"
    and "\<And>m. parse_operator_fail_marker (Some reason) = Some m \<Longrightarrow> marker_form m"
  shows "store_change db db'"
  using store_change_stamp[OF assms(1) _ assms(3)] assms(2) unfolding restamp_def reason_write_eq(2) by blast

lemma mark_stamp_change:
  assumes ok: "db_ok db" and token: "0 \<le> token" and run: "mark_stamp now job token adopt observed R db = (out, db')"
  shows "out = Stamped \<Longrightarrow> store_change db db'"
proof -
  let ?m = "operator_fail_marker (mj_flags job) token"
  assume "out = Stamped"
  with run have "\<exists>allowed req b. cas_download now (mj_id job) (state_str FailedPending) allowed (reason_write ?m req) db = Inr (b, db')"
    unfolding mark_stamp_def reread_row_def Let_def unfolding reason_write_eq(2) unfolding reason_write_eq(1)
    by (fastforce split: if_splits sum.splits bool.splits prod.splits option.splits)
  then obtain allowed req b where "cas_download now (mj_id job) (state_str FailedPending) allowed (reason_write ?m req) db = Inr (b, db')"
    by blast
  from store_change_stamp[OF ok this operator_marker_ok(3)[OF token]] show ?thesis .
qed

definition mark_step_ok :: "app_db \<Rightarrow> mark_pc \<times> failure_world \<Rightarrow> bool" where
  "mark_step_ok db res \<longleftrightarrow> (case res of (pc, w) \<Rightarrow> store_change db (fw_db w) \<and> 0 \<le> cr_next_token (fw_registry w)
     \<and> (same_torrents db (fw_db w) \<longrightarrow> mark_ok (fw_db w) pc))"

lemma mark_next_ok:
  assumes ok: "db_ok (fw_db w)" and tok: "0 \<le> cr_next_token (fw_registry w)" and pc: "mark_ok (fw_db w) pc"
  shows "mark_step_ok (fw_db w) (mark_next now ok' pc w)"
proof -
  note refl = store_change_refl[OF ok]
  show ?thesis
  proof (cases pc)
    case (MarkOpen args)
    then show ?thesis using ok tok refl mark_open_job[OF ok]
      by (auto simp: mark_step_ok_def mark_ok_def split: sum.splits)
  next
    case (MarkRegister job)
    then show ?thesis using pc tok refl
      by (auto simp: mark_step_ok_def mark_ok_def job_ok_def split: sum.splits dest!: register_next_token)
  next
    case (MarkStamp job token adopt observed)
    then have job: "job_ok (fw_db w) job token" using pc by (simp add: mark_ok_def)
    then have t: "0 \<le> token" by (simp add: job_ok_def)
    obtain out db' where st: "mark_stamp now job token adopt observed (fw_registry w) (fw_db w) = (out, db')" by fastforce
    show ?thesis
      using MarkStamp tok refl job mark_stamp_change[OF ok t st] operator_marker_ok(1)[OF t]
      by (cases out) (auto simp: mark_step_ok_def mark_ok_def st intro: job_ok_mono)
  next
    case (MarkRemove job token m)
    then show ?thesis using pc tok refl by (auto simp: mark_step_ok_def mark_ok_def)
  next
    case (MarkRemoving job token m)
    then show ?thesis using pc tok refl by (auto simp: mark_step_ok_def mark_ok_def)
  next
    case (MarkOutcome job token m)
    let ?m = "operator_fail_marker_removal_done (ma_blocklist (mj_args job)) token"
    have job: "job_ok (fw_db w) job token" "marker_ok job m" "0 \<le> token" using pc MarkOutcome by (auto simp: mark_ok_def job_ok_def)
    have "store_change (fw_db w) db'" if "restamp now (mj_id job) (Some m) ?m (fw_db w) = Inr (b, db')" for b db'
      using restamp_change[OF ok that operator_marker_ok(4)[OF job(3)]] .
    then show ?thesis using MarkOutcome job tok refl operator_marker_ok(2)[OF job(3)]
      by (auto simp: mark_step_ok_def mark_ok_def Let_def intro: job_ok_mono split: sum.splits)
  next
    case (MarkComplete job token m k)
    then have job: "job_ok (fw_db w) job token" "marker_ok job m" using pc by (auto simp: mark_ok_def)
    then show ?thesis using MarkComplete tok refl complete_mark_change[OF ok job]
      by (auto simp: mark_step_ok_def mark_ok_def retry_or_raise_def split: sum.splits if_splits)
  qed (use tok refl in \<open>simp_all add: mark_step_ok_def mark_ok_def\<close>)
qed

section \<open>The cycle\<close>

lemma list_active_snap:
  assumes "db_ok db"
  shows "snap_ok db (list_active (store_of db))"
proof -
  have inv: "repo_inv (store_of db)" using assms by (simp add: db_ok_def)
  have "filter (\<lambda>_. True) (map fst (list_active (store_of db))) = map fst (list_active (store_of db))" by simp
  with polled_rows[OF inv, where p = "\<lambda>_. True"] have "distinct (map d_id (map fst (list_active (store_of db))))"
    "\<And>r. r \<in> set (map fst (list_active (store_of db))) \<Longrightarrow> r \<in> set (downloads db)" by auto
  with assms show ?thesis by (auto simp: snap_ok_def db_ok_def known_def)
qed

lemma residual_ok:
  assumes snap: "snap_ok db rows" and r: "r \<in> set (map fst rows)"
  shows "comp_ok db (residual_completion now r)"
proof -
  from snap r have ok: "row_ok r" "known db (d_id r) (d_torrent_hash r)" by (auto simp: snap_ok_def)
  show ?thesis
  proof (cases "parse_operator_fail_marker (d_failed_reason r)")
    case None
    from plain_truthy[OF None final_reasons_plain(3)] None ok(2) show ?thesis
      by (simp add: comp_ok_def residual_completion_def residual_event_def option.case_eq_if split: option.splits)
  next
    case (Some m)
    then have "marker_form m" using ok(1) by (simp add: row_ok_def marker_of_def)
    with Some ok(2) final_reasons_plain show ?thesis
      by (simp add: comp_ok_def residual_completion_def residual_event_def)
  qed
qed

lemma detected_ok:
  assumes snap: "snap_ok db rows" and ts: "\<And>t. t \<in> set applied \<Longrightarrow> applied_ok rows t"
    and c: "c \<in> set (detected_completions now client detail_of applied (map fst rows))"
    and inj: "\<And>r s. r \<in> set (map fst rows) \<Longrightarrow> s \<in> set (map fst rows) \<Longrightarrow> d_torrent_hash r = d_torrent_hash s \<Longrightarrow> r = s"
  shows "comp_ok db c"
proof -
  from c obtain ev s where ev: "ev \<in> set (failed_download_events applied (map fst rows) (Some now))"
    and s: "dict_by (\<lambda>r. py_lower (d_torrent_hash r)) (map fst rows) (py_lower (df_torrent_hash ev)) = Some s"
    and c': "c = detected_completion client detail_of ev s"
    by (auto simp: detected_completions_def in_map_filter)
  from ev obtain t where t: "t \<in> set applied" "df_torrent_hash ev = tr_torrent_hash t"
    and reason: "df_reason ev = (case tr_reason t of None \<Rightarrow> ''download failed''
                      | Some r \<Rightarrow> if r = [] then ''download failed'' else r)" by (auto simp: failed_download_events_def)
  from ts[OF t(1)] obtain r where r: "r \<in> set (map fst rows)" "tr_torrent_hash t = d_torrent_hash r" "marker_of r = None"
    and um: "\<And>x. tr_reason t = Some x \<Longrightarrow> unmarked x" by (auto simp: applied_ok_def)
  from dict_by_SomeD[OF s] have sin: "s \<in> set (map fst rows)" "py_lower (d_torrent_hash s) = py_lower (d_torrent_hash r)"
    using t(2) r(2) by simp_all
  then have "d_torrent_hash s = d_torrent_hash r" using snap r(1) unfolding snap_ok_def row_ok_def by metis
  with inj[OF sin(1) r(1)] have sr: "s = r" by blast
  have "unmarked ''download failed''" by (simp add: unmarked_def)
  then have base: "unmarked (df_reason ev)" using um by (simp add: reason split: option.splits)
  have "plain (df_reason (fc_event c))"
    using base by (intro unmarked_plain) (simp add: c' detected_completion_def Let_def split: option.splits)
  moreover have "known db (d_id r) (d_torrent_hash r)" using snap r(1) unfolding snap_ok_def by blast
  ultimately show ?thesis
    using r(2,3) t(2) by (simp add: comp_ok_def c' sr detected_completion_def Let_def marker_of_def)
qed

lemma snap_hash_inj:
  assumes "db_ok db" and "snap_ok db rows" and "r \<in> set (map fst rows)" "s \<in> set (map fst rows)"
    and "d_torrent_hash r = d_torrent_hash s"
  shows "r = s"
proof -
  have inv: "repo_inv (a_store db)" using assms(1) by (simp add: db_ok_def)
  from assms(2-4) obtain p q where pq: "p \<in> set (downloads db)" "d_id p = d_id r" "d_torrent_hash p = d_torrent_hash r"
    "q \<in> set (downloads db)" "d_id q = d_id s" "d_torrent_hash q = d_torrent_hash s"
    unfolding snap_ok_def known_def by metis
  have "p = q" by (rule row_hash_inj[OF inv pq(1,4)]) (simp add: pq assms(5))
  with pq have "d_id r = d_id s" by simp
  with assms(2-4) distinct_map[of d_id "map fst rows"] show ?thesis unfolding snap_ok_def by (metis inj_onD)
qed

lemma completion_verdict_ok:
  assumes "snap_ok db rows" and "comp_ok db c"
  shows "verdict_ok (verdict_of rows c)"
proof -
  have "plain (completion_reason rows c)"
  proof (cases "find (\<lambda>(r, _). d_id r = fc_download_id c) rows")
    case None
    with assms(2) show ?thesis by (simp add: completion_reason_def comp_ok_def)
  next
    case (Some p)
    then have "p \<in> set rows" unfolding find_Some_iff by (metis nth_mem)
    then have "fst p \<in> set (map fst rows)" by simp
    with assms(1) have "parse_operator_fail_marker (d_payload_rejection (fst p)) = None"
      unfolding snap_ok_def row_ok_def by blast
    from plain_truthy[OF this, of "df_reason (fc_event c)"] assms(2) Some show ?thesis
      by (simp add: completion_reason_def comp_ok_def case_prod_unfold option.case_eq_if)
  qed
  with assms(2) show ?thesis by (simp add: verdict_ok_def verdict_of_def comp_ok_def)
qed

lemma complete_cycle_change:
  assumes ok: "db_ok db" and snap: "snap_ok db rows" and cs: "\<And>c. c \<in> set cs \<Longrightarrow> comp_ok db c"
    and run: "complete_reconcile_failures now claimed rows cs db = Inr (x, db')"
  shows "store_change db db'"
proof -
  have inv: "repo_inv (a_store db)" using ok by (simp add: db_ok_def)
  have "names_torrents (verdict_of rows ` set cs) db"
    using cs row_id_inj[OF inv] by (fastforce simp: names_torrents_def verdict_of_def comp_ok_def known_def)
  from complete_reconcile_settles[OF inv this run] show ?thesis
    by (rule store_change_settles) (use completion_verdict_ok[OF snap cs] in blast)
qed

lemma done_marker_ok:
  assumes c: "comp_ok db c" and d: "done_marker c = Some s"
  shows "comp_ok db (c\<lparr>fc_observed_failed_reason := Some s\<rparr>)"
    and "parse_operator_fail_marker (Some s) = Some m \<Longrightarrow> marker_form m"
proof -
  have "comp_ok db (c\<lparr>fc_observed_failed_reason := Some s\<rparr>) \<and> (\<exists>m. parse_operator_fail_marker (Some s) = Some m \<and> marker_form m)"
  proof (cases "parse_operator_fail_marker (fc_observed_failed_reason c)")
    case None
    with d have "s = reconcile_removal_done_marker (fc_blocklist c)" by (simp add: done_marker_def)
    with None c marker_parse(3)[OF order_refl] show ?thesis by (simp add: comp_ok_def marker_form_def)
  next
    case (Some m)
    with d have rm: "ff_remove_torrent (pm_flags m)"
      and s: "s = operator_fail_marker_removal_done (ff_blocklist (pm_flags m)) (pm_nonce m)"
      by (auto simp: done_marker_def split: if_splits)
    with Some c have "pm_operator m" by (simp add: comp_ok_def marker_form_def)
    with Some c s marker_parse(2)[OF parse_nonce[OF Some]] show ?thesis by (simp add: comp_ok_def marker_form_def)
  qed
  then show "comp_ok db (c\<lparr>fc_observed_failed_reason := Some s\<rparr>)"
    "parse_operator_fail_marker (Some s) = Some m \<Longrightarrow> marker_form m" by auto
qed

text \<open>The poll.\<close>

lemma phase_a_row_keeps:
  assumes inv: "repo_inv st" and run: "phase_a_row now claimed client transitions row st = Inr (ts, st')"
  shows "\<exists>f. db_downloads st' = map f (db_downloads st)
    \<and> (\<forall>r. keeps r (f r) \<and> d_failed_reason (f r) = d_failed_reason r)" and "set ts \<subseteq> set transitions"
proof -
  have quiet: "\<exists>f. db_downloads st = map f (db_downloads st)
      \<and> (\<forall>r. keeps r (f r) \<and> d_failed_reason (f r) = d_failed_reason r)" by (intro exI[of _ id]) simp
  have cas: "\<exists>f. db_downloads st2 = map f (db_downloads st) \<and> (\<forall>r. keeps r (f r) \<and> d_failed_reason (f r) = d_failed_reason r)"
    if run: "DownloadRepo.update_status_if_in now i s al (no_update\<lparr>su_progress := a, su_seed_ratio := b,
        su_first_seen_at := c, su_clear_first_seen_at := d, su_timeout_at := e, su_clear_timeout_at := g\<rparr>) st = Inr (h, st2)"
    for i s al a b c d e g h st2
  proof -
    from update_status_if_in_spec(4)[OF inv run] obtain p mt where "db_downloads st2 = map (\<lambda>r. if p r
        then row_values now s (no_update\<lparr>su_progress := a, su_seed_ratio := b, su_first_seen_at := c,
          su_clear_first_seen_at := d, su_timeout_at := e, su_clear_timeout_at := g\<rparr>) mt r else r) (db_downloads st)" by blast
    then show ?thesis
      by (intro exI conjI) (assumption, simp add: keeps_def row_values_def grab_metadata_def clear_or_set_def no_update_def)
  qed
  have progress: "\<exists>f. db_downloads st2 = map f (db_downloads st) \<and> (\<forall>r. keeps r (f r) \<and> d_failed_reason (f r) = d_failed_reason r)"
    if "refresh_progress i a b c d st = Inr (x, st2)" for i a b c d x st2
  proof -
    from that have "db_downloads st2 = map (\<lambda>r. if d_id r = i
       then r\<lparr>d_progress := keep_or (d_progress r) a, d_seed_ratio := keep_or (d_seed_ratio r) b,
              d_timeout_at := clear_or_set d (d_timeout_at r) c\<rparr> else r) (db_downloads st)"
      by (auto simp: refresh_progress_def)
    then show ?thesis by (intro exI conjI) (assumption, simp add: keeps_def)
  qed
  show "\<exists>f. db_downloads st' = map f (db_downloads st)
    \<and> (\<forall>r. keeps r (f r) \<and> d_failed_reason (f r) = d_failed_reason r)"
    using run quiet unfolding phase_a_row_def Let_def
    by (auto simp: map_sum_Inr split: if_splits option.splits dest!: cas progress)
  show "set ts \<subseteq> set transitions"
    using run unfolding phase_a_row_def Let_def
    by (auto simp: map_sum_Inr split: if_splits option.splits dest!: dict_by_SomeD)
qed

lemma phase_a_loop_keeps:
  assumes "repo_inv st" and "phase_a_loop now claimed client transitions rows st = Inr (ts, st')"
  shows "(\<exists>f. db_downloads st' = map f (db_downloads st)
    \<and> (\<forall>r. keeps r (f r) \<and> d_failed_reason (f r) = d_failed_reason r)) \<and> set ts \<subseteq> set transitions"
  using assms
proof (induction rows arbitrary: st ts)
  case Nil
  then show ?case by (auto intro!: exI[of _ id])
next
  case (Cons row rows)
  from Cons.prems(2) obtain ts1 st1 ts2 where 1: "phase_a_row now claimed client transitions row st = Inr (ts1, st1)"
    and 2: "phase_a_loop now claimed client transitions rows st1 = Inr (ts2, st')" and ts: "ts = ts1 @ ts2"
    by (auto simp: map_sum_Inr split: sum.splits prod.splits)
  have "repo_inv st1" using phase_a_row_spec[OF Cons.prems(1) 1] by blast
  from Cons.IH[OF this 2] obtain g where g: "db_downloads st' = map g (db_downloads st1)"
    "\<And>r. keeps r (g r) \<and> d_failed_reason (g r) = d_failed_reason r" "set ts2 \<subseteq> set transitions" by blast
  from phase_a_row_keeps[OF Cons.prems(1) 1] obtain f where f: "db_downloads st1 = map f (db_downloads st)"
    "\<And>r. keeps r (f r) \<and> d_failed_reason (f r) = d_failed_reason r" "set ts1 \<subseteq> set transitions" by blast
  have "keeps r (g (f r)) \<and> d_failed_reason (g (f r)) = d_failed_reason r" for r
    using f(2)[of r] g(2)[of "f r"] keeps_trans by auto
  with f g ts show ?case by (intro conjI exI[of _ "g \<circ> f"]) auto
qed

lemma poll_change:
  assumes ok: "db_ok db" and rows: "distinct (map d_id rows)"
    and run: "on_store (phase_a_loop now claimed client (reconcile rows client now grace) rows) db = Inr (ts, db')"
  shows "store_change db db'" "set ts \<subseteq> set (reconcile rows client now grace)"
proof -
  have inv: "repo_inv (store_of db)" using ok by (simp add: db_ok_def)
  from run obtain st where st: "phase_a_loop now claimed client (reconcile rows client now grace) rows (store_of db) = Inr (ts, st)"
    and db': "db' = db\<lparr>a_store := st\<rparr>" by (auto simp: on_store_Inr)
  note loop = phase_a_loop_spec[OF inv st rows]
  from phase_a_loop_keeps[OF inv st] obtain f where f: "db_downloads st = map f (downloads db)"
    "\<And>r. keeps r (f r) \<and> d_failed_reason (f r) = d_failed_reason r" and ts: "set ts \<subseteq> set (reconcile rows client now grace)"
    by auto
  show "set ts \<subseteq> set (reconcile rows client now grace)" by (rule ts)
  have "d_status (f r) = state_str FailedPending"
    if r: "r \<in> set (downloads db)" "d_status r = state_str FailedPending" for r
  proof -
    have inv': "repo_inv st" using loop by blast
    have "get_row (store_of db) (d_id r) = Some r" using get_row_in[OF inv] r(1) by simp
    moreover have "f r \<in> set (db_downloads st)" using f(1) r(1) by simp
    then have "get_row st (d_id r) = Some (f r)" using get_row_in[OF inv', of "f r"] f(2)[of r] by (simp add: keeps_def)
    ultimately consider "f r = r" | "handled claimed (reconcile rows client now grace) ts r (f r)"
      using loop by (cases "d_id r \<in> d_id ` set rows") auto
    then show ?thesis
    proof cases
      case 2
      have no: "tr_from_state t \<noteq> state_str FailedPending" if "t \<in> set (reconcile rows client now grace)" for t
      proof -
        from that obtain row where "reconcile_row (snapshot client) now grace row = Some t" by (auto simp: reconcile_def in_map_filter)
        from reconcile_row_basic[OF this] show ?thesis by (auto simp: ACTIVE_STATUS_VALUES_def ACTIVE_STATES_def)
      qed
      with 2 r(2) show ?thesis by (auto simp: handled_def)
    qed (simp add: r(2))
  qed
  with f loop show "store_change db db'" by (auto simp: store_change_def polls_def db' intro!: exI[of _ f])
qed

lemma applied_transition_ok:
  assumes snap: "snap_ok db rows" and t: "t \<in> set (reconcile (map fst rows) client now grace)"
  shows "applied_ok rows t"
proof -
  from t obtain r where r: "r \<in> set (map fst rows)" "reconcile_row (snapshot client) now grace r = Some t"
    by (auto simp: reconcile_def in_map_filter)
  note basic = reconcile_row_basic[OF r(2)]
  have "d_status r \<noteq> state_str FailedPending" using basic by (auto simp: ACTIVE_STATUS_VALUES_def ACTIVE_STATES_def)
  moreover have "row_ok r" using snap r(1) unfolding snap_ok_def by blast
  ultimately have "marker_of r = None" by (cases "marker_of r") (auto simp: row_ok_def)
  with basic r(1) reconcile_row_reason[OF r(2)] show ?thesis unfolding applied_ok_def by blast
qed

lemma snap_ok_filter: "snap_ok db rows \<Longrightarrow> snap_ok db (filter p rows)"
proof -
  assume s: "snap_ok db rows"
  then have "distinct (map (\<lambda>x. d_id (fst x)) rows)" by (simp add: snap_ok_def comp_def)
  then have "distinct (map (\<lambda>x. d_id (fst x)) (filter p rows))" by (rule distinct_map_filter)
  with s show ?thesis by (auto simp: snap_ok_def comp_def)
qed

lemma persist_ok:
  assumes ok: "db_ok db" and c: "comp_ok db c" "fc_blocklist_reason c = ''failed''" and run: "persist_environmental_reason now b c db = (c', db')"
  shows "store_change db db'" "same_torrents db db' \<Longrightarrow> comp_ok db' c'"
proof -
  consider "c' = c" "db' = db" | "restamp now (fc_download_id c) (fc_observed_failed_reason c) (df_reason (fc_event c)) db = Inr (True, db')"
      "c' = c\<lparr>fc_observed_failed_reason := Some (df_reason (fc_event c))\<rparr>"
    using run by (fastforce simp only: persist_environmental_reason_def prod.inject split: if_splits sum.splits prod.splits bool.splits)
  then have "store_change db db' \<and> (same_torrents db db' \<longrightarrow> comp_ok db' c')"
  proof cases
    case 1
    with store_change_refl[OF ok] c show ?thesis by simp
  next
    case 2
    have p: "parse_operator_fail_marker (Some (df_reason (fc_event c))) = None" using c by (simp add: comp_ok_def plain_def)
    from restamp_change[OF ok 2(1)] p have "store_change db db'" by simp
    moreover have "comp_ok db' c'" if "same_torrents db db'"
      using comp_ok_mono[OF that c(1)] c(2) p by (simp add: 2(2) comp_ok_def)
    ultimately show ?thesis by blast
  qed
  then show "store_change db db'" "same_torrents db db' \<Longrightarrow> comp_ok db' c'" by blast+
qed

definition cycle_step_ok :: "app_db \<Rightarrow> cycle_pc \<times> failure_world \<Rightarrow> bool" where
  "cycle_step_ok db res \<longleftrightarrow> (case res of (pc, w) \<Rightarrow> store_change db (fw_db w) \<and> 0 \<le> cr_next_token (fw_registry w)
     \<and> (same_torrents db (fw_db w) \<longrightarrow> cycle_ok (fw_db w) pc))"

lemma detected_reason:
  "c \<in> set (detected_completions now client detail_of applied rows) \<Longrightarrow> fc_blocklist_reason c = ''failed''"
  by (auto simp: detected_completions_def in_map_filter detected_completion_def Let_def)

lemma residuals_ok:
  assumes "snap_ok db rows"
  shows "c \<in> set (residual_completions now (map fst rows)) \<Longrightarrow> comp_ok db c"
    and "c \<in> set (heal_completions now claimed (map fst rows)) \<Longrightarrow> comp_ok db c"
proof -
  have "\<exists>r. r \<in> set (map fst rows) \<and> c = residual_completion now r"
    if "c \<in> set (residual_completions now (map fst rows)) \<or> c \<in> set (heal_completions now claimed (map fst rows))"
    using that unfolding residual_completions_def heal_completions_def set_map[of "residual_completion now"] set_filter by blast
  then show "c \<in> set (residual_completions now (map fst rows)) \<Longrightarrow> comp_ok db c"
    "c \<in> set (heal_completions now claimed (map fst rows)) \<Longrightarrow> comp_ok db c" using residual_ok[OF assms] by blast+
qed

lemma cycle_next_ok:
  assumes ok: "db_ok (fw_db w)" and tok: "0 \<le> cr_next_token (fw_registry w)" and pc: "cycle_ok (fw_db w) pc"
  shows "cycle_step_ok (fw_db w) (cycle_next i pc w)"
proof -
  note refl = store_change_refl[OF ok]
  have stay: "cycle_step_ok (fw_db w) (pc', w')"
    if "fw_db w' = fw_db w" "0 \<le> cr_next_token (fw_registry w')" "cycle_ok (fw_db w) pc'" for pc' w'
    using that refl by (simp add: cycle_step_ok_def)
  show ?thesis
  proof (cases pc)
    case CycleOpen
    show ?thesis using tok list_active_snap[OF ok]
      by (auto simp: CycleOpen Let_def cycle_ok_def intro!: stay)
  next
    case HealOpen
    show ?thesis using tok list_active_snap[OF ok] residuals_ok(2)[OF list_active_snap[OF ok]]
      by (auto simp: HealOpen Let_def cycle_ok_def intro!: stay)
  next
    case (CyclePoll all_rows)
    let ?rows = "filter (\<lambda>(r, _). \<not> ci_held i (d_id r)) all_rows"
    have snap: "snap_ok (fw_db w) ?rows" using pc by (simp add: CyclePoll cycle_ok_def snap_ok_filter)
    then have d: "distinct (map d_id (map fst ?rows))" by (simp add: snap_ok_def)
    let ?run = "on_store (phase_a_loop (ci_now i) (claimed_in w) (ci_client i)
      (reconcile (map fst ?rows) (ci_client i) (ci_now i) missing_grace_default) (map fst ?rows)) (fw_db w)"
    show ?thesis
    proof (cases ?run)
      case (Inl e)
      then show ?thesis using tok by (simp add: CyclePoll Let_def cycle_ok_def stay)
    next
      case (Inr q)
      obtain ts db' where q: "q = (ts, db')" by (cases q)
      note p = poll_change[OF ok d Inr[unfolded q]]
      have "cycle_ok db' (CycleEnrich ?rows ts (ci_client i))" if "same_torrents (fw_db w) db'"
        using snap_ok_mono[OF that snap] applied_transition_ok[OF snap] p(2) by (auto simp: cycle_ok_def)
      then show ?thesis using p(1) tok by (simp add: CyclePoll Let_def Inr q cycle_step_ok_def)
    qed
  next
    case (CycleEnrich rows applied client)
    then have snap: "snap_ok (fw_db w) rows" and ts: "\<And>t. t \<in> set applied \<Longrightarrow> applied_ok rows t"
      using pc by (auto simp: cycle_ok_def)
    have "comp_ok (fw_db w) c" if "c \<in> set (detected_completions (ci_now i) client (ci_detail i) applied (map fst rows))" for c
      by (rule detected_ok[OF snap ts that snap_hash_inj[OF ok snap]])
    with snap tok detected_reason show ?thesis by (auto simp: CycleEnrich cycle_ok_def intro!: stay)
  next
    case (CyclePersist rows cs kept)
    then have snap: "snap_ok (fw_db w) rows" and all: "\<And>c. c \<in> set cs \<union> set kept \<Longrightarrow> comp_ok (fw_db w) c"
      and why: "\<And>c. c \<in> set cs \<Longrightarrow> fc_blocklist_reason c = ''failed''" using pc by (auto simp: cycle_ok_def)
    show ?thesis
    proof (cases cs)
      case Nil
      show ?thesis using snap all tok residuals_ok(1)[OF snap]
        by (auto simp: CyclePersist Nil Let_def cycle_ok_def intro!: stay)
    next
      case (Cons c cs')
      obtain c' db' where run: "persist_environmental_reason (ci_now i) (ci_ok i) c (fw_db w) = (c', db')" by fastforce
      from persist_ok[OF ok _ _ run] all[of c] why[of c] Cons have p: "store_change (fw_db w) db'"
        "same_torrents (fw_db w) db' \<Longrightarrow> comp_ok db' c'" by auto
      show ?thesis
      proof (cases "fc_blocklist c \<or> claimed_in w (fc_download_id c)")
        case True
        with snap all why tok Cons show ?thesis by (auto simp: CyclePersist cycle_ok_def intro!: stay)
      next
        case False
        with p snap all why tok Cons show ?thesis
          by (auto simp: CyclePersist run cycle_ok_def cycle_step_ok_def intro: snap_ok_mono comp_ok_mono)
      qed
    qed
  next
    case (CyclePhaseB rows cs kept ids)
    then have "snap_ok (fw_db w) rows" "\<And>c. c \<in> set cs \<union> set kept \<Longrightarrow> comp_ok (fw_db w) c" using pc by (auto simp: cycle_ok_def)
    then show ?thesis using tok
      by (cases cs) (auto simp: CyclePhaseB cycle_ok_def intro!: stay)
  next
    case (CycleProof rows c cs kept ids)
    then show ?thesis using pc tok by (auto simp: cycle_ok_def Let_def intro!: stay)
  next
    case (CycleRemoving rows c cs kept ids)
    then show ?thesis using pc tok by (auto simp: cycle_ok_def intro!: stay)
  next
    case (CycleOutcome rows c cs kept ids)
    then have snap: "snap_ok (fw_db w) rows" and all: "\<And>c'. c' \<in> insert c (set cs \<union> set kept) \<Longrightarrow> comp_ok (fw_db w) c'"
      using pc by (auto simp: cycle_ok_def)
    show ?thesis
    proof (cases "done_marker c")
      case None
      then show ?thesis using snap all tok by (auto simp: CycleOutcome cycle_ok_def intro!: stay)
    next
      case (Some m)
      have ch: "store_change (fw_db w) db'" if "restamp (ci_now i) (fc_download_id c) (fc_observed_failed_reason c) m (fw_db w) = Inr (b, db')" for b db'
        by (rule restamp_change[OF ok that]) (rule done_marker_ok(2)[OF all[of c] Some], simp)
      have new: "comp_ok (fw_db w) (c\<lparr>fc_observed_failed_reason := Some m\<rparr>)" using done_marker_ok(1)[OF all Some] by simp
      show ?thesis
      proof (cases "restamp (ci_now i) (fc_download_id c) (fc_observed_failed_reason c) m (fw_db w)")
        case (Inl e)
        then show ?thesis using tok by (auto simp: CycleOutcome Some cycle_ok_def intro!: stay)
      next
        case (Inr q)
        obtain b db' where q: "q = (b, db')" by (cases q)
        show ?thesis
        proof (cases "b \<and> ci_ok i")
          case True
          then show ?thesis using ch[OF Inr[unfolded q]] snap all new tok
            by (auto simp: CycleOutcome Some Inr q cycle_ok_def cycle_step_ok_def intro: snap_ok_mono comp_ok_mono)
        next
          case False
          then show ?thesis using snap all tok by (auto simp: CycleOutcome Some Inr q cycle_ok_def intro!: stay)
        qed
      qed
    qed
  next
    case (CycleComplete rows cs ids k)
    then have snap: "snap_ok (fw_db w) rows" and all: "\<And>c. c \<in> set cs \<Longrightarrow> comp_ok (fw_db w) c" using pc by (auto simp: cycle_ok_def)
    have again: "cycle_step_ok (fw_db w) (retry_cycle rows cs ids k e w)" for e
      using snap all tok by (auto simp: retry_cycle_def cycle_ok_def intro!: stay)
    show ?thesis
    proof (cases "complete_reconcile_failures (ci_now i) (claimed_in w) rows cs (fw_db w)")
      case (Inl e)
      then show ?thesis using again tok by (auto simp: CycleComplete cycle_ok_def intro!: stay)
    next
      case (Inr q)
      obtain x db' where q: "q = (x, db')" by (cases q)
      show ?thesis using again tok complete_cycle_change[OF ok snap all Inr[unfolded q]]
        by (simp add: CycleComplete Inr q cycle_step_ok_def cycle_ok_def)
    qed
  qed (use tok in \<open>auto simp: cycle_ok_def intro!: stay\<close>)
qed

section \<open>The invariant holds in every reachable state\<close>

lemma failure_init_inv: "failure_init s \<Longrightarrow> failure_inv s"
  by (auto simp: failure_init_def failure_inv_def db_ok_def row_ok_def list_all_iff empty_registry_def)

lemma failure_inv_mono:
  assumes "failure_inv (ms, cs, w)" and "db_ok (fw_db w')" and "same_torrents (fw_db w) (fw_db w')"
    and "0 \<le> cr_next_token (fw_registry w')"
  shows "failure_inv (ms, cs, w')"
  using assms by (auto simp: failure_inv_def intro: mark_ok_mono cycle_ok_mono)

lemma protocol_step_change:
  assumes inv: "failure_inv (ms, cs, w)" and step: "protocol_step (ms, cs, w) (ms', cs', w')"
  shows "store_change (fw_db w) (fw_db w')" "failure_inv (ms', cs', w')"
proof -
  have ok: "db_ok (fw_db w)" "0 \<le> cr_next_token (fw_registry w)" using inv by (simp_all add: failure_inv_def)
  have "store_change (fw_db w) (fw_db w') \<and> failure_inv (ms', cs', w')"
    using step
  proof (cases rule: protocol_step.cases)
    case (mark i now ok' pc)
    have "mark_ok (fw_db w) (ms ! i)" using inv mark(3) by (auto simp: failure_inv_def)
    from mark_next_ok[OF ok this, of now ok'] mark(4) have s: "store_change (fw_db w) (fw_db w')"
      "0 \<le> cr_next_token (fw_registry w')" "same_torrents (fw_db w) (fw_db w') \<longrightarrow> mark_ok (fw_db w') pc"
      by (simp_all add: mark_step_ok_def)
    from store_change_ok[OF ok(1) s(1)] failure_inv_mono[OF inv _ _ s(2)] s have "failure_inv (ms, cs, w')"
      "mark_ok (fw_db w') pc" by auto
    then show ?thesis using s(1) mark(1,2) set_update_subset_insert[of ms i pc] by (auto simp: failure_inv_def)
  next
    case (cycle i inp pc)
    have "cycle_ok (fw_db w) (cs ! i)" using inv cycle(3) by (auto simp: failure_inv_def)
    from cycle_next_ok[OF ok this, of inp] cycle(4) have s: "store_change (fw_db w) (fw_db w')"
      "0 \<le> cr_next_token (fw_registry w')" "same_torrents (fw_db w) (fw_db w') \<longrightarrow> cycle_ok (fw_db w') pc"
      by (simp_all add: cycle_step_ok_def)
    from store_change_ok[OF ok(1) s(1)] failure_inv_mono[OF inv _ _ s(2)] s have "failure_inv (ms, cs, w')"
      "cycle_ok (fw_db w') pc" by auto
    then show ?thesis using s(1) cycle(1,2) set_update_subset_insert[of cs i pc] by (auto simp: failure_inv_def)
  qed
  then show "store_change (fw_db w) (fw_db w')" "failure_inv (ms', cs', w')" by blast+
qed

lemma idle_ok [simp]: "mark_ok db (MarkOpen args)" "mark_ok db (MarkRaised e)" "cycle_ok db CycleOpen" "cycle_ok db HealOpen"
    "cycle_ok db (CycleRaised e)"
  by (simp_all add: mark_ok_def cycle_ok_def)

lemma failure_step_inv:
  assumes "failure_inv s" and "failure_step s s'"
  shows "failure_inv s'"
  using assms(2,1)
proof (cases rule: failure_step.cases)
  case protocol
  obtain ms cs w ms' cs' w' where "s = (ms, cs, w)" "s' = (ms', cs', w')" by (cases s, cases s') auto
  with protocol assms(1) protocol_step_change(2) show ?thesis by blast
next
  case (other w db ms cs)
  have "db_ok (fw_db w)" using assms(1) other by (simp add: failure_inv_def)
  from other_writer_ok[OF this other(3)] failure_inv_mono[of ms cs w s2 for s2] assms(1) other show ?thesis
    by (simp add: failure_inv_def[of "(ms, cs, w)"])
next
  case (mark_fails i ms job token cs w)
  then show ?thesis using assms(1) set_update_subset_insert[of ms i "MarkRaised DatabaseFailed"]
    by (auto simp: failure_inv_def)
next
  case (cycle_fails i cs ms w)
  then show ?thesis using assms(1) set_update_subset_insert[of cs i "CycleRaised DatabaseFailed"]
    by (auto simp: failure_inv_def)
qed (use assms(1) in \<open>auto simp: failure_inv_def empty_registry_def\<close>)

interpretation failure_protocol: invariant_system failure_init failure_step failure_inv
  by unfold_locales (auto intro: failure_init_inv failure_step_inv)

text \<open>
  C3: a failed download is completed under the flags its marker carries, whoever completes it. In every
  interleaving of operator calls, reconcile cycles, heals and other writers, through failed commits and
  crashes: when a step of the protocol takes a row with a marker out of \<open>failed_pending\<close>, the row is failed,
  the marker is gone, and its torrent is put on the blocklist exactly once if the marker says so and not
  at all if it does not, with the reason of the marker's actor.
\<close>

theorem operator_choice_honoured:
  assumes "reachable failure_init failure_step (ms, cs, w)" and "protocol_step (ms, cs, w) (ms', cs', w')"
    and "r \<in> set (downloads (fw_db w))" "d_status r = ''failed_pending''" "marker_of r = Some m"
    and "r' \<in> set (downloads (fw_db w'))" "d_id r' = d_id r" "d_status r' \<noteq> ''failed_pending''"
  shows "d_status r' = ''failed'' \<and> marker_of r' = None
    \<and> (\<exists>new. a_blocklist (fw_db w') = a_blocklist (fw_db w) @ new
        \<and> map b_reason (filter (\<lambda>b. b_torrent_hash b = Some (d_torrent_hash r)) new)
          = (if ff_blocklist (pm_flags m) then [if pm_operator m then ''user_reported'' else ''failed''] else []))"
proof -
  have inv: "failure_inv (ms, cs, w)" by (rule failure_protocol.reachable_inv[OF assms(1)])
  then have "db_ok (fw_db w)" by (simp add: failure_inv_def)
  from store_change_honours[OF this protocol_step_change(1)[OF inv assms(2)] assms(3) _ assms(5-7)] assms(4,8)
  show ?thesis by (simp add: listed_as_def)
qed

end
