(* ===== verification/FailureSchedules.thy ===== *)
theory FailureSchedules
  imports FailureRace
begin

text \<open>
  Concrete runs of the failure protocol: a scheduler for operator calls, a small world, and two runs.
\<close>

section \<open>A scheduler\<close>

text \<open>Each entry of a schedule lets one call take one step.\<close>

fun mark_schedule :: "(nat \<times> bool) list \<Rightarrow> mark_pc list \<Rightarrow> failure_world \<Rightarrow> mark_pc list \<times> failure_world" where
  "mark_schedule [] ms w = (ms, w)"
| "mark_schedule ((i, ok) # s) ms w =
     (case mark_next 0 ok (ms ! i) w of (pc, w') \<Rightarrow> mark_schedule s (ms[i := pc]) w')"

lemma schedule_steps:
  "list_all (\<lambda>(i, _). i < length ms) s \<Longrightarrow> mark_schedule s ms w = (ms', w')
    \<Longrightarrow> reachable failure_init failure_step (ms, cs, w) \<Longrightarrow> reachable failure_init failure_step (ms', cs, w')"
proof (induction s arbitrary: ms w)
  case (Cons p s)
  obtain i ok where p: "p = (i, ok)" by (cases p)
  obtain pc w1 where step: "mark_next 0 ok (ms ! i) w = (pc, w1)" by fastforce
  have i: "i < length ms" using Cons.prems(1) by (simp add: p)
  have "failure_step (ms, cs, w) (ms[i := pc], cs, w1)"
    by (rule failure_step.protocol, rule protocol_step.mark[OF i step])
  then have "reachable failure_init failure_step (ms[i := pc], cs, w1)"
    by (rule reach_step[OF Cons.prems(3)])
  then show ?case using Cons.prems by (intro Cons.IH) (simp_all add: p step)
qed simp

lemma schedule_reaches:
  assumes "list_all (\<lambda>(i, _). i < length ms) s" and "reachable failure_init failure_step (ms, cs, w)"
  shows "reachable failure_init failure_step (fst (mark_schedule s ms w), cs, snd (mark_schedule s ms w))"
  by (rule schedule_steps[OF assms(1) _ assms(2)]) simp

section \<open>A season download that two operators report\<close>

definition race_db :: app_db where
  "race_db = blank_db\<lparr>a_requests := [new_request_row 7 1399 Tv ''Show'' ''downloading'' plain_request],
     a_store := ex_db2, a_next_id := 8\<rparr>"

definition race_world :: failure_world where
  "race_world = \<lparr>fw_db = race_db, fw_registry = empty_registry\<rparr>"

definition operator_args :: "bool \<Rightarrow> mark_args" where
  "operator_args blocklist = \<lparr>ma_download_id = 1, ma_blocklist = blocklist, ma_remove_torrent = False, ma_has_client = False,
     ma_allow_supersede = True, ma_allow_adopt = True\<rparr>"

definition two_operators :: "mark_pc list" where
  "two_operators = [MarkOpen (operator_args True), MarkOpen (operator_args False)]"

lemma race_start: "reachable failure_init failure_step (two_operators, [], race_world)"
proof -
  have "list_all (\<lambda>r. marker_of r = None \<and> parse_operator_fail_marker (d_payload_rejection r) = None
      \<and> py_lower (d_torrent_hash r) = d_torrent_hash r) (db_downloads (a_store (fw_db race_world)))"
    by code_simp
  moreover have "repo_inv (a_store (fw_db race_world))"
    using download_store.reachable_inv[OF ex_db2_reachable] by (simp add: race_world_def race_db_def)
  ultimately have "failure_init ([], [], race_world)"
    by (simp add: failure_init_def race_world_def)
  then have "reachable failure_init failure_step ([], [], race_world)" by (rule reach_init)
  then have "reachable failure_init failure_step ([] @ [MarkOpen (operator_args True)], [], race_world)"
    by (rule reach_step) (rule failure_step.call)
  then have "reachable failure_init failure_step
      (([] @ [MarkOpen (operator_args True)]) @ [MarkOpen (operator_args False)], [], race_world)"
    by (rule reach_step) (rule failure_step.call)
  then show ?thesis by (simp add: two_operators_def)
qed

section \<open>One command, and two\<close>

text \<open>The first operator's call runs up to its completion; the second has not begun.\<close>

definition marked_once :: "mark_pc list \<times> failure_world" where
  "marked_once = mark_schedule [(0, True), (0, True), (0, True), (0, True)] two_operators race_world"

definition failed_once :: "mark_pc \<times> failure_world" where
  "failed_once = mark_next 0 True (fst marked_once ! 0) (snd marked_once)"

lemma marked_once_reachable: "reachable failure_init failure_step (fst marked_once, [], snd marked_once)"
  unfolding marked_once_def by (rule schedule_reaches[OF _ race_start]) (simp add: two_operators_def)

theorem operator_choice_honoured_witness:
  "\<exists>new. a_blocklist (fw_db (snd failed_once)) = a_blocklist (fw_db (snd marked_once)) @ new
     \<and> map b_reason (filter (\<lambda>b. b_torrent_hash b = Some ''aa'') new) = [''user_reported'']"
proof -
  have "0 < length (fst marked_once)" by code_simp
  then have step: "protocol_step (fst marked_once, [], snd marked_once)
      ((fst marked_once)[0 := fst failed_once], [], snd failed_once)"
    by (rule protocol_step.mark) (simp add: failed_once_def)
  let ?r = "hd (downloads (fw_db (snd marked_once)))" and ?r' = "hd (downloads (fw_db (snd failed_once)))"
  let ?m = "\<lparr>pm_operator = True, pm_flags = \<lparr>ff_blocklist = True, ff_remove_torrent = False\<rparr>, pm_nonce = 1\<rparr>"
  have "downloads (fw_db (snd marked_once)) \<noteq> []" "downloads (fw_db (snd failed_once)) \<noteq> []" by code_simp+
  then have rows: "?r \<in> set (downloads (fw_db (snd marked_once)))" "?r' \<in> set (downloads (fw_db (snd failed_once)))"
    by simp_all
  have "d_status ?r = ''failed_pending''" "marker_of ?r = Some ?m" "d_id ?r' = d_id ?r"
    "d_status ?r' \<noteq> ''failed_pending''" "d_torrent_hash ?r = ''aa''" by code_simp+
  with operator_choice_honoured[OF marked_once_reachable step rows(1) _ _ rows(2)] show ?thesis by simp
qed

text \<open>
  Two reports of one download. The later call registers and stamps its marker while the earlier one's
  first statement is under way; that statement misses, and the earlier call, reading the row again, adopts
  the newer call's marker and writes its own over it: what it adopts is not checked against the registry.
  The download is then completed with the choice of the earlier call, and the later one yields.
\<close>

definition newer_stamped :: "mark_pc list \<times> failure_world" where
  "newer_stamped = mark_schedule [(0, True), (0, True), (1, True), (1, True), (1, True)] two_operators race_world"

definition older_restamped :: "mark_pc list \<times> failure_world" where
  "older_restamped = mark_schedule [(0, True), (0, True)] (fst newer_stamped) (snd newer_stamped)"

definition both_returned :: "mark_pc list \<times> failure_world" where
  "both_returned = mark_schedule [(0, True), (0, True), (1, True), (1, True)] (fst older_restamped) (snd older_restamped)"

lemma older_command_overrides_newer:
  shows "reachable failure_init failure_step (fst newer_stamped, [], snd newer_stamped)"
    and "owns_operator_claim (fw_registry (snd newer_stamped)) 1 2
      \<and> map d_failed_reason (downloads (fw_db (snd newer_stamped)))
        = [Some (operator_fail_marker \<lparr>ff_blocklist = False, ff_remove_torrent = False\<rparr> 2)]"
    and "owns_operator_claim (fw_registry (snd older_restamped)) 1 2
      \<and> map d_failed_reason (downloads (fw_db (snd older_restamped)))
        = [Some (operator_fail_marker \<lparr>ff_blocklist = True, ff_remove_torrent = False\<rparr> 1)]"
    and "fst both_returned = [MarkReturned, MarkReturned]
      \<and> map b_reason (a_blocklist (fw_db (snd both_returned))) = [''user_reported'']"
proof -
  show "reachable failure_init failure_step (fst newer_stamped, [], snd newer_stamped)"
    unfolding newer_stamped_def by (rule schedule_reaches[OF _ race_start]) (simp add: two_operators_def)
qed code_simp+

end
