(* ===== verification/UpdateRecovery.thy ===== *)
theory UpdateRecovery
  imports Prelude
begin

text \<open>
  The recovery matrix of the update coordinator (\<open>domain/update_recovery.py\<close>): what may be done about a
  coordinator row, decided from its phase, its queued action, the live drain lease and the age of its phase.
\<close>

definition KNOWN_COORDINATOR_PHASES :: "string list" where
  "KNOWN_COORDINATOR_PHASES = [''idle'', ''checking'', ''available'', ''draining'', ''installing'', ''rollback'',
     ''succeeded'', ''failed'', ''rolled_back'']"

definition KNOWN_REQUESTED_ACTIONS :: "string list" where
  "KNOWN_REQUESTED_ACTIONS = [''none'', ''check'', ''install'']"

definition BUSY_COORDINATOR_PHASES :: "string list" where
  "BUSY_COORDINATOR_PHASES = [''checking'', ''draining'', ''installing'', ''rollback'']"

named_theorems phase_defs
declare KNOWN_COORDINATOR_PHASES_def [phase_defs] KNOWN_REQUESTED_ACTIONS_def [phase_defs]
  BUSY_COORDINATOR_PHASES_def [phase_defs]

datatype recovery_action = NOOP | WAIT | LIVE_DRAIN | ACTION_ONLY | REANCHOR

record recovery_decision =
  rd_action :: recovery_action
  rd_reason :: string
  rd_clear_unknown_action :: bool
  rd_preserve_known_action :: bool
  rd_fence_generation :: bool

definition dispatch_starts_work :: "string \<Rightarrow> string option \<Rightarrow> bool" where
  "dispatch_starts_work action blocker =
     (if action = ''none'' then False else \<not> (action = ''install'' \<and> blocker \<noteq> None))"

definition old_enough :: "datetime option \<Rightarrow> datetime \<Rightarrow> timedelta \<Rightarrow> bool" where
  "old_enough anchor now max_age = (case anchor of
       None \<Rightarrow> False
     | Some a \<Rightarrow> 0 \<le> now - a \<and> now - a \<ge> max_age)"

definition decide_recovery ::
  "string \<Rightarrow> string \<Rightarrow> bool \<Rightarrow> datetime option \<Rightarrow> datetime \<Rightarrow> timedelta \<Rightarrow> recovery_decision" where
  "decide_recovery phase requested_action live_drain phase_started_at now max_age =
     (let known_action = requested_action \<in> set KNOWN_REQUESTED_ACTIONS;
          unknown_action = (\<not> known_action);
          reanchor_fences = (unknown_action \<or> requested_action = ''none'')
      in if phase \<notin> set KNOWN_COORDINATOR_PHASES then
           if live_drain then
             \<lparr>rd_action = LIVE_DRAIN, rd_reason = ''live drain lease'', rd_clear_unknown_action = unknown_action,
              rd_preserve_known_action = known_action, rd_fence_generation = False\<rparr>
           else
             \<lparr>rd_action = REANCHOR, rd_reason = ''unrecognized phase'', rd_clear_unknown_action = unknown_action,
              rd_preserve_known_action = known_action, rd_fence_generation = reanchor_fences\<rparr>
         else if live_drain then
           \<lparr>rd_action = LIVE_DRAIN, rd_reason = ''live drain lease'', rd_clear_unknown_action = unknown_action,
            rd_preserve_known_action = known_action, rd_fence_generation = False\<rparr>
         else if phase \<notin> set BUSY_COORDINATOR_PHASES then
           if unknown_action then
             \<lparr>rd_action = ACTION_ONLY, rd_reason = ''unrecognized action'', rd_clear_unknown_action = True,
              rd_preserve_known_action = False, rd_fence_generation = True\<rparr>
           else
             \<lparr>rd_action = NOOP, rd_reason = ''recognized state'', rd_clear_unknown_action = False,
              rd_preserve_known_action = True, rd_fence_generation = False\<rparr>
         else if \<not> old_enough phase_started_at now max_age then
           \<lparr>rd_action = WAIT, rd_reason = ''busy phase lacks bounded stale evidence'', rd_clear_unknown_action = False,
            rd_preserve_known_action = known_action, rd_fence_generation = False\<rparr>
         else
           \<lparr>rd_action = REANCHOR, rd_reason = ''busy phase is stale and old'', rd_clear_unknown_action = unknown_action,
            rd_preserve_known_action = known_action, rd_fence_generation = reanchor_fences\<rparr>)"

section \<open>What the matrix promises\<close>

text \<open>
  The matrix. A live drain is never overridden, whatever the phase says. Otherwise the row is re-anchored
  exactly when its phase is unknown, or busy and started at least the maximal age ago; a busy phase without
  that evidence waits; a known quiet phase loses at most an unrecognised action. The generation is raised
  exactly by the recoveries that hand back no queued check or install.
\<close>

lemma recovery_action_exact:
  "rd_action (decide_recovery phase action live started now max_age) = (if live then LIVE_DRAIN
      else if phase \<notin> set KNOWN_COORDINATOR_PHASES \<or> phase \<in> set BUSY_COORDINATOR_PHASES \<and> old_enough started now max_age
        then REANCHOR
      else if phase \<in> set BUSY_COORDINATOR_PHASES then WAIT
      else if action \<in> set KNOWN_REQUESTED_ACTIONS then NOOP else ACTION_ONLY)"
  by (simp add: decide_recovery_def Let_def)

lemma recovery_fences_exact:
  "rd_fence_generation (decide_recovery phase action live started now max_age) \<longleftrightarrow>
     rd_action (decide_recovery phase action live started now max_age) \<in> {REANCHOR, ACTION_ONLY}
       \<and> action \<notin> {''check'', ''install''}"
  by (auto simp: decide_recovery_def Let_def KNOWN_REQUESTED_ACTIONS_def)

lemma recovery_clears_exact:
  "rd_action (decide_recovery phase action live started now max_age) \<in> {REANCHOR, ACTION_ONLY}
     \<Longrightarrow> rd_clear_unknown_action (decide_recovery phase action live started now max_age)
       \<longleftrightarrow> action \<notin> set KNOWN_REQUESTED_ACTIONS"
  by (auto simp: decide_recovery_def Let_def split: if_splits)

lemma busy_is_known: "phase \<in> set BUSY_COORDINATOR_PHASES \<Longrightarrow> phase \<in> set KNOWN_COORDINATOR_PHASES"
  by (auto simp: phase_defs)

end
