(* ===== verification/UpdateCoordination.thy ===== *)
theory UpdateCoordination
  imports UpdateRecovery
begin

text \<open>
  The update coordinator's row and its leases (\<open>repositories/update_coordination.py\<close>, the tables
  \<open>update_coordinator_state\<close> and \<open>maintenance_leases\<close> of \<open>models.py\<close>). Every operation takes the lock of the
  singleton row first, so an operation is one atomic step. \<open>now\<close> is an argument, as in the code. An operation
  that raises returns the transaction's state too, since one caller commits it. A lease's kind is one of the two
  the code writes; \<open>updated_at\<close> is left out: nothing reads it.
\<close>

datatype lease_kind = Critical | Drain

record lease_row =
  ml_id :: int
  ml_token_hash :: string
  ml_kind :: lease_kind
  ml_owner :: string
  ml_operation :: "string option"
  ml_action_generation :: "int option"
  ml_created_at :: datetime
  ml_renewed_at :: datetime
  ml_expires_at :: datetime

record coordinator_row =
  uc_requested_action :: string
  uc_action_generation :: int
  uc_acknowledged_generation :: int
  uc_phase :: string
  uc_current_build :: "string option"
  uc_current_digest :: "string option"
  uc_available_build :: "string option"
  uc_available_digest :: "string option"
  uc_updater_last_seen_at :: "datetime option"
  uc_updater_observed_build :: "string option"
  uc_updater_observed_digest :: "string option"
  uc_last_refresh_result :: "string option"
  uc_last_refresh_detail_code :: "string option"
  uc_last_refresh_from_build :: "string option"
  uc_last_refresh_to_build :: "string option"
  uc_last_refresh_at :: "datetime option"
  uc_requested_at :: "datetime option"
  uc_last_checked_at :: "datetime option"
  uc_last_started_at :: "datetime option"
  uc_last_completed_at :: "datetime option"
  uc_last_operation :: "string option"
  uc_last_result :: "string option"
  uc_last_error_code :: "string option"
  uc_last_from_build :: "string option"
  uc_last_to_build :: "string option"
  uc_last_outcome_token_hash :: "string option"
  uc_last_outcome_fingerprint :: "string option"

text \<open>The audit rows this component writes.\<close>

datatype audit_value = AuditText string | AuditNumber int

record audit_row =
  au_user_id :: "int option"
  au_action_type :: string
  au_entity_type :: string
  au_entity_id :: "int option"
  au_old_value :: "(string \<times> audit_value) list"
  au_new_value :: "(string \<times> audit_value) list"
  au_description :: string

record coord_db =
  cd_state :: "coordinator_row option"
  cd_leases :: "lease_row list"
  cd_audit :: "audit_row list"
  cd_next_id :: int

datatype coord_error =
    UnknownCoordinatorPhaseError string
  | DrainLeaseActiveError string
  | CoordinatorRecoveryNotReadyError string
  | UniqueViolation
  | UpdateOperationInProgressError
  | MaintenanceDrainingError
  | BadValue

type_synonym 'a coord_op = "coord_db \<Rightarrow> (coord_error + 'a) \<times> coord_db"

section \<open>The singleton row\<close>

text \<open>The column defaults.\<close>

definition fresh_coordinator :: coordinator_row where
  "fresh_coordinator = \<lparr>uc_requested_action = ''none'', uc_action_generation = 0, uc_acknowledged_generation = 0,
     uc_phase = ''idle'', uc_current_build = None, uc_current_digest = None, uc_available_build = None,
     uc_available_digest = None, uc_updater_last_seen_at = None, uc_updater_observed_build = None,
     uc_updater_observed_digest = None, uc_last_refresh_result = None, uc_last_refresh_detail_code = None,
     uc_last_refresh_from_build = None, uc_last_refresh_to_build = None, uc_last_refresh_at = None,
     uc_requested_at = None, uc_last_checked_at = None, uc_last_started_at = None, uc_last_completed_at = None,
     uc_last_operation = None, uc_last_result = None, uc_last_error_code = None, uc_last_from_build = None,
     uc_last_to_build = None, uc_last_outcome_token_hash = None, uc_last_outcome_fingerprint = None\<rparr>"

definition coord_row :: "coord_db \<Rightarrow> coordinator_row" where
  "coord_row db = (case cd_state db of None \<Rightarrow> fresh_coordinator | Some r \<Rightarrow> r)"

text \<open>The lock creates the row when it is missing.\<close>

definition lock_coord :: "coord_db \<Rightarrow> coord_db" where
  "lock_coord db = db\<lparr>cd_state := Some (coord_row db)\<rparr>"

definition set_coord :: "(coordinator_row \<Rightarrow> coordinator_row) \<Rightarrow> coord_db \<Rightarrow> coord_db" where
  "set_coord f db = db\<lparr>cd_state := Some (f (coord_row db))\<rparr>"

section \<open>Leases\<close>

definition active_drain :: "coord_db \<Rightarrow> lease_row option" where
  "active_drain db = find (\<lambda>l. ml_kind l = Drain) (cd_leases db)"

definition critical_count :: "coord_db \<Rightarrow> int" where
  "critical_count db = int (length (filter (\<lambda>l. ml_kind l = Critical) (cd_leases db)))"

definition lease_for_token :: "coord_db \<Rightarrow> string \<Rightarrow> lease_kind option \<Rightarrow> lease_row option" where
  "lease_for_token db token_hash kind =
     find (\<lambda>l. ml_token_hash l = token_hash \<and> (case kind of None \<Rightarrow> True | Some k \<Rightarrow> ml_kind l = k)) (cd_leases db)"

definition map_leases :: "(lease_row \<Rightarrow> bool) \<Rightarrow> (lease_row \<Rightarrow> lease_row) \<Rightarrow> coord_db \<Rightarrow> coord_db" where
  "map_leases P f db = db\<lparr>cd_leases := map (\<lambda>l. if P l then f l else l) (cd_leases db)\<rparr>"

definition delete_lease :: "lease_row \<Rightarrow> coord_db \<Rightarrow> coord_db" where
  "delete_lease l db = db\<lparr>cd_leases := filter (\<lambda>k. ml_id k \<noteq> ml_id l) (cd_leases db)\<rparr>"

text \<open>An insert is refused by the unique token and by the one-drain index.\<close>

definition insert_lease :: "lease_row \<Rightarrow> lease_row coord_op" where
  "insert_lease l db =
     (if list_ex (\<lambda>k. ml_token_hash k = ml_token_hash l \<or> ml_kind k = Drain \<and> ml_kind l = Drain) (cd_leases db)
      then (Inl UniqueViolation, db)
      else (Inr l, db\<lparr>cd_leases := cd_leases db @ [l], cd_next_id := cd_next_id db + 1\<rparr>))"

definition new_lease ::
  "coord_db \<Rightarrow> string \<Rightarrow> lease_kind \<Rightarrow> string \<Rightarrow> string \<Rightarrow> int option \<Rightarrow> datetime \<Rightarrow> timedelta \<Rightarrow> lease_row" where
  "new_lease db token_hash kind holder operation generation now ttl =
     \<lparr>ml_id = cd_next_id db, ml_token_hash = token_hash, ml_kind = kind, ml_owner = holder,
      ml_operation = Some operation, ml_action_generation = generation, ml_created_at = now, ml_renewed_at = now,
      ml_expires_at = now + ttl\<rparr>"

definition DRAIN_PHASES :: "string list" where
  "DRAIN_PHASES = [''draining'', ''installing'', ''rollback'']"

text \<open>Expired leases go; the expiry of a drain takes the row out of its phases.\<close>

definition cleanup_expired :: "datetime \<Rightarrow> coord_db \<Rightarrow> coord_db" where
  "cleanup_expired now db =
     (let expired_drain = list_ex (\<lambda>l. ml_kind l = Drain \<and> ml_expires_at l \<le> now) (cd_leases db);
          db' = db\<lparr>cd_leases := filter (\<lambda>l. \<not> ml_expires_at l \<le> now) (cd_leases db)\<rparr>
      in if expired_drain
         then set_coord (\<lambda>r. if uc_phase r \<in> set DRAIN_PHASES
                then r\<lparr>uc_phase := ''idle'', uc_last_started_at := None\<rparr> else r) db'
         else db')"

text \<open>The two statements that open the operations which look at leases.\<close>

definition lock_and_sweep :: "datetime \<Rightarrow> coord_db \<Rightarrow> coord_db" where
  "lock_and_sweep now db = cleanup_expired now (lock_coord db)"

section \<open>The recovery clock\<close>

definition phase_timestamp_values :: "string \<Rightarrow> string \<Rightarrow> datetime \<Rightarrow> coordinator_row \<Rightarrow> coordinator_row" where
  "phase_timestamp_values prior resulting now r =
     (if resulting \<notin> set BUSY_COORDINATOR_PHASES then r\<lparr>uc_last_started_at := None\<rparr>
      else if prior \<noteq> resulting then r\<lparr>uc_last_started_at := Some now\<rparr>
      else r)"

definition backfill_legacy_busy_anchor :: "datetime \<Rightarrow> coord_db \<Rightarrow> coord_db" where
  "backfill_legacy_busy_anchor now db =
     (let r = coord_row db in
      if uc_phase r \<notin> set BUSY_COORDINATOR_PHASES \<or> uc_last_started_at r \<noteq> None \<or> uc_requested_at r \<noteq> None then db
      else set_coord (\<lambda>r. r\<lparr>uc_last_started_at := Some (case uc_updater_last_seen_at r of
             None \<Rightarrow> now | Some seen \<Rightarrow> if seen \<le> now then seen else now)\<rparr>) db)"

definition mark_busy_work_dispatched :: "datetime \<Rightarrow> bool coord_op" where
  "mark_busy_work_dispatched now db0 =
     (let db = lock_coord db0 in
      if uc_phase (coord_row db) \<notin> set BUSY_COORDINATOR_PHASES then (Inr False, db)
      else (Inr True, set_coord (\<lambda>r. r\<lparr>uc_last_started_at := Some now\<rparr>) db))"

section \<open>Status and liveness\<close>

text \<open>The snapshot carries the row itself; the code leaves out the two receipt columns.\<close>

record coordinator_snapshot =
  sn_row :: coordinator_row
  sn_active_critical_operations :: int
  sn_drain_owner :: "string option"
  sn_drain_expires_at :: "datetime option"

definition snapshot_coord :: "datetime \<Rightarrow> coordinator_snapshot coord_op" where
  "snapshot_coord now db0 =
     (let db = backfill_legacy_busy_anchor now (lock_and_sweep now db0) in
      (Inr \<lparr>sn_row = coord_row db, sn_active_critical_operations = critical_count db,
            sn_drain_owner = map_option ml_owner (active_drain db),
            sn_drain_expires_at = map_option ml_expires_at (active_drain db)\<rparr>, db))"

text \<open>Writes that refuse a phase this build does not know.\<close>

definition when_phase_known :: "'a coord_op \<Rightarrow> 'a coord_op" where
  "when_phase_known body db =
     (if uc_phase (coord_row db) \<notin> set KNOWN_COORDINATOR_PHASES
      then (Inl (UnknownCoordinatorPhaseError (uc_phase (coord_row db))), db) else body db)"

definition record_updater_identity :: "string option \<Rightarrow> string option \<Rightarrow> unit coord_op" where
  "record_updater_identity build digest db0 = when_phase_known (\<lambda>db.
     (Inr (), set_coord (\<lambda>r. r\<lparr>uc_updater_observed_build := build, uc_updater_observed_digest := digest\<rparr>) db))
     (lock_coord db0)"

definition record_refresh_outcome ::
  "datetime \<Rightarrow> string \<Rightarrow> string option \<Rightarrow> string option \<Rightarrow> string option \<Rightarrow> unit coord_op" where
  "record_refresh_outcome now outcome detail_code from_build to_build db0 = when_phase_known (\<lambda>db.
     (Inr (), set_coord (\<lambda>r. r\<lparr>uc_last_refresh_result := Some outcome, uc_last_refresh_detail_code := detail_code,
        uc_last_refresh_from_build := from_build, uc_last_refresh_to_build := to_build,
        uc_last_refresh_at := Some now\<rparr>) db))
     (lock_coord db0)"

definition touch_updater :: "datetime \<Rightarrow> string option \<Rightarrow> int option \<Rightarrow> bool coord_op" where
  "touch_updater now phase expected db0 = when_phase_known (\<lambda>db1.
     let db = backfill_legacy_busy_anchor now db1;
         prior = uc_phase (coord_row db);
         resulting = (case phase of None \<Rightarrow> prior | Some p \<Rightarrow> p)
     in if expected \<noteq> None \<and> expected \<noteq> Some (uc_action_generation (coord_row db)) then (Inr False, db)
        else (Inr True, set_coord (\<lambda>r. (phase_timestamp_values prior resulting now
               (r\<lparr>uc_updater_last_seen_at := Some now\<rparr>))\<lparr>uc_phase := resulting\<rparr>) db))
     (lock_coord db0)"

section \<open>Operator intent\<close>

definition request_action :: "string \<Rightarrow> datetime \<Rightarrow> int option coord_op" where
  "request_action action now db0 = when_phase_known (\<lambda>db.
     let r = coord_row db in
     if uc_phase r \<in> set BUSY_COORDINATOR_PHASES \<or> uc_requested_action r \<noteq> ''none'' then (Inr None, db)
     else (Inr (Some (uc_action_generation r + 1)), set_coord (\<lambda>r. r\<lparr>uc_requested_action := action,
            uc_action_generation := uc_action_generation r + 1, uc_requested_at := Some now\<rparr>) db))
     (lock_coord db0)"

section \<open>Claims\<close>

definition acquire_critical ::
  "string \<Rightarrow> string \<Rightarrow> string \<Rightarrow> datetime \<Rightarrow> timedelta \<Rightarrow> lease_row option coord_op" where
  "acquire_critical token_hash holder operation now ttl db0 =
     (let db = lock_and_sweep now db0 in
      if active_drain db \<noteq> None then (Inr None, db)
      else case insert_lease (new_lease db token_hash Critical holder operation None now ttl) db of
        (Inl e, db') \<Rightarrow> (Inl e, db')
      | (Inr l, db') \<Rightarrow> (Inr (Some l), db'))"

definition claim_drain ::
  "string \<Rightarrow> string \<Rightarrow> int option \<Rightarrow> bool \<Rightarrow> bool \<Rightarrow> datetime \<Rightarrow> timedelta \<Rightarrow> (lease_row \<times> bool) option coord_op" where
  "claim_drain token_hash holder generation materialize_install require_idle now ttl db0 = when_phase_known (\<lambda>db.
     let r = coord_row db;
         g = (case generation of None \<Rightarrow> uc_action_generation r | Some g \<Rightarrow> g)
     in if active_drain db \<noteq> None then (Inr None, db)
        else if generation \<noteq> None \<and> g \<noteq> uc_action_generation r then (Inr None, db)
        else if require_idle \<and> critical_count db \<noteq> 0 then (Inr None, db)
        else if materialize_install \<and> uc_requested_action r \<noteq> ''none'' then (Inr None, db)
        else let g' = (if materialize_install then uc_action_generation r + 1 else g);
                 db1 = (if materialize_install
                    then set_coord (\<lambda>r. r\<lparr>uc_requested_action := ''install'', uc_action_generation := g',
                           uc_requested_at := Some now\<rparr>) db
                    else db)
             in case insert_lease (new_lease db1 token_hash Drain holder ''container_update'' (Some g') now ttl) db1 of
                  (Inl e, db2) \<Rightarrow> (Inl e, db2)
                | (Inr l, db2) \<Rightarrow>
                    let db3 = set_coord (\<lambda>s. (phase_timestamp_values (uc_phase r) ''draining'' now s)
                          \<lparr>uc_phase := ''draining''\<rparr>) db2
                    in (Inr (Some (l, critical_count db3 = 0)), db3))
     (lock_and_sweep now db0)"

section \<open>Renewal and release\<close>

definition renew_lease :: "string \<Rightarrow> datetime \<Rightarrow> timedelta \<Rightarrow> bool coord_op" where
  "renew_lease token_hash now ttl db0 =
     (let db = lock_and_sweep now db0;
          P = (\<lambda>l. ml_token_hash l = token_hash \<and> ml_expires_at l > now)
      in (Inr (length (filter P (cd_leases db)) = 1),
          map_leases P (\<lambda>l. l\<lparr>ml_renewed_at := now, ml_expires_at := now + ttl\<rparr>) db))"

definition renew_drain_progress :: "string \<Rightarrow> datetime \<Rightarrow> timedelta \<Rightarrow> string option \<Rightarrow> bool option coord_op" where
  "renew_drain_progress token_hash now ttl phase db0 = when_phase_known (\<lambda>db.
     case lease_for_token db token_hash (Some Drain) of
       None \<Rightarrow> (Inr None, db)
     | Some drain \<Rightarrow>
         let ready = (critical_count db = 0);
             prior = uc_phase (coord_row db);
             resulting = (case phase of
                 Some p \<Rightarrow> if ready then p else ''draining''
               | None \<Rightarrow> if prior \<in> set DRAIN_PHASES then prior else ''draining'');
             db1 = map_leases (\<lambda>l. ml_id l = ml_id drain) (\<lambda>l. l\<lparr>ml_renewed_at := now, ml_expires_at := now + ttl\<rparr>) db
         in (Inr (Some ready), set_coord (\<lambda>r. (phase_timestamp_values prior resulting now
               (r\<lparr>uc_updater_last_seen_at := Some now\<rparr>))\<lparr>uc_phase := resulting\<rparr>) db1))
     (lock_and_sweep now db0)"

definition release_lease :: "string \<Rightarrow> datetime \<Rightarrow> bool coord_op" where
  "release_lease token_hash now db0 =
     (let db = lock_and_sweep now db0 in
      case lease_for_token db token_hash None of
        None \<Rightarrow> (Inr False, db)
      | Some lease \<Rightarrow>
          if ml_kind lease \<noteq> Drain then (Inr True, delete_lease lease db)
          else when_phase_known (\<lambda>db. (Inr True, set_coord (\<lambda>r. r\<lparr>uc_phase := ''idle'', uc_last_started_at := None\<rparr>)
                 (delete_lease lease db))) db)"

section \<open>Recovery\<close>

record force_reset_result =
  fs_old_phase :: "string option"
  fs_cleared_requested_action :: "string option"
  fs_old_action_generation :: "int option"
  fs_new_action_generation :: "int option"

text \<open>What a recovery does to the row, once it is decided.\<close>

definition recovery_values :: "recovery_decision \<Rightarrow> coordinator_row \<Rightarrow> coordinator_row" where
  "recovery_values d r =
     (let r1 = (if rd_action d = REANCHOR then r\<lparr>uc_phase := ''idle'', uc_last_started_at := None\<rparr> else r);
          r2 = (if rd_fence_generation d \<and> rd_clear_unknown_action d then r1\<lparr>uc_requested_action := ''none''\<rparr> else r1)
      in if rd_fence_generation d then r2\<lparr>uc_action_generation := uc_action_generation r + 1\<rparr> else r2)"

definition force_reset_phase :: "datetime \<Rightarrow> timedelta \<Rightarrow> force_reset_result option coord_op" where
  "force_reset_phase now recovery_max_age db0 =
     (let db = backfill_legacy_busy_anchor now (lock_and_sweep now db0);
          r = coord_row db;
          phase_started_at = (if uc_phase r \<in> set BUSY_COORDINATOR_PHASES
             then (case uc_last_started_at r of Some a \<Rightarrow> Some a | None \<Rightarrow> uc_requested_at r) else None);
          d = decide_recovery (uc_phase r) (uc_requested_action r) (active_drain db \<noteq> None) phase_started_at
                now recovery_max_age
      in case rd_action d of
           LIVE_DRAIN \<Rightarrow> (Inl (DrainLeaseActiveError (uc_phase r)), db)
         | WAIT \<Rightarrow> (Inl (CoordinatorRecoveryNotReadyError (rd_reason d)), db)
         | NOOP \<Rightarrow> (Inr None, db)
         | _ \<Rightarrow> (Inr (Some \<lparr>fs_old_phase = (if rd_action d = REANCHOR then Some (uc_phase r) else None),
                fs_cleared_requested_action = (if rd_fence_generation d \<and> rd_clear_unknown_action d
                  then Some (uc_requested_action r) else None),
                fs_old_action_generation = (if rd_fence_generation d then Some (uc_action_generation r) else None),
                fs_new_action_generation = (if rd_fence_generation d then Some (uc_action_generation r + 1) else None)\<rparr>),
              set_coord (recovery_values d) db))"

section \<open>Outcomes\<close>

text \<open>The image columns of a check: each one is left alone or overwritten, perhaps with nothing.\<close>

record image_values =
  iv_current_build :: "string option option"
  iv_current_digest :: "string option option"
  iv_available_build :: "string option option"
  iv_available_digest :: "string option option"

definition keep_or :: "'a option \<Rightarrow> 'a \<Rightarrow> 'a" where
  "keep_or new old = (case new of None \<Rightarrow> old | Some v \<Rightarrow> v)"

definition acknowledge_action ::
  "int \<Rightarrow> string \<Rightarrow> string \<Rightarrow> string option \<Rightarrow> image_values \<Rightarrow> bool \<Rightarrow> datetime \<Rightarrow> bool coord_op" where
  "acknowledge_action expected phase outcome error_code images preserve_action now db0 = when_phase_known (\<lambda>db.
     if uc_action_generation (coord_row db) \<noteq> expected then (Inr False, db)
     else (Inr True, set_coord (\<lambda>r.
       let r1 = (phase_timestamp_values (uc_phase r) phase now r)\<lparr>uc_phase := phase, uc_last_operation := Some ''check'',
              uc_last_result := Some outcome, uc_last_error_code := error_code, uc_last_from_build := None,
              uc_last_to_build := None, uc_last_outcome_token_hash := None, uc_last_outcome_fingerprint := None,
              uc_last_completed_at := Some now, uc_last_checked_at := Some now, uc_updater_last_seen_at := Some now\<rparr>;
           r2 = (if preserve_action then r1
                 else r1\<lparr>uc_requested_action := ''none'', uc_acknowledged_generation := expected\<rparr>)
       in r2\<lparr>uc_current_build := keep_or (iv_current_build images) (uc_current_build r2),
             uc_current_digest := keep_or (iv_current_digest images) (uc_current_digest r2),
             uc_available_build := keep_or (iv_available_build images) (uc_available_build r2),
             uc_available_digest := keep_or (iv_available_digest images) (uc_available_digest r2)\<rparr>) db))
     (lock_coord db0)"

record install_outcome =
  io_expected_generation :: "int option"
  io_phase :: string
  io_result :: string
  io_error_code :: "string option"
  io_from_build :: "string option"
  io_to_build :: "string option"
  io_current_build :: "string option"
  io_current_digest :: "string option"
  io_fingerprint :: string

text \<open>A lost response is answered again only for the exact receipt.\<close>

definition receipt_matches :: "string \<Rightarrow> install_outcome \<Rightarrow> coordinator_row \<Rightarrow> bool" where
  "receipt_matches token_hash oc r \<longleftrightarrow>
     (io_expected_generation oc = None \<or> io_expected_generation oc = Some (uc_acknowledged_generation r))
     \<and> uc_last_outcome_token_hash r = Some token_hash
     \<and> uc_last_outcome_fingerprint r = Some (io_fingerprint oc)
     \<and> uc_last_result r = Some (io_result oc)"

definition outcome_values :: "string \<Rightarrow> install_outcome \<Rightarrow> lease_row \<Rightarrow> datetime \<Rightarrow> coordinator_row \<Rightarrow> coordinator_row" where
  "outcome_values token_hash oc drain now r =
     (let r1 = (phase_timestamp_values (uc_phase r) (io_phase oc) now r)\<lparr>uc_phase := io_phase oc,
            uc_last_operation := Some ''install'', uc_last_result := Some (io_result oc),
            uc_last_error_code := io_error_code oc, uc_last_from_build := io_from_build oc,
            uc_last_to_build := io_to_build oc, uc_last_outcome_token_hash := Some token_hash,
            uc_last_outcome_fingerprint := Some (io_fingerprint oc), uc_last_completed_at := Some now,
            uc_available_build := None, uc_available_digest := None, uc_updater_last_seen_at := Some now\<rparr>;
          r2 = (case io_current_build oc of None \<Rightarrow> r1 | Some b \<Rightarrow> r1\<lparr>uc_current_build := Some b\<rparr>);
          r3 = (case io_current_digest oc of None \<Rightarrow> r2 | Some d \<Rightarrow> r2\<lparr>uc_current_digest := Some d\<rparr>)
      in case ml_action_generation drain of
           None \<Rightarrow> r3
         | Some g \<Rightarrow> if g = uc_action_generation r
             then r3\<lparr>uc_requested_action := ''none'', uc_acknowledged_generation := g\<rparr> else r3)"

definition acknowledge_outcome :: "string \<Rightarrow> install_outcome \<Rightarrow> datetime \<Rightarrow> bool coord_op" where
  "acknowledge_outcome token_hash oc now db0 = when_phase_known (\<lambda>db.
     case lease_for_token db token_hash (Some Drain) of
       None \<Rightarrow> (Inr (receipt_matches token_hash oc (coord_row db)), db)
     | Some drain \<Rightarrow>
         if (case io_expected_generation oc of None \<Rightarrow> False | Some g \<Rightarrow>
              ml_action_generation drain \<noteq> Some g \<or> uc_action_generation (coord_row db) \<noteq> g)
         then (Inr False, db)
         else (Inr True, delete_lease drain (set_coord (outcome_values token_hash oc drain now) db)))
     (lock_and_sweep now db0)"

end
