(* ===== verification/UpdateService.thy ===== *)
theory UpdateService
  imports UpdateCoordination PyStr
begin

text \<open>
  The application's face of the coordinator (\<open>services/update_coordination_service.py\<close>): argument checks, token
  digests, and the transaction around every call of the repository. The digest (SHA-256 in hexadecimal) is the
  argument \<open>sha\<close>; the clock's answer is \<open>now\<close>. Not modelled: the context manager \<open>critical_operation\<close>, whose
  renewal loop is a sequence of \<open>renew\<close> calls.
\<close>

section \<open>Vocabulary and argument checks\<close>

datatype update_action = CheckAction | InstallAction

definition action_value :: "update_action \<Rightarrow> string" where
  "action_value a = (case a of CheckAction \<Rightarrow> ''check'' | InstallAction \<Rightarrow> ''install'')"

datatype update_phase =
  Ph_idle | Ph_checking | Ph_available | Ph_draining | Ph_installing | Ph_rollback | Ph_succeeded | Ph_failed | Ph_rolled_back

definition phase_value :: "update_phase \<Rightarrow> string" where
  "phase_value p = (case p of Ph_idle \<Rightarrow> ''idle'' | Ph_checking \<Rightarrow> ''checking'' | Ph_available \<Rightarrow> ''available''
     | Ph_draining \<Rightarrow> ''draining'' | Ph_installing \<Rightarrow> ''installing'' | Ph_rollback \<Rightarrow> ''rollback''
     | Ph_succeeded \<Rightarrow> ''succeeded'' | Ph_failed \<Rightarrow> ''failed'' | Ph_rolled_back \<Rightarrow> ''rolled_back'')"

datatype update_result = Res_no_update | Res_update_available | Res_success | Res_failed | Res_rolled_back | Res_cancelled

definition result_value :: "update_result \<Rightarrow> string" where
  "result_value r = (case r of Res_no_update \<Rightarrow> ''no_update'' | Res_update_available \<Rightarrow> ''update_available''
     | Res_success \<Rightarrow> ''success'' | Res_failed \<Rightarrow> ''failed'' | Res_rolled_back \<Rightarrow> ''rolled_back'' | Res_cancelled \<Rightarrow> ''cancelled'')"

definition phase_for_result :: "update_result \<Rightarrow> update_phase" where
  "phase_for_result r = (if r = Res_update_available then Ph_available
     else if r \<in> {Res_no_update, Res_cancelled} then Ph_idle
     else if r = Res_success then Ph_succeeded
     else if r = Res_rolled_back then Ph_rolled_back else Ph_failed)"

definition UPDATER_HEARTBEAT_MAX_AGE :: timedelta where
  "UPDATER_HEARTBEAT_MAX_AGE = seconds 45"

definition COORDINATOR_RECOVERY_MAX_AGE :: timedelta where
  "COORDINATOR_RECOVERY_MAX_AGE = minutes 10"

definition DEFAULT_CRITICAL_TTL :: timedelta where
  "DEFAULT_CRITICAL_TTL = minutes 5"

definition positive_ttl :: "timedelta \<Rightarrow> coord_error + timedelta" where
  "positive_ttl ttl = (if ttl \<le> 0 then Inl BadValue else Inr ttl)"

definition token_hash :: "(string \<Rightarrow> string) \<Rightarrow> string \<Rightarrow> coord_error + string" where
  "token_hash sha token = (if token = [] then Inl BadValue else Inr (sha token))"

text \<open>\<open>[a-z][a-z0-9_.-]{0,127}\<close>\<close>

definition lower_ascii :: "char \<Rightarrow> bool" where
  "lower_ascii c \<longleftrightarrow> code CHR ''a'' \<le> code c \<and> code c \<le> code CHR ''z''"

definition ascii_digit :: "char \<Rightarrow> bool" where
  "ascii_digit c \<longleftrightarrow> code CHR ''0'' \<le> code c \<and> code c \<le> code CHR ''9''"

definition is_code :: "string \<Rightarrow> bool" where
  "is_code s \<longleftrightarrow> (case s of [] \<Rightarrow> False
     | c # cs \<Rightarrow> lower_ascii c \<and> length cs \<le> 127
         \<and> list_all (\<lambda>c. lower_ascii c \<or> ascii_digit c \<or> c \<in> {CHR ''_'', CHR ''.'', CHR ''-''}) cs)"

definition bounded_code :: "string option \<Rightarrow> coord_error + string option" where
  "bounded_code v = (case v of None \<Rightarrow> Inr None | Some s \<Rightarrow> if is_code s then Inr (Some s) else Inl BadValue)"

definition BOUNDED_TEXT_MAX :: nat where
  "BOUNDED_TEXT_MAX = 400"

definition bounded_text :: "string option \<Rightarrow> coord_error + string option" where
  "bounded_text v = (case v of None \<Rightarrow> Inr None
     | Some s \<Rightarrow> if s = [] \<or> length s > BOUNDED_TEXT_MAX \<or> list_ex (\<lambda>c. code c < 32 \<or> code c = 127) s
               then Inl BadValue else Inr (Some s))"

section \<open>The outcome's fingerprint\<close>

text \<open>\<open>json.dumps(payload, ensure_ascii=True, separators=(",", ":"))\<close> of a list of numbers, strings and nulls.\<close>

definition json_char :: "char \<Rightarrow> string" where
  "json_char c =
     (if c = CHR 0x22 then [CHR 0x5C, CHR 0x22] else if c = CHR 0x5C then [CHR 0x5C, CHR 0x5C]
      else if c = CHR 0x0A then [CHR 0x5C, CHR ''n''] else if c = CHR 0x0D then [CHR 0x5C, CHR ''r'']
      else if c = CHR 0x09 then [CHR 0x5C, CHR ''t''] else if c = CHR 0x0C then [CHR 0x5C, CHR ''f'']
      else if c = CHR 0x08 then [CHR 0x5C, CHR ''b'']
      else if 32 \<le> code c \<and> code c \<le> 126 then [c]
      else [CHR 0x5C, CHR ''u'', CHR ''0'', CHR ''0'', hex_digit (code c div 16), hex_digit (code c mod 16)])"

definition json_string :: "string option \<Rightarrow> string" where
  "json_string v = (case v of None \<Rightarrow> ''null'' | Some s \<Rightarrow> [CHR 0x22] @ concat (map json_char s) @ [CHR 0x22])"

definition json_int :: "int option \<Rightarrow> string" where
  "json_int v = (case v of None \<Rightarrow> ''null'' | Some n \<Rightarrow> py_str_int n)"

fun comma_joined :: "string list \<Rightarrow> string" where
  "comma_joined [] = []"
| "comma_joined [s] = s"
| "comma_joined (s # t # ss) = s @ '','' @ comma_joined (t # ss)"

definition json_list :: "string list \<Rightarrow> string" where
  "json_list items = ''['' @ comma_joined items @ '']''"

record outcome_report =
  or_result :: update_result
  or_expected_generation :: "int option"
  or_error_code :: "string option"
  or_from_build :: "string option"
  or_to_build :: "string option"
  or_current_build :: "string option"
  or_current_digest :: "string option"
  or_available_build :: "string option"
  or_available_digest :: "string option"

definition outcome_payload :: "outcome_report \<Rightarrow> string" where
  "outcome_payload rep = json_list ([json_int (or_expected_generation rep), json_string (Some (result_value (or_result rep)))]
     @ map json_string [or_error_code rep, or_from_build rep, or_to_build rep, or_current_build rep, or_current_digest rep,
         or_available_build rep, or_available_digest rep])"

definition outcome_fingerprint :: "(string \<Rightarrow> string) \<Rightarrow> outcome_report \<Rightarrow> string" where
  "outcome_fingerprint sha rep = sha (outcome_payload rep)"

section \<open>Transactions\<close>

text \<open>A call that raises leaves the session without a commit.\<close>

definition transaction :: "'a coord_op \<Rightarrow> 'a coord_op" where
  "transaction body db = (case body db of (Inl e, _) \<Rightarrow> (Inl e, db) | (Inr x, db') \<Rightarrow> (Inr x, db'))"

text \<open>Checks that precede the session.\<close>

definition checked :: "(coord_error + 'b) \<Rightarrow> ('b \<Rightarrow> 'a coord_op) \<Rightarrow> 'a coord_op" where
  "checked v body db = (case v of Inl e \<Rightarrow> (Inl e, db) | Inr x \<Rightarrow> body x db)"

record lease_grant =
  lg_token :: string
  lg_kind :: lease_kind
  lg_owner :: string
  lg_operation :: "string option"
  lg_action_generation :: "int option"
  lg_expires_at :: datetime

definition grant_of :: "string \<Rightarrow> lease_row \<Rightarrow> lease_grant" where
  "grant_of token l = \<lparr>lg_token = token, lg_kind = ml_kind l, lg_owner = ml_owner l, lg_operation = ml_operation l,
     lg_action_generation = ml_action_generation l, lg_expires_at = ml_expires_at l\<rparr>"

definition map_answer :: "('a \<Rightarrow> 'b) \<Rightarrow> (coord_error + 'a) \<times> coord_db \<Rightarrow> (coord_error + 'b) \<times> coord_db" where
  "map_answer f r = (map_sum id f (fst r), snd r)"

definition initialize_svc :: "unit coord_op" where
  "initialize_svc = transaction (\<lambda>db. (Inr (), lock_coord db))"

definition snapshot_svc :: "datetime \<Rightarrow> coordinator_snapshot coord_op" where
  "snapshot_svc now = transaction (snapshot_coord now)"

text \<open>The first of the two transactions of \<open>touch_updater\<close>, and both in a row.\<close>

definition touch_svc :: "datetime \<Rightarrow> update_phase option \<Rightarrow> int option \<Rightarrow> bool coord_op" where
  "touch_svc now phase expected = transaction (touch_updater now (map_option phase_value phase) expected)"

definition touch_updater_svc ::
  "datetime \<Rightarrow> update_phase option \<Rightarrow> int option \<Rightarrow> coordinator_snapshot option coord_op" where
  "touch_updater_svc now phase expected db = (case touch_svc now phase expected db of
       (Inl e, db') \<Rightarrow> (Inl e, db')
     | (Inr touched, db') \<Rightarrow> if touched then map_answer Some (snapshot_svc now db') else (Inr None, db'))"

definition mark_busy_svc :: "datetime \<Rightarrow> bool coord_op" where
  "mark_busy_svc now = transaction (mark_busy_work_dispatched now)"

definition record_identity_svc :: "string option \<Rightarrow> string option \<Rightarrow> unit coord_op" where
  "record_identity_svc build digest = checked (bounded_text build) (\<lambda>b. checked (bounded_text digest) (\<lambda>d.
     transaction (record_updater_identity b d)))"

definition record_refresh_svc ::
  "datetime \<Rightarrow> string option \<Rightarrow> string option \<Rightarrow> string option \<Rightarrow> string option \<Rightarrow> unit coord_op" where
  "record_refresh_svc now outcome detail_code from_build to_build =
     checked (bounded_code outcome) (\<lambda>r. case r of None \<Rightarrow> (\<lambda>db. (Inl BadValue, db)) | Some res \<Rightarrow>
     checked (bounded_code detail_code) (\<lambda>d. checked (bounded_text from_build) (\<lambda>f. checked (bounded_text to_build) (\<lambda>t.
       transaction (record_refresh_outcome now res d f t)))))"

definition request_action_svc :: "datetime \<Rightarrow> update_action \<Rightarrow> int coord_op" where
  "request_action_svc now action = transaction (\<lambda>db. case request_action (action_value action) now db of
       (Inl e, db') \<Rightarrow> (Inl e, db')
     | (Inr None, db') \<Rightarrow> (Inl UpdateOperationInProgressError, db')
     | (Inr (Some g), db') \<Rightarrow> (Inr g, db'))"

definition checked_image :: "string option option \<Rightarrow> coord_error + string option option" where
  "checked_image v = (case v of None \<Rightarrow> Inr None | Some t \<Rightarrow> map_sum id Some (bounded_text t))"

definition acknowledge_action_svc ::
  "datetime \<Rightarrow> int \<Rightarrow> update_result \<Rightarrow> string option \<Rightarrow> image_values \<Rightarrow> bool \<Rightarrow> bool coord_op" where
  "acknowledge_action_svc now expected outcome error_code images preserve_action =
     checked (bounded_code error_code) (\<lambda>e. checked (checked_image (iv_current_build images)) (\<lambda>cb.
     checked (checked_image (iv_current_digest images)) (\<lambda>cg. checked (checked_image (iv_available_build images)) (\<lambda>ab.
     checked (checked_image (iv_available_digest images)) (\<lambda>ag.
       transaction (acknowledge_action expected (phase_value (phase_for_result outcome)) (result_value outcome) e
         \<lparr>iv_current_build = cb, iv_current_digest = cg, iv_available_build = ab, iv_available_digest = ag\<rparr>
         preserve_action now))))))"

definition code_or_empty :: "string option \<Rightarrow> string" where
  "code_or_empty c = (case c of None \<Rightarrow> [] | Some s \<Rightarrow> s)"

definition acquire_critical_svc ::
  "(string \<Rightarrow> string) \<Rightarrow> datetime \<Rightarrow> string \<Rightarrow> string \<Rightarrow> timedelta \<Rightarrow> string \<Rightarrow> lease_grant option coord_op" where
  "acquire_critical_svc sha now operation holder ttl token =
     checked (bounded_code (Some operation)) (\<lambda>op. checked (bounded_code (Some holder)) (\<lambda>ow.
     checked (positive_ttl ttl) (\<lambda>t. checked (token_hash sha token) (\<lambda>h.
       \<lambda>db. map_answer (map_option (grant_of token))
         (transaction (acquire_critical h (code_or_empty ow) (code_or_empty op) now t) db)))))"

definition claim_drain_svc ::
  "(string \<Rightarrow> string) \<Rightarrow> datetime \<Rightarrow> string \<Rightarrow> timedelta \<Rightarrow> int option \<Rightarrow> bool \<Rightarrow> bool \<Rightarrow> string
     \<Rightarrow> (lease_grant \<times> bool) option coord_op" where
  "claim_drain_svc sha now holder ttl generation materialize_install require_idle token =
     checked (bounded_code (Some holder)) (\<lambda>ow. checked (positive_ttl ttl) (\<lambda>t. checked (token_hash sha token) (\<lambda>h.
       \<lambda>db. map_answer (map_option (map_prod (grant_of token) id))
         (transaction (claim_drain h (code_or_empty ow) generation materialize_install require_idle now t) db))))"

definition renew_svc :: "(string \<Rightarrow> string) \<Rightarrow> datetime \<Rightarrow> string \<Rightarrow> timedelta \<Rightarrow> bool coord_op" where
  "renew_svc sha now token ttl = checked (positive_ttl ttl) (\<lambda>t. checked (token_hash sha token) (\<lambda>h.
     transaction (renew_lease h now t)))"

definition renew_drain_svc ::
  "(string \<Rightarrow> string) \<Rightarrow> datetime \<Rightarrow> string \<Rightarrow> timedelta \<Rightarrow> update_phase option \<Rightarrow> bool option coord_op" where
  "renew_drain_svc sha now token ttl phase = checked (positive_ttl ttl) (\<lambda>t. checked (token_hash sha token) (\<lambda>h.
     transaction (renew_drain_progress h now t (map_option phase_value phase))))"

definition release_svc :: "(string \<Rightarrow> string) \<Rightarrow> datetime \<Rightarrow> string \<Rightarrow> bool coord_op" where
  "release_svc sha now token = checked (token_hash sha token) (\<lambda>h. transaction (release_lease h now))"

text \<open>A reset and its audit row are one transaction; a refusal commits what was observed.\<close>

definition reset_audit :: "int option \<Rightarrow> force_reset_result \<Rightarrow> audit_row" where
  "reset_audit actor r =
     \<lparr>au_user_id = actor, au_action_type = ''update.coordinator_phase_force_reset'',
      au_entity_type = ''update_coordinator'', au_entity_id = Some 1,
      au_old_value = (case fs_old_phase r of None \<Rightarrow> [] | Some p \<Rightarrow> [(''phase'', AuditText p)])
        @ (case fs_cleared_requested_action r of None \<Rightarrow> [] | Some a \<Rightarrow> [(''requested_action'', AuditText a)])
        @ (case (fs_old_action_generation r, fs_new_action_generation r) of
             (Some g, Some _) \<Rightarrow> [(''action_generation'', AuditNumber g)] | _ \<Rightarrow> []),
      au_new_value = (case fs_old_phase r of None \<Rightarrow> [] | Some _ \<Rightarrow> [(''phase'', AuditText (phase_value Ph_idle))])
        @ (case fs_cleared_requested_action r of None \<Rightarrow> [] | Some _ \<Rightarrow> [(''requested_action'', AuditText ''none'')])
        @ (case (fs_old_action_generation r, fs_new_action_generation r) of
             (Some _, Some g) \<Rightarrow> [(''action_generation'', AuditNumber g)] | _ \<Rightarrow> []),
      au_description = (case fs_old_phase r of
          Some _ \<Rightarrow> ''Force-reset the update coordinator phase to idle.''
        | None \<Rightarrow> ''Cleared an unrecognized queued updater action.'')\<rparr>"

definition force_reset_svc :: "datetime \<Rightarrow> int option \<Rightarrow> timedelta \<Rightarrow> force_reset_result option coord_op" where
  "force_reset_svc now actor max_age = checked (positive_ttl max_age) (\<lambda>age db. case force_reset_phase now age db of
       (Inr (Some r), db') \<Rightarrow> (Inr (Some r), db'\<lparr>cd_audit := cd_audit db' @ [reset_audit actor r]\<rparr>)
     | (Inr None, db') \<Rightarrow> (Inr None, db')
     | (Inl e, db') \<Rightarrow> (Inl e, case e of CoordinatorRecoveryNotReadyError _ \<Rightarrow> db' | DrainLeaseActiveError _ \<Rightarrow> db' | _ \<Rightarrow> db))"

definition install_outcome_of :: "(string \<Rightarrow> string) \<Rightarrow> outcome_report \<Rightarrow> install_outcome" where
  "install_outcome_of sha rep =
     \<lparr>io_expected_generation = or_expected_generation rep, io_phase = phase_value (phase_for_result (or_result rep)),
      io_result = result_value (or_result rep), io_error_code = or_error_code rep, io_from_build = or_from_build rep,
      io_to_build = or_to_build rep, io_current_build = or_current_build rep, io_current_digest = or_current_digest rep,
      io_fingerprint = outcome_fingerprint sha rep\<rparr>"

definition checked_report :: "outcome_report \<Rightarrow> coord_error + outcome_report" where
  "checked_report rep =
     (if bounded_code (or_error_code rep) = Inl BadValue
       \<or> list_ex (\<lambda>t. bounded_text t = Inl BadValue) [or_from_build rep, or_to_build rep, or_current_build rep,
            or_current_digest rep, or_available_build rep, or_available_digest rep]
      then Inl BadValue else Inr rep)"

definition acknowledge_outcome_svc :: "(string \<Rightarrow> string) \<Rightarrow> datetime \<Rightarrow> string \<Rightarrow> outcome_report \<Rightarrow> bool coord_op" where
  "acknowledge_outcome_svc sha now token rep = checked (checked_report rep) (\<lambda>rep. checked (token_hash sha token) (\<lambda>h.
     transaction (acknowledge_outcome h (install_outcome_of sha rep) now)))"

definition updater_available :: "datetime \<Rightarrow> coordinator_snapshot \<Rightarrow> timedelta \<Rightarrow> coord_error + bool" where
  "updater_available now snap max_age = map_sum id (\<lambda>age. case uc_updater_last_seen_at (sn_row snap) of
       None \<Rightarrow> False | Some seen \<Rightarrow> 0 \<le> now - seen \<and> now - seen \<le> age) (positive_ttl max_age)"

section \<open>Histories\<close>

text \<open>
  The calls of the service, each one a committed transaction, and their effect. \<open>Skew\<close> is another build of the
  program that moves the row to a phase, an action or an anchor of its own, at its present generation or a later one.
\<close>

datatype coord_call =
    Initialize
  | Snapshot
  | Touch "update_phase option" "int option"
  | MarkBusy
  | RecordIdentity "string option" "string option"
  | RecordRefresh "string option" "string option" "string option" "string option"
  | RequestAction update_action
  | AcknowledgeAction int update_result "string option" image_values bool
  | AcquireCritical string string timedelta string
  | ClaimDrain string timedelta "int option" bool bool string
  | Renew string timedelta
  | RenewDrain string timedelta "update_phase option"
  | Release string
  | ForceReset "int option" timedelta
  | AcknowledgeOutcome string outcome_report
  | Skew string string nat

fun call_effect :: "(string \<Rightarrow> string) \<Rightarrow> datetime \<Rightarrow> coord_call \<Rightarrow> coord_db \<Rightarrow> coord_db" where
  "call_effect sha now Initialize db = snd (initialize_svc db)"
| "call_effect sha now Snapshot db = snd (snapshot_svc now db)"
| "call_effect sha now (Touch p g) db = snd (touch_svc now p g db)"
| "call_effect sha now MarkBusy db = snd (mark_busy_svc now db)"
| "call_effect sha now (RecordIdentity b d) db = snd (record_identity_svc b d db)"
| "call_effect sha now (RecordRefresh r d f t) db = snd (record_refresh_svc now r d f t db)"
| "call_effect sha now (RequestAction a) db = snd (request_action_svc now a db)"
| "call_effect sha now (AcknowledgeAction g r e i p) db = snd (acknowledge_action_svc now g r e i p db)"
| "call_effect sha now (AcquireCritical p h ttl token) db = snd (acquire_critical_svc sha now p h ttl token db)"
| "call_effect sha now (ClaimDrain h ttl g m i token) db = snd (claim_drain_svc sha now h ttl g m i token db)"
| "call_effect sha now (Renew token ttl) db = snd (renew_svc sha now token ttl db)"
| "call_effect sha now (RenewDrain token ttl p) db = snd (renew_drain_svc sha now token ttl p db)"
| "call_effect sha now (Release token) db = snd (release_svc sha now token db)"
| "call_effect sha now (ForceReset actor age) db = snd (force_reset_svc now actor age db)"
| "call_effect sha now (AcknowledgeOutcome token rep) db = snd (acknowledge_outcome_svc sha now token rep db)"
| "call_effect sha now (Skew p a n) db = set_coord (\<lambda>r. r\<lparr>uc_phase := p, uc_requested_action := a,
      uc_action_generation := uc_action_generation r + int n\<rparr>) db"

fun run_calls :: "(string \<Rightarrow> string) \<Rightarrow> (datetime \<times> coord_call) list \<Rightarrow> coord_db \<Rightarrow> coord_db" where
  "run_calls sha [] db = db"
| "run_calls sha ((now, call) # calls) db = run_calls sha calls (call_effect sha now call db)"

text \<open>The token a call hands out.\<close>

definition token_of :: "coord_call \<Rightarrow> string option" where
  "token_of call = (case call of AcquireCritical _ _ _ t \<Rightarrow> Some t | ClaimDrain _ _ _ _ _ t \<Rightarrow> Some t | _ \<Rightarrow> None)"

end
