(* ===== verification/UpdateEffects.thy ===== *)
theory UpdateEffects
  imports UpdateService
begin

text \<open>
  What each operation of the coordinator does to the leases and the generation, as one relation (\<open>coord_move\<close>)
  that every call satisfies, and the exact outcome of the two claims.
\<close>

section \<open>Reading through the writes\<close>

named_theorems coord_simps

lemma row_simps [coord_simps, simp]:
  "coord_row (set_coord f db) = f (coord_row db)"
  "coord_row (lock_coord db) = coord_row db"
  "coord_row (db\<lparr>cd_leases := ls\<rparr>) = coord_row db"
  "coord_row (db\<lparr>cd_audit := au\<rparr>) = coord_row db"
  "coord_row (map_leases P g db) = coord_row db"
  "coord_row (delete_lease l db) = coord_row db"
  by (simp_all add: coord_row_def set_coord_def lock_coord_def map_leases_def delete_lease_def)

lemma lease_simps [coord_simps, simp]:
  "cd_leases (set_coord f db) = cd_leases db"
  "cd_leases (lock_coord db) = cd_leases db"
  "cd_leases (map_leases P g db) = map (\<lambda>l. if P l then g l else l) (cd_leases db)"
  "cd_leases (delete_lease l db) = filter (\<lambda>k. ml_id k \<noteq> ml_id l) (cd_leases db)"
  "cd_leases (backfill_legacy_busy_anchor now db) = cd_leases db"
  "cd_leases (cleanup_expired now db) = filter (\<lambda>l. now < ml_expires_at l) (cd_leases db)"
  "cd_leases (lock_and_sweep now db) = filter (\<lambda>l. now < ml_expires_at l) (cd_leases db)"
  by (simp_all add: set_coord_def lock_coord_def map_leases_def delete_lease_def backfill_legacy_busy_anchor_def
      cleanup_expired_def lock_and_sweep_def Let_def not_le)

lemma next_id_simps [coord_simps, simp]:
  "cd_next_id (set_coord f db) = cd_next_id db"
  "cd_next_id (lock_coord db) = cd_next_id db"
  "cd_next_id (map_leases P g db) = cd_next_id db"
  "cd_next_id (delete_lease l db) = cd_next_id db"
  "cd_next_id (backfill_legacy_busy_anchor now db) = cd_next_id db"
  "cd_next_id (cleanup_expired now db) = cd_next_id db"
  "cd_next_id (lock_and_sweep now db) = cd_next_id db"
  by (simp_all add: set_coord_def lock_coord_def map_leases_def delete_lease_def backfill_legacy_busy_anchor_def
      cleanup_expired_def lock_and_sweep_def Let_def)

abbreviation generation :: "coord_db \<Rightarrow> int" where
  "generation db \<equiv> uc_action_generation (coord_row db)"

abbreviation acknowledged :: "coord_db \<Rightarrow> int" where
  "acknowledged db \<equiv> uc_acknowledged_generation (coord_row db)"

lemma timestamps_simps [coord_simps, simp]:
  "uc_action_generation (phase_timestamp_values p q now r) = uc_action_generation r"
  "uc_acknowledged_generation (phase_timestamp_values p q now r) = uc_acknowledged_generation r"
  "uc_requested_action (phase_timestamp_values p q now r) = uc_requested_action r"
  "uc_phase (phase_timestamp_values p q now r) = uc_phase r"
  "uc_last_outcome_token_hash (phase_timestamp_values p q now r) = uc_last_outcome_token_hash r"
  "uc_last_outcome_fingerprint (phase_timestamp_values p q now r) = uc_last_outcome_fingerprint r"
  "uc_last_result (phase_timestamp_values p q now r) = uc_last_result r"
  "uc_updater_last_seen_at (phase_timestamp_values p q now r) = uc_updater_last_seen_at r"
  "uc_requested_at (phase_timestamp_values p q now r) = uc_requested_at r"
  by (simp_all add: phase_timestamp_values_def)

lemma sweep_row:
  "coord_row (lock_and_sweep now db) =
     (if (\<exists>l \<in> set (cd_leases db). ml_kind l = Drain \<and> ml_expires_at l \<le> now) \<and> uc_phase (coord_row db) \<in> set DRAIN_PHASES
      then (coord_row db)\<lparr>uc_phase := ''idle'', uc_last_started_at := None\<rparr> else coord_row db)"
  by (auto simp: lock_and_sweep_def cleanup_expired_def Let_def list_ex_iff coord_simps)

lemma sweep_keeps [coord_simps, simp]:
  "generation (lock_and_sweep now db) = generation db"
  "acknowledged (lock_and_sweep now db) = acknowledged db"
  by (simp_all add: sweep_row)

lemma backfill_keeps [coord_simps, simp]:
  "generation (backfill_legacy_busy_anchor now db) = generation db"
  "acknowledged (backfill_legacy_busy_anchor now db) = acknowledged db"
  "uc_phase (coord_row (backfill_legacy_busy_anchor now db)) = uc_phase (coord_row db)"
  by (simp_all add: backfill_legacy_busy_anchor_def Let_def)

section \<open>How a call moves the leases\<close>

definition same_lease :: "lease_row \<Rightarrow> lease_row \<Rightarrow> bool" where
  "same_lease k l \<longleftrightarrow> ml_id k = ml_id l \<and> ml_token_hash k = ml_token_hash l \<and> ml_kind k = ml_kind l
     \<and> ml_action_generation k = ml_action_generation l"

lemma same_lease_refl [simp]: "same_lease l l"
  by (simp add: same_lease_def)

text \<open>
  Leases are kept or dropped; at most one is added, under the token the call handed out, and only where no
  drain is left. Only a raised generation is acknowledged, and a drain is claimed at the present one.
\<close>

definition coord_move :: "string option \<Rightarrow> coord_db \<Rightarrow> coord_db \<Rightarrow> bool" where
  "coord_move h db db' \<longleftrightarrow>
     (\<exists>f P new. cd_leases db' = map f (filter P (cd_leases db)) @ new \<and> (\<forall>l. same_lease (f l) l)
        \<and> (new = [] \<and> cd_next_id db' = cd_next_id db
           \<or> (\<exists>l. new = [l] \<and> h = Some (ml_token_hash l) \<and> ml_id l = cd_next_id db
                \<and> cd_next_id db' = cd_next_id db + 1
                \<and> ml_action_generation l \<in> {None, Some (generation db')}
                \<and> (\<forall>k \<in> set (cd_leases db). P k \<longrightarrow> ml_kind k = Critical))))
     \<and> generation db \<le> generation db'
     \<and> (acknowledged db' = acknowledged db \<or> acknowledged db' = generation db')"

lemma move_kept:
  assumes "cd_leases db' = map f (filter P (cd_leases db))" "\<And>l. same_lease (f l) l" "cd_next_id db' = cd_next_id db"
    and "generation db \<le> generation db'" "acknowledged db' = acknowledged db \<or> acknowledged db' = generation db'"
  shows "coord_move h db db'"
  unfolding coord_move_def using assms by (intro conjI exI[of _ f] exI[of _ P] exI[of _ "[]"]) auto

lemma move_same:
  assumes "cd_leases db' = cd_leases db" "cd_next_id db' = cd_next_id db"
    and "generation db \<le> generation db'" "acknowledged db' = acknowledged db \<or> acknowledged db' = generation db'"
  shows "coord_move h db db'"
  by (rule move_kept[where f = id and P = "\<lambda>_. True"]) (use assms in simp_all)

lemma move_swept:
  assumes "cd_leases db' = filter (\<lambda>l. now < ml_expires_at l) (cd_leases db)" "cd_next_id db' = cd_next_id db"
    and "generation db \<le> generation db'" "acknowledged db' = acknowledged db \<or> acknowledged db' = generation db'"
  shows "coord_move h db db'"
  by (rule move_kept[where f = id and P = "\<lambda>l. now < ml_expires_at l"]) (use assms in simp_all)

lemma move_refl [simp]: "coord_move h db db"
  by (rule move_same) simp_all

lemma move_transaction: "coord_move h db (snd (body db)) \<Longrightarrow> coord_move h db (snd (transaction body db))"
  by (auto simp: transaction_def split: prod.splits sum.splits)

lemma move_checked: "(\<And>x. v = Inr x \<Longrightarrow> coord_move h db (snd (body x db))) \<Longrightarrow> coord_move h db (snd (checked v body db))"
  by (auto simp: checked_def split: sum.splits)

lemma move_repo:
  "coord_move h db (snd (snapshot_coord now db))"
  "coord_move h db (snd (mark_busy_work_dispatched now db))"
  "coord_move h db (snd (record_updater_identity b d db))"
  "coord_move h db (snd (record_refresh_outcome now r c f t db))"
  "coord_move h db (snd (touch_updater now p g db))"
  "coord_move h db (snd (request_action a now db))"
  "coord_move h db (snd (acknowledge_action g2 ph res e i pa now db))"
  "coord_move h db (snd (force_reset_phase now age db))"
  by ((rule move_same move_swept[where now = now],
       (simp add: snapshot_coord_def mark_busy_work_dispatched_def record_updater_identity_def
          record_refresh_outcome_def touch_updater_def request_action_def acknowledge_action_def force_reset_phase_def
          when_phase_known_def recovery_values_def keep_or_def Let_def split: recovery_action.split option.split)+)[1])+


lemma move_leases_repo:
  "coord_move h db (snd (renew_lease th now ttl db))"
  "coord_move h db (snd (renew_drain_progress th now ttl p db))"
  "coord_move h db (snd (release_lease th now db))"
  "coord_move h db (snd (acknowledge_outcome th oc now db))"
proof -
  let ?e = "\<lambda>l. now < ml_expires_at l" and ?r = "\<lambda>l. l\<lparr>ml_renewed_at := now, ml_expires_at := now + ttl\<rparr>"
  show "coord_move h db (snd (renew_lease th now ttl db))"
    by (rule move_kept[where P = ?e and f = "\<lambda>l. if ml_token_hash l = th \<and> now < ml_expires_at l then ?r l else l"])
      (simp_all add: renew_lease_def Let_def same_lease_def)
  show "coord_move h db (snd (renew_drain_progress th now ttl p db))"
  proof (cases "lease_for_token (lock_and_sweep now db) th (Some Drain)")
    case None
    then show ?thesis
      by (intro move_swept[where now = now]) (simp_all add: renew_drain_progress_def when_phase_known_def)
  next
    case (Some d)
    show ?thesis
    proof (cases "uc_phase (coord_row (lock_and_sweep now db)) \<in> set KNOWN_COORDINATOR_PHASES")
      case True
      then show ?thesis
        by (intro move_kept[where P = ?e and f = "\<lambda>l. if ml_id l = ml_id d then ?r l else l"])
          (simp_all add: renew_drain_progress_def when_phase_known_def Some Let_def same_lease_def)
    next
      case False
      then show ?thesis
        by (intro move_swept[where now = now]) (simp_all add: renew_drain_progress_def when_phase_known_def)
    qed
  qed
  have deleted: "coord_move h db (delete_lease l (set_coord f (lock_and_sweep now db)))"
    if "\<And>r. uc_action_generation (f r) = uc_action_generation r"
      and "\<And>r. r = coord_row (lock_and_sweep now db) \<Longrightarrow> uc_acknowledged_generation (f r) \<in> {uc_acknowledged_generation r, uc_action_generation r}"
    for l f
    by (rule move_kept[where P = "\<lambda>k. ml_id k \<noteq> ml_id l \<and> ?e k" and f = id])
      (use that in \<open>auto simp: conj_commute delete_lease_def\<close>)
  have plain: "coord_move h db (delete_lease l (lock_and_sweep now db))" for l
    by (rule move_kept[where P = "\<lambda>k. ml_id k \<noteq> ml_id l \<and> ?e k" and f = id])
      (auto simp: conj_commute)
  have swept: "coord_move h db (lock_and_sweep now db)"
    by (rule move_swept[where now = now]) simp_all
  have commute: "set_coord f (delete_lease l D) = delete_lease l (set_coord f D)" for f l D
    by (simp add: set_coord_def delete_lease_def coord_row_def)
  have idle: "coord_move h db (delete_lease l
      (set_coord (\<lambda>r. r\<lparr>uc_phase := ''idle'', uc_last_started_at := None\<rparr>) (lock_and_sweep now db)))" for l
    by (rule deleted) simp_all
  show "coord_move h db (snd (release_lease th now db))"
    by (simp add: release_lease_def Let_def when_phase_known_def swept plain idle commute split: option.split)
  show "coord_move h db (snd (acknowledge_outcome th oc now db))"
    by (auto simp: acknowledge_outcome_def when_phase_known_def swept split: option.split
        intro!: deleted simp: outcome_values_def Let_def)
qed

lemma insert_lease_cases:
  assumes "insert_lease l db = (a, db')"
  shows "a = Inl UniqueViolation \<and> db' = db \<or> a = Inr l \<and> db' = db\<lparr>cd_leases := cd_leases db @ [l], cd_next_id := cd_next_id db + 1\<rparr>"
  using assms by (auto simp: insert_lease_def split: if_splits)

lemma active_drain_None: "active_drain db = None \<longleftrightarrow> (\<forall>l \<in> set (cd_leases db). ml_kind l = Critical)"
proof -
  have "ml_kind l \<noteq> Drain \<longleftrightarrow> ml_kind l = Critical" for l by (cases "ml_kind l") auto
  then show ?thesis by (auto simp: active_drain_def find_None_iff)
qed

text \<open>What a claim that goes through leaves behind.\<close>

lemma acquire_critical_cases:
  assumes "acquire_critical th holder op now ttl db = (a, db')"
  shows "(a = Inl UniqueViolation \<or> a = Inr None) \<and> db' = lock_and_sweep now db
    \<or> (\<exists>l. a = Inr (Some l) \<and> l = new_lease (lock_and_sweep now db) th Critical holder op None now ttl
         \<and> active_drain (lock_and_sweep now db) = None
         \<and> th \<notin> ml_token_hash ` set (cd_leases (lock_and_sweep now db))
         \<and> db' = (lock_and_sweep now db)\<lparr>cd_leases := cd_leases (lock_and_sweep now db) @ [l],
               cd_next_id := cd_next_id db + 1\<rparr>)"
  using assms
  by (auto simp: acquire_critical_def insert_lease_def Let_def list_ex_iff new_lease_def split: if_splits)


lemma claim_drain_cases:
  assumes "claim_drain th holder g mat idle now ttl db = (a, db')"
  shows "((\<exists>e. a = Inl e) \<or> a = Inr None) \<and> coord_move None db db'
    \<or> (\<exists>l S. a = Inr (Some (l, critical_count S = 0)) \<and> S = lock_and_sweep now db
         \<and> active_drain S = None \<and> (g = None \<or> g = Some (generation db)) \<and> (idle \<longrightarrow> critical_count S = 0)
         \<and> th \<notin> ml_token_hash ` set (cd_leases S)
         \<and> ml_kind l = Drain \<and> ml_token_hash l = th \<and> ml_id l = cd_next_id db \<and> ml_expires_at l = now + ttl
         \<and> ml_action_generation l = Some (generation db')
         \<and> cd_leases db' = cd_leases S @ [l] \<and> cd_next_id db' = cd_next_id db + 1
         \<and> generation db' = (if mat then generation db + 1 else generation db) \<and> acknowledged db' = acknowledged db
         \<and> uc_phase (coord_row db') = ''draining'')"
proof -
  let ?S = "lock_and_sweep now db"
  let ?g = "case g of None \<Rightarrow> generation ?S | Some v \<Rightarrow> v"
  consider (phase) "uc_phase (coord_row ?S) \<notin> set KNOWN_COORDINATOR_PHASES"
    | (refused) "uc_phase (coord_row ?S) \<in> set KNOWN_COORDINATOR_PHASES"
        "active_drain ?S \<noteq> None \<or> g \<noteq> None \<and> ?g \<noteq> generation ?S \<or> idle \<and> critical_count ?S \<noteq> 0
          \<or> mat \<and> uc_requested_action (coord_row ?S) \<noteq> ''none''"
    | (taken) "uc_phase (coord_row ?S) \<in> set KNOWN_COORDINATOR_PHASES" "active_drain ?S = None"
        "g = None \<or> ?g = generation ?S" "idle \<longrightarrow> critical_count ?S = 0"
        "mat \<longrightarrow> uc_requested_action (coord_row ?S) = ''none''" by argo
  then show ?thesis
  proof cases
    case phase
    with assms show ?thesis
      by (auto simp: claim_drain_def when_phase_known_def intro!: move_swept[where now = now])
  next
    case refused
    then have "a = Inr None \<and> db' = ?S"
      using assms by (auto simp: claim_drain_def when_phase_known_def Let_def split: if_splits)
    then show ?thesis by (auto intro!: move_swept[where now = now])
  next
    case taken
    have gg: "?g = generation ?S" using taken(3) by (cases g) auto
    let ?g' = "if mat then generation ?S + 1 else ?g"
    let ?D = "if mat then set_coord (\<lambda>r. r\<lparr>uc_requested_action := ''install'', uc_action_generation := ?g',
        uc_requested_at := Some now\<rparr>) ?S else ?S"
    let ?l = "new_lease ?D th Drain holder ''container_update'' (Some ?g') now ttl"
    have nodrain: "\<forall>k \<in> set (cd_leases ?S). ml_kind k \<noteq> Drain" using taken(2) by (simp add: active_drain_None)
    have D: "cd_leases ?D = cd_leases ?S" "cd_next_id ?D = cd_next_id db" "generation ?D = ?g'"
      "acknowledged ?D = acknowledged db" using gg by auto
    obtain b E where ins: "insert_lease ?l ?D = (b, E)" by fastforce
    note run = assms[unfolded claim_drain_def when_phase_known_def Let_def]
    show ?thesis
    proof (cases b)
      case (Inl e)
      with ins have "E = ?D" by (auto simp: insert_lease_def split: if_splits)
      moreover have "a = Inl e \<and> db' = E" using run taken gg ins Inl by auto
      ultimately show ?thesis using gg by (auto intro!: move_swept[where now = now])
    next
      case (Inr k)
      let ?F = "set_coord (\<lambda>s. (phase_timestamp_values (uc_phase (coord_row ?S)) ''draining'' now s)\<lparr>uc_phase := ''draining''\<rparr>) E"
      from ins Inr have E: "k = ?l" "E = ?D\<lparr>cd_leases := cd_leases ?D @ [?l], cd_next_id := cd_next_id ?D + 1\<rparr>"
        and fresh: "th \<notin> ml_token_hash ` set (cd_leases ?S)"
        using D(1) by (auto simp: insert_lease_def list_ex_iff new_lease_def split: if_splits)
      have "a = Inr (Some (?l, critical_count ?F = 0)) \<and> db' = ?F" using run taken gg ins Inr E(1) by auto
      moreover have "coord_row E = coord_row ?D" by (simp add: E(2) coord_row_def)
      moreover have "critical_count ?F = critical_count ?S"
        using D(1) by (simp add: critical_count_def E(2) new_lease_def)
      ultimately show ?thesis
        using taken(2-4) fresh D gg by (auto simp: E(2) new_lease_def simp del: not_None_eq split: option.splits)
    qed
  qed
qed

end
