(* ===== verification/UpdateLaws.thy ===== *)
theory UpdateLaws
  imports UpdateEffects
begin

text \<open>
  What the coordinator guarantees: its tables stay well formed, a drain and critical work exclude each other
  for as long as their leases run, an abandoned generation is powerless, a lost response can be asked for again,
  and a wedged phase can be reset within a bounded time.
\<close>

section \<open>Every call is a move\<close>

definition issued_hash :: "(string \<Rightarrow> string) \<Rightarrow> coord_call \<Rightarrow> string option" where
  "issued_hash sha call = map_option sha (token_of call)"

lemma move_acquire: "coord_move (Some th) db (snd (acquire_critical th holder p now ttl db))"
proof -
  obtain a db' where run: "acquire_critical th holder p now ttl db = (a, db')" by fastforce
  let ?S = "lock_and_sweep now db"
  consider "db' = ?S" | l where "l = new_lease ?S th Critical holder p None now ttl" "active_drain ?S = None"
      "db' = ?S\<lparr>cd_leases := cd_leases ?S @ [l], cd_next_id := cd_next_id db + 1\<rparr>"
    using acquire_critical_cases[OF run] by blast
  then show ?thesis
  proof cases
    case 1
    with run show ?thesis by (auto intro!: move_swept[where now = now])
  next
    case (2 l)
    have "coord_row db' = coord_row ?S" by (simp add: 2(3) coord_row_def)
    then show ?thesis unfolding coord_move_def
      using run 2
      by (intro conjI exI[of _ id] exI[of _ "\<lambda>l. now < ml_expires_at l"] exI[of _ "[l]"])
        (auto simp: active_drain_None new_lease_def)
  qed
qed

lemma move_None:
  assumes "coord_move None db db'" shows "coord_move h db db'"
proof -
  from assms obtain f P new where "cd_leases db' = map f (filter P (cd_leases db)) @ new" "\<forall>l. same_lease (f l) l"
      "new = [] \<and> cd_next_id db' = cd_next_id db"
    by (auto simp: coord_move_def)
  with assms show ?thesis by (intro move_kept[where f = f and P = P]) (auto simp: coord_move_def)
qed

lemma move_claim: "coord_move (Some th) db (snd (claim_drain th holder g mat i now ttl db))"
proof -
  obtain a db' where run: "claim_drain th holder g mat i now ttl db = (a, db')" by fastforce
  from claim_drain_cases[OF run] consider "coord_move None db db'"
    | l S where "S = lock_and_sweep now db" "active_drain S = None" "ml_token_hash l = th" "ml_id l = cd_next_id db"
        "ml_action_generation l = Some (generation db')" "cd_leases db' = cd_leases S @ [l]"
        "cd_next_id db' = cd_next_id db + 1" "generation db \<le> generation db'" "acknowledged db' = acknowledged db"
    by (smt (verit))
  then show ?thesis
  proof cases
    case 1
    with run show ?thesis by (simp add: move_None)
  next
    case (2 l)
    then show ?thesis unfolding coord_move_def
      using run
      by (intro conjI exI[of _ id] exI[of _ "\<lambda>l. now < ml_expires_at l"] exI[of _ "[l]"])
        (auto simp: active_drain_None)
  qed
qed

lemma move_audit: "coord_move h db db' \<Longrightarrow> coord_move h db (db'\<lparr>cd_audit := au\<rparr>)"
  by (simp add: coord_move_def)

lemma move_force_reset_svc: "coord_move h db (snd (force_reset_svc now actor age db))"
proof (cases "positive_ttl age")
  case (Inr x)
  obtain a db' where run: "force_reset_phase now x db = (a, db')" by fastforce
  with move_repo(8)[of h db now x] have m: "coord_move h db db'" by simp
  show ?thesis
    by (cases a) (auto simp: force_reset_svc_def checked_def Inr run m move_audit split: option.split coord_error.split)
qed (simp add: force_reset_svc_def checked_def)

lemma call_moves: "coord_move (issued_hash sha call) db (call_effect sha now call db)"
proof (cases call)
  case Initialize
  then show ?thesis by (auto simp: initialize_svc_def transaction_def intro!: move_same)
next
  case (RequestAction a)
  then show ?thesis
    using move_repo(6)[of "issued_hash sha call" db "action_value a" now]
    by (auto simp: request_action_svc_def transaction_def split: sum.splits prod.splits option.splits)
next
  case (AcquireCritical p h ttl token)
  show ?thesis
    by (auto simp: AcquireCritical issued_hash_def token_of_def acquire_critical_svc_def map_answer_def token_hash_def
        intro!: move_checked move_transaction move_acquire split: if_splits)
next
  case (ClaimDrain h ttl g m i token)
  show ?thesis
    by (auto simp: ClaimDrain issued_hash_def token_of_def claim_drain_svc_def map_answer_def token_hash_def
        intro!: move_checked move_transaction move_claim split: if_splits)
next
  case (Skew p a n)
  show ?thesis unfolding Skew by (rule move_same) simp_all
qed (auto simp: snapshot_svc_def touch_svc_def mark_busy_svc_def record_identity_svc_def record_refresh_svc_def
    acknowledge_action_svc_def renew_svc_def renew_drain_svc_def release_svc_def acknowledge_outcome_svc_def
    intro!: move_checked move_transaction move_repo move_leases_repo move_force_reset_svc split: option.split)


section \<open>Histories of the coordinator\<close>

text \<open>
  The tables, the latest instant the clock has shown, and the digests of the tokens handed out so far: tokens
  come from a generator that does not repeat itself, and the clock does not run backwards.
\<close>

record coord_world =
  cw_db :: coord_db
  cw_clock :: datetime
  cw_issued :: "string list"

definition empty_coord :: coord_db where
  "empty_coord = \<lparr>cd_state = None, cd_leases = [], cd_audit = [], cd_next_id = 1\<rparr>"

definition coord_init :: "coord_world \<Rightarrow> bool" where
  "coord_init w \<longleftrightarrow> cw_db w = empty_coord \<and> cw_issued w = []"

definition after_call :: "(string \<Rightarrow> string) \<Rightarrow> datetime \<Rightarrow> coord_call \<Rightarrow> coord_world \<Rightarrow> coord_world" where
  "after_call sha now call w = \<lparr>cw_db = call_effect sha now call (cw_db w), cw_clock = now,
     cw_issued = (case issued_hash sha call of None \<Rightarrow> cw_issued w | Some h \<Rightarrow> h # cw_issued w)\<rparr>"

inductive coord_step :: "(string \<Rightarrow> string) \<Rightarrow> coord_world \<Rightarrow> coord_world \<Rightarrow> bool" for sha where
  called: "cw_clock w \<le> now \<Longrightarrow> (\<forall>h. issued_hash sha call = Some h \<longrightarrow> h \<notin> set (cw_issued w))
    \<Longrightarrow> coord_step sha w (after_call sha now call w)"

inductive_cases coord_stepE: "coord_step sha w w'"

definition drains :: "coord_db \<Rightarrow> lease_row list" where
  "drains db = filter (\<lambda>l. ml_kind l = Drain) (cd_leases db)"

definition tables_ok :: "coord_db \<Rightarrow> string set \<Rightarrow> bool" where
  "tables_ok db issued \<longleftrightarrow> distinct (map ml_id (cd_leases db)) \<and> (\<forall>l \<in> set (cd_leases db). ml_id l < cd_next_id db)
     \<and> distinct (map ml_token_hash (cd_leases db)) \<and> ml_token_hash ` set (cd_leases db) \<subseteq> issued
     \<and> length (drains db) \<le> 1
     \<and> acknowledged db \<le> generation db
     \<and> (\<forall>l \<in> set (cd_leases db). \<forall>g. ml_action_generation l = Some g \<longrightarrow> g \<le> generation db)"

definition coord_inv :: "coord_world \<Rightarrow> bool" where
  "coord_inv w \<longleftrightarrow> tables_ok (cw_db w) (set (cw_issued w))"

lemma same_lease_map:
  assumes "\<forall>l. same_lease (f l) l"
  shows "map ml_id (map f ls) = map ml_id ls" "map ml_token_hash (map f ls) = map ml_token_hash ls"
    "length (filter (\<lambda>l. ml_kind l = Drain) (map f ls)) = length (filter (\<lambda>l. ml_kind l = Drain) ls)"
  using assms by (induction ls) (auto simp: same_lease_def)

lemma distinct_map_filter: "distinct (map f xs) \<Longrightarrow> distinct (map f (filter P xs))"
  by (induction xs) auto

lemma length_filter_filter: "length (filter Q (filter P xs)) \<le> length (filter Q xs)"
  by (induction xs) auto

lemma moveE:
  assumes "coord_move h db db'"
  obtains f P new where "cd_leases db' = map f (filter P (cd_leases db)) @ new" "\<forall>l. same_lease (f l) l"
    "new = [] \<and> cd_next_id db' = cd_next_id db
        \<or> (\<exists>l. new = [l] \<and> h = Some (ml_token_hash l) \<and> ml_id l = cd_next_id db
             \<and> cd_next_id db' = cd_next_id db + 1 \<and> ml_action_generation l \<in> {None, Some (generation db')}
             \<and> (\<forall>k \<in> set (cd_leases db). P k \<longrightarrow> ml_kind k = Critical))"
    "generation db \<le> generation db'" "acknowledged db' = acknowledged db \<or> acknowledged db' = generation db'"
  using assms unfolding coord_move_def by blast

lemma move_one_drain:
  assumes "coord_move h db db'" and "length (drains db) \<le> 1"
  shows "length (drains db') \<le> 1"
  using assms(1)
proof (rule moveE)
  fix f P new
  assume ls: "cd_leases db' = map f (filter P (cd_leases db)) @ new" and f: "\<forall>l. same_lease (f l) l"
    and new: "new = [] \<and> cd_next_id db' = cd_next_id db
        \<or> (\<exists>l. new = [l] \<and> h = Some (ml_token_hash l) \<and> ml_id l = cd_next_id db
             \<and> cd_next_id db' = cd_next_id db + 1 \<and> ml_action_generation l \<in> {None, Some (generation db')}
             \<and> (\<forall>k \<in> set (cd_leases db). P k \<longrightarrow> ml_kind k = Critical))"
  let ?old = "filter P (cd_leases db)" and ?d = "\<lambda>l. ml_kind l = Drain"
  have d: "length (drains db') = length (filter ?d ?old) + length (filter ?d new)"
    using same_lease_map(3)[OF f, of ?old] by (simp add: drains_def ls)
  have old: "length (filter ?d ?old) \<le> length (drains db)" unfolding drains_def by (rule length_filter_filter)
  show ?thesis
  proof (cases "new = []")
    case False
    with new have "filter ?d ?old = []" by (auto simp: filter_empty_conv)
    moreover from False new have "length new = 1" by auto
    ultimately show ?thesis using d length_filter_le[of ?d new] by simp
  qed (use d old assms(2) in simp)
qed

lemma move_tables_ok:
  assumes move: "coord_move h db db'" and ok: "tables_ok db issued" and fresh: "\<forall>x. h = Some x \<longrightarrow> x \<notin> issued"
  shows "tables_ok db' (issued \<union> set_option h)"
  using move
proof (rule moveE)
  fix f P new
  assume ls: "cd_leases db' = map f (filter P (cd_leases db)) @ new" and f: "\<forall>l. same_lease (f l) l"
    and new: "new = [] \<and> cd_next_id db' = cd_next_id db
        \<or> (\<exists>l. new = [l] \<and> h = Some (ml_token_hash l) \<and> ml_id l = cd_next_id db
             \<and> cd_next_id db' = cd_next_id db + 1 \<and> ml_action_generation l \<in> {None, Some (generation db')}
             \<and> (\<forall>k \<in> set (cd_leases db). P k \<longrightarrow> ml_kind k = Critical))"
    and gen: "generation db \<le> generation db'" and ack: "acknowledged db' = acknowledged db \<or> acknowledged db' = generation db'"
  let ?old = "filter P (cd_leases db)"
  have fields: "map ml_id (cd_leases db') = map ml_id ?old @ map ml_id new"
    "map ml_token_hash (cd_leases db') = map ml_token_hash ?old @ map ml_token_hash new"
    using same_lease_map[OF f, of ?old] by (simp_all add: ls)
  have gens: "\<forall>l \<in> set (map f ?old). \<forall>g. ml_action_generation l = Some g \<longrightarrow> g \<le> generation db'"
    using ok f gen by (fastforce simp: tables_ok_def same_lease_def)
  have new_gens: "\<forall>l \<in> set new. \<forall>g. ml_action_generation l = Some g \<longrightarrow> g \<le> generation db'" using new by auto
  have "\<forall>l \<in> set (map f ?old). ml_id l < cd_next_id db" using ok f by (auto simp: tables_ok_def same_lease_def)
  then have ids: "\<forall>l \<in> set (cd_leases db'). ml_id l < cd_next_id db'" using new unfolding ls by force
  have did: "distinct (map ml_id (cd_leases db'))"
    using new ok unfolding fields by (auto simp: tables_ok_def distinct_map_filter)
  have "ml_token_hash ` set (map f ?old) \<subseteq> issued" using ok f by (fastforce simp: tables_ok_def same_lease_def)
  then have toks: "ml_token_hash ` set (cd_leases db') \<subseteq> issued \<union> set_option h" using new by (auto simp: ls)
  have "distinct (map ml_token_hash (cd_leases db'))"
    using new ok fresh unfolding fields by (auto simp: tables_ok_def distinct_map_filter)
  with ids did toks gens new_gens ack gen move_one_drain[OF move] ok show ?thesis by (auto simp: tables_ok_def ls)
qed

lemma coord_inv_step:
  assumes "coord_inv w" and "coord_step sha w w'"
  shows "coord_inv w'"
  using assms(2)
proof (rule coord_stepE)
  fix now call
  assume w': "w' = after_call sha now call w" and fresh: "\<forall>h. issued_hash sha call = Some h \<longrightarrow> h \<notin> set (cw_issued w)"
  have "tables_ok (cw_db w') (set (cw_issued w) \<union> set_option (issued_hash sha call))"
    using assms(1) move_tables_ok[OF call_moves _ fresh] by (simp add: w' after_call_def coord_inv_def)
  moreover have "set (cw_issued w) \<union> set_option (issued_hash sha call) = set (cw_issued w')"
    by (auto simp: w' after_call_def split: option.split)
  ultimately show ?thesis by (simp add: coord_inv_def)
qed

lemma coord_init_inv: "coord_init w \<Longrightarrow> coord_inv w"
  by (simp add: coord_init_def coord_inv_def tables_ok_def empty_coord_def drains_def coord_row_def fresh_coordinator_def)

interpretation coordinator: invariant_system coord_init "coord_step sha" coord_inv for sha
  by unfold_locales (auto intro: coord_init_inv coord_inv_step)


section \<open>Drain and critical work\<close>

definition has_drain :: "string \<Rightarrow> coord_db \<Rightarrow> bool" where
  "has_drain d db \<longleftrightarrow> list_ex (\<lambda>l. ml_kind l = Drain \<and> ml_token_hash l = d) (cd_leases db)"

definition critical_tokens :: "coord_db \<Rightarrow> string list" where
  "critical_tokens db = map ml_token_hash (filter (\<lambda>l. ml_kind l = Critical) (cd_leases db))"

lemma has_drainE:
  assumes "has_drain d db" obtains l where "l \<in> set (cd_leases db)" "ml_kind l = Drain" "ml_token_hash l = d"
  using assms by (auto simp: has_drain_def list_ex_iff)

lemma move_under_drain:
  assumes move: "coord_move h db db'" and after: "has_drain d db'" and stale: "h \<noteq> Some d"
  shows "has_drain d db \<and> set (critical_tokens db') \<subseteq> set (critical_tokens db)"
  using move
proof (rule moveE)
  fix f P new
  assume ls: "cd_leases db' = map f (filter P (cd_leases db)) @ new" and f: "\<forall>l. same_lease (f l) l"
    and new: "new = [] \<and> cd_next_id db' = cd_next_id db
        \<or> (\<exists>l. new = [l] \<and> h = Some (ml_token_hash l) \<and> ml_id l = cd_next_id db
             \<and> cd_next_id db' = cd_next_id db + 1 \<and> ml_action_generation l \<in> {None, Some (generation db')}
             \<and> (\<forall>k \<in> set (cd_leases db). P k \<longrightarrow> ml_kind k = Critical))"
  from after obtain l where l: "l \<in> set (cd_leases db')" "ml_kind l = Drain" "ml_token_hash l = d" by (rule has_drainE)
  moreover have "l \<notin> set new" using new stale l(3) by auto
  ultimately obtain k where k: "k \<in> set (cd_leases db)" "P k" "l = f k" by (auto simp: ls)
  with f l have kd: "ml_kind k = Drain" "ml_token_hash k = d" by (auto simp: same_lease_def)
  with k have "new = []" using new by auto
  then have "set (critical_tokens db') \<subseteq> set (critical_tokens db)"
    using f by (auto simp: critical_tokens_def ls same_lease_def image_iff)
  with k kd show ?thesis by (auto simp: has_drain_def list_ex_iff)
qed

lemma issued_mono: "(coord_step sha)\<^sup>*\<^sup>* w w' \<Longrightarrow> set (cw_issued w) \<subseteq> set (cw_issued w')"
  by (induction rule: rtranclp_induct) (fastforce elim!: coord_stepE simp: after_call_def split: option.splits)+

lemma drain_issued: "coord_inv w \<Longrightarrow> has_drain d (cw_db w) \<Longrightarrow> d \<in> set (cw_issued w)"
  by (auto simp: coord_inv_def tables_ok_def elim!: has_drainE)

text \<open>
  C4: no critical work is admitted under a drain. As long as a drain lease is held, over any calls of the
  service at any instants, the critical leases can only become fewer; so once the updater has been told that
  the application is idle, it stays idle until the drain is released, acknowledged or expired.
\<close>

theorem drain_excludes_new_work:
  assumes "reachable coord_init (coord_step sha) w" and "(coord_step sha)\<^sup>*\<^sup>* w w'"
    and "has_drain d (cw_db w)" and "has_drain d (cw_db w')"
  shows "set (critical_tokens (cw_db w')) \<subseteq> set (critical_tokens (cw_db w))
    \<and> (critical_count (cw_db w) = 0 \<longrightarrow> critical_count (cw_db w') = 0)"
proof -
  have d: "d \<in> set (cw_issued w)" by (rule drain_issued[OF coordinator.reachable_inv[OF assms(1)] assms(3)])
  have sub: "set (critical_tokens (cw_db w')) \<subseteq> set (critical_tokens (cw_db w))"
    using assms(2,4)
  proof (induction rule: rtranclp_induct)
    case (step u v)
    from step.hyps(2) obtain now call where v: "v = after_call sha now call u"
      and fresh: "\<forall>h. issued_hash sha call = Some h \<longrightarrow> h \<notin> set (cw_issued u)" by (rule coord_stepE)
    from d issued_mono[OF step.hyps(1)] have "d \<in> set (cw_issued u)" by blast
    with fresh have "issued_hash sha call \<noteq> Some d" by blast
    moreover have "cw_db v = call_effect sha now call (cw_db u)" by (simp add: v after_call_def)
    ultimately have "has_drain d (cw_db u) \<and> set (critical_tokens (cw_db v)) \<subseteq> set (critical_tokens (cw_db u))"
      using step.prems move_under_drain[OF call_moves, of d sha now call "cw_db u"] by simp
    with step.IH show ?case by blast
  qed simp
  have "critical_count db = int (length (critical_tokens db))" for db
    by (simp add: critical_count_def critical_tokens_def)
  with sub show ?thesis by auto
qed

text \<open>
  C35: the coordinator's tables stay well formed, and a claim never meets the unique indexes: the drain index
  and the token column are there for a race the row lock already excludes.
\<close>

theorem coordination_sound:
  assumes "reachable coord_init (coord_step sha) w" and "cw_clock w \<le> now" and "sha token \<notin> set (cw_issued w)"
  shows "length (drains (cw_db w)) \<le> 1 \<and> distinct (map ml_token_hash (cd_leases (cw_db w)))
    \<and> acknowledged (cw_db w) \<le> generation (cw_db w)
    \<and> fst (acquire_critical_svc sha now p holder ttl token (cw_db w)) \<noteq> Inl UniqueViolation
    \<and> fst (claim_drain_svc sha now holder ttl g mat idle token (cw_db w)) \<noteq> Inl UniqueViolation"
proof -
  let ?db = "cw_db w" and ?S = "lock_and_sweep now (cw_db w)"
  have ok: "tables_ok ?db (set (cw_issued w))"
    using coordinator.reachable_inv[OF assms(1)] by (simp add: coord_inv_def)
  then have "\<forall>l \<in> set (cd_leases ?S). ml_token_hash l \<noteq> sha token" using assms(3) by (auto simp: tables_ok_def)
  then have ins: "insert_lease (new_lease D (sha token) k h r gg now t) D \<noteq> (Inl UniqueViolation, x)"
    if "cd_leases D = cd_leases ?S" "active_drain ?S = None" for D k h r gg t x
    using that by (auto simp: insert_lease_def list_ex_iff new_lease_def active_drain_None)
  have "acquire_critical (sha token) h r now t ?db \<noteq> (Inl UniqueViolation, x)" for h r t x
    using ins[of ?S] by (auto simp: acquire_critical_def Let_def split: prod.splits sum.splits)
  moreover have "claim_drain (sha token) h g mat idle now t ?db \<noteq> (Inl UniqueViolation, x)" for h t x
    using ins by (auto simp: claim_drain_def Let_def when_phase_known_def split: prod.splits sum.splits)
  ultimately show ?thesis
    using ok by (auto simp: tables_ok_def acquire_critical_svc_def claim_drain_svc_def checked_def map_answer_def
        token_hash_def transaction_def bounded_code_def positive_ttl_def split: sum.splits prod.splits if_splits)
qed

end
