(* ===== verification/UpdateLock.thy ===== *)
theory UpdateLock
  imports UpdateLaws
begin

text \<open>
  The leases as a lock: the coordinator refines a lock of timed leases, at most one of them a drain, in which nobody
  is let in past a drain and nobody leaves but by its own act or its expiry; and a worker's lease keeps the drain from
  being ready until it expires.
\<close>

section \<open>The abstract lock\<close>

text \<open>Who holds a lease, of which kind and until when.\<close>

type_synonym lease_lock = "string \<rightharpoonup> lease_kind \<times> datetime"

datatype lock_act = Nothing | Grant string lease_kind timedelta | Extend string timedelta | GiveBack string

definition live :: "datetime \<Rightarrow> lease_lock \<Rightarrow> lease_lock" where
  "live now L = (\<lambda>h. case L h of None \<Rightarrow> None | Some (k, e) \<Rightarrow> if now < e then Some (k, e) else None)"

definition drain_free :: "lease_lock \<Rightarrow> bool" where
  "drain_free L \<longleftrightarrow> (\<forall>h e. L h \<noteq> Some (Drain, e))"

inductive lock_step :: "lease_lock \<Rightarrow> datetime \<times> lock_act \<Rightarrow> lease_lock \<Rightarrow> bool" where
  stay: "lock_step L (now, Nothing) L"
| expire: "lock_step L (now, Nothing) (live now L)"
| grant: "drain_free (live now L) \<Longrightarrow> live now L h = None
    \<Longrightarrow> lock_step L (now, Grant h k ttl) ((live now L)(h \<mapsto> (k, now + ttl)))"
| extend: "live now L h = Some (k, e) \<Longrightarrow> lock_step L (now, Extend h ttl) ((live now L)(h \<mapsto> (k, now + ttl)))"
| give_back: "live now L h = Some ke \<Longrightarrow> lock_step L (now, GiveBack h) ((live now L)(h := None))"

definition lock_of :: "coord_db \<Rightarrow> lease_lock" where
  "lock_of db = map_of (map (\<lambda>l. (ml_token_hash l, (ml_kind l, ml_expires_at l))) (cd_leases db))"

text \<open>
  What a call of the service announces by its answer. A report of an outcome gives the drain back unless the drain is
  gone, when it only repeats its receipt.
\<close>

definition act_of :: "(string \<Rightarrow> string) \<Rightarrow> datetime \<Rightarrow> coord_call \<Rightarrow> coord_db \<Rightarrow> lock_act" where
  "act_of sha now call db = (case call of
      AcquireCritical p h ttl t \<Rightarrow>
        (case fst (acquire_critical_svc sha now p h ttl t db) of Inr (Some _) \<Rightarrow> Grant (sha t) Critical ttl | _ \<Rightarrow> Nothing)
    | ClaimDrain h ttl g m i t \<Rightarrow>
        (case fst (claim_drain_svc sha now h ttl g m i t db) of Inr (Some _) \<Rightarrow> Grant (sha t) Drain ttl | _ \<Rightarrow> Nothing)
    | Renew t ttl \<Rightarrow> if fst (renew_svc sha now t ttl db) = Inr True then Extend (sha t) ttl else Nothing
    | RenewDrain t ttl p \<Rightarrow>
        (case fst (renew_drain_svc sha now t ttl p db) of Inr (Some _) \<Rightarrow> Extend (sha t) ttl | _ \<Rightarrow> Nothing)
    | Release t \<Rightarrow> if fst (release_svc sha now t db) = Inr True then GiveBack (sha t) else Nothing
    | AcknowledgeOutcome t rep \<Rightarrow>
        if fst (acknowledge_outcome_svc sha now t rep db) = Inr True \<and> lease_for_token (lock_and_sweep now db) (sha t) (Some Drain) \<noteq> None
        then GiveBack (sha t) else Nothing
    | _ \<Rightarrow> Nothing)"

text \<open>A call at an instant, with what it announces.\<close>

inductive answered :: "(string \<Rightarrow> string) \<Rightarrow> coord_world \<Rightarrow> datetime \<times> lock_act \<Rightarrow> coord_world \<Rightarrow> bool" for sha where
  "cw_clock w \<le> now \<Longrightarrow> (\<forall>h. issued_hash sha call = Some h \<longrightarrow> h \<notin> set (cw_issued w))
    \<Longrightarrow> answered sha w (now, act_of sha now call (cw_db w)) (after_call sha now call w)"

text \<open>Runs with their trace of labels.\<close>

fun labelled_run :: "('s \<Rightarrow> 'l \<Rightarrow> 's \<Rightarrow> bool) \<Rightarrow> 's \<Rightarrow> 'l list \<Rightarrow> 's \<Rightarrow> bool" where
  "labelled_run R s [] t \<longleftrightarrow> s = t"
| "labelled_run R s (l # ls) t \<longleftrightarrow> (\<exists>u. R s l u \<and> labelled_run R u ls t)"

locale simulation =
  fixes cstep :: "'c \<Rightarrow> 'l \<Rightarrow> 'c \<Rightarrow> bool" and astep :: "'a \<Rightarrow> 'l \<Rightarrow> 'a \<Rightarrow> bool" and abs_of :: "'c \<Rightarrow> 'a" and inv :: "'c \<Rightarrow> bool"
  assumes sim_inv: "inv s \<Longrightarrow> cstep s l t \<Longrightarrow> inv t"
    and sim_step: "inv s \<Longrightarrow> cstep s l t \<Longrightarrow> astep (abs_of s) l (abs_of t)"
begin

lemma sim_runs: "labelled_run cstep s ls t \<Longrightarrow> inv s \<Longrightarrow> labelled_run astep (abs_of s) ls (abs_of t)"
  by (induction ls arbitrary: s) (auto intro: sim_inv sim_step)

end

section \<open>The leases as a lock\<close>

definition hashes_ok :: "coord_db \<Rightarrow> bool" where
  "hashes_ok db \<longleftrightarrow> distinct (map ml_token_hash (cd_leases db)) \<and> distinct (map ml_id (cd_leases db))"

lemma lock_Some:
  assumes "distinct (map ml_token_hash (cd_leases db))"
  shows "lock_of db h = Some ke \<longleftrightarrow> (\<exists>l \<in> set (cd_leases db). ml_token_hash l = h \<and> (ml_kind l, ml_expires_at l) = ke)"
  unfolding lock_of_def by (subst map_of_eq_Some_iff) (use assms in \<open>auto simp: comp_def image_iff\<close>)

lemma lock_cong: "cd_leases D = cd_leases db \<Longrightarrow> lock_of D = lock_of db"
  by (simp add: lock_of_def)

lemma swept_ok: "hashes_ok db \<Longrightarrow> hashes_ok (lock_and_sweep now db)"
  by (simp add: hashes_ok_def distinct_map_filter)

lemma live_Some: "live now L h = Some (k, e) \<longleftrightarrow> L h = Some (k, e) \<and> now < e"
  by (auto simp: live_def split: option.splits prod.splits)

lemma lock_filter:
  assumes "hashes_ok db" "cd_leases D = filter (\<lambda>l. now < ml_expires_at l) (cd_leases db)"
  shows "lock_of D = live now (lock_of db)"
proof
  fix h
  have d: "distinct (map ml_token_hash (cd_leases D))" "distinct (map ml_token_hash (cd_leases db))"
    using assms by (simp_all add: hashes_ok_def distinct_map_filter)
  have "lock_of D h = Some ke \<longleftrightarrow> live now (lock_of db) h = Some ke" for ke
    using lock_Some[OF d(1), of h ke] lock_Some[OF d(2), of h] assms(2)
    by (cases ke) (auto simp: live_Some)
  then show "lock_of D h = live now (lock_of db) h" by (metis not_None_eq)
qed

lemmas lock_swept = lock_filter[OF _ lease_simps(7)]

lemma lock_drain_free: "hashes_ok db \<Longrightarrow> active_drain db = None \<longleftrightarrow> drain_free (lock_of db)"
  by (auto simp: hashes_ok_def drain_free_def lock_Some active_drain_None) (metis (full_types) lease_kind.exhaust)

lemma lock_token:
  assumes "hashes_ok db" "lease_for_token db h k = Some l"
  shows "lock_of db h = Some (ml_kind l, ml_expires_at l)" "l \<in> set (cd_leases db)" "ml_token_hash l = h"
    "k = Some Drain \<Longrightarrow> ml_kind l = Drain"
  using assms by (auto simp: hashes_ok_def lock_Some lease_for_token_def find_Some_iff split: option.splits)

lemma lock_insert:
  assumes "cd_leases D = cd_leases db @ [l]" "ml_token_hash l \<notin> ml_token_hash ` set (cd_leases db)"
  shows "lock_of D = (lock_of db)(ml_token_hash l \<mapsto> (ml_kind l, ml_expires_at l))"
    and "lock_of db (ml_token_hash l) = None"
proof -
  have "ml_token_hash l \<notin> dom (lock_of db)" using assms(2) by (auto simp: lock_of_def dom_map_of_conv_image_fst image_iff)
  then show "lock_of db (ml_token_hash l) = None" by auto
  with assms show "lock_of D = (lock_of db)(ml_token_hash l \<mapsto> (ml_kind l, ml_expires_at l))"
    by (auto simp: lock_of_def map_add_def fun_eq_iff split: option.split)
qed

lemma lock_delete:
  assumes ok: "hashes_ok db" and l: "l \<in> set (cd_leases db)" and D: "cd_leases D = filter (\<lambda>k. ml_id k \<noteq> ml_id l) (cd_leases db)"
  shows "lock_of D = (lock_of db)(ml_token_hash l := None)"
proof
  fix h
  have d: "distinct (map ml_token_hash (cd_leases D))" "distinct (map ml_token_hash (cd_leases db))"
    using ok D by (simp_all add: hashes_ok_def distinct_map_filter)
  have inj: "k \<in> set (cd_leases db) \<Longrightarrow> ml_id k = ml_id l \<longleftrightarrow> k = l" "k \<in> set (cd_leases db) \<Longrightarrow> ml_token_hash k = ml_token_hash l \<longleftrightarrow> k = l" for k
    using ok l by (auto simp: hashes_ok_def distinct_map inj_on_def)
  have "lock_of D h = Some ke \<longleftrightarrow> ((lock_of db)(ml_token_hash l := None)) h = Some ke" for ke
    using lock_Some[OF d(1), of h ke] lock_Some[OF d(2), of h ke] inj D by auto
  then show "lock_of D h = ((lock_of db)(ml_token_hash l := None)) h" by (metis not_None_eq)
qed

lemma lock_extend:
  assumes ok: "hashes_ok db" and l: "l \<in> set (cd_leases db)" and P: "\<And>k. k \<in> set (cd_leases db) \<Longrightarrow> P k \<longleftrightarrow> k = l"
    and D: "cd_leases D = map (\<lambda>k. if P k then k\<lparr>ml_renewed_at := now, ml_expires_at := e\<rparr> else k) (cd_leases db)"
  shows "lock_of D = (lock_of db)(ml_token_hash l \<mapsto> (ml_kind l, e))"
proof
  fix h
  have m: "map ml_token_hash (cd_leases D) = map ml_token_hash (cd_leases db)" by (simp add: D)
  then have d: "distinct (map ml_token_hash (cd_leases D))" "distinct (map ml_token_hash (cd_leases db))"
    using ok by (simp_all add: hashes_ok_def)
  have inj: "k \<in> set (cd_leases db) \<Longrightarrow> ml_token_hash k = ml_token_hash l \<longleftrightarrow> k = l" for k
    using ok l by (auto simp: hashes_ok_def distinct_map inj_on_def)
  have "lock_of D h = Some ke \<longleftrightarrow> ((lock_of db)(ml_token_hash l \<mapsto> (ml_kind l, e))) h = Some ke" for ke
    using lock_Some[OF d(1), of h ke] lock_Some[OF d(2), of h ke] inj P l D
    by (auto simp: image_iff split: if_splits)
  then show "lock_of D h = ((lock_of db)(ml_token_hash l \<mapsto> (ml_kind l, e))) h" by (metis not_None_eq)
qed

section \<open>Every call is one step of the lock\<close>

definition only_swept :: "datetime \<Rightarrow> coord_db \<Rightarrow> coord_db \<Rightarrow> bool" where
  "only_swept now db D \<longleftrightarrow> cd_leases D \<in> {cd_leases db, filter (\<lambda>l. now < ml_expires_at l) (cd_leases db)}"

lemma plain_step: "hashes_ok db \<Longrightarrow> only_swept now db D \<Longrightarrow> lock_step (lock_of db) (now, Nothing) (lock_of D)"
  unfolding only_swept_def using lock_step.stay lock_step.expire by (auto simp: lock_filter dest!: lock_cong)

lemma plain_transaction: "only_swept now db (snd (body db)) \<Longrightarrow> only_swept now db (snd (transaction body db))"
  by (auto simp: transaction_def only_swept_def split: prod.splits sum.splits)

lemma plain_checked: "(\<And>x. v = Inr x \<Longrightarrow> only_swept now db (snd (body x db))) \<Longrightarrow> only_swept now db (snd (checked v body db))"
  by (auto simp: checked_def only_swept_def split: sum.splits)

lemma plain_repo:
  "only_swept now db db" "only_swept now db (lock_coord db)"
  "only_swept now db (snd (snapshot_coord now db))" "only_swept now db (snd (mark_busy_work_dispatched now db))"
  "only_swept now db (snd (record_updater_identity b d db))" "only_swept now db (snd (record_refresh_outcome now r c f t db))"
  "only_swept now db (snd (touch_updater now p g db))" "only_swept now db (snd (request_action a now db))"
  "only_swept now db (snd (acknowledge_action g2 ph res e i pa now db))" "only_swept now db (snd (force_reset_phase now age db))"
  by (simp_all add: only_swept_def snapshot_coord_def mark_busy_work_dispatched_def record_updater_identity_def
      record_refresh_outcome_def touch_updater_def request_action_def acknowledge_action_def force_reset_phase_def
      when_phase_known_def Let_def split: recovery_action.split option.split)

lemma acquire_refused:
  assumes "acquire_critical th holder op now ttl db = (a, D)" "\<nexists>x. a = Inr (Some x)"
  shows "only_swept now db D"
  using acquire_critical_cases[OF assms(1)] assms(2) by (auto simp: only_swept_def)

lemma acquire_step:
  assumes ok: "hashes_ok db" and run: "acquire_critical_svc sha now p h ttl t db = (a, D)"
  shows "lock_step (lock_of db) (now, case a of Inr (Some _) \<Rightarrow> Grant (sha t) Critical ttl | _ \<Rightarrow> Nothing) (lock_of D)"
proof (cases "\<exists>g. a = Inr (Some g)")
  case True
  let ?S = "lock_and_sweep now db"
  from True run obtain l ow op where "acquire_critical (sha t) ow op now ttl db = (Inr (Some l), D)"
    by (auto simp: acquire_critical_svc_def checked_def token_hash_def positive_ttl_def map_answer_def transaction_def
        split: sum.splits prod.splits if_splits)
  from acquire_critical_cases[OF this] have l: "ml_token_hash l = sha t" "ml_kind l = Critical" "ml_expires_at l = now + ttl"
    "active_drain ?S = None" "ml_token_hash l \<notin> ml_token_hash ` set (cd_leases ?S)" "cd_leases D = cd_leases ?S @ [l]"
    by (auto simp: new_lease_def)
  from lock_insert[OF l(6,5)] l have "lock_of D = (live now (lock_of db))(sha t \<mapsto> (Critical, now + ttl))"
    "live now (lock_of db) (sha t) = None" by (simp_all add: lock_swept[OF ok])
  moreover have "drain_free (live now (lock_of db))" using lock_drain_free[OF swept_ok[OF ok]] l(4) by (simp add: lock_swept[OF ok])
  ultimately show ?thesis using True by (auto intro: lock_step.grant)
next
  case False
  have "only_swept now db D"
    using run False acquire_refused
    by (fastforce simp: acquire_critical_svc_def checked_def map_answer_def transaction_def plain_repo(1) split: sum.splits prod.splits)
  with False show ?thesis by (auto intro: plain_step[OF ok] split: sum.split option.split)
qed

lemma claim_refused:
  assumes "claim_drain th holder g mat idle now ttl db = (a, D)" "\<forall>l r. a \<noteq> Inr (Some (l, r))"
  shows "only_swept now db D"
proof -
  from assms show ?thesis
    by (auto simp: claim_drain_def when_phase_known_def Let_def only_swept_def insert_lease_def split: if_splits)
qed

lemma claim_lock_step:
  assumes ok: "hashes_ok db" and run: "claim_drain_svc sha now h ttl g m i t db = (a, D)"
  shows "lock_step (lock_of db) (now, case a of Inr (Some _) \<Rightarrow> Grant (sha t) Drain ttl | _ \<Rightarrow> Nothing) (lock_of D)"
proof (cases "\<exists>g. a = Inr (Some g)")
  case True
  let ?S = "lock_and_sweep now db"
  from True run obtain c ow where "claim_drain (sha t) ow g m i now ttl db = (Inr (Some c), D)"
    by (auto simp: claim_drain_svc_def checked_def token_hash_def positive_ttl_def map_answer_def transaction_def
        split: sum.splits prod.splits if_splits)
  from claim_drain_cases[OF this] obtain l where l: "ml_token_hash l = sha t" "ml_kind l = Drain" "ml_expires_at l = now + ttl"
    "active_drain ?S = None" "ml_token_hash l \<notin> ml_token_hash ` set (cd_leases ?S)" "cd_leases D = cd_leases ?S @ [l]"
    by auto
  from lock_insert[OF l(6,5)] l have "lock_of D = (live now (lock_of db))(sha t \<mapsto> (Drain, now + ttl))"
    "live now (lock_of db) (sha t) = None" by (simp_all add: lock_swept[OF ok])
  moreover have "drain_free (live now (lock_of db))" using lock_drain_free[OF swept_ok[OF ok]] l(4) by (simp add: lock_swept[OF ok])
  ultimately show ?thesis using True by (auto intro: lock_step.grant)
next
  case False
  have "only_swept now db D"
    using run False
    by (auto simp: claim_drain_svc_def checked_def map_answer_def transaction_def plain_repo(1) intro!: claim_refused
        split: sum.splits prod.splits)
  with False show ?thesis by (auto intro: plain_step[OF ok] split: sum.split option.split)
qed

text \<open>The operations on the lease of a token: the lease is the only one the lock has under its hash.\<close>

lemma extended:
  assumes ok: "hashes_ok db" and S: "S = lock_and_sweep now db" and l: "lease_for_token S h k = Some l"
    and P: "\<And>j. j \<in> set (cd_leases S) \<Longrightarrow> P j \<longleftrightarrow> j = l"
    and D: "cd_leases D = map (\<lambda>k. if P k then k\<lparr>ml_renewed_at := now, ml_expires_at := now + ttl\<rparr> else k) (cd_leases S)"
  shows "lock_step (lock_of db) (now, Extend h ttl) (lock_of D)"
proof -
  note t = lock_token[OF swept_ok[OF ok, of now, folded S] l]
  have "lock_of D = (live now (lock_of db))(h \<mapsto> (ml_kind l, now + ttl))"
    using lock_extend[OF swept_ok[OF ok, of now, folded S] t(2) P D] t(3) by (simp add: S lock_swept[OF ok])
  moreover have "live now (lock_of db) h = Some (ml_kind l, ml_expires_at l)" using t(1) by (simp add: S lock_swept[OF ok])
  ultimately show ?thesis by (auto intro: lock_step.extend)
qed

lemma given_back:
  assumes ok: "hashes_ok db" and S: "S = lock_and_sweep now db" and l: "lease_for_token S h k = Some l"
    and D: "cd_leases D = filter (\<lambda>j. ml_id j \<noteq> ml_id l) (cd_leases S)"
  shows "lock_step (lock_of db) (now, GiveBack h) (lock_of D)"
proof -
  note t = lock_token[OF swept_ok[OF ok, of now, folded S] l]
  have "lock_of D = (live now (lock_of db))(h := None)"
    using lock_delete[OF swept_ok[OF ok, of now, folded S] t(2) D] t(3) by (simp add: S lock_swept[OF ok])
  moreover have "live now (lock_of db) h = Some (ml_kind l, ml_expires_at l)" using t(1) by (simp add: S lock_swept[OF ok])
  ultimately show ?thesis by (auto intro: lock_step.give_back)
qed

lemma hash_unique: "hashes_ok db \<Longrightarrow> j \<in> set (cd_leases db) \<Longrightarrow> l \<in> set (cd_leases db) \<Longrightarrow> ml_token_hash j = ml_token_hash l \<longleftrightarrow> j = l"
  by (auto simp: hashes_ok_def distinct_map inj_on_def)

lemma id_unique: "hashes_ok db \<Longrightarrow> j \<in> set (cd_leases db) \<Longrightarrow> l \<in> set (cd_leases db) \<Longrightarrow> ml_id j = ml_id l \<longleftrightarrow> j = l"
  by (auto simp: hashes_ok_def distinct_map inj_on_def)

lemma filter_only: "distinct xs \<Longrightarrow> l \<in> set xs \<Longrightarrow> (\<And>j. j \<in> set xs \<Longrightarrow> P j \<longleftrightarrow> j = l) \<Longrightarrow> filter P xs = [l]"
proof (induction xs)
  case (Cons x xs)
  show ?case
  proof (cases "x = l")
    case True
    with Cons.prems(1,3) have "filter P xs = []" by (auto simp: filter_empty_conv)
    with True Cons.prems(3)[of x] show ?thesis by simp
  qed (use Cons in auto)
qed simp

lemma renew_step:
  assumes ok: "hashes_ok db"
  shows "lock_step (lock_of db) (now, if fst (renew_svc sha now t ttl db) = Inr True then Extend (sha t) ttl else Nothing)
    (lock_of (snd (renew_svc sha now t ttl db)))"
proof (cases "ttl \<le> 0 \<or> t = []")
  case True
  then have "only_swept now db (snd (renew_svc sha now t ttl db))" "fst (renew_svc sha now t ttl db) \<noteq> Inr True"
    by (auto simp: renew_svc_def checked_def positive_ttl_def token_hash_def only_swept_def)
  then show ?thesis using plain_step[OF ok] by simp
next
  case False
  let ?S = "lock_and_sweep now db" and ?P = "\<lambda>l. ml_token_hash l = sha t \<and> ml_expires_at l > now"
  have run: "renew_svc sha now t ttl db = renew_lease (sha t) now ttl db"
    using False by (simp add: renew_svc_def checked_def positive_ttl_def token_hash_def transaction_def renew_lease_def Let_def)
  have S: "\<And>l. l \<in> set (cd_leases ?S) \<Longrightarrow> now < ml_expires_at l" by simp
  show ?thesis
  proof (cases "lease_for_token ?S (sha t) None")
    case None
    then have none: "\<forall>l \<in> set (cd_leases ?S). \<not> ?P l" by (auto simp: lease_for_token_def find_None_iff)
    then have "filter ?P (cd_leases ?S) = []" by (auto simp: filter_empty_conv)
    then have "fst (renew_svc sha now t ttl db) = Inr False" unfolding run renew_lease_def Let_def by simp
    moreover have "cd_leases (snd (renew_svc sha now t ttl db)) = cd_leases ?S"
      unfolding run renew_lease_def Let_def snd_conv lease_simps(3) by (rule map_idI) (use none in auto)
    then have "only_swept now db (snd (renew_svc sha now t ttl db))" by (simp add: only_swept_def)
    ultimately show ?thesis using plain_step[OF ok] by simp
  next
    case (Some l)
    note t = lock_token[OF swept_ok[OF ok] Some]
    have P: "?P j \<longleftrightarrow> j = l" if "j \<in> set (cd_leases ?S)" for j
      using hash_unique[OF swept_ok[OF ok] that t(2)] S[OF that] t(3) by auto
    have "distinct (cd_leases ?S)" using swept_ok[OF ok] by (simp add: hashes_ok_def distinct_map)
    then have "filter ?P (cd_leases ?S) = [l]" using filter_only[OF _ t(2) P] by blast
    then have "fst (renew_svc sha now t ttl db) = Inr True" unfolding run renew_lease_def Let_def by simp
    moreover have "lock_step (lock_of db) (now, Extend (sha t) ttl) (lock_of (snd (renew_svc sha now t ttl db)))"
      by (rule extended[OF ok refl Some P]) (simp_all add: run renew_lease_def Let_def)
    ultimately show ?thesis by simp
  qed
qed

lemma renew_drain_step:
  assumes ok: "hashes_ok db"
  shows "lock_step (lock_of db) (now, case fst (renew_drain_svc sha now t ttl p db) of Inr (Some _) \<Rightarrow> Extend (sha t) ttl | _ \<Rightarrow> Nothing)
    (lock_of (snd (renew_drain_svc sha now t ttl p db)))"
proof (cases "\<exists>r. fst (renew_drain_svc sha now t ttl p db) = Inr (Some r)")
  case True
  let ?S = "lock_and_sweep now db" and ?D = "snd (renew_drain_svc sha now t ttl p db)"
  from True obtain l where l: "lease_for_token ?S (sha t) (Some Drain) = Some l"
    and D: "cd_leases ?D = map (\<lambda>k. if ml_id k = ml_id l then k\<lparr>ml_renewed_at := now, ml_expires_at := now + ttl\<rparr> else k) (cd_leases ?S)"
    by (auto simp: renew_drain_svc_def checked_def positive_ttl_def token_hash_def transaction_def renew_drain_progress_def
        when_phase_known_def Let_def split: if_splits option.splits)
  note t = lock_token[OF swept_ok[OF ok] l]
  have "lock_step (lock_of db) (now, Extend (sha t) ttl) (lock_of ?D)"
    by (rule extended[OF ok refl l _ D]) (use id_unique[OF swept_ok[OF ok] _ t(2)] in blast)
  with True show ?thesis by auto
next
  case False
  then have "only_swept now db (snd (renew_drain_svc sha now t ttl p db))"
    by (auto simp: renew_drain_svc_def checked_def positive_ttl_def token_hash_def transaction_def renew_drain_progress_def
        when_phase_known_def Let_def only_swept_def split: if_splits option.splits)
  with False show ?thesis by (auto intro: plain_step[OF ok] split: sum.split option.split)
qed

lemma release_step:
  assumes ok: "hashes_ok db"
  shows "lock_step (lock_of db) (now, if fst (release_svc sha now t db) = Inr True then GiveBack (sha t) else Nothing)
    (lock_of (snd (release_svc sha now t db)))"
proof (cases "fst (release_svc sha now t db) = Inr True")
  case True
  let ?S = "lock_and_sweep now db" and ?D = "snd (release_svc sha now t db)"
  from True obtain l where l: "lease_for_token ?S (sha t) None = Some l"
    and D: "cd_leases ?D = filter (\<lambda>j. ml_id j \<noteq> ml_id l) (cd_leases ?S)"
    by (auto simp: release_svc_def checked_def token_hash_def transaction_def release_lease_def when_phase_known_def Let_def
        split: if_splits option.splits)
  with True show ?thesis using given_back[OF ok refl l D] by simp
next
  case False
  then have "only_swept now db (snd (release_svc sha now t db))"
    by (auto simp: release_svc_def checked_def token_hash_def transaction_def release_lease_def when_phase_known_def Let_def
        only_swept_def split: if_splits option.splits)
  with False show ?thesis using plain_step[OF ok] by simp
qed

lemma outcome_repo:
  assumes "acknowledge_outcome h oc now db = (a, D)"
  shows "case lease_for_token (lock_and_sweep now db) h (Some Drain) of
      None \<Rightarrow> only_swept now db D
    | Some l \<Rightarrow> if a = Inr True then cd_leases D = filter (\<lambda>j. ml_id j \<noteq> ml_id l) (cd_leases (lock_and_sweep now db))
        else only_swept now db D"
  using assms by (auto simp: acknowledge_outcome_def when_phase_known_def only_swept_def split: option.split if_splits)

lemma outcome_step:
  assumes ok: "hashes_ok db" and held: "held = (lease_for_token (lock_and_sweep now db) (sha t) (Some Drain) \<noteq> None)"
  shows "lock_step (lock_of db) (now, if fst (acknowledge_outcome_svc sha now t rep db) = Inr True \<and> held then GiveBack (sha t) else Nothing)
    (lock_of (snd (acknowledge_outcome_svc sha now t rep db)))"
proof (cases "checked_report rep = Inr rep \<and> t \<noteq> []")
  case True
  obtain a D where run: "acknowledge_outcome (sha t) (install_outcome_of sha rep) now db = (a, D)" by fastforce
  then have svc: "acknowledge_outcome_svc sha now t rep db = (case a of Inl e \<Rightarrow> (Inl e, db) | Inr x \<Rightarrow> (Inr x, D))"
    using True by (simp add: acknowledge_outcome_svc_def checked_def token_hash_def transaction_def)
  note repo = outcome_repo[OF run]
  show ?thesis
  proof (cases "a = Inr True \<and> held")
    case True
    then obtain l where l: "lease_for_token (lock_and_sweep now db) (sha t) (Some Drain) = Some l" using held by auto
    then show ?thesis using True repo given_back[OF ok refl l, of D] by (simp add: svc)
  next
    case False
    then have "only_swept now db (snd (acknowledge_outcome_svc sha now t rep db))"
      using repo held plain_repo(1) by (auto simp: svc split: sum.split option.splits if_splits)
    moreover have "\<not> (fst (acknowledge_outcome_svc sha now t rep db) = Inr True \<and> held)" using False by (auto simp: svc split: sum.splits)
    ultimately show ?thesis using plain_step[OF ok] by auto
  qed
next
  case False
  then have "acknowledge_outcome_svc sha now t rep db = (Inl BadValue, db)"
    by (auto simp: acknowledge_outcome_svc_def checked_def checked_report_def token_hash_def)
  then show ?thesis using lock_step.stay by simp
qed

lemma reset_plain: "only_swept now db (snd (force_reset_svc now actor age db))"
  using plain_repo(10)[of now db age]
  by (auto simp: force_reset_svc_def checked_def positive_ttl_def only_swept_def split: prod.splits sum.splits option.splits coord_error.splits)

lemma request_plain: "only_swept now db (snd (request_action_svc now a db))"
  using plain_repo(8)[of now db "action_value a"]
  by (auto simp: request_action_svc_def transaction_def only_swept_def split: sum.splits prod.splits option.splits)

lemma refresh_plain: "only_swept now db (snd (record_refresh_svc now r d f t db))"
  using plain_repo(6)[of now db]
  by (auto simp: record_refresh_svc_def checked_def transaction_def plain_repo(1) split: sum.split option.split prod.split)
    (metis snd_conv)

lemma call_step:
  assumes ok: "hashes_ok db"
  shows "lock_step (lock_of db) (now, act_of sha now call db) (lock_of (call_effect sha now call db))"
proof (cases call)
  case (AcquireCritical p h ttl t)
  then show ?thesis using acquire_step[OF ok, of sha now p h ttl t] by (simp add: act_of_def prod_eq_iff)
next
  case (ClaimDrain h ttl g m i t)
  then show ?thesis using claim_lock_step[OF ok, of sha now h ttl g m i t] by (simp add: act_of_def prod_eq_iff)
qed (auto simp: act_of_def renew_step[OF ok] renew_drain_step[OF ok] release_step[OF ok] outcome_step[OF ok refl]
    initialize_svc_def snapshot_svc_def touch_svc_def mark_busy_svc_def record_identity_svc_def acknowledge_action_svc_def transaction_def[of "\<lambda>db. (Inr (), lock_coord db)"]
    intro!: plain_step[OF ok] plain_checked plain_transaction plain_repo reset_plain request_plain refresh_plain lock_step.stay
    simp del: not_None_eq simp: lock_cong[of "set_coord _ _"])

lemma inv_hashes: "coord_inv w \<Longrightarrow> hashes_ok (cw_db w)"
  by (simp add: coord_inv_def tables_ok_def hashes_ok_def)

inductive_cases answeredE: "answered sha w a w'"

lemma answered_step: "answered sha w a w' \<Longrightarrow> coord_step sha w w'"
  by (erule answeredE) (auto intro: coord_step.called)

interpretation lease_lock: simulation "answered sha" lock_step "\<lambda>w. lock_of (cw_db w)" coord_inv for sha
proof
  show "coord_inv s \<Longrightarrow> answered sha s l t \<Longrightarrow> coord_inv t" for s l t by (rule coord_inv_step[OF _ answered_step])
  show "lock_step (lock_of (cw_db s)) l (lock_of (cw_db t))" if "coord_inv s" "answered sha s l t" for s l t
    using that(2) by (rule answeredE) (simp add: after_call_def call_step[OF inv_hashes[OF that(1)]])
qed

text \<open>
  C10: the lease tables implement a lock of timed leases. Each call of the service is exactly one step of the lock, and
  the one its answer announces: a grant is answered only when, with the expired leases gone, no drain is held and the
  token is new, and the lease then runs until now and its time to live; a renewal moves the expiry of the lease of its
  own token; a release or an acknowledged outcome takes away the lease of its own token; every other call, and every
  refusal, leaves all leases alone but for the expired ones. So every run of the coordinator, read as the sequence of
  instants and answers, is a run of the lock with the same sequence: nobody is let in past a drain, and nobody loses a
  lease but by its own act or its expiry.
\<close>

theorem coordination_refines_lock:
  assumes "reachable coord_init (coord_step sha) w" and "labelled_run (answered sha) w acts w'"
  shows "labelled_run lock_step (lock_of (cw_db w)) acts (lock_of (cw_db w'))"
  by (rule lease_lock.sim_runs[OF assms(2) coordinator.reachable_inv[OF assms(1)]])

section \<open>A worker's lease protects it\<close>

definition ids_ok :: "coord_db \<Rightarrow> bool" where
  "ids_ok db \<longleftrightarrow> distinct (map ml_id (cd_leases db)) \<and> (\<forall>l \<in> set (cd_leases db). ml_id l < cd_next_id db)"

lemma tables_ids_ok: "tables_ok db issued \<Longrightarrow> ids_ok db"
  by (simp add: tables_ok_def ids_ok_def)

lemma move_ids_ok:
  assumes move: "coord_move h db db'" and ok: "ids_ok db"
  shows "ids_ok db'"
  using move
proof (rule moveE)
  fix f P new
  assume ls: "cd_leases db' = map f (filter P (cd_leases db)) @ new" and f: "\<forall>l. same_lease (f l) l"
    and new: "new = [] \<and> cd_next_id db' = cd_next_id db
        \<or> (\<exists>l. new = [l] \<and> h = Some (ml_token_hash l) \<and> ml_id l = cd_next_id db
             \<and> cd_next_id db' = cd_next_id db + 1 \<and> ml_action_generation l \<in> {None, Some (generation db')}
             \<and> (\<forall>k \<in> set (cd_leases db). P k \<longrightarrow> ml_kind k = Critical))"
  have ids: "map ml_id (cd_leases db') = map ml_id (filter P (cd_leases db)) @ map ml_id new"
    using same_lease_map(1)[OF f, of "filter P (cd_leases db)"] by (simp add: ls)
  have "\<forall>l \<in> set (map f (filter P (cd_leases db))). ml_id l < cd_next_id db"
    using ok f by (auto simp: ids_ok_def same_lease_def)
  then have "\<forall>l \<in> set (cd_leases db'). ml_id l < cd_next_id db'" using new unfolding ls by force
  moreover have "distinct (map ml_id (cd_leases db'))"
    using new ok unfolding ids by (auto simp: ids_ok_def distinct_map_filter)
  ultimately show ?thesis by (simp add: ids_ok_def)
qed

lemma lease_for_tokenD:
  assumes "lease_for_token db th k = Some l"
  shows "l \<in> set (cd_leases db)" "ml_token_hash l = th" "k = Some Drain \<Longrightarrow> ml_kind l = Drain"
  using assms by (auto simp: lease_for_token_def find_Some_iff split: option.splits)

lemma id_inj: "ids_ok db \<Longrightarrow> k \<in> set (cd_leases db) \<Longrightarrow> l \<in> set (cd_leases db) \<Longrightarrow> ml_id k = ml_id l \<Longrightarrow> k = l"
  by (auto simp: ids_ok_def distinct_map inj_on_def)

text \<open>The calls that end or renew the lease of the token they present.\<close>

definition presented :: "coord_call \<Rightarrow> string option" where
  "presented call = (case call of Renew t _ \<Rightarrow> Some t | Release t \<Rightarrow> Some t | _ \<Rightarrow> None)"

definition spares :: "(string \<Rightarrow> string) \<Rightarrow> lease_row \<Rightarrow> datetime \<times> coord_call \<Rightarrow> bool" where
  "spares sha c nc \<longleftrightarrow> fst nc < ml_expires_at c \<and> map_option sha (presented (snd nc)) \<noteq> Some (ml_token_hash c)"

lemma repo_spares:
  assumes ok: "ids_ok db" and c: "c \<in> set (cd_leases db)" "ml_kind c = Critical" "now < ml_expires_at c"
  shows "c \<in> set (cd_leases (snd (renew_drain_progress th now ttl p db)))"
    and "c \<in> set (cd_leases (snd (acknowledge_outcome th oc now db)))"
    and "th \<noteq> ml_token_hash c \<Longrightarrow> c \<in> set (cd_leases (snd (renew_lease th now ttl db)))"
    and "th \<noteq> ml_token_hash c \<Longrightarrow> c \<in> set (cd_leases (snd (release_lease th now db)))"
    and "c \<in> set (cd_leases (snd (acquire_critical th holder op now ttl db)))"
    and "c \<in> set (cd_leases (snd (claim_drain th holder g mat i now ttl db)))"
proof -
  let ?S = "lock_and_sweep now db"
  have other: "ml_id c \<noteq> ml_id l" if "lease_for_token ?S th k = Some l" "ml_kind l = Drain \<or> th \<noteq> ml_token_hash c" for l k
    using id_inj[OF ok c(1), of l] lease_for_tokenD[OF that(1)] that(2) c(2) by auto
  show "c \<in> set (cd_leases (snd (renew_drain_progress th now ttl p db)))"
    using c other[of "Some Drain"] lease_for_tokenD(3)[of ?S th "Some Drain"]
    by (auto simp: renew_drain_progress_def when_phase_known_def Let_def image_iff split: option.split)
  show "c \<in> set (cd_leases (snd (acknowledge_outcome th oc now db)))"
    using c other[of "Some Drain"] lease_for_tokenD(3)[of ?S th "Some Drain"]
    by (auto simp: acknowledge_outcome_def when_phase_known_def split: option.split)
  show "th \<noteq> ml_token_hash c \<Longrightarrow> c \<in> set (cd_leases (snd (renew_lease th now ttl db)))"
    using c by (auto simp: renew_lease_def Let_def image_iff)
  show "th \<noteq> ml_token_hash c \<Longrightarrow> c \<in> set (cd_leases (snd (release_lease th now db)))"
    using c other[of None] by (auto simp: release_lease_def when_phase_known_def Let_def split: option.split)
  show "c \<in> set (cd_leases (snd (acquire_critical th holder op now ttl db)))"
    using c by (auto simp: acquire_critical_def insert_lease_def Let_def)
  show "c \<in> set (cd_leases (snd (claim_drain th holder g mat i now ttl db)))"
    using c by (auto simp: claim_drain_def when_phase_known_def insert_lease_def Let_def)
qed


lemma transaction_spares:
  "c \<in> set (cd_leases db) \<Longrightarrow> c \<in> set (cd_leases (snd (body db))) \<Longrightarrow> c \<in> set (cd_leases (snd (transaction body db)))"
  by (auto simp: transaction_def split: prod.splits sum.splits)

lemma checked_spares:
  "c \<in> set (cd_leases db) \<Longrightarrow> (\<And>x. v = Inr x \<Longrightarrow> c \<in> set (cd_leases (snd (body x db))))
    \<Longrightarrow> c \<in> set (cd_leases (snd (checked v body db)))"
  by (auto simp: checked_def split: sum.splits)

lemma row_write_spares:
  assumes "c \<in> set (cd_leases db)" "now < ml_expires_at c"
  shows "c \<in> set (cd_leases (snd (snapshot_coord now db)))"
    "c \<in> set (cd_leases (snd (mark_busy_work_dispatched now db)))"
    "c \<in> set (cd_leases (snd (record_updater_identity b d db)))"
    "c \<in> set (cd_leases (snd (record_refresh_outcome now r cc f t db)))"
    "c \<in> set (cd_leases (snd (touch_updater now p g db)))"
    "c \<in> set (cd_leases (snd (request_action a now db)))"
    "c \<in> set (cd_leases (snd (acknowledge_action g2 ph res e i pa now db)))"
    "c \<in> set (cd_leases (snd (force_reset_phase now age db)))"
  using assms
  by (simp_all add: snapshot_coord_def mark_busy_work_dispatched_def record_updater_identity_def
      record_refresh_outcome_def touch_updater_def request_action_def acknowledge_action_def force_reset_phase_def
      when_phase_known_def Let_def split: recovery_action.split option.split)

lemma call_spares:
  assumes ok: "ids_ok db" and c: "c \<in> set (cd_leases db)" "ml_kind c = Critical" and s: "spares sha c (now, call)"
  shows "c \<in> set (cd_leases (call_effect sha now call db))"
proof -
  have t: "now < ml_expires_at c" and tok: "map_option sha (presented call) \<noteq> Some (ml_token_hash c)"
    using s by (simp_all add: spares_def)
  note keep = row_write_spares[OF c(1) t] repo_spares[OF ok c t]
  show ?thesis
  proof (cases call)
    case (RequestAction a)
    with c keep(6)[of "action_value a"] show ?thesis
      by (auto simp: request_action_svc_def transaction_def split: sum.splits prod.splits option.splits)
  next
    case (ForceReset actor age)
    with c keep(8) show ?thesis
      by (auto simp: force_reset_svc_def checked_def positive_ttl_def split: sum.splits prod.splits option.splits coord_error.splits)
        (metis snd_conv)+
  next
    case (Renew token ttl)
    with c keep tok show ?thesis
      by (auto simp: renew_svc_def token_hash_def presented_def intro!: checked_spares transaction_spares split: if_splits)
  next
    case (Release token)
    with c keep tok show ?thesis
      by (auto simp: release_svc_def token_hash_def presented_def intro!: checked_spares transaction_spares split: if_splits)
  qed (use c in \<open>auto simp: initialize_svc_def snapshot_svc_def touch_svc_def mark_busy_svc_def record_identity_svc_def
      record_refresh_svc_def acknowledge_action_svc_def acquire_critical_svc_def claim_drain_svc_def renew_drain_svc_def
      acknowledge_outcome_svc_def map_answer_def
      intro!: checked_spares transaction_spares keep split: option.split\<close>)
qed

lemma calls_spare:
  "ids_ok db \<Longrightarrow> c \<in> set (cd_leases db) \<Longrightarrow> ml_kind c = Critical \<Longrightarrow> list_all (spares sha c) calls
    \<Longrightarrow> c \<in> set (cd_leases (run_calls sha calls db))"
proof (induction calls arbitrary: db)
  case (Cons nc calls)
  obtain now call where nc: "nc = (now, call)" by (cases nc)
  with Cons.prems have s: "spares sha c (now, call)" by simp
  show ?case unfolding nc run_calls.simps
    using Cons.prems(3,4) move_ids_ok[OF call_moves Cons.prems(1)] call_spares[OF Cons.prems(1-3) s]
    by (intro Cons.IH) auto
qed simp

lemma critical_counted: "c \<in> set (cd_leases db) \<Longrightarrow> ml_kind c = Critical \<Longrightarrow> critical_count db \<noteq> 0"
  by (auto simp: critical_count_def filter_empty_conv)

text \<open>
  C22: critical work is safe while its lease runs. From the moment a critical lease is held and until it expires,
  whatever calls are made meanwhile by others, the lease is untouched, no drain is reported ready, and a drain that
  insists on an idle application is not granted.
\<close>

theorem critical_lease_protects:
  assumes "reachable coord_init (coord_step sha) w" and "c \<in> set (cd_leases (cw_db w))" and "ml_kind c = Critical"
    and "list_all (spares sha c) calls" and "now < ml_expires_at c"
  shows "c \<in> set (cd_leases (run_calls sha calls (cw_db w)))
    \<and> fst (renew_drain_svc sha now token ttl p (run_calls sha calls (cw_db w))) \<noteq> Inr (Some True)
    \<and> fst (claim_drain_svc sha now holder ttl g mat False token (run_calls sha calls (cw_db w))) \<noteq> Inr (Some (lease, True))
    \<and> fst (claim_drain_svc sha now holder ttl g mat True token (run_calls sha calls (cw_db w))) \<noteq> Inr (Some (lease, ready))"
proof -
  let ?db = "run_calls sha calls (cw_db w)" and ?S = "lock_and_sweep now (run_calls sha calls (cw_db w))"
  have "ids_ok (cw_db w)"
    using coordinator.reachable_inv[OF assms(1)] by (auto simp: coord_inv_def intro: tables_ids_ok)
  from calls_spare[OF this assms(2-4)] have c: "c \<in> set (cd_leases ?db)" .
  then have "c \<in> set (cd_leases ?S)" using assms(5) by simp
  from critical_counted[OF this assms(3)] have busy: "critical_count ?S \<noteq> 0" .
  have "renew_drain_progress h now t q ?db \<noteq> (Inr (Some True), x)" for h t q x
    using busy by (auto simp: renew_drain_progress_def when_phase_known_def Let_def split: option.splits)
  moreover have "claim_drain h ow g mat False now t ?db \<noteq> (Inr (Some (l, True)), x)" for h ow t l x
    using busy claim_drain_cases[of h ow g mat False now t ?db] by fastforce
  moreover have "claim_drain h ow g mat True now t ?db \<noteq> (Inr (Some y), x)" for h ow t y x
    using busy claim_drain_cases[of h ow g mat True now t ?db] by fastforce
  ultimately show ?thesis using c
    by (auto simp: renew_drain_svc_def claim_drain_svc_def checked_def map_answer_def token_hash_def transaction_def
        positive_ttl_def split: sum.splits prod.splits if_splits)
qed

end
