(* ===== verification/OutcomePayload.thy ===== *)
theory OutcomePayload
  imports UpdateService
begin

text \<open>
  The payload an install outcome is fingerprinted by (\<open>_outcome_fingerprint\<close>) determines the whole report: no two
  reports have the same JSON text.
\<close>

section \<open>Strings\<close>

lemma hex_digit_inject: "0 \<le> a \<Longrightarrow> a < 16 \<Longrightarrow> 0 \<le> b \<Longrightarrow> b < 16 \<Longrightarrow> hex_digit a = hex_digit b \<Longrightarrow> a = b"
proof -
  assume "0 \<le> a" "a < 16" "0 \<le> b" "b < 16" and e: "hex_digit a = hex_digit b"
  moreover have "(of_char (hex_digit n) :: int) = (if n < 10 then 48 + n else 87 + n)" if "0 \<le> n" "n < 16" for n
    using that by (simp add: hex_digit_def)
  ultimately have "(if a < 10 then 48 + a else 87 + a) = (if b < 10 then 48 + b else 87 + b)" by (metis e)
  then show ?thesis using \<open>a < 16\<close> \<open>b < 16\<close> \<open>0 \<le> a\<close> \<open>0 \<le> b\<close> by (simp split: if_splits)
qed

lemma payload_code_inject: "code c = code d \<longleftrightarrow> c = d"
  by (simp add: code_def)

lemma json_char_quote: "json_char c @ x \<noteq> CHR 0x22 # y"
  by (simp add: json_char_def)

text \<open>Equal texts that begin with an escape begin with the same one.\<close>

lemma json_char_prefix: "json_char c @ x = json_char d @ y \<Longrightarrow> c = d \<and> x = y"
proof -
  assume e: "json_char c @ x = json_char d @ y"
  have hex: "c = d" if "hex_digit (code c div 16) = hex_digit (code d div 16)" "hex_digit (code c mod 16) = hex_digit (code d mod 16)"
  proof -
    have b: "0 \<le> code z" "code z < 256" for z
      using pos_mod_bound[of 256 "of_char z :: int"] pos_mod_sign[of 256 "of_char z :: int"] of_char_mod_256[of z] by (simp_all add: code_def)
    have r: "0 \<le> code z div 16" "code z div 16 < 16" "0 \<le> code z mod 16" "code z mod 16 < 16" for z
      using b[of z] by presburger+
    have "code c div 16 = code d div 16" by (rule hex_digit_inject[OF r(1,2,1,2) that(1)])
    moreover have "code c mod 16 = code d mod 16" by (rule hex_digit_inject[OF r(3,4,3,4) that(2)])
    ultimately have "code c = code d" by (metis div_mult_mod_eq)
    then show ?thesis by (simp add: payload_code_inject)
  qed
  show ?thesis using e by (auto simp: json_char_def intro: hex split: if_splits)
qed

lemma json_chars_prefix:
  "concat (map json_char s) @ CHR 0x22 # x = concat (map json_char t) @ CHR 0x22 # y \<Longrightarrow> s = t \<and> x = y"
proof (induction s arbitrary: t)
  case Nil
  then have "t = []" using json_char_quote[symmetric] by (cases t) auto
  with Nil show ?case by simp
next
  case (Cons c s)
  from Cons.prems obtain d t' where t: "t = d # t'" using json_char_quote by (cases t) fastforce+
  from Cons.prems have "json_char c @ (concat (map json_char s) @ CHR 0x22 # x) = json_char d @ (concat (map json_char t') @ CHR 0x22 # y)"
    by (simp add: t)
  from json_char_prefix[OF this] Cons.IH[of t'] show ?case by (simp add: t)
qed

lemma json_string_prefix: "json_string v @ x = json_string w @ y \<Longrightarrow> v = w \<and> x = y"
  by (auto simp: json_string_def dest: json_chars_prefix split: option.splits)

section \<open>Numbers\<close>

lemma nat_str_no: "c \<in> set (nat_str n) \<Longrightarrow> is_digit c"
  using nat_str_digits[of n] by (simp add: list_all_iff)

lemma json_int_no_comma: "CHR '','' \<notin> set (json_int v)"
proof -
  have "CHR '','' \<notin> set (nat_str n)" for n using nat_str_no[of "CHR '',''" n] by (auto simp: is_digit_def code_def)
  then show ?thesis by (simp add: json_int_def py_str_int_def split: option.split)
qed

lemma json_int_inject: "json_int v = json_int w \<Longrightarrow> v = w"
proof -
  have n: "CHR ''n'' \<notin> set (nat_str n)" "CHR ''-'' \<notin> set (nat_str n)" for n
    using nat_str_no[of "CHR ''n''" n] nat_str_no[of "CHR ''-''" n] by (auto simp: is_digit_def code_def)
  have neg: "nat_str a \<noteq> CHR ''-'' # z" "nat_str a \<noteq> CHR ''n'' # z" for a z using n[of a] by auto
  have i: "py_str_int a = py_str_int b \<Longrightarrow> a = b" for a b
    using neg[of _ "nat_str _"] neg[of _ "nat_str _", symmetric] by (auto simp: py_str_int_def nat_str_inject split: if_splits)
  have null: "py_str_int a \<noteq> CHR ''n'' # z" for a z using neg by (auto simp: py_str_int_def)
  assume "json_int v = json_int w"
  then show ?thesis using null i null[symmetric] by (auto simp: json_int_def split: option.splits)
qed

lemma before_comma: "u @ CHR '','' # x = v @ CHR '','' # y \<Longrightarrow> CHR '','' \<notin> set u \<Longrightarrow> CHR '','' \<notin> set v \<Longrightarrow> u = v \<and> x = y"
  by (induction u arbitrary: v) (case_tac v; auto)+

section \<open>The payload\<close>

lemma result_value_inject: "result_value a = result_value b \<longleftrightarrow> a = b"
  by (cases a; cases b) (simp_all add: result_value_def)

theorem outcome_payload_inject: "outcome_payload rep = outcome_payload rep' \<longleftrightarrow> rep = rep'"
proof
  let ?s = json_string
  let ?tail = "\<lambda>r. ?s (Some (result_value (or_result r))) @ '','' @ ?s (or_error_code r) @ '','' @ ?s (or_from_build r) @ '',''
    @ ?s (or_to_build r) @ '','' @ ?s (or_current_build r) @ '','' @ ?s (or_current_digest r) @ '','' @ ?s (or_available_build r)
    @ '','' @ ?s (or_available_digest r) @ '']''"
  assume "outcome_payload rep = outcome_payload rep'"
  then have "json_int (or_expected_generation rep) @ CHR '','' # ?tail rep = json_int (or_expected_generation rep') @ CHR '','' # ?tail rep'"
    by (simp add: outcome_payload_def json_list_def)
  from before_comma[OF this json_int_no_comma json_int_no_comma]
  have gen: "or_expected_generation rep = or_expected_generation rep'" and t: "?tail rep = ?tail rep'"
    using json_int_inject by auto
  have "?s v = ?s w \<Longrightarrow> v = w" for v w using json_string_prefix[of v "[]" w "[]"] by simp
  with t show "rep = rep'" using gen
    by (intro outcome_report.equality) (auto dest!: json_string_prefix simp: result_value_inject)
qed simp

end
