(* ===== verification/UpdateProtocol.thy ===== *)
theory UpdateProtocol
  imports UpdateLock OutcomePayload
begin

text \<open>
  Time and generations: an abandoned generation has no effect any more, an acknowledged outcome can be asked
  for again, and a wedged phase is left within a bounded time of its first observation.
\<close>

section \<open>Generations\<close>

lemma generation_mono: "(coord_step sha)\<^sup>*\<^sup>* w w' \<Longrightarrow> generation (cw_db w) \<le> generation (cw_db w')"
proof (induction rule: rtranclp_induct)
  case (step u v)
  from step.hyps(2) obtain now call where "cw_db v = call_effect sha now call (cw_db u)"
    by (rule coord_stepE) (simp add: after_call_def)
  with call_moves[of sha call "cw_db u" now] have "generation (cw_db u) \<le> generation (cw_db v)"
    by (simp add: coord_move_def)
  with step.IH show ?case by simp
qed simp

text \<open>
  C23: an overtaken generation is powerless for ever. Once the coordinator has moved past generation \<open>g\<close> (a reset
  that fences an abandoned worker, a new request), then after any further calls no check of generation \<open>g\<close> is
  acknowledged, no drain is granted for it, and an install outcome for it changes nothing: it is only answered with
  yes when it repeats the receipt of an outcome already on record.
\<close>

theorem stale_generation_powerless:
  assumes "(coord_step sha)\<^sup>*\<^sup>* w w'" and "g < generation (cw_db w)"
  shows "fst (acknowledge_action_svc now g res err images preserve (cw_db w')) \<noteq> Inr True
    \<and> fst (claim_drain_svc sha now holder ttl (Some g) mat idle token (cw_db w')) \<noteq> Inr (Some claim)
    \<and> (or_expected_generation rep = Some g \<longrightarrow>
         snd (acknowledge_outcome_svc sha now token rep (cw_db w')) \<in> {cw_db w', lock_and_sweep now (cw_db w')}
         \<and> (fst (acknowledge_outcome_svc sha now token rep (cw_db w')) = Inr True \<longrightarrow>
              acknowledged (cw_db w') = g
              \<and> uc_last_outcome_fingerprint (coord_row (cw_db w')) = Some (outcome_fingerprint sha rep)))"
proof -
  let ?db = "cw_db w'" and ?S = "lock_and_sweep now (cw_db w')"
  have g: "g < generation ?db" using generation_mono[OF assms(1)] assms(2) by simp
  have ack: "acknowledge_action g ph r e i preserve now ?db \<noteq> (Inr True, x)" for ph r e i x
    using g by (auto simp: acknowledge_action_def when_phase_known_def)
  have claim: "claim_drain h ow (Some g) mat idle now t ?db \<noteq> (Inr (Some y), x)" for h ow t y x
    using g by (auto simp: claim_drain_def when_phase_known_def Let_def)
  have oc: "acknowledge_outcome h (install_outcome_of sha rep) now ?db \<in>
      {(Inl (UnknownCoordinatorPhaseError (uc_phase (coord_row ?S))), ?S), (Inr False, ?S),
       (Inr (receipt_matches h (install_outcome_of sha rep) (coord_row ?S)), ?S)}"
    if "or_expected_generation rep = Some g" for h
    using g that by (auto simp: acknowledge_outcome_def when_phase_known_def install_outcome_of_def split: option.splits)
  have receipt: "acknowledged ?db = g \<and> uc_last_outcome_fingerprint (coord_row ?db) = Some (outcome_fingerprint sha rep)"
    if "or_expected_generation rep = Some g" "receipt_matches h (install_outcome_of sha rep) (coord_row ?S)" for h
    using that by (auto simp: receipt_matches_def install_outcome_of_def sweep_row split: if_splits)
  have 1: "fst (acknowledge_action_svc now g res err images preserve ?db) \<noteq> Inr True"
    using ack by (auto simp: acknowledge_action_svc_def checked_def transaction_def split: sum.splits prod.splits)
  have 2: "fst (claim_drain_svc sha now holder ttl (Some g) mat idle token ?db) \<noteq> Inr (Some claim)"
    using claim by (auto simp: claim_drain_svc_def checked_def map_answer_def transaction_def split: sum.splits prod.splits)
  have 3: "snd (acknowledge_outcome_svc sha now token rep ?db) \<in> {?db, ?S}
      \<and> (fst (acknowledge_outcome_svc sha now token rep ?db) = Inr True \<longrightarrow> acknowledged ?db = g
           \<and> uc_last_outcome_fingerprint (coord_row ?db) = Some (outcome_fingerprint sha rep))"
    if "or_expected_generation rep = Some g"
    using oc[OF that, of "sha token"] receipt[OF that, of "sha token"]
    by (auto simp: acknowledge_outcome_svc_def checked_def checked_report_def token_hash_def transaction_def split: sum.splits if_splits)
  from 1 2 3 show ?thesis by blast
qed

section \<open>Receipts\<close>

lemma known_phase_value: "phase_value p \<in> set KNOWN_COORDINATOR_PHASES"
  by (cases p) (simp_all add: phase_value_def KNOWN_COORDINATOR_PHASES_def)

lemma swept_phase_known:
  "uc_phase (coord_row db) \<in> set KNOWN_COORDINATOR_PHASES \<Longrightarrow> uc_phase (coord_row (lock_and_sweep now db)) \<in> set KNOWN_COORDINATOR_PHASES"
  by (auto simp: sweep_row KNOWN_COORDINATOR_PHASES_def)

lemma outcome_receipt:
  assumes "\<And>g. io_expected_generation oc = Some g \<Longrightarrow> ml_action_generation d = Some g \<and> uc_action_generation r = g"
  shows "receipt_matches th oc (outcome_values th oc d now r)"
  using assms by (cases "io_expected_generation oc")
    (auto simp: receipt_matches_def outcome_values_def Let_def split: option.split)

lemma receipt_swept: "receipt_matches th oc (coord_row (lock_and_sweep now db)) \<longleftrightarrow> receipt_matches th oc (coord_row db)"
  by (simp add: receipt_matches_def sweep_row)

lemma outcome_phase: "uc_phase (outcome_values th oc d now r) = io_phase oc"
  by (simp add: outcome_values_def Let_def split: option.split)

lemma token_gone:
  assumes "tables_ok db issued" "lease_for_token db th k = Some d" "cd_leases db' = cd_leases db"
  shows "lease_for_token (delete_lease d db') th k' = None"
proof -
  have d: "d \<in> set (cd_leases db)" "ml_token_hash d = th" using lease_for_tokenD(1,2)[OF assms(2)] by auto
  have inj: "inj_on ml_token_hash (set (cd_leases db))" using assms(1) by (simp add: tables_ok_def distinct_map)
  have "\<forall>l \<in> set (cd_leases db). ml_token_hash l = th \<longrightarrow> ml_id l = ml_id d"
    using inj_onD[OF inj, of _ d] d by metis
  then show ?thesis by (auto simp: lease_for_token_def find_None_iff delete_lease_def assms(3))
qed

lemma tables_ok_swept: "tables_ok db issued \<Longrightarrow> tables_ok (lock_and_sweep now db) issued"
  using move_tables_ok[of None db "lock_and_sweep now db" issued] move_swept[of "lock_and_sweep now db" now db None] by simp

text \<open>An acknowledged outcome leaves its receipt, and no drain of that token.\<close>

lemma acknowledged_leaves_receipt:
  assumes ok: "tables_ok db issued" and oc: "io_phase oc \<in> set KNOWN_COORDINATOR_PHASES"
    and run: "acknowledge_outcome th oc now db = (Inr True, db')"
  shows "receipt_matches th oc (coord_row db') \<and> lease_for_token db' th (Some Drain) = None
    \<and> uc_phase (coord_row db') \<in> set KNOWN_COORDINATOR_PHASES"
proof -
  let ?S = "lock_and_sweep now db"
  have known: "uc_phase (coord_row ?S) \<in> set KNOWN_COORDINATOR_PHASES"
    using run by (auto simp: acknowledge_outcome_def when_phase_known_def split: if_splits)
  show ?thesis
  proof (cases "lease_for_token ?S th (Some Drain)")
    case None
    with run known show ?thesis by (auto simp: acknowledge_outcome_def when_phase_known_def)
  next
    case (Some d)
    with run known have db': "db' = delete_lease d (set_coord (outcome_values th oc d now) ?S)"
      and gen: "\<And>g. io_expected_generation oc = Some g \<Longrightarrow> ml_action_generation d = Some g \<and> uc_action_generation (coord_row ?S) = g"
      by (auto simp: acknowledge_outcome_def when_phase_known_def split: if_splits option.splits)
    show ?thesis
      using outcome_receipt[OF gen] token_gone[OF tables_ok_swept[OF ok] Some] oc by (simp add: db' outcome_phase)
  qed
qed

text \<open>
  C34: an install outcome may be reported again. When the coordinator has acknowledged an outcome and the answer was
  lost on the way, the same report is acknowledged again at any later instant and changes nothing but what expired
  meanwhile; a report of the same lease that differs in any field (the generation, the result, the error code, or one
  of the six builds and digests) is refused, unless the digest function collides on the two payloads themselves.
\<close>

theorem outcome_receipt_replay:
  assumes "reachable coord_init (coord_step sha) w"
    and "acknowledge_outcome_svc sha now token rep (cw_db w) = (Inr True, db)"
  shows "acknowledge_outcome_svc sha now' token rep db = (Inr True, lock_and_sweep now' db)
    \<and> (checked_report rep' = Inr rep' \<and> rep' \<noteq> rep \<and> inj_on sha {outcome_payload rep, outcome_payload rep'}
       \<longrightarrow> fst (acknowledge_outcome_svc sha now' token rep' db) = Inr False)"
proof -
  let ?oc = "install_outcome_of sha rep" and ?h = "sha token"
  have ok: "tables_ok (cw_db w) (set (cw_issued w))"
    using coordinator.reachable_inv[OF assms(1)] by (simp add: coord_inv_def)
  have phase: "io_phase ?oc \<in> set KNOWN_COORDINATOR_PHASES" by (simp add: install_outcome_of_def known_phase_value)
  from assms(2) have checks: "checked_report rep = Inr rep" "token \<noteq> []"
    and run: "acknowledge_outcome ?h ?oc now (cw_db w) = (Inr True, db)"
    by (auto simp: acknowledge_outcome_svc_def checked_def checked_report_def token_hash_def transaction_def
        split: sum.splits prod.splits if_splits)
  have left: "receipt_matches ?h ?oc (coord_row db)" "lease_for_token db ?h (Some Drain) = None"
    "uc_phase (coord_row db) \<in> set KNOWN_COORDINATOR_PHASES"
    using acknowledged_leaves_receipt[OF ok phase run] by auto
  let ?S = "lock_and_sweep now' db"
  have gone: "lease_for_token ?S ?h (Some Drain) = None"
    using left(2) by (auto simp: lease_for_token_def find_None_iff)
  have again: "acknowledge_outcome ?h oc now' db = (Inr (receipt_matches ?h oc (coord_row db)), ?S)" for oc
    using gone swept_phase_known[OF left(3), of now']
    by (simp add: acknowledge_outcome_def when_phase_known_def receipt_swept)
  have "\<not> receipt_matches ?h (install_outcome_of sha rep') (coord_row db)"
    if "rep' \<noteq> rep" "inj_on sha {outcome_payload rep, outcome_payload rep'}"
    using that left(1)
    by (auto simp: receipt_matches_def install_outcome_of_def outcome_fingerprint_def outcome_payload_inject dest: inj_onD)
  then show ?thesis
    using again left(1) checks
    by (simp add: acknowledge_outcome_svc_def checked_def token_hash_def transaction_def)
qed


section \<open>The recovery clock\<close>

definition upto :: "datetime \<Rightarrow> datetime option \<Rightarrow> bool" where
  "upto t a \<longleftrightarrow> (case a of None \<Rightarrow> True | Some v \<Rightarrow> v \<le> t)"

lemma upto_simps [simp]: "upto t None" "upto t (Some v) \<longleftrightarrow> v \<le> t"
  by (simp_all add: upto_def)

lemma upto_mono: "upto t a \<Longrightarrow> t \<le> u \<Longrightarrow> upto u a"
  by (auto simp: upto_def split: option.splits)

text \<open>No anchor of the recovery clock lies in the future.\<close>

definition stamps_ok :: "datetime \<Rightarrow> coord_db \<Rightarrow> bool" where
  "stamps_ok t db \<longleftrightarrow> upto t (uc_last_started_at (coord_row db)) \<and> upto t (uc_requested_at (coord_row db))"

lemma stamps_mono: "stamps_ok t db \<Longrightarrow> t \<le> u \<Longrightarrow> stamps_ok u db"
  by (auto simp: stamps_ok_def intro: upto_mono)

lemma stamps_sweep: "stamps_ok t db \<Longrightarrow> stamps_ok t (lock_and_sweep now db)"
  by (simp add: stamps_ok_def sweep_row)

lemma stamps_lock: "stamps_ok t db \<Longrightarrow> stamps_ok t (lock_coord db)"
  by (simp add: stamps_ok_def)

lemma stamps_backfill: "stamps_ok now db \<Longrightarrow> stamps_ok now (backfill_legacy_busy_anchor now db)"
  by (auto simp: stamps_ok_def backfill_legacy_busy_anchor_def Let_def split: option.split)

lemma stamps_set: "upto t (uc_last_started_at (f (coord_row db))) \<Longrightarrow> upto t (uc_requested_at (f (coord_row db)))
    \<Longrightarrow> stamps_ok t (set_coord f db)"
  by (simp add: stamps_ok_def)

lemma stamps_leases [simp]:
  "stamps_ok t (map_leases P g db) = stamps_ok t db" "stamps_ok t (delete_lease l db) = stamps_ok t db"
  "stamps_ok t (db\<lparr>cd_audit := au\<rparr>) = stamps_ok t db"
  by (simp_all add: stamps_ok_def)

lemma stamps_insert: "insert_lease l db = (a, db') \<Longrightarrow> stamps_ok t db' = stamps_ok t db"
  by (auto simp: insert_lease_def stamps_ok_def coord_row_def split: if_splits)

lemma timestamps_upto:
  "upto now (uc_last_started_at r) \<Longrightarrow> upto now (uc_last_started_at (phase_timestamp_values p q now r))"
  by (simp add: phase_timestamp_values_def)

lemma stamps_known: "(stamps_ok t db \<Longrightarrow> stamps_ok t (snd (body db))) \<Longrightarrow> stamps_ok t db \<Longrightarrow> stamps_ok t (snd (when_phase_known body db))"
  by (simp add: when_phase_known_def)

lemma stamps_transaction: "stamps_ok t db \<Longrightarrow> stamps_ok t (snd (body db)) \<Longrightarrow> stamps_ok t (snd (transaction body db))"
  by (auto simp: transaction_def split: prod.splits sum.splits)

lemma stamps_checked: "stamps_ok t db \<Longrightarrow> (\<And>x. v = Inr x \<Longrightarrow> stamps_ok t (snd (body x db))) \<Longrightarrow> stamps_ok t (snd (checked v body db))"
  by (auto simp: checked_def split: sum.splits)

lemma stamps_rows:
  assumes ok: "stamps_ok now db"
  shows "stamps_ok now (snd (snapshot_coord now db))"
    "stamps_ok now (snd (mark_busy_work_dispatched now db))"
    "stamps_ok now (snd (record_updater_identity b d db))"
    "stamps_ok now (snd (record_refresh_outcome now r c f t db))"
    "stamps_ok now (snd (request_action a now db))"
    "stamps_ok now (snd (touch_updater now p g db))"
proof -
  have u: "upto now (uc_last_started_at (coord_row db))" "upto now (uc_requested_at (coord_row db))"
    using ok by (simp_all add: stamps_ok_def)
  show "stamps_ok now (snd (snapshot_coord now db))"
    using stamps_backfill[OF stamps_sweep[OF ok]] by (simp add: snapshot_coord_def Let_def)
  show "stamps_ok now (snd (mark_busy_work_dispatched now db))"
    using u ok by (simp add: mark_busy_work_dispatched_def stamps_ok_def Let_def)
  show "stamps_ok now (snd (record_updater_identity b d db))" "stamps_ok now (snd (record_refresh_outcome now r c f t db))"
    using u by (simp_all add: record_updater_identity_def record_refresh_outcome_def when_phase_known_def stamps_ok_def)
  show "stamps_ok now (snd (request_action a now db))"
    using u by (simp add: request_action_def when_phase_known_def stamps_ok_def Let_def)
  let ?B = "backfill_legacy_busy_anchor now (lock_coord db)"
  have b: "upto now (uc_last_started_at (coord_row ?B))" "upto now (uc_requested_at (coord_row ?B))"
    using stamps_backfill[OF stamps_lock[OF ok]] by (simp_all add: stamps_ok_def)
  show "stamps_ok now (snd (touch_updater now p g db))"
    using u b by (simp add: touch_updater_def when_phase_known_def stamps_ok_def Let_def timestamps_upto)
qed

lemma stamps_outcome_values:
  "upto now (uc_last_started_at r) \<Longrightarrow> upto now (uc_requested_at r) \<Longrightarrow>
    upto now (uc_last_started_at (outcome_values th oc d now r)) \<and> upto now (uc_requested_at (outcome_values th oc d now r))"
  by (simp add: outcome_values_def Let_def timestamps_upto split: option.split)

lemma stamps_lease_ops:
  assumes ok: "stamps_ok now db"
  shows "stamps_ok now (snd (renew_lease th now ttl db))"
    "stamps_ok now (snd (renew_drain_progress th now ttl p db))"
    "stamps_ok now (snd (release_lease th now db))"
    "stamps_ok now (snd (acknowledge_outcome th oc now db))"
    "stamps_ok now (snd (acknowledge_action g2 ph res e i pa now db))"
    "stamps_ok now (snd (force_reset_phase now age db))"
proof -
  let ?S = "lock_and_sweep now db"
  have sw: "stamps_ok now ?S" by (rule stamps_sweep[OF ok])
  then have u: "upto now (uc_last_started_at (coord_row ?S))" "upto now (uc_requested_at (coord_row ?S))"
    by (simp_all add: stamps_ok_def)
  show "stamps_ok now (snd (renew_lease th now ttl db))" using sw by (simp add: renew_lease_def Let_def)
  show "stamps_ok now (snd (renew_drain_progress th now ttl p db))"
    using sw u by (simp add: renew_drain_progress_def when_phase_known_def Let_def stamps_set timestamps_upto split: option.split)
  show "stamps_ok now (snd (release_lease th now db))"
    using sw u by (simp add: release_lease_def when_phase_known_def Let_def stamps_set split: option.split)
  show "stamps_ok now (snd (acknowledge_outcome th oc now db))"
    using sw u by (simp add: acknowledge_outcome_def when_phase_known_def stamps_set stamps_outcome_values split: option.split)
  show "stamps_ok now (snd (acknowledge_action g2 ph res e i pa now db))"
    using ok by (simp add: acknowledge_action_def when_phase_known_def stamps_ok_def Let_def timestamps_upto)
  let ?B = "backfill_legacy_busy_anchor now ?S"
  have b: "stamps_ok now ?B" by (rule stamps_backfill[OF sw])
  then have "upto now (uc_last_started_at (coord_row ?B))" "upto now (uc_requested_at (coord_row ?B))"
    by (simp_all add: stamps_ok_def)
  with b show "stamps_ok now (snd (force_reset_phase now age db))"
    by (simp add: force_reset_phase_def Let_def stamps_set recovery_values_def split: recovery_action.split)
qed

lemma stamps_claims:
  assumes ok: "stamps_ok now db"
  shows "stamps_ok now (snd (acquire_critical th holder op now ttl db))"
    "stamps_ok now (snd (claim_drain th holder g mat i now ttl db))"
proof -
  let ?S = "lock_and_sweep now db"
  have sw: "stamps_ok now ?S" by (rule stamps_sweep[OF ok])
  then have u: "upto now (uc_last_started_at (coord_row ?S))" "upto now (uc_requested_at (coord_row ?S))"
    by (simp_all add: stamps_ok_def)
  show "stamps_ok now (snd (acquire_critical th holder op now ttl db))"
    using sw by (auto simp: acquire_critical_def Let_def split: prod.split sum.split dest: stamps_insert[of _ _ _ _ now])
  have ins: "stamps_ok now E" if "insert_lease l (set_coord (\<lambda>r. r\<lparr>uc_requested_action := x, uc_action_generation := y,
      uc_requested_at := Some now\<rparr>) ?S) = (a, E)" for l x y a E
    using stamps_insert[OF that, of now] u by (simp add: stamps_set)
  have ins': "stamps_ok now E" if "insert_lease l ?S = (a, E)" for l a E
    using stamps_insert[OF that, of now] sw by simp
  have set: "stamps_ok now (set_coord (\<lambda>s. (phase_timestamp_values p q now s)\<lparr>uc_phase := q\<rparr>) E)" if "stamps_ok now E" for p q E
    using that by (simp add: stamps_ok_def timestamps_upto)
  show "stamps_ok now (snd (claim_drain th holder g mat i now ttl db))"
    using sw by (auto simp: claim_drain_def when_phase_known_def Let_def split: prod.split sum.split intro!: set dest!: ins ins')
qed

lemma call_stamps:
  assumes "stamps_ok t db" "t \<le> now"
  shows "stamps_ok now (call_effect sha now call db)"
proof -
  have ok: "stamps_ok now db" by (rule stamps_mono[OF assms])
  note ops = stamps_rows[OF ok] stamps_lease_ops[OF ok] stamps_claims[OF ok]
  show ?thesis
  proof (cases call)
    case (RequestAction a)
    with ok ops(5)[of "action_value a"] show ?thesis
      by (auto simp: request_action_svc_def transaction_def split: sum.splits prod.splits option.splits)
  next
    case (ForceReset actor age)
    with ok ops(12) show ?thesis
      by (auto simp: force_reset_svc_def checked_def positive_ttl_def split: sum.splits prod.splits option.splits coord_error.splits)
        (metis snd_conv)+
  next
    case (Skew p a n)
    with ok show ?thesis by (simp add: stamps_ok_def)
  qed (use ok in \<open>auto simp: initialize_svc_def snapshot_svc_def touch_svc_def mark_busy_svc_def record_identity_svc_def
      record_refresh_svc_def acknowledge_action_svc_def acquire_critical_svc_def claim_drain_svc_def renew_svc_def renew_drain_svc_def
      release_svc_def acknowledge_outcome_svc_def map_answer_def stamps_lock
      intro!: stamps_checked stamps_transaction ops split: option.split\<close>)
qed

lemma reachable_stamps: "reachable coord_init (coord_step sha) w \<Longrightarrow> stamps_ok (cw_clock w) (cw_db w)"
proof (induction rule: reachable.induct)
  case (reach_init w)
  then show ?case by (simp add: coord_init_def stamps_ok_def empty_coord_def coord_row_def fresh_coordinator_def)
next
  case (reach_step w w')
  from reach_step.hyps(2) show ?case
    by (rule coord_stepE) (use reach_step.IH in \<open>simp add: after_call_def call_stamps\<close>)
qed


section \<open>Leaving a wedged phase\<close>

definition anchor :: "coordinator_row \<Rightarrow> datetime option" where
  "anchor r = (case uc_last_started_at r of Some a \<Rightarrow> Some a | None \<Rightarrow> uc_requested_at r)"

text \<open>
  The calls that start no work of the updater in the phase \<open>p\<close>: status reads, polls, heartbeats without a phase or
  with the phase \<open>p\<close> itself, requests, critical work, renewals and releases, reports of a lost lease, and resets.
\<close>

definition starts_nothing :: "string \<Rightarrow> coord_call \<Rightarrow> bool" where
  "starts_nothing p call \<longleftrightarrow> (case call of Touch (Some q) _ \<Rightarrow> phase_value q = p | MarkBusy \<Rightarrow> False
     | AcknowledgeAction _ _ _ _ _ \<Rightarrow> False | ClaimDrain _ _ _ _ _ _ \<Rightarrow> False | Skew _ _ _ \<Rightarrow> False | _ \<Rightarrow> True)"

definition is_reset :: "coord_call \<Rightarrow> bool" where
  "is_reset call \<longleftrightarrow> (case call of ForceReset _ _ \<Rightarrow> True | _ \<Rightarrow> False)"

definition reports_phase :: "coord_call \<Rightarrow> bool" where
  "reports_phase call \<longleftrightarrow> (case call of Touch (Some _) _ \<Rightarrow> True | _ \<Rightarrow> False)"

text \<open>
  No drain, and the row in the busy phase \<open>p\<close> since an instant no later than \<open>t\<close>, or idle where \<open>left\<close> allows it.
\<close>

definition ageing :: "datetime \<Rightarrow> string \<Rightarrow> bool \<Rightarrow> coord_db \<Rightarrow> bool" where
  "ageing t p left db \<longleftrightarrow> active_drain db = None \<and> p \<in> set BUSY_COORDINATOR_PHASES
     \<and> (uc_phase (coord_row db) = ''idle'' \<and> left
        \<or> uc_phase (coord_row db) = p \<and> (\<exists>a. anchor (coord_row db) = Some a \<and> a \<le> t))"

lemma idle_not_busy: "''idle'' \<notin> set BUSY_COORDINATOR_PHASES" "''idle'' \<in> set KNOWN_COORDINATOR_PHASES"
  by (simp_all add: phase_defs)

lemma ageing_known: "ageing t p left db \<Longrightarrow> uc_phase (coord_row db) \<in> set KNOWN_COORDINATOR_PHASES"
  by (auto simp: ageing_def busy_is_known idle_not_busy)

lemma ageing_sweep:
  assumes "ageing t p left db"
  shows "coord_row (lock_and_sweep now db) = coord_row db" "active_drain (lock_and_sweep now db) = None"
  using assms by (auto simp: ageing_def sweep_row active_drain_None)

lemma ageing_backfill:
  "ageing t p left db \<Longrightarrow> coord_row D = coord_row db \<Longrightarrow> backfill_legacy_busy_anchor now D = D"
  by (auto simp: ageing_def backfill_legacy_busy_anchor_def Let_def anchor_def idle_not_busy split: option.splits)

lemma ageing_cong: "coord_row D = coord_row db \<Longrightarrow> active_drain D = None \<Longrightarrow> ageing t p left db \<Longrightarrow> ageing t p left D"
  by (simp add: ageing_def)

lemma ageing_lock: "ageing t p left db \<Longrightarrow> ageing t p left (lock_coord db)"
  by (rule ageing_cong) (auto simp: ageing_def active_drain_None)

lemma ageing_transaction: "ageing t p left db \<Longrightarrow> ageing t p left (snd (body db)) \<Longrightarrow> ageing t p left (snd (transaction body db))"
  by (auto simp: transaction_def split: prod.splits sum.splits)

lemma ageing_checked: "ageing t p left db \<Longrightarrow> (\<And>x. v = Inr x \<Longrightarrow> ageing t p left (snd (body x db))) \<Longrightarrow> ageing t p left (snd (checked v body db))"
  by (auto simp: checked_def split: sum.splits)

lemma no_drain_token: "active_drain db = None \<Longrightarrow> lease_for_token db th (Some Drain) = None"
  by (auto simp: active_drain_None lease_for_token_def find_None_iff)

lemma ageing_rows:
  assumes a: "ageing t p left db"
  shows "ageing t p left (snd (snapshot_coord now db))"
    "ageing t p left (snd (record_updater_identity b d db))"
    "ageing t p left (snd (record_refresh_outcome now r c f x db))"
    "ageing t p left (snd (request_action act now db))"
    "ageing t p left (snd (touch_updater now None e db))"
    "uc_phase (coord_row db) = p \<Longrightarrow> ageing t p left (snd (touch_updater now (Some p) e db))"
proof -
  let ?S = "lock_and_sweep now db" and ?L = "lock_coord db"
  have none: "active_drain db = None" "active_drain ?L = None" using a ageing_lock[OF a] by (simp_all add: ageing_def)
  have S: "ageing t p left ?S" by (rule ageing_cong[OF ageing_sweep[OF a] a])
  have known: "uc_phase (coord_row db) \<in> set KNOWN_COORDINATOR_PHASES" by (rule ageing_known[OF a])
  show "ageing t p left (snd (snapshot_coord now db))"
    using S ageing_backfill[OF a ageing_sweep(1)[OF a]] by (simp add: snapshot_coord_def Let_def)
  show "ageing t p left (snd (record_updater_identity b d db))" "ageing t p left (snd (record_refresh_outcome now r c f x db))"
    using known none a by (auto simp: record_updater_identity_def record_refresh_outcome_def when_phase_known_def
        active_drain_None anchor_def ageing_def split: option.splits)
  have bf: "backfill_legacy_busy_anchor now ?L = ?L" by (rule ageing_backfill[OF a]) simp
  show "ageing t p left (snd (request_action act now db))"
  proof (cases "uc_phase (coord_row db) = ''idle''")
    case True
    with known none a show ?thesis
      by (auto simp: request_action_def when_phase_known_def Let_def ageing_def active_drain_None)
  next
    case False
    with a have "uc_phase (coord_row db) \<in> set BUSY_COORDINATOR_PHASES" by (simp add: ageing_def)
    with known ageing_lock[OF a] show ?thesis by (simp add: request_action_def when_phase_known_def Let_def)
  qed
  show "ageing t p left (snd (touch_updater now None e db))"
    using known none a ageing_lock[OF a]
    by (auto simp: touch_updater_def when_phase_known_def Let_def bf ageing_def active_drain_None
        phase_timestamp_values_def anchor_def split: option.splits)
  show "ageing t p left (snd (touch_updater now (Some p) e db))" if "uc_phase (coord_row db) = p"
    using known none a ageing_lock[OF a] that
    by (auto simp: touch_updater_def when_phase_known_def Let_def bf ageing_def active_drain_None
        phase_timestamp_values_def anchor_def split: option.splits)
qed

lemma ageing_leases:
  assumes a: "ageing t p left db"
  shows "ageing t p left (snd (renew_lease th now ttl db))"
    "ageing t p left (snd (renew_drain_progress th now ttl q db))"
    "ageing t p left (snd (release_lease th now db))"
    "ageing t p left (snd (acknowledge_outcome th oc now db))"
    "ageing t p left (snd (acquire_critical th holder op now ttl db))"
proof -
  let ?S = "lock_and_sweep now db"
  have row: "coord_row ?S = coord_row db" and none: "active_drain ?S = None" by (rule ageing_sweep[OF a])+
  have S: "ageing t p left ?S" by (rule ageing_cong[OF row none a])
  have crit: "\<forall>l \<in> set (cd_leases ?S). ml_kind l = Critical" using none by (simp add: active_drain_None)
  have tok: "lease_for_token ?S th (Some Drain) = None" by (rule no_drain_token[OF none])
  show "ageing t p left (snd (renew_lease th now ttl db))"
    using crit row by (auto simp: renew_lease_def Let_def active_drain_None intro!: ageing_cong[OF _ _ a])
  show "ageing t p left (snd (renew_drain_progress th now ttl q db))" "ageing t p left (snd (acknowledge_outcome th oc now db))"
    using S tok by (simp_all add: renew_drain_progress_def acknowledge_outcome_def when_phase_known_def)
  show "ageing t p left (snd (release_lease th now db))"
  proof (cases "lease_for_token ?S th None")
    case (Some l)
    then have "ml_kind l = Critical" using crit lease_for_tokenD(1)[OF Some] by blast
    then show ?thesis using Some crit row
      by (auto simp: release_lease_def Let_def active_drain_None intro!: ageing_cong[OF _ _ a])
  qed (use S in \<open>simp add: release_lease_def Let_def\<close>)
  show "ageing t p left (snd (acquire_critical th holder op now ttl db))"
    using S crit row none
    by (auto simp: acquire_critical_def Let_def insert_lease_def new_lease_def active_drain_None coord_row_def
        intro!: ageing_cong[OF _ _ a])
qed

lemma force_reset_ageing:
  assumes a: "ageing t p left db" and run: "force_reset_phase now age db = (res, db')"
  shows "ageing t p True db' \<and> (t + age \<le> now \<and> 0 < age \<longrightarrow> uc_phase (coord_row db') = ''idle'')"
proof -
  let ?S = "lock_and_sweep now db"
  have row: "coord_row ?S = coord_row db" and none: "active_drain ?S = None" by (rule ageing_sweep[OF a])+
  have bf: "backfill_legacy_busy_anchor now ?S = ?S" by (rule ageing_backfill[OF a row])
  let ?r = "coord_row db"
  define d where "d = decide_recovery (uc_phase ?r) (uc_requested_action ?r) False
      (if uc_phase ?r \<in> set BUSY_COORDINATOR_PHASES then anchor ?r else None) now age"
  have live: "(active_drain ?S \<noteq> None) = False" using none by simp
  note reset = run[unfolded force_reset_phase_def Let_def bf row live, folded anchor_def, folded d_def]
  have db': "db' = (if rd_action d \<in> {REANCHOR, ACTION_ONLY} then set_coord (recovery_values d) ?S else ?S)"
    using reset by (cases "rd_action d") auto
  have S: "ageing t p left ?S" by (rule ageing_cong[OF row none a])
  show ?thesis
  proof (cases "uc_phase ?r = ''idle''")
    case True
    then have "rd_action d \<noteq> REANCHOR" by (simp add: d_def recovery_action_exact idle_not_busy)
    then have "uc_phase (coord_row db') = ''idle''" using True row by (auto simp: db' recovery_values_def Let_def)
    moreover have "active_drain db' = None" using none by (auto simp: db' active_drain_None)
    ultimately show ?thesis using a by (simp add: ageing_def)
  next
    case False
    with a obtain v where v: "uc_phase ?r \<in> set BUSY_COORDINATOR_PHASES" "anchor ?r = Some v" "v \<le> t"
      by (auto simp: ageing_def)
    then have act: "rd_action d = (if old_enough (Some v) now age then REANCHOR else WAIT)"
      by (simp add: d_def recovery_action_exact busy_is_known)
    have "old_enough (Some v) now age" if "t + age \<le> now" "0 < age" using that v(3) by (simp add: old_enough_def)
    moreover have "uc_phase (coord_row db') = ''idle'' \<and> active_drain db' = None" if "old_enough (Some v) now age"
      using that act none by (auto simp: db' recovery_values_def Let_def active_drain_None)
    moreover have "db' = ?S" if "\<not> old_enough (Some v) now age" using that act by (simp add: db')
    ultimately show ?thesis using S a by (auto simp: ageing_def)
  qed
qed


lemma force_reset_svc_ageing:
  assumes "ageing t p left db"
  shows "ageing t p True (snd (force_reset_svc now actor age db))"
    and "t + age \<le> now \<Longrightarrow> 0 < age \<Longrightarrow> uc_phase (coord_row (snd (force_reset_svc now actor age db))) = ''idle''"
proof -
  obtain res db' where run: "force_reset_phase now age db = (res, db')" by fastforce
  note reset = force_reset_ageing[OF assms run]
  have later: "ageing t p True db" using assms by (auto simp: ageing_def)
  have audit: "ageing t p left (D\<lparr>cd_audit := au\<rparr>) = ageing t p left D" for D au left by (simp add: ageing_def active_drain_def)
  have errors: "res = Inl e \<Longrightarrow> (\<exists>x. e = CoordinatorRecoveryNotReadyError x) \<or> (\<exists>x. e = DrainLeaseActiveError x)" for e
    using run by (auto simp: force_reset_phase_def Let_def split: recovery_action.splits)
  show "ageing t p True (snd (force_reset_svc now actor age db))"
    using reset later by (auto simp: force_reset_svc_def checked_def positive_ttl_def run audit
        split: sum.split option.split coord_error.split)
  show "uc_phase (coord_row (snd (force_reset_svc now actor age db))) = ''idle''" if "t + age \<le> now" "0 < age"
    using reset that errors by (auto simp: force_reset_svc_def checked_def positive_ttl_def run
        split: sum.split option.split coord_error.split)
qed

lemma call_ageing:
  assumes a: "ageing t p left db" and quiet: "starts_nothing p call"
    and free: "is_reset call \<Longrightarrow> left" "reports_phase call \<Longrightarrow> uc_phase (coord_row db) = p"
  shows "ageing t p left (call_effect sha now call db)"
proof (cases call)
  case (Touch q e)
  show ?thesis
  proof (cases q)
    case None
    with Touch show ?thesis by (simp add: touch_svc_def ageing_transaction[OF a] ageing_rows[OF a])
  next
    case (Some v)
    with Touch quiet free have "phase_value v = p" "uc_phase (coord_row db) = p"
      by (auto simp: starts_nothing_def reports_phase_def)
    with Touch Some show ?thesis by (simp add: touch_svc_def ageing_transaction[OF a] ageing_rows(6)[OF a])
  qed
next
  case (RequestAction act)
  with a ageing_rows(4)[OF a, of "action_value act" now] show ?thesis
    by (auto simp: request_action_svc_def transaction_def split: sum.splits prod.splits option.splits)
next
  case (ForceReset actor age)
  then have "left = True" using free(1) by (simp add: is_reset_def)
  with ForceReset show ?thesis using force_reset_svc_ageing(1)[OF a] by simp
qed (use a quiet in \<open>auto simp: starts_nothing_def initialize_svc_def snapshot_svc_def record_identity_svc_def record_refresh_svc_def
    acquire_critical_svc_def renew_svc_def renew_drain_svc_def release_svc_def acknowledge_outcome_svc_def map_answer_def
    intro!: ageing_checked ageing_transaction ageing_rows[OF a] ageing_leases[OF a] ageing_lock split: option.split\<close>)

text \<open>Without heartbeats that name a phase the row may be left and stays idle; without resets it is not left.\<close>

lemma calls_ageing:
  "ageing t p True db \<Longrightarrow> list_all (\<lambda>nc. starts_nothing p (snd nc) \<and> \<not> reports_phase (snd nc)) calls
     \<Longrightarrow> ageing t p True (run_calls sha calls db)"
proof (induction calls arbitrary: db)
  case (Cons nc calls)
  obtain n c where nc: "nc = (n, c)" by fastforce
  with Cons.prems have "ageing t p True (call_effect sha n c db)" by (intro call_ageing) simp_all
  from Cons.IH[OF this] Cons.prems(2) show ?case by (simp add: nc)
qed simp

lemma calls_ageing_held:
  "ageing t p False db \<Longrightarrow> list_all (\<lambda>nc. starts_nothing p (snd nc) \<and> \<not> is_reset (snd nc)) calls
     \<Longrightarrow> ageing t p False (run_calls sha calls db)"
proof (induction calls arbitrary: db)
  case (Cons nc calls)
  obtain n c where nc: "nc = (n, c)" by fastforce
  from Cons.prems have "uc_phase (coord_row db) = p" by (simp add: ageing_def)
  with Cons.prems have "ageing t p False (call_effect sha n c db)" by (intro call_ageing) (simp_all add: nc)
  from Cons.IH[OF this] Cons.prems(2) show ?case by (simp add: nc)
qed simp

lemma calls_ageing_busy:
  assumes "ageing t p True db" "uc_phase (coord_row db) = p" "list_all (\<lambda>nc. starts_nothing p (snd nc)) calls"
    and "\<forall>k \<le> length calls. uc_phase (coord_row (run_calls sha (take k calls) db)) \<noteq> ''idle''"
  shows "ageing t p True (run_calls sha calls db)"
  using assms
proof (induction calls arbitrary: db)
  case (Cons nc calls)
  obtain n c where nc: "nc = (n, c)" by fastforce
  let ?db = "call_effect sha n c db"
  have a: "ageing t p True ?db" using Cons.prems by (intro call_ageing) (simp_all add: nc)
  have prefix: "uc_phase (coord_row (run_calls sha (take k calls) ?db)) \<noteq> ''idle''" if "k \<le> length calls" for k
    using Cons.prems(4)[rule_format, of "Suc k"] that by (simp add: nc)
  from prefix[of 0] a have "uc_phase (coord_row ?db) = p" by (auto simp: ageing_def)
  from Cons.IH[OF a this] Cons.prems(3) prefix show ?case by (simp add: nc)
qed simp

lemma first_observation:
  assumes stamps: "stamps_ok now db" and busy: "p \<in> set BUSY_COORDINATOR_PHASES" "uc_phase (coord_row (lock_and_sweep now db)) = p"
    and free: "active_drain (lock_and_sweep now db) = None"
  shows "ageing now p left (snd (snapshot_svc now db)) \<and> uc_phase (coord_row (snd (snapshot_svc now db))) = p"
proof -
  let ?S = "lock_and_sweep now db"
  let ?B = "backfill_legacy_busy_anchor now ?S"
  have "stamps_ok now ?B" by (rule stamps_backfill[OF stamps_sweep[OF stamps]])
  moreover have "anchor (coord_row ?B) \<noteq> None"
    using busy by (auto simp: anchor_def backfill_legacy_busy_anchor_def Let_def split: option.splits)
  moreover have "active_drain ?B = None" using free by (simp add: active_drain_None)
  ultimately have "ageing now p left ?B \<and> uc_phase (coord_row ?B) = p"
    using busy by (auto simp: ageing_def stamps_ok_def anchor_def split: option.splits)
  then show ?thesis by (simp add: snapshot_svc_def transaction_def snapshot_coord_def Let_def)
qed

text \<open>
  C5: a wedged coordinator can be recovered within a bounded time. Take any reachable state, and look at its status
  once, at \<open>seen\<close>: the look finds a busy phase and no live drain. Whatever follows that starts no other work of the
  updater (polls, heartbeats with no phase or repeating the wedged phase, further looks, requests, critical work,
  resets), a reset no earlier than the maximal age after \<open>seen\<close> leaves the coordinator idle, so no heartbeat moves the
  instant from which the age is counted. The one exception is a phase that an earlier reset among these calls had
  already left and a later heartbeat entered again.
\<close>

theorem wedged_phase_recovers:
  assumes "reachable coord_init (coord_step sha) w" and "cw_clock w \<le> seen"
    and "p \<in> set BUSY_COORDINATOR_PHASES" and "uc_phase (coord_row (lock_and_sweep seen (cw_db w))) = p"
    and "active_drain (lock_and_sweep seen (cw_db w)) = None"
    and "list_all (\<lambda>nc. starts_nothing p (snd nc)) calls" and "seen + COORDINATOR_RECOVERY_MAX_AGE \<le> now"
  shows "uc_phase (coord_row (snd (force_reset_svc now actor COORDINATOR_RECOVERY_MAX_AGE
          (run_calls sha ((seen, Snapshot) # calls) (cw_db w))))) = ''idle''
    \<or> list_ex (\<lambda>nc. is_reset (snd nc)) calls \<and> list_ex (\<lambda>nc. reports_phase (snd nc)) calls
      \<and> (\<exists>k \<le> length calls. uc_phase (coord_row (run_calls sha ((seen, Snapshot) # take k calls) (cw_db w))) = ''idle'')"
proof -
  let ?L = "call_effect sha seen Snapshot (cw_db w)"
  have "stamps_ok seen (cw_db w)" by (rule stamps_mono[OF reachable_stamps[OF assms(1)] assms(2)])
  from first_observation[OF this assms(3,4,5)] have L: "ageing seen p left ?L" "uc_phase (coord_row ?L) = p" for left by simp_all
  have idle: "uc_phase (coord_row (snd (force_reset_svc now actor COORDINATOR_RECOVERY_MAX_AGE D))) = ''idle''"
    if "ageing seen p left D" for D left
    using assms(7) that by (intro force_reset_svc_ageing(2)) (simp_all add: COORDINATOR_RECOVERY_MAX_AGE_def time_defs)
  have 1: "ageing seen p True (run_calls sha calls ?L)"
    if "\<forall>k \<le> length calls. uc_phase (coord_row (run_calls sha (take k calls) ?L)) \<noteq> ''idle''"
    by (rule calls_ageing_busy[OF L assms(6) that])
  have 2: "ageing seen p True (run_calls sha calls ?L)" if "\<not> list_ex (\<lambda>nc. reports_phase (snd nc)) calls"
    by (rule calls_ageing[OF L(1)]) (use assms(6) that in \<open>auto simp: list_all_iff list_ex_iff\<close>)
  have 3: "ageing seen p False (run_calls sha calls ?L)" if "\<not> list_ex (\<lambda>nc. is_reset (snd nc)) calls"
    by (rule calls_ageing_held[OF L(1)]) (use assms(6) that in \<open>auto simp: list_all_iff list_ex_iff\<close>)
  show ?thesis unfolding run_calls.simps using 1 2 3 idle by blast
qed

end
