(* ===== verification/UpdateExamples.thy ===== *)
theory UpdateExamples
  imports UpdateProtocol
begin

text \<open>Concrete histories of the update coordinator, with digests that are the tokens themselves.\<close>

definition day_zero :: coord_world where
  "day_zero = \<lparr>cw_db = empty_coord, cw_clock = 0, cw_issued = []\<rparr>"

definition import_runs :: coord_world where
  "import_runs = after_call id 0 (AcquireCritical ''import'' ''worker'' DEFAULT_CRITICAL_TTL ''c1'') day_zero"

definition drain_claimed :: coord_world where
  "drain_claimed = after_call id 1 (ClaimDrain ''updater'' (minutes 10) None False False ''d1'') import_runs"

definition import_left :: coord_world where
  "import_left = after_call id 2 (Release ''c1'') drain_claimed"

definition install_asked :: coord_world where
  "install_asked = after_call id 0 (RequestAction InstallAction) day_zero"

definition install_claimed :: coord_world where
  "install_claimed = after_call id 1 (ClaimDrain ''updater'' (minutes 10) (Some 1) False True ''d1'') install_asked"

definition stuck_checking :: coord_world where
  "stuck_checking = after_call id 0 (Touch (Some Ph_checking) None) day_zero"

definition success_report :: outcome_report where
  "success_report = \<lparr>or_result = Res_success, or_expected_generation = Some 1, or_error_code = None, or_from_build = Some ''1.0'',
     or_to_build = Some ''1.1'', or_current_build = Some ''1.1'', or_current_digest = None, or_available_build = None,
     or_available_digest = None\<rparr>"

lemma day_zero_reachable: "reachable coord_init (coord_step id) day_zero"
  by (rule reach_init) (simp add: coord_init_def day_zero_def)

lemma example_steps:
  "coord_step id day_zero import_runs" "coord_step id import_runs drain_claimed" "coord_step id drain_claimed import_left"
  "coord_step id day_zero install_asked" "coord_step id install_asked install_claimed" "coord_step id day_zero stuck_checking"
proof -
  have fresh: "''d1'' \<notin> set (cw_issued import_runs)" "''d1'' \<notin> set (cw_issued install_asked)" by code_simp+
  have clock: "cw_clock import_runs \<le> 1" "cw_clock drain_claimed \<le> 2" "cw_clock install_asked \<le> 1" by code_simp+
  show "coord_step id day_zero import_runs" unfolding import_runs_def
    by (rule coord_step.called) (simp_all add: day_zero_def issued_hash_def token_of_def)
  show "coord_step id import_runs drain_claimed" unfolding drain_claimed_def
    by (rule coord_step.called) (use fresh clock in \<open>simp_all add: issued_hash_def token_of_def\<close>)
  show "coord_step id drain_claimed import_left" unfolding import_left_def
    by (rule coord_step.called) (use clock in \<open>simp_all add: issued_hash_def token_of_def\<close>)
  show "coord_step id day_zero install_asked" unfolding install_asked_def
    by (rule coord_step.called) (simp_all add: day_zero_def issued_hash_def token_of_def)
  show "coord_step id install_asked install_claimed" unfolding install_claimed_def
    by (rule coord_step.called) (use fresh clock in \<open>simp_all add: issued_hash_def token_of_def\<close>)
  show "coord_step id day_zero stuck_checking" unfolding stuck_checking_def
    by (rule coord_step.called) (simp_all add: day_zero_def issued_hash_def token_of_def)
qed

lemma examples_reachable:
  "reachable coord_init (coord_step id) import_runs" "reachable coord_init (coord_step id) drain_claimed"
  "reachable coord_init (coord_step id) install_claimed" "reachable coord_init (coord_step id) stuck_checking"
  using example_steps day_zero_reachable by (blast intro: reachable.intros)+

theorem drain_excludes_new_work_witness:
  "set (critical_tokens (cw_db import_left)) \<subseteq> set (critical_tokens (cw_db drain_claimed))"
proof -
  have "has_drain ''d1'' (cw_db drain_claimed)" "has_drain ''d1'' (cw_db import_left)" by code_simp+
  then show ?thesis
    using drain_excludes_new_work[OF examples_reachable(2) r_into_rtranclp[of "coord_step id", OF example_steps(3)], of "''d1''"]
    by simp
qed

theorem coordination_sound_witness:
  "length (drains (cw_db import_runs)) \<le> 1
   \<and> fst (acquire_critical_svc id 3 ''grab'' ''worker'' DEFAULT_CRITICAL_TTL ''c2'' (cw_db import_runs)) \<noteq> Inl UniqueViolation"
proof -
  have "cw_clock import_runs \<le> 3" "id ''c2'' \<notin> set (cw_issued import_runs)" by code_simp+
  from coordination_sound[OF examples_reachable(1) this, of "''grab''" "''worker''"] show ?thesis by blast
qed

theorem coordination_refines_lock_witness:
  "labelled_run lock_step (lock_of (cw_db import_runs)) [(1, Grant ''d1'' Drain (minutes 10)), (2, GiveBack ''c1'')] (lock_of (cw_db import_left))"
proof -
  have tokens: "''d1'' \<notin> set (cw_issued import_runs)" "cw_clock import_runs \<le> 1" "cw_clock drain_claimed \<le> 2" by code_simp+
  have acts: "act_of id 1 (ClaimDrain ''updater'' (minutes 10) None False False ''d1'') (cw_db import_runs) = Grant ''d1'' Drain (minutes 10)"
    "act_of id 2 (Release ''c1'') (cw_db drain_claimed) = GiveBack ''c1''" by code_simp+
  have "answered id import_runs (1, Grant ''d1'' Drain (minutes 10)) drain_claimed" unfolding drain_claimed_def acts(1)[symmetric]
    by (rule answered.intros) (use tokens in \<open>simp_all add: issued_hash_def token_of_def\<close>)
  moreover have "answered id drain_claimed (2, GiveBack ''c1'') import_left" unfolding import_left_def acts(2)[symmetric]
    by (rule answered.intros) (use tokens in \<open>simp_all add: issued_hash_def token_of_def\<close>)
  ultimately have "labelled_run (answered id) import_runs [(1, Grant ''d1'' Drain (minutes 10)), (2, GiveBack ''c1'')] import_left" by auto
  from coordination_refines_lock[OF examples_reachable(1) this] show ?thesis .
qed

theorem critical_lease_protects_witness:
  "fst (renew_drain_svc id 3 ''d1'' (minutes 10) None
     (run_calls id [(1, ClaimDrain ''updater'' (minutes 10) None False False ''d1'')] (cw_db import_runs))) \<noteq> Inr (Some True)"
proof -
  let ?c = "hd (cd_leases (cw_db import_runs))"
  have "cd_leases (cw_db import_runs) \<noteq> []" by code_simp
  then have c: "?c \<in> set (cd_leases (cw_db import_runs))" by simp
  have k: "ml_kind ?c = Critical" "list_all (spares id ?c) [(1, ClaimDrain ''updater'' (minutes 10) None False False ''d1'')]"
    "3 < ml_expires_at ?c" by code_simp+
  from critical_lease_protects[OF examples_reachable(1) c k] show ?thesis by blast
qed

theorem stale_generation_powerless_witness:
  "fst (acknowledge_action_svc 5 0 Res_no_update None \<lparr>iv_current_build = None, iv_current_digest = None, iv_available_build = None,
      iv_available_digest = None\<rparr> False (cw_db install_claimed)) \<noteq> Inr True"
proof -
  have "(0::int) < generation (cw_db install_asked)" by code_simp
  from stale_generation_powerless[OF r_into_rtranclp[of "coord_step id", OF example_steps(5)] this] show ?thesis by blast
qed

definition other_report :: outcome_report where
  "other_report = success_report\<lparr>or_to_build := Some ''1.2''\<rparr>"

theorem outcome_receipt_replay_witness:
  "fst (acknowledge_outcome_svc id 9 ''d1'' success_report
     (snd (acknowledge_outcome_svc id 2 ''d1'' success_report (cw_db install_claimed)))) = Inr True
   \<and> fst (acknowledge_outcome_svc id 9 ''d1'' other_report
     (snd (acknowledge_outcome_svc id 2 ''d1'' success_report (cw_db install_claimed)))) = Inr False"
proof -
  have "fst (acknowledge_outcome_svc id 2 ''d1'' success_report (cw_db install_claimed)) = Inr True" by code_simp
  then have run: "acknowledge_outcome_svc id 2 ''d1'' success_report (cw_db install_claimed)
      = (Inr True, snd (acknowledge_outcome_svc id 2 ''d1'' success_report (cw_db install_claimed)))"
    by (metis prod.collapse)
  have other: "checked_report other_report = Inr other_report" by code_simp
  have differs: "other_report \<noteq> success_report" by (simp add: other_report_def success_report_def)
  from outcome_receipt_replay[OF examples_reachable(3) run, of 9 other_report] other differs show ?thesis by simp
qed

theorem wedged_phase_recovers_witness:
  "uc_phase (coord_row (snd (force_reset_svc (1 + minutes 10) (Some 4) COORDINATOR_RECOVERY_MAX_AGE
     (run_calls id [(1, Snapshot), (2, Touch None None), (3, Touch (Some Ph_checking) (Some 0)), (4, RequestAction CheckAction)]
        (cw_db stuck_checking))))) = ''idle''"
proof -
  have h: "cw_clock stuck_checking \<le> 1" "''checking'' \<in> set BUSY_COORDINATOR_PHASES"
    "uc_phase (coord_row (lock_and_sweep 1 (cw_db stuck_checking))) = ''checking''"
    "active_drain (lock_and_sweep 1 (cw_db stuck_checking)) = None"
    "list_all (\<lambda>nc. starts_nothing ''checking'' (snd nc))
       [(2::int, Touch None None), (3, Touch (Some Ph_checking) (Some 0)), (4, RequestAction CheckAction)]"
    "1 + COORDINATOR_RECOVERY_MAX_AGE \<le> 1 + minutes 10" by code_simp+
  have "\<not> list_ex (\<lambda>nc. is_reset (snd nc))
       [(2::int, Touch None None), (3, Touch (Some Ph_checking) (Some 0)), (4, RequestAction CheckAction)]" by code_simp
  with wedged_phase_recovers[OF examples_reachable(4) h, of "Some 4"] show ?thesis by blast
qed

end
