(* ===== verification/RequestIntent.thy ===== *)
theory RequestIntent
  imports SeasonLaws
begin

text \<open>
  What a caller asks for on a show (\<open>services/request_service.py\<close>): the whole show, some seasons, or some
  episodes of some seasons. The stored intent of a request (mode, seasons, episodes per season) is read as
  the set of episodes it wants; merging a second caller's intent into it gives exactly the union. An
  optional list that is empty counts as omitted, as Python's truth test has it; a dict of episodes is an
  association list with one entry per season.
\<close>

definition given :: "'a list option \<Rightarrow> bool" where
  "given v \<longleftrightarrow> (case v of None \<Rightarrow> False | Some xs \<Rightarrow> xs \<noteq> [])"

definition or_empty :: "'a list option \<Rightarrow> 'a list" where
  "or_empty v = (case v of None \<Rightarrow> [] | Some xs \<Rightarrow> xs)"

lemma given_iff: "given v \<longleftrightarrow> or_empty v \<noteq> []"
  by (auto simp: given_def or_empty_def split: option.splits)

lemma or_empty_simps [simp]: "or_empty None = []" "or_empty (Some xs) = xs"
  by (simp_all add: or_empty_def)

section \<open>Intent\<close>

type_synonym episode_dict = "(int \<times> int list) list"

type_synonym tv_intent = "string \<times> int list option \<times> episode_dict option"

definition season_numbers :: "int list option \<Rightarrow> int \<Rightarrow> int list" where
  "season_numbers seasons season_count = (if given seasons then or_empty seasons else [1..season_count])"

definition tv_request_intent :: "int list option \<Rightarrow> episode_dict option \<Rightarrow> tv_intent" where
  "tv_request_intent seasons episodes =
     (if given episodes then
        (''explicit_episodes'', Some (sorted_set (map fst (or_empty episodes))),
         Some (map (\<lambda>(ssn, eps). (ssn, sorted_set eps)) (or_empty episodes)))
      else if given seasons then (''explicit_seasons'', Some (sorted_set (or_empty seasons)), None)
      else (''whole_show'', None, None))"

text \<open>\<open>merged.setdefault(season, set()).update(values)\<close>\<close>

fun dict_extend :: "episode_dict \<Rightarrow> int \<Rightarrow> int list \<Rightarrow> episode_dict" where
  "dict_extend [] ssn eps = [(ssn, eps)]"
| "dict_extend ((k, v) # d) ssn eps = (if k = ssn then (k, v @ eps) # d else (k, v) # dict_extend d ssn eps)"

definition has_key :: "episode_dict \<Rightarrow> int \<Rightarrow> bool" where
  "has_key d ssn \<longleftrightarrow> ssn \<in> fst ` set d"

fun merge_episodes :: "int list \<Rightarrow> episode_dict \<Rightarrow> episode_dict \<Rightarrow> int list \<times> episode_dict" where
  "merge_episodes requested merged [] = (requested, merged)"
| "merge_episodes requested merged ((ssn, eps) # rest) =
     (if ssn \<in> set requested \<and> \<not> has_key merged ssn then merge_episodes (ssn # requested) merged rest
      else merge_episodes (ssn # requested) (dict_extend merged ssn eps) rest)"

definition sealed :: "int list \<Rightarrow> episode_dict \<Rightarrow> tv_intent" where
  "sealed requested merged =
     (if merged \<noteq> [] then ''explicit_episodes'' else ''explicit_seasons'', Some (sorted_set requested),
      if merged \<noteq> [] then Some (map (\<lambda>(ssn, eps). (ssn, sorted_set eps)) merged) else None)"

text \<open>The intent to write back; \<open>None\<close> is the early return on a row that wants the whole show already.\<close>

definition merged_intent :: "request_record \<Rightarrow> int list option \<Rightarrow> episode_dict option \<Rightarrow> tv_intent option" where
  "merged_intent record seasons episodes =
     (let (mode, requested, eps) = tv_request_intent seasons episodes;
          old_episodes = or_empty (rr_requested_episodes record);
          old_requested = or_empty (rr_requested_seasons record) @ map fst old_episodes
      in if rr_tv_request_mode record = Some ''whole_show'' then None
         else if mode = ''explicit_episodes'' then
           (let (req, merged) = merge_episodes old_requested old_episodes (or_empty eps) in Some (sealed req merged))
         else if mode = ''whole_show'' then Some (''whole_show'', None, None)
         else Some (sealed (old_requested @ or_empty requested)
                (filter (\<lambda>(ssn, _). ssn \<notin> set (or_empty requested)) old_episodes)))"

definition merge_tv_request_intent :: "request_record \<Rightarrow> int list option \<Rightarrow> episode_dict option \<Rightarrow> unit app_op" where
  "merge_tv_request_intent record seasons episodes = (case merged_intent record seasons episodes of
       None \<Rightarrow> return_op ()
     | Some (mode, requested, eps) \<Rightarrow> set_tv_request_intent (rr_id record) mode requested eps)"

section \<open>The season plan\<close>

record request_detail =
  de_title :: string
  de_year :: "int option"
  de_is_anime :: bool
  de_poster_url :: "string option"
  de_backdrop_url :: "string option"
  de_season_count :: int

record tv_season_plan =
  tp_season_numbers :: "int list"
  tp_waiting_seasons :: "int list"
  tp_episode_scoped :: bool

definition plan_of :: "request_detail \<Rightarrow> int list option \<Rightarrow> episode_dict option \<Rightarrow> bool \<Rightarrow> tv_season_plan" where
  "plan_of detail seasons episodes default_waiting_first_season =
     (let numbers = (if given episodes then sorted_set (map fst (or_empty episodes))
                     else season_numbers seasons (de_season_count detail));
          fallback = (numbers = [] \<and> default_waiting_first_season)
      in \<lparr>tp_season_numbers = (if fallback then [1] else numbers),
          tp_waiting_seasons = (if fallback then [1]
             else if given seasons \<or> given episodes then filter (\<lambda>n. n > de_season_count detail) numbers else []),
          tp_episode_scoped = given episodes\<rparr>)"

fun park_waiting :: "datetime \<Rightarrow> int \<Rightarrow> int list \<Rightarrow> unit app_op" where
  "park_waiting now mr [] = return_op ()"
| "park_waiting now mr (n # ns) =
     bind_op (set_status now mr n ''waiting_for_air_date'' False) (\<lambda>_. park_waiting now mr ns)"

definition ensure_tv_season_plan ::
  "datetime \<Rightarrow> library_port option \<Rightarrow> int \<Rightarrow> int \<Rightarrow> tv_season_plan \<Rightarrow> int set option \<Rightarrow> unit app_op" where
  "ensure_tv_season_plan now library mr tmdb plan present =
     bind_op (ensure_seasons now library mr tmdb (tp_season_numbers plan) (tp_episode_scoped plan) present) (\<lambda>_.
       park_waiting now mr (sorted_set (tp_waiting_seasons plan)))"

section \<open>What an intent wants\<close>

text \<open>
  The episodes an intent wants: all of them for the whole show; of a listed season all, unless the season
  has an entry of its own, and then those of the entry.
\<close>

definition wants :: "tv_intent \<Rightarrow> (int \<times> int) set" where
  "wants = (\<lambda>(mode, seasons, episodes). if mode = ''whole_show'' then UNIV
     else {(ssn, ep). case map_of (or_empty episodes) ssn of
         Some eps \<Rightarrow> ep \<in> set eps
       | None \<Rightarrow> ssn \<in> set (or_empty seasons)})"

definition stored_intent :: "request_record \<Rightarrow> tv_intent" where
  "stored_intent r = (case rr_tv_request_mode r of None \<Rightarrow> '''' | Some m \<Rightarrow> m, rr_requested_seasons r, rr_requested_episodes r)"

definition asked :: "int list option \<Rightarrow> episode_dict option \<Rightarrow> (int \<times> int) set" where
  "asked seasons episodes = (if given episodes then {(ssn, ep). \<exists>eps. (ssn, eps) \<in> set (or_empty episodes) \<and> ep \<in> set eps}
     else if given seasons then set (or_empty seasons) \<times> UNIV else UNIV)"

definition dict_ok :: "episode_dict option \<Rightarrow> bool" where
  "dict_ok d \<longleftrightarrow> distinct (map fst (or_empty d))"

lemma sorted_twice:
  "map_of (map ((\<lambda>(ssn, eps). (ssn, sorted_set eps)) \<circ> (\<lambda>(ssn, eps). (ssn, sorted_set eps))) d) k
     = map_option (sorted_set \<circ> sorted_set) (map_of d k)"
  by (induction d) auto

lemma map_of_sorted: "map_of (map (\<lambda>(ssn, eps). (ssn, sorted_set eps)) d) k = map_option sorted_set (map_of d k)"
  by (induction d) auto

lemma has_key_map_of: "has_key d k \<longleftrightarrow> map_of d k \<noteq> None"
  by (auto simp: has_key_def map_of_eq_None_iff)

lemma map_of_dict_extend:
  "map_of (dict_extend d ssn eps) k =
     (if k = ssn then Some ((case map_of d ssn of None \<Rightarrow> [] | Some v \<Rightarrow> v) @ eps) else map_of d k)"
  by (induction d ssn eps rule: dict_extend.induct) auto

lemma map_of_filter_key: "map_of (filter (\<lambda>(k, _). k \<notin> ks) d) k = (if k \<in> ks then None else map_of d k)"
  by (induction d) auto

definition reach :: "int list \<Rightarrow> episode_dict \<Rightarrow> (int \<times> int) set" where
  "reach requested merged = {(ssn, ep). case map_of merged ssn of Some eps \<Rightarrow> ep \<in> set eps | None \<Rightarrow> ssn \<in> set requested}"

lemma wants_sealed: "wants (sealed requested merged) = reach requested merged"
  by (auto simp: wants_def sealed_def reach_def map_of_sorted split: option.splits)

lemma merge_episodes_reach:
  "merge_episodes requested merged rest = (req, m) \<Longrightarrow> set (map fst merged) \<subseteq> set requested \<Longrightarrow> distinct (map fst rest) \<Longrightarrow>
   reach req m = reach requested merged \<union> {(ssn, ep). \<exists>eps. (ssn, eps) \<in> set rest \<and> ep \<in> set eps}"
proof (induction requested merged rest rule: merge_episodes.induct)
  case (2 requested merged ssn eps rest)
  show ?case
  proof (cases "ssn \<in> set requested \<and> \<not> has_key merged ssn")
    case True
    have "reach req m = reach (ssn # requested) merged \<union> {(ssn, ep). \<exists>eps. (ssn, eps) \<in> set rest \<and> ep \<in> set eps}"
      using 2 True by auto
    then show ?thesis
      using True by (auto simp: reach_def has_key_map_of split: option.splits)
  next
    case False
    have sub: "set (map fst (dict_extend merged ssn eps)) \<subseteq> set (ssn # requested)"
      using "2.prems"(2) by (induction merged ssn eps rule: dict_extend.induct) (auto split: if_splits)
    have "reach req m = reach (ssn # requested) (dict_extend merged ssn eps)
        \<union> {(ssn, ep). \<exists>eps. (ssn, eps) \<in> set rest \<and> ep \<in> set eps}"
      using 2 False sub by auto
    moreover have "reach (ssn # requested) (dict_extend merged ssn eps) = reach requested merged \<union> {ssn} \<times> set eps"
      using False by (auto simp: reach_def map_of_dict_extend has_key_map_of split: option.splits if_splits)
    ultimately show ?thesis by auto
  qed
qed auto

lemma merge_episodes_requested:
  "merge_episodes requested merged rest = (req, m) \<Longrightarrow> set requested \<subseteq> set req"
  by (induction requested merged rest rule: merge_episodes.induct) (auto split: if_splits)

lemma reach_dict:
  assumes "distinct (map fst d)"
  shows "reach (map fst d) d = {(ssn, ep). \<exists>eps. (ssn, eps) \<in> set d \<and> ep \<in> set eps}"
proof -
  have "(ssn, ep) \<in> reach (map fst d) d \<longleftrightarrow> (\<exists>eps. (ssn, eps) \<in> set d \<and> ep \<in> set eps)" for ssn ep
  proof (cases "map_of d ssn")
    case None
    then have "ssn \<notin> fst ` set d" by (simp add: map_of_eq_None_iff)
    with None show ?thesis by (force simp: reach_def)
  next
    case (Some eps)
    then have "(ssn, v) \<in> set d \<longleftrightarrow> v = eps" for v
      using assms map_of_eq_Some_iff[of d ssn v] by auto
    with Some show ?thesis by (simp add: reach_def)
  qed
  then show ?thesis by auto
qed

lemma keys_sorted: "map fst (map (\<lambda>(ssn, eps). (ssn, sorted_set eps)) d) = map fst d"
  by (induction d) auto

lemma entries_sorted:
  "{(ssn, ep). \<exists>eps. (ssn, eps) \<in> set (map (\<lambda>(ssn, eps). (ssn, sorted_set eps)) d) \<and> ep \<in> set eps}
     = {(ssn, ep). \<exists>eps. (ssn, eps) \<in> set d \<and> ep \<in> set eps}"
  by (induction d) auto

lemma asked_wants:
  assumes "dict_ok episodes"
  shows "wants (tv_request_intent seasons episodes) = asked seasons episodes"
proof (cases "given episodes")
  case True
  then have "tv_request_intent seasons episodes = sealed (map fst (or_empty episodes)) (or_empty episodes)"
    by (simp add: tv_request_intent_def sealed_def given_iff)
  then show ?thesis
    using True assms by (simp add: wants_sealed reach_dict asked_def dict_ok_def)
qed (auto simp: wants_def tv_request_intent_def asked_def)

lemma intent_merges_exactly:
  assumes "dict_ok episodes"
  shows "case merged_intent r seasons episodes of
      None \<Rightarrow> wants (stored_intent r) = UNIV
    | Some i \<Rightarrow> wants i = wants (stored_intent r) \<union> asked seasons episodes"
proof (cases "rr_tv_request_mode r = Some ''whole_show''")
  case True
  then show ?thesis by (simp add: merged_intent_def wants_def stored_intent_def split_beta)
next
  case False
  define old where "old = or_empty (rr_requested_episodes r)"
  define req where "req = or_empty (rr_requested_seasons r) @ map fst old"
  have stored: "wants (stored_intent r) = reach req old"
  proof -
    have "map_of old ssn = None \<Longrightarrow> ssn \<in> set req \<longleftrightarrow> ssn \<in> set (or_empty (rr_requested_seasons r))" for ssn
      by (simp add: req_def map_of_eq_None_iff)
    then show ?thesis
      using False by (auto simp: wants_def stored_intent_def reach_def old_def split: option.splits)
  qed
  show ?thesis
  proof (cases "given episodes")
    case True
    obtain req' m where merge: "merge_episodes req old (map (\<lambda>(ssn, eps). (ssn, sorted_set eps)) (or_empty episodes)) = (req', m)"
      by fastforce
    have "reach req' m = reach req old \<union> asked seasons episodes"
      using merge_episodes_reach[OF merge, unfolded entries_sorted keys_sorted] assms True
      by (simp add: req_def dict_ok_def asked_def)
    then show ?thesis
      using True False merge
      by (simp add: merged_intent_def tv_request_intent_def old_def[symmetric] req_def[symmetric] stored wants_sealed)
  next
    case no: False
    show ?thesis
    proof (cases "given seasons")
      case True
      have "reach (req @ sorted_set (or_empty seasons)) (filter (\<lambda>(ssn, _). ssn \<notin> set (or_empty seasons)) old)
          = reach req old \<union> set (or_empty seasons) \<times> UNIV"
        by (auto simp: reach_def map_of_filter_key split: option.splits if_splits)
      then show ?thesis
        using True False no
        by (simp add: merged_intent_def tv_request_intent_def old_def[symmetric] req_def[symmetric] stored wants_sealed asked_def)
    next
      case False
      then show ?thesis
        using no \<open>rr_tv_request_mode r \<noteq> Some ''whole_show''\<close>
        by (simp add: merged_intent_def tv_request_intent_def asked_def wants_def)
    qed
  qed
qed

text \<open>
  C27: merging a caller's intent into a request loses nothing and invents nothing. After the merge has been
  written and read back, the request wants exactly the episodes it wanted before together with those the
  caller asked for: a whole show stays a whole show, a whole season is never narrowed to a list of episodes
  asked for later, and a list of episodes is widened by a later request for its whole season.
\<close>

theorem merged_intent_is_union:
  assumes row: "get_req db (rr_id r) = Some r" and dict: "dict_ok episodes"
    and merge: "merge_tv_request_intent r seasons episodes db = Inr (x, db')"
  shows "\<exists>r'. get_req db' (rr_id r) = Some r'
    \<and> wants (stored_intent r') = wants (stored_intent r) \<union> asked seasons episodes"
proof (cases "merged_intent r seasons episodes")
  case None
  then show ?thesis
    using intent_merges_exactly[OF dict, of r seasons] merge row by (simp add: merge_tv_request_intent_def)
next
  case (Some i)
  obtain mode requested eps where i: "i = (mode, requested, eps)" by (cases i) auto
  obtain q where q: "find_req db (rr_id r) = Some q"
    using row by (auto simp: get_req_def)
  define q' where "q' = q\<lparr>q_tv_request_mode := Some mode, q_requested_seasons := season_json requested,
    q_requested_episodes := episode_json eps\<rparr>"
  have db': "find_req db' (rr_id r) = Some q'"
    using merge Some i q find_req_SomeD[OF q]
    by (auto simp: merge_tv_request_intent_def set_tv_request_intent_def write_request_def find_req_map q'_def)
  have "wants (stored_intent (to_record_req q')) = wants i"
    by (cases requested; cases eps)
      (auto simp: q'_def i to_record_req_def stored_intent_def wants_def season_json_def season_tuple_def
        episode_json_def episode_map_def map_of_sorted sorted_twice split: option.splits)
  then show ?thesis
    using intent_merges_exactly[OF dict, of r seasons] Some db' by (simp add: get_req_def)
qed

definition demo_show_request :: request_row where
  "demo_show_request = new_request_row 1 1399 Tv ''A Show'' ''pending''
     (plain_request\<lparr>nr_tv_request_mode := Some ''explicit_episodes'', nr_requested_seasons := Some [1, 2],
        nr_requested_episodes := Some [(2, [4])]\<rparr>)"

definition demo_intent_db :: app_db where
  "demo_intent_db = demo_db\<lparr>a_requests := [demo_show_request]\<rparr>"

lemma demo_merge:
  "merge_tv_request_intent (to_record_req demo_show_request) None (Some [(1, [7]), (2, [5])]) demo_intent_db
     = Inr ((), demo_intent_db\<lparr>a_requests := [demo_show_request\<lparr>q_requested_episodes := Some [(2, [4, 5])]\<rparr>]\<rparr>)"
  by code_simp

theorem merged_intent_is_union_witness:
  "\<exists>r'. get_req (demo_intent_db\<lparr>a_requests := [demo_show_request\<lparr>q_requested_episodes := Some [(2, [4, 5])]\<rparr>]\<rparr>) 1 = Some r'
     \<and> wants (stored_intent r')
       = wants (stored_intent (to_record_req demo_show_request)) \<union> asked None (Some [(1, [7]), (2, [5])])"
proof -
  have "get_req demo_intent_db (rr_id (to_record_req demo_show_request)) = Some (to_record_req demo_show_request)"
    and "dict_ok (Some [(1, [7]), (2, [5])])" and "rr_id (to_record_req demo_show_request) = 1"
    by code_simp+
  then show ?thesis
    using merged_intent_is_union[OF _ _ demo_merge] by simp
qed

end
