(* ===== verification/RequestService.thy ===== *)
theory RequestService
  imports RequestIntent
begin

text \<open>
  Creating requests (\<open>services/request_service.py\<close>). A call runs statements in a session: \<open>ss_saved\<close> is the
  committed database, \<open>ss_db\<close> what the session sees (the committed rows with its own pending writes).
  Wherever the code awaits the network, commits or rolls back, the other sessions may run: \<open>su_others\<close> maps
  the committed database to what they left, a different function each time (\<open>ss_tick\<close> numbers the places).
  From the media lock to the commit or rollback that releases it, and from the first write to its commit,
  nobody else writes (the database has one writer). \<open>ss_log\<close> records the transactions of the call, each
  with the database it started from. TMDB and Plex are arguments, asked anew each time; \<open>None\<close> from Plex
  stands for the three errors the code catches.
\<close>

section \<open>Sessions\<close>

record session =
  ss_db :: app_db
  ss_saved :: app_db
  ss_tick :: nat
  ss_log :: "(app_db \<times> app_db) list"

datatype call_error = RepoFailed repo_error | MetadataFailed | MediaNotFoundError | MediaTypeDeferredError

type_synonym 'a call = "session \<Rightarrow> (call_error + 'a) \<times> session"

definition return_call :: "'a \<Rightarrow> 'a call" where
  "return_call x s = (Inr x, s)"

definition raise_call :: "call_error \<Rightarrow> 'a call" where
  "raise_call e s = (Inl e, s)"

definition bind_call :: "'a call \<Rightarrow> ('a \<Rightarrow> 'b call) \<Rightarrow> 'b call" where
  "bind_call m f s = (case m s of (Inl e, s') \<Rightarrow> (Inl e, s') | (Inr x, s') \<Rightarrow> f x s')"

definition stmt :: "'a app_op \<Rightarrow> 'a call" where
  "stmt m s = (case m (ss_db s) of
      Inl e \<Rightarrow> (Inl (RepoFailed e), s)
    | Inr (x, db) \<Rightarrow> (Inr x, s\<lparr>ss_db := db\<rparr>))"

definition query :: "(app_db \<Rightarrow> repo_error + 'a) \<Rightarrow> 'a call" where
  "query f = stmt (\<lambda>db. of_sum (f db) db)"

definition tick :: "nat call" where
  "tick s = (Inr (ss_tick s), s)"

datatype tmdb_answer = TmdbError | TmdbUnknown | TmdbDetail request_detail

record library_view =
  lv_is_available :: "nat \<Rightarrow> int \<Rightarrow> bool option"
  lv_present_seasons :: "nat \<Rightarrow> int \<Rightarrow> int set option"
  lv_confirm_paths :: "nat \<Rightarrow> string list \<Rightarrow> string set option"

record surroundings =
  su_now :: datetime
  su_others :: "nat \<Rightarrow> app_db \<Rightarrow> app_db"
  su_get_movie :: "nat \<Rightarrow> int \<Rightarrow> tmdb_answer"
  su_get_tv_show :: "nat \<Rightarrow> int \<Rightarrow> tmdb_answer"
  su_library :: "library_view option"

definition pause :: "surroundings \<Rightarrow> unit call" where
  "pause su s = (let db = su_others su (ss_tick s) (ss_saved s)
     in (Inr (), s\<lparr>ss_db := db, ss_saved := db, ss_tick := ss_tick s + 1\<rparr>))"

definition rollback :: "surroundings \<Rightarrow> unit call" where
  "rollback su = pause su"

definition commit :: "surroundings \<Rightarrow> unit call" where
  "commit su s = pause su (s\<lparr>ss_saved := ss_db s, ss_log := ss_log s @ [(ss_saved s, ss_db s)]\<rparr>)"

definition catch_integrity :: "'a call \<Rightarrow> 'a call \<Rightarrow> 'a call" where
  "catch_integrity body handler s = (case body s of
      (Inl e, s') \<Rightarrow> if e = RepoFailed IntegrityError then handler s' else (Inl e, s')
    | (Inr x, s') \<Rightarrow> (Inr x, s'))"

section \<open>Arguments and answers\<close>

definition PARKABLE_REQUEST_STATUS_VALUES :: "string list" where
  "PARKABLE_REQUEST_STATUS_VALUES = [''pending'', ''searching'', ''no_acceptable_release'']"

definition SETTLED_REQUEST_STATUS_VALUES :: "string list" where
  "SETTLED_REQUEST_STATUS_VALUES = [''available'', ''failed'', ''evicted'', ''cancelled'']"

definition MAX_DEDUP_JOIN_ATTEMPTS :: nat where
  "MAX_DEDUP_JOIN_ATTEMPTS = 3"

record request_args =
  ra_tmdb_id :: int
  ra_media_type :: string
  ra_user_id :: "int option"
  ra_actor_is_admin :: bool
  ra_seasons :: "int list option"
  ra_episodes :: "episode_dict option"
  ra_force :: bool
  ra_expand_shared_tv :: bool

record create_request_answer =
  cr_record :: request_record
  cr_created :: bool

definition found :: "request_record \<Rightarrow> create_request_answer" where
  "found r = \<lparr>cr_record = r, cr_created = False\<rparr>"

definition owned_by_another_user :: "request_record \<Rightarrow> int option \<Rightarrow> bool \<Rightarrow> bool" where
  "owned_by_another_user record user actor_is_admin \<longleftrightarrow>
     user \<noteq> None \<and> \<not> actor_is_admin \<and> rr_user_id record \<noteq> None \<and> rr_user_id record \<noteq> user"

definition foreign_to :: "request_args \<Rightarrow> request_record \<Rightarrow> bool" where
  "foreign_to args record = owned_by_another_user record (ra_user_id args) (ra_actor_is_admin args)"

definition dedup_preference_user_id :: "int option \<Rightarrow> bool \<Rightarrow> int option" where
  "dedup_preference_user_id user actor_is_admin = (if user \<noteq> None \<and> \<not> actor_is_admin then user else None)"

text \<open>\<open>await repo.get(id) or fallback\<close>\<close>

definition reread :: "int \<Rightarrow> request_record \<Rightarrow> request_record call" where
  "reread rid fallback = query (\<lambda>db. Inr (case get_req db rid of None \<Rightarrow> fallback | Some r \<Rightarrow> r))"

definition media_lock :: "request_args \<Rightarrow> unit call" where
  "media_lock args = stmt (acquire_media_lock (ra_tmdb_id args) (ra_media_type args))"

definition active_row :: "request_args \<Rightarrow> request_record option call" where
  "active_row args = query (\<lambda>db. find_active db (ra_tmdb_id args) (ra_media_type args))"

section \<open>TMDB and Plex\<close>

definition detail_of :: "tmdb_answer \<Rightarrow> request_detail call" where
  "detail_of answer = (case answer of
      TmdbError \<Rightarrow> raise_call MetadataFailed
    | TmdbUnknown \<Rightarrow> raise_call MediaNotFoundError
    | TmdbDetail d \<Rightarrow> return_call d)"

definition resolve_detail :: "surroundings \<Rightarrow> request_args \<Rightarrow> request_detail call" where
  "resolve_detail su args = bind_call tick (\<lambda>t.
     if ra_media_type args = ''movie'' then detail_of (su_get_movie su t (ra_tmdb_id args))
     else detail_of (su_get_tv_show su t (ra_tmdb_id args)))"

definition resolve_tv_season_plan :: "surroundings \<Rightarrow> request_args \<Rightarrow> tv_season_plan call" where
  "resolve_tv_season_plan su args = bind_call tick (\<lambda>t.
     bind_call (detail_of (su_get_tv_show su t (ra_tmdb_id args))) (\<lambda>detail.
       return_call (plan_of detail (ra_seasons args) (ra_episodes args) False)))"

definition already_in_library :: "library_view \<Rightarrow> nat \<Rightarrow> int \<Rightarrow> bool" where
  "already_in_library lib t tmdb = (case lv_is_available lib t tmdb of None \<Rightarrow> False | Some b \<Rightarrow> b)"

definition present_seasons_or_empty :: "library_view \<Rightarrow> nat \<Rightarrow> int \<Rightarrow> int set" where
  "present_seasons_or_empty lib t tmdb = (case lv_present_seasons lib t tmdb of None \<Rightarrow> {} | Some held \<Rightarrow> held)"

definition seasons_port :: "surroundings \<Rightarrow> nat \<Rightarrow> library_port option" where
  "seasons_port su t = map_option (\<lambda>lib. lv_present_seasons lib t) (su_library su)"

definition run_season_plan :: "surroundings \<Rightarrow> request_args \<Rightarrow> int \<Rightarrow> tv_season_plan \<Rightarrow> int set option \<Rightarrow> unit call" where
  "run_season_plan su args mr plan present = bind_call tick (\<lambda>t.
     stmt (ensure_tv_season_plan (su_now su) (seasons_port su t) mr (ra_tmdb_id args) plan present))"

definition merge_intent :: "request_args \<Rightarrow> request_record \<Rightarrow> unit call" where
  "merge_intent args record = stmt (merge_tv_request_intent record (ra_seasons args) (ra_episodes args))"

section \<open>Joining a request somebody else made\<close>

definition subscribe_dedup_winner :: "surroundings \<Rightarrow> request_record \<Rightarrow> int option \<Rightarrow> request_record call" where
  "subscribe_dedup_winner su record user = (case user of
      None \<Rightarrow> return_call record
    | Some u \<Rightarrow>
        bind_call (stmt (add_subscriber (su_now su) (rr_id record) u)) (\<lambda>_.
        bind_call (commit su) (\<lambda>_. reread (rr_id record) record)))"

definition subscribe_user :: "surroundings \<Rightarrow> request_record \<Rightarrow> int option \<Rightarrow> request_record call" where
  "subscribe_user su record user = (case user of
      None \<Rightarrow> return_call record
    | Some u \<Rightarrow>
        bind_call (stmt (add_subscriber (su_now su) (rr_id record) u)) (\<lambda>_.
        bind_call (commit su) (\<lambda>_. return_call record)))"

definition release_if_anonymous :: "surroundings \<Rightarrow> request_args \<Rightarrow> unit call" where
  "release_if_anonymous su args = (if ra_user_id args = None then rollback su else return_call ())"

text \<open>The growth of a joined show; \<open>None\<close>: the row settled before the lock was taken again.\<close>

definition grow_tv_dedup_join ::
  "surroundings \<Rightarrow> request_args \<Rightarrow> request_record \<Rightarrow> tv_season_plan \<Rightarrow> request_record option call" where
  "grow_tv_dedup_join su args record plan =
     bind_call (rollback su) (\<lambda>_.
     bind_call tick (\<lambda>t.
       let present = (case su_library su of
              None \<Rightarrow> None
            | Some lib \<Rightarrow> if tp_episode_scoped plan then None
                          else Some (present_seasons_or_empty lib t (ra_tmdb_id args)))
       in bind_call (pause su) (\<lambda>_.
          bind_call (stmt (acquire_media_lock (ra_tmdb_id args) (rr_media_type record))) (\<lambda>_.
          bind_call (query (\<lambda>db. Inr (get_req db (rr_id record)))) (\<lambda>again.
            case again of
              None \<Rightarrow> bind_call (rollback su) (\<lambda>_. return_call None)
            | Some fresh \<Rightarrow>
                if rr_status fresh \<in> set SETTLED_REQUEST_STATUS_VALUES
                then bind_call (rollback su) (\<lambda>_. return_call None)
                else
                  bind_call (run_season_plan su args (rr_id record) plan present) (\<lambda>_.
                  bind_call (merge_intent args fresh) (\<lambda>_.
                  bind_call (commit su) (\<lambda>_.
                  bind_call (reread (rr_id record) fresh) (\<lambda>r. return_call (Some r))))))))))"

text \<open>One pass over the code of \<open>create_request_result\<close>: an answer, or a target that settled underneath it
  with what the last attempt returns or raises instead of trying again.\<close>

datatype attempt = Answered create_request_answer | TargetSettled "call_error + create_request_answer"

definition grow_or_settle ::
  "surroundings \<Rightarrow> request_args \<Rightarrow> request_record \<Rightarrow> tv_season_plan \<Rightarrow> (call_error + create_request_answer) call \<Rightarrow> attempt call" where
  "grow_or_settle su args record plan give_up =
     bind_call (grow_tv_dedup_join su args record plan) (\<lambda>grown. case grown of
       Some r \<Rightarrow> return_call (Answered (found r))
     | None \<Rightarrow> bind_call give_up (\<lambda>outcome. return_call (TargetSettled outcome)))"

definition return_current :: "request_record \<Rightarrow> (call_error + create_request_answer) call" where
  "return_current record = bind_call (reread (rr_id record) record) (\<lambda>r. return_call (Inr (found r)))"

definition raise_integrity :: "(call_error + create_request_answer) call" where
  "raise_integrity = return_call (Inl (RepoFailed IntegrityError))"

definition join_existing :: "surroundings \<Rightarrow> request_args \<Rightarrow> request_record \<Rightarrow> attempt call" where
  "join_existing su args existing =
     bind_call (if foreign_to args existing then subscribe_user su existing (ra_user_id args) else return_call existing)
       (\<lambda>existing'.
        if foreign_to args existing \<and> (ra_media_type args \<noteq> ''tv'' \<or> \<not> ra_expand_shared_tv args)
        then return_call (Answered (found existing'))
        else
          bind_call (if foreign_to args existing then return_call existing'
                     else subscribe_dedup_winner su existing' (ra_user_id args)) (\<lambda>winner.
          bind_call (subscribe_user su winner (ra_user_id args)) (\<lambda>shared.
          bind_call (release_if_anonymous su args) (\<lambda>_.
            if ra_media_type args = ''tv'' then
              bind_call (resolve_tv_season_plan su args) (\<lambda>plan.
                grow_or_settle su args shared plan (return_current shared))
            else return_call (Answered (found shared))))))"

section \<open>The library short circuits\<close>

text \<open>The outcome of the movie check: an answer, or the status and provenance of the row to insert.\<close>

datatype movie_check = MovieAnswer create_request_answer | MovieStart string bool

definition breadcrumb_uncorroborated :: "library_view \<Rightarrow> request_args \<Rightarrow> bool call" where
  "breadcrumb_uncorroborated lib args =
     (if ra_force args then return_call False
      else bind_call (query (\<lambda>db. latest_library_path db (ra_tmdb_id args) (ra_media_type args))) (\<lambda>breadcrumb.
        case breadcrumb of
          None \<Rightarrow> return_call False
        | Some path \<Rightarrow> bind_call tick (\<lambda>t. return_call
            (case lv_confirm_paths lib t [path] of None \<Rightarrow> True | Some confirmed \<Rightarrow> path \<notin> confirmed))))"

definition share_active :: "surroundings \<Rightarrow> request_args \<Rightarrow> request_record \<Rightarrow> create_request_answer call" where
  "share_active su args active =
     (if foreign_to args active then
        bind_call (subscribe_user su active (ra_user_id args)) (\<lambda>shared.
          if \<not> ra_expand_shared_tv args then return_call (found shared)
          else bind_call (release_if_anonymous su args) (\<lambda>_. return_call (found shared)))
      else
        bind_call (subscribe_dedup_winner su active (ra_user_id args)) (\<lambda>shared.
        bind_call (release_if_anonymous su args) (\<lambda>_. return_call (found shared))))"

definition share_in_library :: "surroundings \<Rightarrow> request_args \<Rightarrow> request_record \<Rightarrow> create_request_answer call" where
  "share_in_library su args row =
     (if foreign_to args row then
        bind_call (subscribe_user su row (ra_user_id args)) (\<lambda>shared. return_call (found shared))
      else
        bind_call (subscribe_dedup_winner su row (ra_user_id args)) (\<lambda>shared.
        bind_call (release_if_anonymous su args) (\<lambda>_. return_call (found shared))))"

definition movie_decision :: "surroundings \<Rightarrow> request_args \<Rightarrow> bool \<Rightarrow> bool \<Rightarrow> movie_check call" where
  "movie_decision su args plex_present uncorroborated =
     (if ra_force args then return_call (MovieStart ''pending'' False)
      else
        bind_call (query (\<lambda>db. latest_request_evicted db (ra_tmdb_id args) (ra_media_type args))) (\<lambda>evicted.
          if evicted then return_call (MovieStart ''pending'' True)
          else if \<not> plex_present then return_call (MovieStart ''pending'' False)
          else
            bind_call (query (\<lambda>db. find_in_library db (ra_tmdb_id args) (ra_media_type args)
                (dedup_preference_user_id (ra_user_id args) (ra_actor_is_admin args)))) (\<lambda>in_library.
              case in_library of
                Some row \<Rightarrow> bind_call (share_in_library su args row) (\<lambda>a. return_call (MovieAnswer a))
              | None \<Rightarrow> return_call
                  (MovieStart (if uncorroborated then ''pending'' else ''available'') False))))"

definition movie_short_circuit :: "surroundings \<Rightarrow> request_args \<Rightarrow> movie_check call" where
  "movie_short_circuit su args = (case su_library su of
      None \<Rightarrow> bind_call (pause su) (\<lambda>_. return_call (MovieStart ''pending'' False))
    | Some lib \<Rightarrow>
        bind_call tick (\<lambda>t.
          let plex_present = (ra_force args \<or> already_in_library lib t (ra_tmdb_id args))
          in bind_call (pause su) (\<lambda>_.
             if plex_present then
               bind_call (breadcrumb_uncorroborated lib args) (\<lambda>uncorroborated.
               bind_call (pause su) (\<lambda>_.
               bind_call (media_lock args) (\<lambda>_.
               bind_call (active_row args) (\<lambda>existing. case existing of
                   Some active \<Rightarrow> bind_call (share_active su args active) (\<lambda>a. return_call (MovieAnswer a))
                 | None \<Rightarrow> movie_decision su args True uncorroborated))))
             else
               bind_call (movie_decision su args False False) (\<lambda>check.
               bind_call (pause su) (\<lambda>_. return_call check)))))"

definition tv_dedup_active :: "surroundings \<Rightarrow> request_args \<Rightarrow> request_record \<Rightarrow> tv_season_plan \<Rightarrow> attempt call" where
  "tv_dedup_active su args active plan =
     bind_call (if foreign_to args active then subscribe_user su active (ra_user_id args)
                else subscribe_dedup_winner su active (ra_user_id args)) (\<lambda>shared.
       if foreign_to args active \<and> \<not> ra_expand_shared_tv args then return_call (Answered (found shared))
       else grow_or_settle su args shared plan (return_current shared))"

definition tv_dedup_in_library :: "surroundings \<Rightarrow> request_args \<Rightarrow> request_record \<Rightarrow> tv_season_plan \<Rightarrow> attempt call" where
  "tv_dedup_in_library su args row plan =
     bind_call (if foreign_to args row then subscribe_user su row (ra_user_id args)
                else subscribe_dedup_winner su row (ra_user_id args)) (\<lambda>shared.
       if foreign_to args row \<and> \<not> ra_expand_shared_tv args then return_call (Answered (found shared))
       else
         bind_call (rollback su) (\<lambda>_.
         bind_call (run_season_plan su args (rr_id shared) plan None) (\<lambda>_.
         bind_call (merge_intent args shared) (\<lambda>_.
         bind_call (commit su) (\<lambda>_.
         bind_call (reread (rr_id shared) shared) (\<lambda>r. return_call (Answered (found r))))))))"

definition tv_superset :: "surroundings \<Rightarrow> request_args \<Rightarrow> tv_season_plan \<Rightarrow> int set \<Rightarrow> attempt option call" where
  "tv_superset su args plan present =
     (if set (tp_season_numbers plan) \<subseteq> present then
        bind_call (query (\<lambda>db. find_in_library db (ra_tmdb_id args) (ra_media_type args)
            (dedup_preference_user_id (ra_user_id args) (ra_actor_is_admin args)))) (\<lambda>in_library.
          case in_library of
            Some row \<Rightarrow> bind_call (tv_dedup_in_library su args row plan) (\<lambda>a. return_call (Some a))
          | None \<Rightarrow> bind_call (rollback su) (\<lambda>_. return_call None))
      else bind_call (rollback su) (\<lambda>_. return_call None))"

definition tv_short_circuit :: "surroundings \<Rightarrow> request_args \<Rightarrow> tv_season_plan \<Rightarrow> attempt option call" where
  "tv_short_circuit su args plan = (case su_library su of
      None \<Rightarrow> bind_call (pause su) (\<lambda>_. return_call None)
    | Some lib \<Rightarrow>
        if tp_season_numbers plan = [] \<or> tp_episode_scoped plan then bind_call (pause su) (\<lambda>_. return_call None)
        else
          bind_call tick (\<lambda>t.
            let present = present_seasons_or_empty lib t (ra_tmdb_id args)
            in bind_call (pause su) (\<lambda>_.
               if present = {} then tv_superset su args plan present
               else
                 bind_call (media_lock args) (\<lambda>_.
                 bind_call (active_row args) (\<lambda>existing. case existing of
                     Some active \<Rightarrow> bind_call (tv_dedup_active su args active plan) (\<lambda>a. return_call (Some a))
                   | None \<Rightarrow> bind_call (query (\<lambda>db. Inr (evicted_seasons db (ra_tmdb_id args)))) (\<lambda>evicted.
                       tv_superset su args plan (present - evicted)))))))"

section \<open>Inserting\<close>

text \<open>A later duplicate of a row already available hands its subscribers over and is deleted.\<close>

definition join_winner ::
  "surroundings \<Rightarrow> request_args \<Rightarrow> request_record \<Rightarrow> request_record \<Rightarrow> request_record call" where
  "join_winner su args record winner =
     bind_call (case ra_user_id args of
         None \<Rightarrow> return_call ()
       | Some u \<Rightarrow> stmt (add_subscriber (su_now su) (rr_id winner) u)) (\<lambda>_.
     bind_call (stmt (copy_subscribers (su_now su) (rr_id record) (rr_id winner))) (\<lambda>_.
     bind_call (stmt (delete_req (rr_id record))) (\<lambda>_.
     bind_call (commit su) (\<lambda>_. reread (rr_id winner) winner))))"

definition adopt_winner :: "surroundings \<Rightarrow> request_args \<Rightarrow> request_record \<Rightarrow> request_record \<Rightarrow> request_record call" where
  "adopt_winner su args record winner = (case ra_user_id args of
      Some u \<Rightarrow>
        if rr_user_id winner = None then
          bind_call (stmt (claim_if_unowned (rr_id winner) u)) (\<lambda>claimed.
            if claimed then join_winner su args record winner
            else bind_call (reread (rr_id winner) winner) (\<lambda>refreshed.
              join_winner su args record (if foreign_to args refreshed then refreshed else winner)))
        else join_winner su args record winner
    | None \<Rightarrow> join_winner su args record winner)"

definition collapse_available_race :: "surroundings \<Rightarrow> request_args \<Rightarrow> request_record \<Rightarrow> request_record call" where
  "collapse_available_race su args record =
     bind_call (query (\<lambda>db. find_earliest_available db (ra_tmdb_id args) (ra_media_type args))) (\<lambda>earliest.
       case earliest of
         None \<Rightarrow> return_call record
       | Some winner \<Rightarrow>
           if rr_id winner = rr_id record then return_call record
           else bind_call (pause su) (\<lambda>_.
             if foreign_to args winner then join_winner su args record winner
             else adopt_winner su args record winner))"

definition new_request_of :: "request_args \<Rightarrow> request_detail \<Rightarrow> bool \<Rightarrow> new_request" where
  "new_request_of args detail regrab =
     (let (mode, requested, episodes) = tv_request_intent (ra_seasons args) (ra_episodes args);
          tv = (ra_media_type args = ''tv'')
      in \<lparr>nr_year = de_year detail, nr_is_anime = de_is_anime detail, nr_user_id = ra_user_id args,
          nr_poster_url = de_poster_url detail, nr_backdrop_url = de_backdrop_url detail,
          nr_eviction_regrab = regrab, nr_tv_request_mode = (if tv then Some mode else None),
          nr_requested_seasons = (if tv then requested else None),
          nr_requested_episodes = (if tv then episodes else None)\<rparr>)"

definition insert_row ::
  "surroundings \<Rightarrow> request_args \<Rightarrow> request_detail \<Rightarrow> tv_season_plan \<Rightarrow> string \<Rightarrow> bool \<Rightarrow> request_record call" where
  "insert_row su args detail plan status regrab =
     bind_call (stmt (create_req (su_now su) (ra_tmdb_id args) (ra_media_type args) (de_title detail) status
         (new_request_of args detail regrab))) (\<lambda>record.
     bind_call (if status = ''available''
         then stmt (mark_available_req (su_now su) (rr_id record) (rr_completion_generation record))
         else return_call True) (\<lambda>_.
     bind_call (if ra_media_type args = ''tv'' then run_season_plan su args (rr_id record) plan None
                else return_call ()) (\<lambda>_.
     bind_call (commit su) (\<lambda>_. return_call record))))"

definition settle_tv_insert ::
  "surroundings \<Rightarrow> request_args \<Rightarrow> tv_season_plan \<Rightarrow> request_record \<Rightarrow> create_request_answer call" where
  "settle_tv_insert su args plan inserted =
     bind_call (reread (rr_id inserted) inserted) (\<lambda>record.
       if rr_status record \<noteq> ''available'' then return_call \<lparr>cr_record = record, cr_created = True\<rparr>
       else
         bind_call (collapse_available_race su args record) (\<lambda>winner.
           if rr_id winner = rr_id record then return_call \<lparr>cr_record = winner, cr_created = True\<rparr>
           else
             bind_call (run_season_plan su args (rr_id winner) plan None) (\<lambda>_.
             bind_call (merge_intent args winner) (\<lambda>_.
             bind_call (commit su) (\<lambda>_.
             bind_call (reread (rr_id winner) winner) (\<lambda>r. return_call (found r)))))))"

definition insert_fresh ::
  "surroundings \<Rightarrow> request_args \<Rightarrow> request_detail \<Rightarrow> tv_season_plan \<Rightarrow> string \<Rightarrow> bool \<Rightarrow> create_request_answer call" where
  "insert_fresh su args detail plan status regrab =
     bind_call (insert_row su args detail plan status regrab) (\<lambda>record.
       if ra_media_type args = ''tv'' then settle_tv_insert su args plan record
       else return_call \<lparr>cr_record = record, cr_created = True\<rparr>)"

text \<open>The insert lost to a concurrent one: join the winner under the lock.\<close>

definition recover_lost_insert :: "surroundings \<Rightarrow> request_args \<Rightarrow> attempt call" where
  "recover_lost_insert su args =
     bind_call (rollback su) (\<lambda>_.
     bind_call (media_lock args) (\<lambda>_.
     bind_call (active_row args) (\<lambda>existing. case existing of
         None \<Rightarrow> bind_call (rollback su) (\<lambda>_. bind_call raise_integrity (\<lambda>out. return_call (TargetSettled out)))
       | Some winner \<Rightarrow>
           bind_call (if foreign_to args winner then subscribe_user su winner (ra_user_id args)
                      else subscribe_dedup_winner su winner (ra_user_id args)) (\<lambda>shared.
             if foreign_to args winner \<and> (ra_media_type args \<noteq> ''tv'' \<or> \<not> ra_expand_shared_tv args)
             then return_call (Answered (found shared))
             else
               bind_call (release_if_anonymous su args) (\<lambda>_.
                 if ra_media_type args = ''tv'' then
                   bind_call (resolve_tv_season_plan su args) (\<lambda>plan.
                     grow_or_settle su args shared plan raise_integrity)
                 else return_call (Answered (found shared)))))))"

definition finish_insert :: "surroundings \<Rightarrow> request_args \<Rightarrow> string \<Rightarrow> attempt \<Rightarrow> attempt call" where
  "finish_insert su args status out = (case out of
      Answered a \<Rightarrow>
        if status = ''available'' \<and> cr_created a then
          bind_call (collapse_available_race su args (cr_record a)) (\<lambda>collapsed.
            return_call (Answered \<lparr>cr_record = collapsed, cr_created = (rr_id collapsed = rr_id (cr_record a))\<rparr>))
        else return_call out
    | TargetSettled _ \<Rightarrow> return_call out)"

definition insert_or_join ::
  "surroundings \<Rightarrow> request_args \<Rightarrow> request_detail \<Rightarrow> tv_season_plan \<Rightarrow> string \<Rightarrow> bool \<Rightarrow> attempt call" where
  "insert_or_join su args detail plan status regrab =
     bind_call (catch_integrity
         (bind_call (insert_fresh su args detail plan status regrab) (\<lambda>a. return_call (Answered a)))
         (recover_lost_insert su args))
       (finish_insert su args status)"

section \<open>The whole call\<close>

definition create_fresh :: "surroundings \<Rightarrow> request_args \<Rightarrow> attempt call" where
  "create_fresh su args =
     bind_call (resolve_detail su args) (\<lambda>detail.
       if ra_media_type args = ''tv'' then
         (let plan = plan_of detail (ra_seasons args) (ra_episodes args) True
          in bind_call (tv_short_circuit su args plan) (\<lambda>hit. case hit of
               Some out \<Rightarrow> return_call out
             | None \<Rightarrow> insert_or_join su args detail plan ''pending'' False))
       else
         bind_call (movie_short_circuit su args) (\<lambda>check. case check of
             MovieAnswer a \<Rightarrow> return_call (Answered a)
           | MovieStart status regrab \<Rightarrow> insert_or_join su args detail
               \<lparr>tp_season_numbers = [], tp_waiting_seasons = [], tp_episode_scoped = False\<rparr> status regrab))"

definition locked_active_row :: "surroundings \<Rightarrow> request_args \<Rightarrow> request_record option call" where
  "locked_active_row su args = bind_call (active_row args) (\<lambda>first. case first of
      None \<Rightarrow> return_call None
    | Some _ \<Rightarrow>
        bind_call (pause su) (\<lambda>_.
        bind_call (media_lock args) (\<lambda>_.
        bind_call (active_row args) (\<lambda>again. case again of
            None \<Rightarrow> bind_call (rollback su) (\<lambda>_. return_call None)
          | Some r \<Rightarrow> return_call (Some r)))))"

definition create_attempt :: "surroundings \<Rightarrow> request_args \<Rightarrow> attempt call" where
  "create_attempt su args =
     (if ra_media_type args \<notin> {''movie'', ''tv''} then raise_call MediaTypeDeferredError
      else bind_call (locked_active_row su args) (\<lambda>existing. case existing of
          Some r \<Rightarrow> join_existing su args r
        | None \<Rightarrow> bind_call (pause su) (\<lambda>_. create_fresh su args)))"

function create_request_result :: "surroundings \<Rightarrow> request_args \<Rightarrow> nat \<Rightarrow> create_request_answer call" where
  "create_request_result su args attempt s = (case create_attempt su args s of
      (Inl e, s') \<Rightarrow> (Inl e, s')
    | (Inr (Answered a), s') \<Rightarrow> (Inr a, s')
    | (Inr (TargetSettled outcome), s') \<Rightarrow>
        if attempt + 1 \<ge> MAX_DEDUP_JOIN_ATTEMPTS then (outcome, s')
        else create_request_result su args (attempt + 1) s')"
  by pat_completeness auto
termination
  by (relation "measure (\<lambda>(su, args, attempt, s). MAX_DEDUP_JOIN_ATTEMPTS - attempt)") auto

declare create_request_result.simps [simp del]

definition create_request :: "surroundings \<Rightarrow> request_args \<Rightarrow> request_record call" where
  "create_request su args = bind_call (create_request_result su args 0) (\<lambda>a. return_call (cr_record a))"

definition open_session :: "app_db \<Rightarrow> session" where
  "open_session db = \<lparr>ss_db = db, ss_saved = db, ss_tick = 0, ss_log = []\<rparr>"

end
