(* ===== verification/SessionLogic.thy ===== *)
theory SessionLogic
  imports RequestService
begin

text \<open>
  Reasoning about a session among others. \<open>runs G pre m post\<close>: from a session whose committed and current
  databases satisfy the table invariant and \<open>pre\<close>, the call keeps the invariant, every transaction it
  commits satisfies the guarantee \<open>G\<close>, and a normal result satisfies \<open>post\<close>. What the other sessions may do
  (the rely) is a hypothesis on \<open>su_others\<close>, used where the call pauses. \<open>costs n m\<close> bounds the number of
  places where the call waits for the others.
\<close>

type_synonym session_pred = "app_db \<Rightarrow> app_db \<Rightarrow> bool"

definition sane :: "session_pred \<Rightarrow> session \<Rightarrow> bool" where
  "sane G s \<longleftrightarrow> app_inv (ss_saved s) \<and> app_inv (ss_db s) \<and> list_all (\<lambda>(a, b). G a b) (ss_log s)"

definition runs :: "session_pred \<Rightarrow> session_pred \<Rightarrow> 'a call \<Rightarrow> ('a \<Rightarrow> session_pred) \<Rightarrow> bool" where
  "runs G pre m post \<longleftrightarrow> (\<forall>s. sane G s \<longrightarrow> pre (ss_saved s) (ss_db s) \<longrightarrow>
     sane G (snd (m s)) \<and> (\<forall>x. fst (m s) = Inr x \<longrightarrow> post x (ss_saved (snd (m s))) (ss_db (snd (m s)))))"

definition keeps_invariant :: "surroundings \<Rightarrow> bool" where
  "keeps_invariant su \<longleftrightarrow> (\<forall>t db. app_inv db \<longrightarrow> app_inv (su_others su t db))"

lemma runsI:
  "(\<And>s. sane G s \<Longrightarrow> pre (ss_saved s) (ss_db s) \<Longrightarrow>
     sane G (snd (m s)) \<and> (\<forall>x. fst (m s) = Inr x \<longrightarrow> post x (ss_saved (snd (m s))) (ss_db (snd (m s)))))
   \<Longrightarrow> runs G pre m post"
  by (simp add: runs_def)

lemma runsD:
  "runs G pre m post \<Longrightarrow> sane G s \<Longrightarrow> pre (ss_saved s) (ss_db s) \<Longrightarrow> m s = (r, s') \<Longrightarrow>
     sane G s' \<and> (\<forall>x. r = Inr x \<longrightarrow> post x (ss_saved s') (ss_db s'))"
  by (fastforce simp: runs_def)

lemma runs_conseq:
  "runs G pre m post \<Longrightarrow> (\<And>a b. pre' a b \<Longrightarrow> pre a b) \<Longrightarrow> (\<And>x a b. post x a b \<Longrightarrow> post' x a b) \<Longrightarrow> runs G pre' m post'"
  by (fastforce simp: runs_def)

lemma runs_pre: "runs G pre m post \<Longrightarrow> (\<And>a b. pre' a b \<Longrightarrow> pre a b) \<Longrightarrow> runs G pre' m post"
  by (rule runs_conseq)

lemma runs_post: "runs G pre m post \<Longrightarrow> (\<And>x a b. post x a b \<Longrightarrow> post' x a b) \<Longrightarrow> runs G pre m post'"
  by (rule runs_conseq)

lemma runs_assume: "(\<And>a0 b0. pre a0 b0 \<Longrightarrow> runs G pre m post) \<Longrightarrow> runs G pre m post"
  by (fastforce simp: runs_def)

lemma runs_bind:
  assumes "runs G pre m mid" and "\<And>x. runs G (mid x) (f x) post"
  shows "runs G pre (bind_call m f) post"
proof (rule runsI)
  fix s assume s: "sane G s" "pre (ss_saved s) (ss_db s)"
  obtain r s' where m: "m s = (r, s')" by fastforce
  note first = runsD[OF assms(1) s m]
  show "sane G (snd (bind_call m f s)) \<and> (\<forall>x. fst (bind_call m f s) = Inr x \<longrightarrow>
      post x (ss_saved (snd (bind_call m f s))) (ss_db (snd (bind_call m f s))))"
  proof (cases r)
    case (Inl e)
    then show ?thesis using first m by (simp add: bind_call_def)
  next
    case (Inr x)
    then show ?thesis
      using first m runsD[OF assms(2), of s' x "fst (f x s')" "snd (f x s')"] by (simp add: bind_call_def)
  qed
qed

lemma bind_return [simp]: "bind_call (return_call x) f = f x"
  by (simp add: fun_eq_iff bind_call_def return_call_def)

lemma runs_return: "runs G (post x) (return_call x) post"
  by (simp add: runs_def return_call_def)

lemma runs_return': "(\<And>a b. pre a b \<Longrightarrow> post x a b) \<Longrightarrow> runs G pre (return_call x) post"
  by (simp add: runs_def return_call_def)

lemma runs_raise: "runs G pre (raise_call e) post"
  by (simp add: runs_def raise_call_def)

lemma runs_tick: "runs G pre tick (\<lambda>_. pre)"
  by (simp add: runs_def tick_def)

lemma runs_stmt:
  assumes "steady m" and "\<And>a b x b'. pre a b \<Longrightarrow> app_inv b \<Longrightarrow> m b = Inr (x, b') \<Longrightarrow> post x a b'"
  shows "runs G pre (stmt m) post"
  using assms by (fastforce simp: runs_def stmt_def sane_def split: sum.splits dest: steadyD evolves_inv)

lemma runs_query: "runs G pre (query f) (\<lambda>x a b. pre a b \<and> f b = Inr x)"
  unfolding query_def by (rule runs_stmt) (auto intro: steady_read)

lemma runs_pause:
  assumes "keeps_invariant su" and "\<And>a b t. pre a b \<Longrightarrow> app_inv a \<Longrightarrow> post () (su_others su t a) (su_others su t a)"
  shows "runs G pre (pause su) post"
  using assms by (fastforce simp: runs_def pause_def sane_def keeps_invariant_def Let_def)

lemma runs_commit:
  assumes "keeps_invariant su" and "\<And>a b. pre a b \<Longrightarrow> app_inv a \<Longrightarrow> app_inv b \<Longrightarrow> G a b"
    and "\<And>a b t. pre a b \<Longrightarrow> app_inv b \<Longrightarrow> post () (su_others su t b) (su_others su t b)"
  shows "runs G pre (commit su) post"
  using assms by (fastforce simp: runs_def commit_def pause_def sane_def keeps_invariant_def Let_def)

lemma runs_catch:
  assumes "runs G pre body post" and "runs G (\<lambda>_ _. True) handler post"
  shows "runs G pre (catch_integrity body handler) post"
proof (rule runsI)
  fix s assume s: "sane G s" "pre (ss_saved s) (ss_db s)"
  obtain r s' where b: "body s = (r, s')" by fastforce
  show "sane G (snd (catch_integrity body handler s)) \<and> (\<forall>x. fst (catch_integrity body handler s) = Inr x \<longrightarrow>
      post x (ss_saved (snd (catch_integrity body handler s))) (ss_db (snd (catch_integrity body handler s))))"
    using runsD[OF assms(1) s b] b
      runsD[OF assms(2), of s' "fst (handler s')" "snd (handler s')"]
    by (auto simp: catch_integrity_def split: sum.splits)
qed

lemma runs_If: "(b \<Longrightarrow> runs G pre m post) \<Longrightarrow> (\<not> b \<Longrightarrow> runs G pre n post) \<Longrightarrow> runs G pre (if b then m else n) post"
  by simp

lemma runs_case_option:
  "(x = None \<Longrightarrow> runs G pre m post) \<Longrightarrow> (\<And>y. x = Some y \<Longrightarrow> runs G pre (f y) post)
     \<Longrightarrow> runs G pre (case x of None \<Rightarrow> m | Some y \<Rightarrow> f y) post"
  by (simp split: option.splits)

text \<open>What holds of every answer an attempt may give holds of the answer of the call.\<close>

definition answers :: "(create_request_answer \<Rightarrow> session_pred) \<Rightarrow> attempt \<Rightarrow> session_pred" where
  "answers Q out a b \<longleftrightarrow> (case out of
      Answered r \<Rightarrow> Q r a b
    | TargetSettled (Inl e) \<Rightarrow> True
    | TargetSettled (Inr r) \<Rightarrow> Q r a b)"

lemma create_request_result_runs:
  assumes "runs G (\<lambda>_ _. True) (create_attempt su args) (answers Q)"
  shows "runs G (\<lambda>_ _. True) (create_request_result su args attempt) Q"
proof -
  have "sane G (snd (create_request_result su args attempt s)) \<and> (\<forall>x. fst (create_request_result su args attempt s) = Inr x \<longrightarrow>
      Q x (ss_saved (snd (create_request_result su args attempt s))) (ss_db (snd (create_request_result su args attempt s))))"
    if "sane G s" for s
    using assms that
  proof (induction su args attempt s rule: create_request_result.induct)
    case (1 su args attempt s)
    obtain r s' where run: "create_attempt su args s = (r, s')" by fastforce
    have first: "sane G s'" "\<forall>x. r = Inr x \<longrightarrow> answers Q x (ss_saved s') (ss_db s')"
      using runsD[OF 1(2,3) TrueI run] by auto
    show ?case
    proof (cases "\<exists>out. r = Inr (TargetSettled out) \<and> \<not> MAX_DEDUP_JOIN_ATTEMPTS \<le> attempt + 1")
      case True
      then obtain out where out: "r = Inr (TargetSettled out)" "\<not> MAX_DEDUP_JOIN_ATTEMPTS \<le> attempt + 1" by blast
      have "create_request_result su args attempt s = create_request_result su args (attempt + 1) s'"
        using run out by (subst create_request_result.simps) simp
      then show ?thesis using "1.IH"[OF run[symmetric] out(1) refl out(2) "1.prems"(1) first(1)] by simp
    next
      case False
      then show ?thesis
        using first run
        by (subst (1 2 3 4) create_request_result.simps) (auto simp: answers_def split: sum.splits attempt.splits)
    qed
  qed
  then show ?thesis by (intro runsI)
qed

lemma create_request_runs:
  assumes "runs G (\<lambda>_ _. True) (create_attempt su args) (answers Q)"
  shows "runs G (\<lambda>_ _. True) (create_request su args) (\<lambda>r a b. \<exists>ans. r = cr_record ans \<and> Q ans a b)"
  unfolding create_request_def
  by (rule runs_bind[OF create_request_result_runs[OF assms]], rule runs_return') auto

text \<open>How often a call waits.\<close>

definition costs :: "nat \<Rightarrow> 'a call \<Rightarrow> bool" where
  "costs n m \<longleftrightarrow> (\<forall>s. ss_tick (snd (m s)) \<le> ss_tick s + n)"

lemma costs_bind: "costs n m \<Longrightarrow> (\<And>x. costs k (f x)) \<Longrightarrow> costs (n + k) (bind_call m f)"
  unfolding costs_def bind_call_def
  by (auto split: sum.splits prod.splits) (metis add.assoc add_le_mono1 le_add1 le_trans snd_conv, metis add.assoc add_le_mono1 le_trans snd_conv)

lemma costs_simple [simp]:
  "costs n (return_call x)" "costs n (raise_call e)" "costs n (stmt m)" "costs n (query f)" "costs n tick"
  by (auto simp: costs_def return_call_def raise_call_def stmt_def query_def tick_def split: sum.splits)

lemma costs_wait [simp]: "costs (Suc n) (pause su)" "costs (Suc n) (rollback su)" "costs (Suc n) (commit su)"
  by (simp_all add: costs_def pause_def rollback_def commit_def Let_def)

lemma costs_catch: "costs n m \<Longrightarrow> costs k h \<Longrightarrow> costs (n + k) (catch_integrity m h)"
  unfolding costs_def catch_integrity_def
  by (auto split: sum.splits prod.splits) (metis add.assoc add_le_mono1 le_trans snd_conv, metis le_add1 le_trans snd_conv add.assoc, metis le_add1 le_trans snd_conv add.assoc)

lemma costs_mono: "costs n m \<Longrightarrow> n \<le> k \<Longrightarrow> costs k m"
  by (fastforce simp: costs_def intro: le_trans)

end
