(* ===== verification/RequestSharing.thy ===== *)
theory RequestSharing
  imports SessionLogic
begin

text \<open>
  Whoever signs in and asks for a title can see the request the call hands back: on every path (a fresh row,
  the join of an active or in-library row, the recovery of a lost insert, the collapse of two available
  rows) the requester is a subscriber of the returned request when the call returns.
\<close>

section \<open>Operations that leave the subscribers alone\<close>

definition quiet :: "'a app_op \<Rightarrow> bool" where
  "quiet m \<longleftrightarrow> (\<forall>db x db'. m db = Inr (x, db') \<longrightarrow> a_subscribers db' = a_subscribers db)"

named_theorems quiet_rules

lemma quietI: "(\<And>db x db'. m db = Inr (x, db') \<Longrightarrow> a_subscribers db' = a_subscribers db) \<Longrightarrow> quiet m"
  by (simp add: quiet_def)

lemma quietD: "quiet m \<Longrightarrow> m db = Inr (x, db') \<Longrightarrow> a_subscribers db' = a_subscribers db"
  by (simp add: quiet_def)

lemma quiet_basic [quiet_rules]:
  "quiet (return_op x)" "quiet (of_sum v)" "quiet (\<lambda>db. of_sum (f db) db)"
  "quiet (update_requests p g)" "quiet (update_seasons q h)" "quiet (write_request i g)" "quiet (write_season i h)"
  "quiet (insert_season z)" "quiet (acquire_media_lock tmdb mt)"
  by (auto intro!: quietI simp: update_requests_def update_seasons_def write_request_def write_season_def insert_season_def
      map_requests_def map_seasons_def acquire_media_lock_def bind_op_Inr split: if_splits)

lemma quiet_bind [quiet_rules]: "quiet m \<Longrightarrow> (\<And>x. quiet (f x)) \<Longrightarrow> quiet (bind_op m f)"
  by (auto intro!: quietI simp: bind_op_Inr) (metis quietD)

lemma quiet_savepoint [quiet_rules]: "quiet b \<Longrightarrow> quiet h \<Longrightarrow> quiet (savepoint b h)"
  by (auto intro!: quietI simp: savepoint_def split: sum.splits if_splits dest: quietD)

lemma quiet_If [quiet_rules]: "(b \<Longrightarrow> quiet m) \<Longrightarrow> (\<not> b \<Longrightarrow> quiet n) \<Longrightarrow> quiet (if b then m else n)"
  by simp

lemma quiet_depends: "(\<And>db0. quiet (m db0)) \<Longrightarrow> quiet (\<lambda>db. m db db)"
  by (simp add: quiet_def)

lemma quiet_set_status_req [quiet_rules]: "quiet (set_status_req rid status)"
proof -
  have "quiet (bind_op (of_sum (request_status status)) (\<lambda>st. write_request rid (\<lambda>r. r\<lparr>q_status := st\<rparr>)))"
    by (intro quiet_rules)
  from quietD[OF this] show ?thesis by (intro quietI) (simp add: set_status_req_def split: if_splits)
qed

lemma quiet_stamp [quiet_rules]: "quiet (stamp_completed_at_if_unset now rid)"
  unfolding stamp_completed_at_if_unset_def
  by (intro quiet_rules) (auto intro!: quietI split: if_splits)

lemma quiet_ensure_sea [quiet_rules]: "quiet (ensure_sea mr n status regrab)"
proof -
  have "quiet (ensure_from seen mr n status regrab)" for seen
  proof (cases seen)
    case None
    have ins: "quiet (\<lambda>db. let z = new_season (a_next_id db) mr n st regrab
        in bind_op (insert_season z) (\<lambda>_ db'. of_sum (map_sum id (to_record_sea z) (tmdb_id_for db' mr)) db') db)" for st
      unfolding Let_def
      by (rule quiet_depends[where m = "\<lambda>db0. bind_op (insert_season (new_season (a_next_id db0) mr n st regrab))
        (\<lambda>_ db'. of_sum (map_sum id (to_record_sea (new_season (a_next_id db0) mr n st regrab)) (tmdb_id_for db' mr)) db')"])
        (intro quiet_rules)
    have race: "quiet (\<lambda>db. case find_sea db mr n of None \<Rightarrow> Inl IntegrityError
      | Some w \<Rightarrow> of_sum (map_sum id (to_record_sea w) (tmdb_id_for db mr)) db)"
      by (auto intro!: quietI split: option.splits)
    show ?thesis unfolding ensure_from_def None option.case by (intro quiet_rules ins race)
  next
    case (Some z)
    show ?thesis unfolding ensure_from_def Some option.case by (intro quiet_rules)
  qed
  then show ?thesis unfolding ensure_sea_def by (rule quiet_depends)
qed

lemma quiet_set_status_sea [quiet_rules]: "quiet (set_status_sea now sid status)"
  unfolding set_status_sea_def by (intro quiet_rules)

lemma quiet_set_status_if_in_sea [quiet_rules]: "quiet (set_status_if_in_sea now sid status allowed g)"
  unfolding set_status_if_in_sea_def
  by (auto intro!: quietI simp: update_seasons_def map_seasons_def split: if_splits)

lemma quiet_schedule [quiet_rules]: "quiet (schedule_search_sea sid att nxt)"
  unfolding schedule_search_sea_def by (intro quiet_rules)

lemma quiet_recompute_parent [quiet_rules]: "quiet (recompute_parent now mr tol stamp)"
  unfolding recompute_parent_def by (intro quiet_rules)

lemma quiet_rearm_season [quiet_rules]: "quiet (rearm_season now rec target allowed)"
  unfolding rearm_season_def by (intro quiet_rules)

lemma quiet_ensure_one [quiet_rules]: "quiet (ensure_one now mr fp trusted ev n)"
  unfolding ensure_one_def Let_def by (intro quiet_rules) (auto intro!: quiet_rules split: prod.splits)

lemma quiet_ensure_each [quiet_rules]: "quiet (ensure_each now mr fp trusted ev ns)"
proof (induction ns)
  case (Cons n ns)
  then show ?case by (auto intro!: quiet_rules split: prod.splits)
qed (simp add: quiet_rules)

lemma quiet_heal [quiet_rules]: "quiet (heal_completed_at now rid)"
  unfolding heal_completed_at_def
  by (intro quiet_rules) (auto intro!: quietI simp: update_requests_def map_requests_def)

lemma quiet_ensure_seasons [quiet_rules]: "quiet (ensure_seasons now lib mr tmdb ns fp snap)"
proof -
  have "quiet (bind_op (ensure_each now mr fp T E ns) (\<lambda>(records, heal).
         bind_op (if heal then heal_completed_at now mr else return_op ()) (\<lambda>_.
         bind_op (recompute_parent now mr False False) (\<lambda>_. return_op records))))" for T E
    by (auto intro!: quiet_rules split: prod.splits)
  from quietD[OF this] show ?thesis by (intro quietI) (simp add: ensure_seasons_def Let_def)
qed

lemma quiet_set_status [quiet_rules]: "quiet (set_status now mr n status skip)"
  unfolding set_status_def ensure_pending_def by (intro quiet_rules)

lemma quiet_park_waiting [quiet_rules]: "quiet (park_waiting now mr ns)"
  by (induction ns) (auto intro!: quiet_rules)

lemma quiet_season_plan [quiet_rules]: "quiet (ensure_tv_season_plan now lib mr tmdb plan present)"
  unfolding ensure_tv_season_plan_def by (intro quiet_rules)

lemma quiet_merge [quiet_rules]: "quiet (merge_tv_request_intent r seasons episodes)"
  unfolding merge_tv_request_intent_def set_tv_request_intent_def
  by (auto intro!: quiet_rules split: option.splits)

lemma steady_park_waiting [steady_rules]: "steady (park_waiting now mr ns)"
  by (induction ns) (auto intro!: steady_rules)

lemma steady_season_plan [steady_rules]: "steady (ensure_tv_season_plan now lib mr tmdb plan present)"
  unfolding ensure_tv_season_plan_def by (intro steady_rules)

lemma steady_merge [steady_rules]: "steady (merge_tv_request_intent r seasons episodes)"
  unfolding merge_tv_request_intent_def by (auto intro!: steady_rules split: option.splits)

section \<open>The requester among the others\<close>

text \<open>
  The user has his place at a request: its id has been given out, and as long as the row stands he is a subscriber of
  it. The other sessions may do anything but take him off a request that they leave standing; they may delete the
  row, as the collapse of two available rows does, which moves the subscribers to the row that remains.
\<close>

definition stands :: "app_db \<Rightarrow> int \<Rightarrow> bool" where
  "stands db rid \<longleftrightarrow> list_ex (\<lambda>r. q_id r = rid) (a_requests db)"

definition has_place :: "int \<Rightarrow> int \<Rightarrow> app_db \<Rightarrow> bool" where
  "has_place u rid db \<longleftrightarrow> rid < a_next_id db \<and> (stands db rid \<longrightarrow> is_subscriber db rid u)"

definition keeps_subscriptions :: "int \<Rightarrow> surroundings \<Rightarrow> bool" where
  "keeps_subscriptions u su \<longleftrightarrow> (\<forall>t db rid. app_inv db \<longrightarrow> has_place u rid db \<longrightarrow> has_place u rid (su_others su t db))"

definition anything :: session_pred where
  "anything a b \<longleftrightarrow> True"

definition joined_now :: "int \<Rightarrow> int \<Rightarrow> session_pred" where
  "joined_now u rid a b \<longleftrightarrow> has_place u rid b"

definition sees :: "int \<Rightarrow> int \<Rightarrow> session_pred" where
  "sees u rid a b \<longleftrightarrow> has_place u rid a \<and> has_place u rid b"

definition sees_answer :: "int \<Rightarrow> create_request_answer \<Rightarrow> session_pred" where
  "sees_answer u a = sees u (rr_id (cr_record a))"

definition sees_outcome :: "int \<Rightarrow> attempt \<Rightarrow> session_pred" where
  "sees_outcome u = answers (sees_answer u)"

lemma sees_outcome_simps: "sees_outcome u out a b \<longleftrightarrow> (case out of
      Answered r \<Rightarrow> sees_answer u r a b
    | TargetSettled (Inl e) \<Rightarrow> True
    | TargetSettled (Inr r) \<Rightarrow> sees_answer u r a b)"
  by (simp add: sees_outcome_def answers_def)

lemma is_subscriber_cong: "a_subscribers db' = a_subscribers db \<Longrightarrow> is_subscriber db' rid u = is_subscriber db rid u"
  by (simp add: is_subscriber_def)

lemma evolves_stands: "evolves db db' \<Longrightarrow> rid < a_next_id db \<Longrightarrow> stands db' rid \<Longrightarrow> stands db rid"
  by (fastforce simp: evolves_def stands_def list_ex_iff same_request_def)

lemma quiet_place: "steady m \<Longrightarrow> quiet m \<Longrightarrow> app_inv db \<Longrightarrow> m db = Inr (x, db') \<Longrightarrow> has_place u rid db \<Longrightarrow> has_place u rid db'"
proof -
  assume m: "steady m" "quiet m" "app_inv db" "m db = Inr (x, db')" and p: "has_place u rid db"
  have e: "evolves db db'" by (rule steadyD[OF m(1,3,4)])
  then have "rid < a_next_id db'" using p by (simp add: evolves_def has_place_def)
  moreover have "is_subscriber db' rid u = is_subscriber db rid u" by (rule is_subscriber_cong[OF quietD[OF m(2,4)]])
  ultimately show ?thesis using p evolves_stands[OF e] by (auto simp: has_place_def)
qed

lemma quiet_stmt_sees: "steady m \<Longrightarrow> quiet m \<Longrightarrow> runs G (sees u rid) (stmt m) (\<lambda>_. sees u rid)"
  by (rule runs_stmt) (auto simp: sees_def intro: quiet_place)

lemma quiet_stmt_joined: "steady m \<Longrightarrow> quiet m \<Longrightarrow> runs G (joined_now u rid) (stmt m) (\<lambda>_. joined_now u rid)"
  by (rule runs_stmt) (auto simp: joined_now_def intro: quiet_place)

lemma stmt_anything: "steady m \<Longrightarrow> runs G pre (stmt m) (\<lambda>_. anything)"
  by (rule runs_stmt) (simp_all add: anything_def)

lemma query_anything: "runs G pre (query f) (\<lambda>_. anything)"
  by (rule runs_post[OF runs_query]) (simp add: anything_def)

lemma subscribed_place: "app_refs db \<Longrightarrow> app_typed db \<Longrightarrow> is_subscriber db rid u \<Longrightarrow> has_place u rid db"
  by (fastforce simp: has_place_def is_subscriber_def app_refs_def app_typed_def list_ex_iff list_all_iff)

lemma add_subscriber_row: "add_subscriber now rid u db = Inr (x, db') \<Longrightarrow> is_subscriber db' rid u"
  by (auto simp: add_subscriber_def is_subscriber_def split: if_splits)

lemma add_subscriber_joins: "app_inv db \<Longrightarrow> add_subscriber now rid u db = Inr (x, db') \<Longrightarrow> has_place u rid db'"
  by (rule subscribed_place) (auto simp: add_subscriber_def is_subscriber_def app_inv_def app_typed_def split: if_splits)

lemma add_subscriber_runs: "runs G pre (stmt (add_subscriber now rid u)) (\<lambda>_. joined_now u rid)"
  by (rule runs_stmt) (auto intro: steady_rules simp: joined_now_def intro: add_subscriber_joins)

lemma reread_sees: "rr_id r = rid \<Longrightarrow> runs G (sees u rid) (reread rid r) (\<lambda>r' a b. rr_id r' = rid \<and> sees u rid a b)"
  unfolding reread_def
  by (rule runs_post[OF runs_query]) (auto simp: get_req_def to_record_req_def split: option.splits dest: find_req_SomeD)

text \<open>A signed-in requester among sessions that keep the tables sound and do not withdraw him.\<close>

definition friendly :: "int \<Rightarrow> request_args \<Rightarrow> surroundings \<Rightarrow> bool" where
  "friendly u args su \<longleftrightarrow> ra_user_id args = Some u \<and> keeps_invariant su \<and> keeps_subscriptions u su"

lemma friendly_inv: "friendly u args su \<Longrightarrow> keeps_invariant su"
  by (simp add: friendly_def)

lemma pause_sees: "friendly u args su \<Longrightarrow> runs anything (sees u rid) (pause su) (\<lambda>_. sees u rid)"
  by (rule runs_pause) (auto simp: friendly_def sees_def keeps_subscriptions_def)

lemma pause_anything: "friendly u args su \<Longrightarrow> runs anything pre (pause su) (\<lambda>_. anything)"
  by (rule runs_pause) (auto simp: friendly_def anything_def)

lemma commit_sees: "friendly u args su \<Longrightarrow> runs anything (joined_now u rid) (commit su) (\<lambda>_. sees u rid)"
  by (rule runs_commit) (auto simp: friendly_def sees_def joined_now_def keeps_subscriptions_def anything_def)

lemma commit_seen: "friendly u args su \<Longrightarrow> runs anything (sees u rid) (commit su) (\<lambda>_. sees u rid)"
  by (rule runs_pre[OF commit_sees]) (auto simp: sees_def joined_now_def)

lemma subscribe_dedup_winner_sees:
  assumes "friendly u args su"
  shows "runs anything pre (subscribe_dedup_winner su r (Some u)) (\<lambda>r' a b. rr_id r' = rr_id r \<and> sees u (rr_id r) a b)"
  unfolding subscribe_dedup_winner_def option.case
  by (rule runs_bind[OF add_subscriber_runs] runs_bind[OF commit_sees[OF assms]] reread_sees[OF refl])+

lemma subscribe_user_sees:
  assumes "friendly u args su"
  shows "runs anything pre (subscribe_user su r (Some u)) (\<lambda>r' a b. rr_id r' = rr_id r \<and> sees u (rr_id r) a b)"
  unfolding subscribe_user_def option.case
  by (rule runs_bind[OF add_subscriber_runs] runs_bind[OF commit_sees[OF assms]] runs_return')+ simp

lemma subscribed:
  assumes "friendly u args su"
  shows "runs anything pre (subscribe_user su r (Some u)) (\<lambda>r'. sees u (rr_id r'))"
    and "runs anything pre (subscribe_dedup_winner su r (Some u)) (\<lambda>r'. sees u (rr_id r'))"
  by (rule runs_post[OF subscribe_user_sees[OF assms]] runs_post[OF subscribe_dedup_winner_sees[OF assms]], simp)+

lemma share_sees:
  assumes "friendly u args su"
  shows "runs anything pre (if foreign_to args r then subscribe_user su r (ra_user_id args)
      else subscribe_dedup_winner su r (ra_user_id args)) (\<lambda>r'. sees u (rr_id r'))"
  using assms by (auto simp: friendly_def intro!: subscribed[OF assms])

lemma release_noop: "friendly u args su \<Longrightarrow> release_if_anonymous su args = return_call ()"
  by (simp add: friendly_def release_if_anonymous_def)

lemma run_season_plan_sees: "runs G (sees u rid) (run_season_plan su args mr plan present) (\<lambda>_. sees u rid)"
  unfolding run_season_plan_def
  by (rule runs_bind[OF runs_tick] quiet_stmt_sees quiet_rules steady_rules)+

lemma merge_intent_sees: "runs G (sees u rid) (merge_intent args r) (\<lambda>_. sees u rid)"
  unfolding merge_intent_def by (rule quiet_stmt_sees quiet_rules steady_rules)+

lemma lock_sees: "runs G (sees u rid) (stmt (acquire_media_lock tmdb mt)) (\<lambda>_. sees u rid)"
  by (rule quiet_stmt_sees quiet_rules steady_rules)+

lemma query_keeps: "runs G pre (query f) (\<lambda>_. pre)"
  by (rule runs_post[OF runs_query]) simp

lemma reread_some_sees:
  assumes "rr_id r = rid"
  shows "runs G (sees u rid) (bind_call (reread rid r) (\<lambda>r'. return_call (h r')))
    (\<lambda>y a b. \<exists>r'. y = h r' \<and> rr_id r' = rid \<and> sees u rid a b)"
  by (rule runs_bind[OF reread_sees[OF assms]], rule runs_return') auto

lemma grow_active_sees:
  assumes "friendly u args su" "rr_id fresh = rid"
  shows "runs anything (sees u rid) (bind_call (run_season_plan su args rid plan present) (\<lambda>_.
       bind_call (merge_intent args fresh) (\<lambda>_.
       bind_call (commit su) (\<lambda>_.
       bind_call (reread rid fresh) (\<lambda>r. return_call (Some r))))))
    (\<lambda>grown a b. sees u rid a b \<and> (\<forall>r'. grown = Some r' \<longrightarrow> rr_id r' = rid))"
  apply (rule runs_bind[OF run_season_plan_sees] runs_bind[OF merge_intent_sees] runs_bind[OF commit_seen[OF assms(1)]])+
  apply (rule runs_post[OF reread_some_sees[OF assms(2)]])
  apply auto
  done

lemma grow_sees:
  assumes "friendly u args su"
  shows "runs anything (sees u (rr_id r)) (grow_tv_dedup_join su args r plan)
    (\<lambda>grown a b. sees u (rr_id r) a b \<and> (\<forall>r'. grown = Some r' \<longrightarrow> rr_id r' = rr_id r))"
proof -
  have settled: "runs anything (sees u (rr_id r)) (bind_call (rollback su) (\<lambda>_. return_call None))
      (\<lambda>grown a b. sees u (rr_id r) a b \<and> (\<forall>r'. grown = Some r' \<longrightarrow> rr_id r' = rr_id r))"
    unfolding rollback_def by (rule runs_bind[OF pause_sees[OF assms]], rule runs_return') simp
  have again: "get_req db (rr_id r) = Some fresh \<Longrightarrow> rr_id fresh = rr_id r" for db fresh
    by (auto simp: get_req_def to_record_req_def dest: find_req_SomeD)
  have tail: "runs anything (\<lambda>a b. sees u (rr_id r) a b \<and> Inr (get_req b (rr_id r)) = Inr looked)
      (case looked of None \<Rightarrow> bind_call (rollback su) (\<lambda>_. return_call None)
       | Some fresh \<Rightarrow> if rr_status fresh \<in> set SETTLED_REQUEST_STATUS_VALUES
          then bind_call (rollback su) (\<lambda>_. return_call None)
          else bind_call (run_season_plan su args (rr_id r) plan present) (\<lambda>_.
               bind_call (merge_intent args fresh) (\<lambda>_.
               bind_call (commit su) (\<lambda>_.
               bind_call (reread (rr_id r) fresh) (\<lambda>r. return_call (Some r))))))
      (\<lambda>grown a b. sees u (rr_id r) a b \<and> (\<forall>r'. grown = Some r' \<longrightarrow> rr_id r' = rr_id r))" for looked present
    by (rule runs_assume, rule runs_pre[where pre = "sees u (rr_id r)"], intro runs_case_option runs_If)
      (auto intro: settled grow_active_sees[OF assms] again)
  show ?thesis
    unfolding grow_tv_dedup_join_def Let_def
    by (rule runs_bind[OF pause_sees[OF assms, folded rollback_def]] runs_bind[OF runs_tick] runs_bind[OF pause_sees[OF assms]]
        runs_bind[OF lock_sees] runs_bind[OF runs_query] tail)+
qed

lemma return_current_sees:
  "runs G (sees u (rr_id r)) (return_current r) (\<lambda>out a b. \<exists>r'. out = Inr (found r') \<and> rr_id r' = rr_id r \<and> sees u (rr_id r) a b)"
  unfolding return_current_def by (rule reread_some_sees) simp

lemma grow_or_settle_sees:
  assumes "friendly u args su" and "give_up = return_current r \<or> give_up = raise_integrity"
  shows "runs anything (sees u (rr_id r)) (grow_or_settle su args r plan give_up) (sees_outcome u)"
proof -
  have give_up: "runs anything (sees u (rr_id r)) (bind_call give_up (\<lambda>out. return_call (TargetSettled out))) (sees_outcome u)"
    using assms(2)
  proof
    assume "give_up = return_current r"
    then show ?thesis
      by simp (rule runs_bind[OF return_current_sees], rule runs_return',
        auto simp: sees_outcome_simps sees_answer_def found_def)
  qed (auto simp: raise_integrity_def sees_outcome_simps intro!: runs_return')
  have "runs anything (\<lambda>a b. sees u (rr_id r) a b \<and> (\<forall>r'. grown = Some r' \<longrightarrow> rr_id r' = rr_id r))
      (case grown of Some r \<Rightarrow> return_call (Answered (found r))
        | None \<Rightarrow> bind_call give_up (\<lambda>out. return_call (TargetSettled out))) (sees_outcome u)" for grown
    by (cases grown) (auto intro: runs_pre[OF give_up] intro!: runs_return' simp: sees_outcome_simps sees_answer_def found_def)
  then show ?thesis
    unfolding grow_or_settle_def by (rule runs_bind[OF grow_sees[OF assms(1)]])
qed

lemma runs_resolve:
  "runs G pre (resolve_detail su args) (\<lambda>_. pre)" "runs G pre (resolve_tv_season_plan su args) (\<lambda>_. pre)"
proof -
  have pure: "runs G pre (detail_of x) (\<lambda>_. pre)" for x
    by (cases x) (auto simp: detail_of_def intro: runs_raise runs_return')
  show "runs G pre (resolve_detail su args) (\<lambda>_. pre)"
    unfolding resolve_detail_def by (rule runs_bind[OF runs_tick], rule runs_If) (rule pure)+
  show "runs G pre (resolve_tv_season_plan su args) (\<lambda>_. pre)"
    unfolding resolve_tv_season_plan_def
    by (rule runs_bind[OF runs_tick], rule runs_bind[OF pure], rule runs_return')
qed

lemma answered_sees: "runs G (sees u (rr_id r)) (return_call (Answered (found r))) (sees_outcome u)"
  by (rule runs_return') (simp add: sees_outcome_simps sees_answer_def found_def)

lemma shared_sees:
  assumes "friendly u args su" and "\<And>r. give_up r = return_current r \<or> give_up r = raise_integrity"
  shows "runs anything (sees u (rr_id r)) (bind_call (release_if_anonymous su args) (\<lambda>_.
      if ra_media_type args = ''tv'' then
         bind_call (resolve_tv_season_plan su args) (\<lambda>plan. grow_or_settle su args r plan (give_up r))
       else return_call (Answered (found r)))) (sees_outcome u)"
  unfolding release_noop[OF assms(1)] bind_return
  by (intro runs_If runs_bind[OF runs_resolve(2)] grow_or_settle_sees[OF assms(1)] answered_sees assms(2))

lemma join_existing_sees:
  assumes "friendly u args su"
  shows "runs anything pre (join_existing su args r) (sees_outcome u)"
proof -
  have user: "ra_user_id args = Some u" using assms by (simp add: friendly_def)
  note shared = shared_sees[OF assms, of return_current, simplified]
  show ?thesis
  proof (cases "foreign_to args r")
    case True
    have "runs anything (sees u (rr_id r')) (if ra_media_type args \<noteq> ''tv'' \<or> \<not> ra_expand_shared_tv args
        then return_call (Answered (found r'))
        else bind_call (subscribe_user su r' (Some u)) (\<lambda>shared. bind_call (release_if_anonymous su args) (\<lambda>_.
          if ra_media_type args = ''tv'' then
           bind_call (resolve_tv_season_plan su args) (\<lambda>plan. grow_or_settle su args shared plan (return_current shared))
           else return_call (Answered (found shared))))) (sees_outcome u)" for r'
      by (intro runs_If answered_sees runs_bind[OF subscribed(1)[OF assms]] shared)
    then show ?thesis
      unfolding join_existing_def user using True
      by (simp only: simp_thms if_True bind_return) (rule runs_bind[OF subscribed(1)[OF assms]])
  next
    case False
    then show ?thesis
      unfolding join_existing_def user
      by (simp only: simp_thms if_False bind_return)
        (intro runs_bind[OF subscribed(2)[OF assms]] runs_bind[OF subscribed(1)[OF assms]] shared)
  qed
qed

section \<open>The library short circuits\<close>

lemma share_answers:
  assumes "friendly u args su"
  shows "runs anything pre (share_active su args r) (sees_answer u)"
    and "runs anything pre (share_in_library su args r) (sees_answer u)"
proof -
  have user: "ra_user_id args = Some u" using assms by (simp add: friendly_def)
  have found: "runs anything (sees u (rr_id r')) (return_call (found r')) (sees_answer u)" for r'
    by (rule runs_return') (simp add: sees_answer_def found_def)
  note step = runs_bind[OF subscribed(1)[OF assms]] runs_bind[OF subscribed(2)[OF assms]]
  show "runs anything pre (share_active su args r) (sees_answer u)"
    unfolding share_active_def release_noop[OF assms] bind_return user
    by (intro runs_If step found)
  show "runs anything pre (share_in_library su args r) (sees_answer u)"
    unfolding share_in_library_def release_noop[OF assms] bind_return user
    by (intro runs_If step found)
qed

definition sees_check :: "int \<Rightarrow> movie_check \<Rightarrow> session_pred" where
  "sees_check u check a b \<longleftrightarrow> (case check of MovieAnswer r \<Rightarrow> sees_answer u r a b | MovieStart _ _ \<Rightarrow> True)"

lemma check_start: "runs G pre (return_call (MovieStart st rg)) (sees_check u)"
  by (rule runs_return') (simp add: sees_check_def)

lemma check_answer: "runs G (sees_answer u a) (return_call (MovieAnswer a)) (sees_check u)"
  by (rule runs_return') (simp add: sees_check_def)

lemma movie_decision_sees:
  assumes "friendly u args su"
  shows "runs anything pre (movie_decision su args p un) (sees_check u)"
  unfolding movie_decision_def
  by (intro runs_If check_start check_answer runs_bind[OF query_anything] runs_case_option
      runs_bind[OF share_answers(2)[OF assms]])

lemma movie_absent_sees:
  assumes "friendly u args su"
  shows "runs anything pre (bind_call (movie_decision su args False un) (\<lambda>check. bind_call (pause su) (\<lambda>_. return_call check)))
    (sees_check u)"
proof -
  have "runs anything (sees_check u check) (bind_call (pause su) (\<lambda>_. return_call check)) (sees_check u)" for check
  proof (cases check)
    case (MovieAnswer a)
    have "runs anything (sees u (rr_id (cr_record a))) (bind_call (pause su) (\<lambda>_. return_call check)) (sees_check u)"
      by (rule runs_bind[OF pause_sees[OF assms]], rule runs_return') (simp add: sees_check_def MovieAnswer sees_answer_def)
    then show ?thesis by (rule runs_pre) (simp add: sees_check_def MovieAnswer sees_answer_def)
  next
    case (MovieStart st rg)
    then show ?thesis by (auto intro!: runs_bind[OF pause_anything[OF assms]] check_start)
  qed
  then show ?thesis by (rule runs_bind[OF movie_decision_sees[OF assms]])
qed

lemma lock_anything: "runs G pre (media_lock args) (\<lambda>_. anything)"
  unfolding media_lock_def by (rule stmt_anything) (rule steady_rules)

lemma movie_short_circuit_sees:
  assumes "friendly u args su"
  shows "runs anything pre (movie_short_circuit su args) (sees_check u)"
  unfolding movie_short_circuit_def breadcrumb_uncorroborated_def Let_def active_row_def
  by (intro runs_case_option runs_If check_start check_answer runs_bind[OF pause_anything[OF assms]]
      runs_bind[OF runs_tick] runs_bind[OF lock_anything] runs_bind[OF query_anything] movie_decision_sees[OF assms]
      movie_absent_sees[OF assms] runs_bind[OF share_answers(1)[OF assms]]
      runs_bind[where mid = "\<lambda>_. anything"] runs_return'[where pre = anything and post = "\<lambda>_. anything"])
    (simp_all add: anything_def)

lemma tv_dedup_sees:
  assumes "friendly u args su"
  shows "runs anything pre (tv_dedup_active su args r plan) (sees_outcome u)"
    and "runs anything pre (tv_dedup_in_library su args r plan) (sees_outcome u)"
proof -
  show "runs anything pre (tv_dedup_active su args r plan) (sees_outcome u)"
    unfolding tv_dedup_active_def
    by (intro runs_bind[OF share_sees[OF assms]] runs_If answered_sees grow_or_settle_sees[OF assms]) simp
  have grown: "runs anything (sees u (rr_id r')) (bind_call (reread (rr_id r') r') (\<lambda>r. return_call (Answered (found r))))
      (sees_outcome u)" for r'
    by (rule runs_post[OF reread_some_sees[OF refl]]) (auto simp: sees_outcome_simps sees_answer_def found_def)
  show "runs anything pre (tv_dedup_in_library su args r plan) (sees_outcome u)"
    unfolding tv_dedup_in_library_def
    by (intro runs_bind[OF share_sees[OF assms]] runs_If answered_sees runs_bind[OF pause_sees[OF assms, folded rollback_def]]
        runs_bind[OF run_season_plan_sees] runs_bind[OF merge_intent_sees] runs_bind[OF commit_seen[OF assms]] grown)
qed

definition sees_hit :: "int \<Rightarrow> attempt option \<Rightarrow> session_pred" where
  "sees_hit u hit a b \<longleftrightarrow> (case hit of None \<Rightarrow> True | Some out \<Rightarrow> sees_outcome u out a b)"

lemma hit_none: "runs G pre (return_call None) (sees_hit u)"
  by (rule runs_return') (simp add: sees_hit_def)

lemma hit_some: "runs G (sees_outcome u out) (return_call (Some out)) (sees_hit u)"
  by (rule runs_return') (simp add: sees_hit_def)

lemma tv_superset_sees:
  assumes "friendly u args su"
  shows "runs anything pre (tv_superset su args plan present) (sees_hit u)"
  unfolding tv_superset_def
  by (intro runs_If runs_bind[OF query_anything] runs_case_option hit_none hit_some
      runs_bind[OF pause_anything[OF assms, folded rollback_def]] runs_bind[OF tv_dedup_sees(2)[OF assms]])

lemma tv_short_circuit_sees:
  assumes "friendly u args su"
  shows "runs anything pre (tv_short_circuit su args plan) (sees_hit u)"
  unfolding tv_short_circuit_def Let_def active_row_def
  by (intro runs_case_option runs_If hit_none hit_some runs_bind[OF pause_anything[OF assms]] runs_bind[OF runs_tick]
      runs_bind[OF lock_anything] runs_bind[OF query_anything] tv_superset_sees[OF assms] runs_bind[OF tv_dedup_sees(1)[OF assms]])

section \<open>Inserting and collapsing\<close>

lemma copy_subscribers_keeps:
  "copy_subscribers now src target db = Inr (x, db') \<Longrightarrow> has_place v i db \<Longrightarrow> has_place v i db'"
  by (auto simp: copy_subscribers_def is_subscriber_def has_place_def stands_def Let_def)

lemma delete_req_keeps:
  "delete_req rid db = Inr (x, db') \<Longrightarrow> has_place v i db \<Longrightarrow> has_place v i db'"
  by (auto simp: delete_req_def delete_requests_def is_subscriber_def has_place_def stands_def Let_def list_ex_iff)

lemma join_winner_sees:
  assumes "friendly u args su" "rr_id winner \<noteq> rr_id r"
  shows "runs anything pre (join_winner su args r winner) (\<lambda>w a b. rr_id w = rr_id winner \<and> sees u (rr_id winner) a b)"
proof -
  have user: "ra_user_id args = Some u" using assms by (simp add: friendly_def)
  have copy: "runs anything (joined_now u (rr_id winner)) (stmt (copy_subscribers (su_now su) (rr_id r) (rr_id winner)))
      (\<lambda>_. joined_now u (rr_id winner))"
    by (rule runs_stmt) (auto intro: steady_rules simp: joined_now_def dest: copy_subscribers_keeps)
  have delete: "runs anything (joined_now u (rr_id winner)) (stmt (delete_req (rr_id r))) (\<lambda>_. joined_now u (rr_id winner))"
    by (rule runs_stmt) (use assms(2) in \<open>auto intro: steady_rules simp: joined_now_def dest: delete_req_keeps\<close>)
  show ?thesis
    unfolding join_winner_def user option.case
    by (intro runs_bind[OF add_subscriber_runs] runs_bind[OF copy] runs_bind[OF delete] runs_bind[OF commit_sees[OF assms(1)]]
        reread_sees refl)
qed

lemma adopt_winner_sees:
  assumes "friendly u args su" "rr_id winner \<noteq> rr_id r"
  shows "runs anything pre (adopt_winner su args r winner) (\<lambda>w a b. rr_id w = rr_id winner \<and> sees u (rr_id winner) a b)"
proof -
  have user: "ra_user_id args = Some u" using assms by (simp add: friendly_def)
  have fresh: "runs anything pre (reread (rr_id winner) winner) (\<lambda>w a b. rr_id w = rr_id winner)" for pre
    unfolding reread_def
    by (rule runs_post[OF runs_query]) (auto simp: get_req_def to_record_req_def split: option.splits dest: find_req_SomeD)
  have lost: "runs anything (\<lambda>a b. rr_id w = rr_id winner) (join_winner su args r (if foreign_to args w then w else winner))
      (\<lambda>w a b. rr_id w = rr_id winner \<and> sees u (rr_id winner) a b)" for w
  proof (rule runs_assume)
    fix a0 b0 :: app_db assume same: "rr_id w = rr_id winner"
    then have "rr_id (if foreign_to args w then w else winner) = rr_id winner" by simp
    then show ?thesis
      using join_winner_sees[OF assms(1), of "if foreign_to args w then w else winner" r] assms(2) by simp
  qed
  show ?thesis
    unfolding adopt_winner_def user option.case
    by (intro runs_If runs_bind[OF stmt_anything] runs_bind[OF fresh] lost join_winner_sees[OF assms]) (rule steady_rules)
qed

lemma collapse_sees:
  assumes "friendly u args su"
  shows "runs anything (sees u (rr_id r)) (collapse_available_race su args r) (\<lambda>w. sees u (rr_id w))"
  unfolding collapse_available_race_def
  by (intro runs_bind[OF query_keeps] runs_case_option runs_If runs_return' runs_bind[OF pause_sees[OF assms]]
      runs_post[OF join_winner_sees[OF assms]] runs_post[OF adopt_winner_sees[OF assms]]) auto

lemma quiet_mark_available [quiet_rules]: "quiet (mark_available_req now rid g)"
  unfolding mark_available_req_def by (intro quiet_rules)

lemma create_req_joins:
  assumes inv: "app_inv db" and run: "create_req now tmdb mt title st nr db = Inr (r, db')" and user: "nr_user_id nr = Some u"
  shows "has_place u (rr_id r) db'"
proof -
  have inv': "app_inv db'" by (rule evolves_inv[OF steadyD[OF steady_create_req inv run]])
  have "is_subscriber db' (rr_id r) u"
    using run user by (auto simp: create_req_def bind_op_Inr Let_def to_record_req_def new_request_row_def
      dest: add_subscriber_row)
  with inv' show ?thesis by (simp add: subscribed_place app_inv_def)
qed

lemma insert_row_sees:
  assumes "friendly u args su"
  shows "runs anything pre (insert_row su args d plan st rg) (\<lambda>r. sees u (rr_id r))"
proof -
  have user: "nr_user_id (new_request_of args d rg) = Some u"
    using assms by (simp add: friendly_def new_request_of_def split_beta Let_def)
  have create: "runs anything pre (stmt (create_req (su_now su) (ra_tmdb_id args) (ra_media_type args) (de_title d) st
      (new_request_of args d rg))) (\<lambda>r. joined_now u (rr_id r))"
    by (rule runs_stmt) (auto intro: steady_rules simp: joined_now_def intro: create_req_joins[OF _ _ user])
  have avail: "runs anything (joined_now u i) (if st = ''available'' then stmt (mark_available_req now i g) else return_call True)
      (\<lambda>_. joined_now u i)" for i now g
    by (intro runs_If quiet_stmt_joined runs_return' quiet_rules) (auto intro: steady_rules)
  have seasons: "runs anything (joined_now u i) (if ra_media_type args = ''tv'' then run_season_plan su args i plan None
      else return_call ()) (\<lambda>_. joined_now u i)" for i
    unfolding run_season_plan_def
    by (intro runs_If runs_bind[OF runs_tick] quiet_stmt_joined runs_return' quiet_rules) (auto intro: steady_rules)
  show ?thesis
    unfolding insert_row_def
    by (intro runs_bind[OF create] runs_bind[OF avail] runs_bind[OF seasons] runs_bind[OF commit_sees[OF assms]] runs_return') simp
qed

lemma settle_tv_insert_sees:
  assumes "friendly u args su"
  shows "runs anything (sees u (rr_id r)) (settle_tv_insert su args plan r) (sees_answer u)"
proof -
  have read: "runs anything (sees u (rr_id r)) (reread (rr_id r) r) (\<lambda>r'. sees u (rr_id r'))" for r
    by (rule runs_post[OF reread_sees[OF refl]]) simp
  have answer: "runs anything (sees u (rr_id r)) (return_call \<lparr>cr_record = r, cr_created = c\<rparr>) (sees_answer u)" for r c
    by (rule runs_return') (simp add: sees_answer_def)
  show ?thesis
    unfolding settle_tv_insert_def found_def
    by (intro runs_bind[OF read] runs_If answer runs_bind[OF collapse_sees[OF assms]] runs_bind[OF run_season_plan_sees]
        runs_bind[OF merge_intent_sees] runs_bind[OF commit_seen[OF assms]])
qed

lemma insert_fresh_sees:
  assumes "friendly u args su"
  shows "runs anything pre (insert_fresh su args d plan st rg) (sees_answer u)"
  unfolding insert_fresh_def
  by (intro runs_bind[OF insert_row_sees[OF assms]] runs_If settle_tv_insert_sees[OF assms] runs_return')
    (simp add: sees_answer_def)

lemma recover_sees:
  assumes "friendly u args su"
  shows "runs anything pre (recover_lost_insert su args) (sees_outcome u)"
proof -
  have gone: "runs anything pre (bind_call raise_integrity (\<lambda>out. return_call (TargetSettled out))) (sees_outcome u)" for pre
    by (auto simp: raise_integrity_def sees_outcome_simps intro!: runs_return')
  show ?thesis
    unfolding recover_lost_insert_def active_row_def
    by (intro runs_bind[OF pause_anything[OF assms, folded rollback_def]] runs_bind[OF lock_anything]
        runs_bind[OF query_anything] runs_case_option gone runs_bind[OF share_sees[OF assms]] runs_If answered_sees
        shared_sees[OF assms, of "\<lambda>_. raise_integrity"]) simp
qed

lemma finish_sees:
  assumes "friendly u args su"
  shows "runs anything (sees_outcome u out) (finish_insert su args st out) (sees_outcome u)"
proof (cases out)
  case (Answered a)
  have "runs anything (sees u (rr_id (cr_record a))) (finish_insert su args st out) (sees_outcome u)"
    unfolding finish_insert_def Answered attempt.case
    by (intro runs_If runs_bind[OF collapse_sees[OF assms]] runs_return') (auto simp: sees_outcome_simps sees_answer_def)
  then show ?thesis by (rule runs_pre) (simp add: Answered sees_outcome_simps sees_answer_def)
qed (simp add: finish_insert_def runs_return)

lemma insert_or_join_sees:
  assumes "friendly u args su"
  shows "runs anything pre (insert_or_join su args d plan st rg) (sees_outcome u)"
proof -
  have fresh: "runs anything pre (bind_call (insert_fresh su args d plan st rg) (\<lambda>a. return_call (Answered a))) (sees_outcome u)"
    by (intro runs_bind[OF insert_fresh_sees[OF assms]] runs_return') (simp add: sees_outcome_simps)
  show ?thesis
    unfolding insert_or_join_def by (intro runs_bind[OF runs_catch[OF fresh recover_sees[OF assms]]] finish_sees[OF assms])
qed

lemma create_attempt_sees:
  assumes "friendly u args su"
  shows "runs anything pre (create_attempt su args) (sees_outcome u)"
proof -
  have answered: "runs anything (sees_check u (MovieAnswer a)) (return_call (Answered a)) (sees_outcome u)" for a
    by (rule runs_return') (simp add: sees_check_def sees_outcome_simps)
  have hit: "runs anything (sees_hit u hit) (case hit of Some out \<Rightarrow> return_call out
      | None \<Rightarrow> insert_or_join su args d plan st rg) (sees_outcome u)" for hit d plan st rg
    by (cases hit) (auto simp: sees_hit_def intro: insert_or_join_sees[OF assms] runs_return')
  have check: "runs anything (sees_check u c) (case c of MovieAnswer a \<Rightarrow> return_call (Answered a)
      | MovieStart st rg \<Rightarrow> insert_or_join su args d plan st rg) (sees_outcome u)" for c d plan
    by (cases c) (auto intro: insert_or_join_sees[OF assms] answered)
  have locked: "runs anything pre (locked_active_row su args) (\<lambda>_. anything)"
    unfolding locked_active_row_def active_row_def
    by (intro runs_bind[OF query_anything] runs_case_option runs_return' runs_bind[OF pause_anything[OF assms]]
        runs_bind[OF pause_anything[OF assms, folded rollback_def]] runs_bind[OF lock_anything]) simp_all
  show ?thesis
    unfolding create_attempt_def create_fresh_def Let_def
    by (intro runs_If runs_raise runs_bind[OF locked] runs_case_option join_existing_sees[OF assms]
        runs_bind[OF pause_anything[OF assms]] runs_bind[OF runs_resolve(1)] runs_bind[OF tv_short_circuit_sees[OF assms]]
        runs_bind[OF movie_short_circuit_sees[OF assms]] hit check)
qed

text \<open>A session that merges one request into another, as the collapse does, takes nobody's place.\<close>

lemma merge_keeps_places:
  assumes "copy_subscribers now src target db = Inr (x, db1)" "delete_req src db1 = Inr (y, db2)" "has_place u rid db"
  shows "has_place u rid db2"
  by (rule delete_req_keeps[OF assms(2) copy_subscribers_keeps[OF assms(1,3)]])

text \<open>
  C11: the requester can see what the request call hands back. If a signed-in user's call returns a request, then at that
  moment, if the row still stands in the committed database, the user is a subscriber of it, so the list and the detail
  page, which show a user exactly the requests he subscribes to, show it. This holds on every path, whatever the other
  sessions commit in between, as long as they keep the tables sound and do not take the user off a request that they
  leave standing. They may delete the row, as another session's collapse does when it moves the subscribers to the row
  that remains; a withdrawal by the user himself while his own request is running is what the hypothesis leaves out.
\<close>

theorem requester_sees_request:
  assumes inv: "app_inv db" and others: "friendly u args su"
    and run: "create_request su args (open_session db) = (Inr r, s')" and "stands (ss_saved s') (rr_id r)"
  shows "is_subscriber (ss_saved s') (rr_id r) u"
proof -
  have "sane anything (open_session db)" using inv by (simp add: sane_def open_session_def)
  then show ?thesis
    using runsD[OF create_request_runs, OF create_attempt_sees[OF others, unfolded sees_outcome_def], of "open_session db"] run assms(4)
    by (auto simp: sees_answer_def sees_def anything_def has_place_def)
qed

end
