(* ===== verification/RequestMinting.thy ===== *)
theory RequestMinting
  imports RequestSharing
begin

text \<open>
  What the transactions of a movie request may do to the request table: they never move an existing row to
  another status, never take a row from its owner, and a row that claims the movie is in the library is only
  minted when no request of that movie is in progress or in the library and its file was not just evicted.
\<close>

definition may_mint :: "request_args \<Rightarrow> app_db \<Rightarrow> bool" where
  "may_mint args a \<longleftrightarrow> \<not> ra_force args
     \<and> (\<forall>r \<in> set (a_requests a). of_title (ra_tmdb_id args) Movie r \<longrightarrow>
          q_status r \<in> {''failed'', ''evicted'', ''cancelled''})
     \<and> latest_request_evicted a (ra_tmdb_id args) ''movie'' = Inr False"

definition movie_effect :: "request_args \<Rightarrow> session_pred" where
  "movie_effect args a b \<longleftrightarrow>
     (\<forall>r \<in> set (a_requests a). \<forall>r' \<in> set (a_requests b). q_id r' = q_id r \<longrightarrow>
        q_status r' = q_status r \<and> (q_user_id r \<noteq> None \<longrightarrow> q_user_id r' = q_user_id r))
     \<and> (\<forall>r' \<in> set (a_requests b). q_id r' \<notin> q_id ` set (a_requests a) \<longrightarrow>
        of_title (ra_tmdb_id args) Movie r' \<and> q_user_id r' = ra_user_id args
        \<and> (q_status r' = ''pending'' \<or> q_status r' = ''available'' \<and> may_mint args a))"

definition shrunk :: session_pred where
  "shrunk a b \<longleftrightarrow> (\<forall>r' \<in> set (a_requests b). \<exists>r \<in> set (a_requests a). q_id r' = q_id r \<and> q_status r' = q_status r
     \<and> (q_user_id r \<noteq> None \<longrightarrow> q_user_id r' = q_user_id r))"

definition same_rows :: session_pred where
  "same_rows a b \<longleftrightarrow> a_requests b = a_requests a"

definition appended :: "request_args \<Rightarrow> string \<Rightarrow> int \<Rightarrow> session_pred" where
  "appended args st i a b \<longleftrightarrow> (\<exists>r. a_requests b = a_requests a @ [r] \<and> q_id r = i \<and> of_title (ra_tmdb_id args) Movie r
     \<and> q_user_id r = ra_user_id args \<and> q_status r = st)"

lemma same_rows_shrunk: "same_rows a b \<Longrightarrow> shrunk a b"
  by (auto simp: same_rows_def shrunk_def)

lemma shrunk_effect:
  assumes "shrunk a b" "app_inv a"
  shows "movie_effect args a b"
proof -
  have "q_status r' = q_status r \<and> (q_user_id r \<noteq> None \<longrightarrow> q_user_id r' = q_user_id r)"
    if r: "r \<in> set (a_requests a)" "r' \<in> set (a_requests b)" "q_id r' = q_id r" for r r'
  proof -
    obtain r0 where r0: "r0 \<in> set (a_requests a)" "q_id r' = q_id r0" "q_status r' = q_status r0"
      "q_user_id r0 \<noteq> None \<longrightarrow> q_user_id r' = q_user_id r0"
      using assms(1) r(2) by (auto simp: shrunk_def)
    have "r0 = r" using request_id_inj[OF assms(2) r0(1) r(1)] r0(2) r(3) by simp
    then show ?thesis using r0 by simp
  qed
  moreover have "q_id r' \<in> q_id ` set (a_requests a)" if "r' \<in> set (a_requests b)" for r'
    using assms(1) that by (force simp: shrunk_def)
  ultimately show ?thesis by (auto simp: movie_effect_def)
qed

lemma appended_effect:
  assumes "appended args st i a b" "app_inv a" "app_inv b" "st = ''pending'' \<or> st = ''available'' \<and> may_mint args a"
  shows "movie_effect args a b"
proof -
  obtain r where r: "a_requests b = a_requests a @ [r]" "of_title (ra_tmdb_id args) Movie r"
      "q_user_id r = ra_user_id args" "q_status r = st"
    using assms(1) by (auto simp: appended_def)
  have fresh: "q_id r \<notin> q_id ` set (a_requests a)"
    using app_invD(1)[OF assms(3)] r(1) by simp
  have "r' = r0" if "r0 \<in> set (a_requests a)" "r' \<in> set (a_requests b)" "q_id r' = q_id r0" for r0 r'
    using request_id_inj[OF assms(3), of r' r0] that r(1) by auto
  then show ?thesis
    using assms(4) r fresh by (auto simp: movie_effect_def)
qed

text \<open>Statements that leave the request table alone, or only shrink it.\<close>

lemma stmt_same:
  assumes "steady m" "\<And>b x b'. m b = Inr (x, b') \<Longrightarrow> a_requests b' = a_requests b"
  shows "runs G same_rows (stmt m) (\<lambda>_. same_rows)" and "runs G shrunk (stmt m) (\<lambda>_. shrunk)"
  by (rule runs_stmt[OF assms(1)]; use assms(2) in \<open>auto simp: same_rows_def shrunk_def\<close>)+

lemma add_subscriber_rows: "add_subscriber now rid u db = Inr (x, db') \<Longrightarrow> a_requests db' = a_requests db"
  by (auto simp: add_subscriber_def split: if_splits)

lemma copy_subscribers_rows: "copy_subscribers now i j db = Inr (x, db') \<Longrightarrow> a_requests db' = a_requests db"
  by (auto simp: copy_subscribers_def Let_def)

lemma lock_rows: "acquire_media_lock t mt db = Inr (x, db') \<Longrightarrow> a_requests db' = a_requests db"
  by (auto simp: acquire_media_lock_def bind_op_Inr split: if_splits)

lemmas stmts_same = stmt_same[OF steady_add_subscriber add_subscriber_rows] stmt_same[OF steady_copy_subscribers copy_subscribers_rows]
  stmt_same[OF steady_acquire_media_lock lock_rows]

lemma delete_shrunk: "runs G shrunk (stmt (delete_req i)) (\<lambda>_. shrunk)"
  by (rule runs_stmt) (auto intro: steady_rules simp: delete_req_def delete_requests_def shrunk_def Let_def)

lemma claim_shrunk: "runs G shrunk (stmt (claim_if_unowned i u)) (\<lambda>_. shrunk)"
proof (rule runs_stmt)
  fix a b x b' assume pre: "shrunk a b" and run: "claim_if_unowned i u b = Inr (x, b')"
  have rows: "a_requests b' = map (\<lambda>r. if q_id r = i \<and> q_user_id r = None then r\<lparr>q_user_id := Some u\<rparr> else r) (a_requests b)"
    using run by (auto simp: claim_if_unowned_def update_requests_def map_requests_def)
  show "shrunk a b'"
    unfolding shrunk_def
  proof
    fix r' assume "r' \<in> set (a_requests b')"
    then obtain r where r: "r \<in> set (a_requests b)" "r' = r \<or> q_user_id r = None \<and> r' = r\<lparr>q_user_id := Some u\<rparr>"
      unfolding rows by (auto split: if_splits)
    from pre r(1) obtain r0 where "r0 \<in> set (a_requests a)" "q_id r = q_id r0" "q_status r = q_status r0"
      "q_user_id r0 \<noteq> None \<longrightarrow> q_user_id r = q_user_id r0"
      by (auto simp: shrunk_def)
    then show "\<exists>r \<in> set (a_requests a). q_id r' = q_id r \<and> q_status r' = q_status r
        \<and> (q_user_id r \<noteq> None \<longrightarrow> q_user_id r' = q_user_id r)"
      using r(2) by (intro bexI[of _ r0]) auto
  qed
qed (rule steady_rules)

lemma pause_same: "keeps_invariant su \<Longrightarrow> runs G pre (pause su) (\<lambda>_. same_rows)"
  by (rule runs_pause) (auto simp: same_rows_def)

lemma commit_shrunk: "keeps_invariant su \<Longrightarrow> runs (movie_effect args) shrunk (commit su) (\<lambda>_. same_rows)"
  by (rule runs_commit) (auto simp: same_rows_def intro: shrunk_effect)

lemma commit_same: "keeps_invariant su \<Longrightarrow> runs (movie_effect args) same_rows (commit su) (\<lambda>_. same_rows)"
  by (rule runs_pre[OF commit_shrunk]) (auto intro: same_rows_shrunk)

lemma rollback_same: "keeps_invariant su \<Longrightarrow> runs G pre (rollback su) (\<lambda>_. same_rows)"
  unfolding rollback_def by (rule pause_same)

section \<open>Every path of a movie request\<close>

lemma reread_keeps: "runs G pre (reread i r) (\<lambda>_. pre)"
  unfolding reread_def by (rule query_keeps)

lemma subscribe_same:
  assumes "keeps_invariant su"
  shows "runs (movie_effect args) same_rows (subscribe_user su r u) (\<lambda>_. same_rows)"
    and "runs (movie_effect args) same_rows (subscribe_dedup_winner su r u) (\<lambda>_. same_rows)"
    and "runs (movie_effect args) same_rows (release_if_anonymous su args) (\<lambda>_. same_rows)"
  unfolding subscribe_user_def subscribe_dedup_winner_def release_if_anonymous_def
  by (intro runs_case_option runs_If runs_return' runs_bind[OF stmts_same(1)] runs_bind[OF commit_same[OF assms]]
      reread_keeps rollback_same[OF assms]; assumption)+

definition starts_ok :: "request_args \<Rightarrow> movie_check \<Rightarrow> session_pred" where
  "starts_ok args check a b \<longleftrightarrow> same_rows a b \<and> (\<forall>st rg. check = MovieStart st rg \<longrightarrow>
     st = ''pending'' \<or> st = ''available'' \<and> may_mint args a)"

lemma answer_ok: "runs G same_rows (return_call (MovieAnswer a)) (starts_ok args)"
  by (rule runs_return') (simp add: starts_ok_def)

lemma pending_ok: "runs G same_rows (return_call (MovieStart ''pending'' rg)) (starts_ok args)"
  by (rule runs_return') (simp add: starts_ok_def)

lemma share_same:
  assumes "keeps_invariant su"
  shows "runs (movie_effect args) same_rows (share_active su args r) (\<lambda>_. same_rows)"
    and "runs (movie_effect args) same_rows (share_in_library su args r) (\<lambda>_. same_rows)"
  unfolding share_active_def share_in_library_def
  by (intro runs_If runs_return' runs_bind[OF subscribe_same(1)[OF assms]] runs_bind[OF subscribe_same(2)[OF assms]]
      runs_bind[OF subscribe_same(3)[OF assms]]; assumption)+

lemma find_active_None_settled:
  "find_active db t ''movie'' = Inr None \<Longrightarrow> r \<in> set (a_requests db) \<Longrightarrow> of_title t Movie r \<Longrightarrow> settled r"
  by (auto simp: find_active_def media_type_def find_None_iff by_req_id_def)

lemma find_in_library_None:
  assumes "find_in_library db t ''movie'' pref = Inr None" "r \<in> set (a_requests db)" "of_title t Movie r"
  shows "q_status r \<notin> {''available'', ''completed''}"
proof
  assume "q_status r \<in> {''available'', ''completed''}"
  then have "r \<in> set (rev (by_req_id (filter (\<lambda>r. of_title t Movie r \<and> q_status r \<in> {''available'', ''completed''}) (a_requests db))))"
    using assms(2,3) by (simp add: by_req_id_def)
  then show False
    using assms(1) by (cases pref) (auto simp: find_in_library_def media_type_def Let_def split: list.splits
        dest: arg_cong[of "sort_by _ _" "[]" set])
qed

lemma latest_evicted_cong: "a_requests b = a_requests a \<Longrightarrow> latest_request_evicted b t mt = latest_request_evicted a t mt"
  by (simp add: latest_request_evicted_def)

lemma may_mintI:
  assumes "\<not> ra_force args" "same_rows a b" "find_active b (ra_tmdb_id args) ''movie'' = Inr None"
    "latest_request_evicted b (ra_tmdb_id args) ''movie'' = Inr False"
    "find_in_library b (ra_tmdb_id args) ''movie'' pref = Inr None"
  shows "may_mint args a"
  using assms find_active_None_settled[OF assms(3)] find_in_library_None[OF assms(5)] latest_evicted_cong[of b a]
  by (force simp: may_mint_def same_rows_def settled_def SETTLED_REQUEST_STATUSES_def)

lemma movie_decision_ok:
  assumes "keeps_invariant su" "ra_media_type args = ''movie''"
  shows "runs (movie_effect args)
     (\<lambda>a b. same_rows a b \<and> (plex \<longrightarrow> find_active b (ra_tmdb_id args) ''movie'' = Inr None))
     (movie_decision su args plex un) (starts_ok args)"
proof -
  let ?pre = "\<lambda>a b. same_rows a b \<and> (plex \<longrightarrow> find_active b (ra_tmdb_id args) ''movie'' = Inr None)"
  let ?pref = "dedup_preference_user_id (ra_user_id args) (ra_actor_is_admin args)"
  have share: "runs (movie_effect args) same_rows (bind_call (share_in_library su args row) (\<lambda>a. return_call (MovieAnswer a)))
      (starts_ok args)" for row
    by (intro runs_bind[OF share_same(2)[OF assms(1)]] answer_ok)
  have tail: "runs (movie_effect args) (\<lambda>a b. (?pre a b \<and> latest_request_evicted b (ra_tmdb_id args) ''movie'' = Inr False)
        \<and> find_in_library b (ra_tmdb_id args) ''movie'' ?pref = Inr hit)
      (case hit of Some row \<Rightarrow> bind_call (share_in_library su args row) (\<lambda>a. return_call (MovieAnswer a))
         | None \<Rightarrow> return_call (MovieStart (if un then ''pending'' else ''available'') False)) (starts_ok args)"
    if "\<not> ra_force args" plex for hit
    using that by (cases hit) (auto intro!: runs_return' may_mintI intro: runs_pre[OF share] simp: starts_ok_def)
  have pending: "runs (movie_effect args) (\<lambda>a b. ?pre a b \<and> Q a b) (return_call (MovieStart ''pending'' rg)) (starts_ok args)" for rg Q
    by (rule runs_pre[OF pending_ok]) simp
  have decide: "runs (movie_effect args) (\<lambda>a b. ?pre a b \<and> latest_request_evicted b (ra_tmdb_id args) ''movie'' = Inr ev)
      (if ev then return_call (MovieStart ''pending'' True)
       else if \<not> plex then return_call (MovieStart ''pending'' False)
       else bind_call (query (\<lambda>db. find_in_library db (ra_tmdb_id args) ''movie'' ?pref))
        (\<lambda>hit. case hit of Some row \<Rightarrow> bind_call (share_in_library su args row) (\<lambda>a. return_call (MovieAnswer a))
         | None \<Rightarrow> return_call (MovieStart (if un then ''pending'' else ''available'') False))) (starts_ok args)"
    if "\<not> ra_force args" for ev
    using that by (intro runs_If pending runs_bind[OF runs_query] runs_pre[OF tail]) auto
  have forced: "runs (movie_effect args) ?pre (return_call (MovieStart ''pending'' False)) (starts_ok args)"
    by (rule runs_pre[OF pending_ok]) simp
  show ?thesis
    unfolding movie_decision_def assms(2) by (intro runs_If forced runs_bind[OF runs_query] decide)
qed

lemma lock_same: "runs G same_rows (media_lock args) (\<lambda>_. same_rows)"
  unfolding media_lock_def by (rule stmts_same)

lemma movie_short_circuit_ok:
  assumes "keeps_invariant su" "ra_media_type args = ''movie''"
  shows "runs (movie_effect args) pre (movie_short_circuit su args) (starts_ok args)"
proof -
  note pause = runs_bind[OF pause_same[OF assms(1)]]
  have crumb: "runs (movie_effect args) same_rows (breadcrumb_uncorroborated lib args) (\<lambda>_. same_rows)" for lib
    unfolding breadcrumb_uncorroborated_def
    by (intro runs_If runs_return' runs_bind[OF query_keeps] runs_case_option runs_bind[OF runs_tick]; assumption)
  have locked: "runs (movie_effect args) (\<lambda>a b. same_rows a b \<and> find_active b (ra_tmdb_id args) ''movie'' = Inr hit)
      (case hit of Some active \<Rightarrow> bind_call (share_active su args active) (\<lambda>a. return_call (MovieAnswer a))
        | None \<Rightarrow> movie_decision su args True un) (starts_ok args)" for hit un
  proof (cases hit)
    case None
    then show ?thesis using movie_decision_ok[OF assms, of True un] by simp
  next
    case (Some active)
    show ?thesis unfolding Some option.case
      by (rule runs_pre[where pre = same_rows], intro runs_bind[OF share_same(1)[OF assms(1)]] answer_ok) simp
  qed
  have absent: "runs (movie_effect args) same_rows (bind_call (movie_decision su args False un)
      (\<lambda>check. bind_call (pause su) (\<lambda>_. return_call check))) (starts_ok args)" for un
  proof -
    have "runs (movie_effect args) same_rows (movie_decision su args False un)
        (\<lambda>c a b. \<forall>st rg. c = MovieStart st rg \<longrightarrow> st = ''pending'')"
      unfolding movie_decision_def
      by (intro runs_If runs_bind[OF query_keeps] runs_return') auto
    moreover have "runs (movie_effect args) (\<lambda>a b. \<forall>st rg. c = MovieStart st rg \<longrightarrow> st = ''pending'')
        (bind_call (pause su) (\<lambda>_. return_call c)) (starts_ok args)" for c
      by (rule runs_assume, intro pause runs_return') (simp add: starts_ok_def)
    ultimately show ?thesis by (rule runs_bind)
  qed
  show ?thesis
    unfolding movie_short_circuit_def active_row_def assms(2) Let_def
    by (intro runs_case_option pause pending_ok runs_bind[OF runs_tick] runs_If runs_bind[OF crumb] runs_bind[OF lock_same]
        runs_bind[OF runs_query] locked absent)
qed

lemma create_req_appends:
  assumes "create_req now t ''movie'' title st nr b = Inr (r, b')" "same_rows a b"
    "t = ra_tmdb_id args" "nr_user_id nr = ra_user_id args"
  shows "appended args st (rr_id r) a b'"
proof -
  let ?r = "new_request_row (a_next_id b) t Movie title st nr"
  have st: "request_status st = Inr st" using assms(1) by (auto simp: create_req_def bind_op_Inr request_status_def split: if_splits)
  have "a_requests b' = a_requests b @ [?r] \<and> r = to_record_req ?r"
    using assms(1) st
    by (auto simp: create_req_def bind_op_Inr Let_def insert_request_def media_type_def dest: add_subscriber_rows split: option.splits)
  then show ?thesis
    using assms(2-4) by (auto simp: appended_def same_rows_def new_request_row_def to_record_req_def of_title_def)
qed

lemma update_appended:
  assumes "update_requests p f b = Inr (x, b')" "appended args ''available'' i a b" "app_inv b"
    and "\<And>r. p r \<Longrightarrow> q_id r = i" and "\<And>r. q_id (f r) = q_id r \<and> q_tmdb_id (f r) = q_tmdb_id r
      \<and> q_media_type (f r) = q_media_type r \<and> q_user_id (f r) = q_user_id r \<and> q_status (f r) \<in> {q_status r, ''available''}"
  shows "appended args ''available'' i a b'"
proof -
  obtain r where r: "a_requests b = a_requests a @ [r]" "q_id r = i" "of_title (ra_tmdb_id args) Movie r"
      "q_user_id r = ra_user_id args" "q_status r = ''available''"
    using assms(2) by (auto simp: appended_def)
  have fresh: "q_id r0 \<noteq> i" if "r0 \<in> set (a_requests a)" for r0
    using app_invD(1)[OF assms(3)] r(1,2) that by (auto simp: image_iff)
  have "map (\<lambda>r. if p r then f r else r) (a_requests a) = a_requests a"
    by (rule map_idI) (use assms(4) fresh in auto)
  moreover have "a_requests b' = map (\<lambda>r. if p r then f r else r) (a_requests b)"
    using assms(1) by (auto simp: update_requests_def map_requests_def)
  ultimately show ?thesis
    using r assms(5)[of r] by (auto simp: appended_def of_title_def)
qed

lemma mark_available_appended:
  assumes "mark_available_req now i g b = Inr (x, b')" "appended args ''available'' i a b" "app_inv b"
  shows "appended args ''available'' i a b'"
proof -
  obtain hit b1 where first: "update_requests (\<lambda>r. q_id r = i \<and> q_status r \<in> {''completed'', ''available''}
          \<and> q_completion_generation r = g)
        (\<lambda>r. r\<lparr>q_status := ''available'', q_library_verified_at := Some now, q_eviction_regrab := Some False\<rparr>) b = Inr (hit, b1)"
    and rest: "b' = b1 \<or> (\<exists>y. update_requests (\<lambda>r. q_id r = i \<and> q_completed_at r = None)
        (\<lambda>r. r\<lparr>q_completed_at := Some now\<rparr>) b1 = Inr (y, b'))"
    using assms(1) by (auto simp: mark_available_req_def stamp_completed_at_if_unset_def bind_op_Inr split: if_splits)
  have st: "steady (update_requests (\<lambda>r. q_id r = i \<and> q_status r \<in> {''completed'', ''available''} \<and> q_completion_generation r = g)
        (\<lambda>r. r\<lparr>q_status := ''available'', q_library_verified_at := Some now, q_eviction_regrab := Some False\<rparr>))"
    by (rule steady_update_requests) (simp add: write_simps REQUEST_STATUSES_def)
  have inv: "app_inv b1" using steadyD[OF st assms(3) first] by (rule evolves_inv)
  have "appended args ''available'' i a b1" by (rule update_appended[OF first assms(2,3)]) auto
  then show ?thesis
    using rest update_appended[of _ _ b1 _ b' args i a] inv by fastforce
qed

lemma insert_row_ok:
  assumes "keeps_invariant su" "ra_media_type args = ''movie''"
  shows "runs (movie_effect args) (\<lambda>a b. same_rows a b \<and> (st = ''pending'' \<or> st = ''available'' \<and> may_mint args a))
    (insert_row su args d plan st rg) (\<lambda>_. same_rows)"
proof -
  let ?may = "\<lambda>a. st = ''pending'' \<or> st = ''available'' \<and> may_mint args a"
  have user: "nr_user_id (new_request_of args d rg) = ra_user_id args"
    by (simp add: new_request_of_def split_beta Let_def)
  have create: "runs (movie_effect args) (\<lambda>a b. same_rows a b \<and> ?may a)
      (stmt (create_req (su_now su) (ra_tmdb_id args) ''movie'' (de_title d) st (new_request_of args d rg)))
      (\<lambda>r a b. appended args st (rr_id r) a b \<and> ?may a)"
    by (rule runs_stmt) (auto intro: steady_rules create_req_appends[OF _ _ refl user])
  have avail: "runs (movie_effect args) (\<lambda>a b. appended args st i a b \<and> ?may a)
      (if st = ''available'' then stmt (mark_available_req now i g) else return_call True)
      (\<lambda>_ a b. appended args st i a b \<and> ?may a)" for i now g
    by (intro runs_If runs_stmt runs_return') (auto intro: steady_rules mark_available_appended)
  have commit: "runs (movie_effect args) (\<lambda>a b. appended args st i a b \<and> ?may a) (commit su) (\<lambda>_. same_rows)" for i
    by (rule runs_commit[OF assms(1)]) (auto intro: appended_effect simp: same_rows_def)
  show ?thesis
    unfolding insert_row_def assms(2)
    by simp (intro runs_bind[OF create] runs_bind[OF avail] runs_bind[OF commit] runs_return'; assumption)
qed

lemma collapse_ok:
  assumes "keeps_invariant su"
  shows "runs (movie_effect args) same_rows (collapse_available_race su args r) (\<lambda>_. same_rows)"
proof -
  have join: "runs (movie_effect args) shrunk (join_winner su args r w) (\<lambda>_. same_rows)" for w
  proof -
    have "runs (movie_effect args) shrunk (case ra_user_id args of None \<Rightarrow> return_call ()
        | Some u \<Rightarrow> stmt (add_subscriber (su_now su) (rr_id w) u)) (\<lambda>_. shrunk)"
      by (intro runs_case_option runs_return' stmts_same(2))
    then show ?thesis
      unfolding join_winner_def
      by (rule runs_bind)
        (intro runs_bind[OF stmts_same(4)] runs_bind[OF delete_shrunk] runs_bind[OF commit_shrunk[OF assms]] reread_keeps)
  qed
  have adopt: "runs (movie_effect args) shrunk (adopt_winner su args r w) (\<lambda>_. same_rows)" for w
    unfolding adopt_winner_def
    by (intro runs_case_option runs_If join runs_bind[OF claim_shrunk] runs_bind[OF reread_keeps])
  have shrink: "runs (movie_effect args) pre (pause su) (\<lambda>_. shrunk)" for pre
    by (rule runs_post[OF pause_same[OF assms]]) (rule same_rows_shrunk)
  show ?thesis
    unfolding collapse_available_race_def
    by (intro runs_bind[OF query_keeps] runs_case_option runs_return' runs_If runs_bind[OF shrink] join adopt)
qed

lemma recover_ok:
  assumes "keeps_invariant su" "ra_media_type args = ''movie''"
  shows "runs (movie_effect args) pre (recover_lost_insert su args) (\<lambda>_. same_rows)"
proof -
  have share: "runs (movie_effect args) same_rows (if foreign_to args w then subscribe_user su w (ra_user_id args)
      else subscribe_dedup_winner su w (ra_user_id args)) (\<lambda>_. same_rows)" for w
    by (intro runs_If subscribe_same[OF assms(1)])
  show ?thesis
    unfolding recover_lost_insert_def active_row_def raise_integrity_def bind_return
    by (intro runs_bind[OF rollback_same[OF assms(1)]] runs_bind[OF lock_same] runs_bind[OF query_keeps] runs_case_option
        runs_return' runs_bind[OF share] runs_If runs_bind[OF subscribe_same(3)[OF assms(1)]]) (simp_all add: assms(2))
qed

lemma insert_or_join_ok:
  assumes "keeps_invariant su" "ra_media_type args = ''movie''"
  shows "runs (movie_effect args) (\<lambda>a b. same_rows a b \<and> (st = ''pending'' \<or> st = ''available'' \<and> may_mint args a))
    (insert_or_join su args d plan st rg) (\<lambda>_ _ _. True)"
proof -
  have fresh: "runs (movie_effect args) (\<lambda>a b. same_rows a b \<and> (st = ''pending'' \<or> st = ''available'' \<and> may_mint args a))
      (bind_call (insert_fresh su args d plan st rg) (\<lambda>a. return_call (Answered a))) (\<lambda>_. same_rows)"
    unfolding insert_fresh_def assms(2)
    by simp (rule runs_bind, intro runs_bind[OF insert_row_ok[OF assms]] runs_return', assumption, rule runs_return')
  show ?thesis
    unfolding insert_or_join_def finish_insert_def
    by (rule runs_bind[OF runs_catch[OF fresh recover_ok[OF assms]]])
      (auto split: attempt.splits intro!: runs_bind[OF collapse_ok[OF assms(1)]] runs_return')
qed

lemma join_existing_ok:
  assumes "keeps_invariant su" "ra_media_type args = ''movie''"
  shows "runs (movie_effect args) same_rows (join_existing su args r) (\<lambda>_ _ _. True)"
proof -
  note sub = runs_bind[OF subscribe_same(1)[OF assms(1)]] runs_bind[OF subscribe_same(2)[OF assms(1)]]
    runs_bind[OF subscribe_same(3)[OF assms(1)]]
  show ?thesis
    unfolding join_existing_def assms(2)
    by (cases "foreign_to args r") (simp_all, (intro sub runs_return', simp)+)
qed

lemma create_attempt_ok:
  assumes "keeps_invariant su" "ra_media_type args = ''movie''"
  shows "runs (movie_effect args) pre (create_attempt su args) (\<lambda>_ _ _. True)"
proof -
  have locked: "runs (movie_effect args) pre (locked_active_row su args) (\<lambda>hit a b. hit \<noteq> None \<longrightarrow> same_rows a b)"
    unfolding locked_active_row_def active_row_def
    by (intro runs_bind[OF query_keeps] runs_case_option runs_return' runs_bind[OF pause_same[OF assms(1)]]
        runs_bind[OF rollback_same[OF assms(1)]] runs_bind[OF lock_same]) simp_all
  have join: "runs (movie_effect args) (\<lambda>a b. Some r \<noteq> None \<longrightarrow> same_rows a b) (join_existing su args r) (\<lambda>_ _ _. True)" for r
    by (rule runs_pre[OF join_existing_ok[OF assms]]) simp
  have start: "runs (movie_effect args) (starts_ok args c) (case c of MovieAnswer a \<Rightarrow> return_call (Answered a)
      | MovieStart st rg \<Rightarrow> insert_or_join su args d plan st rg) (\<lambda>_ _ _. True)" for c d plan
    by (cases c) (auto intro!: runs_return' intro: runs_pre[OF insert_or_join_ok[OF assms]] simp: starts_ok_def)
  show ?thesis
    unfolding create_attempt_def create_fresh_def assms(2)
    apply simp
    apply (rule runs_bind[OF locked])
    subgoal for hit
      by (cases hit) (auto intro!: runs_bind[OF pause_same[OF assms(1)]] runs_bind[OF runs_resolve(1)]
          runs_bind[OF movie_short_circuit_ok[OF assms]] start join[simplified])
    done
qed

text \<open>
  C12: what a movie request may do to the request table. Whatever the other sessions do in between, and
  whether the call returns or raises, every transaction it commits leaves the status of each existing request
  as it was and takes none from its owner; a row it adds is for the requested movie and belongs to the
  requester, and it is pending, or claims to be available only if at the start of that transaction no request
  of the movie was in progress or in the library and its newest copy was not one the eviction sweep took.
\<close>

theorem movie_request_effects:
  assumes "app_inv db" "keeps_invariant su" "ra_media_type args = ''movie''"
    and "create_request su args (open_session db) = (out, s')" "(a, b) \<in> set (ss_log s')"
  shows "movie_effect args a b"
proof -
  have "runs (movie_effect args) (\<lambda>_ _. True) (create_attempt su args) (answers (\<lambda>_ _ _. True))"
    by (rule runs_post[OF create_attempt_ok[OF assms(2,3)]]) (simp add: answers_def split: attempt.splits sum.splits)
  moreover have "sane (movie_effect args) (open_session db)" using assms(1) by (simp add: sane_def open_session_def)
  ultimately show ?thesis
    using runsD[OF create_request_runs, of _ su args, OF _ _ TrueI assms(4)] assms(5) by (fastforce simp: sane_def list_all_iff)
qed

end
