(* ===== verification/RequestBounds.thy ===== *)
theory RequestBounds
  imports SessionLogic
begin

text \<open>
  However the other sessions interfere, creating a request ends: it makes at most three attempts, and each
  waits a bounded number of times.
\<close>

lemma costs_zero:
  "costs 0 (return_call x)" "costs 0 (raise_call e)" "costs 0 (stmt m)" "costs 0 (query f)" "costs 0 tick"
  "costs 0 (media_lock args)" "costs 0 (active_row args)" "costs 0 (reread rid r)" "costs 0 (merge_intent args r)"
  "costs 0 raise_integrity"
  by (simp_all add: media_lock_def active_row_def reread_def merge_intent_def raise_integrity_def)

lemma costs_one: "costs 1 (pause su)" "costs 1 (rollback su)" "costs 1 (commit su)"
  by simp_all

lemma costs_max: "costs n m \<Longrightarrow> costs (max n k) m" "costs k m \<Longrightarrow> costs (max n k) m"
  by (simp_all add: costs_mono)

lemma costs_If: "costs n m \<Longrightarrow> costs k m' \<Longrightarrow> costs (max n k) (if b then m else m')"
  by (auto intro: costs_mono)

lemma costs_option: "costs n m \<Longrightarrow> (\<And>y. costs k (f y)) \<Longrightarrow> costs (max n k) (case x of None \<Rightarrow> m | Some y \<Rightarrow> f y)"
  by (cases x) (simp_all add: costs_max)

lemma costs_sum_type:
  "(\<And>a. costs n (f a)) \<Longrightarrow> (\<And>o'. costs k (g o')) \<Longrightarrow> costs (max n k) (case x of Answered a \<Rightarrow> f a | TargetSettled o' \<Rightarrow> g o')"
  by (cases x) (simp_all add: costs_max)

lemma costs_movie_check:
  "(\<And>a. costs n (f a)) \<Longrightarrow> (\<And>st rg. costs k (g st rg)) \<Longrightarrow> costs (max n k) (case x of MovieAnswer a \<Rightarrow> f a | MovieStart st rg \<Rightarrow> g st rg)"
  by (cases x) (simp_all add: costs_max)

lemmas costs_rules = costs_bind costs_zero costs_one costs_If costs_option costs_sum_type costs_movie_check costs_catch

lemma costs_detail: "costs 0 (detail_of x)"
  by (simp add: detail_of_def split: tmdb_answer.splits)

lemma costs_resolve: "costs 0 (resolve_detail su args)" "costs 0 (resolve_tv_season_plan su args)"
  unfolding resolve_detail_def resolve_tv_season_plan_def
  by (rule costs_mono, (rule costs_rules costs_detail)+, simp)+

lemma costs_run_season_plan: "costs 0 (run_season_plan su args mr plan present)"
  unfolding run_season_plan_def by (rule costs_mono, (rule costs_rules)+, simp)

lemma costs_subscribe: "costs 1 (subscribe_dedup_winner su r u)" "costs 1 (subscribe_user su r u)"
  "costs 1 (release_if_anonymous su args)"
  unfolding subscribe_dedup_winner_def subscribe_user_def release_if_anonymous_def
  by (rule costs_mono, (rule costs_rules)+, simp)+

lemma costs_grow: "costs 3 (grow_tv_dedup_join su args r plan)"
  unfolding grow_tv_dedup_join_def Let_def
  by (rule costs_mono, (rule costs_rules costs_run_season_plan)+, simp)

lemma costs_grow_or_settle: "costs 0 g \<Longrightarrow> costs 3 (grow_or_settle su args r plan g)"
  unfolding grow_or_settle_def by (rule costs_mono, (rule costs_rules costs_grow | assumption)+, simp)

lemma costs_return_current: "costs 0 (return_current r)"
  unfolding return_current_def by (rule costs_mono, (rule costs_rules)+, simp)

lemmas costs_joins = costs_resolve costs_run_season_plan costs_subscribe costs_grow_or_settle costs_return_current

lemma costs_join_existing: "costs 7 (join_existing su args r)"
  unfolding join_existing_def by (rule costs_mono, (rule costs_rules costs_joins)+, simp)

lemma costs_movie_decision: "costs 2 (movie_decision su args p un)"
  unfolding movie_decision_def share_in_library_def by (rule costs_mono, (rule costs_rules costs_joins)+, simp)

lemma costs_movie_short_circuit: "costs 4 (movie_short_circuit su args)"
  unfolding movie_short_circuit_def share_active_def breadcrumb_uncorroborated_def Let_def
  by (rule costs_mono, (rule costs_rules costs_joins costs_movie_decision)+, simp)

lemma costs_tv_superset: "costs 3 (tv_superset su args plan present)"
  unfolding tv_superset_def tv_dedup_in_library_def by (rule costs_mono, (rule costs_rules costs_joins)+, simp)

lemma costs_tv_short_circuit: "costs 5 (tv_short_circuit su args plan)"
  unfolding tv_short_circuit_def tv_dedup_active_def Let_def
  by (rule costs_mono, (rule costs_rules costs_joins costs_tv_superset)+, simp)

lemma costs_collapse: "costs 2 (collapse_available_race su args r)"
  unfolding collapse_available_race_def adopt_winner_def join_winner_def
  by (rule costs_mono, (rule costs_rules)+, simp)

lemma costs_insert_fresh: "costs 4 (insert_fresh su args d plan st rg)"
  unfolding insert_fresh_def insert_row_def settle_tv_insert_def
  by (rule costs_mono, (rule costs_rules costs_joins costs_collapse)+, simp)

lemma costs_recover: "costs 6 (recover_lost_insert su args)"
  unfolding recover_lost_insert_def by (rule costs_mono, (rule costs_rules costs_joins)+, simp)

lemma costs_insert_or_join: "costs 12 (insert_or_join su args d plan st rg)"
  unfolding insert_or_join_def finish_insert_def
  by (rule costs_mono, (rule costs_rules costs_insert_fresh costs_recover costs_collapse)+, simp)

lemma costs_create_attempt: "costs 20 (create_attempt su args)"
  unfolding create_attempt_def create_fresh_def locked_active_row_def Let_def
  by (rule costs_mono, (rule costs_rules costs_joins costs_join_existing costs_movie_short_circuit
      costs_tv_short_circuit costs_insert_or_join)+, simp)

lemma create_request_result_costs:
  "attempt < 3 \<Longrightarrow> ss_tick (snd (create_request_result su args attempt s)) \<le> ss_tick s + 20 * (3 - attempt)"
proof (induction su args attempt s rule: create_request_result.induct)
  case (1 su args attempt s)
  obtain r s' where run: "create_attempt su args s = (r, s')" by fastforce
  have first: "ss_tick s' \<le> ss_tick s + 20"
    using costs_create_attempt[of su args] run unfolding costs_def by (metis snd_conv)
  have again: "ss_tick (snd (create_request_result su args (attempt + 1) s')) \<le> ss_tick s' + 20 * (3 - (attempt + 1))"
    if "r = Inr (TargetSettled out)" "\<not> 3 \<le> attempt + 1" for out
    using "1.IH"[OF run[symmetric] that(1)] that by (simp add: MAX_DEDUP_JOIN_ATTEMPTS_def)
  show ?case
    using first again "1.prems" run
    by (subst create_request_result.simps)
      (fastforce simp: MAX_DEDUP_JOIN_ATTEMPTS_def split: sum.splits attempt.splits)
qed

text \<open>
  C24: creating a request always ends. Whatever the other sessions, TMDB and Plex do between its steps, the
  call returns or raises after at most three attempts and at most sixty waits (a commit, a rollback or a
  network answer during which others may run): the retry on a target that settled underneath it is bounded.
\<close>

theorem create_request_ends:
  "ss_tick (snd (create_request su args s)) \<le> ss_tick s + 20 * MAX_DEDUP_JOIN_ATTEMPTS"
proof -
  have "snd (create_request su args s) = snd (create_request_result su args 0 s)"
    by (auto simp: create_request_def bind_call_def return_call_def split: prod.splits sum.splits)
  then show ?thesis
    using create_request_result_costs[of 0 su args s] by (simp add: MAX_DEDUP_JOIN_ATTEMPTS_def)
qed

end
