(* ===== verification/RequestExamples.thy ===== *)
theory RequestExamples
  imports RequestMinting RequestBounds
begin

text \<open>
  Concrete runs of the request service: a signed-in user whose insert loses to an automation request made
  in between, and a movie that was evicted while Plex still lists it.
\<close>

definition demo_detail :: request_detail where
  "demo_detail = \<lparr>de_title = ''The Matrix'', de_year = Some 1999, de_is_anime = False, de_poster_url = None,
     de_backdrop_url = None, de_season_count = 0\<rparr>"

definition demo_plex :: library_view where
  "demo_plex = \<lparr>lv_is_available = (\<lambda>_ _. Some True), lv_present_seasons = (\<lambda>_ _. Some {}),
     lv_confirm_paths = (\<lambda>_ _. Some {})\<rparr>"

text \<open>The automation session: at its turn it inserts a request for the same movie.\<close>

definition demo_rival :: "nat \<Rightarrow> nat \<Rightarrow> app_db \<Rightarrow> app_db" where
  "demo_rival turn t db = (if t = turn then
     (case create_req 5 603 ''movie'' ''The Matrix'' ''pending'' plain_request db of Inl _ \<Rightarrow> db | Inr (_, db') \<Rightarrow> db')
     else db)"

definition demo_surroundings :: "nat \<Rightarrow> library_view option \<Rightarrow> surroundings" where
  "demo_surroundings turn library = \<lparr>su_now = 10, su_others = demo_rival turn, su_get_movie = (\<lambda>_ _. TmdbDetail demo_detail),
     su_get_tv_show = (\<lambda>_ _. TmdbUnknown), su_library = library\<rparr>"

definition demo_args :: request_args where
  "demo_args = \<lparr>ra_tmdb_id = 603, ra_media_type = ''movie'', ra_user_id = Some 7, ra_actor_is_admin = False,
     ra_seasons = None, ra_episodes = None, ra_force = False, ra_expand_shared_tv = False\<rparr>"

lemma demo_rival_keeps_invariant: "keeps_invariant (demo_surroundings turn library)"
  using steadyD[OF steady_create_req] evolves_inv
  by (fastforce simp: keeps_invariant_def demo_surroundings_def demo_rival_def split: sum.splits)

lemma demo_friendly: "friendly 7 demo_args (demo_surroundings turn library)"
  unfolding friendly_def
proof (intro conjI demo_rival_keeps_invariant)
  have "has_place 7 rid db'" if inv: "app_inv db" and place: "has_place 7 rid db"
    and run: "create_req 5 603 ''movie'' ''The Matrix'' ''pending'' plain_request db = Inr (r, db')" for rid r db db'
  proof -
    have e: "evolves db db'" by (rule steadyD[OF steady_create_req inv run])
    moreover have "a_subscribers db' = a_subscribers db"
      using run by (auto simp: create_req_def bind_op_Inr Let_def insert_request_def plain_request_def)
    ultimately show ?thesis
      using place evolves_stands[OF e] by (auto simp: has_place_def is_subscriber_def evolves_def)
  qed
  then show "keeps_subscriptions 7 (demo_surroundings turn library)"
    by (auto simp: keeps_subscriptions_def demo_surroundings_def demo_rival_def split: sum.splits)
qed (simp add: demo_args_def)

lemma demo_db_inv: "app_inv demo_db"
  by code_simp

definition demo_lost_race :: "(call_error + request_record) \<times> session" where
  "demo_lost_race = create_request (demo_surroundings 1 None) demo_args (open_session demo_db)"

lemma demo_lost_race_result:
  "map_sum id rr_id (fst demo_lost_race) = Inr 1" "stands (ss_saved (snd demo_lost_race)) 1"
  by code_simp+

theorem requester_sees_request_witness: "is_subscriber (ss_saved (snd demo_lost_race)) 1 7"
proof -
  obtain r where r: "fst demo_lost_race = Inr r" "rr_id r = 1"
    using demo_lost_race_result(1) by (cases "fst demo_lost_race") auto
  then have "create_request (demo_surroundings 1 None) demo_args (open_session demo_db) = (Inr r, snd demo_lost_race)"
    by (simp add: demo_lost_race_def prod_eq_iff)
  from requester_sees_request[OF demo_db_inv demo_friendly this] r demo_lost_race_result(2) show ?thesis by simp
qed

text \<open>The evicted movie, which Plex still lists: the call starts a fresh search.\<close>

definition demo_evicted_db :: app_db where
  "demo_evicted_db = demo_db\<lparr>a_requests := [(new_request_row 1 603 Movie ''The Matrix'' ''evicted'' plain_request)
     \<lparr>q_library_removed_at := Some 3\<rparr>], a_next_id := 2\<rparr>"

definition demo_regrab :: "(call_error + request_record) \<times> session" where
  "demo_regrab = create_request (demo_surroundings 99 (Some demo_plex)) demo_args (open_session demo_evicted_db)"

lemma demo_regrab_result:
  "app_inv demo_evicted_db" "map (\<lambda>(a, b). (map q_status (a_requests a), map q_status (a_requests b))) (ss_log (snd demo_regrab))
     = [([''evicted''], [''evicted'', ''pending''])]"
  by code_simp+

theorem movie_request_effects_witness:
  "list_all (\<lambda>(a, b). movie_effect demo_args a b) (ss_log (snd demo_regrab)) \<and> ss_log (snd demo_regrab) \<noteq> []"
proof -
  have run: "create_request (demo_surroundings 99 (Some demo_plex)) demo_args (open_session demo_evicted_db)
      = (fst demo_regrab, snd demo_regrab)"
    by (simp add: demo_regrab_def)
  have "ra_media_type demo_args = ''movie''" by (simp add: demo_args_def)
  then show ?thesis
    using movie_request_effects[OF demo_regrab_result(1) demo_rival_keeps_invariant _ run] demo_regrab_result(2)
    by (auto simp: list_all_iff)
qed

end
