(* ===== verification/RequestViews.thy ===== *)
theory RequestViews
  imports RequestService
begin

text \<open>
  The views and the small transitions of \<open>services/request_service.py\<close>: the pages of the history, the list
  folded to one row per title, the completion steps of a movie and the pin of a whole title.
\<close>

section \<open>Operations\<close>

definition list_requests_page :: "app_db \<Rightarrow> int option \<Rightarrow> int option \<Rightarrow> nat \<Rightarrow> request_record list \<times> int option" where
  "list_requests_page db for_user before limit =
     (let rows = list_page db for_user before (limit + 1);
          page = take limit rows
      in (page, if length rows > limit \<and> page \<noteq> [] then Some (rr_id (last page)) else None))"

fun first_seen :: "'a list \<Rightarrow> 'a list" where
  "first_seen [] = []"
| "first_seen (x # xs) = x # first_seen (filter (\<lambda>y. y \<noteq> x) xs)"

definition fold_key :: "bool \<Rightarrow> request_record \<Rightarrow> int option \<times> int \<times> string" where
  "fold_key subscriber_scoped r =
     (if subscriber_scoped then None else rr_user_id r, rr_tmdb_id r, rr_media_type r)"

definition shown_of :: "request_record list \<Rightarrow> request_record" where
  "shown_of members = (case find (\<lambda>r. rr_status r \<notin> set SETTLED_REQUEST_STATUS_VALUES) members of
      Some r \<Rightarrow> r | None \<Rightarrow> last members)"

definition fold_requests_for_display :: "request_record list \<Rightarrow> bool \<Rightarrow> request_record list" where
  "fold_requests_for_display records subscriber_scoped =
     sort_by (\<lambda>a b. rr_id a \<le> rr_id b)
       (map (\<lambda>k. shown_of (filter (\<lambda>r. fold_key subscriber_scoped r = k) records))
         (first_seen (map (fold_key subscriber_scoped) records)))"

definition mark_no_acceptable_release_movie :: "int \<Rightarrow> bool app_op" where
  "mark_no_acceptable_release_movie rid =
     set_status_if_in_req rid ''no_acceptable_release'' PARKABLE_REQUEST_STATUS_VALUES False False"

definition mark_completed_movie :: "datetime \<Rightarrow> int \<Rightarrow> unit app_op" where
  "mark_completed_movie now rid = mark_completed_req now rid"

definition mark_available_movie :: "datetime \<Rightarrow> int \<Rightarrow> int option \<Rightarrow> bool app_op" where
  "mark_available_movie now rid expected_generation = mark_available_req now rid expected_generation"

definition pin_title :: "int \<Rightarrow> bool \<Rightarrow> int option \<Rightarrow> request_record option app_op" where
  "pin_title rid keep_forever restrict_to_user db = (case get_req db rid of
      None \<Rightarrow> Inr (None, db)
    | Some current \<Rightarrow>
        bind_op (set_keep_forever_for_title (rr_tmdb_id current) (rr_media_type current) keep_forever restrict_to_user)
          (\<lambda>_ db'. Inr (get_req db' rid, db')) db)"

section \<open>Pages\<close>

text \<open>The rows a user may see, newest first; following the cursors, each page read at its own moment.\<close>

definition visible_history :: "app_db \<Rightarrow> int option \<Rightarrow> request_row list" where
  "visible_history db uid = rev (by_req_id (filter (visible_to db uid) (a_requests db)))"

partial_function (option) walk_pages ::
  "(nat \<Rightarrow> app_db) \<Rightarrow> nat \<Rightarrow> int option \<Rightarrow> int option \<Rightarrow> nat \<Rightarrow> request_record list option" where
  "walk_pages dbs n uid before limit = (case list_requests_page (dbs n) uid before limit of
      (page, None) \<Rightarrow> Some page
    | (page, Some cursor) \<Rightarrow>
        Option.bind (walk_pages dbs (Suc n) uid (Some cursor) limit) (\<lambda>rest. Some (page @ rest)))"

definition older :: "int option \<Rightarrow> request_row list \<Rightarrow> request_row list" where
  "older before rows = filter (\<lambda>r. case before of None \<Rightarrow> True | Some b \<Rightarrow> q_id r < b) rows"

lemma filter_insort_sorted:
  assumes "\<And>x y z. le x y \<Longrightarrow> le y z \<Longrightarrow> le x z" "sorted_wrt le ys"
  shows "filter P (insort_by le x ys) = (if P x then insort_by le x (filter P ys) else filter P ys)"
  using assms(2)
proof (induction ys)
  case (Cons y ys)
  show ?case
  proof (cases "le x y \<and> P x \<and> \<not> P y")
    case True
    then have "\<forall>z \<in> set (filter P ys). le x z" using Cons.prems assms(1) by auto
    then have "insort_by le x (filter P ys) = x # filter P ys" by (cases "filter P ys") auto
    then show ?thesis using True by simp
  next
    case False
    then show ?thesis using Cons by auto
  qed
qed simp

lemma filter_by_req_id: "filter P (by_req_id rows) = by_req_id (filter P rows)"
proof (induction rows)
  case (Cons r rows)
  have "sorted_wrt (\<lambda>a b. q_id a \<le> q_id b) (by_req_id rows)"
    unfolding by_req_id_def by (rule sort_by_sorted) auto
  then show ?case
    using Cons filter_insort_sorted[of "\<lambda>a b. q_id a \<le> q_id b" "by_req_id rows" P r] by (simp add: by_req_id_def)
qed (simp add: by_req_id_def)

lemma list_page_older: "list_page db uid before k = map to_record_req (take k (older before (visible_history db uid)))"
  by (simp add: list_page_def older_def visible_history_def rev_filter[symmetric] filter_by_req_id conj_commute)

definition newest_first :: "request_row list \<Rightarrow> bool" where
  "newest_first rows \<longleftrightarrow> sorted_wrt (\<lambda>a b. q_id b < q_id a) rows"

lemma strict_ids: "sorted_wrt (\<lambda>a b. q_id a \<le> q_id b) rows \<Longrightarrow> distinct (map q_id rows) \<Longrightarrow> sorted_wrt (\<lambda>a b. q_id a < q_id b) rows"
  by (induction rows) (auto simp: order.strict_iff_order image_iff)

lemma visible_history_newest_first:
  assumes "app_inv db"
  shows "newest_first (visible_history db uid)"
proof -
  let ?rows = "by_req_id (filter (visible_to db uid) (a_requests db))"
  have dist: "distinct (map q_id ?rows)"
    using app_invD(1)[OF assms] mset_sort_by[of "\<lambda>a b. q_id a \<le> q_id b" "filter (visible_to db uid) (a_requests db)"]
    by (metis (no_types, lifting) by_req_id_def distinct_map_filter mset_eq_imp_distinct_iff mset_map)
  have "sorted_wrt (\<lambda>a b. q_id a \<le> q_id b) ?rows"
    unfolding by_req_id_def by (rule sort_by_sorted) auto
  then have "sorted_wrt (\<lambda>a b. q_id a < q_id b) ?rows"
    using dist by (rule strict_ids)
  then show ?thesis by (simp add: newest_first_def visible_history_def sorted_wrt_rev)
qed

text \<open>Below the last row of a page are exactly the rows after the page.\<close>

lemma older_last:
  assumes "newest_first rows" "0 < k" "k < length rows"
  shows "older (Some (q_id (last (take k rows)))) rows = drop k rows"
proof -
  define c where "c = q_id (last (take k rows))"
  have split: "newest_first (take k rows @ drop k rows)" using assms(1) by simp
  have ne: "take k rows \<noteq> []" using assms by (cases rows) auto
  have "\<not> q_id r < c" if "r \<in> set (take k rows)" for r
  proof -
    have "take k rows = butlast (take k rows) @ [last (take k rows)]" using ne by simp
    then have "newest_first (butlast (take k rows) @ [last (take k rows)])"
      using split by (simp add: newest_first_def sorted_wrt_append)
    moreover have "r \<in> set (butlast (take k rows)) \<or> r = last (take k rows)"
      using that \<open>take k rows = _\<close> by (metis UnE list.set(1) list.simps(15) set_append singletonD)
    ultimately show ?thesis by (auto simp: newest_first_def sorted_wrt_append c_def)
  qed
  moreover have "q_id r < c" if "r \<in> set (drop k rows)" for r
    using split[unfolded newest_first_def sorted_wrt_append] that last_in_set[OF ne] by (simp add: c_def)
  ultimately have "filter (\<lambda>r. q_id r < c) (take k rows @ drop k rows) = drop k rows"
    by (simp only: filter_append) (simp add: filter_id_conv filter_empty_conv)
  then show ?thesis by (simp add: older_def c_def)
qed

lemma older_older: "c' \<le> c \<Longrightarrow> older (Some c') (older (Some c) rows) = older (Some c') rows"
  by (auto simp: older_def intro: filter_cong)

lemma walk_pages_rest:
  assumes stable: "\<And>n. older (Some (latest + 1)) (visible_history (dbs n) uid) = history" and sorted: "newest_first history"
    and "0 < limit"
  shows "c \<le> latest + 1 \<Longrightarrow> walk_pages dbs n uid (Some c) limit = Some (map to_record_req (older (Some c) history))"
proof (induction "length (older (Some c) history)" arbitrary: c n rule: less_induct)
  case less
  let ?rest = "older (Some c) history"
  have here: "older (Some c) (visible_history (dbs n) uid) = ?rest"
    using older_older[OF less.prems, of "visible_history (dbs n) uid"] by (simp add: stable)
  have sorted_rest: "newest_first ?rest"
    using sorted by (simp add: newest_first_def older_def sorted_wrt_filter)
  show ?case
  proof (cases "limit < length ?rest")
    case False
    then show ?thesis
      by (subst walk_pages.simps) (simp add: list_requests_page_def list_page_older here Let_def)
  next
    case True
    let ?c = "q_id (last (take limit ?rest))"
    have ne: "take limit ?rest \<noteq> []" using True assms(3) by (cases ?rest) auto
    have "last (take limit ?rest) \<in> set ?rest" using last_in_set[OF ne] by (rule in_set_takeD)
    then have lt: "?c < c" by (simp add: older_def)
    have next_rows: "older (Some ?c) history = drop limit ?rest"
      using older_last[OF sorted_rest assms(3) True] older_older[of ?c c history] lt by simp
    have page: "list_requests_page (dbs n) uid (Some c) limit = (map to_record_req (take limit ?rest), Some ?c)"
      using True ne assms(3) by (simp add: list_requests_page_def list_page_older here Let_def min_def last_map take_map to_record_req_def)
    have "walk_pages dbs (Suc n) uid (Some ?c) limit = Some (map to_record_req (drop limit ?rest))"
      using less.hyps[of ?c "Suc n"] less.prems lt True assms(3) by (simp add: next_rows)
    then show ?thesis
      by (subst walk_pages.simps) (simp add: page flip: map_append)
  qed
qed

text \<open>
  C30: paging through the request history is complete and ends. A client that follows the cursors from the
  first page, with any page size of at least one, gets every request that was visible when it read the first
  page, newest first and exactly once, even if requests are added while it reads; a page past the last
  cursor is never asked for.
\<close>

theorem history_pages_complete:
  assumes "app_inv (dbs 0)" "0 < limit" and "\<forall>r \<in> set (visible_history (dbs 0) uid). q_id r \<le> latest"
    and "\<And>n. filter (\<lambda>r. q_id r \<le> latest) (visible_history (dbs n) uid) = visible_history (dbs 0) uid"
  shows "walk_pages dbs 0 uid None limit = Some (map to_record_req (visible_history (dbs 0) uid))"
proof -
  let ?h = "visible_history (dbs 0) uid"
  have sorted: "newest_first ?h" by (rule visible_history_newest_first[OF assms(1)])
  have stable: "older (Some (latest + 1)) (visible_history (dbs n) uid) = ?h" for n
    using assms(4)[of n] by (simp add: older_def zle_add1_eq_le)
  note rest = walk_pages_rest[OF stable sorted assms(2)]
  have none: "older None ?h = ?h" by (simp add: older_def)
  show ?thesis
  proof (cases "limit < length ?h")
    case False
    then show ?thesis
      by (subst walk_pages.simps) (simp add: list_requests_page_def list_page_older none Let_def)
  next
    case True
    let ?c = "q_id (last (take limit ?h))"
    have ne: "take limit ?h \<noteq> []" using True assms(2) by (cases ?h) auto
    have "last (take limit ?h) \<in> set ?h" using last_in_set[OF ne] by (rule in_set_takeD)
    then have "?c \<le> latest + 1" using assms(3) by fastforce
    moreover have "older (Some ?c) ?h = drop limit ?h" by (rule older_last[OF sorted assms(2) True])
    moreover have "list_requests_page (dbs 0) uid None limit = (map to_record_req (take limit ?h), Some ?c)"
      using True ne assms(2) by (simp add: list_requests_page_def list_page_older none Let_def min_def last_map take_map to_record_req_def)
    ultimately show ?thesis
      using rest[where c = ?c and n = "Suc 0"] by (subst walk_pages.simps) (simp flip: map_append)
  qed
qed

definition demo_history :: "nat \<Rightarrow> app_db" where
  "demo_history n = demo_db\<lparr>a_requests := map (\<lambda>i. new_request_row i (600 + i) Movie ''A Movie'' ''pending'' plain_request)
     (if n = 0 then [1, 2, 3] else [1, 2, 3, 4]), a_next_id := 5\<rparr>"

theorem history_pages_complete_witness:
  "walk_pages demo_history 0 None None 2 = Some (map to_record_req (visible_history (demo_history 0) None))"
proof (rule history_pages_complete[where latest = 3])
  have now: "filter (\<lambda>r. q_id r \<le> 3) (visible_history (demo_history 0) None) = visible_history (demo_history 0) None"
    and later: "filter (\<lambda>r. q_id r \<le> 3) (visible_history (demo_history 1) None) = visible_history (demo_history 0) None"
    by (simp_all add: demo_history_def visible_history_def visible_to_def by_req_id_def new_request_row_def)
  show "filter (\<lambda>r. q_id r \<le> 3) (visible_history (demo_history n) None) = visible_history (demo_history 0) None" for n
  proof (cases "n = 0")
    case False
    then have "demo_history n = demo_history 1" by (simp add: demo_history_def)
    then show ?thesis using later by (simp only:)
  qed (use now in simp)
qed (code_simp, simp, simp add: demo_history_def visible_history_def visible_to_def by_req_id_def new_request_row_def)

section \<open>The folded list\<close>

lemma set_first_seen [simp]: "set (first_seen xs) = set xs"
  by (induction xs rule: first_seen.induct) auto

lemma distinct_first_seen [simp]: "distinct (first_seen xs)"
  by (induction xs rule: first_seen.induct) auto

lemma settled_record: "rr_status (to_record_req r) \<in> set SETTLED_REQUEST_STATUS_VALUES \<longleftrightarrow> settled r"
  by (simp add: to_record_req_def settled_def SETTLED_REQUEST_STATUS_VALUES_def SETTLED_REQUEST_STATUSES_def)

lemma shown_of_rows:
  assumes "rows \<noteq> []"
  shows "shown_of (map to_record_req rows) = to_record_req (representative rows)"
proof -
  have "find (\<lambda>r. rr_status r \<notin> set SETTLED_REQUEST_STATUS_VALUES) (map to_record_req rows)
      = map_option to_record_req (find (\<lambda>r. \<not> settled r) rows)" for rows
    by (induction rows) (simp_all add: settled_record)
  then show ?thesis
    using assms by (auto simp: shown_of_def representative_def last_map split: option.splits)
qed

lemma fold_key_title: "fold_key True (to_record_req r) = (None, fst (title_key r), snd (title_key r))"
  by (simp add: fold_key_def to_record_req_def title_key_def)

lemma shown_in: "xs \<noteq> [] \<Longrightarrow> shown_of xs \<in> set xs"
  by (auto simp: shown_of_def find_Some_iff split: option.splits)

lemma shown_key: "k \<in> fold_key sc ` set records \<Longrightarrow> fold_key sc (shown_of (filter (\<lambda>r. fold_key sc r = k) records)) = k"
  using shown_in[of "filter (\<lambda>r. fold_key sc r = k) records"] by (auto simp: filter_empty_conv)

lemma fold_member:
  "r \<in> set (fold_requests_for_display records sc) \<and> fold_key sc r = k \<longleftrightarrow>
     k \<in> fold_key sc ` set records \<and> r = shown_of (filter (\<lambda>r. fold_key sc r = k) records)"
proof -
  have "r \<in> set (fold_requests_for_display records sc) \<longleftrightarrow>
      (\<exists>j \<in> fold_key sc ` set records. r = shown_of (filter (\<lambda>r. fold_key sc r = j) records))"
    by (auto simp: fold_requests_for_display_def)
  then show ?thesis using shown_key[of _ sc records] by metis
qed

lemma fold_keys_distinct: "distinct (map (fold_key sc) (fold_requests_for_display records sc))"
proof -
  let ?keys = "first_seen (map (fold_key sc) records)"
  let ?chosen = "map (\<lambda>k. shown_of (filter (\<lambda>r. fold_key sc r = k) records)) ?keys"
  have "fold_key sc (shown_of (filter (\<lambda>r. fold_key sc r = k) records)) = k" if "k \<in> set ?keys" for k
    using that by (simp add: shown_key)
  then have "map (fold_key sc) ?chosen = ?keys" unfolding map_map o_def by (rule map_idI)
  then have "distinct (map (fold_key sc) ?chosen)" by simp
  then show ?thesis
    unfolding fold_requests_for_display_def
    by (metis (no_types, lifting) mset_sort_by mset_eq_imp_distinct_iff mset_map)
qed

text \<open>
  C36: the folded request list and the status badges agree. For any user, the list that shows one row per
  title has exactly one row for every title the user has a visible request for, and that row carries the
  request id and the status the batched status lookup shows on the title's tile: the oldest request still
  in progress, or the newest one if all have settled.
\<close>

theorem folded_list_matches_tiles:
  assumes "list_for_user db u None = Inr records"
  shows "distinct (map (fold_key True) (fold_requests_for_display records True)) \<and>
    ((\<exists>r \<in> set (fold_requests_for_display records True). fold_key True r = (None, fst key, snd key)
        \<and> rr_id r = i \<and> rr_status r = st)
     \<longleftrightarrow> map_option (\<lambda>c. (cs_status c, cs_request_id c)) (compact_states_by_tmdb_ids db [key] (Some u) key) = Some (st, i))"
proof
  let ?rows = "by_req_id (filter (visible_to db (Some u)) (a_requests db))"
  let ?k = "(None, fst key, snd key)"
  let ?mine = "filter (\<lambda>r. title_key r = key) ?rows"
  have records: "records = map to_record_req ?rows"
    using assms by (simp add: list_for_user_def with_status_def)
  have members: "filter (\<lambda>r. fold_key True r = ?k) records = map to_record_req ?mine"
    by (auto simp: records filter_map o_def fold_key_title prod_eq_iff intro!: arg_cong[where f = "map to_record_req"] filter_cong)
  have shown: "(\<exists>r \<in> set (fold_requests_for_display records True). fold_key True r = ?k \<and> rr_id r = i \<and> rr_status r = st)
      \<longleftrightarrow> ?mine \<noteq> [] \<and> q_id (representative ?mine) = i \<and> q_status (representative ?mine) = st"
  proof -
    have "?k \<in> fold_key True ` set records \<longleftrightarrow> ?mine \<noteq> []"
      using arg_cong[OF members, of "\<lambda>xs. xs = []"] by (force simp: filter_empty_conv)
    moreover have "(\<exists>r \<in> set (fold_requests_for_display records True). fold_key True r = ?k \<and> rr_id r = i \<and> rr_status r = st)
        \<longleftrightarrow> ?k \<in> fold_key True ` set records \<and> (\<exists>r. r = shown_of (filter (\<lambda>r. fold_key True r = ?k) records)
              \<and> rr_id r = i \<and> rr_status r = st)"
      using fold_member[of _ records True ?k] by blast
    moreover have "?mine \<noteq> [] \<Longrightarrow> shown_of (filter (\<lambda>r. fold_key True r = ?k) records) = to_record_req (representative ?mine)"
      unfolding members by (rule shown_of_rows)
    moreover have "rr_id (to_record_req r) = q_id r" "rr_status (to_record_req r) = q_status r" for r
      by (simp_all add: to_record_req_def)
    ultimately show ?thesis by metis
  qed
  show "(\<exists>r \<in> set (fold_requests_for_display records True). fold_key True r = ?k \<and> rr_id r = i \<and> rr_status r = st)
     \<longleftrightarrow> map_option (\<lambda>c. (cs_status c, cs_request_id c)) (compact_states_by_tmdb_ids db [key] (Some u) key) = Some (st, i)"
    unfolding shown
    by (cases ?mine) (auto simp: compact_states_by_tmdb_ids_def rows_grouped_by_tmdb_ids_def Let_def)
qed (rule fold_keys_distinct)

definition demo_two_rows :: app_db where
  "demo_two_rows = demo_db\<lparr>a_requests := [new_request_row 1 603 Movie ''The Matrix'' ''available'' plain_request,
      new_request_row 2 603 Movie ''The Matrix'' ''searching'' plain_request],
     a_subscribers := [\<lparr>sb_request_id = 1, sb_user_id = 7, sb_subscribed_at = 1\<rparr>,
       \<lparr>sb_request_id = 2, sb_user_id = 7, sb_subscribed_at = 2\<rparr>], a_next_id := 3\<rparr>"

theorem folded_list_matches_tiles_witness:
  "\<exists>records. list_for_user demo_two_rows 7 None = Inr records \<and> length (fold_requests_for_display records True) = 1
     \<and> (\<exists>r \<in> set (fold_requests_for_display records True). rr_id r = 2 \<and> rr_status r = ''searching'')"
proof -
  have "\<not> isl (list_for_user demo_two_rows 7 None)" by code_simp
  then obtain records where run: "list_for_user demo_two_rows 7 None = Inr records"
    by (cases "list_for_user demo_two_rows 7 None") auto
  have "map_option (\<lambda>c. (cs_status c, cs_request_id c))
      (compact_states_by_tmdb_ids demo_two_rows [(603, ''movie'')] (Some 7) (603, ''movie'')) = Some (''searching'', 2)"
    by code_simp
  then have "\<exists>r \<in> set (fold_requests_for_display records True). rr_id r = 2 \<and> rr_status r = ''searching''"
    using folded_list_matches_tiles[OF run, of "(603, ''movie'')" 2 "''searching''"] by auto
  moreover have "map_sum id (\<lambda>rs. length (fold_requests_for_display rs True)) (list_for_user demo_two_rows 7 None) = Inr 1"
    by code_simp
  ultimately show ?thesis using run by auto
qed

section \<open>Pins\<close>

lemma pin_title_Inr:
  assumes "pin_title rid pin restrict db = Inr (Some r, db')" "app_inv db"
  shows "app_inv db'" and "\<exists>m. rr_media_type r = media_value m \<and> (\<forall>q \<in> set (a_requests db'). of_title (rr_tmdb_id r) m q
     \<and> (restrict = None \<or> q_user_id q = restrict) \<longrightarrow> q_keep_forever q = pin)"
proof -
  obtain q where q: "find_req db rid = Some q"
    using assms(1) by (cases "find_req db rid") (auto simp: pin_title_def get_req_def)
  let ?p = "\<lambda>r. of_title (q_tmdb_id q) (q_media_type q) r \<and> (case restrict of None \<Rightarrow> True | Some u \<Rightarrow> q_user_id r = Some u)"
  have set_pin: "set_keep_forever_for_title (q_tmdb_id q) (media_value (q_media_type q)) pin restrict db = Inr ((), db')"
    using assms(1) q by (auto simp: pin_title_def get_req_def to_record_req_def bind_op_Inr)
  show "app_inv db'" using steadyD[OF steady_keep_forever_for_title assms(2) set_pin] by (rule evolves_inv)
  have db': "db' = map_requests ?p (\<lambda>r. r\<lparr>q_keep_forever := pin\<rparr>) db"
    using set_pin by (auto simp: set_keep_forever_for_title_def bind_op_Inr)
  have "Some r = get_req db' rid" using assms(1) q by (auto simp: pin_title_def get_req_def bind_op_Inr)
  then have r: "rr_tmdb_id r = q_tmdb_id q" "rr_media_type r = media_value (q_media_type q)"
    using q by (simp_all add: db' get_req_def find_req_map to_record_req_def)
  have pinned: "q_keep_forever r' = pin"
    if "r' \<in> set (a_requests db')" "of_title (q_tmdb_id q) (q_media_type q) r'" "restrict = None \<or> q_user_id r' = restrict" for r'
  proof -
    have "r' \<in> (\<lambda>r0. if ?p r0 then r0\<lparr>q_keep_forever := pin\<rparr> else r0) ` set (a_requests db)"
      using that(1) unfolding db' map_requests_def by simp
    then obtain r0 where r0: "r' = (if ?p r0 then r0\<lparr>q_keep_forever := pin\<rparr> else r0)" by (rule imageE)
    then have "?p r0" using that(2,3) by (cases "?p r0") (auto simp: of_title_def split: option.splits)
    then show ?thesis using r0 by simp
  qed
  show "\<exists>m. rr_media_type r = media_value m \<and> (\<forall>q \<in> set (a_requests db'). of_title (rr_tmdb_id r) m q
     \<and> (restrict = None \<or> q_user_id q = restrict) \<longrightarrow> q_keep_forever q = pin)"
    unfolding r by (intro exI[of _ "q_media_type q"] conjI refl ballI impI) (simp add: pinned)
qed

lemma media_value_inj: "media_value m = media_value n \<Longrightarrow> m = n"
  by (cases m; cases n) (simp_all add: media_value_def)

text \<open>
  C28: pinning one request of a title protects the whole title from eviction. After an operator keeps a title
  forever through any of its requests, the compare-and-swap the eviction sweep uses changes no request of
  that title and no season of any of its requests, however many requests the title has had, whatever their
  statuses.
\<close>

theorem pin_protects_whole_title:
  assumes pin: "pin_title rid True None db = Inr (Some r, db')" and inv: "app_inv db"
    and row: "q \<in> set (a_requests db')" "q_tmdb_id q = rr_tmdb_id r" "media_value (q_media_type q) = rr_media_type r"
  shows "set_status_if_in_req (q_id q) target allowed True unlisted db' \<noteq> Inr (True, x)
    \<and> (z \<in> set (a_seasons db') \<and> z_media_request_id z = q_id q \<and> sg_parent_unpinned g \<longrightarrow>
        set_status_if_in_sea now (z_id z) target allowed g db' \<noteq> Inr (True, y))"
proof -
  note inv' = pin_title_Inr(1)[OF pin inv]
  have pinned: "q_keep_forever q"
    using pin_title_Inr(2)[OF pin inv] row media_value_inj by (fastforce simp: of_title_def)
  have no_row: "filter (\<lambda>r. q_id r = q_id q \<and> P r \<and> \<not> q_keep_forever r \<and> Q r) (a_requests db') = []" for P Q
    using request_id_inj[OF inv' _ row(1)] pinned by (auto simp: filter_empty_conv)
  have no_season: "filter (\<lambda>s. z_id s = z_id z \<and> P s \<and> guard_holds g db' s) (a_seasons db') = []"
    if "z \<in> set (a_seasons db')" "z_media_request_id z = q_id q" "sg_parent_unpinned g" for P
  proof -
    have "parent_pinned db' z" using that(2) row(1) pinned by (auto simp: parent_pinned_def list_ex_iff)
    then show ?thesis
      using season_id_inj[OF inv' _ that(1)] that(3) by (auto simp: filter_empty_conv guard_holds_def)
  qed
  show ?thesis
    using no_row no_season
    by (auto simp: set_status_if_in_req_def set_status_if_in_sea_def update_requests_def update_seasons_def app_flush_def
        split: if_splits)
qed

theorem pin_protects_whole_title_witness:
  "\<exists>r db'. pin_title 2 True None demo_two_rows = Inr (Some r, db')
     \<and> set_status_if_in_req 1 ''evicted'' [''available''] True False db' \<noteq> Inr (True, demo_db)"
proof -
  have "map_sum id (\<lambda>(r, db). (map_option (\<lambda>r. (rr_tmdb_id r, rr_media_type r)) r,
      map (\<lambda>q. (q_id q, q_tmdb_id q, media_value (q_media_type q))) (a_requests db))) (pin_title 2 True None demo_two_rows)
      = Inr (Some (603, ''movie''), [(1, 603, ''movie''), (2, 603, ''movie'')])" and inv: "app_inv demo_two_rows"
    by code_simp+
  then obtain r db' q where run: "pin_title 2 True None demo_two_rows = Inr (Some r, db')"
    and row: "q \<in> set (a_requests db')" "q_tmdb_id q = rr_tmdb_id r" "media_value (q_media_type q) = rr_media_type r" "q_id q = 1"
    by (cases "pin_title 2 True None demo_two_rows") (fastforce simp: map_eq_Cons_conv)+
  show ?thesis
    using pin_protects_whole_title[OF run inv row(1-3)] run row(4) by metis
qed

end
