(* ===== verification/Paths.thy ===== *)
theory Paths
  imports PlexVideo "HOL-Library.Sublist"
begin

text \<open>
  POSIX paths as text: \<open>os.path.normpath\<close>, \<open>os.path.abspath\<close> and the containment tests built on
  \<open>startswith(other + os.sep)\<close>. The working directory is an argument. The tests on text are related to
  the lists of components of the paths, which is what containment of directories means. Then the library
  roots (\<open>services/library_roots.py\<close>): the deepest configured root above a path, and the owner test of a
  sweep (\<open>eviction_service._owned_by_root\<close>).
\<close>

section \<open>Components of a path\<close>

abbreviation slash :: char where "slash \<equiv> CHR ''/''"

abbreviation path_split :: "string \<Rightarrow> string list" where
  "path_split \<equiv> split_on slash"

fun join_on :: "char \<Rightarrow> string list \<Rightarrow> string" where
  "join_on sep [] = []"
| "join_on sep [w] = w"
| "join_on sep (w # v # ws) = w @ sep # join_on sep (v # ws)"

definition initial_slashes :: "string \<Rightarrow> nat" where
  "initial_slashes s = (if prefix ''//'' s \<and> \<not> prefix ''///'' s then 2 else if prefix ''/'' s then 1 else 0)"

definition norm_step :: "bool \<Rightarrow> string list \<Rightarrow> string \<Rightarrow> string list" where
  "norm_step rooted comps w =
     (if w = [] \<or> w = ''.'' then comps
      else if w \<noteq> ''..'' \<or> (\<not> rooted \<and> comps = []) \<or> (comps \<noteq> [] \<and> last comps = ''..'') then comps @ [w]
      else butlast comps)"

definition norm_comps :: "bool \<Rightarrow> string list \<Rightarrow> string list" where
  "norm_comps rooted ws = foldl (norm_step rooted) [] ws"

definition render_path :: "nat \<Rightarrow> string list \<Rightarrow> string" where
  "render_path n comps = (let s = replicate n slash @ join_on slash comps in if s = [] then ''.'' else s)"

definition normpath :: "string \<Rightarrow> string" where
  "normpath s = (let n = initial_slashes s in
     if s = [] then ''.'' else render_path n (norm_comps (0 < n) (path_split s)))"

definition os_path_join :: "string \<Rightarrow> string \<Rightarrow> string" where
  "os_path_join a b = (if prefix ''/'' b then b else if a = [] \<or> last a = slash then a @ b else a @ slash # b)"

definition abspath :: "string \<Rightarrow> string \<Rightarrow> string" where
  "abspath cwd s = normpath (if prefix ''/'' s then s else os_path_join cwd s)"

section \<open>Splitting and joining\<close>

lemma split_on_nonempty [simp]: "split_on sep s \<noteq> []"
  by (induction s) (auto split: list.split)

lemma split_on_append: "split_on sep (a @ sep # b) = split_on sep a @ split_on sep b"
  by (induction a) (auto split: list.split)

lemma split_on_parts: "w \<in> set (split_on sep s) \<Longrightarrow> sep \<notin> set w"
  by (induction s arbitrary: w) (auto split: list.splits if_splits)

lemma join_on_append:
  "xs \<noteq> [] \<Longrightarrow> ys \<noteq> [] \<Longrightarrow> join_on sep (xs @ ys) = join_on sep xs @ sep # join_on sep ys"
  by (induction sep xs rule: join_on.induct) (auto simp: neq_Nil_conv)

lemma join_on_Cons_char: "join_on sep ((c # w) # ws) = c # join_on sep (w # ws)"
  by (cases ws) auto

lemma join_on_split [simp]: "join_on sep (split_on sep s) = s"
proof (induction s)
  case (Cons c s)
  obtain w ws where s: "split_on sep s = w # ws" by (meson split_on_nonempty neq_Nil_conv)
  show ?case using Cons.IH s by (cases "c = sep") (auto simp: join_on_Cons_char)
qed simp

lemma split_on_inject: "split_on sep a = split_on sep b \<longleftrightarrow> a = b"
  by (metis join_on_split)

lemma split_on_free: "sep \<notin> set w \<Longrightarrow> split_on sep w = [w]"
  by (induction w) auto

lemma split_on_join:
  "ws \<noteq> [] \<Longrightarrow> \<forall>w \<in> set ws. sep \<notin> set w \<Longrightarrow> split_on sep (join_on sep ws) = ws"
  by (induction sep ws rule: join_on.induct) (auto simp: split_on_free split_on_append)

lemma split_on_char_first: "split_on sep (sep # s) = [] # split_on sep s"
  by simp

lemma split_on_leading:
  "split_on sep (replicate n sep @ s) = replicate n [] @ split_on sep s"
  by (induction n) auto

lemma length_split_on: "length (split_on sep s) = Suc (count_list s sep)"
  by (induction s) (auto split: list.splits simp: Suc_length_conv)

text \<open>The textual test is containment of the component lists, whatever the two strings.\<close>

lemma prefix_sep_iff: "prefix (a @ [sep]) s \<longleftrightarrow> strict_prefix (split_on sep a) (split_on sep s)"
proof
  assume "prefix (a @ [sep]) s"
  then obtain b where "s = a @ sep # b" by (auto simp: prefix_def)
  then show "strict_prefix (split_on sep a) (split_on sep s)"
    by (auto simp: split_on_append strict_prefix_def prefix_def)
next
  assume "strict_prefix (split_on sep a) (split_on sep s)"
  then obtain z zs where "split_on sep s = split_on sep a @ z # zs" by (rule strict_prefixE')
  then have "s = join_on sep (split_on sep a @ z # zs)" by (metis join_on_split)
  then show "prefix (a @ [sep]) s" by (simp add: join_on_append prefix_def)
qed

section \<open>Containment\<close>

text \<open>\<open>inside outer p\<close>: the components of \<open>outer\<close> begin those of \<open>p\<close>.\<close>

definition inside :: "string \<Rightarrow> string \<Rightarrow> bool" where
  "inside outer p \<longleftrightarrow> prefix (path_split outer) (path_split p)"

lemma inside_text: "inside outer p \<longleftrightarrow> p = outer \<or> prefix (outer @ ''/'') p"
  unfolding inside_def prefix_sep_iff strict_prefix_def split_on_inject by (auto simp: split_on_inject)

lemma inside_refl [simp]: "inside p p" by (simp add: inside_def)

lemma inside_trans: "inside a b \<Longrightarrow> inside b c \<Longrightarrow> inside a c"
  unfolding inside_def by (rule prefix_order.trans)

lemma inside_same_depth:
  "inside a p \<Longrightarrow> inside b p \<Longrightarrow> count_list a slash = count_list b slash \<Longrightarrow> a = b"
  unfolding inside_def prefix_def by (metis append_eq_append_conv length_split_on split_on_inject)

section \<open>Normal forms\<close>

text \<open>
  A component list is reduced when it holds no empty component, no \<open>.\<close>, and \<open>..\<close> only as a leading
  run, and not even there under a root.
\<close>

definition plain_comp :: "string \<Rightarrow> bool" where
  "plain_comp w \<longleftrightarrow> w \<noteq> [] \<and> w \<noteq> ''.'' \<and> slash \<notin> set w"

definition reduced :: "bool \<Rightarrow> string list \<Rightarrow> bool" where
  "reduced rooted comps \<longleftrightarrow> (\<forall>w \<in> set comps. plain_comp w)
     \<and> (\<exists>k ws. comps = replicate k ''..'' @ ws \<and> ''..'' \<notin> set ws \<and> (rooted \<longrightarrow> k = 0))"

lemma reduced_Nil [simp]: "reduced rooted []"
  by (auto simp: reduced_def)

lemma reduced_snoc:
  assumes s: "reduced rooted comps" and w: "plain_comp w"
    and ok: "w \<noteq> ''..'' \<or> (\<not> rooted \<and> comps = []) \<or> (comps \<noteq> [] \<and> last comps = ''..'')"
  shows "reduced rooted (comps @ [w])"
proof -
  obtain k ws where c: "comps = replicate k ''..'' @ ws" "''..'' \<notin> set ws" "rooted \<longrightarrow> k = 0"
    and p: "\<forall>w \<in> set comps. plain_comp w" using s by (auto simp: reduced_def)
  show ?thesis
  proof (cases "w = ''..''")
    case True
    have ws: "ws = []" using ok c True by (cases ws rule: rev_cases) auto
    then have "comps @ [w] = replicate (Suc k) ''..'' @ []" using c True by (simp add: replicate_append_same)
    moreover have "\<not> rooted" using ok c ws True by (cases k) auto
    ultimately show ?thesis using p w unfolding reduced_def by (metis UnE empty_iff empty_set set_ConsD set_append)
  next
    case False
    then have "comps @ [w] = replicate k ''..'' @ (ws @ [w])" "''..'' \<notin> set (ws @ [w])" using c by auto
    then show ?thesis using p w c(3) unfolding reduced_def by (metis UnE empty_iff empty_set set_ConsD set_append)
  qed
qed

lemma reduced_butlast:
  assumes s: "reduced rooted comps" and l: "\<not> (comps \<noteq> [] \<and> last comps = ''..'')"
  shows "reduced rooted (butlast comps)"
proof -
  obtain k ws where c: "comps = replicate k ''..'' @ ws" "''..'' \<notin> set ws" "rooted \<longrightarrow> k = 0"
    and p: "\<forall>w \<in> set comps. plain_comp w" using s by (auto simp: reduced_def)
  show ?thesis
  proof (cases ws rule: rev_cases)
    case Nil
    then have "comps = []" using c l by (cases k) (auto simp: replicate_append_same[symmetric])
    then show ?thesis by simp
  next
    case (snoc vs v)
    then have "butlast comps = replicate k ''..'' @ vs" "''..'' \<notin> set vs" using c by (auto simp: butlast_append)
    then show ?thesis using p c(3) unfolding reduced_def by (metis in_set_butlastD)
  qed
qed

lemma reduced_step: "reduced rooted comps \<Longrightarrow> slash \<notin> set w \<Longrightarrow> reduced rooted (norm_step rooted comps w)"
  unfolding norm_step_def by (auto intro!: reduced_snoc reduced_butlast simp: plain_comp_def)

lemma reduced_comps: "\<forall>w \<in> set ws. slash \<notin> set w \<Longrightarrow> reduced rooted (norm_comps rooted ws)"
proof -
  have "reduced rooted acc \<Longrightarrow> \<forall>w \<in> set ws. slash \<notin> set w \<Longrightarrow> reduced rooted (foldl (norm_step rooted) acc ws)" for acc
    by (induction ws arbitrary: acc) (auto intro: reduced_step)
  then show "\<forall>w \<in> set ws. slash \<notin> set w \<Longrightarrow> reduced rooted (norm_comps rooted ws)"
    by (simp add: norm_comps_def)
qed

lemma foldl_reduced:
  assumes "reduced rooted (acc @ ws)"
  shows "foldl (norm_step rooted) acc ws = acc @ ws"
  using assms
proof (induction ws arbitrary: acc)
  case (Cons w ws)
  obtain k vs where c: "acc @ w # ws = replicate k ''..'' @ vs" "''..'' \<notin> set vs" "rooted \<longrightarrow> k = 0"
    and p: "\<forall>w \<in> set (acc @ w # ws). plain_comp w" using Cons.prems unfolding reduced_def by blast
  have up: "w = ''..'' \<Longrightarrow> (\<not> rooted \<and> acc = []) \<or> (acc \<noteq> [] \<and> last acc = ''..'')"
  proof -
    assume w: "w = ''..''"
    have lt: "length acc < k"
    proof (rule ccontr)
      assume "\<not> length acc < k"
      then have "(replicate k ''..'' @ vs) ! length acc \<in> set vs"
        using c(1) by (metis length_append length_replicate length_Cons nth_append nth_mem not_less add_less_cancel_left
            le_add_diff_inverse less_add_Suc1 add_Suc_right)
      then show False using c(1,2) w by (metis nth_append_length)
    qed
    show "(\<not> rooted \<and> acc = []) \<or> (acc \<noteq> [] \<and> last acc = ''..'')"
    proof (cases acc rule: rev_cases)
      case Nil then show ?thesis using lt c(3) by auto
    next
      case (snoc a x)
      have "(acc @ w # ws) ! length a = x" unfolding snoc by simp
      moreover have "(replicate k ''..'' @ vs) ! length a = ''..''" using lt snoc by (simp add: nth_append)
      ultimately show ?thesis using snoc by (metis c(1) last_snoc snoc_eq_iff_butlast)
    qed
  qed
  have "norm_step rooted acc w = acc @ [w]" using p up unfolding norm_step_def plain_comp_def by auto
  then show ?case using Cons by simp
qed simp

lemma norm_comps_reduced: "reduced rooted comps \<Longrightarrow> norm_comps rooted comps = comps"
  using foldl_reduced[of rooted "[]"] by (simp add: norm_comps_def)

lemma norm_comps_blank: "norm_comps rooted (replicate k [] @ ws) = norm_comps rooted ws"
  by (induction k) (auto simp: norm_comps_def norm_step_def)

lemma comps_plain: "w \<in> set (norm_comps rooted (path_split s)) \<Longrightarrow> plain_comp w"
  using reduced_comps[of "path_split s" rooted] by (auto simp: reduced_def split_on_parts)

lemma join_on_first:
  "join_on slash (w # ws) = w @ (if ws = [] then [] else slash # join_on slash ws)"
  by (cases ws) auto

lemma initial_slashes_render:
  assumes n: "n = 0 \<or> n = 1 \<or> n = 2" and p: "\<forall>w \<in> set comps. plain_comp w"
  shows "initial_slashes (render_path n comps) = n"
proof (cases comps)
  case Nil
  show ?thesis using n by (auto simp: Nil render_path_def initial_slashes_def numeral_2_eq_2)
next
  case (Cons w ws)
  then obtain c v where w: "w = c # v" "c \<noteq> slash" using p by (cases w) (auto simp: plain_comp_def)
  show ?thesis using n
    by (auto simp: Cons w join_on_first render_path_def initial_slashes_def numeral_2_eq_2)
qed

lemma split_render:
  assumes "\<forall>w \<in> set comps. plain_comp w" "comps \<noteq> []"
  shows "path_split (render_path n comps) = replicate n [] @ comps"
proof -
  have "join_on slash comps \<noteq> []" using assms by (cases comps) (auto simp: join_on_first plain_comp_def)
  then show ?thesis using assms
    by (simp add: render_path_def split_on_leading split_on_join plain_comp_def)
qed

lemma norm_comps_render:
  assumes s: "reduced (0 < n) comps"
  shows "norm_comps (0 < n) (path_split (render_path n comps)) = comps"
proof (cases "comps = []")
  case True
  have "path_split (replicate n slash) = replicate (Suc n) []"
    using split_on_leading[of slash n "[]"] by (simp add: replicate_append_same)
  then show ?thesis using True norm_comps_blank[of "0 < n" "Suc n" "[]"]
    by (cases n) (auto simp: render_path_def norm_comps_def norm_step_def)
next
  case False
  have "\<forall>w \<in> set comps. plain_comp w" using s by (simp add: reduced_def)
  then show ?thesis using False s by (simp add: split_render norm_comps_blank norm_comps_reduced)
qed

lemma render_nonempty: "render_path n comps \<noteq> []"
  by (simp add: render_path_def Let_def)

lemma initial_slashes_cases: "initial_slashes s = 0 \<or> initial_slashes s = 1 \<or> initial_slashes s = 2"
  by (simp add: initial_slashes_def)

lemma normpath_alt:
  "s \<noteq> [] \<Longrightarrow> normpath s = render_path (initial_slashes s) (norm_comps (0 < initial_slashes s) (path_split s))"
  by (simp add: normpath_def Let_def)

lemma normpath_nonempty [simp]: "normpath s \<noteq> []"
  by (simp add: normpath_def Let_def render_nonempty)

lemma initial_slashes_normpath: "s \<noteq> [] \<Longrightarrow> initial_slashes (normpath s) = initial_slashes s"
  unfolding normpath_alt
  by (rule initial_slashes_render) (use initial_slashes_cases comps_plain in auto)

lemma normpath_idem [simp]: "normpath (normpath s) = normpath s"
proof (cases "s = []")
  case True
  have "normpath (normpath []) = normpath []" by code_simp
  then show ?thesis using True by simp
next
  case False
  let ?n = "initial_slashes s"
  let ?c = "norm_comps (0 < ?n) (path_split s)"
  have "reduced (0 < ?n) ?c" by (rule reduced_comps) (simp add: split_on_parts)
  then show ?thesis
    using False initial_slashes_normpath[OF False] normpath_alt[OF normpath_nonempty[of s]] normpath_alt[OF False]
    by (simp add: norm_comps_render)
qed

lemma prefix_slash: "prefix ''/'' s \<longleftrightarrow> 0 < initial_slashes s"
  by (cases s) (auto simp: initial_slashes_def)

lemma normpath_rooted: "prefix ''/'' s \<Longrightarrow> prefix ''/'' (normpath s)"
  by (cases "s = []") (auto simp: prefix_slash initial_slashes_normpath)

lemma abspath_rooted: "prefix ''/'' s \<Longrightarrow> abspath cwd s = normpath s"
  by (simp add: abspath_def)

section \<open>Library roots\<close>

record LibraryRoots =
  lr_movies :: "string option"
  lr_tv :: "string option"
  lr_anime_movie :: "string option"
  lr_anime_tv :: "string option"

definition blank_to_none :: "string option \<Rightarrow> string option" where
  "blank_to_none v = (case v of Some s \<Rightarrow> if py_strip s = [] then None else Some s | None \<Rightarrow> None)"

definition library_roots :: "string option \<Rightarrow> string option \<Rightarrow> string option \<Rightarrow> string option \<Rightarrow> LibraryRoots" where
  "library_roots movies tv anime_movie anime_tv = \<lparr>lr_movies = blank_to_none movies, lr_tv = blank_to_none tv,
     lr_anime_movie = blank_to_none anime_movie, lr_anime_tv = blank_to_none anime_tv\<rparr>"

definition configured :: "LibraryRoots \<Rightarrow> string list" where
  "configured rs = filter (\<lambda>r. r \<noteq> [])
     (List.map_filter id [lr_movies rs, lr_tv rs, lr_anime_movie rs, lr_anime_tv rs])"

definition truthy_root :: "string option \<Rightarrow> bool" where
  "truthy_root v = (case v of Some s \<Rightarrow> s \<noteq> [] | None \<Rightarrow> False)"

definition fallback_for :: "LibraryRoots \<Rightarrow> string \<Rightarrow> bool \<Rightarrow> string option" where
  "fallback_for rs media_type is_anime =
     (if media_type = ''movie'' then (if is_anime \<and> truthy_root (lr_anime_movie rs) then lr_anime_movie rs else lr_movies rs)
      else (if is_anime \<and> truthy_root (lr_anime_tv rs) then lr_anime_tv rs else lr_tv rs))"

text \<open>The loop over the roots, with \<open>best\<close> and \<open>best_depth\<close> as one optional pair.\<close>

definition root_contains :: "string \<Rightarrow> string \<Rightarrow> bool" where
  "root_contains root_norm candidate =
     (if root_norm = ''/'' then prefix ''/'' candidate
      else candidate = root_norm \<or> prefix (root_norm @ ''/'') candidate)"

definition root_depth :: "string \<Rightarrow> nat" where
  "root_depth root_norm = (if root_norm = ''/'' then 0 else count_list root_norm slash)"

fun deepest_loop :: "string \<Rightarrow> (string \<times> nat) option \<Rightarrow> string list \<Rightarrow> (string \<times> nat) option" where
  "deepest_loop candidate best [] = best"
| "deepest_loop candidate best (r # roots) =
     (if r = [] \<or> py_strip r = [] then deepest_loop candidate best roots
      else let root_norm = normpath r in
        if \<not> root_contains root_norm candidate then deepest_loop candidate best roots
        else if (case best of None \<Rightarrow> True | Some (b, d) \<Rightarrow> d < root_depth root_norm)
          then deepest_loop candidate (Some (r, root_depth root_norm)) roots
          else deepest_loop candidate best roots)"

definition deepest_containing_root :: "string \<Rightarrow> string list \<Rightarrow> string option" where
  "deepest_containing_root path roots =
     (if path = [] then None else map_option fst (deepest_loop (normpath path) None roots))"

definition owned_by_root :: "string option \<Rightarrow> string \<Rightarrow> string list \<Rightarrow> bool" where
  "owned_by_root library_path root_path all_roots = (case library_path of None \<Rightarrow> False
     | Some p \<Rightarrow> (let scope = (if root_path \<in> set all_roots then all_roots else all_roots @ [root_path])
                  in deepest_containing_root p scope = Some root_path))"

subsection \<open>The owner of a path\<close>

definition claims_path :: "string \<Rightarrow> string \<Rightarrow> bool" where
  "claims_path path r \<longleftrightarrow> r \<noteq> [] \<and> py_strip r \<noteq> [] \<and> root_contains (normpath r) (normpath path)"

definition root_rank :: "string \<Rightarrow> nat" where
  "root_rank r = root_depth (normpath r)"

lemma root_contains_deeper:
  assumes a: "root_contains a c" and b: "root_contains b c" and d: "root_depth a \<le> root_depth b" and ne: "b \<noteq> []"
  shows "root_contains a b"
proof (cases "a = ''/''")
  case True
  show ?thesis
  proof (cases "b = ''/''")
    case False
    then have "prefix b c" using b by (auto simp: root_contains_def prefix_def)
    then show ?thesis using a True ne by (cases b; cases c) (auto simp: root_contains_def)
  qed (use True in \<open>simp add: root_contains_def\<close>)
next
  case False
  have ia: "inside a c" using a False by (simp add: root_contains_def inside_text)
  show ?thesis
  proof (cases "b = ''/''")
    case True
    then have "count_list a slash = 0" using d False by (simp add: root_depth_def)
    then have "slash \<notin> set a" by (simp add: count_list_0_iff)
    moreover have "prefix ''/'' c" using b True by (simp add: root_contains_def)
    ultimately have "a = []" using a False by (cases a; cases c) (auto simp: root_contains_def)
    then show ?thesis using True by (simp add: root_contains_def)
  next
    case f: False
    have ib: "inside b c" using b f by (simp add: root_contains_def inside_text)
    have "length (path_split a) \<le> length (path_split b)" using d False f by (simp add: root_depth_def length_split_on)
    then have "inside a b" using ia ib unfolding inside_def by (metis prefix_length_prefix)
    then show ?thesis using False by (simp add: root_contains_def inside_text)
  qed
qed

lemma deepest_loop_step:
  "deepest_loop (normpath path) best (r # roots) = deepest_loop (normpath path)
     (if claims_path path r \<and> (case best of None \<Rightarrow> True | Some (b, d) \<Rightarrow> d < root_rank r)
      then Some (r, root_rank r) else best) roots"
  unfolding root_rank_def deepest_loop.simps(2) claims_path_def Let_def by simp

lemma deepest_loop_first_max:
  assumes "deepest_loop (normpath path) best roots = Some (r, d)"
    and "\<forall>b e. best = Some (b, e) \<longrightarrow> e = root_rank b"
  shows "d = root_rank r \<and> (best = Some (r, d) \<or> r \<in> set roots \<and> claims_path path r)
    \<and> (\<forall>b e. best = Some (b, e) \<longrightarrow> e \<le> d)
    \<and> (\<forall>q \<in> set roots. claims_path path q \<longrightarrow> root_rank q \<le> d)"
  using assms
proof (induction roots arbitrary: best)
  case (Cons q roots)
  note st = deepest_loop_step[of path best q roots]
  let ?take = "claims_path path q \<and> (case best of None \<Rightarrow> True | Some (b, d) \<Rightarrow> d < root_rank q)"
  show ?case
  proof (cases ?take)
    case True
    have "deepest_loop (normpath path) (Some (q, root_rank q)) roots = Some (r, d)"
      using Cons.prems(1) unfolding st if_P[OF True] .
    from Cons.IH[OF this] True show ?thesis by (auto split: option.splits prod.splits)
  next
    case False
    have "deepest_loop (normpath path) best roots = Some (r, d)" using Cons.prems(1) unfolding st if_not_P[OF False] .
    from Cons.IH[OF this Cons.prems(2)] False show ?thesis by (fastforce split: option.splits prod.splits)
  qed
qed auto

lemma deepest_loop_none:
  "deepest_loop (normpath path) best roots = None \<longleftrightarrow> best = None \<and> (\<forall>q \<in> set roots. \<not> claims_path path q)"
proof (induction roots arbitrary: best)
  case (Cons q roots)
  show ?case unfolding deepest_loop_step Cons.IH by (auto split: option.splits)
qed auto

lemma deepest_none_iff:
  "deepest_containing_root path roots = None \<longleftrightarrow> path = [] \<or> (\<forall>q \<in> set roots. \<not> claims_path path q)"
  by (simp add: deepest_containing_root_def deepest_loop_none)

lemma deepest_some:
  assumes "deepest_containing_root path roots = Some r"
  shows "r \<in> set roots" "claims_path path r"
    and "\<And>q. q \<in> set roots \<Longrightarrow> claims_path path q \<Longrightarrow> root_contains (normpath q) (normpath r)"
proof -
  obtain d where l: "deepest_loop (normpath path) None roots = Some (r, d)"
    using assms by (auto simp: deepest_containing_root_def split: if_splits)
  have m: "d = root_rank r \<and> r \<in> set roots \<and> claims_path path r
      \<and> (\<forall>q \<in> set roots. claims_path path q \<longrightarrow> root_rank q \<le> d)"
    using deepest_loop_first_max[OF l] by blast
  then have f: "d = root_rank r" "r \<in> set roots" "claims_path path r"
    "\<And>q. q \<in> set roots \<Longrightarrow> claims_path path q \<Longrightarrow> root_rank q \<le> d" by blast+
  show "r \<in> set roots" "claims_path path r" using f by auto
  fix q assume q: "q \<in> set roots" "claims_path path q"
  show "root_contains (normpath q) (normpath r)"
  proof (rule root_contains_deeper)
    show "root_contains (normpath q) (normpath path)" "root_contains (normpath r) (normpath path)"
      using f(3) q(2) by (auto simp: claims_path_def)
    show "root_depth (normpath q) \<le> root_depth (normpath r)" using f(1) f(4)[OF q] by (simp add: root_rank_def)
  qed simp
qed

lemma deepest_normpath: "p \<noteq> [] \<Longrightarrow> deepest_containing_root (normpath p) roots = deepest_containing_root p roots"
  by (simp add: deepest_containing_root_def)

lemma owned_by_root_normpath: "p \<noteq> [] \<Longrightarrow> owned_by_root (Some (normpath p)) r roots = owned_by_root (Some p) r roots"
  by (simp add: owned_by_root_def deepest_normpath)

text \<open>
  With nested library roots every path has one owner: when some configured root contains the path,
  exactly one root of the configuration owns it, that root contains the path, and it lies inside every
  other configured root that contains the path; when no root contains the path nothing owns it. So two
  per-root sweeps never share a candidate, and a nested mount is never swept under its parent's pressure.
\<close>

theorem one_owner_per_path:
  "(if p \<noteq> [] \<and> (\<exists>r \<in> set roots. claims_path p r) then \<exists>!r. r \<in> set roots \<and> owned_by_root (Some p) r roots
    else \<nexists>r. r \<in> set roots \<and> owned_by_root (Some p) r roots)
   \<and> (\<forall>r \<in> set roots. owned_by_root (Some p) r roots \<longrightarrow> claims_path p r
        \<and> (\<forall>q \<in> set roots. claims_path p q \<longrightarrow> root_contains (normpath q) (normpath r)))"
proof -
  have own: "owned_by_root (Some p) r roots \<longleftrightarrow> deepest_containing_root p roots = Some r" if "r \<in> set roots" for r
    using that by (simp add: owned_by_root_def)
  have "\<exists>!r. r \<in> set roots \<and> owned_by_root (Some p) r roots" if ne: "p \<noteq> []" "\<exists>r \<in> set roots. claims_path p r"
  proof -
    obtain r where r: "deepest_containing_root p roots = Some r" using ne deepest_none_iff[of p roots]
      by (cases "deepest_containing_root p roots") auto
    show ?thesis by (rule ex1I[of _ r]) (use r own deepest_some(1)[OF r] in auto)
  qed
  moreover have "\<nexists>r. r \<in> set roots \<and> owned_by_root (Some p) r roots"
    if "\<not> (p \<noteq> [] \<and> (\<exists>r \<in> set roots. claims_path p r))"
    using that own deepest_none_iff[of p roots] by auto
  moreover have "\<forall>r \<in> set roots. owned_by_root (Some p) r roots \<longrightarrow> claims_path p r
        \<and> (\<forall>q \<in> set roots. claims_path p q \<longrightarrow> root_contains (normpath q) (normpath r))"
  proof (intro ballI impI)
    fix r assume "r \<in> set roots" "owned_by_root (Some p) r roots"
    then have r: "deepest_containing_root p roots = Some r" using own by simp
    show "claims_path p r \<and> (\<forall>q \<in> set roots. claims_path p q \<longrightarrow> root_contains (normpath q) (normpath r))"
      using deepest_some(2,3)[OF r] by simp
  qed
  ultimately show ?thesis by simp
qed

theorem one_owner_per_path_witness:
  "owned_by_root (Some ''/media/movies/anime/X'') ''/media/movies/anime/'' [''/media/movies'', ''/media/movies/anime/'', '' '']
   \<and> \<not> owned_by_root (Some ''/media/movies/anime/X'') ''/media/movies'' [''/media/movies'', ''/media/movies/anime/'', '' '']"
proof -
  have o: "owned_by_root (Some ''/media/movies/anime/X'') ''/media/movies/anime/''
      [''/media/movies'', ''/media/movies/anime/'', '' '']"
    by code_simp
  have c: "claims_path ''/media/movies/anime/X'' ''/media/movies/anime/''" by code_simp
  show ?thesis
    using one_owner_per_path[of "''/media/movies/anime/X''" "[''/media/movies'', ''/media/movies/anime/'', '' '']"] o c
    by auto
qed

end
