(* ===== verification/PurgeGuards.thy ===== *)
theory PurgeGuards
  imports Paths "HOL-Library.AList"
begin

text \<open>
  The in-process path guards of \<open>services/purge_service.py\<close>: the two reference-counted registries that
  keep library deletes and import placements apart, and the root-scoped leases of the disk-pressure
  sweep. A registry is the dictionary of the code, an association list in insertion order; the working
  directory \<open>cwd\<close> of the process is an argument. The counting of a registry is an interface of its own
  (locale \<open>refcounts\<close>): what a registry promises, and that it then counts the actors that hold a path.
\<close>

section \<open>Registries\<close>

type_synonym registry = "(string \<times> nat) list"

definition normalize_guard_path :: "string \<Rightarrow> string \<Rightarrow> string" where
  "normalize_guard_path cwd path = abspath cwd (normpath path)"

definition registry_get :: "registry \<Rightarrow> string \<Rightarrow> nat" where
  "registry_get registry k = (case map_of registry k of None \<Rightarrow> 0 | Some n \<Rightarrow> n)"

definition conflicts_with :: "string \<Rightarrow> string \<Rightarrow> registry \<Rightarrow> bool" where
  "conflicts_with cwd path registry = (let norm = normalize_guard_path cwd path in
     list_ex (\<lambda>other. norm = other \<or> prefix (other @ ''/'') norm \<or> prefix (norm @ ''/'') other) (map fst registry))"

definition register_path :: "string \<Rightarrow> string \<Rightarrow> registry \<Rightarrow> registry" where
  "register_path cwd path registry = (let norm = normalize_guard_path cwd path in
     AList.update norm (registry_get registry norm + 1) registry)"

definition unregister_path :: "string \<Rightarrow> string \<Rightarrow> registry \<Rightarrow> registry" where
  "unregister_path cwd path registry = (let norm = normalize_guard_path cwd path;
       remaining = int (registry_get registry norm) - 1
     in if remaining > 0 then AList.update norm (nat remaining) registry else AList.delete norm registry)"

section \<open>Leases\<close>

record lease =
  le_id :: nat
  le_label :: string
  le_owns_path :: "string \<Rightarrow> bool"
  le_revoked_reason :: "string option"

record path_guards =
  pg_purges :: registry
  pg_placements :: registry
  pg_leases :: "lease list"
  pg_next_lease :: nat

definition begin_placement :: "string \<Rightarrow> string \<Rightarrow> path_guards \<Rightarrow> bool \<times> path_guards" where
  "begin_placement cwd library_path g =
     (if conflicts_with cwd library_path (pg_purges g) then (False, g)
      else (True, g\<lparr>pg_placements := register_path cwd library_path (pg_placements g)\<rparr>))"

definition end_placement :: "string \<Rightarrow> string \<Rightarrow> path_guards \<Rightarrow> path_guards" where
  "end_placement cwd library_path g = g\<lparr>pg_placements := unregister_path cwd library_path (pg_placements g)\<rparr>"

definition register_purge :: "string \<Rightarrow> string \<Rightarrow> path_guards \<Rightarrow> path_guards" where
  "register_purge cwd library_path g = g\<lparr>pg_purges := register_path cwd library_path (pg_purges g)\<rparr>"

definition begin_purge :: "string \<Rightarrow> string \<Rightarrow> path_guards \<Rightarrow> bool \<times> path_guards" where
  "begin_purge cwd library_path g =
     (if conflicts_with cwd library_path (pg_purges g) then (False, g)
      else (True, register_purge cwd library_path g))"

definition purge_in_progress :: "string \<Rightarrow> string \<Rightarrow> path_guards \<Rightarrow> bool" where
  "purge_in_progress cwd library_path g = conflicts_with cwd library_path (pg_purges g)"

definition end_purge :: "string \<Rightarrow> string \<Rightarrow> path_guards \<Rightarrow> path_guards" where
  "end_purge cwd library_path g = g\<lparr>pg_purges := unregister_path cwd library_path (pg_purges g)\<rparr>"

definition active_purge_paths :: "path_guards \<Rightarrow> string list" where
  "active_purge_paths g = map fst (pg_purges g)"

definition acquire_pressure_exclusion :: "string \<Rightarrow> (string \<Rightarrow> bool) \<Rightarrow> path_guards \<Rightarrow> nat option \<times> path_guards" where
  "acquire_pressure_exclusion label owns_path g =
     (if list_ex owns_path (active_purge_paths g) then (None, g)
      else (Some (pg_next_lease g),
            g\<lparr>pg_leases := pg_leases g @ [\<lparr>le_id = pg_next_lease g, le_label = label, le_owns_path = owns_path,
                le_revoked_reason = None\<rparr>], pg_next_lease := pg_next_lease g + 1\<rparr>))"

definition release_pressure_exclusion :: "nat \<Rightarrow> path_guards \<Rightarrow> path_guards" where
  "release_pressure_exclusion held g = g\<lparr>pg_leases := filter (\<lambda>l. le_id l \<noteq> held) (pg_leases g)\<rparr>"

definition revocable :: "string \<Rightarrow> lease \<Rightarrow> bool" where
  "revocable library_path l \<longleftrightarrow> le_revoked_reason l = None \<and> le_owns_path l library_path"

definition revoke_pressure_exclusions :: "string \<Rightarrow> string \<Rightarrow> path_guards \<Rightarrow> string list \<times> path_guards" where
  "revoke_pressure_exclusions library_path reason g =
     (map le_label (filter (revocable library_path) (pg_leases g)),
      g\<lparr>pg_leases := map (\<lambda>l. if revocable library_path l then l\<lparr>le_revoked_reason := Some reason\<rparr> else l) (pg_leases g)\<rparr>)"

section \<open>What a registry promises\<close>

text \<open>
  Keys with positive counts: adding a key adds one, removing it takes one away, other keys are kept. The
  client's view: the actors of a process, each holding at most one key, are counted by the registry when
  an actor is registered as it appears and unregistered as it lets go.
\<close>

definition tally :: "('a \<Rightarrow> 'k option) \<Rightarrow> 'k \<Rightarrow> 'a list \<Rightarrow> nat" where
  "tally key n actors = length (filter (\<lambda>a. key a = Some n) actors)"

lemma tally_append [simp]: "tally key n (xs @ ys) = tally key n xs + tally key n ys"
  by (simp add: tally_def)

lemma tally_single: "tally key n [a] = (if key a = Some n then 1 else 0)"
  by (simp add: tally_def)

lemma tally_update:
  "i < length xs \<Longrightarrow> tally key n (xs[i := a]) + (if key (xs ! i) = Some n then 1 else 0)
     = tally key n xs + (if key a = Some n then 1 else 0)"
proof -
  assume i: "i < length xs"
  have "xs = take i xs @ [xs ! i] @ drop (Suc i) xs" using i by (simp add: id_take_nth_drop)
  then have "tally key n xs = tally key n (take i xs) + tally key n [xs ! i] + tally key n (drop (Suc i) xs)"
    by (metis tally_append add.assoc)
  moreover have "tally key n (xs[i := a]) = tally key n (take i xs) + tally key n [a] + tally key n (drop (Suc i) xs)"
    using i by (simp add: upd_conv_take_nth_drop) (metis tally_append append_Cons append_Nil add.assoc)
  ultimately show ?thesis by (simp add: tally_single)
qed

lemma tally_pos: "0 < tally key n xs \<longleftrightarrow> (\<exists>a \<in> set xs. key a = Some n)"
  by (auto simp: tally_def filter_empty_conv)

locale refcounts =
  fixes none :: 'r and add :: "'k \<Rightarrow> 'r \<Rightarrow> 'r" and rem :: "'k \<Rightarrow> 'r \<Rightarrow> 'r"
    and look :: "'r \<Rightarrow> 'k \<Rightarrow> nat" and keys :: "'r \<Rightarrow> 'k set" and ok :: "'r \<Rightarrow> bool"
  assumes ok_none: "ok none" and ok_add: "ok r \<Longrightarrow> ok (add k r)" and ok_rem: "ok r \<Longrightarrow> ok (rem k r)"
    and look_none: "look none k = 0"
    and look_add: "look (add k r) k' = (if k' = k then look r k + 1 else look r k')"
    and look_rem: "ok r \<Longrightarrow> look (rem k r) k' = (if k' = k then look r k - 1 else look r k')"
    and keys_pos: "ok r \<Longrightarrow> k \<in> keys r \<longleftrightarrow> 0 < look r k"
begin

definition counted :: "('a \<Rightarrow> 'k option) \<Rightarrow> 'r \<Rightarrow> 'a list \<Rightarrow> bool" where
  "counted key r actors \<longleftrightarrow> ok r \<and> (\<forall>n. look r n = tally key n actors)"

lemma counted_none: "counted key none []"
  by (simp add: counted_def ok_none look_none tally_def)

lemma counted_idle: "counted key r xs \<Longrightarrow> key a = None \<Longrightarrow> counted key r (xs @ [a])"
  by (simp add: counted_def tally_single)

lemma counted_enter: "counted key r xs \<Longrightarrow> key a = Some k \<Longrightarrow> counted key (add k r) (xs @ [a])"
  by (simp add: counted_def ok_add look_add tally_single)

lemma counted_keep:
  assumes "counted key r xs" "i < length xs" "key a = key (xs ! i)"
  shows "counted key r (xs[i := a])"
  using assms tally_update[OF assms(2), of key _ a] by (auto simp: counted_def)

lemma counted_leave:
  assumes c: "counted key r xs" and i: "i < length xs" and k: "key (xs ! i) = Some k" and a: "key a = None"
  shows "counted key (rem k r) (xs[i := a])"
proof -
  have "look (rem k r) n = tally key n (xs[i := a])" for n
    using c tally_update[OF i, of key n a] by (auto simp: counted_def look_rem k a)
  then show ?thesis using c by (simp add: counted_def ok_rem)
qed

lemma counted_map:
  assumes "counted key r xs" "\<And>a. key (f a) = key a"
  shows "counted key r (map f xs)"
  using assms by (simp add: counted_def tally_def filter_map o_def)

lemma counted_keys: "counted key r xs \<Longrightarrow> k \<in> keys r \<longleftrightarrow> (\<exists>a \<in> set xs. key a = Some k)"
  by (simp add: counted_def keys_pos tally_pos)

end

section \<open>The dictionaries of the code keep the promise\<close>

definition registry_ok :: "registry \<Rightarrow> bool" where
  "registry_ok r \<longleftrightarrow> distinct (map fst r) \<and> (\<forall>(k, n) \<in> set r. 0 < n)"

definition add_key :: "string \<Rightarrow> registry \<Rightarrow> registry" where
  "add_key k r = AList.update k (registry_get r k + 1) r"

definition rem_key :: "string \<Rightarrow> registry \<Rightarrow> registry" where
  "rem_key k r = (if 1 < registry_get r k then AList.update k (registry_get r k - 1) r else AList.delete k r)"

lemma register_path_key: "register_path cwd p r = add_key (normalize_guard_path cwd p) r"
  by (simp add: register_path_def add_key_def Let_def)

lemma unregister_path_key: "unregister_path cwd p r = rem_key (normalize_guard_path cwd p) r"
  by (simp add: unregister_path_def rem_key_def Let_def nat_diff_distrib)

lemma registry_get_update [simp]:
  "registry_get (AList.update k n r) k' = (if k' = k then n else registry_get r k')"
  by (simp add: registry_get_def update_conv')

lemma registry_get_delete [simp]:
  "registry_get (AList.delete k r) k' = (if k' = k then 0 else registry_get r k')"
  by (simp add: registry_get_def delete_conv')

lemma update_entries: "x \<in> set (AList.update k n r) \<Longrightarrow> x = (k, n) \<or> x \<in> set r"
  by (induction r) (auto split: if_splits)

lemma update_positive: "registry_ok r \<Longrightarrow> 0 < n \<Longrightarrow> registry_ok (AList.update k n r)"
  unfolding registry_ok_def by (auto simp: distinct_update dest!: update_entries)

lemma delete_positive: "registry_ok r \<Longrightarrow> registry_ok (AList.delete k r)"
  unfolding registry_ok_def by (auto simp: AList.delete_eq intro: distinct_map_filter)

lemma registry_keys: "registry_ok r \<Longrightarrow> k \<in> set (map fst r) \<longleftrightarrow> 0 < registry_get r k"
proof -
  assume ok: "registry_ok r"
  show ?thesis
  proof (cases "map_of r k")
    case None
    then have "k \<notin> set (map fst r)" by (simp add: map_of_eq_None_iff)
    then show ?thesis using None by (simp add: registry_get_def)
  next
    case (Some n)
    then have "(k, n) \<in> set r" by (rule map_of_SomeD)
    then show ?thesis using ok Some by (force simp: registry_get_def registry_ok_def)
  qed
qed

interpretation paths: refcounts "[]" add_key rem_key registry_get "\<lambda>r. set (map fst r)" registry_ok
proof unfold_locales
  fix r :: registry and k k' assume ok: "registry_ok r"
  show "registry_ok (add_key k r)" using ok by (simp add: add_key_def update_positive)
  show "registry_ok (rem_key k r)" using ok by (simp add: rem_key_def update_positive delete_positive)
  show "registry_get (rem_key k r) k' = (if k' = k then registry_get r k - 1 else registry_get r k')"
    by (simp add: rem_key_def)
  show "k \<in> set (map fst r) \<longleftrightarrow> 0 < registry_get r k" using ok by (rule registry_keys)
next
  show "registry_ok []" by (simp add: registry_ok_def)
  show "registry_get [] k = 0" for k by (simp add: registry_get_def)
  show "registry_get (add_key k r) k' = (if k' = k then registry_get r k + 1 else registry_get r k')" for k r k'
    by (simp add: add_key_def)
qed

section \<open>Conflicts\<close>

text \<open>Two paths clash when one of them lies inside the other; the check compares with every key.\<close>

definition clash :: "string \<Rightarrow> string \<Rightarrow> string \<Rightarrow> bool" where
  "clash cwd p q \<longleftrightarrow> inside (normalize_guard_path cwd p) (normalize_guard_path cwd q)
     \<or> inside (normalize_guard_path cwd q) (normalize_guard_path cwd p)"

lemma clash_sym: "clash cwd p q \<longleftrightarrow> clash cwd q p"
  by (auto simp: clash_def)

lemma conflicts_iff:
  "conflicts_with cwd p r \<longleftrightarrow> (\<exists>other \<in> set (map fst r). inside (normalize_guard_path cwd p) other
     \<or> inside other (normalize_guard_path cwd p))"
  unfolding conflicts_with_def Let_def list_ex_iff inside_text by metis

lemma conflicts_counted:
  assumes c: "paths.counted (\<lambda>a. map_option (normalize_guard_path cwd) (holds a)) r actors"
    and f: "\<not> conflicts_with cwd p r" and a: "a \<in> set actors" "holds a = Some q"
  shows "\<not> clash cwd p q" "\<not> clash cwd q p"
proof -
  have "normalize_guard_path cwd q \<in> set (map fst r)" using paths.counted_keys[OF c] a by force
  then show "\<not> clash cwd p q" using f unfolding conflicts_iff clash_def by blast
  then show "\<not> clash cwd q p" by (simp add: clash_sym)
qed

end
