(* ===== verification/PurgeMachine.thy ===== *)
theory PurgeMachine
  imports PurgeGuards
begin

text \<open>
  Purges, placements and claims running together (\<open>services/purge_service.py\<close>). Everything that runs is
  an actor: an import placement between \<open>begin_placement\<close> and \<open>end_placement\<close>, a purge claim between
  \<open>begin_purge\<close> and \<open>end_purge\<close>, and a call of \<open>purge_library_path\<close> in one of its phases, from the two
  preflight probes over the wait for a permit, the caller's boundary hook and the delete worker to its
  settlement, with cancellation and shutdown abandonment. An event is one stretch without an await, or
  one step of a worker thread; \<open>fire\<close> performs it where the code could, and an ordering of events is an
  interleaving of the tasks and threads. The answers of the file system, of the caller's hook and of the
  thread starter are part of the events.
\<close>

section \<open>State\<close>

datatype PurgeOutcome = Purge_deleted | Purge_refused | Purge_deferred | Purge_error | Purge_partial

record PurgeResult =
  pu_outcome :: PurgeOutcome
  pu_freed_bytes :: nat
  pu_detail :: "string option"

definition ABANDONABLE_DELETE_THREAD_LIMIT :: nat where "ABANDONABLE_DELETE_THREAD_LIMIT = 4"

datatype purge_end =
    Returned PurgeResult
  | Cancelled
  | HookRaised
  | DeleteWorkerStartError
  | OtherRaised

datatype probe_kind = GuardProbe | SizeProbe

text \<open>What a probe delivers: \<open>delete_guard_refuses\<close>, \<open>reclaimable_bytes\<close>, or an exception.\<close>

datatype probe_answer = Refuses bool | Bytes nat | ProbeOSError | ProbeRaised

datatype delete_answer = DeleteOk | LocalFileSystemError string | PartialDeleteError string | DeleteOSError string | DeleteRaised

datatype phase =
    AwaitProbe probe_kind
  | Probing probe_kind
  | Probed probe_kind probe_answer
  | AwaitPermit
  | Hooking
  | Deleting
  | Settled delete_answer
  | Orphaned
  | OrphanSettled

record purge_job =
  pj_path :: string
  pj_hold :: bool
  pj_freed :: nat
  pj_cancelled :: bool

datatype actor =
    Placement string
  | Claim string bool
  | Purge purge_job phase
  | Held string
  | StrayProbe
  | Finished purge_end
  | Released

record purging =
  ps_guards :: path_guards
  ps_permits :: nat
  ps_actors :: "actor list"

definition no_guards :: path_guards where
  "no_guards = \<lparr>pg_purges = [], pg_placements = [], pg_leases = [], pg_next_lease = 0\<rparr>"

definition purging_start :: purging where
  "purging_start = \<lparr>ps_guards = no_guards, ps_permits = ABANDONABLE_DELETE_THREAD_LIMIT, ps_actors = []\<rparr>"

section \<open>Stretches of the code\<close>

definition set_actor :: "nat \<Rightarrow> actor \<Rightarrow> purging \<Rightarrow> purging" where
  "set_actor i a s = s\<lparr>ps_actors := (ps_actors s)[i := a]\<rparr>"

definition add_actor :: "actor \<Rightarrow> purging \<Rightarrow> purging" where
  "add_actor a s = s\<lparr>ps_actors := ps_actors s @ [a]\<rparr>"

definition take_permit :: "purging \<Rightarrow> purging" where
  "take_permit s = s\<lparr>ps_permits := ps_permits s - 1\<rparr>"

definition release_permit :: "purging \<Rightarrow> purging" where
  "release_permit s = s\<lparr>ps_permits := ps_permits s + 1\<rparr>"

text \<open>The end of a purge that keeps no registration.\<close>

definition finish_purge :: "string \<Rightarrow> nat \<Rightarrow> purge_job \<Rightarrow> purge_end \<Rightarrow> purging \<Rightarrow> purging" where
  "finish_purge cwd i j e s = set_actor i (Finished e) (s\<lparr>ps_guards := end_purge cwd (pj_path j) (ps_guards s)\<rparr>)"

definition purge_result :: "PurgeOutcome \<Rightarrow> nat \<Rightarrow> string option \<Rightarrow> purge_end" where
  "purge_result oc freed detail = Returned \<lparr>pu_outcome = oc, pu_freed_bytes = freed, pu_detail = detail\<rparr>"

definition purge_library_path :: "string \<Rightarrow> string \<Rightarrow> bool \<Rightarrow> purging \<Rightarrow> purging" where
  "purge_library_path cwd library_path hold s =
     (if conflicts_with cwd library_path (pg_placements (ps_guards s))
      then add_actor (Finished (purge_result Purge_deferred 0 (Some ''deferred: an import is placing into this path''))) s
      else add_actor (Purge \<lparr>pj_path = library_path, pj_hold = hold, pj_freed = 0, pj_cancelled = False\<rparr> (AwaitProbe GuardProbe))
             (s\<lparr>ps_guards := register_purge cwd library_path (ps_guards s)\<rparr>))"

definition after_probe :: "string \<Rightarrow> nat \<Rightarrow> purge_job \<Rightarrow> probe_kind \<Rightarrow> probe_answer \<Rightarrow> purging \<Rightarrow> purging" where
  "after_probe cwd i j k a s = (case (k, a) of
     (GuardProbe, Refuses True) \<Rightarrow>
        finish_purge cwd i j (purge_result Purge_refused 0 (Some ''path resolves outside every configured library root'')) s
   | (GuardProbe, Refuses False) \<Rightarrow> set_actor i (Purge j (AwaitProbe SizeProbe)) s
   | (SizeProbe, Bytes n) \<Rightarrow> set_actor i (Purge (j\<lparr>pj_freed := n\<rparr>) AwaitPermit) s
   | (SizeProbe, ProbeOSError) \<Rightarrow> set_actor i (Purge (j\<lparr>pj_freed := 0\<rparr>) AwaitPermit) s
   | _ \<Rightarrow> finish_purge cwd i j OtherRaised s)"

definition delete_result :: "purge_job \<Rightarrow> delete_answer \<Rightarrow> purge_end" where
  "delete_result j a = (case a of
     DeleteOk \<Rightarrow> purge_result Purge_deleted (pj_freed j) None
   | LocalFileSystemError msg \<Rightarrow> purge_result Purge_refused 0 (Some msg)
   | PartialDeleteError msg \<Rightarrow> purge_result Purge_partial 0 (Some msg)
   | DeleteOSError name \<Rightarrow> purge_result Purge_error 0 (Some name)
   | DeleteRaised \<Rightarrow> OtherRaised)"

text \<open>The settlement seen by the caller: cancellation wins, and only an observed success may be held.\<close>

definition after_delete :: "string \<Rightarrow> nat \<Rightarrow> purge_job \<Rightarrow> delete_answer \<Rightarrow> purging \<Rightarrow> purging" where
  "after_delete cwd i j a s =
     (if pj_cancelled j then finish_purge cwd i j Cancelled s
      else if a = DeleteOk \<and> pj_hold j then set_actor i (Held (pj_path j)) s
      else finish_purge cwd i j (delete_result j a) s)"

definition abandon_actor :: "actor \<Rightarrow> actor" where
  "abandon_actor a = (case a of Purge j Deleting \<Rightarrow> Purge j Orphaned | Purge j (Settled r) \<Rightarrow> Purge j OrphanSettled | _ \<Rightarrow> a)"

definition abandon_active_settlements :: "purging \<Rightarrow> purging" where
  "abandon_active_settlements s = s\<lparr>ps_actors := map abandon_actor (ps_actors s)\<rparr>"

definition cancel_purge :: "string \<Rightarrow> nat \<Rightarrow> purge_job \<Rightarrow> phase \<Rightarrow> purging \<Rightarrow> purging option" where
  "cancel_purge cwd i j ph s = (case ph of
     AwaitProbe k \<Rightarrow> Some (finish_purge cwd i j Cancelled s)
   | Probing k \<Rightarrow> Some (add_actor StrayProbe (finish_purge cwd i j Cancelled s))
   | Probed k a \<Rightarrow> Some (finish_purge cwd i j Cancelled s)
   | AwaitPermit \<Rightarrow> Some (finish_purge cwd i j Cancelled s)
   | Hooking \<Rightarrow> Some (release_permit (finish_purge cwd i j Cancelled s))
   | Deleting \<Rightarrow> Some (set_actor i (Purge (j\<lparr>pj_cancelled := True\<rparr>) ph) s)
   | Settled a \<Rightarrow> Some (set_actor i (Purge (j\<lparr>pj_cancelled := True\<rparr>) ph) s)
   | _ \<Rightarrow> None)"

section \<open>Events\<close>

datatype event =
    BeginPlacement string
  | EndPlacement nat
  | Correct string string
  | Recover string
  | EndClaim nat
  | EndHeld nat
  | StartPurge string bool
  | Cancel nat
  | GetPermit nat
  | StartFails nat
  | ProbeEnds nat probe_answer
  | ProbeSeen nat
  | HookReturns nat
  | HookRaises nat
  | DeleteEnds nat delete_answer
  | DeleteSeen nat
  | Abandon
  | StrayEnds nat
  | SweepBegins string "string list"
  | SweepEnds nat

definition actor_at :: "nat \<Rightarrow> purging \<Rightarrow> actor" where
  "actor_at i s = (if i < length (ps_actors s) then ps_actors s ! i else Released)"

definition admitted :: "bool \<times> path_guards \<Rightarrow> actor \<Rightarrow> purging \<Rightarrow> purging" where
  "admitted r a s = (case r of (ok, g) \<Rightarrow> if ok then add_actor a (s\<lparr>ps_guards := g\<rparr>) else s)"

fun fire :: "string \<Rightarrow> event \<Rightarrow> purging \<Rightarrow> purging option" where
  "fire cwd (BeginPlacement p) s = Some (admitted (begin_placement cwd p (ps_guards s)) (Placement p) s)"
| "fire cwd (EndPlacement i) s = (case actor_at i s of
     Placement p \<Rightarrow> Some (set_actor i Released (s\<lparr>ps_guards := end_placement cwd p (ps_guards s)\<rparr>)) | _ \<Rightarrow> None)"
| "fire cwd (Correct p why) s = Some (case begin_purge cwd p (ps_guards s) of (ok, g) \<Rightarrow>
     if ok then add_actor (Claim p True) (s\<lparr>ps_guards := snd (revoke_pressure_exclusions p why g)\<rparr>) else s)"
| "fire cwd (Recover p) s = Some (admitted (begin_purge cwd p (ps_guards s)) (Claim p False) s)"
| "fire cwd (EndClaim i) s = (case actor_at i s of
     Claim p c \<Rightarrow> Some (set_actor i Released (s\<lparr>ps_guards := end_purge cwd p (ps_guards s)\<rparr>)) | _ \<Rightarrow> None)"
| "fire cwd (EndHeld i) s = (case actor_at i s of
     Held p \<Rightarrow> Some (set_actor i Released (s\<lparr>ps_guards := end_purge cwd p (ps_guards s)\<rparr>)) | _ \<Rightarrow> None)"
| "fire cwd (StartPurge p hold) s = Some (purge_library_path cwd p hold s)"
| "fire cwd (Cancel i) s = (case actor_at i s of Purge j ph \<Rightarrow> cancel_purge cwd i j ph s | _ \<Rightarrow> None)"
| "fire cwd (GetPermit i) s = (if ps_permits s = 0 then None else case actor_at i s of
     Purge j (AwaitProbe k) \<Rightarrow> Some (set_actor i (Purge j (Probing k)) (take_permit s))
   | Purge j AwaitPermit \<Rightarrow> Some (set_actor i (Purge j Hooking) (take_permit s))
   | _ \<Rightarrow> None)"
| "fire cwd (StartFails i) s = (case actor_at i s of
     Purge j (AwaitProbe k) \<Rightarrow> if ps_permits s = 0 then None
       else Some (release_permit (finish_purge cwd i j OtherRaised (take_permit s)))
   | Purge j Hooking \<Rightarrow> Some (release_permit (finish_purge cwd i j DeleteWorkerStartError s))
   | _ \<Rightarrow> None)"
| "fire cwd (ProbeEnds i a) s = (case actor_at i s of
     Purge j (Probing k) \<Rightarrow> Some (set_actor i (Purge j (Probed k a)) (release_permit s)) | _ \<Rightarrow> None)"
| "fire cwd (ProbeSeen i) s = (case actor_at i s of
     Purge j (Probed k a) \<Rightarrow> Some (after_probe cwd i j k a s) | _ \<Rightarrow> None)"
| "fire cwd (HookReturns i) s = (case actor_at i s of
     Purge j Hooking \<Rightarrow> Some (set_actor i (Purge j Deleting) s) | _ \<Rightarrow> None)"
| "fire cwd (HookRaises i) s = (case actor_at i s of
     Purge j Hooking \<Rightarrow> Some (release_permit (finish_purge cwd i j HookRaised s)) | _ \<Rightarrow> None)"
| "fire cwd (DeleteEnds i a) s = (case actor_at i s of
     Purge j Deleting \<Rightarrow> Some (set_actor i (Purge j (Settled a)) (release_permit s))
   | Purge j Orphaned \<Rightarrow> Some (set_actor i (Purge j OrphanSettled) (release_permit s))
   | _ \<Rightarrow> None)"
| "fire cwd (DeleteSeen i) s = (case actor_at i s of
     Purge j (Settled a) \<Rightarrow> Some (after_delete cwd i j a s)
   | Purge j OrphanSettled \<Rightarrow> Some (finish_purge cwd i j Cancelled s)
   | _ \<Rightarrow> None)"
| "fire cwd Abandon s = Some (abandon_active_settlements s)"
| "fire cwd (StrayEnds i) s = (case actor_at i s of
     StrayProbe \<Rightarrow> Some (set_actor i Released (release_permit s)) | _ \<Rightarrow> None)"
| "fire cwd (SweepBegins r roots) s = Some (s\<lparr>ps_guards := snd (acquire_pressure_exclusion r
     (\<lambda>active_path. owned_by_root (Some active_path) r roots) (ps_guards s))\<rparr>)"
| "fire cwd (SweepEnds held) s = Some (s\<lparr>ps_guards := release_pressure_exclusion held (ps_guards s)\<rparr>)"

inductive purging_step :: "string \<Rightarrow> purging \<Rightarrow> purging \<Rightarrow> bool" for cwd where
  fires: "fire cwd e s = Some t \<Longrightarrow> purging_step cwd s t"

abbreviation purging_reachable :: "string \<Rightarrow> purging \<Rightarrow> bool" where
  "purging_reachable cwd \<equiv> reachable (\<lambda>s. s = purging_start) (purging_step cwd)"

fun fire_all :: "string \<Rightarrow> event list \<Rightarrow> purging \<Rightarrow> purging option" where
  "fire_all cwd [] s = Some s"
| "fire_all cwd (e # es) s = (case fire cwd e s of None \<Rightarrow> None | Some t \<Rightarrow> fire_all cwd es t)"

lemma fire_all_reachable: "purging_reachable cwd s \<Longrightarrow> fire_all cwd es s = Some t \<Longrightarrow> purging_reachable cwd t"
  by (induction es arbitrary: s) (auto split: option.splits dest: reach_step[where step = "purging_step cwd", OF _ fires])

end
