(* ===== verification/PurgeSafety.thy ===== *)
theory PurgeSafety
  imports PurgeMachine
begin

text \<open>
  What the path guards guarantee in every interleaving: the registries count the actors that hold a
  path, the permits are conserved, the first registered wins, and an unrevoked lease of a sweep excludes
  every correction under its root.
\<close>

section \<open>What an actor holds\<close>

fun purge_path :: "actor \<Rightarrow> string option" where
  "purge_path (Claim p c) = Some p"
| "purge_path (Purge j ph) = Some (pj_path j)"
| "purge_path (Held p) = Some p"
| "purge_path _ = None"

fun placing_path :: "actor \<Rightarrow> string option" where
  "placing_path (Placement p) = Some p"
| "placing_path _ = None"

fun claimed_path :: "actor \<Rightarrow> string option" where
  "claimed_path (Claim p c) = Some p"
| "claimed_path _ = None"

fun corrected_path :: "actor \<Rightarrow> string option" where
  "corrected_path (Claim p True) = Some p"
| "corrected_path _ = None"

text \<open>A call of \<open>purge_library_path\<close>, until its registration is released.\<close>

fun deleting_path :: "actor \<Rightarrow> string option" where
  "deleting_path (Purge j ph) = Some (pj_path j)"
| "deleting_path (Held p) = Some p"
| "deleting_path _ = None"

fun has_permit :: "actor \<Rightarrow> bool" where
  "has_permit (Purge j (Probing k)) = True"
| "has_permit (Purge j Hooking) = True"
| "has_permit (Purge j Deleting) = True"
| "has_permit (Purge j Orphaned) = True"
| "has_permit StrayProbe = True"
| "has_permit _ = False"

definition permit_of :: "actor \<Rightarrow> unit option" where
  "permit_of a = (if has_permit a then Some () else None)"

text \<open>The ordering rule, for an actor \<open>a\<close> that registered before \<open>b\<close>.\<close>

definition may_follow :: "string \<Rightarrow> actor \<Rightarrow> actor \<Rightarrow> bool" where
  "may_follow cwd a b \<longleftrightarrow>
     (\<forall>p q. purge_path a = Some p \<longrightarrow> (placing_path b = Some q \<or> claimed_path b = Some q) \<longrightarrow> \<not> clash cwd p q)
   \<and> (\<forall>p q. placing_path a = Some p \<longrightarrow> deleting_path b = Some q \<longrightarrow> \<not> clash cwd p q)"

definition keyed :: "string \<Rightarrow> (actor \<Rightarrow> string option) \<Rightarrow> actor \<Rightarrow> string option" where
  "keyed cwd holds a = map_option (normalize_guard_path cwd) (holds a)"

definition lease_clear :: "lease \<Rightarrow> actor \<Rightarrow> bool" where
  "lease_clear l a \<longleftrightarrow> (le_revoked_reason l = None \<longrightarrow> (\<forall>p. corrected_path a = Some p \<longrightarrow> prefix ''/'' p \<longrightarrow> \<not> le_owns_path l p))"

definition textual_owner :: "lease \<Rightarrow> bool" where
  "textual_owner l \<longleftrightarrow> (\<forall>p. prefix ''/'' p \<longrightarrow> le_owns_path l (normpath p) = le_owns_path l p)"

definition ledger :: "string \<Rightarrow> purging \<Rightarrow> bool" where
  "ledger cwd s \<longleftrightarrow>
     paths.counted (keyed cwd purge_path) (pg_purges (ps_guards s)) (ps_actors s)
   \<and> paths.counted (keyed cwd placing_path) (pg_placements (ps_guards s)) (ps_actors s)
   \<and> ps_permits s + tally permit_of () (ps_actors s) = ABANDONABLE_DELETE_THREAD_LIMIT
   \<and> sorted_wrt (may_follow cwd) (ps_actors s)
   \<and> (\<forall>l \<in> set (pg_leases (ps_guards s)). textual_owner l \<and> (\<forall>a \<in> set (ps_actors s). lease_clear l a))"

section \<open>An actor gives way\<close>

text \<open>\<open>b\<close> holds at most what \<open>a\<close> holds.\<close>

definition weaker :: "actor \<Rightarrow> actor \<Rightarrow> bool" where
  "weaker b a \<longleftrightarrow> (\<forall>h \<in> {purge_path, placing_path, claimed_path, corrected_path, deleting_path}. h b = None \<or> h b = h a)"

lemma weaker_follow: "may_follow cwd a x \<Longrightarrow> weaker b a \<Longrightarrow> may_follow cwd b x"
  and weaker_leads: "may_follow cwd x a \<Longrightarrow> weaker b a \<Longrightarrow> may_follow cwd x b"
  unfolding may_follow_def weaker_def by auto

lemma weaker_lease: "lease_clear l a \<Longrightarrow> weaker b a \<Longrightarrow> lease_clear l b"
  unfolding lease_clear_def weaker_def by auto

lemma sorted_wrt_update:
  assumes s: "sorted_wrt R xs" and i: "i < length xs"
    and l: "\<And>x. R (xs ! i) x \<Longrightarrow> R b x" and r: "\<And>x. R x (xs ! i) \<Longrightarrow> R x b"
  shows "sorted_wrt R (xs[i := b])"
  unfolding sorted_wrt_iff_nth_less
proof (intro allI impI)
  fix m n assume mn: "m < n" "n < length (xs[i := b])"
  have "R (xs ! m) (xs ! n)" using s mn by (simp add: sorted_wrt_iff_nth_less)
  then show "R (xs[i := b] ! m) (xs[i := b] ! n)"
    using mn l r by (cases "i = m"; cases "i = n") auto
qed

lemma sorted_follow_update:
  assumes "sorted_wrt (may_follow cwd) xs" "i < length xs" "weaker b (xs ! i)"
  shows "sorted_wrt (may_follow cwd) (xs[i := b])"
  using assms by (intro sorted_wrt_update) (auto intro: weaker_follow weaker_leads)

lemma sorted_follow_map:
  assumes "sorted_wrt (may_follow cwd) xs" "\<And>a. weaker (f a) a"
  shows "sorted_wrt (may_follow cwd) (map f xs)"
  unfolding sorted_wrt_map using assms by (auto elim!: sorted_wrt_mono_rel[rotated] intro: weaker_follow weaker_leads)

lemma leases_update:
  assumes "\<forall>a \<in> set xs. lease_clear l a" "i < length xs" "weaker b (xs ! i)"
  shows "\<forall>a \<in> set (xs[i := b]). lease_clear l a"
  using assms weaker_lease[of l "xs ! i" b] by (auto dest!: set_mp[OF set_update_subset_insert])

section \<open>Every event keeps the ledger\<close>

abbreviation bit :: "bool \<Rightarrow> nat" where "bit b \<equiv> (if b then 1 else 0)"

lemma permit_of_Some: "permit_of a = Some u \<longleftrightarrow> has_permit a"
  by (simp add: permit_of_def)

lemma actor_at_index: "actor_at i s = a \<Longrightarrow> a \<noteq> Released \<Longrightarrow> i < length (ps_actors s) \<and> ps_actors s ! i = a"
  by (auto simp: actor_at_def split: if_splits)

lemma permits_update:
  assumes "ps_permits s + tally permit_of () (ps_actors s) = n" "i < length (ps_actors s)"
    "m + bit (has_permit b) = ps_permits s + bit (has_permit (ps_actors s ! i))"
  shows "m + tally permit_of () ((ps_actors s)[i := b]) = n"
  using assms tally_update[OF assms(2), of permit_of "()" b] by (simp add: permit_of_Some)

text \<open>One actor gives way: what is left to show is that the registries follow and the permits balance.\<close>

lemma ledger_give_way:
  assumes l: "ledger cwd s" and i: "i < length (ps_actors s)" and w: "weaker b (ps_actors s ! i)"
    and purges: "paths.counted (keyed cwd purge_path) (pg_purges g) ((ps_actors s)[i := b])"
    and placements: "paths.counted (keyed cwd placing_path) (pg_placements g) ((ps_actors s)[i := b])"
    and leases: "pg_leases g = pg_leases (ps_guards s)"
    and m: "m + bit (has_permit b) = ps_permits s + bit (has_permit (ps_actors s ! i))"
  shows "ledger cwd (set_actor i b (s\<lparr>ps_permits := m, ps_guards := g\<rparr>))"
proof -
  note f = l[unfolded ledger_def]
  have "m + tally permit_of () ((ps_actors s)[i := b]) = ABANDONABLE_DELETE_THREAD_LIMIT"
    using f m i by (intro permits_update) auto
  moreover have "sorted_wrt (may_follow cwd) ((ps_actors s)[i := b])" using f i w by (intro sorted_follow_update) auto
  moreover have "\<forall>l \<in> set (pg_leases g). textual_owner l \<and> (\<forall>a \<in> set ((ps_actors s)[i := b]). lease_clear l a)"
    unfolding leases using f leases_update[OF _ i w] by blast
  ultimately show ?thesis using purges placements by (simp add: ledger_def set_actor_def)
qed

lemma ledger_swap:
  assumes l: "ledger cwd s" and i: "i < length (ps_actors s)" and a: "ps_actors s ! i = a"
    and w: "weaker b a" and k: "purge_path b = purge_path a" "placing_path b = placing_path a"
    and m: "m + bit (has_permit b) = ps_permits s + bit (has_permit a)"
  shows "ledger cwd (set_actor i b (s\<lparr>ps_permits := m\<rparr>))"
proof -
  note f = l[unfolded ledger_def]
  have "ledger cwd (set_actor i b (s\<lparr>ps_permits := m, ps_guards := ps_guards s\<rparr>))"
  proof (rule ledger_give_way[OF l i])
    show "paths.counted (keyed cwd purge_path) (pg_purges (ps_guards s)) ((ps_actors s)[i := b])"
      using f i a k by (intro paths.counted_keep) (auto simp: keyed_def)
    show "paths.counted (keyed cwd placing_path) (pg_placements (ps_guards s)) ((ps_actors s)[i := b])"
      using f i a k by (intro paths.counted_keep) (auto simp: keyed_def)
  qed (use w m a in auto)
  then show ?thesis by simp
qed

lemma ledger_leave_purge:
  assumes l: "ledger cwd s" and i: "i < length (ps_actors s)" and a: "ps_actors s ! i = a"
    and p: "purge_path a = Some p" "placing_path a = None" and b: "weaker b a" "purge_path b = None" "\<not> has_permit b"
    and m: "m = ps_permits s + bit (has_permit a)"
  shows "ledger cwd (set_actor i b (s\<lparr>ps_permits := m, ps_guards := end_purge cwd p (ps_guards s)\<rparr>))"
proof (rule ledger_give_way[OF l i])
  note f = l[unfolded ledger_def]
  have n: "placing_path b = None" using b(1) p(2) by (auto simp: weaker_def)
  show "paths.counted (keyed cwd purge_path) (pg_purges (end_purge cwd p (ps_guards s))) ((ps_actors s)[i := b])"
    using paths.counted_leave[of "keyed cwd purge_path" "pg_purges (ps_guards s)" "ps_actors s" i
        "normalize_guard_path cwd p" b] f i a p b
    by (simp add: keyed_def end_purge_def unregister_path_key)
  show "paths.counted (keyed cwd placing_path) (pg_placements (end_purge cwd p (ps_guards s))) ((ps_actors s)[i := b])"
    unfolding end_purge_def using f i a n p by (intro paths.counted_keep) (auto simp: keyed_def)
qed (use b m a in \<open>auto simp: end_purge_def\<close>)

lemma ledger_leave_placement:
  assumes l: "ledger cwd s" and i: "i < length (ps_actors s)" and a: "ps_actors s ! i = Placement p"
  shows "ledger cwd (set_actor i Released (s\<lparr>ps_guards := end_placement cwd p (ps_guards s)\<rparr>))"
proof -
  note f = l[unfolded ledger_def]
  have "ledger cwd (set_actor i Released (s\<lparr>ps_permits := ps_permits s, ps_guards := end_placement cwd p (ps_guards s)\<rparr>))"
  proof (rule ledger_give_way[OF l i])
    show "paths.counted (keyed cwd placing_path) (pg_placements (end_placement cwd p (ps_guards s))) ((ps_actors s)[i := Released])"
      using paths.counted_leave[of "keyed cwd placing_path" "pg_placements (ps_guards s)" "ps_actors s" i
          "normalize_guard_path cwd p" Released] f i a
      by (simp add: keyed_def end_placement_def unregister_path_key)
    show "paths.counted (keyed cwd purge_path) (pg_purges (end_placement cwd p (ps_guards s))) ((ps_actors s)[i := Released])"
      unfolding end_placement_def using f i a by (intro paths.counted_keep) (auto simp: keyed_def)
  qed (auto simp: a weaker_def end_placement_def)
  then show ?thesis by simp
qed

lemma ledger_idle:
  assumes l: "ledger cwd s" and a: "purge_path a = None" "placing_path a = None"
    and m: "m + bit (has_permit a) = ps_permits s"
  shows "ledger cwd (add_actor a (s\<lparr>ps_permits := m\<rparr>))"
proof -
  have n: "claimed_path a = None" "deleting_path a = None" "corrected_path a = None" using a by (cases a; auto)+
  then show ?thesis using l a m unfolding ledger_def add_actor_def
    by (auto simp: keyed_def permit_of_Some tally_single sorted_wrt_append may_follow_def lease_clear_def
        intro!: paths.counted_idle)
qed

lemma conflicts_keyed:
  assumes "paths.counted (keyed cwd holds) r actors" "\<not> conflicts_with cwd p r" "a \<in> set actors" "holds a = Some q"
  shows "\<not> clash cwd p q" "\<not> clash cwd q p"
  using conflicts_counted[of cwd holds r actors p a q] assms by (simp_all add: keyed_def[abs_def])

lemma ledger_enter_placement:
  assumes l: "ledger cwd s" and c: "\<not> conflicts_with cwd p (pg_purges (ps_guards s))"
  shows "ledger cwd (add_actor (Placement p)
           (s\<lparr>ps_guards := (ps_guards s)\<lparr>pg_placements := register_path cwd p (pg_placements (ps_guards s))\<rparr>\<rparr>))"
proof -
  note f = l[unfolded ledger_def]
  have "may_follow cwd a (Placement p)" if "a \<in> set (ps_actors s)" for a
    using conflicts_keyed[OF conjunct1[OF f] c that] by (auto simp: may_follow_def)
  then show ?thesis using f paths.counted_enter[of "keyed cwd placing_path" _ "ps_actors s" "Placement p"]
    by (auto simp: ledger_def add_actor_def keyed_def register_path_key sorted_wrt_append tally_single
        permit_of_Some lease_clear_def intro!: paths.counted_idle)
qed

lemma ledger_enter_claim:
  assumes l: "ledger cwd s" and c: "\<not> conflicts_with cwd p (pg_purges (ps_guards s))"
    and le: "\<forall>l \<in> set ls. textual_owner l \<and> (\<forall>a \<in> insert (Claim p b) (set (ps_actors s)). lease_clear l a)"
  shows "ledger cwd (add_actor (Claim p b) (s\<lparr>ps_guards := (register_purge cwd p (ps_guards s))\<lparr>pg_leases := ls\<rparr>\<rparr>))"
proof -
  note f = l[unfolded ledger_def]
  have "may_follow cwd a (Claim p b)" if "a \<in> set (ps_actors s)" for a
    using conflicts_keyed[OF conjunct1[OF f] c that] by (auto simp: may_follow_def)
  then show ?thesis using f le paths.counted_enter[of "keyed cwd purge_path" _ "ps_actors s" "Claim p b"]
    by (auto simp: ledger_def add_actor_def keyed_def register_purge_def register_path_key sorted_wrt_append tally_single
        permit_of_Some intro!: paths.counted_idle)
qed

lemma ledger_enter_purge:
  assumes l: "ledger cwd s" and c: "\<not> conflicts_with cwd (pj_path j) (pg_placements (ps_guards s))"
  shows "ledger cwd (add_actor (Purge j (AwaitProbe k)) (s\<lparr>ps_guards := register_purge cwd (pj_path j) (ps_guards s)\<rparr>))"
proof -
  note f = l[unfolded ledger_def]
  have "may_follow cwd a (Purge j (AwaitProbe k))" if "a \<in> set (ps_actors s)" for a
    using conflicts_keyed[OF conjunct1[OF conjunct2[OF f]] c that] by (auto simp: may_follow_def)
  then show ?thesis using f paths.counted_enter[of "keyed cwd purge_path" _ "ps_actors s" "Purge j (AwaitProbe k)"]
    by (auto simp: ledger_def add_actor_def keyed_def register_purge_def register_path_key sorted_wrt_append tally_single
        permit_of_Some lease_clear_def intro!: paths.counted_idle)
qed

subsection \<open>Leases\<close>

lemma owner_textual: "textual_owner \<lparr>le_id = n, le_label = r, le_owns_path = (\<lambda>q. owned_by_root (Some q) r roots), le_revoked_reason = v\<rparr>"
  by (auto simp: textual_owner_def intro!: owned_by_root_normpath)

lemma ledger_leases:
  "ledger cwd s \<Longrightarrow> \<forall>l \<in> set ls. textual_owner l \<and> (\<forall>a \<in> set (ps_actors s). lease_clear l a) \<Longrightarrow>
   ledger cwd (s\<lparr>ps_guards := (ps_guards s)\<lparr>pg_leases := ls, pg_next_lease := n\<rparr>\<rparr>)"
  by (simp add: ledger_def)

lemma guard_path_rooted: "prefix ''/'' p \<Longrightarrow> normalize_guard_path cwd p = normpath p"
  by (simp add: normalize_guard_path_def abspath_rooted normpath_rooted)

lemma corrected_purge: "corrected_path a = Some p \<Longrightarrow> purge_path a = Some p"
  by (cases a rule: corrected_path.cases) auto

lemma ledger_sweep_begins:
  assumes l: "ledger cwd s"
  shows "ledger cwd (s\<lparr>ps_guards := snd (acquire_pressure_exclusion r (\<lambda>q. owned_by_root (Some q) r roots) (ps_guards s))\<rparr>)"
proof (cases "list_ex (\<lambda>q. owned_by_root (Some q) r roots) (active_purge_paths (ps_guards s))")
  case True
  then show ?thesis using l by (simp add: acquire_pressure_exclusion_def)
next
  case False
  let ?new = "\<lparr>le_id = pg_next_lease (ps_guards s), le_label = r, le_owns_path = (\<lambda>q. owned_by_root (Some q) r roots),
      le_revoked_reason = None\<rparr>"
  note f = l[unfolded ledger_def]
  have clear: "lease_clear ?new a" if a: "a \<in> set (ps_actors s)" for a
    unfolding lease_clear_def
  proof (intro impI allI notI)
    fix p assume p: "corrected_path a = Some p" "prefix ''/'' p" "le_owns_path ?new p"
    have "normpath p \<in> set (active_purge_paths (ps_guards s))"
      using paths.counted_keys[OF conjunct1[OF f], of "normpath p"] a corrected_purge[OF p(1)] guard_path_rooted[OF p(2)]
      by (auto simp: keyed_def active_purge_paths_def)
    moreover have "owned_by_root (Some (normpath p)) r roots" using p(2,3) by (cases "p = []") (auto simp: owned_by_root_normpath)
    ultimately show False using False by (auto simp: list_ex_iff)
  qed
  show ?thesis using False ledger_leases[OF l, of "pg_leases (ps_guards s) @ [?new]"] f clear owner_textual
    by (auto simp: acquire_pressure_exclusion_def)
qed

definition revoke_lease :: "string \<Rightarrow> string \<Rightarrow> lease \<Rightarrow> lease" where
  "revoke_lease p why l = (if revocable p l then l\<lparr>le_revoked_reason := Some why\<rparr> else l)"

lemma revoke_clear:
  assumes "textual_owner l"
  shows "textual_owner (revoke_lease p why l)" "lease_clear (revoke_lease p why l) (Claim p True)"
    and "lease_clear l a \<Longrightarrow> lease_clear (revoke_lease p why l) a"
  using assms by (auto simp: textual_owner_def lease_clear_def revocable_def revoke_lease_def)

lemma ledger_correct:
  assumes l: "ledger cwd s" and c: "\<not> conflicts_with cwd p (pg_purges (ps_guards s))"
  shows "ledger cwd (add_actor (Claim p True)
           (s\<lparr>ps_guards := snd (revoke_pressure_exclusions p why (register_purge cwd p (ps_guards s)))\<rparr>))"
proof -
  have "\<forall>l \<in> set (map (revoke_lease p why) (pg_leases (ps_guards s))). textual_owner l
      \<and> (\<forall>a \<in> insert (Claim p True) (set (ps_actors s)). lease_clear l a)"
    using l revoke_clear by (auto simp: ledger_def)
  from ledger_enter_claim[OF l c this] show ?thesis
    by (simp add: revoke_pressure_exclusions_def revoke_lease_def[abs_def] register_purge_def)
qed

lemma ledger_finish:
  assumes l: "ledger cwd s" and a: "actor_at i s = Purge j ph" and m: "m = ps_permits s + bit (has_permit (Purge j ph))"
  shows "ledger cwd ((finish_purge cwd i j e s)\<lparr>ps_permits := m\<rparr>)"
proof -
  have i: "i < length (ps_actors s)" "ps_actors s ! i = Purge j ph" using actor_at_index[OF a] by auto
  have "ledger cwd (set_actor i (Finished e) (s\<lparr>ps_permits := m, ps_guards := end_purge cwd (pj_path j) (ps_guards s)\<rparr>))"
    by (rule ledger_leave_purge[OF l i _ _ _ _ _ m]) (auto simp: weaker_def)
  then show ?thesis by (simp add: finish_purge_def set_actor_def ledger_def)
qed

lemma ledger_phase:
  assumes l: "ledger cwd s" and a: "actor_at i s = Purge j ph" and j: "pj_path j' = pj_path j"
    and m: "m + bit (has_permit (Purge j' ph')) = ps_permits s + bit (has_permit (Purge j ph))"
  shows "ledger cwd ((set_actor i (Purge j' ph') s)\<lparr>ps_permits := m\<rparr>)"
proof -
  have i: "i < length (ps_actors s)" "ps_actors s ! i = Purge j ph" using actor_at_index[OF a] by auto
  show ?thesis using ledger_swap[OF l i _ _ _ m] j by (simp add: weaker_def set_actor_def ledger_def)
qed

lemma ledger_finish_plain:
  "ledger cwd s \<Longrightarrow> actor_at i s = Purge j ph \<Longrightarrow> \<not> has_permit (Purge j ph) \<Longrightarrow> ledger cwd (finish_purge cwd i j e s)"
  using ledger_finish[of cwd s i j ph "ps_permits s" e] by (simp add: finish_purge_def set_actor_def)

lemma ledger_finish_permit:
  "ledger cwd s \<Longrightarrow> actor_at i s = Purge j ph \<Longrightarrow> has_permit (Purge j ph) \<Longrightarrow>
   ledger cwd (release_permit (finish_purge cwd i j e s))"
  using ledger_finish[of cwd s i j ph "ps_permits s + 1" e] by (simp add: finish_purge_def set_actor_def release_permit_def)

lemma ledger_phase_plain:
  "ledger cwd s \<Longrightarrow> actor_at i s = Purge j ph \<Longrightarrow> pj_path j' = pj_path j \<Longrightarrow>
   has_permit (Purge j' ph') = has_permit (Purge j ph) \<Longrightarrow> ledger cwd (set_actor i (Purge j' ph') s)"
  using ledger_phase[of cwd s i j ph j' "ps_permits s" ph'] by (simp add: set_actor_def)

lemma ledger_phase_take:
  "ledger cwd s \<Longrightarrow> actor_at i s = Purge j ph \<Longrightarrow> pj_path j' = pj_path j \<Longrightarrow> 0 < ps_permits s \<Longrightarrow>
   has_permit (Purge j' ph') \<Longrightarrow> \<not> has_permit (Purge j ph) \<Longrightarrow> ledger cwd (set_actor i (Purge j' ph') (take_permit s))"
  using ledger_phase[of cwd s i j ph j' "ps_permits s - 1" ph'] by (simp add: set_actor_def take_permit_def ledger_def)

lemma ledger_phase_return:
  "ledger cwd s \<Longrightarrow> actor_at i s = Purge j ph \<Longrightarrow> pj_path j' = pj_path j \<Longrightarrow>
   \<not> has_permit (Purge j' ph') \<Longrightarrow> has_permit (Purge j ph) \<Longrightarrow> ledger cwd (set_actor i (Purge j' ph') (release_permit s))"
  using ledger_phase[of cwd s i j ph j' "ps_permits s + 1" ph'] by (simp add: set_actor_def release_permit_def ledger_def)

lemma ledger_stray:
  assumes l: "ledger cwd s" and a: "actor_at i s = Purge j (Probing k)"
  shows "ledger cwd (add_actor StrayProbe (finish_purge cwd i j e s))"
  using ledger_idle[OF ledger_finish[OF l a refl, of e], of StrayProbe "ps_permits s"]
  by (simp add: add_actor_def finish_purge_def set_actor_def ledger_def)

lemma ledger_end_hold:
  assumes l: "ledger cwd s" and a: "actor_at i s = a" and p: "purge_path a = Some p" "placing_path a = None" "\<not> has_permit a"
  shows "ledger cwd (set_actor i Released (s\<lparr>ps_guards := end_purge cwd p (ps_guards s)\<rparr>))"
proof -
  have "a \<noteq> Released" using p(1) by auto
  then have i: "i < length (ps_actors s)" "ps_actors s ! i = a" using actor_at_index[OF a] by auto
  show ?thesis using ledger_leave_purge[OF l i p(1,2), of Released "ps_permits s"] p(3) by (simp add: weaker_def set_actor_def)
qed

lemma ledger_cancel:
  assumes l: "ledger cwd s" and a: "actor_at i s = Purge j ph" and c: "cancel_purge cwd i j ph s = Some t"
  shows "ledger cwd t"
  using c l a by (cases ph)
    (auto simp: cancel_purge_def intro!: ledger_finish_plain ledger_finish_permit ledger_phase_plain ledger_stray)

lemma ledger_after_probe: "ledger cwd s \<Longrightarrow> actor_at i s = Purge j (Probed k a) \<Longrightarrow> ledger cwd (after_probe cwd i j k a s)"
  unfolding after_probe_def
  by (auto split: probe_kind.split probe_answer.split bool.split intro: ledger_finish_plain ledger_phase_plain)

lemma ledger_after_delete:
  assumes l: "ledger cwd s" and a: "actor_at i s = Purge j (Settled r)"
  shows "ledger cwd (after_delete cwd i j r s)"
proof -
  have i: "i < length (ps_actors s)" "ps_actors s ! i = Purge j (Settled r)" using actor_at_index[OF a] by auto
  have "ledger cwd (set_actor i (Held (pj_path j)) s)"
    using ledger_swap[OF l i, of "Held (pj_path j)" "ps_permits s"] by (simp add: weaker_def set_actor_def)
  then show ?thesis using ledger_finish_plain[OF l a] by (simp add: after_delete_def)
qed

lemma abandon_actor_holds:
  "weaker (abandon_actor a) a" "purge_path (abandon_actor a) = purge_path a"
  "placing_path (abandon_actor a) = placing_path a" "permit_of (abandon_actor a) = permit_of a"
  by (auto simp: abandon_actor_def weaker_def permit_of_def split: actor.split phase.split)

lemma ledger_abandon:
  assumes l: "ledger cwd s"
  shows "ledger cwd (abandon_active_settlements s)"
proof -
  note f = l[unfolded ledger_def]
  have "tally permit_of () (map abandon_actor (ps_actors s)) = tally permit_of () (ps_actors s)"
    by (simp add: tally_def filter_map o_def abandon_actor_holds)
  moreover have "\<forall>l \<in> set (pg_leases (ps_guards s)). \<forall>a \<in> set (map abandon_actor (ps_actors s)). lease_clear l a"
    using f abandon_actor_holds(1) by (auto intro: weaker_lease)
  ultimately show ?thesis using f
    by (auto simp: ledger_def abandon_active_settlements_def keyed_def abandon_actor_holds
        intro!: paths.counted_map sorted_follow_map)
qed

lemma ledger_start: "ledger cwd purging_start"
  by (simp add: ledger_def purging_start_def no_guards_def paths.counted_none tally_def)

lemma ledger_purge_call: "ledger cwd s \<Longrightarrow> ledger cwd (purge_library_path cwd p hold s)"
  using ledger_idle[of cwd s _ "ps_permits s"] ledger_enter_purge[of cwd s "\<lparr>pj_path = p, pj_hold = hold, pj_freed = 0, pj_cancelled = False\<rparr>"]
  by (simp add: purge_library_path_def)

lemma ledger_fire:
  assumes l: "ledger cwd s" and f: "fire cwd e s = Some t"
  shows "ledger cwd t"
proof (cases e)
  case (BeginPlacement p)
  then show ?thesis using f l ledger_enter_placement[OF l, of p] by (auto simp: admitted_def begin_placement_def)
next
  case (EndPlacement i)
  then show ?thesis using f l by (auto split: actor.splits dest!: actor_at_index intro: ledger_leave_placement)
next
  case (Correct p why)
  then show ?thesis using f l ledger_correct[OF l, of p why] by (auto simp: begin_purge_def)
next
  case (Recover p)
  have "\<forall>l \<in> set (pg_leases (ps_guards s)). textual_owner l \<and> (\<forall>a \<in> insert (Claim p False) (set (ps_actors s)). lease_clear l a)"
    using l by (auto simp: ledger_def lease_clear_def)
  from ledger_enter_claim[OF l _ this] show ?thesis using f l Recover
    by (auto simp: admitted_def begin_purge_def register_purge_def)
next
  case (EndClaim i)
  then show ?thesis using f l by (auto split: actor.splits intro!: ledger_end_hold)
next
  case (EndHeld i)
  then show ?thesis using f l by (auto split: actor.splits intro!: ledger_end_hold)
next
  case (StartPurge p hold)
  then show ?thesis using f ledger_purge_call[OF l] by auto
next
  case (Cancel i)
  then show ?thesis using f l by (auto split: actor.splits intro: ledger_cancel)
next
  case (GetPermit i)
  then show ?thesis using f l by (auto split: actor.splits phase.splits if_splits intro!: ledger_phase_take)
next
  case (StartFails i)
  have "take_permit s = s\<lparr>ps_permits := ps_permits s - 1\<rparr>" by (simp add: take_permit_def)
  then have "release_permit (finish_purge cwd i j x (take_permit s)) = finish_purge cwd i j x s" if "0 < ps_permits s" for j x
    using that by (simp add: release_permit_def finish_purge_def set_actor_def)
  then show ?thesis using f l StartFails
    by (auto split: actor.splits phase.splits if_splits intro!: ledger_finish_plain ledger_finish_permit)
next
  case (ProbeEnds i a)
  then show ?thesis using f l by (auto split: actor.splits phase.splits intro!: ledger_phase_return)
next
  case (ProbeSeen i)
  then show ?thesis using f l by (auto split: actor.splits phase.splits intro!: ledger_after_probe)
next
  case (HookReturns i)
  then show ?thesis using f l by (auto split: actor.splits phase.splits intro!: ledger_phase_plain)
next
  case (HookRaises i)
  then show ?thesis using f l by (auto split: actor.splits phase.splits intro!: ledger_finish_permit)
next
  case (DeleteEnds i a)
  then show ?thesis using f l by (auto split: actor.splits phase.splits intro!: ledger_phase_return)
next
  case (DeleteSeen i)
  then show ?thesis using f l by (auto split: actor.splits phase.splits intro!: ledger_after_delete ledger_finish_plain)
next
  case Abandon
  then show ?thesis using f ledger_abandon[OF l] by auto
next
  case (StrayEnds i)
  then show ?thesis using f l ledger_swap[OF l, of i StrayProbe Released "ps_permits s + 1"]
    by (auto split: actor.splits dest!: actor_at_index simp: weaker_def release_permit_def)
next
  case (SweepBegins r roots)
  then show ?thesis using f ledger_sweep_begins[OF l] by auto
next
  case (SweepEnds h)
  then show ?thesis using f l by (auto simp: ledger_def release_pressure_exclusion_def)
qed

interpretation purging: invariant_system "\<lambda>s. s = purging_start" "purging_step cwd" "ledger cwd" for cwd
  by unfold_locales (auto simp: ledger_start elim!: purging_step.cases intro: ledger_fire)

section \<open>What the guards guarantee\<close>

text \<open>
  C13: First registered wins. In every interleaving of imports, corrections, recoveries and purges, with
  cancellations, thread failures and shutdown abandonment at any point: while a call of
  \<open>purge_library_path\<close> is between its registration and the physical end of its delete worker (and while a
  successful delete is held), no import is placing into a path that equals, contains or lies inside the
  purged one; and a purge claim or a placement that registered after another purge registration does not
  overlap it.
\<close>

theorem first_registered_wins:
  assumes r: "purging_reachable cwd s" and i: "i < length (ps_actors s)" and j: "j < length (ps_actors s)"
  shows "(placing_path (ps_actors s ! i) = Some p \<and> deleting_path (ps_actors s ! j) = Some q \<longrightarrow> \<not> clash cwd p q)
    \<and> (i < j \<and> purge_path (ps_actors s ! i) = Some p
         \<and> (placing_path (ps_actors s ! j) = Some q \<or> claimed_path (ps_actors s ! j) = Some q) \<longrightarrow> \<not> clash cwd p q)
    \<and> (purge_path (ps_actors s ! i) = Some p \<and> clash cwd p q \<longrightarrow> \<not> fst (begin_placement cwd q (ps_guards s)))"
proof (intro conjI impI)
  have l: "ledger cwd s" using r by (rule purging.reachable_inv)
  have ord: "may_follow cwd (ps_actors s ! m) (ps_actors s ! n)" if "m < n" "n < length (ps_actors s)" for m n
    using l that by (auto simp: ledger_def sorted_wrt_iff_nth_less)
  show "\<not> clash cwd p q" if "i < j \<and> purge_path (ps_actors s ! i) = Some p
      \<and> (placing_path (ps_actors s ! j) = Some q \<or> claimed_path (ps_actors s ! j) = Some q)"
    using ord[of i j] that j by (auto simp: may_follow_def)
  show "\<not> clash cwd p q" if h: "placing_path (ps_actors s ! i) = Some p \<and> deleting_path (ps_actors s ! j) = Some q"
  proof -
    have d: "purge_path (ps_actors s ! j) = Some q" using h by (cases "ps_actors s ! j") auto
    have "i \<noteq> j" using h by (cases "ps_actors s ! i") auto
    then consider "i < j" | "j < i" by linarith
    then show ?thesis
    proof cases
      case 1 then show ?thesis using ord[of i j] h j by (auto simp: may_follow_def)
    next
      case 2 then show ?thesis using ord[of j i] h i d by (auto simp: may_follow_def clash_sym)
    qed
  qed
  show "\<not> fst (begin_placement cwd q (ps_guards s))" if h: "purge_path (ps_actors s ! i) = Some p \<and> clash cwd p q"
  proof -
    have "conflicts_with cwd q (pg_purges (ps_guards s))"
      using conflicts_keyed(2)[of cwd purge_path "pg_purges (ps_guards s)" "ps_actors s" q "ps_actors s ! i" p] l h i
      by (auto simp: ledger_def)
    then show ?thesis by (simp add: begin_placement_def)
  qed
qed

text \<open>
  C37: Nothing leaks. In every reachable state at most four filesystem workers of the delete budget run,
  counting the probes whose callers were cancelled and the deletes abandoned at shutdown; when nothing
  holds a path any more both registries are empty, and when no worker runs all four permits are back.
\<close>

theorem registries_drain:
  assumes r: "purging_reachable cwd s"
  shows "length (filter has_permit (ps_actors s)) \<le> ABANDONABLE_DELETE_THREAD_LIMIT
    \<and> ((\<forall>a \<in> set (ps_actors s). purge_path a = None) \<longrightarrow> pg_purges (ps_guards s) = [])
    \<and> ((\<forall>a \<in> set (ps_actors s). placing_path a = None) \<longrightarrow> pg_placements (ps_guards s) = [])
    \<and> ((\<forall>a \<in> set (ps_actors s). \<not> has_permit a) \<longrightarrow> ps_permits s = ABANDONABLE_DELETE_THREAD_LIMIT)"
proof (intro conjI impI)
  have l: "ledger cwd s" using r by (rule purging.reachable_inv)
  note f = l[unfolded ledger_def]
  have t: "tally permit_of () (ps_actors s) = length (filter has_permit (ps_actors s))"
    by (simp add: tally_def permit_of_def[abs_def])
  show "length (filter has_permit (ps_actors s)) \<le> ABANDONABLE_DELETE_THREAD_LIMIT" using f t by linarith
  show "pg_purges (ps_guards s) = []" if "\<forall>a \<in> set (ps_actors s). purge_path a = None"
    using paths.counted_keys[OF conjunct1[OF f]] that by (cases "pg_purges (ps_guards s)") (auto simp: keyed_def)
  show "pg_placements (ps_guards s) = []" if "\<forall>a \<in> set (ps_actors s). placing_path a = None"
    using paths.counted_keys[OF conjunct1[OF conjunct2[OF f]]] that
    by (cases "pg_placements (ps_guards s)") (auto simp: keyed_def)
  show "ps_permits s = ABANDONABLE_DELETE_THREAD_LIMIT" if "\<forall>a \<in> set (ps_actors s). \<not> has_permit a"
  proof -
    have "filter has_permit (ps_actors s) = []" using that by (simp add: filter_empty_conv)
    then show ?thesis using f t by simp
  qed
qed

text \<open>
  C38: A pressure sweep whose lease nobody revoked runs with no correction under its root: in every
  reachable state, no correction holds a purge claim on a path that belongs to the root of an unrevoked
  lease, whether the correction began before the lease was asked for or after it was granted.
\<close>

theorem lease_excludes_corrections:
  assumes "purging_reachable cwd s" "l \<in> set (pg_leases (ps_guards s))" "le_revoked_reason l = None"
    and "Claim p True \<in> set (ps_actors s)" "prefix ''/'' p"
  shows "\<not> le_owns_path l p"
  using purging.reachable_inv[OF assms(1)] assms(2-) by (auto simp: ledger_def lease_clear_def)

section \<open>Examples\<close>

text \<open>
  An abandoned delete: the caller was cancelled, the process is shutting down, the worker still walks the
  directory of a movie while an import runs elsewhere.
\<close>

definition abandoned_delete :: "event list" where
  "abandoned_delete =
     [BeginPlacement ''/media/tv/B/Season 01'', StartPurge ''/media/movies/A/'' True,
      GetPermit 1, ProbeEnds 1 (Refuses False), ProbeSeen 1, GetPermit 1, ProbeEnds 1 (Bytes 7), ProbeSeen 1,
      GetPermit 1, HookReturns 1, Cancel 1, Abandon, BeginPlacement ''/media/movies/A/A.mkv'']"

definition state_after :: "event list \<Rightarrow> purging" where
  "state_after es = (case fire_all ''/'' es purging_start of None \<Rightarrow> purging_start | Some s \<Rightarrow> s)"

lemma state_after_reachable: "purging_reachable ''/'' (state_after es)"
  unfolding state_after_def by (auto split: option.split intro: reach_init fire_all_reachable)

definition after_abandoned :: purging where
  "after_abandoned = state_after abandoned_delete"

lemmas after_abandoned_reachable = state_after_reachable[of abandoned_delete, folded after_abandoned_def]

lemma after_abandoned_actors:
  "ps_actors after_abandoned = [Placement ''/media/tv/B/Season 01'',
     Purge \<lparr>pj_path = ''/media/movies/A/'', pj_hold = True, pj_freed = 7, pj_cancelled = True\<rparr> Orphaned]"
  by code_simp

lemma clash_example: "clash ''/'' ''/media/movies/A/'' ''/media/movies/A/A.mkv''"
  by code_simp

theorem first_registered_wins_witness:
  "\<not> fst (begin_placement ''/'' ''/media/movies/A/A.mkv'' (ps_guards after_abandoned))
   \<and> \<not> clash ''/'' ''/media/tv/B/Season 01'' ''/media/movies/A/''"
  using first_registered_wins[OF after_abandoned_reachable, of 1 1 "''/media/movies/A/''" "''/media/movies/A/A.mkv''"]
    first_registered_wins[OF after_abandoned_reachable, of 0 1 "''/media/tv/B/Season 01''" "''/media/movies/A/''"]
    clash_example
  by (simp add: after_abandoned_actors)

definition all_done :: purging where
  "all_done = state_after (abandoned_delete @ [DeleteEnds 1 DeleteOk, DeleteSeen 1, EndPlacement 0])"

lemmas all_done_reachable =
  state_after_reachable[of "abandoned_delete @ [DeleteEnds 1 DeleteOk, DeleteSeen 1, EndPlacement 0]", folded all_done_def]

lemma all_done_actors: "ps_actors all_done = [Released, Finished Cancelled]"
  by code_simp

theorem registries_drain_witness:
  "pg_purges (ps_guards all_done) = [] \<and> pg_placements (ps_guards all_done) = [] \<and> ps_permits all_done = ABANDONABLE_DELETE_THREAD_LIMIT"
  using registries_drain[OF all_done_reachable] by (simp add: all_done_actors)

definition corrected_sweep :: purging where
  "corrected_sweep = state_after [SweepBegins ''/media/movies'' [''/media/movies'', ''/media/movies/anime''],
     Correct ''/media/movies/anime/X'' ''report'', SweepBegins ''/media/movies/anime'' [''/media/movies'', ''/media/movies/anime'']]"

lemma corrected_sweep_facts:
  "map le_label (pg_leases (ps_guards corrected_sweep)) = [''/media/movies'']"
  "map le_revoked_reason (pg_leases (ps_guards corrected_sweep)) = [None]"
  "ps_actors corrected_sweep = [Claim ''/media/movies/anime/X'' True]"
  by code_simp+

theorem lease_excludes_corrections_witness:
  "\<exists>l \<in> set (pg_leases (ps_guards corrected_sweep)). le_label l = ''/media/movies'' \<and> \<not> le_owns_path l ''/media/movies/anime/X''"
proof -
  obtain l where l: "pg_leases (ps_guards corrected_sweep) = [l]" "le_label l = ''/media/movies''" "le_revoked_reason l = None"
    using corrected_sweep_facts(1,2) by (cases "pg_leases (ps_guards corrected_sweep)") auto
  have "purging_reachable ''/'' corrected_sweep" unfolding corrected_sweep_def by (rule state_after_reachable)
  from lease_excludes_corrections[OF this, of l "''/media/movies/anime/X''"] l show ?thesis
    by (simp add: corrected_sweep_facts(3))
qed

end
