(* ===== verification/Verbs.thy ===== *)
theory Verbs
  imports RequestService FailureFlow PurgeMachine
begin

text \<open>
  Service calls that act on the world as well as on the database: the corrections and the grab. A verb runs
  database calls in its session and acts: it registers torrent removals, claims a library path, adds and
  removes torrents, purges a directory, asks for a scan. These acts and the commits are recorded in the order
  they happen (\<open>dk_trace\<close>), so what is certain when a file goes can be read off the trace. The other sessions
  run wherever the verb awaits without pending writes. What the disk, the purge and the registries of the
  other tasks answer is part of the environment.
\<close>

section \<open>Verbs\<close>

datatype verb_event =
    Committed app_db app_db
  | RemovalRegistered int
  | RemovalReleased int
  | PurgeBegun string
  | LeasesRevoked string
  | PurgeEnded string
  | TorrentAdded string bool
  | TorrentRemoved string
  | TreePurged string PurgeResult
  | LibraryScanned string string

datatype verb_error =
    CallFailed call_error
  | RequestNotFoundError
  | ReportSeasonRequiredError
  | SeasonNotFoundError int
  | NotReportableError string
  | NotCancellableError string
  | HasOtherParticipantsError
  | WithdrawalBlockedActiveError string
  | MediaRootUnavailableError "string option"
  | ActiveDuplicateError int
  | ImportInProgressError
  | DownloadClientRequiredError
  | NoGrabSourceError string
  | AlreadyDownloadingError
  | GrabError string
  | RequestNotActiveError
  | SeasonRequiredError
  | TorrentAlreadyTrackedError string "int option"
  | TorrentRemovalInFlightError string int
  | RowVanishedError string
  | ClientFailed
  | Diverged

record desk =
  dk_session :: session
  dk_removal_ids :: "int list"
  dk_trace :: "verb_event list"

type_synonym 'a verb = "desk \<Rightarrow> (verb_error + 'a) \<times> desk"

record verb_env =
  ve_su :: surroundings
  ve_has_client :: bool
  ve_roots :: LibraryRoots
  ve_mounted :: "nat \<Rightarrow> string option \<Rightarrow> bool"
  ve_begin_purge :: "nat \<Rightarrow> string \<Rightarrow> bool"
  ve_purge :: "nat \<Rightarrow> string \<Rightarrow> PurgeResult"

definition ret :: "'a \<Rightarrow> 'a verb" where
  "ret x d = (Inr x, d)"

definition fail :: "verb_error \<Rightarrow> 'a verb" where
  "fail e d = (Inl e, d)"

definition andthen :: "'a verb \<Rightarrow> ('a \<Rightarrow> 'b verb) \<Rightarrow> 'b verb" where
  "andthen m f d = (case m d of (Inl e, d') \<Rightarrow> (Inl e, d') | (Inr x, d') \<Rightarrow> f x d')"

definition emit :: "verb_event \<Rightarrow> unit verb" where
  "emit e d = (Inr (), d\<lparr>dk_trace := dk_trace d @ [e]\<rparr>)"

definition call :: "'a call \<Rightarrow> 'a verb" where
  "call m d = (case m (dk_session d) of
      (Inl e, s) \<Rightarrow> (Inl (CallFailed e), d\<lparr>dk_session := s\<rparr>)
    | (Inr x, s) \<Rightarrow> (Inr x, d\<lparr>dk_session := s\<rparr>))"

definition commit_verb :: "verb_env \<Rightarrow> unit verb" where
  "commit_verb ve d = andthen (emit (Committed (ss_saved (dk_session d)) (ss_db (dk_session d))))
     (\<lambda>_. call (commit (ve_su ve))) d"

text \<open>\<open>try ... finally\<close> with a handler that only releases, and \<open>except IntegrityError\<close>.\<close>

definition lastly :: "'a verb \<Rightarrow> unit verb \<Rightarrow> 'a verb" where
  "lastly body cleanup d = (case body d of (r, d') \<Rightarrow> (case cleanup d' of
      (Inl e, d'') \<Rightarrow> (Inl e, d'')
    | (Inr _, d'') \<Rightarrow> (r, d'')))"

definition on_integrity :: "'a verb \<Rightarrow> 'a verb \<Rightarrow> 'a verb" where
  "on_integrity body handler d = (case body d of
      (Inl e, d') \<Rightarrow> if e = CallFailed (RepoFailed IntegrityError) then handler d' else (Inl e, d')
    | (Inr x, d') \<Rightarrow> (Inr x, d'))"

primrec each :: "('a \<Rightarrow> unit verb) \<Rightarrow> 'a list \<Rightarrow> unit verb" where
  "each f [] = ret ()"
| "each f (x # xs) = andthen (f x) (\<lambda>_. each f xs)"

definition wait :: "verb_env \<Rightarrow> unit verb" where
  "wait ve = call (pause (ve_su ve))"

definition read_verb :: "verb_env \<Rightarrow> (app_db \<Rightarrow> repo_error + 'a) \<Rightarrow> 'a verb" where
  "read_verb ve f = andthen (wait ve) (\<lambda>_. call (query f))"

definition write_verb :: "'a app_op \<Rightarrow> 'a verb" where
  "write_verb m = call (stmt m)"

definition now_at :: "verb_env \<Rightarrow> datetime" where
  "now_at ve = su_now (ve_su ve)"

text \<open>\<open>request_repo.get\<close> with the 404 refusal.\<close>

definition existing :: "request_record option \<Rightarrow> request_record verb" where
  "existing r = (case r of None \<Rightarrow> fail RequestNotFoundError | Some x \<Rightarrow> ret x)"

definition get_request :: "verb_env \<Rightarrow> int \<Rightarrow> request_record verb" where
  "get_request ve rid = andthen (read_verb ve (\<lambda>db. Inr (get_req db rid))) existing"

text \<open>\<open>get_fresh\<close> under the lock the caller holds.\<close>

definition get_fresh :: "int \<Rightarrow> request_record verb" where
  "get_fresh rid = andthen (call (query (\<lambda>db. Inr (get_req db rid)))) existing"

definition lock_media :: "verb_env \<Rightarrow> request_record \<Rightarrow> unit verb" where
  "lock_media ve request = andthen (wait ve) (\<lambda>_.
     write_verb (acquire_media_lock (rr_tmdb_id request) (rr_media_type request)))"

text \<open>A removal is recorded when the client is asked; its errors are swallowed by the callers.\<close>

definition remove_torrent :: "verb_env \<Rightarrow> string \<Rightarrow> unit verb" where
  "remove_torrent ve torrent_hash = andthen (emit (TorrentRemoved torrent_hash)) (\<lambda>_. wait ve)"

definition add_history :: "int option \<Rightarrow> string option \<Rightarrow> string \<Rightarrow> string option \<Rightarrow> string option \<Rightarrow> unit app_op" where
  "add_history tmdb torrent_hash event source_title message db = app_flush () (db\<lparr>a_history := a_history db @
     [\<lparr>h_id = a_next_id db, h_tmdb_id = tmdb, h_torrent_hash = torrent_hash, h_event_type = event,
       h_source_title = source_title, h_indexer = None, h_message = message\<rparr>], a_next_id := a_next_id db + 1\<rparr>)"

end
