(* ===== verification/Grab.thy ===== *)
theory Grab
  imports Verbs PlexVideo Release
begin

text \<open>
  Grabbing a release (\<open>services/grab_service.py\<close>): the gate, the add to the download client, the converging
  on a torrent that another grab already tracks, the reuse of a finished row, the insert, and the move of the
  request or its seasons to \<open>downloading\<close>, in one transaction, after the client has the torrent. What the
  client answers and the removals other tasks have registered are part of the environment. The two loops of
  the code that may go on while other sessions keep winning run on fuel; running out of it is the error
  \<open>Diverged\<close>. Log lines are left out.
\<close>

section \<open>Value sets\<close>

definition GRABBABLE_REQUEST_STATUS_VALUES :: "string list" where
  "GRABBABLE_REQUEST_STATUS_VALUES = filter (\<lambda>s. s \<notin> set TERMINAL_REQUEST_STATUS_VALUES) REQUEST_STATUSES"

definition GRABBABLE_SEASON_STATUS_VALUES :: "string list" where
  "GRABBABLE_SEASON_STATUS_VALUES = filter (\<lambda>s. s \<noteq> ''cancelled'') REQUEST_STATUSES"

definition PACK_TARGET_SEASON_STATUS_VALUES :: "string list" where
  "PACK_TARGET_SEASON_STATUS_VALUES = [''pending'', ''searching'', ''no_acceptable_release'', ''failed'']"

definition SETTLED_TV_SEASON_STATUS_VALUES :: "string list" where
  "SETTLED_TV_SEASON_STATUS_VALUES = [''available'', ''completed'', ''evicted'']"

definition tv_grab_blocked_by_terminal_parent :: "string \<Rightarrow> string \<Rightarrow> bool" where
  "tv_grab_blocked_by_terminal_parent parent_status observed_season_status \<longleftrightarrow>
     parent_status \<in> set TERMINAL_REQUEST_STATUS_VALUES
     \<and> \<not> (parent_status = ''completed'' \<and> observed_season_status \<notin> set SETTLED_TV_SEASON_STATUS_VALUES)"

section \<open>The call and its world\<close>

record grab_call =
  gc_scored :: scored_release
  gc_request_id :: "int option"
  gc_tmdb_id :: "int option"
  gc_year :: "int option"
  gc_season :: "int option"
  gc_episodes :: "int list option"
  gc_expected_season_status :: "string option"
  gc_scope_episodes_by_season :: "(int \<times> int list option) list option"

record AddResult =
  ar_torrent_hash :: string
  ar_created :: bool
  ar_payload_pending :: bool

text \<open>A dictionary is an association list. For the client, \<open>None\<close> is an exception.\<close>

record grab_env =
  ge_base :: verb_env
  ge_add :: "nat \<Rightarrow> string \<Rightarrow> AddResult option"
  ge_status :: "nat \<Rightarrow> string \<Rightarrow> download_status option option"
  ge_files :: "nat \<Rightarrow> string \<Rightarrow> string list option"
  ge_removing :: "nat \<Rightarrow> int \<Rightarrow> bool"

text \<open>What the gate settles for the rest of the call.\<close>

record grab_plan =
  gp_scored :: scored_release
  gp_source :: string
  gp_request_id :: "int option"
  gp_tmdb_id :: "int option"
  gp_year :: "int option"
  gp_media_type :: "string option"
  gp_season :: "int option"
  gp_episodes :: "int list option"
  gp_scope_episodes :: "(int \<times> int list option) list option"
  gp_observed_request_status :: "string option"
  gp_observed_season_status :: "string option"
  gp_targets :: "int list"
  gp_guards :: "int option list"

definition at_tick :: "(nat \<Rightarrow> 'a) \<Rightarrow> 'a verb" where
  "at_tick f d = (Inr (f (ss_tick (dk_session d))), d)"

definition ask_client :: "grab_env \<Rightarrow> (nat \<Rightarrow> 'a option) \<Rightarrow> 'a verb" where
  "ask_client ge f = andthen (at_tick f) (\<lambda>answer. andthen (wait (ge_base ge)) (\<lambda>_.
     case answer of None \<Rightarrow> fail ClientFailed | Some x \<Rightarrow> ret x))"

definition removing_now :: "grab_env \<Rightarrow> int \<Rightarrow> bool verb" where
  "removing_now ge did = at_tick (\<lambda>t. ge_removing ge t did)"

definition look_up :: "grab_env \<Rightarrow> string \<Rightarrow> download_record option verb" where
  "look_up ge h = read_verb (ge_base ge) (\<lambda>db. Inr (get_by_hash (a_store db) h))"

definition undo :: "grab_env \<Rightarrow> unit verb" where
  "undo ge = call (rollback (ve_su (ge_base ge)))"

definition row_finished :: "download_record \<Rightarrow> bool" where
  "row_finished row \<longleftrightarrow> d_status (fst row) \<in> set TERMINAL_DOWNLOAD_STATUSES"

definition owned_elsewhere :: "grab_plan \<Rightarrow> download_record \<Rightarrow> bool" where
  "owned_elsewhere p row \<longleftrightarrow> gp_request_id p \<noteq> None \<and> d_media_request_id (fst row) \<noteq> gp_request_id p"

definition already_tracked :: "string \<Rightarrow> download_record \<Rightarrow> 'a verb" where
  "already_tracked h row = fail (TorrentAlreadyTrackedError h (d_media_request_id (fst row)))"

definition remove_torrent_if_added :: "grab_env \<Rightarrow> string \<Rightarrow> bool \<Rightarrow> unit verb" where
  "remove_torrent_if_added ge h actually_added =
     (if \<not> actually_added then ret () else remove_torrent (ge_base ge) h)"

definition held_orphan_intent :: "grab_env \<Rightarrow> string \<Rightarrow> (bool \<times> bool) verb" where
  "held_orphan_intent ge h = andthen (ask_client ge (\<lambda>t. ge_status ge t h)) (\<lambda>status. case status of
      None \<Rightarrow> ret (False, False)
    | Some s \<Rightarrow> andthen (if ds_raw_state s \<in> set HELD_METADATA_STATES then ret False
          else andthen (ask_client ge (\<lambda>t. ge_files ge t h)) (\<lambda>files. ret (files \<noteq> []))) (\<lambda>has_manifest.
        if \<not> is_unstarted_held_torrent (ds_raw_state s) (ds_progress s) has_manifest then ret (False, False)
        else ret (True, ds_force_start s \<or> ds_raw_state s = ''forcedMetaDL'')))"

section \<open>Targets, guards and conflicts\<close>

text \<open>\<open>dict.fromkeys\<close> keeps the first of equal elements.\<close>

definition first_occurrences :: "'a list \<Rightarrow> 'a list" where
  "first_occurrences xs = rev (remdups (rev xs))"

definition planned_target_seasons :: "scored_release \<Rightarrow> int option \<Rightarrow> int list" where
  "planned_target_seasons scored ssn = (case ssn of None \<Rightarrow> []
     | Some n \<Rightarrow> first_occurrences (if target_seasons scored = [] then [n] else target_seasons scored))"

definition active_guard_seasons :: "scored_release \<Rightarrow> int option \<Rightarrow> int list \<Rightarrow> int option list" where
  "active_guard_seasons scored ssn targets =
     (if covered_seasons scored \<noteq> [] then map Some (first_occurrences (targets @ covered_seasons scored))
      else if targets \<noteq> [] then map Some targets else [ssn])"

definition target_episodes :: "grab_plan \<Rightarrow> int \<Rightarrow> int \<Rightarrow> int list option" where
  "target_episodes p primary target =
     (if target = primary then gp_episodes p
      else case gp_scope_episodes p of None \<Rightarrow> None
        | Some by_season \<Rightarrow> (case map_of by_season target of None \<Rightarrow> None | Some episodes \<Rightarrow> episodes))"

definition normalized_episodes :: "int list option \<Rightarrow> int list option" where
  "normalized_episodes episodes = (let xs = sorted_set (case episodes of None \<Rightarrow> [] | Some es \<Rightarrow> es)
     in if xs = [] then None else Some xs)"

definition differs :: "string \<Rightarrow> download_record option \<Rightarrow> bool" where
  "differs h other = (case other of None \<Rightarrow> False | Some row \<Rightarrow> d_torrent_hash (fst row) \<noteq> h)"

primrec conflict_for :: "grab_env \<Rightarrow> int \<Rightarrow> string \<Rightarrow> int option list \<Rightarrow> download_record option verb" where
  "conflict_for ge rid h [] = ret None"
| "conflict_for ge rid h (n # ns) =
     andthen (read_verb (ge_base ge) (\<lambda>db. Inr (find_active_for_request (a_store db) rid n))) (\<lambda>active.
     if differs h active then ret active
     else andthen (read_verb (ge_base ge) (\<lambda>db. Inr (find_active_coverage_owner (a_store db) rid n))) (\<lambda>covered.
       if differs h covered then ret covered else conflict_for ge rid h ns))"

definition active_conflict_for_targets ::
  "grab_env \<Rightarrow> int option \<Rightarrow> int option list \<Rightarrow> string \<Rightarrow> download_record option verb" where
  "active_conflict_for_targets ge request seasons h =
     (case request of None \<Rightarrow> ret None | Some rid \<Rightarrow> conflict_for ge rid h seasons)"

definition claim_covered_seasons :: "int \<Rightarrow> int \<Rightarrow> int option list \<Rightarrow> unit verb" where
  "claim_covered_seasons did rid guards = each (\<lambda>g. case g of None \<Rightarrow> ret ()
     | Some n \<Rightarrow> write_verb (on_store (ensure_coverage_claim did rid n))) guards"

section \<open>Converging on a torrent that is already tracked\<close>

definition scope_attached :: "grab_plan \<Rightarrow> int \<Rightarrow> int \<Rightarrow> scope_row list \<Rightarrow> season_record list \<Rightarrow> int \<Rightarrow> bool" where
  "scope_attached p rid primary scopes seasons target \<longleftrightarrow>
     list_ex (\<lambda>s. s_media_request_id s = Some rid \<and> s_season s = Some target
       \<and> normalized_episodes (s_episodes s) = normalized_episodes (target_episodes p primary target)
       \<and> s_status s \<in> set ACTIVE_SCOPE_STATUSES) scopes
     \<and> map_of (rev (map (\<lambda>z. (zr_season_number z, zr_status z)) seasons)) target = Some ''downloading''"

definition attached_target_scopes :: "grab_env \<Rightarrow> grab_plan \<Rightarrow> int \<Rightarrow> int \<Rightarrow> int \<Rightarrow> int list \<Rightarrow> bool verb" where
  "attached_target_scopes ge p did rid primary targets =
     andthen (read_verb (ge_base ge) (\<lambda>db. Inr (list_scopes (a_store db) did))) (\<lambda>scopes.
     andthen (read_verb (ge_base ge) (\<lambda>db. list_for_request_sea db rid)) (\<lambda>seasons.
     ret (list_all (scope_attached p rid primary scopes seasons) targets)))"

definition converge_on_same_hash_owner ::
  "grab_env \<Rightarrow> grab_plan \<Rightarrow> int \<Rightarrow> int \<Rightarrow> int list \<Rightarrow> download_record \<Rightarrow> download_record verb" where
  "converge_on_same_hash_owner ge p rid primary targets owner =
     andthen (attached_target_scopes ge p (d_id (fst owner)) rid primary targets) (\<lambda>attached.
     if attached then ret owner else fail RequestNotActiveError)"

definition resolve_same_hash_owner ::
  "grab_env \<Rightarrow> grab_plan \<Rightarrow> int \<Rightarrow> int \<Rightarrow> int list \<Rightarrow> string \<Rightarrow> bool \<Rightarrow> bool \<Rightarrow> download_record verb" where
  "resolve_same_hash_owner ge p rid primary targets h has_client actually_added =
     (let cleanup = (if has_client then remove_torrent_if_added ge h actually_added else ret ());
          converge = converge_on_same_hash_owner ge p rid primary targets in
      andthen (look_up ge h) (\<lambda>owner. case owner of
        None \<Rightarrow> andthen cleanup (\<lambda>_. fail RequestNotActiveError)
      | Some row \<Rightarrow>
          if \<not> row_finished row then converge row
          else let did = d_id (fst row) in
            andthen (emit (RemovalRegistered did)) (\<lambda>_.
            andthen (lastly
              (andthen (read_verb (ge_base ge) (\<lambda>db. Inr (lock_if_terminal (a_store db) did))) (\<lambda>still_terminal.
               andthen (undo ge) (\<lambda>_.
               andthen (if still_terminal then ret None else look_up ge h) (\<lambda>reowned. case reowned of
                 Some r \<Rightarrow> if \<not> row_finished r then andthen (converge r) (\<lambda>x. ret (Some x))
                           else andthen cleanup (\<lambda>_. ret None)
               | None \<Rightarrow> andthen cleanup (\<lambda>_. ret None)))))
              (emit (RemovalReleased did))) (\<lambda>answer. case answer of
                None \<Rightarrow> fail RequestNotActiveError
              | Some x \<Rightarrow> ret x))))"

section \<open>Attaching target scopes to an active torrent\<close>

definition attach_from :: "grab_plan \<Rightarrow> int \<Rightarrow> int \<Rightarrow> string list" where
  "attach_from p primary target = (case gp_observed_season_status p of
      Some st \<Rightarrow> if target = primary then [st] else PACK_TARGET_SEASON_STATUS_VALUES
    | None \<Rightarrow> PACK_TARGET_SEASON_STATUS_VALUES)"

text \<open>The scope of each target in turn, and its season moved; \<open>False\<close> at the first that does not move.\<close>

primrec move_targets ::
  "datetime \<Rightarrow> grab_plan \<Rightarrow> int \<Rightarrow> int \<Rightarrow> int \<Rightarrow> (int \<Rightarrow> string list) \<Rightarrow> int list \<Rightarrow> bool verb" where
  "move_targets now p did rid primary from_statuses [] = ret True"
| "move_targets now p did rid primary from_statuses (n # ns) =
     andthen (write_verb (on_store (ensure_scope did (Some rid) (Some n) (target_episodes p primary n)))) (\<lambda>_.
     andthen (write_verb (ensure_pending rid n)) (\<lambda>row.
     andthen (write_verb (set_status_if_in now rid (zr_id row) ''downloading'' (from_statuses n) no_guard False)) (\<lambda>moved.
     if \<not> moved then ret False else move_targets now p did rid primary from_statuses ns)))"

definition attach_collision ::
  "(download_record \<Rightarrow> download_record option verb) \<Rightarrow> grab_env \<Rightarrow> grab_plan \<Rightarrow> int \<Rightarrow> int \<Rightarrow> int list \<Rightarrow> int option list
     \<Rightarrow> string \<Rightarrow> bool \<Rightarrow> bool \<Rightarrow> download_record option verb" where
  "attach_collision again ge p rid primary targets guards h has_client actually_added =
     andthen (undo ge) (\<lambda>_.
     andthen (active_conflict_for_targets ge (Some rid) guards h) (\<lambda>conflict.
     if conflict \<noteq> None
     then andthen (if has_client then remove_torrent_if_added ge h actually_added else ret ()) (\<lambda>_.
       fail AlreadyDownloadingError)
     else andthen (look_up ge h) (\<lambda>found. case found of
       None \<Rightarrow> fail (RowVanishedError h)
     | Some row \<Rightarrow> andthen (attached_target_scopes ge p (d_id (fst row)) rid primary targets) (\<lambda>attached.
         if attached then ret (Some row) else if row_finished row then ret None else again row))))"

definition attach_once ::
  "(download_record \<Rightarrow> download_record option verb) \<Rightarrow> grab_env \<Rightarrow> grab_plan \<Rightarrow> bool \<Rightarrow> bool \<Rightarrow> download_record
     \<Rightarrow> download_record option verb" where
  "attach_once again ge p has_client actually_added row = (case (gp_request_id p, gp_season p) of
      (Some rid, Some primary) \<Rightarrow>
        let did = d_id (fst row); h = d_torrent_hash (fst row);
            targets = (if gp_targets p = [] then [primary] else gp_targets p);
            guards = (if gp_guards p = [] then map Some targets else gp_guards p) in
        if row_finished row then ret None
        else andthen (active_conflict_for_targets ge (Some rid) guards h) (\<lambda>conflict.
        if conflict \<noteq> None then fail AlreadyDownloadingError
        else andthen (read_verb (ge_base ge) (\<lambda>db. Inr (lock_if_active (a_store db) did))) (\<lambda>locked.
        if \<not> locked then andthen (undo ge) (\<lambda>_. ret None)
        else andthen (on_integrity
            (andthen (move_targets (now_at (ge_base ge)) p did rid primary (attach_from p primary) targets) (\<lambda>moved.
             if \<not> moved
             then andthen (undo ge) (\<lambda>_. andthen (resolve_same_hash_owner ge p rid primary targets h has_client actually_added)
               (\<lambda>owner. ret (Some (Some owner))))
             else andthen (claim_covered_seasons did rid guards) (\<lambda>_. ret None)))
            (andthen (attach_collision again ge p rid primary targets guards h has_client actually_added)
              (\<lambda>answer. ret (Some answer)))) (\<lambda>settled_by.
          case settled_by of
            Some answer \<Rightarrow> ret answer
          | None \<Rightarrow> andthen (commit_verb (ge_base ge)) (\<lambda>_. andthen (look_up ge h) (\<lambda>found. case found of
              None \<Rightarrow> fail (RowVanishedError h)
            | Some record \<Rightarrow> ret (Some record))))))
    | _ \<Rightarrow> ret (Some row))"

primrec attach ::
  "nat \<Rightarrow> grab_env \<Rightarrow> grab_plan \<Rightarrow> bool \<Rightarrow> bool \<Rightarrow> download_record \<Rightarrow> download_record option verb" where
  "attach 0 ge p has_client actually_added row = fail Diverged"
| "attach (Suc k) ge p has_client actually_added row =
     attach_once (attach k ge p has_client actually_added) ge p has_client actually_added row"

section \<open>After an attachment lost to a row that finished\<close>

definition scope_still_grabbable :: "grab_env \<Rightarrow> int \<Rightarrow> int \<Rightarrow> bool verb" where
  "scope_still_grabbable ge rid n =
     andthen (read_verb (ge_base ge) (\<lambda>db. Inr (get_req db rid))) (\<lambda>request. case request of
       None \<Rightarrow> ret False
     | Some r \<Rightarrow>
         if rr_media_type r \<noteq> ''tv'' then ret (rr_status r \<notin> set TERMINAL_REQUEST_STATUS_VALUES)
         else andthen (read_verb (ge_base ge) (\<lambda>db. list_for_request_sea db rid)) (\<lambda>seasons.
           let status = (case find (\<lambda>z. zr_season_number z = n) seasons of None \<Rightarrow> ''pending'' | Some z \<Rightarrow> zr_status z)
           in ret (status \<noteq> ''cancelled'' \<and> status \<noteq> ''waiting_for_air_date''
                \<and> \<not> tv_grab_blocked_by_terminal_parent (rr_status r) status)))"

definition refuse_unsafe_attachment_loss_recovery ::
  "grab_env \<Rightarrow> grab_plan \<Rightarrow> int \<Rightarrow> int \<Rightarrow> string \<Rightarrow> int \<Rightarrow> unit verb" where
  "refuse_unsafe_attachment_loss_recovery ge p rid n h did =
     andthen (undo ge) (\<lambda>_.
     andthen (call (query (\<lambda>db. is_blocklisted_repo db (gp_tmdb_id p) (Some h) (cand_title (sc_candidate (gp_scored p)))
         (Some (indexer_name (sc_candidate (gp_scored p)))) (gp_media_type p)))) (\<lambda>listed.
     if listed then andthen (undo ge) (\<lambda>_. fail RequestNotActiveError)
     else andthen (scope_still_grabbable ge rid n) (\<lambda>grabbable.
     if \<not> grabbable then andthen (undo ge) (\<lambda>_. fail RequestNotActiveError)
     else andthen (undo ge) (\<lambda>_. andthen (removing_now ge did) (\<lambda>removing.
       if removing then fail (TorrentRemovalInFlightError h did) else ret ())))))"

definition surviving_claim_after_attachment_loss ::
  "grab_env \<Rightarrow> grab_plan \<Rightarrow> int \<Rightarrow> int \<Rightarrow> string \<Rightarrow> int \<Rightarrow> bool verb" where
  "surviving_claim_after_attachment_loss ge p rid n h did =
     andthen (refuse_unsafe_attachment_loss_recovery ge p rid n h did) (\<lambda>_.
     andthen (ask_client ge (\<lambda>t. ge_status ge t h)) (\<lambda>status.
     if status = None then fail (TorrentRemovalInFlightError h did) else ret False))"

section \<open>Reusing a finished row\<close>

record payload_intent =
  pi_pending :: bool
  pi_resume :: bool
  pi_force_start :: bool

definition grab_update :: "datetime \<Rightarrow> grab_plan \<Rightarrow> payload_intent \<Rightarrow> status_update" where
  "grab_update now p i = no_update\<lparr>su_media_request_id := gp_request_id p, su_magnet_link := Some (gp_source p),
     su_tmdb_id := gp_tmdb_id p, su_year := gp_year p, su_season := gp_season p, su_episodes := gp_episodes p,
     su_media_type := gp_media_type p, su_release_title := Some (cand_title (sc_candidate (gp_scored p))),
     su_timeout_at := Some (now + METADATA_STALL_WINDOW), su_payload_pending := Some (pi_pending i),
     su_payload_resume := Some (pi_resume i), su_payload_force_start := Some (pi_force_start i)\<rparr>"

definition reuse_update :: "datetime \<Rightarrow> grab_plan \<Rightarrow> payload_intent \<Rightarrow> status_update" where
  "reuse_update now p i = (grab_update now p i)\<lparr>su_progress := Some 0, su_seed_ratio := Some 0,
     su_clear_failed_reason := True, su_clear_first_seen_at := True, su_clear_download_path := True,
     su_replace_grab_metadata := True, su_added_at := Some now, su_retry_count := Some 0,
     su_clear_payload_rejection := True\<rparr>"

definition reuse_terminal_row ::
  "grab_env \<Rightarrow> grab_plan \<Rightarrow> int \<Rightarrow> string \<Rightarrow> bool \<Rightarrow> payload_intent \<Rightarrow> (download_record \<times> bool) verb" where
  "reuse_terminal_row ge p did h actually_added i =
     andthen (removing_now ge did) (\<lambda>removing.
     if removing
     then andthen (remove_torrent_if_added ge h actually_added) (\<lambda>_. fail (TorrentRemovalInFlightError h did))
     else andthen (wait (ge_base ge)) (\<lambda>_.
     andthen (write_verb (cas_download (now_at (ge_base ge)) did (state_str Downloading) TERMINAL_DOWNLOAD_STATUSES
         (reuse_update (now_at (ge_base ge)) p i))) (\<lambda>claimed.
     andthen (if claimed then ret () else undo ge) (\<lambda>_.
     andthen (call (query (\<lambda>db. Inr (get_by_hash (a_store db) h)))) (\<lambda>found. case found of
       None \<Rightarrow> fail (RowVanishedError h)
     | Some record \<Rightarrow> ret (record, claimed))))))"

text \<open>Where a call stands once a row is settled: it has joined a tracked torrent, or it holds its own row.\<close>

datatype grab_row = Joined download_record | Holding download_record bool

definition reuse_conflict :: "grab_env \<Rightarrow> grab_plan \<Rightarrow> string \<Rightarrow> bool \<Rightarrow> 'a verb" where
  "reuse_conflict ge p h actually_added =
     andthen (undo ge) (\<lambda>_.
     andthen (active_conflict_for_targets ge (gp_request_id p) (gp_guards p) h) (\<lambda>active.
     if active \<noteq> None
     then andthen (remove_torrent_if_added ge h actually_added) (\<lambda>_. fail AlreadyDownloadingError)
     else fail (CallFailed (RepoFailed IntegrityError))))"

text \<open>
  The two \<open>while True\<close> loops of \<open>grab\<close>. One stands in its \<open>try\<close> as a whole, the other catches around the
  reuse; only the reuse raises \<open>IntegrityError\<close>, so they are one.
\<close>

primrec reuse_loop ::
  "nat \<Rightarrow> grab_env \<Rightarrow> grab_plan \<Rightarrow> int \<Rightarrow> string \<Rightarrow> bool \<Rightarrow> payload_intent \<Rightarrow> grab_row verb" where
  "reuse_loop 0 ge p did h actually_added i = fail Diverged"
| "reuse_loop (Suc k) ge p did h actually_added i =
     andthen (on_integrity (reuse_terminal_row ge p did h actually_added i) (reuse_conflict ge p h actually_added))
       (\<lambda>(record, claimed_reuse).
     if claimed_reuse then ret (Holding record actually_added)
     else if row_finished record then already_tracked h record
     else if owned_elsewhere p record then already_tracked h record
     else case (gp_request_id p, gp_season p) of
       (Some rid, Some n) \<Rightarrow>
         andthen (attach k ge p True actually_added record) (\<lambda>attached. case attached of
           Some x \<Rightarrow> ret (Joined x)
         | None \<Rightarrow> andthen (surviving_claim_after_attachment_loss ge p rid n h (d_id (fst record))) (\<lambda>claim.
             reuse_loop k ge p did h claim i))
     | _ \<Rightarrow> ret (Joined record))"

section \<open>Inserting a row\<close>

definition create_collision :: "nat \<Rightarrow> grab_env \<Rightarrow> grab_plan \<Rightarrow> string \<Rightarrow> bool \<Rightarrow> payload_intent \<Rightarrow> grab_row verb" where
  "create_collision k ge p h actually_added i =
     andthen (undo ge) (\<lambda>_.
     andthen (active_conflict_for_targets ge (gp_request_id p) (gp_guards p) h) (\<lambda>active.
     if active \<noteq> None
     then andthen (remove_torrent_if_added ge h actually_added) (\<lambda>_. fail AlreadyDownloadingError)
     else andthen (look_up ge h) (\<lambda>found. case found of
       None \<Rightarrow> fail (CallFailed (RepoFailed IntegrityError))
     | Some winner \<Rightarrow>
         if row_finished winner then reuse_loop k ge p (d_id (fst winner)) h actually_added i
         else if owned_elsewhere p winner then already_tracked h winner
         else case (gp_request_id p, gp_season p) of
           (Some rid, Some n) \<Rightarrow>
             andthen (attach k ge p True actually_added winner) (\<lambda>attached. case attached of
               Some x \<Rightarrow> ret (Joined x)
             | None \<Rightarrow> andthen (surviving_claim_after_attachment_loss ge p rid n h (d_id (fst winner))) (\<lambda>claim.
                 reuse_loop k ge p (d_id (fst winner)) h claim i))
         | _ \<Rightarrow> ret (Joined winner))))"

definition insert_download :: "nat \<Rightarrow> grab_env \<Rightarrow> grab_plan \<Rightarrow> string \<Rightarrow> bool \<Rightarrow> payload_intent \<Rightarrow> grab_row verb" where
  "insert_download k ge p h actually_added i =
     andthen (wait (ge_base ge)) (\<lambda>_.
     on_integrity
       (andthen (write_verb (on_store (DownloadRepo.create (now_at (ge_base ge)) h (state_str Downloading)
           (grab_update (now_at (ge_base ge)) p i)))) (\<lambda>record. ret (Holding record actually_added)))
       (create_collision k ge p h actually_added i))"

section \<open>The move to downloading\<close>

definition grabbed_message :: "scored_release \<Rightarrow> string" where
  "grabbed_message scored = ''grabbed '' @ q_name (sc_quality scored) @ '' from '' @ indexer_name (sc_candidate scored)"

definition record_grabbed :: "grab_plan \<Rightarrow> string \<Rightarrow> unit app_op" where
  "record_grabbed p h db = app_flush () (db\<lparr>a_history := a_history db @
     [\<lparr>h_id = a_next_id db, h_tmdb_id = gp_tmdb_id p, h_torrent_hash = Some h, h_event_type = ''grabbed'',
       h_source_title = Some (cand_title (sc_candidate (gp_scored p))),
       h_indexer = Some (indexer_name (sc_candidate (gp_scored p))),
       h_message = Some (grabbed_message (gp_scored p))\<rparr>], a_next_id := a_next_id db + 1\<rparr>)"

definition season_from :: "grab_plan \<Rightarrow> string list" where
  "season_from p = (case gp_observed_season_status p of Some st \<Rightarrow> [st] | None \<Rightarrow> GRABBABLE_SEASON_STATUS_VALUES)"

definition request_from :: "grab_plan \<Rightarrow> string list" where
  "request_from p = (case gp_observed_request_status p of Some st \<Rightarrow> [st] | None \<Rightarrow> GRABBABLE_REQUEST_STATUS_VALUES)"

definition start_season ::
  "grab_env \<Rightarrow> grab_plan \<Rightarrow> int \<Rightarrow> int \<Rightarrow> string \<Rightarrow> int \<Rightarrow> bool \<Rightarrow> bool verb" where
  "start_season ge p rid n h did actually_added =
     andthen (write_verb (ensure_pending rid n)) (\<lambda>row.
     andthen (write_verb (set_status_if_in (now_at (ge_base ge)) rid (zr_id row) ''downloading'' (season_from p) no_guard False))
       (\<lambda>moved.
     if \<not> moved then ret False
     else andthen (on_integrity
         (andthen (move_targets (now_at (ge_base ge)) p did rid n (\<lambda>_. PACK_TARGET_SEASON_STATUS_VALUES)
             (filter (\<lambda>t. t \<noteq> n) (gp_targets p))) (\<lambda>all_moved.
          if \<not> all_moved
          then andthen (undo ge) (\<lambda>_. andthen (remove_torrent_if_added ge h actually_added) (\<lambda>_. fail RequestNotActiveError))
          else claim_covered_seasons did rid (gp_guards p)))
         (reuse_conflict ge p h actually_added)) (\<lambda>_. ret True)))"

definition start_request :: "grab_env \<Rightarrow> grab_plan \<Rightarrow> int \<Rightarrow> string \<Rightarrow> int \<Rightarrow> bool \<Rightarrow> bool verb" where
  "start_request ge p rid h did actually_added = (case gp_season p of
      Some n \<Rightarrow> start_season ge p rid n h did actually_added
    | None \<Rightarrow> write_verb (set_status_if_in_req rid ''downloading'' (request_from p) False False))"

definition settle_grab :: "grab_env \<Rightarrow> grab_plan \<Rightarrow> string \<Rightarrow> grab_row \<Rightarrow> download_record verb" where
  "settle_grab ge p h outcome = (case outcome of
      Joined record \<Rightarrow> ret record
    | Holding record actually_added \<Rightarrow>
        andthen (write_verb (record_grabbed p h)) (\<lambda>_.
        andthen (case gp_request_id p of None \<Rightarrow> ret True
          | Some rid \<Rightarrow> start_request ge p rid h (d_id (fst record)) actually_added) (\<lambda>moved.
        if \<not> moved
        then andthen (undo ge) (\<lambda>_. andthen (remove_torrent_if_added ge h actually_added) (\<lambda>_. fail RequestNotActiveError))
        else andthen (commit_verb (ge_base ge)) (\<lambda>_. andthen (look_up ge h) (\<lambda>refreshed.
          ret (case refreshed of None \<Rightarrow> record | Some r \<Rightarrow> r))))))"

section \<open>The gate\<close>

definition plan_for :: "grab_call \<Rightarrow> string \<Rightarrow> string option \<Rightarrow> string option \<Rightarrow> string option \<Rightarrow> int option \<Rightarrow> int list option
    \<Rightarrow> grab_plan" where
  "plan_for gc source mt observed_request observed_season ssn episodes =
     (let targets = planned_target_seasons (gc_scored gc) ssn in
      \<lparr>gp_scored = gc_scored gc, gp_source = source, gp_request_id = gc_request_id gc, gp_tmdb_id = gc_tmdb_id gc,
       gp_year = gc_year gc, gp_media_type = mt, gp_season = ssn, gp_episodes = episodes,
       gp_scope_episodes = gc_scope_episodes_by_season gc, gp_observed_request_status = observed_request,
       gp_observed_season_status = observed_season, gp_targets = targets,
       gp_guards = active_guard_seasons (gc_scored gc) ssn targets\<rparr>)"

definition season_refused :: "grab_call \<Rightarrow> string \<Rightarrow> string \<Rightarrow> bool" where
  "season_refused gc parent_status observed \<longleftrightarrow> observed = ''cancelled'' \<or> observed = ''waiting_for_air_date''
     \<or> (gc_expected_season_status gc \<noteq> None \<and> gc_expected_season_status gc \<noteq> Some observed)
     \<or> tv_grab_blocked_by_terminal_parent parent_status observed"

definition grab_gate :: "grab_env \<Rightarrow> grab_call \<Rightarrow> string \<Rightarrow> grab_plan verb" where
  "grab_gate ge gc source = (case gc_request_id gc of
      None \<Rightarrow> ret (plan_for gc source None None None (gc_season gc) (gc_episodes gc))
    | Some rid \<Rightarrow> andthen (read_verb (ge_base ge) (\<lambda>db. Inr (get_req db rid))) (\<lambda>request. case request of
        None \<Rightarrow> ret (plan_for gc source None None None (gc_season gc) (gc_episodes gc))
      | Some r \<Rightarrow>
          if rr_media_type r = ''tv'' then (case gc_season gc of
              None \<Rightarrow> fail SeasonRequiredError
            | Some n \<Rightarrow> andthen (read_verb (ge_base ge) (\<lambda>db. list_for_request_sea db rid)) (\<lambda>seasons.
                let observed = (case find (\<lambda>z. zr_season_number z = n) seasons of
                      None \<Rightarrow> ''pending'' | Some z \<Rightarrow> zr_status z)
                in if season_refused gc (rr_status r) observed then fail RequestNotActiveError
                   else ret (plan_for gc source (Some ''tv'') (Some (rr_status r)) (Some observed) (Some n) (gc_episodes gc))))
          else if rr_status r \<in> set TERMINAL_REQUEST_STATUS_VALUES then fail RequestNotActiveError
          else ret (plan_for gc source (Some (rr_media_type r)) (Some (rr_status r)) None None None)))"

text \<open>A truthy \<open>str | None\<close>.\<close>

definition truthy_text :: "string option \<Rightarrow> string option" where
  "truthy_text s = (if s = Some [] then None else s)"

definition known_hash :: "grab_call \<Rightarrow> string option" where
  "known_hash gc = map_option py_lower (truthy_text (cand_info_hash (sc_candidate (gc_scored gc))))"

text \<open>The look at the hash the indexer gave: \<open>Some\<close> record is the answer of the call.\<close>

definition precheck :: "nat \<Rightarrow> grab_env \<Rightarrow> grab_plan \<Rightarrow> string \<Rightarrow> download_record option verb" where
  "precheck k ge p h = andthen (look_up ge h) (\<lambda>found. case found of
      None \<Rightarrow> ret None
    | Some pre \<Rightarrow>
        if row_finished pre then andthen (removing_now ge (d_id (fst pre))) (\<lambda>removing.
          if removing then fail (TorrentRemovalInFlightError h (d_id (fst pre))) else ret None)
        else if owned_elsewhere p pre then already_tracked h pre
        else case (gp_request_id p, gp_season p) of
          (Some rid, Some n) \<Rightarrow> andthen (attach k ge p False False pre) (\<lambda>attached. case attached of
              Some x \<Rightarrow> ret (Some x)
            | None \<Rightarrow> andthen (refuse_unsafe_attachment_loss_recovery ge p rid n h (d_id (fst pre))) (\<lambda>_. ret None))
        | _ \<Rightarrow> ret (Some pre))"

definition parallel_guard :: "grab_env \<Rightarrow> grab_plan \<Rightarrow> string option \<Rightarrow> unit verb" where
  "parallel_guard ge p known = (case known of None \<Rightarrow> ret ()
     | Some h \<Rightarrow> andthen (active_conflict_for_targets ge (gp_request_id p) (gp_guards p) h) (\<lambda>active.
         if active \<noteq> None then fail AlreadyDownloadingError else ret ()))"

text \<open>What is tracked under the hash the client answered: the row to build on with the claim that is left, or the answer.\<close>

definition already_active ::
  "nat \<Rightarrow> grab_env \<Rightarrow> grab_plan \<Rightarrow> string \<Rightarrow> bool \<Rightarrow> download_record option \<Rightarrow> (download_record + bool) verb" where
  "already_active k ge p h created standing = (case standing of
      None \<Rightarrow> ret (Inr created)
    | Some row \<Rightarrow>
        if row_finished row then ret (Inr created)
        else if owned_elsewhere p row then already_tracked h row
        else case (gp_request_id p, gp_season p) of
          (Some rid, Some n) \<Rightarrow> andthen (attach k ge p True created row) (\<lambda>attached. case attached of
              Some x \<Rightarrow> ret (Inl x)
            | None \<Rightarrow> andthen (surviving_claim_after_attachment_loss ge p rid n h (d_id (fst row))) (\<lambda>claim. ret (Inr claim)))
        | _ \<Rightarrow> ret (Inl row))"

definition track ::
  "nat \<Rightarrow> grab_env \<Rightarrow> grab_plan \<Rightarrow> string \<Rightarrow> AddResult \<Rightarrow> download_record verb" where
  "track k ge p h add_result =
     andthen (look_up ge h) (\<lambda>found.
     andthen (already_active k ge p h (ar_created add_result) found) (\<lambda>standing. case standing of
       Inl record \<Rightarrow> ret record
     | Inr actually_added \<Rightarrow>
         andthen (active_conflict_for_targets ge (gp_request_id p) (gp_guards p) h) (\<lambda>active.
         if active \<noteq> None
         then andthen (remove_torrent_if_added ge h actually_added) (\<lambda>_. fail AlreadyDownloadingError)
         else let tracked = (case found of None \<Rightarrow> False | Some row \<Rightarrow> \<not> row_finished row);
                  resume = (ar_payload_pending add_result \<and> ar_created add_result) in
           andthen (if ar_payload_pending add_result \<and> \<not> resume \<and> \<not> tracked then held_orphan_intent ge h
                    else ret (resume, False)) (\<lambda>(payload_resume, payload_force_start).
           let i = \<lparr>pi_pending = ar_payload_pending add_result, pi_resume = payload_resume,
                     pi_force_start = payload_force_start\<rparr> in
           andthen (case found of
               Some row \<Rightarrow> reuse_loop k ge p (d_id (fst row)) h actually_added i
             | None \<Rightarrow> insert_download k ge p h actually_added i) (\<lambda>outcome. settle_grab ge p h outcome)))))"

definition add_and_track :: "nat \<Rightarrow> grab_env \<Rightarrow> grab_plan \<Rightarrow> string option \<Rightarrow> download_record verb" where
  "add_and_track k ge p known =
     andthen (ask_client ge (\<lambda>t. ge_add ge t (gp_source p))) (\<lambda>add_result.
     let h = (if py_lower (ar_torrent_hash add_result) \<noteq> [] then py_lower (ar_torrent_hash add_result)
              else case known of None \<Rightarrow> [] | Some x \<Rightarrow> x) in
     andthen (emit (TorrentAdded h (ar_created add_result))) (\<lambda>_.
     if h = [] then fail (GrabError (cand_title (sc_candidate (gp_scored p))))
     else track k ge p h add_result))"

definition grab :: "nat \<Rightarrow> grab_env \<Rightarrow> grab_call \<Rightarrow> download_record verb" where
  "grab k ge gc =
     (let candidate = sc_candidate (gc_scored gc) in
      case (case truthy_text (magnet_url candidate) of Some m \<Rightarrow> Some m | None \<Rightarrow> download_url candidate) of
        None \<Rightarrow> fail (NoGrabSourceError (guid candidate))
      | Some source \<Rightarrow>
          andthen (grab_gate ge gc source) (\<lambda>p.
          andthen (case known_hash gc of None \<Rightarrow> ret None | Some h \<Rightarrow> precheck k ge p h) (\<lambda>answer. case answer of
            Some record \<Rightarrow> ret record
          | None \<Rightarrow> andthen (parallel_guard ge p (known_hash gc)) (\<lambda>_. add_and_track k ge p (known_hash gc)))))"

end
