(* ===== verification/Corrections.thy ===== *)
theory Corrections
  imports Verbs
begin

text \<open>
  The operator's corrections (\<open>services/correction_service.py\<close>) as verbs: report a bad file, cancel a
  request, and withdraw from a shared one. The inline search for a replacement at the end of a report, the
  audit log, log lines and the cancellation of the calling task are left out.
\<close>

section \<open>Value sets\<close>

definition REPORTABLE_STATUS_VALUES :: "string list" where
  "REPORTABLE_STATUS_VALUES = [''completed'', ''available'']"

definition CANCELLABLE_REQUEST_STATUS_VALUES :: "string list" where
  "CANCELLABLE_REQUEST_STATUS_VALUES =
     [''pending'', ''searching'', ''no_acceptable_release'', ''waiting_for_air_date'', ''downloading'']"

definition UNCANCELLABLE_SEASON_STATUS_VALUES :: "string list" where
  "UNCANCELLABLE_SEASON_STATUS_VALUES = [''available'', ''completed'']"

definition CANCELLABLE_DOWNLOAD_STATE_VALUES :: "string list" where
  "CANCELLABLE_DOWNLOAD_STATE_VALUES = [''searching'', ''downloading'', ''metadata_fetching'', ''import_pending'',
     ''import_blocked'', ''failed_pending'', ''client_missing'']"

section \<open>Cancelling\<close>

definition uncancellable_season :: "app_db \<Rightarrow> int \<Rightarrow> season_record \<Rightarrow> bool" where
  "uncancellable_season db rid z \<longleftrightarrow> zr_status z \<in> set UNCANCELLABLE_SEASON_STATUS_VALUES
     \<or> find_latest_imported_for_request (a_store db) rid (Some (zr_season_number z)) \<noteq> None"

definition cancellable_seasons :: "request_record \<Rightarrow> int \<Rightarrow> app_db \<Rightarrow> repo_error + (season_record list \<times> bool)" where
  "cancellable_seasons request rid db =
     (if rr_media_type request = ''tv''
      then map_sum id (\<lambda>seasons. (seasons, \<not> list_ex (uncancellable_season db rid) seasons)) (list_for_request_sea db rid)
      else Inr ([], True))"

definition cancel_update :: status_update where
  "cancel_update = no_update\<lparr>su_failed_reason := Some ''cancelled by operator''\<rparr>"

definition register_removal :: "int \<Rightarrow> unit verb" where
  "register_removal did d =
     emit (RemovalRegistered did) (d\<lparr>dk_removal_ids := dk_removal_ids d @ [did]\<rparr>)"

definition cancel_row :: "verb_env \<Rightarrow> download_record \<Rightarrow> unit verb" where
  "cancel_row ve row =
     andthen (write_verb (cas_download (now_at ve) (d_id (fst row)) (state_str Failed) CANCELLABLE_DOWNLOAD_STATE_VALUES
         cancel_update)) (\<lambda>moved.
     if \<not> moved then andthen (call (rollback (ve_su ve))) (\<lambda>_. fail ImportInProgressError)
     else andthen (write_verb (mark_download_scopes_terminal (d_id (fst row)) ''cancelled'')) (\<lambda>_.
       register_removal (d_id (fst row))))"

definition settle_cancelled :: "verb_env \<Rightarrow> request_record \<Rightarrow> int \<Rightarrow> season_record list \<Rightarrow> unit verb" where
  "settle_cancelled ve request rid seasons =
     (if rr_media_type request = ''tv''
      then each (\<lambda>z. write_verb (set_status (now_at ve) rid (zr_season_number z) ''cancelled'' False)) seasons
      else write_verb (set_status_req rid ''cancelled''))"

definition release_removals :: "unit verb" where
  "release_removals d = each (\<lambda>did. emit (RemovalReleased did)) (dk_removal_ids d) d"

definition tear_down :: "verb_env \<Rightarrow> request_record \<Rightarrow> int \<Rightarrow> season_record list \<Rightarrow> download_record list \<Rightarrow> unit verb" where
  "tear_down ve request rid seasons active =
     andthen (each (cancel_row ve) active) (\<lambda>_.
     andthen (settle_cancelled ve request rid seasons) (\<lambda>_.
     andthen (write_verb (add_history (Some (rr_tmdb_id request)) None ''cancelled'' (Some (rr_title request))
         (Some ''cancelled by operator: removed any active torrent, settled cancelled''))) (\<lambda>_.
     andthen (commit_verb ve) (\<lambda>_.
     if ve_has_client ve then each (\<lambda>row. remove_torrent ve (d_torrent_hash (fst row))) active else ret ()))))"

definition cancel_request_locked :: "verb_env \<Rightarrow> int \<Rightarrow> request_record verb" where
  "cancel_request_locked ve rid =
     andthen (get_fresh rid) (\<lambda>request.
     if rr_status request \<notin> set CANCELLABLE_REQUEST_STATUS_VALUES then fail (NotCancellableError (rr_status request))
     else andthen (call (query (cancellable_seasons request rid))) (\<lambda>(seasons, ok).
     if \<not> ok then fail (NotCancellableError (rr_status request))
     else andthen (call (query (\<lambda>db. Inr (list_active_for_request (a_store db) rid)))) (\<lambda>active.
     if list_ex (\<lambda>row. d_status (fst row) = state_str Importing) active then fail ImportInProgressError
     else if active \<noteq> [] \<and> \<not> ve_has_client ve then fail DownloadClientRequiredError
     else andthen (lastly (tear_down ve request rid seasons active) release_removals) (\<lambda>_. get_request ve rid))))"

definition cancel_request :: "verb_env \<Rightarrow> int \<Rightarrow> request_record verb" where
  "cancel_request ve rid =
     andthen (get_request ve rid) (\<lambda>request.
     andthen (lock_media ve request) (\<lambda>_. cancel_request_locked ve rid))"

definition cancel_request_as_owner :: "verb_env \<Rightarrow> int \<Rightarrow> int \<Rightarrow> request_record verb" where
  "cancel_request_as_owner ve rid user =
     andthen (get_request ve rid) (\<lambda>request.
     andthen (lock_media ve request) (\<lambda>_.
     andthen (get_fresh rid) (\<lambda>_.
     andthen (call (query (\<lambda>db. Inr (list_subscribers db rid)))) (\<lambda>subscribers.
     if list_ex (\<lambda>uid. uid \<noteq> user) subscribers then fail HasOtherParticipantsError
     else cancel_request_locked ve rid))))"

section \<open>Withdrawing\<close>

record WithdrawOutcome =
  wd_record :: request_record
  wd_settled :: bool

definition withdrawn :: "verb_env \<Rightarrow> int \<Rightarrow> bool \<Rightarrow> WithdrawOutcome verb" where
  "withdrawn ve rid torn = andthen (get_request ve rid) (\<lambda>r. ret \<lparr>wd_record = r, wd_settled = torn\<rparr>)"

definition leave_request :: "request_record \<Rightarrow> int \<Rightarrow> int \<Rightarrow> int option \<Rightarrow> unit verb" where
  "leave_request request rid user heir =
     andthen (write_verb (remove_subscriber rid user)) (\<lambda>_.
     if rr_user_id request = Some user then write_verb (set_owner rid heir) else ret ())"

definition withdraw_participant :: "verb_env \<Rightarrow> int \<Rightarrow> int \<Rightarrow> WithdrawOutcome verb" where
  "withdraw_participant ve rid user =
     andthen (get_request ve rid) (\<lambda>named.
     andthen (lock_media ve named) (\<lambda>_.
     andthen (get_fresh rid) (\<lambda>request.
     andthen (call (query (\<lambda>db. Inr (list_subscribers db rid)))) (\<lambda>subscribers.
     let others = filter (\<lambda>uid. uid \<noteq> user) subscribers in
     case others of
       heir # _ \<Rightarrow>
         andthen (leave_request request rid user (Some heir)) (\<lambda>_.
         andthen (commit_verb ve) (\<lambda>_. withdrawn ve rid False))
     | [] \<Rightarrow>
         if rr_status request \<in> set CANCELLABLE_REQUEST_STATUS_VALUES then
           andthen (cancel_request_locked ve rid) (\<lambda>_.
           andthen (lock_media ve request) (\<lambda>_.
           andthen (get_fresh rid) (\<lambda>cancelled.
           andthen (leave_request cancelled rid user None) (\<lambda>_.
           andthen (commit_verb ve) (\<lambda>_. withdrawn ve rid True)))))
         else if rr_status request \<notin> set SETTLED_REQUEST_STATUS_VALUES then
           fail (WithdrawalBlockedActiveError (rr_status request))
         else
           andthen (leave_request request rid user None) (\<lambda>_.
           andthen (commit_verb ve) (\<lambda>_. withdrawn ve rid False))))))"

section \<open>Reporting a bad file\<close>

record ReportTarget =
  rt_season :: "int option"
  rt_status :: string
  rt_library_path :: "string option"

definition resolve_report_target :: "verb_env \<Rightarrow> request_record \<Rightarrow> int option \<Rightarrow> ReportTarget verb" where
  "resolve_report_target ve request ssn =
     (if rr_media_type request \<noteq> ''tv''
      then ret \<lparr>rt_season = None, rt_status = rr_status request, rt_library_path = rr_library_path request\<rparr>
      else case ssn of
        None \<Rightarrow> fail ReportSeasonRequiredError
      | Some n \<Rightarrow> andthen (read_verb ve (\<lambda>db. list_for_request_sea db (rr_id request))) (\<lambda>seasons.
          case find (\<lambda>z. zr_season_number z = n) seasons of
            None \<Rightarrow> fail (SeasonNotFoundError n)
          | Some z \<Rightarrow> ret \<lparr>rt_season = Some n, rt_status = zr_status z, rt_library_path = zr_library_path z\<rparr>))"

text \<open>The siblings of a shared pack: every unresolved scope with an owner, other than the reported one.\<close>

definition pack_siblings :: "download_record \<Rightarrow> int \<Rightarrow> int option \<Rightarrow> (int \<times> int \<times> int) list" where
  "pack_siblings culprit rid ssn = List.map_filter (\<lambda>s.
     if s_status s \<notin> set UNRESOLVED_SCOPE_STATUSES then None
     else case (s_media_request_id s, s_season s) of
       (Some mr, Some n) \<Rightarrow> if mr = rid \<and> Some n = ssn then None else Some (mr, n, s_id s)
     | _ \<Rightarrow> None) (snd culprit)"

primrec rescue_each :: "datetime \<Rightarrow> (int \<times> int \<times> int) list \<Rightarrow> unit app_op" where
  "rescue_each now [] = return_op ()"
| "rescue_each now (s # ss) = (case s of (mr, n, sid) \<Rightarrow>
     bind_op (on_store (update_scope_status_if_in sid ''failed'' UNRESOLVED_SCOPE_STATUSES)) (\<lambda>won.
     bind_op (if won then reset_for_research now mr n False else return_op ()) (\<lambda>_. rescue_each now ss)))"

definition rescue_shared_pack_siblings :: "datetime \<Rightarrow> download_record \<Rightarrow> int \<Rightarrow> int option \<Rightarrow> unit app_op" where
  "rescue_shared_pack_siblings now culprit rid ssn =
     (let siblings = pack_siblings culprit rid ssn in
      if siblings = [] then return_op ()
      else bind_op (cas_download now (d_id (fst culprit)) (state_str Failed) [state_str ImportBlocked]
          (no_update\<lparr>su_failed_reason := Some ''torn down by a report-issue redo of a shared season pack'',
             su_clear_download_path := True\<rparr>)) (\<lambda>moved.
        if \<not> moved then return_op ()
        else bind_op (rescue_each now siblings) (\<lambda>_.
          mark_download_scopes_terminal (d_id (fst culprit)) ''failed'')))"

definition root_available :: "verb_env \<Rightarrow> request_record \<Rightarrow> ReportTarget \<Rightarrow> download_record option \<Rightarrow> unit verb" where
  "root_available ve request target culprit d =
     (let t = ss_tick (dk_session d) in
      case rt_library_path target of
        Some p \<Rightarrow> (let check_root = deepest_containing_root p (configured (ve_roots ve)) in
          if check_root = None \<or> \<not> ve_mounted ve t check_root
          then fail (MediaRootUnavailableError (case check_root of None \<Rightarrow> Some p | Some r \<Rightarrow> if r = [] then Some p else Some r)) d
          else ret () d)
      | None \<Rightarrow> if culprit = None then ret () d
          else (let fallback_root = fallback_for (ve_roots ve) (rr_media_type request) (rr_is_anime request) in
            if \<not> ve_mounted ve t fallback_root then fail (MediaRootUnavailableError fallback_root) d else ret () d))"

definition blocklist_culprit :: "request_record \<Rightarrow> ReportTarget \<Rightarrow> string \<Rightarrow> download_record option \<Rightarrow> unit app_op" where
  "blocklist_culprit request target reason culprit = (case culprit of
      None \<Rightarrow> return_op ()
    | Some row \<Rightarrow> blocklist_failed (d_torrent_hash (fst row)) (d_torrent_hash (fst row)) reason (Some (rr_tmdb_id request))
        (Some (if rt_season target \<noteq> None then ''tv'' else ''movie'')))"

text \<open>The claim: re-arm, rescue the siblings, arm the incomplete-delete marker.\<close>

definition rearm_target :: "datetime \<Rightarrow> int \<Rightarrow> ReportTarget \<Rightarrow> unit app_op" where
  "rearm_target now rid target = (case rt_season target of
      Some n \<Rightarrow> reset_for_research now rid n False
    | None \<Rightarrow> reset_for_research_req rid False)"

definition arm_marker :: "int \<Rightarrow> ReportTarget \<Rightarrow> unit app_op" where
  "arm_marker rid target = (case rt_library_path target of
      None \<Rightarrow> return_op ()
    | Some p \<Rightarrow> (case rt_season target of
        Some n \<Rightarrow> set_partial_delete_path rid n p
      | None \<Rightarrow> set_partial_delete_path_req rid p))"

definition claim_target :: "datetime \<Rightarrow> int \<Rightarrow> ReportTarget \<Rightarrow> download_record option \<Rightarrow> unit app_op" where
  "claim_target now rid target culprit =
     bind_op (rearm_target now rid target) (\<lambda>_.
     bind_op (case culprit of None \<Rightarrow> return_op ()
        | Some row \<Rightarrow> rescue_shared_pack_siblings now row rid (rt_season target)) (\<lambda>_. arm_marker rid target))"

definition clear_marker :: "int \<Rightarrow> ReportTarget \<Rightarrow> unit app_op" where
  "clear_marker rid target = (case rt_season target of
      Some n \<Rightarrow> clear_partial_delete_path rid n
    | None \<Rightarrow> clear_partial_delete_path_req rid)"

definition clear_breadcrumb :: "datetime \<Rightarrow> int \<Rightarrow> ReportTarget \<Rightarrow> unit app_op" where
  "clear_breadcrumb now rid target = (case rt_season target of
      Some n \<Rightarrow> clear_library_path rid n
    | None \<Rightarrow> clear_library_path_req now rid True)"

definition duplicate_refusal :: "verb_env \<Rightarrow> request_record \<Rightarrow> int \<Rightarrow> unit verb" where
  "duplicate_refusal ve request rid =
     andthen (call (rollback (ve_su ve))) (\<lambda>_.
     andthen (call (query (\<lambda>db. find_active db (rr_tmdb_id request) (rr_media_type request)))) (\<lambda>sibling.
     fail (ActiveDuplicateError (case sibling of
        Some s \<Rightarrow> if rr_id s \<noteq> rid then rr_id s else rid | None \<Rightarrow> rid))))"

definition purge_target :: "verb_env \<Rightarrow> int \<Rightarrow> ReportTarget \<Rightarrow> unit verb" where
  "purge_target ve rid target = (case rt_library_path target of
      None \<Rightarrow> ret ()
    | Some p \<Rightarrow> (\<lambda>d. let result = ve_purge ve (ss_tick (dk_session d)) p in
        andthen (emit (TreePurged p result)) (\<lambda>_.
        andthen (wait ve) (\<lambda>_.
        andthen (if pu_outcome result \<noteq> Purge_partial then write_verb (clear_marker rid target) else ret ()) (\<lambda>_.
        andthen (if pu_outcome result = Purge_deleted then write_verb (clear_breadcrumb (now_at ve) rid target) else ret ()) (\<lambda>_.
        andthen (emit (LibraryScanned p (if rt_season target \<noteq> None then ''tv'' else ''movie''))) (\<lambda>_.
        if pu_outcome result = Purge_partial then wait ve else ret ()))))) d))"

text \<open>\<open>season_note\<close> and the message of the history row.\<close>

definition reported_message :: "string \<Rightarrow> ReportTarget \<Rightarrow> string" where
  "reported_message reason target = ''reported ('' @ reason @ '')''
     @ (case rt_season target of None \<Rightarrow> [] | Some n \<Rightarrow> '' season '' @ py_str_int n)
     @ '': blocklisted the release, purged the file, re-searching''"

definition destroy_and_record ::
  "verb_env \<Rightarrow> request_record \<Rightarrow> int \<Rightarrow> string \<Rightarrow> ReportTarget \<Rightarrow> download_record option \<Rightarrow> unit verb" where
  "destroy_and_record ve request rid reason target culprit =
     andthen (on_integrity
        (andthen (write_verb (claim_target (now_at ve) rid target culprit)) (\<lambda>_. commit_verb ve))
        (duplicate_refusal ve request rid)) (\<lambda>_.
     andthen (case culprit of None \<Rightarrow> ret () | Some row \<Rightarrow> remove_torrent ve (d_torrent_hash (fst row))) (\<lambda>_.
     andthen (purge_target ve rid target) (\<lambda>_.
     andthen (write_verb (add_history (Some (rr_tmdb_id request)) (map_option (\<lambda>row. d_torrent_hash (fst row)) culprit)
        ''reported'' (Some (rr_title request)) (Some (reported_message reason target)))) (\<lambda>_. commit_verb ve))))"

definition begin_claim :: "verb_env \<Rightarrow> string \<Rightarrow> unit verb" where
  "begin_claim ve p d =
     (if \<not> ve_begin_purge ve (ss_tick (dk_session d)) p then fail ImportInProgressError d
      else andthen (emit (PurgeBegun p)) (\<lambda>_. emit (LeasesRevoked p)) d)"

definition end_claim :: "ReportTarget \<Rightarrow> unit verb" where
  "end_claim target = (case rt_library_path target of None \<Rightarrow> ret () | Some p \<Rightarrow> emit (PurgeEnded p))"

definition report_issue :: "verb_env \<Rightarrow> int \<Rightarrow> string \<Rightarrow> int option \<Rightarrow> unit verb" where
  "report_issue ve rid reason ssn =
     andthen (get_request ve rid) (\<lambda>request.
     andthen (resolve_report_target ve request ssn) (\<lambda>target.
     if rt_status target \<notin> set REPORTABLE_STATUS_VALUES then fail (NotReportableError (rt_status target))
     else andthen (read_verb ve (\<lambda>db. find_active db (rr_tmdb_id request) (rr_media_type request))) (\<lambda>sibling.
     if (case sibling of None \<Rightarrow> False | Some s \<Rightarrow> rr_id s \<noteq> rid)
     then fail (ActiveDuplicateError (case sibling of None \<Rightarrow> rid | Some s \<Rightarrow> rr_id s))
     else andthen (read_verb ve (\<lambda>db. Inr (find_latest_imported_for_request (a_store db) rid (rt_season target)))) (\<lambda>culprit.
     andthen (root_available ve request target culprit) (\<lambda>_.
     andthen (wait ve) (\<lambda>_.
     andthen (write_verb (blocklist_culprit request target reason culprit)) (\<lambda>_.
     andthen (case rt_library_path target of None \<Rightarrow> ret () | Some p \<Rightarrow> begin_claim ve p) (\<lambda>_.
     lastly (destroy_and_record ve request rid reason target culprit) (end_claim target)))))))))"

text \<open>The honest dead end of a report that found nothing acceptable.\<close>

definition park_no_acceptable :: "verb_env \<Rightarrow> int \<Rightarrow> int option \<Rightarrow> bool \<Rightarrow> unit verb" where
  "park_no_acceptable ve rid ssn is_tv =
     andthen (case (is_tv, ssn) of
        (True, Some n) \<Rightarrow> write_verb (mark_no_acceptable_release (now_at ve) rid n False)
      | _ \<Rightarrow> write_verb (set_status_if_in_req rid ''no_acceptable_release'' PARKABLE_REQUEST_STATUS_VALUES False False)) (\<lambda>parked.
     if parked then commit_verb ve else call (rollback (ve_su ve)))"

end
