(* ===== verification/VerbLogic.thy ===== *)
theory VerbLogic
  imports Verbs SessionLogic FailureEffects
begin

text \<open>
  Reasoning about verbs. \<open>does P m Q E\<close>: from a desk that satisfies \<open>P\<close>, with sound tables, the
  verb leaves sound tables and \<open>Q\<close> with its result, or \<open>E\<close> with its error. Operations that leave a view of
  the database alone (\<open>preserves\<close>) are collected for two views: who takes part in which request
  (\<open>people\<close>), and the download store.
\<close>

section \<open>Operations that leave a view alone\<close>

definition preserves :: "(app_db \<Rightarrow> 'b) \<Rightarrow> 'a app_op \<Rightarrow> bool" where
  "preserves f m \<longleftrightarrow> (\<forall>db x db'. m db = Inr (x, db') \<longrightarrow> f db' = f db)"

named_theorems keep_rules

lemma preservesI: "(\<And>db x db'. m db = Inr (x, db') \<Longrightarrow> f db' = f db) \<Longrightarrow> preserves f m"
  by (simp add: preserves_def)

lemma preservesD: "preserves f m \<Longrightarrow> m db = Inr (x, db') \<Longrightarrow> f db' = f db"
  by (simp add: preserves_def)

lemma keep_basic [keep_rules]: "preserves f (return_op x)" "preserves f (of_sum v)" "preserves f (\<lambda>db. of_sum (g db) db)"
  by (auto intro!: preservesI)

lemma keep_bind [keep_rules]: "preserves f m \<Longrightarrow> (\<And>x. preserves f (g x)) \<Longrightarrow> preserves f (bind_op m g)"
  by (auto intro!: preservesI simp: bind_op_Inr) (metis preservesD)

lemma keep_If [keep_rules]: "(b \<Longrightarrow> preserves f m) \<Longrightarrow> (\<not> b \<Longrightarrow> preserves f n) \<Longrightarrow> preserves f (if b then m else n)"
  by simp

lemma keep_savepoint [keep_rules]: "preserves f b \<Longrightarrow> preserves f h \<Longrightarrow> preserves f (savepoint b h)"
  by (auto intro!: preservesI simp: savepoint_def split: sum.splits if_splits dest: preservesD)

lemma keep_depends: "(\<And>db0. preserves f (m db0)) \<Longrightarrow> preserves f (\<lambda>db. m db db)"
  by (simp add: preserves_def)

lemma keep_option [keep_rules]:
  "(x = None \<Longrightarrow> preserves f m) \<Longrightarrow> (\<And>y. x = Some y \<Longrightarrow> preserves f (g y)) \<Longrightarrow> preserves f (case x of None \<Rightarrow> m | Some y \<Rightarrow> g y)"
  by (simp split: option.splits)

definition people :: "app_db \<Rightarrow> subscriber_row list \<times> (int \<times> int option) list" where
  "people db = (a_subscribers db, map (\<lambda>r. (q_id r, q_user_id r)) (a_requests db))"

definition same_owner :: "(request_row \<Rightarrow> request_row) \<Rightarrow> bool" where
  "same_owner g \<longleftrightarrow> (\<forall>r. q_id (g r) = q_id r \<and> q_user_id (g r) = q_user_id r)"

lemma people_map_requests [simp]: "same_owner g \<Longrightarrow> people (map_requests p g db) = people db"
  by (auto simp: people_def map_requests_def same_owner_def)

lemma people_map_seasons [simp]: "people (map_seasons p g db) = people db"
  by (simp add: people_def map_seasons_def)

lemma people_writes [keep_rules]:
  "same_owner g \<Longrightarrow> preserves people (update_requests p g)" "same_owner g \<Longrightarrow> preserves people (write_request i g)"
  "preserves people (update_seasons q h)" "preserves people (write_season j h)" "preserves people (insert_season z)"
  "preserves people (on_store s)" "preserves people (acquire_media_lock tmdb mt)"
  "preserves people (add_history t hash ev title msg)"
  by (auto intro!: preservesI simp: update_requests_def write_request_def update_seasons_def write_season_def insert_season_def
      on_store_def acquire_media_lock_def add_history_def bind_op_Inr people_def[of "a_store_update s d" for s d]
      split: if_splits sum.splits)
    (auto simp: people_def)

lemma store_writes [keep_rules]:
  "preserves a_store (update_requests p g)" "preserves a_store (write_request i g)"
  "preserves a_store (update_seasons q h)" "preserves a_store (write_season j h)" "preserves a_store (insert_season z)"
  "preserves a_store (acquire_media_lock tmdb mt)" "preserves a_store (add_history t hash ev title msg)"
  "preserves a_store (remove_subscriber rid u)"
  by (auto intro!: preservesI simp: update_requests_def write_request_def update_seasons_def write_season_def insert_season_def
      acquire_media_lock_def add_history_def remove_subscriber_def map_requests_def map_seasons_def bind_op_Inr
      split: if_splits)

text \<open>
  A view that no ordinary write of the request tables touches is left alone by the operations built from
  them.
\<close>

locale request_view =
  fixes f :: "app_db \<Rightarrow> 'b"
  assumes update_req: "same_owner g \<Longrightarrow> preserves f (update_requests p g)"
    and write_req: "same_owner g \<Longrightarrow> preserves f (write_request i g)"
    and update_sea: "preserves f (update_seasons q h)"
    and write_sea: "preserves f (write_season j h)"
    and insert_sea: "preserves f (insert_season z)"
begin

lemmas writes = update_req write_req update_sea write_sea insert_sea keep_rules

lemma keep_set_status_req: "preserves f (set_status_req rid status)"
proof -
  have "preserves f (bind_op (of_sum (request_status status)) (\<lambda>st. write_request rid (\<lambda>r. r\<lparr>q_status := st\<rparr>)))"
    by (intro writes) (simp add: same_owner_def)
  from preservesD[OF this] show ?thesis by (intro preservesI) (simp add: set_status_req_def split: if_splits)
qed

lemma keep_stamp: "preserves f (stamp_completed_at_if_unset now rid)"
  unfolding stamp_completed_at_if_unset_def
  by (intro writes) (auto intro!: preservesI simp: same_owner_def split: if_splits)

lemma keep_ensure_sea: "preserves f (ensure_sea mr n status regrab)"
proof -
  have "preserves f (ensure_from seen mr n status regrab)" for seen
  proof (cases seen)
    case None
    have ins: "preserves f (\<lambda>db. let z = new_season (a_next_id db) mr n st regrab
        in bind_op (insert_season z) (\<lambda>_ db'. of_sum (map_sum id (to_record_sea z) (tmdb_id_for db' mr)) db') db)" for st
      unfolding Let_def
      by (rule keep_depends[where m = "\<lambda>db0. bind_op (insert_season (new_season (a_next_id db0) mr n st regrab))
        (\<lambda>_ db'. of_sum (map_sum id (to_record_sea (new_season (a_next_id db0) mr n st regrab)) (tmdb_id_for db' mr)) db')"])
        (intro writes)
    have race: "preserves f (\<lambda>db. case find_sea db mr n of None \<Rightarrow> Inl IntegrityError
      | Some w \<Rightarrow> of_sum (map_sum id (to_record_sea w) (tmdb_id_for db mr)) db)"
      by (auto intro!: preservesI split: option.splits)
    show ?thesis unfolding ensure_from_def None option.case by (intro writes ins race)
  next
    case (Some z)
    show ?thesis unfolding ensure_from_def Some option.case by (intro writes)
  qed
  then show ?thesis unfolding ensure_sea_def by (rule keep_depends)
qed

lemma keep_ensure_pending: "preserves f (ensure_pending mr n)"
  unfolding ensure_pending_def by (rule keep_ensure_sea)

lemma keep_set_status_sea: "preserves f (set_status_sea now sid status)"
  unfolding set_status_sea_def by (intro writes)

lemma keep_recompute: "preserves f (recompute_parent now mr tol stamp)"
  unfolding recompute_parent_def by (intro writes keep_set_status_req keep_stamp)

lemma keep_set_status: "preserves f (set_status now mr n status skip)"
  unfolding set_status_def by (intro writes keep_ensure_pending keep_set_status_sea keep_recompute)

lemma keep_heal: "preserves f (heal_completed_at now rid)"
proof -
  have u: "preserves f (\<lambda>db. update_requests (p db) g db)" if "same_owner g" for p g
    using update_req[OF that] by (simp add: preserves_def)
  show ?thesis unfolding heal_completed_at_def
    by (intro writes u) (auto intro!: u writes simp: same_owner_def)
qed

lemma keep_season_marks:
  "preserves f (clear_library_path_sea sid)" "preserves f (schedule_search_sea sid att nxt)"
  "preserves f (clear_eviction_regrab sid)" "preserves f (set_partial_delete_path_sea sid p)"
  "preserves f (clear_partial_delete_path_sea sid)"
  unfolding clear_library_path_sea_def schedule_search_sea_def clear_eviction_regrab_def set_partial_delete_path_sea_def
    clear_partial_delete_path_sea_def by (intro writes)+

lemma keep_reset: "preserves f (reset_for_research now mr n clr)"
  unfolding reset_for_research_def
  by (intro writes keep_ensure_pending keep_set_status_sea keep_recompute keep_season_marks keep_heal)

lemma keep_paths:
  "preserves f (clear_library_path mr n)" "preserves f (set_partial_delete_path mr n p)"
  "preserves f (clear_partial_delete_path mr n)"
  unfolding clear_library_path_def set_partial_delete_path_def clear_partial_delete_path_def on_season_def
  by (intro writes keep_ensure_pending keep_season_marks)+

lemma keep_request_marks:
  "preserves f (reset_for_research_req rid clr)" "preserves f (set_partial_delete_path_req rid p)"
  "preserves f (clear_partial_delete_path_req rid)" "preserves f (clear_library_path_req now rid mark)"
  unfolding reset_for_research_req_def set_partial_delete_path_req_def clear_partial_delete_path_req_def
    clear_library_path_req_def by (intro writes; simp add: same_owner_def)+

end

interpretation people: request_view people
  by unfold_locales (intro keep_rules; assumption?)+

interpretation store: request_view a_store
  by unfold_locales (intro keep_rules)+

lemmas people_keeps = people.keep_set_status_req people.keep_set_status people.keep_reset people.keep_paths
  people.keep_request_marks
lemmas store_keeps = store.keep_set_status_req store.keep_set_status store.keep_reset store.keep_paths
  store.keep_request_marks

section \<open>Verbs\<close>

text \<open>Predicates on the committed database, the current one, the registered removals and the trace.\<close>

type_synonym desk_pred = "app_db \<Rightarrow> app_db \<Rightarrow> int list \<Rightarrow> verb_event list \<Rightarrow> bool"

definition sound_db :: "app_db \<Rightarrow> bool" where
  "sound_db db \<longleftrightarrow> app_inv db \<and> repo_inv (a_store db)"

definition at_desk :: "desk_pred \<Rightarrow> desk \<Rightarrow> bool" where
  "at_desk P d \<longleftrightarrow> sound_db (ss_saved (dk_session d)) \<and> sound_db (ss_db (dk_session d))
     \<and> P (ss_saved (dk_session d)) (ss_db (dk_session d)) (dk_removal_ids d) (dk_trace d)"

definition does :: "desk_pred \<Rightarrow> 'a verb \<Rightarrow> ('a \<Rightarrow> desk_pred) \<Rightarrow> (verb_error \<Rightarrow> desk_pred) \<Rightarrow> bool" where
  "does P m Q E \<longleftrightarrow> (\<forall>d. at_desk P d \<longrightarrow> (case m d of (Inr x, d') \<Rightarrow> at_desk (Q x) d' | (Inl e, d') \<Rightarrow> at_desk (E e) d'))"

definition sound_others :: "verb_env \<Rightarrow> bool" where
  "sound_others ve \<longleftrightarrow> (\<forall>t db. sound_db db \<longrightarrow> sound_db (su_others (ve_su ve) t db))"

definition sound_op :: "'a app_op \<Rightarrow> bool" where
  "sound_op m \<longleftrightarrow> (\<forall>db x db'. sound_db db \<longrightarrow> m db = Inr (x, db') \<longrightarrow> sound_db db')"

lemma doesI: "(\<And>d. at_desk P d \<Longrightarrow> case m d of (Inr x, d') \<Rightarrow> at_desk (Q x) d' | (Inl e, d') \<Rightarrow> at_desk (E e) d') \<Longrightarrow> does P m Q E"
  by (simp add: does_def)

lemma does_Inr: "does P m Q E \<Longrightarrow> at_desk P d \<Longrightarrow> m d = (Inr x, d') \<Longrightarrow> at_desk (Q x) d'"
  by (fastforce simp: does_def)

lemma does_Inl: "does P m Q E \<Longrightarrow> at_desk P d \<Longrightarrow> m d = (Inl e, d') \<Longrightarrow> at_desk (E e) d'"
  by (fastforce simp: does_def)

lemma does_conseq:
  assumes "does P m Q E" and "\<And>a b i t. sound_db a \<Longrightarrow> sound_db b \<Longrightarrow> P' a b i t \<Longrightarrow> P a b i t"
    and "\<And>x a b i t. Q x a b i t \<Longrightarrow> Q' x a b i t" and "\<And>e a b i t. E e a b i t \<Longrightarrow> E' e a b i t"
  shows "does P' m Q' E'"
proof (rule doesI)
  fix d assume d: "at_desk P' d"
  then have p: "at_desk P d" using assms(2) by (simp add: at_desk_def)
  obtain r d' where m: "m d = (r, d')" by fastforce
  show "case m d of (Inr x, d') \<Rightarrow> at_desk (Q' x) d' | (Inl e, d') \<Rightarrow> at_desk (E' e) d'"
    using does_Inr[OF assms(1) p] does_Inl[OF assms(1) p] m assms(3,4) by (cases r) (auto simp: at_desk_def)
qed

lemma does_pre: "does P m Q E \<Longrightarrow> (\<And>a b i t. sound_db a \<Longrightarrow> sound_db b \<Longrightarrow> P' a b i t \<Longrightarrow> P a b i t) \<Longrightarrow> does P' m Q E"
  by (rule does_conseq)

lemma does_post: "does P m Q E \<Longrightarrow> (\<And>x a b i t. Q x a b i t \<Longrightarrow> Q' x a b i t) \<Longrightarrow> does P m Q' E"
  by (rule does_conseq)

lemma does_ret: "(\<And>a b i t. sound_db a \<Longrightarrow> sound_db b \<Longrightarrow> P a b i t \<Longrightarrow> Q x a b i t) \<Longrightarrow> does P (ret x) Q E"
  by (auto simp: does_def ret_def at_desk_def)

lemma does_fail: "(\<And>a b i t. sound_db a \<Longrightarrow> sound_db b \<Longrightarrow> P a b i t \<Longrightarrow> E e a b i t) \<Longrightarrow> does P (fail e) Q E"
  by (auto simp: does_def fail_def at_desk_def)

lemma does_andthen: "does P m M E \<Longrightarrow> (\<And>x. does (M x) (f x) Q E) \<Longrightarrow> does P (andthen m f) Q E"
  unfolding does_def andthen_def by (fastforce split: prod.splits sum.splits)

lemma does_emit: "(\<And>a b i t. sound_db a \<Longrightarrow> sound_db b \<Longrightarrow> P a b i t \<Longrightarrow> Q () a b i (t @ [e])) \<Longrightarrow> does P (emit e) Q E"
  by (auto simp: does_def emit_def at_desk_def)

lemma does_query:
  "(\<And>a b i t x. sound_db a \<Longrightarrow> sound_db b \<Longrightarrow> P a b i t \<Longrightarrow> f b = Inr x \<Longrightarrow> Q x a b i t) \<Longrightarrow>
   (\<And>a b i t e. P a b i t \<Longrightarrow> E (CallFailed e) a b i t) \<Longrightarrow> does P (call (query f)) Q E"
  by (auto simp: does_def call_def query_def stmt_def of_sum_def at_desk_def split: sum.splits)

lemma does_write:
  "sound_op m \<Longrightarrow>
   (\<And>a b i t x b'. sound_db a \<Longrightarrow> sound_db b \<Longrightarrow> P a b i t \<Longrightarrow> m b = Inr (x, b') \<Longrightarrow> sound_db b' \<Longrightarrow> Q x a b' i t) \<Longrightarrow>
   (\<And>a b i t e. P a b i t \<Longrightarrow> E (CallFailed e) a b i t) \<Longrightarrow> does P (write_verb m) Q E"
  by (fastforce simp: does_def write_verb_def call_def stmt_def at_desk_def sound_op_def split: sum.splits)

lemma does_wait:
  "sound_others ve \<Longrightarrow>
   (\<And>a b i t n. sound_db a \<Longrightarrow> P a b i t \<Longrightarrow> Q () (su_others (ve_su ve) n a) (su_others (ve_su ve) n a) i t) \<Longrightarrow>
   does P (wait ve) Q E"
  by (auto simp: does_def wait_def call_def pause_def Let_def at_desk_def sound_others_def)

lemma does_commit:
  "sound_others ve \<Longrightarrow>
   (\<And>a b i t n. sound_db a \<Longrightarrow> sound_db b \<Longrightarrow> P a b i t \<Longrightarrow>
      Q () (su_others (ve_su ve) n b) (su_others (ve_su ve) n b) i (t @ [Committed a b])) \<Longrightarrow>
   does P (commit_verb ve) Q E"
  by (auto simp: does_def commit_verb_def andthen_def emit_def call_def commit_def pause_def Let_def at_desk_def sound_others_def)

lemma does_lastly:
  assumes "does P body B F" and "\<And>x. does (B x) cleanup (\<lambda>_. Q x) (\<lambda>_ _ _ _ _. False)"
    and "\<And>e. does (F e) cleanup (\<lambda>_. E e) (\<lambda>_ _ _ _ _. False)"
  shows "does P (lastly body cleanup) Q E"
proof (rule doesI)
  fix d assume d: "at_desk P d"
  obtain r d1 where b: "body d = (r, d1)" by fastforce
  obtain r2 d2 where c: "cleanup d1 = (r2, d2)" by fastforce
  have no: "\<not> at_desk (\<lambda>_ _ _ _. False) d2" by (simp add: at_desk_def)
  show "case lastly body cleanup d of (Inr x, d') \<Rightarrow> at_desk (Q x) d' | (Inl e, d') \<Rightarrow> at_desk (E e) d'"
  proof (cases r)
    case (Inr x)
    have "at_desk (B x) d1" using does_Inr[OF assms(1) d] b Inr by simp
    then show ?thesis using does_Inr[OF assms(2)] does_Inl[OF assms(2), of x d1] b c Inr no
      by (cases r2) (auto simp: lastly_def)
  next
    case (Inl e)
    have "at_desk (F e) d1" using does_Inl[OF assms(1) d] b Inl by simp
    then show ?thesis using does_Inr[OF assms(3)] does_Inl[OF assms(3), of e d1] b c Inl no
      by (cases r2) (auto simp: lastly_def)
  qed
qed

lemma does_integrity:
  assumes "does P body Q E" and "does (\<lambda>a b i t. E (CallFailed (RepoFailed IntegrityError)) a b i t) handler Q E"
  shows "does P (on_integrity body handler) Q E"
proof (rule doesI)
  fix d assume d: "at_desk P d"
  obtain r d1 where b: "body d = (r, d1)" by fastforce
  obtain r2 d2 where h: "handler d1 = (r2, d2)" by fastforce
  show "case on_integrity body handler d of (Inr x, d') \<Rightarrow> at_desk (Q x) d' | (Inl e, d') \<Rightarrow> at_desk (E e) d'"
  proof (cases r)
    case (Inr x)
    then show ?thesis using does_Inr[OF assms(1) d] b by (simp add: on_integrity_def)
  next
    case (Inl e)
    have e: "at_desk (E e) d1" using does_Inl[OF assms(1) d] b Inl by simp
    show ?thesis
    proof (cases "e = CallFailed (RepoFailed IntegrityError)")
      case True
      with e have "at_desk (\<lambda>a b i t. E (CallFailed (RepoFailed IntegrityError)) a b i t) d1" by simp
      then show ?thesis using does_Inr[OF assms(2)] does_Inl[OF assms(2)] b h Inl True
        by (cases r2) (auto simp: on_integrity_def)
    qed (use e b Inl in \<open>simp add: on_integrity_def\<close>)
  qed
qed

text \<open>A loop, with what holds after each prefix of the list.\<close>

lemma does_each:
  assumes "\<And>seen x rest. xs = seen @ x # rest \<Longrightarrow> does (I seen) (f x) (\<lambda>_. I (seen @ [x])) E"
  shows "does (I []) (each f xs) (\<lambda>_. I xs) E"
proof -
  have "does (I seen) (each f rest) (\<lambda>_. I xs) E" if "xs = seen @ rest" for seen rest
    using that
  proof (induction rest arbitrary: seen)
    case Nil
    then show ?case by (auto intro: does_ret)
  next
    case (Cons x rest)
    show ?case unfolding each.simps
      by (rule does_andthen[OF assms[OF Cons.prems]]) (rule Cons.IH, simp add: Cons.prems)
  qed
  from this[of "[]" xs] show ?thesis by simp
qed

lemma does_option:
  "(x = None \<Longrightarrow> does P m Q E) \<Longrightarrow> (\<And>y. x = Some y \<Longrightarrow> does P (g y) Q E) \<Longrightarrow> does P (case x of None \<Rightarrow> m | Some y \<Rightarrow> g y) Q E"
  by (simp split: option.splits)

lemma does_If: "(b \<Longrightarrow> does P m Q E) \<Longrightarrow> (\<not> b \<Longrightarrow> does P n Q E) \<Longrightarrow> does P (if b then m else n) Q E"
  by simp

end
