(* ===== verification/CancelLaws.thy ===== *)
theory CancelLaws
  imports Corrections VerbLogic RequestLaws
begin

text \<open>
  Cancelling. The torrents go only after the cancellation has been committed, each registered as a removal
  in flight before that commit and released at the end; at the commit every download that was running for
  the request is failed and the request with all its seasons is cancelled; a refusal changes nothing.
\<close>

section \<open>Operations of the corrections keep the tables sound\<close>

named_theorems sound_rules

lemma sound_opI: "steady m \<Longrightarrow> preserves a_store m \<Longrightarrow> sound_op m"
  unfolding sound_op_def sound_db_def by (metis steadyD evolves_inv preservesD)

lemma sound_bind [sound_rules]: "sound_op m \<Longrightarrow> (\<And>x. sound_op (f x)) \<Longrightarrow> sound_op (bind_op m f)"
  unfolding sound_op_def bind_op_Inr by blast

lemma sound_return [sound_rules]: "sound_op (return_op x)"
  by (simp add: sound_op_def)

lemma sound_If [sound_rules]: "(b \<Longrightarrow> sound_op m) \<Longrightarrow> (\<not> b \<Longrightarrow> sound_op n) \<Longrightarrow> sound_op (if b then m else n)"
  by simp

lemma sound_option [sound_rules]:
  "(x = None \<Longrightarrow> sound_op m) \<Longrightarrow> (\<And>y. x = Some y \<Longrightarrow> sound_op (g y)) \<Longrightarrow> sound_op (case x of None \<Rightarrow> m | Some y \<Rightarrow> g y)"
  by (simp split: option.splits)

lemma app_inv_store [simp]: "app_inv (db\<lparr>a_store := st\<rparr>) = app_inv db"
  by (auto simp: app_inv_def app_unique_def app_refs_def app_typed_def request_keys_def season_keys_def split: option.split)

lemma sound_on_store:
  assumes "\<And>st x st'. repo_inv st \<Longrightarrow> f st = Inr (x, st') \<Longrightarrow> repo_inv st'"
  shows "sound_op (on_store f)"
  unfolding sound_op_def sound_db_def on_store_Inr
proof (intro allI impI)
  fix db x db' assume s: "app_inv db \<and> repo_inv (a_store db)" and "\<exists>st. f (store_of db) = Inr (x, st) \<and> db' = db\<lparr>a_store := st\<rparr>"
  then obtain st where st: "f (store_of db) = Inr (x, st)" "db' = db\<lparr>a_store := st\<rparr>" by blast
  have "repo_inv st" using assms[OF _ st(1)] s by simp
  then show "app_inv db' \<and> repo_inv (a_store db')" using s st(2) by simp
qed

lemma sound_cas [sound_rules]: "sound_op (cas_download now did st allowed u)"
  unfolding cas_download_def by (rule sound_on_store) (rule update_status_if_in_spec(1))

lemma sound_scopes [sound_rules]: "sound_op (mark_download_scopes_terminal did status)"
  unfolding sound_op_def sound_db_def
proof (intro allI impI conjI)
  fix db x db' assume s: "app_inv db \<and> repo_inv (a_store db)" and m: "mark_download_scopes_terminal did status db = Inr (x, db')"
  show "repo_inv (a_store db')" using scopes_terminal_effect(1)[OF _ m] s by simp
  show "app_inv db'" using m s by (auto simp: mark_download_scopes_terminal_def on_store_Inr)
qed

lemma steady_history [steady_rules]: "steady (add_history t hash ev title msg)"
  unfolding add_history_def
  by (rule steadyI) (auto simp: evolves_def app_inv_def app_typed_def)

lemma sound_writes [sound_rules]:
  "sound_op (add_history t hash ev title msg)" "sound_op (acquire_media_lock tmdb mt)" "sound_op (remove_subscriber rid u)"
  "sound_op (set_owner rid u')" "sound_op (set_status_req rid status)" "sound_op (set_status now rid n status skip)"
proof -
  have "preserves a_store (set_owner rid u')" unfolding set_owner_def by (rule keep_rules)
  then show "sound_op (set_owner rid u')" by (intro sound_opI steady_rules)
qed (intro sound_opI steady_rules keep_rules store_keeps)+

section \<open>What a cancellation writes\<close>

text \<open>The downloads with these ids are failed; every other download is as it was.\<close>

definition torn :: "int list \<Rightarrow> app_db \<Rightarrow> app_db \<Rightarrow> bool" where
  "torn ids a b \<longleftrightarrow> (\<exists>f. downloads b = map f (downloads a) \<and> (\<forall>r. d_id (f r) = d_id r \<and> (d_id r \<notin> set ids \<longrightarrow> f r = r))
     \<and> (\<forall>r \<in> set (downloads a). d_id r \<in> set ids \<longrightarrow> d_status (f r) = state_str Failed))"

lemma torn_refl: "a_store b = a_store a \<Longrightarrow> torn [] a b"
  unfolding torn_def by (intro exI[of _ "\<lambda>r. r"]) simp

lemma cancel_update_eq: "cancel_update = reason_write ''cancelled by operator'' None"
  by (simp add: cancel_update_def reason_write_def)

lemma torn_step:
  assumes inv: "repo_inv (a_store b)" and t: "torn ids a b"
    and cas: "cas_download now did (state_str Failed) allowed cancel_update b = Inr (True, b1)"
    and sc: "mark_download_scopes_terminal did status b1 = Inr (x, b2)"
  shows "torn (ids @ [did]) a b2"
proof -
  let ?hit = "hit_row did allowed None"
  note c = cas_effect[OF inv cas[unfolded cancel_update_eq]]
  obtain f where f: "downloads b = map f (downloads a)" "\<And>r. d_id (f r) = d_id r" "\<And>r. d_id r \<notin> set ids \<Longrightarrow> f r = r"
    "\<And>r. r \<in> set (downloads a) \<Longrightarrow> d_id r \<in> set ids \<Longrightarrow> d_status (f r) = state_str Failed"
    using t by (auto simp: torn_def)
  obtain g where g: "downloads b1 = map g (downloads b)" "\<And>r. keeps r (g r)" "\<And>r. \<not> ?hit r \<Longrightarrow> g r = r"
    "\<And>r. ?hit r \<Longrightarrow> d_status (g r) = state_str Failed"
    using c(5) by (auto simp: moves_def)
  have ids: "d_id (g r) = d_id r" for r using g(2)[of r] by (simp add: keeps_def)
  have d2: "downloads b2 = map (g \<circ> f) (downloads a)"
    using scopes_terminal_effect(2)[OF c(1) sc] g(1) f(1) by simp
  have failed: "d_status (g (f r)) = state_str Failed" if r: "r \<in> set (downloads a)" "d_id r \<in> set (ids @ [did])" for r
  proof (cases "?hit (f r)")
    case False
    have "d_id r \<in> set ids"
    proof (rule ccontr)
      assume "d_id r \<notin> set ids"
      then have d: "d_id (f r) = did" using r(2) f(2) by simp
      obtain h where h: "h \<in> set (downloads b)" "?hit h" using c(4) by (auto simp: list_ex_iff)
      have "f r = h" using row_id_inj[OF inv, of "f r" h] r(1) h f(1) d by (auto simp: hit_row_def)
      then show False using False h(2) by simp
    qed
    then show ?thesis using f(4)[OF r(1)] g(3)[OF False] by simp
  qed (rule g(4))
  have "g (f r) = r" if "d_id r \<notin> set (ids @ [did])" for r
  proof -
    have "\<not> ?hit (f r)" using that f(2) by (simp add: hit_row_def)
    then show ?thesis using that f(3) g(3) by simp
  qed
  then show ?thesis unfolding torn_def using d2 failed ids f(2) by (intro exI[of _ "g \<circ> f"]) simp
qed

text \<open>A season moved by the season service, and the rollup of a show whose seasons are all cancelled.\<close>

lemma moved_status: "z_status (move_season now target z) = target \<and> z_id (move_season now target z) = z_id z
    \<and> z_media_request_id (move_season now target z) = z_media_request_id z
    \<and> z_season_number (move_season now target z) = z_season_number z"
  by (simp add: move_season_def completion_write_values_def)

lemma set_status_effect:
  assumes inv: "app_inv db" and z: "find_sea db mr n = Some z"
    and run: "set_status now mr n status False db = Inr (x, db')"
  shows "a_seasons db' = map (\<lambda>y. if z_id y = z_id z then move_season now status y else y) (a_seasons db)"
    and "rolled_up db' mr"
proof -
  obtain t where e: "ensure_pending mr n db = Inr (to_record_sea z t, db)" using ensure_pending_found[OF inv z] by blast
  from run e obtain db1 where s: "set_status_sea now (z_id z) status db = Inr ((), db1)"
    and r: "recompute_parent now mr False False db1 = Inr (x, db')"
    by (auto simp: set_status_def bind_op_Inr)
  have "db1 = map_seasons (\<lambda>y. z_id y = z_id z) (move_season now status) db"
    using s by (auto simp: set_status_sea_def bind_op_Inr request_status_def update_seasons_def split: if_splits)
  moreover have "app_inv db1" using steadyD[OF steady_set_status_sea inv s] by (rule evolves_inv)
  ultimately show "a_seasons db' = map (\<lambda>y. if z_id y = z_id z then move_season now status y else y) (a_seasons db)"
    using recompute_parent_Inr(1)[OF _ r] by (simp add: map_seasons_def)
  show "rolled_up db' mr" using rolls_upD[OF rolls_up_calls(1) inv run] by simp
qed

lemma rollup_cancelled: "ss \<noteq> [] \<Longrightarrow> set ss \<subseteq> {''cancelled''} \<Longrightarrow> rollup_status ss = Inr ''cancelled''"
proof -
  assume a: "ss \<noteq> []" "set ss \<subseteq> {''cancelled''}"
  then have s: "set ss = {''cancelled''}" by (cases ss) auto
  have "filter (\<lambda>s. s \<notin> set VALID_SEASON_STATUSES) ss = []"
    unfolding filter_empty_conv s by (simp add: VALID_SEASON_STATUSES_def)
  then show ?thesis using a(1) by (simp add: rollup_status_def s PRECEDENCE_STATUSES_def rollup_tail_def)
qed

lemma by_season_number_facts [simp]: "set (by_season_number zs) = set zs" "by_season_number zs = [] \<longleftrightarrow> zs = []"
proof -
  show s: "set (by_season_number zs) = set zs" by (simp add: by_season_number_def set_sort_by)
  show "by_season_number zs = [] \<longleftrightarrow> zs = []" using s by (metis set_empty)
qed

definition rows_view :: "app_db \<Rightarrow> request_row list \<times> season_row list" where
  "rows_view db = (a_requests db, a_seasons db)"

lemma rows_keeps [keep_rules]:
  "preserves rows_view (on_store s)" "preserves rows_view (acquire_media_lock tmdb mt)"
  "preserves rows_view (add_history t hash ev title msg)" "preserves rows_view (remove_subscriber rid u)"
  by (auto intro!: preservesI simp: on_store_def acquire_media_lock_def add_history_def remove_subscriber_def rows_view_def
      bind_op_Inr split: if_splits sum.splits)

text \<open>After the write: all seasons of the request are cancelled, and the request itself, unless it is a show without seasons.\<close>

definition all_cancelled :: "int \<Rightarrow> app_db \<Rightarrow> bool" where
  "all_cancelled rid b \<longleftrightarrow> (\<forall>z \<in> set (a_seasons b). z_media_request_id z = rid \<longrightarrow> z_status z = ''cancelled'')"

definition cancelled_row :: "int \<Rightarrow> app_db \<Rightarrow> bool" where
  "cancelled_row rid b \<longleftrightarrow> (\<exists>r. find_req b rid = Some r \<and> q_status r = ''cancelled'')"

definition has_seasons :: "int \<Rightarrow> app_db \<Rightarrow> bool" where
  "has_seasons rid db \<longleftrightarrow> (\<exists>z \<in> set (a_seasons db). z_media_request_id z = rid)"

lemma cancelled_rollup: "all_cancelled rid b \<Longrightarrow> has_seasons rid b \<Longrightarrow> rolled_up b rid \<Longrightarrow> cancelled_row rid b"
proof -
  assume c: "all_cancelled rid b" "has_seasons rid b" "rolled_up b rid"
  have ne: "season_statuses b rid \<noteq> []" and all: "set (season_statuses b rid) \<subseteq> {''cancelled''}"
    using c(1,2) by (auto simp: season_statuses_def all_cancelled_def has_seasons_def filter_empty_conv)
  from rollup_cancelled[OF this] c(3) ne show ?thesis by (auto simp: rolled_up_def cancelled_row_def)
qed

lemma list_for_request_rows:
  assumes "list_for_request_sea db mr = Inr seasons"
  obtains t where "seasons = map (\<lambda>z. to_record_sea z t) (by_season_number (filter (\<lambda>z. z_media_request_id z = mr) (a_seasons db)))"
  using assms by (auto simp: list_for_request_sea_def Let_def tmdb_id_for_def split: if_splits option.splits)

lemma list_for_request_numbers:
  assumes "list_for_request_sea db mr = Inr seasons"
  shows "set (map zr_season_number seasons) = z_season_number ` {z \<in> set (a_seasons db). z_media_request_id z = mr}
   \<and> (seasons = [] \<longleftrightarrow> \<not> has_seasons mr db)"
  using assms by (rule list_for_request_rows) (auto simp: has_seasons_def filter_empty_conv image_image)

section \<open>The teardown\<close>

abbreviation row_ids :: "download_record list \<Rightarrow> int list" where
  "row_ids rows \<equiv> map (\<lambda>row. d_id (fst row)) rows"

abbreviation row_hashes :: "download_record list \<Rightarrow> string list" where
  "row_hashes rows \<equiv> map (\<lambda>row. d_torrent_hash (fst row)) rows"

definition refused :: "verb_event list \<Rightarrow> verb_error \<Rightarrow> desk_pred" where
  "refused T e a b i t \<longleftrightarrow> t = T @ map RemovalRegistered i"

definition tearing :: "app_db \<Rightarrow> verb_event list \<Rightarrow> download_record list \<Rightarrow> desk_pred" where
  "tearing A T seen a b i t \<longleftrightarrow> a = A \<and> people b = people A \<and> rows_view b = rows_view A \<and> torn i A b
     \<and> i = row_ids seen \<and> t = T @ map RemovalRegistered i"

lemma does_register:
  "(\<And>a b i t. sound_db a \<Longrightarrow> sound_db b \<Longrightarrow> P a b i t \<Longrightarrow> Q () a b (i @ [did]) (t @ [RemovalRegistered did])) \<Longrightarrow>
   does P (register_removal did) Q E"
  by (auto simp: does_def register_removal_def emit_def at_desk_def)

lemma does_rollback:
  "sound_others ve \<Longrightarrow>
   (\<And>a b i t n. sound_db a \<Longrightarrow> P a b i t \<Longrightarrow> Q () (su_others (ve_su ve) n a) (su_others (ve_su ve) n a) i t) \<Longrightarrow>
   does P (call (rollback (ve_su ve))) Q E"
  using does_wait[of ve P Q E] by (simp add: wait_def rollback_def)

lemma cas_views:
  assumes "cas_download now did st allowed u b = Inr (x, b')"
  shows "people b' = people b" "rows_view b' = rows_view b"
  by (rule preservesD[OF people_writes(6) assms[unfolded cas_download_def]] preservesD[OF rows_keeps(1) assms[unfolded cas_download_def]])+

lemma scopes_views:
  assumes "mark_download_scopes_terminal did st b = Inr (x, b')"
  shows "people b' = people b" "rows_view b' = rows_view b"
  by (rule preservesD[OF people_writes(6) assms[unfolded mark_download_scopes_terminal_def]] preservesD[OF rows_keeps(1) assms[unfolded mark_download_scopes_terminal_def]])+

lemma does_cancel_row:
  assumes others: "sound_others ve"
  shows "does (tearing A T seen) (cancel_row ve row) (\<lambda>_. tearing A T (seen @ [row])) (refused T)"
proof -
  let ?did = "d_id (fst row)"
  let ?cas = "cas_download (now_at ve) ?did (state_str Failed) CANCELLABLE_DOWNLOAD_STATE_VALUES cancel_update"
  let ?mid = "\<lambda>moved a b i t. \<exists>b0. sound_db b0 \<and> tearing A T seen a b0 i t \<and> ?cas b0 = Inr (moved, b)"
  let ?fin = "\<lambda>_ a b i t. a = A \<and> people b = people A \<and> rows_view b = rows_view A \<and> torn (i @ [?did]) A b
      \<and> i = row_ids seen \<and> t = T @ map RemovalRegistered i"
  have swap: "does (tearing A T seen) (write_verb ?cas) ?mid (refused T)"
    by (rule does_write[OF sound_cas]) (auto simp: tearing_def refused_def)
  have abort: "does (?mid False) (andthen (call (rollback (ve_su ve))) (\<lambda>_. fail ImportInProgressError)) Q (refused T)" for Q
    by (rule does_andthen[OF does_rollback[OF others, where Q = "\<lambda>_ a b i t. t = T @ map RemovalRegistered i"]])
      (auto simp: tearing_def refused_def intro!: does_fail)
  have scopes: "does (?mid True) (write_verb (mark_download_scopes_terminal ?did ''cancelled'')) ?fin (refused T)"
  proof (rule does_write[OF sound_scopes])
    fix a b i t x b' assume "?mid True a b i t" and m: "mark_download_scopes_terminal ?did ''cancelled'' b = Inr (x, b')"
    then obtain b0 where b0: "sound_db b0" "tearing A T seen a b0 i t" "?cas b0 = Inr (True, b)" by blast
    show "?fin x a b' i t"
      using b0(2) torn_step[OF _ _ b0(3) m] b0(1) cas_views[OF b0(3)] scopes_views[OF m]
      by (auto simp: tearing_def sound_db_def)
  qed (auto simp: tearing_def refused_def)
  have reg: "does (?fin x) (register_removal ?did) (\<lambda>_. tearing A T (seen @ [row])) (refused T)" for x
    by (rule does_register) (auto simp: tearing_def)
  show ?thesis unfolding cancel_row_def
  proof (rule does_andthen[OF swap])
    fix moved
    show "does (?mid moved) (if \<not> moved then andthen (call (rollback (ve_su ve))) (\<lambda>_. fail ImportInProgressError)
        else andthen (write_verb (mark_download_scopes_terminal ?did ''cancelled'')) (\<lambda>_. register_removal ?did))
        (\<lambda>_. tearing A T (seen @ [row])) (refused T)"
      using does_andthen[OF scopes reg] abort by (cases moved) (simp_all only: simp_thms if_True if_False)
  qed
qed

text \<open>The seasons of the request, after a prefix of them has been cancelled.\<close>

definition season_ident :: "season_row \<Rightarrow> int \<times> int \<times> int" where
  "season_ident z = (z_id z, z_media_request_id z, z_season_number z)"

definition seasons_cancelled :: "int \<Rightarrow> app_db \<Rightarrow> season_record list \<Rightarrow> app_db \<Rightarrow> bool" where
  "seasons_cancelled rid A seen b \<longleftrightarrow> map season_ident (a_seasons b) = map season_ident (a_seasons A)
     \<and> (\<forall>z \<in> set (a_seasons b). z_media_request_id z = rid \<and> z_season_number z \<in> set (map zr_season_number seen)
          \<longrightarrow> z_status z = ''cancelled'')
     \<and> (seen \<noteq> [] \<longrightarrow> rolled_up b rid)"

lemma ident_transfer:
  "map season_ident (a_seasons b) = map season_ident (a_seasons A) \<Longrightarrow> z \<in> set (a_seasons A) \<Longrightarrow>
   \<exists>y \<in> set (a_seasons b). season_ident y = season_ident z"
  by (metis (no_types, lifting) image_iff image_set)

lemma cancel_season_step:
  assumes inv: "app_inv b" and sc: "seasons_cancelled rid A seen b"
    and z: "\<exists>z \<in> set (a_seasons A). z_media_request_id z = rid \<and> z_season_number z = zr_season_number x"
    and run: "set_status now rid (zr_season_number x) ''cancelled'' False b = Inr (u, b')"
  shows "seasons_cancelled rid A (seen @ [x]) b'"
proof -
  from z ident_transfer[of b A] sc obtain y where y: "y \<in> set (a_seasons b)" "z_media_request_id y = rid"
    "z_season_number y = zr_season_number x"
    by (fastforce simp: seasons_cancelled_def season_ident_def)
  have "find_sea b rid (zr_season_number x) = Some y" using find_sea_eq[OF inv y(1)] y(2,3) by simp
  note e = set_status_effect[OF inv this run]
  have "map season_ident (a_seasons b') = map season_ident (a_seasons b)"
    unfolding e(1) by (simp add: season_ident_def moved_status)
  moreover have "z_status w' = ''cancelled''" if w': "w' \<in> set (a_seasons b')" "z_media_request_id w' = rid"
      "z_season_number w' \<in> set (map zr_season_number (seen @ [x]))" for w'
  proof -
    from w'(1) e(1) obtain w where w: "w \<in> set (a_seasons b)"
      "w' = (if z_id w = z_id y then move_season now ''cancelled'' w else w)" by auto
    show ?thesis
    proof (cases "z_id w = z_id y")
      case False
      then have "w' = w" using w(2) by simp
      moreover have "z_season_number w \<noteq> zr_season_number x"
        using season_key_inj[OF inv w(1) y(1)] False y(2,3) w'(2) \<open>w' = w\<close> by auto
      ultimately show ?thesis using sc w(1) w'(2,3) by (auto simp: seasons_cancelled_def)
    qed (use w(2) moved_status in auto)
  qed
  ultimately show ?thesis using sc e(2) by (simp add: seasons_cancelled_def)
qed

definition cancelling :: "app_db \<Rightarrow> verb_event list \<Rightarrow> download_record list \<Rightarrow> desk_pred" where
  "cancelling A T active a b i t \<longleftrightarrow> a = A \<and> people b = people A \<and> torn i A b
     \<and> i = row_ids active \<and> t = T @ map RemovalRegistered i"

definition ends_cancelled :: "int \<Rightarrow> app_db \<Rightarrow> app_db \<Rightarrow> bool" where
  "ends_cancelled rid A b \<longleftrightarrow> (\<exists>r. find_req A rid = Some r
     \<and> (q_media_type r = Tv \<longrightarrow> all_cancelled rid b) \<and> (q_media_type r = Movie \<or> has_seasons rid A \<longrightarrow> cancelled_row rid b))"

lemma torn_store: "a_store b' = a_store b \<Longrightarrow> torn i A b \<Longrightarrow> torn i A b'"
  by (simp add: torn_def)

lemma media_tv: "media_value m = ''tv'' \<longleftrightarrow> m = Tv"
  by (cases m) (simp_all add: media_value_def)

lemma season_ident_rid: "map season_ident (a_seasons b) = map season_ident (a_seasons A) \<Longrightarrow> has_seasons rid A = has_seasons rid b"
  unfolding has_seasons_def using ident_transfer[of b A] ident_transfer[of A b] by (fastforce simp: season_ident_def)

lemma does_settle:
  assumes r: "find_req A rid = Some r" and request: "request = to_record_req r"
    and seasons: "q_media_type r = Tv \<Longrightarrow> list_for_request_sea A rid = Inr seasons"
  shows "does (tearing A T active) (settle_cancelled ve request rid seasons)
    (\<lambda>_ a b i t. cancelling A T active a b i t \<and> ends_cancelled rid A b) (refused T)"
proof (cases "q_media_type r = Tv")
  case True
  let ?I = "\<lambda>seen a b i t. cancelling A T active a b i t \<and> seasons_cancelled rid A seen b"
  have step: "does (?I seen) (write_verb (set_status (now_at ve) rid (zr_season_number x) ''cancelled'' False))
      (\<lambda>_. ?I (seen @ [x])) (refused T)" if "seasons = seen @ x # rest" for seen x rest
  proof (rule does_write[OF sound_writes(6)])
    fix a b i t u b' assume s: "sound_db b" and I: "?I seen a b i t"
      and w: "set_status (now_at ve) rid (zr_season_number x) ''cancelled'' False b = Inr (u, b')"
    have "zr_season_number x \<in> set (map zr_season_number seasons)" using that by simp
    then have "\<exists>z \<in> set (a_seasons A). z_media_request_id z = rid \<and> z_season_number z = zr_season_number x"
      using list_for_request_numbers[OF seasons[OF True]] by auto
    from cancel_season_step[OF _ _ this w] I s show "?I (seen @ [x]) a b' i t"
      using preservesD[OF people.keep_set_status w] preservesD[OF store.keep_set_status w] torn_store
      by (auto simp: cancelling_def sound_db_def)
  qed (auto simp: cancelling_def refused_def)
  have loop: "does (?I []) (each (\<lambda>z. write_verb (set_status (now_at ve) rid (zr_season_number z) ''cancelled'' False)) seasons)
      (\<lambda>_. ?I seasons) (refused T)"
    by (rule does_each) (rule step)
  have fin: "ends_cancelled rid A b" if sc: "seasons_cancelled rid A seasons b" for b
  proof -
    note nums = list_for_request_numbers[OF seasons[OF True]]
    have all: "all_cancelled rid b"
      unfolding all_cancelled_def
    proof (intro ballI impI)
      fix z assume z: "z \<in> set (a_seasons b)" "z_media_request_id z = rid"
      have idents: "map season_ident (a_seasons A) = map season_ident (a_seasons b)" using sc by (simp add: seasons_cancelled_def)
      obtain y where y: "y \<in> set (a_seasons A)" "season_ident y = season_ident z" using ident_transfer[OF idents z(1)] by blast
      then have "z_season_number z = z_season_number y" "z_media_request_id y = rid" using z(2) by (simp_all add: season_ident_def)
      then have "z_season_number z \<in> set (map zr_season_number seasons)" unfolding conjunct1[OF nums] using y(1) by simp
      then show "z_status z = ''cancelled''" using sc z by (auto simp: seasons_cancelled_def)
    qed
    moreover have "cancelled_row rid b" if h: "has_seasons rid A"
      using cancelled_rollup[OF all] h nums season_ident_rid[of b A rid] sc by (auto simp: seasons_cancelled_def)
    ultimately show ?thesis using r True by (auto simp: ends_cancelled_def)
  qed
  have tv: "rr_media_type request = ''tv''" using request True by (simp add: to_record_req_def media_value_def)
  have "does (tearing A T active) (each (\<lambda>z. write_verb (set_status (now_at ve) rid (zr_season_number z) ''cancelled'' False)) seasons)
      (\<lambda>_ a b i t. cancelling A T active a b i t \<and> ends_cancelled rid A b) (refused T)"
    by (rule does_conseq[OF loop]) (auto simp: tearing_def cancelling_def seasons_cancelled_def rows_view_def fin)
  then show ?thesis unfolding settle_cancelled_def tv by simp
next
  case False
  then have movie: "rr_media_type request \<noteq> ''tv''" using request by (simp add: to_record_req_def media_tv)
  have "does (tearing A T active) (write_verb (set_status_req rid ''cancelled''))
    (\<lambda>_ a b i t. cancelling A T active a b i t \<and> ends_cancelled rid A b) (refused T)"
  proof (rule does_write[OF sound_writes(5)])
    fix a b i t x b' assume I: "tearing A T active a b i t" and w: "set_status_req rid ''cancelled'' b = Inr (x, b')"
    have "b' = map_requests (\<lambda>r. q_id r = rid) (\<lambda>r. r\<lparr>q_status := ''cancelled''\<rparr>) b" using set_status_req_Inr[OF w] by simp
    then have "find_req b' rid = map_option (\<lambda>r. if q_id r = rid then r\<lparr>q_status := ''cancelled''\<rparr> else r) (find_req b rid)"
      by (simp add: find_req_map)
    moreover have "find_req b rid = Some r" using I r by (simp add: tearing_def rows_view_def find_req_def)
    moreover have "q_id r = rid" using r by (auto dest: find_req_SomeD)
    ultimately have "cancelled_row rid b'" by (simp add: cancelled_row_def)
    then show "cancelling A T active a b' i t \<and> ends_cancelled rid A b'"
      using I r False preservesD[OF people.keep_set_status_req w] preservesD[OF store.keep_set_status_req w] torn_store
      by (auto simp: tearing_def cancelling_def ends_cancelled_def)
  qed (auto simp: tearing_def refused_def)
  then show ?thesis unfolding settle_cancelled_def using movie by simp
qed

lemma each_emit: "each (\<lambda>x. emit (f x)) xs d = (Inr (), d\<lparr>dk_trace := dk_trace d @ map f xs\<rparr>)"
  by (induction xs arbitrary: d) (simp_all add: ret_def andthen_def emit_def)

lemma does_release:
  "(\<And>a b i t. sound_db a \<Longrightarrow> sound_db b \<Longrightarrow> P a b i t \<Longrightarrow> Q () a b i (t @ map RemovalReleased i)) \<Longrightarrow> does P release_removals Q E"
  by (auto simp: does_def release_removals_def each_emit at_desk_def)

lemma does_any:
  assumes "\<And>A. does (\<lambda>a b i t. a = A \<and> P a b i t) m Q E"
  shows "does P m Q E"
proof (rule doesI)
  fix d assume d: "at_desk P d"
  have "at_desk (\<lambda>a b i t. a = ss_saved (dk_session d) \<and> P a b i t) d" using d by (simp add: at_desk_def)
  with assms[of "ss_saved (dk_session d)"] show "case m d of (Inr x, d') \<Rightarrow> at_desk (Q x) d' | (Inl e, d') \<Rightarrow> at_desk (E e) d'"
    by (simp add: does_def)
qed

lemma does_know:
  assumes "\<And>a b i t. sound_db a \<Longrightarrow> sound_db b \<Longrightarrow> P a b i t \<Longrightarrow> F" and "F \<Longrightarrow> does P m Q E"
  shows "does P m Q E"
proof (rule doesI)
  fix d assume d: "at_desk P d"
  have F using d assms(1) by (auto simp: at_desk_def)
  from assms(2)[OF this] d show "case m d of (Inr x, d') \<Rightarrow> at_desk (Q x) d' | (Inl e, d') \<Rightarrow> at_desk (E e) d'"
    by (simp add: does_def)
qed

section \<open>The trace of a cancellation\<close>

definition stable :: "verb_env \<Rightarrow> (app_db \<Rightarrow> bool) \<Rightarrow> bool" where
  "stable ve K \<longleftrightarrow> (\<forall>n db. sound_db db \<longrightarrow> K db \<longrightarrow> K (su_others (ve_su ve) n db))"

definition may_cancel :: "int \<Rightarrow> app_db \<Rightarrow> bool" where
  "may_cancel rid A \<longleftrightarrow> (\<exists>r. find_req A rid = Some r \<and> q_status r \<in> set CANCELLABLE_REQUEST_STATUS_VALUES
     \<and> (q_media_type r = Tv \<longrightarrow> (\<forall>z \<in> set (a_seasons A). z_media_request_id z = rid \<longrightarrow>
          z_status z \<notin> set UNCANCELLABLE_SEASON_STATUS_VALUES
          \<and> find_latest_imported_for_request (a_store A) rid (Some (z_season_number z)) = None)))
     \<and> (\<forall>row \<in> set (list_active_for_request (a_store A) rid). d_status (fst row) \<noteq> state_str Importing)"

definition cancels :: "int \<Rightarrow> app_db \<Rightarrow> app_db \<Rightarrow> bool" where
  "cancels rid A b \<longleftrightarrow> may_cancel rid A \<and> torn (row_ids (list_active_for_request (a_store A) rid)) A b
     \<and> ends_cancelled rid A b \<and> people b = people A"

definition cancel_events :: "int \<Rightarrow> app_db \<Rightarrow> app_db \<Rightarrow> verb_event list" where
  "cancel_events rid A b = (let active = list_active_for_request (a_store A) rid in
     map RemovalRegistered (row_ids active) @ [Committed A b] @ map TorrentRemoved (row_hashes active)
     @ map RemovalReleased (row_ids active))"

definition refusal_events :: "int list \<Rightarrow> verb_event list" where
  "refusal_events ids = map RemovalRegistered ids @ map RemovalReleased ids"

definition cancel_done :: "verb_env \<Rightarrow> int \<Rightarrow> (app_db \<Rightarrow> bool) \<Rightarrow> verb_event list \<Rightarrow> desk_pred" where
  "cancel_done ve rid K T a b i t \<longleftrightarrow> (\<exists>A B. K A \<and> cancels rid A B \<and> t = T @ cancel_events rid A B
     \<and> (stable ve (cancelled_row rid) \<longrightarrow> cancelled_row rid B \<longrightarrow> cancelled_row rid a))"

definition cancel_failed :: "verb_env \<Rightarrow> int \<Rightarrow> (app_db \<Rightarrow> bool) \<Rightarrow> verb_event list \<Rightarrow> verb_error \<Rightarrow> desk_pred" where
  "cancel_failed ve rid K T e a b i t \<longleftrightarrow> (\<exists>ids. t = T @ refusal_events ids) \<or> e = RequestNotFoundError \<and> cancel_done ve rid K T a b i t"

text \<open>Under the media lock: nothing but the lock is written yet.\<close>

definition held :: "app_db \<Rightarrow> (int list \<Rightarrow> verb_event list \<Rightarrow> bool) \<Rightarrow> desk_pred" where
  "held A R a b i t \<longleftrightarrow> a = A \<and> people b = people A \<and> rows_view b = rows_view A \<and> a_store b = a_store A \<and> R i t"

abbreviation locked :: "app_db \<Rightarrow> verb_event list \<Rightarrow> desk_pred" where
  "locked A T \<equiv> held A (\<lambda>i t. i = [] \<and> t = T)"

definition removing :: "verb_env \<Rightarrow> int \<Rightarrow> app_db \<Rightarrow> verb_event list \<Rightarrow> download_record list \<Rightarrow> desk_pred" where
  "removing ve rid A T seen a b i t \<longleftrightarrow> i = row_ids (list_active_for_request (a_store A) rid) \<and> (\<exists>B. cancels rid A B
     \<and> t = T @ map RemovalRegistered i @ [Committed A B] @ map TorrentRemoved (row_hashes seen)
     \<and> (stable ve (cancelled_row rid) \<longrightarrow> cancelled_row rid B \<longrightarrow> cancelled_row rid a))"

lemma does_remove:
  "sound_others ve \<Longrightarrow> does (removing ve rid A T seen) (remove_torrent ve (d_torrent_hash (fst row))) (\<lambda>_. removing ve rid A T (seen @ [row])) E"
  unfolding remove_torrent_def
  by (rule does_andthen[OF does_emit[where Q = "\<lambda>_. removing ve rid A T (seen @ [row])"]])
    (auto simp: removing_def stable_def intro!: does_wait)

lemma does_tear_down:
  assumes others: "sound_others ve" and r: "find_req A rid = Some r" and request: "request = to_record_req r"
    and seasons: "q_media_type r = Tv \<Longrightarrow> list_for_request_sea A rid = Inr seasons"
    and ok: "may_cancel rid A" and active: "active = list_active_for_request (a_store A) rid"
    and client: "active \<noteq> [] \<longrightarrow> ve_has_client ve"
  shows "does (locked A T) (tear_down ve request rid seasons active) (\<lambda>_. removing ve rid A T active) (refused T)"
proof -
  have rows: "does (locked A T) (each (cancel_row ve) active) (\<lambda>_. tearing A T active) (refused T)"
    by (rule does_pre[OF does_each[where I = "tearing A T"]]) (auto intro: does_cancel_row[OF others] torn_refl simp: held_def tearing_def)
  let ?set = "\<lambda>_ a b i t. cancelling A T active a b i t \<and> ends_cancelled rid A b"
  have hist: "does (?set u) (write_verb (add_history x1 x2 x3 x4 x5)) ?set (refused T)" for u x1 x2 x3 x4 x5
  proof (rule does_write[OF sound_writes(1)])
    fix a b i t x b' assume c: "?set u a b i t" and w: "add_history x1 x2 x3 x4 x5 b = Inr (x, b')"
    have same: "people b' = people b" "a_store b' = a_store b" "rows_view b' = rows_view b"
      using preservesD[OF people_writes(8) w] preservesD[OF store_writes(7) w] preservesD[OF rows_keeps(3) w] by auto
    then have "ends_cancelled rid A b' = ends_cancelled rid A b"
      by (simp add: ends_cancelled_def rows_view_def all_cancelled_def cancelled_row_def find_req_def)
    then show "?set x a b' i t" using c same torn_store by (auto simp: cancelling_def)
  qed (auto simp: cancelling_def refused_def)
  have commit: "does (?set u) (commit_verb ve) (\<lambda>_. removing ve rid A T []) (refused T)" for u
    using ok active
    by (intro does_commit[OF others]) (auto simp: cancelling_def removing_def cancels_def stable_def)
  have remove: "does (removing ve rid A T []) (if ve_has_client ve then each (\<lambda>row. remove_torrent ve (d_torrent_hash (fst row))) active
      else ret ()) (\<lambda>_. removing ve rid A T active) (refused T)"
  proof (cases "ve_has_client ve")
    case True
    then show ?thesis using does_each[where I = "removing ve rid A T", OF does_remove[OF others]] by simp
  next
    case False
    then show ?thesis using client by (auto intro: does_ret)
  qed
  show ?thesis unfolding tear_down_def
    by (intro does_andthen[OF rows] does_andthen[OF does_settle[OF r request seasons]] does_andthen[OF hist] does_andthen[OF commit] remove)
qed

lemma does_read:
  "(\<And>a b i t. sound_db a \<Longrightarrow> sound_db b \<Longrightarrow> P a b i t \<Longrightarrow> Q (g b) a b i t) \<Longrightarrow> does P (call (query (\<lambda>db. Inr (g db)))) Q E"
  by (auto simp: does_def call_def query_def stmt_def of_sum_def at_desk_def)

lemma does_existing:
  assumes "\<And>a b i t r. sound_db a \<Longrightarrow> sound_db b \<Longrightarrow> P a b i t \<Longrightarrow> find_req b rid = Some r \<Longrightarrow> Q (to_record_req r) a b i t"
    and "\<And>a b i t. sound_db a \<Longrightarrow> sound_db b \<Longrightarrow> P a b i t \<Longrightarrow> find_req b rid = None \<Longrightarrow> E RequestNotFoundError a b i t"
  shows "does P (andthen (call (query (\<lambda>db. Inr (get_req db rid)))) existing) Q E"
proof (rule does_andthen)
  let ?M = "\<lambda>x a b i t. P a b i t \<and> x = map_option to_record_req (find_req b rid)"
  show "does P (call (query (\<lambda>db. Inr (get_req db rid)))) ?M E"
    by (rule does_read) (simp add: get_req_def)
  show "does (?M x) (existing x) Q E" for x
  proof (cases x)
    case None
    then show ?thesis using assms(2) by (auto simp: existing_def intro!: does_fail)
  next
    case (Some y)
    have "Q y a b i t" if ab: "sound_db a" "sound_db b" "?M x a b i t" for a b i t
    proof -
      obtain r where "find_req b rid = Some r" "y = to_record_req r" using ab(3) Some by (cases "find_req b rid") auto
      then show ?thesis using assms(1) ab by blast
    qed
    then show ?thesis unfolding Some existing_def option.case by (intro does_ret) (simp add: Some)
  qed
qed

lemma does_get_fresh:
  assumes "\<And>a b i t r. sound_db a \<Longrightarrow> sound_db b \<Longrightarrow> P a b i t \<Longrightarrow> find_req b rid = Some r \<Longrightarrow> Q (to_record_req r) a b i t"
    and "\<And>a b i t. sound_db a \<Longrightarrow> sound_db b \<Longrightarrow> P a b i t \<Longrightarrow> find_req b rid = None \<Longrightarrow> E RequestNotFoundError a b i t"
  shows "does P (get_fresh rid) Q E"
  unfolding get_fresh_def using assms by (rule does_existing)

lemma does_get_request:
  assumes others: "sound_others ve"
    and "\<And>a b i t n. sound_db a \<Longrightarrow> P a b i t \<Longrightarrow> P (su_others (ve_su ve) n a) (su_others (ve_su ve) n a) i t"
    and "\<And>a b i t r. sound_db a \<Longrightarrow> sound_db b \<Longrightarrow> P a b i t \<Longrightarrow> a = b \<Longrightarrow> find_req b rid = Some r \<Longrightarrow> Q (to_record_req r) a b i t"
    and "\<And>a b i t. sound_db a \<Longrightarrow> sound_db b \<Longrightarrow> P a b i t \<Longrightarrow> E RequestNotFoundError a b i t"
  shows "does P (get_request ve rid) Q E"
proof -
  have "get_request ve rid = andthen (wait ve) (\<lambda>_. andthen (call (query (\<lambda>db. Inr (get_req db rid)))) existing)"
    unfolding get_request_def read_verb_def andthen_def by (auto split: prod.splits sum.splits)
  then show ?thesis
    by (auto intro!: does_andthen[OF does_wait[OF others, where Q = "\<lambda>_ a b i t. P a b i t \<and> a = b"]] does_existing assms(2-))
qed

lemma held_reads:
  assumes "held A R a b i t"
  shows "find_req b rid = find_req A rid" "list_for_request_sea b rid = list_for_request_sea A rid" "a_store b = a_store A"
  using assms by (simp_all add: held_def rows_view_def find_req_def list_for_request_sea_def tmdb_id_for_def)

lemma season_rows:
  assumes "list_for_request_sea A rid = Inr seasons" and "\<not> list_ex (uncancellable_season A rid) seasons"
    and z: "z \<in> set (a_seasons A)" "z_media_request_id z = rid"
  shows "z_status z \<notin> set UNCANCELLABLE_SEASON_STATUS_VALUES
    \<and> find_latest_imported_for_request (a_store A) rid (Some (z_season_number z)) = None"
proof -
  obtain t where "seasons = map (\<lambda>z. to_record_sea z t) (by_season_number (filter (\<lambda>z. z_media_request_id z = rid) (a_seasons A)))"
    using assms(1) by (rule list_for_request_rows)
  then have "to_record_sea z t \<in> set seasons" using z by simp
  then have "\<not> uncancellable_season A rid (to_record_sea z t)" using assms(2) by (auto simp: list_ex_iff)
  then show ?thesis unfolding uncancellable_season_def by (simp del: not_None_eq)
qed

lemma removing_done:
  "K A \<Longrightarrow> removing ve rid A T (list_active_for_request (a_store A) rid) a b i t \<Longrightarrow> cancel_done ve rid K T a b i (t @ map RemovalReleased i)"
  unfolding removing_def cancel_done_def
  by (elim conjE exE, rule exI[of _ A], rule_tac x = B in exI) (auto simp: cancel_events_def Let_def)

lemma locked_refused: "locked A T a b i t \<Longrightarrow> cancel_failed ve rid K T e a b i t"
  by (auto simp: cancel_failed_def held_def refusal_events_def intro: exI[of _ "[]"])

lemma does_cancel_locked:
  assumes others: "sound_others ve" and K: "K A"
  shows "does (locked A T) (cancel_request_locked ve rid) (\<lambda>_. cancel_done ve rid K T) (cancel_failed ve rid K T)"
proof -
  let ?E = "cancel_failed ve rid K T"
  have early: "does (locked A T) (fail e) Q ?E" for e and Q :: "request_record \<Rightarrow> desk_pred"
    by (rule does_fail) (auto simp: cancel_failed_def held_def refusal_events_def intro: exI[of _ "[]"])
  have know: "does (\<lambda>a b i t. locked A T a b i t \<and> F) m Q ?E" if "F \<Longrightarrow> does (locked A T) m Q ?E"
    for F and m :: "'x verb" and Q
    by (rule does_know[where F = F]) (auto intro: does_pre that)
  have last: "does (cancel_done ve rid K T) (get_request ve rid) (\<lambda>_. cancel_done ve rid K T) ?E"
    by (rule does_get_request[OF others]) (auto simp: cancel_done_def cancel_failed_def stable_def)
  have body: "does (locked A T) (lastly (tear_down ve request rid seasons active) release_removals) (\<lambda>_. cancel_done ve rid K T) ?E"
    if "find_req A rid = Some r" "request = to_record_req r" "q_media_type r = Tv \<Longrightarrow> list_for_request_sea A rid = Inr seasons"
      "may_cancel rid A" "active = list_active_for_request (a_store A) rid" "active \<noteq> [] \<longrightarrow> ve_has_client ve" for request r seasons active
  proof (rule does_lastly[OF does_tear_down[OF others that]])
    show "does (removing ve rid A T active) release_removals (\<lambda>_. cancel_done ve rid K T) (\<lambda>_ _ _ _ _. False)"
      by (rule does_release) (simp add: removing_done[where K = K, OF K] that(5))
    show "does (refused T e) release_removals (\<lambda>_. ?E e) (\<lambda>_ _ _ _ _. False)" for e
      by (rule does_release) (auto simp: refused_def cancel_failed_def refusal_events_def)
  qed
  have active_rows: "does (locked A T) (andthen (call (query (\<lambda>db. Inr (list_active_for_request (a_store db) rid)))) (\<lambda>active.
       if list_ex (\<lambda>row. d_status (fst row) = state_str Importing) active then fail ImportInProgressError
       else if active \<noteq> [] \<and> \<not> ve_has_client ve then fail DownloadClientRequiredError
       else andthen (lastly (tear_down ve request rid seasons active) release_removals) (\<lambda>_. get_request ve rid)))
     (\<lambda>_. cancel_done ve rid K T) ?E"
    if r: "find_req A rid = Some r" "request = to_record_req r" "q_status r \<in> set CANCELLABLE_REQUEST_STATUS_VALUES"
      "q_media_type r = Tv \<Longrightarrow> list_for_request_sea A rid = Inr seasons \<and> \<not> list_ex (uncancellable_season A rid) seasons"
    for request r seasons
  proof (rule does_andthen)
    let ?active = "list_active_for_request (a_store A) rid"
    show "does (locked A T) (call (query (\<lambda>db. Inr (list_active_for_request (a_store db) rid))))
        (\<lambda>x a b i t. locked A T a b i t \<and> x = ?active) ?E"
      by (rule does_read) (simp add: held_reads(3))
    have ok: "may_cancel rid A" if "\<not> list_ex (\<lambda>row. d_status (fst row) = state_str Importing) ?active"
      unfolding may_cancel_def
    proof (intro conjI exI[of _ r] impI ballI)
      fix z assume tv: "q_media_type r = Tv" and zs: "z \<in> set (a_seasons A)" "z_media_request_id z = rid"
      have z: "z_status z \<notin> set UNCANCELLABLE_SEASON_STATUS_VALUES
        \<and> find_latest_imported_for_request (a_store A) rid (Some (z_season_number z)) = None"
        by (rule season_rows[OF conjunct1[OF r(4)[OF tv]] conjunct2[OF r(4)[OF tv]] zs])
      show "z_status z \<notin> set UNCANCELLABLE_SEASON_STATUS_VALUES" by (rule conjunct1[OF z])
      show "find_latest_imported_for_request (a_store A) rid (Some (z_season_number z)) = None" by (rule conjunct2[OF z])
    qed (use that r in \<open>auto simp: list_ex_iff\<close>)
    show "does (\<lambda>a b i t. locked A T a b i t \<and> x = ?active)
       (if list_ex (\<lambda>row. d_status (fst row) = state_str Importing) x then fail ImportInProgressError
        else if x \<noteq> [] \<and> \<not> ve_has_client ve then fail DownloadClientRequiredError
        else andthen (lastly (tear_down ve request rid seasons x) release_removals) (\<lambda>_. get_request ve rid))
       (\<lambda>_. cancel_done ve rid K T) ?E" for x
      by (rule know, intro does_If early does_andthen[OF body last] r(1,2) ok) (use r in auto)
  qed
  show ?thesis unfolding cancel_request_locked_def
  proof (rule does_andthen)
    let ?fresh = "\<lambda>x. \<exists>r. find_req A rid = Some r \<and> x = to_record_req r"
    show "does (locked A T) (get_fresh rid) (\<lambda>x a b i t. locked A T a b i t \<and> ?fresh x) ?E"
      by (rule does_get_fresh)
        (simp_all add: held_reads(1) locked_refused)
    show "does (\<lambda>a b i t. locked A T a b i t \<and> ?fresh request)
       (if rr_status request \<notin> set CANCELLABLE_REQUEST_STATUS_VALUES then fail (NotCancellableError (rr_status request))
        else andthen (call (query (cancellable_seasons request rid))) (\<lambda>(seasons, ok).
          if \<not> ok then fail (NotCancellableError (rr_status request))
          else andthen (call (query (\<lambda>db. Inr (list_active_for_request (a_store db) rid)))) (\<lambda>active.
            if list_ex (\<lambda>row. d_status (fst row) = state_str Importing) active then fail ImportInProgressError
            else if active \<noteq> [] \<and> \<not> ve_has_client ve then fail DownloadClientRequiredError
            else andthen (lastly (tear_down ve request rid seasons active) release_removals) (\<lambda>_. get_request ve rid))))
       (\<lambda>_. cancel_done ve rid K T) ?E" for request
    proof (rule know, elim exE conjE, intro does_If early)
      fix r assume r: "find_req A rid = Some r" "request = to_record_req r"
        and st: "\<not> rr_status request \<notin> set CANCELLABLE_REQUEST_STATUS_VALUES"
      let ?ok = "\<lambda>(seasons, ok). ok \<longrightarrow> q_media_type r = Tv \<longrightarrow>
         list_for_request_sea A rid = Inr seasons \<and> \<not> list_ex (uncancellable_season A rid) seasons"
      have seen: "does (locked A T) (call (query (cancellable_seasons request rid))) (\<lambda>x a b i t. locked A T a b i t \<and> ?ok x) ?E"
      proof (rule does_query)
        fix a b i t x assume h: "locked A T a b i t" and q: "cancellable_seasons request rid b = Inr x"
        have "uncancellable_season b rid = uncancellable_season A rid"
          by (rule ext) (simp only: uncancellable_season_def held_reads(3)[OF h])
        then show "locked A T a b i t \<and> ?ok x"
          using h q by (auto simp: cancellable_seasons_def r(2) to_record_req_def media_tv held_reads(2)[OF h] map_sum_Inr split: if_splits)
      qed (rule locked_refused)
      show "does (locked A T) (andthen (call (query (cancellable_seasons request rid))) (\<lambda>(seasons, ok).
          if \<not> ok then fail (NotCancellableError (rr_status request))
          else andthen (call (query (\<lambda>db. Inr (list_active_for_request (a_store db) rid)))) (\<lambda>active.
            if list_ex (\<lambda>row. d_status (fst row) = state_str Importing) active then fail ImportInProgressError
            else if active \<noteq> [] \<and> \<not> ve_has_client ve then fail DownloadClientRequiredError
            else andthen (lastly (tear_down ve request rid seasons active) release_removals) (\<lambda>_. get_request ve rid))))
       (\<lambda>_. cancel_done ve rid K T) ?E"
        by (rule does_andthen[OF seen], rule know, split prod.split, intro allI impI does_If early active_rows[OF r])
          (use r st in \<open>simp_all add: to_record_req_def\<close>)
    qed
  qed
qed

section \<open>The three entries of a cancellation\<close>

text \<open>Taking the media lock from an idle session leaves the rows as the other sessions left them.\<close>

lemma does_lock:
  assumes others: "sound_others ve" and K: "stable ve K" and E: "\<And>e a b i t. R i t \<Longrightarrow> E e a b i t"
    and m: "\<And>A. sound_db A \<Longrightarrow> K A \<Longrightarrow> does (held A R) m Q E"
  shows "does (\<lambda>a b i t. K a \<and> R i t) (andthen (lock_media ve request) (\<lambda>_. m)) Q E"
proof -
  let ?lock = "acquire_media_lock (rr_tmdb_id request) (rr_media_type request)"
  let ?free = "\<lambda>a b i t. (K a \<and> R i t) \<and> a = b"
  have lock: "does ?free (write_verb ?lock) (\<lambda>_ a b i t. K a \<and> held a R a b i t) E"
  proof (rule does_write[OF sound_writes(2)])
    fix a b i t x b' assume "?free a b i t" and w: "?lock b = Inr (x, b')"
    then show "K a \<and> held a R a b' i t"
      using preservesD[OF people_writes(7) w] preservesD[OF store_writes(6) w] preservesD[OF rows_keeps(2) w]
      by (auto simp: held_def)
  qed (simp add: E)
  have rest: "does (\<lambda>a b i t. K a \<and> held a R a b i t) m Q E"
  proof (rule does_any)
    fix A
    show "does (\<lambda>a b i t. a = A \<and> K a \<and> held a R a b i t) m Q E"
      by (rule does_know[where F = "sound_db A \<and> K A"]) (auto intro: does_pre[OF m])
  qed
  have idle: "does (\<lambda>a b i t. K a \<and> R i t) (wait ve) (\<lambda>_. ?free) E"
    using K by (intro does_wait[OF others]) (simp add: stable_def)
  have "andthen (lock_media ve request) (\<lambda>_. m) = andthen (wait ve) (\<lambda>_. andthen (write_verb ?lock) (\<lambda>_. m))"
    unfolding lock_media_def andthen_def by (auto split: prod.splits sum.splits)
  then show ?thesis by (simp add: does_andthen[OF idle does_andthen[OF lock rest]])
qed

lemma does_start:
  assumes others: "sound_others ve" and K: "stable ve K" and E: "\<And>e a b i t. R i t \<Longrightarrow> E e a b i t"
    and m: "\<And>A. sound_db A \<Longrightarrow> K A \<Longrightarrow> does (held A R) m Q E"
  shows "does (\<lambda>a b i t. K a \<and> R i t) (andthen (get_request ve rid) (\<lambda>request. andthen (lock_media ve request) (\<lambda>_. m))) Q E"
proof (rule does_andthen)
  show "does (\<lambda>a b i t. K a \<and> R i t) (get_request ve rid) (\<lambda>_ a b i t. K a \<and> R i t) E"
    using K by (intro does_get_request[OF others]) (auto simp: stable_def E)
qed (rule does_lock[OF others K E m])

abbreviation fresh_start :: "desk_pred" where
  "fresh_start \<equiv> \<lambda>a b i t. True \<and> i = [] \<and> t = []"

lemma does_cancel_request:
  assumes others: "sound_others ve"
  shows "does fresh_start (cancel_request ve rid) (\<lambda>_. cancel_done ve rid (\<lambda>_. True) []) (cancel_failed ve rid (\<lambda>_. True) [])"
  unfolding cancel_request_def
  by (rule does_start[OF others, where K = "\<lambda>_. True"])
    (auto simp: stable_def cancel_failed_def refusal_events_def intro: exI[of _ "[]"] does_cancel_locked[OF others])

lemma does_participants:
  assumes "\<And>subs. subs = list_subscribers A rid \<Longrightarrow> does (held A R) (m subs) Q E"
  shows "does (held A R) (andthen (call (query (\<lambda>db. Inr (list_subscribers db rid)))) m) Q E"
proof (rule does_andthen)
  show "does (held A R) (call (query (\<lambda>db. Inr (list_subscribers db rid)))) (\<lambda>x a b i t. held A R a b i t \<and> x = list_subscribers A rid) E"
    by (rule does_read) (simp add: held_def people_def list_subscribers_def)
  show "does (\<lambda>a b i t. held A R a b i t \<and> x = list_subscribers A rid) (m x) Q E" for x
    by (rule does_know[where F = "x = list_subscribers A rid"]) (auto intro: does_pre[OF assms])
qed

text \<open>The owner's cancellation: as above, and only when nobody else takes part.\<close>

abbreviation nobody_else :: "int \<Rightarrow> int \<Rightarrow> app_db \<Rightarrow> bool" where
  "nobody_else rid user A \<equiv> set (list_subscribers A rid) \<subseteq> {user}"

lemma does_cancel_as_owner:
  assumes others: "sound_others ve"
  shows "does fresh_start (cancel_request_as_owner ve rid user)
    (\<lambda>_. cancel_done ve rid (nobody_else rid user) []) (cancel_failed ve rid (nobody_else rid user) [])"
proof -
  have reread: "does (locked A []) (get_fresh rid) (\<lambda>_. locked A []) (cancel_failed ve rid (nobody_else rid user) [])" for A
    by (rule does_get_fresh) (auto intro: locked_refused)
  have "does (locked A []) (andthen (get_fresh rid) (\<lambda>_.
     andthen (call (query (\<lambda>db. Inr (list_subscribers db rid)))) (\<lambda>subscribers.
     if list_ex (\<lambda>uid. uid \<noteq> user) subscribers then fail HasOtherParticipantsError
     else cancel_request_locked ve rid))) (\<lambda>_. cancel_done ve rid (nobody_else rid user) [])
     (cancel_failed ve rid (nobody_else rid user) [])" for A
    by (intro does_andthen[OF reread] does_participants does_If)
      (auto intro!: does_fail locked_refused does_cancel_locked[OF others] simp: list_ex_iff)
  then show ?thesis unfolding cancel_request_as_owner_def
    by (intro does_start[OF others, where K = "\<lambda>_. True"])
      (auto simp: stable_def cancel_failed_def refusal_events_def intro: exI[of _ "[]"])
qed

text \<open>
  C17: An operator's cancellation, with any other sessions interleaved at its awaits. Either it is refused and
  its trace is empty but for removals registered and released again: nothing was committed, no torrent
  removed. Or it went through, and its trace is: the removals of the running downloads registered, one
  commit that replaces tables \<open>A\<close> by \<open>B\<close>, their torrents removed, the removals released. There \<open>A\<close>
  permitted the cancellation, and from \<open>A\<close> to \<open>B\<close> exactly the running downloads of the request became failed,
  nobody's participation changed, and the request with all its seasons became cancelled (a show without
  season rows keeps its status).
\<close>

theorem cancel_settles_before_removing:
  assumes "sound_others ve"
    and "sound_db (ss_saved (dk_session d))" "sound_db (ss_db (dk_session d))" "dk_removal_ids d = []" "dk_trace d = []"
    and "cancel_request ve rid d = (r, d')"
  shows "(\<exists>A B. cancels rid A B \<and> dk_trace d' = cancel_events rid A B)
    \<or> (\<exists>e. r = Inl e) \<and> (\<exists>ids. dk_trace d' = refusal_events ids)"
proof -
  have d: "at_desk fresh_start d" using assms(2-5) by (simp add: at_desk_def)
  note rules = does_Inr[OF does_cancel_request[OF assms(1)] d] does_Inl[OF does_cancel_request[OF assms(1)] d]
  show ?thesis
  proof (cases r)
    case (Inl e)
    then show ?thesis using rules(2)[of rid e d'] assms(6) by (auto simp: at_desk_def cancel_failed_def cancel_done_def)
  next
    case (Inr x)
    then show ?thesis using rules(1)[of rid x d'] assms(6) by (auto simp: at_desk_def cancel_done_def)
  qed
qed

text \<open>
  An owner's cancellation is never taken over the head of somebody else: when it went through, the tables
  it replaced by its commit had no other participant in the request.
\<close>

theorem owner_cancels_alone:
  assumes "sound_others ve"
    and "sound_db (ss_saved (dk_session d))" "sound_db (ss_db (dk_session d))" "dk_removal_ids d = []" "dk_trace d = []"
    and "cancel_request_as_owner ve rid user d = (r, d')"
  shows "(\<exists>A B. (\<forall>s \<in> set (a_subscribers A). sb_request_id s = rid \<longrightarrow> sb_user_id s = user)
        \<and> cancels rid A B \<and> dk_trace d' = cancel_events rid A B)
    \<or> (\<exists>e. r = Inl e) \<and> (\<exists>ids. dk_trace d' = refusal_events ids)"
proof -
  have d: "at_desk fresh_start d" using assms(2-5) by (simp add: at_desk_def)
  note rules = does_Inr[OF does_cancel_as_owner[OF assms(1)] d] does_Inl[OF does_cancel_as_owner[OF assms(1)] d]
  have alone: "nobody_else rid user A \<Longrightarrow> s \<in> set (a_subscribers A) \<Longrightarrow> sb_request_id s = rid \<Longrightarrow> sb_user_id s = user" for A s
    by (auto simp: list_subscribers_def set_sort_by)
  show ?thesis
  proof (cases r)
    case (Inl e)
    then show ?thesis using rules(2)[of rid user e d'] assms(6) alone
      by (fastforce simp: at_desk_def cancel_failed_def cancel_done_def)
  next
    case (Inr x)
    then show ?thesis using rules(1)[of rid user x d'] assms(6) alone by (fastforce simp: at_desk_def cancel_done_def)
  qed
qed

end
