(* ===== verification/GrabRules.thy ===== *)
theory GrabRules
  imports Grab CancelLaws
begin

text \<open>
  What the writes of a grab do to the store and to the seasons, and the triples of its smaller steps. The
  assertion \<open>base S h c\<close> says that nothing has been committed or removed yet, that the rows \<open>S\<close> hold the
  hash \<open>h\<close> in the committed store, and that a claim \<open>c\<close> on the torrent stems from this call's own add.
\<close>

section \<open>What the writes do\<close>

definition row_at :: "int \<Rightarrow> string \<Rightarrow> app_db \<Rightarrow> bool" where
  "row_at did h db \<longleftrightarrow> list_ex (\<lambda>r. d_id r = did \<and> d_torrent_hash r = h) (db_downloads (a_store db))"

definition live_at :: "int \<Rightarrow> string \<Rightarrow> app_db \<Rightarrow> bool" where
  "live_at did h db \<longleftrightarrow> list_ex (\<lambda>r. d_id r = did \<and> d_torrent_hash r = h \<and> row_live r) (db_downloads (a_store db))"

definition scope_at :: "int \<Rightarrow> int \<Rightarrow> int \<Rightarrow> app_db \<Rightarrow> bool" where
  "scope_at did rid n db \<longleftrightarrow> list_ex (\<lambda>s. scope_matches did (Some rid) (Some n) s \<and> scope_active s) (db_scopes (a_store db))"

definition claim_at :: "int \<Rightarrow> int \<Rightarrow> int \<Rightarrow> app_db \<Rightarrow> bool" where
  "claim_at did rid n db \<longleftrightarrow> list_ex (\<lambda>c. claim_matches did rid n c \<and> claim_active c) (db_claims (a_store db))"

definition season_at :: "int \<Rightarrow> int \<Rightarrow> app_db \<Rightarrow> bool" where
  "season_at rid n db \<longleftrightarrow> list_ex (\<lambda>z. z_media_request_id z = rid \<and> z_season_number z = n \<and> z_status z = ''downloading'')
     (a_seasons db)"

lemmas at_defs = row_at_def live_at_def scope_at_def claim_at_def season_at_def list_ex_iff

lemma store_fields [simp]:
  "db_downloads (store_of b) = db_downloads (a_store b)" "db_scopes (store_of b) = db_scopes (a_store b)"
  "db_claims (store_of b) = db_claims (a_store b)" "db_next_id (store_of b) = db_next_id (a_store b)"
  by (simp_all add: store_of_def)

lemma ensure_scope_effect:
  assumes inv: "sound_db b" and run: "on_store (ensure_scope did (Some rid) (Some n) eps) b = Inr (s, b')"
  shows "sound_db b'" "scope_at did rid n b'" "live_at d h b \<Longrightarrow> live_at d h b'" "season_at q m b \<Longrightarrow> season_at q m b'"
    "scope_at d q m b \<Longrightarrow> scope_at d q m b'" "claim_at d q m b \<Longrightarrow> claim_at d q m b'"
proof -
  obtain st where st: "ensure_scope did (Some rid) (Some n) eps (store_of b) = Inr (s, st)" "b' = b\<lparr>a_store := st\<rparr>"
    using run by (auto simp: on_store_Inr)
  have i: "repo_inv (store_of b)" using inv by (simp add: sound_db_def)
  note k = ensure_scope_inv[OF i st(1)]
  show "sound_db b'" using inv k st(2) by (simp add: sound_db_def)
  show "live_at d h b \<Longrightarrow> live_at d h b'" using k st(2) by (simp add: live_at_def)
  show "season_at q m b \<Longrightarrow> season_at q m b'" using st(2) by (simp add: season_at_def)
  show "claim_at d q m b \<Longrightarrow> claim_at d q m b'" using k st(2) by (simp add: claim_at_def)
  let ?same = "filter (\<lambda>s. scope_matches did (Some rid) (Some n) s \<and> episodes_equal (s_episodes s) (normalize_episodes eps))
      (db_scopes (store_of b))"
  have sc: "scope_at did rid n b' \<and> (scope_at d q m b \<longrightarrow> scope_at d q m b')"
  proof (cases "find scope_active ?same")
    case (Some x)
    then have "st = store_of b" using st(1) by (simp add: ensure_scope_def Let_def)
    moreover have "x \<in> set ?same" "scope_active x"
      using Some by (metis find_Some_iff nth_mem)+
    ultimately have "st = store_of b" "x \<in> set (db_scopes (a_store b)) \<and> scope_matches did (Some rid) (Some n) x \<and> scope_active x"
      by auto
    then show ?thesis using st(2) by (auto simp: scope_at_def list_ex_iff)
  next
    case None
    show ?thesis
    proof (cases "?same = []")
      case True
      then have "db_scopes st = db_scopes (a_store b) @ [new_scope (store_of b) did (Some rid) (Some n) eps]"
        using st(1) by (auto simp: ensure_scope_def Let_def)
      then show ?thesis using st(2)
        by (auto simp: scope_at_def list_ex_iff new_scope_def scope_matches_def scope_active_def ACTIVE_SCOPE_STATUSES_def)
    next
      case False
      let ?s = "(last ?same)\<lparr>s_status := ''active'', s_completed_at := None\<rparr>"
      have l: "last ?same \<in> set (db_scopes (a_store b))" "scope_matches did (Some rid) (Some n) (last ?same)"
        using last_in_set[OF False] by (auto simp:)
      have d: "db_scopes st = map (\<lambda>s. if s_id s = s_id ?s then ?s else s) (db_scopes (a_store b))"
        using st(1) None False by (auto simp: ensure_scope_def Let_def)
      have act: "scope_matches did (Some rid) (Some n) ?s" "scope_active ?s"
        using l(2) by (simp_all add: scope_matches_def scope_active_def ACTIVE_SCOPE_STATUSES_def)
      have "?s \<in> set (db_scopes st)" unfolding d using l(1) by force
      then have one: "scope_at did rid n b'" using st(2) act by (auto simp: scope_at_def list_ex_iff)
      have "scope_at d q m b'" if old: "scope_at d q m b"
      proof -
        obtain y where y: "y \<in> set (db_scopes (a_store b))" "scope_matches d (Some q) (Some m) y" "scope_active y"
          using old by (auto simp: scope_at_def list_ex_iff)
        have "s_id y = s_id (last ?same) \<Longrightarrow> y = last ?same"
          using i l(1) y(1) by (auto simp: repo_inv_def db_unique_def distinct_map dest: inj_onD)
        then have "(if s_id y = s_id ?s then ?s else y) \<in> set (db_scopes st)"
          and "scope_matches d (Some q) (Some m) (if s_id y = s_id ?s then ?s else y)"
          and "scope_active (if s_id y = s_id ?s then ?s else y)"
          unfolding d using y act(2) by (auto simp: scope_matches_def)
        then show ?thesis using st(2) unfolding scope_at_def list_ex_iff by auto
      qed
      then show ?thesis using one by blast
    qed
  qed
  show "scope_at did rid n b'" using sc by blast
  show "scope_at d q m b \<Longrightarrow> scope_at d q m b'" using sc by blast
qed

lemma coverage_claim_effect:
  assumes inv: "sound_db b" and live: "live_at did h b" and run: "on_store (ensure_coverage_claim did rid n) b = Inr (u, b')"
  shows "sound_db b'" "claim_at did rid n b'" "live_at d g b \<Longrightarrow> live_at d g b'" "season_at q m b \<Longrightarrow> season_at q m b'"
    "scope_at d q m b \<Longrightarrow> scope_at d q m b'" "claim_at d q m b \<Longrightarrow> claim_at d q m b'"
proof -
  obtain st where st: "ensure_coverage_claim did rid n (store_of b) = Inr (u, st)" "b' = b\<lparr>a_store := st\<rparr>"
    using run by (auto simp: on_store_Inr)
  have i: "repo_inv (store_of b)" using inv by (simp add: sound_db_def)
  have lock: "lock_if_active (store_of b) did"
    unfolding lock_if_active_def
    by (subst count_by_key[where key = d_id and k = did])
      (use i live in \<open>auto simp: repo_inv_def db_unique_def live_at_def list_ex_iff\<close>)
  show "sound_db b'" using ensure_coverage_claim_inv[OF i lock st(1)] inv st(2) by (simp add: sound_db_def)
  have frame: "db_downloads st = db_downloads (a_store b)" "db_scopes st = db_scopes (a_store b)"
    using st(1) by (auto simp: ensure_coverage_claim_def split: option.splits if_splits)
  show "live_at d g b \<Longrightarrow> live_at d g b'" "season_at q m b \<Longrightarrow> season_at q m b'" "scope_at d q m b \<Longrightarrow> scope_at d q m b'"
    using frame st(2) by (simp_all add: live_at_def season_at_def scope_at_def)
  let ?cs = "db_claims (a_store b)"
  have "claim_at did rid n b' \<and> (claim_at d q m b \<longrightarrow> claim_at d q m b')"
  proof (cases "find (claim_matches did rid n) ?cs")
    case None
    then have "db_claims st = ?cs @ [\<lparr>c_id = db_next_id (a_store b), c_download_id = did, c_media_request_id = Some rid,
        c_season = Some n, c_status = ACTIVE_CLAIM_STATUS, c_released_at = None\<rparr>]"
      using st(1) by (auto simp: ensure_coverage_claim_def)
    then show ?thesis using st(2) by (auto simp: claim_at_def list_ex_iff claim_matches_def claim_active_def)
  next
    case (Some c)
    then have c: "c \<in> set ?cs" "claim_matches did rid n c" by (auto simp: find_Some_iff dest: nth_mem)
    show ?thesis
    proof (cases "c_status c = ACTIVE_CLAIM_STATUS")
      case True
      then have "st = store_of b" using st(1) Some by (auto simp: ensure_coverage_claim_def)
      then show ?thesis using st(2) c True by (auto simp: claim_at_def list_ex_iff claim_active_def)
    next
      case False
      let ?f = "\<lambda>x. if c_id x = c_id c then x\<lparr>c_status := ACTIVE_CLAIM_STATUS, c_released_at := None\<rparr> else x"
      have cl: "db_claims st = map ?f ?cs" using st(1) Some False by (auto simp: ensure_coverage_claim_def)
      have hit: "claim_at d' r' n' b'" if "x \<in> set ?cs" "claim_matches d' r' n' x" "claim_active (?f x)" for d' r' n' x
      proof -
        have "claim_matches d' r' n' (?f x)" using that(2) by (simp add: claim_matches_def)
        moreover have "?f x \<in> set (db_claims (a_store b'))" using st(2) cl that(1) by simp
        ultimately show ?thesis unfolding claim_at_def list_ex_iff using that(3) by blast
      qed
      have "claim_at d q m b'" if "claim_at d q m b"
        using that hit by (auto simp: claim_at_def list_ex_iff claim_active_def)
      moreover have "claim_at did rid n b'" by (rule hit[OF c]) (simp add: claim_active_def)
      ultimately show ?thesis by blast
    qed
  qed
  then show "claim_at did rid n b'" "claim_at d q m b \<Longrightarrow> claim_at d q m b'" by blast+
qed

lemma keep_set_status_if_in: "preserves a_store (set_status_if_in now mr sid status allowed g tol)"
proof -
  have "preserves a_store (\<lambda>db. update_seasons (p db) f db)" for p f
    unfolding preserves_def using preservesD[OF store.update_sea] by blast
  from preservesD[OF this[of "\<lambda>db z. z_id z = sid \<and> z_status z \<in> set allowed \<and> guard_holds g db z" "move_season now status"]]
  have "preserves a_store (set_status_if_in_sea now sid status allowed g)"
    by (auto simp: set_status_if_in_sea_def intro!: preservesI split: if_splits)
  then show ?thesis unfolding set_status_if_in_def by (intro keep_rules store.keep_recompute)
qed

lemma store_frame:
  "a_store b' = a_store b \<Longrightarrow> live_at d h b' = live_at d h b" "a_store b' = a_store b \<Longrightarrow> scope_at d q m b' = scope_at d q m b"
  "a_store b' = a_store b \<Longrightarrow> claim_at d q m b' = claim_at d q m b"
  by (simp_all add: live_at_def scope_at_def claim_at_def)

lemma ensure_pending_effect:
  assumes inv: "sound_db b" and run: "ensure_pending rid n b = Inr (z, b')"
  shows "sound_db b'" "a_store b' = a_store b" "season_at q m b \<Longrightarrow> season_at q m b'"
    "\<exists>y t. y \<in> set (a_seasons b') \<and> z = to_record_sea y t \<and> z_media_request_id y = rid \<and> z_season_number y = n"
proof -
  have "sound_op (ensure_pending rid n)" by (intro sound_opI steady_rules store.keep_ensure_pending)
  then show "sound_db b'" using inv run by (auto simp: sound_op_def)
  show "a_store b' = a_store b" by (rule preservesD[OF store.keep_ensure_pending run])
  from ensure_sea_Inr[OF run[unfolded ensure_pending_def]]
  show "season_at q m b \<Longrightarrow> season_at q m b'"
    "\<exists>y t. y \<in> set (a_seasons b') \<and> z = to_record_sea y t \<and> z_media_request_id y = rid \<and> z_season_number y = n"
    by (auto simp: season_at_def list_ex_iff dest!: find_sea_SomeD)
qed

lemma season_swap_effect:
  assumes inv: "sound_db b" and run: "set_status_if_in now rid sid ''downloading'' allowed no_guard False b = Inr (moved, b')"
  shows "sound_db b'" "a_store b' = a_store b" "season_at q m b \<Longrightarrow> season_at q m b'"
    "moved \<Longrightarrow> y \<in> set (a_seasons b) \<Longrightarrow> z_id y = sid \<Longrightarrow> season_at (z_media_request_id y) (z_season_number y) b'"
proof -
  have "sound_op (set_status_if_in now rid sid ''downloading'' allowed no_guard False)"
    by (intro sound_opI steady_rules keep_set_status_if_in)
  then show "sound_db b'" using inv run by (auto simp: sound_op_def)
  show "a_store b' = a_store b" by (rule preservesD[OF keep_set_status_if_in run])
  let ?hit = "\<lambda>z. z_id z = sid \<and> z_status z \<in> set allowed \<and> guard_holds no_guard b z"
  let ?f = "\<lambda>z. if ?hit z then move_season now ''downloading'' z else z"
  from run obtain b1 where sw: "set_status_if_in_sea now sid ''downloading'' allowed no_guard b = Inr (moved, b1)"
    and rest: "if moved then recompute_parent now rid False False b1 = Inr ((), b') else b' = b1"
    by (auto simp: set_status_if_in_def bind_op_Inr split: if_splits)
  have inv1: "app_inv b1"
    using steadyD[OF steady_set_status_if_in_sea _ sw] inv evolves_inv by (auto simp: sound_db_def)
  have s1: "a_seasons b1 = map ?f (a_seasons b)" and m: "moved \<longleftrightarrow> length (filter ?hit (a_seasons b)) = 1"
    using sw by (auto simp: set_status_if_in_sea_def update_seasons_def map_seasons_def split: if_splits)
  have s: "a_seasons b' = map ?f (a_seasons b)"
    using rest s1 recompute_parent_Inr(1)[OF inv1] by (auto split: if_splits)
  have f: "z_media_request_id (?f z) = z_media_request_id z" "z_season_number (?f z) = z_season_number z"
    "z_status z = ''downloading'' \<Longrightarrow> z_status (?f z) = ''downloading''" for z
    using moved_status[of now "''downloading''" z] by auto
  show "season_at q m b'" if old: "season_at q m b"
  proof -
    from old obtain z where "z \<in> set (a_seasons b)" "z_media_request_id z = q" "z_season_number z = m" "z_status z = ''downloading''"
      by (auto simp: season_at_def list_ex_iff)
    then have "?f z \<in> set (a_seasons b')" "z_media_request_id (?f z) = q" "z_season_number (?f z) = m" "z_status (?f z) = ''downloading''"
      using f[of z] s by auto
    then show ?thesis unfolding season_at_def list_ex_iff by blast
  qed
  assume "moved" "y \<in> set (a_seasons b)" "z_id y = sid"
  then have "filter ?hit (a_seasons b) \<noteq> []" using m by force
  then have "list_ex ?hit (a_seasons b)" by (auto simp: list_ex_iff filter_empty_conv)
  then obtain x where x: "x \<in> set (a_seasons b)" "?hit x" by (auto simp: list_ex_iff)
  have "x = y" using inv x \<open>y \<in> set (a_seasons b)\<close> \<open>z_id y = sid\<close>
    by (auto simp: sound_db_def app_inv_def app_unique_def distinct_map dest: inj_onD)
  then have "?f y = move_season now ''downloading'' y" using x(2) by simp
  then have "move_season now ''downloading'' y \<in> set (a_seasons b')"
    unfolding s set_map using imageI[OF \<open>y \<in> set (a_seasons b)\<close>, of ?f] by (simp only:)
  then show "season_at (z_media_request_id y) (z_season_number y) b'"
    unfolding season_at_def list_ex_iff using moved_status[of now "''downloading''" y] by fastforce
qed

section \<open>Taking a row\<close>

definition own_row :: "grab_plan \<Rightarrow> int \<Rightarrow> string \<Rightarrow> app_db \<Rightarrow> bool" where
  "own_row p did h db \<longleftrightarrow> list_ex (\<lambda>r. d_id r = did \<and> d_torrent_hash r = h \<and> row_live r
     \<and> (gp_request_id p = None \<or> d_media_request_id r = gp_request_id p)
     \<and> (gp_media_type p = Some ''tv'' \<or> d_media_type r \<noteq> Some Tv)) (db_downloads (a_store db))"

definition held_row :: "grab_plan \<Rightarrow> int \<Rightarrow> string \<Rightarrow> app_db \<Rightarrow> bool" where
  "held_row p did h db \<longleftrightarrow> own_row p did h db \<and> (case (gp_request_id p, gp_season p) of
     (Some rid, Some n) \<Rightarrow> scope_at did rid n db | _ \<Rightarrow> True)"

lemma own_row_live: "own_row p did h db \<Longrightarrow> live_at did h db"
  by (auto simp: own_row_def live_at_def list_ex_iff)

lemma live_row_at: "live_at did h db \<Longrightarrow> row_at did h db"
  by (auto simp: live_at_def row_at_def list_ex_iff)

lemma ensure_scope_result:
  assumes "ensure_scope did mr ssn eps st = Inr (s, st')"
  shows "s \<in> set (db_scopes st')" "scope_matches did mr ssn s" "scope_active s" "db_downloads st' = db_downloads st"
proof -
  let ?same = "filter (\<lambda>s. scope_matches did mr ssn s \<and> episodes_equal (s_episodes s) (normalize_episodes eps)) (db_scopes st)"
  have "s \<in> set (db_scopes st') \<and> scope_matches did mr ssn s \<and> scope_active s"
  proof (cases "find scope_active ?same")
    case (Some x)
    then have "st' = st" "s = x" using assms by (simp_all add: ensure_scope_def Let_def)
    moreover have "x \<in> set ?same" "scope_active x" using Some by (metis find_Some_iff nth_mem)+
    ultimately show ?thesis by auto
  next
    case None
    show ?thesis
    proof (cases "?same = []")
      case True
      then show ?thesis using assms None
        by (auto simp: ensure_scope_def Let_def new_scope_def scope_matches_def scope_active_def ACTIVE_SCOPE_STATUSES_def)
    next
      case False
      have l: "last ?same \<in> set ?same" by (rule last_in_set[OF False])
      have s: "s = (last ?same)\<lparr>s_status := ''active'', s_completed_at := None\<rparr>"
        and d: "db_scopes st' = map (\<lambda>x. if s_id x = s_id s then s else x) (db_scopes st)"
        using assms None False by (auto simp: ensure_scope_def Let_def)
      have "last ?same \<in> set (db_scopes st)" "scope_matches did mr ssn (last ?same)" using l by simp_all
      moreover have "s_id (last ?same) = s_id s" by (simp add: s)
      ultimately have "s \<in> set (db_scopes st')" unfolding d by force
      then show ?thesis using \<open>scope_matches did mr ssn (last ?same)\<close>
        by (simp add: s scope_matches_def scope_active_def ACTIVE_SCOPE_STATUSES_def)
    qed
  qed
  then show "s \<in> set (db_scopes st')" "scope_matches did mr ssn s" "scope_active s" by blast+
  show "db_downloads st' = db_downloads st"
    using assms by (auto simp: ensure_scope_def Let_def split: option.splits if_splits)
qed

lemma MediaType_not_tv: "MediaType_of v = Inr mt \<Longrightarrow> v = Some ''tv'' \<or> mt \<noteq> Some Tv"
  by (auto simp: MediaType_of_def split: option.splits if_splits)

lemma downloading_live [simp]:
  "state_str Downloading \<notin> set TERMINAL_DOWNLOAD_STATUSES" "''downloading'' \<notin> set TERMINAL_DOWNLOAD_STATUSES"
  by (simp_all add: TERMINAL_DOWNLOAD_STATUSES_def)

lemma grab_update_fields [simp]:
  "su_media_request_id (grab_update now p i) = gp_request_id p" "su_season (grab_update now p i) = gp_season p"
  "su_episodes (grab_update now p i) = gp_episodes p" "su_media_type (grab_update now p i) = gp_media_type p"
  "su_media_request_id (reuse_update now p i) = gp_request_id p" "su_season (reuse_update now p i) = gp_season p"
  "su_episodes (reuse_update now p i) = gp_episodes p" "su_media_type (reuse_update now p i) = gp_media_type p"
  "su_replace_grab_metadata (reuse_update now p i)"
  by (simp_all add: grab_update_def reuse_update_def)

lemma create_effect:
  assumes inv: "sound_db b" and run: "on_store (DownloadRepo.create now h (state_str Downloading) (grab_update now p i)) b = Inr (rec, b')"
  shows "sound_db b'" "held_row p (d_id (fst rec)) h b'"
proof -
  obtain st where st: "DownloadRepo.create now h (state_str Downloading) (grab_update now p i) (store_of b) = Inr (rec, st)"
    "b' = b\<lparr>a_store := st\<rparr>"
    using run by (auto simp: on_store_Inr)
  have i: "repo_inv (store_of b)" using inv by (simp add: sound_db_def)
  show "sound_db b'" using create_inv[OF i st(1)] inv st(2) by (simp add: sound_db_def)
  obtain mt where mt: "MediaType_of (gp_media_type p) = Inr mt"
    using st(1) by (auto simp: create_def split: sum.splits)
  let ?row = "new_download now (db_next_id (a_store b)) h (state_str Downloading) (grab_update now p i) mt"
  let ?m = "(store_of b)\<lparr>db_downloads := db_downloads (a_store b) @ [?row], db_next_id := db_next_id (a_store b) + 1\<rparr>"
  have res: "fst rec = ?row" "if gp_request_id p \<noteq> None \<and> gp_season p \<noteq> None
      then \<exists>s. ensure_scope (d_id ?row) (gp_request_id p) (gp_season p) (gp_episodes p) ?m = Inr (s, st) else st = ?m"
    using st(1) mt unfolding create_def grab_update_fields mt sum.case Let_def
    by (auto simp: map_sum_Inr flush_def split: sum.splits if_splits)
  have down: "db_downloads st = db_downloads (a_store b) @ [?row]"
    using res(2) by (auto dest: ensure_scope_result(4) split: if_splits)
  have "own_row p (d_id (fst rec)) h b'"
    using down st(2) res(1) MediaType_not_tv[OF mt] downloading_live
    by (auto simp: own_row_def new_download_def row_live_def)
  moreover have "scope_at (d_id (fst rec)) rid n b'" if "gp_request_id p = Some rid" "gp_season p = Some n" for rid n
  proof -
    from res(2) that obtain s where "ensure_scope (d_id ?row) (Some rid) (Some n) (gp_episodes p) ?m = Inr (s, st)" by auto
    from ensure_scope_result[OF this] show ?thesis using st(2) res(1) by (auto simp: scope_at_def list_ex_iff)
  qed
  ultimately show "held_row p (d_id (fst rec)) h b'" by (simp add: held_row_def split: option.splits)
qed

lemma reuse_effect:
  assumes inv: "sound_db b" and row: "row_at did h b"
    and run: "cas_download now did (state_str Downloading) TERMINAL_DOWNLOAD_STATUSES (reuse_update now p i) b = Inr (claimed, b')"
  shows "sound_db b'" "claimed \<Longrightarrow> held_row p did h b'"
proof -
  let ?u = "reuse_update now p i"
  obtain st where st: "DownloadRepo.update_status_if_in now did (state_str Downloading) TERMINAL_DOWNLOAD_STATUSES ?u (store_of b)
      = Inr (claimed, st)" "b' = b\<lparr>a_store := st\<rparr>"
    using run by (auto simp: cas_download_def on_store_Inr)
  have i: "repo_inv (store_of b)" using inv by (simp add: sound_db_def)
  show "sound_db b'" using update_status_if_in_spec(1)[OF i st(1)] inv st(2) by (simp add: sound_db_def)
  obtain mt where mt: "MediaType_of (gp_media_type p) = Inr mt"
    using st(1) by (auto simp: DownloadRepo.update_status_if_in_def split: sum.splits)
  let ?hit = "cas_where (store_of b) did TERMINAL_DOWNLOAD_STATUSES ?u"
  let ?g = "row_values now (state_str Downloading) ?u mt"
  let ?m = "(store_of b)\<lparr>db_downloads := map (\<lambda>r. if ?hit r then ?g r else r) (db_downloads (a_store b))\<rparr>"
  assume claimed
  then have hit: "list_ex ?hit (db_downloads (a_store b))" using update_status_if_in_spec(2)[OF i st(1)] by simp
  have "after_status now did (state_str Downloading) ?u ?m = Inr ((), st)"
    using st(1) \<open>claimed\<close> unfolding DownloadRepo.update_status_if_in_def grab_update_fields mt if_True sum.case Let_def
    by (auto simp: map_sum_Inr flush_def split: sum.splits if_splits)
  then have rep: "replace_scope_set did (gp_request_id p) (gp_season p) (gp_episodes p) ?m = Inr ((), st)"
    by (simp add: after_status_def downloading_live)
  have down: "db_downloads st = db_downloads ?m"
    using rep by (auto simp: replace_scope_set_def Let_def map_sum_Inr ensure_scope_result(4) split: if_splits)
  obtain r where r: "r \<in> set (db_downloads (a_store b))" "?hit r" using hit by (auto simp: list_ex_iff)
  obtain r' where r': "r' \<in> set (db_downloads (a_store b))" "d_id r' = did" "d_torrent_hash r' = h"
    using row by (auto simp: row_at_def list_ex_iff)
  have "r = r'" using i r r' by (auto simp: cas_where_def repo_inv_def db_unique_def distinct_map dest: inj_onD)
  then have "?g r \<in> set (db_downloads st)" "d_id (?g r) = did" "d_torrent_hash (?g r) = h"
    using down r r' by force+
  moreover have "row_live (?g r)" using downloading_live by simp
  moreover have "gp_request_id p = None \<or> d_media_request_id (?g r) = gp_request_id p"
    by (auto simp: row_values_def split: option.splits)
  moreover have "d_media_type (?g r) = mt"
    by (simp add: row_values_def grab_metadata_def)
  ultimately obtain x where "x \<in> set (db_downloads st)" "d_id x = did" "d_torrent_hash x = h" "row_live x"
    "gp_request_id p = None \<or> d_media_request_id x = gp_request_id p" "d_media_type x = mt" by blast
  then have "own_row p did h b'"
    using st(2) MediaType_not_tv[OF mt] unfolding own_row_def list_ex_iff by auto
  moreover have "scope_at did rid n b'" if "gp_request_id p = Some rid" "gp_season p = Some n" for rid n
  proof -
    from rep that obtain x s where "ensure_scope did (Some rid) (Some n) (gp_episodes p) x = Inr (s, st)"
      by (auto simp: replace_scope_set_def Let_def map_sum_Inr)
    from ensure_scope_result[OF this] show ?thesis using st(2) by (auto simp: scope_at_def list_ex_iff)
  qed
  ultimately show "held_row p did h b'" by (simp add: held_row_def split: option.splits)
qed

definition request_at :: "int \<Rightarrow> app_db \<Rightarrow> bool" where
  "request_at rid db \<longleftrightarrow> list_ex (\<lambda>q. RequestTables.q_id q = rid \<and> q_status q = ''downloading'') (a_requests db)"

lemma request_swap_effect:
  assumes inv: "sound_db b" and run: "set_status_if_in_req rid ''downloading'' allowed False False b = Inr (moved, b')"
  shows "sound_db b'" "a_store b' = a_store b" "moved \<Longrightarrow> request_at rid b'"
proof -
  have "preserves a_store (\<lambda>db. update_requests (p db) f db)" for p f
    unfolding preserves_def using preservesD[OF store_writes(1)] by blast
  from preservesD[OF this[of "\<lambda>db r. RequestTables.q_id r = rid \<and> q_status r \<in> set allowed
      \<and> (False \<longrightarrow> \<not> q_keep_forever r) \<and> (False \<longrightarrow> \<not> watchlisted db (q_tmdb_id r) (q_media_type r))" "\<lambda>r. r\<lparr>q_status := ''downloading''\<rparr>"]]
  have k: "preserves a_store (set_status_if_in_req rid ''downloading'' allowed False False)"
    by (auto simp: set_status_if_in_req_def intro!: preservesI split: if_splits)
  then have "sound_op (set_status_if_in_req rid ''downloading'' allowed False False)" by (intro sound_opI steady_rules)
  then show "sound_db b'" using inv run by (auto simp: sound_op_def)
  show "a_store b' = a_store b" by (rule preservesD[OF k run])
  let ?hit = "\<lambda>r. RequestTables.q_id r = rid \<and> q_status r \<in> set allowed"
  assume moved
  then have "length (filter ?hit (a_requests b)) = 1" and
    r: "a_requests b' = map (\<lambda>r. if ?hit r then r\<lparr>q_status := ''downloading''\<rparr> else r) (a_requests b)"
    using run by (auto simp: set_status_if_in_req_def update_requests_def map_requests_def split: if_splits)
  then have "filter ?hit (a_requests b) \<noteq> []" by force
  then obtain q where "q \<in> set (a_requests b)" "?hit q" by (auto simp: filter_empty_conv)
  then have "q\<lparr>q_status := ''downloading''\<rparr> \<in> set (a_requests b')"
    unfolding r set_map using imageI[of q "set (a_requests b)" "\<lambda>r. if ?hit r then r\<lparr>q_status := ''downloading''\<rparr> else r"] by simp
  moreover have "RequestTables.q_id (q\<lparr>q_status := ''downloading''\<rparr>) = rid" "q_status (q\<lparr>q_status := ''downloading''\<rparr>) = ''downloading''"
    using \<open>?hit q\<close> by simp_all
  ultimately show "request_at rid b'" unfolding request_at_def list_ex_iff by blast
qed

lemma record_grabbed_effect:
  assumes "sound_db b" and run: "record_grabbed p h b = Inr (x, b')"
  shows "sound_db b'" "a_store b' = a_store b"
proof -
  have k: "preserves a_store (record_grabbed p h)" by (auto intro!: preservesI simp: record_grabbed_def)
  moreover have "steady (record_grabbed p h)"
    unfolding record_grabbed_def by (rule steadyI) (auto simp: evolves_def app_inv_def app_typed_def)
  ultimately have "sound_op (record_grabbed p h)" by (rule sound_opI[rotated])
  then show "sound_db b'" using assms by (auto simp: sound_op_def)
  show "a_store b' = a_store b" by (rule preservesD[OF k run])
qed

end
