(* ===== verification/GrabLogic.thy ===== *)
theory GrabLogic
  imports GrabRules
begin

text \<open>
  The triples of the steps of a grab. The assertion \<open>base S h c\<close> says that nothing has been committed or
  removed yet, that the rows \<open>S\<close> hold the hash \<open>h\<close> in the committed store, and that a claim \<open>c\<close> on the
  torrent stems from this call's own add. An error leaves a trace without a commit in which only torrents
  this call created were removed.
\<close>

section \<open>Traces\<close>

definition is_commit :: "verb_event \<Rightarrow> bool" where
  "is_commit e \<longleftrightarrow> (case e of Committed _ _ \<Rightarrow> True | _ \<Rightarrow> False)"

definition inert :: "verb_event \<Rightarrow> bool" where
  "inert e \<longleftrightarrow> \<not> is_commit e \<and> (case e of TorrentRemoved _ \<Rightarrow> False | _ \<Rightarrow> True)"

definition justified_removal :: "verb_event list \<Rightarrow> verb_event \<Rightarrow> bool" where
  "justified_removal before e \<longleftrightarrow> (case e of TorrentRemoved h \<Rightarrow> TorrentAdded h True \<in> set before | _ \<Rightarrow> True)"

text \<open>Every torrent that was removed had been created by this call before.\<close>

definition removes_own :: "verb_event list \<Rightarrow> bool" where
  "removes_own t \<longleftrightarrow> list_all (\<lambda>k. justified_removal (take k t) (t ! k)) [0..<length t]"

lemma removes_own_Nil [simp]: "removes_own []"
  by (simp add: removes_own_def)

lemma removes_own_append [simp]: "removes_own (t @ [e]) \<longleftrightarrow> removes_own t \<and> justified_removal t e"
proof -
  have "list_all (\<lambda>k. justified_removal (take k (t @ [e])) ((t @ [e]) ! k)) [0..<length t]
      = list_all (\<lambda>k. justified_removal (take k t) (t ! k)) [0..<length t]"
    by (rule list.pred_cong) (auto simp: nth_append)
  then show ?thesis by (simp add: removes_own_def)
qed

definition harmless :: "verb_event list \<Rightarrow> bool" where
  "harmless t \<longleftrightarrow> list_all (\<lambda>e. \<not> is_commit e) t \<and> removes_own t"

lemma inert_justified: "inert e \<Longrightarrow> justified_removal t e"
  by (auto simp: inert_def justified_removal_def split: verb_event.splits)

lemma harmless_inert: "list_all inert t \<Longrightarrow> harmless t"
  by (induction t rule: rev_induct) (auto simp: harmless_def inert_justified, auto simp: inert_def)

lemma harmless_append: "harmless t \<Longrightarrow> inert e \<Longrightarrow> harmless (t @ [e])"
  by (simp add: harmless_def inert_justified) (simp add: inert_def)

lemma inert_simps [simp]:
  "inert (RemovalRegistered i)" "inert (RemovalReleased i)" "inert (TorrentAdded h c)" "\<not> inert (Committed a b)"
  "\<not> inert (TorrentRemoved h)"
  by (simp_all add: inert_def is_commit_def)

section \<open>The running assertion\<close>

definition rows_stay :: "verb_env \<Rightarrow> bool" where
  "rows_stay ve \<longleftrightarrow> (\<forall>n db did h. sound_db db \<longrightarrow> row_at did h db \<longrightarrow> row_at did h (su_others (ve_su ve) n db))"

definition calm :: "grab_env \<Rightarrow> bool" where
  "calm ge \<longleftrightarrow> sound_others (ge_base ge) \<and> rows_stay (ge_base ge)"

definition rows_at :: "int set \<Rightarrow> string \<Rightarrow> app_db \<Rightarrow> bool" where
  "rows_at S h db \<longleftrightarrow> (\<forall>d \<in> S. row_at d h db)"

definition base :: "int set \<Rightarrow> string \<Rightarrow> bool \<Rightarrow> desk_pred" where
  "base S h c a b i t \<longleftrightarrow> rows_at S h a \<and> list_all inert t \<and> (c \<longrightarrow> TorrentAdded h True \<in> set t)"

abbreviation integ :: verb_error where
  "integ \<equiv> CallFailed (RepoFailed IntegrityError)"

text \<open>What an error may leave: nothing at all, or, unless it is \<open>IntegrityError\<close>, removals of its own.\<close>

definition lenient :: "int set \<Rightarrow> string \<Rightarrow> bool \<Rightarrow> (verb_error \<Rightarrow> desk_pred) \<Rightarrow> bool" where
  "lenient S h c E \<longleftrightarrow> (\<forall>e a b i t. base S h c a b i t \<longrightarrow> E e a b i t)
     \<and> (\<forall>e a b i t. e \<noteq> integ \<longrightarrow> harmless t \<longrightarrow> E e a b i t)"

definition halt :: "int set \<Rightarrow> string \<Rightarrow> bool \<Rightarrow> verb_error \<Rightarrow> desk_pred" where
  "halt S h c e a b i t \<longleftrightarrow> (if e = integ then base S h c a b i t else harmless t)"

abbreviation given_up :: "verb_error \<Rightarrow> desk_pred" where
  "given_up \<equiv> (\<lambda>_ _ _ _ t. harmless t)"

lemma base_harmless: "base S h c a b i t \<Longrightarrow> harmless t"
  by (simp add: base_def harmless_inert)

lemma base_less: "base S' h c a b i t \<Longrightarrow> S \<subseteq> S' \<Longrightarrow> base S h c a b i t"
  by (auto simp: base_def rows_at_def)

lemma base_unclaimed: "base S h c a b i t \<Longrightarrow> base S h False a b i t"
  by (simp add: base_def)

lemma lenient_halt: "lenient S h c (halt S h c)"
  by (auto simp: lenient_def halt_def dest: base_harmless)

lemma lenient_given_up: "lenient S h c given_up"
  by (auto simp: lenient_def dest: base_harmless)

lemma lenient_more: "lenient S h c E \<Longrightarrow> S \<subseteq> S' \<Longrightarrow> lenient S' h c E"
  unfolding lenient_def using base_less by blast

lemma lenient_unclaimed: "lenient S h False E \<Longrightarrow> lenient S h c E"
  unfolding lenient_def using base_unclaimed by blast

lemma lenientD: "lenient S h c E \<Longrightarrow> base S h c a b i t \<Longrightarrow> E e a b i t"
  by (simp add: lenient_def)

lemma lenient_harmless: "lenient S h c E \<Longrightarrow> e \<noteq> integ \<Longrightarrow> harmless t \<Longrightarrow> E e a b i t"
  by (simp add: lenient_def)

lemma does_pure: "(R \<Longrightarrow> does P m Q E) \<Longrightarrow> does (\<lambda>a b i t. P a b i t \<and> R) m Q E"
  by (auto simp: does_def at_desk_def)

lemma does_catch:
  assumes "does P body Q F" and "does (F integ) handler Q E"
    and "\<And>e a b i t. e \<noteq> integ \<Longrightarrow> F e a b i t \<Longrightarrow> E e a b i t"
  shows "does P (on_integrity body handler) Q E"
proof (rule doesI)
  fix d assume d: "at_desk P d"
  obtain r d1 where b: "body d = (r, d1)" by fastforce
  obtain r2 d2 where h: "handler d1 = (r2, d2)" by fastforce
  show "case on_integrity body handler d of (Inr x, d') \<Rightarrow> at_desk (Q x) d' | (Inl e, d') \<Rightarrow> at_desk (E e) d'"
  proof (cases r)
    case (Inr x)
    then show ?thesis using does_Inr[OF assms(1) d] b by (simp add: on_integrity_def)
  next
    case (Inl e)
    have e: "at_desk (F e) d1" using does_Inl[OF assms(1) d] b Inl by simp
    show ?thesis
    proof (cases "e = integ")
      case True
      then show ?thesis using e does_Inr[OF assms(2)] does_Inl[OF assms(2)] b h Inl
        by (cases r2) (auto simp: on_integrity_def)
    qed (use e b Inl assms(3) in \<open>simp add: on_integrity_def at_desk_def\<close>)
  qed
qed

section \<open>Waiting, reading and asking\<close>

lemma base_others: "calm ge \<Longrightarrow> sound_db a \<Longrightarrow> base S h c a b i t \<Longrightarrow> base S h c (su_others (ve_su (ge_base ge)) n a) b' i' t"
  by (auto simp: base_def rows_at_def calm_def rows_stay_def)

lemma base_write: "base S h c a b i t \<Longrightarrow> base S h c a b' i' t"
  by (simp add: base_def)

lemma g_wait: "calm ge \<Longrightarrow> does (base S h c) (wait (ge_base ge)) (\<lambda>_ a b i t. base S h c a b i t \<and> a = b) E"
  by (rule does_wait) (auto simp: calm_def[of ge] intro: base_others)

lemma g_wait_base: "calm ge \<Longrightarrow> does (base S h c) (wait (ge_base ge)) (\<lambda>_. base S h c) E"
  by (rule does_post[OF g_wait]) simp_all

lemma g_undo: "calm ge \<Longrightarrow> does (base S h c) (undo ge) (\<lambda>_ a b i t. base S h c a b i t \<and> a = b) E"
  using g_wait[of ge S h c E] by (simp add: undo_def rollback_def wait_def)

lemma g_undo_base: "calm ge \<Longrightarrow> does (base S h c) (undo ge) (\<lambda>_. base S h c) E"
  by (rule does_post[OF g_undo]) simp_all

lemma g_query:
  assumes "lenient S h c E"
    and "\<And>db x. sound_db db \<Longrightarrow> rows_at S h db \<Longrightarrow> f db = Inr x \<Longrightarrow> rows_at (T x) h db \<and> R x"
  shows "does (\<lambda>a b i t. base S h c a b i t \<and> a = b) (call (query f)) (\<lambda>x a b i t. base (T x) h c a b i t \<and> R x) E"
  using assms(2) by (fastforce simp: does_def call_def query_def stmt_def of_sum_def at_desk_def base_def
      split: sum.splits intro: lenientD[OF assms(1), unfolded base_def])

lemma g_read:
  assumes "calm ge" "lenient S h c E"
    and "\<And>db x. sound_db db \<Longrightarrow> rows_at S h db \<Longrightarrow> f db = Inr x \<Longrightarrow> rows_at (T x) h db \<and> R x"
  shows "does (base S h c) (read_verb (ge_base ge) f) (\<lambda>x a b i t. base (T x) h c a b i t \<and> R x) E"
  unfolding read_verb_def by (rule does_andthen[OF g_wait[OF assms(1)]]) (rule g_query[OF assms(2,3)])

lemma g_read_base: "calm ge \<Longrightarrow> lenient S h c E \<Longrightarrow> does (base S h c) (read_verb (ge_base ge) f) (\<lambda>_. base S h c) E"
  by (rule does_post[OF g_read[where T = "\<lambda>_. S" and R = "\<lambda>_. True"]]) simp_all

definition known_row :: "int set \<Rightarrow> string \<Rightarrow> bool \<Rightarrow> download_record option \<Rightarrow> desk_pred" where
  "known_row S h c x a b i t \<longleftrightarrow> base (case x of None \<Rightarrow> S | Some row \<Rightarrow> insert (d_id (fst row)) S) h c a b i t
     \<and> (case x of None \<Rightarrow> True | Some row \<Rightarrow> d_torrent_hash (fst row) = h)"

lemma by_hash_row: "get_by_hash (a_store db) h = Some row \<Longrightarrow> row_at (d_id (fst row)) h db \<and> d_torrent_hash (fst row) = h"
  by (auto simp: get_by_hash_def to_record_def row_at_def list_ex_iff find_Some_iff)

lemma g_look_up: "calm ge \<Longrightarrow> lenient S h c E \<Longrightarrow> does (base S h c) (look_up ge h) (known_row S h c) E"
  unfolding look_up_def
  by (rule does_post[OF g_read[where T = "\<lambda>x. case x of None \<Rightarrow> S | Some row \<Rightarrow> insert (d_id (fst row)) S"
        and R = "\<lambda>x. case x of None \<Rightarrow> True | Some row \<Rightarrow> d_torrent_hash (fst row) = h"]])
    (auto simp: known_row_def rows_at_def split: option.splits dest: by_hash_row)

lemma known_row_base: "known_row S h c x a b i t \<Longrightarrow> base S h c a b i t"
  by (auto simp: known_row_def split: option.splits intro: base_less)

lemma g_look_up_base: "calm ge \<Longrightarrow> lenient S h c E \<Longrightarrow> does (base S h c) (look_up ge k) (\<lambda>_. base S h c) E"
  unfolding look_up_def by (rule g_read_base)

lemma g_known:
  assumes "does (base S h c) m Q E"
    and "\<And>row. d_torrent_hash (fst row) = h \<Longrightarrow> does (base (insert (d_id (fst row)) S) h c) (f row) Q E"
  shows "does (known_row S h c x) (case x of None \<Rightarrow> m | Some row \<Rightarrow> f row) Q E"
proof (cases x)
  case None
  have "does (known_row S h c None) m Q E" by (rule does_pre[OF assms(1)]) (simp add: known_row_def)
  then show ?thesis using None by simp
next
  case (Some row)
  have "does (\<lambda>a b i t. base (insert (d_id (fst row)) S) h c a b i t \<and> d_torrent_hash (fst row) = h) (f row) Q E"
    by (rule does_pure) (rule assms(2))
  then have "does (known_row S h c (Some row)) (f row) Q E" by (rule does_pre) (simp add: known_row_def)
  then show ?thesis using Some by simp
qed

lemma g_at: "does P (at_tick f) (\<lambda>_. P) E"
  by (simp add: does_def at_tick_def)

lemma g_fail: "lenient S h c E \<Longrightarrow> does (base S h c) (fail e) Q E"
  by (rule does_fail) (rule lenientD)

lemma g_ask: "calm ge \<Longrightarrow> lenient S h c E \<Longrightarrow> does (base S h c) (ask_client ge f) (\<lambda>_. base S h c) E"
  unfolding ask_client_def
  by (intro does_andthen[OF g_at] does_andthen[OF g_wait_base] does_option g_fail does_ret)

lemma g_removing: "does P (removing_now ge did) (\<lambda>_. P) E"
  unfolding removing_now_def by (rule g_at)

lemma g_conflict: "calm ge \<Longrightarrow> lenient S h c E \<Longrightarrow> does (base S h c) (active_conflict_for_targets ge request seasons k) (\<lambda>_. base S h c) E"
proof -
  assume a: "calm ge" "lenient S h c E"
  have "does (base S h c) (conflict_for ge rid k ns) (\<lambda>_. base S h c) E" for rid ns
    by (induction ns) (auto intro!: does_ret does_andthen[OF g_read_base[OF a]] does_If)
  then show ?thesis unfolding active_conflict_for_targets_def by (auto intro!: does_option does_ret)
qed

lemma g_emit: "inert e \<Longrightarrow> does (base S h c) (emit e) (\<lambda>_. base S h c) E"
  by (rule does_emit) (auto simp: base_def)

section \<open>Cleaning up\<close>

lemma g_cleanup:
  assumes "calm ge"
  shows "does (base S h c) (remove_torrent_if_added ge h c) (\<lambda>_ _ _ _ t. harmless t) E"
  unfolding remove_torrent_if_added_def remove_torrent_def
proof (rule does_If)
  show "does (base S h c) (ret ()) (\<lambda>_ _ _ _ t. harmless t) E" by (rule does_ret) (rule base_harmless)
  assume c: "\<not> \<not> c"
  have "does (base S h c) (emit (TorrentRemoved h)) (\<lambda>_ _ _ _ t. harmless t) E"
    by (rule does_emit)
      (use c in \<open>auto simp: base_def harmless_def justified_removal_def is_commit_def dest: harmless_inert\<close>)
  then show "does (base S h c) (andthen (emit (TorrentRemoved h)) (\<lambda>_. wait (ge_base ge))) (\<lambda>_ _ _ _ t. harmless t) E"
    by (rule does_andthen) (rule does_wait, use assms in \<open>simp_all add: calm_def\<close>)
qed

lemma g_cleanup_fail:
  assumes "calm ge" "lenient S h c E" "e \<noteq> integ"
  shows "does (base S h c) (andthen (remove_torrent_if_added ge h c) (\<lambda>_. fail e)) Q E"
  by (rule does_andthen[OF g_cleanup[OF assms(1)]]) (rule does_fail, rule lenient_harmless[OF assms(2,3)])

lemma g_cleanup_if:
  "calm ge \<Longrightarrow> does (base S h c) (if has_client then remove_torrent_if_added ge h c else ret ()) (\<lambda>_ _ _ _ t. harmless t) E"
  by (rule does_If, erule g_cleanup) (rule does_ret, erule base_harmless)

lemma g_cleanup_if_fail:
  assumes "calm ge" "lenient S h c E" "e \<noteq> integ"
  shows "does (base S h c) (andthen (if has_client then remove_torrent_if_added ge h c else ret ()) (\<lambda>_. fail e)) Q E"
  by (rule does_andthen[OF g_cleanup_if[OF assms(1)]]) (rule does_fail, rule lenient_harmless[OF assms(2,3)])

end
