(* ===== verification/GrabLaws.thy ===== *)
theory GrabLaws
  imports GrabLogic
begin

text \<open>
  What a grab promises. It commits at most once and last; what it commits is complete: a live row with the
  hash, the request or every target season downloading, every season of the torrent claimed by that row. If
  it fails it has committed nothing, and it has removed no torrent but one its own add created.
\<close>

section \<open>Converging on another owner\<close>

lemma g_attached:
  "calm ge \<Longrightarrow> lenient S h c E \<Longrightarrow> does (base S h c) (attached_target_scopes ge p did rid n targets) (\<lambda>_. base S h c) E"
  unfolding attached_target_scopes_def by (intro does_andthen[OF g_read_base] does_ret)

lemma g_converge:
  "calm ge \<Longrightarrow> lenient S h c E \<Longrightarrow> does (base S h c) (converge_on_same_hash_owner ge p rid n targets row) (\<lambda>_. base S h c) E"
  unfolding converge_on_same_hash_owner_def by (intro does_andthen[OF g_attached] does_If does_ret g_fail)

text \<open>\<open>None\<close> once the torrent may have been removed.\<close>

definition base_if_some :: "int set \<Rightarrow> string \<Rightarrow> bool \<Rightarrow> 'a option \<Rightarrow> desk_pred" where
  "base_if_some S h c x a b i t \<longleftrightarrow> (if x = None then harmless t else base S h c a b i t)"

lemma does_emit_keep: "inert e \<Longrightarrow> (\<And>a b i t. P a b i t \<Longrightarrow> P a b i (t @ [e])) \<Longrightarrow> does P (emit e) (\<lambda>_. P) E"
  by (rule does_emit)

lemma g_resolve:
  assumes c: "calm ge" and E: "lenient S h c E"
  shows "does (base S h c) (resolve_same_hash_owner ge p rid n targets h has_client c) (\<lambda>_. base S h c) E"
proof -
  let ?clean = "if has_client then remove_torrent_if_added ge h c else ret ()"
  note conv = g_converge[OF c]
  have clean: "does (base S h c) (andthen ?clean (\<lambda>_. ret None)) (base_if_some S h c) (halt S h c)"
    by (rule does_andthen[OF g_cleanup_if[OF c]]) (rule does_ret, simp add: base_if_some_def)
  have again: "does (base S h c) (if still then ret None else look_up ge h) (\<lambda>_. base S h c) (halt S h c)" for still
    by (intro does_If g_look_up_base c lenient_halt) (rule does_ret)
  have choose: "does (base S h c) (case reowned of
        Some r \<Rightarrow> if \<not> row_finished r then andthen (converge_on_same_hash_owner ge p rid n targets r) (\<lambda>x. ret (Some x))
                  else andthen ?clean (\<lambda>_. ret None)
      | None \<Rightarrow> andthen ?clean (\<lambda>_. ret None)) (base_if_some S h c) (halt S h c)" for reowned
  proof (cases reowned)
    case (Some r)
    have "does (base S h c) (andthen (converge_on_same_hash_owner ge p rid n targets r) (\<lambda>x. ret (Some x)))
        (base_if_some S h c) (halt S h c)"
      by (rule does_andthen[OF conv[OF lenient_halt]]) (rule does_ret, simp add: base_if_some_def)
    then show ?thesis unfolding Some option.case using clean by (rule does_If)
  qed (use clean in simp)
  have settle: "does (base S h c)
      (andthen (read_verb (ge_base ge) (\<lambda>db. Inr (lock_if_terminal (a_store db) did))) (\<lambda>still_terminal.
               andthen (undo ge) (\<lambda>_.
               andthen (if still_terminal then ret None else look_up ge h) (\<lambda>reowned. case reowned of
                 Some r \<Rightarrow> if \<not> row_finished r then andthen (converge_on_same_hash_owner ge p rid n targets r) (\<lambda>x. ret (Some x))
                           else andthen ?clean (\<lambda>_. ret None)
               | None \<Rightarrow> andthen ?clean (\<lambda>_. ret None))))) (base_if_some S h c) (halt S h c)" for did
    by (rule does_andthen[OF g_read_base[OF c lenient_halt]], rule does_andthen[OF g_undo_base[OF c]],
        rule does_andthen[OF again], rule choose)
  have released: "does (base_if_some S h c x) (emit (RemovalReleased did)) (\<lambda>_. base_if_some S h c x) (\<lambda>_ _ _ _ _. False)"
    "does (halt S h c e) (emit (RemovalReleased did)) (\<lambda>_. halt S h c e) (\<lambda>_ _ _ _ _. False)" for x :: "download_record option" and e did
    by (rule does_emit; auto simp: base_if_some_def halt_def base_def harmless_append)+
  have answer: "does (base_if_some S h c x) (case x of None \<Rightarrow> fail RequestNotActiveError | Some r \<Rightarrow> ret r)
      (\<lambda>_. base S h c) E" for x :: "download_record option"
    by (cases x) (auto simp: base_if_some_def intro!: does_fail does_ret lenient_harmless[OF E])
  have halted: "does P m Q (halt S h c) \<Longrightarrow> does P m Q E" for P and m :: "download_record option verb" and Q
    by (erule does_conseq) (auto simp: halt_def intro: lenientD[OF E] lenient_harmless[OF E] split: if_splits)
  show ?thesis unfolding resolve_same_hash_owner_def Let_def
    by (intro does_andthen[OF g_look_up_base[OF c E]] does_option does_If conv E g_cleanup_if_fail[OF c E]
        does_andthen[OF g_emit] does_andthen[OF halted[OF does_lastly[OF settle released]]] answer) simp_all
qed

section \<open>Moving the targets and claiming the seasons\<close>

text \<open>A row is live, the seasons \<open>A\<close> have their scope and are moved, the seasons \<open>B\<close> are claimed.\<close>

definition carried :: "int \<Rightarrow> string \<Rightarrow> int \<Rightarrow> int set \<Rightarrow> int set \<Rightarrow> int set \<Rightarrow> app_db \<Rightarrow> bool" where
  "carried did h rid Z A B db \<longleftrightarrow> live_at did h db \<and> (\<forall>n \<in> Z. season_at rid n db) \<and> (\<forall>n \<in> A. scope_at did rid n db)
     \<and> (\<forall>n \<in> B. claim_at did rid n db)"

definition amid :: "int set \<Rightarrow> string \<Rightarrow> bool \<Rightarrow> (app_db \<Rightarrow> bool) \<Rightarrow> desk_pred" where
  "amid S h c R a b i t \<longleftrightarrow> base S h c a b i t \<and> R b"

lemma g_write:
  assumes E: "lenient S h c E"
    and eff: "\<And>b x b'. sound_db b \<Longrightarrow> R b \<Longrightarrow> m b = Inr (x, b') \<Longrightarrow> sound_db b' \<and> R' x b'"
  shows "does (amid S h c R) (write_verb m) (\<lambda>x. amid S h c (R' x)) E"
proof (rule doesI)
  fix d assume d: "at_desk (amid S h c R) d"
  show "case write_verb m d of (Inr x, d') \<Rightarrow> at_desk (amid S h c (R' x)) d' | (Inl e, d') \<Rightarrow> at_desk (E e) d'"
  proof (cases "m (ss_db (dk_session d))")
    case (Inl e)
    then show ?thesis using d lenientD[OF E] by (auto simp: write_verb_def call_def stmt_def at_desk_def amid_def)
  next
    case (Inr y)
    obtain x b' where y: "y = (x, b')" by fastforce
    have "sound_db b' \<and> R' x b'" using eff[of "ss_db (dk_session d)" x b'] d Inr y by (simp add: at_desk_def amid_def)
    then show ?thesis using d Inr y by (simp add: write_verb_def call_def stmt_def at_desk_def amid_def base_def)
  qed
qed

lemma amid_True: "base S h c = amid S h c (\<lambda>_. True)"
  by (simp add: amid_def fun_eq_iff)

lemma amid_base: "amid S h c R a b i t \<Longrightarrow> base S h c a b i t"
  by (simp add: amid_def)

lemma carried_mono:
  "carried did h rid Z A B b \<Longrightarrow> a_store b' = a_store b \<Longrightarrow> (\<And>m. season_at rid m b \<Longrightarrow> season_at rid m b') \<Longrightarrow>
   carried did h rid Z A B b'"
  unfolding carried_def using store_frame[of b' b] by blast

lemma g_move_targets:
  assumes E: "lenient S h c E"
  shows "does (amid S h c (carried did h rid Z A B)) (move_targets now p did rid primary from_statuses ns)
     (\<lambda>ok. amid S h c (\<lambda>db. ok \<longrightarrow> carried did h rid (Z \<union> set ns) (A \<union> set ns) B db)) E"
proof (induction ns arbitrary: Z A)
  case Nil
  show ?case by (auto intro!: does_ret)
next
  case (Cons n ns)
  let ?R = "carried did h rid Z (insert n A) B"
  have w1: "does (amid S h c (carried did h rid Z A B))
      (write_verb (on_store (ensure_scope did (Some rid) (Some n) (target_episodes p primary n)))) (\<lambda>_. amid S h c ?R) E"
    by (rule g_write[OF E]) (auto simp: carried_def dest: ensure_scope_effect)
  have w2: "does (amid S h c ?R) (write_verb (ensure_pending rid n))
      (\<lambda>row. amid S h c (\<lambda>db. ?R db \<and> (\<exists>y \<in> set (a_seasons db). z_id y = zr_id row \<and> z_media_request_id y = rid \<and> z_season_number y = n))) E"
  proof (rule g_write[OF E])
    fix b x b' assume a: "sound_db b" "?R b" "ensure_pending rid n b = Inr (x, b')"
    note e = ensure_pending_effect[OF a(1,3)]
    show "sound_db b' \<and> ?R b' \<and> (\<exists>y \<in> set (a_seasons b'). z_id y = zr_id x \<and> z_media_request_id y = rid \<and> z_season_number y = n)"
      using e(1,4) carried_mono[OF a(2) e(2) e(3)] by auto
  qed
  have w3: "does (amid S h c (\<lambda>db. ?R db \<and> (\<exists>y \<in> set (a_seasons db). z_id y = zr_id row \<and> z_media_request_id y = rid \<and> z_season_number y = n)))
      (write_verb (set_status_if_in now rid (zr_id row) ''downloading'' allowed no_guard False))
      (\<lambda>moved. amid S h c (\<lambda>db. moved \<longrightarrow> carried did h rid (insert n Z) (insert n A) B db)) E" for row allowed
  proof (rule g_write[OF E])
    fix b moved b'
    assume a: "sound_db b"
      "?R b \<and> (\<exists>y \<in> set (a_seasons b). z_id y = zr_id row \<and> z_media_request_id y = rid \<and> z_season_number y = n)"
      "set_status_if_in now rid (zr_id row) ''downloading'' allowed no_guard False b = Inr (moved, b')"
    note e = season_swap_effect[OF a(1,3)]
    have "?R b'" using carried_mono[OF _ e(2) e(3)] a(2) by blast
    moreover have "moved \<Longrightarrow> season_at rid n b'" using a(2) e(4) by blast
    ultimately show "sound_db b' \<and> (moved \<longrightarrow> carried did h rid (insert n Z) (insert n A) B b')"
      using e(1) by (auto simp: carried_def)
  qed
  have rest: "does (amid S h c (\<lambda>db. moved \<longrightarrow> carried did h rid (insert n Z) (insert n A) B db))
      (if \<not> moved then ret False else move_targets now p did rid primary from_statuses ns)
      (\<lambda>ok. amid S h c (\<lambda>db. ok \<longrightarrow> carried did h rid (Z \<union> set (n # ns)) (A \<union> set (n # ns)) B db)) E" for moved
  proof (rule does_If)
    assume "\<not> moved"
    then show "does (amid S h c (\<lambda>db. moved \<longrightarrow> carried did h rid (insert n Z) (insert n A) B db)) (ret False)
      (\<lambda>ok. amid S h c (\<lambda>db. ok \<longrightarrow> carried did h rid (Z \<union> set (n # ns)) (A \<union> set (n # ns)) B db)) E"
      by (auto intro!: does_ret simp: amid_def)
  next
    assume "\<not> \<not> moved"
    then show "does (amid S h c (\<lambda>db. moved \<longrightarrow> carried did h rid (insert n Z) (insert n A) B db))
      (move_targets now p did rid primary from_statuses ns)
      (\<lambda>ok. amid S h c (\<lambda>db. ok \<longrightarrow> carried did h rid (Z \<union> set (n # ns)) (A \<union> set (n # ns)) B db)) E"
      using Cons.IH[of "insert n Z" "insert n A"] by simp
  qed
  show ?case unfolding move_targets.simps
    by (rule does_andthen[OF w1], rule does_andthen[OF w2], rule does_andthen[OF w3], rule rest)
qed

lemma g_claim_covered:
  assumes E: "lenient S h c E"
  shows "does (amid S h c (carried did h rid Z A {})) (claim_covered_seasons did rid guards)
     (\<lambda>_. amid S h c (carried did h rid Z A {n. Some n \<in> set guards})) E"
proof -
  let ?I = "\<lambda>seen. amid S h c (carried did h rid Z A {n. Some n \<in> set seen})"
  have "does (?I []) (each (\<lambda>g. case g of None \<Rightarrow> ret () | Some n \<Rightarrow> write_verb (on_store (ensure_coverage_claim did rid n))) guards)
      (\<lambda>_. ?I guards) E"
  proof (rule does_each)
    fix seen g rest
    show "does (?I seen) (case g of None \<Rightarrow> ret () | Some n \<Rightarrow> write_verb (on_store (ensure_coverage_claim did rid n)))
      (\<lambda>_. ?I (seen @ [g])) E"
    proof (cases g)
      case None
      then show ?thesis by (auto intro!: does_ret)
    next
      case (Some n)
      have "does (?I seen) (write_verb (on_store (ensure_coverage_claim did rid n))) (\<lambda>_. ?I (seen @ [Some n])) E"
        by (rule g_write[OF E]) (auto simp: carried_def dest: coverage_claim_effect)
      then show ?thesis using Some by simp
    qed
  qed
  then show ?thesis by (simp add: claim_covered_seasons_def)
qed

section \<open>What a grab commits\<close>

definition grab_committed :: "grab_plan \<Rightarrow> string \<Rightarrow> app_db \<Rightarrow> bool" where
  "grab_committed p h db \<longleftrightarrow> list_ex (\<lambda>r. d_torrent_hash r = h \<and> row_live r \<and> (case gp_request_id p of
        None \<Rightarrow> True
      | Some rid \<Rightarrow> (case gp_season p of
          None \<Rightarrow> d_media_request_id r = Some rid \<and> (gp_media_type p = Some ''tv'' \<or> d_media_type r \<noteq> Some Tv)
            \<and> request_at rid db
        | Some n \<Rightarrow> list_all (\<lambda>t. season_at rid t db \<and> scope_at (d_id r) rid t db) (gp_targets p)
            \<and> list_all (\<lambda>g. case g of None \<Rightarrow> True | Some t \<Rightarrow> claim_at (d_id r) rid t db) (gp_guards p)))) (db_downloads (a_store db))"

definition ended :: "grab_plan \<Rightarrow> string \<Rightarrow> verb_event list \<Rightarrow> bool" where
  "ended p h t \<longleftrightarrow> (\<exists>u a b. t = u @ [Committed a b] \<and> list_all inert u \<and> grab_committed p h b)"

definition succeeded :: "grab_plan \<Rightarrow> string \<Rightarrow> verb_event list \<Rightarrow> bool" where
  "succeeded p h t \<longleftrightarrow> list_all inert t \<or> ended p h t"

lemma base_succeeded: "base S h c a b i t \<Longrightarrow> succeeded p h t"
  by (simp add: base_def succeeded_def)

lemma g_commit:
  assumes "calm ge"
  shows "does (amid S h c (\<lambda>db. grab_committed p h db \<and> row_at did h db)) (commit_verb (ge_base ge))
    (\<lambda>_ a b i t. row_at did h a \<and> ended p h t) E"
  by (rule does_commit)
    (use assms in \<open>auto simp: calm_def rows_stay_def amid_def base_def ended_def\<close>)

lemma row_found: "row_at did h db \<Longrightarrow> get_by_hash (a_store db) h \<noteq> None"
  by (auto simp: get_by_hash_def row_at_def list_ex_iff find_None_iff)

lemma g_after_commit:
  assumes "calm ge"
  shows "does (\<lambda>a b i t. row_at did h a \<and> ended p h t) (look_up ge h) (\<lambda>x a b i t. ended p h t \<and> x \<noteq> None) E"
proof -
  have w: "does (\<lambda>a b i t. row_at did h a \<and> ended p h t) (wait (ge_base ge))
      (\<lambda>_ a b i t. row_at did h b \<and> ended p h t) E"
    by (rule does_wait) (use assms in \<open>auto simp: calm_def rows_stay_def\<close>)
  have q: "does (\<lambda>a b i t. row_at did h b \<and> ended p h t) (call (query (\<lambda>db. Inr (get_by_hash (a_store db) h))))
      (\<lambda>x a b i t. ended p h t \<and> x \<noteq> None) E"
    by (auto simp: does_def call_def query_def stmt_def of_sum_def at_desk_def dest!: row_found)
  show ?thesis unfolding look_up_def read_verb_def by (rule does_andthen[OF w q])
qed

lemma carried_committed:
  "gp_request_id p = Some rid \<Longrightarrow> gp_season p = Some n \<Longrightarrow> carried did h rid Z A B db \<Longrightarrow>
   set (gp_targets p) \<subseteq> Z \<inter> A \<Longrightarrow> {t. Some t \<in> set (gp_guards p)} \<subseteq> B \<Longrightarrow> grab_committed p h db \<and> row_at did h db"
  by (auto simp: carried_def grab_committed_def live_at_def row_at_def list_ex_iff list_all_iff split: option.splits)
    blast

section \<open>Attaching\<close>

definition attached :: "int set \<Rightarrow> string \<Rightarrow> bool \<Rightarrow> grab_plan \<Rightarrow> download_record option \<Rightarrow> desk_pred" where
  "attached S h c p x a b i t \<longleftrightarrow> (if x = None then base S h c a b i t else succeeded p h t)"

lemma g_read_held:
  assumes "calm ge" "lenient S h c E"
  shows "does (base S h c) (read_verb (ge_base ge) f) (\<lambda>x. amid S h c (\<lambda>db. f db = Inr x \<and> rows_at S h db)) E"
proof -
  have "does (\<lambda>a b i t. base S h c a b i t \<and> a = b) (call (query f)) (\<lambda>x. amid S h c (\<lambda>db. f db = Inr x \<and> rows_at S h db)) E"
    by (auto simp: does_def call_def query_def stmt_def of_sum_def at_desk_def amid_def base_def
      split: sum.splits intro: lenientD[OF assms(2), unfolded base_def])
  then show ?thesis unfolding read_verb_def by (rule does_andthen[OF g_wait[OF assms(1)]])
qed

lemma lock_live:
  assumes "sound_db db" "lock_if_active (a_store db) did" "row_at did h db"
  shows "live_at did h db"
proof -
  have "filter (\<lambda>r. d_id r = did \<and> row_live r) (db_downloads (a_store db)) \<noteq> []"
    using assms(2) by (auto simp: lock_if_active_def)
  then obtain r where r: "r \<in> set (db_downloads (a_store db))" "d_id r = did" "row_live r" by (auto simp: filter_empty_conv)
  obtain q where q: "q \<in> set (db_downloads (a_store db))" "d_id q = did" "d_torrent_hash q = h"
    using assms(3) by (auto simp: row_at_def list_ex_iff)
  have "r = q" using assms(1) r q by (auto simp: sound_db_def repo_inv_def db_unique_def distinct_map dest: inj_onD)
  then show ?thesis using r q by (auto simp: live_at_def list_ex_iff)
qed

lemma attached_some: "base T h c a b i t \<Longrightarrow> attached S h c p (Some r) a b i t"
  by (auto simp: attached_def intro: base_succeeded)

lemma g_collision:
  assumes c: "calm ge" and E: "lenient S h c E" and S: "S \<subseteq> T"
    and again: "\<And>row. d_torrent_hash (fst row) = h \<Longrightarrow>
      does (base (insert (d_id (fst row)) S) h c) (again row) (attached S h c p) E"
  shows "does (base T h c) (attach_collision again ge p rid n targets guards h hc c) (attached S h c p) E"
proof -
  note E' = lenient_more[OF E S]
  have row: "does (base (insert (d_id (fst row)) T) h c)
      (andthen (attached_target_scopes ge p (d_id (fst row)) rid n targets) (\<lambda>attached.
         if attached then ret (Some row) else if row_finished row then ret None else again row)) (attached S h c p) E"
    if h: "d_torrent_hash (fst row) = h" for row
  proof (rule does_andthen[OF g_attached[OF c lenient_more[OF E]]])
    show "S \<subseteq> insert (d_id (fst row)) T" using S by blast
    have all: "base (insert (d_id (fst row)) T) h c a b i t \<Longrightarrow> base (insert (d_id (fst row)) S) h c a b i t" for a b i t
      by (erule base_less) (use S in blast)
    show "does (base (insert (d_id (fst row)) T) h c)
        (if ok then ret (Some row) else if row_finished row then ret None else again row) (attached S h c p) E" for ok
    proof (intro does_If)
      show "does (base (insert (d_id (fst row)) T) h c) (ret (Some row)) (attached S h c p) E"
        by (rule does_ret) (rule attached_some)
      show "does (base (insert (d_id (fst row)) T) h c) (ret None) (attached S h c p) E"
        by (rule does_ret) (use S in \<open>auto simp: attached_def elim: base_less\<close>)
      show "does (base (insert (d_id (fst row)) T) h c) (again row) (attached S h c p) E"
        by (rule does_pre[OF again[OF h]]) (rule all)
    qed
  qed
  show ?thesis unfolding attach_collision_def
    by (rule does_andthen[OF g_undo_base[OF c]], rule does_andthen[OF g_conflict[OF c E']], rule does_If,
        rule g_cleanup_if_fail[OF c E'], simp, rule does_andthen[OF g_look_up[OF c E']], rule g_known[OF g_fail[OF E']],
        rule row)
qed

lemma g_attach_once:
  assumes c: "calm ge" and E: "lenient S h c E" and h: "d_torrent_hash (fst row) = h"
    and again: "\<And>row. d_torrent_hash (fst row) = h \<Longrightarrow>
      does (base (insert (d_id (fst row)) S) h c) (again row) (attached S h c p) E"
  shows "does (base (insert (d_id (fst row)) S) h c) (attach_once again ge p hc c row) (attached S h c p) E"
proof (cases "\<exists>rid n. gp_request_id p = Some rid \<and> gp_season p = Some n")
  case False
  then have "attach_once again ge p hc c row = ret (Some row)" by (auto simp: attach_once_def split: option.splits)
  then show ?thesis by (auto intro!: does_ret attached_some)
next
  case True
  then obtain rid n where p: "gp_request_id p = Some rid" "gp_season p = Some n" by blast
  let ?did = "d_id (fst row)"
  let ?T = "insert ?did S"
  let ?targets = "if gp_targets p = [] then [n] else gp_targets p"
  let ?guards = "if gp_guards p = [] then map Some ?targets else gp_guards p"
  let ?all = "\<lambda>db. grab_committed p h db \<and> row_at ?did h db"
  let ?mid = "\<lambda>x. case x of None \<Rightarrow> amid ?T h c ?all | Some y \<Rightarrow> attached S h c p y"
  note S = subset_insertI[of S ?did]
  note E' = lenient_more[OF E S] and H = lenient_halt[of ?T h c]
  have less: "base ?T h c a b i t \<Longrightarrow> base S h c a b i t" for a b i t by (erule base_less) blast
  have lost: "does (amid ?T h c R) (andthen (undo ge) (\<lambda>_. andthen
      (resolve_same_hash_owner ge p rid n ?targets h hc c) (\<lambda>owner. ret (Some (Some owner))))) ?mid (halt ?T h c)" for R
    by (rule does_pre[OF does_andthen[OF g_undo_base[OF c] does_andthen[OF g_resolve[OF c H]]]])
      (auto intro!: does_ret attached_some less dest: amid_base)
  have claim: "does (amid ?T h c (carried ?did h rid (set ?targets) (set ?targets) {}))
      (andthen (claim_covered_seasons ?did rid ?guards) (\<lambda>_. ret None)) ?mid (halt ?T h c)"
  proof (rule does_andthen[OF g_claim_covered[OF H]])
    show "does (amid ?T h c (carried ?did h rid (set ?targets) (set ?targets) {t. Some t \<in> set ?guards}))
        (ret None) ?mid (halt ?T h c)"
      by (rule does_ret) (auto simp: amid_def dest!: carried_committed[OF p] split: if_splits)
  qed
  have body: "does (amid ?T h c (carried ?did h rid {} {} {}))
      (andthen (move_targets (now_at (ge_base ge)) p ?did rid n (attach_from p n) ?targets) (\<lambda>moved.
             if \<not> moved
             then andthen (undo ge) (\<lambda>_. andthen (resolve_same_hash_owner ge p rid n ?targets h hc c)
               (\<lambda>owner. ret (Some (Some owner))))
             else andthen (claim_covered_seasons ?did rid ?guards) (\<lambda>_. ret None))) ?mid (halt ?T h c)"
  proof (rule does_andthen[OF g_move_targets[OF H]], rule does_If, rule lost)
    fix moved assume "\<not> \<not> moved"
    then show "does (amid ?T h c (\<lambda>db. moved \<longrightarrow> carried ?did h rid ({} \<union> set ?targets) ({} \<union> set ?targets) {} db))
      (andthen (claim_covered_seasons ?did rid ?guards) (\<lambda>_. ret None)) ?mid (halt ?T h c)"
      using claim by simp
  qed
  have handler: "does (halt ?T h c integ) (andthen (attach_collision again ge p rid n ?targets ?guards h hc c)
      (\<lambda>answer. ret (Some answer))) ?mid E"
    by (rule does_pre[OF does_andthen[OF g_collision[OF c E S again]]]) (auto simp: halt_def intro!: does_ret)
  have finish: "does (?mid x) (case x of Some answer \<Rightarrow> ret answer
      | None \<Rightarrow> andthen (commit_verb (ge_base ge)) (\<lambda>_. andthen (look_up ge h) (\<lambda>found. case found of
          None \<Rightarrow> fail (RowVanishedError h) | Some record \<Rightarrow> ret (Some record)))) (attached S h c p) E" for x
  proof (cases x)
    case None
    have "does (\<lambda>a b i t. ended p h t \<and> found \<noteq> None) (case found of
          None \<Rightarrow> fail (RowVanishedError h) | Some record \<Rightarrow> ret (Some record)) (attached S h c p) E"
      for found :: "download_record option"
      by (cases found) (auto intro!: does_fail does_ret simp: attached_def succeeded_def)
    then show ?thesis using None
      by (auto intro: does_andthen[OF g_commit[OF c] does_andthen[OF g_after_commit[OF c]]])
  qed (auto intro: does_ret)
  have locked: "does (amid ?T h c (\<lambda>db. Inr (lock_if_active (a_store db) ?did) = (Inr ok :: repo_error + bool) \<and> rows_at ?T h db))
      m Q E'" if "ok" "does (amid ?T h c (carried ?did h rid {} {} {})) m Q E'" for ok and m :: "'x verb" and Q E'
    by (rule does_pre[OF that(2)]) (use that(1) lock_live in \<open>auto simp: amid_def carried_def rows_at_def\<close>)
  have unlocked: "does (amid ?T h c R) (andthen (undo ge) (\<lambda>_. ret None)) (attached S h c p) E" for R
    by (rule does_pre[OF does_andthen[OF g_undo_base[OF c]]]) (auto intro!: does_ret simp: attached_def intro: less amid_base)
  have caught: "e \<noteq> integ \<Longrightarrow> halt ?T h c e a b i t \<Longrightarrow> E e a b i t" for e a b i t
    by (simp add: halt_def lenient_harmless[OF E])
  show ?thesis unfolding attach_once_def p option.case prod.case Let_def h
    apply (rule does_If)
     apply (rule does_ret, simp add: attached_def less)
    apply (rule does_andthen[OF g_conflict[OF c E']])
    apply (rule does_If)
     apply (rule g_fail[OF E'])
    apply (rule does_andthen[OF g_read_held[OF c E']])
    apply (rule does_If)
     apply (rule unlocked)
    apply (rule locked, simp)
    apply (rule does_andthen[OF does_catch[OF body handler caught] finish], assumption+)
    done
qed

lemma g_attach:
  assumes "calm ge" "lenient S h c E" "d_torrent_hash (fst row) = h"
  shows "does (base (insert (d_id (fst row)) S) h c) (attach k ge p hc c row) (attached S h c p) E"
  using assms(3)
proof (induction k arbitrary: row)
  case 0
  show ?case by (simp add: g_fail lenient_more[OF assms(2)] subset_insertI)
next
  case (Suc k)
  show ?case unfolding attach.simps by (rule g_attach_once[OF assms(1,2) Suc.prems Suc.IH])
qed

end
