(* ===== verification/GrabOutcome.thy ===== *)
theory GrabOutcome
  imports GrabLaws
begin

text \<open>The reuse of a finished row, the insert, the move to downloading, and the whole call.\<close>

section \<open>Recovering from a lost attachment\<close>

lemma g_still_grabbable:
  "calm ge \<Longrightarrow> lenient S h c E \<Longrightarrow> does (base S h c) (scope_still_grabbable ge rid n) (\<lambda>_. base S h c) E"
  unfolding scope_still_grabbable_def Let_def
  by (intro does_andthen[OF g_read_base] does_option does_If does_ret)

lemma g_query_base:
  "lenient S h c E \<Longrightarrow> does (base S h c) (call (query f)) (\<lambda>_. base S h c) E"
  by (rule does_query) (auto intro: lenientD)

lemma g_undo_fail: "calm ge \<Longrightarrow> lenient S h c E \<Longrightarrow> does (base S h c) (andthen (undo ge) (\<lambda>_. fail e)) Q E"
  by (rule does_andthen[OF g_undo_base g_fail])

lemma g_refuse_unsafe:
  assumes "calm ge" "lenient S h c E"
  shows "does (base S h c) (refuse_unsafe_attachment_loss_recovery ge p rid n k did) (\<lambda>_. base S h c) E"
  unfolding refuse_unsafe_attachment_loss_recovery_def
  by (intro does_andthen[OF g_undo_base[OF assms(1)]] does_andthen[OF g_query_base[OF assms(2)]] does_If
      g_undo_fail[OF assms] does_andthen[OF g_still_grabbable[OF assms]] does_andthen[OF g_removing] g_fail[OF assms(2)] does_ret)

lemma g_surviving:
  assumes "calm ge" "lenient S h c E"
  shows "does (base S h c) (surviving_claim_after_attachment_loss ge p rid n h did) (\<lambda>claim. base S h claim) E"
  unfolding surviving_claim_after_attachment_loss_def
  by (rule does_andthen[OF g_refuse_unsafe[OF assms]], rule does_andthen[OF g_ask[OF assms]], rule does_If,
      rule g_fail[OF assms(2)], rule does_ret, erule base_unclaimed)

section \<open>Reusing a finished row\<close>

lemma g_reuse_conflict:
  assumes "calm ge" "lenient S h c E"
  shows "does (base S h c) (reuse_conflict ge p h c) Q E"
  unfolding reuse_conflict_def
  by (rule does_andthen[OF g_undo_base[OF assms(1)]], rule does_andthen[OF g_conflict[OF assms]], rule does_If,
      rule g_cleanup_fail[OF assms], simp, rule g_fail[OF assms(2)])

definition reused :: "int set \<Rightarrow> string \<Rightarrow> bool \<Rightarrow> grab_plan \<Rightarrow> download_record \<times> bool \<Rightarrow> desk_pred" where
  "reused S h c p x a b i t \<longleftrightarrow> (if snd x then amid S h c (held_row p (d_id (fst (fst x))) h) a b i t
     else known_row S h c (Some (fst x)) a b i t)"

lemma g_reuse_row:
  assumes c: "calm ge" and E: "lenient S h c E" and did: "did \<in> S"
  shows "does (base S h c) (reuse_terminal_row ge p did h c i) (reused S h c p) E"
proof -
  let ?q = "call (query (\<lambda>db. Inr (get_by_hash (a_store db) h)))"
  let ?look = "\<lambda>claimed. andthen ?q (\<lambda>found. case found of None \<Rightarrow> fail (RowVanishedError h)
      | Some record \<Rightarrow> ret (record, claimed))"
  have w: "does (base S h c) (wait (ge_base ge)) (\<lambda>_. amid S h c (row_at did h)) E"
    by (rule does_post[OF g_wait[OF c]]) (use did in \<open>auto simp: amid_def base_def rows_at_def\<close>)
  have cas: "does (amid S h c (row_at did h)) (write_verb (cas_download now did (state_str Downloading)
      TERMINAL_DOWNLOAD_STATUSES (reuse_update now p i))) (\<lambda>claimed. amid S h c (\<lambda>db. claimed \<longrightarrow> held_row p did h db)) E" for now
    by (rule g_write[OF E]) (use reuse_effect in blast)
  have won: "does (amid S h c (held_row p did h)) (?look True) (reused S h c p) E"
  proof -
    let ?R = "\<lambda>x db. held_row p did h db \<and> x = get_by_hash (a_store db) h"
    have q: "does (amid S h c (held_row p did h)) ?q (\<lambda>x a b i t. sound_db b \<and> amid S h c (?R x) a b i t) E"
      by (auto simp: does_def call_def query_def stmt_def of_sum_def at_desk_def amid_def)
    have hit: "d_id (fst rec) = did" if db: "sound_db b" and row: "held_row p did h b" and rec: "Some rec = get_by_hash (a_store b) h" for rec b
    proof -
      obtain r where r: "r \<in> set (db_downloads (a_store b))" "d_torrent_hash r = h" "d_id r = did"
        using row by (auto simp: held_row_def own_row_def list_ex_iff)
      obtain y where y: "y \<in> set (db_downloads (a_store b))" "d_torrent_hash y = h" "fst rec = y"
        using rec[symmetric] by (auto simp: get_by_hash_def to_record_def find_Some_iff dest: nth_mem)
      have "distinct (map d_torrent_hash (db_downloads (a_store b)))"
        using db by (simp add: sound_db_def repo_inv_def db_unique_def)
      then have "r = y" using r y by (auto simp: distinct_map dest: inj_onD)
      then show ?thesis using r y by simp
    qed
    show ?thesis
    proof (rule does_andthen[OF q])
      fix x
      show "does (\<lambda>a b i t. sound_db b \<and> amid S h c (?R x) a b i t) (case x of None \<Rightarrow> fail (RowVanishedError h)
          | Some record \<Rightarrow> ret (record, True)) (reused S h c p) E"
      proof (cases x)
        case (Some rec)
        have "amid S h c (held_row p (d_id (fst rec)) h) a b i t" if "sound_db b \<and> amid S h c (?R x) a b i t" for a b i t
          using that hit[of b rec] Some by (auto simp: amid_def)
        then show ?thesis using Some by (auto intro!: does_ret simp: reused_def)
      qed (auto intro!: does_fail lenientD[OF E] simp: amid_def)
    qed
  qed
  have lost: "does (base S h c) (andthen (undo ge) (\<lambda>_. ?look False)) (reused S h c p) E"
  proof (rule does_andthen[OF g_undo[OF c]], rule does_andthen)
    show "does (\<lambda>a b i t. base S h c a b i t \<and> a = b) ?q (known_row S h c) E"
      by (rule does_post[OF g_query[OF E, where T = "\<lambda>x. case x of None \<Rightarrow> S | Some row \<Rightarrow> insert (d_id (fst row)) S"
          and R = "\<lambda>x. case x of None \<Rightarrow> True | Some row \<Rightarrow> d_torrent_hash (fst row) = h"]])
        (auto simp: known_row_def rows_at_def split: option.splits dest: by_hash_row)
    show "does (known_row S h c x) (case x of None \<Rightarrow> fail (RowVanishedError h) | Some record \<Rightarrow> ret (record, False))
        (reused S h c p) E" for x
      by (cases x) (auto intro!: does_fail does_ret lenientD[OF E] known_row_base simp: reused_def)
  qed
  have step: "does (amid S h c (\<lambda>db. claimed \<longrightarrow> held_row p did h db))
      (andthen (if claimed then ret () else undo ge) (\<lambda>_. ?look claimed)) (reused S h c p) E" for claimed
  proof (cases claimed)
    case True
    have "does (amid S h c (held_row p did h)) (andthen (ret ()) (\<lambda>_. ?look True)) (reused S h c p) E"
      by (rule does_andthen[OF _ won]) (rule does_ret)
    moreover have "claimed = True" using True by simp
    ultimately show ?thesis by (simp only: if_True simp_thms)
  next
    case False
    have "does (amid S h c (\<lambda>db. claimed \<longrightarrow> held_row p did h db)) (andthen (undo ge) (\<lambda>_. ?look False)) (reused S h c p) E"
      by (rule does_pre[OF lost]) (erule amid_base)
    moreover have "claimed = False" using False by simp
    ultimately show ?thesis by (simp only: if_False simp_thms)
  qed
  show ?thesis unfolding reuse_terminal_row_def
    by (rule does_andthen[OF g_removing], rule does_If, rule g_cleanup_fail[OF c E], simp,
        rule does_andthen[OF w], rule does_andthen[OF cas], rule step)
qed

text \<open>Where a call stands: it has joined a tracked torrent, or holds a row of its own.\<close>

definition standing :: "string \<Rightarrow> grab_plan \<Rightarrow> grab_row \<Rightarrow> desk_pred" where
  "standing h p x a b i t \<longleftrightarrow> (case x of Joined r \<Rightarrow> succeeded p h t
     | Holding r c \<Rightarrow> amid {} h c (held_row p (d_id (fst r)) h) a b i t)"

lemma standing_joined: "attached S h c p (Some r) a b i t \<Longrightarrow> standing h p (Joined x) a b i t"
  by (simp add: standing_def attached_def)

lemma g_tracked: "lenient S h c E \<Longrightarrow> does (base S h c) (already_tracked k row) Q E"
  unfolding already_tracked_def by (rule g_fail)

text \<open>A live row of this request: attach to it, or go on with what is left of the claim.\<close>

lemma g_join:
  assumes c: "calm ge" and h: "d_torrent_hash (fst row) = h" and did: "d_id (fst row) \<in> S" and E: "lenient S h c E"
    and go_on: "\<And>claim. does (base S h claim) (m claim) Q E"
    and join: "\<And>x a b i t. succeeded p h t \<Longrightarrow> Q (f x) a b i t"
  shows "does (base S h c)
    (if owned_elsewhere p row then already_tracked h row
     else case (gp_request_id p, gp_season p) of
       (Some rid, Some n) \<Rightarrow>
         andthen (attach k ge p hc c row) (\<lambda>attached. case attached of
           Some x \<Rightarrow> ret (f x)
         | None \<Rightarrow> andthen (surviving_claim_after_attachment_loss ge p rid n h (d_id (fst row))) m)
     | _ \<Rightarrow> ret (f row)) Q E"
proof -
  have S: "insert (d_id (fst row)) S = S" using did by blast
  have plain: "does (base S h c) (ret (f row)) Q E"
    by (rule does_ret) (rule join, rule base_succeeded)
  have att: "does (base S h c) (andthen (attach k ge p hc c row) (\<lambda>attached. case attached of
           Some x \<Rightarrow> ret (f x)
         | None \<Rightarrow> andthen (surviving_claim_after_attachment_loss ge p rid n h (d_id (fst row))) m)) Q E" for rid n
  proof (rule does_andthen[OF g_attach[OF c E h, unfolded S]])
    fix x
    have none: "does (base S h c) (andthen (surviving_claim_after_attachment_loss ge p rid n h (d_id (fst row))) m) Q E"
      by (rule does_andthen[OF g_surviving[OF c E] go_on])
    show "does (attached S h c p x) (case x of Some x \<Rightarrow> ret (f x)
         | None \<Rightarrow> andthen (surviving_claim_after_attachment_loss ge p rid n h (d_id (fst row))) m) Q E"
    proof (cases x)
      case None
      have "does (attached S h c p None) (andthen (surviving_claim_after_attachment_loss ge p rid n h (d_id (fst row))) m) Q E"
        by (rule does_pre[OF none]) (simp add: attached_def)
      then show ?thesis using None by simp
    next
      case (Some y)
      have "does (attached S h c p (Some y)) (ret (f y)) Q E" by (rule does_ret) (rule join, simp add: attached_def)
      then show ?thesis using Some by simp
    qed
  qed
  show ?thesis
    by (rule does_If, rule g_tracked[OF E]) (use plain att in \<open>auto split: option.splits\<close>)
qed

lemma g_reuse_loop:
  assumes c: "calm ge"
  shows "did \<in> S \<Longrightarrow> does (base S h claim) (reuse_loop k ge p did h claim i) (standing h p) given_up"
proof (induction k arbitrary: claim)
  case 0
  show ?case by (simp add: g_fail lenient_given_up)
next
  case (Suc k)
  note G = lenient_given_up
  have handler: "does (halt S h claim integ) (reuse_conflict ge p h claim) (reused S h claim p) given_up"
    by (rule does_pre[OF g_reuse_conflict[OF c G]]) (simp add: halt_def)
  have caught: "e \<noteq> integ \<Longrightarrow> halt S h claim e a b i t \<Longrightarrow> harmless t" for e a b i t
    by (simp add: halt_def)
  have step: "does (reused S h claim p x) (case x of (record, claimed_reuse) \<Rightarrow>
     if claimed_reuse then ret (Holding record claim)
     else if row_finished record then already_tracked h record
     else if owned_elsewhere p record then already_tracked h record
     else case (gp_request_id p, gp_season p) of
       (Some rid, Some n) \<Rightarrow>
         andthen (attach k ge p True claim record) (\<lambda>attached. case attached of
           Some x \<Rightarrow> ret (Joined x)
         | None \<Rightarrow> andthen (surviving_claim_after_attachment_loss ge p rid n h (d_id (fst record))) (\<lambda>claim.
             reuse_loop k ge p did h claim i))
     | _ \<Rightarrow> ret (Joined record)) (standing h p) given_up" for x
  proof (cases x)
    case (Pair rec claimed)
    let ?T = "insert (d_id (fst rec)) S"
    have joined: "d_torrent_hash (fst rec) = h \<Longrightarrow> does (base ?T h claim) (if owned_elsewhere p rec then already_tracked h rec
     else case (gp_request_id p, gp_season p) of
       (Some rid, Some n) \<Rightarrow>
         andthen (attach k ge p True claim rec) (\<lambda>attached. case attached of
           Some x \<Rightarrow> ret (Joined x)
         | None \<Rightarrow> andthen (surviving_claim_after_attachment_loss ge p rid n h (d_id (fst rec))) (\<lambda>claim.
             reuse_loop k ge p did h claim i))
     | _ \<Rightarrow> ret (Joined rec)) (standing h p) given_up"
    proof (rule g_join[OF c _ _ G])
      show "does (base ?T h claim') (reuse_loop k ge p did h claim' i) (standing h p) given_up" for claim'
        by (rule does_pre[OF Suc.IH[OF Suc.prems]]) (erule base_less, rule subset_insertI)
    qed (simp_all add: standing_def)
    have "does (\<lambda>a b i t. base ?T h claim a b i t \<and> d_torrent_hash (fst rec) = h)
      (if row_finished rec then already_tracked h rec
     else if owned_elsewhere p rec then already_tracked h rec
     else case (gp_request_id p, gp_season p) of
       (Some rid, Some n) \<Rightarrow>
         andthen (attach k ge p True claim rec) (\<lambda>attached. case attached of
           Some x \<Rightarrow> ret (Joined x)
         | None \<Rightarrow> andthen (surviving_claim_after_attachment_loss ge p rid n h (d_id (fst rec))) (\<lambda>claim.
             reuse_loop k ge p did h claim i))
     | _ \<Rightarrow> ret (Joined rec)) (standing h p) given_up"
      by (rule does_pure, rule does_If, rule g_tracked[OF G], rule joined)
    note lost = does_pre[OF this[unfolded prod.case]]
    show ?thesis unfolding Pair prod.case
      by (rule does_If, rule does_ret, simp add: reused_def standing_def amid_def, erule conjE, erule base_less, simp)
        (rule lost, auto simp: reused_def known_row_def)
  qed
  show ?case unfolding reuse_loop.simps
    by (rule does_andthen[OF does_catch[OF g_reuse_row[OF c lenient_halt Suc.prems] handler caught] step])
qed

section \<open>Inserting a row\<close>

lemma g_insert_row:
  assumes c: "calm ge"
  shows "does (base {} h claim) (insert_download k ge p h claim i) (standing h p) given_up"
proof -
  note G = lenient_given_up
  have collision: "does (base {} h claim) (create_collision k ge p h claim i) (standing h p) given_up"
  proof -
    have found: "does (base (insert (d_id (fst row)) {}) h claim) (if row_finished row then reuse_loop k ge p (d_id (fst row)) h claim i
         else if owned_elsewhere p row then already_tracked h row
         else case (gp_request_id p, gp_season p) of
           (Some rid, Some n) \<Rightarrow>
             andthen (attach k ge p True claim row) (\<lambda>attached. case attached of
               Some x \<Rightarrow> ret (Joined x)
             | None \<Rightarrow> andthen (surviving_claim_after_attachment_loss ge p rid n h (d_id (fst row))) (\<lambda>claim.
                 reuse_loop k ge p (d_id (fst row)) h claim i))
         | _ \<Rightarrow> ret (Joined row)) (standing h p) given_up" if h: "d_torrent_hash (fst row) = h" for row
    proof (rule does_If)
      show "does (base (insert (d_id (fst row)) {}) h claim) (reuse_loop k ge p (d_id (fst row)) h claim i) (standing h p) given_up"
        by (rule g_reuse_loop[OF c]) simp
    qed (rule g_join[OF c h _ G g_reuse_loop[OF c]], simp_all add: standing_def)
    show ?thesis unfolding create_collision_def
      by (rule does_andthen[OF g_undo_base[OF c]], rule does_andthen[OF g_conflict[OF c G]], rule does_If,
          rule g_cleanup_fail[OF c G], simp, rule does_andthen[OF g_look_up[OF c G]], rule g_known[OF g_fail[OF G]],
          rule found)
  qed
  have w: "does (base {} h claim) (wait (ge_base ge)) (\<lambda>_. amid {} h claim (\<lambda>_. True)) given_up"
    by (rule does_post[OF g_wait[OF c]]) (simp add: amid_def)
  have ins: "does (amid {} h claim (\<lambda>_. True))
      (andthen (write_verb (on_store (DownloadRepo.create now h (state_str Downloading) (grab_update now p i))))
        (\<lambda>rec. ret (Holding rec claim))) (standing h p) (halt {} h claim)" for now
  proof (rule does_andthen[OF g_write[OF lenient_halt]])
    show "does (amid {} h claim (held_row p (d_id (fst rec)) h)) (ret (Holding rec claim)) (standing h p) (halt {} h claim)" for rec
      by (rule does_ret) (simp add: standing_def)
  qed (use create_effect in blast)
  show ?thesis unfolding insert_download_def
    by (rule does_andthen[OF w], rule does_catch[OF ins]) (rule does_pre[OF collision], simp_all add: halt_def)
qed

section \<open>The move to downloading\<close>

definition moved_or_not :: "grab_plan \<Rightarrow> string \<Rightarrow> int \<Rightarrow> bool \<Rightarrow> app_db \<Rightarrow> bool" where
  "moved_or_not p h did moved db \<longleftrightarrow> (moved \<longrightarrow> grab_committed p h db \<and> row_at did h db)"

lemma held_carried:
  "gp_request_id p = Some rid \<Longrightarrow> gp_season p = Some n \<Longrightarrow> held_row p did h db \<Longrightarrow> live_at did h db \<and> scope_at did rid n db"
  by (auto simp: held_row_def intro: own_row_live)

lemma held_frame: "held_row p did h b \<Longrightarrow> a_store b' = a_store b \<Longrightarrow> held_row p did h b'"
  using store_frame(2)[of b' b] by (simp add: held_row_def own_row_def split: option.splits)

lemma g_start_season:
  assumes c: "calm ge" and p: "gp_request_id p = Some rid" "gp_season p = Some n"
  shows "does (amid {} h claim (held_row p did h)) (start_season ge p rid n h did claim)
    (\<lambda>moved. amid {} h claim (moved_or_not p h did moved)) given_up"
proof -
  note G = lenient_given_up
  let ?y = "\<lambda>row db. \<exists>y \<in> set (a_seasons db). z_id y = zr_id row \<and> z_media_request_id y = rid \<and> z_season_number y = n"
  let ?more = "filter (\<lambda>t. t \<noteq> n) (gp_targets p)"
  let ?all = "insert n (set ?more)"
  have w1: "does (amid {} h claim (held_row p did h)) (write_verb (ensure_pending rid n))
      (\<lambda>row. amid {} h claim (\<lambda>db. held_row p did h db \<and> ?y row db)) given_up"
  proof (rule g_write[OF G])
    fix b x b' assume a: "sound_db b" "held_row p did h b" "ensure_pending rid n b = Inr (x, b')"
    note e = ensure_pending_effect[OF a(1,3)]
    show "sound_db b' \<and> held_row p did h b' \<and> ?y x b'" using e(1,4) held_frame[OF a(2) e(2)] by auto
  qed
  have w2: "does (amid {} h claim (\<lambda>db. held_row p did h db \<and> ?y row db))
      (write_verb (set_status_if_in now rid (zr_id row) ''downloading'' (season_from p) no_guard False))
      (\<lambda>moved. amid {} h claim (\<lambda>db. moved \<longrightarrow> carried did h rid {n} {n} {} db)) given_up" for row now
  proof (rule g_write[OF G])
    fix b moved b' assume a: "sound_db b" "held_row p did h b \<and> ?y row b"
      "set_status_if_in now rid (zr_id row) ''downloading'' (season_from p) no_guard False b = Inr (moved, b')"
    note e = season_swap_effect[OF a(1,3)]
    have "held_row p did h b'" using held_frame[OF _ e(2)] a(2) by blast
    from held_carried[OF p this] show "sound_db b' \<and> (moved \<longrightarrow> carried did h rid {n} {n} {} b')"
      using e(1,4) a(2) by (auto simp: carried_def)
  qed
  have body: "does (amid {} h claim (carried did h rid {n} {n} {}))
      (andthen (move_targets now p did rid n (\<lambda>_. PACK_TARGET_SEASON_STATUS_VALUES) ?more) (\<lambda>all_moved.
          if \<not> all_moved
          then andthen (undo ge) (\<lambda>_. andthen (remove_torrent_if_added ge h claim) (\<lambda>_. fail RequestNotActiveError))
          else claim_covered_seasons did rid (gp_guards p)))
      (\<lambda>_. amid {} h claim (moved_or_not p h did True)) (halt {} h claim)" for now
  proof (rule does_andthen[OF g_move_targets[OF lenient_halt]], rule does_If)
    fix ok
    show "does (amid {} h claim (\<lambda>db. ok \<longrightarrow> carried did h rid ({n} \<union> set ?more) ({n} \<union> set ?more) {} db))
      (andthen (undo ge) (\<lambda>_. andthen (remove_torrent_if_added ge h claim) (\<lambda>_. fail RequestNotActiveError)))
      (\<lambda>_. amid {} h claim (moved_or_not p h did True)) (halt {} h claim)"
      by (rule does_pre[OF does_andthen[OF g_undo_base[OF c] g_cleanup_fail[OF c lenient_halt]]]) (auto dest: amid_base)
    assume "\<not> \<not> ok"
    then have pre: "(\<lambda>db. ok \<longrightarrow> carried did h rid ({n} \<union> set ?more) ({n} \<union> set ?more) {} db)
        = carried did h rid ?all ?all {}" by (simp add: fun_eq_iff)
    show "does (amid {} h claim (\<lambda>db. ok \<longrightarrow> carried did h rid ({n} \<union> set ?more) ({n} \<union> set ?more) {} db))
      (claim_covered_seasons did rid (gp_guards p)) (\<lambda>_. amid {} h claim (moved_or_not p h did True)) (halt {} h claim)"
      unfolding pre
    proof (rule does_post[OF g_claim_covered[OF lenient_halt]])
      fix x :: unit and a b i t
      assume "amid {} h claim (carried did h rid ?all ?all {t. Some t \<in> set (gp_guards p)}) a b i t"
      then show "amid {} h claim (moved_or_not p h did True) a b i t"
        unfolding amid_def moved_or_not_def by (auto dest!: carried_committed[OF p])
    qed
  qed
  have handler: "does (halt {} h claim integ) (reuse_conflict ge p h claim)
      (\<lambda>_. amid {} h claim (moved_or_not p h did True)) given_up"
    by (rule does_pre[OF g_reuse_conflict[OF c G]]) (simp add: halt_def)
  have caught: "e \<noteq> integ \<Longrightarrow> halt {} h claim e a b i t \<Longrightarrow> harmless t" for e a b i t
    by (simp add: halt_def)
  show ?thesis unfolding start_season_def
  proof (rule does_andthen[OF w1], rule does_andthen[OF w2], rule does_If)
    fix moved
    show "\<not> moved \<Longrightarrow> does (amid {} h claim (\<lambda>db. moved \<longrightarrow> carried did h rid {n} {n} {} db)) (ret False)
        (\<lambda>moved. amid {} h claim (moved_or_not p h did moved)) given_up"
      by (rule does_ret) (simp add: amid_def moved_or_not_def)
    assume "\<not> \<not> moved"
    then have m: "(\<lambda>db. moved \<longrightarrow> carried did h rid {n} {n} {} db) = carried did h rid {n} {n} {}" by simp
    show "does (amid {} h claim (\<lambda>db. moved \<longrightarrow> carried did h rid {n} {n} {} db)) (andthen (on_integrity
         (andthen (move_targets (now_at (ge_base ge)) p did rid n (\<lambda>_. PACK_TARGET_SEASON_STATUS_VALUES) ?more) (\<lambda>all_moved.
          if \<not> all_moved
          then andthen (undo ge) (\<lambda>_. andthen (remove_torrent_if_added ge h claim) (\<lambda>_. fail RequestNotActiveError))
          else claim_covered_seasons did rid (gp_guards p)))
         (reuse_conflict ge p h claim)) (\<lambda>_. ret True))
        (\<lambda>moved. amid {} h claim (moved_or_not p h did moved)) given_up"
      unfolding m by (rule does_andthen[OF does_catch[OF body handler caught]], assumption+, rule does_ret)
  qed
qed

lemma g_start_request:
  assumes c: "calm ge" and p: "gp_request_id p = Some rid"
  shows "does (amid {} h claim (held_row p did h)) (start_request ge p rid h did claim)
    (\<lambda>moved. amid {} h claim (moved_or_not p h did moved)) given_up"
proof (cases "gp_season p")
  case None
  have "does (amid {} h claim (held_row p did h)) (write_verb (set_status_if_in_req rid ''downloading'' (request_from p) False False))
    (\<lambda>moved. amid {} h claim (moved_or_not p h did moved)) given_up"
  proof (rule g_write[OF lenient_given_up])
    fix b moved b' assume a: "sound_db b" "held_row p did h b"
      "set_status_if_in_req rid ''downloading'' (request_from p) False False b = Inr (moved, b')"
    note e = request_swap_effect[OF a(1,3)]
    have own: "own_row p did h b'" using held_frame[OF a(2) e(2)] by (simp add: held_row_def)
    then have "moved \<Longrightarrow> grab_committed p h b'"
      using e(3) p None by (auto simp: own_row_def grab_committed_def list_ex_iff)
    then show "sound_db b' \<and> moved_or_not p h did moved b'"
      using e(1) live_row_at[OF own_row_live[OF own]] by (simp add: moved_or_not_def)
  qed
  then show ?thesis by (simp add: start_request_def None)
next
  case (Some n)
  then show ?thesis using g_start_season[OF c p Some] by (simp add: start_request_def)
qed

lemma g_settle:
  assumes c: "calm ge"
  shows "does (standing h p x) (settle_grab ge p h x) (\<lambda>_ _ _ _ t. succeeded p h t) given_up"
proof (cases x)
  case (Joined r)
  then show ?thesis by (auto simp: settle_grab_def standing_def intro!: does_ret)
next
  case (Holding rec claim)
  note G = lenient_given_up
  let ?did = "d_id (fst rec)"
  have w: "does (amid {} h claim (held_row p ?did h)) (write_verb (record_grabbed p h))
      (\<lambda>_. amid {} h claim (held_row p ?did h)) given_up"
    by (rule g_write[OF G]) (use record_grabbed_effect held_frame in blast)
  have m: "does (amid {} h claim (held_row p ?did h)) (case gp_request_id p of None \<Rightarrow> ret True
      | Some rid \<Rightarrow> start_request ge p rid h ?did claim) (\<lambda>moved. amid {} h claim (moved_or_not p h ?did moved)) given_up"
  proof (cases "gp_request_id p")
    case None
    have "held_row p ?did h db \<Longrightarrow> moved_or_not p h ?did True db" for db
      using None by (auto simp: held_row_def moved_or_not_def grab_committed_def own_row_def row_at_def list_ex_iff)
    then show ?thesis using None by (auto intro!: does_ret simp: amid_def)
  qed (simp add: g_start_request[OF c])
  have fin: "does (amid {} h claim (moved_or_not p h ?did moved))
      (if \<not> moved
        then andthen (undo ge) (\<lambda>_. andthen (remove_torrent_if_added ge h claim) (\<lambda>_. fail RequestNotActiveError))
        else andthen (commit_verb (ge_base ge)) (\<lambda>_. andthen (look_up ge h) (\<lambda>refreshed.
          ret (case refreshed of None \<Rightarrow> rec | Some r \<Rightarrow> r)))) (\<lambda>_ _ _ _ t. succeeded p h t) given_up" for moved
  proof (rule does_If)
    show "does (amid {} h claim (moved_or_not p h ?did moved))
        (andthen (undo ge) (\<lambda>_. andthen (remove_torrent_if_added ge h claim) (\<lambda>_. fail RequestNotActiveError)))
        (\<lambda>_ _ _ _ t. succeeded p h t) given_up"
      by (rule does_pre[OF does_andthen[OF g_undo_base[OF c] g_cleanup_fail[OF c G]]]) (auto dest: amid_base)
    assume "\<not> \<not> moved"
    then have eq: "moved_or_not p h ?did moved = (\<lambda>db. grab_committed p h db \<and> row_at ?did h db)"
      by (simp add: moved_or_not_def fun_eq_iff)
    have fresh: "does (\<lambda>a b i t. ended p h t \<and> x \<noteq> None) (ret (case x of None \<Rightarrow> rec | Some r \<Rightarrow> r))
        (\<lambda>_ _ _ _ t. succeeded p h t) given_up" for x :: "download_record option"
      by (rule does_ret) (simp add: succeeded_def)
    show "does (amid {} h claim (moved_or_not p h ?did moved)) (andthen (commit_verb (ge_base ge)) (\<lambda>_.
        andthen (look_up ge h) (\<lambda>refreshed. ret (case refreshed of None \<Rightarrow> rec | Some r \<Rightarrow> r))))
        (\<lambda>_ _ _ _ t. succeeded p h t) given_up"
      unfolding eq by (rule does_andthen[OF g_commit[OF c]], rule does_andthen[OF g_after_commit[OF c] fresh])
  qed
  have "does (amid {} h claim (held_row p ?did h)) (settle_grab ge p h x) (\<lambda>_ _ _ _ t. succeeded p h t) given_up"
    unfolding settle_grab_def Holding grab_row.case
    by (rule does_andthen[OF w], rule does_andthen[OF m], rule fin)
  then show ?thesis by (rule does_pre) (simp add: standing_def Holding)
qed

end
