(* ===== verification/GrabSafety.thy ===== *)
theory GrabSafety
  imports GrabOutcome
begin

text \<open>A grab as a whole: the gate, the look at the known hash, the add, and what follows it.\<close>

section \<open>The gate\<close>

definition planned :: "grab_call \<Rightarrow> grab_plan \<Rightarrow> bool" where
  "planned gc p \<longleftrightarrow> gp_request_id p = gc_request_id gc \<and> (case gp_season p of
      None \<Rightarrow> gp_media_type p \<noteq> Some ''tv''
    | Some n \<Rightarrow> gc_season gc = Some n \<and> gp_targets p = planned_target_seasons (gc_scored gc) (Some n)
        \<and> gp_guards p = active_guard_seasons (gc_scored gc) (Some n) (gp_targets p))"

definition planned_base :: "grab_call \<Rightarrow> grab_plan \<Rightarrow> desk_pred" where
  "planned_base gc p a b i t \<longleftrightarrow> planned gc p \<and> list_all inert t"

definition idle :: desk_pred where
  "idle a b i t \<longleftrightarrow> list_all inert t"

lemma idle_base: "idle = base {} h False"
  by (simp add: fun_eq_iff idle_def base_def rows_at_def)

lemma plan_for_planned:
  "planned gc (plan_for gc source None None None (gc_season gc) (gc_episodes gc))"
  "mt \<noteq> ''tv'' \<Longrightarrow> planned gc (plan_for gc source (Some mt) st ob None eps)"
  "gc_season gc = Some n \<Longrightarrow> planned gc (plan_for gc source mt' st ob (Some n) eps)"
  by (simp_all add: planned_def plan_for_def Let_def split: option.splits)

lemma g_gate:
  assumes "calm ge"
  shows "does idle (grab_gate ge gc source) (\<lambda>p a b i t. idle a b i t \<and> planned gc p) given_up"
proof -
  let ?Q = "\<lambda>p a b i t. idle a b i t \<and> planned gc p"
  note read = g_read_base[OF assms lenient_given_up, of "{}" h False for h, folded idle_base]
  have plan: "planned gc p \<Longrightarrow> does idle (ret p) ?Q given_up" for p by (rule does_ret) simp
  have no: "does idle (fail e) ?Q given_up" for e
    by (rule does_fail) (simp add: idle_def harmless_inert)
  show ?thesis unfolding grab_gate_def Let_def
    by (intro does_option does_andthen[OF read] does_If plan no plan_for_planned; simp)
qed

section \<open>The known hash\<close>

text \<open>The hash is the one the indexer gave or the one the client answered to this call's add.\<close>

definition hash_of_grab :: "string option \<Rightarrow> string \<Rightarrow> verb_event list \<Rightarrow> bool" where
  "hash_of_grab kn h t \<longleftrightarrow> kn = Some h \<or> TorrentAdded h True \<in> set t \<or> TorrentAdded h False \<in> set t"

definition some_success :: "string option \<Rightarrow> grab_plan \<Rightarrow> desk_pred" where
  "some_success kn p a b i t \<longleftrightarrow> (\<exists>h. succeeded p h t \<and> hash_of_grab kn h t)"

lemma g_precheck:
  assumes c: "calm ge"
  shows "does idle (precheck k ge p h) (\<lambda>x. case x of None \<Rightarrow> idle | Some _ \<Rightarrow> some_success (Some h) p) given_up"
proof -
  let ?Q = "\<lambda>x. case x of None \<Rightarrow> idle | Some (_ :: download_record) \<Rightarrow> some_success (Some h) p"
  note G = lenient_given_up
  have idle: "base S h False a b i t \<Longrightarrow> idle a b i t" for S a b i t by (simp add: idle_def base_def)
  have none: "does (base S h False) (ret None) ?Q given_up" for S
    by (rule does_ret) (simp add: idle)
  have live: "does (base (insert (d_id (fst pre)) {}) h False) (if owned_elsewhere p pre then already_tracked h pre
        else case (gp_request_id p, gp_season p) of
          (Some rid, Some n) \<Rightarrow> andthen (attach k ge p False False pre) (\<lambda>attached. case attached of
              Some x \<Rightarrow> ret (Some x)
            | None \<Rightarrow> andthen (refuse_unsafe_attachment_loss_recovery ge p rid n h (d_id (fst pre))) (\<lambda>_. ret None))
        | _ \<Rightarrow> ret (Some pre)) ?Q given_up" if h: "d_torrent_hash (fst pre) = h" for pre
  proof (rule does_If, rule g_tracked[OF G])
    have plain: "does (base (insert (d_id (fst pre)) {}) h False) (ret (Some pre)) ?Q given_up"
      by (rule does_ret) (auto simp: some_success_def hash_of_grab_def intro: base_succeeded)
    have att: "does (base (insert (d_id (fst pre)) {}) h False) (andthen (attach k ge p False False pre) (\<lambda>attached.
        case attached of Some x \<Rightarrow> ret (Some x)
            | None \<Rightarrow> andthen (refuse_unsafe_attachment_loss_recovery ge p rid n h (d_id (fst pre))) (\<lambda>_. ret None))) ?Q given_up"
      for rid n
    proof (rule does_andthen[OF g_attach[OF c G h]])
      fix x
      have lost: "does (base {} h False) (andthen (refuse_unsafe_attachment_loss_recovery ge p rid n h (d_id (fst pre)))
          (\<lambda>_. ret None)) ?Q given_up"
        by (rule does_andthen[OF g_refuse_unsafe[OF c G] none])
      show "does (attached {} h False p x) (case x of Some x \<Rightarrow> ret (Some x)
            | None \<Rightarrow> andthen (refuse_unsafe_attachment_loss_recovery ge p rid n h (d_id (fst pre))) (\<lambda>_. ret None)) ?Q given_up"
      proof (cases x)
        case None
        have "does (attached {} h False p None) (andthen (refuse_unsafe_attachment_loss_recovery ge p rid n h (d_id (fst pre)))
          (\<lambda>_. ret None)) ?Q given_up" by (rule does_pre[OF lost]) (simp add: attached_def)
        then show ?thesis using None by simp
      qed (auto intro!: does_ret simp: attached_def some_success_def hash_of_grab_def)
    qed
    show "does (base (insert (d_id (fst pre)) {}) h False) (case (gp_request_id p, gp_season p) of
          (Some rid, Some n) \<Rightarrow> andthen (attach k ge p False False pre) (\<lambda>attached. case attached of
              Some x \<Rightarrow> ret (Some x)
            | None \<Rightarrow> andthen (refuse_unsafe_attachment_loss_recovery ge p rid n h (d_id (fst pre))) (\<lambda>_. ret None))
        | _ \<Rightarrow> ret (Some pre)) ?Q given_up"
      using plain att by (auto split: option.splits)
  qed
  have found: "does (base (insert (d_id (fst pre)) {}) h False) (if row_finished pre
        then andthen (removing_now ge (d_id (fst pre))) (\<lambda>removing.
          if removing then fail (TorrentRemovalInFlightError h (d_id (fst pre))) else ret None)
        else if owned_elsewhere p pre then already_tracked h pre
        else case (gp_request_id p, gp_season p) of
          (Some rid, Some n) \<Rightarrow> andthen (attach k ge p False False pre) (\<lambda>attached. case attached of
              Some x \<Rightarrow> ret (Some x)
            | None \<Rightarrow> andthen (refuse_unsafe_attachment_loss_recovery ge p rid n h (d_id (fst pre))) (\<lambda>_. ret None))
        | _ \<Rightarrow> ret (Some pre)) ?Q given_up" if h: "d_torrent_hash (fst pre) = h" for pre
    by (rule does_If, intro does_andthen[OF g_removing] does_If g_fail[OF G] none, rule live[OF h])
  show ?thesis unfolding precheck_def idle_base[of h]
    by (rule does_andthen[OF g_look_up[OF c G]], rule g_known[OF none found, unfolded idle_base[of h]])
qed

section \<open>A trace only grows\<close>

named_theorems grow_rules

definition grows :: "'a verb \<Rightarrow> bool" where
  "grows m \<longleftrightarrow> (\<forall>d. set (dk_trace d) \<subseteq> set (dk_trace (snd (m d))))"

lemma growsD: "grows m \<Longrightarrow> e \<in> set (dk_trace d) \<Longrightarrow> e \<in> set (dk_trace (snd (m d)))"
  by (auto simp: grows_def)

lemma grow_basic [grow_rules]: "grows (ret x)" "grows (fail e)" "grows (emit e')" "grows (call m)" "grows (at_tick f)"
  by (auto simp: grows_def ret_def fail_def emit_def call_def at_tick_def split: prod.splits sum.splits)

lemma grow_andthen [grow_rules]: "grows m \<Longrightarrow> (\<And>x. grows (f x)) \<Longrightarrow> grows (andthen m f)"
  by (fastforce simp: grows_def andthen_def split: prod.splits sum.splits)

lemma grow_lastly [grow_rules]: "grows m \<Longrightarrow> grows c \<Longrightarrow> grows (lastly m c)"
  by (fastforce simp: grows_def lastly_def split: prod.splits sum.splits)

lemma grow_integrity [grow_rules]: "grows m \<Longrightarrow> grows c \<Longrightarrow> grows (on_integrity m c)"
  by (fastforce simp: grows_def on_integrity_def split: prod.splits sum.splits)

lemma grow_cases [grow_rules]:
  "(b \<Longrightarrow> grows m) \<Longrightarrow> (\<not> b \<Longrightarrow> grows n) \<Longrightarrow> grows (if b then m else n)"
  "grows m \<Longrightarrow> (\<And>y. grows (g y)) \<Longrightarrow> grows (case x of None \<Rightarrow> m | Some y \<Rightarrow> g y)"
  "(\<And>a b. grows (k a b)) \<Longrightarrow> grows (case z of (a, b) \<Rightarrow> k a b)"
  "(\<And>a. grows (u a)) \<Longrightarrow> (\<And>b. grows (v b)) \<Longrightarrow> grows (case w of Inl a \<Rightarrow> u a | Inr b \<Rightarrow> v b)"
  by (simp_all split: option.splits prod.splits sum.splits)

lemma grow_each [grow_rules]: "(\<And>x. grows (f x)) \<Longrightarrow> grows (each f xs)"
  by (induction xs) (auto intro: grow_rules)

lemma grow_steps [grow_rules]:
  "grows (wait ve)" "grows (undo ge)" "grows (read_verb ve g)" "grows (write_verb m)" "grows (look_up ge h)"
  "grows (removing_now ge did)" "grows (ask_client ge f)" "grows (already_tracked h row)"
  unfolding wait_def undo_def read_verb_def write_verb_def look_up_def removing_now_def ask_client_def already_tracked_def
  by (intro grow_rules | simp add: wait_def)+

lemma grow_commit [grow_rules]: "grows (commit_verb ve)"
proof -
  have "grows (andthen (emit e) (\<lambda>_. call (commit (ve_su ve))))" for e by (intro grow_rules)
  then show ?thesis by (simp add: grows_def commit_verb_def)
qed

lemma grow_conflict [grow_rules]: "grows (active_conflict_for_targets ge request seasons h)"
proof -
  have "grows (conflict_for ge rid h ns)" for rid ns
    by (induction ns) (auto intro!: grow_rules)
  then show ?thesis unfolding active_conflict_for_targets_def by (intro grow_rules)
qed

lemma grow_cleanup [grow_rules]: "grows (remove_torrent_if_added ge h c)"
  unfolding remove_torrent_if_added_def remove_torrent_def by (intro grow_rules)

lemma grow_move [grow_rules]: "grows (move_targets now p did rid primary from_statuses ns)"
  by (induction ns) (auto intro!: grow_rules)

lemma grow_parts [grow_rules]:
  "grows (attached_target_scopes ge p did rid n targets)" "grows (converge_on_same_hash_owner ge p rid n targets row)"
  "grows (claim_covered_seasons did rid guards)" "grows (scope_still_grabbable ge rid n)"
  unfolding attached_target_scopes_def converge_on_same_hash_owner_def claim_covered_seasons_def scope_still_grabbable_def Let_def
  by (intro grow_rules)+

lemma grow_attach_parts [grow_rules]:
  "grows (resolve_same_hash_owner ge p rid n targets h has_client c)"
  "(\<And>row. grows (again row)) \<Longrightarrow> grows (attach_collision again ge p rid n targets guards h has_client c)"
  unfolding resolve_same_hash_owner_def attach_collision_def Let_def by (intro grow_rules; assumption?)+

lemma grow_attach [grow_rules]: "grows (attach k ge p has_client c row)"
proof (induction k arbitrary: row)
  case (Suc k)
  show ?case unfolding attach.simps attach_once_def Let_def by (intro grow_rules Suc.IH)
qed (simp add: grow_rules)

lemma grow_recover [grow_rules]:
  "grows (refuse_unsafe_attachment_loss_recovery ge p rid n h did)"
  "grows (surviving_claim_after_attachment_loss ge p rid n h did)"
  "grows (reuse_terminal_row ge p did h c i)" "grows (reuse_conflict ge p h c)"
  unfolding surviving_claim_after_attachment_loss_def refuse_unsafe_attachment_loss_recovery_def reuse_terminal_row_def
    reuse_conflict_def by (intro grow_rules)+

lemma grow_reuse_loop [grow_rules]: "grows (reuse_loop k ge p did h c i)"
proof (induction k arbitrary: c)
  case (Suc k)
  show ?case unfolding reuse_loop.simps by (intro grow_rules Suc.IH)
qed (simp add: grow_rules)

lemma grow_insert [grow_rules]: "grows (insert_download k ge p h c i)"
  unfolding insert_download_def create_collision_def by (intro grow_rules)

lemma grow_settle [grow_rules]: "grows (settle_grab ge p h x)"
proof (cases x)
  case (Holding rec claim)
  show ?thesis unfolding settle_grab_def start_request_def start_season_def Holding grab_row.case by (intro grow_rules)
qed (simp add: settle_grab_def grow_rules)

lemma grow_track [grow_rules]: "grows (track k ge p h add_result)"
  unfolding track_def already_active_def held_orphan_intent_def Let_def by (intro grow_rules)

lemma does_grows:
  assumes "grows m" "does P m Q E"
  shows "does (\<lambda>a b i t. P a b i t \<and> e \<in> set t) m (\<lambda>x a b i t. Q x a b i t \<and> e \<in> set t) E"
proof (rule doesI)
  fix d assume "at_desk (\<lambda>a b i t. P a b i t \<and> e \<in> set t) d"
  then have d: "at_desk P d" and e: "e \<in> set (dk_trace d)" by (auto simp: at_desk_def)
  show "case m d of (Inr x, d') \<Rightarrow> at_desk (\<lambda>a b i t. Q x a b i t \<and> e \<in> set t) d' | (Inl e', d') \<Rightarrow> at_desk (E e') d'"
    using does_Inr[OF assms(2) d] does_Inl[OF assms(2) d] growsD[OF assms(1) e]
    by (cases "m d"; cases "fst (m d)") (auto simp: at_desk_def)
qed

section \<open>After the add\<close>

lemma g_orphan:
  assumes "calm ge" "lenient S h c E"
  shows "does (base S h c) (held_orphan_intent ge h) (\<lambda>_. base S h c) E"
  unfolding held_orphan_intent_def
  by (intro does_andthen[OF g_ask[OF assms]] does_option does_If does_ret does_andthen[OF does_If])
    (intro does_andthen[OF g_ask[OF assms]] does_ret does_If | assumption)+

lemma g_track:
  assumes c: "calm ge"
  shows "does (base {} h (ar_created add_result)) (track k ge p h add_result) (\<lambda>_ _ _ _ t. succeeded p h t) given_up"
proof -
  note G = lenient_given_up
  let ?S = "\<lambda>found. case found of None \<Rightarrow> {} | Some row \<Rightarrow> {d_id (fst (row :: download_record))}"
  let ?Q = "\<lambda>found x. case x of Inl (_ :: download_record) \<Rightarrow> (\<lambda>_ _ _ t. succeeded p h t) | Inr claim \<Rightarrow> base (?S found) h claim"
  have active: "does (known_row {} h created found) (already_active k ge p h created found) (?Q found) given_up" for created found
  proof (cases found)
    case None
    then show ?thesis by (auto simp: already_active_def known_row_def intro!: does_ret)
  next
    case (Some row)
    let ?T = "{d_id (fst row)}"
    have live: "does (base ?T h created) (if owned_elsewhere p row then already_tracked h row
        else case (gp_request_id p, gp_season p) of
          (Some rid, Some n) \<Rightarrow> andthen (attach k ge p True created row) (\<lambda>attached. case attached of
              Some x \<Rightarrow> ret (Inl x)
            | None \<Rightarrow> andthen (surviving_claim_after_attachment_loss ge p rid n h (d_id (fst row))) (\<lambda>claim. ret (Inr claim)))
        | _ \<Rightarrow> ret (Inl row)) (?Q (Some row)) given_up" if h: "d_torrent_hash (fst row) = h"
      by (rule g_join[OF c h _ G]) (auto intro!: does_ret)
    have "does (\<lambda>a b i t. base ?T h created a b i t \<and> d_torrent_hash (fst row) = h)
        (already_active k ge p h created (Some row)) (?Q (Some row)) given_up"
      unfolding already_active_def option.case
      by (rule does_pure, rule does_If, rule does_ret, simp, rule live[unfolded option.case])
    then have "does (known_row {} h created (Some row)) (already_active k ge p h created (Some row)) (?Q (Some row)) given_up"
      by (rule does_pre) (simp add: known_row_def)
    then show ?thesis unfolding Some .
  qed
  have go: "does (base (?S found) h claim) (andthen (case found of
               Some row \<Rightarrow> reuse_loop k ge p (d_id (fst row)) h claim i
             | None \<Rightarrow> insert_download k ge p h claim i) (\<lambda>outcome. settle_grab ge p h outcome)) (\<lambda>_ _ _ _ t. succeeded p h t) given_up"
    for found claim i
  proof (rule does_andthen[OF _ g_settle[OF c]])
    show "does (base (?S found) h claim) (case found of
               Some row \<Rightarrow> reuse_loop k ge p (d_id (fst row)) h claim i
             | None \<Rightarrow> insert_download k ge p h claim i) (standing h p) given_up"
      by (cases found) (simp_all add: g_insert_row[OF c] g_reuse_loop[OF c])
  qed
  have rest: "does (?Q found x) (case x of
       Inl record \<Rightarrow> ret record
     | Inr claim \<Rightarrow>
         andthen (active_conflict_for_targets ge (gp_request_id p) (gp_guards p) h) (\<lambda>active.
         if active \<noteq> None
         then andthen (remove_torrent_if_added ge h claim) (\<lambda>_. fail AlreadyDownloadingError)
         else let tracked = (case found of None \<Rightarrow> False | Some row \<Rightarrow> \<not> row_finished row);
                  resume = (ar_payload_pending add_result \<and> ar_created add_result) in
           andthen (if ar_payload_pending add_result \<and> \<not> resume \<and> \<not> tracked then held_orphan_intent ge h
                    else ret (resume, False)) (\<lambda>(payload_resume, payload_force_start).
           let i = \<lparr>pi_pending = ar_payload_pending add_result, pi_resume = payload_resume,
                     pi_force_start = payload_force_start\<rparr> in
           andthen (case found of
               Some row \<Rightarrow> reuse_loop k ge p (d_id (fst row)) h claim i
             | None \<Rightarrow> insert_download k ge p h claim i) (\<lambda>outcome. settle_grab ge p h outcome)))) (\<lambda>_ _ _ _ t. succeeded p h t) given_up"
    for x found
  proof (cases x)
    case (Inl r)
    then show ?thesis by (auto intro!: does_ret)
  next
    case (Inr claim)
    have orphan: "does (base (?S found) h claim) (if b then held_orphan_intent ge h else ret (resume, False))
        (\<lambda>_. base (?S found) h claim) given_up" for b resume
      by (intro does_If g_orphan[OF c G] does_ret)
    show ?thesis unfolding Inr sum.case Let_def
      by (rule does_andthen[OF g_conflict[OF c G]], rule does_If, rule g_cleanup_fail[OF c G], simp,
          rule does_andthen[OF orphan]) (use go in \<open>simp add: split_beta\<close>)
  qed
  show ?thesis unfolding track_def
    by (rule does_andthen[OF g_look_up[OF c G]], rule does_andthen[OF active], rule rest)
qed

lemma g_add:
  assumes c: "calm ge"
  shows "does idle (add_and_track k ge p kn) (\<lambda>_. some_success kn p) given_up"
proof -
  have ask: "does idle (ask_client ge f) (\<lambda>_. idle) given_up" for f :: "nat \<Rightarrow> AddResult option"
    using g_ask[OF c lenient_given_up, of "{}" "[]" False] by (simp add: idle_base[symmetric])
  have added: "does idle (emit (TorrentAdded h created)) (\<lambda>_ a b i t. base {} h created a b i t \<and> TorrentAdded h created \<in> set t) given_up" for h created
    by (rule does_emit) (simp add: idle_def base_def rows_at_def)
  let ?P = "\<lambda>h created a b i t. base {} h created a b i t \<and> TorrentAdded h created \<in> set t"
  have track: "does (?P h (ar_created add_result)) (if h = [] then fail e else track k ge p h add_result)
      (\<lambda>_. some_success kn p) given_up" for h add_result e
  proof (rule does_If)
    show "does (?P h (ar_created add_result)) (fail e) (\<lambda>_. some_success kn p) given_up"
      by (rule does_fail) (auto dest: base_harmless)
    show "does (?P h (ar_created add_result)) (track k ge p h add_result) (\<lambda>_. some_success kn p) given_up"
      by (rule does_post[OF does_grows[OF grow_track g_track[OF c]]])
        (cases "ar_created add_result"; auto simp: some_success_def hash_of_grab_def)
  qed
  show ?thesis unfolding add_and_track_def Let_def
    by (rule does_andthen[OF ask], rule does_andthen[OF added], rule track)
qed

lemma g_parallel: "calm ge \<Longrightarrow> does idle (parallel_guard ge p kn) (\<lambda>_. idle) given_up"
  unfolding parallel_guard_def
  by (intro does_option does_ret does_andthen[OF g_conflict[OF _ lenient_given_up, of ge "{}" "[]" False, folded idle_base]] does_If)
    (auto intro!: does_fail simp: idle_def harmless_inert)

text \<open>How a grab may end well: by joining a torrent that is tracked already, or by one commit, its last act.\<close>

definition grab_done :: "grab_call \<Rightarrow> verb_event list \<Rightarrow> bool" where
  "grab_done gc t \<longleftrightarrow> (\<exists>p h. planned gc p \<and> hash_of_grab (known_hash gc) h t \<and> succeeded p h t)"

lemma g_grab:
  assumes c: "calm ge"
  shows "does idle (grab k ge gc) (\<lambda>_ _ _ _ t. grab_done gc t) given_up"
proof -
  let ?Q = "\<lambda>_ _ _ _ t. grab_done gc t"
  let ?kn = "known_hash gc"
  have pre: "does idle (case ?kn of None \<Rightarrow> ret None | Some h \<Rightarrow> precheck k ge p h)
      (\<lambda>x. case x of None \<Rightarrow> idle | Some _ \<Rightarrow> some_success ?kn p) given_up" for p
  proof (cases ?kn)
    case (Some h)
    then show ?thesis unfolding Some option.case using g_precheck[OF c] by simp
  qed (auto intro!: does_ret)
  have rest: "does (case x of None \<Rightarrow> idle | Some _ \<Rightarrow> some_success ?kn p) (case x of
            Some r \<Rightarrow> ret r
          | None \<Rightarrow> andthen (parallel_guard ge p ?kn) (\<lambda>_. add_and_track k ge p ?kn)) ?Q given_up"
    if p: "planned gc p" for x :: "download_record option" and p
  proof (cases x)
    case None
    have "does idle (andthen (parallel_guard ge p ?kn) (\<lambda>_. add_and_track k ge p ?kn)) ?Q given_up"
      by (rule does_andthen[OF g_parallel[OF c]], rule does_post[OF g_add[OF c]])
        (use p in \<open>auto simp: some_success_def grab_done_def\<close>)
    then show ?thesis using None by simp
  next
    case (Some y)
    have "does (some_success ?kn p) (ret y) ?Q given_up"
      by (rule does_ret) (use p in \<open>unfold some_success_def grab_done_def, blast\<close>)
    then show ?thesis using Some by simp
  qed
  have run: "does (\<lambda>a b i t. idle a b i t \<and> planned gc p) (andthen (case ?kn of None \<Rightarrow> ret None | Some h \<Rightarrow> precheck k ge p h)
      (\<lambda>answer. case answer of Some r \<Rightarrow> ret r
          | None \<Rightarrow> andthen (parallel_guard ge p ?kn) (\<lambda>_. add_and_track k ge p ?kn))) ?Q given_up" for p
    by (rule does_pure, rule does_andthen[OF pre], rule rest)
  show ?thesis unfolding grab_def Let_def
    by (rule does_option, rule does_fail, simp add: idle_def harmless_inert, rule does_andthen[OF g_gate[OF c] run])
qed

section \<open>The promises\<close>

text \<open>
  C14: a grab is all or nothing. Whatever other sessions commit while it waits (as long as they keep the
  tables sound and neither delete a download row nor change its hash), whatever the client answers and
  whatever fuel it has: a grab that fails has committed nothing, and every torrent it removed had been
  created by its own add before; a grab that returns has removed nothing, and its only commit, if any, is the
  last thing it did.
\<close>

theorem grab_all_or_nothing:
  assumes "sound_others (ge_base ge)" "rows_stay (ge_base ge)" "sound_db (ss_saved (dk_session d))"
    "sound_db (ss_db (dk_session d))" "dk_trace d = []" and run: "grab k ge gc d = (r, d')"
  shows "case r of Inl e \<Rightarrow> list_all (\<lambda>e. \<not> is_commit e) (dk_trace d') \<and> removes_own (dk_trace d')
    | Inr x \<Rightarrow> list_all inert (dk_trace d') \<or> (\<exists>u a b. dk_trace d' = u @ [Committed a b] \<and> list_all inert u)"
proof -
  have d: "calm ge" "at_desk idle d" using assms by (simp_all add: calm_def at_desk_def idle_def)
  note fin = does_Inl[OF g_grab[OF d(1)] d(2), of k gc] does_Inr[OF g_grab[OF d(1)] d(2), of k gc]
  show ?thesis
  proof (cases r)
    case (Inl e)
    then show ?thesis using fin(1)[of e d'] run by (auto simp: at_desk_def harmless_def)
  next
    case (Inr x)
    then show ?thesis using fin(2)[of x d'] run by (auto simp: at_desk_def grab_done_def succeeded_def ended_def)
  qed
qed

text \<open>
  C15: what a grab commits is complete. The one transaction of a grab leaves a live download row with the hash
  the indexer or the client gave. For a movie the row is owned by the request, which is downloading. For a show
  every target season of the release is downloading with an active scope of the request on that row, and every season
  the torrent covers is claimed by that row for the request, so no later grab of one of them can pass unnoticed. The
  row of a show may meanwhile belong to another request: its owner is looked at when the row is found, and not again
  when it is locked (\<open>lock_if_active\<close>), so a session that re-owns the row in between is not noticed.
\<close>

theorem grab_commit_complete:
  assumes "sound_others (ge_base ge)" "rows_stay (ge_base ge)" "sound_db (ss_saved (dk_session d))"
    "sound_db (ss_db (dk_session d))" "dk_trace d = []" and run: "grab k ge gc d = (r, d')"
    and com: "Committed a b \<in> set (dk_trace d')"
  shows "\<exists>x p h. r = Inr x \<and> planned gc p \<and> hash_of_grab (known_hash gc) h (dk_trace d') \<and> grab_committed p h b"
proof -
  have d: "calm ge" "at_desk idle d" using assms by (simp_all add: calm_def at_desk_def idle_def)
  note fin = does_Inl[OF g_grab[OF d(1)] d(2), of k gc] does_Inr[OF g_grab[OF d(1)] d(2), of k gc]
  show ?thesis
  proof (cases r)
    case (Inl e)
    then have "harmless (dk_trace d')" using fin(1)[of e d'] run by (simp add: at_desk_def)
    then show ?thesis using com by (auto simp: harmless_def list_all_iff is_commit_def)
  next
    case (Inr x)
    then have "grab_done gc (dk_trace d')" using fin(2)[of x d'] run by (simp add: at_desk_def)
    then obtain p h where p: "planned gc p" "hash_of_grab (known_hash gc) h (dk_trace d')" "succeeded p h (dk_trace d')"
      by (auto simp: grab_done_def)
    then have "ended p h (dk_trace d')" using com by (auto simp: succeeded_def list_all_iff)
    then have "grab_committed p h b" using com by (fastforce simp: ended_def list_all_iff)
    then show ?thesis using p Inr by blast
  qed
qed

end
