(* ===== verification/WithdrawLaws.thy ===== *)
theory WithdrawLaws
  imports CancelLaws
begin

text \<open>
  Withdrawing from a shared request. Every transaction it commits is fair to the others: nobody else's
  participation changes, an owner stays a participant, and a request that is still active never loses its
  last participant.
\<close>

section \<open>Fair transactions\<close>

definition owners_take_part :: "app_db \<Rightarrow> bool" where
  "owners_take_part db \<longleftrightarrow> (\<forall>r \<in> set (a_requests db). \<forall>u. q_user_id r = Some u \<longrightarrow> is_subscriber db (q_id r) u)"

definition fair :: "int \<Rightarrow> int \<Rightarrow> app_db \<Rightarrow> app_db \<Rightarrow> bool" where
  "fair rid user a b \<longleftrightarrow> (owners_take_part a \<longrightarrow> owners_take_part b)
     \<and> (\<forall>r \<in> set (a_requests b). q_status r \<notin> set SETTLED_REQUEST_STATUS_VALUES \<longrightarrow>
          (\<exists>u. is_subscriber a (q_id r) u) \<longrightarrow> (\<exists>u. is_subscriber b (q_id r) u))
     \<and> (\<forall>i u. i \<noteq> rid \<or> u \<noteq> user \<longrightarrow> is_subscriber b i u = is_subscriber a i u)"

definition fair_trace :: "int \<Rightarrow> int \<Rightarrow> verb_event list \<Rightarrow> bool" where
  "fair_trace rid user t \<longleftrightarrow> (\<forall>a b. Committed a b \<in> set t \<longrightarrow> fair rid user a b)"

lemma same_people_fair: "people b = people a \<Longrightarrow> fair rid user a b"
proof -
  assume p: "people b = people a"
  have subs: "is_subscriber b = is_subscriber a" using p by (auto simp: fun_eq_iff is_subscriber_def people_def)
  have own: "(\<lambda>r. (q_id r, q_user_id r)) ` set (a_requests b) = (\<lambda>r. (q_id r, q_user_id r)) ` set (a_requests a)"
    using p by (simp add: people_def flip: set_map)
  have take: "owners_take_part db \<longleftrightarrow> (\<forall>(i, u) \<in> (\<lambda>r. (q_id r, q_user_id r)) ` set (a_requests db). \<forall>v. u = Some v \<longrightarrow> is_subscriber db i v)" for db
    by (simp add: owners_take_part_def)
  show ?thesis unfolding fair_def take own subs by blast
qed

text \<open>What leaving writes: the subscription goes, and the ownership with it, to the heir.\<close>

definition left :: "int \<Rightarrow> int \<Rightarrow> int option \<Rightarrow> app_db \<Rightarrow> app_db \<Rightarrow> bool" where
  "left rid user heir A b \<longleftrightarrow>
     a_subscribers b = filter (\<lambda>s. \<not> (sb_request_id s = rid \<and> sb_user_id s = user)) (a_subscribers A)
     \<and> a_requests b = map (\<lambda>r. if q_id r = rid \<and> q_user_id r = Some user then r\<lparr>q_user_id := heir\<rparr> else r) (a_requests A)"

lemma left_subscriber:
  "left rid user heir A b \<Longrightarrow> is_subscriber b i u \<longleftrightarrow> is_subscriber A i u \<and> (i \<noteq> rid \<or> u \<noteq> user)"
  by (auto simp: left_def is_subscriber_def list_ex_iff)

lemma left_fair:
  assumes inv: "app_inv A" and l: "left rid user heir A b" and r: "find_req A rid = Some r"
    and heir: "(\<exists>h. heir = Some h \<and> is_subscriber A rid h \<and> h \<noteq> user) \<or> heir = None \<and> q_status r \<in> set SETTLED_REQUEST_STATUS_VALUES"
  shows "fair rid user A b"
proof -
  note sub = left_subscriber[OF l]
  have only: "x = r" if "x \<in> set (a_requests A)" "q_id x = rid" for x
    using request_id_inj[OF inv that(1)] find_req_SomeD[OF r] that(2) by blast
  have rows: "\<exists>x \<in> set (a_requests A). q_id y = q_id x \<and> q_status y = q_status x
      \<and> q_user_id y = (if q_id x = rid \<and> q_user_id x = Some user then heir else q_user_id x)" if "y \<in> set (a_requests b)" for y
    using that l by (auto simp: left_def)
  have "owners_take_part b" if o: "owners_take_part A"
    unfolding owners_take_part_def
  proof (intro ballI allI impI)
    fix y u assume y: "y \<in> set (a_requests b)" "q_user_id y = Some u"
    from rows[OF y(1)] obtain x where x: "x \<in> set (a_requests A)" "q_id y = q_id x"
      "q_user_id y = (if q_id x = rid \<and> q_user_id x = Some user then heir else q_user_id x)" by blast
    show "is_subscriber b (q_id y) u" using o x y(2) heir by (auto simp: sub owners_take_part_def split: if_splits)
  qed
  moreover have "\<exists>u. is_subscriber b (q_id y) u" if y: "y \<in> set (a_requests b)" "q_status y \<notin> set SETTLED_REQUEST_STATUS_VALUES"
    and u: "is_subscriber A (q_id y) u" for y u
  proof (cases "q_id y = rid")
    case True
    then have "q_status y = q_status r" using rows[OF y(1)] only by metis
    then show ?thesis using heir y(2) sub True by metis
  qed (use sub u in blast)
  ultimately show ?thesis unfolding fair_def sub by blast
qed

section \<open>The withdrawal\<close>

definition fairly :: "int \<Rightarrow> int \<Rightarrow> desk_pred" where
  "fairly rid user a b i t \<longleftrightarrow> fair_trace rid user t"

text \<open>On success the last commit is the one that took the user out.\<close>

definition out_fairly :: "int \<Rightarrow> int \<Rightarrow> desk_pred" where
  "out_fairly rid user a b i t \<longleftrightarrow> fair_trace rid user t
     \<and> (\<exists>a0 b0. t \<noteq> [] \<and> last t = Committed a0 b0 \<and> \<not> is_subscriber b0 rid user)"

lemma fair_trace_append: "fair_trace rid user (t @ [Committed a b]) \<longleftrightarrow> fair_trace rid user t \<and> fair rid user a b"
  by (auto simp: fair_trace_def)

lemma does_leave:
  assumes inv: "app_inv A" and r: "find_req A rid = Some r"
  shows "does (held A R) (leave_request (to_record_req r) rid user heir)
    (\<lambda>_ a b i t. a = A \<and> left rid user heir A b \<and> R i t) (\<lambda>_ a b i t. R i t)"
proof -
  let ?gone = "\<lambda>_ a b i t. a = A \<and> a_subscribers b = filter (\<lambda>s. \<not> (sb_request_id s = rid \<and> sb_user_id s = user)) (a_subscribers A)
    \<and> a_requests b = a_requests A \<and> R i t"
  have only: "x = r" if "x \<in> set (a_requests A)" "q_id x = rid" for x
    using request_id_inj[OF inv that(1)] find_req_SomeD[OF r] that(2) by blast
  have "does (held A R) (write_verb (remove_subscriber rid user)) ?gone (\<lambda>_ a b i t. R i t)"
    by (rule does_write[OF sound_writes(3)])
      (auto simp: held_def people_def rows_view_def remove_subscriber_def split: if_splits)
  moreover have "does (?gone u) (if rr_user_id (to_record_req r) = Some user then write_verb (set_owner rid heir) else ret ())
      (\<lambda>_ a b i t. a = A \<and> left rid user heir A b \<and> R i t) (\<lambda>_ a b i t. R i t)" for u
  proof (rule does_If)
    assume own: "rr_user_id (to_record_req r) = Some user"
    have eq: "(\<lambda>x. if q_id x = rid then x\<lparr>q_user_id := heir\<rparr> else x) x
        = (if q_id x = rid \<and> q_user_id x = Some user then x\<lparr>q_user_id := heir\<rparr> else x)" if "x \<in> set (a_requests A)" for x
      using only[OF that] own by (auto simp: to_record_req_def)
    show "does (?gone u) (write_verb (set_owner rid heir)) (\<lambda>_ a b i t. a = A \<and> left rid user heir A b \<and> R i t) (\<lambda>_ a b i t. R i t)"
      by (rule does_write[OF sound_writes(4)])
        (auto simp: set_owner_def write_request_def map_requests_def left_def eq split: if_splits)
  next
    assume own: "rr_user_id (to_record_req r) \<noteq> Some user"
    have eq: "(if q_id x = rid \<and> q_user_id x = Some user then x\<lparr>q_user_id := heir\<rparr> else x) = x" if "x \<in> set (a_requests A)" for x
      using only[OF that] own by (auto simp: to_record_req_def)
    show "does (?gone u) (ret ()) (\<lambda>_ a b i t. a = A \<and> left rid user heir A b \<and> R i t) (\<lambda>_ a b i t. R i t)"
      by (rule does_ret) (auto simp: left_def eq cong: map_cong)
  qed
  ultimately show ?thesis unfolding leave_request_def by (rule does_andthen)
qed

lemma does_depart:
  assumes others: "sound_others ve" and inv: "sound_db A" and r: "find_req A rid = Some r"
    and heir: "(\<exists>h. heir = Some h \<and> is_subscriber A rid h \<and> h \<noteq> user) \<or> heir = None \<and> q_status r \<in> set SETTLED_REQUEST_STATUS_VALUES"
    and R: "\<And>i t. R i t \<Longrightarrow> fair_trace rid user t"
  shows "does (held A R) (andthen (leave_request (to_record_req r) rid user heir) (\<lambda>_.
      andthen (commit_verb ve) (\<lambda>_. withdrawn ve rid gone))) (\<lambda>_. out_fairly rid user) (\<lambda>_. fairly rid user)"
proof -
  have leave: "does (held A R) (leave_request (to_record_req r) rid user heir)
     (\<lambda>_ a b i t. a = A \<and> left rid user heir A b \<and> fair_trace rid user t) (\<lambda>_. fairly rid user)"
    using inv by (intro does_conseq[OF does_leave[OF _ r, where R = R]]) (auto simp: sound_db_def fairly_def R)
  have commit: "does (\<lambda>a b i t. a = A \<and> left rid user heir A b \<and> fair_trace rid user t) (commit_verb ve) (\<lambda>_. out_fairly rid user)
     (\<lambda>_. fairly rid user)"
    using left_fair[OF _ _ r heir] inv
    by (intro does_commit[OF others]) (auto simp: out_fairly_def fair_trace_append left_subscriber sound_db_def)
  have again: "does (out_fairly rid user) (get_request ve rid) (\<lambda>_. out_fairly rid user) (\<lambda>_. fairly rid user)"
    by (rule does_get_request[OF others]) (auto simp: out_fairly_def fairly_def)
  show ?thesis unfolding withdrawn_def
    by (intro does_andthen[OF leave] does_andthen[OF commit] does_andthen[OF again] does_ret)
qed

text \<open>A show that is withdrawn from has season rows: they are created with the request.\<close>

definition seasoned :: "int \<Rightarrow> app_db \<Rightarrow> bool" where
  "seasoned rid db \<longleftrightarrow> (\<forall>r. find_req db rid = Some r \<longrightarrow> q_media_type r = Movie \<or> has_seasons rid db)"

lemma cancel_fair:
  assumes "cancels rid A B"
  shows "fair_trace rid user (cancel_events rid A B)"
  using assms by (auto simp: cancels_def cancel_events_def fair_trace_def Let_def intro: same_people_fair)

lemma cancel_done_fair:
  assumes "stable ve (cancelled_row rid)" and "cancel_done ve rid (seasoned rid) [] a b i t"
  shows "cancelled_row rid a \<and> fair_trace rid user t"
proof -
  obtain A B where A: "seasoned rid A" "cancels rid A B" "t = cancel_events rid A B" "cancelled_row rid B \<longrightarrow> cancelled_row rid a"
    using assms by (auto simp: cancel_done_def)
  have "cancelled_row rid B" using A(1,2) by (auto simp: seasoned_def cancels_def ends_cancelled_def)
  then show ?thesis using A cancel_fair by blast
qed

lemma cancel_failed_fair:
  assumes "stable ve (cancelled_row rid)" and "cancel_failed ve rid (seasoned rid) [] e a b i t"
  shows "fairly rid user a b i t"
  using assms(2) cancel_done_fair[OF assms(1)] unfolding cancel_failed_def
  by (auto simp: fairly_def fair_trace_def refusal_events_def)

lemma does_withdraw:
  assumes others: "sound_others ve" and keeps: "stable ve (cancelled_row rid)" "stable ve (seasoned rid)"
  shows "does (\<lambda>a b i t. seasoned rid a \<and> i = [] \<and> t = []) (withdraw_participant ve rid user)
    (\<lambda>_. out_fairly rid user) (\<lambda>_. fairly rid user)"
  unfolding withdraw_participant_def
proof (rule does_start[OF others keeps(2)], goal_cases)
  case (2 A)
  note A = 2
  let ?E = "\<lambda>_ :: verb_error. fairly rid user"
  let ?fair = "\<lambda>_ t. fair_trace rid user t"
  have early: "does (locked A []) (fail e) Q ?E" for e and Q :: "WithdrawOutcome \<Rightarrow> desk_pred"
    by (rule does_fail) (simp add: held_def fairly_def fair_trace_def)
  have reread: "does (locked A []) (get_fresh rid)
      (\<lambda>x a b i t. locked A [] a b i t \<and> (\<exists>r. find_req A rid = Some r \<and> x = to_record_req r)) ?E"
    by (rule does_get_fresh) (auto simp: held_reads(1) fairly_def, simp add: held_def fair_trace_def)
  have settled_row: "does (held A' ?fair) (andthen (get_fresh rid) (\<lambda>cancelled. andthen (leave_request cancelled rid user None) (\<lambda>_.
      andthen (commit_verb ve) (\<lambda>_. withdrawn ve rid True)))) (\<lambda>_. out_fairly rid user) ?E"
    if A': "sound_db A'" "cancelled_row rid A'" for A'
  proof -
    obtain r where r: "find_req A' rid = Some r" "q_status r = ''cancelled''" using A'(2) by (auto simp: cancelled_row_def)
    have "does (held A' ?fair) (get_fresh rid) (\<lambda>x a b i t. held A' ?fair a b i t \<and> x = to_record_req r) ?E"
      by (rule does_get_fresh) (simp_all add: held_reads(1) r(1))
    moreover have "does (\<lambda>a b i t. held A' ?fair a b i t \<and> x = to_record_req r) (andthen (leave_request x rid user None) (\<lambda>_.
      andthen (commit_verb ve) (\<lambda>_. withdrawn ve rid True))) (\<lambda>_. out_fairly rid user) ?E" for x
      by (rule does_know[where F = "x = to_record_req r"])
        (auto intro!: does_pre[OF does_depart[OF others A'(1) r(1), where R = ?fair]] simp: r(2) SETTLED_REQUEST_STATUS_VALUES_def)
    ultimately show ?thesis by (rule does_andthen)
  qed
  have cancel: "does (locked A []) (andthen (cancel_request_locked ve rid) (\<lambda>_. andthen (lock_media ve request) (\<lambda>_.
      andthen (get_fresh rid) (\<lambda>cancelled. andthen (leave_request cancelled rid user None) (\<lambda>_.
      andthen (commit_verb ve) (\<lambda>_. withdrawn ve rid True)))))) (\<lambda>_. out_fairly rid user) ?E" for request
  proof (rule does_andthen)
    show "does (locked A []) (cancel_request_locked ve rid) (\<lambda>_ a b i t. cancelled_row rid a \<and> fair_trace rid user t) ?E"
      by (rule does_conseq[OF does_cancel_locked[where K = "seasoned rid", OF others A(2)]])
        (auto intro: cancel_failed_fair[OF keeps(1)] dest: cancel_done_fair[OF keeps(1)])
  qed (rule does_lock[OF others keeps(1)], auto simp: fairly_def intro: settled_row)
  show ?case
  proof (rule does_andthen[OF reread], goal_cases)
    case (1 request)
    have branch: "does (locked A []) (let others = filter (\<lambda>uid. uid \<noteq> user) (list_subscribers A rid) in case others of
         heir # _ \<Rightarrow> andthen (leave_request request rid user (Some heir)) (\<lambda>_.
           andthen (commit_verb ve) (\<lambda>_. withdrawn ve rid False))
       | [] \<Rightarrow>
           if rr_status request \<in> set CANCELLABLE_REQUEST_STATUS_VALUES then
             andthen (cancel_request_locked ve rid) (\<lambda>_. andthen (lock_media ve request) (\<lambda>_.
             andthen (get_fresh rid) (\<lambda>cancelled. andthen (leave_request cancelled rid user None) (\<lambda>_.
             andthen (commit_verb ve) (\<lambda>_. withdrawn ve rid True)))))
           else if rr_status request \<notin> set SETTLED_REQUEST_STATUS_VALUES then
             fail (WithdrawalBlockedActiveError (rr_status request))
           else andthen (leave_request request rid user None) (\<lambda>_.
             andthen (commit_verb ve) (\<lambda>_. withdrawn ve rid False))) (\<lambda>_. out_fairly rid user) ?E"
      if r: "find_req A rid = Some r" "request = to_record_req r" for r
    proof (cases "filter (\<lambda>uid. uid \<noteq> user) (list_subscribers A rid)")
      case Nil
      show ?thesis unfolding Nil Let_def list.case
        by (intro does_If cancel early, unfold r(2), rule does_depart[OF others A(1) r(1)])
          (auto simp: fair_trace_def to_record_req_def)
    next
      case (Cons heir rest)
      then have "heir \<in> set (filter (\<lambda>uid. uid \<noteq> user) (list_subscribers A rid))" by simp
      then have "is_subscriber A rid heir \<and> heir \<noteq> user" by (auto simp: list_subscribers_def is_subscriber_def list_ex_iff set_sort_by)
      then show ?thesis unfolding Cons Let_def list.case r(2)
        by (intro does_depart[OF others A(1) r(1)]) (auto simp: fair_trace_def)
    qed
    show ?case
    proof (rule does_know[where F = "\<exists>r. find_req A rid = Some r \<and> request = to_record_req r"], blast, elim exE conjE)
      fix r assume r: "find_req A rid = Some r" "request = to_record_req r"
      show ?case by (rule does_pre[OF does_participants[where A = A]], hypsubst, rule branch[OF r]) blast
    qed
  qed
qed (simp add: fairly_def fair_trace_def)

text \<open>
  C18: Withdrawing from a request, with any other sessions interleaved at its awaits that do not revive a
  cancelled request or take the season rows of a show away. Every transaction it commits, whether or not the
  verb then succeeds, leaves the participation of everybody else as it was, keeps every owner a participant
  of his request, and takes the last participant only from a request that is settled. When it
  succeeds, its last act was the commit that took the user out.
\<close>

theorem withdrawal_strands_nobody:
  assumes "sound_others ve" and "stable ve (cancelled_row rid)" "stable ve (seasoned rid)"
    and "sound_db (ss_saved (dk_session d))" "sound_db (ss_db (dk_session d))" "seasoned rid (ss_saved (dk_session d))"
    and "dk_removal_ids d = []" "dk_trace d = []"
    and "withdraw_participant ve rid user d = (r, d')"
  shows "(\<forall>a b. Committed a b \<in> set (dk_trace d') \<longrightarrow> fair rid user a b)
    \<and> (\<forall>x. r = Inr x \<longrightarrow> (\<exists>a b. dk_trace d' \<noteq> [] \<and> last (dk_trace d') = Committed a b \<and> \<not> is_subscriber b rid user))"
proof -
  note rule = does_withdraw[OF assms(1-3), of user]
  have d: "at_desk (\<lambda>a b i t. seasoned rid a \<and> i = [] \<and> t = []) d" using assms(4-8) by (simp add: at_desk_def)
  show ?thesis
  proof (cases r)
    case (Inl e)
    then show ?thesis using does_Inl[OF rule d, of e d'] assms(9) by (auto simp: at_desk_def fairly_def fair_trace_def)
  next
    case (Inr x)
    then show ?thesis using does_Inr[OF rule d, of x d'] assms(9) by (auto simp: at_desk_def out_fairly_def fair_trace_def)
  qed
qed

end
