(* ===== verification/ReportLaws.thy ===== *)
theory ReportLaws
  imports WithdrawLaws EnsureSeasons
begin

text \<open>
  Reporting a bad file. The claim is one transaction: the release listed, the target back to searching, the
  incomplete-delete marker armed. Only after it has been committed is the torrent removed and the library
  directory purged, all of it inside the claim on the path.
\<close>

section \<open>What re-arming writes\<close>

lemma write_season_view:
  assumes "\<And>z. season_ident (g z) = season_ident z \<and> z_status (g z) = z_status z" and "write_season sid g db = Inr (x, db')"
  shows "season_view db' = season_view db"
proof -
  have "db' = map_seasons (\<lambda>z. z_id z = sid) g db" using assms(2) by (auto simp: write_season_def split: if_splits)
  moreover have "z_media_request_id (g z) = z_media_request_id z \<and> z_season_number (g z) = z_season_number z" for z
    using assms(1)[of z] by (simp add: season_ident_def)
  ultimately show ?thesis using assms(1)
    by (auto simp: fun_eq_iff season_view_def find_sea_map option.map_comp comp_def if_distrib cong: if_cong option.map_cong)
qed

lemma keep_season_rows:
  "preserves a_seasons (update_requests p g)" "preserves a_seasons (write_request i g)" "preserves a_seasons (on_store s)"
  "preserves a_seasons (heal_completed_at now rid)" "preserves a_seasons (return_op x)"
  by (auto intro!: preservesI simp: update_requests_def write_request_def on_store_def heal_completed_at_def bind_op_Inr
      map_requests_def split: if_splits sum.splits)

lemma status_view:
  assumes inv: "app_inv db" and z: "find_sea db mr n = Some z" and w: "set_status_sea now (z_id z) st db = Inr (x, db')"
  shows "season_view db' m k = (if m = mr \<and> k = n then Some st else season_view db m k)"
proof -
  have "db' = map_seasons (\<lambda>y. z_id y = z_id z) (move_season now st) db"
    using w by (auto simp: set_status_sea_def bind_op_Inr request_status_def update_seasons_def split: if_splits)
  then have v: "find_sea db' m k = map_option (\<lambda>y. if z_id y = z_id z then move_season now st y else y) (find_sea db m k)" for m k
    using moved_status by (simp add: find_sea_map)
  show ?thesis
  proof (cases "m = mr \<and> k = n")
    case True
    then show ?thesis using v[of m k] z moved_status by (simp add: season_view_def)
  next
    case False
    have "z_id y \<noteq> z_id z" if "find_sea db m k = Some y" for y
      using season_id_inj[OF inv, of y z] find_sea_SomeD[OF that] find_sea_SomeD[OF z] False by auto
    then show ?thesis using False v[of m k] by (cases "find_sea db m k") (auto simp: season_view_def)
  qed
qed

lemma reset_view:
  assumes inv: "app_inv db" and run: "reset_for_research now mr n False db = Inr (x, db')"
  shows "season_view db' m k = (if m = mr \<and> k = n then Some ''searching'' else season_view db m k)"
proof -
  from run obtain rec db1 db2 db3 db4 db5 where e: "ensure_pending mr n db = Inr (rec, db1)"
    and s: "set_status_sea now (zr_id rec) ''searching'' db1 = Inr ((), db2)"
    and sch: "schedule_search_sea (zr_id rec) 0 None db2 = Inr ((), db3)"
    and c: "clear_eviction_regrab (zr_id rec) db3 = Inr ((), db4)" and h: "heal_completed_at now mr db4 = Inr ((), db5)"
    and p: "recompute_parent now mr False False db5 = Inr (x, db')"
    by (auto simp: reset_for_research_def bind_op_Inr)
  have inv1: "app_inv db1" using steadyD[OF steady_ensure_pending inv e] by (rule evolves_inv)
  have inv5: "app_inv db5"
  proof -
    have "steady (bind_op (set_status_sea now (zr_id rec) ''searching'') (\<lambda>_. bind_op (schedule_search_sea (zr_id rec) 0 None) (\<lambda>_.
      bind_op (clear_eviction_regrab (zr_id rec)) (\<lambda>_. heal_completed_at now mr))))" by (intro steady_rules)
    from steadyD[OF this inv1, of "()" db5] s sch c h show ?thesis by (intro evolves_inv) (simp add: bind_op_Inr)
  qed
  obtain z t where z: "find_sea db1 mr n = Some z" "rec = to_record_sea z t"
    and old: "\<And>m k. season_view db1 m k = (if m = mr \<and> k = n then Some (z_status z) else season_view db m k)"
    using ensure_sea_view[OF inv e[unfolded ensure_pending_def]] by blast
  have "season_view db' m k = season_view db5 m k" "season_view db5 m k = season_view db4 m k"
    by (rule season_view_cong[OF recompute_parent_Inr(1)[OF inv5 p]] season_view_cong[OF preservesD[OF keep_season_rows(4) h]])+
  moreover have "season_view db4 = season_view db3" "season_view db3 = season_view db2"
    using write_season_view[OF _ sch[unfolded schedule_search_sea_def]] write_season_view[OF _ c[unfolded clear_eviction_regrab_def]]
    by (simp_all add: season_ident_def)
  moreover have "season_view db2 m k = (if m = mr \<and> k = n then Some ''searching'' else season_view db1 m k)"
    using status_view[OF inv1 z(1)] s z(2) by simp
  ultimately show ?thesis using old by simp
qed

lemma reset_other_request:
  "i \<noteq> mr \<Longrightarrow> preserves (\<lambda>db. find_req db i) (reset_for_research now mr n clr)"
proof -
  assume i: "i \<noteq> mr"
  let ?v = "\<lambda>db. find_req db i"
  have req: "preserves ?v (\<lambda>db. update_requests (p db) g db)" "preserves ?v (write_request mr g)"
    if "\<And>db r. p db r \<Longrightarrow> q_id r = mr" "\<And>r. q_id (g r) = q_id r" for p g
  proof -
    have same: "find_req (map_requests q g db) i = find_req db i" if q: "\<And>r. q r \<Longrightarrow> q_id r = mr" for q db
      using q i \<open>\<And>r. q_id (g r) = q_id r\<close> by (cases "find_req db i") (auto simp: find_req_map dest: find_req_SomeD)
    show "preserves ?v (\<lambda>db. update_requests (p db) g db)" "preserves ?v (write_request mr g)"
      using that(1) by (auto intro!: preservesI same simp: update_requests_def write_request_def split: if_splits)
  qed
  have sea: "preserves ?v (update_seasons q h)" "preserves ?v (write_season j h)" "preserves ?v (insert_season z)" for q h j z
    by (auto intro!: preservesI simp: update_seasons_def write_season_def insert_season_def map_seasons_def find_req_def split: if_splits)
  have "preserves ?v (ensure_pending mr n)"
    by (rule preservesI) (auto dest!: ensure_sea_Inr simp: ensure_pending_def find_req_def)
  moreover have "preserves ?v (heal_completed_at now mr)"
    unfolding heal_completed_at_def by (intro keep_rules req) auto
  moreover have "preserves ?v (recompute_parent now mr False False)"
  proof -
    have "preserves ?v (set_status_req mr st)" for st
      using req(2)[of "\<lambda>_ _. False" "\<lambda>r. r\<lparr>q_status := st\<rparr>"]
      by (intro preservesI) (auto simp: set_status_req_def bind_op_Inr request_status_def dest!: preservesD split: if_splits)
    then show ?thesis unfolding recompute_parent_def by (intro keep_rules) simp_all
  qed
  ultimately show ?thesis
    unfolding reset_for_research_def set_status_sea_def schedule_search_sea_def clear_library_path_sea_def clear_eviction_regrab_def
    by (intro keep_rules sea)
qed

end
