(* ===== verification/ReportTrace.thy ===== *)
theory ReportTrace
  imports ReportLaws
begin

text \<open>The claim of a report, and the trace of the whole verb.\<close>

section \<open>The claim\<close>

definition listed :: "request_record \<Rightarrow> ReportTarget \<Rightarrow> string \<Rightarrow> download_record option \<Rightarrow> app_db \<Rightarrow> bool" where
  "listed request target reason culprit b \<longleftrightarrow> (\<forall>row. culprit = Some row \<longrightarrow>
     (\<exists>e \<in> set (a_blocklist b). b_torrent_hash e = Some (d_torrent_hash (fst row)) \<and> b_reason e = reason
        \<and> b_tmdb_id e = Some (rr_tmdb_id request)
        \<and> b_media_type e = Some (if rt_season target = None then Movie else Tv)))"

definition rearmed :: "int \<Rightarrow> ReportTarget \<Rightarrow> download_record option \<Rightarrow> app_db \<Rightarrow> bool" where
  "rearmed rid target culprit b \<longleftrightarrow> (case rt_season target of
      Some n \<Rightarrow> season_view b rid n = Some ''searching''
    | None \<Rightarrow> (\<forall>row. culprit = Some row \<longrightarrow> (\<forall>(mr, _) \<in> set (pack_siblings row rid None). mr \<noteq> rid)) \<longrightarrow>
        (\<exists>r. find_req b rid = Some r \<and> q_status r = ''searching''))"

definition marked :: "int \<Rightarrow> ReportTarget \<Rightarrow> app_db \<Rightarrow> bool" where
  "marked rid target b \<longleftrightarrow> (\<forall>p. rt_library_path target = Some p \<longrightarrow> (case rt_season target of
      Some n \<Rightarrow> (\<exists>z. find_sea b rid n = Some z \<and> z_partial_delete_path z = Some p)
    | None \<Rightarrow> (\<exists>r. find_req b rid = Some r \<and> q_partial_delete_path r = Some p)))"

definition claimed :: "request_record \<Rightarrow> int \<Rightarrow> ReportTarget \<Rightarrow> string \<Rightarrow> download_record option \<Rightarrow> app_db \<Rightarrow> bool" where
  "claimed request rid target reason culprit b \<longleftrightarrow> listed request target reason culprit b
     \<and> rearmed rid target culprit b \<and> marked rid target b"

lemma blocklist_writes [keep_rules]:
  "preserves a_blocklist (update_requests p g)" "preserves a_blocklist (write_request i g)"
  "preserves a_blocklist (update_seasons q h)" "preserves a_blocklist (write_season j h)" "preserves a_blocklist (insert_season z)"
  "preserves a_blocklist (on_store s)"
  by (auto intro!: preservesI simp: update_requests_def write_request_def update_seasons_def write_season_def insert_season_def
      on_store_def map_requests_def map_seasons_def bind_op_Inr split: if_splits sum.splits)

interpretation blocklist: request_view a_blocklist
  by unfold_locales (intro keep_rules)+

lemma sound_research [sound_rules]:
  "sound_op (reset_for_research now mr n clr)" "sound_op (set_partial_delete_path mr n p)" "sound_op (clear_partial_delete_path mr n)"
  "sound_op (clear_library_path mr n)" "sound_op (reset_for_research_req rid clr)" "sound_op (set_partial_delete_path_req rid p)"
  "sound_op (clear_partial_delete_path_req rid)" "sound_op (clear_library_path_req now rid mark)"
  by (intro sound_opI steady_rules store_keeps)+

lemma sound_scope_write [sound_rules]: "sound_op (on_store (update_scope_status_if_in sid st allowed))"
  by (rule sound_on_store) (rule update_scope_status_inv)

lemma sound_rescue_each [sound_rules]: "sound_op (rescue_each now ss)"
  by (induction ss) (auto intro!: sound_rules split: prod.splits)

lemma sound_rescue [sound_rules]: "sound_op (rescue_shared_pack_siblings now row rid ssn)"
  unfolding rescue_shared_pack_siblings_def Let_def by (intro sound_rules)

lemma sound_claim: "sound_op (claim_target now rid target culprit)"
  unfolding claim_target_def rearm_target_def arm_marker_def by (intro sound_rules)

lemma sound_clear: "sound_op (clear_marker rid target)" "sound_op (clear_breadcrumb now rid target)"
  unfolding clear_marker_def clear_breadcrumb_def by (intro sound_rules)+

lemma sound_blocklist: "sound_op (blocklist_culprit request target reason culprit)"
proof -
  have "sound_op (blocklist_failed h t r tmdb mt)" for h t r tmdb mt
  proof (unfold sound_op_def, intro allI impI)
    fix db x db' assume s: "sound_db db" and w: "blocklist_failed h t r tmdb mt db = Inr (x, db')"
    from w obtain b where "create_blocklist (case truthy (source_title_for db h) of None \<Rightarrow> t | Some t \<Rightarrow> t) r tmdb (Some h)
      (indexer_for db h) None mt db = Inr (b, db')" by (auto simp: blocklist_failed_def bind_op_Inr)
    from create_blocklist_Inr[OF this] show "sound_db db'" using s
      by (auto simp: sound_db_def app_inv_def app_unique_def app_refs_def app_typed_def request_keys_def season_keys_def cong: option.case_cong)
  qed
  then show ?thesis unfolding blocklist_culprit_def by (auto intro!: sound_rules split: option.split)
qed

lemma rescue_each_views:
  assumes "app_inv b" "repo_inv (a_store b)" and "rescue_each now ss b = Inr (x, b')"
  shows "season_view b rid n = Some ''searching'' \<Longrightarrow> season_view b' rid n = Some ''searching''"
    and "(\<forall>(mr, _) \<in> set ss. mr \<noteq> rid) \<Longrightarrow> find_req b' rid = find_req b rid"
  using assms
proof (induction ss arbitrary: b x)
  case Nil
  { case 1 then show ?case by simp next case 2 then show ?case by simp }
next
  case (Cons s ss)
  obtain mr k sid where s: "s = (mr, k, sid)" by (cases s)
  have one: "\<exists>b2. sound_db b2 \<and> rescue_each now ss b2 = Inr (x, b')
      \<and> (season_view b rid n = Some ''searching'' \<longrightarrow> season_view b2 rid n = Some ''searching'')
      \<and> (mr \<noteq> rid \<longrightarrow> find_req b2 rid = find_req b rid)"
    if snd: "sound_db b" and run: "rescue_each now (s # ss) b = Inr (x, b')" for b x
  proof -
    from run obtain won b1 b2 where c: "on_store (update_scope_status_if_in sid ''failed'' UNRESOLVED_SCOPE_STATUSES) b = Inr (won, b1)"
      and w: "(if won then reset_for_research now mr k False else return_op ()) b1 = Inr ((), b2)" and r: "rescue_each now ss b2 = Inr (x, b')"
      by (auto simp: s bind_op_Inr)
    have same: "a_seasons b1 = a_seasons b" "a_requests b1 = a_requests b" using c by (auto simp: on_store_Inr)
    have s1: "sound_db b1" using sound_scope_write c snd by (auto simp: sound_op_def)
    have v: "season_view b2 rid n = Some ''searching''" if "season_view b rid n = Some ''searching''"
      using that w season_view_cong[OF same(1), of rid n] reset_view[of b1 now mr k "()" b2 rid n] s1
      by (auto simp: sound_db_def split: if_splits)
    have q: "find_req b2 rid = find_req b rid" if "mr \<noteq> rid"
      using w that same(2) preservesD[OF reset_other_request[of rid mr now k False]] by (auto simp: find_req_def split: if_splits)
    have "sound_op (if won then reset_for_research now mr k False else return_op ())" by (intro sound_rules)
    then have "sound_db b2" using s1 w by (auto simp: sound_op_def)
    then show ?thesis using r v q by blast
  qed
  { case 1
    with one[of b x] Cons.IH(1) show ?case by (auto simp: sound_db_def)
  next
    case 2
    with one[of b x] Cons.IH(2) s show ?case by (fastforce simp: sound_db_def) }
qed

lemma claim_blocklist: "preserves a_blocklist (claim_target now rid target culprit)"
proof -
  have "preserves a_blocklist (rescue_each now ss)" for ss
    by (induction ss) (auto intro!: keep_rules blocklist.keep_reset split: prod.splits)
  then show ?thesis
    unfolding claim_target_def rearm_target_def arm_marker_def rescue_shared_pack_siblings_def Let_def cas_download_def
      mark_download_scopes_terminal_def
    by (intro keep_rules blocklist.keep_reset blocklist.keep_paths blocklist.keep_request_marks)
qed

lemma rows_of_view: "rows_view b' = rows_view b \<Longrightarrow> season_view b' m k = season_view b m k \<and> find_req b' i = find_req b i"
  by (simp add: rows_view_def season_view_def find_sea_def find_req_def)

lemma rescue_views:
  assumes s: "sound_db b" and run: "rescue_shared_pack_siblings now row rid ssn b = Inr (x, b')"
  shows "season_view b i n = Some ''searching'' \<Longrightarrow> season_view b' i n = Some ''searching''"
    and "(\<forall>(mr, _) \<in> set (pack_siblings row rid ssn). mr \<noteq> i) \<Longrightarrow> find_req b' i = find_req b i"
proof -
  have "b' = b \<or> rows_view b' = rows_view b \<or> (\<exists>b1 b2 u. sound_db b1 \<and> rows_view b1 = rows_view b
      \<and> rescue_each now (pack_siblings row rid ssn) b1 = Inr (u, b2) \<and> rows_view b' = rows_view b2)"
    using run cas_views(2) scopes_views(2) s sound_cas unfolding rescue_shared_pack_siblings_def Let_def sound_op_def
    by (auto simp: bind_op_Inr split: if_splits) metis+
  then show "season_view b i n = Some ''searching'' \<Longrightarrow> season_view b' i n = Some ''searching''"
    and "(\<forall>(mr, _) \<in> set (pack_siblings row rid ssn). mr \<noteq> i) \<Longrightarrow> find_req b' i = find_req b i"
    using rescue_each_views rows_of_view unfolding sound_db_def by metis+
qed

lemma write_request_row:
  assumes "write_request rid g db = Inr (x, db')" and "\<And>r. q_id (g r) = q_id r"
  obtains r where "find_req db rid = Some r" "find_req db' rid = Some (g r)"
proof -
  from assms(1) obtain r where r: "find_req db rid = Some r" and db': "db' = map_requests (\<lambda>r. q_id r = rid) g db"
    by (auto simp: write_request_def split: if_splits)
  have "find_req db' rid = Some (g r)" using r find_req_SomeD[OF r] assms(2) by (simp add: db' find_req_map)
  with r show thesis by (rule that)
qed

lemma rearm_target_rearms:
  assumes "app_inv b" and "rearm_target now rid target b = Inr (x, b')"
  shows "rearmed rid target None b'"
proof (cases "rt_season target")
  case None
  then show ?thesis using assms(2)
    by (auto simp: rearmed_def rearm_target_def reset_for_research_req_def elim!: write_request_row)
next
  case (Some n)
  then show ?thesis using assms reset_view[of b now rid n x b' rid n] by (simp add: rearmed_def rearm_target_def)
qed

lemma arm_marker_marks:
  assumes inv: "app_inv b" and re: "rearmed rid target culprit b" and run: "arm_marker rid target b = Inr (x, b')"
  shows "rearmed rid target culprit b' \<and> marked rid target b'"
proof (cases "rt_library_path target")
  case None
  then show ?thesis using re run by (simp add: arm_marker_def marked_def)
next
  case (Some p)
  show ?thesis
  proof (cases "rt_season target")
    case None
    then have "write_request rid (\<lambda>r. r\<lparr>q_partial_delete_path := Some p\<rparr>) b = Inr (x, b')"
      using run Some by (simp add: arm_marker_def set_partial_delete_path_req_def)
    then obtain r where "find_req b rid = Some r" "find_req b' rid = Some (r\<lparr>q_partial_delete_path := Some p\<rparr>)"
      by (rule write_request_row) simp
    then show ?thesis using re None Some by (simp add: rearmed_def marked_def)
  next
    case n: (Some n)
    from re n obtain z where z: "find_sea b rid n = Some z" "z_status z = ''searching''" by (auto simp: rearmed_def season_view_def)
    obtain t where "ensure_pending rid n b = Inr (to_record_sea z t, b)" using ensure_pending_found[OF inv z(1)] by blast
    then have "b' = map_seasons (\<lambda>y. z_id y = z_id z) (\<lambda>y. y\<lparr>z_partial_delete_path := Some p\<rparr>) b"
      using run Some n by (auto simp: arm_marker_def set_partial_delete_path_def on_season_def bind_op_Inr
          set_partial_delete_path_sea_def write_season_def split: if_splits)
    then have "find_sea b' rid n = Some (z\<lparr>z_partial_delete_path := Some p\<rparr>)" using z by (simp add: find_sea_map)
    then show ?thesis using n Some z(2) by (simp add: rearmed_def marked_def season_view_def)
  qed
qed

lemma claim_effect:
  assumes s: "sound_db b" and l: "listed request target reason culprit b"
    and run: "claim_target now rid target culprit b = Inr (x, b')"
  shows "claimed request rid target reason culprit b'"
proof -
  from run obtain b1 b2 where a: "rearm_target now rid target b = Inr ((), b1)"
    and m: "(case culprit of None \<Rightarrow> return_op () | Some row \<Rightarrow> rescue_shared_pack_siblings now row rid (rt_season target)) b1 = Inr ((), b2)"
    and k: "arm_marker rid target b2 = Inr (x, b')" by (auto simp: claim_target_def bind_op_Inr)
  have "sound_op (rearm_target now rid target)" unfolding rearm_target_def by (intro sound_rules)
  then have s1: "sound_db b1" using a s by (simp add: sound_op_def)
  have s2: "sound_db b2" using m s1 sound_rescue unfolding sound_op_def by (auto split: option.splits)
  have r1: "rearmed rid target None b1" using rearm_target_rearms[OF _ a] s by (simp add: sound_db_def)
  have "rearmed rid target culprit b2"
  proof (cases culprit)
    case None
    then show ?thesis using r1 m by simp
  next
    case (Some row)
    then show ?thesis using r1 rescue_views[OF s1, of now row rid "rt_season target"] m
      by (auto simp: rearmed_def split: option.splits)
  qed
  moreover have "listed request target reason culprit b'"
    using preservesD[OF claim_blocklist run] l by (simp add: listed_def)
  ultimately show ?thesis using arm_marker_marks[OF _ _ k] s2 by (simp add: claimed_def sound_db_def)
qed

end
