(* ===== verification/ReportOrder.thy ===== *)
theory ReportOrder
  imports ReportTrace "HOL-Library.Sublist"
begin

text \<open>
  The order of a report. Nothing is destroyed before the claim is committed, and everything happens between
  the beginning and the end of the claim on the path.
\<close>

definition claim_opens :: "ReportTarget \<Rightarrow> verb_event list" where
  "claim_opens target = (case rt_library_path target of None \<Rightarrow> [] | Some p \<Rightarrow> [PurgeBegun p, LeasesRevoked p])"

definition claim_closes :: "ReportTarget \<Rightarrow> verb_event list" where
  "claim_closes target = (case rt_library_path target of None \<Rightarrow> [] | Some p \<Rightarrow> [PurgeEnded p])"

definition torrent_events :: "download_record option \<Rightarrow> verb_event list" where
  "torrent_events culprit = (case culprit of None \<Rightarrow> [] | Some row \<Rightarrow> [TorrentRemoved (d_torrent_hash (fst row))])"

definition purge_events :: "ReportTarget \<Rightarrow> PurgeResult \<Rightarrow> verb_event list" where
  "purge_events target result = (case rt_library_path target of None \<Rightarrow> []
     | Some p \<Rightarrow> [TreePurged p result, LibraryScanned p (if rt_season target \<noteq> None then ''tv'' else ''movie'')])"

definition report_events :: "ReportTarget \<Rightarrow> download_record option \<Rightarrow> PurgeResult \<Rightarrow> app_db \<Rightarrow> app_db \<Rightarrow> verb_event list" where
  "report_events target culprit result C D = torrent_events culprit @ purge_events target result @ [Committed C D]"

definition begun :: "ReportTarget \<Rightarrow> verb_error \<Rightarrow> desk_pred" where
  "begun target e a b i t \<longleftrightarrow> t = claim_opens target"

text \<open>After the claim, having done what \<open>part\<close> of the report says.\<close>

definition reporting :: "request_record \<Rightarrow> int \<Rightarrow> ReportTarget \<Rightarrow> string \<Rightarrow> download_record option
    \<Rightarrow> (verb_event list \<Rightarrow> bool) \<Rightarrow> desk_pred" where
  "reporting request rid target reason culprit part a b i t \<longleftrightarrow> (\<exists>A B rest. claimed request rid target reason culprit B
     \<and> part rest \<and> t = claim_opens target @ Committed A B # rest)"

definition interrupted :: "ReportTarget \<Rightarrow> download_record option \<Rightarrow> verb_event list \<Rightarrow> bool" where
  "interrupted target culprit rest \<longleftrightarrow> (\<exists>result C D. strict_prefix rest (report_events target culprit result C D))"

definition finished :: "ReportTarget \<Rightarrow> download_record option \<Rightarrow> verb_event list \<Rightarrow> bool" where
  "finished target culprit rest \<longleftrightarrow> (\<exists>result C D. rest = report_events target culprit result C D)"

definition report_failed :: "request_record \<Rightarrow> int \<Rightarrow> ReportTarget \<Rightarrow> string \<Rightarrow> download_record option \<Rightarrow> verb_error \<Rightarrow> desk_pred" where
  "report_failed request rid target reason culprit e a b i t \<longleftrightarrow> t = claim_opens target
     \<or> (\<exists>x. e = CallFailed x) \<and> reporting request rid target reason culprit (interrupted target culprit) a b i t"

lemma does_at: "(\<And>n. does P (f n) Q E) \<Longrightarrow> does P (\<lambda>d. f (g d) d) Q E"
  by (simp add: does_def)

lemma does_claim:
  assumes others: "sound_others ve"
  shows "does (\<lambda>a b i t. listed request target reason culprit b \<and> t = claim_opens target)
    (on_integrity (andthen (write_verb (claim_target (now_at ve) rid target culprit)) (\<lambda>_. commit_verb ve))
        (duplicate_refusal ve request rid))
    (\<lambda>_. reporting request rid target reason culprit (\<lambda>rest. rest = [])) (begun target)"
proof (rule does_integrity)
  have "does (\<lambda>a b i t. listed request target reason culprit b \<and> t = claim_opens target)
      (write_verb (claim_target (now_at ve) rid target culprit))
      (\<lambda>_ a b i t. claimed request rid target reason culprit b \<and> t = claim_opens target) (begun target)"
    by (rule does_write[OF sound_claim]) (auto simp: begun_def intro: claim_effect)
  moreover have "does (\<lambda>a b i t. claimed request rid target reason culprit b \<and> t = claim_opens target) (commit_verb ve)
      (\<lambda>_. reporting request rid target reason culprit (\<lambda>rest. rest = [])) (begun target)"
    by (rule does_commit[OF others]) (auto simp: reporting_def)
  ultimately show "does (\<lambda>a b i t. listed request target reason culprit b \<and> t = claim_opens target)
    (andthen (write_verb (claim_target (now_at ve) rid target culprit)) (\<lambda>_. commit_verb ve))
    (\<lambda>_. reporting request rid target reason culprit (\<lambda>rest. rest = [])) (begun target)" by (rule does_andthen)
  have "does (begun target e) (call (rollback (ve_su ve))) (\<lambda>_. begun target e) (begun target)" for e
    by (rule does_rollback[OF others]) (simp add: begun_def)
  then show "does (\<lambda>a b i t. begun target (CallFailed (RepoFailed IntegrityError)) a b i t) (duplicate_refusal ve request rid)
      (\<lambda>_. reporting request rid target reason culprit (\<lambda>rest. rest = [])) (begun target)"
    unfolding duplicate_refusal_def
    by (rule does_andthen)
      (intro does_andthen[OF does_query[where Q = "\<lambda>_. begun target (CallFailed (RepoFailed IntegrityError))"]] does_fail,
        auto simp: begun_def)
qed

lemma interruptedI: "strict_prefix rest (report_events target culprit result C D) \<Longrightarrow> interrupted target culprit rest"
  by (auto simp: interrupted_def)

lemma does_torrent:
  assumes others: "sound_others ve"
  shows "does (reporting request rid target reason culprit (\<lambda>rest. rest = []))
    (case culprit of None \<Rightarrow> ret () | Some row \<Rightarrow> remove_torrent ve (d_torrent_hash (fst row)))
    (\<lambda>_. reporting request rid target reason culprit (\<lambda>rest. rest = torrent_events culprit)) (report_failed request rid target reason culprit)"
proof (cases culprit)
  case None
  then show ?thesis by (auto simp: torrent_events_def intro!: does_ret)
next
  case (Some row)
  show ?thesis unfolding Some option.case remove_torrent_def
    by (rule does_andthen[OF does_emit[where Q = "\<lambda>_. reporting request rid target reason (Some row) (\<lambda>rest. rest = torrent_events (Some row))"]])
      (auto simp: reporting_def torrent_events_def intro!: does_wait[OF others])
qed

lemma does_purge:
  assumes others: "sound_others ve"
  shows "does (reporting request rid target reason culprit (\<lambda>rest. rest = torrent_events culprit)) (purge_target ve rid target)
    (\<lambda>_. reporting request rid target reason culprit (\<lambda>rest. \<exists>result. rest = torrent_events culprit @ purge_events target result))
    (report_failed request rid target reason culprit)"
proof (cases "rt_library_path target")
  case None
  then show ?thesis unfolding purge_target_def by (auto simp: purge_events_def reporting_def intro!: does_ret)
next
  case (Some p)
  let ?rep = "reporting request rid target reason culprit"
  let ?E = "report_failed request rid target reason culprit"
  let ?mt = "if rt_season target \<noteq> None then ''tv'' else ''movie''"
  let ?all = "?rep (\<lambda>rest. \<exists>result. rest = torrent_events culprit @ purge_events target result)"
  have body: "does (?rep (\<lambda>rest. rest = torrent_events culprit)) (andthen (emit (TreePurged p result)) (\<lambda>_.
        andthen (wait ve) (\<lambda>_.
        andthen (if pu_outcome result \<noteq> Purge_partial then write_verb (clear_marker rid target) else ret ()) (\<lambda>_.
        andthen (if pu_outcome result = Purge_deleted then write_verb (clear_breadcrumb (now_at ve) rid target) else ret ()) (\<lambda>_.
        andthen (emit (LibraryScanned p ?mt)) (\<lambda>_.
        if pu_outcome result = Purge_partial then wait ve else ret ()))))))  (\<lambda>_. ?all) ?E" for result
  proof -
    let ?gone = "?rep (\<lambda>rest. rest = torrent_events culprit @ [TreePurged p result])"
    have part: "?E (CallFailed e) a b i t" if "?gone a b i t" for e a b i t
    proof -
      have "interrupted target culprit (torrent_events culprit @ [TreePurged p result])"
        by (rule interruptedI[of _ _ _ result undefined undefined]) (simp add: report_events_def purge_events_def Some strict_prefix_def)
      with that show ?thesis by (auto simp: report_failed_def reporting_def)
    qed
    have "does (?rep (\<lambda>rest. rest = torrent_events culprit)) (emit (TreePurged p result)) (\<lambda>_. ?gone) ?E"
      by (rule does_emit) (auto simp: reporting_def)
    moreover have "does ?gone (wait ve) (\<lambda>_. ?gone) ?E" by (rule does_wait[OF others]) (simp add: reporting_def)
    moreover have "does ?gone (if c then write_verb m else ret ()) (\<lambda>_. ?gone) ?E" if "sound_op m" for c and m :: "unit app_op"
      by (intro does_If does_ret does_write[OF that] part) (auto simp: reporting_def)
    moreover have "does ?gone (emit (LibraryScanned p ?mt)) (\<lambda>_. ?all) ?E"
      by (rule does_emit) (auto simp: reporting_def purge_events_def Some)
    moreover have "does ?all (if c then wait ve else ret ()) (\<lambda>_. ?all) ?E" for c
      by (intro does_If does_ret does_wait[OF others]) (auto simp: reporting_def)
    ultimately show ?thesis using sound_clear by (intro does_andthen) blast+
  qed
  show ?thesis
    unfolding purge_target_def Some option.case Let_def by (rule does_at[where g = "\<lambda>d. ve_purge ve (ss_tick (dk_session d)) p", OF body])
qed

lemma does_destroy:
  assumes others: "sound_others ve"
  shows "does (\<lambda>a b i t. listed request target reason culprit b \<and> t = claim_opens target)
    (destroy_and_record ve request rid reason target culprit)
    (\<lambda>_. reporting request rid target reason culprit (finished target culprit)) (report_failed request rid target reason culprit)"
proof -
  let ?rep = "reporting request rid target reason culprit"
  let ?E = "report_failed request rid target reason culprit"
  let ?all = "?rep (\<lambda>rest. \<exists>result. rest = torrent_events culprit @ purge_events target result)"
  have claim: "does (\<lambda>a b i t. listed request target reason culprit b \<and> t = claim_opens target)
    (on_integrity (andthen (write_verb (claim_target (now_at ve) rid target culprit)) (\<lambda>_. commit_verb ve))
        (duplicate_refusal ve request rid)) (\<lambda>_. ?rep (\<lambda>rest. rest = [])) ?E"
    by (rule does_conseq[OF does_claim[OF others]]) (auto simp: begun_def report_failed_def)
  have part: "?E (CallFailed e) a b i t" if "?all a b i t" for e a b i t
  proof -
    have "interrupted target culprit (torrent_events culprit @ purge_events target result)" for result
      by (rule interruptedI[of _ _ _ result undefined undefined]) (simp add: report_events_def strict_prefix_def)
    with that show ?thesis by (auto simp: report_failed_def reporting_def)
  qed
  have note_it: "does ?all (write_verb (add_history x1 x2 x3 x4 x5)) (\<lambda>_. ?all) ?E" for x1 x2 x3 x4 x5
    by (rule does_write[OF sound_writes(1)]) (auto simp: reporting_def[of _ _ _ _ _ _ _ b for b] part)
  have commit: "does ?all (commit_verb ve) (\<lambda>_. ?rep (finished target culprit)) ?E"
    by (rule does_commit[OF others]) (auto simp: reporting_def finished_def report_events_def)
  show ?thesis unfolding destroy_and_record_def
    by (intro does_andthen[OF claim] does_andthen[OF does_torrent[OF others]] does_andthen[OF does_purge[OF others]]
        does_andthen[OF note_it] commit)
qed

text \<open>How a whole report can have gone, by its answer.\<close>

definition report_went :: "request_record \<Rightarrow> ReportTarget \<Rightarrow> download_record option \<Rightarrow> string \<Rightarrow> verb_error + unit \<Rightarrow> verb_event list \<Rightarrow> bool" where
  "report_went request target culprit reason r t \<longleftrightarrow>
     (\<exists>e. r = Inl e) \<and> t = claim_opens target @ claim_closes target
     \<or> (\<exists>A B rest. t = claim_opens target @ Committed A B # rest @ claim_closes target
          \<and> claimed request (rr_id request) target reason culprit B
          \<and> (case r of Inr _ \<Rightarrow> finished target culprit rest
             | Inl e \<Rightarrow> (\<exists>x. e = CallFailed x) \<and> interrupted target culprit rest))"

definition report_outcome :: "int \<Rightarrow> string \<Rightarrow> verb_error + unit \<Rightarrow> verb_event list \<Rightarrow> bool" where
  "report_outcome rid reason r t \<longleftrightarrow> (\<exists>e. r = Inl e) \<and> t = []
     \<or> (\<exists>request target culprit. rr_id request = rid \<and> rt_status target \<in> set REPORTABLE_STATUS_VALUES
          \<and> report_went request target culprit reason r t)"

lemma blocklist_lists:
  assumes "blocklist_culprit request target reason culprit b = Inr (x, b')"
  shows "listed request target reason culprit b'"
proof (cases culprit)
  case None
  then show ?thesis by (simp add: listed_def)
next
  case (Some row)
  let ?mt = "if rt_season target \<noteq> None then ''tv'' else ''movie''"
  from assms Some obtain e where "create_blocklist (case truthy (source_title_for b (d_torrent_hash (fst row))) of
      None \<Rightarrow> d_torrent_hash (fst row) | Some t \<Rightarrow> t) reason (Some (rr_tmdb_id request)) (Some (d_torrent_hash (fst row)))
      (indexer_for b (d_torrent_hash (fst row))) None (Some ?mt) b = Inr (e, b')"
    by (auto simp: blocklist_culprit_def blocklist_failed_def bind_op_Inr split: if_splits)
  from create_blocklist_Inr[OF this]
  have e: "e \<in> set (a_blocklist b')" "b_torrent_hash e = Some (d_torrent_hash (fst row))" "b_reason e = reason"
    "b_tmdb_id e = Some (rr_tmdb_id request)" and mt: "map_option media_value (b_media_type e) = Some ?mt" by auto
  from mt obtain m where "b_media_type e = Some m" "media_value m = ?mt" by auto
  then have "b_media_type e = Some (if rt_season target = None then Movie else Tv)"
    by (cases m) (auto simp: media_value_def split: if_splits)
  with e show ?thesis using Some unfolding listed_def by blast
qed

lemma does_close:
  assumes others: "sound_others ve" and rid: "rr_id request = rid" "rt_status target \<in> set REPORTABLE_STATUS_VALUES"
  shows "does (\<lambda>a b i t. listed request target reason culprit b \<and> t = claim_opens target)
    (lastly (destroy_and_record ve request rid reason target culprit) (end_claim target))
    (\<lambda>x a b i t. report_outcome rid reason (Inr x) t) (\<lambda>e a b i t. report_outcome rid reason (Inl e) t)"
proof (rule does_lastly[OF does_destroy[OF others]])
  have close: "does P (end_claim target) Q E" if "\<And>a b i t. P a b i t \<Longrightarrow> Q () a b i (t @ claim_closes target)" for P Q E
    using that by (cases "rt_library_path target") (auto simp: end_claim_def claim_closes_def intro!: does_ret does_emit)
  have out: "report_outcome rid reason r t" if "report_went request target culprit reason r t" for r t
    using that rid by (auto simp: report_outcome_def)
  show "does (reporting request rid target reason culprit (finished target culprit)) (end_claim target)
      (\<lambda>_ a b i t. report_outcome rid reason (Inr x) t) (\<lambda>_ _ _ _ _. False)" for x
    by (rule close, rule out) (use rid in \<open>fastforce simp: reporting_def report_went_def\<close>)
  show "does (report_failed request rid target reason culprit e) (end_claim target)
      (\<lambda>_ a b i t. report_outcome rid reason (Inl e) t) (\<lambda>_ _ _ _ _. False)" for e
    by (rule close, rule out) (use rid in \<open>fastforce simp: report_failed_def reporting_def report_went_def\<close>)
qed

lemma does_report:
  assumes others: "sound_others ve"
  shows "does (\<lambda>a b i t. t = []) (report_issue ve rid reason ssn)
    (\<lambda>x a b i t. report_outcome rid reason (Inr x) t) (\<lambda>e a b i t. report_outcome rid reason (Inl e) t)"
proof -
  let ?still = "\<lambda>a b i (t :: verb_event list). t = []"
  let ?E = "\<lambda>e a b i t. report_outcome rid reason (Inl e) t"
  have none: "report_outcome rid reason (Inl e) []" for e by (simp add: report_outcome_def)
  have quiet_read: "does ?still (read_verb ve f) (\<lambda>_. ?still) ?E" for f :: "app_db \<Rightarrow> repo_error + 'x"
    unfolding read_verb_def by (intro does_andthen[OF does_wait[OF others, where Q = "\<lambda>_. ?still"]] does_query) (auto simp: none)
  have get: "does ?still (get_request ve rid) (\<lambda>x a b i t. t = [] \<and> rr_id x = rid) ?E"
    by (rule does_get_request[OF others]) (auto simp: none to_record_req_def dest: find_req_SomeD)
  have resolve: "does ?still (resolve_report_target ve request ssn) (\<lambda>_. ?still) ?E" for request
    unfolding resolve_report_target_def
    by (intro does_If does_option does_ret does_fail does_andthen[OF quiet_read]) (auto simp: none)
  have mounted: "does ?still (root_available ve request target culprit) (\<lambda>_. ?still) ?E" for request target culprit
    by (auto simp: does_def root_available_def Let_def ret_def fail_def at_desk_def none split: option.splits)
  have pause_here: "does ?still (wait ve) (\<lambda>_. ?still) ?E" by (rule does_wait[OF others])
  have enlist: "does ?still (write_verb (blocklist_culprit request target reason culprit))
      (\<lambda>_ a b i t. listed request target reason culprit b \<and> t = []) ?E" for request target culprit
    by (rule does_write[OF sound_blocklist]) (auto simp: none blocklist_lists)
  have opens: "does (\<lambda>a b i t. listed request target reason culprit b \<and> t = [])
      (case rt_library_path target of None \<Rightarrow> ret () | Some p \<Rightarrow> begin_claim ve p)
      (\<lambda>_ a b i t. listed request target reason culprit b \<and> t = claim_opens target) ?E" for request target culprit
    by (auto simp: does_def begin_claim_def claim_opens_def ret_def fail_def andthen_def emit_def at_desk_def none split: option.splits)
  have known: "does (\<lambda>a b i t. t = [] \<and> F) m Q E" if "F \<Longrightarrow> does ?still m Q E" for F and m :: "'y verb" and Q E
    by (rule does_know[where F = F]) (auto intro: does_pre that)
  show ?thesis unfolding report_issue_def
    by (rule does_andthen[OF get], rule known, rule does_andthen[OF resolve], rule does_If, rule does_fail, simp add: none,
        rule does_andthen[OF quiet_read], rule does_If, rule does_fail, simp add: none,
        rule does_andthen[OF quiet_read], rule does_andthen[OF mounted], rule does_andthen[OF pause_here],
        rule does_andthen[OF enlist], rule does_andthen[OF opens], rule does_close[OF others]) simp_all
qed

text \<open>
  C16: A report of a bad file, with any other sessions interleaved at its awaits. If it is refused before the
  claim on the library path, nothing happened at all. Otherwise everything lies between the beginning of the
  claim (with the leases under the path revoked) and its end, and the first thing inside is one commit after which
  the release is blocklisted, the target is searching again and its incomplete-delete marker is armed; only
  then come, in this order, the removal of the torrent, the purge of the reported path, the scan and the
  commit that records it. If that first transaction does not go through, say because another active
  request holds the title, nothing is removed or purged. A report that answers success has done all of it, and after the
  claim only a failing database call cuts it short.
\<close>

theorem report_claims_before_destroying:
  assumes "sound_others ve" and "sound_db (ss_saved (dk_session d))" "sound_db (ss_db (dk_session d))" "dk_trace d = []"
    and "report_issue ve rid reason ssn d = (r, d')"
  shows "report_outcome rid reason r (dk_trace d')"
proof -
  have d: "at_desk (\<lambda>a b i t. t = []) d" using assms(2-4) by (simp add: at_desk_def)
  note rules = does_Inr[OF does_report[OF assms(1)] d] does_Inl[OF does_report[OF assms(1)] d]
  show ?thesis using rules(1)[of rid reason ssn] rules(2)[of rid reason ssn] assms(5) by (cases r) (auto simp: at_desk_def)
qed

end
