(* ===== verification/CorrectionExamples.thy ===== *)
theory CorrectionExamples
  imports ReportOrder
begin

text \<open>
  Concrete corrections: a show whose season is downloading, cancelled by its owner and withdrawn from by its
  only participant, and an available movie that is reported.
\<close>

definition plain_env :: verb_env where
  "plain_env = \<lparr>ve_su = \<lparr>su_now = 10, su_others = (\<lambda>_ db. db), su_get_movie = (\<lambda>_ _. TmdbUnknown),
       su_get_tv_show = (\<lambda>_ _. TmdbUnknown), su_library = None\<rparr>,
     ve_has_client = True,
     ve_roots = \<lparr>lr_movies = Some ''/m'', lr_tv = Some ''/t'', lr_anime_movie = None, lr_anime_tv = None\<rparr>,
     ve_mounted = (\<lambda>_ _. True), ve_begin_purge = (\<lambda>_ _. True),
     ve_purge = (\<lambda>_ _. \<lparr>pu_outcome = Purge_deleted, pu_freed_bytes = 5, pu_detail = None\<rparr>)\<rparr>"

definition desk_at :: "app_db \<Rightarrow> desk" where
  "desk_at db = \<lparr>dk_session = open_session db, dk_removal_ids = [], dk_trace = []\<rparr>"

lemma plain_others: "sound_others plain_env" "stable plain_env K"
  by (simp_all add: sound_others_def stable_def plain_env_def)

definition show_db :: app_db where
  "show_db = blank_db\<lparr>a_users := [5], a_requests := [new_request_row 7 1399 Tv ''Show'' ''downloading'' (plain_request\<lparr>nr_user_id := Some 5\<rparr>)],
     a_seasons := [new_season 8 7 2 ''downloading'' False],
     a_subscribers := [\<lparr>sb_request_id = 7, sb_user_id = 5, sb_subscribed_at = 1\<rparr>],
     a_store := ex_db2, a_next_id := 9\<rparr>"

lemma show_db_sound: "sound_db show_db"
proof -
  have "app_inv show_db" by code_simp
  moreover have "repo_inv (a_store show_db)"
    using download_store.reachable_inv[OF ex_db2_reachable] by (simp add: show_db_def)
  ultimately show ?thesis by (simp add: sound_db_def)
qed

definition event_name :: "verb_event \<Rightarrow> string" where
  "event_name e = (case e of Committed _ _ \<Rightarrow> ''commit'' | RemovalRegistered _ \<Rightarrow> ''register'' | RemovalReleased _ \<Rightarrow> ''release''
     | PurgeBegun _ \<Rightarrow> ''begin'' | LeasesRevoked _ \<Rightarrow> ''revoke'' | PurgeEnded _ \<Rightarrow> ''end'' | TorrentAdded _ _ \<Rightarrow> ''add'' | TorrentRemoved _ \<Rightarrow> ''remove''
     | TreePurged _ _ \<Rightarrow> ''purge'' | LibraryScanned _ _ \<Rightarrow> ''scan'')"

definition cancelled_show :: "(verb_error + request_record) \<times> desk" where
  "cancelled_show = cancel_request plain_env 7 (desk_at show_db)"

lemma cancelled_show_run:
  "map_prod (map_sum id rr_status) (\<lambda>d. map event_name (dk_trace d)) cancelled_show
     = (Inr ''cancelled'', [''register'', ''commit'', ''remove'', ''release''])"
  by code_simp

lemma desk_at_fields [simp]:
  "ss_saved (dk_session (desk_at db)) = db" "ss_db (dk_session (desk_at db)) = db" "dk_removal_ids (desk_at db) = []"
  "dk_trace (desk_at db) = []"
  by (simp_all add: desk_at_def open_session_def)

theorem cancel_settles_before_removing_witness:
  "\<exists>A B. cancels 7 A B \<and> dk_trace (snd cancelled_show) = cancel_events 7 A B"
proof -
  have run: "cancel_request plain_env 7 (desk_at show_db) = (fst cancelled_show, snd cancelled_show)"
    by (simp add: cancelled_show_def)
  have "\<not> (\<exists>e. fst cancelled_show = Inl e)" using arg_cong[OF cancelled_show_run, of fst] by (cases "fst cancelled_show") auto
  then show ?thesis
    using cancel_settles_before_removing[OF plain_others(1) _ _ _ _ run] show_db_sound by simp
qed

definition owner_cancelled :: "(verb_error + request_record) \<times> desk" where
  "owner_cancelled = cancel_request_as_owner plain_env 7 5 (desk_at show_db)"

lemma owner_cancelled_run: "map_sum id rr_status (fst owner_cancelled) = Inr ''cancelled''"
  by code_simp

theorem owner_cancels_alone_witness:
  "\<exists>A B. filter (\<lambda>s. sb_request_id s = 7 \<and> sb_user_id s \<noteq> 5) (a_subscribers A) = [] \<and> cancels 7 A B
     \<and> dk_trace (snd owner_cancelled) = cancel_events 7 A B"
proof -
  have run: "cancel_request_as_owner plain_env 7 5 (desk_at show_db) = (fst owner_cancelled, snd owner_cancelled)"
    by (simp add: owner_cancelled_def)
  have "\<not> (\<exists>e. fst owner_cancelled = Inl e)" using owner_cancelled_run by (cases "fst owner_cancelled") auto
  then show ?thesis
    using owner_cancels_alone[OF plain_others(1) _ _ _ _ run] show_db_sound by (auto simp: filter_empty_conv)
qed

definition withdrawn_show :: "(verb_error + WithdrawOutcome) \<times> desk" where
  "withdrawn_show = withdraw_participant plain_env 7 5 (desk_at show_db)"

lemma withdrawn_show_run:
  "map_prod (map_sum id (\<lambda>w. (rr_status (wd_record w), rr_user_id (wd_record w), wd_settled w)))
       (\<lambda>d. map event_name (dk_trace d)) withdrawn_show
     = (Inr (''cancelled'', None, True), [''register'', ''commit'', ''remove'', ''release'', ''commit''])"
  by code_simp

lemma show_seasoned: "seasoned 7 show_db"
  by (simp add: seasoned_def has_seasons_def show_db_def new_season_def)

theorem withdrawal_strands_nobody_witness:
  "\<exists>a b. last (dk_trace (snd withdrawn_show)) = Committed a b \<and> fair 7 5 a b \<and> \<not> is_subscriber b 7 5"
proof -
  have run: "withdraw_participant plain_env 7 5 (desk_at show_db) = (fst withdrawn_show, snd withdrawn_show)"
    by (simp add: withdrawn_show_def)
  obtain x where "fst withdrawn_show = Inr x" using arg_cong[OF withdrawn_show_run, of fst] by (cases "fst withdrawn_show") auto
  then obtain a b where "dk_trace (snd withdrawn_show) \<noteq> []" "last (dk_trace (snd withdrawn_show)) = Committed a b"
      "\<not> is_subscriber b 7 5" and fair: "\<And>a b. Committed a b \<in> set (dk_trace (snd withdrawn_show)) \<Longrightarrow> fair 7 5 a b"
    using withdrawal_strands_nobody[OF plain_others(1) plain_others(2) plain_others(2) _ _ _ _ _ run] show_db_sound show_seasoned
    by auto
  moreover from this have "fair 7 5 a b" by (intro fair) (metis last_in_set)
  ultimately show ?thesis by blast
qed

definition movie_store :: repo_db where
  "movie_store = snd (projr (create 0 ''bb'' ''imported'' (no_update\<lparr>su_media_request_id := Some 7, su_media_type := Some ''movie''\<rparr>)
     (empty_db [] [])))"

definition movie_db :: app_db where
  "movie_db = blank_db\<lparr>a_requests := [(new_request_row 7 603 Movie ''The Matrix'' ''available'' plain_request)
       \<lparr>q_library_path := Some ''/m/The Matrix (1999)''\<rparr>],
     a_store := movie_store, a_next_id := 8\<rparr>"

lemma movie_db_sound: "sound_db movie_db"
proof -
  have "app_inv movie_db" by code_simp
  moreover have "repo_inv movie_store"
  proof -
    let ?c = "create 0 ''bb'' ''imported'' (no_update\<lparr>su_media_request_id := Some 7, su_media_type := Some ''movie''\<rparr>) (empty_db [] [])"
    have "\<not> isl ?c" by code_simp
    then have "?c = Inr (fst (projr ?c), movie_store)" unfolding movie_store_def by (metis prod.collapse sum.collapse(2))
    then show ?thesis using create_inv repo_init_inv ex_db_steps(3) by blast
  qed
  ultimately show ?thesis by (simp add: sound_db_def movie_db_def)
qed

definition reported_movie :: "(verb_error + unit) \<times> desk" where
  "reported_movie = report_issue plain_env 7 ''user_reported'' None (desk_at movie_db)"

lemma reported_movie_run:
  "map_prod id (\<lambda>d. (map event_name (dk_trace d), map q_status (a_requests (ss_saved (dk_session d))))) reported_movie
     = (Inr (), [''begin'', ''revoke'', ''commit'', ''remove'', ''purge'', ''scan'', ''commit'', ''end''], [''searching''])"
  by code_simp

theorem report_claims_before_destroying_witness:
  "report_outcome 7 ''user_reported'' (Inr ()) (dk_trace (snd reported_movie)) \<and> dk_trace (snd reported_movie) \<noteq> []"
proof -
  have "report_issue plain_env 7 ''user_reported'' None (desk_at movie_db) = (Inr (), snd reported_movie)"
    using arg_cong[OF reported_movie_run, of fst] by (simp add: reported_movie_def prod_eq_iff)
  moreover have "dk_trace (snd reported_movie) \<noteq> []" using arg_cong[OF reported_movie_run, of snd] by auto
  ultimately show ?thesis using report_claims_before_destroying[OF plain_others(1), of "desk_at movie_db"] movie_db_sound by simp
qed

end
