(* ===== verification/GrabExamples.thy ===== *)
theory GrabExamples
  imports GrabSafety CorrectionExamples
begin

text \<open>
  Concrete grabs of a pack of two seasons for a show that misses one of them: undisturbed; with the season
  cancelled while the client adds the torrent; the same with a torrent the client already had; and the race
  in which another grab takes over the torrent just before the clean-up.
\<close>

definition pack_release :: scored_release where
  "pack_release = \<lparr>sc_candidate = \<lparr>guid = ''g1'', cand_title = ''Show.S02-S03.1080p.WEB'', size_bytes = 4, download_url = None,
       magnet_url = Some ''magnet:cc'', cand_info_hash = Some ''CC'', seeders = Some 50, leechers = None, indexer_id = 1,
       indexer_name = ''ix'', indexer_priority = 25, publish_date = 0, imdb_id = 0, cand_tmdb_id = 0, categories = [],
       cand_protocol = Torrent\<rparr>,
     sc_parsed = \<lparr>raw_title = ''Show.S02-S03.1080p.WEB'', pr_clean_title = ''Show'', pr_year = None, pr_season = ManyNum [2, 3],
       pr_episode = NoNum, pr_source = Src_WEBDL, pr_resolution = Res_R1080P, pr_modifier = Mod_NONE,
       pr_revision = \<lparr>rev_version = 1, rev_is_repack = False, rev_real = 0\<rparr>, release_group = None, pr_languages = [],
       pr_edition = None, hardcoded_subs = None\<rparr>,
     sc_quality = Q_WEBDL1080P, profile_index = 0, score = 1, covered_seasons = [2, 3], target_seasons = [2],
     upgrade_seasons = [], waste_seasons = [3], ignored_seasons = [], skipped_seasons = []\<rparr>"

definition pack_call :: grab_call where
  "pack_call = \<lparr>gc_scored = pack_release, gc_request_id = Some 7, gc_tmdb_id = Some 1399, gc_year = None, gc_season = Some 2,
     gc_episodes = None, gc_expected_season_status = Some ''searching'', gc_scope_episodes_by_season = None\<rparr>"

definition pack_db :: app_db where
  "pack_db = blank_db\<lparr>a_requests := [new_request_row 7 1399 Tv ''Show'' ''searching'' plain_request],
     a_seasons := [new_season 8 7 2 ''searching'' False, new_season 9 7 3 ''available'' False], a_next_id := 10\<rparr>"

definition client_with :: "bool \<Rightarrow> (nat \<Rightarrow> app_db \<Rightarrow> app_db) \<Rightarrow> grab_env" where
  "client_with created others = \<lparr>ge_base = plain_env\<lparr>ve_su := (ve_su plain_env)\<lparr>su_others := others\<rparr>\<rparr>,
     ge_add = (\<lambda>_ _. Some \<lparr>ar_torrent_hash = ''cc'', ar_created = created, ar_payload_pending = False\<rparr>),
     ge_status = (\<lambda>_ _. Some None), ge_files = (\<lambda>_ _. Some []), ge_removing = (\<lambda>_ _. False)\<rparr>"

text \<open>Another session that runs one operation at one of the places where the grab waits.\<close>

definition once :: "nat \<Rightarrow> 'a app_op \<Rightarrow> nat \<Rightarrow> app_db \<Rightarrow> app_db" where
  "once k m t db = (if t = k then case m db of Inl _ \<Rightarrow> db | Inr (_, db') \<Rightarrow> db' else db)"

definition cancel_season_2 :: "nat \<Rightarrow> app_db \<Rightarrow> app_db" where
  "cancel_season_2 = once 7 (set_status 10 7 2 ''cancelled'' False)"

definition undisturbed :: "(verb_error + download_record) \<times> desk" where
  "undisturbed = grab 0 (client_with True (\<lambda>_ db. db)) pack_call (desk_at pack_db)"

definition cancelled_midway :: "(verb_error + download_record) \<times> desk" where
  "cancelled_midway = grab 0 (client_with True cancel_season_2) pack_call (desk_at pack_db)"

section \<open>The runs, stage by stage\<close>

definition waited :: "nat \<Rightarrow> desk" where
  "waited t = (desk_at pack_db)\<lparr>dk_session := (open_session pack_db)\<lparr>ss_tick := t\<rparr>\<rparr>"

definition demo_plan :: grab_plan where
  "demo_plan = plan_for pack_call ''magnet:cc'' (Some ''tv'') (Some ''searching'') (Some ''searching'') (Some 2) None"

definition pack_added :: AddResult where
  "pack_added = \<lparr>ar_torrent_hash = ''cc'', ar_created = True, ar_payload_pending = False\<rparr>"

lemma before_the_add:
  "precheck 0 (client_with True (\<lambda>_ db. db)) demo_plan ''cc'' (waited 2) = (Inr None, waited 3)"
  "parallel_guard (client_with True (\<lambda>_ db. db)) demo_plan (Some ''cc'') (waited 3) = (Inr (), waited 7)"
  "precheck 0 (client_with True cancel_season_2) demo_plan ''cc'' (waited 2) = (Inr None, waited 3)"
  "parallel_guard (client_with True cancel_season_2) demo_plan (Some ''cc'') (waited 3) = (Inr (), waited 7)"
  by code_simp+

lemma the_gate:
  "grab_gate (client_with True (\<lambda>_ db. db)) pack_call ''magnet:cc'' (desk_at pack_db) = (Inr demo_plan, waited 2)"
  "grab_gate (client_with True cancel_season_2) pack_call ''magnet:cc'' (desk_at pack_db) = (Inr demo_plan, waited 2)"
  unfolding demo_plan_def by code_simp+

definition after_add :: "app_db \<Rightarrow> desk" where
  "after_add db = (desk_at db)\<lparr>dk_session := (open_session db)\<lparr>ss_tick := 8\<rparr>\<rparr>"

definition added_to :: "app_db \<Rightarrow> desk" where
  "added_to db = (after_add db)\<lparr>dk_trace := [TorrentAdded ''cc'' True]\<rparr>"

definition cancelled_db :: app_db where
  "cancelled_db = cancel_season_2 7 pack_db"

lemma the_add:
  "ask_client (client_with True (\<lambda>_ db. db)) (\<lambda>t. ge_add (client_with True (\<lambda>_ db. db)) t ''magnet:cc'') (waited 7)
     = (Inr pack_added, after_add pack_db)"
  "ask_client (client_with True cancel_season_2) (\<lambda>t. ge_add (client_with True cancel_season_2) t ''magnet:cc'') (waited 7)
     = (Inr pack_added, after_add cancelled_db)"
  by code_simp+

lemma the_call:
  "known_hash pack_call = Some ''cc''" "truthy_text (magnet_url (sc_candidate (gc_scored pack_call))) = Some ''magnet:cc''"
  "gp_source demo_plan = ''magnet:cc''" "py_lower (ar_torrent_hash pack_added) = ''cc''" "ar_created pack_added"
  by code_simp+

lemma the_emit: "emit (TorrentAdded ''cc'' True) (after_add db) = (Inr (), added_to db)"
  by (simp add: emit_def added_to_def after_add_def desk_at_def)

lemma the_rest:
  "undisturbed = track 0 (client_with True (\<lambda>_ db. db)) demo_plan ''cc'' pack_added (added_to pack_db)"
  "cancelled_midway = track 0 (client_with True cancel_season_2) demo_plan ''cc'' pack_added (added_to cancelled_db)"
  by (simp_all add: undisturbed_def cancelled_midway_def grab_def Let_def the_call andthen_def the_gate before_the_add
      add_and_track_def the_add the_emit)

lemma undisturbed_run:
  "map_prod (map_sum id (\<lambda>r. d_status (fst r))) (\<lambda>d. map event_name (dk_trace d)) undisturbed
     = (Inr ''downloading'', [''add'', ''commit''])"
  unfolding the_rest by code_simp

lemma cancelled_midway_run:
  "map_prod (map_sum id (\<lambda>r. d_status (fst r))) (\<lambda>d. map event_name (dk_trace d)) cancelled_midway
     = (Inl RequestNotActiveError, [''add'', ''remove''])"
  unfolding the_rest by code_simp

section \<open>The promises at these runs\<close>

lemma pack_db_sound: "sound_db pack_db"
proof -
  have "app_inv pack_db" by code_simp
  moreover have "repo_inv (a_store pack_db)"
    by (simp add: pack_db_def blank_db_def) (rule repo_init_inv, auto simp: repo_init_def)
  ultimately show ?thesis by (simp add: sound_db_def)
qed

lemma once_sound:
  assumes "sound_op m" "preserves a_store m"
  shows "sound_others (plain_env\<lparr>ve_su := (ve_su plain_env)\<lparr>su_others := once k m\<rparr>\<rparr>)"
    and "rows_stay (plain_env\<lparr>ve_su := (ve_su plain_env)\<lparr>su_others := once k m\<rparr>\<rparr>)"
proof -
  have "sound_db db \<Longrightarrow> sound_db (once k m t db)" for t db
    using assms(1) by (auto simp: once_def sound_op_def split: sum.splits)
  moreover have "row_at did h (once k m t db) = row_at did h db" for t db did h
    using preservesD[OF assms(2)] by (auto simp: once_def row_at_def split: sum.splits)
  ultimately show "sound_others (plain_env\<lparr>ve_su := (ve_su plain_env)\<lparr>su_others := once k m\<rparr>\<rparr>)"
    "rows_stay (plain_env\<lparr>ve_su := (ve_su plain_env)\<lparr>su_others := once k m\<rparr>\<rparr>)"
    by (simp_all add: sound_others_def rows_stay_def)
qed

lemma client_base: "ge_base (client_with created others) = plain_env\<lparr>ve_su := (ve_su plain_env)\<lparr>su_others := others\<rparr>\<rparr>"
  by (simp add: client_with_def)

lemma quiet_sound:
  "sound_others (ge_base (client_with created (\<lambda>_ db. db)))" "rows_stay (ge_base (client_with created (\<lambda>_ db. db)))"
  by (simp_all add: client_base sound_others_def rows_stay_def)

lemma cancel_sound:
  "sound_others (ge_base (client_with created cancel_season_2))" "rows_stay (ge_base (client_with created cancel_season_2))"
  unfolding client_base cancel_season_2_def
  by (intro once_sound sound_rules; rule store_keeps)+

theorem grab_all_or_nothing_witness:
  "fst cancelled_midway = Inl RequestNotActiveError \<and> list_all (\<lambda>e. \<not> is_commit e) (dk_trace (snd cancelled_midway))
     \<and> removes_own (dk_trace (snd cancelled_midway)) \<and> map event_name (dk_trace (snd cancelled_midway)) = [''add'', ''remove'']"
proof -
  have e: "fst cancelled_midway = Inl RequestNotActiveError"
    using arg_cong[OF cancelled_midway_run, of fst] by (cases "fst cancelled_midway") auto
  have "grab 0 (client_with True cancel_season_2) pack_call (desk_at pack_db) = (fst cancelled_midway, snd cancelled_midway)"
    by (simp add: cancelled_midway_def)
  from grab_all_or_nothing[OF cancel_sound _ _ _ this] show ?thesis
    using e pack_db_sound arg_cong[OF cancelled_midway_run, of snd] by simp
qed

theorem grab_commit_complete_witness:
  "\<exists>x a b p h. fst undisturbed = Inr x \<and> last (dk_trace (snd undisturbed)) = Committed a b \<and> planned pack_call p
     \<and> hash_of_grab (known_hash pack_call) h (dk_trace (snd undisturbed)) \<and> grab_committed p h b"
proof -
  have names: "map event_name (dk_trace (snd undisturbed)) = [''add'', ''commit'']"
    using arg_cong[OF undisturbed_run, of snd] by simp
  then obtain e f where t: "dk_trace (snd undisturbed) = [e, f]" "event_name e = ''add''" "event_name f = ''commit''" by auto
  then obtain a b where f: "f = Committed a b" by (cases f) (auto simp: event_name_def)
  have run: "grab 0 (client_with True (\<lambda>_ db. db)) pack_call (desk_at pack_db) = (fst undisturbed, snd undisturbed)"
    by (simp add: undisturbed_def)
  have "Committed a b \<in> set (dk_trace (snd undisturbed))" using t f by simp
  from grab_commit_complete[OF quiet_sound _ _ _ run this] obtain x p h where
    "fst undisturbed = Inr x" "planned pack_call p" "hash_of_grab (known_hash pack_call) h (dk_trace (snd undisturbed))"
    "grab_committed p h b" using pack_db_sound by auto
  moreover have "last (dk_trace (snd undisturbed)) = Committed a b" using t f by simp
  ultimately show ?thesis by blast
qed

end
